(* ===== verification/Prelude.thy ===== *)
theory Prelude
  imports Complex_Main "HOL-Library.Char_ord" "HOL-Library.List_Lexorder"
begin

text \<open>
  What every component theory shares: Go's time values, the part of the packages \<open>strings\<close>
  and \<open>strconv\<close> that the sources use, errors as a sum with its bind, and generic facts on
  lists that stand for tables.

  A Go string is a sequence of bytes, so it is a \<open>string\<close> (a list of 8-bit characters), and
  \<open>len\<close> is \<open>length\<close>.  Case mapping and white space are modelled on ASCII: a byte
  of 128 or more is neither a letter nor a space.  A \<open>time.Time\<close> is the number of
  nanoseconds since the Unix epoch, a \<open>time.Duration\<close> a number of nanoseconds.
\<close>

named_theorems table_simps \<open>reading and updating lists of rows\<close>
named_theorems frame_intros \<open>operations that respect the lease frame\<close>
named_theorems keeps_intros \<open>operations that keep a well-formedness invariant\<close>

type_synonym time = int
type_synonym duration = int

abbreviation millisecond :: duration where "millisecond \<equiv> 1000000"
abbreviation second :: duration where "second \<equiv> 1000000000"
abbreviation minute :: duration where "minute \<equiv> 60000000000"
abbreviation hour :: duration where "hour \<equiv> 3600000000000"

subsection \<open>Results\<close>

text \<open>A Go function that returns \<open>(value, error)\<close> returns \<open>Inl\<close> of the error or
  \<open>Inr\<close> of the value.\<close>

definition bind_r :: "'e + 'a \<Rightarrow> ('a \<Rightarrow> 'e + 'b) \<Rightarrow> 'e + 'b" where
  "bind_r x f = (case x of Inl e \<Rightarrow> Inl e | Inr a \<Rightarrow> f a)"

lemma bind_r_simps [simp]:
  "bind_r (Inl e) f = Inl e"
  "bind_r (Inr a) f = f a"
  by (simp_all add: bind_r_def)

lemma bind_r_Inr_iff: "bind_r x f = Inr b \<longleftrightarrow> (\<exists>a. x = Inr a \<and> f a = Inr b)"
  by (cases x) auto

lemma bind_r_cong [fundef_cong]:
  "x = y \<Longrightarrow> (\<And>a. y = Inr a \<Longrightarrow> f a = g a) \<Longrightarrow> bind_r x f = bind_r y g"
  by (cases y) auto

definition is_ok :: "'e + 'a \<Rightarrow> bool" where
  "is_ok x = (case x of Inl _ \<Rightarrow> False | Inr _ \<Rightarrow> True)"

lemma is_ok_simps [simp]: "is_ok (Inr a)" "\<not> is_ok (Inl e)"
  by (simp_all add: is_ok_def)

subsection \<open>The string functions of the standard library\<close>

definition has_prefix :: "string \<Rightarrow> string \<Rightarrow> bool" where
  "has_prefix s p = (take (length p) s = p)"

definition has_suffix :: "string \<Rightarrow> string \<Rightarrow> bool" where
  "has_suffix s p = (length p \<le> length s \<and> drop (length s - length p) s = p)"

fun contains_str :: "string \<Rightarrow> string \<Rightarrow> bool" where
  "contains_str [] p = (p = [])"
| "contains_str (c # s) p = (has_prefix (c # s) p \<or> contains_str s p)"

definition trim_prefix :: "string \<Rightarrow> string \<Rightarrow> string" where
  "trim_prefix s p = (if has_prefix s p then drop (length p) s else s)"

definition char_code :: "char \<Rightarrow> nat" where
  "char_code c = of_char c"

definition is_upper :: "char \<Rightarrow> bool" where
  "is_upper c = (65 \<le> char_code c \<and> char_code c \<le> 90)"

definition is_lower :: "char \<Rightarrow> bool" where
  "is_lower c = (97 \<le> char_code c \<and> char_code c \<le> 122)"

definition is_digit :: "char \<Rightarrow> bool" where
  "is_digit c = (48 \<le> char_code c \<and> char_code c \<le> 57)"

definition lower_char :: "char \<Rightarrow> char" where
  "lower_char c = (if is_upper c then char_of (char_code c + 32) else c)"

definition upper_char :: "char \<Rightarrow> char" where
  "upper_char c = (if is_lower c then char_of (char_code c - 32) else c)"

definition to_lower :: "string \<Rightarrow> string" where
  "to_lower s = map lower_char s"

definition equal_fold :: "string \<Rightarrow> string \<Rightarrow> bool" where
  "equal_fold s t = (to_lower s = to_lower t)"

definition is_space :: "char \<Rightarrow> bool" where
  "is_space c = (char_code c = 32 \<or> (9 \<le> char_code c \<and> char_code c \<le> 13))"

definition trim_right_by :: "(char \<Rightarrow> bool) \<Rightarrow> string \<Rightarrow> string" where
  "trim_right_by P s = rev (dropWhile P (rev s))"

definition trim_space :: "string \<Rightarrow> string" where
  "trim_space s = trim_right_by is_space (dropWhile is_space s)"

text \<open>\<open>strings.Split\<close> with a separator of one byte, \<open>strings.Cut\<close> likewise, and
  \<open>strings.ReplaceAll\<close> of one byte by another.\<close>

fun split_on :: "char \<Rightarrow> string \<Rightarrow> string list" where
  "split_on d [] = [[]]"
| "split_on d (c # s) =
     (if c = d then [] # split_on d s
      else (case split_on d s of [] \<Rightarrow> [[c]] | x # xs \<Rightarrow> (c # x) # xs))"

fun cut_at :: "char \<Rightarrow> string \<Rightarrow> string \<times> string \<times> bool" where
  "cut_at d [] = ([], [], False)"
| "cut_at d (c # s) =
     (if c = d then ([], s, True)
      else (case cut_at d s of (a, b, ok) \<Rightarrow> if ok then (c # a, b, True) else (c # s, [], False)))"

definition replace_char :: "char \<Rightarrow> char \<Rightarrow> string \<Rightarrow> string" where
  "replace_char a b s = map (\<lambda>c. if c = a then b else c) s"

fun join_with :: "string \<Rightarrow> string list \<Rightarrow> string" where
  "join_with d [] = []"
| "join_with d [x] = x"
| "join_with d (x # y # xs) = x @ d @ join_with d (y # xs)"

lemma split_on_not_Nil [simp]: "split_on d s \<noteq> []"
  by (cases s) (auto split: list.splits)

lemma split_on_plain: "d \<notin> set s \<Longrightarrow> split_on d s = [s]"
  by (induction s) auto

lemma split_on_join: "join_with [d] (split_on d s) = s"
proof (induction s)
  case (Cons c s)
  obtain x xs where sp: "split_on d s = x # xs" by (cases "split_on d s") auto
  then show ?case using Cons by (cases xs) auto
qed simp

lemma split_on_append: "d \<notin> set x \<Longrightarrow> split_on d (x @ d # s) = x # split_on d s"
  by (induction x) auto

lemma split_on_no_sep: "x \<in> set (split_on d s) \<Longrightarrow> d \<notin> set x"
proof (induction s arbitrary: x)
  case (Cons c s)
  obtain y ys where sp: "split_on d s = y # ys" by (cases "split_on d s") auto
  show ?case using Cons.prems Cons.IH by (auto simp: sp split: if_splits)
qed simp

lemma has_prefix_append [simp]: "has_prefix (p @ s) p"
  by (simp add: has_prefix_def)

lemma has_prefix_iff: "has_prefix s p \<longleftrightarrow> (\<exists>r. s = p @ r)"
  by (metis append_take_drop_id has_prefix_append has_prefix_def)

lemma to_lower_append [simp]: "to_lower (s @ t) = to_lower s @ to_lower t"
  by (simp add: to_lower_def)

lemma to_lower_Nil [simp]: "to_lower [] = []"
  by (simp add: to_lower_def)

lemma length_to_lower [simp]: "length (to_lower s) = length s"
  by (simp add: to_lower_def)

lemma char_code_lower: "char_code (lower_char c) = (if is_upper c then char_code c + 32 else char_code c)"
  by (auto simp: lower_char_def char_code_def is_upper_def)

lemma lower_char_idem [simp]: "lower_char (lower_char c) = lower_char c"
  using char_code_lower [of c] by (auto simp: lower_char_def is_upper_def)

lemma to_lower_idem [simp]: "to_lower (to_lower s) = to_lower s"
  by (simp add: to_lower_def)

lemma dropWhile_hd: "dropWhile P s = c # t \<Longrightarrow> \<not> P c"
  by (metis hd_dropWhile list.distinct(1) list.sel(1))

lemma trim_right_by_idem [simp]: "trim_right_by P (trim_right_by P s) = trim_right_by P s"
  by (simp add: trim_right_by_def dropWhile_idem)

lemma trim_right_by_prefix: "\<exists>t. s = trim_right_by P s @ t \<and> list_all P t"
proof -
  have "rev s = takeWhile P (rev s) @ dropWhile P (rev s)" by simp
  then have "s = rev (dropWhile P (rev s)) @ rev (takeWhile P (rev s))"
    by (metis rev_append rev_rev_ident)
  moreover have "list_all P (rev (takeWhile P (rev s)))"
    by (auto simp: list_all_iff dest: set_takeWhileD)
  ultimately show ?thesis by (auto simp: trim_right_by_def)
qed

lemma trim_right_by_last: "trim_right_by P s \<noteq> [] \<Longrightarrow> \<not> P (last (trim_right_by P s))"
  by (simp add: trim_right_by_def last_rev hd_dropWhile)

lemma trim_space_idem [simp]: "trim_space (trim_space s) = trim_space s"
proof -
  let ?d = "dropWhile is_space s"
  obtain t where t: "?d = trim_right_by is_space ?d @ t" and sp: "list_all is_space t"
    using trim_right_by_prefix by blast
  have "dropWhile is_space (trim_right_by is_space ?d) = trim_right_by is_space ?d"
  proof (cases "trim_right_by is_space ?d")
    case (Cons c r)
    with t have "?d = c # (r @ t)" by simp
    then have "\<not> is_space c" by (rule dropWhile_hd)
    with Cons show ?thesis by simp
  qed simp
  then show ?thesis by (simp add: trim_space_def)
qed

subsection \<open>Decimal numbers\<close>

fun digits_rev :: "nat \<Rightarrow> nat list" where
  "digits_rev n = (if n < 10 then [n] else (n mod 10) # digits_rev (n div 10))"

declare digits_rev.simps [simp del]

definition show_nat :: "nat \<Rightarrow> string" where
  "show_nat n = map (\<lambda>d. char_of (48 + d)) (rev (digits_rev n))"

definition show_int :: "int \<Rightarrow> string" where
  "show_int i = (if i < 0 then CHR ''-'' # show_nat (nat (- i)) else show_nat (nat i))"

definition digits_value :: "string \<Rightarrow> int" where
  "digits_value s = foldl (\<lambda>n c. 10 * n + (int (char_code c) - 48)) 0 s"

definition max_int64 :: int where "max_int64 = 9223372036854775807"
definition min_int64 :: int where "min_int64 = - 9223372036854775808"

definition in_int64 :: "int \<Rightarrow> bool" where
  "in_int64 i = (min_int64 \<le> i \<and> i \<le> max_int64)"

text \<open>\<open>strconv.ParseInt(s, 10, 64)\<close>: an optional sign, at least one digit, nothing else,
  and a value in range.\<close>

definition parse_int :: "string \<Rightarrow> int option" where
  "parse_int s =
     (let (neg, body) =
        (case s of [] \<Rightarrow> (False, [])
         | c # r \<Rightarrow> if c = CHR ''-'' then (True, r) else if c = CHR ''+'' then (False, r) else (False, s))
      in if body \<noteq> [] \<and> list_all is_digit body
         then (let v = (if neg then - digits_value body else digits_value body)
               in if in_int64 v then Some v else None)
         else None)"

lemma digits_rev_bound: "d \<in> set (digits_rev n) \<Longrightarrow> d < 10"
proof (induction n rule: digits_rev.induct)
  case (1 n)
  then show ?case by (cases "n < 10") (auto simp: digits_rev.simps [of n])
qed

lemma digits_rev_not_Nil [simp]: "digits_rev n \<noteq> []"
  by (subst digits_rev.simps) simp

definition of_digits :: "nat list \<Rightarrow> nat" where
  "of_digits ds = foldl (\<lambda>n d. 10 * n + d) 0 ds"

lemma of_digits_digits: "of_digits (rev (digits_rev n)) = n"
proof (induction n rule: digits_rev.induct)
  case (1 n)
  then show ?case
    by (cases "n < 10") (simp_all add: digits_rev.simps [of n] of_digits_def)
qed

lemma char_code_digit: "d < 10 \<Longrightarrow> char_code (char_of (48 + d)) = 48 + d"
  by (simp add: char_code_def)

lemma digits_value_map:
  "\<forall>d \<in> set ds. d < 10 \<Longrightarrow> digits_value (map (\<lambda>d. char_of (48 + d)) ds) = int (of_digits ds)"
proof -
  assume a: "\<forall>d \<in> set ds. d < 10"
  have "foldl (\<lambda>n c. 10 * n + (int (char_code c) - 48)) (int m) (map (\<lambda>d. char_of (48 + d)) ds)
        = int (foldl (\<lambda>n d. 10 * n + d) m ds)" for m
    using a
  proof (induction ds arbitrary: m)
    case (Cons d ds)
    then have "char_code (char_of (48 + d)) = 48 + d" by (simp add: char_code_digit)
    then show ?case using Cons.IH [of "10 * m + d"] Cons.prems by simp
  qed simp
  from this [of 0] show ?thesis by (simp add: digits_value_def of_digits_def)
qed

lemma digits_value_show_nat: "digits_value (show_nat n) = int n"
  using digits_rev_bound by (simp add: show_nat_def digits_value_map of_digits_digits)

lemma show_nat_digits: "list_all is_digit (show_nat n)"
  using digits_rev_bound [of _ n]
  by (fastforce simp: show_nat_def list_all_iff is_digit_def char_code_digit)

lemma show_nat_not_Nil [simp]: "show_nat n \<noteq> []"
  by (simp add: show_nat_def)

lemma show_nat_inj: "show_nat m = show_nat n \<longleftrightarrow> m = n"
  by (metis digits_value_show_nat of_nat_eq_iff)

lemma not_digit_sign: "\<not> is_digit (CHR ''-'')" "\<not> is_digit (CHR ''+'')"
  by (simp_all add: is_digit_def char_code_def)

text \<open>Formatting and parsing are inverse on the machine integers.\<close>

lemma parse_show_int: "in_int64 i \<Longrightarrow> parse_int (show_int i) = Some i"
proof (cases "i < 0")
  case True
  assume "in_int64 i"
  then show ?thesis using True
    by (simp add: parse_int_def show_int_def show_nat_digits digits_value_show_nat)
next
  case False
  assume b: "in_int64 i"
  obtain c r where c: "show_nat (nat i) = c # r" by (cases "show_nat (nat i)") auto
  with show_nat_digits [of "nat i"] have "is_digit c" by simp
  then have "c \<noteq> CHR ''-''" "c \<noteq> CHR ''+''" using not_digit_sign by auto
  moreover have "list_all is_digit (c # r)" "digits_value (c # r) = i"
    using c show_nat_digits [of "nat i"] digits_value_show_nat [of "nat i"] False by auto
  ultimately show ?thesis using b False c by (simp add: parse_int_def show_int_def)
qed

lemma show_int_inj: "show_int i = show_int j \<longleftrightarrow> i = j"
proof
  assume eq: "show_int i = show_int j"
  have hd: "hd (show_nat n) \<noteq> CHR ''-''" for n
  proof -
    obtain c r where "show_nat n = c # r" by (cases "show_nat n") auto
    with show_nat_digits [of n] show ?thesis by (auto simp: not_digit_sign)
  qed
  then have "show_nat n \<noteq> CHR ''-'' # x" for n x by (metis list.sel(1))
  then have "i < 0 \<longleftrightarrow> j < 0"
    using eq by (auto simp: show_int_def split: if_splits) metis
  with eq show "i = j" by (auto simp: show_int_def show_nat_inj split: if_splits)
qed simp

lemma show_int_no_colon: "CHR '':'' \<notin> set (show_int i)"
proof -
  have "CHR '':'' \<notin> set (show_nat n)" for n
    using show_nat_digits [of n] by (auto simp: list_all_iff is_digit_def char_code_def)
  then show ?thesis by (simp add: show_int_def)
qed

text \<open>The last separator of a joined name can be found again.\<close>

lemma last_sep_inj:
  assumes "x @ d # s = y @ d # t" and "d \<notin> set s" and "d \<notin> set t"
  shows "x = y" and "s = t"
proof -
  have "rev s @ d # rev x = rev t @ d # rev y"
    using arg_cong [OF assms(1), of rev] by simp
  then have "takeWhile (\<lambda>c. c \<noteq> d) (rev s @ d # rev x) = takeWhile (\<lambda>c. c \<noteq> d) (rev t @ d # rev y)"
    by simp
  moreover have "takeWhile (\<lambda>c. c \<noteq> d) (rev u) = rev u" if "d \<notin> set u" for u
    using that by (simp add: takeWhile_eq_all_conv) metis
  ultimately have "rev s = rev t" using assms(2,3) by (simp add: takeWhile_tail)
  then show "s = t" by simp
  with assms(1) show "x = y" by simp
qed

subsection \<open>Tables as lists of rows\<close>

text \<open>\<open>UPDATE ... SET f WHERE P\<close> maps the rows that satisfy \<open>P\<close>; the
  statement's row count is \<open>matching P\<close>.\<close>

definition update_where :: "('r \<Rightarrow> bool) \<Rightarrow> ('r \<Rightarrow> 'r) \<Rightarrow> 'r list \<Rightarrow> 'r list" where
  "update_where P f rows = map (\<lambda>r. if P r then f r else r) rows"

definition matching :: "('r \<Rightarrow> bool) \<Rightarrow> 'r list \<Rightarrow> nat" where
  "matching P rows = length (filter P rows)"

lemma update_where_Nil [simp, table_simps]: "update_where P f [] = []"
  by (simp add: update_where_def)

lemma update_where_Cons [simp, table_simps]:
  "update_where P f (r # rs) = (if P r then f r else r) # update_where P f rs"
  by (simp add: update_where_def)

lemma update_where_append [table_simps]:
  "update_where P f (xs @ ys) = update_where P f xs @ update_where P f ys"
  by (simp add: update_where_def)

lemma length_update_where [simp, table_simps]: "length (update_where P f rows) = length rows"
  by (simp add: update_where_def)

lemma set_update_where [table_simps]:
  "set (update_where P f rows) = (\<lambda>r. if P r then f r else r) ` set rows"
  by (simp add: update_where_def)

lemma list_ex_update_where:
  "list_ex P (update_where Q f rows) = list_ex (\<lambda>r. P (if Q r then f r else r)) rows"
  by (induction rows) auto

lemma update_where_none: "\<forall>r \<in> set rows. \<not> P r \<Longrightarrow> update_where P f rows = rows"
  by (induction rows) auto

lemma matching_0: "matching P rows = 0 \<longleftrightarrow> (\<forall>r \<in> set rows. \<not> P r)"
  by (auto simp: matching_def filter_empty_conv)

lemma map_key_update_where [simp, table_simps]:
  "(\<And>r. P r \<Longrightarrow> k (f r) = k r) \<Longrightarrow> map k (update_where P f rows) = map k rows"
  by (induction rows) auto

lemma filter_update_where:
  "(\<And>r. P r \<Longrightarrow> Q (f r) = Q r) \<Longrightarrow>
   filter Q (update_where P f rows) = update_where P f (filter Q rows)"
  by (induction rows) auto

lemma find_None_iff_all: "find P xs = None \<longleftrightarrow> (\<forall>x \<in> set xs. \<not> P x)"
  by (auto simp: find_None_iff)

lemma find_Some_in: "find P xs = Some x \<Longrightarrow> x \<in> set xs \<and> P x"
  by (metis find_Some_iff nth_mem)

lemma find_update_where_key:
  assumes "\<And>r. k (f r) = k r"
  shows "find (\<lambda>r. k r = i) (update_where P f rows) =
         map_option (\<lambda>r. if P r then f r else r) (find (\<lambda>r. k r = i) rows)"
  using assms by (induction rows) auto

lemma distinct_key_eq:
  "distinct (map k rows) \<Longrightarrow> r \<in> set rows \<Longrightarrow> s \<in> set rows \<Longrightarrow> k r = k s \<Longrightarrow> r = s"
  by (metis distinct_map inj_onD)

lemma find_key_distinct:
  "distinct (map k rows) \<Longrightarrow> r \<in> set rows \<Longrightarrow> find (\<lambda>x. k x = k r) rows = Some r"
  by (induction rows) (auto simp: image_iff)

lemma length_filter_append_one:
  "length (filter P (xs @ [x])) = length (filter P xs) + (if P x then 1 else 0)"
  by simp

end
