(* ===== verification/AiSchema.thy ===== *)
theory AiSchema
  imports Prelude
begin

text \<open>
  The structured half of a reel (\<open>internal/ai/schema.go\<close>, the data of \<open>internal/ai/ai.go\<close>)
  and coordinates (\<open>internal/geo/geo.go\<close>).  \<open>Normalize\<close> turns model output into data;
  the lemmas show that what it returns is within every limit and that it is a normal form.

  A rune of a valid UTF-8 string starts at each byte that is not a continuation byte.  A
  \<open>float64\<close> is a rational, an infinity or NaN; a comparison with NaN is false.
\<close>

subsection \<open>Floats and coordinates (geo.go)\<close>

datatype float64 = Fin rat | PosInf | NegInf | NaN

fun f_less :: "float64 \<Rightarrow> float64 \<Rightarrow> bool" where
  "f_less NaN y = False"
| "f_less x NaN = False"
| "f_less (Fin x) (Fin y) = (x < y)"
| "f_less NegInf y = (y \<noteq> NegInf)"
| "f_less x PosInf = (x \<noteq> PosInf)"
| "f_less PosInf y = False"
| "f_less (Fin x) NegInf = False"

definition f_ge :: "float64 \<Rightarrow> float64 \<Rightarrow> bool" where
  "f_ge x y = (x \<noteq> NaN \<and> y \<noteq> NaN \<and> \<not> f_less x y)"

definition is_inf :: "float64 \<Rightarrow> bool" where
  "is_inf x = (x = PosInf \<or> x = NegInf)"

record geo_point =
  latitude :: float64
  longitude :: float64

datatype geo_err = ErrOutOfRange | ErrNotFinite | ErrEmptyBounds

definition NewPoint :: "float64 \<Rightarrow> float64 \<Rightarrow> geo_err + geo_point" where
  "NewPoint lat lng =
     (if lat = NaN \<or> lng = NaN \<or> is_inf lat \<or> is_inf lng then Inl ErrNotFinite
      else if f_less lat (Fin (- 90)) \<or> f_less (Fin 90) lat then Inl ErrOutOfRange
      else if f_less lng (Fin (- 180)) \<or> f_less (Fin 180) lng then Inl ErrOutOfRange
      else Inr \<lparr>latitude = lat, longitude = lng\<rparr>)"

record bounds =
  south :: float64
  west :: float64
  north :: float64
  east :: float64

definition NewBounds :: "float64 \<Rightarrow> float64 \<Rightarrow> float64 \<Rightarrow> float64 \<Rightarrow> geo_err + bounds" where
  "NewBounds s w n e =
     bind_r (NewPoint s w) (\<lambda>sw. bind_r (NewPoint n e) (\<lambda>ne.
       if f_ge (latitude sw) (latitude ne) then Inl ErrEmptyBounds
       else Inr \<lparr>south = s, west = w, north = n, east = e\<rparr>))"

definition CrossesAntimeridian :: "bounds \<Rightarrow> bool" where
  "CrossesAntimeridian b = f_less (east b) (west b)"

definition on_earth :: "float64 \<Rightarrow> float64 \<Rightarrow> bool" where
  "on_earth lat lng = (\<exists>x y. lat = Fin x \<and> lng = Fin y \<and> \<bar>x\<bar> \<le> 90 \<and> \<bar>y\<bar> \<le> 180)"

lemma NewPoint_on_earth: "NewPoint lat lng = Inr p \<longleftrightarrow> on_earth lat lng \<and> p = \<lparr>latitude = lat, longitude = lng\<rparr>"
  by (cases lat; cases lng) (auto simp: NewPoint_def on_earth_def is_inf_def)

subsection \<open>The data (schema.go, ai.go)\<close>

definition PromptVersion :: string where "PromptVersion = ''prompt-v2''"
definition extraction_SchemaVersion :: string where "extraction_SchemaVersion = ''extraction-v2''"

definition MaxTitleRunes :: nat where "MaxTitleRunes = 200"
definition MaxSummaryRunes :: nat where "MaxSummaryRunes = 2000"
definition MaxLabelRunes :: nat where "MaxLabelRunes = 120"
definition MaxListItems :: nat where "MaxListItems = 50"
definition MaxLocations :: nat where "MaxLocations = 25"
definition MaxEvents :: nat where "MaxEvents = 25"
definition MaxFactRunes :: nat where "MaxFactRunes = 500"

record location =
  loc_name :: string
  loc_neighborhood :: string
  loc_city :: string
  loc_state :: string
  loc_country :: string
  loc_latitude :: "float64 option"
  loc_longitude :: "float64 option"

record ai_event =
  ae_name :: string
  ae_date :: string
  ae_time :: string

record extraction =
  x_title :: string
  x_summary :: string
  x_domain :: string
  x_format :: string
  x_tags :: "string list"
  x_facts :: "string list"
  x_locations :: "location list"
  x_people :: "string list"
  x_actions :: "string list"
  x_events :: "ai_event list"

record category_proposal =
  cp_name :: string
  cp_description :: string

record category =
  cat_category :: string
  cat_subcategory :: string
  cat_proposal :: "category_proposal option"

record media =
  med_path :: string
  med_mime :: string

record taxonomy_sub =
  ts_id :: string
  ts_name :: string
  ts_description :: string

record taxonomy_option =
  to_id :: string
  to_name :: string
  to_description :: string
  to_subs :: "taxonomy_sub list"

definition Address :: "location \<Rightarrow> string" where
  "Address l =
     join_with '', '' (filter (\<lambda>p. p \<noteq> []) (map trim_space
       [loc_neighborhood l, loc_city l, loc_state l, loc_country l]))"

definition hasText :: "location \<Rightarrow> bool" where
  "hasText l =
     (trim_space (loc_name l @ loc_neighborhood l @ loc_city l @ loc_state l @ loc_country l) \<noteq> [])"

definition extraction_ok :: "extraction \<Rightarrow> bool" where
  "extraction_ok e = (\<not> (trim_space (x_title e) = [] \<and> trim_space (x_summary e) = []))"

subsection \<open>Normalize\<close>

definition is_start :: "char \<Rightarrow> bool" where
  "is_start c = (char_code c < 128 \<or> 192 \<le> char_code c)"

definition rune_count :: "string \<Rightarrow> nat" where
  "rune_count s = length (filter is_start s)"

fun take_runes :: "nat \<Rightarrow> string \<Rightarrow> string" where
  "take_runes n [] = []"
| "take_runes n (c # s) =
     (if is_start c then (case n of 0 \<Rightarrow> [] | Suc m \<Rightarrow> c # take_runes m s)
      else c # take_runes n s)"

definition truncate :: "string \<Rightarrow> nat \<Rightarrow> string" where
  "truncate v limit = (if rune_count v \<le> limit then v else trim_space (take_runes limit v))"

fun firstNonEmpty :: "string list \<Rightarrow> string" where
  "firstNonEmpty [] = ''Unknown place''"
| "firstNonEmpty (v # vs) = (if v \<noteq> [] then v else firstNonEmpty vs)"

text \<open>The loop of \<open>cleanList\<close>, with what it has seen and how many it kept.\<close>

fun clean_from :: "nat \<Rightarrow> string list \<Rightarrow> nat \<Rightarrow> string list \<Rightarrow> string list" where
  "clean_from limit seen kept [] = []"
| "clean_from limit seen kept (v # vs) =
     (let item = truncate (trim_space v) limit
      in if item = [] \<or> to_lower item \<in> set seen then clean_from limit seen kept vs
         else item # (if Suc kept \<ge> MaxListItems then []
                      else clean_from limit (to_lower item # seen) (Suc kept) vs))"

definition cleanList :: "string list \<Rightarrow> nat \<Rightarrow> string list" where
  "cleanList vs limit = clean_from limit [] 0 vs"

definition validCoordinates :: "float64 option \<Rightarrow> float64 option \<Rightarrow> float64 option \<times> float64 option" where
  "validCoordinates lat lng =
     (case (lat, lng) of
        (Some x, Some y) \<Rightarrow>
          if f_less x (Fin (- 90)) \<or> f_less (Fin 90) x \<or> f_less y (Fin (- 180)) \<or> f_less (Fin 180) y
            then (None, None)
          else if x = Fin 0 \<and> y = Fin 0 then (None, None)
          else (Some x, Some y)
      | _ \<Rightarrow> (None, None))"

text \<open>\<open>isoDate\<close> and \<open>time.Parse\<close>, which refuses a day outside its month.\<close>

definition leap_year :: "nat \<Rightarrow> bool" where
  "leap_year y = (y mod 4 = 0 \<and> (y mod 100 \<noteq> 0 \<or> y mod 400 = 0))"

definition days_in :: "nat \<Rightarrow> nat \<Rightarrow> nat" where
  "days_in y m = (if m = 2 then (if leap_year y then 29 else 28) else if m \<in> {4, 6, 9, 11} then 30 else 31)"

definition nat_of :: "string \<Rightarrow> nat" where
  "nat_of s = nat (digits_value s)"

definition is_iso_date :: "string \<Rightarrow> bool" where
  "is_iso_date s =
     (length s = 10 \<and> s ! 4 = CHR ''-'' \<and> s ! 7 = CHR ''-''
      \<and> list_all is_digit (take 4 s) \<and> list_all is_digit (take 2 (drop 5 s)) \<and> list_all is_digit (drop 8 s))"

definition real_date :: "string \<Rightarrow> bool" where
  "real_date s =
     (let y = nat_of (take 4 s); m = nat_of (take 2 (drop 5 s)); d = nat_of (drop 8 s)
      in 1 \<le> m \<and> m \<le> 12 \<and> 1 \<le> d \<and> d \<le> days_in y m)"

definition validDate :: "string \<Rightarrow> string" where
  "validDate v =
     (let cleaned = trim_space v
      in if \<not> is_iso_date cleaned then [] else if \<not> real_date cleaned then [] else cleaned)"

definition is_clock :: "string \<Rightarrow> bool" where
  "is_clock s =
     (length s = 5 \<and> s ! 2 = CHR '':'' \<and> list_all is_digit (take 2 s) \<and> list_all is_digit (drop 3 s)
      \<and> nat_of (take 2 s) \<le> 23 \<and> nat_of (drop 3 s) \<le> 59)"

definition validClock :: "string \<Rightarrow> string" where
  "validClock v = (let cleaned = trim_space v in if is_clock cleaned then cleaned else [])"

definition label :: "string \<Rightarrow> string" where
  "label s = truncate (trim_space s) MaxLabelRunes"

definition norm_location :: "location \<Rightarrow> location option" where
  "norm_location l =
     (let c = \<lparr>loc_name = label (loc_name l), loc_neighborhood = label (loc_neighborhood l),
               loc_city = label (loc_city l), loc_state = label (loc_state l),
               loc_country = label (loc_country l), loc_latitude = None, loc_longitude = None\<rparr>
      in if \<not> hasText c then None
         else (let c1 = (if loc_name c = [] then c\<lparr>loc_name := firstNonEmpty
                           [loc_neighborhood c, loc_city c, loc_state c, loc_country c]\<rparr> else c);
                   (lat, lng) = validCoordinates (loc_latitude l) (loc_longitude l)
               in Some (c1\<lparr>loc_latitude := lat, loc_longitude := lng\<rparr>)))"

definition norm_event :: "ai_event \<Rightarrow> ai_event option" where
  "norm_event e =
     (if label (ae_name e) = [] then None
      else Some \<lparr>ae_name = label (ae_name e), ae_date = validDate (ae_date e), ae_time = validClock (ae_time e)\<rparr>)"

text \<open>A loop that skips what \<open>f\<close> drops and stops once it has kept \<open>cap\<close>.\<close>

fun keep_upto :: "nat \<Rightarrow> ('a \<Rightarrow> 'b option) \<Rightarrow> nat \<Rightarrow> 'a list \<Rightarrow> 'b list" where
  "keep_upto cap f kept [] = []"
| "keep_upto cap f kept (x # xs) =
     (if kept \<ge> cap then []
      else (case f x of None \<Rightarrow> keep_upto cap f kept xs
                      | Some y \<Rightarrow> y # keep_upto cap f (Suc kept) xs))"

definition Normalize :: "extraction \<Rightarrow> extraction" where
  "Normalize e =
     \<lparr>x_title = truncate (trim_space (x_title e)) MaxTitleRunes,
      x_summary = truncate (trim_space (x_summary e)) MaxSummaryRunes,
      x_domain = label (x_domain e), x_format = label (x_format e),
      x_tags = cleanList (x_tags e) MaxLabelRunes, x_facts = cleanList (x_facts e) MaxFactRunes,
      x_locations = keep_upto MaxLocations norm_location 0 (x_locations e),
      x_people = cleanList (x_people e) MaxLabelRunes, x_actions = cleanList (x_actions e) MaxFactRunes,
      x_events = keep_upto MaxEvents norm_event 0 (x_events e)\<rparr>"

subsection \<open>What Normalize guarantees\<close>

lemma rune_count_simps [simp]:
  "rune_count [] = 0"
  "rune_count (c # s) = (if is_start c then Suc (rune_count s) else rune_count s)"
  "rune_count (s @ t) = rune_count s + rune_count t"
  by (simp_all add: rune_count_def)

lemma rune_count_take: "rune_count (take_runes n s) \<le> n"
  by (induction n s rule: take_runes.induct) (auto split: nat.splits)

lemma rune_count_dropWhile: "rune_count (dropWhile P s) \<le> rune_count s"
  by (induction s) auto

lemma rune_count_trim_right: "rune_count (trim_right_by P s) \<le> rune_count s"
  using trim_right_by_prefix [of s P] by (metis le_add1 rune_count_simps(3))

lemma rune_count_trim: "rune_count (trim_space s) \<le> rune_count s"
  unfolding trim_space_def using rune_count_trim_right rune_count_dropWhile le_trans by blast

text \<open>A string that \<open>trim_space\<close> and \<open>truncate\<close> leave alone.\<close>

definition trimmed :: "nat \<Rightarrow> string \<Rightarrow> bool" where
  "trimmed limit s = (trim_space s = s \<and> rune_count s \<le> limit)"

lemma trimmed_truncate [simp]: "trimmed limit (truncate (trim_space v) limit)"
  by (simp add: trimmed_def truncate_def) (metis rune_count_take rune_count_trim le_trans)

lemma truncate_trimmed [simp]: "trimmed limit s \<Longrightarrow> truncate (trim_space s) limit = s"
  by (simp add: trimmed_def truncate_def)

lemma trimmed_label [simp]: "trimmed MaxLabelRunes (label s)"
  by (simp add: label_def)

lemma label_trimmed [simp]: "trimmed MaxLabelRunes s \<Longrightarrow> label s = s"
  by (simp add: label_def)

lemma dropWhile_Nil_iff: "dropWhile P s = [] \<longleftrightarrow> list_all P s"
  by (simp add: list_all_iff)

lemma trim_space_Nil_iff: "trim_space s = [] \<longleftrightarrow> list_all is_space s"
proof
  assume a: "trim_space s = []"
  obtain t where t: "dropWhile is_space s = trim_space s @ t" "list_all is_space t"
    using trim_right_by_prefix unfolding trim_space_def by blast
  then have "list_all is_space (dropWhile is_space s)" using a by simp
  moreover have "list_all is_space (takeWhile is_space s)" by (auto simp: list_all_iff dest: set_takeWhileD)
  ultimately show "list_all is_space s" by (metis list_all_append takeWhile_dropWhile_id)
qed (simp add: trim_space_def trim_right_by_def dropWhile_Nil_iff [THEN iffD2])

lemma trimmed_blank: "trimmed n s \<Longrightarrow> list_all is_space s \<longleftrightarrow> s = []"
  by (auto simp: trimmed_def trim_space_Nil_iff [symmetric])

text \<open>Lists: at most 50 items, each trimmed and not empty, no two equal up to case.\<close>

definition clean_list :: "nat \<Rightarrow> string list \<Rightarrow> bool" where
  "clean_list limit vs =
     (length vs \<le> MaxListItems \<and> (\<forall>v \<in> set vs. v \<noteq> [] \<and> trimmed limit v) \<and> distinct (map to_lower vs))"

lemma clean_from_clean:
  "kept < MaxListItems \<Longrightarrow>
   length (clean_from limit seen kept vs) + kept \<le> MaxListItems
   \<and> (\<forall>v \<in> set (clean_from limit seen kept vs). v \<noteq> [] \<and> trimmed limit v \<and> to_lower v \<notin> set seen)
   \<and> distinct (map to_lower (clean_from limit seen kept vs))"
proof (induction vs arbitrary: seen kept)
  case (Cons v vs)
  let ?i = "truncate (trim_space v) limit"
  show ?case
  proof (cases "?i = [] \<or> to_lower ?i \<in> set seen \<or> Suc kept \<ge> MaxListItems")
    case True
    then show ?thesis using Cons by (auto simp: Let_def)
  next
    case False
    then have "Suc kept < MaxListItems" by simp
    from Cons.IH [OF this, of "to_lower ?i # seen"] False show ?thesis
      by (auto simp: Let_def)
  qed
qed simp

lemma clean_from_fix:
  assumes "kept + length vs \<le> MaxListItems" and "\<forall>v \<in> set vs. v \<noteq> [] \<and> trimmed limit v \<and> to_lower v \<notin> set seen"
    and "distinct (map to_lower vs)"
  shows "clean_from limit seen kept vs = vs"
  using assms
proof (induction vs arbitrary: seen kept)
  case (Cons v vs)
  have "truncate (trim_space v) limit = v" using Cons.prems(2) by simp
  moreover have "clean_from limit (to_lower v # seen) (Suc kept) vs = vs"
    using Cons.prems by (intro Cons.IH) (auto simp: image_iff)
  moreover have "Suc kept \<ge> MaxListItems \<Longrightarrow> vs = []" using Cons.prems(1) by (cases vs) auto
  ultimately show ?case using Cons.prems(2) by (auto simp: Let_def)
qed simp

lemma clean_list_cleanList: "clean_list limit (cleanList vs limit)"
  using clean_from_clean [of 0 limit "[]" vs] by (simp add: clean_list_def cleanList_def MaxListItems_def)

lemma cleanList_fix: "clean_list limit vs \<Longrightarrow> cleanList vs limit = vs"
  by (simp add: clean_list_def cleanList_def clean_from_fix)

text \<open>Locations and events.\<close>

definition good_location :: "location \<Rightarrow> bool" where
  "good_location l =
     (trimmed MaxLabelRunes (loc_name l) \<and> trimmed MaxLabelRunes (loc_neighborhood l)
      \<and> trimmed MaxLabelRunes (loc_city l) \<and> trimmed MaxLabelRunes (loc_state l)
      \<and> trimmed MaxLabelRunes (loc_country l) \<and> loc_name l \<noteq> []
      \<and> validCoordinates (loc_latitude l) (loc_longitude l) = (loc_latitude l, loc_longitude l))"

lemma validCoordinates_idem [simp]:
  "validCoordinates (fst (validCoordinates a b)) (snd (validCoordinates a b)) = validCoordinates a b"
  by (auto simp: validCoordinates_def split: option.splits)

lemma hasText_name: "trimmed n (loc_name l) \<Longrightarrow> loc_name l \<noteq> [] \<Longrightarrow> hasText l"
  using trimmed_blank [of n "loc_name l"] by (auto simp: hasText_def trim_space_Nil_iff)

lemma hasText_parts:
  "hasText l \<Longrightarrow> loc_name l = [] \<Longrightarrow>
   firstNonEmpty [loc_neighborhood l, loc_city l, loc_state l, loc_country l]
     \<in> {loc_neighborhood l, loc_city l, loc_state l, loc_country l}
   \<and> firstNonEmpty [loc_neighborhood l, loc_city l, loc_state l, loc_country l] \<noteq> []"
  by (auto simp: hasText_def trim_space_Nil_iff)

lemma norm_location_good:
  assumes "norm_location l = Some m" shows "good_location m"
proof -
  let ?c = "\<lparr>loc_name = label (loc_name l), loc_neighborhood = label (loc_neighborhood l),
    loc_city = label (loc_city l), loc_state = label (loc_state l),
    loc_country = label (loc_country l), loc_latitude = None, loc_longitude = None\<rparr>"
  let ?f = "firstNonEmpty [label (loc_neighborhood l), label (loc_city l), label (loc_state l), label (loc_country l)]"
  obtain x y where v: "validCoordinates (loc_latitude l) (loc_longitude l) = (x, y)" by force
  have h: "hasText ?c" using assms by (auto simp: norm_location_def Let_def split: if_splits)
  have m: "m = ?c\<lparr>loc_name := if label (loc_name l) = [] then ?f else label (loc_name l),
      loc_latitude := x, loc_longitude := y\<rparr>"
    using assms v h by (auto simp: norm_location_def Let_def)
  have "validCoordinates x y = (x, y)" using validCoordinates_idem [of "loc_latitude l" "loc_longitude l"] v by simp
  moreover have "?f \<noteq> [] \<and> trimmed MaxLabelRunes ?f" if "label (loc_name l) = []"
    using hasText_parts [OF h] that by (auto split: if_splits)
  ultimately show ?thesis by (simp add: good_location_def m)
qed

lemma norm_location_fix: "good_location l \<Longrightarrow> norm_location l = Some l"
proof -
  assume g: "good_location l"
  let ?c = "\<lparr>loc_name = loc_name l, loc_neighborhood = loc_neighborhood l, loc_city = loc_city l,
    loc_state = loc_state l, loc_country = loc_country l, loc_latitude = None, loc_longitude = None\<rparr>"
  have "hasText ?c" using g by (intro hasText_name [of MaxLabelRunes]) (auto simp: good_location_def)
  then show ?thesis using g by (simp add: norm_location_def Let_def good_location_def)
qed

definition good_event :: "ai_event \<Rightarrow> bool" where
  "good_event e =
     (ae_name e \<noteq> [] \<and> trimmed MaxLabelRunes (ae_name e)
      \<and> (ae_date e = [] \<or> is_iso_date (ae_date e) \<and> real_date (ae_date e))
      \<and> (ae_time e = [] \<or> is_clock (ae_time e))
      \<and> trim_space (ae_date e) = ae_date e \<and> trim_space (ae_time e) = ae_time e)"

lemma trim_space_Nil [simp]: "trim_space [] = []"
  by (simp add: trim_space_Nil_iff)

lemma validDate_good: "(validDate d = [] \<or> is_iso_date (validDate d) \<and> real_date (validDate d))
    \<and> trim_space (validDate d) = validDate d"
  by (simp add: validDate_def Let_def)

lemma validClock_good: "(validClock d = [] \<or> is_clock (validClock d)) \<and> trim_space (validClock d) = validClock d"
  by (simp add: validClock_def Let_def)

lemma norm_event_good: "norm_event e = Some f \<Longrightarrow> good_event f"
proof -
  assume a: "norm_event e = Some f"
  then have l: "label (ae_name e) \<noteq> []" by (auto simp: norm_event_def split: if_splits)
  then have "f = \<lparr>ae_name = label (ae_name e), ae_date = validDate (ae_date e), ae_time = validClock (ae_time e)\<rparr>"
    using a by (simp add: norm_event_def)
  then show ?thesis using l validDate_good validClock_good by (simp add: good_event_def)
qed

lemma norm_event_fix: "good_event e \<Longrightarrow> norm_event e = Some e"
proof -
  assume g: "good_event e"
  have "validDate (ae_date e) = ae_date e"
    using g by (auto simp: good_event_def validDate_def Let_def simp del: One_nat_def)
  moreover have "validClock (ae_time e) = ae_time e"
    using g by (auto simp: good_event_def validClock_def Let_def)
  ultimately show ?thesis using g by (simp add: norm_event_def good_event_def)
qed

lemma keep_upto_good:
  assumes "\<And>x y. f x = Some y \<Longrightarrow> P y" and "kept \<le> cap"
  shows "length (keep_upto cap f kept xs) + kept \<le> cap \<and> (\<forall>y \<in> set (keep_upto cap f kept xs). P y)"
  using assms(2)
proof (induction xs arbitrary: kept)
  case (Cons x xs)
  show ?case
  proof (cases "f x")
    case None
    then show ?thesis using Cons.IH [of kept] Cons.prems by auto
  next
    case (Some y)
    then have "P y" by (rule assms(1))
    then show ?thesis using Some Cons.IH [of "Suc kept"] Cons.prems by auto
  qed
qed simp

lemma keep_upto_fix:
  "kept + length xs \<le> cap \<Longrightarrow> (\<forall>x \<in> set xs. f x = Some x) \<Longrightarrow> keep_upto cap f kept xs = xs"
  by (induction xs arbitrary: kept) auto

text \<open>What a content version may hold.\<close>

definition normal_extraction :: "extraction \<Rightarrow> bool" where
  "normal_extraction e =
     (trimmed MaxTitleRunes (x_title e) \<and> trimmed MaxSummaryRunes (x_summary e)
      \<and> trimmed MaxLabelRunes (x_domain e) \<and> trimmed MaxLabelRunes (x_format e)
      \<and> clean_list MaxLabelRunes (x_tags e) \<and> clean_list MaxFactRunes (x_facts e)
      \<and> clean_list MaxLabelRunes (x_people e) \<and> clean_list MaxFactRunes (x_actions e)
      \<and> length (x_locations e) \<le> MaxLocations \<and> (\<forall>l \<in> set (x_locations e). good_location l)
      \<and> length (x_events e) \<le> MaxEvents \<and> (\<forall>v \<in> set (x_events e). good_event v))"

lemma Normalize_normal: "normal_extraction (Normalize e)"
  using keep_upto_good [of norm_location good_location 0 MaxLocations "x_locations e"]
    keep_upto_good [of norm_event good_event 0 MaxEvents "x_events e"]
  by (simp add: normal_extraction_def Normalize_def clean_list_cleanList norm_location_good norm_event_good)

lemma Normalize_fix: "normal_extraction e \<Longrightarrow> Normalize e = e"
  by (simp add: normal_extraction_def Normalize_def cleanList_fix keep_upto_fix norm_location_fix norm_event_fix)

lemma valid_on_earth:
  "validCoordinates (Some x) (Some y) = (Some x, Some y) \<Longrightarrow> x \<noteq> NaN \<Longrightarrow> y \<noteq> NaN \<Longrightarrow> on_earth x y"
  by (cases x; cases y) (auto simp: validCoordinates_def on_earth_def abs_le_iff not_less split: if_splits)

text \<open>C11: \<open>Normalize\<close> is a normal form: its result is within every limit (trimmed strings of
  bounded length, lists of at most 50 items without repetition up to case, at most 25 named places and
  25 named events with real dates and clocks), normalising again changes nothing, and every coordinate
  pair it keeps that is not NaN is accepted by \<open>NewPoint\<close>.\<close>

theorem normalize_is_a_normal_form:
  "normal_extraction (Normalize e) \<and> Normalize (Normalize e) = Normalize e
   \<and> (\<forall>l \<in> set (x_locations (Normalize e)). \<forall>x y. loc_latitude l = Some x \<longrightarrow> loc_longitude l = Some y
        \<longrightarrow> x \<noteq> NaN \<longrightarrow> y \<noteq> NaN \<longrightarrow> NewPoint x y = Inr \<lparr>latitude = x, longitude = y\<rparr>)"
proof -
  have n: "normal_extraction (Normalize e)" by (rule Normalize_normal)
  have "NewPoint x y = Inr \<lparr>latitude = x, longitude = y\<rparr>"
    if "l \<in> set (x_locations (Normalize e))" "loc_latitude l = Some x" "loc_longitude l = Some y"
      "x \<noteq> NaN" "y \<noteq> NaN" for l x y
  proof -
    have "good_location l" using n that(1) by (simp add: normal_extraction_def)
    then have "validCoordinates (Some x) (Some y) = (Some x, Some y)"
      using that(2,3) by (simp add: good_location_def)
    then show ?thesis using valid_on_earth that(4,5) by (simp add: NewPoint_on_earth)
  qed
  with n show ?thesis by (simp add: Normalize_fix)
qed

text \<open>A messy extraction with one place on the map.\<close>

definition sample_place :: location where
  "sample_place = \<lparr>loc_name = '' Eiffel '', loc_neighborhood = [], loc_city = ''Paris'', loc_state = [],
     loc_country = [], loc_latitude = Some (Fin 48), loc_longitude = Some (Fin 2)\<rparr>"

definition messy_extraction :: extraction where
  "messy_extraction = \<lparr>x_title = '' Hi '', x_summary = [], x_domain = [], x_format = [],
     x_tags = [''A'', '' a ''], x_facts = [], x_locations = [sample_place], x_people = [], x_actions = [],
     x_events = []\<rparr>"

theorem normalize_is_a_normal_form_witness:
  "x_title (Normalize messy_extraction) = ''Hi'' \<and> x_tags (Normalize messy_extraction) = [''A'']
   \<and> normal_extraction (Normalize messy_extraction)
   \<and> NewPoint (Fin 48) (Fin 2) = Inr \<lparr>latitude = Fin 48, longitude = Fin 2\<rparr>"
proof -
  have a: "char_of (97::nat) = CHR ''a''" by code_simp
  have "x_locations (Normalize messy_extraction) = [sample_place\<lparr>loc_name := ''Eiffel''\<rparr>]"
    and "x_title (Normalize messy_extraction) = ''Hi''" and "x_tags (Normalize messy_extraction) = [''A'']"
    by (simp_all add: messy_extraction_def Normalize_def sample_place_def norm_location_def label_def truncate_def
        trim_space_def trim_right_by_def is_space_def char_code_def cleanList_def hasText_def validCoordinates_def
        MaxLabelRunes_def MaxTitleRunes_def MaxLocations_def MaxListItems_def Let_def rune_count_def is_start_def
        to_lower_def lower_char_def is_upper_def a)
  then show ?thesis
    using normalize_is_a_normal_form [of messy_extraction] by (simp add: sample_place_def)
qed

end
