(* ===== verification/Database.thy ===== *)
theory Database
  imports AiSchema
begin

text \<open>
  The PostgreSQL tables and the Redis hints that the core of the service shares
  (\<open>internal/migrations/00001_core.sql\<close>, \<open>00002_processing.sql\<close>,
  \<open>00004_collections.sql\<close>).  A table is the list of its rows in insertion order; a
  nullable column is an option; a UUID is a string.  One record \<open>world\<close> holds every table
  and the two Redis keys.

  A transaction is a function from the world to an error or a new world.  PostgreSQL serialises
  what the code does inside one transaction (row locks, the advisory lock, the unique indexes),
  so a transaction is one step; an error leaves the world as it was, which is the deferred
  \<open>Rollback\<close>.  The argument \<open>now\<close> is the database clock, constant inside a
  transaction.  A driver failure at any statement is the argument \<open>fault\<close>, the error the
  driver reported, if any.
\<close>

datatype run_status = RunQueued | RunProcessing | RunRetryScheduled | RunCompleted | RunFailed

definition live_status :: "run_status \<Rightarrow> bool" where
  "live_status s = (s \<in> {RunQueued, RunProcessing, RunRetryScheduled})"

datatype job_status = JobQueued | JobProcessing | JobCompleted | JobFailed | JobDeadLettered

definition active_status :: "job_status \<Rightarrow> bool" where
  "active_status s = (s \<in> {JobQueued, JobProcessing})"

record run_row =
  run_id :: string
  run_content :: string
  run_version :: string
  run_state :: run_status
  run_stage :: string
  run_owner :: "string option"
  run_expires :: "time option"
  run_generation :: int
  run_failure_code :: "string option"
  run_failure_message :: "string option"
  run_created :: time
  run_updated :: time

record job_row =
  job_id :: string
  job_user :: string
  job_run :: "string option"
  job_save :: "string option"
  job_url :: string
  job_normalized :: string
  job_platform :: "string option"
  job_state :: job_status
  job_step :: "string option"
  job_progress :: int
  job_failure :: "string option"
  job_collections :: "string list"
  job_created :: time
  job_updated :: time
  job_completed :: "time option"

text \<open>The payload column is JSON: \<open>Some (run_id, dispatch_generation)\<close> when it decodes,
  \<open>None\<close> when it does not.\<close>

record event_row =
  ev_id :: string
  ev_type :: string
  ev_key :: string
  ev_schema :: int
  ev_payload :: "(string \<times> int) option"
  ev_available :: time
  ev_attempts :: int
  ev_published :: "time option"
  ev_created :: time

record stage_row =
  sr_run :: string
  sr_stage :: string
  sr_version :: string
  sr_hash :: string
  sr_output :: string
  sr_attempts :: int
  sr_finished :: "time option"
  sr_error :: "string option"

record content_row =
  c_id :: string
  c_platform :: string
  c_type :: string
  c_source :: "string option"
  c_normalized :: string
  c_hash :: string
  c_scope :: string
  c_current :: "string option"

record version_row =
  v_id :: string
  v_content :: string
  v_processor :: string
  v_prompt :: string
  v_schema :: string
  v_model :: string
  v_title :: string
  v_summary :: string
  v_caption :: string
  v_transcript :: string
  v_tags :: "string list"
  v_facts :: "string list"
  v_raw :: "extraction \<times> string \<times> string"
  v_thumbnail :: string

record location_row =
  g_version :: string
  g_ordinal :: nat
  g_name :: string
  g_address :: "string option"
  g_locality :: "string option"
  g_country :: "string option"
  g_point :: geo_point

record lookup_row =
  pl_hash :: string
  pl_response :: "geo_point option"
  pl_expires :: time

record category_row =
  cr_id :: string
  cr_parent :: "string option"
  cr_name :: string
  cr_normalized :: string
  cr_description :: string
  cr_active :: bool

record save_row =
  s_id :: string
  s_user :: string
  s_content :: string
  s_saved :: time

text \<open>\<open>enqueue.OutcomeKind\<close> and \<open>postgres.storedResult\<close>: what an idempotency row
  keeps and replays.\<close>

datatype outcome_kind = AlreadySaved | Accepted | InFlight | Reused

record stored_result =
  st_kind :: outcome_kind
  st_save :: string
  st_job :: string

record idem_row =
  k_user :: string
  k_endpoint :: string
  k_key :: string
  k_hash :: string
  k_status :: int
  k_body :: stored_result
  k_expires :: time

record collection_row =
  col_id :: string
  col_owner :: string
  col_name :: string
  col_description :: string
  col_cover :: "string option"
  col_linked :: bool
  col_link :: "string option"
  col_link_expires :: "time option"
  col_created :: time
  col_updated :: time

record member_row =
  m_collection :: string
  m_user :: string
  m_role :: string
  m_created :: time

record item_row =
  i_collection :: string
  i_save :: string
  i_added_by :: string
  i_added :: time

record invite_row =
  n_id :: string
  n_collection :: string
  n_hash :: string
  n_role :: string
  n_expires :: time
  n_max :: "int option"
  n_uses :: int
  n_revoked :: bool

record proposal_row =
  p_name :: string
  p_normalized :: string
  p_description :: string
  p_run :: string

text \<open>\<open>outbox_store\<close>, \<open>inflight_store\<close> and \<open>cache_store\<close> say whether the process has a
  Redis client (a nil \<open>Signal\<close>, \<open>Inflight\<close> or \<open>CacheInvalidator\<close> otherwise),
  \<open>redis_up\<close> whether Redis answers, \<open>dropped\<close> the users whose cached reads were dropped,
  in order.  The raw extraction of a version is its JSON object: the extraction, the category and
  the subcategory.\<close>

record world =
  runs :: "run_row list"
  jobs :: "job_row list"
  events :: "event_row list"
  stage_results :: "stage_row list"
  contents :: "content_row list"
  versions :: "version_row list"
  saves :: "save_row list"
  idem :: "idem_row list"
  collections :: "collection_row list"
  members :: "member_row list"
  items :: "item_row list"
  invites :: "invite_row list"
  proposals :: "proposal_row list"
  locations :: "location_row list"
  place_lookups :: "lookup_row list"
  categories :: "category_row list"
  outbox_store :: bool
  inflight_store :: bool
  redis_up :: bool
  dirty :: bool
  inflight_until :: "time option"
  cache_store :: bool
  dropped :: "string list"

datatype err = ErrNotAcquired | ErrFenced | ErrNoRows | ErrUnique | ErrIdempotencyMismatch
  | ErrActiveJobLimit | ErrUnsupported | ErrCollectionUnreachable | ErrNotFound
  | ErrLimitReached | ErrForbidden | ErrInviteInvalid | ErrReelNotFound | ErrOther string

text \<open>SQL's \<open>column < now()\<close>: a NULL column does not satisfy it.\<close>

definition before :: "time option \<Rightarrow> time \<Rightarrow> bool" where
  "before t now = (case t of None \<Rightarrow> False | Some x \<Rightarrow> x < now)"

lemma before_simps [simp]: "\<not> before None now" "before (Some t) now = (t < now)"
  by (simp_all add: before_def)

text \<open>A database failure reported by the driver ends the transaction with that error and
  the rollback.\<close>

definition with_fault :: "string option \<Rightarrow> (err + 'a) \<Rightarrow> err + 'a" where
  "with_fault fault r = (case fault of None \<Rightarrow> r | Some m \<Rightarrow> Inl (ErrOther m))"

lemma with_fault_simps [simp]:
  "with_fault None r = r" "with_fault (Some m) r = Inl (ErrOther m)"
  by (simp_all add: with_fault_def)

lemma with_fault_Inr: "with_fault fault r = Inr a \<longleftrightarrow> fault = None \<and> r = Inr a"
  by (cases fault) auto

subsection \<open>Well-formedness\<close>

text \<open>What the primary keys and the unique partial index \<open>processing_runs_active_key\<close>
  guarantee.\<close>

definition live_key :: "run_row \<Rightarrow> string \<times> string" where
  "live_key r = (run_content r, run_version r)"

definition live_runs :: "run_row list \<Rightarrow> run_row list" where
  "live_runs rs = filter (\<lambda>r. live_status (run_state r)) rs"

definition run_keys :: "world \<Rightarrow> bool" where
  "run_keys w = distinct (map run_id (runs w))"

definition one_live_run :: "world \<Rightarrow> bool" where
  "one_live_run w = distinct (map live_key (live_runs (runs w)))"

definition event_keys :: "world \<Rightarrow> bool" where
  "event_keys w = distinct (map ev_id (events w))"

lemma live_runs_simps [simp]:
  "live_runs [] = []"
  "live_runs (r # rs) = (if live_status (run_state r) then r # live_runs rs else live_runs rs)"
  by (simp_all add: live_runs_def)

lemma live_runs_append [simp]: "live_runs (xs @ ys) = live_runs xs @ live_runs ys"
  by (simp add: live_runs_def)

lemma set_live_runs: "r \<in> set (live_runs rs) \<longleftrightarrow> r \<in> set rs \<and> live_status (run_state r)"
  by (simp add: live_runs_def)

text \<open>An update that keeps the key and never revives a finished run keeps the index.\<close>

lemma live_keys_update:
  assumes "\<And>r. P r \<Longrightarrow> live_key (f r) = live_key r"
    and "\<And>r. P r \<Longrightarrow> live_status (run_state (f r)) \<Longrightarrow> live_status (run_state r)"
    and "distinct (map live_key (live_runs rs))"
  shows "distinct (map live_key (live_runs (update_where P f rs)))"
    and "set (map live_key (live_runs (update_where P f rs))) \<subseteq> set (map live_key (live_runs rs))"
proof -
  have sub: "set (map live_key (live_runs (update_where P f xs))) \<subseteq> set (map live_key (live_runs xs))" for xs
    using assms(1,2) by (induction xs) auto
  then show "set (map live_key (live_runs (update_where P f rs))) \<subseteq> set (map live_key (live_runs rs))" .
  show "distinct (map live_key (live_runs (update_where P f rs)))"
    using assms(3)
  proof (induction rs)
    case (Cons r rs)
    then show ?case
      using assms(1,2) [of r] sub [of rs] by (cases "P r") (auto split: if_splits)
  qed simp
qed

subsection \<open>Sample states\<close>

text \<open>An empty schema and one freshly queued run, the concrete inputs of the witnesses.\<close>

definition empty_world :: world where
  "empty_world =
     \<lparr>runs = [], jobs = [], events = [], stage_results = [], contents = [], versions = [],
      saves = [], idem = [], collections = [], members = [], items = [], invites = [], proposals = [],
      locations = [], place_lookups = [], categories = [],
      outbox_store = True, inflight_store = True, redis_up = True, dirty = False,
      inflight_until = None, cache_store = True, dropped = []\<rparr>"

definition sample_run :: run_row where
  "sample_run =
     \<lparr>run_id = ''r1'', run_content = ''c1'', run_version = ''go-v1'', run_state = RunQueued,
      run_stage = ''prepare'', run_owner = None, run_expires = None, run_generation = 0,
      run_failure_code = None, run_failure_message = None, run_created = 0, run_updated = 0\<rparr>"

definition sample_world :: world where
  "sample_world = empty_world\<lparr>runs := [sample_run]\<rparr>"

lemmas sample_defs = empty_world_def sample_run_def sample_world_def

end
