(* ===== verification/Failure.thy ===== *)
theory Failure
  imports Database
begin

text \<open>
  Errors and what the pipeline makes of them (\<open>internal/pipeline/failure.go\<close>).  A Go error is a
  value with a chain of wrapped errors; \<open>errors.As\<close> and \<open>errors.Is\<close> walk the chain.
\<close>

datatype failure_class = Transient | ProviderExhausted | ContentTerminal | Internal

datatype goerr =
    Store err
  | Wrapped string goerr
  | FailureErr failure_class string string goerr
  | ProviderErr int duration
  | InvalidExtraction
  | EmptyResponse
  | DeadlineExceeded
  | Escalated
  | Plain string

record failure =
  f_class :: failure_class
  f_code :: string
  f_message :: string
  f_err :: goerr

definition fail_with :: "failure_class \<Rightarrow> string \<Rightarrow> string \<Rightarrow> goerr \<Rightarrow> failure" where
  "fail_with c code m e = \<lparr>f_class = c, f_code = code, f_message = m, f_err = e\<rparr>"

definition err_of :: "failure \<Rightarrow> goerr" where
  "err_of f = FailureErr (f_class f) (f_code f) (f_message f) (f_err f)"

fun unwrap :: "goerr \<Rightarrow> goerr option" where
  "unwrap (Wrapped m e) = Some e"
| "unwrap (FailureErr c k m e) = Some e"
| "unwrap _ = None"

fun as_failure :: "goerr \<Rightarrow> failure option" where
  "as_failure (FailureErr c k m e) = Some (fail_with c k m e)"
| "as_failure (Wrapped m e) = as_failure e"
| "as_failure _ = None"

fun as_provider :: "goerr \<Rightarrow> (int \<times> duration) option" where
  "as_provider (ProviderErr s d) = Some (s, d)"
| "as_provider (FailureErr c k m e) = as_provider e"
| "as_provider (Wrapped m e) = as_provider e"
| "as_provider _ = None"

fun err_is :: "goerr \<Rightarrow> goerr \<Rightarrow> bool" where
  "err_is (Wrapped m e) t = (Wrapped m e = t \<or> err_is e t)"
| "err_is (FailureErr c k m e) t = (FailureErr c k m e = t \<or> err_is e t)"
| "err_is e t = (e = t)"

definition Retryable :: "failure \<Rightarrow> bool" where
  "Retryable f = (f_class f = Transient \<or> f_class f = ProviderExhausted \<or> f_class f = Internal)"

definition internal_failure :: "goerr \<Rightarrow> failure" where
  "internal_failure e = fail_with Internal ''internal_error'' ''The server could not finish this request.'' e"

definition Classify :: "goerr \<Rightarrow> failure" where
  "Classify e =
     (case as_failure e of
        Some f \<Rightarrow> f
      | None \<Rightarrow>
          (case as_provider e of
             Some (status, _) \<Rightarrow>
               if status = 429 \<or> status = 503 then
                 fail_with ProviderExhausted ''provider_exhausted'' ''The AI provider is busy right now.'' e
               else if status \<ge> 500 \<or> status = 0 then
                 fail_with Transient ''provider_unavailable'' ''An upstream provider did not respond.'' e
               else internal_failure e
           | None \<Rightarrow>
               if err_is e InvalidExtraction \<or> err_is e EmptyResponse then
                 fail_with Transient ''extraction_invalid'' ''The content could not be understood.'' e
               else if err_is e DeadlineExceeded then
                 fail_with Transient ''provider_timeout'' ''A processing step took too long.'' e
               else internal_failure e))"

definition errUnsupportedPlatform :: failure where
  "errUnsupportedPlatform = fail_with ContentTerminal ''unsupported_platform''
     ''This source is not supported yet.'' (Plain ''no handler for platform'')"

definition errRunExpired :: failure where
  "errRunExpired = fail_with ContentTerminal ''processing_timeout''
     ''Processing took too long and was stopped.'' (Plain ''the run deadline passed'')"

definition is_fenced :: "goerr \<Rightarrow> bool" where
  "is_fenced e = err_is e (Store ErrFenced)"

lemma is_fenced_simps [simp]:
  "is_fenced (Store x) = (x = ErrFenced)"
  "is_fenced (Wrapped m e) = is_fenced e"
  "is_fenced (FailureErr c k m e) = is_fenced e"
  by (simp_all add: is_fenced_def)

lemma as_failure_err_of [simp]: "as_failure (err_of f) = Some f"
  by (simp add: err_of_def fail_with_def)

lemma Classify_err_of [simp]: "Classify (err_of f) = f"
  by (simp add: Classify_def)

lemma Classify_Wrapped_failure: "as_failure e = Some f \<Longrightarrow> Classify (Wrapped m e) = f"
  by (simp add: Classify_def)

text \<open>A failure that nothing in the chain declared terminal may be tried again.\<close>

lemma Classify_retryable: "as_failure e = None \<Longrightarrow> Retryable (Classify e)"
  by (auto simp: Classify_def Retryable_def internal_failure_def fail_with_def split: option.splits)

lemma Retryable_iff: "Retryable f \<longleftrightarrow> f_class f \<noteq> ContentTerminal"
  by (cases "f_class f") (auto simp: Retryable_def)

text \<open>Classification is stable and never invents a terminal failure: a failure a stage declared,
  however deeply wrapped, is returned as it is; classifying again changes nothing; every other error
  may be retried, and a code that tells the user the provider is busy is given for 429 and 503 only.\<close>

theorem classify_is_stable:
  "Classify (err_of (Classify e)) = Classify e
   \<and> Classify (Wrapped m (err_of f)) = f
   \<and> (as_failure e = None \<longrightarrow>
        Retryable (Classify e) \<and> f_err (Classify e) = e
        \<and> (f_class (Classify e) = ProviderExhausted
             \<longleftrightarrow> (\<exists>d. as_provider e = Some (429, d) \<or> as_provider e = Some (503, d))))"
proof -
  have "as_failure e = None \<Longrightarrow> f_class (Classify e) = ProviderExhausted
      \<longleftrightarrow> (\<exists>d. as_provider e = Some (429, d) \<or> as_provider e = Some (503, d))"
    by (auto simp: Classify_def internal_failure_def fail_with_def split: option.splits if_splits)
  moreover have "as_failure e = None \<Longrightarrow> f_err (Classify e) = e"
    by (auto simp: Classify_def internal_failure_def fail_with_def split: option.splits)
  ultimately show ?thesis
    by (simp add: Classify_Wrapped_failure Classify_retryable)
qed

theorem classify_is_stable_witness:
  "Retryable (Classify (Wrapped ''gemini'' (ProviderErr 503 0)))
   \<and> f_class (Classify (Wrapped ''gemini'' (ProviderErr 503 0))) = ProviderExhausted"
  using classify_is_stable [of "Wrapped ''gemini'' (ProviderErr 503 0)"] by simp

end
