(* ===== verification/Checkpoint.thy ===== *)
theory Checkpoint
  imports Failure
begin

text \<open>
  Stage checkpoints (\<open>internal/pipeline/checkpoint.go\<close>) and what stages produce
  (\<open>internal/platform/platform.go\<close>).  \<open>sha\<close> is the hex digest of SHA-256, \<open>marshal\<close>
  and \<open>unmarshal\<close> are JSON encoding of a stage's output and decoding into the stage's type.
\<close>

subsection \<open>What stages produce\<close>

record prepared =
  p_caption :: string
  p_page :: string
  p_thumbnail :: string
  p_media :: bool

datatype stage_output = OutPrepared prepared | OutMedia "media list" | OutTranscript string
  | OutExtraction extraction | OutCategory category

definition stagePrepare :: string where "stagePrepare = ''prepare''"
definition stageDownload :: string where "stageDownload = ''download''"
definition stageTranscribe :: string where "stageTranscribe = ''transcribe''"
definition stageExtract :: string where "stageExtract = ''extract''"
definition stageCategorize :: string where "stageCategorize = ''categorize''"
definition stagePersist :: string where "stagePersist = ''persist''"

lemmas stage_names = stagePrepare_def stageDownload_def stageTranscribe_def stageExtract_def
  stageCategorize_def stagePersist_def

text \<open>A map lookup in Go answers the zero value for \<open>persist\<close>.\<close>

definition stageVersions :: "string \<Rightarrow> string" where
  "stageVersions s =
     (if s \<in> {stagePrepare, stageDownload, stageTranscribe, stageExtract, stageCategorize}
      then ''v1'' else [])"

definition maxOutputBytes :: nat where "maxOutputBytes = 256 * 1024"

definition InputHash :: "(string \<Rightarrow> string) \<Rightarrow> string list \<Rightarrow> string" where
  "InputHash sha parts = sha (concat (map (\<lambda>p. p @ [CHR 0x00]) parts))"

subsection \<open>The interface: a store of finished stages\<close>

text \<open>A stage's result is keyed; saving replaces it under an input hash, a failure hides it.  A
  load answers with the last result when nothing failed since and the hash is the same.\<close>

locale checkpoint_store =
  fixes load :: "'k \<Rightarrow> 'h \<Rightarrow> 's \<Rightarrow> 'o option"
    and save :: "'k \<Rightarrow> 'h \<Rightarrow> 'o \<Rightarrow> 's \<Rightarrow> 's"
    and fail :: "'k \<Rightarrow> 's \<Rightarrow> 's"
    and storable :: "'k \<Rightarrow> 'o \<Rightarrow> bool"
  assumes load_save: "storable k x \<Longrightarrow> load k h (save k h x s) = Some x"
    and load_save_hash: "storable k x \<Longrightarrow> h' \<noteq> h \<Longrightarrow> load k h' (save k h x s) = None"
    and load_save_key: "storable k x \<Longrightarrow> k' \<noteq> k \<Longrightarrow> load k' h' (save k h x s) = load k' h' s"
    and load_fail: "load k h (fail k s) = None"
    and load_fail_key: "k' \<noteq> k \<Longrightarrow> load k' h (fail k s) = load k' h s"
begin

text \<open>A history of saves and failures, and the last result it left for a key.\<close>

fun replay_ops :: "('k \<times> ('h \<times> 'o) option) list \<Rightarrow> 's \<Rightarrow> 's" where
  "replay_ops [] s = s"
| "replay_ops ((k, Some (h, x)) # ops) s = replay_ops ops (save k h x s)"
| "replay_ops ((k, None) # ops) s = replay_ops ops (fail k s)"

lemma replay_other:
  assumes "\<forall>(k, r) \<in> set ops. k \<noteq> k' \<and> (case r of None \<Rightarrow> True | Some (h, x) \<Rightarrow> storable k x)"
  shows "load k' h' (replay_ops ops s) = load k' h' s"
  using assms
  by (induction ops s rule: replay_ops.induct) (auto simp: load_save_key load_fail_key)

lemma last_save_wins:
  assumes "storable k x"
    and "\<forall>(k', r) \<in> set ops. k' \<noteq> k \<and> (case r of None \<Rightarrow> True | Some (h, x) \<Rightarrow> storable k' x)"
  shows "load k h' (replay_ops ((k, Some (h, x)) # ops) s) = (if h' = h then Some x else None)"
  using replay_other [OF assms(2)] assms(1) by (simp add: load_save load_save_hash)

end

subsection \<open>The operations\<close>

definition stage_is :: "string \<Rightarrow> string \<Rightarrow> stage_row \<Rightarrow> bool" where
  "stage_is i stage r = (sr_run r = i \<and> sr_stage r = stage \<and> sr_version r = stageVersions stage)"

text \<open>\<open>ON CONFLICT (run_id, stage, stage_version) DO UPDATE\<close>\<close>

definition upsert_stage :: "string \<Rightarrow> string \<Rightarrow> stage_row \<Rightarrow> (stage_row \<Rightarrow> stage_row) \<Rightarrow> world \<Rightarrow> world" where
  "upsert_stage i stage new f w =
     (if matching (stage_is i stage) (stage_results w) = 0
      then w\<lparr>stage_results := stage_results w @ [new]\<rparr>
      else w\<lparr>stage_results := update_where (stage_is i stage) f (stage_results w)\<rparr>)"

text \<open>\<open>Inr None\<close>: no row matches, or it does not decode; the stage must run.\<close>

definition loadCheckpoint ::
  "(string \<Rightarrow> string \<Rightarrow> stage_output option) \<Rightarrow> string \<Rightarrow> string \<Rightarrow> string \<Rightarrow> world \<Rightarrow> stage_output option" where
  "loadCheckpoint unmarshal i stage hash w =
     (case find (\<lambda>r. stage_is i stage r \<and> sr_hash r = hash \<and> sr_error r = None \<and> sr_finished r \<noteq> None)
              (stage_results w) of
        None \<Rightarrow> None
      | Some r \<Rightarrow> unmarshal stage (sr_output r))"

definition saveCheckpoint ::
  "(stage_output \<Rightarrow> string option) \<Rightarrow> time \<Rightarrow> string \<Rightarrow> string \<Rightarrow> string \<Rightarrow> stage_output \<Rightarrow> world \<Rightarrow> err + world" where
  "saveCheckpoint marshal now i stage hash out w =
     (case marshal out of
        None \<Rightarrow> Inl (ErrOther ''encoding the checkpoint'')
      | Some encoded \<Rightarrow>
          if length encoded > maxOutputBytes then Inl (ErrOther ''the checkpoint is over the cap'')
          else Inr (upsert_stage i stage
            \<lparr>sr_run = i, sr_stage = stage, sr_version = stageVersions stage, sr_hash = hash,
             sr_output = encoded, sr_attempts = 1, sr_finished = Some now, sr_error = None\<rparr>
            (\<lambda>r. r\<lparr>sr_hash := hash, sr_output := encoded, sr_attempts := sr_attempts r + 1,
                   sr_finished := Some now, sr_error := None\<rparr>) w))"

fun class_name :: "failure_class \<Rightarrow> string" where
  "class_name Transient = ''transient''"
| "class_name ProviderExhausted = ''provider_exhausted''"
| "class_name ContentTerminal = ''content_terminal''"
| "class_name Internal = ''internal''"

definition attempts_of :: "string \<Rightarrow> string \<Rightarrow> world \<Rightarrow> int" where
  "attempts_of i stage w =
     (case find (stage_is i stage) (stage_results w) of None \<Rightarrow> 0 | Some r \<Rightarrow> sr_attempts r)"

definition recordStageFailure :: "string \<Rightarrow> string \<Rightarrow> failure_class \<Rightarrow> world \<Rightarrow> int \<times> world" where
  "recordStageFailure i stage c w =
     (let w1 = upsert_stage i stage
            \<lparr>sr_run = i, sr_stage = stage, sr_version = stageVersions stage, sr_hash = [],
             sr_output = [], sr_attempts = 1, sr_finished = None, sr_error = Some (class_name c)\<rparr>
            (\<lambda>r. r\<lparr>sr_attempts := sr_attempts r + 1, sr_error := Some (class_name c)\<rparr>) w
      in (attempts_of i stage w1, w1))"

subsection \<open>Lemmas\<close>

lemma stage_is_key: "stage_is i s r \<Longrightarrow> stage_is j t r \<Longrightarrow> i = j \<and> s = t"
  by (auto simp: stage_is_def)

lemma find_none_matching: "matching P xs = 0 \<longleftrightarrow> find P xs = None"
  by (auto simp: matching_0 find_None_iff)

lemma find_snoc: "find P (xs @ [x]) = (case find P xs of None \<Rightarrow> if P x then Some x else None | Some y \<Rightarrow> Some y)"
  by (induction xs) auto

lemma find_weaken: "find P xs = None \<Longrightarrow> (\<And>x. Q x \<Longrightarrow> P x) \<Longrightarrow> find Q xs = None"
  by (induction xs) (auto split: if_splits)

text \<open>Reading one key of the table after an upsert.\<close>

lemma find_upsert_same:
  assumes "stage_is i s new" and "\<And>r. stage_is i s r \<Longrightarrow> stage_is i s (f r)"
    and "\<And>r. Q r \<Longrightarrow> stage_is i s r"
    and "\<And>r. stage_is i s r \<Longrightarrow> Q (f r) = q" and "Q new = q"
  shows "find Q (stage_results (upsert_stage i s new f w)) =
    (if q then Some (case find (stage_is i s) (stage_results w) of None \<Rightarrow> new | Some r \<Rightarrow> f r) else None)"
proof (cases "find (stage_is i s) (stage_results w)")
  case None
  then have "find Q (stage_results w) = None" using assms(3) by (rule find_weaken)
  then show ?thesis using None assms(5)
    by (simp add: upsert_stage_def find_none_matching find_snoc)
next
  case (Some r)
  have "find Q (update_where (stage_is i s) f xs) =
      (if q then map_option f (find (stage_is i s) xs) else None)" for xs
    using assms(3,4) by (induction xs) auto
  then show ?thesis using Some by (simp add: upsert_stage_def find_none_matching)
qed

lemma find_upsert_other:
  assumes "\<not> Q new" and "\<And>r. stage_is i s r \<Longrightarrow> \<not> Q r \<and> \<not> Q (f r)"
  shows "find Q (stage_results (upsert_stage i s new f w)) = find Q (stage_results w)"
proof -
  have "find Q (update_where (stage_is i s) f xs) = find Q xs" for xs
    using assms(2) by (induction xs) auto
  then show ?thesis using assms(1)
    by (simp add: upsert_stage_def find_snoc split: option.splits)
qed

lemma attempts_upsert:
  assumes "stage_is i s new" and "\<And>r. stage_is i s r \<Longrightarrow> stage_is i s (f r)"
    and "sr_attempts new = 1" and "\<And>r. sr_attempts (f r) = sr_attempts r + 1"
  shows "attempts_of j t (upsert_stage i s new f w) =
    (if j = i \<and> t = s then attempts_of i s w + 1 else attempts_of j t w)"
proof (cases "j = i \<and> t = s")
  case True
  then show ?thesis
    using find_upsert_same [where Q = "stage_is i s" and q = True, OF assms(1,2)] assms
    by (auto simp: attempts_of_def split: option.splits)
next
  case False
  then have "find (stage_is j t) (stage_results (upsert_stage i s new f w)) = find (stage_is j t) (stage_results w)"
    using assms(1,2) stage_is_key by (intro find_upsert_other) blast+
  then show ?thesis using False by (simp add: attempts_of_def)
qed

lemma upsert_stage_tables [simp]:
  "runs (upsert_stage i s new f w) = runs w" "jobs (upsert_stage i s new f w) = jobs w"
  "events (upsert_stage i s new f w) = events w" "saves (upsert_stage i s new f w) = saves w"
  "contents (upsert_stage i s new f w) = contents w" "versions (upsert_stage i s new f w) = versions w"
  by (simp_all add: upsert_stage_def)

lemma recordStageFailure_attempts:
  assumes "recordStageFailure i s c w = (n, w')"
  shows "n = attempts_of i s w + 1 \<and> attempts_of j t w' = (if j = i \<and> t = s then n else attempts_of j t w)"
proof -
  have "attempts_of j t w' = (if j = i \<and> t = s then attempts_of i s w + 1 else attempts_of j t w)" for j t
  proof -
    have w': "w' = snd (recordStageFailure i s c w)" using assms by simp
    show ?thesis unfolding w' recordStageFailure_def Let_def snd_conv
      by (rule attempts_upsert) (simp_all add: stage_is_def)
  qed
  moreover have "n = attempts_of i s w'" using assms by (auto simp: recordStageFailure_def Let_def)
  ultimately show ?thesis by simp
qed

lemma saveCheckpoint_attempts:
  assumes "saveCheckpoint marshal now i s h out w = Inr w'"
  shows "attempts_of j t w' = (if j = i \<and> t = s then attempts_of i s w + 1 else attempts_of j t w)"
proof -
  obtain e where w': "w' = upsert_stage i s
      \<lparr>sr_run = i, sr_stage = s, sr_version = stageVersions s, sr_hash = h,
       sr_output = e, sr_attempts = 1, sr_finished = Some now, sr_error = None\<rparr>
      (\<lambda>r. r\<lparr>sr_hash := h, sr_output := e, sr_attempts := sr_attempts r + 1,
             sr_finished := Some now, sr_error := None\<rparr>) w"
    using assms by (auto simp: saveCheckpoint_def split: option.splits if_splits)
  show ?thesis unfolding w' by (rule attempts_upsert) (simp_all add: stage_is_def)
qed

lemma recordStageFailure_tables:
  "recordStageFailure i s c w = (n, w') \<Longrightarrow>
   runs w' = runs w \<and> jobs w' = jobs w \<and> events w' = events w \<and> saves w' = saves w
   \<and> contents w' = contents w \<and> versions w' = versions w"
  by (auto simp: recordStageFailure_def Let_def)

lemma saveCheckpoint_tables:
  "saveCheckpoint marshal now i s h out w = Inr w' \<Longrightarrow>
   runs w' = runs w \<and> jobs w' = jobs w \<and> events w' = events w \<and> saves w' = saves w
   \<and> contents w' = contents w \<and> versions w' = versions w"
  by (auto simp: saveCheckpoint_def split: option.splits if_splits)

subsection \<open>The checkpoint table is a checkpoint store\<close>

definition save_output ::
  "(stage_output \<Rightarrow> string option) \<Rightarrow> time \<Rightarrow> string \<times> string \<Rightarrow> string \<Rightarrow> stage_output \<Rightarrow> world \<Rightarrow> world" where
  "save_output marshal now k h x w =
     (case saveCheckpoint marshal now (fst k) (snd k) h x w of Inl _ \<Rightarrow> w | Inr w' \<Rightarrow> w')"

definition storable_output ::
  "(stage_output \<Rightarrow> string option) \<Rightarrow> (string \<Rightarrow> string \<Rightarrow> stage_output option) \<Rightarrow> string \<times> string \<Rightarrow> stage_output \<Rightarrow> bool" where
  "storable_output marshal unmarshal k x =
     (case marshal x of None \<Rightarrow> False
      | Some t \<Rightarrow> length t \<le> maxOutputBytes \<and> unmarshal (snd k) t = Some x)"

definition hit :: "string \<Rightarrow> string \<Rightarrow> string \<Rightarrow> stage_row \<Rightarrow> bool" where
  "hit i s h r = (stage_is i s r \<and> sr_hash r = h \<and> sr_error r = None \<and> sr_finished r \<noteq> None)"

lemma loadCheckpoint_hit:
  "loadCheckpoint unmarshal i s h w =
     (case find (hit i s h) (stage_results w) of None \<Rightarrow> None | Some r \<Rightarrow> unmarshal s (sr_output r))"
  by (simp add: loadCheckpoint_def hit_def [abs_def])

lemma load_after_save:
  assumes "marshal x = Some t" and "length t \<le> maxOutputBytes"
  shows "loadCheckpoint unmarshal i s h' (save_output marshal now (i, s) h x w) =
    (if h' = h then unmarshal s t else None)"
proof -
  let ?new = "\<lparr>sr_run = i, sr_stage = s, sr_version = stageVersions s, sr_hash = h,
    sr_output = t, sr_attempts = 1, sr_finished = Some now, sr_error = None\<rparr>"
  let ?f = "\<lambda>r. r\<lparr>sr_hash := h, sr_output := t, sr_attempts := sr_attempts r + 1,
    sr_finished := Some now, sr_error := None\<rparr>"
  have "find (hit i s h') (stage_results (upsert_stage i s ?new ?f w)) =
      (if h' = h then Some (case find (stage_is i s) (stage_results w) of None \<Rightarrow> ?new | Some r \<Rightarrow> ?f r) else None)"
    by (rule find_upsert_same) (auto simp: stage_is_def hit_def)
  then show ?thesis using assms
    by (simp add: loadCheckpoint_hit save_output_def saveCheckpoint_def split: option.splits)
qed

lemma load_other_save:
  "marshal x = Some t \<Longrightarrow> length t \<le> maxOutputBytes \<Longrightarrow> (j, u) \<noteq> (i, s) \<Longrightarrow>
   loadCheckpoint unmarshal j u h' (save_output marshal now (i, s) h x w) = loadCheckpoint unmarshal j u h' w"
  by (simp add: loadCheckpoint_hit save_output_def saveCheckpoint_def)
    (subst find_upsert_other; auto simp: hit_def stage_is_def)

lemma load_after_failure: "loadCheckpoint unmarshal i s h (snd (recordStageFailure i s c w)) = None"
  unfolding loadCheckpoint_hit recordStageFailure_def Let_def snd_conv
  by (subst find_upsert_same [where q = False]) (auto simp: hit_def stage_is_def)

lemma load_other_failure:
  "(j, u) \<noteq> (i, s) \<Longrightarrow>
   loadCheckpoint unmarshal j u h (snd (recordStageFailure i s c w)) = loadCheckpoint unmarshal j u h w"
  unfolding loadCheckpoint_hit recordStageFailure_def Let_def snd_conv
  by (subst find_upsert_other) (auto simp: hit_def stage_is_def)

interpretation checkpoints: checkpoint_store
  "\<lambda>k h w. loadCheckpoint unmarshal (fst k) (snd k) h w" "save_output marshal now"
  "\<lambda>k w. snd (recordStageFailure (fst k) (snd k) c w)" "storable_output marshal unmarshal"
  for unmarshal :: "string \<Rightarrow> string \<Rightarrow> stage_output option" and marshal now c
proof unfold_locales
  fix k k' :: "string \<times> string" and x :: stage_output and h h' :: string and w :: world
  assume st: "storable_output marshal unmarshal k x"
  then obtain t where t: "marshal x = Some t" "length t \<le> maxOutputBytes" "unmarshal (snd k) t = Some x"
    by (auto simp: storable_output_def split: option.splits)
  have k: "k = (fst k, snd k)" by simp
  note a = load_after_save [where marshal = marshal and x = x and t = t and unmarshal = unmarshal, OF t(1,2), of "fst k" "snd k"]
  show "loadCheckpoint unmarshal (fst k) (snd k) h (save_output marshal now k h x w) = Some x"
    using a t(3) by simp
  show "h' \<noteq> h \<Longrightarrow> loadCheckpoint unmarshal (fst k) (snd k) h' (save_output marshal now k h x w) = None"
    using a by simp
  show "k' \<noteq> k \<Longrightarrow> loadCheckpoint unmarshal (fst k') (snd k') h' (save_output marshal now k h x w) =
      loadCheckpoint unmarshal (fst k') (snd k') h' w"
    using load_other_save [where marshal = marshal and x = x and t = t, OF t(1,2), of "fst k'" "snd k'" "fst k" "snd k"] by simp
next
  fix k k' :: "string \<times> string" and h :: string and w :: world
  show "loadCheckpoint unmarshal (fst k) (snd k) h (snd (recordStageFailure (fst k) (snd k) c w)) = None"
    by (rule load_after_failure)
  show "k' \<noteq> k \<Longrightarrow> loadCheckpoint unmarshal (fst k') (snd k') h (snd (recordStageFailure (fst k) (snd k) c w)) =
      loadCheckpoint unmarshal (fst k') (snd k') h w"
    by (rule load_other_failure) (simp add: prod_eq_iff)
qed

text \<open>A finished stage is not paid for twice: whatever other stages and runs saved or failed
  since, the stored output is found again under the same input hash, byte for byte the value the stage
  produced, and under no other input hash; a failure of the stage hides it again.\<close>

theorem checkpoint_answers_same_inputs_only:
  assumes "storable_output marshal unmarshal (i, s) x"
    and "\<forall>(k, r) \<in> set ops. k \<noteq> (i, s)
          \<and> (case r of None \<Rightarrow> True | Some (h, y) \<Rightarrow> storable_output marshal unmarshal k y)"
  shows "loadCheckpoint unmarshal i s h'
      (checkpoints.replay_ops marshal now c (((i, s), Some (h, x)) # ops) w) = (if h' = h then Some x else None)
    \<and> loadCheckpoint unmarshal i s h' (snd (recordStageFailure i s c
        (checkpoints.replay_ops marshal now c (((i, s), Some (h, x)) # ops) w))) = None"
  using checkpoints.last_save_wins [OF assms] by (simp add: load_after_failure)

text \<open>A codec for the witness: only transcripts, kept as they are.\<close>

definition plain_marshal :: "stage_output \<Rightarrow> string option" where
  "plain_marshal x = (case x of OutTranscript t \<Rightarrow> Some t | _ \<Rightarrow> None)"

definition plain_unmarshal :: "string \<Rightarrow> string \<Rightarrow> stage_output option" where
  "plain_unmarshal stage t = Some (OutTranscript t)"

theorem checkpoint_answers_same_inputs_only_witness:
  "loadCheckpoint plain_unmarshal ''r1'' stageTranscribe ''h''
     (checkpoints.replay_ops plain_marshal 5 Transient
        [((''r1'', stageTranscribe), Some (''h'', OutTranscript ''words'')), ((''r1'', stageExtract), None)]
        empty_world) = Some (OutTranscript ''words'')"
  using checkpoint_answers_same_inputs_only
    [of plain_marshal plain_unmarshal "''r1''" stageTranscribe "OutTranscript ''words''"
      "[((''r1'', stageExtract), None)]" "''h''" 5 Transient "''h''" empty_world]
  by (simp add: storable_output_def plain_marshal_def plain_unmarshal_def maxOutputBytes_def stage_names)

end
