(* ===== verification/Platform.thy ===== *)
theory Platform
  imports Checkpoint
begin

text \<open>
  The seam between the pipeline and its sources (\<open>internal/platform/platform.go\<close>), the identity
  and access scope a run is about (the types of \<open>internal/sourceidentity\<close>), and the worker's
  view of the outside: one transaction after another, each at a named point of the run.
\<close>

subsection \<open>Access scope (sourceidentity.go)\<close>

datatype access_scope = PublicScope | UserScope string

definition IsPublic :: "access_scope \<Rightarrow> bool" where
  "IsPublic s = (s = PublicScope)"

definition ForUser :: "string \<Rightarrow> access_scope \<Rightarrow> access_scope" where
  "ForUser user s = (if IsPublic s then s else UserScope user)"

definition scope_Hash :: "(string \<Rightarrow> string) \<Rightarrow> access_scope \<Rightarrow> goerr + string" where
  "scope_Hash sha s =
     (case s of
        PublicScope \<Rightarrow> Inr ''public''
      | UserScope u \<Rightarrow>
          if u = [] then Inl (Plain ''a user scope needs a user; call ForUser first'')
          else Inr (take 16 (sha (''user:'' @ u))))"

record source_identity =
  id_original :: string
  id_normalized :: string
  id_platform :: string
  id_type :: string
  id_content :: string
  id_scope :: access_scope

text \<open>Deduplication never crosses users unless the source is public: a qualified scope always has a
  hash, the hash of a public scope does not depend on who shared the link, and for a digest that
  separates the two users (and is no shorter than the word \<open>public\<close>) one user's private bucket is
  neither another user's nor the public one.\<close>

theorem scopes_separate_users:
  assumes "u \<noteq> []" and "v \<noteq> []" and "take 16 (sha (''user:'' @ u)) \<noteq> take 16 (sha (''user:'' @ v))"
    and "length (sha (''user:'' @ u)) = 64"
  shows "scope_Hash sha (ForUser u PublicScope) = scope_Hash sha (ForUser v PublicScope)
    \<and> scope_Hash sha (ForUser u (UserScope x)) \<noteq> scope_Hash sha (ForUser v (UserScope y))
    \<and> (\<exists>h. scope_Hash sha (ForUser u s) = Inr h)
    \<and> scope_Hash sha (ForUser u (UserScope x)) \<noteq> scope_Hash sha (ForUser v PublicScope)"
proof -
  have "length (take 16 (sha (''user:'' @ u))) = 16" using assms(4) by simp
  then have "take 16 (sha (''user:'' @ u)) \<noteq> ''public''"
  proof (rule contrapos_pn)
    assume "take 16 (sha (''user:'' @ u)) = ''public''"
    then have "length (take 16 (sha (''user:'' @ u))) = length ''public''" by (rule arg_cong)
    then show "length (take 16 (sha (''user:'' @ u))) \<noteq> 16" by simp
  qed
  then show ?thesis using assms(1-3)
    by (cases s) (simp_all add: scope_Hash_def ForUser_def IsPublic_def)
qed

definition sample_sha :: "string \<Rightarrow> string" where
  "sample_sha s = take 64 (rev s @ replicate 64 CHR ''0'')"

theorem scopes_separate_users_witness:
  "scope_Hash sample_sha (ForUser ''u1'' (UserScope [])) \<noteq> scope_Hash sample_sha (ForUser ''u2'' (UserScope []))"
  using scopes_separate_users [of "''u1''" "''u2''" sample_sha "[]" "[]" PublicScope]
  by (simp add: sample_sha_def)

subsection \<open>Handlers and their registry (platform.go)\<close>

record handler =
  h_platform :: string
  h_prepare :: "source_identity \<Rightarrow> goerr + prepared"
  h_download :: "source_identity \<Rightarrow> string \<Rightarrow> goerr + media list"

definition fallback_name :: string where "fallback_name = ''*''"

record registry =
  reg_handlers :: "string \<rightharpoonup> handler"
  reg_fallback :: "handler option"

definition register :: "handler \<Rightarrow> registry \<Rightarrow> string + registry" where
  "register h r =
     (if h_platform h = fallback_name then
        (if reg_fallback r \<noteq> None then Inl ''two fallback handlers are registered''
         else Inr (r\<lparr>reg_fallback := Some h\<rparr>))
      else if reg_handlers r (h_platform h) \<noteq> None then Inl ''registered twice''
      else Inr (r\<lparr>reg_handlers := (reg_handlers r)(h_platform h \<mapsto> h)\<rparr>))"

fun register_all :: "handler list \<Rightarrow> registry \<Rightarrow> string + registry" where
  "register_all [] r = Inr r"
| "register_all (h # hs) r = bind_r (register h r) (register_all hs)"

definition NewRegistry :: "handler list \<Rightarrow> string + registry" where
  "NewRegistry hs = register_all hs \<lparr>reg_handlers = Map.empty, reg_fallback = None\<rparr>"

definition registry_Get :: "registry \<Rightarrow> string \<Rightarrow> handler option" where
  "registry_Get r p =
     (case reg_handlers r p of Some h \<Rightarrow> Some h | None \<Rightarrow> reg_fallback r)"

lemma register_all_spec:
  "register_all hs r = Inr r' \<Longrightarrow>
   (\<forall>p h. reg_handlers r' p = Some h \<longleftrightarrow>
      reg_handlers r p = Some h \<or> h \<in> set hs \<and> h_platform h = p \<and> p \<noteq> fallback_name)
   \<and> (\<forall>h. reg_fallback r' = Some h \<longleftrightarrow> reg_fallback r = Some h \<or> h \<in> set hs \<and> h_platform h = fallback_name)
   \<and> distinct (map h_platform hs)
   \<and> (\<forall>h \<in> set hs. if h_platform h = fallback_name then reg_fallback r = None
         else reg_handlers r (h_platform h) = None)"
proof (induction hs arbitrary: r)
  case (Cons h hs)
  then obtain r1 where r1: "register h r = Inr r1" "register_all hs r1 = Inr r'"
    by (auto simp: bind_r_Inr_iff)
  from Cons.IH [OF r1(2)] r1(1) show ?case
    by (auto simp: register_def split: if_splits)
qed simp

subsection \<open>What a worker sees\<close>

text \<open>The points of one run at which it touches the database.  At each, \<open>e_at\<close> is what
  everybody else committed since the last one, \<open>e_db\<close> the database clock, \<open>e_now\<close> the
  process's clock, and \<open>e_fault\<close> what becomes of the transaction: it works, it fails and is
  rolled back, or it commits and the answer is lost.\<close>

datatype point = AtLoad | AtCheckpoint string | AtGeocode nat | AtGeocodeSave nat | AtTaxonomy | AtCommit string
  | AtEscalate | AtPersist | AtFailure

datatype txn_fault = TxnWorks | TxnFails goerr | CommitLost goerr

record env =
  e_at :: "point \<Rightarrow> world \<Rightarrow> world"
  e_fault :: "point \<Rightarrow> txn_fault"
  e_db :: "point \<Rightarrow> time"
  e_now :: "point \<Rightarrow> time"

type_synonym 'a prog = "world \<Rightarrow> (goerr + 'a) \<times> world"

definition return_w :: "'a \<Rightarrow> 'a prog" where
  "return_w a w = (Inr a, w)"

definition fail_w :: "goerr \<Rightarrow> 'a prog" where
  "fail_w e w = (Inl e, w)"

definition bind_w :: "'a prog \<Rightarrow> ('a \<Rightarrow> 'b prog) \<Rightarrow> 'b prog" where
  "bind_w m f w = (case m w of (Inl e, w1) \<Rightarrow> (Inl e, w1) | (Inr a, w1) \<Rightarrow> f a w1)"

definition post_w :: "(world \<Rightarrow> world) \<Rightarrow> unit prog" where
  "post_w f w = (Inr (), f w)"

definition lift_w :: "goerr + 'a \<Rightarrow> 'a prog" where
  "lift_w x w = (x, w)"

definition txn :: "env \<Rightarrow> point \<Rightarrow> (time \<Rightarrow> world \<Rightarrow> err + (world \<times> 'a)) \<Rightarrow> 'a prog" where
  "txn env p body w =
     (let w0 = e_at env p w
      in case e_fault env p of
           TxnFails e \<Rightarrow> (Inl e, w0)
         | TxnWorks \<Rightarrow>
             (case body (e_db env p) w0 of Inl e \<Rightarrow> (Inl (Store e), w0) | Inr (w1, a) \<Rightarrow> (Inr a, w1))
         | CommitLost e \<Rightarrow>
             (case body (e_db env p) w0 of Inl x \<Rightarrow> (Inl (Store x), w0) | Inr (w1, a) \<Rightarrow> (Inl e, w1)))"

text \<open>A read outside a transaction.\<close>

definition query :: "env \<Rightarrow> point \<Rightarrow> (world \<Rightarrow> goerr + 'a) \<Rightarrow> 'a prog" where
  "query env p f w =
     (let w0 = e_at env p w
      in case e_fault env p of TxnWorks \<Rightarrow> (f w0, w0) | TxnFails e \<Rightarrow> (Inl e, w0) | CommitLost e \<Rightarrow> (Inl e, w0))"

lemma prog_simps [simp]:
  "return_w a w = (Inr a, w)"
  "fail_w e w = (Inl e, w)"
  "post_w f w = (Inr (), f w)"
  "lift_w x w = (x, w)"
  by (simp_all add: return_w_def fail_w_def post_w_def lift_w_def)

lemma bind_w_cases:
  assumes "bind_w m f w = (r, w')"
  obtains (error) e where "m w = (Inl e, w')" and "r = Inl e"
    | (ok) a w1 where "m w = (Inr a, w1)" and "f a w1 = (r, w')"
  using assms by (auto simp: bind_w_def split: prod.splits sum.splits)

text \<open>A transaction leaves the world as it found it or as its body made it.\<close>

lemma txn_cases:
  assumes "txn env p body w = (r, w')"
  obtains (kept) e where "w' = e_at env p w" and "r = Inl e"
    | (committed) a where "body (e_db env p) (e_at env p w) = Inr (w', a)" and "r = Inr a \<or> (\<exists>e. r = Inl e \<and> e_fault env p = CommitLost e)"
  using assms by (auto simp: txn_def Let_def split: txn_fault.splits sum.splits prod.splits)

lemma txn_works:
  "e_fault env p = TxnWorks \<Longrightarrow> txn env p body w =
     (case body (e_db env p) (e_at env p w) of Inl e \<Rightarrow> (Inl (Store e), e_at env p w) | Inr (w1, a) \<Rightarrow> (Inr a, w1))"
  by (simp add: txn_def Let_def)

lemma query_world [simp]: "snd (query env p f w) = e_at env p w"
  by (simp add: query_def Let_def split: txn_fault.splits)

text \<open>\<open>(*Pipeline).invalidate\<close>: without a cache nothing is dropped; a Redis failure is logged.\<close>

definition invalidate :: "string list \<Rightarrow> world \<Rightarrow> world" where
  "invalidate users w =
     (if \<not> cache_store w then w
      else if \<not> redis_up w then w
      else w\<lparr>dropped := dropped w @ users\<rparr>)"

lemma invalidate_tables [simp]:
  "runs (invalidate us w) = runs w" "jobs (invalidate us w) = jobs w" "events (invalidate us w) = events w"
  "contents (invalidate us w) = contents w" "versions (invalidate us w) = versions w"
  "saves (invalidate us w) = saves w" "idem (invalidate us w) = idem w"
  "stage_results (invalidate us w) = stage_results w" "collections (invalidate us w) = collections w"
  "members (invalidate us w) = members w" "items (invalidate us w) = items w"
  "proposals (invalidate us w) = proposals w" "locations (invalidate us w) = locations w"
  by (simp_all add: invalidate_def)

end
