(* ===== verification/Signals.thy ===== *)
theory Signals
  imports Database
begin

text \<open>
  The two Redis hints (\<open>internal/outbox/signal.go\<close>, \<open>internal/lease/inflight.go\<close>):
  the dirty mark a committed outbox row leaves for the dispatcher, and the marker that exists
  while a lease may be in flight.  Both types may be nil, which is a process without Redis.
\<close>

subsection \<open>The interface: a mark that is taken once\<close>

text \<open>\<open>notify\<close> leaves a mark, \<open>take\<close> reads and clears it in one command.  What the
  dispatcher relies on: a mark left since the last take is seen by the next one.\<close>

locale wake_flag =
  fixes notify :: "'s \<Rightarrow> 's"
    and take_mark :: "'s \<Rightarrow> 'e + (bool \<times> 's)"
    and ready :: "'s \<Rightarrow> bool"
  assumes ready_notify: "ready s \<Longrightarrow> ready (notify s)"
    and take_notify: "ready s \<Longrightarrow> \<exists>t. take_mark (notify s) = Inr (True, t)"
    and take_clears: "ready s \<Longrightarrow> take_mark s = Inr (b, t) \<Longrightarrow> ready t \<and> (\<exists>u. take_mark t = Inr (False, u))"
    and take_answers: "ready s \<Longrightarrow> \<exists>b t. take_mark s = Inr (b, t)"
begin

lemma ready_notify_pow: "ready s \<Longrightarrow> ready ((notify ^^ n) s)"
  by (induction n) (auto intro: ready_notify)

text \<open>However many writers signalled, one take sees them and the next finds nothing.\<close>

lemma signals_coalesce:
  assumes "ready s" and "0 < n"
  obtains t u where "take_mark ((notify ^^ n) s) = Inr (True, t)" and "take_mark t = Inr (False, u)"
proof -
  obtain m where n: "n = Suc m" using assms(2) by (cases n) auto
  have r: "ready ((notify ^^ m) s)" using assms(1) by (rule ready_notify_pow)
  obtain t where t: "take_mark ((notify ^^ n) s) = Inr (True, t)"
    using take_notify [OF r] n by auto
  have "ready ((notify ^^ n) s)" using assms(1) by (rule ready_notify_pow)
  from take_clears [OF this t] obtain u where "take_mark t = Inr (False, u)" by blast
  with t that show ?thesis by blast
qed

end

subsection \<open>The outbox signal\<close>

text \<open>\<open>NewSignal\<close> answers nil without a store; \<open>Notify\<close> only logs a Redis failure.\<close>

definition Notify :: "world \<Rightarrow> world" where
  "Notify w =
     (if \<not> outbox_store w then w
      else if \<not> redis_up w then w
      else w\<lparr>dirty := True\<rparr>)"

text \<open>\<open>GETDEL\<close>: \<open>redis.Nil\<close> is "not dirty", any other error is passed on.\<close>

definition take_signal :: "world \<Rightarrow> err + (bool \<times> world)" where
  "take_signal w =
     (if \<not> redis_up w then Inl (ErrOther ''redis'')
      else if dirty w then Inr (True, w\<lparr>dirty := False\<rparr>)
      else Inr (False, w))"

definition signal_ready :: "world \<Rightarrow> bool" where
  "signal_ready w = (outbox_store w \<and> redis_up w)"

interpretation outbox_signal: wake_flag Notify take_signal signal_ready
  by unfold_locales (auto simp: Notify_def take_signal_def signal_ready_def split: if_splits)

lemma Notify_tables [simp]:
  "runs (Notify w) = runs w" "jobs (Notify w) = jobs w" "events (Notify w) = events w"
  "contents (Notify w) = contents w" "versions (Notify w) = versions w" "saves (Notify w) = saves w"
  "idem (Notify w) = idem w" "stage_results (Notify w) = stage_results w"
  "collections (Notify w) = collections w" "members (Notify w) = members w"
  "items (Notify w) = items w" "proposals (Notify w) = proposals w"
  by (simp_all add: Notify_def)

subsection \<open>The in-flight marker\<close>

text \<open>\<open>lease.Duration\<close>\<close>

definition lease_Duration :: duration where "lease_Duration = 2 * minute"

text \<open>\<open>(*Inflight).mark\<close>: \<open>SET key 1 EX 2*Duration\<close>; a failure is only logged.\<close>

definition mark :: "time \<Rightarrow> world \<Rightarrow> world" where
  "mark now w =
     (if \<not> inflight_store w then w
      else if \<not> redis_up w then w
      else w\<lparr>inflight_until := Some (now + 2 * lease_Duration)\<rparr>)"

definition active :: "time \<Rightarrow> world \<Rightarrow> err + bool" where
  "active now w =
     (if \<not> redis_up w then Inl (ErrOther ''redis'')
      else Inr (case inflight_until w of None \<Rightarrow> False | Some t \<Rightarrow> now < t))"

lemma mark_tables [simp]:
  "runs (mark now w) = runs w" "jobs (mark now w) = jobs w" "events (mark now w) = events w"
  "contents (mark now w) = contents w" "versions (mark now w) = versions w" "saves (mark now w) = saves w"
  "idem (mark now w) = idem w" "stage_results (mark now w) = stage_results w"
  "collections (mark now w) = collections w" "members (mark now w) = members w"
  "items (mark now w) = items w" "proposals (mark now w) = proposals w"
  by (simp_all add: mark_def)

end
