(* ===== verification/Lease.thy ===== *)
theory Lease
  imports Signals
begin

text \<open>
  The run lease (\<open>internal/lease/lease.go\<close>, \<open>sweeper.go\<close>): one UPDATE per operation on
  \<open>processing_runs\<close>, the fencing predicate on owner and generation, the sweep of expired
  leases with its resume events, and the sweeper's decision to look.  The lemmas show that a
  claim, once it is no longer current, never becomes current again, whatever the service does.
\<close>

subsection \<open>The interface: a store of fenced claims\<close>

text \<open>\<open>view s i\<close> is the generation and the owner of claim \<open>i\<close>.  A step may move the
  generation up, or, at the same generation, keep or drop the owner.\<close>

locale fenced_store =
  fixes view :: "'s \<Rightarrow> 'i \<Rightarrow> (int \<times> 'o option) option"
    and step :: "'s \<Rightarrow> 's \<Rightarrow> bool"
  assumes step_view:
    "step s t \<Longrightarrow> view s i = Some (g, ow) \<Longrightarrow>
     \<exists>g' ow'. view t i = Some (g', ow') \<and> (g < g' \<or> g' = g \<and> (ow' = ow \<or> ow' = None))"
begin

lemma steps_view:
  assumes "step\<^sup>*\<^sup>* s t" and "view s i = Some (g, ow)"
  shows "\<exists>g' ow'. view t i = Some (g', ow') \<and> (g < g' \<or> g' = g \<and> (ow' = ow \<or> ow' = None))"
  using assms
proof (induction rule: rtranclp_induct)
  case (step t u)
  then obtain g1 o1 where 1: "view t i = Some (g1, o1)" "g < g1 \<or> g1 = g \<and> (o1 = ow \<or> o1 = None)"
    by blast
  from step_view [OF step.hyps(2) 1(1)] obtain g2 o2
    where "view u i = Some (g2, o2)" "g1 < g2 \<or> g2 = g1 \<and> (o2 = o1 \<or> o2 = None)" by blast
  with 1(2) show ?case by (intro exI [of _ g2] exI [of _ o2]) auto
qed blast

lemma generation_grows:
  assumes "step\<^sup>*\<^sup>* s t" and "view s i = Some (g, ow)"
  obtains g' ow' where "view t i = Some (g', ow')" and "g \<le> g'"
  using steps_view [OF assms] by force

text \<open>A claim of generation \<open>g\<close> that the store has seen and does not hold now is never
  held again.\<close>

lemma stale_forever:
  assumes "step\<^sup>*\<^sup>* s t" and "view s i = Some (g', ow')" and "g \<le> g'"
    and "(g', ow') \<noteq> (g, Some ow)"
  shows "view t i \<noteq> Some (g, Some ow)"
  using steps_view [OF assms(1,2)] assms(3,4) by auto

end

subsection \<open>The operations\<close>

record lease =
  l_run :: string
  l_owner :: string
  l_generation :: int
  l_expires :: time

definition can_acquire :: "time \<Rightarrow> string \<Rightarrow> run_row \<Rightarrow> bool" where
  "can_acquire now i r =
     (run_id r = i \<and> live_status (run_state r)
      \<and> (run_owner r = None \<or> before (run_expires r) now))"

definition acquire_row :: "time \<Rightarrow> string \<Rightarrow> run_row \<Rightarrow> run_row" where
  "acquire_row now owner r =
     r\<lparr>run_owner := Some owner, run_expires := Some (now + lease_Duration),
       run_generation := run_generation r + 1, run_state := RunProcessing, run_updated := now\<rparr>"

definition Acquire :: "string option \<Rightarrow> time \<Rightarrow> string \<Rightarrow> string \<Rightarrow> world \<Rightarrow> err + (lease \<times> world)" where
  "Acquire fault now i owner w =
     with_fault fault
       (case find (can_acquire now i) (runs w) of
          None \<Rightarrow> Inl ErrNotAcquired
        | Some r \<Rightarrow>
            Inr (\<lparr>l_run = run_id r, l_owner = owner, l_generation = run_generation r + 1,
                  l_expires = now + lease_Duration\<rparr>,
                 mark now (w\<lparr>runs := update_where (can_acquire now i) (acquire_row now owner) (runs w)\<rparr>)))"

definition is_claim :: "lease \<Rightarrow> run_row \<Rightarrow> bool" where
  "is_claim l r =
     (run_id r = l_run l \<and> run_owner r = Some (l_owner l) \<and> run_generation r = l_generation l)"

definition Renew :: "string option \<Rightarrow> time \<Rightarrow> lease \<Rightarrow> world \<Rightarrow> err + (lease \<times> world)" where
  "Renew fault now l w =
     (let P = (\<lambda>r. is_claim l r \<and> run_state r = RunProcessing)
      in with_fault fault
           (if matching P (runs w) = 0 then Inl ErrFenced
            else Inr (l\<lparr>l_expires := now + lease_Duration\<rparr>,
                      mark now (w\<lparr>runs := update_where P
                        (\<lambda>r. r\<lparr>run_expires := Some (now + lease_Duration), run_updated := now\<rparr>)
                        (runs w)\<rparr>))))"

text \<open>The statement \<open>body\<close> runs inside the caller's transaction, after the row lock.\<close>

definition touch_claim :: "time \<Rightarrow> lease \<Rightarrow> world \<Rightarrow> world" where
  "touch_claim now l w =
     w\<lparr>runs := update_where (is_claim l) (\<lambda>r. r\<lparr>run_updated := now\<rparr>) (runs w)\<rparr>"

definition GuardedExec :: "time \<Rightarrow> lease \<Rightarrow> (world \<Rightarrow> err + (world \<times> 'a)) \<Rightarrow> world \<Rightarrow> err + (world \<times> 'a)" where
  "GuardedExec now l body w =
     (if matching (is_claim l) (runs w) = 0 then Inl ErrFenced
      else body (touch_claim now l w))"

definition Release :: "string option \<Rightarrow> time \<Rightarrow> lease \<Rightarrow> world \<Rightarrow> err + world" where
  "Release fault now l w =
     with_fault fault
       (Inr (w\<lparr>runs := update_where (\<lambda>r. is_claim l r \<and> run_state r = RunProcessing)
          (\<lambda>r. r\<lparr>run_owner := None, run_expires := None, run_state := RunQueued, run_updated := now\<rparr>)
          (runs w)\<rparr>))"

subsection \<open>The sweep\<close>

text \<open>\<open>ON CONFLICT (event_id) DO NOTHING\<close>\<close>

definition insert_event :: "event_row \<Rightarrow> world \<Rightarrow> world" where
  "insert_event e w =
     (if ev_id e \<in> set (map ev_id (events w)) then w else w\<lparr>events := events w @ [e]\<rparr>)"

text \<open>The routing key of the run's most recent event that is not a resume, or the
  fallback; of two events with one creation time the later row counts as more recent.\<close>

definition routing_key_of :: "string \<Rightarrow> string \<Rightarrow> world \<Rightarrow> string" where
  "routing_key_of fallback i w =
     (case rev (sort_key ev_created
              (filter (\<lambda>e. (case ev_payload e of None \<Rightarrow> False | Some (r, _) \<Rightarrow> r = i)
                           \<and> ev_type e \<noteq> ''run.resume'') (events w))) of
        [] \<Rightarrow> fallback | e # _ \<Rightarrow> ev_key e)"

definition resume_event ::
  "(string \<Rightarrow> string \<Rightarrow> string) \<Rightarrow> time \<Rightarrow> string \<Rightarrow> string \<Rightarrow> int \<Rightarrow> world \<Rightarrow> event_row" where
  "resume_event mkuuid now fallback i g w =
     \<lparr>ev_id = mkuuid ''6ba7b810-9dad-11d1-80b4-00c04fd430c8''
                 (''resume:'' @ i @ '':'' @ show_int g),
      ev_type = ''run.resume'', ev_key = routing_key_of fallback i w, ev_schema = 1,
      ev_payload = Some (i, g), ev_available = now, ev_attempts = 0, ev_published = None,
      ev_created = now\<rparr>"

definition requeue_row :: "time \<Rightarrow> run_row \<Rightarrow> run_row" where
  "requeue_row now r =
     r\<lparr>run_state := RunQueued, run_owner := None, run_expires := None, run_updated := now\<rparr>"

definition sweep_one ::
  "(string \<Rightarrow> string \<Rightarrow> string) \<Rightarrow> time \<Rightarrow> string \<Rightarrow> string \<times> int \<Rightarrow> world \<Rightarrow> world" where
  "sweep_one mkuuid now fallback e w =
     (let w1 = w\<lparr>runs := update_where (\<lambda>r. run_id r = fst e) (requeue_row now) (runs w)\<rparr>
      in insert_event (resume_event mkuuid now fallback (fst e) (snd e) w1) w1)"

definition expired_runs :: "time \<Rightarrow> run_row list \<Rightarrow> run_row list" where
  "expired_runs now rs =
     sort_key (\<lambda>r. case run_expires r of None \<Rightarrow> 0 | Some t \<Rightarrow> t)
       (filter (\<lambda>r. run_state r = RunProcessing \<and> before (run_expires r) now) rs)"

definition SweepExpired ::
  "(string \<Rightarrow> string \<Rightarrow> string) \<Rightarrow> string option \<Rightarrow> time \<Rightarrow> string \<Rightarrow> int \<Rightarrow> world \<Rightarrow> err + (nat \<times> world)" where
  "SweepExpired mkuuid fault now fallback limit w =
     (let lim = (if limit \<le> 0 then 100 else limit);
          found = map (\<lambda>r. (run_id r, run_generation r)) (take (nat lim) (expired_runs now (runs w)));
          w1 = foldl (\<lambda>w e. sweep_one mkuuid now fallback e w) w found;
          swept = length found
      in with_fault fault (Inr (swept, if 0 < swept then Notify w1 else w1)))"

subsection \<open>The sweeper\<close>

text \<open>\<open>due\<close>: without Redis, or when it does not answer, the tick sweeps.\<close>

definition sweeper_due :: "time \<Rightarrow> world \<Rightarrow> bool" where
  "sweeper_due now w =
     (if \<not> inflight_store w then True
      else (case active now w of Inl _ \<Rightarrow> True | Inr a \<Rightarrow> a))"

text \<open>\<open>Run\<close>: one sweep at the start; if nothing was due then, the follow-up timer is armed;
  afterwards the loop sweeps on the timer, on a wake, and on a tick that is due.  The function
  says which of the loop's events lead to a sweep; \<open>Stop\<close> is the cancelled context.\<close>

datatype sweeper_event = FollowUpFired | WokenUp | Ticked time | Stop

fun sweeper_run :: "bool \<Rightarrow> (sweeper_event \<times> world) list \<Rightarrow> bool list" where
  "sweeper_run armed [] = []"
| "sweeper_run armed ((Stop, w) # es) = []"
| "sweeper_run armed ((FollowUpFired, w) # es) = armed # sweeper_run False es"
| "sweeper_run armed ((WokenUp, w) # es) = True # sweeper_run armed es"
| "sweeper_run armed ((Ticked now, w) # es) = sweeper_due now w # sweeper_run armed es"

definition sweeper_Run :: "time \<Rightarrow> world \<Rightarrow> (sweeper_event \<times> world) list \<Rightarrow> bool list" where
  "sweeper_Run now w es = True # sweeper_run (\<not> sweeper_due now w) es"

subsection \<open>Frames\<close>

text \<open>The contract of \<open>fenced_store\<close> for one transition, as a relation on worlds.\<close>

definition lease_view :: "world \<Rightarrow> string \<Rightarrow> (int \<times> string option) option" where
  "lease_view w i =
     map_option (\<lambda>r. (run_generation r, run_owner r)) (find (\<lambda>r. run_id r = i) (runs w))"

definition view_le :: "int \<times> string option \<Rightarrow> int \<times> string option \<Rightarrow> bool" where
  "view_le a b = (fst a < fst b \<or> fst b = fst a \<and> (snd b = snd a \<or> snd b = None))"

definition lease_frame :: "world \<Rightarrow> world \<Rightarrow> bool" where
  "lease_frame w w' =
     (\<forall>i a. lease_view w i = Some a \<longrightarrow> (\<exists>b. lease_view w' i = Some b \<and> view_le a b))"

lemma view_le_refl [simp]: "view_le a a"
  by (simp add: view_le_def)

lemma view_le_trans: "view_le a b \<Longrightarrow> view_le b c \<Longrightarrow> view_le a c"
  by (auto simp: view_le_def)

lemma lease_frame_refl [simp, frame_intros]: "lease_frame w w"
  by (simp add: lease_frame_def)

lemma lease_frame_trans: "lease_frame u v \<Longrightarrow> lease_frame v w \<Longrightarrow> lease_frame u w"
  unfolding lease_frame_def by (meson view_le_trans)

lemma lease_frame_runs_eq: "runs w' = runs w \<Longrightarrow> lease_frame u w' = lease_frame u w"
  by (simp add: lease_frame_def lease_view_def)

lemma lease_frame_runs_eq1: "runs w' = runs w \<Longrightarrow> lease_frame w' u = lease_frame w u"
  by (simp add: lease_frame_def lease_view_def)

lemma lease_frame_same [frame_intros]: "runs w' = runs w \<Longrightarrow> lease_frame w w'"
  using lease_frame_runs_eq [of w' w w] by simp

text \<open>Any UPDATE whose new row keeps the id and is \<open>view_le\<close> above the old one is framed.\<close>

lemma lease_frame_update [frame_intros]:
  assumes "runs w' = update_where P f (runs w)"
    and "\<And>r. run_id (f r) = run_id r"
    and "\<And>r. P r \<Longrightarrow> view_le (run_generation r, run_owner r) (run_generation (f r), run_owner (f r))"
  shows "lease_frame w w'"
  unfolding lease_frame_def
proof (intro allI impI)
  fix i a
  assume "lease_view w i = Some a"
  then obtain r where r: "find (\<lambda>r. run_id r = i) (runs w) = Some r"
    and a: "a = (run_generation r, run_owner r)" by (auto simp: lease_view_def)
  have "find (\<lambda>r. run_id r = i) (runs w') = Some (if P r then f r else r)"
    using assms(1,2) r by (simp add: find_update_where_key [where k = run_id])
  then show "\<exists>b. lease_view w' i = Some b \<and> view_le a b"
    using assms(3) [of r] a by (simp add: lease_view_def)
qed

lemma find_append_left: "find P xs = Some x \<Longrightarrow> find P (xs @ ys) = Some x"
  by (induction xs) auto

lemma lease_frame_insert [frame_intros]:
  "runs w' = runs w @ rs \<Longrightarrow> lease_frame w w'"
  unfolding lease_frame_def lease_view_def
  by (fastforce simp: find_append_left)

lemma insert_event_tables [simp]:
  "runs (insert_event e w) = runs w" "jobs (insert_event e w) = jobs w"
  "saves (insert_event e w) = saves w" "contents (insert_event e w) = contents w"
  "versions (insert_event e w) = versions w" "idem (insert_event e w) = idem w"
  "stage_results (insert_event e w) = stage_results w" "collections (insert_event e w) = collections w"
  "members (insert_event e w) = members w" "items (insert_event e w) = items w"
  "proposals (insert_event e w) = proposals w"
  by (simp_all add: insert_event_def)

lemma Acquire_frame [frame_intros]: "Acquire fault now i o' w = Inr (l, w') \<Longrightarrow> lease_frame w w'"
  by (rule lease_frame_update [of _ "can_acquire now i" "acquire_row now o'"])
    (auto simp: Acquire_def with_fault_Inr acquire_row_def view_le_def split: option.splits)

lemma Renew_frame [frame_intros]: "Renew fault now l w = Inr (l', w') \<Longrightarrow> lease_frame w w'"
  by (rule lease_frame_update [of _ "\<lambda>r. is_claim l r \<and> run_state r = RunProcessing"
        "\<lambda>r. r\<lparr>run_expires := Some (now + lease_Duration), run_updated := now\<rparr>"])
    (auto simp: Renew_def Let_def with_fault_Inr view_le_def split: if_splits)

lemma Release_frame [frame_intros]: "Release fault now l w = Inr w' \<Longrightarrow> lease_frame w w'"
  by (rule lease_frame_update [of _ "\<lambda>r. is_claim l r \<and> run_state r = RunProcessing"
        "\<lambda>r. r\<lparr>run_owner := None, run_expires := None, run_state := RunQueued, run_updated := now\<rparr>"])
    (auto simp: Release_def with_fault_Inr view_le_def)

lemma touch_claim_frame [frame_intros]: "lease_frame w (touch_claim now l w)"
  by (rule lease_frame_update [of _ "is_claim l" "\<lambda>r. r\<lparr>run_updated := now\<rparr>"])
    (auto simp: touch_claim_def view_le_def)

lemma GuardedExec_frame [frame_intros]:
  "GuardedExec now l body w = Inr (w', a) \<Longrightarrow>
   (\<And>u v b. body u = Inr (v, b) \<Longrightarrow> lease_frame u v) \<Longrightarrow> lease_frame w w'"
  by (auto simp: GuardedExec_def split: if_splits intro: lease_frame_trans [OF touch_claim_frame])

lemma sweep_one_frame: "lease_frame w (sweep_one mkuuid now fallback e w)"
  by (rule lease_frame_update [of _ "\<lambda>r. run_id r = fst e" "requeue_row now"])
    (auto simp: sweep_one_def Let_def requeue_row_def view_le_def)

lemma sweep_all_frame: "lease_frame w (foldl (\<lambda>w e. sweep_one mkuuid now fallback e w) w es)"
  by (induction es arbitrary: w) (auto intro: lease_frame_trans sweep_one_frame)

text \<open>The runs one sweep requeues, each with its generation.\<close>

definition swept_runs :: "time \<Rightarrow> int \<Rightarrow> world \<Rightarrow> (string \<times> int) list" where
  "swept_runs now limit w =
     map (\<lambda>r. (run_id r, run_generation r))
       (take (nat (if limit \<le> 0 then 100 else limit)) (expired_runs now (runs w)))"

lemma SweepExpired_unfold:
  "SweepExpired mkuuid fault now fallback limit w =
     with_fault fault (Inr (length (swept_runs now limit w),
       if swept_runs now limit w = [] then w
       else Notify (foldl (\<lambda>w e. sweep_one mkuuid now fallback e w) w (swept_runs now limit w))))"
  unfolding SweepExpired_def swept_runs_def [symmetric] Let_def by simp

lemma SweepExpired_cases:
  assumes "SweepExpired mkuuid fault now fallback limit w = Inr (n, w')"
  obtains es where "es = swept_runs now limit w" and "n = length es"
    and "w' = (if es = [] then w else Notify (foldl (\<lambda>w e. sweep_one mkuuid now fallback e w) w es))"
  using assms unfolding SweepExpired_unfold with_fault_Inr by simp

lemma SweepExpired_frame [frame_intros]:
  "SweepExpired mkuuid fault now fallback limit w = Inr (n, w') \<Longrightarrow> lease_frame w w'"
proof -
  assume a: "SweepExpired mkuuid fault now fallback limit w = Inr (n, w')"
  obtain es where w': "w' = (if es = [] then w else Notify (foldl (\<lambda>w e. sweep_one mkuuid now fallback e w) w es))"
    using a by (rule SweepExpired_cases)
  have "runs w' = runs (foldl (\<lambda>w e. sweep_one mkuuid now fallback e w) w es)"
    by (simp add: w')
  from lease_frame_runs_eq [OF this] sweep_all_frame show ?thesis by blast
qed

subsection \<open>The lease protocol as a step relation\<close>

inductive lease_step :: "(string \<Rightarrow> string \<Rightarrow> string) \<Rightarrow> world \<Rightarrow> world \<Rightarrow> bool"
  for mkuuid where
  acquire: "Acquire fault now i owner w = Inr (l, w') \<Longrightarrow> lease_step mkuuid w w'"
| renew: "Renew fault now l w = Inr (l', w') \<Longrightarrow> lease_step mkuuid w w'"
| release: "Release fault now l w = Inr w' \<Longrightarrow> lease_step mkuuid w w'"
| sweep: "SweepExpired mkuuid fault now fallback limit w = Inr (n, w') \<Longrightarrow> lease_step mkuuid w w'"
| new_run: "run_id r \<notin> set (map run_id (runs w)) \<Longrightarrow> lease_step mkuuid w (w\<lparr>runs := runs w @ [r]\<rparr>)"

lemma lease_step_frame: "lease_step mkuuid w w' \<Longrightarrow> lease_frame w w'"
  by (induction rule: lease_step.induct) (auto intro: frame_intros)

lemma lease_frame_view:
  "lease_frame w w' \<Longrightarrow> lease_view w i = Some (g, ow) \<Longrightarrow>
   \<exists>g' ow'. lease_view w' i = Some (g', ow') \<and> (g < g' \<or> g' = g \<and> (ow' = ow \<or> ow' = None))"
  by (fastforce simp: lease_frame_def view_le_def)

interpretation lease_store: fenced_store lease_view "lease_step mkuuid" for mkuuid
  by unfold_locales (rule lease_frame_view [OF lease_step_frame])

subsection \<open>What a claim means\<close>

definition holds :: "lease \<Rightarrow> world \<Rightarrow> bool" where
  "holds l w = (lease_view w (l_run l) = Some (l_generation l, Some (l_owner l)))"

text \<open>With unique run ids the fencing predicate of every guarded statement is \<open>holds\<close>.\<close>

lemma matching_claim:
  assumes "run_keys w"
  shows "matching (is_claim l) (runs w) \<noteq> 0 \<longleftrightarrow> holds l w"
proof
  assume "matching (is_claim l) (runs w) \<noteq> 0"
  then obtain r where r: "r \<in> set (runs w)" "is_claim l r" by (auto simp: matching_0)
  then have "find (\<lambda>x. run_id x = run_id r) (runs w) = Some r"
    using assms by (auto simp: run_keys_def intro: find_key_distinct)
  with r show "holds l w" by (auto simp: holds_def lease_view_def is_claim_def)
next
  assume "holds l w"
  then show "matching (is_claim l) (runs w) \<noteq> 0"
    by (auto simp: holds_def lease_view_def matching_0 is_claim_def dest!: find_Some_in)
qed

lemma GuardedExec_fenced: "run_keys w \<Longrightarrow> \<not> holds l w \<Longrightarrow> GuardedExec now l body w = Inl ErrFenced"
  using matching_claim [of w l] by (auto simp: GuardedExec_def)

lemma GuardedExec_body: "run_keys w \<Longrightarrow> holds l w \<Longrightarrow> GuardedExec now l body w = body (touch_claim now l w)"
  using matching_claim [of w l] by (auto simp: GuardedExec_def)

lemma Renew_fenced: "run_keys w \<Longrightarrow> \<not> holds l w \<Longrightarrow> Renew None now l w = Inl ErrFenced"
  using matching_claim [of w l] by (auto simp: Renew_def Let_def matching_0)

lemma run_keys_update: "(\<And>r. run_id (f r) = run_id r) \<Longrightarrow>
   run_keys (w\<lparr>runs := update_where P f (runs w)\<rparr>) = run_keys w"
  by (simp add: run_keys_def)

lemma holds_runs_eq: "runs w' = runs w \<Longrightarrow> holds l w' = holds l w"
  by (simp add: holds_def lease_view_def)

lemma Acquire_holds:
  assumes "run_keys w" and "Acquire fault now i owner w = Inr (l, w')"
  shows "holds l w'" and "l_owner l = owner" and "l_run l = i"
    and "\<exists>ow. lease_view w i = Some (l_generation l - 1, ow)"
proof -
  obtain r where r: "find (can_acquire now i) (runs w) = Some r" and l:
    "l = \<lparr>l_run = run_id r, l_owner = owner, l_generation = run_generation r + 1,
          l_expires = now + lease_Duration\<rparr>"
    and w': "w' = mark now (w\<lparr>runs := update_where (can_acquire now i) (acquire_row now owner) (runs w)\<rparr>)"
    using assms(2) by (auto simp: Acquire_def with_fault_Inr split: option.splits)
  have c: "r \<in> set (runs w)" "can_acquire now i r" using find_Some_in [OF r] by auto
  then have i: "run_id r = i" by (simp add: can_acquire_def)
  have f: "find (\<lambda>x. run_id x = i) (runs w) = Some r"
    using find_key_distinct [of run_id "runs w" r] assms(1) c(1) i by (simp add: run_keys_def)
  have "find (\<lambda>x. run_id x = i) (runs w') = Some (acquire_row now owner r)"
    using c(2) by (simp add: w' find_update_where_key [where k = run_id] acquire_row_def f)
  then show "holds l w'" by (simp add: holds_def lease_view_def l i acquire_row_def)
  show "l_owner l = owner" "l_run l = i" by (simp_all add: l i)
  show "\<exists>ow. lease_view w i = Some (l_generation l - 1, ow)" by (simp add: l lease_view_def f)
qed

subsection \<open>Every step keeps the run ids unique\<close>

lemma run_ids_update:
  "runs w' = update_where P f (runs w) \<Longrightarrow> (\<And>r. run_id (f r) = run_id r) \<Longrightarrow>
   map run_id (runs w') = map run_id (runs w)"
  by simp

lemma Acquire_ids [keeps_intros]:
  "Acquire fault now i owner w = Inr (l, w') \<Longrightarrow> map run_id (runs w') = map run_id (runs w)"
  by (rule run_ids_update [of _ "can_acquire now i" "acquire_row now owner"])
    (auto simp: Acquire_def with_fault_Inr acquire_row_def split: option.splits)

lemma Renew_ids [keeps_intros]:
  "Renew fault now l w = Inr (l', w') \<Longrightarrow> map run_id (runs w') = map run_id (runs w)"
  by (auto simp: Renew_def Let_def with_fault_Inr split: if_splits)

lemma Release_ids [keeps_intros]:
  "Release fault now l w = Inr w' \<Longrightarrow> map run_id (runs w') = map run_id (runs w)"
  by (auto simp: Release_def with_fault_Inr)

lemma sweep_one_ids: "map run_id (runs (sweep_one mkuuid now fallback e w)) = map run_id (runs w)"
  by (simp add: sweep_one_def Let_def requeue_row_def)

lemma sweep_all_ids:
  "map run_id (runs (foldl (\<lambda>w e. sweep_one mkuuid now fallback e w) w es)) = map run_id (runs w)"
  by (induction es arbitrary: w) (simp_all add: sweep_one_ids)

lemma SweepExpired_ids [keeps_intros]:
  assumes "SweepExpired mkuuid fault now fallback limit w = Inr (n, w')"
  shows "map run_id (runs w') = map run_id (runs w)"
  using assms by (rule SweepExpired_cases) (simp add: sweep_all_ids split: if_splits)

lemma lease_step_keys: "lease_step mkuuid w w' \<Longrightarrow> run_keys w \<Longrightarrow> run_keys w'"
  by (induction rule: lease_step.induct) (auto simp: run_keys_def dest: keeps_intros)

lemma lease_steps_keys: "(lease_step mkuuid)\<^sup>*\<^sup>* w w' \<Longrightarrow> run_keys w \<Longrightarrow> run_keys w'"
  by (induction rule: rtranclp_induct) (auto intro: lease_step_keys)

subsection \<open>The effect of a sweep\<close>

definition resume_id :: "(string \<Rightarrow> string \<Rightarrow> string) \<Rightarrow> string \<Rightarrow> int \<Rightarrow> string" where
  "resume_id mkuuid i g =
     mkuuid ''6ba7b810-9dad-11d1-80b4-00c04fd430c8'' (''resume:'' @ i @ '':'' @ show_int g)"

definition event_ids :: "world \<Rightarrow> string set" where
  "event_ids w = set (map ev_id (events w))"

lemma event_ids_insert: "event_ids (insert_event e w) = insert (ev_id e) (event_ids w)"
  by (auto simp: event_ids_def insert_event_def)

lemma resume_event_id [simp]: "ev_id (resume_event mkuuid now fb i g w) = resume_id mkuuid i g"
  by (simp add: resume_event_def resume_id_def)

lemma sweep_one_runs:
  "runs (sweep_one mkuuid now fb e w) = update_where (\<lambda>r. run_id r = fst e) (requeue_row now) (runs w)"
  by (simp add: sweep_one_def Let_def)

lemma event_ids_runs_update [simp]: "event_ids (w\<lparr>runs := x\<rparr>) = event_ids w"
  by (simp add: event_ids_def)

lemma event_ids_Notify [simp]: "event_ids (Notify w) = event_ids w"
  by (simp add: event_ids_def)

lemma sweep_one_events:
  "event_ids (sweep_one mkuuid now fb e w) = insert (resume_id mkuuid (fst e) (snd e)) (event_ids w)"
  by (simp add: sweep_one_def Let_def event_ids_insert)

lemma sweep_all_runs:
  "runs (foldl (\<lambda>w e. sweep_one mkuuid now fb e w) w es) =
   update_where (\<lambda>r. run_id r \<in> fst ` set es) (requeue_row now) (runs w)"
proof (induction es arbitrary: w)
  case Nil
  then show ?case by (simp add: update_where_none)
next
  case (Cons e es)
  show ?case
    by (simp add: Cons.IH sweep_one_runs update_where_def requeue_row_def)
qed

lemma sweep_all_events:
  "event_ids (foldl (\<lambda>w e. sweep_one mkuuid now fb e w) w es) =
   (\<lambda>e. resume_id mkuuid (fst e) (snd e)) ` set es \<union> event_ids w"
  by (induction es arbitrary: w) (auto simp: sweep_one_events)

lemma insert_event_mono: "set (events w) \<subseteq> set (events (insert_event e w))"
  by (auto simp: insert_event_def)

lemma sweep_all_events_mono:
  "set (events w) \<subseteq> set (events (foldl (\<lambda>w e. sweep_one mkuuid now fb e w) w es))"
proof (induction es arbitrary: w)
  case (Cons e es)
  have "set (events w) \<subseteq> set (events (sweep_one mkuuid now fb e w))"
    using insert_event_mono by (fastforce simp: sweep_one_def Let_def)
  with Cons.IH show ?case by fastforce
qed simp

text \<open>A fresh resume event is written unpublished, due now, with the run and the generation
  of the claim that expired.\<close>

lemma sweep_all_new_event:
  assumes "e \<in> set es" and "resume_id mkuuid (fst e) (snd e) \<notin> event_ids w"
    and "\<And>a b. a \<in> set es \<Longrightarrow> b \<in> set es \<Longrightarrow>
      resume_id mkuuid (fst a) (snd a) = resume_id mkuuid (fst b) (snd b) \<Longrightarrow> a = b"
  shows "\<exists>x \<in> set (events (foldl (\<lambda>w e. sweep_one mkuuid now fb e w) w es)).
    ev_id x = resume_id mkuuid (fst e) (snd e) \<and> ev_payload x = Some e
    \<and> ev_type x = ''run.resume'' \<and> ev_published x = None \<and> ev_available x = now \<and> ev_attempts x = 0"
  using assms
proof (induction es arbitrary: w)
  case (Cons a es)
  let ?w = "sweep_one mkuuid now fb a w"
  show ?case
  proof (cases "resume_id mkuuid (fst a) (snd a) = resume_id mkuuid (fst e) (snd e)")
    case True
    then have [simp]: "e = a" using Cons.prems by auto
    have "resume_event mkuuid now fb (fst a) (snd a)
        (w\<lparr>runs := update_where (\<lambda>r. run_id r = fst a) (requeue_row now) (runs w)\<rparr>) \<in> set (events ?w)"
      using Cons.prems(2) by (auto simp: sweep_one_def Let_def insert_event_def event_ids_def)
    moreover note sweep_all_events_mono [of ?w mkuuid now fb es]
    ultimately show ?thesis
      by (intro bexI [of _ "resume_event mkuuid now fb (fst a) (snd a)
        (w\<lparr>runs := update_where (\<lambda>r. run_id r = fst a) (requeue_row now) (runs w)\<rparr>)"])
        (auto simp: resume_event_def resume_id_def)
  next
    case False
    then have "e \<in> set es" "resume_id mkuuid (fst e) (snd e) \<notin> event_ids ?w"
      using Cons.prems by (auto simp: sweep_one_events)
    from Cons.IH [OF this] Cons.prems(3) show ?thesis by simp
  qed
qed simp

text \<open>Resume ids already in the outbox belong to claims that are over.\<close>

definition resume_inv :: "(string \<Rightarrow> string \<Rightarrow> string) \<Rightarrow> world \<Rightarrow> bool" where
  "resume_inv mkuuid w =
     (\<forall>i g. resume_id mkuuid i g \<in> event_ids w \<longrightarrow>
        (\<exists>r \<in> set (runs w). run_id r = i
           \<and> (g < run_generation r \<or> g = run_generation r \<and> run_state r \<noteq> RunProcessing)))"

definition uuid_inj :: "(string \<Rightarrow> string \<Rightarrow> string) \<Rightarrow> bool" where
  "uuid_inj mkuuid = (\<forall>n m x y. mkuuid n x = mkuuid m y \<longrightarrow> n = m \<and> x = y)"

lemma resume_id_inj: "uuid_inj mkuuid \<Longrightarrow> resume_id mkuuid i g = resume_id mkuuid j h \<longleftrightarrow> i = j \<and> g = h"
proof
  assume u: "uuid_inj mkuuid" and "resume_id mkuuid i g = resume_id mkuuid j h"
  then have "''resume:'' @ i @ '':'' @ show_int g = ''resume:'' @ j @ '':'' @ show_int h"
    unfolding resume_id_def uuid_inj_def by blast
  then have e: "i @ CHR '':'' # show_int g = j @ CHR '':'' # show_int h" by simp
  from last_sep_inj [OF this show_int_no_colon show_int_no_colon] show "i = j \<and> g = h"
    by (simp add: show_int_inj)
qed simp

lemma resume_inv_update:
  assumes "resume_inv mkuuid w" and "runs w' = update_where P f (runs w)"
    and "event_ids w' \<subseteq> event_ids w" and "\<And>r. run_id (f r) = run_id r"
    and "\<And>r. P r \<Longrightarrow> run_generation r < run_generation (f r) \<or>
      run_generation (f r) = run_generation r \<and>
      (run_state (f r) = RunProcessing \<longrightarrow> run_state r = RunProcessing)"
  shows "resume_inv mkuuid w'"
  unfolding resume_inv_def
proof (intro allI impI)
  fix i g
  assume "resume_id mkuuid i g \<in> event_ids w'"
  then obtain r where r: "r \<in> set (runs w)" "run_id r = i"
    "g < run_generation r \<or> g = run_generation r \<and> run_state r \<noteq> RunProcessing"
    using assms(1,3) unfolding resume_inv_def by blast
  let ?r = "if P r then f r else r"
  have "?r \<in> set (runs w')" using r(1) by (auto simp: assms(2) set_update_where)
  then show "\<exists>r \<in> set (runs w'). run_id r = i
      \<and> (g < run_generation r \<or> g = run_generation r \<and> run_state r \<noteq> RunProcessing)"
    using r(2,3) assms(4) assms(5) [of r] by (intro bexI [of _ ?r]) auto
qed

lemma event_ids_mark [simp]: "event_ids (mark now w) = event_ids w"
  by (simp add: event_ids_def)

lemma swept_runs_in: "e \<in> set (swept_runs now limit w) \<Longrightarrow>
  \<exists>r \<in> set (runs w). e = (run_id r, run_generation r) \<and> run_state r = RunProcessing \<and> before (run_expires r) now"
  by (auto simp: swept_runs_def expired_runs_def dest!: in_set_takeD)

lemma swept_runs_all:
  assumes "length (expired_runs now (runs w)) \<le> nat (if limit \<le> 0 then 100 else limit)"
    and "r \<in> set (runs w)" and "run_state r = RunProcessing" and "before (run_expires r) now"
  shows "(run_id r, run_generation r) \<in> set (swept_runs now limit w)"
  using assms by (auto simp: swept_runs_def expired_runs_def)

lemma resume_inv_sweep:
  assumes u: "uuid_inj mkuuid" and inv: "resume_inv mkuuid w"
    and es: "\<And>e. e \<in> set es \<Longrightarrow> \<exists>r \<in> set (runs w). e = (run_id r, run_generation r)"
  shows "resume_inv mkuuid (foldl (\<lambda>w e. sweep_one mkuuid now fb e w) w es)" (is "resume_inv _ ?w")
proof -
  let ?v = "w\<lparr>runs := runs ?w\<rparr>"
  have old: "resume_inv mkuuid ?v"
    by (rule resume_inv_update [OF inv, of _ "\<lambda>r. run_id r \<in> fst ` set es" "requeue_row now"])
      (auto simp: sweep_all_runs requeue_row_def)
  show ?thesis
    unfolding resume_inv_def
  proof (intro allI impI)
    fix i g
    assume "resume_id mkuuid i g \<in> event_ids ?w"
    then consider "resume_id mkuuid i g \<in> event_ids w" | "(i, g) \<in> set es"
      by (force simp: sweep_all_events resume_id_inj [OF u])
    then show "\<exists>r \<in> set (runs ?w). run_id r = i
      \<and> (g < run_generation r \<or> g = run_generation r \<and> run_state r \<noteq> RunProcessing)"
    proof cases
      case 1
      then show ?thesis using old by (auto simp: resume_inv_def)
    next
      case 2
      then obtain r where "r \<in> set (runs w)" "run_id r = i" "run_generation r = g" using es by blast
      moreover from this have "requeue_row now r \<in> set (runs ?w)"
        using 2 by (force simp: sweep_all_runs set_update_where)
      ultimately show ?thesis by (intro bexI [of _ "requeue_row now r"]) (auto simp: requeue_row_def)
    qed
  qed
qed

lemma resume_inv_Notify: "resume_inv mkuuid (Notify w) = resume_inv mkuuid w"
  by (simp add: resume_inv_def)

lemma lease_step_resume_inv:
  assumes "lease_step mkuuid w w'" and u: "uuid_inj mkuuid" and inv: "resume_inv mkuuid w"
  shows "resume_inv mkuuid w'"
  using assms(1)
proof cases
  case (acquire fault now i owner l)
  show ?thesis
    by (rule resume_inv_update [OF inv, of _ "can_acquire now i" "acquire_row now owner"])
      (use acquire in \<open>auto simp: Acquire_def with_fault_Inr acquire_row_def split: option.splits\<close>)
next
  case (renew fault now l l')
  show ?thesis
    by (rule resume_inv_update [OF inv, of _ "\<lambda>r. is_claim l r \<and> run_state r = RunProcessing"
        "\<lambda>r. r\<lparr>run_expires := Some (now + lease_Duration), run_updated := now\<rparr>"])
      (use renew in \<open>auto simp: Renew_def Let_def with_fault_Inr split: if_splits\<close>)
next
  case (release fault now l)
  show ?thesis
    by (rule resume_inv_update [OF inv, of _ "\<lambda>r. is_claim l r \<and> run_state r = RunProcessing"
        "\<lambda>r. r\<lparr>run_owner := None, run_expires := None, run_state := RunQueued, run_updated := now\<rparr>"])
      (use release in \<open>auto simp: Release_def with_fault_Inr\<close>)
next
  case (sweep fault now fallback limit n)
  obtain es where es: "es = swept_runs now limit w"
    and w': "w' = (if es = [] then w else Notify (foldl (\<lambda>w e. sweep_one mkuuid now fallback e w) w es))"
    using sweep by (rule SweepExpired_cases)
  have "resume_inv mkuuid (foldl (\<lambda>w e. sweep_one mkuuid now fallback e w) w es)"
    by (rule resume_inv_sweep [OF u inv]) (use es swept_runs_in in blast)
  then show ?thesis using inv by (simp add: w' resume_inv_Notify)
next
  case (new_run r)
  then show ?thesis using inv by (fastforce simp: resume_inv_def)
qed

lemma lease_steps_resume_inv:
  "(lease_step mkuuid)\<^sup>*\<^sup>* w w' \<Longrightarrow> uuid_inj mkuuid \<Longrightarrow> resume_inv mkuuid w \<Longrightarrow> resume_inv mkuuid w'"
  by (induction rule: rtranclp_induct) (auto intro: lease_step_resume_inv)

lemma resweep_nothing:
  assumes "length (expired_runs now (runs w)) \<le> nat (if limit \<le> 0 then 100 else limit)"
    and "runs w' = update_where (\<lambda>r. run_id r \<in> fst ` set (swept_runs now limit w)) (requeue_row now) (runs w)"
  shows "swept_runs now limit w' = []"
proof -
  have "filter (\<lambda>r. run_state r = RunProcessing \<and> before (run_expires r) now) (runs w') = []"
    using swept_runs_all [OF assms(1)]
    by (force simp: assms(2) filter_empty_conv set_update_where requeue_row_def)
  then show ?thesis by (simp add: swept_runs_def expired_runs_def)
qed

subsection \<open>Properties\<close>


text \<open>Once a worker's claim is no longer current, it never is again: after any further
  sequence of acquisitions, renewals, releases and sweeps by anyone, every guarded commit and every
  renewal under it is refused with \<open>ErrFenced\<close> and a release under it changes nothing.\<close>

theorem lost_claim_is_fenced_forever:
  assumes "run_keys w0" and "Acquire fault now i owner w0 = Inr (l, w1)"
    and "(lease_step mkuuid)\<^sup>*\<^sup>* w1 w" and "\<not> holds l w" and "(lease_step mkuuid)\<^sup>*\<^sup>* w t"
  shows "GuardedExec now' l body t = Inl ErrFenced \<and> Renew None now' l t = Inl ErrFenced
    \<and> Release None now' l t = Inr t"
proof -
  have k1: "run_keys w1" using Acquire_ids [OF assms(2)] assms(1) by (simp add: run_keys_def)
  have v1: "lease_view w1 (l_run l) = Some (l_generation l, Some (l_owner l))"
    using Acquire_holds(1) [OF assms(1,2)] by (simp add: holds_def)
  obtain g ow where g: "lease_view w (l_run l) = Some (g, ow)" "l_generation l \<le> g"
    using lease_store.generation_grows [OF assms(3) v1] by blast
  have "\<not> holds l t"
    using lease_store.stale_forever [OF assms(5) g] assms(4) g(1) by (auto simp: holds_def)
  moreover have k: "run_keys t" using k1 assms(3,5) lease_steps_keys by blast
  ultimately have 1: "GuardedExec now' l body t = Inl ErrFenced \<and> Renew None now' l t = Inl ErrFenced"
    by (simp add: GuardedExec_fenced Renew_fenced)
  have "\<forall>r \<in> set (runs t). \<not> is_claim l r"
    using matching_claim [OF k, of l] \<open>\<not> holds l t\<close> by (simp add: matching_0)
  then have "update_where (\<lambda>r. is_claim l r \<and> run_state r = RunProcessing) f (runs t) = runs t" for f
    by (auto intro: update_where_none)
  then have "Release None now' l t = Inr t" by (simp add: Release_def)
  with 1 show ?thesis by blast
qed

text \<open>A run has one owner at a time: when a run is claimed again, by anyone and after any
  history, the new claim has a strictly larger generation, it is the current one, and the earlier
  claim is not.\<close>

theorem acquire_fences_the_past:
  assumes "run_keys w0" and "Acquire f1 t1 i o1 w0 = Inr (l1, w1)"
    and "(lease_step mkuuid)\<^sup>*\<^sup>* w1 w2" and "Acquire f2 t2 i o2 w2 = Inr (l2, w3)"
  shows "l_generation l1 < l_generation l2 \<and> holds l2 w3 \<and> \<not> holds l1 w3"
proof -
  have "run_keys w1" using Acquire_ids [OF assms(2)] assms(1) by (simp add: run_keys_def)
  then have k2: "run_keys w2" using assms(3) lease_steps_keys by blast
  have v1: "lease_view w1 i = Some (l_generation l1, Some (l_owner l1))"
    using Acquire_holds [OF assms(1,2)] by (simp add: holds_def)
  obtain g ow where g: "lease_view w2 i = Some (g, ow)" "l_generation l1 \<le> g"
    using lease_store.generation_grows [OF assms(3) v1] by blast
  from Acquire_holds [OF k2 assms(4)] g show ?thesis
    using Acquire_holds(3) [OF assms(1,2)] by (auto simp: holds_def)
qed

text \<open>The in-flight marker outlives the lease it covers by a whole lease: from the
  acquisition until one \<open>Duration\<close> after the lease's expiry every tick of the sweeper looks at
  the database, so a dead worker's run is still inside the window.\<close>

theorem marker_outlives_the_lease:
  assumes "Acquire fault now i owner w = Inr (l, w')" and "inflight_store w"
    and "t < l_expires l + lease_Duration"
  shows "sweeper_due t w'"
  using assms
  by (auto simp: Acquire_def with_fault_Inr sweeper_due_def active_def mark_def
      split: option.splits if_splits)

subsection \<open>Witnesses\<close>

text \<open>Worker \<open>a\<close> claims the sample run and stalls past its lease, the sweep requeues the
  run, worker \<open>b\<close> claims it.\<close>

definition sample_claim_a :: world where
  "sample_claim_a = sample_world\<lparr>runs := [acquire_row 10 ''a'' sample_run],
     inflight_until := Some (10 + 2 * lease_Duration)\<rparr>"

definition sample_lease_a :: lease where
  "sample_lease_a = \<lparr>l_run = ''r1'', l_owner = ''a'', l_generation = 1, l_expires = 10 + lease_Duration\<rparr>"

definition sample_late :: time where
  "sample_late = 20 + lease_Duration"

definition sample_claim_b :: world where
  "sample_claim_b = sample_claim_a\<lparr>
     runs := [acquire_row sample_late ''b'' (acquire_row 10 ''a'' sample_run)],
     inflight_until := Some (sample_late + 2 * lease_Duration)\<rparr>"

definition sample_lease_b :: lease where
  "sample_lease_b = \<lparr>l_run = ''r1'', l_owner = ''b'', l_generation = 2,
     l_expires = sample_late + lease_Duration\<rparr>"

lemmas lease_sample_defs = sample_defs sample_claim_a_def sample_lease_a_def sample_late_def
  sample_claim_b_def sample_lease_b_def

lemma sample_keys: "run_keys sample_world"
  by (simp add: run_keys_def sample_defs)

lemma sample_acquire_a: "Acquire None 10 ''r1'' ''a'' sample_world = Inr (sample_lease_a, sample_claim_a)"
  by (simp add: Acquire_def can_acquire_def live_status_def mark_def lease_sample_defs acquire_row_def)

lemma sample_acquire_b:
  "Acquire None sample_late ''r1'' ''b'' sample_claim_a = Inr (sample_lease_b, sample_claim_b)"
  by (simp add: Acquire_def can_acquire_def live_status_def mark_def lease_sample_defs
      acquire_row_def lease_Duration_def)

lemma sample_lost_a: "\<not> holds sample_lease_a sample_claim_b"
  by (simp add: holds_def lease_view_def lease_sample_defs acquire_row_def)

text \<open>A UUID function without collisions: the namespace's length, a colon, both strings.\<close>

definition sample_uuid :: "string \<Rightarrow> string \<Rightarrow> string" where
  "sample_uuid n x = show_nat (length n) @ CHR '':'' # n @ x"

lemma sample_uuid_inj: "uuid_inj sample_uuid"
  unfolding uuid_inj_def
proof (intro allI impI)
  fix n m x y
  assume eq: "sample_uuid n x = sample_uuid m y"
  have no: "\<forall>c \<in> set (show_nat k). c \<noteq> CHR '':''" for k
    using show_int_no_colon [of "int k"] by (auto simp: show_int_def)
  have "takeWhile (\<lambda>c. c \<noteq> CHR '':'') (sample_uuid n x) = show_nat (length n)" for n x
    using no by (simp add: sample_uuid_def takeWhile_append2)
  with eq have l: "show_nat (length n) = show_nat (length m)" by metis
  then have "length n = length m" by (simp add: show_nat_inj)
  with eq l show "n = m \<and> x = y" by (simp add: sample_uuid_def)
qed

theorem lost_claim_is_fenced_forever_witness:
  "GuardedExec 0 sample_lease_a (\<lambda>w. Inr (w, ())) sample_claim_b = Inl ErrFenced
   \<and> Renew None 0 sample_lease_a sample_claim_b = Inl ErrFenced
   \<and> Release None 0 sample_lease_a sample_claim_b = Inr sample_claim_b"
proof -
  have "(lease_step sample_uuid)\<^sup>*\<^sup>* sample_claim_a sample_claim_b"
    using lease_step.acquire [OF sample_acquire_b, of sample_uuid] by blast
  then show ?thesis
    by (rule lost_claim_is_fenced_forever [OF sample_keys sample_acquire_a _ sample_lost_a rtranclp.rtrancl_refl])
qed

theorem acquire_fences_the_past_witness:
  "l_generation sample_lease_a < l_generation sample_lease_b \<and> holds sample_lease_b sample_claim_b
   \<and> \<not> holds sample_lease_a sample_claim_b"
  by (rule acquire_fences_the_past [where mkuuid = sample_uuid, OF sample_keys sample_acquire_a rtranclp.rtrancl_refl sample_acquire_b])


theorem marker_outlives_the_lease_witness: "sweeper_due sample_late sample_claim_a"
  by (rule marker_outlives_the_lease [OF sample_acquire_a])
    (simp_all add: lease_sample_defs lease_Duration_def)

end
