(* ===== verification/Queue.thy ===== *)
theory Queue
  imports Prelude
begin

text \<open>
  The RabbitMQ side (\<open>internal/queue\<close>): the message envelope and its validation, the topology
  every process declares, the retry queue of a class and an attempt, the confirming publisher and
  the decision a consumer makes about one delivery.  The broker is a record of declared queues and
  bindings; JSON encoding and decoding are the arguments \<open>marshal\<close> and \<open>unmarshal\<close>.
\<close>

subsection \<open>The envelope (message.go)\<close>

definition SchemaVersion :: int where "SchemaVersion = 1"
definition MaxMessageBytes :: nat where "MaxMessageBytes = 4096"

definition EventProcessMedia :: string where "EventProcessMedia = ''run.process.media''"
definition EventProcessLight :: string where "EventProcessLight = ''run.process.light''"
definition EventNotification :: string where "EventNotification = ''notification.send''"
definition EventPriceCheck :: string where "EventPriceCheck = ''price_tracks.check''"

record message =
  msg_event_id :: string
  msg_schema :: int
  msg_type :: string
  msg_run :: string
  msg_generation :: int
  msg_created :: time
  msg_trace :: "(string \<times> string) list"

datatype queue_err = NoEventId | NoRunId | NoEventType | NoSchemaVersion | NewerSchema int
  | TooLarge nat | Undecodable | PublishFailed | ConfirmFailed | Rejected | Unroutable

definition Validate :: "message \<Rightarrow> queue_err option" where
  "Validate m =
     (if msg_event_id m = [] then Some NoEventId
      else if msg_run m = [] \<and> msg_type m \<noteq> EventNotification \<and> msg_type m \<noteq> EventPriceCheck
        then Some NoRunId
      else if msg_type m = [] then Some NoEventType
      else if msg_schema m = 0 then Some NoSchemaVersion
      else if msg_schema m > SchemaVersion then Some (NewerSchema (msg_schema m))
      else None)"

definition Decode :: "(string \<Rightarrow> message option) \<Rightarrow> string \<Rightarrow> queue_err + message" where
  "Decode unmarshal body =
     (if length body > MaxMessageBytes then Inl (TooLarge (length body))
      else (case unmarshal body of
              None \<Rightarrow> Inl Undecodable
            | Some m \<Rightarrow> (case Validate m of Some e \<Rightarrow> Inl e | None \<Rightarrow> Inr m)))"

subsection \<open>The topology (topology.go)\<close>

definition Exchange :: string where "Exchange = ''reelpin.processing''"
definition QueueMedia :: string where "QueueMedia = ''reelpin.processing.media''"
definition QueueLight :: string where "QueueLight = ''reelpin.processing.light''"
definition QueueNotify :: string where "QueueNotify = ''reelpin.notifications''"
definition QueueScheduled :: string where "QueueScheduled = ''reelpin.scheduled''"

definition WorkQueues :: "string list" where
  "WorkQueues = [QueueMedia, QueueLight, QueueNotify, QueueScheduled]"

definition DelayQueue :: string where "DelayQueue = QueueScheduled @ ''.delay''"

definition RetryDelays :: "duration list" where "RetryDelays = [30 * second, 5 * minute]"

definition retryQueue :: "string \<Rightarrow> duration \<Rightarrow> string" where
  "retryQueue q delay = q @ ''.retry.'' @ show_int (delay div second) @ ''s''"

definition DeadLetterQueue :: "string \<Rightarrow> string" where
  "DeadLetterQueue q = q @ ''.dead''"

text \<open>The arguments of a queue: its TTL in milliseconds, and the exchange and routing key a
  message that expires or is rejected is sent to.\<close>

record queue_args =
  q_ttl :: "int option"
  q_dead_exchange :: "string option"
  q_dead_key :: "string option"

definition plain_args :: queue_args where
  "plain_args = \<lparr>q_ttl = None, q_dead_exchange = None, q_dead_key = None\<rparr>"

definition dead_args :: "string \<Rightarrow> queue_args" where
  "dead_args k = \<lparr>q_ttl = None, q_dead_exchange = Some Exchange, q_dead_key = Some k\<rparr>"

definition retry_args :: "duration \<Rightarrow> string \<Rightarrow> queue_args" where
  "retry_args delay q =
     \<lparr>q_ttl = Some (delay div millisecond), q_dead_exchange = Some Exchange, q_dead_key = Some q\<rparr>"

text \<open>A broker: its exchanges, its queues with their arguments and its bindings of a queue to a
  routing key of the exchange.  Declaring a queue that exists is accepted with equal arguments and
  closes the channel with an error otherwise.\<close>

record broker =
  b_exchanges :: "string list"
  b_queues :: "string \<rightharpoonup> queue_args"
  b_bindings :: "(string \<times> string) set"

definition declare_exchange :: "string \<Rightarrow> broker \<Rightarrow> string + broker" where
  "declare_exchange x b =
     Inr (if x \<in> set (b_exchanges b) then b else b\<lparr>b_exchanges := x # b_exchanges b\<rparr>)"

definition declare_queue :: "string \<Rightarrow> queue_args \<Rightarrow> broker \<Rightarrow> string + broker" where
  "declare_queue q args b =
     (case b_queues b q of
        None \<Rightarrow> Inr (b\<lparr>b_queues := (b_queues b)(q \<mapsto> args)\<rparr>)
      | Some old \<Rightarrow> if old = args then Inr b else Inl q)"

definition bind_queue :: "string \<Rightarrow> string \<Rightarrow> broker \<Rightarrow> string + broker" where
  "bind_queue q key b =
     (if b_queues b q = None then Inl q else Inr (b\<lparr>b_bindings := insert (q, key) (b_bindings b)\<rparr>))"

definition declare_bound :: "string \<Rightarrow> queue_args \<Rightarrow> broker \<Rightarrow> string + broker" where
  "declare_bound q args b = bind_r (declare_queue q args b) (bind_queue q q)"

fun declare_all :: "(string \<times> queue_args) list \<Rightarrow> broker \<Rightarrow> string + broker" where
  "declare_all [] b = Inr b"
| "declare_all ((q, args) # ds) b = bind_r (declare_bound q args b) (declare_all ds)"

text \<open>What \<open>Declare\<close> declares and binds, in its order: for each class the dead letters, the
  work queue and its parking queues, and last the delay queue.\<close>

definition class_decls :: "string \<Rightarrow> (string \<times> queue_args) list" where
  "class_decls q =
     (DeadLetterQueue q, plain_args) # (q, dead_args (DeadLetterQueue q))
     # map (\<lambda>d. (retryQueue q d, retry_args d q)) RetryDelays"

definition topology :: "(string \<times> queue_args) list" where
  "topology = concat (map class_decls WorkQueues) @ [(DelayQueue, dead_args QueueScheduled)]"

definition Declare :: "broker \<Rightarrow> string + broker" where
  "Declare b = bind_r (declare_exchange Exchange b) (declare_all topology)"

text \<open>The attempt is an \<open>int\<close>; a first or nonsensical attempt takes the first delay, one past
  the end the last.\<close>

definition RetryRoutingKey :: "string \<Rightarrow> int \<Rightarrow> string" where
  "RetryRoutingKey q attempt =
     (let i = attempt - 1;
          i = (if i < 0 then 0 else i);
          i = (if i \<ge> int (length RetryDelays) then int (length RetryDelays) - 1 else i)
      in retryQueue q (RetryDelays ! nat i))"

subsection \<open>The publisher (publisher.go)\<close>

text \<open>What the broker does with one mandatory publish.\<close>

datatype publish_reply = WriteFails | ConfirmLost | Nacked | Acked "string option"

text \<open>\<open>returns\<close> is the buffer of messages the broker returned; it is drained before the
  publish, so only this publish's return, the argument of \<open>Acked\<close>, is seen.\<close>

definition publish ::
  "(message \<Rightarrow> string option) \<Rightarrow> (string \<Rightarrow> publish_reply) \<Rightarrow> string list \<Rightarrow> string \<Rightarrow> message
   \<Rightarrow> (queue_err + unit) \<times> string list" where
  "publish marshal reply returns key m =
     (case marshal m of
        None \<Rightarrow> (Inl Undecodable, returns)
      | Some body \<Rightarrow>
          if length body > MaxMessageBytes then (Inl (TooLarge (length body)), returns)
          else (case reply key of
                  WriteFails \<Rightarrow> (Inl PublishFailed, [])
                | ConfirmLost \<Rightarrow> (Inl ConfirmFailed, [])
                | Nacked \<Rightarrow> (Inl Rejected, [])
                | Acked None \<Rightarrow> (Inr (), [])
                | Acked (Some _) \<Rightarrow> (Inl Unroutable, [])))"

definition PublishRetry ::
  "(string \<Rightarrow> message \<Rightarrow> queue_err + unit) \<Rightarrow> string \<Rightarrow> int \<Rightarrow> message \<Rightarrow> queue_err + unit" where
  "PublishRetry pub q attempt m = pub (RetryRoutingKey q attempt) m"

text \<open>The expiration of \<open>PublishDelayed\<close> in milliseconds.\<close>

definition delayed_expiration :: "duration \<Rightarrow> string" where
  "delayed_expiration delay = show_int ((if delay < 0 then 0 else delay) div millisecond)"

subsection \<open>The consumer (consumer.go)\<close>

datatype decision = Done | Retry int | DeadLetter

datatype ack = Ack | NackRequeue | NackDrop

text \<open>The counter label is the one \<open>count\<close> or \<open>deadLettered\<close> adds to.\<close>

definition handleDelivery ::
  "(string \<Rightarrow> message option) \<Rightarrow> (string \<Rightarrow> message \<Rightarrow> queue_err + unit) \<Rightarrow> (message \<Rightarrow> decision)
   \<Rightarrow> string \<Rightarrow> string \<Rightarrow> ack \<times> string" where
  "handleDelivery unmarshal pub handle q body =
     (case Decode unmarshal body of
        Inl _ \<Rightarrow> (NackDrop, ''undecodable'')
      | Inr m \<Rightarrow>
          (case handle m of
             Done \<Rightarrow> (Ack, ''done'')
           | Retry attempt \<Rightarrow>
               (case PublishRetry pub q attempt m of
                  Inl _ \<Rightarrow> (NackRequeue, ''requeued'')
                | Inr _ \<Rightarrow> (Ack, ''retried''))
           | DeadLetter \<Rightarrow> (NackDrop, ''dead_lettered'')))"

text \<open>\<open>Consume\<close>'s wait before the \<open>n\<close>-th reopening, the jitter given by the random
  source: \<open>backoff + rand(backoff/2)\<close>, then the backoff doubles up to 30 seconds.\<close>

definition maxBackoff :: duration where "maxBackoff = 30 * second"

fun reconnect_waits :: "duration \<Rightarrow> (duration \<Rightarrow> duration) list \<Rightarrow> duration list" where
  "reconnect_waits backoff [] = []"
| "reconnect_waits backoff (jitter # js) =
     (backoff + jitter (backoff div 2)) # reconnect_waits (min (backoff * 2) maxBackoff) js"

subsection \<open>Declaring\<close>

text \<open>The broker a decl list asks for: every queue with its arguments, bound to its own name.\<close>

definition declared_in :: "broker \<Rightarrow> string \<times> queue_args \<Rightarrow> bool" where
  "declared_in b d = (b_queues b (fst d) = Some (snd d) \<and> (fst d, fst d) \<in> b_bindings b)"

lemma declare_bound_done:
  assumes "declare_bound q args b = Inr b'"
  shows "declared_in b' (q, args)" and "b_queues b \<subseteq>\<^sub>m b_queues b'" and "b_bindings b \<subseteq> b_bindings b'"
    and "b_exchanges b' = b_exchanges b" and "b_bindings b' = insert (q, q) (b_bindings b)"
  using assms
  by (auto simp: declare_bound_def declare_queue_def bind_queue_def declared_in_def map_le_def
      bind_r_Inr_iff split: option.splits if_splits)

lemma declare_bound_again: "declared_in b (q, args) \<Longrightarrow> declare_bound q args b = Inr b"
  by (cases b) (auto simp: declare_bound_def declare_queue_def bind_queue_def declared_in_def insert_absorb)

lemma declared_in_mono:
  "declared_in b d \<Longrightarrow> b_queues b \<subseteq>\<^sub>m b_queues b' \<Longrightarrow> b_bindings b \<subseteq> b_bindings b' \<Longrightarrow> declared_in b' d"
  by (auto simp: declared_in_def map_le_def dom_def)

lemma declare_all_done:
  "declare_all ds b = Inr b' \<Longrightarrow>
   list_all (declared_in b') ds \<and> b_queues b \<subseteq>\<^sub>m b_queues b' \<and> b_bindings b \<subseteq> b_bindings b'
   \<and> b_exchanges b' = b_exchanges b \<and> b_bindings b' = (\<lambda>d. (fst d, fst d)) ` set ds \<union> b_bindings b"
proof (induction ds b rule: declare_all.induct)
  case (2 q args ds b)
  then obtain b1 where b1: "declare_bound q args b = Inr b1" "declare_all ds b1 = Inr b'"
    by (auto simp: bind_r_Inr_iff)
  note d = declare_bound_done [OF b1(1)] and ih = "2.IH" [OF b1]
  have "declared_in b' (q, args)" using declared_in_mono [OF d(1)] ih by blast
  moreover have "b_queues b \<subseteq>\<^sub>m b_queues b'" using d(2) ih map_le_trans by blast
  ultimately show ?case using ih d by auto
qed simp

lemma declare_all_again: "list_all (declared_in b) ds \<Longrightarrow> declare_all ds b = Inr b"
  by (induction ds) (auto simp: declare_bound_again)

lemma Declare_unfold:
  "Declare b = Inr b' \<Longrightarrow>
   \<exists>b0. declare_exchange Exchange b = Inr b0 \<and> declare_all topology b0 = Inr b' \<and> Exchange \<in> set (b_exchanges b0)
     \<and> b_bindings b0 = b_bindings b"
  by (auto simp: Declare_def bind_r_Inr_iff declare_exchange_def split: if_splits)

definition fresh_broker :: broker where
  "fresh_broker = \<lparr>b_exchanges = [], b_queues = Map.empty, b_bindings = {}\<rparr>"

text \<open>The queues a message published with this routing key reaches: the binding keys contain no
  wildcard word, so a topic match is equality.\<close>

definition routed_to :: "broker \<Rightarrow> string \<Rightarrow> string set" where
  "routed_to b key = {q. (q, key) \<in> b_bindings b}"

lemma RetryRoutingKey_stage: "\<exists>d \<in> set RetryDelays. RetryRoutingKey q attempt = retryQueue q d"
proof -
  have "attempt \<le> 1 \<or> attempt = 2 \<or> 2 < attempt" by linarith
  then show ?thesis by (auto simp: RetryRoutingKey_def RetryDelays_def Let_def)
qed

lemma retry_declared:
  "q \<in> set WorkQueues \<Longrightarrow> d \<in> set RetryDelays \<Longrightarrow> (retryQueue q d, retry_args d q) \<in> set topology"
  by (auto simp: topology_def class_decls_def)

lemma work_declared: "q \<in> set WorkQueues \<Longrightarrow> (q, dead_args (DeadLetterQueue q)) \<in> set topology"
  by (auto simp: topology_def class_decls_def)

subsection \<open>Properties\<close>

text \<open>Declaring the topology is idempotent: once \<open>Declare\<close> succeeded, declaring again
  succeeds and changes nothing, so every process may declare on every reconnect.\<close>

theorem declare_is_idempotent:
  assumes "Declare b = Inr b'"
  shows "Declare b' = Inr b'"
proof -
  obtain b0 where b0: "declare_all topology b0 = Inr b'" "Exchange \<in> set (b_exchanges b0)"
    using Declare_unfold [OF assms] by blast
  note d = declare_all_done [OF b0(1)]
  have "declare_exchange Exchange b' = Inr b'" using d b0(2) by (simp add: declare_exchange_def)
  then show ?thesis using d declare_all_again by (simp add: Declare_def)
qed

text \<open>A retry never crosses into another class: on a broker that was declared from scratch, the
  routing key of any attempt reaches exactly its own parking queue, which has no other way out than
  its TTL of 30 seconds or 5 minutes and then the exchange with the class's work queue as key, and
  that key reaches exactly the work queue.\<close>

theorem retry_returns_to_its_class:
  assumes "Declare fresh_broker = Inr b" and "q \<in> set WorkQueues"
  shows "routed_to b (RetryRoutingKey q attempt) = {RetryRoutingKey q attempt}
    \<and> (\<exists>args. b_queues b (RetryRoutingKey q attempt) = Some args
        \<and> (q_ttl args = Some 30000 \<or> q_ttl args = Some 300000)
        \<and> q_dead_exchange args = Some Exchange \<and> q_dead_key args = Some q)
    \<and> routed_to b q = {q}"
proof -
  obtain d where d: "d \<in> set RetryDelays" "RetryRoutingKey q attempt = retryQueue q d"
    using RetryRoutingKey_stage by blast
  obtain b0 where b0: "declare_all topology b0 = Inr b" "b_bindings b0 = {}"
    using Declare_unfold [OF assms(1)] by (auto simp: fresh_broker_def)
  note a = declare_all_done [OF b0(1)]
  have "declared_in b (retryQueue q d, retry_args d q)" "declared_in b (q, dead_args (DeadLetterQueue q))"
    using a retry_declared [OF assms(2) d(1)] work_declared [OF assms(2)] by (auto simp: list_all_iff)
  moreover have "routed_to b k \<subseteq> {k}" for k
    using a b0(2) by (auto simp: routed_to_def)
  ultimately show ?thesis
    using d by (auto simp: declared_in_def routed_to_def retry_args_def RetryDelays_def)
qed

text \<open>A delivery is acknowledged only when its effect is committed or its retry was confirmed by
  the broker, and it is dropped to the dead letters only when it does not decode or the handler
  says so; in every other case it goes back to the queue.\<close>

theorem delivery_is_never_lost:
  shows "(fst (handleDelivery unmarshal pub handle q body) = Ack \<longleftrightarrow>
      (\<exists>m. Decode unmarshal body = Inr m \<and>
        (handle m = Done \<or> (\<exists>a. handle m = Retry a \<and> pub (RetryRoutingKey q a) m = Inr ()))))
    \<and> (fst (handleDelivery unmarshal pub handle q body) = NackDrop \<longleftrightarrow>
      (\<exists>e. Decode unmarshal body = Inl e) \<or> (\<exists>m. Decode unmarshal body = Inr m \<and> handle m = DeadLetter))"
  by (auto simp: handleDelivery_def PublishRetry_def split: sum.splits decision.splits)

text \<open>Whatever the publisher reports as sent was confirmed and routed, and its consumer can read
  it: it is within the consumer's size cap, and a valid message decodes to itself.\<close>

theorem published_messages_decode:
  assumes "\<And>m body. marshal m = Some body \<Longrightarrow> unmarshal body = Some m"
    and "publish marshal reply returns key m = (Inr (), returns')"
  shows "reply key = Acked None \<and> returns' = []
    \<and> (\<exists>body. marshal m = Some body \<and>
        Decode unmarshal body = (case Validate m of None \<Rightarrow> Inr m | Some e \<Rightarrow> Inl e))"
proof -
  obtain body where b: "marshal m = Some body" "length body \<le> MaxMessageBytes"
    "reply key = Acked None" "returns' = []"
    using assms(2) by (auto simp: publish_def split: option.splits if_splits publish_reply.splits)
  moreover have "unmarshal body = Some m" using assms(1) b(1) .
  ultimately show ?thesis by (auto simp: Decode_def split: option.splits)
qed

subsection \<open>Witnesses\<close>

lemma declare_fresh: "\<exists>b. Declare fresh_broker = Inr b"
  by (simp add: Declare_def declare_exchange_def topology_def class_decls_def WorkQueues_def RetryDelays_def
      declare_bound_def declare_queue_def bind_queue_def fresh_broker_def retryQueue_def DeadLetterQueue_def
      DelayQueue_def QueueMedia_def QueueLight_def QueueNotify_def QueueScheduled_def show_int_def show_nat_def
      digits_rev.simps)

theorem declare_is_idempotent_witness: "\<exists>b. Declare fresh_broker = Inr b \<and> Declare b = Inr b"
  using declare_fresh declare_is_idempotent by blast

theorem retry_returns_to_its_class_witness:
  "\<exists>b. Declare fresh_broker = Inr b
    \<and> routed_to b (RetryRoutingKey QueueMedia 7) = {RetryRoutingKey QueueMedia 7}
    \<and> routed_to b QueueMedia = {QueueMedia}"
proof -
  obtain b where b: "Declare fresh_broker = Inr b" using declare_fresh by blast
  have "QueueMedia \<in> set WorkQueues" by (simp add: WorkQueues_def)
  from retry_returns_to_its_class [OF b this, of 7] b show ?thesis by blast
qed

text \<open>A codec for the witness: the event id alone, the other fields fixed.\<close>

definition sample_message :: "string \<Rightarrow> message" where
  "sample_message e = \<lparr>msg_event_id = e, msg_schema = 1, msg_type = EventProcessLight, msg_run = ''r1'',
     msg_generation = 0, msg_created = 0, msg_trace = []\<rparr>"

definition sample_marshal :: "message \<Rightarrow> string option" where
  "sample_marshal m = (if m = sample_message (msg_event_id m) then Some (msg_event_id m) else None)"

theorem published_messages_decode_witness:
  "publish sample_marshal (\<lambda>_. Acked None) [''old''] QueueLight (sample_message ''e1'') = (Inr (), [])
   \<and> Decode (\<lambda>b. Some (sample_message b)) ''e1'' = Inr (sample_message ''e1'')"
proof -
  have c: "\<And>m body. sample_marshal m = Some body \<Longrightarrow> Some (sample_message body) = Some m"
    by (auto simp: sample_marshal_def split: if_splits)
  have p: "publish sample_marshal (\<lambda>_. Acked None) [''old''] QueueLight (sample_message ''e1'') = (Inr (), [])"
    by (simp add: publish_def sample_marshal_def sample_message_def MaxMessageBytes_def)
  from published_messages_decode [where unmarshal = "\<lambda>b. Some (sample_message b)", OF c p] p
  show ?thesis by (auto simp: sample_marshal_def sample_message_def Validate_def SchemaVersion_def EventProcessLight_def)
qed

end
