(* ===== verification/Outbox.thy ===== *)
theory Outbox
  imports Lease Queue "HOL-Library.Product_Lexorder"
begin

text \<open>
  The transactional outbox (\<open>internal/outbox/outbox.go\<close>): the insert a business transaction
  makes, one dispatch transaction that claims a bounded batch, publishes it and marks what the broker
  confirmed, the drain loop, and the decision of a tick.  The broker's answer to a publish is the
  argument \<open>pub\<close>, from routing key and message to an error.

  A dispatch returns, beside its result, the list of messages it handed to the broker: a transaction
  that fails at the end has sent them all the same.
\<close>

definition maxAttempts :: int where "maxAttempts = 25"

record event =
  e_id :: string
  e_type :: string
  e_key :: string
  e_run :: string
  e_generation :: int
  e_available :: "time option"

definition Insert :: "time \<Rightarrow> event \<Rightarrow> world \<Rightarrow> err + world" where
  "Insert now e w =
     (if e_id e = [] \<or> e_type e = [] \<or> e_key e = [] then Inl (ErrOther ''missing identifiers'')
      else Inr (insert_event
        \<lparr>ev_id = e_id e, ev_type = e_type e, ev_key = e_key e, ev_schema = SchemaVersion,
         ev_payload = Some (e_run e, e_generation e),
         ev_available = (case e_available e of None \<Rightarrow> now | Some t \<Rightarrow> t),
         ev_attempts = 0, ev_published = None, ev_created = now\<rparr> w))"

subsection \<open>One dispatch\<close>

definition pending :: "event_row \<Rightarrow> bool" where
  "pending e = (ev_published e = None \<and> ev_attempts e < maxAttempts)"

definition due_event :: "time \<Rightarrow> event_row \<Rightarrow> bool" where
  "due_event now e = (pending e \<and> ev_available e \<le> now)"

text \<open>\<open>ORDER BY available_at, event_id LIMIT batch\<close>\<close>

definition claimed :: "time \<Rightarrow> nat \<Rightarrow> world \<Rightarrow> event_row list" where
  "claimed now batch w =
     take batch (sort_key (\<lambda>e. (ev_available e, ev_id e)) (filter (due_event now) (events w)))"

definition event_message :: "event_row \<Rightarrow> string \<times> int \<Rightarrow> message" where
  "event_message e p =
     \<lparr>msg_event_id = ev_id e, msg_schema = SchemaVersion, msg_type = ev_type e, msg_run = fst p,
      msg_generation = snd p, msg_created = ev_created e, msg_trace = []\<rparr>"

definition publish_backoff :: "int \<Rightarrow> duration" where
  "publish_backoff attempts = min (attempts + 1) 10 * (30 * second)"

text \<open>The row a claim becomes, and whether it counts as published.\<close>

definition dispatch_row ::
  "(string \<Rightarrow> message \<Rightarrow> queue_err option) \<Rightarrow> time \<Rightarrow> event_row \<Rightarrow> event_row" where
  "dispatch_row pub now e =
     (case ev_payload e of
        None \<Rightarrow> e\<lparr>ev_attempts := maxAttempts\<rparr>
      | Some p \<Rightarrow>
          (case pub (ev_key e) (event_message e p) of
             Some _ \<Rightarrow> e\<lparr>ev_attempts := ev_attempts e + 1,
                         ev_available := now + publish_backoff (ev_attempts e)\<rparr>
           | None \<Rightarrow> e\<lparr>ev_published := Some now, ev_attempts := ev_attempts e + 1\<rparr>))"

definition dispatch_one ::
  "(string \<Rightarrow> message \<Rightarrow> queue_err option) \<Rightarrow> time \<Rightarrow> event_row \<Rightarrow> nat \<times> world \<Rightarrow> nat \<times> world" where
  "dispatch_one pub now c s =
     (fst s + (case ev_payload c of None \<Rightarrow> 0
               | Some p \<Rightarrow> if pub (ev_key c) (event_message c p) = None then 1 else 0),
      (snd s)\<lparr>events := update_where (\<lambda>e. ev_id e = ev_id c) (\<lambda>_. dispatch_row pub now c)
                (events (snd s))\<rparr>)"

definition sent_by :: "event_row list \<Rightarrow> message list" where
  "sent_by cs = concat (map (\<lambda>c. case ev_payload c of None \<Rightarrow> [] | Some p \<Rightarrow> [event_message c p]) cs)"

text \<open>How long until the earliest pending row is due; \<open>None\<close> when nothing is waiting.\<close>

definition next_due :: "time \<Rightarrow> world \<Rightarrow> duration option" where
  "next_due now w =
     (case filter pending (events w) of
        [] \<Rightarrow> None
      | e # es \<Rightarrow> Some (max (Min (ev_available ` set (e # es)) - now) 0))"

definition dispatchOnce ::
  "string option \<Rightarrow> (string \<Rightarrow> message \<Rightarrow> queue_err option) \<Rightarrow> time \<Rightarrow> nat \<Rightarrow> world
   \<Rightarrow> message list \<times> (err + (nat \<times> duration option \<times> world))" where
  "dispatchOnce fault pub now batch w =
     (let cs = claimed now batch w;
          (published, w1) = foldl (\<lambda>s c. dispatch_one pub now c s) (0, w) cs
      in (sent_by cs, with_fault fault (Inr (published, next_due now w1, w1))))"

subsection \<open>The loop\<close>

text \<open>\<open>NewDispatcher\<close>: a batch size that is not positive becomes 100.\<close>

definition batch_size :: "int \<Rightarrow> nat" where
  "batch_size n = (if n \<le> 0 then 100 else nat n)"

text \<open>\<open>drain\<close>: batches until one comes back short.  The answer is when the earliest row still
  waiting falls due, \<open>None\<close> being Go's zero time.  \<open>fault\<close> and \<open>pub\<close> may differ from
  batch to batch; the batch's number is their first argument.\<close>

partial_function (option) drain ::
  "(nat \<Rightarrow> string option) \<Rightarrow> (nat \<Rightarrow> string \<Rightarrow> message \<Rightarrow> queue_err option) \<Rightarrow> time \<Rightarrow> nat \<Rightarrow> nat \<Rightarrow> world
   \<Rightarrow> (time option \<times> world) option" where
  "drain fault pub now batch k w =
     (case snd (dispatchOnce (fault k) (pub k) now batch w) of
        Inl _ \<Rightarrow> Some (Some now, w)
      | Inr (published, next, w1) \<Rightarrow>
          if published = batch then drain fault pub now batch (Suc k) w1
          else (case next of None \<Rightarrow> Some (None, w1) | Some d \<Rightarrow> Some (Some (now + d), w1)))"

text \<open>\<open>due\<close>: whether this tick touches PostgreSQL, and whether that is a wake.\<close>

definition dispatcher_due :: "time \<Rightarrow> time option \<Rightarrow> world \<Rightarrow> (bool \<times> bool) \<times> world" where
  "dispatcher_due now nextDue w =
     (if \<not> outbox_store w then ((True, False), w)
      else (case take_signal w of
              Inl _ \<Rightarrow> ((True, False), w)
            | Inr (is_dirty, w1) \<Rightarrow>
                if is_dirty then ((True, True), w1)
                else (let woke = (case nextDue of None \<Rightarrow> False | Some t \<Rightarrow> \<not> now < t)
                      in ((woke, woke), w1))))"

subsection \<open>The effect of a dispatch\<close>

lemma dispatch_row_id [simp]: "ev_id (dispatch_row pub now e) = ev_id e"
  by (simp add: dispatch_row_def split: option.splits)

lemma dispatch_all_world:
  "snd (foldl (\<lambda>s c. dispatch_one pub now c s) s cs) =
   (snd s)\<lparr>events := foldl (\<lambda>es c. update_where (\<lambda>e. ev_id e = ev_id c) (\<lambda>_. dispatch_row pub now c) es)
             (events (snd s)) cs\<rparr>"
  by (induction cs arbitrary: s) (simp_all add: dispatch_one_def)

text \<open>With unique event ids the claims are updated in place and nothing else is.\<close>

lemma update_one_row:
  assumes "distinct (map ev_id es)" and "c \<in> set es"
  shows "update_where (\<lambda>e. ev_id e = ev_id c) (\<lambda>_. f c) es = map (\<lambda>e. if e = c then f c else e) es"
  using assms by (auto simp: update_where_def dest: distinct_key_eq)

lemma dispatch_all_events:
  assumes "distinct (map ev_id es)" and "distinct cs" and "set cs \<subseteq> set es"
    and "\<And>e. ev_id (f e) = ev_id e"
  shows "foldl (\<lambda>es c. update_where (\<lambda>e. ev_id e = ev_id c) (\<lambda>_. f c) es) es cs =
         map (\<lambda>e. if e \<in> set cs then f e else e) es"
  using assms(1-3)
proof (induction cs arbitrary: es)
  case (Cons c cs)
  have up: "update_where (\<lambda>e. ev_id e = ev_id c) (\<lambda>_. f c) es = map (\<lambda>e. if e = c then f c else e) es"
    using Cons.prems update_one_row by auto
  let ?es = "map (\<lambda>e. if e = c then f c else e) es"
  have "map ev_id ?es = map ev_id es" by (simp add: assms(4))
  then have ids: "distinct (map ev_id ?es)" using Cons.prems(1) by metis
  have sub: "set cs \<subseteq> set ?es" using Cons.prems by force
  have IH: "foldl (\<lambda>es c. update_where (\<lambda>e. ev_id e = ev_id c) (\<lambda>_. f c) es) ?es cs =
      map (\<lambda>e. if e \<in> set cs then f e else e) ?es"
    by (rule Cons.IH [OF ids _ sub]) (use Cons.prems(2) in simp)
  have "f c \<notin> set cs"
  proof
    assume "f c \<in> set cs"
    then have "f c \<in> set es" "c \<in> set es" using Cons.prems by auto
    then have "f c = c" using Cons.prems(1) assms(4) distinct_key_eq by metis
    with \<open>f c \<in> set cs\<close> Cons.prems(2) show False by simp
  qed
  then show ?case by (simp add: up IH)
qed simp

lemma claimed_set: "set (claimed now batch w) \<subseteq> set (filter (due_event now) (events w))"
  using set_take_subset by (fastforce simp: claimed_def)

lemma claimed_distinct: "event_keys w \<Longrightarrow> distinct (claimed now batch w)"
  by (simp add: claimed_def event_keys_def distinct_map distinct_filter)

lemma dispatch_world:
  assumes "event_keys w"
  shows "snd (foldl (\<lambda>s c. dispatch_one pub now c s) (n, w) (claimed now batch w)) =
    w\<lparr>events := map (\<lambda>e. if e \<in> set (claimed now batch w) then dispatch_row pub now e else e) (events w)\<rparr>"
  using assms claimed_set [of now batch w] claimed_distinct [of w now batch]
  by (subst dispatch_all_world)
    (simp, subst dispatch_all_events, auto simp: event_keys_def)

definition publishes :: "(string \<Rightarrow> message \<Rightarrow> queue_err option) \<Rightarrow> event_row \<Rightarrow> bool" where
  "publishes pub c =
     (case ev_payload c of None \<Rightarrow> False | Some p \<Rightarrow> pub (ev_key c) (event_message c p) = None)"

lemma dispatch_count:
  "fst (foldl (\<lambda>s c. dispatch_one pub now c s) (n, w) cs) = n + length (filter (publishes pub) cs)"
  by (induction cs arbitrary: n w) (auto simp: dispatch_one_def publishes_def split: option.splits)

text \<open>The dispatch in closed form.\<close>

definition after_dispatch ::
  "(string \<Rightarrow> message \<Rightarrow> queue_err option) \<Rightarrow> time \<Rightarrow> nat \<Rightarrow> world \<Rightarrow> world" where
  "after_dispatch pub now batch w =
     w\<lparr>events := map (\<lambda>e. if e \<in> set (claimed now batch w) then dispatch_row pub now e else e) (events w)\<rparr>"

lemma dispatchOnce_eq:
  assumes "event_keys w"
  shows "dispatchOnce fault pub now batch w =
    (sent_by (claimed now batch w),
     with_fault fault (Inr (length (filter (publishes pub) (claimed now batch w)),
       next_due now (after_dispatch pub now batch w), after_dispatch pub now batch w)))"
proof -
  let ?f = "foldl (\<lambda>s c. dispatch_one pub now c s) (0, w) (claimed now batch w)"
  have "?f = (length (filter (publishes pub) (claimed now batch w)), after_dispatch pub now batch w)"
    using dispatch_world [OF assms, of pub now 0 batch] dispatch_count [of pub now 0 w "claimed now batch w"]
    by (simp add: prod_eq_iff after_dispatch_def)
  then show ?thesis by (simp add: dispatchOnce_def Let_def)
qed

lemma after_dispatch_keys: "event_keys w \<Longrightarrow> event_keys (after_dispatch pub now batch w)"
proof -
  have "map ev_id (events (after_dispatch pub now batch w)) = map ev_id (events w)"
    by (simp add: after_dispatch_def)
  then show "event_keys w \<Longrightarrow> event_keys (after_dispatch pub now batch w)" by (simp add: event_keys_def)
qed

lemma publishes_row: "publishes pub e \<Longrightarrow> ev_published (dispatch_row pub now e) = Some now"
  by (auto simp: publishes_def dispatch_row_def split: option.splits)

lemma dispatch_row_published:
  "ev_published (dispatch_row pub now e) = (if publishes pub e then Some now else ev_published e)"
  by (auto simp: publishes_def dispatch_row_def split: option.splits)

subsection \<open>Counting what is left\<close>

definition unpublished :: "world \<Rightarrow> nat" where
  "unpublished w = length (filter (\<lambda>e. ev_published e = None) (events w))"

lemma length_filter_map_in:
  assumes "distinct es" and "distinct cs" and "set cs \<subseteq> {e \<in> set es. P e}"
    and "\<And>e. e \<in> set cs \<Longrightarrow> \<not> P (f e)"
  shows "length (filter P (map (\<lambda>e. if e \<in> set cs then f e else e) es)) + length cs = length (filter P es)"
proof -
  have "filter P (map (\<lambda>e. if e \<in> set cs then f e else e) es) = filter (\<lambda>e. P e \<and> e \<notin> set cs) es"
    using assms(4) by (induction es) auto
  moreover have "length (filter (\<lambda>e. P e \<and> e \<notin> set cs) es) = card ({e \<in> set es. P e} - set cs)"
    using assms(1) by (subst distinct_card [symmetric]) (auto intro: arg_cong [where f = card])
  moreover have "length (filter P es) = card {e \<in> set es. P e}"
    using assms(1) by (subst distinct_card [symmetric]) (auto intro: arg_cong [where f = card])
  moreover have "length cs = card (set cs)" using assms(2) by (simp add: distinct_card)
  moreover have "card (set cs) \<le> card {e \<in> set es. P e}" using assms(3) by (simp add: card_mono)
  ultimately show ?thesis using assms(3) by (simp add: card_Diff_subset)
qed

lemma full_batch_shrinks:
  assumes "event_keys w" and "length (filter (publishes pub) (claimed now batch w)) = batch"
  shows "unpublished (after_dispatch pub now batch w) + batch = unpublished w"
proof -
  let ?cs = "claimed now batch w"
  have "length ?cs \<le> batch" by (simp add: claimed_def)
  then have all: "filter (publishes pub) ?cs = ?cs" and len: "length ?cs = batch"
    using assms(2) length_filter_le [of "publishes pub" ?cs]
    by (auto simp: filter_id_conv) (metis le_antisym length_filter_less nat_less_le)
  have "length (filter (\<lambda>e. ev_published e = None)
      (map (\<lambda>e. if e \<in> set ?cs then dispatch_row pub now e else e) (events w))) + length ?cs
    = length (filter (\<lambda>e. ev_published e = None) (events w))"
  proof (rule length_filter_map_in)
    show "distinct (events w)" using assms(1) by (simp add: event_keys_def distinct_map)
    show "distinct ?cs" using assms(1) by (rule claimed_distinct)
    show "set ?cs \<subseteq> {e \<in> set (events w). ev_published e = None}"
      using claimed_set [of now batch w] by (auto simp: due_event_def pending_def)
    show "\<And>e. e \<in> set ?cs \<Longrightarrow> ev_published (dispatch_row pub now e) \<noteq> None"
      using all by (metis filter_id_conv option.distinct(1) publishes_row)
  qed
  then show ?thesis by (simp add: unpublished_def after_dispatch_def len)
qed

lemma next_due_covers:
  assumes "e \<in> set (events w)" and "pending e"
  shows "\<exists>d. next_due now w = Some d \<and> now + d \<le> max now (ev_available e)"
proof -
  obtain x xs where f: "filter pending (events w) = x # xs"
    using assms by (cases "filter pending (events w)") (auto simp: filter_empty_conv)
  have "e \<in> set (filter pending (events w))" using assms by simp
  then have "e \<in> set (x # xs)" by (simp only: f)
  then have "Min (ev_available ` set (x # xs)) \<le> ev_available e" by (intro Min_le) auto
  then show ?thesis unfolding next_due_def f by auto
qed

lemma sent_by_in: "m \<in> set (sent_by cs) \<longleftrightarrow> (\<exists>c p. c \<in> set cs \<and> ev_payload c = Some p \<and> m = event_message c p)"
proof -
  have "m \<in> set (case ev_payload c of None \<Rightarrow> [] | Some p \<Rightarrow> [event_message c p]) \<longleftrightarrow>
      (\<exists>p. ev_payload c = Some p \<and> m = event_message c p)" for c
    by (cases "ev_payload c") simp_all
  then show ?thesis by (simp add: sent_by_def) blast
qed

text \<open>Dispatch transactions that commit, one after the other: what they sent, and the state.\<close>

fun dispatch_many ::
  "((string \<Rightarrow> message \<Rightarrow> queue_err option) \<times> time \<times> nat) list \<Rightarrow> world \<Rightarrow> message list \<times> world" where
  "dispatch_many [] w = ([], w)"
| "dispatch_many ((pub, now, batch) # ds) w =
     (case dispatchOnce None pub now batch w of
        (sent, Inl _) \<Rightarrow> (sent, w)
      | (sent, Inr (_, _, w1)) \<Rightarrow> (sent @ fst (dispatch_many ds w1), snd (dispatch_many ds w1)))"

definition sends_of :: "string \<Rightarrow> message list \<Rightarrow> nat" where
  "sends_of i ms = length (filter (\<lambda>m. msg_event_id m = i) ms)"

lemma sends_of_append [simp]: "sends_of i (xs @ ys) = sends_of i xs + sends_of i ys"
  by (simp add: sends_of_def)

lemma sends_of_claims:
  "distinct (map ev_id cs) \<Longrightarrow> sends_of i (sent_by cs) \<le> (if i \<in> set (map ev_id cs) then 1 else 0)"
  by (induction cs) (auto simp: sends_of_def sent_by_def event_message_def split: option.splits)

lemma sends_of_none: "i \<notin> set (map ev_id cs) \<Longrightarrow> sends_of i (sent_by cs) = 0"
  by (induction cs) (auto simp: sends_of_def sent_by_def event_message_def split: option.splits)

lemma claimed_ids_distinct: "event_keys w \<Longrightarrow> distinct (map ev_id (claimed now batch w))"
proof -
  assume k: "event_keys w"
  have "inj_on ev_id (set (claimed now batch w))"
    using k claimed_set [of now batch w] by (auto simp: event_keys_def distinct_map intro: inj_on_subset)
  then show ?thesis using claimed_distinct [OF k] by (simp add: distinct_map)
qed

lemma dispatch_row_attempts:
  "due_event now e \<Longrightarrow> ev_attempts e < ev_attempts (dispatch_row pub now e) \<and> ev_attempts (dispatch_row pub now e) \<le> maxAttempts"
  by (auto simp: dispatch_row_def due_event_def pending_def split: option.splits)

lemma sends_bounded:
  "event_keys w \<Longrightarrow> e \<in> set (events w) \<Longrightarrow> ev_id e = i \<Longrightarrow>
   sends_of i (fst (dispatch_many ds w)) \<le> nat (maxAttempts - ev_attempts e)"
proof (induction ds arbitrary: w e)
  case (Cons d ds)
  obtain pub now batch where d: "d = (pub, now, batch)" by (cases d) auto
  let ?w = "after_dispatch pub now batch w"
  let ?cs = "claimed now batch w"
  have eq: "fst (dispatch_many (d # ds) w) = sent_by ?cs @ fst (dispatch_many ds ?w)"
    using dispatchOnce_eq [OF Cons.prems(1)] by (simp add: d)
  let ?e = "if e \<in> set ?cs then dispatch_row pub now e else e"
  have in': "?e \<in> set (events ?w)" using Cons.prems(2) by (auto simp: after_dispatch_def)
  have IH: "sends_of i (fst (dispatch_many ds ?w)) \<le> nat (maxAttempts - ev_attempts ?e)"
    by (rule Cons.IH [OF after_dispatch_keys [OF Cons.prems(1)] in']) (use Cons.prems(3) in simp)
  show ?case
  proof (cases "e \<in> set ?cs")
    case True
    then have "due_event now e" using claimed_set [of now batch w] by auto
    note a = dispatch_row_attempts [OF this, of pub]
    moreover have "sends_of i (sent_by ?cs) \<le> 1"
      using sends_of_claims [OF claimed_ids_distinct [OF Cons.prems(1)], of i now batch]
      by (auto split: if_splits)
    moreover have "nat (maxAttempts - ev_attempts (dispatch_row pub now e)) < nat (maxAttempts - ev_attempts e)"
      using a by linarith
    moreover have "sends_of i (fst (dispatch_many (d # ds) w)) =
        sends_of i (sent_by ?cs) + sends_of i (fst (dispatch_many ds ?w))" by (simp add: eq)
    moreover have "sends_of i (fst (dispatch_many ds ?w)) \<le> nat (maxAttempts - ev_attempts (dispatch_row pub now e))"
      using IH True by simp
    ultimately show ?thesis by linarith
  next
    case False
    have "i \<notin> set (map ev_id ?cs)"
    proof
      assume "i \<in> set (map ev_id ?cs)"
      then obtain c where "c \<in> set ?cs" "ev_id c = ev_id e" using Cons.prems(3) by auto
      moreover from this have "c \<in> set (events w)" using claimed_set [of now batch w] by auto
      ultimately have "c = e" using Cons.prems(1,2) distinct_key_eq by (auto simp: event_keys_def)
      with \<open>c \<in> set ?cs\<close> False show False by simp
    qed
    then show ?thesis using IH False unfolding eq by (simp add: sends_of_none)
  qed
qed (simp add: sends_of_def)

subsection \<open>Properties\<close>


text \<open>However often the outbox is dispatched, one event is handed to the broker at most 25 times,
  and not at all once its row is published.\<close>

theorem event_is_sent_at_most_maxAttempts:
  assumes "event_keys w" and "e \<in> set (events w)" and "0 \<le> ev_attempts e"
  shows "int (sends_of (ev_id e) (fst (dispatch_many ds w))) \<le> maxAttempts
    \<and> (ev_published e = None \<or> sends_of (ev_id e) (fst (dispatchOnce fault pub now batch w)) = 0)"
proof -
  have "int (sends_of (ev_id e) (fst (dispatch_many ds w))) \<le> maxAttempts"
    using sends_bounded [OF assms(1,2) refl, of ds] assms(3) by (simp add: maxAttempts_def)
  moreover have "ev_id e \<notin> set (map ev_id (claimed now batch w))" if "ev_published e \<noteq> None"
  proof
    assume "ev_id e \<in> set (map ev_id (claimed now batch w))"
    then obtain c where c: "c \<in> set (events w)" "ev_id c = ev_id e" "ev_published c = None"
      using claimed_set [of now batch w] by (auto simp: due_event_def pending_def)
    then have "c = e" using assms(1,2) distinct_key_eq by (auto simp: event_keys_def)
    with c(3) that show False by simp
  qed
  ultimately show ?thesis
    by (cases "ev_published e") (simp_all add: dispatchOnce_eq [OF assms(1)] sends_of_none)
qed


text \<open>A committed write is never slept through: after any number of writers signalled, the next
  tick dispatches as a wake, the mark is then gone, and a tick stays away from the database only when
  Redis answered that nothing is dirty and no known row is due.\<close>

theorem signalled_write_wakes_the_dispatcher:
  assumes "signal_ready w" and "0 < n"
  shows "fst (dispatcher_due now nextDue ((Notify ^^ n) w)) = (True, True)
    \<and> \<not> dirty (snd (dispatcher_due now nextDue ((Notify ^^ n) w)))
    \<and> (fst (fst (dispatcher_due now nextDue v)) = False \<longleftrightarrow>
        outbox_store v \<and> redis_up v \<and> \<not> dirty v \<and> (nextDue = None \<or> now < the nextDue))"
proof -
  obtain t u where t: "take_signal ((Notify ^^ n) w) = Inr (True, t)" and u: "take_signal t = Inr (False, u)"
    using outbox_signal.signals_coalesce [OF assms] by blast
  have "outbox_store ((Notify ^^ n) w)"
    using outbox_signal.ready_notify_pow [OF assms(1), of n] by (simp add: signal_ready_def)
  then have "dispatcher_due now nextDue ((Notify ^^ n) w) = ((True, True), t)"
    using t by (simp add: dispatcher_due_def)
  moreover have "\<not> dirty t" using u by (auto simp: take_signal_def split: if_splits)
  moreover have "fst (fst (dispatcher_due now nextDue v)) = False \<longleftrightarrow>
        outbox_store v \<and> redis_up v \<and> \<not> dirty v \<and> (nextDue = None \<or> now < the nextDue)"
    by (cases nextDue) (auto simp: dispatcher_due_def take_signal_def Let_def)
  ultimately show ?thesis by simp
qed

subsection \<open>Witnesses\<close>

definition sample_event :: "string \<Rightarrow> event_row" where
  "sample_event i =
     \<lparr>ev_id = i, ev_type = EventProcessLight, ev_key = QueueLight, ev_schema = 1,
      ev_payload = Some (''r1'', 0), ev_available = 0, ev_attempts = 0, ev_published = None,
      ev_created = 0\<rparr>"

definition sample_outbox :: world where
  "sample_outbox = empty_world\<lparr>events := [sample_event ''e1'', sample_event ''e2'']\<rparr>"

definition accept_all :: "string \<Rightarrow> message \<Rightarrow> queue_err option" where
  "accept_all k m = None"

lemma sample_outbox_keys: "event_keys sample_outbox"
  by (simp add: event_keys_def sample_outbox_def empty_world_def sample_event_def)


theorem event_is_sent_at_most_maxAttempts_witness:
  "int (sends_of ''e1'' (fst (dispatch_many [(accept_all, 1, 5), (accept_all, 2, 5)] sample_outbox))) \<le> 25"
  using event_is_sent_at_most_maxAttempts
    [OF sample_outbox_keys, of "sample_event ''e1''" "[(accept_all, 1, 5), (accept_all, 2, 5)]"]
  by (simp add: sample_outbox_def sample_event_def maxAttempts_def)


theorem signalled_write_wakes_the_dispatcher_witness:
  "fst (dispatcher_due 0 None ((Notify ^^ 2) sample_outbox)) = (True, True)"
proof -
  have "signal_ready sample_outbox"
    by (simp add: signal_ready_def sample_outbox_def empty_world_def)
  from signalled_write_wakes_the_dispatcher [OF this, of 2 0 None] show ?thesis by simp
qed

end
