(* ===== verification/Stages.thy ===== *)
theory Stages
  imports Platform Outbox
begin

text \<open>
  The stages of a run up to the commit of each (\<open>prepare\<close>, \<open>download\<close>, \<open>transcribe\<close>,
  \<open>extract\<close>, \<open>categorize\<close> of \<open>internal/pipeline/pipeline.go\<close> and \<open>geocode.go\<close>).
  Providers, JSON, the digest, version-5 UUIDs, the random UUIDs the database hands out and the file
  system are fields of \<open>deps\<close>.
\<close>

definition ProcessorVersion :: string where "ProcessorVersion = ''go-v1''"

text \<open>A geocoder answers with the context's own error, if it ended meanwhile, and its result;
  \<open>googleplaces.ErrNotFound\<close> is \<open>Store ErrNotFound\<close>.\<close>

record deps =
  d_registry :: registry
  d_transcribe :: "media \<Rightarrow> goerr + string"
  d_readtext :: "media list \<Rightarrow> goerr + string"
  d_extract :: "string \<Rightarrow> string \<Rightarrow> goerr + extraction"
  d_categorize :: "extraction \<Rightarrow> taxonomy_option list \<Rightarrow> goerr + category"
  d_geocoder :: "(string \<Rightarrow> goerr option \<times> (goerr + geo_point)) option"
  d_cooldowns :: "(string \<Rightarrow> goerr + duration) option"
  d_model :: string
  d_sha :: "string \<Rightarrow> string"
  d_marshal :: "stage_output \<Rightarrow> string option"
  d_unmarshal :: "string \<Rightarrow> string \<Rightarrow> stage_output option"
  d_uuid :: "string \<Rightarrow> string \<Rightarrow> string"
  d_version_id :: string
  d_save_id :: "string \<Rightarrow> string"
  d_stat :: "string \<Rightarrow> bool"
  d_tempdir :: "goerr + string"

text \<open>\<open>run\<close>: everything the stages share for one message.\<close>

record run_st =
  r_id :: string
  r_content :: string
  r_created :: time
  r_identity :: source_identity
  r_lease :: lease
  r_workdir :: string
  r_prepared :: prepared
  r_media :: "media list"
  r_transcript :: string
  r_extraction :: extraction
  r_category :: category
  r_taxonomy :: "taxonomy_option list"

definition stageTimeouts :: "string \<rightharpoonup> duration" where
  "stageTimeouts = [stagePrepare \<mapsto> 180 * second, stageDownload \<mapsto> 180 * second,
     stageTranscribe \<mapsto> 300 * second, stageExtract \<mapsto> 90 * second,
     stageCategorize \<mapsto> 300 * second, stagePersist \<mapsto> 30 * second]"

definition StageBudgets :: "(string \<times> duration) list" where
  "StageBudgets = map (\<lambda>s. (s, case stageTimeouts s of None \<Rightarrow> 0 | Some d \<Rightarrow> d))
     [stagePrepare, stageDownload, stageTranscribe, stageExtract, stageCategorize, stagePersist]"

subsection \<open>Committing a stage\<close>

definition active_job_of :: "string \<Rightarrow> job_row \<Rightarrow> bool" where
  "active_job_of i j = (job_run j = Some i \<and> active_status (job_state j))"

text \<open>\<open>SELECT DISTINCT user_id\<close>, skipped without a cache.\<close>

definition subscribers :: "string \<Rightarrow> world \<Rightarrow> string list" where
  "subscribers i w =
     (if \<not> cache_store w then []
      else remdups (map job_user (filter (\<lambda>j. job_run j = Some i) (jobs w))))"

definition commit_body ::
  "deps \<Rightarrow> run_st \<Rightarrow> string \<Rightarrow> string \<Rightarrow> stage_output \<Rightarrow> int \<Rightarrow> time \<Rightarrow> world \<Rightarrow> err + (world \<times> string list)" where
  "commit_body d st stage hash out progress now w =
     bind_r (saveCheckpoint (d_marshal d) now (r_id st) stage hash out w) (\<lambda>w1.
       let w2 = w1\<lparr>runs := update_where (\<lambda>r. run_id r = r_id st)
                    (\<lambda>r. r\<lparr>run_stage := stage, run_updated := now\<rparr>) (runs w1)\<rparr>;
           w3 = w2\<lparr>jobs := update_where (active_job_of (r_id st))
                    (\<lambda>j. j\<lparr>job_state := JobProcessing, job_step := Some stage,
                           job_progress := progress, job_updated := now\<rparr>) (jobs w2)\<rparr>
       in Inr (w3, subscribers (r_id st) w3))"

definition commitStage ::
  "deps \<Rightarrow> env \<Rightarrow> run_st \<Rightarrow> string \<Rightarrow> string \<Rightarrow> stage_output \<Rightarrow> int \<Rightarrow> unit prog" where
  "commitStage d env st stage hash out progress =
     bind_w (txn env (AtCommit stage)
               (\<lambda>now. GuardedExec now (r_lease st) (commit_body d st stage hash out progress now)))
       (\<lambda>users. post_w (invalidate users))"

text \<open>\<open>loadCheckpoint\<close> as the stages use it.\<close>

definition checkpoint :: "deps \<Rightarrow> env \<Rightarrow> run_st \<Rightarrow> string \<Rightarrow> string \<Rightarrow> stage_output option prog" where
  "checkpoint d env st stage hash =
     query env (AtCheckpoint stage) (\<lambda>w. Inr (loadCheckpoint (d_unmarshal d) (r_id st) stage hash w))"

subsection \<open>The stages\<close>

definition handler_for :: "deps \<Rightarrow> run_st \<Rightarrow> goerr + handler" where
  "handler_for d st =
     (case registry_Get (d_registry d) (id_platform (r_identity st)) of
        None \<Rightarrow> Inl (err_of errUnsupportedPlatform)
      | Some h \<Rightarrow> Inr h)"

definition stage_prepare :: "deps \<Rightarrow> env \<Rightarrow> run_st \<Rightarrow> run_st prog" where
  "stage_prepare d env st =
     (let hash = InputHash (d_sha d) [id_normalized (r_identity st), ProcessorVersion]
      in bind_w (checkpoint d env st stagePrepare hash) (\<lambda>c.
           case c of
             Some (OutPrepared x) \<Rightarrow> return_w (st\<lparr>r_prepared := x\<rparr>)
           | _ \<Rightarrow>
               bind_w (lift_w (bind_r (handler_for d st) (\<lambda>h. h_prepare h (r_identity st)))) (\<lambda>x.
               bind_w (commitStage d env st stagePrepare hash (OutPrepared x) 20) (\<lambda>_.
               return_w (st\<lparr>r_prepared := x\<rparr>)))))"

definition mediaStillOnDisk :: "deps \<Rightarrow> media list \<Rightarrow> bool" where
  "mediaStillOnDisk d ms = (list_all (\<lambda>m. d_stat d (med_path m)) ms \<and> ms \<noteq> [])"

definition stage_download :: "deps \<Rightarrow> env \<Rightarrow> run_st \<Rightarrow> run_st prog" where
  "stage_download d env st =
     (if \<not> p_media (r_prepared st) then return_w (st\<lparr>r_media := []\<rparr>)
      else
        (let hash = InputHash (d_sha d) [id_normalized (r_identity st), ''media'']
         in bind_w (checkpoint d env st stageDownload hash) (\<lambda>c.
              case (case c of Some (OutMedia ms) \<Rightarrow> if mediaStillOnDisk d ms then Some ms else None | _ \<Rightarrow> None) of
                Some ms \<Rightarrow> return_w (st\<lparr>r_media := ms\<rparr>)
              | None \<Rightarrow>
                  bind_w (lift_w (bind_r (handler_for d st) (\<lambda>h. h_download h (r_identity st) (r_workdir st)))) (\<lambda>ms.
                  bind_w (commitStage d env st stageDownload hash (OutMedia ms) 40) (\<lambda>_.
                  return_w (st\<lparr>r_media := ms\<rparr>))))))"

definition mediaHashParts :: "media list \<Rightarrow> string list" where
  "mediaHashParts ms =
     (let parts = concat (map (\<lambda>m. [med_path m, med_mime m]) ms)
      in if parts = [] then [''none''] else parts)"

definition is_sound :: "media \<Rightarrow> bool" where
  "is_sound m = (has_prefix (med_mime m) ''audio/'' \<or> has_prefix (med_mime m) ''video/'')"

definition transcript_of :: "deps \<Rightarrow> media list \<Rightarrow> goerr + string" where
  "transcript_of d ms =
     (let images = filter (\<lambda>m. \<not> is_sound m \<and> has_prefix (med_mime m) ''image/'') ms
      in bind_r (case find is_sound ms of None \<Rightarrow> Inr [] | Some audio \<Rightarrow> d_transcribe d audio) (\<lambda>spoken.
         bind_r (if images = [] then Inr [] else d_readtext d images) (\<lambda>read.
         Inr (trim_space (trim_space spoken @ [CHR 0x0A] @ trim_space read)))))"

definition stage_transcribe :: "deps \<Rightarrow> env \<Rightarrow> run_st \<Rightarrow> run_st prog" where
  "stage_transcribe d env st =
     (if \<not> p_media (r_prepared st) then return_w (st\<lparr>r_transcript := trim_space (p_page (r_prepared st))\<rparr>)
      else
        (let hash = InputHash (d_sha d) (mediaHashParts (r_media st))
         in bind_w (checkpoint d env st stageTranscribe hash) (\<lambda>c.
              case c of
                Some (OutTranscript t) \<Rightarrow> return_w (st\<lparr>r_transcript := t\<rparr>)
              | _ \<Rightarrow>
                  bind_w (lift_w (transcript_of d (r_media st))) (\<lambda>t.
                  bind_w (commitStage d env st stageTranscribe hash (OutTranscript t) 60) (\<lambda>_.
                  return_w (st\<lparr>r_transcript := t\<rparr>))))))"

definition stage_extract :: "deps \<Rightarrow> env \<Rightarrow> run_st \<Rightarrow> run_st prog" where
  "stage_extract d env st =
     (let hash = InputHash (d_sha d) [r_transcript st, p_caption (r_prepared st), PromptVersion, extraction_SchemaVersion]
      in bind_w (checkpoint d env st stageExtract hash) (\<lambda>c.
           case c of
             Some (OutExtraction x) \<Rightarrow> return_w (st\<lparr>r_extraction := x\<rparr>)
           | _ \<Rightarrow>
               bind_w (lift_w (d_extract d (r_transcript st) (p_caption (r_prepared st)))) (\<lambda>x.
               if \<not> extraction_ok x then fail_w InvalidExtraction
               else
                 bind_w (commitStage d env st stageExtract hash (OutExtraction x) 80) (\<lambda>_.
                 return_w (st\<lparr>r_extraction := x\<rparr>)))))"

subsection \<open>Geocoding (geocode.go)\<close>

definition geocode_query :: "location \<Rightarrow> string" where
  "geocode_query l =
     (let q = trim_space (loc_name l); a = Address l
      in if a \<noteq> [] then q @ '', '' @ a else q)"

definition upsert_lookup :: "lookup_row \<Rightarrow> world \<Rightarrow> world" where
  "upsert_lookup p w =
     (if matching (\<lambda>q. pl_hash q = pl_hash p) (place_lookups w) = 0
      then w\<lparr>place_lookups := place_lookups w @ [p]\<rparr>
      else w\<lparr>place_lookups := update_where (\<lambda>q. pl_hash q = pl_hash p) (\<lambda>_. p) (place_lookups w)\<rparr>)"

definition place_it :: "geo_point option \<Rightarrow> location \<Rightarrow> goerr + location" where
  "place_it r l =
     (case r of
        None \<Rightarrow> Inr l
      | Some p \<Rightarrow>
          (case NewPoint (latitude p) (longitude p) of
             Inl _ \<Rightarrow> Inl (Wrapped ''validating cached geocoding'' (Plain ''point''))
           | Inr _ \<Rightarrow> Inr (l\<lparr>loc_latitude := Some (latitude p), loc_longitude := Some (longitude p)\<rparr>)))"

definition ask_geocoder :: "(string \<Rightarrow> goerr option \<times> (goerr + geo_point)) \<Rightarrow> string \<Rightarrow> goerr + geo_point option" where
  "ask_geocoder g q =
     (case g q of
        (Some e, _) \<Rightarrow> Inl e
      | (None, Inl e) \<Rightarrow>
          if err_is e (Store ErrNotFound) then Inr None
          else Inl (FailureErr Transient ''provider_unavailable'' ''A place lookup could not be completed.'' e)
      | (None, Inr p) \<Rightarrow>
          (case NewPoint (latitude p) (longitude p) of
             Inl _ \<Rightarrow> Inl (Wrapped ''validating geocoding'' (Plain ''point'')) | Inr _ \<Rightarrow> Inr (Some p)))"

definition geocode_one ::
  "deps \<Rightarrow> env \<Rightarrow> (string \<Rightarrow> goerr option \<times> (goerr + geo_point)) \<Rightarrow> nat \<Rightarrow> location \<Rightarrow> location prog" where
  "geocode_one d env g i l =
     (if loc_latitude l \<noteq> None \<and> loc_longitude l \<noteq> None then return_w l
      else
        (let q = geocode_query l; key = InputHash (d_sha d) [''geocode-v1'', to_lower q]
         in bind_w (query env (AtGeocode i) (\<lambda>w. Inr (find (\<lambda>r. pl_hash r = key \<and> e_now env (AtGeocode i) < pl_expires r)
                                                       (place_lookups w)))) (\<lambda>cached.
              case cached of
                Some row \<Rightarrow> lift_w (place_it (pl_response row) l)
              | None \<Rightarrow>
                  bind_w (lift_w (ask_geocoder g q)) (\<lambda>r.
                  bind_w (txn env (AtGeocodeSave i) (\<lambda>now w. Inr (upsert_lookup
                            \<lparr>pl_hash = key, pl_response = r,
                             pl_expires = e_now env (AtGeocodeSave i)
                               + (if r = None then 24 * hour else 30 * (24 * hour))\<rparr> w, ()))) (\<lambda>_.
                  lift_w (place_it r l))))))"

fun geocode_all ::
  "deps \<Rightarrow> env \<Rightarrow> (string \<Rightarrow> goerr option \<times> (goerr + geo_point)) \<Rightarrow> nat \<Rightarrow> location list \<Rightarrow> location list prog" where
  "geocode_all d env g i [] = return_w []"
| "geocode_all d env g i (l # ls) =
     bind_w (geocode_one d env g i l) (\<lambda>l'.
     bind_w (geocode_all d env g (Suc i) ls) (\<lambda>ls'. return_w (l' # ls')))"

definition geocode :: "deps \<Rightarrow> env \<Rightarrow> run_st \<Rightarrow> run_st prog" where
  "geocode d env st =
     (case d_geocoder d of
        None \<Rightarrow> return_w st
      | Some g \<Rightarrow>
          bind_w (geocode_all d env g 0 (x_locations (r_extraction st))) (\<lambda>ls.
          return_w (st\<lparr>r_extraction := (r_extraction st)\<lparr>x_locations := ls\<rparr>\<rparr>)))"

subsection \<open>Categorising\<close>

text \<open>\<open>ORDER BY parent_id NULLS FIRST, normalized_name\<close>, then the children hung under their
  parents.  The tree has two levels.\<close>

definition taxonomy_key :: "category_row \<Rightarrow> bool \<times> string \<times> string" where
  "taxonomy_key c =
     (cr_parent c \<noteq> None, (case cr_parent c of None \<Rightarrow> [] | Some p \<Rightarrow> p), cr_normalized c)"

definition loadTaxonomy :: "world \<Rightarrow> taxonomy_option list" where
  "loadTaxonomy w =
     (let rows = sort_key taxonomy_key (filter cr_active (categories w))
      in map (\<lambda>r. \<lparr>to_id = cr_id r, to_name = cr_name r, to_description = cr_description r,
                   to_subs = map (\<lambda>c. \<lparr>ts_id = cr_id c, ts_name = cr_name c, ts_description = cr_description c\<rparr>)
                               (filter (\<lambda>c. cr_parent c = Some (cr_id r)) rows)\<rparr>)
             (filter (\<lambda>r. cr_parent r = None) rows))"

definition taxonomyHash :: "deps \<Rightarrow> taxonomy_option list \<Rightarrow> string" where
  "taxonomyHash d tax = InputHash (d_sha d) (concat (map (\<lambda>t. to_id t # map ts_id (to_subs t)) tax))"

definition stage_categorize :: "deps \<Rightarrow> env \<Rightarrow> run_st \<Rightarrow> run_st prog" where
  "stage_categorize d env st =
     bind_w (geocode d env st) (\<lambda>st1.
     bind_w (query env AtTaxonomy (\<lambda>w. Inr (loadTaxonomy w))) (\<lambda>tax.
       let st2 = st1\<lparr>r_taxonomy := tax\<rparr>;
           hash = InputHash (d_sha d) [x_title (r_extraction st2), x_summary (r_extraction st2), PromptVersion, taxonomyHash d tax]
       in bind_w (checkpoint d env st2 stageCategorize hash) (\<lambda>c.
            case c of
              Some (OutCategory x) \<Rightarrow> return_w (st2\<lparr>r_category := x\<rparr>)
            | _ \<Rightarrow>
                bind_w (lift_w (d_categorize d (r_extraction st2) tax)) (\<lambda>x.
                bind_w (commitStage d env st2 stageCategorize hash (OutCategory x) 90) (\<lambda>_.
                return_w (st2\<lparr>r_category := x\<rparr>))))))"

definition runStage :: "deps \<Rightarrow> env \<Rightarrow> string \<Rightarrow> run_st \<Rightarrow> run_st prog" where
  "runStage d env stage st =
     (if stage = stagePrepare then stage_prepare d env st
      else if stage = stageDownload then stage_download d env st
      else if stage = stageTranscribe then stage_transcribe d env st
      else if stage = stageExtract then stage_extract d env st
      else if stage = stageCategorize then stage_categorize d env st
      else fail_w (Plain ''unknown stage''))"

end
