(* ===== verification/Persist.thy ===== *)
theory Persist
  imports Stages
begin

text \<open>
  The persist transaction (\<open>internal/pipeline/persist.go\<close>): the version, the pointer, every
  subscriber's save and finished job, its filing, the notification and index events, the completed run.
\<close>

definition persistNamespace :: string where
  "persistNamespace = ''6ba7b812-9dad-11d1-80b4-00c04fd430c8''"

subsection \<open>The version\<close>

definition nullif :: "string \<Rightarrow> string option" where
  "nullif s = (if s = [] then None else Some s)"

text \<open>One row for each location with both coordinates, at its ordinal; a point off the Earth is an
  error.\<close>

fun location_rows :: "string \<Rightarrow> nat \<Rightarrow> location list \<Rightarrow> err + location_row list" where
  "location_rows v i [] = Inr []"
| "location_rows v i (l # ls) =
     (case (loc_latitude l, loc_longitude l) of
        (Some lat, Some lng) \<Rightarrow>
          (case NewPoint lat lng of
             Inl _ \<Rightarrow> Inl (ErrOther ''validating extracted location'')
           | Inr p \<Rightarrow>
               bind_r (location_rows v (Suc i) ls) (\<lambda>rows.
                 Inr (\<lparr>g_version = v, g_ordinal = i, g_name = loc_name l, g_address = nullif (Address l),
                       g_locality = nullif (loc_city l), g_country = nullif (loc_country l), g_point = p\<rparr> # rows)))
      | _ \<Rightarrow> location_rows v (Suc i) ls)"

definition version_of :: "deps \<Rightarrow> run_st \<Rightarrow> version_row" where
  "version_of d st =
     \<lparr>v_id = d_version_id d, v_content = r_content st, v_processor = ProcessorVersion,
      v_prompt = PromptVersion, v_schema = extraction_SchemaVersion, v_model = d_model d,
      v_title = x_title (r_extraction st), v_summary = x_summary (r_extraction st),
      v_caption = p_caption (r_prepared st), v_transcript = r_transcript st,
      v_tags = x_tags (r_extraction st), v_facts = x_facts (r_extraction st),
      v_raw = (r_extraction st, cat_category (r_category st), cat_subcategory (r_category st)),
      v_thumbnail = p_thumbnail (r_prepared st)\<rparr>"

definition insertVersion :: "deps \<Rightarrow> run_st \<Rightarrow> world \<Rightarrow> err + (world \<times> string)" where
  "insertVersion d st w =
     bind_r (location_rows (d_version_id d) 0 (x_locations (r_extraction st))) (\<lambda>rows.
       Inr (w\<lparr>versions := versions w @ [version_of d st], locations := locations w @ rows\<rparr>, d_version_id d))"

subsection \<open>The subscribers\<close>

text \<open>\<open>ON CONFLICT (user_id, content_id) DO UPDATE \<dots> RETURNING id\<close>\<close>

definition upsert_save :: "string \<Rightarrow> time \<Rightarrow> string \<Rightarrow> string \<Rightarrow> world \<Rightarrow> string \<times> world" where
  "upsert_save new_id now user content w =
     (case find (\<lambda>s. s_user s = user \<and> s_content s = content) (saves w) of
        Some s \<Rightarrow> (s_id s, w)
      | None \<Rightarrow> (new_id, w\<lparr>saves := saves w @ [\<lparr>s_id = new_id, s_user = user, s_content = content, s_saved = now\<rparr>]\<rparr>))"

definition can_file :: "string \<Rightarrow> world \<Rightarrow> collection_row \<Rightarrow> bool" where
  "can_file user w c =
     (col_owner c = user \<or> list_ex (\<lambda>m. m_collection m = col_id c \<and> m_user m = user \<and> m_role m = ''editor'') (members w))"

definition fileIntoCollections :: "time \<Rightarrow> string \<Rightarrow> string \<Rightarrow> string list \<Rightarrow> world \<Rightarrow> world" where
  "fileIntoCollections now user save ids w =
     (let filed = map col_id (filter (\<lambda>c. col_id c \<in> set ids \<and> can_file user w c
                     \<and> \<not> list_ex (\<lambda>i. i_collection i = col_id c \<and> i_save i = save) (items w)) (collections w))
      in w\<lparr>items := items w @ map (\<lambda>c. \<lparr>i_collection = c, i_save = save, i_added_by = user, i_added = now\<rparr>) filed,
           collections := update_where (\<lambda>c. col_id c \<in> set filed) (\<lambda>c. c\<lparr>col_updated := now\<rparr>) (collections w)\<rparr>)"

definition plain_event :: "string \<Rightarrow> string \<Rightarrow> string \<Rightarrow> string \<Rightarrow> int \<Rightarrow> time \<Rightarrow> time \<Rightarrow> event_row" where
  "plain_event i ty key r g now due =
     \<lparr>ev_id = i, ev_type = ty, ev_key = key, ev_schema = 1, ev_payload = Some (r, g),
      ev_available = due, ev_attempts = 0, ev_published = None, ev_created = now\<rparr>"

definition notify_id :: "deps \<Rightarrow> string \<Rightarrow> string" where
  "notify_id d job = d_uuid d persistNamespace (''notify:'' @ job)"

definition complete_job :: "time \<Rightarrow> string \<Rightarrow> job_row \<Rightarrow> job_row" where
  "complete_job now save j =
     j\<lparr>job_state := JobCompleted, job_save := Some save, job_progress := 100,
       job_step := Some ''completed'', job_completed := Some now, job_updated := now\<rparr>"

definition complete_one :: "deps \<Rightarrow> run_st \<Rightarrow> time \<Rightarrow> job_row \<Rightarrow> world \<Rightarrow> world" where
  "complete_one d st now j w =
     (let (save, w1) = upsert_save (d_save_id d (job_id j)) now (job_user j) (r_content st) w;
          w2 = w1\<lparr>jobs := update_where (\<lambda>k. job_id k = job_id j) (complete_job now save) (jobs w1)\<rparr>;
          w3 = fileIntoCollections now (job_user j) save (job_collections j) w2
      in insert_event (plain_event (notify_id d (job_id j)) EventNotification QueueNotify
                         (r_id st) (l_generation (r_lease st)) now now) w3)"

definition completeSubscribers :: "deps \<Rightarrow> run_st \<Rightarrow> time \<Rightarrow> world \<Rightarrow> world \<times> string list" where
  "completeSubscribers d st now w =
     (let subs = filter (active_job_of (r_id st)) (jobs w)
      in (foldl (\<lambda>w j. complete_one d st now j w) w subs, map job_user subs))"

subsection \<open>The transaction\<close>

definition fileProposal :: "run_st \<Rightarrow> category_proposal \<Rightarrow> world \<Rightarrow> world" where
  "fileProposal st p w =
     w\<lparr>proposals := proposals w @ [\<lparr>p_name = cp_name p,
         p_normalized = to_lower (dropWhile (\<lambda>c. c = CHR '' '') (trim_right_by (\<lambda>c. c = CHR '' '') (cp_name p))),
         p_description = cp_description p, p_run = r_id st\<rparr>]\<rparr>"

definition complete_run :: "time \<Rightarrow> run_row \<Rightarrow> run_row" where
  "complete_run now r =
     r\<lparr>run_state := RunCompleted, run_stage := ''persist'', run_owner := None, run_expires := None, run_updated := now\<rparr>"

definition index_id :: "deps \<Rightarrow> string \<Rightarrow> string" where
  "index_id d v = d_uuid d persistNamespace (''index:'' @ v)"

definition persist_body :: "deps \<Rightarrow> run_st \<Rightarrow> time \<Rightarrow> world \<Rightarrow> err + (world \<times> string list)" where
  "persist_body d st now w =
     (case find (\<lambda>r. run_id r = r_id st) (runs w) of
        None \<Rightarrow> Inl ErrNoRows
      | Some row \<Rightarrow>
          if run_state row = RunCompleted then Inr (w, [])
          else
            bind_r (insertVersion d st w) (\<lambda>(w1, v).
              let w2 = w1\<lparr>contents := update_where (\<lambda>c. c_id c = r_content st) (\<lambda>c. c\<lparr>c_current := Some v\<rparr>) (contents w1)\<rparr>;
                  (w3, users) = completeSubscribers d st now w2;
                  w4 = (case cat_proposal (r_category st) of None \<Rightarrow> w3 | Some p \<Rightarrow> fileProposal st p w3);
                  w5 = insert_event (plain_event (index_id d v) ''content.index'' QueueLight
                         (r_id st) (l_generation (r_lease st)) now now) w4;
                  w6 = w5\<lparr>runs := update_where (\<lambda>r. run_id r = r_id st) (complete_run now) (runs w5)\<rparr>
              in Inr (w6, users)))"

definition persist :: "deps \<Rightarrow> env \<Rightarrow> run_st \<Rightarrow> unit prog" where
  "persist d env st =
     bind_w (txn env AtPersist (\<lambda>now. GuardedExec now (r_lease st) (persist_body d st now)))
       (\<lambda>users. post_w (invalidate users \<circ> Notify))"

subsection \<open>The effect of the transaction\<close>

definition save_in :: "save_row list \<Rightarrow> string \<Rightarrow> string \<Rightarrow> string" where
  "save_in ss u c = (case find (\<lambda>s. s_user s = u \<and> s_content s = c) ss of None \<Rightarrow> [] | Some s \<Rightarrow> s_id s)"

definition has_save :: "save_row list \<Rightarrow> string \<Rightarrow> string \<Rightarrow> bool" where
  "has_save ss u c = (find (\<lambda>s. s_user s = u \<and> s_content s = c) ss \<noteq> None)"

lemma upsert_save_spec:
  assumes "upsert_save n now u c w = (i, w')"
  shows "has_save (saves w') u c" and "save_in (saves w') u c = i"
    and "\<exists>new. saves w' = saves w @ new \<and> (\<forall>s \<in> set new. s_user s = u \<and> s_content s = c \<and> s_id s = n)"
    and "jobs w' = jobs w" and "runs w' = runs w" and "events w' = events w"
    and "versions w' = versions w" and "contents w' = contents w"
  using assms
  by (auto simp: upsert_save_def has_save_def save_in_def find_snoc split: option.splits)

lemma save_append:
  "has_save ss u c \<Longrightarrow> has_save (ss @ new) u c \<and> save_in (ss @ new) u c = save_in ss u c"
  by (auto simp: has_save_def save_in_def find_append_left)

lemma fileIntoCollections_tables [simp]:
  "runs (fileIntoCollections now u s ids w) = runs w" "jobs (fileIntoCollections now u s ids w) = jobs w"
  "events (fileIntoCollections now u s ids w) = events w" "saves (fileIntoCollections now u s ids w) = saves w"
  "versions (fileIntoCollections now u s ids w) = versions w"
  "contents (fileIntoCollections now u s ids w) = contents w"
  "stage_results (fileIntoCollections now u s ids w) = stage_results w"
  by (simp_all add: fileIntoCollections_def)

lemma complete_job_simps [simp]:
  "job_id (complete_job now s j) = job_id j" "job_user (complete_job now s j) = job_user j"
  "job_run (complete_job now s j) = job_run j" "job_state (complete_job now s j) = JobCompleted"
  "job_save (complete_job now s j) = Some s"
  by (simp_all add: complete_job_def)

lemma insert_event_incl:
  "set (events w) \<subseteq> set (events (insert_event e w))"
  "ev_id e \<in> ev_id ` set (events (insert_event e w))"
  "set (events (insert_event e w)) \<subseteq> insert e (set (events w))"
  by (auto simp: insert_event_def)

lemma complete_one_spec:
  assumes "w' = complete_one d st now j w"
  shows "jobs w' = update_where (\<lambda>k. job_id k = job_id j)
            (complete_job now (save_in (saves w') (job_user j) (r_content st))) (jobs w)"
    and "has_save (saves w') (job_user j) (r_content st)"
    and "\<exists>new. saves w' = saves w @ new \<and> (\<forall>s \<in> set new. s_user s = job_user j \<and> s_content s = r_content st)"
    and "runs w' = runs w" and "versions w' = versions w" and "contents w' = contents w"
    and "set (events w) \<subseteq> set (events w')"
    and "notify_id d (job_id j) \<in> ev_id ` set (events w')"
    and "\<forall>e \<in> set (events w') - set (events w). ev_id e = notify_id d (job_id j)"
proof -
  obtain i w1 where u: "upsert_save (d_save_id d (job_id j)) now (job_user j) (r_content st) w = (i, w1)" by force
  let ?e = "plain_event (notify_id d (job_id j)) EventNotification QueueNotify
                         (r_id st) (l_generation (r_lease st)) now now"
  let ?w3 = "fileIntoCollections now (job_user j) i (job_collections j)
      (w1\<lparr>jobs := update_where (\<lambda>k. job_id k = job_id j) (complete_job now i) (jobs w1)\<rparr>)"
  have w': "w' = insert_event ?e ?w3" using assms u by (simp add: complete_one_def)
  note s = upsert_save_spec [OF u]
  have sv: "saves w' = saves w1" by (simp add: w')
  show "has_save (saves w') (job_user j) (r_content st)" using s(1) sv by simp
  show "jobs w' = update_where (\<lambda>k. job_id k = job_id j)
            (complete_job now (save_in (saves w') (job_user j) (r_content st))) (jobs w)"
    unfolding sv s(2) using s(4) by (simp add: w')
  show "\<exists>new. saves w' = saves w @ new \<and> (\<forall>s \<in> set new. s_user s = job_user j \<and> s_content s = r_content st)"
    using s(3) sv by auto
  show "runs w' = runs w" "versions w' = versions w" "contents w' = contents w"
    using s(5,7,8) by (simp_all add: w')
  have id: "ev_id ?e = notify_id d (job_id j)" by (simp add: plain_event_def)
  have ev: "events ?w3 = events w" using s(6) by simp
  show "set (events w) \<subseteq> set (events w')" "notify_id d (job_id j) \<in> ev_id ` set (events w')"
    "\<forall>e \<in> set (events w') - set (events w). ev_id e = notify_id d (job_id j)"
    using insert_event_incl [where w = ?w3 and e = ?e] id ev by (auto simp: w')
qed

text \<open>All subscribers: with distinct job ids each of their jobs is completed in place, pointing at the
  save its user has in the end; no other job changes.\<close>

lemma complete_all_spec:
  assumes "distinct (map job_id js)" and "\<forall>k \<in> set (jobs w). \<forall>j \<in> set js. job_id k = job_id j \<longrightarrow> job_user k = job_user j"
    and "w' = foldl (\<lambda>w j. complete_one d st now j w) w js"
  shows "jobs w' = map (\<lambda>k. if job_id k \<in> job_id ` set js
            then complete_job now (save_in (saves w') (job_user k) (r_content st)) k else k) (jobs w)
    \<and> (\<forall>j \<in> set js. has_save (saves w') (job_user j) (r_content st))
    \<and> (\<exists>new. saves w' = saves w @ new \<and> (\<forall>s \<in> set new. s_user s \<in> job_user ` set js \<and> s_content s = r_content st))
    \<and> runs w' = runs w \<and> versions w' = versions w \<and> contents w' = contents w
    \<and> set (events w) \<subseteq> set (events w')
    \<and> (\<forall>j \<in> set js. notify_id d (job_id j) \<in> ev_id ` set (events w'))
    \<and> (\<forall>e \<in> set (events w') - set (events w). ev_id e \<in> (\<lambda>j. notify_id d (job_id j)) ` set js)"
  using assms
proof (induction js arbitrary: w)
  case (Cons j js)
  let ?w1 = "complete_one d st now j w"
  note c = complete_one_spec [where w' = ?w1, OF refl]
  have u: "\<forall>k \<in> set (jobs ?w1). \<forall>i \<in> set js. job_id k = job_id i \<longrightarrow> job_user k = job_user i"
    using Cons.prems(2) unfolding c(1) by (auto simp: set_update_where)
  have w': "w' = foldl (\<lambda>w j. complete_one d st now j w) ?w1 js" using Cons.prems(3) by simp
  have d: "distinct (map job_id js)" and nj: "job_id j \<notin> job_id ` set js" using Cons.prems(1) by auto
  note ih = Cons.IH [OF d u w']
  obtain new where new: "saves w' = saves ?w1 @ new"
      "\<forall>s \<in> set new. s_user s \<in> job_user ` set js \<and> s_content s = r_content st" using ih by blast
  obtain n1 where n1: "saves ?w1 = saves w @ n1" "\<forall>s \<in> set n1. s_user s = job_user j \<and> s_content s = r_content st"
    using c(3) by blast
  have sv: "has_save (saves w') (job_user j) (r_content st)"
    "save_in (saves w') (job_user j) (r_content st) = save_in (saves ?w1) (job_user j) (r_content st)"
    unfolding new(1) using save_append [OF c(2)] by blast+
  have "jobs w' = map (\<lambda>k. if job_id k \<in> job_id ` set (j # js)
            then complete_job now (save_in (saves w') (job_user k) (r_content st)) k else k) (jobs w)"
  proof -
    have "jobs w' = map (\<lambda>k. if job_id k \<in> job_id ` set js
            then complete_job now (save_in (saves w') (job_user k) (r_content st)) k else k) (jobs ?w1)"
      using ih by blast
    also have "\<dots> = map (\<lambda>k. if job_id k \<in> job_id ` set (j # js)
            then complete_job now (save_in (saves w') (job_user k) (r_content st)) k else k) (jobs w)"
      unfolding c(1) update_where_def map_map
    proof (rule map_cong [OF refl], goal_cases)
      case (1 k)
      then show ?case using nj Cons.prems(2) sv(2) by (cases "job_id k = job_id j") auto
    qed
    finally show ?thesis .
  qed
  moreover have "\<exists>new. saves w' = saves w @ new \<and> (\<forall>s \<in> set new. s_user s \<in> job_user ` set (j # js) \<and> s_content s = r_content st)"
    using new n1 by (intro exI [of _ "n1 @ new"]) auto
  moreover have "runs w' = runs w" "versions w' = versions w" "contents w' = contents w"
    using ih c(4-6) by auto
  moreover have "set (events w) \<subseteq> set (events w')"
    using ih c(7) by blast
  moreover have "\<forall>i \<in> set (j # js). notify_id d (job_id i) \<in> ev_id ` set (events w')"
    using ih c(8) by auto
  moreover have "\<forall>e \<in> set (events w') - set (events w). ev_id e \<in> (\<lambda>j. notify_id d (job_id j)) ` set (j # js)"
    using ih c(9) by auto
  moreover have "\<forall>i \<in> set (j # js). has_save (saves w') (job_user i) (r_content st)" using ih sv(1) by auto
  ultimately show ?case by blast
qed auto

lemma complete_all_runs: "runs (foldl (\<lambda>w j. complete_one d st now j w) w js) = runs w"
  by (induction js arbitrary: w) (auto simp: complete_one_spec(4) [OF refl])

definition job_keys :: "world \<Rightarrow> bool" where
  "job_keys w = distinct (map job_id (jobs w))"

lemma has_save_in: "has_save ss u c \<Longrightarrow> \<exists>s \<in> set ss. s_id s = save_in ss u c \<and> s_user s = u \<and> s_content s = c"
proof -
  assume "has_save ss u c"
  then obtain s where "find (\<lambda>s. s_user s = u \<and> s_content s = c) ss = Some s" by (auto simp: has_save_def)
  with find_Some_in [OF this] show ?thesis by (auto simp: save_in_def)
qed

lemma completeSubscribers_spec:
  assumes "job_keys w" and "completeSubscribers d st now w = (w', users)"
  shows "jobs w' = map (\<lambda>k. if active_job_of (r_id st) k
            then complete_job now (save_in (saves w') (job_user k) (r_content st)) k else k) (jobs w)
    \<and> (\<forall>j \<in> set (jobs w). active_job_of (r_id st) j \<longrightarrow> has_save (saves w') (job_user j) (r_content st)
          \<and> notify_id d (job_id j) \<in> ev_id ` set (events w'))
    \<and> (\<exists>new. saves w' = saves w @ new)
    \<and> runs w' = runs w \<and> versions w' = versions w \<and> contents w' = contents w
    \<and> set (events w) \<subseteq> set (events w')
    \<and> (\<forall>e \<in> set (events w') - set (events w). \<exists>j. ev_id e = notify_id d j)
    \<and> users = map job_user (filter (active_job_of (r_id st)) (jobs w))"
proof -
  let ?js = "filter (active_job_of (r_id st)) (jobs w)"
  have w': "w' = foldl (\<lambda>w j. complete_one d st now j w) w ?js" and u: "users = map job_user ?js"
    using assms(2) by (auto simp: completeSubscribers_def Let_def)
  have key: "k = j" if "k \<in> set (jobs w)" "j \<in> set (jobs w)" "job_id k = job_id j" for k j
    using assms(1) that distinct_key_eq unfolding job_keys_def by metis
  have dist: "distinct (map job_id ?js)" using assms(1) by (simp add: job_keys_def distinct_map_filter)
  have users: "\<forall>k \<in> set (jobs w). \<forall>j \<in> set ?js. job_id k = job_id j \<longrightarrow> job_user k = job_user j"
    using key by auto
  note c = complete_all_spec [OF dist users w']
  have act: "job_id k \<in> job_id ` set ?js \<longleftrightarrow> active_job_of (r_id st) k" if "k \<in> set (jobs w)" for k
    using that key by auto
  have "jobs w' = map (\<lambda>k. if active_job_of (r_id st) k
            then complete_job now (save_in (saves w') (job_user k) (r_content st)) k else k) (jobs w)"
    using c act by (auto intro!: map_cong)
  then show ?thesis using c u by auto
qed

lemma persist_body_spec:
  assumes "job_keys w" and "persist_body d st now w = Inr (w', users)"
    and "find (\<lambda>r. run_id r = r_id st) (runs w) = Some row" and "run_state row \<noteq> RunCompleted"
  shows "runs w' = update_where (\<lambda>r. run_id r = r_id st) (complete_run now) (runs w)
    \<and> versions w' = versions w @ [version_of d st]
    \<and> contents w' = update_where (\<lambda>c. c_id c = r_content st) (\<lambda>c. c\<lparr>c_current := Some (d_version_id d)\<rparr>) (contents w)
    \<and> jobs w' = map (\<lambda>k. if active_job_of (r_id st) k
            then complete_job now (save_in (saves w') (job_user k) (r_content st)) k else k) (jobs w)
    \<and> (\<forall>j \<in> set (jobs w). active_job_of (r_id st) j \<longrightarrow> has_save (saves w') (job_user j) (r_content st)
          \<and> notify_id d (job_id j) \<in> ev_id ` set (events w'))
    \<and> (\<exists>new. saves w' = saves w @ new)
    \<and> set (events w) \<subseteq> set (events w') \<and> index_id d (d_version_id d) \<in> ev_id ` set (events w')
    \<and> (\<forall>e \<in> set (events w') - set (events w). (\<exists>j. ev_id e = notify_id d j) \<or> ev_id e = index_id d (d_version_id d))
    \<and> users = map job_user (filter (active_job_of (r_id st)) (jobs w))"
proof -
  obtain w1 v where w1: "insertVersion d st w = Inr (w1, v)"
    using assms by (auto simp: persist_body_def bind_r_Inr_iff)
  have v: "v = d_version_id d" "versions w1 = versions w @ [version_of d st]" "runs w1 = runs w"
      "jobs w1 = jobs w" "events w1 = events w" "saves w1 = saves w" "contents w1 = contents w"
    using w1 by (auto simp: insertVersion_def bind_r_Inr_iff)
  let ?w2 = "w1\<lparr>contents := update_where (\<lambda>c. c_id c = r_content st) (\<lambda>c. c\<lparr>c_current := Some v\<rparr>) (contents w1)\<rparr>"
  obtain w3 us where w3: "completeSubscribers d st now ?w2 = (w3, us)" by force
  let ?w4 = "case cat_proposal (r_category st) of None \<Rightarrow> w3 | Some p \<Rightarrow> fileProposal st p w3"
  let ?e = "plain_event (index_id d v) ''content.index'' QueueLight (r_id st) (l_generation (r_lease st)) now now"
  have w': "w' = (insert_event ?e ?w4)\<lparr>runs := update_where (\<lambda>r. run_id r = r_id st) (complete_run now) (runs (insert_event ?e ?w4))\<rparr>"
    and us: "users = us"
    using assms(2-4) w1 w3 by (auto simp: persist_body_def Let_def)
  have k: "job_keys ?w2" using assms(1) v by (simp add: job_keys_def)
  note c = completeSubscribers_spec [OF k w3]
  have w4: "events ?w4 = events w3" "jobs ?w4 = jobs w3" "saves ?w4 = saves w3" "runs ?w4 = runs w3"
      "versions ?w4 = versions w3" "contents ?w4 = contents w3"
    by (simp_all add: fileProposal_def split: option.splits)
  have id: "ev_id ?e = index_id d v" by (simp add: plain_event_def)
  have ev: "set (events w3) \<subseteq> set (events w')" "index_id d v \<in> ev_id ` set (events w')"
      "\<forall>e \<in> set (events w') - set (events w3). ev_id e = index_id d v"
    using insert_event_incl [where w = ?w4 and e = ?e] id w4(1) by (auto simp: w')
  have tabs: "jobs w' = jobs w3" "saves w' = saves w3" "versions w' = versions w3" "contents w' = contents w3"
      "runs w' = update_where (\<lambda>r. run_id r = r_id st) (complete_run now) (runs w3)"
    by (simp_all add: w' w4)
  show ?thesis
    using c ev by (simp add: tabs us v) blast
qed

text \<open>The run is finished and nothing of it is left open: what the transaction promises.\<close>

definition published :: "deps \<Rightarrow> run_st \<Rightarrow> world \<Rightarrow> world \<Rightarrow> bool" where
  "published d st w w' =
     ((\<forall>r \<in> set (runs w'). run_id r = r_id st \<longrightarrow> run_state r = RunCompleted \<and> run_owner r = None)
      \<and> versions w' = versions w @ [version_of d st]
      \<and> (\<forall>c \<in> set (contents w'). c_id c = r_content st \<longrightarrow> c_current c = Some (d_version_id d))
      \<and> list_all2 (\<lambda>j j'. if active_job_of (r_id st) j
            then job_id j' = job_id j \<and> job_user j' = job_user j \<and> job_state j' = JobCompleted
               \<and> (\<exists>s \<in> set (saves w'). job_save j' = Some (s_id s) \<and> s_user s = job_user j \<and> s_content s = r_content st)
               \<and> notify_id d (job_id j) \<in> ev_id ` set (events w')
            else j' = j) (jobs w) (jobs w')
      \<and> index_id d (d_version_id d) \<in> ev_id ` set (events w')
      \<and> set (saves w) \<subseteq> set (saves w') \<and> set (events w) \<subseteq> set (events w'))"

lemma persist_body_published:
  assumes "job_keys w" and "persist_body d st now w = Inr (w', users)"
    and "find (\<lambda>r. run_id r = r_id st) (runs w) = Some row" and "run_state row \<noteq> RunCompleted"
  shows "published d st w w'"
proof -
  note p = persist_body_spec [OF assms]
  have "list_all2 (\<lambda>j j'. if active_job_of (r_id st) j
            then job_id j' = job_id j \<and> job_user j' = job_user j \<and> job_state j' = JobCompleted
               \<and> (\<exists>s \<in> set (saves w'). job_save j' = Some (s_id s) \<and> s_user s = job_user j \<and> s_content s = r_content st)
               \<and> notify_id d (job_id j) \<in> ev_id ` set (events w')
            else j' = j) (jobs w) (jobs w')"
  proof -
    have jw: "jobs w' = map (\<lambda>k. if active_job_of (r_id st) k
        then complete_job now (save_in (saves w') (job_user k) (r_content st)) k else k) (jobs w)" using p by blast
    have "\<exists>s \<in> set (saves w'). save_in (saves w') (job_user j) (r_content st) = s_id s \<and> s_user s = job_user j \<and> s_content s = r_content st"
      if "j \<in> set (jobs w)" "active_job_of (r_id st) j" for j
      using p that has_save_in [of "saves w'" "job_user j" "r_content st"] by metis
    then show ?thesis unfolding jw list_all2_map2 by (intro list.rel_refl_strong) (use p in auto)
  qed
  then show ?thesis using p by (auto simp: published_def set_update_where complete_run_def)
qed

text \<open>The transaction as the worker sees it.\<close>

lemma persist_cases:
  assumes "persist d env st w = (r, w')"
  obtains (kept) e where "w' = e_at env AtPersist w" and "r = Inl e"
    | (committed) w1 users where
      "GuardedExec (e_db env AtPersist) (r_lease st) (persist_body d st (e_db env AtPersist)) (e_at env AtPersist w) = Inr (w1, users)"
      and "w' = w1 \<and> is_ok r = False \<or> w' = invalidate users (Notify w1) \<and> r = Inr ()"
  using assms unfolding persist_def
proof (cases rule: bind_w_cases)
  case (error e)
  from error(1) show ?thesis
    by (cases rule: txn_cases) (use that error(2) in auto)
next
  case (ok users w1)
  from ok(1) show ?thesis
    by (cases rule: txn_cases) (use that(2) ok(2) in auto)
qed

lemma touch_claim_tables [simp]:
  "jobs (touch_claim now l w) = jobs w" "events (touch_claim now l w) = events w"
  "versions (touch_claim now l w) = versions w" "contents (touch_claim now l w) = contents w"
  "saves (touch_claim now l w) = saves w" "stage_results (touch_claim now l w) = stage_results w"
  "map run_id (runs (touch_claim now l w)) = map run_id (runs w)"
  by (simp_all add: touch_claim_def)

lemma find_touch_claim:
  "find (\<lambda>r. run_id r = i) (runs (touch_claim now l w)) =
   map_option (\<lambda>r. if is_claim l r then r\<lparr>run_updated := now\<rparr> else r) (find (\<lambda>r. run_id r = i) (runs w))"
  unfolding touch_claim_def by (simp add: find_update_where_key)

text \<open>C10: Persist is all or nothing under every failure, even a commit whose answer is lost: either the
  world is exactly what the others left, or the run is completed and unowned, one version was written and
  made current, every open job of the run is completed and points at a save of its own user for this
  content, with its notification and the index event in the outbox, and every other job is untouched.  A
  success reported to the caller is always the second case.\<close>

theorem persist_is_all_or_nothing:
  assumes "persist d env st w = (r, w')" and "run_keys (e_at env AtPersist w)" and "job_keys (e_at env AtPersist w)"
    and "r_id st = l_run (r_lease st)"
    and "\<forall>x \<in> set (runs (e_at env AtPersist w)). run_owner x = None \<or> run_state x = RunProcessing"
  shows "(w' = e_at env AtPersist w \<and> r \<noteq> Inr ()) \<or> published d st (e_at env AtPersist w) w'"
  using assms(1)
proof (cases rule: persist_cases)
  case (committed w1 users)
  let ?w = "e_at env AtPersist w" and ?now = "e_db env AtPersist"
  have h: "holds (r_lease st) ?w"
    using committed(1) GuardedExec_fenced [OF assms(2)] by (metis Inl_Inr_False)
  then have b: "persist_body d st ?now (touch_claim ?now (r_lease st) ?w) = Inr (w1, users)"
    using committed(1) by (simp add: GuardedExec_body [OF assms(2) h])
  obtain x where x: "find (\<lambda>r. run_id r = r_id st) (runs ?w) = Some x" "run_owner x \<noteq> None"
    using h assms(4) by (auto simp: holds_def lease_view_def)
  then have "run_state x = RunProcessing" using assms(5) find_Some_in [OF x(1)] by auto
  then have f: "\<exists>y. find (\<lambda>r. run_id r = r_id st) (runs (touch_claim ?now (r_lease st) ?w)) = Some y
      \<and> run_state y \<noteq> RunCompleted" using x by (simp add: find_touch_claim)
  have "job_keys (touch_claim ?now (r_lease st) ?w)" using assms(3) by (simp add: job_keys_def)
  then have "published d st (touch_claim ?now (r_lease st) ?w) w1" using b f persist_body_published by blast
  then have "published d st ?w w1" by (simp add: published_def)
  moreover have "published d st ?w (invalidate users (Notify w1)) = published d st ?w w1"
    by (simp add: published_def)
  ultimately show ?thesis using committed(2) by auto
qed auto

subsection \<open>Sample run\<close>

text \<open>A worker alone in the world, a light page handler and a job of one user on the sample run.\<close>

definition quiet_env :: "time \<Rightarrow> env" where
  "quiet_env now = \<lparr>e_at = \<lambda>p w. w, e_fault = \<lambda>p. TxnWorks, e_db = \<lambda>p. now, e_now = \<lambda>p. now\<rparr>"

definition page_handler :: handler where
  "page_handler = \<lparr>h_platform = fallback_name,
     h_prepare = \<lambda>i. Inr \<lparr>p_caption = ''cap'', p_page = ''page'', p_thumbnail = [], p_media = False\<rparr>,
     h_download = \<lambda>i dir. Inl (Plain ''no media'')\<rparr>"

definition sample_extraction :: extraction where
  "sample_extraction = \<lparr>x_title = ''t'', x_summary = ''s'', x_domain = [], x_format = [], x_tags = [''tag''],
     x_facts = [], x_locations = [], x_people = [], x_actions = [], x_events = []\<rparr>"

definition sample_deps :: deps where
  "sample_deps =
     \<lparr>d_registry = \<lparr>reg_handlers = Map.empty, reg_fallback = Some page_handler\<rparr>,
      d_transcribe = \<lambda>m. Inr ''words'', d_readtext = \<lambda>ms. Inr [],
      d_extract = \<lambda>t c. Inr sample_extraction,
      d_categorize = \<lambda>x t. Inr \<lparr>cat_category = ''Food'', cat_subcategory = ''Cafe'', cat_proposal = None\<rparr>,
      d_geocoder = None, d_cooldowns = None, d_model = ''m'', d_sha = \<lambda>s. s,
      d_marshal = \<lambda>x. Some [], d_unmarshal = \<lambda>s t. None, d_uuid = sample_uuid,
      d_version_id = ''v1'', d_save_id = \<lambda>j. ''save-'' @ j, d_stat = \<lambda>p. True, d_tempdir = Inr ''/tmp''\<rparr>"

definition sample_content :: content_row where
  "sample_content = \<lparr>c_id = ''c1'', c_platform = ''example.org'', c_type = ''page'', c_source = None,
     c_normalized = ''https://example.org/'', c_hash = ''h'', c_scope = ''public'', c_current = None\<rparr>"

definition sample_job :: job_row where
  "sample_job = \<lparr>job_id = ''j1'', job_user = ''u1'', job_run = Some ''r1'', job_save = None,
     job_url = ''https://example.org/'', job_normalized = ''https://example.org/'', job_platform = None,
     job_state = JobQueued, job_step = Some ''queued'', job_progress = 0, job_failure = None,
     job_collections = [], job_created = 0, job_updated = 0, job_completed = None\<rparr>"

definition sample_busy :: world where
  "sample_busy = sample_claim_a\<lparr>contents := [sample_content], jobs := [sample_job]\<rparr>"

definition sample_st :: run_st where
  "sample_st =
     \<lparr>r_id = ''r1'', r_content = ''c1'', r_created = 0,
      r_identity = \<lparr>id_original = ''https://example.org/'', id_normalized = ''https://example.org/'',
        id_platform = ''example.org'', id_type = ''page'', id_content = [], id_scope = UserScope []\<rparr>,
      r_lease = sample_lease_a, r_workdir = ''/tmp'',
      r_prepared = \<lparr>p_caption = ''cap'', p_page = ''page'', p_thumbnail = [], p_media = False\<rparr>, r_media = [],
      r_transcript = ''page'', r_extraction = sample_extraction,
      r_category = \<lparr>cat_category = ''Food'', cat_subcategory = ''Cafe'', cat_proposal = None\<rparr>, r_taxonomy = []\<rparr>"

lemmas persist_sample_defs = lease_sample_defs quiet_env_def page_handler_def sample_extraction_def
  sample_deps_def sample_content_def sample_job_def sample_busy_def sample_st_def acquire_row_def

theorem persist_is_all_or_nothing_witness:
  "\<exists>w'. persist sample_deps (quiet_env 50) sample_st sample_busy = (Inr (), w')
     \<and> published sample_deps sample_st sample_busy w'"
proof -
  obtain r w' where p: "persist sample_deps (quiet_env 50) sample_st sample_busy = (r, w')" by force
  have g: "e_at (quiet_env 50) AtPersist sample_busy = sample_busy" by (simp add: quiet_env_def)
  have k: "run_keys sample_busy" "job_keys sample_busy" "r_id sample_st = l_run (r_lease sample_st)"
      "\<forall>x \<in> set (runs sample_busy). run_owner x = None \<or> run_state x = RunProcessing"
    by (simp_all add: run_keys_def job_keys_def persist_sample_defs)
  have "fst (persist sample_deps (quiet_env 50) sample_st sample_busy) = Inr ()"
    by (simp add: persist_def bind_w_def txn_def GuardedExec_def matching_def is_claim_def touch_claim_def
        persist_body_def insertVersion_def completeSubscribers_def persist_sample_defs split: prod.splits)
  with p have "r = Inr ()" by simp
  with persist_is_all_or_nothing [OF p] g k p show ?thesis by auto
qed

end
