(* ===== verification/Pipeline.thy ===== *)
theory Pipeline
  imports Persist
begin

text \<open>
  The queue handler (\<open>internal/pipeline/pipeline.go\<close>): acquire, load, the stages with their
  checkpoints, escalation to the media queue, persist, and what a failure commits.
\<close>

definition runLifetime :: duration where "runLifetime = 30 * minute"
definition maxStageExecutions :: int where "maxStageExecutions = 3"
definition retryBackoffs :: "duration list" where "retryBackoffs = [30 * second, 5 * minute]"

definition retryNamespace :: string where
  "retryNamespace = ''6ba7b811-9dad-11d1-80b4-00c04fd430c8''"

subsection \<open>Failures\<close>

definition backoff_of :: "int \<Rightarrow> duration" where
  "backoff_of attempts =
     (if attempts - 1 < int (length retryBackoffs) then retryBackoffs ! nat (attempts - 1) else last retryBackoffs)"

text \<open>\<open>None\<close>: the retry would land past the deadline, or the run cannot be read.\<close>

definition retryDelay :: "deps \<Rightarrow> time \<Rightarrow> string \<Rightarrow> int \<Rightarrow> failure \<Rightarrow> world \<Rightarrow> duration option" where
  "retryDelay d now i attempts f w =
     (let d0 = backoff_of attempts;
          d1 = (case as_provider (f_err f) of None \<Rightarrow> d0 | Some (_, after) \<Rightarrow> if after > d0 then after else d0);
          d2 = (case d_cooldowns d of
                  None \<Rightarrow> d1
                | Some rem \<Rightarrow> (case rem ''gemini'' of Inl _ \<Rightarrow> d1 | Inr left \<Rightarrow> if left > d1 then left else d1))
      in case find (\<lambda>r. run_id r = i) (runs w) of
           None \<Rightarrow> None
         | Some r \<Rightarrow> if now + d2 > run_created r + runLifetime then None else Some d2)"

definition retry_id :: "deps \<Rightarrow> string \<Rightarrow> string \<Rightarrow> int \<Rightarrow> string" where
  "retry_id d i stage n = d_uuid d retryNamespace (''retry:'' @ i @ '':'' @ stage @ '':'' @ show_int n)"

definition wait_row :: "time \<Rightarrow> run_row \<Rightarrow> run_row" where
  "wait_row now r = r\<lparr>run_state := RunRetryScheduled, run_owner := None, run_expires := None, run_updated := now\<rparr>"

definition scheduleRetry :: "deps \<Rightarrow> time \<Rightarrow> lease \<Rightarrow> string \<Rightarrow> int \<Rightarrow> duration \<Rightarrow> world \<Rightarrow> world" where
  "scheduleRetry d now held stage attempts delay w =
     (let w1 = w\<lparr>runs := update_where (\<lambda>r. run_id r = l_run held) (wait_row now) (runs w)\<rparr>
      in insert_event (plain_event (retry_id d (l_run held) stage attempts) ''run.resume''
                         (routing_key_of QueueLight (l_run held) w1) (l_run held) (l_generation held)
                         now (now + delay)) w1)"

definition fail_row :: "time \<Rightarrow> failure \<Rightarrow> run_row \<Rightarrow> run_row" where
  "fail_row now f r =
     r\<lparr>run_state := RunFailed, run_failure_code := Some (f_code f), run_failure_message := Some (f_message f),
       run_owner := None, run_expires := None, run_updated := now\<rparr>"

definition fail_job :: "time \<Rightarrow> failure \<Rightarrow> job_row \<Rightarrow> job_row" where
  "fail_job now f j =
     j\<lparr>job_state := JobFailed, job_failure := Some (f_code f), job_completed := Some now, job_updated := now\<rparr>"

definition completeAsFailed :: "time \<Rightarrow> string \<Rightarrow> failure \<Rightarrow> world \<Rightarrow> world" where
  "completeAsFailed now i f w =
     w\<lparr>runs := update_where (\<lambda>r. run_id r = i) (fail_row now f) (runs w),
       jobs := update_where (active_job_of i) (fail_job now f) (jobs w)\<rparr>"

text \<open>The answer of the body: the users to invalidate, whether the end is terminal, and the
  failure, which the deadline may replace.\<close>

definition failure_body ::
  "deps \<Rightarrow> time \<Rightarrow> lease \<Rightarrow> string \<Rightarrow> failure \<Rightarrow> time \<Rightarrow> world \<Rightarrow> err + (world \<times> (string list \<times> bool \<times> failure))" where
  "failure_body d appnow held stage f now w =
     (let (attempts, w1) = recordStageFailure (l_run held) stage (f_class f) w;
          users = subscribers (l_run held) w1
      in if \<not> Retryable f \<or> attempts \<ge> maxStageExecutions
         then Inr (completeAsFailed now (l_run held) f w1, users, True, f)
         else (case retryDelay d appnow (l_run held) attempts f w1 of
                 None \<Rightarrow> Inr (completeAsFailed now (l_run held) errRunExpired w1, users, True, errRunExpired)
               | Some delay \<Rightarrow> Inr (scheduleRetry d now held stage attempts delay w1, users, False, f)))"

definition applyFailure :: "deps \<Rightarrow> env \<Rightarrow> lease \<Rightarrow> string \<Rightarrow> failure \<Rightarrow> 'a prog" where
  "applyFailure d env held stage f =
     bind_w (txn env AtFailure (\<lambda>now. GuardedExec now held (failure_body d (e_now env AtFailure) held stage f now)))
       (\<lambda>(users, terminal, f1).
         bind_w (post_w (invalidate users \<circ> (if terminal then id else Notify))) (\<lambda>_. fail_w (err_of f1)))"

subsection \<open>Escalation\<close>

definition escalate_id :: "deps \<Rightarrow> string \<Rightarrow> int \<Rightarrow> string" where
  "escalate_id d i g = d_uuid d retryNamespace (''escalate:'' @ i @ '':'' @ show_int g)"

definition escalate_body :: "deps \<Rightarrow> run_st \<Rightarrow> lease \<Rightarrow> time \<Rightarrow> world \<Rightarrow> err + (world \<times> unit)" where
  "escalate_body d st held now w =
     (let w1 = w\<lparr>runs := update_where (\<lambda>r. run_id r = r_id st)
                 (\<lambda>r. r\<lparr>run_state := RunQueued, run_owner := None, run_expires := None,
                        run_stage := stageDownload, run_updated := now\<rparr>) (runs w)\<rparr>
      in Inr (insert_event (plain_event (escalate_id d (r_id st) (l_generation held)) EventProcessMedia QueueMedia
                 (r_id st) (l_generation held) now now) w1, ()))"

definition escalate :: "deps \<Rightarrow> env \<Rightarrow> lease \<Rightarrow> run_st \<Rightarrow> unit prog" where
  "escalate d env held st =
     bind_w (txn env AtEscalate (\<lambda>now. GuardedExec now held (escalate_body d st held now))) (\<lambda>_. post_w Notify)"

subsection \<open>The run\<close>

definition empty_prepared :: prepared where
  "empty_prepared = \<lparr>p_caption = [], p_page = [], p_thumbnail = [], p_media = False\<rparr>"

definition empty_extraction :: extraction where
  "empty_extraction = \<lparr>x_title = [], x_summary = [], x_domain = [], x_format = [], x_tags = [], x_facts = [],
     x_locations = [], x_people = [], x_actions = [], x_events = []\<rparr>"

definition empty_category :: category where
  "empty_category = \<lparr>cat_category = [], cat_subcategory = [], cat_proposal = None\<rparr>"

text \<open>\<open>load\<close>: the run joined with its content.  The scope is not read back; the zero value is a
  user scope without a user.\<close>

definition load_run :: "lease \<Rightarrow> world \<Rightarrow> goerr + run_st" where
  "load_run held w =
     (case find (\<lambda>r. run_id r = l_run held) (runs w) of
        None \<Rightarrow> Inl (Wrapped ''loading the run'' (Store ErrNoRows))
      | Some r \<Rightarrow>
          (case find (\<lambda>c. c_id c = run_content r) (contents w) of
             None \<Rightarrow> Inl (Wrapped ''loading the run'' (Store ErrNoRows))
           | Some c \<Rightarrow> Inr
               \<lparr>r_id = l_run held, r_content = c_id c, r_created = run_created r,
                r_identity = \<lparr>id_original = c_normalized c, id_normalized = c_normalized c,
                  id_platform = c_platform c, id_type = c_type c,
                  id_content = (case c_source c of None \<Rightarrow> [] | Some s \<Rightarrow> s), id_scope = UserScope []\<rparr>,
                r_lease = held, r_workdir = [], r_prepared = empty_prepared, r_media = [],
                r_transcript = [], r_extraction = empty_extraction, r_category = empty_category,
                r_taxonomy = []\<rparr>))"

text \<open>An error of a stage: a fence is passed on, anything else is committed as a failure.\<close>

definition stage_error :: "deps \<Rightarrow> env \<Rightarrow> lease \<Rightarrow> string \<Rightarrow> goerr \<Rightarrow> 'a prog" where
  "stage_error d env held stage e =
     (if is_fenced e then fail_w e else applyFailure d env held stage (Classify e))"

definition catch_w :: "'a prog \<Rightarrow> (goerr \<Rightarrow> 'b prog) \<Rightarrow> ('a \<Rightarrow> 'b prog) \<Rightarrow> 'b prog" where
  "catch_w m h f w = (case m w of (Inl e, w1) \<Rightarrow> h e w1 | (Inr a, w1) \<Rightarrow> f a w1)"

fun run_stages :: "deps \<Rightarrow> env \<Rightarrow> message \<Rightarrow> lease \<Rightarrow> string list \<Rightarrow> run_st \<Rightarrow> run_st prog" where
  "run_stages d env m held [] st = return_w st"
| "run_stages d env m held (stage # stages) st =
     (if e_now env (AtCheckpoint stage) > r_created st + runLifetime
      then applyFailure d env held stage errRunExpired
      else
        catch_w (runStage d env stage st) (stage_error d env held stage) (\<lambda>st1.
          if stage = stagePrepare \<and> p_media (r_prepared st1) \<and> msg_type m = EventProcessLight
          then catch_w (escalate d env held st1) (stage_error d env held stage) (\<lambda>_. fail_w Escalated)
          else run_stages d env m held stages st1))"

definition all_stages :: "string list" where
  "all_stages = [stagePrepare, stageDownload, stageTranscribe, stageExtract, stageCategorize]"

definition process :: "deps \<Rightarrow> env \<Rightarrow> message \<Rightarrow> lease \<Rightarrow> unit prog" where
  "process d env m held =
     catch_w (query env AtLoad (load_run held)) (\<lambda>e. applyFailure d env held stagePrepare (Classify e)) (\<lambda>st.
     catch_w (lift_w (d_tempdir d)) (\<lambda>e. applyFailure d env held stagePrepare (Classify e)) (\<lambda>dir.
     bind_w (run_stages d env m held all_stages (st\<lparr>r_workdir := dir\<rparr>)) (\<lambda>st1.
     catch_w (persist d env st1) (stage_error d env held stagePersist) return_w)))"

text \<open>\<open>Handle\<close>: the outcome for the consumer and the error it logs.\<close>

definition Handle ::
  "deps \<Rightarrow> env \<Rightarrow> string option \<Rightarrow> time \<Rightarrow> string \<Rightarrow> message \<Rightarrow> world \<Rightarrow> (decision \<times> goerr option) \<times> world" where
  "Handle d env fault now worker m w =
     (case Acquire fault now (msg_run m) worker w of
        Inl e \<Rightarrow> ((if e = ErrNotAcquired then (Done, None) else (Retry 1, Some (Store e))), w)
      | Inr (held, w1) \<Rightarrow>
          (case process d env m held w1 of
             (Inr _, w2) \<Rightarrow> ((Done, None), w2)
           | (Inl e, w2) \<Rightarrow>
               ((Done, if err_is e Escalated \<or> is_fenced e then None else Some e), w2)))"

subsection \<open>What each transaction does to the runs\<close>

definition owned_processing :: "world \<Rightarrow> bool" where
  "owned_processing w = (\<forall>r \<in> set (runs w). run_owner r = None \<or> run_state r = RunProcessing)"

definition wf :: "world \<Rightarrow> bool" where
  "wf w = (run_keys w \<and> owned_processing w)"

lemma wf_runs_eq: "runs w' = runs w \<Longrightarrow> wf w' = wf w"
  by (simp add: wf_def run_keys_def owned_processing_def)

lemma guarded_cases:
  assumes "GuardedExec now l body w = Inr (w', a)"
  shows "body (touch_claim now l w) = Inr (w', a)" and "run_keys w \<Longrightarrow> holds l w"
  using assms GuardedExec_fenced [of w l now body] by (auto simp: GuardedExec_def split: if_splits)

text \<open>An update of one run by its id that clears the owner.\<close>

definition drops :: "string \<Rightarrow> (run_row \<Rightarrow> run_row) \<Rightarrow> world \<Rightarrow> world \<Rightarrow> bool" where
  "drops i f w w' =
     (runs w' = update_where (\<lambda>r. run_id r = i) f (runs w)
      \<and> (\<forall>r. run_id (f r) = run_id r \<and> run_generation (f r) = run_generation r \<and> run_owner (f r) = None
             \<and> run_content (f r) = run_content r \<and> run_version (f r) = run_version r
             \<and> run_created (f r) = run_created r))"

lemma completeAsFailed_drops: "drops i (fail_row now f) w (completeAsFailed now i f w)"
  by (simp add: drops_def completeAsFailed_def fail_row_def)

lemma scheduleRetry_drops: "drops (l_run held) (wait_row now) w (scheduleRetry d now held s n delay w)"
  by (simp add: drops_def scheduleRetry_def wait_row_def Let_def)

lemma failure_body_cases:
  assumes "failure_body d appnow held stage f now w = Inr (w', users, terminal, f1)"
  obtains (failed) n w1 where "recordStageFailure (l_run held) stage (f_class f) w = (n, w1)"
      and "w' = completeAsFailed now (l_run held) f1 w1" and "terminal"
      and "f1 = f \<and> (\<not> Retryable f \<or> n \<ge> maxStageExecutions)
           \<or> f1 = errRunExpired \<and> retryDelay d appnow (l_run held) n f w1 = None"
      and "users = subscribers (l_run held) w1"
    | (retry) n w1 delay where "recordStageFailure (l_run held) stage (f_class f) w = (n, w1)"
      and "w' = scheduleRetry d now held stage n delay w1" and "\<not> terminal" and "f1 = f"
      and "Retryable f" and "n < maxStageExecutions"
      and "retryDelay d appnow (l_run held) n f w1 = Some delay"
      and "users = subscribers (l_run held) w1"
proof -
  obtain n w1 where r: "recordStageFailure (l_run held) stage (f_class f) w = (n, w1)" by force
  show thesis
  proof (cases "\<not> Retryable f \<or> n \<ge> maxStageExecutions")
    case True
    then have "w' = completeAsFailed now (l_run held) f w1" "terminal" "f1 = f" "users = subscribers (l_run held) w1"
      using assms r by (auto simp: failure_body_def Let_def)
    with True failed [OF r] show ?thesis by simp
  next
    case False
    show ?thesis
    proof (cases "retryDelay d appnow (l_run held) n f w1")
      case None
      then have "w' = completeAsFailed now (l_run held) errRunExpired w1" "terminal" "f1 = errRunExpired"
          "users = subscribers (l_run held) w1"
        using assms r False by (auto simp: failure_body_def Let_def)
      with None failed [OF r] show ?thesis by simp
    next
      case (Some delay)
      then have "w' = scheduleRetry d now held stage n delay w1" "\<not> terminal" "f1 = f"
          "users = subscribers (l_run held) w1"
        using assms r False by (auto simp: failure_body_def Let_def)
      with Some False retry [OF r, of delay] show ?thesis by simp
    qed
  qed
qed

lemma failure_body_drops:
  assumes "failure_body d appnow held stage f now w = Inr (w', a)"
  shows "\<exists>g. drops (l_run held) g w w'"
proof -
  obtain users terminal f1 where a: "a = (users, terminal, f1)" by (cases a) auto
  have r: "drops (l_run held) g w1 w' \<Longrightarrow> runs w1 = runs w \<Longrightarrow> drops (l_run held) g w w'" for g w1
    by (simp add: drops_def)
  from assms [unfolded a] show ?thesis
  proof (cases rule: failure_body_cases)
    case (failed n w1)
    then show ?thesis
      using r completeAsFailed_drops recordStageFailure_tables [OF failed(1)] by blast
  next
    case (retry n w1 delay)
    then show ?thesis
      using r scheduleRetry_drops recordStageFailure_tables [OF retry(1)] by blast
  qed
qed

lemma escalate_body_drops:
  "escalate_body d st held now w = Inr (w', a) \<Longrightarrow> \<exists>g. drops (r_id st) g w w'"
  by (auto simp: escalate_body_def Let_def drops_def
      intro!: exI [of _ "\<lambda>r. r\<lparr>run_state := RunQueued, run_owner := None, run_expires := None,
                        run_stage := stageDownload, run_updated := now\<rparr>"])

lemma persist_body_drops:
  assumes "persist_body d st now w = Inr (w', a)"
    and "find (\<lambda>r. run_id r = r_id st) (runs w) = Some row" and "run_state row \<noteq> RunCompleted"
  shows "drops (r_id st) (complete_run now) w w'"
proof -
  have "runs w' = update_where (\<lambda>r. run_id r = r_id st) (complete_run now) (runs w)"
    using assms
    by (auto simp: persist_body_def insertVersion_def completeSubscribers_def bind_r_Inr_iff Let_def
        fileProposal_def complete_all_runs split: option.splits)
  then show ?thesis by (simp add: drops_def complete_run_def)
qed

lemma commit_body_runs:
  assumes "commit_body d st stage hash out pr now w = Inr (w', users)"
  shows "runs w' = update_where (\<lambda>r. run_id r = r_id st) (\<lambda>r. r\<lparr>run_stage := stage, run_updated := now\<rparr>) (runs w)"
  using assms by (auto simp: commit_body_def bind_r_Inr_iff Let_def dest: saveCheckpoint_tables)

text \<open>A worker has lost its claim for good once the store shows a later view of the run.\<close>

definition seen :: "lease \<Rightarrow> world \<Rightarrow> bool" where
  "seen l w = (\<exists>g ow. lease_view w (l_run l) = Some (g, ow) \<and> l_generation l \<le> g)"

definition lost :: "lease \<Rightarrow> world \<Rightarrow> bool" where
  "lost l w = (seen l w \<and> \<not> holds l w)"

lemma seen_frame: "lease_frame w w' \<Longrightarrow> seen l w \<Longrightarrow> seen l w'"
  unfolding seen_def using lease_frame_view by fastforce

lemma lost_frame: "lease_frame w w' \<Longrightarrow> lost l w \<Longrightarrow> lost l w'"
  using lease_frame_view [of w w' "l_run l"]
  by (fastforce simp: lost_def seen_def holds_def)

lemma holds_seen: "holds l w \<Longrightarrow> seen l w"
  by (auto simp: holds_def seen_def)

lemma lost_runs_eq: "runs w' = runs w \<Longrightarrow> lost l w' = lost l w"
  by (simp add: lost_def seen_def holds_def lease_view_def)

lemma drops_frame: "drops i f w w' \<Longrightarrow> lease_frame w w'"
  by (rule lease_frame_update [of _ "\<lambda>r. run_id r = i" f]) (auto simp: drops_def view_le_def)

lemma drops_wf: "drops i f w w' \<Longrightarrow> wf w \<Longrightarrow> wf w'"
  by (auto simp: drops_def wf_def run_keys_def owned_processing_def set_update_where)

lemma drops_lost:
  assumes "drops (l_run l) f w w'" and "seen l w"
  shows "lost l w'"
proof -
  have "\<not> holds l w'"
    using assms(1) by (auto simp: drops_def holds_def lease_view_def find_update_where_key dest!: find_Some_in)
  then show ?thesis using seen_frame [OF drops_frame [OF assms(1)] assms(2)] by (simp add: lost_def)
qed

lemma lease_view_touch: "lease_view (touch_claim now l w) i = lease_view w i"
  unfolding lease_view_def find_touch_claim
  by (cases "find (\<lambda>r. run_id r = i) (runs w)") simp_all

lemma seen_touch [simp]: "seen l (touch_claim now k w) = seen l w"
  by (simp add: seen_def lease_view_touch)

lemma touch_claim_wf: "wf (touch_claim now l w) = wf w"
proof -
  have "(\<forall>r \<in> set (update_where P (\<lambda>r. r\<lparr>run_updated := now\<rparr>) rs). run_owner r = None \<or> run_state r = RunProcessing)
      = (\<forall>r \<in> set rs. run_owner r = None \<or> run_state r = RunProcessing)" for P and rs :: "run_row list"
    by (induction rs) auto
  then show ?thesis
    by (simp add: wf_def run_keys_def owned_processing_def touch_claim_def)
qed

subsection \<open>A worker among others\<close>

text \<open>What the others do keeps the store well formed and respects the lease; a driver or provider
  error is never the lease package's own sentinel.\<close>

definition good_env :: "env \<Rightarrow> bool" where
  "good_env env =
     ((\<forall>p w. wf w \<longrightarrow> wf (e_at env p w) \<and> lease_frame w (e_at env p w))
      \<and> (\<forall>p e. e_fault env p = TxnFails e \<or> e_fault env p = CommitLost e \<longrightarrow> \<not> is_fenced e))"

definition honest :: "goerr + 'a \<Rightarrow> bool" where
  "honest x = (\<forall>e. x = Inl e \<longrightarrow> \<not> is_fenced e)"

definition honest_deps :: "deps \<Rightarrow> bool" where
  "honest_deps d =
     ((\<forall>p h i dir. registry_Get (d_registry d) p = Some h \<longrightarrow> honest (h_prepare h i) \<and> honest (h_download h i dir))
      \<and> (\<forall>m. honest (d_transcribe d m)) \<and> (\<forall>ms. honest (d_readtext d ms))
      \<and> (\<forall>t c. honest (d_extract d t c)) \<and> (\<forall>x t. honest (d_categorize d x t))
      \<and> (\<forall>g q. d_geocoder d = Some g \<longrightarrow> honest (snd (g q)) \<and> (\<forall>e. fst (g q) = Some e \<longrightarrow> \<not> is_fenced e)))"

text \<open>A piece of the handler that keeps the store well formed and the claim seen, and that reports a
  fence only when the claim is lost; a value it returns satisfies \<open>Q\<close>.\<close>

definition steady :: "lease \<Rightarrow> ('a \<Rightarrow> bool) \<Rightarrow> 'a prog \<Rightarrow> bool" where
  "steady l Q p = (\<forall>w r w'. wf w \<longrightarrow> seen l w \<longrightarrow> p w = (r, w') \<longrightarrow>
     wf w' \<and> seen l w' \<and> (\<forall>e. r = Inl e \<longrightarrow> is_fenced e \<longrightarrow> lost l w') \<and> (\<forall>a. r = Inr a \<longrightarrow> Q a))"

named_theorems steady_intros \<open>pieces of the handler are steady\<close>

lemma honest_simps [simp]: "honest (Inr a)" "honest (Inl e) = (\<not> is_fenced e)"
  by (simp_all add: honest_def)

lemma honest_bind: "honest x \<Longrightarrow> (\<And>a. x = Inr a \<Longrightarrow> honest (f a)) \<Longrightarrow> honest (bind_r x f)"
  by (cases x) auto

lemma steady_return [steady_intros]: "Q a \<Longrightarrow> steady l Q (return_w a)"
  by (simp add: steady_def)

lemma steady_fail [steady_intros]: "\<not> is_fenced e \<Longrightarrow> steady l Q (fail_w e)"
  by (simp add: steady_def)

lemma steady_lift [steady_intros]: "honest x \<Longrightarrow> (\<And>a. x = Inr a \<Longrightarrow> Q a) \<Longrightarrow> steady l Q (lift_w x)"
  by (auto simp: steady_def honest_def)

lemma steady_post [steady_intros]: "(\<And>w. runs (f w) = runs w) \<Longrightarrow> Q () \<Longrightarrow> steady l Q (post_w f)"
proof -
  assume f: "\<And>w. runs (f w) = runs w"
  then have "wf (f w) = wf w" "seen l (f w) = seen l w" for w
    using wf_runs_eq [OF f] by (simp_all add: seen_def lease_view_def f)
  moreover assume "Q ()"
  ultimately show ?thesis by (simp add: steady_def)
qed

lemma steady_bind:
  assumes "steady l P p" and "\<And>a. P a \<Longrightarrow> steady l Q (f a)"
  shows "steady l Q (bind_w p f)"
  unfolding steady_def
proof (intro allI impI)
  fix w r w' assume w: "wf w" "seen l w" and b: "bind_w p f w = (r, w')"
  from b show "wf w' \<and> seen l w' \<and> (\<forall>e. r = Inl e \<longrightarrow> is_fenced e \<longrightarrow> lost l w') \<and> (\<forall>a. r = Inr a \<longrightarrow> Q a)"
  proof (cases rule: bind_w_cases)
    case (error e)
    then show ?thesis using assms(1) w unfolding steady_def by blast
  next
    case (ok a w1)
    then have "wf w1" "seen l w1" "P a" using assms(1) w unfolding steady_def by blast+
    then show ?thesis using assms(2) ok(2) unfolding steady_def by blast
  qed
qed

lemmas steady_then [steady_intros] = steady_bind [where P = "\<lambda>_. True"]

lemma env_step:
  "good_env env \<Longrightarrow> wf w \<Longrightarrow> wf (e_at env p w) \<and> lease_frame w (e_at env p w)"
  by (simp add: good_env_def)

lemma steady_query [steady_intros]:
  assumes "good_env env" and "\<And>w. honest (f w)" and "\<And>w a. f w = Inr a \<Longrightarrow> Q a"
  shows "steady l Q (query env p f)"
  unfolding steady_def
proof (intro allI impI)
  fix w r w' assume w: "wf w" "seen l w" and q: "query env p f w = (r, w')"
  then have w': "w' = e_at env p w" using query_world [of env p f w] by simp
  have "\<not> is_fenced e" if "r = Inl e" for e
    using q that assms(1,2) unfolding query_def good_env_def honest_def Let_def
    by (auto split: txn_fault.splits)
  moreover have "Q a" if "r = Inr a" for a
    using q that assms(3) unfolding query_def Let_def by (auto split: txn_fault.splits)
  ultimately show "wf w' \<and> seen l w' \<and> (\<forall>e. r = Inl e \<longrightarrow> is_fenced e \<longrightarrow> lost l w') \<and> (\<forall>a. r = Inr a \<longrightarrow> Q a)"
    using env_step [OF assms(1) w(1)] seen_frame w(2) w' by blast
qed

lemma txn_error:
  "txn env p body w = (Inl e, w') \<Longrightarrow>
   e_fault env p = TxnFails e \<or> e_fault env p = CommitLost e
   \<or> (\<exists>x. e = Store x \<and> body (e_db env p) (e_at env p w) = Inl x \<and> w' = e_at env p w)"
  by (auto simp: txn_def Let_def split: txn_fault.splits sum.splits prod.splits)

text \<open>A guarded transaction whose body respects the lease and never reports a fence itself.\<close>

lemma steady_guarded [steady_intros]:
  assumes "good_env env"
    and "\<And>now w w' a. body now w = Inr (w', a) \<Longrightarrow> wf w \<Longrightarrow> holds l w \<Longrightarrow> wf w' \<and> lease_frame w w'"
    and "\<And>now w. body now w \<noteq> Inl ErrFenced"
    and "\<And>now w w' a. body now w = Inr (w', a) \<Longrightarrow> Q a"
  shows "steady l Q (txn env p (\<lambda>now. GuardedExec now l (body now)))"
  unfolding steady_def
proof (intro allI impI)
  fix w r w' assume w: "wf w" "seen l w" and t: "txn env p (\<lambda>now. GuardedExec now l (body now)) w = (r, w')"
  let ?v = "e_at env p w"
  have v: "wf ?v" "seen l ?v" using env_step [OF assms(1) w(1), of p] seen_frame w(2) by blast+
  from t have k: "wf w' \<and> seen l w'"
  proof (cases rule: txn_cases)
    case (committed a)
    let ?t = "touch_claim (e_db env p) l ?v"
    have b: "body (e_db env p) ?t = Inr (w', a)" and "holds l ?v"
      using guarded_cases [OF committed(1)] v(1) by (auto simp: wf_def)
    then have "holds l ?t" by (simp add: holds_def lease_view_touch)
    then have "wf w' \<and> lease_frame ?t w'"
      using assms(2) [OF b] v(1) by (simp add: touch_claim_wf)
    then show ?thesis using v(2) touch_claim_frame seen_frame by blast
  qed (use v in auto)
  moreover have "lost l w'" if r: "r = Inl e" "is_fenced e" for e
  proof -
    obtain x where x: "e = Store x" "GuardedExec (e_db env p) l (body (e_db env p)) ?v = Inl x" "w' = ?v"
      using txn_error [OF t [unfolded r(1)]] assms(1) r(2) by (auto simp: good_env_def)
    with r(2) assms(3) have "matching (is_claim l) (runs ?v) = 0"
      by (auto simp: GuardedExec_def split: if_splits)
    then have "\<not> holds l ?v" using matching_claim [of ?v l] v(1) by (simp add: wf_def)
    with v(2) x(3) show ?thesis by (simp add: lost_def)
  qed
  moreover have "Q a" if "r = Inr a" for a
    using t [unfolded that] assms(4)
    by (cases rule: txn_cases) (auto dest: guarded_cases(1))
  ultimately show "wf w' \<and> seen l w' \<and> (\<forall>e. r = Inl e \<longrightarrow> is_fenced e \<longrightarrow> lost l w') \<and> (\<forall>a. r = Inr a \<longrightarrow> Q a)"
    by blast
qed

lemma commit_body_steady:
  assumes "commit_body d st stage hash out pr now w = Inr (w', users)" and "wf w"
  shows "wf w' \<and> lease_frame w w'"
proof -
  note r = commit_body_runs [OF assms(1)]
  have "lease_frame w w'"
    by (rule lease_frame_update [OF r]) (auto simp: view_le_def)
  moreover have "wf w'"
    using assms(2) unfolding wf_def run_keys_def owned_processing_def r
    by (auto simp: set_update_where)
  ultimately show ?thesis by blast
qed

lemma steady_commitStage [steady_intros]:
  "good_env env \<Longrightarrow> r_lease st = l \<Longrightarrow> steady l (\<lambda>_. True) (commitStage d env st stage hash out pr)"
  unfolding commitStage_def
  by (auto intro!: steady_intros dest: commit_body_steady
      simp: commit_body_def saveCheckpoint_def bind_r_def Let_def split: option.splits if_splits sum.splits)

text \<open>Every stage keeps what identifies the run.\<close>

definition same_run :: "run_st \<Rightarrow> run_st \<Rightarrow> bool" where
  "same_run st st1 =
     (r_id st1 = r_id st \<and> r_content st1 = r_content st \<and> r_created st1 = r_created st
      \<and> r_identity st1 = r_identity st \<and> r_lease st1 = r_lease st \<and> r_workdir st1 = r_workdir st)"

lemma same_run_refl [simp]: "same_run st st"
  by (simp add: same_run_def)

lemma same_run_trans: "same_run a b \<Longrightarrow> same_run b c \<Longrightarrow> same_run a c"
  by (simp add: same_run_def)

lemma honest_handler: "honest_deps d \<Longrightarrow> handler_for d st = Inr h \<Longrightarrow>
    honest (h_prepare h i) \<and> honest (h_download h i dir)"
  by (auto simp: honest_deps_def handler_for_def split: option.splits)

lemma honest_handler_for: "honest (handler_for d st)"
  by (auto simp: handler_for_def errUnsupportedPlatform_def err_of_def fail_with_def is_fenced_def split: option.splits)

lemma honest_transcript: "honest_deps d \<Longrightarrow> honest (transcript_of d ms)"
  unfolding transcript_of_def Let_def honest_deps_def
  by (intro honest_bind) (auto split: option.splits)

lemma steady_checkpoint [steady_intros]: "good_env env \<Longrightarrow> steady l (\<lambda>_. True) (checkpoint d env st stage hash)"
  unfolding checkpoint_def by (auto intro!: steady_intros)

lemma steady_prepare:
  "good_env env \<Longrightarrow> honest_deps d \<Longrightarrow> r_lease st = l \<Longrightarrow> steady l (same_run st) (stage_prepare d env st)"
  unfolding stage_prepare_def Let_def
  by (auto intro!: steady_intros honest_bind honest_handler_for simp: honest_handler same_run_def
      split: option.splits stage_output.splits)

lemma steady_download:
  "good_env env \<Longrightarrow> honest_deps d \<Longrightarrow> r_lease st = l \<Longrightarrow> steady l (same_run st) (stage_download d env st)"
  unfolding stage_download_def Let_def
  by (auto intro!: steady_intros honest_bind honest_handler_for simp: honest_handler same_run_def
      split: option.splits stage_output.splits)

lemma steady_transcribe:
  "good_env env \<Longrightarrow> honest_deps d \<Longrightarrow> r_lease st = l \<Longrightarrow> steady l (same_run st) (stage_transcribe d env st)"
  unfolding stage_transcribe_def Let_def
  by (auto intro!: steady_intros honest_transcript simp: same_run_def
      split: option.splits stage_output.splits)

lemma steady_extract:
  "good_env env \<Longrightarrow> honest_deps d \<Longrightarrow> r_lease st = l \<Longrightarrow> steady l (same_run st) (stage_extract d env st)"
  unfolding stage_extract_def Let_def
  by (auto intro!: steady_intros simp: same_run_def honest_deps_def is_fenced_def
      split: option.splits stage_output.splits)

lemma steady_unguarded [steady_intros]:
  assumes "good_env env" and "\<And>now w w' a. body now w = Inr (w', a) \<Longrightarrow> runs w' = runs w \<and> Q a"
    and "\<And>now w. body now w \<noteq> Inl ErrFenced"
  shows "steady l Q (txn env p body)"
  unfolding steady_def
proof (intro allI impI)
  fix w r w' assume w: "wf w" "seen l w" and t: "txn env p body w = (r, w')"
  let ?v = "e_at env p w"
  have v: "wf ?v" "seen l ?v" using env_step [OF assms(1) w(1), of p] seen_frame w(2) by blast+
  have "wf w' \<and> seen l w' \<and> (\<forall>a. r = Inr a \<longrightarrow> Q a)"
    using t
  proof (cases rule: txn_cases)
    case (committed a)
    then have "runs w' = runs ?v" "Q a" using assms(2) by blast+
    then show ?thesis using v committed(2) wf_runs_eq [of w' ?v] by (auto simp: seen_def lease_view_def)
  qed (use v in auto)
  moreover have "\<not> is_fenced e" if "r = Inl e" for e
    using txn_error [OF t [unfolded that]] assms(1,3) by (auto simp: good_env_def)
  ultimately show "wf w' \<and> seen l w' \<and> (\<forall>e. r = Inl e \<longrightarrow> is_fenced e \<longrightarrow> lost l w') \<and> (\<forall>a. r = Inr a \<longrightarrow> Q a)"
    by blast
qed

lemma honest_place_it: "honest (place_it r x)"
  by (auto simp: place_it_def is_fenced_def split: option.splits sum.splits)

lemma honest_ask:
  assumes "honest (snd (g q))" and "\<forall>e. fst (g q) = Some e \<longrightarrow> \<not> is_fenced e"
  shows "honest (ask_geocoder g q)"
  using assms by (cases "g q") (auto simp: ask_geocoder_def is_fenced_def split: option.splits sum.splits)

lemma steady_geocode_all:
  assumes "good_env env" and "\<And>q. honest (snd (g q)) \<and> (\<forall>e. fst (g q) = Some e \<longrightarrow> \<not> is_fenced e)"
  shows "steady l (\<lambda>_. True) (geocode_all d env g i ls)"
proof (induction ls arbitrary: i)
  case Nil
  show ?case by (simp add: steady_def)
next
  case (Cons x xs)
  have "steady l (\<lambda>_. True) (geocode_one d env g i x)"
    unfolding geocode_one_def Let_def
    by (auto intro!: steady_intros honest_place_it honest_ask
        simp: assms upsert_lookup_def split: option.splits)
  then show ?case by (auto intro!: steady_then Cons steady_intros)
qed

lemma steady_geocode:
  assumes "good_env env" and "honest_deps d"
  shows "steady l (\<lambda>st1. same_run st st1 \<and> r_prepared st1 = r_prepared st) (geocode d env st)"
proof (cases "d_geocoder d")
  case None
  then show ?thesis by (auto simp: geocode_def intro!: steady_intros)
next
  case (Some g)
  then have "\<And>q. honest (snd (g q)) \<and> (\<forall>e. fst (g q) = Some e \<longrightarrow> \<not> is_fenced e)"
    using assms(2) by (auto simp: honest_deps_def)
  from steady_geocode_all [OF assms(1) this] show ?thesis using Some
    by (auto simp: geocode_def same_run_def intro!: steady_then steady_return)
qed

lemma steady_categorize:
  assumes "good_env env" and "honest_deps d" and "r_lease st = l"
  shows "steady l (same_run st) (stage_categorize d env st)"
  unfolding stage_categorize_def
proof (rule steady_bind [OF steady_geocode [OF assms(1,2), of l st]])
  fix st1 assume st1: "same_run st st1 \<and> r_prepared st1 = r_prepared st"
  then have l: "r_lease st1 = l" using assms(3) by (simp add: same_run_def)
  have h: "honest (d_categorize d x t)" for x t using assms(2) by (simp add: honest_deps_def)
  show "steady l (same_run st)
    (bind_w (query env AtTaxonomy (\<lambda>w. Inr (loadTaxonomy w))) (\<lambda>tax.
       let st2 = st1\<lparr>r_taxonomy := tax\<rparr>;
           hash = InputHash (d_sha d) [x_title (r_extraction st2), x_summary (r_extraction st2), PromptVersion, taxonomyHash d tax]
       in bind_w (checkpoint d env st2 stageCategorize hash) (\<lambda>c.
            case c of
              Some (OutCategory x) \<Rightarrow> return_w (st2\<lparr>r_category := x\<rparr>)
            | _ \<Rightarrow>
                bind_w (lift_w (d_categorize d (r_extraction st2) tax)) (\<lambda>x.
                bind_w (commitStage d env st2 stageCategorize hash (OutCategory x) 90) (\<lambda>_.
                return_w (st2\<lparr>r_category := x\<rparr>))))))"
    using st1 l assms(1)
    by (auto intro!: steady_intros h simp: Let_def same_run_def split: option.splits stage_output.splits)
qed

lemma steady_runStage:
  "good_env env \<Longrightarrow> honest_deps d \<Longrightarrow> r_lease st = l \<Longrightarrow> steady l (same_run st) (runStage d env stage st)"
  by (auto simp: runStage_def is_fenced_def intro!: steady_prepare steady_download steady_transcribe steady_extract
      steady_categorize steady_fail)

subsection \<open>Every way out gives the run up\<close>

text \<open>A piece that ends without the claim, whatever it returns.\<close>

definition lets_go :: "lease \<Rightarrow> 'a prog \<Rightarrow> bool" where
  "lets_go l p = (\<forall>w. wf w \<longrightarrow> seen l w \<longrightarrow> wf (snd (p w)) \<and> lost l (snd (p w)))"

lemma lets_go_applyFailure:
  assumes "good_env env" and "e_fault env AtFailure = TxnWorks"
  shows "lets_go l (applyFailure d env l stage f :: 'a prog)"
  unfolding lets_go_def
proof (intro allI impI)
  fix w assume w: "wf w" "seen l w"
  let ?v = "e_at env AtFailure w" and ?now = "e_db env AtFailure"
  let ?body = "failure_body d (e_now env AtFailure) l stage f ?now"
  have v: "wf ?v" "seen l ?v" using env_step [OF assms(1) w(1), of AtFailure] seen_frame w(2) by blast+
  show "wf (snd ((applyFailure d env l stage f :: 'a prog) w)) \<and> lost l (snd ((applyFailure d env l stage f :: 'a prog) w))"
  proof (cases "GuardedExec ?now l ?body ?v")
    case (Inl e)
    have "\<not> holds l ?v"
    proof
      assume "holds l ?v"
      then have "?body (touch_claim ?now l ?v) = Inl e"
        using Inl GuardedExec_body [of ?v l ?now ?body] v(1) by (simp add: wf_def)
      then show False by (auto simp: failure_body_def Let_def split: prod.splits if_splits option.splits)
    qed
    then show ?thesis using Inl v
      by (simp add: applyFailure_def bind_w_def txn_works [OF assms(2)] lost_def)
  next
    case (Inr b)
    obtain w1 users terminal f1 where b: "b = (w1, users, terminal, f1)" by (cases b) auto
    obtain g where g: "drops (l_run l) g (touch_claim ?now l ?v) w1"
      using failure_body_drops guarded_cases(1) [OF Inr [unfolded b]] by blast
    have t: "wf (touch_claim ?now l ?v)" "seen l (touch_claim ?now l ?v)"
      using v by (simp_all add: touch_claim_wf)
    have w1: "wf w1" "lost l w1" using drops_wf [OF g t(1)] drops_lost [OF g t(2)] by auto
    have "runs (snd ((applyFailure d env l stage f :: 'a prog) w)) = runs w1"
      using Inr by (simp add: b applyFailure_def bind_w_def txn_works [OF assms(2)])
    then have "wf (snd ((applyFailure d env l stage f :: 'a prog) w)) = wf w1"
        "lost l (snd ((applyFailure d env l stage f :: 'a prog) w)) = lost l w1"
      by (rule wf_runs_eq, rule lost_runs_eq)
    then show ?thesis using w1 by blast
  qed
qed

lemma lets_go_catch:
  assumes "steady l P p" and "\<And>e. \<not> is_fenced e \<Longrightarrow> lets_go l (h e)"
    and "\<And>e w. is_fenced e \<Longrightarrow> snd (h e w) = w" and "\<And>a. P a \<Longrightarrow> lets_go l (f a)"
  shows "lets_go l (catch_w p h f)"
  unfolding lets_go_def
proof (intro allI impI)
  fix w assume w: "wf w" "seen l w"
  obtain r w1 where r: "p w = (r, w1)" by force
  then have 1: "wf w1 \<and> seen l w1 \<and> (\<forall>e. r = Inl e \<longrightarrow> is_fenced e \<longrightarrow> lost l w1) \<and> (\<forall>a. r = Inr a \<longrightarrow> P a)"
    using assms(1) w unfolding steady_def by blast
  show "wf (snd (catch_w p h f w)) \<and> lost l (snd (catch_w p h f w))"
  proof (cases r)
    case (Inl e)
    show ?thesis
    proof (cases "is_fenced e")
      case True
      then show ?thesis using 1 Inl r assms(3) by (simp add: catch_w_def)
    next
      case False
      then show ?thesis using 1 Inl r assms(2) by (simp add: catch_w_def lets_go_def)
    qed
  next
    case (Inr a)
    then show ?thesis using 1 r assms(4) by (simp add: catch_w_def lets_go_def)
  qed
qed

lemma lets_go_stage_error:
  assumes "good_env env" and "e_fault env AtFailure = TxnWorks"
  shows "\<not> is_fenced e \<Longrightarrow> lets_go l (stage_error d env l stage e)"
    and "is_fenced e \<Longrightarrow> snd (stage_error d env l stage e w) = w"
  using lets_go_applyFailure [OF assms] by (simp_all add: stage_error_def)

text \<open>Where the loop over the stages ends: with all stages done the claim may still be held, every other
  way out lets it go.\<close>

lemma steady_imp_lost_bind:
  assumes "\<And>w r w1. wf w \<Longrightarrow> seen l w \<Longrightarrow> p w = (r, w1) \<Longrightarrow>
      wf w1 \<and> seen l w1 \<and> (\<forall>e. r = Inl e \<longrightarrow> lost l w1) \<and> (\<forall>a. r = Inr a \<longrightarrow> P a)"
    and "\<And>a. P a \<Longrightarrow> lets_go l (f a)"
  shows "lets_go l (bind_w p f)"
  unfolding lets_go_def
proof (intro allI impI)
  fix w assume w: "wf w" "seen l w"
  obtain r w1 where r: "p w = (r, w1)" by force
  with assms(1) [OF w] have "wf w1 \<and> seen l w1 \<and> (\<forall>e. r = Inl e \<longrightarrow> lost l w1) \<and> (\<forall>a. r = Inr a \<longrightarrow> P a)"
    by blast
  then show "wf (snd (bind_w p f w)) \<and> lost l (snd (bind_w p f w))"
    using r assms(2) by (cases r) (auto simp: bind_w_def lets_go_def)
qed

lemma lets_go_loses: "lets_go l p \<Longrightarrow> wf w \<Longrightarrow> seen l w \<Longrightarrow> p w = (r, w1) \<Longrightarrow> wf w1 \<and> lost l w1"
  unfolding lets_go_def by (metis snd_conv)

lemma lost_seen: "lost l w \<Longrightarrow> seen l w"
  by (simp add: lost_def)

lemma applyFailure_fails: "fst ((applyFailure d env l stage f :: 'a prog) w) \<noteq> Inr a"
  by (auto simp: applyFailure_def bind_w_def split: prod.splits sum.splits)

lemma stage_error_fails: "fst ((stage_error d env l stage e :: 'a prog) w) \<noteq> Inr a"
  by (simp add: stage_error_def applyFailure_fails)

lemma stage_error_ne [simp]: "stage_error d env l stage e w \<noteq> (Inr a, w1)"
  by (metis fst_conv stage_error_fails)

lemma lets_go_escalate:
  assumes "good_env env" and "e_fault env AtFailure = TxnWorks" and "r_lease st = l" and "r_id st = l_run l"
  shows "lets_go l (catch_w (escalate d env l st) (stage_error d env l stage) (\<lambda>_. fail_w Escalated :: 'a prog))"
  unfolding lets_go_def
proof (intro allI impI)
  fix w assume w: "wf w" "seen l w"
  let ?p = "escalate d env l st"
  obtain r w1 where r: "?p w = (r, w1)" by force
  have st: "steady l (\<lambda>_. True) ?p" unfolding escalate_def
  proof (rule steady_then [OF steady_guarded])
    fix now w w' a assume b: "escalate_body d st l now w = Inr (w', a)" "wf w"
    then show "wf w' \<and> lease_frame w w'" using escalate_body_drops [OF b(1)] drops_wf drops_frame by blast
  qed (use assms(1) in \<open>auto simp: escalate_body_def Let_def intro!: steady_intros\<close>)
  then have 1: "wf w1" "seen l w1" "\<And>e. r = Inl e \<Longrightarrow> is_fenced e \<Longrightarrow> lost l w1"
    using w r unfolding steady_def by blast+
  show "wf (snd (catch_w ?p (stage_error d env l stage) (\<lambda>_. fail_w Escalated :: 'a prog) w))
      \<and> lost l (snd (catch_w ?p (stage_error d env l stage) (\<lambda>_. fail_w Escalated :: 'a prog) w))"
  proof (cases r)
    case (Inl e)
    show ?thesis
    proof (cases "is_fenced e")
      case True
      have "snd ((stage_error d env l stage e :: 'a prog) w1) = w1"
        by (rule lets_go_stage_error(2) [OF assms(1,2) True])
      then show ?thesis using r 1 Inl True by (simp add: catch_w_def)
    next
      case False
      have "lets_go l (stage_error d env l stage e :: 'a prog)"
        by (rule lets_go_stage_error(1) [OF assms(1,2) False])
      then show ?thesis using r 1 Inl by (simp add: catch_w_def lets_go_def)
    qed
  next
    case (Inr a)
    from r [unfolded Inr escalate_def] obtain w2 where
      t: "txn env AtEscalate (\<lambda>now. GuardedExec now l (escalate_body d st l now)) w = (Inr (), w2)" "w1 = Notify w2"
      by (auto elim!: bind_w_cases)
    let ?v = "e_at env AtEscalate w" and ?now = "e_db env AtEscalate"
    have v: "wf ?v" "seen l ?v" using env_step [OF assms(1) w(1)] seen_frame w(2) by blast+
    have g: "GuardedExec ?now l (escalate_body d st l ?now) ?v = Inr (w2, ())"
      using t(1) by (cases rule: txn_cases) auto
    obtain f where "drops (l_run l) f (touch_claim ?now l ?v) w2"
      using escalate_body_drops guarded_cases(1) [OF g] assms(4) by metis
    moreover have "seen l (touch_claim ?now l ?v)" using v(2) touch_claim_frame seen_frame by blast
    ultimately have "lost l w2" by (rule drops_lost)
    then have "lost l w1" by (simp add: t(2) lost_def seen_def holds_def lease_view_def)
    then show ?thesis using r 1 Inr by (simp add: catch_w_def)
  qed
qed

lemma run_stages_ends:
  assumes "good_env env" and "honest_deps d" and "e_fault env AtFailure = TxnWorks"
  shows "r_lease st = l \<Longrightarrow> r_id st = l_run l \<Longrightarrow> wf w \<Longrightarrow> seen l w \<Longrightarrow> run_stages d env m l stages st w = (r, w1) \<Longrightarrow>
    wf w1 \<and> seen l w1 \<and> (\<forall>e. r = Inl e \<longrightarrow> lost l w1) \<and> (\<forall>a. r = Inr a \<longrightarrow> same_run st a)"
proof (induction stages arbitrary: st w)
  case (Cons stage stages)
  note go = lets_go_loses [OF lets_go_applyFailure [OF assms(1,3)]]
  show ?case
  proof (cases "e_now env (AtCheckpoint stage) > r_created st + runLifetime")
    case True
    then have "applyFailure d env l stage errRunExpired w = (r, w1)" using Cons.prems(5) by simp
    then show ?thesis using go Cons.prems(3,4) applyFailure_fails lost_seen by (metis fst_conv)
  next
    case False
    obtain r2 w2 where 2: "runStage d env stage st w = (r2, w2)" by force
    have s: "wf w2" "seen l w2" "\<And>e. r2 = Inl e \<Longrightarrow> is_fenced e \<Longrightarrow> lost l w2" "\<And>a. r2 = Inr a \<Longrightarrow> same_run st a"
      using steady_runStage [OF assms(1,2) Cons.prems(1), of stage] Cons.prems(3,4) 2 unfolding steady_def by blast+
    show ?thesis
    proof (cases r2)
      case (Inl e)
      then have se: "stage_error d env l stage e w2 = (r, w1)" using Cons.prems(5) False 2 by (simp add: catch_w_def)
      have "wf w1 \<and> lost l w1"
      proof (cases "is_fenced e")
        case True
        have "snd ((stage_error d env l stage e :: run_st prog) w2) = w2"
          by (rule lets_go_stage_error(2) [OF assms(1,3) True])
        then show ?thesis using se s(1,3) Inl True by simp
      next
        case False
        then show ?thesis using lets_go_loses [OF lets_go_stage_error(1) [OF assms(1,3) False] s(1,2) se] by blast
      qed
      then show ?thesis using se stage_error_fails lost_seen by (metis fst_conv)
    next
      case (Inr st1)
      then have st1: "same_run st st1" using s(4) by blast
      then have l: "r_lease st1 = l" "r_id st1 = l_run l" using Cons.prems(1,2) by (simp_all add: same_run_def)
      show ?thesis
      proof (cases "stage = stagePrepare \<and> p_media (r_prepared st1) \<and> msg_type m = EventProcessLight")
        case True
        let ?p = "catch_w (escalate d env l st1) (stage_error d env l stage) (\<lambda>_. fail_w Escalated) :: run_st prog"
        have p: "?p w2 = (r, w1)" using Cons.prems(5) False 2 Inr True by (simp add: catch_w_def)
        then have "wf w1 \<and> lost l w1" using lets_go_loses [OF lets_go_escalate [OF assms(1,3) l] s(1,2)] by blast
        moreover have "r \<noteq> Inr a" for a
        proof -
          obtain r3 w3 where "escalate d env l st1 w2 = (r3, w3)" by force
          then have "?p w2 \<noteq> (Inr a, w1)" by (cases r3) (simp_all add: catch_w_def)
          with p show ?thesis by blast
        qed
        ultimately show ?thesis using lost_seen by blast
      next
        case no: False
        then have "run_stages d env m l stages st1 w2 = (r, w1)" using Cons.prems(5) False 2 Inr by (auto simp: catch_w_def)
        from Cons.IH [OF l s(1,2) this] show ?thesis using same_run_trans [OF st1] by blast
      qed
    qed
  qed
qed (auto simp: lost_def)

lemma owned_find:
  "wf w \<Longrightarrow> holds l w \<Longrightarrow> \<exists>r. find (\<lambda>r. run_id r = l_run l) (runs w) = Some r \<and> run_state r = RunProcessing"
proof -
  assume a: "wf w" "holds l w"
  then obtain r where r: "find (\<lambda>r. run_id r = l_run l) (runs w) = Some r" "run_owner r = Some (l_owner l)"
    by (auto simp: holds_def lease_view_def)
  with a(1) find_Some_in [OF r(1)] have "run_state r = RunProcessing"
    unfolding wf_def owned_processing_def by fastforce
  with r(1) show ?thesis by blast
qed

lemma persist_body_guarded:
  assumes "GuardedExec now l (persist_body d st now') v = Inr (w', a)" and "wf v" and "r_id st = l_run l"
  shows "drops (l_run l) (complete_run now') (touch_claim now l v) w'"
proof -
  have h: "holds l v" using guarded_cases(2) [OF assms(1)] assms(2) by (simp add: wf_def)
  have "wf (touch_claim now l v)" "holds l (touch_claim now l v)"
    using assms(2) h by (simp_all add: touch_claim_wf holds_def lease_view_touch)
  from owned_find [OF this] obtain r where
    "find (\<lambda>r. run_id r = r_id st) (runs (touch_claim now l v)) = Some r" "run_state r \<noteq> RunCompleted"
    using assms(3) by auto
  from persist_body_drops [OF guarded_cases(1) [OF assms(1)] this] show ?thesis using assms(3) by simp
qed

lemma persist_body_not_fenced: "persist_body d st now w \<noteq> Inl ErrFenced"
proof -
  have "location_rows v i ls \<noteq> Inl ErrFenced" for v i ls
    by (induction ls arbitrary: i) (auto simp: bind_r_def split: option.splits sum.splits)
  then show ?thesis
    by (auto simp: persist_body_def insertVersion_def bind_r_def Let_def split: option.splits sum.splits prod.splits)
qed

lemma lets_go_persist:
  assumes "good_env env" and "e_fault env AtFailure = TxnWorks" and "r_lease st = l" and "r_id st = l_run l"
  shows "lets_go l (catch_w (persist d env st) (stage_error d env l stagePersist) return_w)"
  unfolding lets_go_def
proof (intro allI impI)
  fix w assume w: "wf w" "seen l w"
  let ?v = "e_at env AtPersist w" and ?now = "e_db env AtPersist"
  have v: "wf ?v" "seen l ?v" using env_step [OF assms(1) w(1)] seen_frame w(2) by blast+
  obtain r w1 where r: "persist d env st w = (r, w1)" by force
  let ?goal = "\<lambda>x. wf x \<and> lost l x"
  show "?goal (snd (catch_w (persist d env st) (stage_error d env l stagePersist) return_w w))"
    using r
  proof (cases rule: persist_cases)
    case (committed w2 users)
    have g: "drops (l_run l) (complete_run ?now) (touch_claim ?now l ?v) w2"
      using persist_body_guarded [OF committed(1) v(1)] assms(3,4) by simp
    have "wf w2" "lost l w2"
      using drops_wf [OF g] drops_lost [OF g] v by (simp_all add: touch_claim_wf)
    moreover have "runs w1 = runs w2" using committed(2) by auto
    ultimately have 1: "wf w1" "lost l w1" using lost_runs_eq wf_runs_eq by blast+
    show ?thesis
    proof (cases r)
      case (Inl e)
      show ?thesis
      proof (cases "is_fenced e")
        case True
        have "snd ((stage_error d env l stagePersist e :: unit prog) w1) = w1"
          by (rule lets_go_stage_error(2) [OF assms(1,2) True])
        then show ?thesis using r 1 Inl by (simp add: catch_w_def)
      next
        case False
        have "lets_go l (stage_error d env l stagePersist e :: unit prog)"
          by (rule lets_go_stage_error(1) [OF assms(1,2) False])
        then show ?thesis using r 1 Inl lost_seen by (simp add: catch_w_def lets_go_def)
      qed
    qed (use r 1 in \<open>simp add: catch_w_def\<close>)
  next
    case (kept e)
    have "lost l w1" if f: "is_fenced e"
    proof -
      have t: "txn env AtPersist (\<lambda>now. GuardedExec now (r_lease st) (persist_body d st now)) w = (Inl e, w1)"
        using r [unfolded persist_def] kept(2) by (auto elim!: bind_w_cases)
      from txn_error [OF t] assms(1) f obtain x where "e = Store x"
        "GuardedExec ?now l (persist_body d st ?now) ?v = Inl x" using assms(3) by (auto simp: good_env_def)
      with f have "matching (is_claim l) (runs ?v) = 0" using persist_body_not_fenced
        by (auto simp: GuardedExec_def split: if_splits)
      then show ?thesis using v kept(1) matching_claim [of ?v l] by (simp add: lost_def wf_def)
    qed
    note 1 = this
    have 2: "wf w1" "seen l w1" using v kept(1) by auto
    show ?thesis
    proof (cases "is_fenced e")
      case True
      have "snd ((stage_error d env l stagePersist e :: unit prog) w1) = w1"
        by (rule lets_go_stage_error(2) [OF assms(1,2) True])
      then show ?thesis using r 1 2 kept(2) True by (simp add: catch_w_def)
    next
      case False
      have "lets_go l (stage_error d env l stagePersist e :: unit prog)"
        by (rule lets_go_stage_error(1) [OF assms(1,2) False])
      then show ?thesis using r 2 kept(2) by (simp add: catch_w_def lets_go_def)
    qed
  qed
qed

lemma load_run_ok: "load_run l w = Inr st \<Longrightarrow> r_lease st = l \<and> r_id st = l_run l"
  by (auto simp: load_run_def split: option.splits)

lemma load_run_honest: "honest (load_run l w)"
  by (auto simp: load_run_def split: option.splits)

lemma lets_go_process:
  assumes "good_env env" and "honest_deps d" and "e_fault env AtFailure = TxnWorks"
  shows "lets_go l (process d env m l)"
proof -
  have fl: "lets_go l (applyFailure d env l stagePrepare f :: unit prog)" for f
    by (rule lets_go_applyFailure [OF assms(1,3)])
  have main: "lets_go l (bind_w (run_stages d env m l all_stages (st\<lparr>r_workdir := dir\<rparr>)) (\<lambda>st1.
     catch_w (persist d env st1) (stage_error d env l stagePersist) return_w))"
    if "r_lease st = l" "r_id st = l_run l" for st dir
  proof (rule steady_imp_lost_bind)
    fix w r w1 assume w: "wf w" "seen l w"
      and r: "run_stages d env m l all_stages (st\<lparr>r_workdir := dir\<rparr>) w = (r, w1)"
    have l: "r_lease (st\<lparr>r_workdir := dir\<rparr>) = l" "r_id (st\<lparr>r_workdir := dir\<rparr>) = l_run l" using that by simp_all
    from run_stages_ends [OF assms l w r] show "wf w1 \<and> seen l w1 \<and> (\<forall>e. r = Inl e \<longrightarrow> lost l w1)
        \<and> (\<forall>a. r = Inr a \<longrightarrow> same_run (st\<lparr>r_workdir := dir\<rparr>) a)" .
  next
    fix a assume "same_run (st\<lparr>r_workdir := dir\<rparr>) a"
    then have "r_lease a = l" "r_id a = l_run l" using that by (simp_all add: same_run_def)
    then show "lets_go l (catch_w (persist d env a) (stage_error d env l stagePersist) return_w)"
      by (rule lets_go_persist [OF assms(1,3)])
  qed
  have q: "wf w1 \<and> seen l w1 \<and> (\<forall>a. r = Inr a \<longrightarrow> r_lease a = l \<and> r_id a = l_run l)"
    if "wf w" "seen l w" "query env AtLoad (load_run l) w = (r, w1)" for w r w1
  proof -
    have "steady l (\<lambda>a. r_lease a = l \<and> r_id a = l_run l) (query env AtLoad (load_run l))"
      by (rule steady_query [OF assms(1) load_run_honest load_run_ok])
    then show ?thesis using that unfolding steady_def by blast
  qed
  show ?thesis
    unfolding lets_go_def
  proof (intro allI impI)
    fix w assume w: "wf w" "seen l w"
    obtain r w1 where r: "query env AtLoad (load_run l) w = (r, w1)" by force
    note 1 = q [OF w r]
    show "wf (snd (process d env m l w)) \<and> lost l (snd (process d env m l w))"
    proof (cases r)
      case (Inl e)
      then show ?thesis using r 1 fl by (simp add: process_def catch_w_def lets_go_def)
    next
      case (Inr st)
      with 1 have st: "r_lease st = l" "r_id st = l_run l" by auto
      show ?thesis using r 1 fl main [OF st]
        by (cases "d_tempdir d") (simp_all add: process_def catch_w_def lets_go_def Inr)
    qed
  qed
qed

text \<open>A worker never walks away holding a run: whatever the other workers do in between, whichever
  stage, driver call or provider fails, and even when a commit's answer is lost, once a handler that
  acquired the run returns (its failure bookkeeping having reached the database), its claim is no longer
  current and never becomes current again, and the delivery is acknowledged.  A delivery is handed back to
  the broker only when the acquisition itself failed, and then nothing was changed.\<close>

theorem handler_gives_the_run_up:
  assumes "wf w" and "good_env env" and "honest_deps d" and "e_fault env AtFailure = TxnWorks"
    and "Handle d env fault now worker m w = ((dec, logged), w')"
  shows "(case Acquire fault now (msg_run m) worker w of
            Inl e \<Rightarrow> w' = w \<and> (dec = (if e = ErrNotAcquired then Done else Retry 1))
          | Inr (held, w1) \<Rightarrow> dec = Done \<and> \<not> holds held w'
              \<and> (\<forall>t mkuuid. (lease_step mkuuid)\<^sup>*\<^sup>* w' t \<longrightarrow> \<not> holds held t))"
proof (cases "Acquire fault now (msg_run m) worker w")
  case (Inl e)
  then show ?thesis using assms(5) by (auto simp: Handle_def split: if_splits)
next
  case (Inr a)
  obtain held w1 where a: "a = (held, w1)" by (cases a) auto
  have k: "run_keys w" using assms(1) by (simp add: wf_def)
  have h: "holds held w1" using Acquire_holds(1) [OF k] Inr a by blast
  have "wf w1"
  proof -
    have "map run_id (runs w1) = map run_id (runs w)" using Acquire_ids Inr a by blast
    moreover have "owned_processing w1" using assms(1) Inr a
      by (auto simp: wf_def owned_processing_def Acquire_def with_fault_Inr set_update_where acquire_row_def
          split: option.splits if_splits)
    ultimately show ?thesis using k by (simp add: wf_def run_keys_def)
  qed
  then have "lost held (snd (process d env m held w1))"
    using lets_go_process [OF assms(2-4), of held m] holds_seen [OF h] by (simp add: lets_go_def)
  moreover have "w' = snd (process d env m held w1)" "dec = Done"
    using assms(5) Inr a by (auto simp: Handle_def split: prod.splits sum.splits)
  ultimately have l: "lost held w'" "dec = Done" by auto
  then obtain g ow where g: "lease_view w' (l_run held) = Some (g, ow)" "l_generation held \<le> g"
    by (auto simp: lost_def seen_def)
  have "\<not> holds held t" if "(lease_step mkuuid)\<^sup>*\<^sup>* w' t" for t mkuuid
    using lease_store.stale_forever [OF that g] l(1) g(1) by (auto simp: holds_def lost_def)
  then have "\<forall>t mkuuid. (lease_step mkuuid)\<^sup>*\<^sup>* w' t \<longrightarrow> \<not> holds held t" by blast
  then show ?thesis using Inr a l by (simp add: lost_def)
qed

end
