(* ===== verification/Retries.thy ===== *)
theory Retries
  imports Pipeline
begin

text \<open>
  What a failed stage commits (\<open>applyFailure\<close>, \<open>retryDelay\<close>, \<open>scheduleRetry\<close>,
  \<open>completeAsFailed\<close> of \<open>internal/pipeline/pipeline.go\<close>), and what the light queue's
  consumer may do (\<open>process\<close>, \<open>escalate\<close>).
\<close>

subsection \<open>Failures\<close>

lemma backoff_bounds: "1 \<le> n \<Longrightarrow> 30 * second \<le> backoff_of n \<and> backoff_of n \<le> 5 * minute"
proof -
  assume "1 \<le> n"
  then have "n = 1 \<or> n = 2 \<or> 2 < n" by linarith
  then show ?thesis by (auto simp: backoff_of_def retryBackoffs_def)
qed

lemma retryDelay_bounds:
  assumes "retryDelay d now i n f w = Some delay"
  shows "backoff_of n \<le> delay
    \<and> (\<forall>s after. as_provider (f_err f) = Some (s, after) \<longrightarrow> after \<le> delay)
    \<and> (\<exists>r. find (\<lambda>r. run_id r = i) (runs w) = Some r \<and> now + delay \<le> run_created r + runLifetime)"
  using assms by (auto simp: retryDelay_def Let_def split: option.splits sum.splits if_splits)

lemma retryDelay_created:
  "map_option run_created (find (\<lambda>r. run_id r = i) (runs w')) = map_option run_created (find (\<lambda>r. run_id r = i) (runs w)) \<Longrightarrow>
   retryDelay d now i n f w' = retryDelay d now i n f w"
  by (cases "find (\<lambda>r. run_id r = i) (runs w')"; cases "find (\<lambda>r. run_id r = i) (runs w)")
    (simp_all add: retryDelay_def Let_def)

lemma failure_body_ok: "\<exists>b. failure_body d appnow held stage f now w = Inr b"
proof (cases "failure_body d appnow held stage f now w")
  case (Inl e)
  then show ?thesis by (auto simp: failure_body_def Let_def split: prod.splits if_splits option.splits)
qed blast

lemma insert_fresh_event: "ev_id e \<notin> event_ids w \<Longrightarrow> events (insert_event e w) = events w @ [e]"
  by (auto simp: insert_event_def event_ids_def)

lemma touch_claim_stages [simp]: "attempts_of i s (touch_claim now l w) = attempts_of i s w"
  by (simp add: attempts_of_def)

lemma find_key_update:
  "find (\<lambda>r. run_id r = i) rs = Some x \<Longrightarrow> (\<And>r. run_id (f r) = run_id r) \<Longrightarrow>
   find (\<lambda>r. run_id r = i) (update_where (\<lambda>r. run_id r = i) f rs) = Some (f x)"
  by (induction rs) auto

text \<open>C9: A failure decides the run's future in the transaction that counts it.  The stage's count grows
  by one.  A third failure, a terminal one, and one whose retry would land past the thirty minutes of the run
  end the run and every open job with the same public code, and write no event.  Any other puts the run to
  sleep unowned and untouched otherwise, and its wake-up, for the same generation, is in the outbox no
  earlier than the backoff (30 seconds, then 5 minutes) and the provider's own push-back, and no later than
  the run's deadline.\<close>

theorem failure_decides_the_future:
  fixes env w stage held
  defines "v \<equiv> e_at env AtFailure w" and "now \<equiv> e_db env AtFailure" and "i \<equiv> l_run held"
  defines "n \<equiv> attempts_of i stage v + 1"
  assumes "applyFailure d env held stage f w = (res :: goerr + unit, w')"
    and "run_keys v" and "holds held v" and "e_fault env AtFailure = TxnWorks"
    and "find (\<lambda>r. run_id r = i) (runs v) = Some row" and "retry_id d i stage n \<notin> event_ids v"
  shows "attempts_of i stage w' = n
    \<and> (\<exists>row'. find (\<lambda>r. run_id r = i) (runs w') = Some row' \<and> run_owner row' = None
        \<and> run_generation row' = run_generation row
        \<and> (case (if Retryable f \<and> n < 3 then retryDelay d (e_now env AtFailure) i n f v else None) of
             Some delay \<Rightarrow> res = Inl (err_of f) \<and> run_state row' = RunRetryScheduled \<and> jobs w' = jobs v
               \<and> backoff_of n \<le> delay \<and> e_now env AtFailure + delay \<le> run_created row + 30 * minute
               \<and> (\<exists>e. events w' = events v @ [e] \<and> ev_type e = ''run.resume'' \<and> ev_published e = None
                    \<and> ev_payload e = Some (i, l_generation held) \<and> ev_available e = now + delay)
           | None \<Rightarrow> (\<exists>f1. (f1 = f \<or> f1 = errRunExpired) \<and> res = Inl (err_of f1)
               \<and> run_state row' = RunFailed \<and> run_failure_code row' = Some (f_code f1)
               \<and> jobs w' = update_where (active_job_of i) (fail_job now f1) (jobs v)
               \<and> filter (active_job_of i) (jobs w') = [] \<and> events w' = events v)))"
proof -
  let ?t = "touch_claim now held v"
  let ?body = "failure_body d (e_now env AtFailure) held stage f now"
  have body: "GuardedExec now held ?body v = ?body ?t" using assms(6,7) by (rule GuardedExec_body)
  obtain b where b: "?body ?t = Inr b" using failure_body_ok by blast
  obtain w1 users terminal f1 where w1: "b = (w1, users, terminal, f1)" by (cases b) auto
  have res: "res = Inl (err_of f1)" and tabs: "runs w' = runs w1" "jobs w' = jobs w1" "events w' = events w1"
      "stage_results w' = stage_results w1"
    using assms(5) body b w1
    by (auto simp: applyFailure_def bind_w_def txn_works [OF assms(8)] v_def [symmetric] now_def [symmetric])
  have row: "find (\<lambda>r. run_id r = i) (runs ?t) = Some (if is_claim held row then row\<lparr>run_updated := now\<rparr> else row)"
    using assms(9) by (simp add: find_touch_claim)
  from b [unfolded w1] show ?thesis
  proof (cases rule: failure_body_cases)
    case (failed m w2)
    note r = recordStageFailure_attempts [OF failed(1)] recordStageFailure_tables [OF failed(1)]
    have m: "m = n" using r by (simp add: n_def i_def)
    have rd: "retryDelay d a i n f w2 = retryDelay d a i n f v" for a
      by (rule retryDelay_created) (use r row assms(9) in simp)
    have none: "(if Retryable f \<and> n < 3 then retryDelay d (e_now env AtFailure) i n f v else None) = None"
      using failed(4) m rd by (auto simp: maxStageExecutions_def i_def)
    have "find (\<lambda>r. run_id r = i) (runs w1) =
        Some (fail_row now f1 (if is_claim held row then row\<lparr>run_updated := now\<rparr> else row))"
      unfolding failed(2) completeAsFailed_def using r row
      by (simp add: i_def [symmetric] find_key_update fail_row_def)
    moreover have "attempts_of i stage w' = n"
      using r m tabs failed(2) by (simp add: attempts_of_def completeAsFailed_def i_def)
    moreover have "jobs w1 = update_where (active_job_of i) (fail_job now f1) (jobs v)" "events w1 = events v"
      using r by (simp_all add: failed(2) completeAsFailed_def i_def)
    moreover have "filter (active_job_of i) (update_where (active_job_of i) (fail_job now f1) js) = []" for js
      by (induction js) (auto simp: active_job_of_def fail_job_def active_status_def)
    ultimately show ?thesis using res failed(4) tabs unfolding none
      by (auto simp: fail_row_def)
  next
    case (retry m w2 delay)
    note r = recordStageFailure_attempts [OF retry(1)] recordStageFailure_tables [OF retry(1)]
    have m: "m = n" using r by (simp add: n_def i_def)
    have rd: "retryDelay d a i n f w2 = retryDelay d a i n f v" for a
      by (rule retryDelay_created) (use r row assms(9) in simp)
    have some: "(if Retryable f \<and> n < 3 then retryDelay d (e_now env AtFailure) i n f v else None) = Some delay"
      using retry(5-7) m rd by (simp add: maxStageExecutions_def i_def)
    let ?w3 = "w2\<lparr>runs := update_where (\<lambda>r. run_id r = l_run held) (wait_row now) (runs w2)\<rparr>"
    let ?e = "plain_event (retry_id d (l_run held) stage m) ''run.resume''
                         (routing_key_of QueueLight (l_run held) ?w3) (l_run held) (l_generation held)
                         now (now + delay)"
    have w1: "w1 = insert_event ?e ?w3" by (simp add: retry(2) scheduleRetry_def Let_def)
    have "find (\<lambda>r. run_id r = i) (runs w1) =
        Some (wait_row now (if is_claim held row then row\<lparr>run_updated := now\<rparr> else row))"
      unfolding w1 using r row
      by (simp add: i_def [symmetric] find_key_update wait_row_def)
    moreover have "attempts_of i stage w' = n"
      using r m tabs by (simp add: w1 attempts_of_def i_def)
    moreover have "events w1 = events v @ [?e]"
      unfolding w1 using assms(10) m r by (subst insert_fresh_event) (simp_all add: plain_event_def i_def event_ids_def)
    moreover have "jobs w1 = jobs v" using r by (simp add: w1)
    moreover have "backoff_of n \<le> delay" "e_now env AtFailure + delay \<le> run_created row + 30 * minute"
      using retryDelay_bounds [of d "e_now env AtFailure" i n f v delay] some assms(9)
      by (auto simp: runLifetime_def split: if_splits)
    ultimately show ?thesis using res retry(4) tabs unfolding some
      by (auto simp: wait_row_def plain_event_def i_def)
  qed
qed

subsection \<open>The light queue downloads nothing\<close>

text \<open>The same registry with every download replaced.\<close>

definition with_downloads ::
  "(handler \<Rightarrow> source_identity \<Rightarrow> string \<Rightarrow> goerr + media list) \<Rightarrow> registry \<Rightarrow> registry" where
  "with_downloads g r =
     \<lparr>reg_handlers = (\<lambda>p. map_option (\<lambda>h. h\<lparr>h_download := g h\<rparr>) (reg_handlers r p)),
      reg_fallback = map_option (\<lambda>h. h\<lparr>h_download := g h\<rparr>) (reg_fallback r)\<rparr>"

definition replaced :: "(handler \<Rightarrow> source_identity \<Rightarrow> string \<Rightarrow> goerr + media list) \<Rightarrow> deps \<Rightarrow> deps" where
  "replaced g d = d\<lparr>d_registry := with_downloads g (d_registry d)\<rparr>"

lemma replaced_fields [simp]:
  "d_transcribe (replaced g d) = d_transcribe d" "d_readtext (replaced g d) = d_readtext d"
  "d_extract (replaced g d) = d_extract d" "d_categorize (replaced g d) = d_categorize d"
  "d_geocoder (replaced g d) = d_geocoder d" "d_cooldowns (replaced g d) = d_cooldowns d"
  "d_model (replaced g d) = d_model d" "d_sha (replaced g d) = d_sha d"
  "d_marshal (replaced g d) = d_marshal d" "d_unmarshal (replaced g d) = d_unmarshal d"
  "d_uuid (replaced g d) = d_uuid d" "d_version_id (replaced g d) = d_version_id d"
  "d_save_id (replaced g d) = d_save_id d" "d_stat (replaced g d) = d_stat d"
  "d_tempdir (replaced g d) = d_tempdir d"
  "d_registry (replaced g d) = with_downloads g (d_registry d)"
  by (simp_all add: replaced_def)

lemma replaced_ops [simp]:
  "commit_body (replaced g d) = commit_body d" "checkpoint (replaced g d) = checkpoint d"
  "commitStage (replaced g d) = commitStage d"
  "geocode (replaced g d) = geocode d" "taxonomyHash (replaced g d) = taxonomyHash d"
  "transcript_of (replaced g d) = transcript_of d"
  "retryDelay (replaced g d) = retryDelay d" "retry_id (replaced g d) = retry_id d"
  "scheduleRetry (replaced g d) = scheduleRetry d" "failure_body (replaced g d) = failure_body d"
  "escalate_id (replaced g d) = escalate_id d" "escalate_body (replaced g d) = escalate_body d"
  "escalate (replaced g d) = escalate d" "version_of (replaced g d) = version_of d"
  "insertVersion (replaced g d) = insertVersion d" "notify_id (replaced g d) = notify_id d"
  "complete_one (replaced g d) = complete_one d" "completeSubscribers (replaced g d) = completeSubscribers d"
  "index_id (replaced g d) = index_id d" "persist_body (replaced g d) = persist_body d"
  "persist (replaced g d) = persist d"
proof -
  show c: "commit_body (replaced g d) = commit_body d" by (intro ext) (unfold commit_body_def replaced_fields, rule refl)
  show "checkpoint (replaced g d) = checkpoint d" by (intro ext) (unfold checkpoint_def replaced_fields, rule refl)
  show "commitStage (replaced g d) = commitStage d" by (intro ext) (unfold commitStage_def c, rule refl)
  have "geocode_one (replaced g d) = geocode_one d" by (intro ext) (unfold geocode_one_def replaced_fields, rule refl)
  then have ga: "geocode_all (replaced g d) env q i ls = geocode_all d env q i ls" for env q i ls
    by (induction ls arbitrary: i) simp_all
  show "geocode (replaced g d) = geocode d" by (intro ext) (unfold geocode_def replaced_fields ga, rule refl)
  show "taxonomyHash (replaced g d) = taxonomyHash d" by (intro ext) (unfold taxonomyHash_def replaced_fields, rule refl)
  show "transcript_of (replaced g d) = transcript_of d" by (intro ext) (unfold transcript_of_def replaced_fields, rule refl)
  show rd: "retryDelay (replaced g d) = retryDelay d" by (intro ext) (unfold retryDelay_def replaced_fields, rule refl)
  show ri: "retry_id (replaced g d) = retry_id d" by (intro ext) (unfold retry_id_def replaced_fields, rule refl)
  show sr: "scheduleRetry (replaced g d) = scheduleRetry d" by (intro ext) (unfold scheduleRetry_def ri, rule refl)
  show "failure_body (replaced g d) = failure_body d" by (intro ext) (unfold failure_body_def rd sr, rule refl)
  show ei: "escalate_id (replaced g d) = escalate_id d" by (intro ext) (unfold escalate_id_def replaced_fields, rule refl)
  show eb: "escalate_body (replaced g d) = escalate_body d" by (intro ext) (unfold escalate_body_def ei, rule refl)
  show "escalate (replaced g d) = escalate d" by (intro ext) (unfold escalate_def eb, rule refl)
  show v: "version_of (replaced g d) = version_of d" by (intro ext) (unfold version_of_def replaced_fields, rule refl)
  show iv: "insertVersion (replaced g d) = insertVersion d"
    by (intro ext) (unfold insertVersion_def replaced_fields v, rule refl)
  show n: "notify_id (replaced g d) = notify_id d" by (intro ext) (unfold notify_id_def replaced_fields, rule refl)
  show co: "complete_one (replaced g d) = complete_one d" by (intro ext) (unfold complete_one_def replaced_fields n, rule refl)
  show cs: "completeSubscribers (replaced g d) = completeSubscribers d"
    by (intro ext) (unfold completeSubscribers_def co, rule refl)
  show ii: "index_id (replaced g d) = index_id d" by (intro ext) (unfold index_id_def replaced_fields, rule refl)
  show pb: "persist_body (replaced g d) = persist_body d" by (intro ext) (unfold persist_body_def iv cs ii, rule refl)
  show "persist (replaced g d) = persist d" by (intro ext) (unfold persist_def pb, rule refl)
qed

lemma replaced_failure [simp]:
  "applyFailure (replaced g d) = (applyFailure d :: env \<Rightarrow> lease \<Rightarrow> string \<Rightarrow> failure \<Rightarrow> 'a prog)"
  "stage_error (replaced g d) = (stage_error d :: env \<Rightarrow> lease \<Rightarrow> string \<Rightarrow> goerr \<Rightarrow> 'a prog)"
proof -
  show a: "applyFailure (replaced g d) = (applyFailure d :: env \<Rightarrow> lease \<Rightarrow> string \<Rightarrow> failure \<Rightarrow> 'a prog)"
    by (intro ext) (simp add: applyFailure_def)
  show "stage_error (replaced g d) = (stage_error d :: env \<Rightarrow> lease \<Rightarrow> string \<Rightarrow> goerr \<Rightarrow> 'a prog)"
    by (intro ext) (simp add: stage_error_def a)
qed

lemma replaced_Get: "registry_Get (with_downloads g r) p = map_option (\<lambda>h. h\<lparr>h_download := g h\<rparr>) (registry_Get r p)"
  by (simp add: registry_Get_def with_downloads_def split: option.splits)

lemma replaced_prepare: "stage_prepare (replaced g d) env st = stage_prepare d env st"
proof -
  have "bind_r (handler_for (replaced g d) st) (\<lambda>h. h_prepare h i) = bind_r (handler_for d st) (\<lambda>h. h_prepare h i)" for i
    by (simp add: handler_for_def replaced_Get split: option.splits)
  then show ?thesis by (simp add: stage_prepare_def)
qed

lemma replaced_later:
  "\<not> p_media (r_prepared st) \<Longrightarrow> stage \<noteq> stagePrepare \<Longrightarrow>
   runStage (replaced g d) env stage st = runStage d env stage st"
  by (simp add: runStage_def stage_download_def stage_transcribe_def, unfold stage_extract_def
      stage_categorize_def replaced_fields replaced_ops, simp)

text \<open>The stages after \<open>prepare\<close> do not touch what it found.\<close>

definition yields :: "('a \<Rightarrow> bool) \<Rightarrow> 'a prog \<Rightarrow> bool" where
  "yields Q p = (\<forall>w a w'. p w = (Inr a, w') \<longrightarrow> Q a)"

lemma yields_bind: "(\<And>a. yields Q (f a)) \<Longrightarrow> yields Q (bind_w p f)"
  by (auto simp: yields_def bind_w_def split: prod.splits sum.splits)

lemma yields_bind_post: "yields P p \<Longrightarrow> (\<And>a. P a \<Longrightarrow> yields Q (f a)) \<Longrightarrow> yields Q (bind_w p f)"
  by (auto simp: yields_def bind_w_def split: prod.splits sum.splits) blast

lemma yields_return: "yields Q (return_w a) = Q a"
  by (simp add: yields_def)

lemma yields_fail: "yields Q (fail_w e)"
  by (simp add: yields_def)

lemma keeps_prepared:
  "stage \<noteq> stagePrepare \<Longrightarrow> yields (\<lambda>st1. r_prepared st1 = r_prepared st) (runStage d env stage st)"
proof -
  assume s: "stage \<noteq> stagePrepare"
  have g: "yields (\<lambda>st1. r_prepared st1 = r_prepared st) (geocode d env st)"
    by (auto simp: geocode_def yields_return intro!: yields_bind split: option.splits)
  have "yields (\<lambda>st1. r_prepared st1 = r_prepared st) (stage_categorize d env st)"
    unfolding stage_categorize_def
    by (rule yields_bind_post [OF g])
      (auto simp: Let_def yields_return intro!: yields_bind split: option.splits stage_output.splits)
  then show ?thesis using s
    by (auto simp: runStage_def stage_download_def stage_transcribe_def stage_extract_def Let_def
        yields_return yields_fail intro!: yields_bind split: option.splits stage_output.splits)
qed

lemma replaced_light_stages:
  assumes "stagePrepare \<notin> set stages" and "\<not> p_media (r_prepared st)"
  shows "run_stages (replaced g d) env m l stages st w = run_stages d env m l stages st w"
  using assms
proof (induction stages arbitrary: st w)
  case (Cons stage stages)
  then have s: "stage \<noteq> stagePrepare" by auto
  obtain r w1 where r: "runStage d env stage st w = (r, w1)" by force
  show ?case
  proof (cases r)
    case (Inl e)
    then show ?thesis using r replaced_later [OF Cons.prems(2) s] s by (simp add: catch_w_def)
  next
    case (Inr st1)
    then have "r_prepared st1 = r_prepared st" using keeps_prepared [OF s] r unfolding yields_def by blast
    then have "run_stages (replaced g d) env m l stages st1 w1 = run_stages d env m l stages st1 w1"
      using Cons by simp
    then show ?thesis using r Inr replaced_later [OF Cons.prems(2) s] s by (simp add: catch_w_def)
  qed
qed simp

lemma replaced_light_run:
  assumes "msg_type m = EventProcessLight"
  shows "run_stages (replaced g d) env m l all_stages st w = run_stages d env m l all_stages st w"
proof -
  let ?later = "[stageDownload, stageTranscribe, stageExtract, stageCategorize]"
  have no: "stagePrepare \<notin> set ?later" by (simp add: stage_names)
  obtain r w1 where r: "runStage d env stagePrepare st w = (r, w1)" by force
  have same: "runStage (replaced g d) env stagePrepare st = runStage d env stagePrepare st"
    by (simp add: runStage_def replaced_prepare)
  show ?thesis
  proof (cases r)
    case (Inl e)
    then show ?thesis using r same by (simp add: all_stages_def catch_w_def)
  next
    case (Inr st1)
    have "\<not> p_media (r_prepared st1) \<Longrightarrow>
        run_stages (replaced g d) env m l ?later st1 w1 = run_stages d env m l ?later st1 w1"
      by (rule replaced_light_stages [OF no])
    then show ?thesis using r same Inr assms by (simp add: all_stages_def catch_w_def del: run_stages.simps(2))
        (simp add: catch_w_def)
  qed
qed

text \<open>A delivery of the light event never downloads media: whatever the handlers' download functions
  would do, succeed, fail or take the whole 180 seconds, the handler behaves the same, because a run whose
  preparation discovers media is handed to the media queue instead.\<close>

theorem light_delivery_never_downloads:
  assumes "msg_type m = EventProcessLight"
  shows "Handle (replaced g d) env fault now worker m w = Handle d env fault now worker m w"
proof -
  have pr: "process (replaced g d) env m l v = process d env m l v" for l v
  proof -
    have rs: "run_stages (replaced g d) env m l all_stages st = run_stages d env m l all_stages st" for st
      by (intro ext) (rule replaced_light_run [OF assms])
    show ?thesis unfolding process_def replaced_fields replaced_ops replaced_failure rs ..
  qed
  show ?thesis unfolding Handle_def pr ..
qed

text \<open>The retry of a light run is a \<open>run.resume\<close> on the light queue, and that one does download:
  here the handler's download function runs on a message the light consumer received.\<close>

definition media_handler :: handler where
  "media_handler = \<lparr>h_platform = fallback_name,
     h_prepare = \<lambda>i. Inr \<lparr>p_caption = ''cap'', p_page = [], p_thumbnail = [], p_media = True\<rparr>,
     h_download = \<lambda>i dir. Inr [\<lparr>med_path = dir, med_mime = ''video/mp4''\<rparr>]\<rparr>"

definition media_deps :: deps where
  "media_deps = sample_deps\<lparr>d_registry := \<lparr>reg_handlers = Map.empty, reg_fallback = Some media_handler\<rparr>\<rparr>"

definition light_message :: "string \<Rightarrow> message" where
  "light_message ty = \<lparr>msg_event_id = ''e1'', msg_schema = 1, msg_type = ty, msg_run = ''r1'',
     msg_generation = 0, msg_created = 0, msg_trace = []\<rparr>"

definition sample_waiting :: world where
  "sample_waiting = sample_world\<lparr>contents := [sample_content], jobs := [sample_job],
     events := [plain_event ''e0'' EventProcessLight QueueLight ''r1'' 0 0 0]\<rparr>"

theorem resumed_run_downloads_inline:
  "\<exists>st w. run_stages media_deps (quiet_env 20) (light_message ''run.resume'') sample_lease_a
       [stagePrepare, stageDownload] (sample_st\<lparr>r_prepared := empty_prepared\<rparr>) sample_busy = (Inr st, w)
     \<and> r_media st = [\<lparr>med_path = ''/tmp'', med_mime = ''video/mp4''\<rparr>]"
  by (simp add: runStage_def stage_names catch_w_def runLifetime_def stage_prepare_def stage_download_def
      bind_w_def query_def checkpoint_def loadCheckpoint_def commitStage_def txn_def GuardedExec_def
      matching_def is_claim_def touch_claim_def commit_body_def saveCheckpoint_def upsert_stage_def stage_is_def
      maxOutputBytes_def handler_for_def registry_Get_def media_deps_def media_handler_def active_job_of_def
      active_status_def persist_sample_defs Let_def light_message_def EventProcessLight_def)

subsection \<open>Witnesses\<close>

theorem light_delivery_never_downloads_witness:
  "Handle (replaced (\<lambda>h i dir. Inl (Plain ''slow'')) media_deps) (quiet_env 20) None 10 ''a''
      (light_message EventProcessLight) sample_waiting
   = Handle media_deps (quiet_env 20) None 10 ''a'' (light_message EventProcessLight) sample_waiting"
  by (rule light_delivery_never_downloads) (simp add: light_message_def)

theorem failure_decides_the_future_witness:
  "\<exists>w'. applyFailure sample_deps (quiet_env 50) sample_lease_a stageExtract (Classify DeadlineExceeded) sample_busy
       = (Inl (err_of (Classify DeadlineExceeded)) :: goerr + unit, w')
     \<and> attempts_of ''r1'' stageExtract w' = 1
     \<and> (\<exists>row. find (\<lambda>r. run_id r = ''r1'') (runs w') = Some row \<and> run_state row = RunRetryScheduled)"
proof -
  let ?f = "Classify DeadlineExceeded"
  obtain res w' where a: "applyFailure sample_deps (quiet_env 50) sample_lease_a stageExtract ?f sample_busy
      = (res :: goerr + unit, w')" by force
  have f: "as_provider (f_err ?f) = None" "Retryable ?f"
    by (simp_all add: Classify_def fail_with_def Retryable_def)
  have at: "e_at (quiet_env 50) AtFailure sample_busy = sample_busy" "e_fault (quiet_env 50) AtFailure = TxnWorks"
      "e_now (quiet_env 50) AtFailure = 50"
    by (simp_all add: quiet_env_def)
  have n: "attempts_of ''r1'' stageExtract sample_busy = 0" by (simp add: attempts_of_def persist_sample_defs)
  have i: "l_run sample_lease_a = ''r1''" by (simp add: sample_lease_a_def)
  have k: "run_keys sample_busy" "holds sample_lease_a sample_busy"
    by (simp_all add: run_keys_def holds_def lease_view_def persist_sample_defs)
  have row: "find (\<lambda>r. run_id r = ''r1'') (runs sample_busy) = Some (acquire_row 10 ''a'' sample_run)"
    by (simp add: persist_sample_defs)
  have d: "retryDelay sample_deps 50 ''r1'' 1 ?f sample_busy = Some (30 * second)"
    using f(1) row by (simp add: retryDelay_def backoff_of_def retryBackoffs_def runLifetime_def
        sample_deps_def acquire_row_def sample_run_def)
  have e: "retry_id sample_deps ''r1'' stageExtract 1 \<notin> event_ids sample_busy"
    by (simp add: event_ids_def persist_sample_defs)
  have e1: "retry_id sample_deps ''r1'' stageExtract (0 + 1) \<notin> event_ids sample_busy" using e by simp
  from failure_decides_the_future [OF a, unfolded at i n, OF k refl row e1] d f(2)
  show ?thesis using a by auto
qed

definition sample_free :: world where
  "sample_free = sample_world\<lparr>contents := [sample_content], jobs := [sample_job]\<rparr>"

theorem handler_gives_the_run_up_witness:
  "\<exists>held w1 lg w'. Acquire None 10 ''r1'' ''a'' sample_free = Inr (held, w1)
     \<and> Handle sample_deps (quiet_env 20) None 10 ''a'' (light_message EventProcessLight) sample_free = ((Done, lg), w')
     \<and> \<not> holds held w'"
proof -
  obtain dec lg w' where h: "Handle sample_deps (quiet_env 20) None 10 ''a'' (light_message EventProcessLight) sample_free
      = ((dec, lg), w')" by (metis surj_pair)
  have wf: "wf sample_free"
    by (simp add: wf_def run_keys_def owned_processing_def sample_free_def sample_defs)
  have g: "good_env (quiet_env 20)" by (simp add: good_env_def quiet_env_def)
  have hd: "honest_deps sample_deps"
    by (auto simp: honest_deps_def sample_deps_def registry_Get_def page_handler_def is_fenced_def)
  have "e_fault (quiet_env 20) AtFailure = TxnWorks" by (simp add: quiet_env_def)
  note t = Pipeline.handler_gives_the_run_up [OF wf g hd this h]
  have "\<exists>held w1. Acquire None 10 ''r1'' ''a'' sample_free = Inr (held, w1)"
    by (simp add: Acquire_def can_acquire_def live_status_def sample_free_def sample_defs)
  then obtain held w1 where a: "Acquire None 10 ''r1'' ''a'' sample_free = Inr (held, w1)" by blast
  have "dec = Done \<and> \<not> holds held w'" using t a by (simp add: light_message_def)
  then show ?thesis using h a by auto
qed

end
