(* ===== verification/Paging.thy ===== *)
theory Paging
  imports Prelude "HOL-Library.Product_Lexorder"
begin

text \<open>
  Keyset pages: rows newest first, one more than the limit read to know whether another page follows,
  the key of the last row shown as the cursor.  The lists of saved reels and of collection items page
  this way.
\<close>

subsection \<open>Strictly descending lists\<close>

definition newest_first :: "('a \<Rightarrow> 'k::linorder) \<Rightarrow> 'a list \<Rightarrow> 'a list" where
  "newest_first key rows = rev (sort_key key rows)"

lemma newest_first_filter: "newest_first key (filter P rows) = filter P (newest_first key rows)"
  by (simp add: newest_first_def filter_sort rev_filter [symmetric])

lemma set_newest_first [simp]: "set (newest_first key rows) = set rows"
  by (simp add: newest_first_def)

lemma length_newest_first [simp]: "length (newest_first key rows) = length rows"
  by (simp add: newest_first_def)

lemma newest_first_Nil [simp]: "newest_first key rows = [] \<longleftrightarrow> rows = []"
  using length_newest_first [of key rows] by (metis length_0_conv)

lemma newest_first_strict:
  assumes "distinct (map key rows)"
  shows "sorted_wrt (\<lambda>x y. key y < key x) (newest_first key rows)"
proof -
  have "distinct (map key (sort_key key rows))"
    using assms by (simp add: distinct_map)
  then have "sorted_wrt (<) (map key (sort_key key rows))" by (simp add: strict_sorted_iff)
  then show ?thesis by (simp add: newest_first_def sorted_wrt_rev sorted_wrt_map)
qed

text \<open>What lies below the key of an element of a strictly descending list is what follows it.\<close>

lemma below_is_rest:
  fixes key :: "'a \<Rightarrow> 'k::linorder"
  assumes "sorted_wrt (\<lambda>x y. key y < key x) (xs @ y # zs)"
  shows "filter (\<lambda>x. key x < key y) (xs @ y # zs) = zs"
proof -
  have up: "\<And>x. x \<in> set xs \<Longrightarrow> key y < key x" and down: "\<And>z. z \<in> set zs \<Longrightarrow> key z < key y"
    using assms by (auto simp: sorted_wrt_append)
  have no: "\<not> key x < key y" if "x \<in> set xs" for x
    using up [OF that] by (rule order_less_not_sym)
  then have "filter (\<lambda>x. key x < key y) xs = []" by (simp add: filter_empty_conv)
  moreover have "filter (\<lambda>x. key x < key y) zs = zs"
    by (simp add: filter_id_conv down)
  ultimately show ?thesis by simp
qed

subsection \<open>The interface: a pager\<close>

text \<open>A client that follows the cursor, at most \<open>n\<close> pages.\<close>

fun follow :: "('s \<Rightarrow> 'k option \<Rightarrow> nat \<Rightarrow> 'a list \<times> 'k option) \<Rightarrow> nat \<Rightarrow> 's \<Rightarrow> 'k option \<Rightarrow> nat \<Rightarrow> 'a list" where
  "follow page 0 s after limit = []"
| "follow page (Suc n) s after limit =
     (case page s after limit of
        (shown, None) \<Rightarrow> shown
      | (shown, Some k) \<Rightarrow> shown @ follow page n s (Some k) limit)"

text \<open>A client that reads one page in each of the given states, following the cursor, and whether it came to the last
  page.\<close>

fun walk :: "('s \<Rightarrow> 'k option \<Rightarrow> nat \<Rightarrow> 'a list \<times> 'k option) \<Rightarrow> nat \<Rightarrow> 's list \<Rightarrow> 'k option \<Rightarrow> 'a list list \<times> bool" where
  "walk page limit [] after = ([], False)"
| "walk page limit (s # ss) after =
     (case page s after limit of
        (shown, None) \<Rightarrow> ([shown], True)
      | (shown, Some k) \<Rightarrow> (let (rest, ended) = walk page limit ss (Some k) in (shown # rest, ended)))"

locale keyset_pager =
  fixes key :: "'a \<Rightarrow> 'k::linorder"
    and rows :: "'s \<Rightarrow> 'a list"
    and page :: "'s \<Rightarrow> 'k option \<Rightarrow> nat \<Rightarrow> 'a list \<times> 'k option"
  assumes page_shown: "fst (page s after limit) =
      take limit (newest_first key (filter (\<lambda>x. case after of None \<Rightarrow> True | Some k \<Rightarrow> key x < k) (rows s)))"
    and page_cursor: "0 < limit \<Longrightarrow> snd (page s after limit) =
      (if limit < length (filter (\<lambda>x. case after of None \<Rightarrow> True | Some k \<Rightarrow> key x < k) (rows s))
       then Some (key (last (fst (page s after limit)))) else None)"
begin

lemma follow_rest:
  assumes "distinct (map key (rows s))" and "0 < limit"
    and "rest = newest_first key (filter (\<lambda>x. case after of None \<Rightarrow> True | Some k \<Rightarrow> key x < k) (rows s))"
    and "length rest < n"
  shows "follow page n s after limit = rest"
  using assms(3,4)
proof (induction n arbitrary: after rest)
  case (Suc n)
  let ?in = "\<lambda>x. case after of None \<Rightarrow> True | Some k \<Rightarrow> key x < k"
  have shown: "fst (page s after limit) = take limit rest" using page_shown Suc.prems(1) by simp
  have len: "length rest = length (filter ?in (rows s))" using Suc.prems(1) by simp
  show ?case
  proof (cases "limit < length rest")
    case False
    then have "page s after limit = (rest, None)"
      using shown page_cursor [OF assms(2), of s after] len by (simp add: prod_eq_iff)
    then show ?thesis by simp
  next
    case True
    then have ne: "take limit rest \<noteq> []" using assms(2) by auto
    let ?y = "last (take limit rest)" and ?xs = "butlast (take limit rest)" and ?zs = "drop limit rest"
    have split: "rest = ?xs @ ?y # ?zs"
      using ne append_butlast_last_id [OF ne] append_take_drop_id [of limit rest]
      by (metis append_Cons append_assoc append_Nil)
    have pg: "page s after limit = (take limit rest, Some (key ?y))"
      using shown page_cursor [OF assms(2), of s after] len True by (simp add: prod_eq_iff)
    have strict: "sorted_wrt (\<lambda>x y. key y < key x) rest"
      unfolding Suc.prems(1) using newest_first_strict [of key "filter ?in (rows s)"] assms(1)
      by (simp add: distinct_map_filter)
    have "?y \<in> set rest" using ne by (metis in_set_takeD last_in_set)
    then have y: "?in ?y" using Suc.prems(1) by auto
    have "filter (\<lambda>x. key x < key ?y) (rows s) = filter (\<lambda>x. key x < key ?y) (filter ?in (rows s))"
      using y by (auto intro!: filter_cong split: option.splits dest: order.strict_trans)
    then have "newest_first key (filter (\<lambda>x. key x < key ?y) (rows s)) = filter (\<lambda>x. key x < key ?y) rest"
      by (simp add: newest_first_filter Suc.prems(1))
    also have "\<dots> = ?zs" using below_is_rest [of key ?xs ?y ?zs] strict split by metis
    finally have zs: "?zs = newest_first key (filter (\<lambda>x. case Some (key ?y) of None \<Rightarrow> True | Some k \<Rightarrow> key x < k) (rows s))"
      by simp
    have "length ?zs < n" using Suc.prems(2) True assms(2) by simp
    from Suc.IH [OF zs this] show ?thesis by (simp add: pg)
  qed
qed simp

text \<open>Following the cursor shows every row exactly once, newest first.\<close>

theorem follow_all:
  "distinct (map key (rows s)) \<Longrightarrow> 0 < limit \<Longrightarrow> length (rows s) < n \<Longrightarrow>
   follow page n s None limit = newest_first key (rows s)"
  by (rule follow_rest) auto

lemma shown_sorted: "distinct (map key (rows s)) \<Longrightarrow> sorted_wrt (\<lambda>x y. key y < key x) (fst (page s after limit))"
  unfolding page_shown using newest_first_strict [of key "filter (\<lambda>x. case after of None \<Rightarrow> True | Some k \<Rightarrow> key x < k) (rows s)"]
  by (simp add: distinct_map_filter sorted_wrt_take)

lemma shown_below: "x \<in> set (fst (page s after limit)) \<Longrightarrow> x \<in> set (rows s) \<and> (case after of None \<Rightarrow> True | Some k \<Rightarrow> key x < k)"
  unfolding page_shown by (auto dest: in_set_takeD)

text \<open>What a page with a cursor leaves out lies below the cursor, and the cursor is the key of its last row.\<close>

lemma cursor_splits:
  assumes "page s after limit = (shown, Some k)" and "0 < limit" and "distinct (map key (rows s))"
  shows "shown \<noteq> [] \<and> k = key (last shown)"
    and "x \<in> set (rows s) \<Longrightarrow> (case after of None \<Rightarrow> True | Some k \<Rightarrow> key x < k) \<Longrightarrow> x \<in> set shown \<or> key x < k"
proof -
  let ?in = "\<lambda>x. case after of None \<Rightarrow> True | Some k \<Rightarrow> key x < k"
  let ?all = "newest_first key (filter ?in (rows s))"
  have sh: "shown = take limit ?all" using page_shown [of s after limit] assms(1) by simp
  have cu: "limit < length (filter ?in (rows s))" "k = key (last shown)"
    using page_cursor [OF assms(2), of s after] unfolding assms(1) by (simp_all split: if_splits)
  then have ne: "shown \<noteq> []" using assms(2) unfolding sh by (metis length_newest_first list.size(3) not_less_zero take_eq_Nil not_gr_zero)
  then show "shown \<noteq> [] \<and> k = key (last shown)" using cu by simp
  assume "x \<in> set (rows s)" and "?in x"
  then have "x \<in> set ?all" by simp
  then have "x \<in> set shown \<or> x \<in> set (drop limit ?all)"
    unfolding sh by (metis Un_iff append_take_drop_id set_append)
  moreover have "sorted_wrt (\<lambda>x y. key y < key x) (take limit ?all @ drop limit ?all)"
    using newest_first_strict [of key "filter ?in (rows s)"] assms(3) by (simp add: distinct_map_filter)
  ultimately show "x \<in> set shown \<or> key x < k"
    using ne unfolding cu(2) sh sorted_wrt_append by (meson last_in_set)
qed

text \<open>Pages that are read one after the other while the rows change show rows in strictly descending order, and once
  the walk has ended, every row that was there all along was shown.\<close>

lemma walk_sorted:
  assumes "\<forall>s \<in> set ss. distinct (map key (rows s))" and "0 < limit"
  shows "sorted_wrt (\<lambda>x y. key y < key x) (concat (fst (walk page limit ss after)))
    \<and> (\<forall>x \<in> set (concat (fst (walk page limit ss after))). case after of None \<Rightarrow> True | Some k \<Rightarrow> key x < k)"
  using assms(1)
proof (induction ss arbitrary: after)
  case (Cons s ss)
  obtain shown c where p: "page s after limit = (shown, c)" by force
  have sh: "sorted_wrt (\<lambda>x y. key y < key x) shown" "\<And>x. x \<in> set shown \<Longrightarrow> case after of None \<Rightarrow> True | Some k \<Rightarrow> key x < k"
    using shown_sorted [of s after limit] shown_below [of _ s after limit] Cons.prems p by auto
  show ?case
  proof (cases c)
    case None
    then show ?thesis using sh p by simp
  next
    case (Some k)
    obtain rest ended where w: "walk page limit ss (Some k) = (rest, ended)" by force
    have ih: "sorted_wrt (\<lambda>x y. key y < key x) (concat rest)" "\<And>x. x \<in> set (concat rest) \<Longrightarrow> key x < k"
      using Cons.IH [of "Some k"] Cons.prems w by auto
    have k: "shown \<noteq> []" "k = key (last shown)" using cursor_splits(1) [of s after limit shown k] p Some assms(2) Cons.prems by auto
    have low: "k \<le> key x" if "x \<in> set shown" for x
    proof -
      have "shown = butlast shown @ [last shown]" using k(1) by simp
      then have "x = last shown \<or> key (last shown) < key x"
        using sh(1) that by (metis UnE list.set(1) list.set(2) set_append singletonD sorted_wrt_append insertE empty_iff insert_iff)
      then show ?thesis using k(2) by auto
    qed
    have "case after of None \<Rightarrow> True | Some a \<Rightarrow> k < a" unfolding k(2) by (rule sh(2) [OF last_in_set [OF k(1)]])
    then have "\<And>x. x \<in> set (concat rest) \<Longrightarrow> case after of None \<Rightarrow> True | Some a \<Rightarrow> key x < a"
      using ih(2) by (auto split: option.splits dest: order.strict_trans)
    moreover have "\<And>x y. x \<in> set shown \<Longrightarrow> y \<in> set (concat rest) \<Longrightarrow> key y < key x"
      using low ih(2) by (meson order.strict_trans2)
    ultimately show ?thesis using sh ih(1) p Some w by (auto simp: sorted_wrt_append)
  qed
qed simp

lemma walk_shown: "x \<in> set (concat (fst (walk page limit ss after))) \<Longrightarrow> \<exists>s \<in> set ss. x \<in> set (rows s)"
proof (induction ss arbitrary: after)
  case (Cons s ss)
  obtain shown c where p: "page s after limit = (shown, c)" by force
  have "\<And>y. y \<in> set shown \<Longrightarrow> y \<in> set (rows s)" using shown_below [of _ s after limit] p by auto
  then show ?case using Cons p by (cases c) (auto simp: case_prod_unfold Let_def)
qed simp

lemma walk_complete:
  assumes "\<forall>s \<in> set ss. distinct (map key (rows s)) \<and> x \<in> set (rows s)" and "0 < limit"
    and "snd (walk page limit ss after)" and "case after of None \<Rightarrow> True | Some k \<Rightarrow> key x < k"
  shows "x \<in> set (concat (fst (walk page limit ss after)))"
  using assms(1,3,4)
proof (induction ss arbitrary: after)
  case (Cons s ss)
  obtain shown c where p: "page s after limit = (shown, c)" by force
  show ?case
  proof (cases c)
    case None
    let ?in = "\<lambda>x. case after of None \<Rightarrow> True | Some k \<Rightarrow> key x < k"
    have "\<not> limit < length (filter ?in (rows s))" using page_cursor [OF assms(2), of s after] p None by (auto split: if_splits)
    then have "shown = newest_first key (filter ?in (rows s))" using page_shown [of s after limit] p by simp
    then show ?thesis using Cons.prems p None by simp
  next
    case (Some k)
    obtain rest ended where w: "walk page limit ss (Some k) = (rest, ended)" by force
    have "x \<in> set shown \<or> key x < k"
      using cursor_splits(2) [of s after limit shown k x] p Some assms(2) Cons.prems by auto
    then show ?thesis using Cons.IH [of "Some k"] Cons.prems p Some w by auto
  qed
qed simp

end

end
