(* ===== verification/Collections.thy ===== *)
theory Collections
  imports Signals Paging
begin

text \<open>
  Shared collections (\<open>internal/collections\<close>, \<open>internal/postgres/collections.go\<close>): who may
  see one, who may change it, and the two capabilities, the share link and the invite.  An operation is
  one transaction; \<open>sha\<close> is the hex digest of SHA-256, \<open>is_uuid\<close> is \<open>uuid.Parse\<close>
  succeeding, new ids and tokens are arguments.  Ids are compared as text, so they are canonical.
\<close>

subsection \<open>Roles and tokens (collections.go)\<close>

definition RoleOwner :: string where "RoleOwner = ''owner''"
definition RoleEditor :: string where "RoleEditor = ''editor''"
definition RoleViewer :: string where "RoleViewer = ''viewer''"

lemmas role_defs = RoleOwner_def RoleEditor_def RoleViewer_def

definition InviteExpiry :: duration where "InviteExpiry = 14 * (24 * hour)"
definition LinkExpiry :: duration where "LinkExpiry = 30 * (24 * hour)"
definition MaxSaveIDsPerRequest :: nat where "MaxSaveIDsPerRequest = 100"

definition CanEdit :: "string \<Rightarrow> bool" where
  "CanEdit role = (role = RoleOwner \<or> role = RoleEditor)"

definition HashToken :: "(string \<Rightarrow> string) \<Rightarrow> string \<Rightarrow> string" where
  "HashToken sha raw = sha (trim_space raw)"

subsection \<open>Access\<close>

definition member_role :: "string \<Rightarrow> string \<Rightarrow> world \<Rightarrow> string option" where
  "member_role c u w =
     map_option m_role (find (\<lambda>m. m_collection m = c \<and> m_user m = u) (members w))"

definition Role :: "string \<Rightarrow> string \<Rightarrow> world \<Rightarrow> err + string" where
  "Role c u w =
     (case find (\<lambda>r. col_id r = c) (collections w) of
        None \<Rightarrow> Inl ErrNotFound
      | Some r \<Rightarrow>
          if col_owner r = u then Inr RoleOwner
          else (case member_role c u w of
                  Some role \<Rightarrow> if role \<noteq> [] then Inr role else Inl ErrNotFound
                | None \<Rightarrow> Inl ErrNotFound))"

text \<open>What \<open>scanCollection\<close> reads.\<close>

record collection_view =
  cv_row :: collection_row
  cv_role :: string
  cv_items :: nat
  cv_members :: nat

definition get_collection :: "string \<Rightarrow> string \<Rightarrow> world \<Rightarrow> err + collection_view" where
  "get_collection c role w =
     (case find (\<lambda>r. col_id r = c) (collections w) of
        None \<Rightarrow> Inl ErrNotFound
      | Some r \<Rightarrow> Inr \<lparr>cv_row = r, cv_role = role,
          cv_items = matching (\<lambda>i. i_collection i = c) (items w),
          cv_members = matching (\<lambda>m. m_collection m = c) (members w)\<rparr>)"

definition Get :: "string \<Rightarrow> string \<Rightarrow> world \<Rightarrow> err + collection_view" where
  "Get c u w = bind_r (Role c u w) (\<lambda>role. get_collection c role w)"

definition List_collections :: "string \<Rightarrow> world \<Rightarrow> collection_view list" where
  "List_collections u w =
     take 200 (rev (sort_key (\<lambda>v. col_updated (cv_row v))
       (map (\<lambda>r. \<lparr>cv_row = r,
                   cv_role = (if col_owner r = u then RoleOwner
                              else (case member_role (col_id r) u w of None \<Rightarrow> RoleViewer | Some x \<Rightarrow> x)),
                   cv_items = matching (\<lambda>i. i_collection i = col_id r) (items w),
                   cv_members = matching (\<lambda>m. m_collection m = col_id r) (members w)\<rparr>)
          (filter (\<lambda>r. col_owner r = u \<or> member_role (col_id r) u w \<noteq> None) (collections w)))))"

subsection \<open>Filing\<close>

text \<open>The loop that cleans the save ids: trimmed, valid, distinct, at most a hundred.\<close>

fun clean_ids :: "(string \<Rightarrow> bool) \<Rightarrow> string list \<Rightarrow> string list \<Rightarrow> string list" where
  "clean_ids is_uuid cleaned [] = cleaned"
| "clean_ids is_uuid cleaned (raw # ids) =
     (let i = trim_space raw
      in if i = [] \<or> i \<in> set cleaned then clean_ids is_uuid cleaned ids
         else if \<not> is_uuid i then clean_ids is_uuid cleaned ids
         else if length (cleaned @ [i]) \<ge> MaxSaveIDsPerRequest then cleaned @ [i]
         else clean_ids is_uuid (cleaned @ [i]) ids)"

definition fileSaves ::
  "(string \<Rightarrow> bool) \<Rightarrow> time \<Rightarrow> string \<Rightarrow> string \<Rightarrow> string list \<Rightarrow> world \<Rightarrow> err + (nat \<times> world)" where
  "fileSaves is_uuid now u c ids w =
     (let cleaned = clean_ids is_uuid [] ids
      in if cleaned = [] then Inr (0, w)
         else if matching (\<lambda>s. s_id s \<in> set cleaned \<and> s_user s = u) (saves w) \<noteq> length cleaned then Inl ErrReelNotFound
         else (let new = filter (\<lambda>i. \<not> list_ex (\<lambda>x. i_collection x = c \<and> i_save x = i) (items w))
                           (map s_id (filter (\<lambda>s. s_id s \<in> set cleaned) (saves w)));
                   w1 = w\<lparr>items := items w @ map (\<lambda>i. \<lparr>i_collection = c, i_save = i, i_added_by = u, i_added = now\<rparr>) new\<rparr>
               in Inr (length new,
                    if 0 < length new
                    then w1\<lparr>collections := update_where (\<lambda>r. col_id r = c) (\<lambda>r. r\<lparr>col_updated := now\<rparr>) (collections w1)\<rparr>
                    else w1)))"

subsection \<open>Operations of a member\<close>

definition new_collection :: "time \<Rightarrow> string \<Rightarrow> string \<Rightarrow> string \<Rightarrow> string \<Rightarrow> collection_row" where
  "new_collection now new u name descr =
     \<lparr>col_id = new, col_owner = u, col_name = trim_space name, col_description = trim_space descr,
      col_cover = None, col_linked = False, col_link = None, col_link_expires = None,
      col_created = now, col_updated = now\<rparr>"

definition Create_collection ::
  "(string \<Rightarrow> bool) \<Rightarrow> time \<Rightarrow> string \<Rightarrow> string \<Rightarrow> string \<Rightarrow> string \<Rightarrow> string list \<Rightarrow> world \<Rightarrow> err + (nat \<times> world)" where
  "Create_collection is_uuid now new u name descr ids w =
     (if trim_space name = [] then Inl (ErrOther ''collections_name_check'')
      else fileSaves is_uuid now u new ids (w\<lparr>collections := collections w @
        [new_collection now new u name descr]\<rparr>))"

text \<open>An operation that needs a role, and answers forbidden to a member without it.\<close>

definition needs :: "(string \<Rightarrow> bool) \<Rightarrow> string \<Rightarrow> string \<Rightarrow> world \<Rightarrow> (world \<Rightarrow> err + 'a) \<Rightarrow> err + 'a" where
  "needs ok c u w body =
     bind_r (Role c u w) (\<lambda>role. if ok role then body w else Inl ErrForbidden)"

definition spaces_trimmed :: "string \<Rightarrow> string" where
  "spaces_trimmed s = dropWhile (\<lambda>c. c = CHR '' '') (trim_right_by (\<lambda>c. c = CHR '' '') s)"

definition update_collection ::
  "time \<Rightarrow> string option \<Rightarrow> string option \<Rightarrow> string option \<Rightarrow> world \<Rightarrow> collection_row \<Rightarrow> collection_row" where
  "update_collection now name descr cover w r =
     r\<lparr>col_name := (case name of None \<Rightarrow> col_name r
                    | Some n \<Rightarrow> if spaces_trimmed n = [] then col_name r else spaces_trimmed n),
       col_description := (case descr of None \<Rightarrow> col_description r | Some x \<Rightarrow> x),
       col_cover := (case cover of None \<Rightarrow> col_cover r
                     | Some s \<Rightarrow> if list_ex (\<lambda>i. i_collection i = col_id r \<and> i_save i = s) (items w)
                               then Some s else col_cover r),
       col_updated := now\<rparr>"

definition Update_collection ::
  "time \<Rightarrow> string \<Rightarrow> string \<Rightarrow> string option \<Rightarrow> string option \<Rightarrow> string option \<Rightarrow> world \<Rightarrow> err + world" where
  "Update_collection now c u name descr cover w =
     needs (\<lambda>r. r = RoleOwner) c u w (\<lambda>w. Inr (w\<lparr>collections :=
       update_where (\<lambda>r. col_id r = c) (update_collection now name descr cover w) (collections w)\<rparr>))"

text \<open>Items, members and invites cascade.\<close>

definition Delete_collection :: "string \<Rightarrow> string \<Rightarrow> world \<Rightarrow> err + world" where
  "Delete_collection c u w =
     needs (\<lambda>r. r = RoleOwner) c u w (\<lambda>w. Inr (w\<lparr>
       collections := filter (\<lambda>r. col_id r \<noteq> c) (collections w),
       items := filter (\<lambda>i. i_collection i \<noteq> c) (items w),
       members := filter (\<lambda>m. m_collection m \<noteq> c) (members w),
       invites := filter (\<lambda>n. n_collection n \<noteq> c) (invites w)\<rparr>))"

definition AddItems ::
  "(string \<Rightarrow> bool) \<Rightarrow> time \<Rightarrow> string \<Rightarrow> string \<Rightarrow> string list \<Rightarrow> world \<Rightarrow> err + (nat \<times> world)" where
  "AddItems is_uuid now c u ids w = needs CanEdit c u w (fileSaves is_uuid now u c ids)"

definition RemoveItem :: "string \<Rightarrow> string \<Rightarrow> string \<Rightarrow> world \<Rightarrow> err + world" where
  "RemoveItem c u s w =
     needs CanEdit c u w (\<lambda>w. Inr (w\<lparr>items := filter (\<lambda>i. \<not> (i_collection i = c \<and> i_save i = s)) (items w)\<rparr>))"

definition Members :: "string \<Rightarrow> string \<Rightarrow> world \<Rightarrow> err + (string \<times> (string \<times> string) list)" where
  "Members c u w =
     bind_r (Role c u w) (\<lambda>_.
       case find (\<lambda>r. col_id r = c) (collections w) of
         None \<Rightarrow> Inl ErrNotFound
       | Some r \<Rightarrow> Inr (col_owner r, map (\<lambda>m. (m_user m, m_role m))
                     (sort_key m_created (filter (\<lambda>m. m_collection m = c) (members w)))))"

definition drop_member :: "string \<Rightarrow> string \<Rightarrow> world \<Rightarrow> world" where
  "drop_member c v w = w\<lparr>members := filter (\<lambda>m. \<not> (m_collection m = c \<and> m_user m = v)) (members w)\<rparr>"

definition RemoveMember :: "string \<Rightarrow> string \<Rightarrow> string \<Rightarrow> world \<Rightarrow> err + world" where
  "RemoveMember c u v w = needs (\<lambda>r. r = RoleOwner) c u w (\<lambda>w. Inr (drop_member c v w))"

definition Leave :: "string \<Rightarrow> string \<Rightarrow> world \<Rightarrow> err + world" where
  "Leave c u w = needs (\<lambda>r. r \<noteq> RoleOwner) c u w (\<lambda>w. Inr (drop_member c u w))"

subsection \<open>Capabilities\<close>

definition EnableLink ::
  "(string \<Rightarrow> string) \<Rightarrow> time \<Rightarrow> string \<Rightarrow> string \<Rightarrow> string \<Rightarrow> world \<Rightarrow> err + (string \<times> time \<times> world)" where
  "EnableLink sha now token c u w =
     needs (\<lambda>r. r = RoleOwner) c u w (\<lambda>w. Inr (token, now + LinkExpiry, w\<lparr>collections :=
       update_where (\<lambda>r. col_id r = c)
         (\<lambda>r. r\<lparr>col_linked := True, col_link := Some (HashToken sha token),
               col_link_expires := Some (now + LinkExpiry), col_updated := now\<rparr>) (collections w)\<rparr>))"

definition DisableLink :: "time \<Rightarrow> string \<Rightarrow> string \<Rightarrow> world \<Rightarrow> err + world" where
  "DisableLink now c u w =
     needs (\<lambda>r. r = RoleOwner) c u w (\<lambda>w. Inr (w\<lparr>collections :=
       update_where (\<lambda>r. col_id r = c)
         (\<lambda>r. r\<lparr>col_linked := False, col_link := None, col_link_expires := None, col_updated := now\<rparr>) (collections w)\<rparr>))"

definition link_open :: "(string \<Rightarrow> string) \<Rightarrow> time \<Rightarrow> string \<Rightarrow> collection_row \<Rightarrow> bool" where
  "link_open sha now token r =
     (col_link r = Some (HashToken sha token) \<and> col_linked r
      \<and> (case col_link_expires r of None \<Rightarrow> True | Some t \<Rightarrow> now < t))"

text \<open>The anonymous view carries no owner and no member count.\<close>

definition SharedByToken :: "(string \<Rightarrow> string) \<Rightarrow> time \<Rightarrow> string \<Rightarrow> world \<Rightarrow> err + collection_view" where
  "SharedByToken sha now token w =
     (case find (link_open sha now token) (collections w) of
        None \<Rightarrow> Inl ErrNotFound
      | Some r \<Rightarrow> bind_r (get_collection (col_id r) RoleViewer w)
          (\<lambda>v. Inr (v\<lparr>cv_row := (cv_row v)\<lparr>col_owner := []\<rparr>, cv_members := 0\<rparr>)))"

definition CreateInvite ::
  "(string \<Rightarrow> string) \<Rightarrow> time \<Rightarrow> string \<Rightarrow> string \<Rightarrow> string \<Rightarrow> string \<Rightarrow> string \<Rightarrow> world \<Rightarrow> err + (string \<times> string \<times> world)" where
  "CreateInvite sha now new token c u role w =
     needs (\<lambda>r. r = RoleOwner) c u w (\<lambda>w.
       let granted = (if role \<noteq> RoleEditor then RoleViewer else role)
       in Inr (token, granted, w\<lparr>invites := invites w @
            [\<lparr>n_id = new, n_collection = c, n_hash = HashToken sha token, n_role = granted,
              n_expires = now + InviteExpiry, n_max = None, n_uses = 0, n_revoked = False\<rparr>]\<rparr>))"

definition AcceptInvite :: "(string \<Rightarrow> string) \<Rightarrow> time \<Rightarrow> string \<Rightarrow> string \<Rightarrow> world \<Rightarrow> err + (string \<times> world)" where
  "AcceptInvite sha now token u w =
     (case find (\<lambda>n. n_hash n = HashToken sha token \<and> list_ex (\<lambda>r. col_id r = n_collection n) (collections w)) (invites w) of
        None \<Rightarrow> Inl ErrInviteInvalid
      | Some n \<Rightarrow>
          if n_revoked n \<or> now > n_expires n \<or> (case n_max n of None \<Rightarrow> False | Some m \<Rightarrow> n_uses n \<ge> m)
          then Inl ErrInviteInvalid
          else if list_ex (\<lambda>r. col_id r = n_collection n \<and> col_owner r = u) (collections w) then Inr (n_collection n, w)
          else if list_ex (\<lambda>m. m_collection m = n_collection n \<and> m_user m = u) (members w) then Inr (n_collection n, w)
          else Inr (n_collection n, w\<lparr>
                 members := members w @ [\<lparr>m_collection = n_collection n, m_user = u, m_role = n_role n, m_created = now\<rparr>],
                 invites := update_where (\<lambda>x. n_id x = n_id n) (\<lambda>x. x\<lparr>n_uses := n_uses x + 1\<rparr>) (invites w)\<rparr>))"

subsection \<open>Pages of items\<close>

text \<open>\<open>items\<close>: newest first, one more row than the limit is read to know whether there is a next
  page; the cursor is the key of the last item shown.\<close>

definition item_key :: "item_row \<Rightarrow> time \<times> string" where
  "item_key i = (i_added i, i_save i)"

definition item_page ::
  "string \<Rightarrow> (time \<times> string) option \<Rightarrow> nat \<Rightarrow> world \<Rightarrow> item_row list \<times> (time \<times> string) option" where
  "item_page c after limit w =
     (let found = take (limit + 1) (rev (sort_key item_key
            (filter (\<lambda>i. i_collection i = c
                        \<and> (case after of None \<Rightarrow> True | Some k \<Rightarrow> item_key i < k)) (items w))))
      in if length found > limit
         then (let page = take limit found
               in (page, if page = [] then None else Some (item_key (last page))))
         else (found, None))"

definition Detail ::
  "string \<Rightarrow> string \<Rightarrow> (time \<times> string) option \<Rightarrow> nat \<Rightarrow> world
   \<Rightarrow> err + (collection_view \<times> item_row list \<times> (time \<times> string) option)" where
  "Detail c u after limit w =
     bind_r (Get c u w) (\<lambda>v. let (page, cursor) = item_page c after limit w in Inr (v, page, cursor))"

subsection \<open>Facts about access\<close>

lemma Role_cases: "Role c u w = Inl ErrNotFound \<or> (\<exists>role. Role c u w = Inr role)"
  by (auto simp: Role_def split: option.splits)

lemma needs_Inr: "needs ok c u w body = Inr x \<longleftrightarrow> (\<exists>role. Role c u w = Inr role \<and> ok role \<and> body w = Inr x)"
  by (auto simp: needs_def bind_r_Inr_iff split: if_splits)

lemma needs_stranger [simp]: "Role c u w = Inl e \<Longrightarrow> needs ok c u w body = Inl e"
  by (simp add: needs_def)

lemma owner_role:
  "find (\<lambda>r. col_id r = c) (collections w) = Some r \<Longrightarrow> Role c u w = Inr RoleOwner \<Longrightarrow>
   member_role c u w \<noteq> Some RoleOwner \<Longrightarrow> col_owner r = u"
  by (auto simp: Role_def split: if_splits option.splits)

text \<open>The invariants the tables keep: collection ids are unique, an item is listed once, a member is
  an editor or a viewer and never the owner, and an invite never grants ownership.\<close>

definition no_owner_grant :: "world \<Rightarrow> bool" where
  "no_owner_grant w = ((\<forall>m \<in> set (members w). m_role m \<noteq> RoleOwner) \<and> (\<forall>n \<in> set (invites w). n_role n \<noteq> RoleOwner))"

definition item_keys :: "world \<Rightarrow> bool" where
  "item_keys w = distinct (map (\<lambda>i. (i_collection i, i_save i)) (items w))"

definition save_keys :: "world \<Rightarrow> bool" where
  "save_keys w = distinct (map s_id (saves w))"

definition items_owned :: "world \<Rightarrow> bool" where
  "items_owned w = (\<forall>i \<in> set (items w). \<exists>s \<in> set (saves w). s_id s = i_save i \<and> s_user s = i_added_by i)"

lemma member_role_in: "member_role c u w = Some role \<Longrightarrow>
  \<exists>m \<in> set (members w). m_collection m = c \<and> m_user m = u \<and> m_role m = role"
  by (auto simp: member_role_def dest!: find_Some_in)

lemma owner_iff:
  assumes "no_owner_grant w" and "find (\<lambda>r. col_id r = c) (collections w) = Some r"
  shows "Role c u w = Inr RoleOwner \<longleftrightarrow> col_owner r = u"
proof
  assume a: "Role c u w = Inr RoleOwner"
  have "member_role c u w \<noteq> Some RoleOwner"
    using assms(1) member_role_in [of c u w RoleOwner] by (auto simp: no_owner_grant_def)
  then show "col_owner r = u" using owner_role [OF assms(2) a] by blast
next
  assume "col_owner r = u"
  then show "Role c u w = Inr RoleOwner" by (simp add: Role_def assms(2))
qed

subsection \<open>Steps\<close>

text \<open>One operation of user \<open>u\<close>.  The id of a new collection is new.\<close>

inductive col_step :: "(string \<Rightarrow> string) \<Rightarrow> (string \<Rightarrow> bool) \<Rightarrow> string \<Rightarrow> world \<Rightarrow> world \<Rightarrow> bool"
  for sha is_uuid u w where
  creates: "new \<notin> col_id ` set (collections w) \<Longrightarrow>
     Create_collection is_uuid now new u name descr ids w = Inr (n, w') \<Longrightarrow> col_step sha is_uuid u w w'"
| updates: "Update_collection now c u name descr' cover w = Inr w' \<Longrightarrow> col_step sha is_uuid u w w'"
| deletes: "Delete_collection c u w = Inr w' \<Longrightarrow> col_step sha is_uuid u w w'"
| adds: "AddItems is_uuid now c u ids w = Inr (n, w') \<Longrightarrow> col_step sha is_uuid u w w'"
| removes: "RemoveItem c u s w = Inr w' \<Longrightarrow> col_step sha is_uuid u w w'"
| expels: "RemoveMember c u v w = Inr w' \<Longrightarrow> col_step sha is_uuid u w w'"
| leaves: "Leave c u w = Inr w' \<Longrightarrow> col_step sha is_uuid u w w'"
| links: "EnableLink sha now token c u w = Inr (t, ex, w') \<Longrightarrow> col_step sha is_uuid u w w'"
| unlinks: "DisableLink now c u w = Inr w' \<Longrightarrow> col_step sha is_uuid u w w'"
| invites: "CreateInvite sha now new token c u role w = Inr (t, g, w') \<Longrightarrow> col_step sha is_uuid u w w'"
| accepts: "AcceptInvite sha now token u w = Inr (c, w') \<Longrightarrow> col_step sha is_uuid u w w'"

inductive_cases col_stepE: "col_step sha is_uuid u w w'"

text \<open>What a step leaves of a collection the user does not own.\<close>

definition timeless :: "collection_row \<Rightarrow> collection_row" where
  "timeless r = r\<lparr>col_updated := 0\<rparr>"

definition settings_of :: "string \<Rightarrow> world \<Rightarrow> collection_row list" where
  "settings_of c w = map timeless (filter (\<lambda>r. col_id r = c) (collections w))"

definition grants_of :: "string \<Rightarrow> world \<Rightarrow> invite_row list" where
  "grants_of c w = map (\<lambda>n. n\<lparr>n_uses := 0\<rparr>) (filter (\<lambda>n. n_collection n = c) (invites w))"

definition items_of :: "string \<Rightarrow> world \<Rightarrow> item_row list" where
  "items_of c w = filter (\<lambda>i. i_collection i = c) (items w)"

definition others_of :: "string \<Rightarrow> string \<Rightarrow> world \<Rightarrow> member_row list" where
  "others_of c u w = filter (\<lambda>m. m_collection m = c \<and> m_user m \<noteq> u) (members w)"

lemmas scope_defs = settings_of_def grants_of_def items_of_def others_of_def

text \<open>\<open>fileSaves\<close> touches one collection's items and its time of change.\<close>

lemma fileSaves_frame:
  assumes "fileSaves is_uuid now u c ids w = Inr (n, w')"
  shows "settings_of d w' = settings_of d w" "members w' = members w" "invites w' = invites w"
    and "saves w' = saves w" "d \<noteq> c \<Longrightarrow> items_of d w' = items_of d w"
    and "map col_id (collections w') = map col_id (collections w)"
proof -
  have upd: "map timeless (filter (\<lambda>r. col_id r = d) (update_where (\<lambda>r. col_id r = c) (\<lambda>r. r\<lparr>col_updated := now\<rparr>) rs))
        = map timeless (filter (\<lambda>r. col_id r = d) rs)" for rs
    by (induction rs) (auto simp: timeless_def)
  show "settings_of d w' = settings_of d w" "members w' = members w" "invites w' = invites w"
    "saves w' = saves w" "d \<noteq> c \<Longrightarrow> items_of d w' = items_of d w"
    "map col_id (collections w') = map col_id (collections w)"
    using assms by (auto simp: fileSaves_def Let_def scope_defs upd filter_empty_conv split: if_splits)
qed

lemma update_elsewhere:
  "d \<noteq> c \<Longrightarrow> (\<And>r. col_id (f r) = col_id r) \<Longrightarrow>
   filter (\<lambda>r. col_id r = d) (update_where (\<lambda>r. col_id r = c) f rs) = filter (\<lambda>r. col_id r = d) rs"
  by (induction rs) auto

lemma grants_update:
  "map (\<lambda>n. n\<lparr>n_uses := 0\<rparr>) (filter (\<lambda>n. n_collection n = c) (update_where P (\<lambda>x. x\<lparr>n_uses := n_uses x + 1\<rparr>) ns))
   = map (\<lambda>n. n\<lparr>n_uses := 0\<rparr>) (filter (\<lambda>n. n_collection n = c) ns)"
  by (induction ns) auto

text \<open>Deleting rows of one collection keeps the rows of another.\<close>

lemma filter_elsewhere:
  "d \<noteq> c \<Longrightarrow> filter (\<lambda>x. k x = d) (filter (\<lambda>x. k x = c \<longrightarrow> P x) xs) = filter (\<lambda>x. k x = d) xs"
  "d \<noteq> c \<Longrightarrow> filter (\<lambda>x. k x = d) (filter (\<lambda>x. k x \<noteq> c) xs) = filter (\<lambda>x. k x = d) xs"
  "d \<noteq> c \<Longrightarrow> filter (\<lambda>x. k x = d \<and> Q x) (filter (\<lambda>x. k x = c \<longrightarrow> P x) xs) = filter (\<lambda>x. k x = d \<and> Q x) xs"
  "d \<noteq> c \<Longrightarrow> filter (\<lambda>x. k x = d \<and> Q x) (filter (\<lambda>x. k x \<noteq> c) xs) = filter (\<lambda>x. k x = d \<and> Q x) xs"
  "filter (\<lambda>x. k x = d \<and> l x \<noteq> u) (filter (\<lambda>x. k x = c \<longrightarrow> l x \<noteq> u) xs) = filter (\<lambda>x. k x = d \<and> l x \<noteq> u) xs"
  by (induction xs) auto

text \<open>A step of a user who does not own \<open>d\<close> leaves its settings, its invites and everybody
  else's membership alone, and leaves its items alone unless the user is an editor.\<close>

lemma col_step_confined:
  assumes "col_step sha is_uuid u w w'" and "no_owner_grant w"
    and d: "find (\<lambda>r. col_id r = d) (collections w) = Some r" and "col_owner r \<noteq> u"
  shows "settings_of d w' = settings_of d w \<and> grants_of d w' = grants_of d w
    \<and> others_of d u w' = others_of d u w
    \<and> (member_role d u w \<noteq> Some RoleEditor \<longrightarrow> items_of d w' = items_of d w)"
proof -
  have foreign: "Role d u w \<noteq> Inr RoleOwner" using owner_iff [OF assms(2) d] assms(4) by simp
  have ed: "CanEdit role \<Longrightarrow> Role d u w = Inr role \<Longrightarrow> member_role d u w = Some RoleEditor" for role
    using foreign d assms(4) by (auto simp: Role_def CanEdit_def split: option.splits if_splits)
  have dn: "d \<in> col_id ` set (collections w)" using find_Some_in [OF d] by auto
  note f = fileSaves_frame
  show ?thesis
    using assms(1)
  proof (cases rule: col_step.cases)
    case (creates new now name descr ids n)
    then have "d \<noteq> new" using dn by auto
    from creates(2) have "fileSaves is_uuid now u new ids
        (w\<lparr>collections := collections w @ [new_collection now new u name descr]\<rparr>) = Inr (n, w')"
      by (simp add: Create_collection_def split: if_splits)
    from f [OF this] \<open>d \<noteq> new\<close> show ?thesis by (simp add: scope_defs new_collection_def)
  next
    case (adds now c ids n)
    then obtain role where "Role c u w = Inr role" "CanEdit role" "fileSaves is_uuid now u c ids w = Inr (n, w')"
      by (auto simp: AddItems_def needs_Inr)
    with f [OF this(3)] ed show ?thesis by (cases "d = c") (auto simp: grants_of_def others_of_def)
  next
    case (removes c s)
    then show ?thesis
      using ed by (cases "d = c") (auto simp: RemoveItem_def needs_Inr scope_defs filter_elsewhere simp del: filter_filter)
  next
    case (deletes c)
    then have "d \<noteq> c" using foreign by (auto simp: Delete_collection_def needs_Inr)
    with deletes show ?thesis
      by (auto simp: Delete_collection_def needs_Inr scope_defs filter_elsewhere simp del: filter_filter)
  next
    case (accepts now token c)
    then show ?thesis
      by (auto simp: AcceptInvite_def scope_defs grants_update split: option.splits if_splits)
  next
    case (updates now c name descr' cover)
    then have "d \<noteq> c" using foreign by (auto simp: Update_collection_def needs_Inr)
    with updates show ?thesis
      by (auto simp: Update_collection_def needs_Inr scope_defs update_elsewhere update_collection_def)
  next
    case (expels c v)
    then have "d \<noteq> c" using foreign by (auto simp: RemoveMember_def needs_Inr)
    with expels show ?thesis
      by (auto simp: RemoveMember_def needs_Inr drop_member_def scope_defs filter_elsewhere simp del: filter_filter)
  next
    case (leaves c)
    then show ?thesis by (auto simp: Leave_def needs_Inr drop_member_def scope_defs filter_elsewhere simp del: filter_filter)
  next
    case (links now token c t ex)
    then have "d \<noteq> c" using foreign by (auto simp: EnableLink_def needs_Inr)
    with links show ?thesis by (auto simp: EnableLink_def needs_Inr scope_defs update_elsewhere)
  next
    case (unlinks now c)
    then have "d \<noteq> c" using foreign by (auto simp: DisableLink_def needs_Inr)
    with unlinks show ?thesis by (auto simp: DisableLink_def needs_Inr scope_defs update_elsewhere)
  next
    case (invites now new token c role t g)
    then have "d \<noteq> c" using foreign by (auto simp: CreateInvite_def needs_Inr)
    with invites show ?thesis by (auto simp: CreateInvite_def needs_Inr Let_def scope_defs)
  qed
qed

subsection \<open>The invariants\<close>

text \<open>No operation makes a second owner.\<close>

lemma col_step_no_owner_grant:
  assumes "col_step sha is_uuid u w w'" and "no_owner_grant w"
  shows "no_owner_grant w'"
  using assms(1)
proof (cases rule: col_step.cases)
  case (creates new now name descr ids n)
  then have "fileSaves is_uuid now u new ids
      (w\<lparr>collections := collections w @ [new_collection now new u name descr]\<rparr>) = Inr (n, w')"
    by (simp add: Create_collection_def split: if_splits)
  with fileSaves_frame(2,3) [OF this] assms(2) show ?thesis by (simp add: no_owner_grant_def)
next
  case (adds now c ids n)
  then have "fileSaves is_uuid now u c ids w = Inr (n, w')" by (auto simp: AddItems_def needs_Inr)
  with fileSaves_frame(2,3) [OF this] assms(2) show ?thesis by (simp add: no_owner_grant_def)
next
  case (accepts now token c)
  then show ?thesis using assms(2)
    by (auto simp: AcceptInvite_def no_owner_grant_def set_update_where dest!: find_Some_in split: option.splits if_splits)
next
  case (invites now new token c role t g)
  then show ?thesis using assms(2)
    by (auto simp: CreateInvite_def needs_Inr Let_def no_owner_grant_def role_defs split: if_splits)
qed (use assms(2) in \<open>auto simp: Update_collection_def Delete_collection_def RemoveItem_def RemoveMember_def Leave_def
  EnableLink_def DisableLink_def needs_Inr drop_member_def no_owner_grant_def\<close>)

text \<open>Ids of a request are cleaned once: no repetition, all valid.\<close>

lemma clean_ids_distinct: "distinct acc \<Longrightarrow> distinct (clean_ids is_uuid acc ids)"
  by (induction is_uuid acc ids rule: clean_ids.induct) (auto simp: Let_def)

lemma clean_ids_bound: "length acc < MaxSaveIDsPerRequest \<Longrightarrow> length (clean_ids is_uuid acc ids) \<le> MaxSaveIDsPerRequest"
  by (induction is_uuid acc ids rule: clean_ids.induct) (auto simp: Let_def)

lemma matched_ids_all:
  assumes "distinct ids" and "save_keys w"
    and "matching (\<lambda>s. s_id s \<in> set ids \<and> s_user s = u) (saves w) = length ids"
  shows "\<forall>s \<in> set (saves w). s_id s \<in> set ids \<longrightarrow> s_user s = u"
proof -
  let ?f = "filter (\<lambda>s. s_id s \<in> set ids \<and> s_user s = u) (saves w)"
  have d: "distinct (map s_id ?f)" using assms(2) by (simp add: save_keys_def distinct_map_filter)
  have "card (set (map s_id ?f)) = card (set ids)"
    using assms(1,3) distinct_card [OF d] distinct_card [OF assms(1)] by (simp add: matching_def)
  moreover have "set (map s_id ?f) \<subseteq> set ids" by auto
  ultimately have eq: "set (map s_id ?f) = set ids" by (simp add: card_subset_eq)
  show ?thesis
  proof (intro ballI impI)
    fix s assume s: "s \<in> set (saves w)" "s_id s \<in> set ids"
    then have "s_id s \<in> set (map s_id ?f)" using eq by simp
    then obtain t where t: "t \<in> set (saves w)" "s_id t = s_id s" "s_user t = u" by auto
    have "t = s" using distinct_key_eq [of s_id "saves w" t s] assms(2) s(1) t(1,2) by (simp add: save_keys_def)
    with t(3) show "s_user s = u" by simp
  qed
qed

lemma fileSaves_items:
  assumes "fileSaves is_uuid now u c ids w = Inr (n, w')" and "save_keys w"
  shows "items_owned w \<Longrightarrow> items_owned w'" and "item_keys w \<Longrightarrow> item_keys w'"
proof -
  let ?ids = "clean_ids is_uuid [] ids"
  let ?new = "filter (\<lambda>i. \<not> list_ex (\<lambda>x. i_collection x = c \<and> i_save x = i) (items w))
                (map s_id (filter (\<lambda>s. s_id s \<in> set ?ids) (saves w)))"
  have w': "items w' = items w \<and> saves w' = saves w \<or>
     (matching (\<lambda>s. s_id s \<in> set ?ids \<and> s_user s = u) (saves w) = length ?ids \<and> saves w' = saves w
      \<and> items w' = items w @ map (\<lambda>i. \<lparr>i_collection = c, i_save = i, i_added_by = u, i_added = now\<rparr>) ?new)"
    using assms(1) by (auto simp: fileSaves_def Let_def split: if_splits)
  have own: "\<forall>s \<in> set (saves w). s_id s \<in> set ?ids \<longrightarrow> s_user s = u"
    if "matching (\<lambda>s. s_id s \<in> set ?ids \<and> s_user s = u) (saves w) = length ?ids"
    using matched_ids_all [OF _ assms(2) that] clean_ids_distinct by simp
  show "items_owned w \<Longrightarrow> items_owned w'" using w' own by (auto simp: items_owned_def) metis
  have "distinct ?new" using assms(2) by (simp add: save_keys_def distinct_map_filter)
  then have "distinct (map (\<lambda>i. (c, i)) ?new)" by (simp add: distinct_map inj_on_def)
  moreover have "(c, i) \<notin> (\<lambda>i. (i_collection i, i_save i)) ` set (items w)" if "i \<in> set ?new" for i
    using that by (auto simp: list_ex_iff)
  ultimately show "item_keys w \<Longrightarrow> item_keys w'"
    using w' by (auto simp: item_keys_def comp_def list_ex_iff)
qed

definition col_inv :: "world \<Rightarrow> bool" where
  "col_inv w = (no_owner_grant w \<and> save_keys w \<and> items_owned w \<and> item_keys w)"

lemma items_inv_sub:
  assumes "col_inv w" and "no_owner_grant w'" and "saves w' = saves w"
    and "items w' = filter P (items w)"
  shows "col_inv w'"
  using assms by (auto simp: col_inv_def save_keys_def items_owned_def item_keys_def distinct_map_filter)

lemma items_inv_same:
  "col_inv w \<Longrightarrow> no_owner_grant w' \<Longrightarrow> saves w' = saves w \<Longrightarrow> items w' = items w \<Longrightarrow> col_inv w'"
  by (rule items_inv_sub [where P = "\<lambda>_. True"]) auto

lemma fileSaves_inv:
  "fileSaves is_uuid now u c ids w = Inr (n, w') \<Longrightarrow> col_inv w \<Longrightarrow> no_owner_grant w' \<Longrightarrow> col_inv w'"
  using fileSaves_items [of is_uuid now u c ids w n w'] fileSaves_frame(4) [of is_uuid now u c ids w n w']
  by (simp add: col_inv_def save_keys_def)

lemma col_step_inv:
  assumes step: "col_step sha is_uuid u w w'" and inv: "col_inv w"
  shows "col_inv w'"
proof -
  have g: "no_owner_grant w'" using col_step_no_owner_grant [OF step] inv by (simp add: col_inv_def)
  from step show ?thesis
  proof (cases rule: col_step.cases)
    case (creates new now name descr ids n)
    let ?w = "w\<lparr>collections := collections w @ [new_collection now new u name descr]\<rparr>"
    have "col_inv ?w" using inv by (simp add: col_inv_def no_owner_grant_def save_keys_def items_owned_def item_keys_def)
    moreover have "fileSaves is_uuid now u new ids ?w = Inr (n, w')"
      using creates by (simp add: Create_collection_def split: if_splits)
    ultimately show ?thesis using fileSaves_inv g by blast
  next
    case (adds now c ids n)
    then have "fileSaves is_uuid now u c ids w = Inr (n, w')" by (auto simp: AddItems_def needs_Inr)
    then show ?thesis using fileSaves_inv inv g by blast
  next
    case (deletes c)
    then show ?thesis by (intro items_inv_sub [OF inv g]) (auto simp: Delete_collection_def needs_Inr)
  next
    case (removes c s)
    then show ?thesis by (intro items_inv_sub [OF inv g]) (auto simp: RemoveItem_def needs_Inr)
  qed (use g in \<open>auto simp: Update_collection_def RemoveMember_def Leave_def EnableLink_def DisableLink_def
      CreateInvite_def AcceptInvite_def needs_Inr drop_member_def Let_def
      intro!: items_inv_same [OF inv] split: option.splits if_splits\<close>)
qed

text \<open>Any interleaving of operations by the users in \<open>U\<close>.\<close>

inductive col_steps :: "(string \<Rightarrow> string) \<Rightarrow> (string \<Rightarrow> bool) \<Rightarrow> string set \<Rightarrow> world \<Rightarrow> world \<Rightarrow> bool"
  for sha is_uuid U where
  col_none: "col_steps sha is_uuid U w w"
| col_more: "col_steps sha is_uuid U w v \<Longrightarrow> u \<in> U \<Longrightarrow> col_step sha is_uuid u v w' \<Longrightarrow> col_steps sha is_uuid U w w'"

lemma col_steps_inv: "col_steps sha is_uuid U w w' \<Longrightarrow> col_inv w \<Longrightarrow> col_inv w'"
  by (induction rule: col_steps.induct) (auto intro: col_step_inv)

lemma settings_find:
  "settings_of d w' = settings_of d w \<Longrightarrow> find (\<lambda>r. col_id r = d) (collections w) = Some r \<Longrightarrow>
   \<exists>r'. find (\<lambda>r. col_id r = d) (collections w') = Some r' \<and> timeless r' = timeless r"
proof -
  have hd: "map_option timeless (find (\<lambda>r. col_id r = d) rs)
      = (case map timeless (filter (\<lambda>r. col_id r = d) rs) of [] \<Rightarrow> None | x # _ \<Rightarrow> Some x)" for rs
    by (induction rs) auto
  assume "settings_of d w' = settings_of d w" "find (\<lambda>r. col_id r = d) (collections w) = Some r"
  then have "map_option timeless (find (\<lambda>r. col_id r = d) (collections w')) = Some (timeless r)"
    using hd [of "collections w"] hd [of "collections w'"] by (simp add: settings_of_def)
  then show ?thesis by auto
qed

lemma timeless_owner: "timeless r = timeless s \<Longrightarrow> col_owner r = col_owner s"
  by (metis collection_row.select_convs(2) collection_row.surjective collection_row.update_convs(10) timeless_def)

text \<open>A collection is governed by its owner: whatever the others do, its settings, its link and its
  invites stay as they are.\<close>

lemma col_steps_governed:
  assumes "col_steps sha is_uuid U w w'" and "col_inv w"
    and "find (\<lambda>r. col_id r = d) (collections w) = Some r" and "col_owner r \<notin> U"
  shows "settings_of d w' = settings_of d w \<and> grants_of d w' = grants_of d w"
  using assms
proof (induction rule: col_steps.induct)
  case (col_more w v u w')
  then have ih: "settings_of d v = settings_of d w" "grants_of d v = grants_of d w" by auto
  from settings_find [OF ih(1) col_more.prems(2)] obtain r'
    where r': "find (\<lambda>r. col_id r = d) (collections v) = Some r'" "timeless r' = timeless r" by blast
  have "no_owner_grant v" using col_steps_inv [OF col_more.hyps(1)] col_more.prems(1) by (simp add: col_inv_def)
  moreover have "col_owner r' \<noteq> u" using timeless_owner [OF r'(2)] col_more.hyps(2) col_more.prems(3) by auto
  ultimately show ?case using col_step_confined [OF col_more.hyps(3) _ r'(1)] ih by simp
qed simp

subsection \<open>Pages\<close>

interpretation item_pager: keyset_pager item_key "items_of c" "\<lambda>w after limit. item_page c after limit w" for c
proof
  fix w :: world and after :: "(time \<times> string) option" and limit
  let ?in = "\<lambda>i. case after of None \<Rightarrow> True | Some k \<Rightarrow> item_key i < k"
  have rows: "rev (sort_key item_key (filter (\<lambda>i. i_collection i = c \<and> ?in i) (items w)))
      = newest_first item_key (filter ?in (items_of c w))"
    by (simp add: newest_first_def items_of_def conj_commute)
  show "fst (item_page c after limit w) = take limit (newest_first item_key (filter ?in (items_of c w)))"
    by (simp add: item_page_def Let_def rows min_def)
  show "snd (item_page c after limit w)
     = (if limit < length (filter ?in (items_of c w)) then Some (item_key (last (fst (item_page c after limit w)))) else None)"
    if "0 < limit"
    using that by (auto simp: item_page_def Let_def rows min_def)
qed

lemma items_of_keys: "item_keys w \<Longrightarrow> distinct (map item_key (items_of c w))"
proof -
  assume "item_keys w"
  then have "distinct (map (\<lambda>i. (i_collection i, i_save i)) (items_of c w))"
    by (simp add: item_keys_def items_of_def distinct_map_filter)
  then show ?thesis by (auto simp: distinct_map inj_on_def item_key_def items_of_def)
qed

subsection \<open>The properties\<close>


text \<open>at all times the items of every collection are saves of the users who filed them, and a save is
  listed at most once in a collection, so nobody can file, or show in a shared collection, another
  user's save.\<close>

theorem items_are_their_adders_own:
  assumes "col_steps sha is_uuid U w w'" and "col_inv w"
  shows "(\<forall>i \<in> set (items w'). \<exists>s \<in> set (saves w'). s_id s = i_save i \<and> s_user s = i_added_by i)
     \<and> distinct (map (\<lambda>i. (i_collection i, i_save i)) (items w'))"
  using col_steps_inv [OF assms] by (simp add: col_inv_def items_owned_def item_keys_def)

text \<open>C13: to a user who is neither owner nor member, a collection that exists answers every operation
  exactly as one that does not, with not found, and is not in the user's list.\<close>

theorem stranger_cannot_tell_a_collection_exists:
  assumes "\<forall>r \<in> set (collections w). col_id r = c \<longrightarrow> col_owner r \<noteq> u"
    and "\<forall>m \<in> set (members w). m_collection m = c \<longrightarrow> m_user m \<noteq> u"
  shows "Get c u w = Inl ErrNotFound \<and> Members c u w = Inl ErrNotFound
    \<and> Detail c u after limit w = Inl ErrNotFound
    \<and> Update_collection now c u name descr cover w = Inl ErrNotFound
    \<and> Delete_collection c u w = Inl ErrNotFound \<and> AddItems is_uuid now c u ids w = Inl ErrNotFound
    \<and> RemoveItem c u s w = Inl ErrNotFound \<and> RemoveMember c u v w = Inl ErrNotFound
    \<and> Leave c u w = Inl ErrNotFound \<and> EnableLink sha now token c u w = Inl ErrNotFound
    \<and> DisableLink now c u w = Inl ErrNotFound \<and> CreateInvite sha now new token c u role w = Inl ErrNotFound
    \<and> c \<notin> (\<lambda>v. col_id (cv_row v)) ` set (List_collections u w)"
proof -
  have nm: "member_role c u w = None"
    using assms(2) by (auto simp: member_role_def find_None_iff)
  have R: "Role c u w = Inl ErrNotFound"
    using assms(1) nm by (auto simp: Role_def split: option.splits dest!: find_Some_in)
  have "c \<notin> (\<lambda>v. col_id (cv_row v)) ` set (List_collections u w)"
    using assms(1) nm by (auto simp: List_collections_def dest!: in_set_takeD) blast
  with R show ?thesis
    by (simp add: Get_def Members_def Detail_def Update_collection_def Delete_collection_def AddItems_def
        RemoveItem_def RemoveMember_def Leave_def EnableLink_def DisableLink_def CreateInvite_def)
qed

lemma SharedByToken_row:
  "SharedByToken sha moment token w = Inr v \<Longrightarrow>
   \<exists>r \<in> set (collections w). link_open sha moment token r \<and> col_id (cv_row v) = col_id r
      \<and> col_owner (cv_row v) = [] \<and> cv_role v = RoleViewer \<and> cv_members v = 0"
  by (auto simp: SharedByToken_def get_collection_def bind_r_Inr_iff split: option.splits dest!: find_Some_in)

lemma SharedByToken_ok: "is_ok (SharedByToken sha moment token w) = list_ex (link_open sha moment token) (collections w)"
  by (auto simp: SharedByToken_def get_collection_def list_ex_iff find_None_iff split: option.splits
      dest!: find_Some_in)

text \<open>a share link lives thirty days and is replaced or revoked at once.  When the owner mints a link,
  the token opens the collection until exactly its expiry, read-only and without the owner's name or the
  number of members; every earlier token stops opening it; and when the link is disabled the token opens
  nothing.  The hypothesis says that no other collection holds the new token's digest.\<close>

theorem share_links_expire_rotate_and_revoke:
  assumes mint: "EnableLink sha now token c u w = Inr (t, ex, w')"
    and "\<forall>r \<in> set (collections w). col_id r \<noteq> c \<longrightarrow> col_link r \<noteq> Some (HashToken sha token)"
  shows "t = token \<and> ex = now + LinkExpiry
    \<and> (\<forall>moment. is_ok (SharedByToken sha moment token w') = (moment < ex))
    \<and> (\<forall>moment old v. HashToken sha old \<noteq> HashToken sha token \<longrightarrow> SharedByToken sha moment old w' = Inr v \<longrightarrow> col_id (cv_row v) \<noteq> c)
    \<and> (\<forall>moment v. SharedByToken sha moment token w' = Inr v \<longrightarrow>
         col_id (cv_row v) = c \<and> col_owner (cv_row v) = [] \<and> cv_role v = RoleViewer \<and> cv_members v = 0)
    \<and> (\<forall>moment later w''. DisableLink later c u w' = Inr w'' \<longrightarrow> SharedByToken sha moment token w'' = Inl ErrNotFound)"
proof -
  let ?mint = "\<lambda>r. r\<lparr>col_linked := True, col_link := Some (HashToken sha token),
      col_link_expires := Some (now + LinkExpiry), col_updated := now\<rparr>"
  let ?rows = "update_where (\<lambda>r. col_id r = c) ?mint (collections w)"
  have w': "t = token" "ex = now + LinkExpiry" "collections w' = ?rows" and own: "Role c u w = Inr RoleOwner"
    using mint by (auto simp: EnableLink_def needs_Inr)
  have "\<exists>r \<in> set (collections w). col_id r = c"
    using own by (auto simp: Role_def split: option.splits dest!: find_Some_in)
  then have ok: "is_ok (SharedByToken sha moment token w') = (moment < ex)" for moment
    using assms(2) unfolding SharedByToken_ok w' list_ex_update_where
    unfolding list_ex_iff by (auto simp: link_open_def)
  have row: "\<forall>r \<in> set (collections w'). if col_id r = c then col_link r = Some (HashToken sha token) else r \<in> set (collections w)"
    by (auto simp: w'(3) set_update_where)
  have "col_id (cv_row v) \<noteq> c"
    if "HashToken sha old \<noteq> HashToken sha token" "SharedByToken sha moment old w' = Inr v" for moment old v
    using SharedByToken_row [OF that(2)] row that(1) by (fastforce simp: link_open_def)
  moreover have "col_id (cv_row v) = c \<and> col_owner (cv_row v) = [] \<and> cv_role v = RoleViewer \<and> cv_members v = 0"
    if "SharedByToken sha moment token w' = Inr v" for moment v
    using SharedByToken_row [OF that] row assms(2) by (fastforce simp: link_open_def split: if_splits)
  moreover have "SharedByToken sha moment token w'' = Inl ErrNotFound" if "DisableLink later c u w' = Inr w''" for moment later w''
  proof -
    have "list_ex (link_open sha moment token) (collections w'') = False"
      using that row assms(2) by (fastforce simp: DisableLink_def needs_Inr list_ex_iff set_update_where link_open_def)
    then show ?thesis by (simp add: SharedByToken_def list_ex_iff find_None_iff split: option.split) (auto dest!: find_Some_in)
  qed
  ultimately show ?thesis using w'(1,2) ok by blast
qed

text \<open>following the cursor from the first page shows every item of the collection exactly once, newest
  first, for every page size.\<close>

theorem collection_pages_cover_every_item_once:
  assumes "item_keys w" and "0 < limit" and "length (items_of c w) < n"
  shows "follow (\<lambda>w after limit. item_page c after limit w) n w None limit = newest_first item_key (items_of c w)
    \<and> sorted_wrt (\<lambda>x y. item_key y < item_key x) (newest_first item_key (items_of c w))
    \<and> set (newest_first item_key (items_of c w)) = set (items_of c w)"
  using item_pager.follow_all [OF items_of_keys [OF assms(1)] assms(2,3)]
    newest_first_strict [OF items_of_keys [OF assms(1)]] by simp

subsection \<open>Witnesses\<close>

text \<open>A collection of Ann's, with Bob as editor and two items.\<close>

definition sample_shared :: world where
  "sample_shared = empty_world\<lparr>
     collections := [new_collection 1 ''k1'' ''ann'' ''Trips'' []],
     members := [\<lparr>m_collection = ''k1'', m_user = ''bob'', m_role = RoleEditor, m_created = 2\<rparr>],
     saves := [\<lparr>s_id = ''s1'', s_user = ''ann'', s_content = ''c1'', s_saved = 0\<rparr>,
               \<lparr>s_id = ''s2'', s_user = ''bob'', s_content = ''c1'', s_saved = 0\<rparr>],
     items := [\<lparr>i_collection = ''k1'', i_save = ''s1'', i_added_by = ''ann'', i_added = 3\<rparr>,
               \<lparr>i_collection = ''k1'', i_save = ''s2'', i_added_by = ''bob'', i_added = 4\<rparr>]\<rparr>"

lemma sample_shared_inv: "col_inv sample_shared"
  by (simp add: col_inv_def sample_shared_def empty_world_def no_owner_grant_def save_keys_def items_owned_def
      item_keys_def role_defs)

definition sample_after :: world where
  "sample_after = sample_shared\<lparr>items := [last (items sample_shared)]\<rparr>"

lemma sample_removal: "RemoveItem ''k1'' ''bob'' ''s1'' sample_shared = Inr sample_after"
  by (simp add: RemoveItem_def needs_def Role_def member_role_def CanEdit_def sample_shared_def sample_after_def
      new_collection_def trim_space_def role_defs)

lemma sample_removal_step: "col_steps sha is_uuid {''bob''} sample_shared sample_after"
  by (rule col_steps.col_more [OF col_steps.col_none _ col_step.removes [OF sample_removal]]) simp


theorem items_are_their_adders_own_witness:
  "items_owned sample_after \<and> distinct (map (\<lambda>i. (i_collection i, i_save i)) (items sample_after))"
  using items_are_their_adders_own [OF sample_removal_step [of "\<lambda>s. s" "\<lambda>s. True"] sample_shared_inv]
  unfolding items_owned_def by blast

theorem stranger_cannot_tell_a_collection_exists_witness:
  "Get ''k1'' ''eve'' sample_shared = Inl ErrNotFound \<and> is_ok (Get ''k1'' ''bob'' sample_shared)"
proof -
  have "is_ok (Get ''k1'' ''bob'' sample_shared)"
    by (simp add: Get_def Role_def get_collection_def member_role_def sample_shared_def new_collection_def RoleEditor_def)
  then show ?thesis
    using stranger_cannot_tell_a_collection_exists [of sample_shared "''k1''" "''eve''"]
    by (simp add: sample_shared_def empty_world_def new_collection_def)
qed

theorem share_links_expire_rotate_and_revoke_witness:
  "\<exists>t ex w'. EnableLink (\<lambda>s. s) 5 ''tok'' ''k1'' ''ann'' sample_shared = Inr (t, ex, w')
     \<and> is_ok (SharedByToken (\<lambda>s. s) 6 ''tok'' w') \<and> \<not> is_ok (SharedByToken (\<lambda>s. s) (5 + LinkExpiry) ''tok'' w')"
proof -
  have "\<exists>r. EnableLink (\<lambda>s. s) 5 ''tok'' ''k1'' ''ann'' sample_shared = Inr r"
    by (simp add: EnableLink_def needs_def Role_def sample_shared_def new_collection_def)
  then obtain t ex w' where mint: "EnableLink (\<lambda>s. s) 5 ''tok'' ''k1'' ''ann'' sample_shared = Inr (t, ex, w')"
    by (metis prod_cases3)
  have "\<forall>r \<in> set (collections sample_shared). col_id r \<noteq> ''k1'' \<longrightarrow> col_link r \<noteq> Some (HashToken (\<lambda>s. s) ''tok'')"
    by (simp add: sample_shared_def new_collection_def)
  from share_links_expire_rotate_and_revoke [OF mint this] mint show ?thesis
    by (auto simp: LinkExpiry_def)
qed

theorem collection_pages_cover_every_item_once_witness:
  "follow (\<lambda>w after limit. item_page ''k1'' after limit w) 3 sample_shared None 1
   = newest_first item_key (items_of ''k1'' sample_shared)"
  using collection_pages_cover_every_item_once [of sample_shared 1 "''k1''" 3] sample_shared_inv
  by (simp add: col_inv_def sample_shared_def items_of_def)

end
