(* ===== verification/Enqueue.thy ===== *)
theory Enqueue
  imports Retries Collections
begin

text \<open>
  The submission use case (\<open>internal/enqueue/enqueue.go\<close>) and its transaction
  (\<open>internal/postgres/enqueue.go\<close>): a shared link becomes at most one live run, however many
  users share it.  \<open>sha\<close> is the hex digest of SHA-256, the resolver and the spending gate are
  arguments, and so are the ids PostgreSQL would generate.  The ids of a request are compared as text, so
  they are canonical.  Two events outside the transaction are arguments too: \<open>raced\<close>, that another
  user's submission committed the same content between the SELECT and the INSERT, and \<open>blocked\<close>,
  the trigger that refuses blocklisted sources.
\<close>

definition MaxActiveJobs :: nat where "MaxActiveJobs = 5"
definition IdempotencyLifetime :: duration where "IdempotencyLifetime = 24 * hour"

record request =
  rq_user :: string
  rq_url :: string
  rq_payload :: string
  rq_collections :: "string list"
  rq_key :: string
  rq_endpoint :: string

record submission =
  sub_request :: request
  sub_identity :: source_identity
  sub_scope :: string
  sub_routing :: string
  sub_type :: string
  sub_event :: string

text \<open>The wire shapes: \<open>reels.ReelRecord\<close> as \<open>loadSavedReel\<close> fills it, and \<open>Job\<close>.\<close>

record reel_record =
  rr_id :: string
  rr_user :: string
  rr_url :: string
  rr_platform :: string
  rr_type :: string
  rr_title :: string
  rr_summary :: string
  rr_transcript :: string
  rr_tags :: "string list"
  rr_facts :: "string list"
  rr_created :: time

record enqueue_job =
  ej_id :: string
  ej_status :: job_status
  ej_url :: string
  ej_platform :: "string option"
  ej_step :: "string option"
  ej_progress :: int
  ej_failure :: "string option"
  ej_reel :: "string option"
  ej_collections :: "string list"
  ej_created :: time
  ej_updated :: time

record outcome =
  res_kind :: outcome_kind
  res_reel :: "reel_record option"
  res_job :: "enqueue_job option"
  res_replayed :: bool

definition WasAlreadySaved :: "outcome \<Rightarrow> bool" where
  "WasAlreadySaved r = (res_kind r = AlreadySaved \<or> res_kind r = InFlight)"

record fresh_ids =
  f_content :: string
  f_run :: string
  f_save :: string
  f_job :: string

subsection \<open>Idempotency\<close>

definition URLHash :: "(string \<Rightarrow> string) \<Rightarrow> string \<Rightarrow> string" where
  "URLHash sha url = take 32 (sha url)"

text \<open>\<open>%v\<close> prints a slice of strings between brackets, separated by blanks.\<close>

definition requestHash :: "(string \<Rightarrow> string) \<Rightarrow> submission \<Rightarrow> string" where
  "requestHash sha s =
     (let r = sub_request s
      in sha (join_with ''|'' [rq_endpoint r, rq_url r, rq_payload r,
                               ''['' @ join_with '' '' (rq_collections r) @ '']'']))"

definition loadSavedReel :: "string \<Rightarrow> string \<Rightarrow> world \<Rightarrow> err + reel_record" where
  "loadSavedReel user save w =
     (case find (\<lambda>s. s_id s = save \<and> s_user s = user) (saves w) of
        None \<Rightarrow> Inl ErrReelNotFound
      | Some s \<Rightarrow>
          (case find (\<lambda>c. c_id c = s_content s) (contents w) of
             None \<Rightarrow> Inl ErrReelNotFound
           | Some c \<Rightarrow>
               (let v = (case c_current c of None \<Rightarrow> None | Some i \<Rightarrow> find (\<lambda>v. v_id v = i) (versions w));
                    text = (\<lambda>f. case v of None \<Rightarrow> [] | Some x \<Rightarrow> f x);
                    texts = (\<lambda>f. case v of None \<Rightarrow> [] | Some x \<Rightarrow> f x)
                in Inr \<lparr>rr_id = s_id s, rr_user = s_user s, rr_url = c_normalized c, rr_platform = c_platform c,
                        rr_type = c_type c, rr_title = text v_title, rr_summary = text v_summary,
                        rr_transcript = text v_transcript, rr_tags = texts v_tags, rr_facts = texts v_facts,
                        rr_created = s_saved s\<rparr>)))"

definition job_view :: "job_row \<Rightarrow> enqueue_job" where
  "job_view j =
     \<lparr>ej_id = job_id j, ej_status = job_state j, ej_url = job_url j, ej_platform = job_platform j,
      ej_step = job_step j, ej_progress = job_progress j, ej_failure = job_failure j, ej_reel = job_save j,
      ej_collections = job_collections j, ej_created = job_created j, ej_updated = job_updated j\<rparr>"

definition loadJob :: "string \<Rightarrow> string \<Rightarrow> world \<Rightarrow> err + enqueue_job" where
  "loadJob user i w =
     (case find (\<lambda>j. job_id j = i \<and> job_user j = user) (jobs w) of
        None \<Rightarrow> Inl ErrNoRows
      | Some j \<Rightarrow> Inr (job_view j))"

text \<open>\<open>replay\<close> never sets \<open>Replayed\<close>.\<close>

definition replay :: "string \<Rightarrow> stored_result \<Rightarrow> world \<Rightarrow> err + outcome" where
  "replay user st w =
     (if st_kind st = AlreadySaved \<or> st_kind st = Reused
      then bind_r (loadSavedReel user (st_save st) w) (\<lambda>r.
             Inr \<lparr>res_kind = st_kind st, res_reel = Some r, res_job = None, res_replayed = False\<rparr>)
      else bind_r (loadJob user (st_job st) w) (\<lambda>j.
             Inr \<lparr>res_kind = st_kind st, res_reel = None, res_job = Some j, res_replayed = False\<rparr>))"

definition statusFor :: "outcome_kind \<Rightarrow> int" where
  "statusFor k = (if k = Accepted \<or> k = InFlight then 202 else 200)"

definition idem_match :: "request \<Rightarrow> idem_row \<Rightarrow> bool" where
  "idem_match r k = (k_user k = rq_user r \<and> k_endpoint k = rq_endpoint r \<and> k_key k = rq_key r)"

text \<open>The primary key refuses a second row for the same user, endpoint and key, expired or not.\<close>

definition finish :: "time \<Rightarrow> submission \<Rightarrow> string \<Rightarrow> stored_result \<Rightarrow> world \<Rightarrow> err + (outcome \<times> world)" where
  "finish now s hash st w =
     (let r = sub_request s
      in if list_ex (idem_match r) (idem w) then Inl ErrUnique
         else (let w1 = w\<lparr>idem := idem w @ [\<lparr>k_user = rq_user r, k_endpoint = rq_endpoint r, k_key = rq_key r,
                   k_hash = hash, k_status = statusFor (st_kind st), k_body = st,
                   k_expires = now + IdempotencyLifetime\<rparr>]\<rparr>
               in bind_r (replay (rq_user r) st w1) (\<lambda>out. Inr (out, w1))))"

subsection \<open>The steps of a new submission\<close>

definition requireFilableCollections :: "string \<Rightarrow> string list \<Rightarrow> world \<Rightarrow> err option" where
  "requireFilableCollections user ids w =
     (if 0 < length (filter (\<lambda>i. \<not> list_ex (\<lambda>c. col_id c = i \<and> can_file user w c) (collections w)) ids)
      then Some ErrCollectionUnreachable else None)"

definition has_version :: "content_row \<Rightarrow> bool" where
  "has_version c = (c_current c \<noteq> None)"

text \<open>\<open>LIMIT 1\<close> of the newest: of two rows with one time the later one.\<close>

definition newest :: "('r \<Rightarrow> time) \<Rightarrow> 'r list \<Rightarrow> 'r option" where
  "newest key rows = (case rev (sort_key key rows) of [] \<Rightarrow> None | r # _ \<Rightarrow> Some r)"

definition findExisting :: "(string \<Rightarrow> string) \<Rightarrow> string \<Rightarrow> string \<Rightarrow> world \<Rightarrow> stored_result" where
  "findExisting sha user url w =
     (case newest s_saved (filter (\<lambda>s. s_user s = user \<and> list_ex (\<lambda>c. c_id c = s_content s
               \<and> c_hash c = URLHash sha url \<and> c_normalized c = url \<and> has_version c) (contents w)) (saves w)) of
        Some s \<Rightarrow> \<lparr>st_kind = AlreadySaved, st_save = s_id s, st_job = []\<rparr>
      | None \<Rightarrow>
          (case newest job_created (filter (\<lambda>j. job_user j = user \<and> job_normalized j = url \<and> active_status (job_state j)) (jobs w)) of
             Some j \<Rightarrow> \<lparr>st_kind = InFlight, st_save = [], st_job = job_id j\<rparr>
           | None \<Rightarrow> \<lparr>st_kind = Accepted, st_save = [], st_job = []\<rparr>))"

text \<open>\<open>ARRAY(SELECT DISTINCT unnest(...))\<close>; the order of the array is not specified.\<close>

definition mergeJobCollections :: "time \<Rightarrow> string \<Rightarrow> string list \<Rightarrow> world \<Rightarrow> world" where
  "mergeJobCollections now i ids w =
     (if ids = [] then w
      else w\<lparr>jobs := update_where (\<lambda>j. job_id j = i)
               (\<lambda>j. j\<lparr>job_collections := remdups (job_collections j @ ids), job_updated := now\<rparr>) (jobs w)\<rparr>)"

fun fileSubmission :: "(string \<Rightarrow> bool) \<Rightarrow> time \<Rightarrow> string \<Rightarrow> string \<Rightarrow> string list \<Rightarrow> world \<Rightarrow> err + world" where
  "fileSubmission is_uuid now user save [] w = Inr w"
| "fileSubmission is_uuid now user save (c # cs) w =
     bind_r (fileSaves is_uuid now user c [save] w) (\<lambda>(_, w1). fileSubmission is_uuid now user save cs w1)"

definition same_content :: "(string \<Rightarrow> string) \<Rightarrow> submission \<Rightarrow> content_row \<Rightarrow> bool" where
  "same_content sha s c =
     (let i = sub_identity s
      in if id_content i \<noteq> []
         then c_platform c = id_platform i \<and> c_type c = id_type i \<and> c_source c = Some (id_content i)
              \<and> c_scope c = sub_scope s
         else c_hash c = URLHash sha (id_normalized i) \<and> c_scope c = sub_scope s \<and> c_source c = None)"

definition new_content :: "(string \<Rightarrow> string) \<Rightarrow> string \<Rightarrow> submission \<Rightarrow> content_row" where
  "new_content sha new s =
     (let i = sub_identity s
      in \<lparr>c_id = new, c_platform = id_platform i, c_type = id_type i,
          c_source = (if id_content i \<noteq> [] then Some (id_content i) else None),
          c_normalized = id_normalized i, c_hash = URLHash sha (id_normalized i),
          c_scope = sub_scope s, c_current = None\<rparr>)"

text \<open>A unique violation aborts the PostgreSQL transaction, so the re-read after it fails too.\<close>

definition findOrCreateContent ::
  "(string \<Rightarrow> string) \<Rightarrow> bool \<Rightarrow> (content_row \<Rightarrow> bool) \<Rightarrow> string \<Rightarrow> submission \<Rightarrow> world \<Rightarrow> err + (string \<times> world)" where
  "findOrCreateContent sha raced blocked new s w =
     (case find (same_content sha s) (contents w) of
        Some c \<Rightarrow> Inr (c_id c, w)
      | None \<Rightarrow>
          if blocked (new_content sha new s) then Inl (ErrOther ''source is blocklisted and cannot be ingested'')
          else if raced then Inl (ErrOther ''current transaction is aborted'')
          else Inr (new, w\<lparr>contents := contents w @ [new_content sha new s]\<rparr>))"

definition new_run :: "time \<Rightarrow> string \<Rightarrow> string \<Rightarrow> run_row" where
  "new_run now new c =
     \<lparr>run_id = new, run_content = c, run_version = ProcessorVersion, run_state = RunQueued,
      run_stage = ''prepare'', run_owner = None, run_expires = None, run_generation = 0,
      run_failure_code = None, run_failure_message = None, run_created = now, run_updated = now\<rparr>"

definition live_run_of :: "string \<Rightarrow> run_row \<Rightarrow> bool" where
  "live_run_of c r = (run_content r = c \<and> run_version r = ProcessorVersion \<and> live_status (run_state r))"

definition findOrCreateRun :: "time \<Rightarrow> string \<Rightarrow> string \<Rightarrow> world \<Rightarrow> (string \<times> bool) \<times> world" where
  "findOrCreateRun now new c w =
     (case sort_key run_created (filter (live_run_of c) (runs w)) of
        [] \<Rightarrow> ((new, True), w\<lparr>runs := runs w @ [new_run now new c]\<rparr>)
      | r # _ \<Rightarrow> ((run_id r, False), w))"

definition active_jobs :: "string \<Rightarrow> world \<Rightarrow> nat" where
  "active_jobs user w = matching (\<lambda>j. job_user j = user \<and> active_status (job_state j)) (jobs w)"

definition reuse_job :: "time \<Rightarrow> string \<Rightarrow> string \<Rightarrow> submission \<Rightarrow> job_row" where
  "reuse_job now new save s =
     \<lparr>job_id = new, job_user = rq_user (sub_request s), job_run = None, job_save = Some save,
      job_url = id_original (sub_identity s), job_normalized = id_normalized (sub_identity s),
      job_platform = Some (id_platform (sub_identity s)), job_state = JobCompleted,
      job_step = Some ''completed'', job_progress = 100, job_failure = None,
      job_collections = rq_collections (sub_request s), job_created = now, job_updated = now,
      job_completed = Some now\<rparr>"

definition queued_job :: "time \<Rightarrow> string \<Rightarrow> string \<Rightarrow> submission \<Rightarrow> job_row" where
  "queued_job now new run s =
     \<lparr>job_id = new, job_user = rq_user (sub_request s), job_run = Some run, job_save = None,
      job_url = id_original (sub_identity s), job_normalized = id_normalized (sub_identity s),
      job_platform = Some (id_platform (sub_identity s)), job_state = JobQueued,
      job_step = Some ''queued'', job_progress = 0, job_failure = None,
      job_collections = rq_collections (sub_request s), job_created = now, job_updated = now,
      job_completed = None\<rparr>"

subsection \<open>The transaction\<close>

text \<open>What the transaction takes from outside.\<close>

record store_env =
  se_sha :: "string \<Rightarrow> string"
  se_uuid :: "string \<Rightarrow> bool"
  se_now :: time
  se_ids :: fresh_ids
  se_raced :: bool
  se_blocked :: "content_row \<Rightarrow> bool"
  se_fault :: "string option"

definition ready :: "outcome_kind \<Rightarrow> string \<Rightarrow> stored_result" where
  "ready k save = \<lparr>st_kind = k, st_save = save, st_job = []\<rparr>"

definition pending_job :: "outcome_kind \<Rightarrow> string \<Rightarrow> stored_result" where
  "pending_job k j = \<lparr>st_kind = k, st_save = [], st_job = j\<rparr>"

text \<open>The branch for content somebody already processed: a save and a finished job.\<close>

definition reuse_content ::
  "store_env \<Rightarrow> submission \<Rightarrow> string \<Rightarrow> string \<Rightarrow> world \<Rightarrow> err + (outcome \<times> world)" where
  "reuse_content e s hash c w =
     (let r = sub_request s;
          (save, w1) = upsert_save (f_save (se_ids e)) (se_now e) (rq_user r) c w;
          w2 = w1\<lparr>jobs := jobs w1 @ [reuse_job (se_now e) (f_job (se_ids e)) save s]\<rparr>
      in bind_r (fileSubmission (se_uuid e) (se_now e) (rq_user r) save (rq_collections r) w2)
           (finish (se_now e) s hash (ready Reused save)))"

text \<open>The branch for unprocessed content: the live run or a new one, the user's job, and the event of a
  new run.\<close>

definition join_run :: "store_env \<Rightarrow> submission \<Rightarrow> string \<Rightarrow> string \<Rightarrow> world \<Rightarrow> err + (outcome \<times> world)" where
  "join_run e s hash c w =
     (let r = sub_request s;
          ((run, created), w1) = findOrCreateRun (se_now e) (f_run (se_ids e)) c w;
          (kind, job, w2) =
            (case find (\<lambda>j. job_user j = rq_user r \<and> job_run j = Some run) (jobs w1) of
               None \<Rightarrow> (Accepted, f_job (se_ids e),
                        w1\<lparr>jobs := jobs w1 @ [queued_job (se_now e) (f_job (se_ids e)) run s]\<rparr>)
             | Some j \<Rightarrow> (InFlight, job_id j, mergeJobCollections (se_now e) (job_id j) (rq_collections r) w1))
      in bind_r (if created
                 then Insert (se_now e) \<lparr>e_id = sub_event s, e_type = sub_type s, e_key = sub_routing s,
                        e_run = run, e_generation = 0, e_available = None\<rparr> w2
                 else Inr w2)
           (finish (se_now e) s hash (pending_job kind job)))"

definition submitNew :: "store_env \<Rightarrow> submission \<Rightarrow> string \<Rightarrow> world \<Rightarrow> err + (outcome \<times> world)" where
  "submitNew e s hash w =
     (let r = sub_request s
      in case requireFilableCollections (rq_user r) (rq_collections r) w of Some er \<Rightarrow> Inl er | None \<Rightarrow>
         (let existing = findExisting (se_sha e) (rq_user r) (id_normalized (sub_identity s)) w
          in if st_kind existing = AlreadySaved then
               bind_r (fileSubmission (se_uuid e) (se_now e) (rq_user r) (st_save existing) (rq_collections r) w)
                 (finish (se_now e) s hash existing)
             else if st_kind existing = InFlight then
               finish (se_now e) s hash existing
                 (mergeJobCollections (se_now e) (st_job existing) (rq_collections r) w)
             else if MaxActiveJobs \<le> active_jobs (rq_user r) w then Inl ErrActiveJobLimit
             else bind_r (findOrCreateContent (se_sha e) (se_raced e) (se_blocked e) (f_content (se_ids e)) s w) (\<lambda>(c, w1).
               (let own = find (\<lambda>x. s_user x = rq_user r \<and> s_content x = c) (saves w1);
                    done_already = list_ex (\<lambda>x. c_id x = c \<and> has_version x) (contents w1)
                in case own of
                     Some x \<Rightarrow>
                       if done_already
                       then bind_r (fileSubmission (se_uuid e) (se_now e) (rq_user r) (s_id x) (rq_collections r) w1)
                              (finish (se_now e) s hash (ready AlreadySaved (s_id x)))
                       else join_run e s hash c w1
                   | None \<Rightarrow>
                       if done_already then reuse_content e s hash c w1
                       else join_run e s hash c w1))))"

text \<open>\<open>Submit\<close>: a stored answer is replayed; a new one is told to the dispatcher after the
  commit.  A driver error ends either with nothing written.\<close>

definition Submit :: "store_env \<Rightarrow> submission \<Rightarrow> world \<Rightarrow> err + (outcome \<times> world)" where
  "Submit e s w =
     with_fault (se_fault e)
       (case find (\<lambda>k. idem_match (sub_request s) k \<and> se_now e < k_expires k) (idem w) of
          Some k \<Rightarrow>
            if k_hash k \<noteq> requestHash (se_sha e) s then Inl ErrIdempotencyMismatch
            else bind_r (replay (rq_user (sub_request s)) (k_body k) w) (\<lambda>out. Inr (out, w))
        | None \<Rightarrow>
            bind_r (submitNew e s (requestHash (se_sha e) s) w) (\<lambda>(out, w1). Inr (out, Notify w1)))"

subsection \<open>The service\<close>

definition mediaPlatforms :: "string list" where
  "mediaPlatforms = [''instagram'', ''youtube'', ''tiktok'']"

definition prepare_submission ::
  "(string \<Rightarrow> string) \<Rightarrow> (string \<Rightarrow> bool) \<Rightarrow> (string \<Rightarrow> string + source_identity) \<Rightarrow> (string \<Rightarrow> string + source_identity)
   \<Rightarrow> (string \<Rightarrow> string \<Rightarrow> err option) option \<Rightarrow> string \<Rightarrow> request \<Rightarrow> err + submission" where
  "prepare_submission sha is_uuid resolve resolve_payload gate event r =
     (if rq_user r = [] then Inl (ErrOther ''submission has no user'')
      else if \<not> is_uuid (trim_space (rq_key r)) then Inl ErrUnsupported
      else if \<not> list_all (\<lambda>c. is_uuid (trim_space c)) (rq_collections r) then Inl ErrCollectionUnreachable
      else (case (if rq_url r \<noteq> [] then resolve (rq_url r)
                  else if rq_payload r \<noteq> [] then resolve_payload (rq_payload r)
                  else Inl ''no url and no shared text'') of
              Inl _ \<Rightarrow> Inl ErrUnsupported
            | Inr i \<Rightarrow>
                (case scope_Hash sha (ForUser (rq_user r) (id_scope i)) of
                   Inl _ \<Rightarrow> Inl (ErrOther ''qualifying the access scope'')
                 | Inr scope \<Rightarrow>
                     (let media = id_platform i \<in> set mediaPlatforms
                      in case (case gate of None \<Rightarrow> None
                               | Some allow \<Rightarrow> allow (id_platform i) (if media then ''media'' else ''light'')) of
                           Some e \<Rightarrow> Inl e
                         | None \<Rightarrow> Inr \<lparr>sub_request = r, sub_identity = i, sub_scope = scope,
                             sub_routing = (if media then QueueMedia else QueueLight),
                             sub_type = (if media then EventProcessMedia else EventProcessLight),
                             sub_event = event\<rparr>))))"

definition Service_Submit ::
  "(string \<Rightarrow> string + source_identity) \<Rightarrow> (string \<Rightarrow> string + source_identity)
   \<Rightarrow> (string \<Rightarrow> string \<Rightarrow> err option) option \<Rightarrow> string \<Rightarrow> store_env \<Rightarrow> request \<Rightarrow> world \<Rightarrow> err + (outcome \<times> world)" where
  "Service_Submit resolve resolve_payload gate event e r w =
     bind_r (prepare_submission (se_sha e) (se_uuid e) resolve resolve_payload gate event r)
       (\<lambda>s. Submit e s w)"

subsection \<open>What a submission changes\<close>

text \<open>The part of the world the queue sees.\<close>

definition same_work :: "world \<Rightarrow> world \<Rightarrow> bool" where
  "same_work w w' = (runs w' = runs w \<and> events w' = events w)"

definition open_jobs :: "world \<Rightarrow> (string \<times> string option) list" where
  "open_jobs w = map (\<lambda>j. (job_user j, job_run j)) (filter (\<lambda>j. active_status (job_state j)) (jobs w))"

definition same_jobs :: "store_env \<Rightarrow> world \<Rightarrow> world \<Rightarrow> bool" where
  "same_jobs e w w' =
     (open_jobs w' = open_jobs w
      \<and> (map job_id (jobs w') = map job_id (jobs w) \<or> map job_id (jobs w') = map job_id (jobs w) @ [f_job (se_ids e)]))"

lemma active_jobs_open: "active_jobs u w = length (filter (\<lambda>p. fst p = u) (open_jobs w))"
  by (simp add: active_jobs_def open_jobs_def matching_def filter_map comp_def conj_commute)

lemma fileSaves_rest:
  assumes "fileSaves is_uuid now u c ids w = Inr (n, w')"
  shows "runs w' = runs w \<and> events w' = events w \<and> jobs w' = jobs w \<and> idem w' = idem w
    \<and> contents w' = contents w \<and> versions w' = versions w \<and> saves w' = saves w"
  using assms by (auto simp: fileSaves_def Let_def split: if_splits)

lemma fileSubmission_rest:
  "fileSubmission is_uuid now u save cs w = Inr w' \<Longrightarrow>
   runs w' = runs w \<and> events w' = events w \<and> jobs w' = jobs w \<and> idem w' = idem w
    \<and> contents w' = contents w \<and> versions w' = versions w \<and> saves w' = saves w"
proof (induction cs arbitrary: w)
  case (Cons c cs)
  then obtain n w1 where f: "fileSaves is_uuid now u c [save] w = Inr (n, w1)"
    and r: "fileSubmission is_uuid now u save cs w1 = Inr w'" by (auto simp: bind_r_Inr_iff)
  from fileSaves_rest [OF f] Cons.IH [OF r] show ?case by simp
qed simp

lemma finish_Inr:
  assumes "finish now s hash st w = Inr (out, w')"
  shows "\<not> list_ex (idem_match (sub_request s)) (idem w)"
    and "replay (rq_user (sub_request s)) st w' = Inr out"
    and "w' = w\<lparr>idem := idem w @ [\<lparr>k_user = rq_user (sub_request s), k_endpoint = rq_endpoint (sub_request s),
          k_key = rq_key (sub_request s), k_hash = hash, k_status = statusFor (st_kind st), k_body = st,
          k_expires = now + IdempotencyLifetime\<rparr>]\<rparr>"
  using assms by (auto simp: finish_def Let_def bind_r_Inr_iff split: if_splits)

lemma mergeJobCollections_rest [simp]:
  "runs (mergeJobCollections now i ids w) = runs w" "events (mergeJobCollections now i ids w) = events w"
  "idem (mergeJobCollections now i ids w) = idem w" "contents (mergeJobCollections now i ids w) = contents w"
  by (simp_all add: mergeJobCollections_def)

lemma open_jobs_update:
  assumes "\<And>j. job_user (f j) = job_user j" and "\<And>j. job_run (f j) = job_run j" and "\<And>j. job_state (f j) = job_state j"
  shows "open_jobs (w\<lparr>jobs := update_where P f (jobs w)\<rparr>) = open_jobs w"
proof -
  have "map (\<lambda>j. (job_user j, job_run j)) (filter (\<lambda>j. active_status (job_state j)) (update_where P f js))
      = map (\<lambda>j. (job_user j, job_run j)) (filter (\<lambda>j. active_status (job_state j)) js)" for js
    by (induction js) (simp_all add: assms)
  then show ?thesis by (simp add: open_jobs_def)
qed

lemma merge_jobs [simp]:
  "open_jobs (mergeJobCollections now i ids w) = open_jobs w"
  "map job_id (jobs (mergeJobCollections now i ids w)) = map job_id (jobs w)"
  by (simp_all add: mergeJobCollections_def open_jobs_update)

lemma open_jobs_idem [simp]: "open_jobs (w\<lparr>idem := x\<rparr>) = open_jobs w"
  by (simp add: open_jobs_def)

lemma findOrCreateContent_rest:
  "findOrCreateContent sha raced blocked new s w = Inr (c, w') \<Longrightarrow>
   runs w' = runs w \<and> events w' = events w \<and> jobs w' = jobs w \<and> saves w' = saves w \<and> idem w' = idem w"
  by (auto simp: findOrCreateContent_def split: option.splits if_splits)

lemma upsert_save_rest:
  "upsert_save new now u c w = (save, w') \<Longrightarrow>
   runs w' = runs w \<and> events w' = events w \<and> jobs w' = jobs w \<and> idem w' = idem w"
  by (auto simp: upsert_save_def split: option.splits)

text \<open>A submission that succeeds and is not a replay does one of three things: it changes no work and no
  job; it adds the user one active job on a run that is live already; or it creates the content's live run, the
  user's job on it and the one event that starts it.\<close>

definition joined :: "store_env \<Rightarrow> submission \<Rightarrow> world \<Rightarrow> world \<Rightarrow> bool" where
  "joined e s w w' =
     (same_work w w' \<and> active_jobs (rq_user (sub_request s)) w < MaxActiveJobs
      \<and> (\<exists>r \<in> set (runs w). live_status (run_state r) \<and> run_version r = ProcessorVersion
           \<and> jobs w' = jobs w @ [queued_job (se_now e) (f_job (se_ids e)) (run_id r) s]))"

definition start_event :: "store_env \<Rightarrow> submission \<Rightarrow> event" where
  "start_event e s =
     \<lparr>e_id = sub_event s, e_type = sub_type s, e_key = sub_routing s, e_run = f_run (se_ids e),
      e_generation = 0, e_available = None\<rparr>"

definition started :: "store_env \<Rightarrow> submission \<Rightarrow> world \<Rightarrow> world \<Rightarrow> bool" where
  "started e s w w' =
     (active_jobs (rq_user (sub_request s)) w < MaxActiveJobs
      \<and> (\<exists>c. (\<forall>r \<in> set (runs w). \<not> live_run_of c r)
           \<and> runs w' = runs w @ [new_run (se_now e) (f_run (se_ids e)) c]
           \<and> (\<exists>j. job_id j = f_job (se_ids e) \<and> job_run j = Some (f_run (se_ids e)) \<and> job_user j = rq_user (sub_request s)
                \<and> jobs w' = jobs w @ [j] \<and> active_status (job_state j))
           \<and> (\<exists>w2. Insert (se_now e) (start_event e s) w = Inr w2 \<and> events w' = events w2)))"

definition fresh_in :: "store_env \<Rightarrow> world \<Rightarrow> bool" where
  "fresh_in e w =
     ((\<forall>r \<in> set (runs w). run_id r \<noteq> f_run (se_ids e)) \<and> (\<forall>j \<in> set (jobs w). job_id j \<noteq> f_job (se_ids e))
      \<and> (\<forall>j \<in> set (jobs w). job_run j \<noteq> Some (f_run (se_ids e))))"

lemma active_jobs_append: "active_jobs u (w\<lparr>jobs := jobs w @ [j]\<rparr>)
   = active_jobs u w + (if job_user j = u \<and> active_status (job_state j) then 1 else 0)"
  by (simp add: active_jobs_def matching_def)

lemma open_jobs_append:
  "open_jobs (w\<lparr>jobs := jobs w @ [j]\<rparr>) = open_jobs w @ (if active_status (job_state j) then [(job_user j, job_run j)] else [])"
  by (simp add: open_jobs_def)

lemma open_jobs_cong: "jobs w' = jobs w \<Longrightarrow> open_jobs w' = open_jobs w"
  by (simp add: open_jobs_def)

lemma active_jobs_cong: "jobs w' = jobs w \<Longrightarrow> active_jobs u w' = active_jobs u w"
  by (simp add: active_jobs_def)

lemma Insert_events:
  assumes "Insert now ev w2 = Inr w3" and "events w2 = events w"
  shows "\<exists>w1. Insert now ev w = Inr w1 \<and> events w3 = events w1" and "runs w3 = runs w2" and "jobs w3 = jobs w2"
  using assms by (auto simp: Insert_def insert_event_def split: if_splits)

lemma effect_cong:
  assumes "runs v = runs w" and "events v = events w" and "jobs v = jobs w"
  shows "same_work v w' = same_work w w'" and "same_jobs e v w' = same_jobs e w w'"
    and "joined e s v w' = joined e s w w'" and "started e s v w' = started e s w w'"
proof -
  have a: "active_jobs u v = active_jobs u w" for u by (rule active_jobs_cong [OF assms(3)])
  have i: "(\<exists>x. Insert now ev v = Inr x \<and> es = events x) = (\<exists>x. Insert now ev w = Inr x \<and> es = events x)" for now ev es
    using Insert_events(1) [of now ev v _ w] Insert_events(1) [of now ev w _ v] assms(2) by metis
  show "same_work v w' = same_work w w'" "same_jobs e v w' = same_jobs e w w'" "joined e s v w' = joined e s w w'"
    by (simp_all add: same_work_def same_jobs_def joined_def a open_jobs_cong [OF assms(3)] assms)
  show "started e s v w' = started e s w w'" by (simp add: started_def a assms i)
qed

lemma find_live_run:
  assumes "findOrCreateRun now new c w = ((run, created), w')"
  shows "if created then run = new \<and> (\<forall>r \<in> set (runs w). \<not> live_run_of c r) \<and> w' = w\<lparr>runs := runs w @ [new_run now new c]\<rparr>
    else w' = w \<and> (\<exists>r \<in> set (runs w). live_run_of c r \<and> run_id r = run)"
proof (cases "sort_key run_created (filter (live_run_of c) (runs w))")
  case Nil
  then have "set (filter (live_run_of c) (runs w)) = {}" by (metis set_empty set_sort)
  with Nil assms show ?thesis by (auto simp: findOrCreateRun_def filter_empty_conv)
next
  case (Cons r rs)
  then have "r \<in> set (filter (live_run_of c) (runs w))" by (metis list.set_intros(1) set_sort)
  with Cons assms show ?thesis by (auto simp: findOrCreateRun_def)
qed

lemma join_run_effect:
  assumes run: "join_run e s hash c w = Inr (out, w')" and fresh: "fresh_in e w"
    and room: "active_jobs (rq_user (sub_request s)) w < MaxActiveJobs"
  shows "same_work w w' \<and> same_jobs e w w' \<or> joined e s w w' \<or> started e s w w'"
proof -
  let ?r = "sub_request s"
  obtain run created w1 where f: "findOrCreateRun (se_now e) (f_run (se_ids e)) c w = ((run, created), w1)"
    by (metis prod.exhaust)
  note fr = find_live_run [OF f]
  let ?mine = "find (\<lambda>j. job_user j = rq_user ?r \<and> job_run j = Some run) (jobs w1)"
  show ?thesis
  proof (cases created)
    case False
    with fr have w1: "w1 = w" and live: "\<exists>r \<in> set (runs w). live_run_of c r \<and> run_id r = run" by auto
    show ?thesis
    proof (cases ?mine)
      case None
      let ?w2 = "w\<lparr>jobs := jobs w @ [queued_job (se_now e) (f_job (se_ids e)) run s]\<rparr>"
      from run None False w1 have "finish (se_now e) s hash (pending_job Accepted (f_job (se_ids e))) ?w2 = Inr (out, w')"
        by (simp add: join_run_def f Let_def)
      from finish_Inr(3) [OF this] live room show ?thesis
        by (auto simp: joined_def same_work_def live_run_of_def)
    next
      case (Some j)
      let ?w2 = "mergeJobCollections (se_now e) (job_id j) (rq_collections ?r) w"
      from run Some False w1 have "finish (se_now e) s hash (pending_job InFlight (job_id j)) ?w2 = Inr (out, w')"
        by (simp add: join_run_def f Let_def)
      from finish_Inr(3) [OF this] show ?thesis
        by (simp add: same_work_def same_jobs_def)
    qed
  next
    case True
    with fr have w1: "w1 = w\<lparr>runs := runs w @ [new_run (se_now e) run c]\<rparr>" "run = f_run (se_ids e)"
      and no: "\<forall>r \<in> set (runs w). \<not> live_run_of c r" by auto
    have none: "?mine = None" using fresh w1 by (auto simp: find_None_iff fresh_in_def)
    let ?j = "queued_job (se_now e) (f_job (se_ids e)) run s"
    from run none True w1(2) obtain w3 where w3: "Insert (se_now e) (start_event e s) (w1\<lparr>jobs := jobs w1 @ [?j]\<rparr>) = Inr w3"
      and fin: "finish (se_now e) s hash (pending_job Accepted (f_job (se_ids e))) w3 = Inr (out, w')"
      by (auto simp: join_run_def f Let_def bind_r_Inr_iff start_event_def)
    note ins = Insert_events [OF w3, of w]
    have "events (w1\<lparr>jobs := jobs w1 @ [?j]\<rparr>) = events w" using w1 by simp
    note ins = ins [OF this]
    have "job_id ?j = f_job (se_ids e)" "job_run ?j = Some run" "job_user ?j = rq_user ?r" "active_status (job_state ?j)"
      by (simp_all add: queued_job_def active_status_def)
    then show ?thesis
      using ins finish_Inr(3) [OF fin] w1 no room unfolding started_def by auto
  qed
qed

lemma submitNew_effect:
  assumes sub: "submitNew e s hash w = Inr (out, w')" and fresh: "fresh_in e w"
  shows "same_work w w' \<and> same_jobs e w w' \<or> joined e s w w' \<or> started e s w w'"
proof -
  let ?r = "sub_request s"
  have quiet: "same_work w w' \<and> same_jobs e w w'"
    if "fileSubmission (se_uuid e) (se_now e) u save cs v = Inr v1" "finish (se_now e) s hash st v1 = Inr (out, w')"
      "runs v = runs w" "events v = events w" "same_jobs e w v" for u save cs v v1 st
    using fileSubmission_rest [OF that(1)] finish_Inr(3) [OF that(2)] that(3-5)
    by (simp add: same_work_def same_jobs_def open_jobs_def)
  show ?thesis
  proof (cases "st_kind (findExisting (se_sha e) (rq_user ?r) (id_normalized (sub_identity s)) w)")
    case AlreadySaved
    with sub quiet [of _ _ _ w] show ?thesis
      by (auto simp: submitNew_def Let_def bind_r_Inr_iff same_jobs_def split: option.splits)
  next
    case InFlight
    let ?st = "findExisting (se_sha e) (rq_user ?r) (id_normalized (sub_identity s)) w"
    let ?w2 = "mergeJobCollections (se_now e) (st_job ?st) (rq_collections ?r) w"
    have "finish (se_now e) s hash ?st ?w2 = Inr (out, w')"
      using sub InFlight by (simp add: submitNew_def Let_def split: option.splits)
    from finish_Inr(3) [OF this] show ?thesis
      by (simp add: same_work_def same_jobs_def)
  next
    case Reused
    then show ?thesis by (simp add: findExisting_def split: option.splits)
  next
    case Accepted
    then obtain c w1 where c: "findOrCreateContent (se_sha e) (se_raced e) (se_blocked e) (f_content (se_ids e)) s w = Inr (c, w1)"
      and room: "active_jobs (rq_user ?r) w < MaxActiveJobs"
      and rest: "(case find (\<lambda>x. s_user x = rq_user ?r \<and> s_content x = c) (saves w1) of
                     Some x \<Rightarrow>
                       if list_ex (\<lambda>x. c_id x = c \<and> has_version x) (contents w1)
                       then bind_r (fileSubmission (se_uuid e) (se_now e) (rq_user ?r) (s_id x) (rq_collections ?r) w1)
                              (finish (se_now e) s hash (ready AlreadySaved (s_id x)))
                       else join_run e s hash c w1
                   | None \<Rightarrow>
                       if list_ex (\<lambda>x. c_id x = c \<and> has_version x) (contents w1) then reuse_content e s hash c w1
                       else join_run e s hash c w1) = Inr (out, w')"
      using sub by (auto simp: submitNew_def Let_def bind_r_Inr_iff split: option.splits if_splits)
    note r1 = findOrCreateContent_rest [OF c]
    have join: ?thesis if "join_run e s hash c w1 = Inr (out, w')"
    proof -
      have "fresh_in e w1" "active_jobs (rq_user ?r) w1 < MaxActiveJobs"
        using fresh room r1 by (simp_all add: fresh_in_def active_jobs_def)
      from join_run_effect [OF that this] r1 show ?thesis
        by (simp add: effect_cong [of w1 w])
    qed
    have reuse: ?thesis if re: "reuse_content e s hash c w1 = Inr (out, w')"
    proof -
      obtain save w2 where u: "upsert_save (f_save (se_ids e)) (se_now e) (rq_user ?r) c w1 = (save, w2)"
        by (metis prod.exhaust)
      let ?w3 = "w2\<lparr>jobs := jobs w2 @ [reuse_job (se_now e) (f_job (se_ids e)) save s]\<rparr>"
      note r2 = upsert_save_rest [OF u]
      have "open_jobs ?w3 = open_jobs w" "map job_id (jobs ?w3) = map job_id (jobs w) @ [f_job (se_ids e)]"
        using open_jobs_append [of w2] r1 r2 by (simp_all add: reuse_job_def active_status_def open_jobs_cong [of w2 w])
      with re quiet [of _ _ _ ?w3] r1 r2 show ?thesis
        by (auto simp: reuse_content_def u Let_def bind_r_Inr_iff same_jobs_def)
    qed
    show ?thesis
      using rest join reuse quiet [of _ _ _ w1] r1
      by (auto simp: bind_r_Inr_iff same_jobs_def open_jobs_def split: option.splits if_splits)
  qed
qed

lemma submitNew_finish:
  assumes "submitNew e s hash w = Inr (out, w')"
  obtains st v where "finish (se_now e) s hash st v = Inr (out, w')" and "idem v = idem w"
proof -
  have j: "\<exists>st v. finish (se_now e) s hash st v = Inr (out, w') \<and> idem v = idem u"
    if "join_run e s hash c u = Inr (out, w')" for c u
    using that
    by (auto simp: join_run_def Let_def bind_r_Inr_iff Insert_def insert_event_def findOrCreateRun_def
        split: option.splits if_splits prod.splits list.splits) fastforce+
  have fs: "\<exists>st v. finish (se_now e) s hash st v = Inr (out, w') \<and> idem v = idem u"
    if "bind_r (fileSubmission (se_uuid e) (se_now e) us sv cs u) (finish (se_now e) s hash st) = Inr (out, w')" for us sv cs u st
    using that fileSubmission_rest by (fastforce simp: bind_r_Inr_iff)
  have r: "\<exists>st v. finish (se_now e) s hash st v = Inr (out, w') \<and> idem v = idem u"
    if re: "reuse_content e s hash c u = Inr (out, w')" for c u
  proof -
    obtain save w2 where up: "upsert_save (f_save (se_ids e)) (se_now e) (rq_user (sub_request s)) c u = (save, w2)"
      by (metis prod.exhaust)
    from re fs [of _ _ _ "w2\<lparr>jobs := jobs w2 @ [reuse_job (se_now e) (f_job (se_ids e)) save s]\<rparr>"] upsert_save_rest [OF up]
    show ?thesis by (auto simp: reuse_content_def up Let_def)
  qed
  have "\<exists>st v. finish (se_now e) s hash st v = Inr (out, w') \<and> idem v = idem w"
    using assms fs [of _ _ _ w] j r fs findOrCreateContent_rest
    unfolding submitNew_def Let_def
    by (fastforce simp: bind_r_Inr_iff split: option.splits if_splits)
  with that show thesis by blast
qed

text \<open>What a success of the whole transaction is.\<close>

lemma Submit_cases:
  assumes "Submit e s w = Inr (out, w')"
  obtains (replayed) k where "se_fault e = None" "find (\<lambda>k. idem_match (sub_request s) k \<and> se_now e < k_expires k) (idem w) = Some k"
      "k_hash k = requestHash (se_sha e) s" "replay (rq_user (sub_request s)) (k_body k) w = Inr out" "w' = w"
  | (new) w1 where "se_fault e = None" "find (\<lambda>k. idem_match (sub_request s) k \<and> se_now e < k_expires k) (idem w) = None"
      "submitNew e s (requestHash (se_sha e) s) w = Inr (out, w1)" "w' = Notify w1"
proof (cases "find (\<lambda>k. idem_match (sub_request s) k \<and> se_now e < k_expires k) (idem w)")
  case None
  then have "se_fault e = None"
    "bind_r (submitNew e s (requestHash (se_sha e) s) w) (\<lambda>(out, w1). Inr (out, Notify w1)) = Inr (out, w')"
    using assms by (simp_all add: Submit_def with_fault_Inr)
  moreover from this(2) obtain w1 where "submitNew e s (requestHash (se_sha e) s) w = Inr (out, w1)" "w' = Notify w1"
    unfolding bind_r_Inr_iff by (simp split: prod.splits) blast
  ultimately show ?thesis by (intro new [OF _ None]) assumption+
next
  case (Some k)
  then have "se_fault e = None" "k_hash k = requestHash (se_sha e) s"
    "bind_r (replay (rq_user (sub_request s)) (k_body k) w) (\<lambda>out. Inr (out, w)) = Inr (out, w')"
    using assms by (simp_all add: Submit_def with_fault_Inr split: if_splits)
  moreover from this(3) have "replay (rq_user (sub_request s)) (k_body k) w = Inr out" "w' = w"
    unfolding bind_r_Inr_iff by (simp_all, blast+)
  ultimately show ?thesis by (intro replayed [OF _ Some]) assumption+
qed

lemma Submit_effect:
  assumes "Submit e s w = Inr (out, w')" and "fresh_in e w"
  shows "same_work w w' \<and> same_jobs e w w' \<or> joined e s w w' \<or> started e s w w'"
  using assms(1)
proof (cases rule: Submit_cases)
  case (new w1)
  have "open_jobs (Notify w1) = open_jobs w1" by (rule open_jobs_cong) simp
  with submitNew_effect [OF new(3) assms(2)] new(4) show ?thesis
    by (simp add: same_work_def same_jobs_def joined_def started_def)
qed (simp add: same_work_def same_jobs_def)

lemma one_live_run_append:
  assumes "one_live_run w" and "\<forall>r \<in> set (runs w). \<not> live_run_of c r"
  shows "distinct (map live_key (live_runs (runs w @ [new_run now i c])))"
  using assms by (auto simp: one_live_run_def live_runs_def live_key_def live_run_of_def new_run_def)

subsection \<open>The properties\<close>

text \<open>C14: however many users share a link, a content has at most one live run, and work is published once: a
  submission either leaves the runs and the outbox as they were, or finds no live run of the content, appends one
  queued run for it, and writes the one event that starts that run.\<close>

theorem submission_starts_work_once:
  assumes "Submit e s w = Inr (out, w')" and "fresh_in e w" and "one_live_run w" and "run_keys w"
  shows "one_live_run w' \<and> run_keys w'
    \<and> (runs w' = runs w \<and> events w' = events w
       \<or> (\<exists>c w2. (\<forall>r \<in> set (runs w). \<not> live_run_of c r)
            \<and> runs w' = runs w @ [new_run (se_now e) (f_run (se_ids e)) c]
            \<and> Insert (se_now e) (start_event e s) w = Inr w2 \<and> events w' = events w2))"
proof -
  from Submit_effect [OF assms(1,2)] have
    "runs w' = runs w \<and> events w' = events w \<or> started e s w w'" by (auto simp: same_work_def joined_def)
  then show ?thesis
  proof
    assume "started e s w w'"
    then obtain c w2 where c: "\<forall>r \<in> set (runs w). \<not> live_run_of c r"
      "runs w' = runs w @ [new_run (se_now e) (f_run (se_ids e)) c]"
      "Insert (se_now e) (start_event e s) w = Inr w2" "events w' = events w2" by (auto simp: started_def)
    moreover have "run_keys w'" using c(2) assms(2,4) by (auto simp: run_keys_def fresh_in_def new_run_def)
    ultimately show ?thesis using one_live_run_append [OF assms(3) c(1)] by (auto simp: one_live_run_def)
  qed (use assms(3,4) in \<open>simp add: one_live_run_def run_keys_def\<close>)
qed

text \<open>no user gets more than five jobs in progress.  A submission never takes a user above the cap, a
  user who is at the cap already gets no further job, and nobody else's count changes.\<close>

theorem active_jobs_stay_within_the_cap:
  assumes "Submit e s w = Inr (out, w')" and "fresh_in e w"
  shows "active_jobs u w' \<le> max MaxActiveJobs (active_jobs u w)
    \<and> (u \<noteq> rq_user (sub_request s) \<longrightarrow> active_jobs u w' = active_jobs u w)
    \<and> (MaxActiveJobs \<le> active_jobs u w \<longrightarrow> active_jobs u w' \<le> active_jobs u w)"
proof -
  have one: "active_jobs u w' = active_jobs u w + (if job_user j = u \<and> active_status (job_state j) then 1 else 0)"
    if "jobs w' = jobs w @ [j]" for j
    using active_jobs_append [of u w j] active_jobs_cong [of w' "w\<lparr>jobs := jobs w @ [j]\<rparr>" u] that by simp
  from Submit_effect [OF assms] show ?thesis
  proof (elim disjE)
    assume "joined e s w w'"
    then obtain r where "jobs w' = jobs w @ [queued_job (se_now e) (f_job (se_ids e)) r s]"
      "active_jobs (rq_user (sub_request s)) w < MaxActiveJobs" by (auto simp: joined_def)
    with one [OF this(1)] show ?thesis by (auto simp: queued_job_def)
  next
    assume "started e s w w'"
    then obtain j where "jobs w' = jobs w @ [j]" "job_user j = rq_user (sub_request s)"
      "active_jobs (rq_user (sub_request s)) w < MaxActiveJobs" by (auto simp: started_def)
    with one [OF this(1)] show ?thesis by auto
  qed (simp add: same_jobs_def active_jobs_open)
qed

lemma replay_Notify [simp]: "replay u st (Notify w) = replay u st w"
  unfolding replay_def loadSavedReel_def loadJob_def Notify_tables by (rule refl)


text \<open>a submission cannot probe for other people's collections.  Naming one id the user may not file
  into, whether it exists or not, refuses the whole submission with one and the same answer.\<close>

theorem unreachable_collection_refuses_the_submission:
  assumes "se_fault e = None" and "\<forall>k \<in> set (idem w). \<not> idem_match (sub_request s) k"
    and "c \<in> set (rq_collections (sub_request s))"
    and "\<forall>r \<in> set (collections w). col_id r = c \<longrightarrow> \<not> can_file (rq_user (sub_request s)) w r"
  shows "Submit e s w = Inl ErrCollectionUnreachable"
proof -
  have "find (\<lambda>k. idem_match (sub_request s) k \<and> se_now e < k_expires k) (idem w) = None"
    using assms(2) by (auto simp: find_None_iff)
  moreover have "requireFilableCollections (rq_user (sub_request s)) (rq_collections (sub_request s)) w = Some ErrCollectionUnreachable"
    using assms(3,4) by (auto simp: requireFilableCollections_def filter_empty_conv list_ex_iff)
  ultimately show ?thesis using assms(1) by (simp add: Submit_def submitNew_def Let_def)
qed

lemma replay_shape:
  "replay u st w = Inr out \<Longrightarrow>
   (case res_reel out of
      Some r \<Rightarrow> res_job out = None \<and> statusFor (res_kind out) = 200 \<and> rr_user r = u \<and> (\<exists>s \<in> set (saves w). s_id s = rr_id r \<and> s_user s = u)
    | None \<Rightarrow> statusFor (res_kind out) = 202 \<and> (\<exists>j. res_job out = Some (job_view j) \<and> j \<in> set (jobs w) \<and> job_user j = u))"
  by (cases "st_kind st";
      auto simp: replay_def loadSavedReel_def loadJob_def bind_r_Inr_iff statusFor_def Let_def
        split: option.splits dest!: find_Some_in; blast)

text \<open>every answer is the user's own and has one of two shapes: a status 200 carries a reel, which is a save of
  this user, and a status 202 carries a job of this user.\<close>

theorem answers_are_the_users_own:
  assumes "Submit e s w = Inr (out, w')"
  shows "case res_reel out of
      Some r \<Rightarrow> res_job out = None \<and> statusFor (res_kind out) = 200 \<and> rr_user r = rq_user (sub_request s)
        \<and> (\<exists>x \<in> set (saves w'). s_id x = rr_id r \<and> s_user x = rq_user (sub_request s))
    | None \<Rightarrow> statusFor (res_kind out) = 202
        \<and> (\<exists>j. res_job out = Some (job_view j) \<and> j \<in> set (jobs w') \<and> job_user j = rq_user (sub_request s))"
  using assms
proof (cases rule: Submit_cases)
  case (replayed k)
  show ?thesis unfolding replayed(5) by (rule replay_shape [OF replayed(4)])
next
  case (new w1)
  from new(3) obtain st v where f: "finish (se_now e) s (requestHash (se_sha e) s) st v = Inr (out, w1)" by (rule submitNew_finish)
  show ?thesis unfolding new(4) Notify_tables by (rule replay_shape [OF finish_Inr(2) [OF f]])
qed

subsection \<open>Two attempts that cannot succeed\<close>

text \<open>The lookup ignores a stored answer that has expired, but its row still holds the primary key: until the
  retention job deletes it, a new attempt under that key fails.\<close>

lemma expired_key_blocks_its_reuse:
  assumes "k \<in> set (idem w)" and "idem_match (sub_request s) k"
    and "\<forall>k \<in> set (idem w). idem_match (sub_request s) k \<longrightarrow> k_expires k \<le> se_now e"
  shows "\<not> is_ok (Submit e s w)"
proof
  assume "is_ok (Submit e s w)"
  then obtain out w' where ok: "Submit e s w = Inr (out, w')" by (cases "Submit e s w") auto
  from ok show False
  proof (cases rule: Submit_cases)
    case (replayed k')
    then show False using assms(3) by (auto dest!: find_Some_in)
  next
    case (new w1)
    from new(3) obtain st v where f: "finish (se_now e) s (requestHash (se_sha e) s) st v = Inr (out, w1)"
      and v: "idem v = idem w" by (rule submitNew_finish)
    from finish_Inr(1) [OF f] v assms(1,2) show False by (auto simp: list_ex_iff)
  qed
qed

text \<open>When another user's submission wins the race for a new content, this one fails: the INSERT's unique
  violation has aborted the transaction, so there is no re-read that wins.\<close>

lemma lost_content_race_fails:
  "se_raced e \<Longrightarrow> \<forall>c \<in> set (contents w). \<not> same_content (se_sha e) s c \<Longrightarrow>
   \<not> is_ok (findOrCreateContent (se_sha e) (se_raced e) (se_blocked e) new s w)"
  by (auto simp: findOrCreateContent_def find_None_iff split: option.splits dest!: find_Some_in)

subsection \<open>Witnesses\<close>

definition sample_env :: store_env where
  "sample_env = \<lparr>se_sha = \<lambda>s. s, se_uuid = \<lambda>_. True, se_now = 10,
     se_ids = \<lparr>f_content = ''c1'', f_run = ''r1'', f_save = ''s1'', f_job = ''j1''\<rparr>,
     se_raced = False, se_blocked = \<lambda>_. False, se_fault = None\<rparr>"

definition sample_request :: request where
  "sample_request = \<lparr>rq_user = ''ann'', rq_url = ''https://a.b/c'', rq_payload = [], rq_collections = [],
     rq_key = ''k'', rq_endpoint = ''reels''\<rparr>"

definition sample_submission :: submission where
  "sample_submission = \<lparr>sub_request = sample_request,
     sub_identity = \<lparr>id_original = ''https://a.b/c'', id_normalized = ''https://a.b/c'', id_platform = ''web'',
       id_type = ''page'', id_content = [], id_scope = PublicScope\<rparr>,
     sub_scope = ''public'', sub_routing = QueueLight, sub_type = EventProcessLight, sub_event = ''e1''\<rparr>"

lemmas enqueue_sample_defs = sample_env_def sample_request_def sample_submission_def sample_defs

lemma sample_submit:
  obtains out w' where "Submit sample_env sample_submission empty_world = Inr (out, w')" and "res_reel out = None"
    and "length (runs w') = 1" and "length (idem w') = 1" and "k_expires (hd (idem w')) = 10 + 24 * hour"
proof -
  have "\<exists>x. Submit sample_env sample_submission empty_world = Inr x \<and> res_reel (fst x) = None \<and> length (runs (snd x)) = 1
    \<and> length (idem (snd x)) = 1 \<and> k_expires (hd (idem (snd x))) = 10 + 24 * hour"
    by (simp add: enqueue_sample_defs Submit_def submitNew_def Let_def requireFilableCollections_def findExisting_def
        newest_def active_jobs_def MaxActiveJobs_def matching_def findOrCreateContent_def join_run_def findOrCreateRun_def
        Insert_def insert_event_def finish_def replay_def pending_job_def loadJob_def queued_job_def
        EventProcessLight_def QueueLight_def IdempotencyLifetime_def Notify_def new_content_def has_version_def)
  with that show thesis by (metis prod.collapse)
qed

lemma sample_fresh: "fresh_in sample_env empty_world" "one_live_run empty_world" "run_keys empty_world"
  by (simp_all add: fresh_in_def sample_defs one_live_run_def run_keys_def)

theorem submission_starts_work_once_witness:
  "\<exists>out w'. Submit sample_env sample_submission empty_world = Inr (out, w') \<and> length (runs w') = 1 \<and> one_live_run w'"
  using sample_submit submission_starts_work_once [OF _ sample_fresh] by metis

theorem active_jobs_stay_within_the_cap_witness:
  "\<exists>out w'. Submit sample_env sample_submission empty_world = Inr (out, w') \<and> active_jobs ''ann'' w' \<le> MaxActiveJobs"
proof -
  obtain out w' where s: "Submit sample_env sample_submission empty_world = Inr (out, w')" by (rule sample_submit)
  have "active_jobs ''ann'' empty_world = 0" by (simp add: active_jobs_def sample_defs matching_def)
  with s active_jobs_stay_within_the_cap [OF s sample_fresh(1), of "''ann''"] show ?thesis by simp
qed


theorem unreachable_collection_refuses_the_submission_witness:
  "Submit sample_env (sample_submission\<lparr>sub_request := sample_request\<lparr>rq_collections := [''k9'']\<rparr>\<rparr>) empty_world
   = Inl ErrCollectionUnreachable"
  by (rule unreachable_collection_refuses_the_submission [where c = "''k9''"]) (simp_all add: enqueue_sample_defs)

theorem answers_are_the_users_own_witness:
  "\<exists>out w'. Submit sample_env sample_submission empty_world = Inr (out, w') \<and> res_reel out = None
     \<and> statusFor (res_kind out) = 202"
proof -
  obtain out w' where s: "Submit sample_env sample_submission empty_world = Inr (out, w')" and n: "res_reel out = None"
    by (rule sample_submit)
  from answers_are_the_users_own [OF s] s n show ?thesis by (auto split: option.splits)
qed

end
