(* ===== verification/Lifecycle.thy ===== *)
theory Lifecycle
  imports Enqueue
begin

text \<open>
  The abstract life cycle of a run, the abstraction from the rows of \<open>processing_runs\<close> to it, and the proof that
  every operation of the core moves runs along it: a run waits, is claimed, waits again, and ends once.
\<close>

subsection \<open>The abstract life cycle of a run\<close>

datatype phase = Waiting int | Claimed int string | Succeeded | Broken

inductive lifecycle :: "phase \<Rightarrow> phase \<Rightarrow> bool" where
  claim: "lifecycle (Waiting g) (Claimed (g + 1) ow)"
| takeover: "lifecycle (Claimed g ow) (Claimed (g + 1) ow')"
| yield: "lifecycle (Claimed g ow) (Waiting g)"
| succeed: "lifecycle (Claimed g ow) Succeeded"
| give_up: "lifecycle (Claimed g ow) Broken"

inductive_simps lifecycle_simps [simp]:
  "lifecycle (Waiting g) p" "lifecycle (Claimed g ow) p" "lifecycle Succeeded p" "lifecycle Broken p"

text \<open>The abstract service: runs come into being waiting and move along the life cycle one at a time.\<close>

inductive spec_step :: "(string \<Rightarrow> phase option) \<Rightarrow> (string \<Rightarrow> phase option) \<Rightarrow> bool" where
  spec_start: "m i = None \<Longrightarrow> spec_step m (m(i \<mapsto> Waiting 0))"
| spec_move: "m i = Some p \<Longrightarrow> lifecycle p q \<Longrightarrow> spec_step m (m(i \<mapsto> q))"

definition final :: "phase \<Rightarrow> bool" where
  "final p = (p = Succeeded \<or> p = Broken)"

lemma final_stays: "lifecycle\<^sup>*\<^sup>* p q \<Longrightarrow> final p \<Longrightarrow> q = p"
  by (induction rule: rtranclp_induct) (auto simp: final_def)

lemma spec_step_final: "spec_step m m' \<Longrightarrow> m i = Some p \<Longrightarrow> final p \<Longrightarrow> m' i = Some p"
  by (auto elim!: spec_step.cases simp: final_def)

lemma spec_steps_final: "spec_step\<^sup>*\<^sup>* m m' \<Longrightarrow> m i = Some p \<Longrightarrow> final p \<Longrightarrow> m' i = Some p"
  by (induction rule: rtranclp_induct) (auto intro: spec_step_final)

lemma spec_moves: "lifecycle\<^sup>*\<^sup>* p q \<Longrightarrow> m i = Some p \<Longrightarrow> spec_step\<^sup>*\<^sup>* m (m(i \<mapsto> q))"
proof (induction rule: rtranclp_induct)
  case base
  then have "m(i \<mapsto> p) = m" by auto
  then show ?case by simp
next
  case (step q r)
  have "spec_step (m(i \<mapsto> q)) (m(i \<mapsto> r))" using spec_move [of "m(i \<mapsto> q)" i q r] step(2) by simp
  with step.IH [OF step.prems] show ?case using rtranclp.rtrancl_into_rtrancl [of spec_step m "m(i \<mapsto> q)" "m(i \<mapsto> r)"] by blast
qed

subsection \<open>The abstraction\<close>

definition phase_of :: "run_row \<Rightarrow> phase" where
  "phase_of r =
     (case run_state r of
        RunCompleted \<Rightarrow> Succeeded
      | RunFailed \<Rightarrow> Broken
      | _ \<Rightarrow> (case run_owner r of None \<Rightarrow> Waiting (run_generation r) | Some ow \<Rightarrow> Claimed (run_generation r) ow))"

definition abs_runs :: "world \<Rightarrow> string \<Rightarrow> phase option" where
  "abs_runs w i = map_option phase_of (find (\<lambda>r. run_id r = i) (runs w))"

text \<open>What any step may do to a run's row.\<close>

definition evolves :: "run_row \<Rightarrow> run_row \<Rightarrow> bool" where
  "evolves r r' =
     (run_id r' = run_id r \<and> live_key r' = live_key r \<and> run_created r' = run_created r
      \<and> lifecycle\<^sup>*\<^sup>* (phase_of r) (phase_of r')
      \<and> (live_status (run_state r') \<longrightarrow> live_status (run_state r))
      \<and> (run_owner r = None \<or> run_state r = RunProcessing \<longrightarrow> run_owner r' = None \<or> run_state r' = RunProcessing)
      \<and> (run_generation r < run_generation r' \<or> run_generation r' = run_generation r
           \<and> (run_state r' = RunProcessing \<longrightarrow> run_state r = RunProcessing)))"

lemma evolves_refl [simp]: "evolves r r"
  by (simp add: evolves_def)

lemma evolves_trans:
  assumes ab: "evolves a b" and bc: "evolves b c"
  shows "evolves a c"
proof -
  have "lifecycle\<^sup>*\<^sup>* (phase_of a) (phase_of c)"
    using ab bc rtranclp_trans [of lifecycle "phase_of a" "phase_of b" "phase_of c"] by (simp add: evolves_def)
  moreover have "run_generation a < run_generation c \<or> run_generation c = run_generation a
      \<and> (run_state c = RunProcessing \<longrightarrow> run_state a = RunProcessing)"
    using ab bc unfolding evolves_def by linarith
  ultimately show ?thesis using ab bc unfolding evolves_def by (simp, blast)
qed

lemma evolvesD:
  assumes "evolves r r'"
  shows "run_id r' = run_id r" and "live_key r' = live_key r"
    and "live_status (run_state r') \<Longrightarrow> live_status (run_state r)"
    and "run_owner r = None \<or> run_state r = RunProcessing \<Longrightarrow> run_owner r' = None \<or> run_state r' = RunProcessing"
    and "lifecycle\<^sup>*\<^sup>* (phase_of r) (phase_of r')"
  using assms by (simp_all add: evolves_def)

abbreviation all_evolve :: "world \<Rightarrow> world \<Rightarrow> bool" where
  "all_evolve w w' \<equiv> list_all2 evolves (runs w) (runs w')"

lemma all_evolve_trans: "all_evolve u v \<Longrightarrow> all_evolve v w \<Longrightarrow> all_evolve u w"
  by (rule list_all2_trans [of evolves evolves evolves]) (auto intro: evolves_trans)

lemma all_evolve_same: "runs w' = runs w \<Longrightarrow> all_evolve w w'"
  by (simp add: list.rel_refl)

lemma all_evolve_update:
  assumes "runs w' = update_where P f (runs w)" and "\<And>r. r \<in> set (runs w) \<Longrightarrow> P r \<Longrightarrow> evolves r (f r)"
  shows "all_evolve w w'"
proof -
  have "list_all2 evolves rs (update_where P f rs)" if "\<And>r. r \<in> set rs \<Longrightarrow> P r \<Longrightarrow> evolves r (f r)" for rs
    using that by (induction rs) auto
  then show ?thesis using assms by simp
qed

lemma all_evolve_find:
  "all_evolve w w' \<Longrightarrow> rel_option evolves (find (\<lambda>r. run_id r = i) (runs w)) (find (\<lambda>r. run_id r = i) (runs w'))"
proof -
  have "list_all2 evolves rs rs' \<Longrightarrow> rel_option evolves (find (\<lambda>r. run_id r = i) rs) (find (\<lambda>r. run_id r = i) rs')" for rs rs'
    by (induction rule: list_all2_induct) (simp_all add: evolvesD(1))
  then show "all_evolve w w' \<Longrightarrow> ?thesis" by blast
qed

lemma all_evolve_ids: "all_evolve w w' \<Longrightarrow> map run_id (runs w') = map run_id (runs w)"
proof -
  have "list_all2 evolves rs rs' \<Longrightarrow> map run_id rs' = map run_id rs" for rs rs'
    by (induction rule: list_all2_induct) (simp_all add: evolvesD(1))
  then show "all_evolve w w' \<Longrightarrow> ?thesis" by blast
qed

lemma all_evolve_wf: "all_evolve w w' \<Longrightarrow> wf w \<Longrightarrow> wf w'"
proof -
  have "list_all2 evolves rs rs' \<Longrightarrow> \<forall>r \<in> set rs. run_owner r = None \<or> run_state r = RunProcessing
      \<Longrightarrow> \<forall>r \<in> set rs'. run_owner r = None \<or> run_state r = RunProcessing" for rs rs'
    by (induction rule: list_all2_induct) (simp_all add: evolvesD(4))
  then show "all_evolve w w' \<Longrightarrow> wf w \<Longrightarrow> wf w'"
    using all_evolve_ids [of w w'] by (auto simp: wf_def run_keys_def owned_processing_def)
qed

lemma all_evolve_live: "all_evolve w w' \<Longrightarrow> one_live_run w \<Longrightarrow> one_live_run w'"
proof -
  have "list_all2 evolves rs rs' \<Longrightarrow> distinct (map live_key (live_runs rs)) \<Longrightarrow>
      distinct (map live_key (live_runs rs')) \<and> set (map live_key (live_runs rs')) \<subseteq> set (map live_key (live_runs rs))" for rs rs'
  proof (induction rule: list_all2_induct)
    case (Cons r rs r' rs')
    then show ?case using evolvesD(2,3) [OF Cons.hyps(1)] by (auto split: if_splits)
  qed simp
  then show "all_evolve w w' \<Longrightarrow> one_live_run w \<Longrightarrow> one_live_run w'" by (simp add: one_live_run_def)
qed

text \<open>Moves of single runs add up to a run of the abstract service.\<close>

lemma all_moved:
  assumes "finite {i. m i \<noteq> m' i}" and "\<And>i. rel_option lifecycle\<^sup>*\<^sup>* (m i) (m' i)"
  shows "spec_step\<^sup>*\<^sup>* m m'"
  using assms
proof (induction "{i. m i \<noteq> m' i}" arbitrary: m rule: finite_induct)
  case empty
  then have "m = m'" by auto
  then show ?case by simp
next
  case (insert i F)
  then have i: "m i \<noteq> m' i" by auto
  with insert.prems [of i] obtain p q where pq: "m i = Some p" "m' i = Some q" "lifecycle\<^sup>*\<^sup>* p q"
    by (cases "m i"; cases "m' i") auto
  let ?m = "m(i \<mapsto> q)"
  have "F = {j. ?m j \<noteq> m' j}" using insert.hyps(2,4) pq(2) by auto
  moreover have "rel_option lifecycle\<^sup>*\<^sup>* (?m j) (m' j)" for j
    using insert.prems [of j] pq(2) by (cases "m' j") auto
  ultimately have "spec_step\<^sup>*\<^sup>* ?m m'" by (rule insert.hyps(3))
  with spec_moves [of p q m i, OF pq(3,1)] show ?case by (rule rtranclp_trans)
qed

lemma all_evolve_spec: "all_evolve w w' \<Longrightarrow> spec_step\<^sup>*\<^sup>* (abs_runs w) (abs_runs w')"
proof (rule all_moved)
  assume a: "all_evolve w w'"
  have "abs_runs v i = None" if "i \<notin> run_id ` set (runs v)" for v i
  proof -
    have "find (\<lambda>r. run_id r = i) (runs v) = None" using that by (auto simp: find_None_iff)
    then show ?thesis by (simp add: abs_runs_def)
  qed
  then have "{i. abs_runs w i \<noteq> abs_runs w' i} \<subseteq> run_id ` set (runs w) \<union> run_id ` set (runs w')"
    by fastforce
  then show "finite {i. abs_runs w i \<noteq> abs_runs w' i}" by (rule finite_subset) simp
  show "rel_option lifecycle\<^sup>*\<^sup>* (abs_runs w i) (abs_runs w' i)" for i
    using all_evolve_find [OF a, of i]
    by (cases "find (\<lambda>r. run_id r = i) (runs w)"; cases "find (\<lambda>r. run_id r = i) (runs w')")
      (simp_all add: abs_runs_def evolvesD(5))
qed

subsection \<open>Every operation moves runs along the life cycle\<close>

lemma run_by_id: "run_keys w \<Longrightarrow> r \<in> set (runs w) \<Longrightarrow> find (\<lambda>x. run_id x = run_id r) (runs w) = Some r"
  by (auto simp: run_keys_def intro: find_key_distinct)

lemma holds_row:
  assumes "holds l w" and "wf w" and "r \<in> set (runs w)" and "run_id r = l_run l"
  shows "run_owner r = Some (l_owner l) \<and> run_generation r = l_generation l \<and> run_state r = RunProcessing"
proof -
  have "find (\<lambda>x. run_id x = l_run l) (runs w) = Some r" using run_by_id [of w r] assms by (simp add: wf_def)
  then have "run_owner r = Some (l_owner l)" "run_generation r = l_generation l"
    using assms(1) by (auto simp: holds_def lease_view_def)
  with assms(2,3) show ?thesis by (auto simp: wf_def owned_processing_def)
qed

lemma phase_step: "lifecycle p q \<Longrightarrow> lifecycle\<^sup>*\<^sup>* p q" by auto

lemma Acquire_evolves:
  assumes "Acquire fault now i owner w = Inr (l, w')" and "wf w"
  shows "all_evolve w w'"
proof (rule all_evolve_update)
  show "runs w' = update_where (can_acquire now i) (acquire_row now owner) (runs w)"
    using assms(1) by (auto simp: Acquire_def with_fault_Inr split: option.splits)
  fix r assume r: "r \<in> set (runs w)" "can_acquire now i r"
  then have "lifecycle (phase_of r) (phase_of (acquire_row now owner r))"
    using assms(2) by (cases "run_state r"; cases "run_owner r")
      (auto simp: phase_of_def acquire_row_def can_acquire_def live_status_def wf_def owned_processing_def)
  then show "evolves r (acquire_row now owner r)"
    using r(2) by (simp add: evolves_def phase_step can_acquire_def) (simp add: acquire_row_def live_key_def)
qed

lemma phase_of_eq:
  assumes "run_state r' = run_state r" and "run_owner r' = run_owner r" and "run_generation r' = run_generation r"
  shows "phase_of r' = phase_of r"
  unfolding phase_of_def assms by (rule refl)

lemma evolves_quiet:
  assumes "run_id r' = run_id r" and "run_content r' = run_content r" and "run_version r' = run_version r"
    and "run_created r' = run_created r" and "run_state r' = run_state r" and "run_owner r' = run_owner r"
    and "run_generation r' = run_generation r"
  shows "evolves r r'"
proof -
  have "phase_of r' = phase_of r" using assms(5-7) by (rule phase_of_eq)
  then show ?thesis using assms by (simp add: evolves_def live_key_def)
qed

lemma Renew_evolves: "Renew fault now l w = Inr (l', w') \<Longrightarrow> all_evolve w w'"
  by (rule all_evolve_update [of w' "\<lambda>r. is_claim l r \<and> run_state r = RunProcessing"
        "\<lambda>r. r\<lparr>run_expires := Some (now + lease_Duration), run_updated := now\<rparr>"])
    (auto simp: Renew_def Let_def with_fault_Inr split: if_splits intro: evolves_quiet)

lemma SweepExpired_evolves:
  assumes "SweepExpired mkuuid fault now fb limit w = Inr (n, w')" and "wf w"
  shows "all_evolve w w'"
proof -
  from assms(1) obtain es where es: "es = swept_runs now limit w"
    and w': "w' = (if es = [] then w else Notify (foldl (\<lambda>w e. sweep_one mkuuid now fb e w) w es))"
    by (rule SweepExpired_cases)
  have "runs w' = update_where (\<lambda>r. run_id r \<in> fst ` set es) (requeue_row now) (runs w)"
    by (simp add: w' sweep_all_runs update_where_none)
  then show ?thesis
  proof (rule all_evolve_update)
    fix r assume r: "r \<in> set (runs w)" "run_id r \<in> fst ` set es"
    then obtain x where x: "x \<in> set (runs w)" "run_id x = run_id r" "run_state x = RunProcessing"
      using swept_runs_in [of _ now limit w] es by fastforce
    then have "x = r" using distinct_key_eq [of run_id "runs w" x r] assms(2) r(1) by (simp add: wf_def run_keys_def)
    with x have st: "run_state r = RunProcessing" by simp
    then have "lifecycle\<^sup>*\<^sup>* (phase_of r) (phase_of (requeue_row now r))"
      by (cases "run_owner r") (auto simp: phase_of_def requeue_row_def)
    then show "evolves r (requeue_row now r)"
      using st by (simp add: evolves_def) (simp add: requeue_row_def live_key_def live_status_def)
  qed
qed

lemma touch_evolves: "all_evolve w (touch_claim now l w)"
  by (rule all_evolve_update [of _ "is_claim l" "\<lambda>r. r\<lparr>run_updated := now\<rparr>"]) (auto simp: touch_claim_def intro: evolves_quiet)

lemma holds_touch: "holds l w \<Longrightarrow> holds l (touch_claim now k w)"
  by (simp add: holds_def lease_view_touch)

lemma guarded_evolves:
  assumes "GuardedExec now l body w = Inr (w', a)" and "wf w"
    and "\<And>v. holds l v \<Longrightarrow> wf v \<Longrightarrow> body v = Inr (w', a) \<Longrightarrow> all_evolve v w'"
  shows "all_evolve w w'"
proof -
  from guarded_cases [OF assms(1)] assms(2) have b: "body (touch_claim now l w) = Inr (w', a)" and h: "holds l w"
    by (simp_all add: wf_def)
  have "all_evolve (touch_claim now l w) w'"
    using assms(3) [OF holds_touch [OF h] _ b] assms(2) by (simp add: touch_claim_wf)
  with touch_evolves show ?thesis by (rule all_evolve_trans)
qed

lemma drops_evolves:
  assumes "drops (l_run l) f w w'" and "holds l w" and "wf w"
  shows "all_evolve w w'"
proof (rule all_evolve_update)
  show "runs w' = update_where (\<lambda>r. run_id r = l_run l) f (runs w)" using assms(1) by (simp add: drops_def)
  fix r assume r: "r \<in> set (runs w)" "run_id r = l_run l"
  note row = holds_row [OF assms(2,3) r]
  have f: "run_id (f r) = run_id r" "run_generation (f r) = run_generation r" "run_owner (f r) = None"
    "live_key (f r) = live_key r" "run_created (f r) = run_created r"
    using assms(1) by (auto simp: drops_def live_key_def)
  have "lifecycle (phase_of r) (phase_of (f r))"
    using row f by (cases "run_state (f r)") (auto simp: phase_of_def)
  then show "evolves r (f r)" using row f by (simp add: evolves_def phase_step live_status_def)
qed

lemma failure_evolves:
  "GuardedExec now l (failure_body d appnow l stage f now) w = Inr (w', a) \<Longrightarrow> wf w \<Longrightarrow> all_evolve w w'"
  by (erule guarded_evolves) (auto dest!: failure_body_drops intro: drops_evolves)

lemma escalate_evolves:
  "GuardedExec now l (escalate_body d st l now) w = Inr (w', a) \<Longrightarrow> r_id st = l_run l \<Longrightarrow> wf w \<Longrightarrow> all_evolve w w'"
  by (erule guarded_evolves) (auto dest!: escalate_body_drops intro: drops_evolves)

lemma persist_evolves:
  assumes "GuardedExec now l (persist_body d st now) w = Inr (w', a)" and "r_id st = l_run l" and "wf w"
  shows "all_evolve w w'"
  using assms(1,3)
proof (rule guarded_evolves)
  fix v assume v: "holds l v" "wf v" "persist_body d st now v = Inr (w', a)"
  then obtain row where row: "find (\<lambda>r. run_id r = r_id st) (runs v) = Some row"
    by (auto simp: persist_body_def split: option.splits)
  have "run_state row \<noteq> RunCompleted"
    using holds_row [OF v(1,2), of row] find_Some_in [OF row] assms(2) by auto
  from drops_evolves [OF persist_body_drops [OF v(3) row this, unfolded assms(2)] v(1,2)] show "all_evolve v w'" .
qed

lemma commit_evolves:
  "GuardedExec now l (commit_body d st stage hash out pr now) w = Inr (w', a) \<Longrightarrow> wf w \<Longrightarrow> all_evolve w w'"
  by (erule guarded_evolves, assumption)
    (rule all_evolve_update [OF commit_body_runs], assumption, auto intro: evolves_quiet)

lemma dispatch_tables:
  "dispatchOnce fault pub now batch w = (ms, Inr (n, due, w')) \<Longrightarrow>
   runs w' = runs w \<and> stage_results w' = stage_results w \<and> jobs w' = jobs w"
proof -
  have "runs (snd (foldl (\<lambda>s c. dispatch_one pub now c s) s cs)) = runs (snd s)
      \<and> stage_results (snd (foldl (\<lambda>s c. dispatch_one pub now c s) s cs)) = stage_results (snd s)
      \<and> jobs (snd (foldl (\<lambda>s c. dispatch_one pub now c s) s cs)) = jobs (snd s)" for s cs
    by (induction cs arbitrary: s) (simp_all add: dispatch_one_def)
  from this [of "(0, w)" "claimed now batch w"]
  show "dispatchOnce fault pub now batch w = (ms, Inr (n, due, w')) \<Longrightarrow> ?thesis"
    by (auto simp: dispatchOnce_def Let_def with_fault_Inr split: prod.splits)
qed

lemma col_step_tables:
  assumes "col_step sha is_uuid u w w'"
  shows "runs w' = runs w \<and> events w' = events w \<and> stage_results w' = stage_results w \<and> jobs w' = jobs w"
proof -
  have fs: "runs w' = runs v \<and> events w' = events v \<and> stage_results w' = stage_results v \<and> jobs w' = jobs v"
    if "fileSaves is_uuid now u c ids v = Inr (n, w')" for now c ids v n
    using that by (auto simp: fileSaves_def Let_def split: if_splits)
  from assms show ?thesis
  proof (cases rule: col_step.cases)
    case (creates new now name descr ids n)
    then have "fileSaves is_uuid now u new ids (w\<lparr>collections := collections w @ [new_collection now new u name descr]\<rparr>) = Inr (n, w')"
      by (simp add: Create_collection_def split: if_splits)
    from fs [OF this] show ?thesis by simp
  next
    case (adds now c ids n)
    then show ?thesis by (auto simp: AddItems_def needs_Inr dest!: fs)
  qed (auto simp: Update_collection_def Delete_collection_def RemoveItem_def RemoveMember_def Leave_def
      EnableLink_def DisableLink_def CreateInvite_def AcceptInvite_def needs_Inr drop_member_def Let_def
      split: option.splits if_splits)
qed

end
