(* ===== verification/Guarded.thy ===== *)
theory Guarded
  imports Lifecycle
begin

text \<open>
  One committed transaction of the service as a step relation, and what each of them keeps: the ids of the outbox
  are minted once, a run that starts to wait has its wake-up, an active job has a live run.
\<close>

subsection \<open>The service\<close>

text \<open>One committed transaction.  A worker's transactions carry the lease its run was loaded with.  The ids that
  PostgreSQL and the API mint are new, and a random event id (version 4) is no digest of a name (version 5).
  Stage names have no colon.\<close>

inductive sys_step :: "deps \<Rightarrow> world \<Rightarrow> world \<Rightarrow> bool" for d where
  s_submit: "Submit e s w = Inr (out, w') \<Longrightarrow> fresh_in e w \<Longrightarrow> sub_event s \<notin> event_ids w \<Longrightarrow>
     (\<And>ns x. sub_event s \<noteq> d_uuid d ns x) \<Longrightarrow> sys_step d w w'"
| s_acquire: "Acquire None now i owner w = Inr (l, w') \<Longrightarrow> sys_step d w w'"
| s_renew: "Renew None now l w = Inr (l', w') \<Longrightarrow> sys_step d w w'"
| s_sweep: "SweepExpired (d_uuid d) None now fb limit w = Inr (n, w') \<Longrightarrow> sys_step d w w'"
| s_commit: "GuardedExec now l (commit_body d st stage hash out' pr now) w = Inr (w', us) \<Longrightarrow> r_id st = l_run l \<Longrightarrow>
     sys_step d w w'"
| s_escalate: "GuardedExec now l (escalate_body d st l now) w = Inr (w', x) \<Longrightarrow> r_id st = l_run l \<Longrightarrow> sys_step d w w'"
| s_failure: "GuardedExec now l (failure_body d appnow l stage f now) w = Inr (w', y) \<Longrightarrow> CHR '':'' \<notin> set stage \<Longrightarrow>
     sys_step d w w'"
| s_persist: "GuardedExec now l (persist_body d st now) w = Inr (w', us) \<Longrightarrow> r_id st = l_run l \<Longrightarrow> sys_step d w w'"
| s_geocode: "sys_step d w (upsert_lookup row w)"
| s_dispatch: "dispatchOnce None pub now batch w = (ms, Inr (k, due, w')) \<Longrightarrow> sys_step d w w'"
| s_collection: "col_step sha is_uuid u w w' \<Longrightarrow> sys_step d w w'"
| s_hint: "sys_step d w (Notify w)"

subsection \<open>Ids that are minted once\<close>

definition spent :: "string \<Rightarrow> int \<Rightarrow> world \<Rightarrow> bool" where
  "spent i g w =
     (\<exists>r \<in> set (runs w). run_id r = i
        \<and> (g < run_generation r \<or> g = run_generation r \<and> run_state r \<noteq> RunProcessing))"

definition sound_id :: "deps \<Rightarrow> world \<Rightarrow> string \<Rightarrow> bool" where
  "sound_id d w x =
     ((\<forall>i g. x = resume_id (d_uuid d) i g \<longrightarrow> spent i g w) \<and> (\<forall>i g. x = escalate_id d i g \<longrightarrow> spent i g w)
      \<and> (\<forall>i s n. x = retry_id d i s n \<longrightarrow> CHR '':'' \<notin> set s \<longrightarrow> n \<le> attempts_of i s w))"

definition ids_inv :: "deps \<Rightarrow> world \<Rightarrow> bool" where
  "ids_inv d w = (\<forall>x \<in> event_ids w. sound_id d w x)"

definition attempts_le :: "world \<Rightarrow> world \<Rightarrow> bool" where
  "attempts_le w w' = (\<forall>i s. attempts_of i s w \<le> attempts_of i s w')"

lemma spent_evolves: "all_evolve w w' \<Longrightarrow> spent i g w \<Longrightarrow> spent i g w'"
proof -
  have "list_all2 evolves rs rs' \<Longrightarrow>
      \<exists>r \<in> set rs. run_id r = i \<and> (g < run_generation r \<or> g = run_generation r \<and> run_state r \<noteq> RunProcessing) \<Longrightarrow>
      \<exists>r \<in> set rs'. run_id r = i \<and> (g < run_generation r \<or> g = run_generation r \<and> run_state r \<noteq> RunProcessing)" for rs rs'
  proof (induction rule: list_all2_induct)
    case (Cons r rs r' rs')
    then show ?case by (auto simp: evolves_def)
  qed simp
  then show "all_evolve w w' \<Longrightarrow> spent i g w \<Longrightarrow> spent i g w'" by (simp add: spent_def)
qed

lemma sound_id_mono: "all_evolve w w' \<Longrightarrow> attempts_le w w' \<Longrightarrow> sound_id d w x \<Longrightarrow> sound_id d w' x"
  using spent_evolves [of w w'] order_trans unfolding sound_id_def attempts_le_def by blast

lemma ids_inv_step:
  assumes "ids_inv d w" and "all_evolve w w'" and "attempts_le w w'"
    and "\<And>x. x \<in> event_ids w' \<Longrightarrow> x \<notin> event_ids w \<Longrightarrow> sound_id d w' x"
  shows "ids_inv d w'"
  using assms sound_id_mono unfolding ids_inv_def by blast

text \<open>The derived ids of different kinds are different.\<close>

lemma derived_ids:
  assumes u: "uuid_inj (d_uuid d)"
  shows "resume_id (d_uuid d) i g = resume_id (d_uuid d) j h \<longleftrightarrow> i = j \<and> g = h"
    and "escalate_id d i g = escalate_id d j h \<longleftrightarrow> i = j \<and> g = h"
    and "resume_id (d_uuid d) i g \<noteq> escalate_id d j h" and "resume_id (d_uuid d) i g \<noteq> retry_id d j s n"
    and "escalate_id d i g \<noteq> retry_id d j s n"
    and "CHR '':'' \<notin> set s \<Longrightarrow> CHR '':'' \<notin> set t \<Longrightarrow> retry_id d i s n = retry_id d j t m \<Longrightarrow> i = j \<and> s = t \<and> n = m"
proof -
  have U: "d_uuid d a x = d_uuid d b y \<longleftrightarrow> a = b \<and> x = y" for a b x y
    using u unfolding uuid_inj_def by blast
  show "resume_id (d_uuid d) i g = resume_id (d_uuid d) j h \<longleftrightarrow> i = j \<and> g = h" by (rule resume_id_inj [OF u])
  show "escalate_id d i g = escalate_id d j h \<longleftrightarrow> i = j \<and> g = h"
  proof
    assume "escalate_id d i g = escalate_id d j h"
    then have "i @ CHR '':'' # show_int g = j @ CHR '':'' # show_int h"
      by (simp add: escalate_id_def U)
    from last_sep_inj [OF this show_int_no_colon show_int_no_colon] show "i = j \<and> g = h" by (simp add: show_int_inj)
  qed simp
  show "resume_id (d_uuid d) i g \<noteq> escalate_id d j h" "resume_id (d_uuid d) i g \<noteq> retry_id d j s n"
    by (simp_all add: resume_id_def escalate_id_def retry_id_def retryNamespace_def U)
  show "escalate_id d i g \<noteq> retry_id d j s n"
    by (simp add: escalate_id_def retry_id_def U)
  assume c: "CHR '':'' \<notin> set s" "CHR '':'' \<notin> set t" and "retry_id d i s n = retry_id d j t m"
  then have "(i @ '':'' @ s) @ CHR '':'' # show_int n = (j @ '':'' @ t) @ CHR '':'' # show_int m"
    by (simp add: retry_id_def U)
  from last_sep_inj [OF this show_int_no_colon show_int_no_colon] have "i @ CHR '':'' # s = j @ CHR '':'' # t" "n = m"
    by (simp_all add: show_int_inj)
  with last_sep_inj [OF this(1) c] show "i = j \<and> s = t \<and> n = m" by simp
qed

lemma resume_sound: "uuid_inj (d_uuid d) \<Longrightarrow> spent i g w \<Longrightarrow> sound_id d w (resume_id (d_uuid d) i g)"
  by (simp add: sound_id_def derived_ids(1,3,4))

lemma escalate_sound: "uuid_inj (d_uuid d) \<Longrightarrow> spent i g w \<Longrightarrow> sound_id d w (escalate_id d i g)"
  by (simp add: sound_id_def derived_ids(2,5) derived_ids(3) [symmetric])

lemma retry_sound:
  assumes u: "uuid_inj (d_uuid d)" and s: "CHR '':'' \<notin> set s" and n: "n \<le> attempts_of i s w"
  shows "sound_id d w (retry_id d i s n)"
proof -
  have "m \<le> attempts_of j t w" if "retry_id d i s n = retry_id d j t m" "CHR '':'' \<notin> set t" for j t m
    using derived_ids(6) [OF u s that(2,1)] n by simp
  then show ?thesis
    by (simp add: sound_id_def derived_ids(4,5) [OF u, symmetric])
qed

subsection \<open>A run that starts to wait has its wake-up in the outbox\<close>

definition wakes :: "string \<Rightarrow> int \<Rightarrow> event_row \<Rightarrow> bool" where
  "wakes i g e = (ev_payload e = Some (i, g) \<and> ev_published e = None \<and> ev_attempts e = 0)"

definition woken :: "world \<Rightarrow> world \<Rightarrow> bool" where
  "woken w w' =
     (\<forall>r' \<in> set (runs w'). \<forall>g. phase_of r' = Waiting g \<longrightarrow>
        (\<exists>r \<in> set (runs w). run_id r = run_id r' \<and> phase_of r = Waiting g) \<or> (\<exists>e \<in> set (events w'). wakes (run_id r') g e))"

lemma woken_same: "runs w' = runs w \<Longrightarrow> woken w w'"
  by (auto simp: woken_def)

lemma woken_update:
  assumes "runs w' = update_where P f (runs w)"
    and "\<And>r. r \<in> set (runs w) \<Longrightarrow> P r \<Longrightarrow> run_id (f r) = run_id r"
    and "\<And>r g. r \<in> set (runs w) \<Longrightarrow> P r \<Longrightarrow> phase_of (f r) = Waiting g \<Longrightarrow>
      phase_of r = Waiting g \<or> (\<exists>e \<in> set (events w'). wakes (run_id r) g e)"
  shows "woken w w'"
  unfolding woken_def
proof (intro ballI allI impI)
  fix r' g assume r': "r' \<in> set (runs w')" "phase_of r' = Waiting g"
  then obtain r where r: "r \<in> set (runs w)" "r' = (if P r then f r else r)" by (auto simp: assms(1) set_update_where)
  then show "(\<exists>r \<in> set (runs w). run_id r = run_id r' \<and> phase_of r = Waiting g) \<or> (\<exists>e \<in> set (events w'). wakes (run_id r') g e)"
    using assms(2,3) [of r] r'(2) by (cases "P r") auto
qed

lemma woken_touch: "woken (touch_claim now l w) w' \<Longrightarrow> woken w w'"
proof -
  have "\<exists>r \<in> set (runs w). run_id r = run_id r' \<and> phase_of r = phase_of r'" if "r' \<in> set (runs (touch_claim now l w))" for r'
  proof -
    obtain r where r: "r \<in> set (runs w)" "r' = (if is_claim l r then r\<lparr>run_updated := now\<rparr> else r)"
      using \<open>r' \<in> _\<close> by (auto simp: touch_claim_def set_update_where)
    have "phase_of (r\<lparr>run_updated := now\<rparr>) = phase_of r" by (rule phase_of_eq) simp_all
    with r show ?thesis by (intro bexI [of _ r]) auto
  qed
  then show "woken (touch_claim now l w) w' \<Longrightarrow> woken w w'" unfolding woken_def by metis
qed

lemma drops_woken:
  assumes "drops (l_run l) f w w'" and "holds l w" and "wf w"
    and "(\<exists>e \<in> set (events w'). wakes (l_run l) (l_generation l) e) \<or> (\<forall>r g. phase_of (f r) \<noteq> Waiting g)"
  shows "woken w w'"
proof (rule woken_update)
  show "runs w' = update_where (\<lambda>r. run_id r = l_run l) f (runs w)" using assms(1) by (simp add: drops_def)
  fix r assume r: "r \<in> set (runs w)" "run_id r = l_run l"
  show "run_id (f r) = run_id r" using assms(1) by (simp add: drops_def)
  have f: "run_generation (f r) = run_generation r" "run_owner (f r) = None" using assms(1) by (simp_all add: drops_def)
  fix g assume g: "phase_of (f r) = Waiting g"
  then have "g = l_generation l"
    using f holds_row [OF assms(2,3) r] by (cases "run_state (f r)") (simp_all add: phase_of_def)
  with g assms(4) r(2) show "phase_of r = Waiting g \<or> (\<exists>e \<in> set (events w'). wakes (run_id r) g e)" by auto
qed

lemma not_spent: "wf w \<Longrightarrow> holds l w \<Longrightarrow> \<not> spent (l_run l) (l_generation l) w"
  using holds_row [of l w] by (auto simp: spent_def)

text \<open>What a step adds to the outbox, and the ids it may add.\<close>

lemma event_ids_insert_sub: "event_ids (insert_event e w) = insert (ev_id e) (event_ids w)"
  by (rule event_ids_insert)

lemma spent_touch [simp]: "spent i g (touch_claim now l w) = spent i g w"
proof -
  have "(\<exists>r \<in> set (update_where P (\<lambda>r. r\<lparr>run_updated := now\<rparr>) rs). Q (run_id r) (run_generation r) (run_state r))
      = (\<exists>r \<in> set rs. Q (run_id r) (run_generation r) (run_state r))" for P Q and rs :: "run_row list"
    by (induction rs) auto
  from this [of "is_claim l" "runs w" "\<lambda>a b c. a = i \<and> (g < b \<or> g = b \<and> c \<noteq> RunProcessing)"] show ?thesis
    by (simp add: spent_def touch_claim_def)
qed

lemma sound_id_touch [simp]: "sound_id d (touch_claim now l w) x = sound_id d w x"
  by (simp add: sound_id_def)

lemma ids_inv_touch [simp]: "ids_inv d (touch_claim now l w) = ids_inv d w"
  by (simp add: ids_inv_def event_ids_def)

text \<open>The sweep.\<close>

lemma sweep_woken:
  assumes u: "uuid_inj (d_uuid d)" and wf: "wf w" and ids: "ids_inv d w"
    and sw: "SweepExpired (d_uuid d) None now fb limit w = Inr (n, w')"
  shows "woken w w'"
proof -
  from sw obtain es where es: "es = swept_runs now limit w"
    and w': "w' = (if es = [] then w else Notify (foldl (\<lambda>w e. sweep_one (d_uuid d) now fb e w) w es))"
    by (rule SweepExpired_cases)
  have swept: "\<exists>r \<in> set (runs w). e = (run_id r, run_generation r) \<and> run_state r = RunProcessing" if "e \<in> set es" for e
    using that swept_runs_in unfolding es by blast
  show ?thesis
  proof (rule woken_update)
    show "runs w' = update_where (\<lambda>r. run_id r \<in> fst ` set es) (requeue_row now) (runs w)"
      by (simp add: w' sweep_all_runs update_where_none)
    fix r assume r: "r \<in> set (runs w)" "run_id r \<in> fst ` set es"
    show "run_id (requeue_row now r) = run_id r" by (simp add: requeue_row_def)
    fix g assume g: "phase_of (requeue_row now r) = Waiting g"
    from r(2) obtain e where e: "e \<in> set es" "fst e = run_id r" by auto
    obtain x where x: "x \<in> set (runs w)" "e = (run_id x, run_generation x)" "run_state x = RunProcessing"
      using swept [OF e(1)] by blast
    have xr: "x = r" using distinct_key_eq [of run_id "runs w" x r] wf r(1) x e(2) by (simp add: wf_def run_keys_def)
    have eg: "e = (run_id r, g)" using g x xr by (simp add: phase_of_def requeue_row_def)
    have "\<not> spent (run_id r) g w"
      using distinct_key_eq [of run_id "runs w" _ r] wf r(1) x eg xr by (auto simp: spent_def wf_def run_keys_def)
    then have "resume_id (d_uuid d) (fst e) (snd e) \<notin> event_ids w"
      using ids eg unfolding ids_inv_def sound_id_def by fastforce
    from sweep_all_new_event [OF e(1) this, of now fb] derived_ids(1) [OF u]
    have "\<exists>x \<in> set (events (foldl (\<lambda>w e. sweep_one (d_uuid d) now fb e w) w es)). wakes (run_id r) g x"
      by (auto simp: wakes_def eg prod_eq_iff)
    moreover have "es \<noteq> []" using e(1) by auto
    ultimately show "phase_of r = Waiting g \<or> (\<exists>e \<in> set (events w'). wakes (run_id r) g e)" by (simp add: w')
  qed
qed

subsection \<open>The guarded transactions\<close>

lemma attempts_le_same: "stage_results w' = stage_results w \<Longrightarrow> attempts_le w w'"
  by (simp add: attempts_le_def attempts_of_def)

lemma attempts_le_trans: "attempts_le u v \<Longrightarrow> attempts_le v w \<Longrightarrow> attempts_le u w"
  unfolding attempts_le_def using order_trans by blast

lemma attempts_le_touch: "attempts_le (touch_claim now l w) w' = attempts_le w w'"
  by (simp add: attempts_le_def)

lemma event_keys_insert [simp]: "event_keys (insert_event e w) = event_keys w"
  by (auto simp: event_keys_def insert_event_def)

lemma plain_event_fields [simp]:
  "ev_id (plain_event i ty k r g now due) = i" "ev_payload (plain_event i ty k r g now due) = Some (r, g)"
  "ev_published (plain_event i ty k r g now due) = None" "ev_attempts (plain_event i ty k r g now due) = 0"
  by (simp_all add: plain_event_def)

lemma no_digest: "(\<And>ns y. x \<noteq> d_uuid d ns y) \<Longrightarrow> sound_id d w x"
  by (simp add: sound_id_def resume_id_def escalate_id_def retry_id_def)

lemma persist_id_sound: "uuid_inj (d_uuid d) \<Longrightarrow> sound_id d w (d_uuid d persistNamespace y)"
proof -
  assume "uuid_inj (d_uuid d)"
  then have U: "d_uuid d a x = d_uuid d b y \<longleftrightarrow> a = b \<and> x = y" for a b x y unfolding uuid_inj_def by blast
  show ?thesis
    by (simp add: sound_id_def resume_id_def escalate_id_def retry_id_def U persistNamespace_def retryNamespace_def)
qed

text \<open>What each guarded body does, from a world where the lease is held: the runs move along the life cycle,
  a run that starts to wait is woken, the new ids are sound, the keys stay unique.\<close>

definition kept :: "deps \<Rightarrow> world \<Rightarrow> world \<Rightarrow> bool" where
  "kept d w w' =
     (all_evolve w w' \<and> woken w w' \<and> attempts_le w w' \<and> (event_keys w \<longrightarrow> event_keys w')
      \<and> (\<forall>x \<in> event_ids w'. x \<notin> event_ids w \<longrightarrow> sound_id d w' x)
      \<and> map job_id (jobs w') = map job_id (jobs w))"

lemma kept_touch: "kept d (touch_claim now l w) w' \<Longrightarrow> kept d w w'"
  using all_evolve_trans [OF touch_evolves] woken_touch by (auto simp: kept_def attempts_le_touch event_keys_def event_ids_def)

lemma guarded_kept:
  assumes "GuardedExec now l body w = Inr (w', a)" and "wf w" and "ids_inv d w"
    and "\<And>v. holds l v \<Longrightarrow> wf v \<Longrightarrow> ids_inv d v \<Longrightarrow> body v = Inr (w', a) \<Longrightarrow> kept d v w'"
  shows "kept d w w'"
proof -
  from guarded_cases [OF assms(1)] assms(2) have b: "body (touch_claim now l w) = Inr (w', a)" and h: "holds l w"
    by (simp_all add: wf_def)
  have "kept d (touch_claim now l w) w'"
    using assms(4) [OF holds_touch [OF h] _ _ b] assms(2,3) by (simp add: touch_claim_wf)
  then show ?thesis by (rule kept_touch)
qed

lemma escalate_kept:
  assumes u: "uuid_inj (d_uuid d)" and h: "holds l w" and wf: "wf w" and ids: "ids_inv d w"
    and b: "escalate_body d st l now w = Inr (w', a)" and i: "r_id st = l_run l"
  shows "kept d w w'"
proof -
  from escalate_body_drops [OF b] i obtain g where dr: "drops (l_run l) g w w'" by auto
  let ?e = "plain_event (escalate_id d (r_id st) (l_generation l)) EventProcessMedia QueueMedia (r_id st) (l_generation l) now now"
  let ?f = "\<lambda>r. r\<lparr>run_state := RunQueued, run_owner := None, run_expires := None, run_stage := stageDownload, run_updated := now\<rparr>"
  let ?v = "w\<lparr>runs := update_where (\<lambda>r. run_id r = r_id st) ?f (runs w)\<rparr>"
  have w': "w' = insert_event ?e ?v" using b by (simp add: escalate_body_def Let_def)
  have fresh: "escalate_id d (r_id st) (l_generation l) \<notin> event_ids ?v"
    using ids not_spent [OF wf h] i unfolding ids_inv_def sound_id_def by auto
  have ev: "events w' = events w @ [?e]" using insert_fresh_event [of ?e ?v] fresh w' by simp
  obtain r where "r \<in> set (runs w)" "run_id r = l_run l" using h by (auto simp: holds_def lease_view_def dest!: find_Some_in)
  with holds_row [OF h wf this] i have "?f r \<in> set (runs w')" "run_id (?f r) = l_run l" "run_generation (?f r) = l_generation l"
    by (auto simp: w' set_update_where intro!: rev_image_eqI)
  then have "spent (l_run l) (l_generation l) w'" unfolding spent_def by (intro bexI [of _ "?f r"]) auto
  then have "sound_id d w' (escalate_id d (l_run l) (l_generation l))"
    by (rule escalate_sound [OF u])
  moreover have "woken w w'"
    by (rule drops_woken [OF dr h wf]) (simp add: ev wakes_def i)
  moreover have "all_evolve w w'" by (rule drops_evolves [OF dr h wf])
  moreover have "event_keys w \<longrightarrow> event_keys w'" unfolding w' event_keys_insert by (simp add: event_keys_def)
  moreover have "event_ids w' = insert (escalate_id d (l_run l) (l_generation l)) (event_ids w)"
    by (simp add: ev event_ids_def i)
  moreover have "attempts_le w w'" "jobs w' = jobs w" by (simp_all add: w' attempts_le_same)
  ultimately show ?thesis by (simp add: kept_def)
qed

lemma failure_kept:
  assumes u: "uuid_inj (d_uuid d)" and h: "holds l w" and wf: "wf w" and ids: "ids_inv d w"
    and b: "failure_body d appnow l stage f now w = Inr (w', a)" and c: "CHR '':'' \<notin> set stage"
  shows "kept d w w'"
proof -
  obtain users terminal f1 where a: "a = (users, terminal, f1)" by (cases a) auto
  from b [unfolded a] show ?thesis
  proof (cases rule: failure_body_cases)
    case (failed n w1)
    note t = recordStageFailure_tables [OF failed(1)]
    have dr: "drops (l_run l) (fail_row now f1) w w'"
      using completeAsFailed_drops [of "l_run l" now f1 w1] t failed(2) by (simp add: drops_def)
    have ph: "phase_of (fail_row now f1 r) \<noteq> Waiting g" for r g by (simp add: phase_of_def fail_row_def)
    have at: "attempts_le w w'"
      using recordStageFailure_attempts [OF failed(1)] failed(2) by (simp add: attempts_le_def attempts_of_def completeAsFailed_def)
    have "map job_id (jobs w') = map job_id (jobs w)" using failed(2) t by (simp add: completeAsFailed_def fail_job_def)
    moreover have "events w' = events w" using failed(2) t by (simp add: completeAsFailed_def)
    ultimately show ?thesis
      using drops_evolves [OF dr h wf] drops_woken [OF dr h wf] ph at by (simp add: kept_def event_keys_def event_ids_def)
  next
    case (retry n w1 delay)
    note t = recordStageFailure_tables [OF retry(1)] and at = recordStageFailure_attempts [OF retry(1)]
    have dr: "drops (l_run l) (wait_row now) w w'"
      using scheduleRetry_drops [of l now w1 d stage n delay] t retry(2) by (simp add: drops_def)
    let ?v = "w1\<lparr>runs := update_where (\<lambda>r. run_id r = l_run l) (wait_row now) (runs w1)\<rparr>"
    let ?e = "plain_event (retry_id d (l_run l) stage n) ''run.resume'' (routing_key_of QueueLight (l_run l) ?v)
        (l_run l) (l_generation l) now (now + delay)"
    have w': "w' = insert_event ?e ?v" using retry(2) by (simp add: scheduleRetry_def Let_def)
    have "n = attempts_of (l_run l) stage w + 1" using at by blast
    then have "retry_id d (l_run l) stage n \<notin> event_ids w"
      using ids c unfolding ids_inv_def sound_id_def by fastforce
    then have ev: "events w' = events w @ [?e]" using insert_fresh_event [of ?e ?v] w' t by (simp add: event_ids_def)
    have st: "attempts_of j s w' = attempts_of j s w1" for j s by (simp add: w' attempts_of_def insert_event_def)
    have "sound_id d w' (retry_id d (l_run l) stage n)"
      using at by (intro retry_sound [OF u c]) (simp add: st)
    moreover have "woken w w'" by (rule drops_woken [OF dr h wf]) (simp add: ev wakes_def)
    moreover have "attempts_le w w'" using at by (simp add: attempts_le_def st)
    moreover have "event_ids w' = insert (retry_id d (l_run l) stage n) (event_ids w)" by (simp add: ev event_ids_def)
    moreover have "event_keys w \<longrightarrow> event_keys w'" using t by (simp add: w' event_keys_def [symmetric]) (simp add: event_keys_def)
    moreover have "jobs w' = jobs w" using t by (simp add: w')
    ultimately show ?thesis using drops_evolves [OF dr h wf] by (simp add: kept_def)
  qed
qed

lemma complete_one_rest:
  "event_keys (complete_one d st now j w) = event_keys w \<and> stage_results (complete_one d st now j w) = stage_results w"
proof -
  obtain save w1 where u: "upsert_save (d_save_id d (job_id j)) now (job_user j) (r_content st) w = (save, w1)" by force
  have "events w1 = events w" "stage_results w1 = stage_results w"
    using u by (auto simp: upsert_save_def split: option.splits)
  then show ?thesis by (simp add: complete_one_def u Let_def) (simp add: event_keys_def)
qed

lemma complete_all_rest:
  "event_keys (foldl (\<lambda>w j. complete_one d st now j w) w js) = event_keys w
   \<and> stage_results (foldl (\<lambda>w j. complete_one d st now j w) w js) = stage_results w"
  by (induction js arbitrary: w) (simp_all add: complete_one_rest)

lemma fileProposal_rest:
  "event_keys (fileProposal st p w) = event_keys w" "stage_results (fileProposal st p w) = stage_results w"
  by (simp_all add: fileProposal_def event_keys_def)

lemma persist_body_rest:
  assumes "persist_body d st now w = Inr (w', users)"
  shows "event_keys w' = event_keys w \<and> stage_results w' = stage_results w"
proof -
  obtain row where row: "find (\<lambda>r. run_id r = r_id st) (runs w) = Some row"
    using assms by (auto simp: persist_body_def split: option.splits)
  show ?thesis
  proof (cases "run_state row = RunCompleted")
    case False
    with assms row obtain w1 v where w1: "insertVersion d st w = Inr (w1, v)"
      by (auto simp: persist_body_def bind_r_Inr_iff)
    let ?w2 = "w1\<lparr>contents := update_where (\<lambda>c. c_id c = r_content st) (\<lambda>c. c\<lparr>c_current := Some v\<rparr>) (contents w1)\<rparr>"
    obtain w3 us where w3: "completeSubscribers d st now ?w2 = (w3, us)" by force
    have e1: "event_keys ?w2 = event_keys w" "stage_results ?w2 = stage_results w"
      using w1 by (auto simp: insertVersion_def bind_r_Inr_iff event_keys_def)
    have "w3 = foldl (\<lambda>w j. complete_one d st now j w) ?w2 (filter (active_job_of (r_id st)) (jobs ?w2))"
      using w3 by (simp add: completeSubscribers_def Let_def)
    then have e3: "event_keys w3 = event_keys w" "stage_results w3 = stage_results w"
      using complete_all_rest e1 by simp_all
    let ?w4 = "case cat_proposal (r_category st) of None \<Rightarrow> w3 | Some p \<Rightarrow> fileProposal st p w3"
    let ?e = "plain_event (index_id d v) ''content.index'' QueueLight (r_id st) (l_generation (r_lease st)) now now"
    have w': "w' = (insert_event ?e ?w4)\<lparr>runs := update_where (\<lambda>r. run_id r = r_id st) (complete_run now) (runs (insert_event ?e ?w4))\<rparr>"
      using assms row False w1 w3 by (auto simp: persist_body_def Let_def)
    have e4: "event_keys ?w4 = event_keys w" "stage_results ?w4 = stage_results w"
      using e3 by (simp_all add: fileProposal_rest split: option.splits)
    have "event_keys w' = event_keys (insert_event ?e ?w4)" by (simp add: w' event_keys_def)
    moreover have "stage_results w' = stage_results ?w4" by (simp add: w' insert_event_def)
    ultimately show ?thesis using e4 by simp
  qed (use assms row in \<open>simp add: persist_body_def\<close>)
qed

lemma persist_kept:
  assumes u: "uuid_inj (d_uuid d)" and h: "holds l w" and wf: "wf w" and jk: "job_keys w"
    and b: "persist_body d st now w = Inr (w', users)" and i: "r_id st = l_run l"
  shows "kept d w w'" and "jobs w' = map (\<lambda>k. if active_job_of (l_run l) k
      then complete_job now (save_in (saves w') (job_user k) (r_content st)) k else k) (jobs w)"
proof -
  obtain row where row: "find (\<lambda>r. run_id r = r_id st) (runs w) = Some row"
    using b by (auto simp: persist_body_def split: option.splits)
  have nc: "run_state row \<noteq> RunCompleted" using holds_row [OF h wf, of row] find_Some_in [OF row] i by auto
  note spec = persist_body_spec [OF jk b row nc]
  note dr = persist_body_drops [OF b row nc, unfolded i]
  show jobs: "jobs w' = map (\<lambda>k. if active_job_of (l_run l) k
      then complete_job now (save_in (saves w') (job_user k) (r_content st)) k else k) (jobs w)"
    using spec i by simp
  have ph: "phase_of (complete_run now r) \<noteq> Waiting g" for r g by (simp add: phase_of_def complete_run_def)
  have new: "\<forall>e \<in> set (events w') - set (events w). (\<exists>j. ev_id e = notify_id d j) \<or> ev_id e = index_id d (d_version_id d)"
    using spec by blast
  have "sound_id d w' x" if x: "x \<in> event_ids w'" "x \<notin> event_ids w" for x
  proof -
    obtain e where e: "e \<in> set (events w') - set (events w)" "x = ev_id e" using x by (auto simp: event_ids_def)
    with new have "\<exists>y. x = d_uuid d persistNamespace y" unfolding notify_id_def index_id_def by blast
    then show ?thesis using persist_id_sound [OF u] by blast
  qed
  moreover have "map job_id (jobs w') = map job_id (jobs w)" by (simp add: jobs)
  ultimately show "kept d w w'"
    using drops_evolves [OF dr h wf] drops_woken [OF dr h wf] ph persist_body_rest [OF b]
    by (simp add: kept_def attempts_le_same)
qed

lemma commit_kept:
  assumes b: "commit_body d st stage hash out pr now w = Inr (w', us)"
  shows "kept d w w'"
proof -
  note runs = commit_body_runs [OF b]
  obtain w1 where w1: "saveCheckpoint (d_marshal d) now (r_id st) stage hash out w = Inr w1"
    and w': "events w' = events w1" "stage_results w' = stage_results w1" "map job_id (jobs w') = map job_id (jobs w1)"
    using b by (auto simp: commit_body_def bind_r_Inr_iff Let_def)
  have ph: "phase_of (r\<lparr>run_stage := stage, run_updated := now\<rparr>) = phase_of r" for r by (rule phase_of_eq) simp_all
  have "woken w w'" by (rule woken_update [OF runs]) (simp_all add: ph)
  moreover have "all_evolve w w'" by (rule all_evolve_update [OF runs]) (auto intro: evolves_quiet)
  moreover have "attempts_le w w'"
    using saveCheckpoint_attempts [OF w1] w'(2) by (simp add: attempts_le_def attempts_of_def)
  ultimately show ?thesis
    using saveCheckpoint_tables [OF w1] w' by (simp add: kept_def event_keys_def event_ids_def)
qed

subsection \<open>No job is left behind\<close>

definition live_ids :: "world \<Rightarrow> string set" where
  "live_ids w = set (map run_id (live_runs (runs w)))"

text \<open>Every job that is queued or processing belongs to a run that is still alive.\<close>

definition jobs_live :: "world \<Rightarrow> bool" where
  "jobs_live w = (\<forall>p \<in> set (open_jobs w). \<exists>i \<in> live_ids w. snd p = Some i)"

lemma live_ids_update:
  assumes "runs w' = update_where P f (runs w)" and "\<And>r. run_id (f r) = run_id r"
    and "\<And>r. r \<in> set (runs w) \<Longrightarrow> P r \<Longrightarrow> live_status (run_state r) \<Longrightarrow> live_status (run_state (f r)) \<or> run_id r \<in> D"
  shows "live_ids w - D \<subseteq> live_ids w'"
proof
  fix i assume "i \<in> live_ids w - D"
  then obtain r where r: "r \<in> set (runs w)" "live_status (run_state r)" "run_id r = i" "i \<notin> D" by (auto simp: live_ids_def set_live_runs)
  let ?r = "if P r then f r else r"
  have "?r \<in> set (runs w')" using r(1) by (auto simp: assms(1) set_update_where)
  moreover have "live_status (run_state ?r)" "run_id ?r = i" using r assms(2,3) by auto
  ultimately show "i \<in> live_ids w'" by (auto simp: live_ids_def set_live_runs intro!: image_eqI [of _ _ ?r])
qed

lemma live_ids_same: "runs w' = runs w \<Longrightarrow> live_ids w' = live_ids w"
  by (simp add: live_ids_def)

lemma jobs_live_step:
  assumes "jobs_live w" and "live_ids w - D \<subseteq> live_ids w'"
    and "\<And>p. p \<in> set (open_jobs w') \<Longrightarrow> p \<in> set (open_jobs w) \<and> (\<forall>i \<in> D. snd p \<noteq> Some i)"
  shows "jobs_live w'"
  using assms unfolding jobs_live_def by blast

lemma open_jobs_touch [simp]: "open_jobs (touch_claim now l w) = open_jobs w"
  by (simp add: open_jobs_def)

lemma live_ids_touch [simp]: "live_ids (touch_claim now l w) = live_ids w"
proof -
  have "map run_id (live_runs (update_where P (\<lambda>r. r\<lparr>run_updated := now\<rparr>) rs)) = map run_id (live_runs rs)"
    for P and rs :: "run_row list"
    by (induction rs) simp_all
  then show ?thesis by (simp add: live_ids_def touch_claim_def)
qed

lemma jobs_live_touch [simp]: "jobs_live (touch_claim now l w) = jobs_live w"
  by (simp add: jobs_live_def)

lemma open_jobs_commit:
  "open_jobs (w\<lparr>jobs := update_where (active_job_of i) (\<lambda>j. j\<lparr>job_state := JobProcessing, job_step := s,
     job_progress := p, job_updated := now\<rparr>) (jobs w)\<rparr>) = open_jobs w"
proof -
  have "map (\<lambda>j. (job_user j, job_run j)) (filter (\<lambda>j. active_status (job_state j))
        (update_where (active_job_of i) (\<lambda>j. j\<lparr>job_state := JobProcessing, job_step := s, job_progress := p, job_updated := now\<rparr>) js))
      = map (\<lambda>j. (job_user j, job_run j)) (filter (\<lambda>j. active_status (job_state j)) js)" for js
    by (induction js) (auto simp: active_job_of_def active_status_def)
  then show ?thesis by (simp add: open_jobs_def)
qed

text \<open>Closing the open jobs of a run.\<close>

lemma open_jobs_closed:
  assumes "jobs w' = map (\<lambda>k. if active_job_of i k then f k else k) (jobs w)" and "\<And>k. \<not> active_status (job_state (f k))"
    and "p \<in> set (open_jobs w')"
  shows "p \<in> set (open_jobs w) \<and> snd p \<noteq> Some i"
  using assms by (auto simp: open_jobs_def active_job_of_def split: if_splits)

lemma failure_jobs_live:
  assumes b: "failure_body d appnow l stage f now w = Inr (w', a)" and live: "jobs_live w"
  shows "jobs_live w'"
proof -
  obtain users terminal f1 where a: "a = (users, terminal, f1)" by (cases a) auto
  from b [unfolded a] show ?thesis
  proof (cases rule: failure_body_cases)
    case (failed n w1)
    note t = recordStageFailure_tables [OF failed(1)]
    have "jobs w' = map (\<lambda>k. if active_job_of (l_run l) k then fail_job now f1 k else k) (jobs w)"
      using failed(2) t by (simp add: completeAsFailed_def update_where_def)
    from open_jobs_closed [OF this]
    have "p \<in> set (open_jobs w) \<and> (\<forall>i \<in> {l_run l}. snd p \<noteq> Some i)" if "p \<in> set (open_jobs w')" for p
      using that by (simp add: fail_job_def active_status_def)
    moreover have "live_ids w - {l_run l} \<subseteq> live_ids w'"
      by (rule live_ids_update [where P = "\<lambda>r. run_id r = l_run l" and f = "fail_row now f1"])
        (use failed(2) t in \<open>simp_all add: completeAsFailed_def fail_row_def\<close>)
    ultimately show ?thesis using jobs_live_step [OF live] by blast
  next
    case (retry n w1 delay)
    note t = recordStageFailure_tables [OF retry(1)]
    have "open_jobs w' = open_jobs w" using retry(2) t by (simp add: scheduleRetry_def Let_def open_jobs_def)
    moreover have "live_ids w - {} \<subseteq> live_ids w'"
      by (rule live_ids_update [where P = "\<lambda>r. run_id r = l_run l" and f = "wait_row now"])
        (use retry(2) t in \<open>simp_all add: scheduleRetry_def Let_def wait_row_def live_status_def\<close>)
    ultimately show ?thesis using jobs_live_step [OF live, of "{}" w'] by simp
  qed
qed

lemma persist_jobs_live:
  assumes "jobs w' = map (\<lambda>k. if active_job_of (l_run l) k then complete_job now (g k) k else k) (jobs w)"
    and "drops (l_run l) f w w'" and "jobs_live w"
  shows "jobs_live w'"
proof -
  from open_jobs_closed [OF assms(1)]
  have "p \<in> set (open_jobs w) \<and> (\<forall>i \<in> {l_run l}. snd p \<noteq> Some i)" if "p \<in> set (open_jobs w')" for p
    using that by (simp add: active_status_def)
  moreover have "live_ids w - {l_run l} \<subseteq> live_ids w'"
    by (rule live_ids_update [where P = "\<lambda>r. run_id r = l_run l" and f = f]) (use assms(2) in \<open>simp_all add: drops_def\<close>)
  ultimately show ?thesis using jobs_live_step [OF assms(3)] by blast
qed

subsection \<open>The invariant of the service\<close>

definition sys_inv :: "deps \<Rightarrow> world \<Rightarrow> bool" where
  "sys_inv d w =
     (wf w \<and> one_live_run w \<and> event_keys w \<and> job_keys w \<and> ids_inv d w \<and> jobs_live w)"

text \<open>A step other than a submission.\<close>

lemma kept_inv:
  assumes "sys_inv d w" and "kept d w w'" and "jobs_live w'"
  shows "sys_inv d w'"
  using assms all_evolve_wf [of w w'] all_evolve_live [of w w'] ids_inv_step [of d w w']
  by (simp add: sys_inv_def kept_def job_keys_def)

lemma kept_same:
  assumes "runs w' = runs w" and "stage_results w' = stage_results w" and "event_ids w' \<subseteq> event_ids w"
    and "event_keys w \<longrightarrow> event_keys w'" and "map job_id (jobs w') = map job_id (jobs w)"
  shows "kept d w w'"
  using assms by (auto simp: kept_def all_evolve_same woken_same attempts_le_same)

lemma jobs_live_same: "runs w' = runs w \<Longrightarrow> jobs w' = jobs w \<Longrightarrow> jobs_live w' = jobs_live w"
  using live_ids_same [of w' w] by (simp add: jobs_live_def open_jobs_def)

lemma mark_jobs [simp]: "jobs (mark now w) = jobs w" "stage_results (mark now w) = stage_results w"
  by (simp_all add: mark_def)

lemma claim_jobs_live:
  assumes "runs w' = update_where P f (runs w)" and "jobs w' = jobs w" and "\<And>r. run_id (f r) = run_id r"
    and "\<And>r. r \<in> set (runs w) \<Longrightarrow> P r \<Longrightarrow> live_status (run_state r) \<Longrightarrow> live_status (run_state (f r))"
    and "jobs_live w"
  shows "jobs_live w'"
proof (rule jobs_live_step [OF assms(5)])
  show "live_ids w - {} \<subseteq> live_ids w'" by (rule live_ids_update [OF assms(1,3)]) (rule disjI1, rule assms(4))
  show "p \<in> set (open_jobs w) \<and> (\<forall>i \<in> {}. snd p \<noteq> Some i)" if "p \<in> set (open_jobs w')" for p
    using that assms(2) by (simp add: open_jobs_def)
qed

lemma acquire_kept:
  assumes "Acquire None now i owner w = Inr (l, w')" and "wf w" and "jobs_live w"
  shows "kept d w w' \<and> jobs_live w'"
proof -
  have r: "runs w' = update_where (can_acquire now i) (acquire_row now owner) (runs w)" and j: "jobs w' = jobs w"
    and rest: "events w' = events w" "stage_results w' = stage_results w"
    using assms(1) by (auto simp: Acquire_def split: option.splits)
  have ph: "phase_of (acquire_row now owner r) \<noteq> Waiting g" for r g by (simp add: phase_of_def acquire_row_def)
  have "woken w w'" by (rule woken_update [OF r]) (simp_all add: ph, simp add: acquire_row_def)
  moreover have "jobs_live w'"
    by (rule claim_jobs_live [OF r j _ _ assms(3)]) (simp_all add: acquire_row_def live_status_def)
  ultimately show ?thesis
    using Acquire_evolves [OF assms(1,2)] j rest by (simp add: kept_def attempts_le_same event_keys_def event_ids_def)
qed

lemma renew_kept:
  assumes "Renew None now l w = Inr (l', w')" and "jobs_live w"
  shows "kept d w w' \<and> jobs_live w'"
proof -
  let ?f = "\<lambda>r. r\<lparr>run_expires := Some (now + lease_Duration), run_updated := now\<rparr>"
  have r: "runs w' = update_where (\<lambda>r. is_claim l r \<and> run_state r = RunProcessing) ?f (runs w)" and j: "jobs w' = jobs w"
    and rest: "events w' = events w" "stage_results w' = stage_results w"
    using assms(1) by (auto simp: Renew_def Let_def split: if_splits)
  have ph: "phase_of (?f r) = phase_of r" for r by (rule phase_of_eq) simp_all
  have "woken w w'" by (rule woken_update [OF r]) (simp_all add: ph)
  moreover have "jobs_live w'" by (rule claim_jobs_live [OF r j _ _ assms(2)]) simp_all
  ultimately show ?thesis
    using Renew_evolves [OF assms(1)] j rest by (simp add: kept_def attempts_le_same event_keys_def event_ids_def)
qed

lemma event_keys_Notify [simp]: "event_keys (Notify w) = event_keys w"
  by (simp add: event_keys_def)

lemma sweep_all_rest:
  "jobs (foldl (\<lambda>w e. sweep_one mk now fb e w) w es) = jobs w
   \<and> stage_results (foldl (\<lambda>w e. sweep_one mk now fb e w) w es) = stage_results w
   \<and> event_keys (foldl (\<lambda>w e. sweep_one mk now fb e w) w es) = event_keys w"
proof (induction es arbitrary: w)
  case (Cons e es)
  have "jobs (sweep_one mk now fb e w) = jobs w \<and> stage_results (sweep_one mk now fb e w) = stage_results w
      \<and> event_keys (sweep_one mk now fb e w) = event_keys w"
    by (simp add: sweep_one_def Let_def) (simp add: insert_event_def event_keys_def)
  with Cons.IH show ?case by simp
qed simp

lemma sweep_kept:
  assumes u: "uuid_inj (d_uuid d)" and inv: "sys_inv d w"
    and sw: "SweepExpired (d_uuid d) None now fb limit w = Inr (n, w')"
  shows "kept d w w' \<and> jobs_live w'"
proof -
  have wf: "wf w" and ids: "ids_inv d w" and live: "jobs_live w" using inv by (simp_all add: sys_inv_def)
  from sw obtain es where es: "es = swept_runs now limit w"
    and w': "w' = (if es = [] then w else Notify (foldl (\<lambda>w e. sweep_one (d_uuid d) now fb e w) w es))"
    by (rule SweepExpired_cases)
  have r: "runs w' = update_where (\<lambda>r. run_id r \<in> fst ` set es) (requeue_row now) (runs w)"
    by (simp add: w' sweep_all_runs update_where_none)
  have rest: "jobs w' = jobs w" "stage_results w' = stage_results w" "event_keys w' = event_keys w"
    using sweep_all_rest by (auto simp: w')
  have ids': "event_ids w' = (\<lambda>e. resume_id (d_uuid d) (fst e) (snd e)) ` set es \<union> event_ids w"
    by (simp add: w' sweep_all_events)
  have "sound_id d w' x" if x: "x \<in> event_ids w'" "x \<notin> event_ids w" for x
  proof -
    obtain e where e: "e \<in> set es" "x = resume_id (d_uuid d) (fst e) (snd e)" using x ids' by auto
    then obtain r where r0: "r \<in> set (runs w)" "e = (run_id r, run_generation r)" using swept_runs_in unfolding es by blast
    have "requeue_row now r \<in> set (runs w')"
      using e(1) r0 r by (force simp: set_update_where)
    then have "spent (fst e) (snd e) w'" using r0 unfolding spent_def by (intro bexI [of _ "requeue_row now r"]) (auto simp: requeue_row_def)
    with e(2) show ?thesis using resume_sound [OF u] by simp
  qed
  moreover have "jobs_live w'"
    by (rule claim_jobs_live [OF r rest(1) _ _ live]) (simp_all add: requeue_row_def live_status_def)
  ultimately show ?thesis
    using SweepExpired_evolves [OF sw wf] sweep_woken [OF u wf ids sw] rest by (simp add: kept_def attempts_le_same)
qed

end
