(* ===== verification/System.thy ===== *)
theory System
  imports Guarded
begin

text \<open>
  The service as a whole: every step keeps the invariant of the shared world and moves the runs along the
  abstract life cycle, and what no interleaving of submissions, workers, sweeps, dispatches and collection edits
  can do.
\<close>

subsection \<open>Every step keeps the invariant\<close>

lemma commit_jobs_live:
  assumes "commit_body d st stage hash out pr now w = Inr (w', us)" and "jobs_live w"
  shows "jobs_live w'"
proof -
  note runs = commit_body_runs [OF assms(1)]
  obtain w1 where w1: "saveCheckpoint (d_marshal d) now (r_id st) stage hash out w = Inr w1"
    and w': "jobs w' = update_where (active_job_of (r_id st)) (\<lambda>j. j\<lparr>job_state := JobProcessing,
        job_step := Some stage, job_progress := pr, job_updated := now\<rparr>) (jobs w1)"
    using assms(1) by (auto simp: commit_body_def bind_r_Inr_iff Let_def)
  have "jobs w1 = jobs w" using saveCheckpoint_tables [OF w1] by simp
  with w' open_jobs_commit [where w = w and i = "r_id st" and now = now and s = "Some stage" and p = pr] have "open_jobs w' = open_jobs w"
    by (simp add: open_jobs_def)
  moreover have "live_ids w - {} \<subseteq> live_ids w'" by (rule live_ids_update [OF runs]) simp_all
  ultimately show ?thesis using jobs_live_step [OF assms(2), of "{}" w'] by simp
qed

lemma escalate_jobs_live:
  assumes "escalate_body d st l now w = Inr (w', x)" and "jobs_live w"
  shows "jobs_live w'"
proof -
  have r: "runs w' = update_where (\<lambda>r. run_id r = r_id st)
      (\<lambda>r. r\<lparr>run_state := RunQueued, run_owner := None, run_expires := None, run_stage := stageDownload, run_updated := now\<rparr>) (runs w)"
    and j: "jobs w' = jobs w" using assms(1) by (auto simp: escalate_body_def Let_def)
  show ?thesis by (rule claim_jobs_live [OF r j _ _ assms(2)]) (simp_all add: live_status_def)
qed

lemma guarded_jobs_live:
  assumes "GuardedExec now l body w = Inr (w', a)" and "jobs_live w"
    and "\<And>v. jobs_live v \<Longrightarrow> body v = Inr (w', a) \<Longrightarrow> jobs_live w'"
  shows "jobs_live w'"
  by (rule assms(3) [OF _ guarded_cases(1) [OF assms(1)]]) (simp add: assms(2))

text \<open>A submission.\<close>

lemma live_ids_append: "live_ids (w\<lparr>runs := runs w @ [new_run now i c]\<rparr>) = insert i (live_ids w)"
  by (simp add: live_ids_def live_runs_def new_run_def live_status_def)

lemma submitNew_stages:
  assumes "submitNew e s hash w = Inr (out, w')"
  shows "stage_results w' = stage_results w \<and> (event_keys w \<longrightarrow> event_keys w')"
proof -
  have fs: "stage_results w2 = stage_results w1 \<and> events w2 = events w1"
    if "fileSubmission (se_uuid e) now u save cs w1 = Inr w2" for now u save cs w1 w2
    using that
  proof (induction cs arbitrary: w1)
    case (Cons c cs)
    then obtain n v where "fileSaves (se_uuid e) now u c [save] w1 = Inr (n, v)"
      "fileSubmission (se_uuid e) now u save cs v = Inr w2" by (auto simp: bind_r_Inr_iff)
    with Cons.IH show ?case by (auto simp: fileSaves_def Let_def split: if_splits)
  qed simp
  have fin: "stage_results w2 = stage_results w1 \<and> events w2 = events w1"
    if "finish now s h st w1 = Inr (o', w2)" for now h st w1 o' w2
    using finish_Inr(3) [OF that] by simp
  have ins: "stage_results w2 = stage_results w1 \<and> event_keys w2 = event_keys w1" if "Insert now ev w1 = Inr w2" for now ev w1 w2
    using that by (auto simp: Insert_def split: if_splits)
  have mrg: "stage_results (mergeJobCollections now i ids w1) = stage_results w1" for now i ids w1
    by (simp add: mergeJobCollections_def)
  have run: "stage_results w2 = stage_results w1 \<and> events w2 = events w1 \<and> jobs w2 = jobs w1"
    if "findOrCreateRun now n c w1 = (x, w2)" for now n c w1 x w2
    using that by (auto simp: findOrCreateRun_def split: list.splits)
  have keys: "event_keys w2 = event_keys w1" if "events w2 = events w1" for w1 w2
    using that by (simp add: event_keys_def)
  have join: "stage_results w2 = stage_results w1 \<and> (event_keys w1 \<longrightarrow> event_keys w2)"
    if jr: "join_run e s hash c w1 = Inr (out, w2)" for c w1 w2
  proof -
    obtain rn created v where r: "findOrCreateRun (se_now e) (f_run (se_ids e)) c w1 = ((rn, created), v)" by (metis prod.exhaust)
    let ?mine = "find (\<lambda>j. job_user j = rq_user (sub_request s) \<and> job_run j = Some rn) (jobs v)"
    define u where "u = (case ?mine of None \<Rightarrow> v\<lparr>jobs := jobs v @ [queued_job (se_now e) (f_job (se_ids e)) rn s]\<rparr>
        | Some j \<Rightarrow> mergeJobCollections (se_now e) (job_id j) (rq_collections (sub_request s)) v)"
    have u: "stage_results u = stage_results v" "events u = events v" by (simp_all add: u_def mrg split: option.splits)
    obtain x st where x: "(if created then Insert (se_now e) \<lparr>e_id = sub_event s, e_type = sub_type s, e_key = sub_routing s,
           e_run = rn, e_generation = 0, e_available = None\<rparr> u else Inr u) = Inr x"
      and f: "finish (se_now e) s hash st x = Inr (out, w2)"
    proof -
      have "\<exists>st. bind_r (if created then Insert (se_now e) \<lparr>e_id = sub_event s, e_type = sub_type s, e_key = sub_routing s,
           e_run = rn, e_generation = 0, e_available = None\<rparr> u else Inr u) (finish (se_now e) s hash st) = Inr (out, w2)"
      proof (cases ?mine)
        case None
        with jr have "bind_r (if created then Insert (se_now e) \<lparr>e_id = sub_event s, e_type = sub_type s, e_key = sub_routing s,
            e_run = rn, e_generation = 0, e_available = None\<rparr> u else Inr u)
            (finish (se_now e) s hash (pending_job Accepted (f_job (se_ids e)))) = Inr (out, w2)"
          unfolding u_def join_run_def r Let_def by (cases created) simp_all
        then show ?thesis by blast
      next
        case (Some k)
        with jr have "bind_r (if created then Insert (se_now e) \<lparr>e_id = sub_event s, e_type = sub_type s, e_key = sub_routing s,
            e_run = rn, e_generation = 0, e_available = None\<rparr> u else Inr u)
            (finish (se_now e) s hash (pending_job InFlight (job_id k))) = Inr (out, w2)"
          unfolding u_def join_run_def r Let_def by (cases created) simp_all
        then show ?thesis by blast
      qed
      then show thesis using that unfolding bind_r_Inr_iff by blast
    qed
    have "stage_results x = stage_results u \<and> event_keys x = event_keys u" using x ins by (cases created) auto
    then show ?thesis using u run [OF r] fin [OF f] keys by metis
  qed
  have reuse: "stage_results w2 = stage_results w1 \<and> (event_keys w1 \<longrightarrow> event_keys w2)"
    if re: "reuse_content e s hash c w1 = Inr (out, w2)" for c w1 w2
  proof -
    obtain save v where u: "upsert_save (f_save (se_ids e)) (se_now e) (rq_user (sub_request s)) c w1 = (save, v)" by (metis prod.exhaust)
    have "stage_results v = stage_results w1 \<and> events v = events w1" using u by (auto simp: upsert_save_def split: option.splits)
    moreover obtain x where x: "fileSubmission (se_uuid e) (se_now e) (rq_user (sub_request s)) save (rq_collections (sub_request s))
        (v\<lparr>jobs := jobs v @ [reuse_job (se_now e) (f_job (se_ids e)) save s]\<rparr>) = Inr x"
      and f: "finish (se_now e) s hash (ready Reused save) x = Inr (out, w2)"
      using re by (auto simp: reuse_content_def u Let_def bind_r_Inr_iff)
    ultimately show ?thesis using fs [OF x] fin [OF f] keys [of w2 w1] by simp
  qed
  have con: "stage_results w2 = stage_results w1 \<and> events w2 = events w1"
    if "findOrCreateContent (se_sha e) ra bl n s w1 = Inr (c, w2)" for ra bl n w1 c w2
    using that by (auto simp: findOrCreateContent_def split: option.splits if_splits)
  have flng: "stage_results w2 = stage_results w1 \<and> events w2 = events w1"
    if "bind_r (fileSubmission (se_uuid e) (se_now e) us sv cs w1) (finish (se_now e) s hash st) = Inr (out, w2)" for us sv cs w1 st w2
    using that fs fin by (fastforce simp: bind_r_Inr_iff)
  show ?thesis
  proof (cases "st_kind (findExisting (se_sha e) (rq_user (sub_request s)) (id_normalized (sub_identity s)) w)")
    case AlreadySaved
    then show ?thesis using assms flng [of _ _ _ w _ w'] keys [of w' w] by (auto simp: submitNew_def Let_def split: option.splits)
  next
    case InFlight
    let ?w1 = "mergeJobCollections (se_now e)
        (st_job (findExisting (se_sha e) (rq_user (sub_request s)) (id_normalized (sub_identity s)) w)) (rq_collections (sub_request s)) w"
    have "stage_results w' = stage_results ?w1 \<and> events w' = events ?w1"
      using assms InFlight fin [of _ _ _ ?w1 _ w'] by (auto simp: submitNew_def Let_def split: option.splits)
    then show ?thesis using keys [of w' w] mrg by simp
  next
    case Reused
    then show ?thesis by (simp add: findExisting_def split: option.splits)
  next
    case Accepted
    then obtain c w1 where c: "findOrCreateContent (se_sha e) (se_raced e) (se_blocked e) (f_content (se_ids e)) s w = Inr (c, w1)"
      and rest: "(case find (\<lambda>x. s_user x = rq_user (sub_request s) \<and> s_content x = c) (saves w1) of
           Some x \<Rightarrow>
             if list_ex (\<lambda>x. c_id x = c \<and> has_version x) (contents w1)
             then bind_r (fileSubmission (se_uuid e) (se_now e) (rq_user (sub_request s)) (s_id x) (rq_collections (sub_request s)) w1)
                    (finish (se_now e) s hash (ready AlreadySaved (s_id x)))
             else join_run e s hash c w1
         | None \<Rightarrow>
             if list_ex (\<lambda>x. c_id x = c \<and> has_version x) (contents w1) then reuse_content e s hash c w1
             else join_run e s hash c w1) = Inr (out, w')"
      using assms by (auto simp: submitNew_def Let_def bind_r_Inr_iff split: option.splits if_splits)
    have "stage_results w' = stage_results w1 \<and> (event_keys w1 \<longrightarrow> event_keys w')"
      using rest join [of c w1 w'] reuse [of c w1 w'] flng [of _ _ _ w1 _ w'] keys [of w' w1]
      by (cases "find (\<lambda>x. s_user x = rq_user (sub_request s) \<and> s_content x = c) (saves w1)") (auto split: if_splits)
    then show ?thesis using con [OF c] keys [of w1 w] by simp
  qed
qed

lemma Submit_stages:
  assumes "Submit e s w = Inr (out, w')"
  shows "stage_results w' = stage_results w \<and> (event_keys w \<longrightarrow> event_keys w')"
  using assms
proof (cases rule: Submit_cases)
  case (new w1)
  with submitNew_stages [OF new(3)] show ?thesis by simp
qed simp

lemma started_event:
  assumes "Insert now (start_event e s) w = Inr w2" and "sub_event s \<notin> event_ids w"
  shows "\<exists>ev. events w2 = events w @ [ev] \<and> ev_id ev = sub_event s \<and> wakes (f_run (se_ids e)) 0 ev"
  using assms insert_fresh_event [of _ w] by (auto simp: Insert_def start_event_def wakes_def split: if_splits)

lemma jobs_live_submit:
  assumes "jobs_live w" and "live_ids w \<subseteq> live_ids w'"
    and "\<And>p. p \<in> set (open_jobs w') \<Longrightarrow> p \<in> set (open_jobs w) \<or> (\<exists>i \<in> live_ids w'. snd p = Some i)"
  shows "jobs_live w'"
  using assms unfolding jobs_live_def by blast

lemma new_job_keys: "job_keys w \<Longrightarrow> \<forall>j \<in> set (jobs w). job_id j \<noteq> i \<Longrightarrow> map job_id (jobs w') = map job_id (jobs w) @ [i] \<Longrightarrow> job_keys w'"
  by (auto simp: job_keys_def)

lemma new_run_phase [simp]: "phase_of (new_run now i c) = Waiting 0"
  by (simp add: phase_of_def new_run_def)

lemma new_run_fields [simp]: "run_id (new_run now i c) = i" "run_owner (new_run now i c) = None" "run_state (new_run now i c) = RunQueued"
  by (simp_all add: new_run_def)

text \<open>A submission that starts a run adds it to the abstract service.\<close>

lemma abs_runs_append:
  assumes "runs w' = runs w @ [r]" and "\<forall>x \<in> set (runs w). run_id x \<noteq> run_id r"
  shows "abs_runs w' = (abs_runs w)(run_id r \<mapsto> phase_of r)" and "abs_runs w (run_id r) = None"
proof -
  have "find (\<lambda>x. run_id x = run_id r) (runs w) = None" using assms(2) by (auto simp: find_None_iff)
  then show "abs_runs w (run_id r) = None" by (simp add: abs_runs_def)
  have "find P (xs @ [r]) = (case find P xs of Some y \<Rightarrow> Some y | None \<Rightarrow> if P r then Some r else None)" for P xs
    by (induction xs) simp_all
  then show "abs_runs w' = (abs_runs w)(run_id r \<mapsto> phase_of r)"
    using \<open>find _ (runs w) = None\<close> by (auto simp: abs_runs_def assms(1) fun_eq_iff split: option.splits)
qed

definition good :: "deps \<Rightarrow> world \<Rightarrow> world \<Rightarrow> bool" where
  "good d w w' = (sys_inv d w' \<and> woken w w' \<and> spec_step\<^sup>*\<^sup>* (abs_runs w) (abs_runs w'))"

lemma kept_good: "sys_inv d w \<Longrightarrow> kept d w w' \<Longrightarrow> jobs_live w' \<Longrightarrow> good d w w'"
  using kept_inv [of d w w'] all_evolve_spec [of w w'] by (simp add: good_def kept_def)

lemma wf_append: "wf w \<Longrightarrow> runs w' = runs w @ [new_run now i c] \<Longrightarrow> \<forall>r \<in> set (runs w). run_id r \<noteq> i \<Longrightarrow> wf w'"
  by (auto simp: wf_def run_keys_def owned_processing_def)

lemma started_good:
  assumes inv: "sys_inv d w" and st: "started e s w w'" and fresh: "fresh_in e w"
    and ev: "sub_event s \<notin> event_ids w" and rnd: "\<And>ns x. sub_event s \<noteq> d_uuid d ns x"
    and rest: "stage_results w' = stage_results w" "event_keys w \<longrightarrow> event_keys w'"
  shows "good d w w'"
proof -
  let ?i = "f_run (se_ids e)"
  from st obtain c j w2 where no: "\<forall>r \<in> set (runs w). \<not> live_run_of c r"
    and r: "runs w' = runs w @ [new_run (se_now e) ?i c]"
    and j: "job_id j = f_job (se_ids e)" "job_run j = Some ?i" "jobs w' = jobs w @ [j]"
    and w2: "Insert (se_now e) (start_event e s) w = Inr w2" "events w' = events w2"
    unfolding started_def by blast
  from started_event [OF w2(1) ev] w2(2) obtain x where x: "events w' = events w @ [x]" "ev_id x = sub_event s" "wakes ?i 0 x" by auto
  have new: "\<forall>r \<in> set (runs w). run_id r \<noteq> ?i" using fresh by (simp add: fresh_in_def)
  have wf: "wf w'" using wf_append [OF _ r new] inv by (simp add: sys_inv_def)
  have one: "one_live_run w'" using one_live_run_append [OF _ no] inv r by (simp add: sys_inv_def one_live_run_def)
  have jk: "job_keys w'" using new_job_keys [of w "f_job (se_ids e)" w'] inv fresh j by (simp add: sys_inv_def fresh_in_def)
  have "sound_id d w' y" if "sound_id d w y" for y
  proof -
    have "attempts_of i t w' = attempts_of i t w" for i t by (simp add: attempts_of_def rest)
    moreover have "spent i g w \<Longrightarrow> spent i g w'" for i g by (auto simp: spent_def r)
    ultimately show ?thesis using that unfolding sound_id_def by simp
  qed
  moreover have "sound_id d w' (sub_event s)" by (rule no_digest [OF rnd])
  moreover have "event_ids w' = insert (sub_event s) (event_ids w)" using x by (simp add: event_ids_def)
  ultimately have ids: "ids_inv d w'" using inv by (simp add: sys_inv_def ids_inv_def)
  have live: "live_ids w' = insert ?i (live_ids w)" using live_ids_append [of w "se_now e" ?i c] by (simp add: live_ids_def r)
  have jl: "jobs_live w'"
  proof (rule jobs_live_submit [of w])
    show "p \<in> set (open_jobs w) \<or> (\<exists>i \<in> live_ids w'. snd p = Some i)" if "p \<in> set (open_jobs w')" for p
      using that j live by (auto simp: open_jobs_def split: if_splits)
  qed (use inv live in \<open>auto simp: sys_inv_def\<close>)
  have "woken w w'"
    unfolding woken_def
  proof (intro ballI allI impI)
    fix r' g assume r': "r' \<in> set (runs w')" "phase_of r' = Waiting g"
    show "(\<exists>r \<in> set (runs w). run_id r = run_id r' \<and> phase_of r = Waiting g) \<or> (\<exists>e \<in> set (events w'). wakes (run_id r') g e)"
    proof (cases "r' \<in> set (runs w)")
      case False
      then have "r' = new_run (se_now e) ?i c" using r' r by simp
      then show ?thesis using r'(2) x by auto
    qed (use r'(2) in blast)
  qed
  moreover have "spec_step (abs_runs w) (abs_runs w')"
    using abs_runs_append [OF r] new spec_start [of "abs_runs w" ?i] by simp
  ultimately show ?thesis using wf one jk ids jl rest(2) inv by (simp add: good_def sys_inv_def)
qed

lemma quiet_good:
  assumes inv: "sys_inv d w" and r: "runs w' = runs w" "events w' = events w" "stage_results w' = stage_results w"
    and jk: "job_keys w'" and jl: "jobs_live w'"
  shows "good d w w'"
proof -
  have "sound_id d w' y = sound_id d w y" for y
    by (simp add: sound_id_def spent_def attempts_of_def r)
  then have "ids_inv d w'" using inv by (simp add: sys_inv_def ids_inv_def event_ids_def r)
  moreover have "abs_runs w' = abs_runs w" by (simp add: abs_runs_def fun_eq_iff r)
  ultimately show ?thesis
    using inv jk jl woken_same [OF r(1)] r
    by (simp add: good_def sys_inv_def wf_runs_eq [of w' w] one_live_run_def event_keys_def)
qed

lemma Submit_good:
  assumes inv: "sys_inv d w" and sub: "Submit e s w = Inr (out, w')" and fresh: "fresh_in e w"
    and ev: "sub_event s \<notin> event_ids w" and rnd: "\<And>ns x. sub_event s \<noteq> d_uuid d ns x"
  shows "good d w w'"
proof -
  note st = Submit_stages [OF sub]
  have jk: "job_keys w" and jl: "jobs_live w" using inv by (simp_all add: sys_inv_def)
  have fj: "\<forall>j \<in> set (jobs w). job_id j \<noteq> f_job (se_ids e)" using fresh by (simp add: fresh_in_def)
  from Submit_effect [OF sub fresh] consider
      (same) "runs w' = runs w" "events w' = events w" "same_jobs e w w'"
    | (join) "joined e s w w'" | (start) "started e s w w'"
    by (auto simp: same_work_def)
  then show ?thesis
  proof cases
    case same
    have "job_keys w'"
      using same(3) jk new_job_keys [OF jk fj, of w'] by (auto simp: same_jobs_def job_keys_def)
    moreover have "jobs_live w'"
      using same jl by (simp add: same_jobs_def jobs_live_def live_ids_def)
    ultimately show ?thesis using quiet_good [OF inv same(1,2)] st by simp
  next
    case join
    then obtain r where r: "r \<in> set (runs w)" "live_status (run_state r)"
      and j: "jobs w' = jobs w @ [queued_job (se_now e) (f_job (se_ids e)) (run_id r) s]"
      and same: "runs w' = runs w" "events w' = events w"
      unfolding joined_def same_work_def by blast
    have live: "live_ids w' = live_ids w" "run_id r \<in> live_ids w" using r by (auto simp: live_ids_def set_live_runs same)
    have "job_keys w'" by (rule new_job_keys [OF jk fj]) (simp add: j queued_job_def)
    moreover have "jobs_live w'"
    proof (rule jobs_live_submit [OF jl])
      show "p \<in> set (open_jobs w) \<or> (\<exists>i \<in> live_ids w'. snd p = Some i)" if "p \<in> set (open_jobs w')" for p
        using that j live by (auto simp: open_jobs_def queued_job_def split: if_splits)
    qed (simp add: live)
    ultimately show ?thesis using quiet_good [OF inv same] st by simp
  next
    case start
    show ?thesis by (rule started_good [OF inv start fresh ev rnd]) (use st in simp_all)
  qed
qed

lemma dispatch_good:
  assumes inv: "sys_inv d w" and b: "dispatchOnce None pub now batch w = (ms, Inr (k, due, w'))"
  shows "good d w w'"
proof -
  have ek: "event_keys w" using inv by (simp add: sys_inv_def)
  have w': "w' = after_dispatch pub now batch w" using b by (simp add: dispatchOnce_eq [OF ek])
  have t: "runs w' = runs w" "stage_results w' = stage_results w" "jobs w' = jobs w" by (simp_all add: w' after_dispatch_def)
  have ids: "event_ids w' = event_ids w" by (auto simp: w' after_dispatch_def event_ids_def image_iff)
  have "kept d w w'"
    by (rule kept_same) (simp_all add: t ids, simp add: w' after_dispatch_keys)
  moreover have "jobs_live w'" using inv jobs_live_same [OF t(1,3)] by (simp add: sys_inv_def)
  ultimately show ?thesis using inv by (blast intro: kept_good)
qed

lemma untouched_good:
  assumes inv: "sys_inv d w" and t: "runs w' = runs w" "events w' = events w" "stage_results w' = stage_results w" "jobs w' = jobs w"
  shows "good d w w'"
  using inv jobs_live_same [OF t(1,4)] quiet_good [OF inv t(1-3)] t(4) by (simp add: sys_inv_def job_keys_def)

lemma sys_step_good:
  assumes u: "uuid_inj (d_uuid d)" and "sys_step d w w'" and inv: "sys_inv d w"
  shows "good d w w'"
proof -
  have wf: "wf w" and ids: "ids_inv d w" and jk: "job_keys w" and jl: "jobs_live w" using inv by (simp_all add: sys_inv_def)
  note kg = kept_good [OF inv]
  from assms(2) show ?thesis
  proof cases
    case (s_submit e s out)
    then show ?thesis using Submit_good [OF inv] by blast
  next
    case (s_acquire now i owner l)
    then show ?thesis using acquire_kept [OF _ wf jl] kg by blast
  next
    case (s_renew now l l')
    then show ?thesis using renew_kept [OF _ jl] kg by blast
  next
    case (s_sweep now fb limit n)
    then show ?thesis using sweep_kept [OF u inv] kg by blast
  next
    case (s_commit now l st stage hash out' pr us)
    have "kept d w w'" by (rule guarded_kept [OF s_commit(1) wf ids]) (rule commit_kept)
    moreover have "jobs_live w'" by (rule guarded_jobs_live [OF s_commit(1) jl]) (rule commit_jobs_live)
    ultimately show ?thesis by (rule kg)
  next
    case (s_escalate now l st x)
    have "kept d w w'" by (rule guarded_kept [OF s_escalate(1) wf ids]) (rule escalate_kept [OF u], use s_escalate(2) in auto)
    moreover have "jobs_live w'" by (rule guarded_jobs_live [OF s_escalate(1) jl]) (rule escalate_jobs_live)
    ultimately show ?thesis by (rule kg)
  next
    case (s_failure now l appnow stage f y)
    have "kept d w w'" by (rule guarded_kept [OF s_failure(1) wf ids]) (rule failure_kept [OF u], use s_failure(2) in auto)
    moreover have "jobs_live w'" by (rule guarded_jobs_live [OF s_failure(1) jl]) (rule failure_jobs_live)
    ultimately show ?thesis by (rule kg)
  next
    case (s_persist now l st us)
    have b: "persist_body d st now (touch_claim now l w) = Inr (w', us)" and h: "holds l w"
      using guarded_cases [OF s_persist(1)] wf by (simp_all add: wf_def)
    let ?v = "touch_claim now l w"
    have v: "holds l ?v" "wf ?v" "job_keys ?v" "jobs_live ?v"
      using h wf jk jl by (simp_all add: holds_touch touch_claim_wf job_keys_def)
    note k = persist_kept [OF u v(1,2,3) b s_persist(2)]
    obtain row where row: "find (\<lambda>r. run_id r = r_id st) (runs ?v) = Some row"
      using b by (auto simp: persist_body_def split: option.splits)
    have nc: "run_state row \<noteq> RunCompleted" using holds_row [OF v(1,2), of row] find_Some_in [OF row] s_persist(2) by auto
    have "jobs_live w'"
      by (rule persist_jobs_live [OF k(2) persist_body_drops [OF b row nc, unfolded s_persist(2)] v(4)])
    with kept_touch [OF k(1)] show ?thesis by (rule kg)
  next
    case (s_geocode row)
    then show ?thesis using untouched_good [OF inv] by (simp add: upsert_lookup_def)
  next
    case (s_dispatch pub now batch ms k due)
    then show ?thesis using dispatch_good [OF inv] by blast
  next
    case (s_collection sha is_uuid us)
    then show ?thesis using untouched_good [OF inv] col_step_tables by blast
  next
    case s_hint
    then show ?thesis using untouched_good [OF inv] by simp
  qed
qed

subsection \<open>Refinement of a step relation\<close>

text \<open>A concrete step relation with an invariant that implements an abstract one, through an abstraction
  function; a concrete step may be several abstract ones, or none.\<close>

locale refinement =
  fixes cstep :: "'c \<Rightarrow> 'c \<Rightarrow> bool" and astep :: "'a \<Rightarrow> 'a \<Rightarrow> bool"
    and inv :: "'c \<Rightarrow> bool" and abst :: "'c \<Rightarrow> 'a"
  assumes inv_step: "inv c \<Longrightarrow> cstep c c' \<Longrightarrow> inv c'"
    and simulates: "inv c \<Longrightarrow> cstep c c' \<Longrightarrow> astep\<^sup>*\<^sup>* (abst c) (abst c')"
begin

lemma steps_inv: "cstep\<^sup>*\<^sup>* c c' \<Longrightarrow> inv c \<Longrightarrow> inv c'"
  by (induction rule: rtranclp_induct) (auto intro: inv_step)

lemma steps_simulate:
  assumes "cstep\<^sup>*\<^sup>* c c'" and "inv c"
  shows "astep\<^sup>*\<^sup>* (abst c) (abst c')"
  using assms(1)
proof (induction rule: rtranclp_induct)
  case (step c' c'')
  from simulates [OF steps_inv [OF step.hyps(1) assms(2)] step.hyps(2)] step.IH show ?case
    by (rule rtranclp_trans [rotated])
qed simp

text \<open>What no abstract step can undo, no sequence of concrete steps undoes.\<close>

lemma stable_transfer:
  assumes stable: "\<And>a a'. P a \<Longrightarrow> astep a a' \<Longrightarrow> P a'"
    and steps: "cstep\<^sup>*\<^sup>* c c'" and c: "inv c" "P (abst c)"
  shows "P (abst c')"
proof -
  have "astep\<^sup>*\<^sup>* a a' \<Longrightarrow> P a \<Longrightarrow> P a'" for a a'
    by (induction rule: rtranclp_induct) (auto intro: stable)
  with steps_simulate [OF steps c(1)] c(2) show ?thesis by blast
qed

end

definition service_inv :: "deps \<Rightarrow> world \<Rightarrow> bool" where
  "service_inv d w = (uuid_inj (d_uuid d) \<and> sys_inv d w)"

interpretation service: refinement "sys_step d" spec_step "service_inv d" abs_runs for d
  using sys_step_good by unfold_locales (auto simp: service_inv_def good_def)

lemma empty_inv: "uuid_inj (d_uuid d) \<Longrightarrow> service_inv d empty_world"
  by (simp add: service_inv_def sys_inv_def wf_def run_keys_def owned_processing_def one_live_run_def event_keys_def
      job_keys_def ids_inv_def event_ids_def jobs_live_def open_jobs_def empty_world_def)

subsection \<open>The service respects the lease\<close>

definition gen_of :: "phase \<Rightarrow> int" where
  "gen_of p = (case p of Waiting g \<Rightarrow> g | Claimed g _ \<Rightarrow> g | _ \<Rightarrow> 0)"

lemma claimed_from:
  assumes "lifecycle\<^sup>*\<^sup>* p q"
  shows "(final p \<longrightarrow> q = p) \<and> (q = Claimed g ow \<longrightarrow> p = q \<or> gen_of p < g) \<and> (\<not> final q \<longrightarrow> gen_of p \<le> gen_of q)"
  using assms
proof (induction arbitrary: g ow rule: rtranclp_induct)
  case (step q r)
  have "q = Claimed h o' \<longrightarrow> p = q \<or> gen_of p < h" for h o' using step.IH by blast
  moreover note step.IH
  ultimately show ?case using step.hyps(2) by (cases q; cases r) (auto simp: gen_of_def final_def)
qed (simp add: gen_of_def final_def)

lemma evolves_view:
  assumes e: "evolves r r'" and r: "run_owner r = None \<or> run_state r = RunProcessing"
    and r': "run_owner r' = None \<or> run_state r' = RunProcessing"
  shows "view_le (run_generation r, run_owner r) (run_generation r', run_owner r')"
proof (cases "run_owner r'")
  case None
  then show ?thesis using e by (auto simp: evolves_def view_le_def)
next
  case (Some ow)
  then have ph: "phase_of r' = Claimed (run_generation r') ow" using r' by (simp add: phase_of_def)
  with claimed_from [OF evolvesD(5) [OF e]] have "phase_of r = phase_of r' \<or> gen_of (phase_of r) < run_generation r'" by blast
  moreover have "run_owner r = Some ow" if "phase_of r = Claimed g ow" for g
    using that by (auto simp: phase_of_def split: run_status.splits option.splits)
  moreover have "run_generation r < run_generation r'" if "gen_of (phase_of r) < run_generation r'" "phase_of r \<noteq> phase_of r'"
    using that e claimed_from [OF evolvesD(5) [OF e]] ph
    by (cases "phase_of r") (auto simp: final_def gen_of_def phase_of_def split: run_status.splits option.splits)
  moreover have "run_generation r < run_generation r' \<or> run_generation r' = run_generation r" using e by (auto simp: evolves_def)
  ultimately show ?thesis
    using Some ph by (cases "phase_of r = phase_of r'") (auto simp: view_le_def)
qed

lemma all_evolve_frame:
  assumes a: "all_evolve w w'" and wf: "wf w" "wf w'"
  shows "lease_frame w w'"
  unfolding lease_frame_def
proof (intro allI impI)
  fix i v assume v: "lease_view w i = Some v"
  then obtain r where r: "find (\<lambda>r. run_id r = i) (runs w) = Some r" "v = (run_generation r, run_owner r)"
    by (auto simp: lease_view_def)
  with all_evolve_find [OF a, of i] obtain r' where r': "find (\<lambda>r. run_id r = i) (runs w') = Some r'" "evolves r r'"
    by (auto simp: option_rel_Some1)
  have "run_owner r = None \<or> run_state r = RunProcessing" "run_owner r' = None \<or> run_state r' = RunProcessing"
    using find_Some_in [OF r(1)] find_Some_in [OF r'(1)] wf by (auto simp: wf_def owned_processing_def)
  from evolves_view [OF r'(2) this] r r' show "\<exists>b. lease_view w' i = Some b \<and> view_le v b"
    by (simp add: lease_view_def)
qed

lemma append_frame: "runs w' = runs w @ rs \<Longrightarrow> lease_frame w w'"
proof -
  have "find P (xs @ ys) = (case find P xs of Some y \<Rightarrow> Some y | None \<Rightarrow> find P ys)" for P and xs ys :: "run_row list"
    by (induction xs) simp_all
  then show "runs w' = runs w @ rs \<Longrightarrow> lease_frame w w'"
    by (auto simp: lease_frame_def lease_view_def split: option.splits)
qed

lemma sys_step_frame:
  assumes inv: "service_inv d w" and step: "sys_step d w w'"
  shows "lease_frame w w'"
proof -
  have wf: "wf w" "wf w'"
    using inv sys_step_good [OF _ step] by (auto simp: service_inv_def good_def sys_inv_def)
  note fr = all_evolve_frame [OF _ wf]
  have same: "lease_frame w w'" if "runs w' = runs w" using append_frame [of w' w "[]"] that by simp
  from step show ?thesis
  proof cases
    case (s_submit e s out)
    from Submit_effect [OF s_submit(1,2)] obtain rs where "runs w' = runs w @ rs"
      unfolding same_work_def joined_def started_def by fastforce
    then show ?thesis by (rule append_frame)
  next
    case (s_acquire now i owner l)
    then show ?thesis using fr Acquire_evolves wf by blast
  next
    case (s_renew now l l')
    then show ?thesis using fr Renew_evolves by blast
  next
    case (s_sweep now fb limit n)
    then show ?thesis using fr SweepExpired_evolves wf by blast
  next
    case (s_commit now l st stage hash out' pr us)
    then show ?thesis using fr commit_evolves wf by blast
  next
    case (s_escalate now l st x)
    then show ?thesis using fr escalate_evolves wf by blast
  next
    case (s_failure now l appnow stage f y)
    then show ?thesis using fr failure_evolves wf by blast
  next
    case (s_persist now l st us)
    then show ?thesis using fr persist_evolves wf by blast
  next
    case (s_geocode row)
    then show ?thesis by (intro same) (simp add: upsert_lookup_def)
  next
    case (s_dispatch pub now batch ms k due)
    then show ?thesis using dispatch_tables same by blast
  next
    case (s_collection sha is_uuid us)
    then show ?thesis using col_step_tables same by blast
  next
    case s_hint
    then show ?thesis by (intro same) simp
  qed
qed

text \<open>The interface of a store of fenced claims, for the whole service.\<close>

interpretation service_store: fenced_store lease_view "\<lambda>w w'. service_inv d w \<and> sys_step d w w'" for d
  by unfold_locales (blast intro: lease_frame_view sys_step_frame)

lemma service_steps: "(sys_step d)\<^sup>*\<^sup>* w w' \<Longrightarrow> service_inv d w \<Longrightarrow> (\<lambda>w w'. service_inv d w \<and> sys_step d w w')\<^sup>*\<^sup>* w w'"
proof (induction rule: rtranclp_induct)
  case (step v x)
  then show ?case using service.steps_inv [OF step.hyps(1)] by (metis (mono_tags, lifting) rtranclp.rtrancl_into_rtrancl)
qed simp

subsection \<open>The properties\<close>

text \<open>C1: The service implements the abstract life cycle: in any interleaving of its transactions, from an empty
  database or any consistent state, the runs, seen through their phases, only start waiting at generation 0 and
  move by claim, takeover, yield, success and failure.\<close>

theorem service_refines_the_life_cycle:
  assumes "uuid_inj (d_uuid d)" and "sys_inv d w" and "(sys_step d)\<^sup>*\<^sup>* w w'"
  shows "sys_inv d w' \<and> spec_step\<^sup>*\<^sup>* (abs_runs w) (abs_runs w')"
  using service.steps_inv [OF assms(3)] service.steps_simulate [OF assms(3)] assms(1,2) by (simp add: service_inv_def)

text \<open>C3: A run ends once and for all, and a content never has two live runs: whatever the workers, the sweeper
  and the submissions do afterwards, a run that succeeded or was given up keeps that outcome, and no
  two live runs process the same content at the same version.\<close>

theorem finished_runs_stay_finished:
  assumes "uuid_inj (d_uuid d)" and "sys_inv d w" and "(sys_step d)\<^sup>*\<^sup>* w w'" and "abs_runs w i = Some p" and "final p"
  shows "abs_runs w' i = Some p \<and> one_live_run w'"
proof -
  have inv: "service_inv d w" using assms(1,2) by (simp add: service_inv_def)
  have "abs_runs w' i = Some p"
    by (rule service.stable_transfer [where P = "\<lambda>m. m i = Some p", OF _ assms(3) inv assms(4)])
      (rule spec_step_final [OF _ _ assms(5)])
  moreover have "one_live_run w'" using service.steps_inv [OF assms(3) inv] by (simp add: service_inv_def sys_inv_def)
  ultimately show ?thesis by blast
qed

text \<open>C2: No run is stranded: in every reachable state, whenever one more transaction leaves a run waiting that was
  not waiting at that generation before, the same transaction has left an event for that run and generation
  in the outbox that no dispatch has published or tried yet.\<close>

theorem every_waiting_run_has_its_wakeup:
  assumes "uuid_inj (d_uuid d)" and "(sys_step d)\<^sup>*\<^sup>* empty_world w" and "sys_step d w w'"
    and "r \<in> set (runs w')" and "phase_of r = Waiting g"
    and "\<And>q. q \<in> set (runs w) \<Longrightarrow> run_id q = run_id r \<Longrightarrow> phase_of q \<noteq> Waiting g"
  shows "\<exists>e \<in> set (events w'). wakes (run_id r) g e"
proof -
  have "service_inv d w" using service.steps_inv [OF assms(2) empty_inv [OF assms(1)]] .
  then have "woken w w'" using sys_step_good [OF assms(1,3)] by (simp add: service_inv_def good_def)
  with assms(4-6) show ?thesis unfolding woken_def by blast
qed


text \<open>C5: A worker that has lost its run writes nothing any more: once the run shows another owner, or none, at the
  worker's generation or a later one, then after any interleaving of submissions, claims, sweeps, commits,
  failures, dispatches and collection edits every guarded transaction of that worker is refused.\<close>

theorem lost_worker_writes_nothing:
  assumes "uuid_inj (d_uuid d)" and "sys_inv d w" and "lost l w" and "(sys_step d)\<^sup>*\<^sup>* w w'"
  shows "GuardedExec now l body w' = Inl ErrFenced"
proof -
  have inv: "service_inv d w" using assms(1,2) by (simp add: service_inv_def)
  obtain g ow where v: "lease_view w (l_run l) = Some (g, ow)" "l_generation l \<le> g" "(g, ow) \<noteq> (l_generation l, Some (l_owner l))"
    using assms(3) by (auto simp: lost_def seen_def holds_def)
  have "\<not> holds l w'"
    using service_store.stale_forever [OF service_steps [OF assms(4) inv] v] by (simp add: holds_def)
  moreover have "run_keys w'" using service.steps_inv [OF assms(4) inv] by (simp add: service_inv_def sys_inv_def wf_def)
  ultimately show ?thesis by (rule GuardedExec_fenced [rotated])
qed

subsection \<open>A run of the service\<close>

definition sys_deps :: deps where
  "sys_deps = sample_deps\<lparr>d_uuid := sample_uuid\<rparr>"

lemma sys_deps_uuid: "uuid_inj (d_uuid sys_deps)"
  by (simp add: sys_deps_def sample_uuid_inj)

lemma sample_event_is_random: "sub_event sample_submission \<noteq> d_uuid sys_deps ns x"
proof -
  have "CHR '':'' \<in> set (d_uuid sys_deps ns x)" by (simp add: sys_deps_def sample_uuid_def)
  moreover have "CHR '':'' \<notin> set (sub_event sample_submission)" by (simp add: sample_submission_def)
  ultimately show ?thesis by metis
qed

lemma sample_first_step:
  obtains w out where "sys_step sys_deps empty_world w" and "runs w = [new_run 10 ''r1'' ''c1'']" and "length (jobs w) = 1"
    and "job_state (hd (jobs w)) = JobQueued"
proof -
  have "\<exists>x. Submit sample_env sample_submission empty_world = Inr x \<and> runs (snd x) = [new_run 10 ''r1'' ''c1'']
    \<and> length (jobs (snd x)) = 1 \<and> job_state (hd (jobs (snd x))) = JobQueued"
    by (simp add: enqueue_sample_defs Submit_def submitNew_def Let_def requireFilableCollections_def findExisting_def
        newest_def active_jobs_def MaxActiveJobs_def matching_def findOrCreateContent_def join_run_def findOrCreateRun_def
        Insert_def insert_event_def finish_def replay_def pending_job_def loadJob_def queued_job_def
        EventProcessLight_def QueueLight_def IdempotencyLifetime_def Notify_def new_content_def has_version_def)
  then obtain out w where s: "Submit sample_env sample_submission empty_world = Inr (out, w)"
    and r: "runs w = [new_run 10 ''r1'' ''c1'']" "length (jobs w) = 1" "job_state (hd (jobs w)) = JobQueued" by (metis prod.collapse)
  have "sys_step sys_deps empty_world w"
    by (rule s_submit [OF s sample_fresh(1)]) (simp add: event_ids_def empty_world_def, rule sample_event_is_random)
  with r that show thesis by blast
qed

definition sample_finished :: world where
  "sample_finished = empty_world\<lparr>runs := [sample_run\<lparr>run_state := RunCompleted\<rparr>]\<rparr>"

lemma sample_finished_inv: "sys_inv sys_deps sample_finished"
  by (simp add: sys_inv_def wf_def run_keys_def owned_processing_def one_live_run_def event_keys_def
      job_keys_def ids_inv_def event_ids_def jobs_live_def open_jobs_def empty_world_def sample_finished_def sample_run_def
      live_status_def)

lemma empty_sys_inv: "sys_inv sys_deps empty_world"
  using empty_inv [OF sys_deps_uuid] by (simp add: service_inv_def)

theorem service_refines_the_life_cycle_witness:
  "\<exists>w'. sys_step sys_deps empty_world w' \<and> length (runs w') = 1 \<and> spec_step\<^sup>*\<^sup>* (abs_runs empty_world) (abs_runs w')"
proof -
  obtain w where s: "sys_step sys_deps empty_world w" "runs w = [new_run 10 ''r1'' ''c1'']" by (rule sample_first_step)
  from service_refines_the_life_cycle [OF sys_deps_uuid empty_sys_inv r_into_rtranclp [of "sys_step sys_deps", OF s(1)]] s
  show ?thesis by auto
qed

theorem finished_runs_stay_finished_witness:
  "abs_runs (Notify sample_finished) ''r1'' = Some Succeeded"
proof -
  have "abs_runs sample_finished ''r1'' = Some Succeeded"
    by (simp add: abs_runs_def sample_finished_def sample_run_def phase_of_def)
  from finished_runs_stay_finished [OF sys_deps_uuid sample_finished_inv r_into_rtranclp [of "sys_step sys_deps", OF s_hint] this]
  show ?thesis by (simp add: final_def)
qed

theorem every_waiting_run_has_its_wakeup_witness:
  "\<exists>w'. sys_step sys_deps empty_world w' \<and> (\<exists>e \<in> set (events w'). wakes ''r1'' 0 e)"
proof -
  obtain w where s: "sys_step sys_deps empty_world w" "runs w = [new_run 10 ''r1'' ''c1'']" by (rule sample_first_step)
  from every_waiting_run_has_its_wakeup [OF sys_deps_uuid rtranclp.rtrancl_refl s(1), of "new_run 10 ''r1'' ''c1''" 0] s
  show ?thesis by (auto simp: empty_world_def)
qed


theorem lost_worker_writes_nothing_witness:
  "GuardedExec 5 \<lparr>l_run = ''r1'', l_owner = ''a'', l_generation = 0, l_expires = 9\<rparr> (\<lambda>w. Inr (w, ())) (Notify sample_finished)
   = Inl ErrFenced"
proof -
  have "lost \<lparr>l_run = ''r1'', l_owner = ''a'', l_generation = 0, l_expires = 9\<rparr> sample_finished"
    by (simp add: lost_def seen_def holds_def lease_view_def sample_finished_def sample_run_def)
  from lost_worker_writes_nothing [OF sys_deps_uuid sample_finished_inv this r_into_rtranclp [of "sys_step sys_deps", OF s_hint]]
  show ?thesis .
qed

end
