(* ===== verification/Int64.thy ===== *)
theory Int64
  imports Prelude "HOL-Library.Word"
begin

text \<open>
  Go's \<open>int64\<close> as a 64-bit word: \<open>+\<close>, \<open>-\<close> and \<open>*\<close> wrap around, \<open>sint\<close> reads the value in
  two's complement, comparison is signed, and division truncates towards zero.
\<close>

type_synonym int64 = "64 word"

definition trunc_div :: "int \<Rightarrow> int \<Rightarrow> int" where
  "trunc_div a b = sgn a * sgn b * (\<bar>a\<bar> div \<bar>b\<bar>)"

definition div64 :: "int64 \<Rightarrow> int64 \<Rightarrow> int64" where
  "div64 a b = word_of_int (trunc_div (sint a) (sint b))"

definition less64 :: "int64 \<Rightarrow> int64 \<Rightarrow> bool" where
  "less64 a b = (sint a < sint b)"

abbreviation int64_of :: "int \<Rightarrow> int64" where
  "int64_of i \<equiv> word_of_int i"

lemma trunc_div_nonneg: "0 \<le> a \<Longrightarrow> 0 < b \<Longrightarrow> trunc_div a b = a div b"
  by (cases "a = 0") (simp_all add: trunc_div_def)

lemma in_int64_iff: "in_int64 i \<longleftrightarrow> - (2 ^ 63) \<le> i \<and> i < 2 ^ 63"
  by (simp add: in_int64_def min_int64_def max_int64_def) linarith

lemma sint_int64_of: "in_int64 i \<Longrightarrow> sint (int64_of i) = i"
  by (simp add: in_int64_iff sint_sbintrunc' signed_take_bit_int_eq_self)

lemma in_int64_sint [simp]: "in_int64 (sint (a :: int64))"
  using sint_greater_eq [of a] sint_less [of a] by (simp add: in_int64_iff)

text \<open>Arithmetic that stays in range is the arithmetic of the integers.\<close>

lemma sint_arith:
  fixes a b :: int64
  shows "in_int64 (sint a + sint b) \<Longrightarrow> sint (a + b) = sint a + sint b"
    and "in_int64 (sint a - sint b) \<Longrightarrow> sint (a - b) = sint a - sint b"
    and "in_int64 (sint a * sint b) \<Longrightarrow> sint (a * b) = sint a * sint b"
  by (simp_all add: in_int64_iff sint_word_ariths signed_take_bit_int_eq_self)

lemma sint_div64:
  assumes "0 \<le> sint a" and "0 < sint b"
  shows "sint (div64 a b) = sint a div sint b"
proof -
  have "0 \<le> sint a div sint b" "sint a div sint b \<le> sint a"
    using assms div_by_1 [of "sint a"] zdiv_mono2 [of "sint a" 1 "sint b"] by (simp_all add: pos_imp_zdiv_nonneg_iff)
  moreover have "sint a \<le> max_int64" using in_int64_sint [of a] by (simp add: in_int64_def)
  ultimately have "in_int64 (sint a div sint b)" by (simp add: in_int64_def min_int64_def)
  with assms show ?thesis by (simp add: div64_def trunc_div_nonneg sint_int64_of)
qed

text \<open>The machine integers are ordered by their signed value; with the order of the library's instance
  for words being the unsigned one, the signed order is an interface of its own.\<close>

lemma less64_irrefl [simp]: "\<not> less64 a a"
  by (simp add: less64_def)

lemma less64_trans: "less64 a b \<Longrightarrow> less64 b c \<Longrightarrow> less64 a c"
  by (simp add: less64_def)

lemma not_less64: "\<not> less64 a b \<longleftrightarrow> sint b \<le> sint a"
  by (simp add: less64_def not_less)

end
