(* ===== verification/Spend.thy ===== *)
theory Spend
  imports Database Int64
begin

text \<open>
  The cost gate (\<open>internal/spend\<close>): the price list, the price of one provider call, the ledger in PostgreSQL
  (\<open>internal/postgres/spend.go\<close>), and the ladder of limits that decides whether a submission of a
  given shape is still accepted.  An amount is an \<open>int64\<close> of micro-dollars and wraps as Go's does.
\<close>

type_synonym micros = int64

subsection \<open>Amounts\<close>

text \<open>\<open>ParseUSD\<close>\<close>

definition ParseUSD :: "string \<Rightarrow> string + micros" where
  "ParseUSD raw =
     (let text = trim_space raw
      in if text = [] then Inl ''an amount is required''
         else if has_prefix text ''-'' then Inl ''negative''
         else
           (let text = trim_prefix text ''$'';
                (whole, fraction, _) = cut_at (CHR ''.'') text;
                whole = (if whole = [] then ''0'' else whole)
            in if 6 < length fraction then Inl ''finer than one micro-dollar''
               else (case parse_int whole of None \<Rightarrow> Inl ''not a dollar amount''
                 | Some dollars \<Rightarrow>
                     (case parse_int (fraction @ replicate (6 - length fraction) (CHR ''0'')) of
                        None \<Rightarrow> Inl ''not a dollar amount''
                      | Some part \<Rightarrow>
                          if 4611686018427 < dollars then Inl ''too large''
                          else Inr (int64_of dollars * 1000000 + int64_of part)))))"

subsection \<open>Prices\<close>

definition UnitInputTokens :: string where "UnitInputTokens = ''input_mtok''"
definition UnitOutputTokens :: string where "UnitOutputTokens = ''output_mtok''"
definition UnitCall :: string where "UnitCall = ''call''"
definition AnyModel :: string where "AnyModel = ''*''"

type_synonym prices = "(string \<times> micros) list"

definition price_at :: "prices \<Rightarrow> string \<Rightarrow> micros option" where
  "price_at = map_of"

definition priceKey :: "string \<Rightarrow> string \<Rightarrow> string \<Rightarrow> string" where
  "priceKey provider model unit = provider @ '':'' @ model @ '':'' @ unit"

definition splitPriceKey :: "string \<Rightarrow> string + (string \<times> string \<times> string)" where
  "splitPriceKey key =
     (case split_on (CHR '':'') key of
        [provider, model, unit] \<Rightarrow>
          if provider = [] \<or> model = [] then Inl ''an empty provider or model''
          else if unit \<in> set [UnitInputTokens, UnitOutputTokens, UnitCall] then Inr (provider, model, unit)
          else Inl ''unknown unit''
      | _ \<Rightarrow> Inl ''not provider:model:unit'')"

fun parse_price_fields :: "string list \<Rightarrow> prices \<Rightarrow> string + prices" where
  "parse_price_fields [] ps = Inr ps"
| "parse_price_fields (f # fs) ps =
     (let field = trim_space f
      in if field = [] then parse_price_fields fs ps
         else (case cut_at (CHR ''='') field of (key, amount, found) \<Rightarrow>
           if \<not> found then Inl ''not provider:model:unit=amount''
           else bind_r (splitPriceKey (trim_space key)) (\<lambda>(provider, model, unit).
             bind_r (ParseUSD (trim_space amount)) (\<lambda>v.
               let full = priceKey provider model unit
               in if price_at ps full \<noteq> None then Inl ''set twice''
                  else parse_price_fields fs (ps @ [(full, v)])))))"

definition ParsePrices :: "string \<Rightarrow> string + prices" where
  "ParsePrices raw =
     bind_r (parse_price_fields (split_on (CHR '','') raw) [])
       (\<lambda>ps. if ps = [] then Inl ''no prices are configured'' else Inr ps)"

definition ParsePricesOrNone :: "string \<Rightarrow> string + prices" where
  "ParsePricesOrNone raw = (if trim_space raw = [] then Inr [] else ParsePrices raw)"

record usage =
  us_provider :: string
  us_model :: string
  us_operation :: string
  us_calls :: int64
  us_input :: int64
  us_output :: int64
  us_measured :: bool

definition price_lookup :: "prices \<Rightarrow> string \<Rightarrow> string \<Rightarrow> string \<Rightarrow> micros option" where
  "price_lookup ps provider model unit =
     (case price_at ps (priceKey provider model unit) of
        Some p \<Rightarrow> Some p
      | None \<Rightarrow> price_at ps (priceKey provider AnyModel unit))"

definition perMillion :: "micros \<Rightarrow> int64 \<Rightarrow> micros" where
  "perMillion price tokens =
     (if price = 0 \<or> tokens = 0 then 0 else div64 (price * tokens + 500000) 1000000)"

definition or_zero :: "micros option \<Rightarrow> micros" where
  "or_zero p = (case p of None \<Rightarrow> 0 | Some v \<Rightarrow> v)"

text \<open>\<open>Cost\<close>: \<open>None\<close> when no price covers the call.\<close>

definition Cost :: "prices \<Rightarrow> usage \<Rightarrow> micros option" where
  "Cost ps u =
     (let inp = price_lookup ps (us_provider u) (us_model u) UnitInputTokens;
          out = price_lookup ps (us_provider u) (us_model u) UnitOutputTokens
      in if us_measured u \<and> (inp \<noteq> None \<or> out \<noteq> None)
         then Some (perMillion (or_zero inp) (us_input u) + perMillion (or_zero out) (us_output u))
         else map_option (\<lambda>p. p * us_calls u) (price_lookup ps (us_provider u) (us_model u) UnitCall))"

subsection \<open>The ledger\<close>

record ledger_row =
  lr_usage :: usage
  lr_cost :: micros
  lr_priced :: bool
  lr_occurred :: time

definition accountingLabel :: "usage \<Rightarrow> bool \<Rightarrow> string" where
  "accountingLabel u priced =
     (if \<not> priced then ''unpriced'' else if us_measured u then ''measured'' else ''counted'')"

text \<open>\<open>Record\<close>: the rows after the call, and the label under which the call is counted, \<open>None\<close> when
  it is not counted at all.  A driver error loses the row and says so.\<close>

definition Record_usage ::
  "string option \<Rightarrow> prices \<Rightarrow> time \<Rightarrow> usage \<Rightarrow> ledger_row list \<Rightarrow> ledger_row list \<times> string option" where
  "Record_usage fault ps now u rows =
     (if \<not> less64 0 (us_calls u) then (rows, None)
      else
        (let cost = Cost ps u;
             row = \<lparr>lr_usage = u, lr_cost = or_zero cost, lr_priced = (cost \<noteq> None), lr_occurred = now\<rparr>
         in case fault of
              Some _ \<Rightarrow> (rows, Some ''unrecorded'')
            | None \<Rightarrow> (rows @ [row], Some (accountingLabel u (cost \<noteq> None)))))"

text \<open>\<open>MonthToDateMicros\<close>: PostgreSQL sums in \<open>numeric\<close>; the cast back to \<open>bigint\<close> fails out of
  range.  \<open>month\<close> is the first instant of the current month in UTC.\<close>

definition MonthToDateMicros :: "string option \<Rightarrow> time \<Rightarrow> ledger_row list \<Rightarrow> string + micros" where
  "MonthToDateMicros fault month rows =
     (let total = sum_list (map (\<lambda>r. sint (lr_cost r)) (filter (\<lambda>r. month \<le> lr_occurred r) rows))
      in case fault of Some m \<Rightarrow> Inl m
       | None \<Rightarrow> if in_int64 total then Inr (int64_of total) else Inl ''bigint out of range'')"

subsection \<open>The gate\<close>

definition GroupAll :: string where "GroupAll = ''all''"

record work =
  wk_platform :: string
  wk_class :: string

record limits =
  lm_warn :: micros
  lm_stop :: micros
  lm_order :: "string list"

fun stop_groups :: "string list \<Rightarrow> string list \<Rightarrow> string + string list" where
  "stop_groups [] seen = Inr seen"
| "stop_groups (g # gs) seen =
     (let group = trim_space g
      in if group = [] then stop_groups gs seen
         else if group \<in> set seen then Inl ''named twice''
         else stop_groups gs (seen @ [group]))"

definition NewLimits :: "string \<Rightarrow> string \<Rightarrow> string \<Rightarrow> string + limits" where
  "NewLimits warnUSD stopUSD stopOrder =
     bind_r (ParseUSD warnUSD) (\<lambda>warn.
     bind_r (ParseUSD stopUSD) (\<lambda>stop.
       if warn = 0 then Inl ''the warning amount is zero''
       else if \<not> less64 warn stop then Inl ''the hard stop must be above the warning amount''
       else bind_r (stop_groups (split_on (CHR '','') stopOrder) []) (\<lambda>groups.
         if groups = [] then Inl ''the stop order is empty''
         else if GroupAll \<notin> set groups then Inl ''the stop order must end with all''
         else if last groups \<noteq> GroupAll then Inl ''all must be last''
         else Inr \<lparr>lm_warn = warn, lm_stop = stop, lm_order = groups\<rparr>)))"

definition ShedAt :: "limits \<Rightarrow> nat \<Rightarrow> micros" where
  "ShedAt l position =
     (let span = lm_stop l - lm_warn l
      in lm_warn l + div64 (span * of_nat (position + 1)) (of_nat (length (lm_order l))))"

definition group_matches :: "string \<Rightarrow> work \<Rightarrow> bool" where
  "group_matches g w = (g = GroupAll \<or> g = wk_platform w \<or> g = wk_class w)"

text \<open>The loops over the stop order, with the position.\<close>

definition shedding :: "limits \<Rightarrow> micros \<Rightarrow> work \<Rightarrow> nat \<times> string \<Rightarrow> bool" where
  "shedding l spent w e = (group_matches (snd e) w \<and> \<not> less64 spent (ShedAt l (fst e)))"

definition stopped :: "limits \<Rightarrow> micros \<Rightarrow> work \<Rightarrow> bool" where
  "stopped l spent w =
     (\<not> less64 spent (lm_stop l) \<or> list_ex (shedding l spent w) (enumerate 0 (lm_order l)))"

definition blockedBy :: "limits \<Rightarrow> micros \<Rightarrow> work \<Rightarrow> string" where
  "blockedBy l spent w =
     (case find (shedding l spent w) (enumerate 0 (lm_order l)) of Some (_, g) \<Rightarrow> g | None \<Rightarrow> GroupAll)"

datatype gate_err = ErrLimitReached | ErrLedgerUnreadable string

text \<open>\<open>Allow\<close>: \<open>None\<close> accepts the work; an unreadable ledger refuses it.\<close>

definition Allow :: "string option \<Rightarrow> time \<Rightarrow> limits \<Rightarrow> work \<Rightarrow> ledger_row list \<Rightarrow> gate_err option" where
  "Allow fault month l w rows =
     (case MonthToDateMicros fault month rows of
        Inl m \<Rightarrow> Some (ErrLedgerUnreadable m)
      | Inr spent \<Rightarrow> if stopped l spent w then Some ErrLimitReached else None)"

subsection \<open>Reading an amount\<close>

definition pad6 :: "nat \<Rightarrow> string" where
  "pad6 m = replicate (6 - length (show_nat m)) (CHR ''0'') @ show_nat m"

lemma digits_value_append: "digits_value (replicate k (CHR ''0'') @ s) = digits_value s"
  by (induction k) (simp_all add: digits_value_def char_code_def)

lemma cut_at_plain: "d \<notin> set a \<Longrightarrow> cut_at d (a @ d # b) = (a, b, True)"
  by (induction a) auto

lemma digit_not: "is_digit c \<Longrightarrow> c \<noteq> CHR ''.'' \<and> c \<noteq> CHR ''-'' \<and> c \<noteq> CHR ''+'' \<and> c \<noteq> CHR ''$'' \<and> \<not> is_space c"
  by (auto simp: is_digit_def is_space_def char_code_def)

lemma parse_digits:
  assumes "s \<noteq> []" and "list_all is_digit s" and "in_int64 (digits_value s)"
  shows "parse_int s = Some (digits_value s)"
  using assms digit_not by (cases s) (auto simp: parse_int_def)

lemma length_digits_rev: "n < 10 ^ Suc k \<Longrightarrow> length (digits_rev n) \<le> Suc k"
proof (induction k arbitrary: n)
  case (Suc k)
  show ?case
  proof (cases "n < 10")
    case False
    have "n div 10 < 10 ^ Suc k" using Suc.prems by (simp add: div_less_iff_less_mult)
    from Suc.IH [OF this] False show ?thesis by (subst digits_rev.simps) simp
  qed (subst digits_rev.simps, simp)
qed (subst digits_rev.simps, simp)

lemma pad6: "m < 10 ^ 6 \<Longrightarrow> length (pad6 m) = 6 \<and> list_all is_digit (pad6 m) \<and> digits_value (pad6 m) = int m"
  using length_digits_rev [of m 5] show_nat_digits [of m] digits_value_append [of _ "show_nat m"]
  by (auto simp: pad6_def show_nat_def digits_value_show_nat [unfolded show_nat_def] list_all_append list_all_iff
      is_digit_def char_code_def)

lemma trim_digits: "list_all (\<lambda>c. \<not> is_space c) s \<Longrightarrow> trim_space s = s"
proof -
  have dw: "list_all (\<lambda>c. \<not> is_space c) t \<Longrightarrow> dropWhile is_space t = t" for t by (cases t) auto
  assume a: "list_all (\<lambda>c. \<not> is_space c) s"
  then have "list_all (\<lambda>c. \<not> is_space c) (rev s)" by (simp add: list_all_iff)
  with dw [OF a] dw [OF this] show ?thesis by (simp add: trim_space_def trim_right_by_def)
qed

lemma sint_amount:
  assumes "d \<le> 4611686018427" and "m < 10 ^ 6"
  shows "sint (int64_of (int d) * 1000000 + int64_of (int m)) = int d * 1000000 + int m"
proof -
  have "int d \<le> 4611686018427" "int m < 1000000" using assms by simp_all
  then have "int64_of (int d) * 1000000 + int64_of (int m) = int64_of (int d * 1000000 + int m)"
    and "in_int64 (int d * 1000000 + int m)"
    by (simp_all add: in_int64_def min_int64_def max_int64_def)
  then show ?thesis by (simp only: sint_int64_of)
qed

subsection \<open>The ladder\<close>

definition sound_limits :: "limits \<Rightarrow> bool" where
  "sound_limits l =
     (0 < sint (lm_warn l) \<and> sint (lm_warn l) < sint (lm_stop l) \<and> lm_order l \<noteq> [] \<and> last (lm_order l) = GroupAll
      \<and> (sint (lm_stop l) - sint (lm_warn l)) * int (length (lm_order l)) \<le> max_int64)"

lemma sint_nat: "int n \<le> max_int64 \<Longrightarrow> sint (of_nat n :: int64) = int n"
  using sint_int64_of [of "int n"] by (simp add: in_int64_def min_int64_def)

lemma ShedAt_value:
  assumes "sound_limits l" and "i < length (lm_order l)"
  shows "sint (ShedAt l i) =
    sint (lm_warn l) + (sint (lm_stop l) - sint (lm_warn l)) * (int i + 1) div int (length (lm_order l))"
proof -
  let ?s = "sint (lm_stop l) - sint (lm_warn l)" and ?n = "int (length (lm_order l))"
  note sl = assms(1) [unfolded sound_limits_def]
  have s: "0 < ?s" and n: "0 < ?n" and sn: "?s * ?n \<le> max_int64" using sl assms(2) by simp_all
  have "?n \<le> ?s * ?n" using s n by (simp add: mult_le_cancel_right1)
  then have n64: "?n \<le> max_int64" using sn by linarith
  have "in_int64 ?s" using s in_int64_sint [of "lm_stop l"] sl by (auto simp: in_int64_def min_int64_def)
  then have span: "sint (lm_stop l - lm_warn l) = ?s" by (rule sint_arith(2))
  have pos: "sint (of_nat (i + 1) :: int64) = int i + 1" using sint_nat [of "i + 1"] n64 assms(2) by simp
  have mono: "?s * (int i + 1) \<le> ?s * ?n" using s assms(2) by (intro mult_left_mono) auto
  have prod: "sint ((lm_stop l - lm_warn l) * of_nat (i + 1)) = ?s * (int i + 1)"
  proof -
    have "0 \<le> ?s * (int i + 1)" using s by simp
    then have "in_int64 (?s * (int i + 1))" using mono sn by (simp add: in_int64_def min_int64_def)
    then show ?thesis using sint_arith(3) [of "lm_stop l - lm_warn l" "of_nat (i + 1)"] unfolding span pos by blast
  qed
  let ?q = "?s * (int i + 1) div ?n"
  have div: "sint (div64 ((lm_stop l - lm_warn l) * of_nat (i + 1)) (of_nat (length (lm_order l)))) = ?q"
    using s n n64 prod by (subst sint_div64) (simp_all add: sint_nat)
  have "?q \<le> (?s * ?n) div ?n" using mono n by (rule zdiv_mono1)
  then have q: "0 \<le> ?q" "?q \<le> ?s" using s n by (simp_all add: pos_imp_zdiv_nonneg_iff)
  have "in_int64 (sint (lm_warn l) + ?q)" using q sl in_int64_sint [of "lm_stop l"] by (simp add: in_int64_def min_int64_def)
  then have "sint (lm_warn l + div64 ((lm_stop l - lm_warn l) * of_nat (i + 1)) (of_nat (length (lm_order l)))) = sint (lm_warn l) + ?q"
    using sint_arith(1) div by metis
  then show ?thesis by (simp only: ShedAt_def Let_def)
qed

lemma NewLimits_sound:
  assumes "NewLimits a b c = Inr l" and "0 < sint (lm_warn l)"
    and "(sint (lm_stop l) - sint (lm_warn l)) * int (length (lm_order l)) \<le> max_int64"
  shows "sound_limits l"
  using assms by (auto simp: NewLimits_def bind_r_Inr_iff sound_limits_def less64_def split: if_splits)

lemma ShedAt_mono:
  assumes "sound_limits l" and "i \<le> j" and "j < length (lm_order l)"
  shows "sint (lm_warn l) \<le> sint (ShedAt l i) \<and> sint (ShedAt l i) \<le> sint (ShedAt l j)"
proof -
  let ?s = "sint (lm_stop l) - sint (lm_warn l)" and ?n = "int (length (lm_order l))"
  have s: "0 < ?s" using assms(1) by (simp add: sound_limits_def)
  have "?s * (int i + 1) div ?n \<le> ?s * (int j + 1) div ?n"
    using s assms by (intro zdiv_mono1 mult_left_mono) auto
  moreover have "0 \<le> ?s * (int i + 1)" "0 < ?n" using s assms by auto
  then have "0 \<le> ?s * (int i + 1) div ?n" by (simp only: pos_imp_zdiv_nonneg_iff)
  ultimately show ?thesis using ShedAt_value [OF assms(1)] assms(2,3) by simp
qed

lemma ShedAt_last: "sound_limits l \<Longrightarrow> ShedAt l (length (lm_order l) - 1) = lm_stop l"
proof -
  assume l: "sound_limits l"
  let ?n = "length (lm_order l)"
  have n: "0 < ?n" using l by (simp add: sound_limits_def)
  then have i: "int (?n - 1) + 1 = int ?n" by linarith
  have "sint (ShedAt l (?n - 1)) = sint (lm_stop l)"
    using ShedAt_value [OF l, of "?n - 1"] n unfolding i by simp
  then show ?thesis by (simp add: signed_word_eqI)
qed

lemma stopped_iff:
  "stopped l spent w \<longleftrightarrow> \<not> less64 spent (lm_stop l)
     \<or> (\<exists>i < length (lm_order l). group_matches (lm_order l ! i) w \<and> \<not> less64 spent (ShedAt l i))"
proof -
  have "list_ex (shedding l spent w) (enumerate 0 (lm_order l)) \<longleftrightarrow>
      (\<exists>i < length (lm_order l). shedding l spent w (i, lm_order l ! i))"
    by (force simp: list_ex_iff in_set_enumerate_eq)
  then show ?thesis by (simp add: stopped_def shedding_def)
qed

text \<open>The gate follows the approved ladder.  For limits accepted by \<open>NewLimits\<close> whose ladder fits
  the machine integers: below the warning amount everything is accepted; from the hard stop on everything is
  refused; what is refused at one month-to-date amount is refused at every higher one; the groups stop in the
  order given, at amounts that never decrease, the last exactly at the hard stop; and an unreadable ledger
  refuses everything.\<close>

theorem gate_follows_the_ladder:
  assumes "NewLimits a b c = Inr l" and "0 < sint (lm_warn l)"
    and "(sint (lm_stop l) - sint (lm_warn l)) * int (length (lm_order l)) \<le> max_int64"
  shows "(\<forall>spent w. sint spent < sint (lm_warn l) \<longrightarrow> \<not> stopped l spent w)
    \<and> (\<forall>spent w. sint (lm_stop l) \<le> sint spent \<longrightarrow> stopped l spent w)
    \<and> (\<forall>s t w. stopped l s w \<and> sint s \<le> sint t \<longrightarrow> stopped l t w)
    \<and> (\<forall>i j. i \<le> j \<and> j < length (lm_order l) \<longrightarrow> sint (ShedAt l i) \<le> sint (ShedAt l j))
    \<and> ShedAt l (length (lm_order l) - 1) = lm_stop l
    \<and> (\<forall>m month w rows. Allow (Some m) month l w rows \<noteq> None)"
proof -
  have l: "sound_limits l" by (rule NewLimits_sound [OF assms])
  have low: "\<not> stopped l spent w" if "sint spent < sint (lm_warn l)" for spent w
  proof -
    have "sint spent < sint (ShedAt l i)" if "i < length (lm_order l)" for i
      using ShedAt_mono [OF l order_refl that] \<open>sint spent < _\<close> by simp
    then show ?thesis using that l by (auto simp: stopped_iff less64_def sound_limits_def)
  qed
  have mono: "stopped l t w" if "stopped l s w" "sint s \<le> sint t" for s t w
    using that by (fastforce simp: stopped_iff less64_def)
  show ?thesis
    using low mono ShedAt_mono [OF l] ShedAt_last [OF l]
    by (auto simp: stopped_iff less64_def Allow_def MonthToDateMicros_def Let_def)
qed

text \<open>An amount written with at most six decimals is read exactly: no rounding, no wrap, for every amount up to
  the largest that is accepted.\<close>

theorem amounts_are_read_exactly:
  assumes "d \<le> 4611686018427" and "m < 10 ^ 6"
  shows "\<exists>v. ParseUSD (show_nat d @ ''.'' @ pad6 m) = Inr v \<and> sint v = int d * 1000000 + int m"
proof -
  have d: "list_all is_digit (show_nat d)" "show_nat d \<noteq> []" by (simp_all add: show_nat_digits)
  note p = pad6 [OF assms(2)]
  let ?t = "show_nat d @ CHR ''.'' # pad6 m"
  have "list_all (\<lambda>c. \<not> is_space c) ?t"
    using d p digit_not by (auto simp: list_all_iff is_space_def char_code_def)
  then have trim: "trim_space ?t = ?t" by (rule trim_digits)
  have hd: "\<not> has_prefix ?t ''-''" "trim_prefix ?t ''$'' = ?t"
    using d digit_not by (cases "show_nat d"; force simp: has_prefix_def trim_prefix_def)+
  have cut: "cut_at (CHR ''.'') ?t = (show_nat d, pad6 m, True)"
    by (rule cut_at_plain) (use d digit_not in \<open>auto simp: list_all_iff\<close>)
  have "in_int64 (int d)" "in_int64 (int m)" using assms by (simp_all add: in_int64_def min_int64_def max_int64_def)
  then have "parse_int (show_nat d) = Some (int d)" "parse_int (pad6 m) = Some (int m)"
    using parse_digits [OF d(2,1)] parse_digits [of "pad6 m"] p by (fastforce simp: digits_value_show_nat)+
  then have "ParseUSD ?t = Inr (int64_of (int d) * 1000000 + int64_of (int m))"
    using assms(1) p d(2) unfolding ParseUSD_def Let_def trim hd(2) cut by (simp add: hd)
  with sint_amount [OF assms] show ?thesis by simp
qed

text \<open>Amounts near the largest that is accepted make the ladder wrap: with three groups the last one, which
  matches everything, sheds at a negative amount.\<close>

lemmas amount_defs = ParseUSD_def Let_def trim_space_def trim_right_by_def is_space_def char_code_def has_prefix_def
  trim_prefix_def parse_int_def is_digit_def digits_value_def in_int64_def min_int64_def max_int64_def numeral_eq_Suc

definition wide_limits :: limits where
  "wide_limits = \<lparr>lm_warn = 1000000, lm_stop = 4611686018427000000, lm_order = [''media'', ''light'', ''all'']\<rparr>"

lemma wide_ladder_refuses_everything:
  "NewLimits ''1'' ''4611686018427'' ''media,light,all'' = Inr wide_limits" "stopped wide_limits 0 w"
proof -
  have "ParseUSD ''1'' = Inr 1000000" "ParseUSD ''4611686018427'' = Inr 4611686018427000000"
    by (simp_all add: amount_defs)
  then show "NewLimits ''1'' ''4611686018427'' ''media,light,all'' = Inr wide_limits"
    by (simp add: NewLimits_def less64_def trim_space_def trim_right_by_def is_space_def char_code_def GroupAll_def Let_def
        wide_limits_def signed_take_bit_int_eq_self)
  have "sint (ShedAt wide_limits 2) < 0"
    by (simp add: ShedAt_def wide_limits_def Let_def div64_def trunc_div_def)
  then show "stopped wide_limits 0 w"
    unfolding stopped_iff by (auto simp: wide_limits_def group_matches_def GroupAll_def less64_def intro!: exI [of _ 2])
qed

text \<open>A sign behind the dollar sign, or in the fraction, is read as a number.\<close>

lemma signs_are_read:
  "ParseUSD ''$-5'' = Inr (- 5000000)" "ParseUSD ''1.-5'' = Inr 950000"
  by (simp_all add: amount_defs)

subsection \<open>Witnesses\<close>

lemma sample_limits:
  "NewLimits ''10'' ''20'' ''media,all'' = Inr \<lparr>lm_warn = 10000000, lm_stop = 20000000, lm_order = [''media'', ''all'']\<rparr>"
proof -
  have "ParseUSD ''10'' = Inr 10000000" "ParseUSD ''20'' = Inr 20000000" by (simp_all add: amount_defs)
  then show ?thesis
    by (simp add: NewLimits_def less64_def trim_space_def trim_right_by_def is_space_def char_code_def GroupAll_def Let_def
        signed_take_bit_int_eq_self)
qed

definition a_video :: work where
  "a_video = \<lparr>wk_platform = ''youtube'', wk_class = ''media''\<rparr>"

theorem gate_follows_the_ladder_witness:
  "stopped \<lparr>lm_warn = 10000000, lm_stop = 20000000, lm_order = [''media'', ''all'']\<rparr> 25000000 a_video
   \<and> \<not> stopped \<lparr>lm_warn = 10000000, lm_stop = 20000000, lm_order = [''media'', ''all'']\<rparr> 5000000 a_video"
  using gate_follows_the_ladder [OF sample_limits]
  by (simp add: max_int64_def signed_take_bit_int_eq_self)

theorem amounts_are_read_exactly_witness:
  "\<exists>v. ParseUSD (show_nat 12 @ ''.'' @ pad6 50000) = Inr v \<and> sint v = 12050000"
  using amounts_are_read_exactly [of 12 50000] by simp

end
