(* ===== verification/RateLimit.thy ===== *)
theory RateLimit
  imports Database
begin

text \<open>
  The token bucket in Redis (\<open>internal/ratelimit/ratelimit.go\<close>): the policy, the subjects a request counts
  against, the script that decides inside Redis, and the decision the API takes from it.  Lua's and Go's floating
  point numbers are rationals here, so rounding is not modelled; times are in milliseconds.
\<close>

record policy =
  pl_name :: string
  pl_requests :: int
  pl_window :: duration
  pl_burst :: int
  pl_per_client :: bool

definition UserSubjects :: "policy \<Rightarrow> string \<Rightarrow> string \<Rightarrow> string list" where
  "UserSubjects p user client =
     (if \<not> pl_per_client p \<or> client = [] then [user] else [user @ ''|client:'' @ client, user])"

definition capacity :: "policy \<Rightarrow> int" where
  "capacity p = (if 0 < pl_burst p then pl_burst p else pl_requests p)"

text \<open>\<open>Window.Seconds()\<close> is exact here; \<open>math.Ceil\<close> and the conversion to nanoseconds follow.\<close>

definition refillPerSecond :: "policy \<Rightarrow> rat" where
  "refillPerSecond p = of_int (pl_requests p) / (of_int (pl_window p) / of_int second)"

definition bucket_ttl :: "policy \<Rightarrow> duration" where
  "bucket_ttl p = \<lceil>of_int (capacity p) / refillPerSecond p\<rceil> * second + pl_window p"

subsection \<open>The script\<close>

record bucket =
  bk_tokens :: rat
  bk_updated :: int
  bk_expires :: int

text \<open>\<open>now\<close> is the caller's clock, \<open>server\<close> the clock by which Redis expires keys.\<close>

definition live_bucket :: "int \<Rightarrow> bucket option \<Rightarrow> bucket option" where
  "live_bucket server b = (case b of None \<Rightarrow> None | Some x \<Rightarrow> if server < bk_expires x then Some x else None)"

definition refilled :: "rat \<Rightarrow> rat \<Rightarrow> int \<Rightarrow> bucket option \<Rightarrow> rat" where
  "refilled cap refill now b =
     (let (tokens, updated) = (case b of None \<Rightarrow> (cap, now) | Some x \<Rightarrow> (bk_tokens x, bk_updated x));
          elapsed = max 0 (now - updated)
      in min cap (tokens + of_int elapsed / 1000 * refill))"

definition bucket_script ::
  "rat \<Rightarrow> rat \<Rightarrow> int \<Rightarrow> rat \<Rightarrow> int \<Rightarrow> int \<Rightarrow> bucket option \<Rightarrow> (bool \<times> int \<times> int) \<times> bucket" where
  "bucket_script cap refill now cost ttl server b =
     (let tokens = refilled cap refill now (live_bucket server b);
          allowed = (cost \<le> tokens);
          retry = (if allowed then 0 else \<lceil>(cost - tokens) / refill * 1000\<rceil>);
          left = (if allowed then tokens - cost else tokens)
      in ((allowed, \<lfloor>left\<rfloor>, retry), \<lparr>bk_tokens = left, bk_updated = now, bk_expires = server + ttl\<rparr>))"

subsection \<open>The decision\<close>

record rate_decision =
  rd_allowed :: bool
  rd_remaining :: int
  rd_retry_after :: duration

definition ErrUnavailable :: string where "ErrUnavailable = ''rate limiter unavailable''"

text \<open>\<open>Allow\<close> on one bucket.  \<open>fault\<close> is a failure to reach Redis; the bucket may then have been
  changed or not, and the answer is the error either way.\<close>

definition Allow_rate ::
  "string option \<Rightarrow> policy \<Rightarrow> int \<Rightarrow> int \<Rightarrow> bucket option \<Rightarrow> (string + rate_decision) \<times> bucket option" where
  "Allow_rate fault p now server b =
     (if pl_requests p \<le> 0 \<or> pl_window p \<le> 0
      then (Inr \<lparr>rd_allowed = True, rd_remaining = 0, rd_retry_after = 0\<rparr>, b)
      else (case fault of Some _ \<Rightarrow> (Inl ErrUnavailable, b)
        | None \<Rightarrow>
            (case bucket_script (of_int (capacity p)) (refillPerSecond p) now 1 (bucket_ttl p div millisecond) server b of
               ((allowed, remaining, retry), b1) \<Rightarrow>
                 (Inr \<lparr>rd_allowed = allowed, rd_remaining = remaining,
                   rd_retry_after = (if allowed then 0 else max second (retry * millisecond))\<rparr>, Some b1))))"

subsection \<open>A sequence of calls\<close>

text \<open>Calls on one bucket, with the clocks of caller and server; how many were allowed, and the bucket.\<close>

fun serve :: "policy \<Rightarrow> (int \<times> int) list \<Rightarrow> bucket option \<Rightarrow> nat \<times> bucket option" where
  "serve p [] b = (0, b)"
| "serve p ((now, server) # cs) b =
     (case Allow_rate None p now server b of
        (Inr d, b1) \<Rightarrow> ((if rd_allowed d then 1 else 0) + fst (serve p cs b1), snd (serve p cs b1))
      | (Inl _, b1) \<Rightarrow> serve p cs b1)"

text \<open>What the bucket holds when a call at time \<open>t\<close> looks at it; a bucket that expired is full.\<close>

definition limited :: "policy \<Rightarrow> bool" where
  "limited p = (0 < pl_requests p \<and> 0 < pl_window p)"

lemma rate_pos: "limited p \<Longrightarrow> 0 < refillPerSecond p \<and> 1 \<le> capacity p"
  by (simp add: limited_def refillPerSecond_def capacity_def)

definition bucket_ok :: "policy \<Rightarrow> bucket option \<Rightarrow> bool" where
  "bucket_ok p b = (case b of None \<Rightarrow> True | Some x \<Rightarrow> 0 \<le> bk_tokens x \<and> bk_tokens x \<le> of_int (capacity p))"

lemma refilled_bounds:
  assumes "limited p" and "bucket_ok p b"
  shows "0 \<le> refilled (of_int (capacity p)) (refillPerSecond p) now b
    \<and> refilled (of_int (capacity p)) (refillPerSecond p) now b \<le> of_int (capacity p)"
  using assms rate_pos [OF assms(1)] by (auto simp: refilled_def bucket_ok_def Let_def split: option.splits)

lemma live_bucket_ok: "bucket_ok p b \<Longrightarrow> bucket_ok p (live_bucket server b)"
  by (simp add: bucket_ok_def live_bucket_def split: option.splits)

lemma Allow_rate_total: "limited p \<Longrightarrow> \<exists>d b1. Allow_rate None p now server b = (Inr d, b1)"
  by (cases "bucket_script (of_int (capacity p)) (refillPerSecond p) now 1 (bucket_ttl p div millisecond) server b")
    (auto simp: Allow_rate_def limited_def)

lemma Allow_rate_step:
  assumes p: "limited p" and b: "bucket_ok p b" and a: "Allow_rate None p now server b = (Inr d, b1)"
  shows "bucket_ok p b1" and "\<exists>x. b1 = Some x \<and> bk_updated x = now
    \<and> bk_tokens x + (if rd_allowed d then 1 else 0) = refilled (of_int (capacity p)) (refillPerSecond p) now (live_bucket server b)
    \<and> bk_expires x = server + bucket_ttl p div millisecond"
  using p a refilled_bounds [OF p live_bucket_ok [OF b], of now server]
  by (auto simp: Allow_rate_def limited_def bucket_script_def Let_def bucket_ok_def)

definition avail :: "policy \<Rightarrow> int \<Rightarrow> int \<Rightarrow> bucket option \<Rightarrow> rat" where
  "avail p off t b = refilled (of_int (capacity p)) (refillPerSecond p) t (live_bucket (t + off) b)"

text \<open>A bucket lives at least as long as it takes to fill up.\<close>

lemma ttl_fills:
  assumes "limited p" and "bucket_ttl p div millisecond \<le> e"
  shows "of_int (capacity p) \<le> of_int e / 1000 * refillPerSecond p"
proof -
  let ?r = "refillPerSecond p" and ?c = "of_int (capacity p) :: rat"
  have r: "0 < ?r" using rate_pos [OF assms(1)] by blast
  have "bucket_ttl p div millisecond = \<lceil>?c / ?r\<rceil> * 1000 + pl_window p div millisecond"
    by (simp add: bucket_ttl_def)
  moreover have "0 \<le> pl_window p div millisecond"
    using assms(1) by (intro pos_imp_zdiv_nonneg_iff [THEN iffD2]) (simp_all add: limited_def)
  ultimately have "\<lceil>?c / ?r\<rceil> * 1000 \<le> e" using assms(2) by linarith
  then have "of_int (\<lceil>?c / ?r\<rceil> * 1000) \<le> (of_int e :: rat)" by (simp only: of_int_le_iff)
  moreover have "?c / ?r * 1000 \<le> of_int (\<lceil>?c / ?r\<rceil> * 1000)"
    using mult_right_mono [OF le_of_int_ceiling [of "?c / ?r"], of 1000] by simp
  ultimately have "?c / ?r * 1000 \<le> of_int e" by linarith
  then have "?c / ?r \<le> of_int e / 1000" by (subst pos_le_divide_eq) simp_all
  with r show ?thesis by (simp add: pos_divide_le_eq)
qed

lemma avail_later:
  assumes p: "limited p" and t: "now \<le> t" and x: "bk_updated x = now" "bk_expires x = now + off + bucket_ttl p div millisecond"
    and b: "0 \<le> bk_tokens x"
  shows "avail p off t (Some x) \<le> bk_tokens x + of_int (t - now) / 1000 * refillPerSecond p"
proof (cases "t + off < bk_expires x")
  case True
  then show ?thesis using t x by (simp add: avail_def live_bucket_def refilled_def)
next
  case False
  then have "bucket_ttl p div millisecond \<le> t - now" using x by simp
  from ttl_fills [OF p this] b False show ?thesis by (simp add: avail_def live_bucket_def refilled_def)
qed

lemma serve_bound:
  assumes "limited p" and "sorted (t # ts)" and "bucket_ok p b"
  shows "of_nat (fst (serve p (map (\<lambda>t. (t, t + off)) (t # ts)) b))
    \<le> avail p off t b + of_int (last (t # ts) - t) / 1000 * refillPerSecond p"
  using assms(2,3)
proof (induction ts arbitrary: t b)
  case Nil
  obtain d b1 where a: "Allow_rate None p t (t + off) b = (Inr d, b1)"
    using Allow_rate_total [OF assms(1)] by blast
  note st = Allow_rate_step [OF assms(1) Nil.prems(2) a]
  from st(2) obtain x where "b1 = Some x" "bk_tokens x + (if rd_allowed d then 1 else 0) = avail p off t b"
    unfolding avail_def by blast
  moreover from st(1) this have "0 \<le> bk_tokens x" by (simp add: bucket_ok_def)
  ultimately have "(if rd_allowed d then 1 else 0) \<le> avail p off t b" by linarith
  then show ?case using a by auto
next
  case (Cons u us)
  obtain d b1 where a: "Allow_rate None p t (t + off) b = (Inr d, b1)"
    using Allow_rate_total [OF assms(1)] by blast
  note st = Allow_rate_step [OF assms(1) Cons.prems(2) a]
  from st(2) obtain x where x: "b1 = Some x" "bk_updated x = t" "bk_expires x = t + off + bucket_ttl p div millisecond"
    "bk_tokens x + (if rd_allowed d then 1 else 0) = avail p off t b"
    unfolding avail_def by blast
  from st(1) x(1) have pos: "0 \<le> bk_tokens x" by (simp add: bucket_ok_def)
  let ?l = "last (u # us)"
  have IH: "of_nat (fst (serve p (map (\<lambda>t. (t, t + off)) (u # us)) b1)) \<le> avail p off u b1 + of_int (?l - u) / 1000 * refillPerSecond p"
    by (rule Cons.IH) (use Cons.prems(1) st(1) in simp_all)
  have "avail p off u b1 \<le> bk_tokens x + of_int (u - t) / 1000 * refillPerSecond p"
    using avail_later [OF assms(1) _ x(2,3) pos] Cons.prems(1) x(1) by simp
  with IH have rest: "of_nat (fst (serve p (map (\<lambda>t. (t, t + off)) (u # us)) b1))
      \<le> bk_tokens x + of_int (?l - t) / 1000 * refillPerSecond p"
    by (simp add: algebra_simps add_divide_distrib diff_divide_distrib)
  let ?N = "fst (serve p (map (\<lambda>t. (t, t + off)) (u # us)) b1)"
  have "fst (serve p (map (\<lambda>t. (t, t + off)) (t # u # us)) b) = (if rd_allowed d then 1 else 0) + ?N"
    using a by simp
  then have sum: "of_nat (fst (serve p (map (\<lambda>t. (t, t + off)) (t # u # us)) b)) = (if rd_allowed d then 1 else 0) + (of_nat ?N :: rat)"
    by (simp only: of_nat_add) simp
  have l: "last (t # u # us) = ?l" by simp
  show ?case unfolding sum l using rest x(4) by linarith
qed

text \<open>The limiter keeps its promise to the providers behind it and to its caller.  While the callers' clocks
  agree and do not go back, the calls one bucket allows between two moments never exceed its capacity plus
  the refill of the time between; and a caller who was refused and waits as long as it was told, with no call in
  between, is allowed.\<close>

theorem bucket_never_overspends:
  assumes "limited p" and "sorted (t # ts)" and "bucket_ok p b"
  shows "of_nat (fst (serve p (map (\<lambda>t. (t, t + off)) (t # ts)) b))
      \<le> of_int (capacity p) + of_int (last (t # ts) - t) / 1000 * refillPerSecond p
    \<and> (\<forall>d b1 u. Allow_rate None p t (t + off) b = (Inr d, b1) \<and> \<not> rd_allowed d \<and> t + rd_retry_after d div millisecond \<le> u
        \<longrightarrow> (\<exists>e b2. Allow_rate None p u (u + off) b1 = (Inr e, b2) \<and> rd_allowed e))"
proof (intro conjI allI impI)
  have "avail p off t b \<le> of_int (capacity p)"
    unfolding avail_def using refilled_bounds [OF assms(1) live_bucket_ok [OF assms(3)]] by blast
  with serve_bound [OF assms, of off]
  show "of_nat (fst (serve p (map (\<lambda>t. (t, t + off)) (t # ts)) b))
      \<le> of_int (capacity p) + of_int (last (t # ts) - t) / 1000 * refillPerSecond p" by linarith
next
  fix d b1 u
  assume "Allow_rate None p t (t + off) b = (Inr d, b1) \<and> \<not> rd_allowed d \<and> t + rd_retry_after d div millisecond \<le> u"
  then have a: "Allow_rate None p t (t + off) b = (Inr d, b1)" and no: "\<not> rd_allowed d"
    and u: "t + rd_retry_after d div millisecond \<le> u" by auto
  let ?r = "refillPerSecond p"
  let ?tok = "avail p off t b"
  have r: "0 < ?r" and cap: "1 \<le> capacity p" using rate_pos [OF assms(1)] by auto
  obtain x where x: "b1 = Some x" "bk_updated x = t" "bk_tokens x = ?tok"
    using Allow_rate_step(2) [OF assms(1,3) a] no by (auto simp: avail_def)
  have miss: "rd_retry_after d = max second (\<lceil>(1 - ?tok) / ?r * 1000\<rceil> * millisecond)"
    using a no assms(1) by (auto simp: Allow_rate_def bucket_script_def Let_def avail_def limited_def)
  have "\<lceil>(1 - ?tok) / ?r * 1000\<rceil> \<le> u - t" using u unfolding miss by linarith
  then have "(1 - ?tok) / ?r * 1000 \<le> of_int (u - t)" by (simp add: ceiling_le_iff)
  then have "(1 - ?tok) / ?r \<le> of_int (u - t) / 1000" by (subst pos_le_divide_eq) simp_all
  then have "1 - ?tok \<le> of_int (u - t) / 1000 * ?r" using r by (simp only: pos_divide_le_eq)
  moreover have "0 \<le> u - t"
    using u unfolding miss by linarith
  ultimately have "1 \<le> avail p off u b1"
    using x cap by (auto simp: avail_def live_bucket_def refilled_def)
  then show "\<exists>e b2. Allow_rate None p u (u + off) b1 = (Inr e, b2) \<and> rd_allowed e"
    using assms(1) by (simp add: Allow_rate_def bucket_script_def Let_def avail_def limited_def)
qed

text \<open>The assumption on the clocks is needed: the script takes the time of the replica that calls it and stores it
  even when it lies in the past, so two replicas whose clocks differ by a second can call in turn and be
  allowed without any time passing.\<close>

definition one_per_second :: policy where
  "one_per_second = \<lparr>pl_name = ''p'', pl_requests = 1, pl_window = second, pl_burst = 1, pl_per_client = False\<rparr>"

lemma one_per_second_call:
  "Allow_rate None one_per_second now server b =
     (let tokens = refilled 1 1 now (live_bucket server b); left = (if 1 \<le> tokens then tokens - 1 else tokens)
      in (Inr \<lparr>rd_allowed = (1 \<le> tokens), rd_remaining = \<lfloor>left\<rfloor>,
            rd_retry_after = (if 1 \<le> tokens then 0 else max second (\<lceil>(1 - tokens) * 1000\<rceil> * millisecond))\<rparr>,
          Some \<lparr>bk_tokens = left, bk_updated = now, bk_expires = server + 2000\<rparr>))"
proof -
  have "of_int (capacity one_per_second) = (1 :: rat)" "refillPerSecond one_per_second = 1"
    "bucket_ttl one_per_second div millisecond = 2000" "\<not> (pl_requests one_per_second \<le> 0 \<or> pl_window one_per_second \<le> 0)"
    by (simp_all add: one_per_second_def capacity_def refillPerSecond_def bucket_ttl_def)
  then show ?thesis unfolding Allow_rate_def bucket_script_def Let_def by simp
qed

lemma skewed_clocks_refill:
  "fst (serve one_per_second (concat (replicate n [(1000, 5), (0, 5)])) (Some \<lparr>bk_tokens = 0, bk_updated = 0, bk_expires = 2005\<rparr>)) = n"
proof -
  let ?b0 = "Some \<lparr>bk_tokens = 0, bk_updated = 0, bk_expires = 2005\<rparr>"
  let ?b1 = "Some \<lparr>bk_tokens = 0, bk_updated = 1000, bk_expires = 2005\<rparr>"
  have up: "\<exists>d. Allow_rate None one_per_second 1000 5 ?b0 = (Inr d, ?b1) \<and> rd_allowed d"
    by (simp add: one_per_second_call Let_def refilled_def live_bucket_def)
  have down: "\<exists>d. Allow_rate None one_per_second 0 5 ?b1 = (Inr d, ?b0) \<and> \<not> rd_allowed d"
    by (simp add: one_per_second_call Let_def refilled_def live_bucket_def)
  show ?thesis
  proof (induction n)
    case (Suc n)
    with up down show ?case by auto
  qed simp
qed

theorem bucket_never_overspends_witness:
  "fst (serve one_per_second [(0, 0), (10, 10), (1500, 1500)] None) \<le> 2"
proof -
  let ?n = "fst (serve one_per_second [(0, 0), (10, 10), (1500, 1500)] None)"
  have "of_nat ?n \<le> (5 / 2 :: rat)"
    using bucket_never_overspends [of one_per_second 0 "[10, 1500]" None 0]
    by (simp add: limited_def bucket_ok_def one_per_second_def capacity_def refillPerSecond_def del: serve.simps)
  then have "of_nat (2 * ?n) \<le> (of_nat 5 :: rat)" by (simp del: serve.simps)
  then have "2 * ?n \<le> 5" by (simp only: of_nat_le_iff)
  then show ?thesis by linarith
qed

end
