(* ===== verification/Jobs.thy ===== *)
theory Jobs
  imports Retries
begin

text \<open>
  What a client polls: a job as the API presents it (\<open>internal/jobs\<close>, read by \<open>internal/postgres/jobs.go\<close>).
  The rows come from the pipeline's tables; a job whose run waits for its retry is shown as queued at the step
  \<open>retry_scheduled\<close>.  The reel of a finished job is an argument, and so is the local time format.
\<close>

subsection \<open>Reading the tables\<close>

record job_record =
  jr_id :: string
  jr_user :: string
  jr_url :: string
  jr_normalized :: "string option"
  jr_platform :: "string option"
  jr_version :: "string option"
  jr_status :: string
  jr_step :: "string option"
  jr_progress :: int
  jr_failure :: "string option"
  jr_message :: "string option"
  jr_result :: "string option"
  jr_attempts :: int
  jr_max_attempts :: int
  jr_next_retry :: "time option"
  jr_collections :: "string list"
  jr_created :: "time option"
  jr_updated :: "time option"
  jr_completed :: "time option"

definition StatusQueued :: string where "StatusQueued = ''queued''"
definition StatusProcessing :: string where "StatusProcessing = ''processing''"
definition StatusCompleted :: string where "StatusCompleted = ''completed''"
definition StatusFailed :: string where "StatusFailed = ''failed''"
definition StatusDeadLettered :: string where "StatusDeadLettered = ''dead_lettered''"

lemmas status_defs = StatusQueued_def StatusProcessing_def StatusCompleted_def StatusFailed_def StatusDeadLettered_def

definition status_text :: "job_status \<Rightarrow> string" where
  "status_text s = (case s of JobQueued \<Rightarrow> StatusQueued | JobProcessing \<Rightarrow> StatusProcessing
     | JobCompleted \<Rightarrow> StatusCompleted | JobFailed \<Rightarrow> StatusFailed | JobDeadLettered \<Rightarrow> StatusDeadLettered)"

definition nonempty :: "string \<Rightarrow> string option" where
  "nonempty s = (if s = [] then None else Some s)"

definition retryWaiting :: "run_row option \<Rightarrow> job_row \<Rightarrow> bool" where
  "retryWaiting r j = (case r of None \<Rightarrow> False
     | Some x \<Rightarrow> run_state x = RunRetryScheduled \<and> active_status (job_state j))"

text \<open>\<open>max(available_at)\<close> over the run's resume events.\<close>

definition resume_due :: "string \<Rightarrow> world \<Rightarrow> time option" where
  "resume_due i w =
     (case filter (\<lambda>e. ev_type e = ''run.resume'' \<and> map_option fst (ev_payload e) = Some i) (events w) of
        [] \<Rightarrow> None
      | e # es \<Rightarrow> Some (Max (ev_available ` set (e # es))))"

text \<open>The columns of \<open>canonicalJobColumns\<close>.  No statement of the service writes the run's own attempt columns,
  which keep their defaults 0 and 3.\<close>

definition canonical_job :: "world \<Rightarrow> job_row \<Rightarrow> job_record" where
  "canonical_job w j =
     (let r = (case job_run j of None \<Rightarrow> None | Some i \<Rightarrow> find (\<lambda>r. run_id r = i) (runs w));
          waiting = retryWaiting r j
      in \<lparr>jr_id = job_id j, jr_user = job_user j, jr_url = job_url j, jr_normalized = nonempty (job_normalized j),
          jr_platform = (case job_platform j of None \<Rightarrow> None | Some p \<Rightarrow> nonempty p),
          jr_version = map_option run_version r,
          jr_status = (if waiting then ''queued'' else status_text (job_state j)),
          jr_step = (if waiting then Some ''retry_scheduled'' else job_step j),
          jr_progress = job_progress j, jr_failure = job_failure j,
          jr_message = (case r of None \<Rightarrow> None | Some x \<Rightarrow> run_failure_message x),
          jr_result = job_save j, jr_attempts = 0, jr_max_attempts = 3,
          jr_next_retry = (if waiting then (case r of None \<Rightarrow> None | Some x \<Rightarrow> resume_due (run_id x) w) else None),
          jr_collections = job_collections j, jr_created = Some (job_created j), jr_updated = Some (job_updated j),
          jr_completed = job_completed j\<rparr>)"

definition List_jobs :: "string \<Rightarrow> bool \<Rightarrow> nat \<Rightarrow> world \<Rightarrow> job_record list" where
  "List_jobs user activeOnly limit w =
     map (canonical_job w)
       (take limit (rev (sort_key job_created
          (filter (\<lambda>j. job_user j = user \<and> (activeOnly \<longrightarrow> active_status (job_state j))) (jobs w)))))"

definition Get_job :: "string \<Rightarrow> string \<Rightarrow> world \<Rightarrow> job_record option" where
  "Get_job user i w = map_option (canonical_job w) (find (\<lambda>j. job_id j = i \<and> job_user j = user) (jobs w))"

subsection \<open>Presentation\<close>

definition stepMessages :: "(string \<times> string) list" where
  "stepMessages =
     [(''queued'', ''Queued for processing.''), (''starting'', ''Starting processing.''),
      (''checking_cache'', ''Checking for cached results.''), (''downloading'', ''Downloading media.''),
      (''transcribing'', ''Transcribing audio.''), (''ocr'', ''Reading text from images.''),
      (''extracting'', ''Extracting structured details.''),
      (''categorizing'', ''Organizing the reel into your categories.''), (''saving'', ''Saving the reel.''),
      (''embedding'', ''Indexing the reel for search.''), (''completed'', ''Processing completed.''),
      (''retry_scheduled'', ''Waiting before the next retry.''),
      (''dead_lettered'', ''Processing stopped after a final failure.'')]"

definition failureMessages :: "(string \<times> string) list" where
  "failureMessages =
     [(''auth_failure'', ''The source platform requires a fresh authenticated session.''),
      (''rate_limit'', ''The source platform is rate limiting requests right now.''),
      (''no_audio'', ''This video does not include an audio track.''),
      (''transcript_unavailable'', ''A transcript was not available for this media.''),
      (''unsupported_post_type'', ''This shared post type is not supported yet.''),
      (''ocr_failure'', ''Image text extraction failed for this post.''),
      (''provider_timeout'', ''An upstream provider timed out while processing this request.''),
      (''x_oembed_timeout'', ''X took too long to return this post.''),
      (''x_oembed_upstream_error'', ''X could not return this post right now.''),
      (''invalid_url'', ''This is not a supported X post URL.''),
      (''unsupported_x_url'', ''This is not a supported X post URL.''),
      (''external_tco_destination'', ''This t.co link does not point to an X post.''),
      (''post_not_found'', ''This X post was not found.''),
      (''protected_or_unavailable'', ''This X post is protected or unavailable.''),
      (''malformed_oembed_response'', ''X did not return usable public post content.''),
      (''post_id_mismatch'', ''X did not return usable public post content.''),
      (''empty_post_content'', ''X did not return usable public post content.''),
      (''unsafe_redirect'', ''This shortened link could not be followed safely.''),
      (''request_too_large'', ''The media payload was too large to process.''),
      (''internal_error'', ''The server could not finish this request.'')]"

definition retryableFailureCodes :: "string list" where
  "retryableFailureCodes =
     [''rate_limit'', ''provider_timeout'', ''x_oembed_timeout'', ''x_oembed_upstream_error'', ''internal_error'']"

definition optionalString :: "string option \<Rightarrow> string" where
  "optionalString s = (case s of None \<Rightarrow> [] | Some v \<Rightarrow> v)"

definition normalized :: "string \<Rightarrow> string" where
  "normalized s = to_lower (trim_space s)"

definition Normalize_job :: "time \<Rightarrow> job_record \<Rightarrow> job_record" where
  "Normalize_job now r =
     (if jr_status r \<noteq> StatusCompleted \<or> optionalString (jr_result r) \<noteq> [] then r
      else r\<lparr>jr_status := StatusFailed, jr_step := Some StatusFailed, jr_progress := 100,
             jr_failure := Some ''internal_error'',
             jr_message := Some ''Could not finish saving this reel. Please try again.'',
             jr_completed := (case jr_completed r of None \<Rightarrow> Some now | Some t \<Rightarrow> Some t)\<rparr>)"

definition FailureCode :: "string option \<Rightarrow> string option" where
  "FailureCode v =
     (let code = trim_space (optionalString v)
      in if code = [] then None
         else (case map_of failureMessages code of None \<Rightarrow> None | Some _ \<Rightarrow> Some code))"

fun title_from :: "bool \<Rightarrow> string \<Rightarrow> string" where
  "title_from new_word [] = []"
| "title_from new_word (c # s) =
     (if c = CHR '' '' then c # title_from True s
      else if new_word then upper_char c # title_from False s
      else lower_char c # title_from False s)"

definition titleCase :: "string \<Rightarrow> string" where
  "titleCase s = title_from True s"

definition StatusLabel :: "job_record \<Rightarrow> string" where
  "StatusLabel r =
     (let step = trim_space (replace_char (CHR ''_'') (CHR '' '') (optionalString (jr_step r)));
          label = (if step = [] then trim_space (replace_char (CHR ''_'') (CHR '' '') (jr_status r)) else step)
      in titleCase (if label = [] then ''queued'' else label))"

definition failureMessage :: "string option \<Rightarrow> string \<Rightarrow> string" where
  "failureMessage code fallback =
     (case code of None \<Rightarrow> fallback
      | Some c \<Rightarrow> (case map_of failureMessages c of None \<Rightarrow> fallback | Some m \<Rightarrow> m))"

definition StatusMessage :: "(time \<Rightarrow> string) \<Rightarrow> job_record \<Rightarrow> string" where
  "StatusMessage local r =
     (let status = normalized (jr_status r); step = normalized (optionalString (jr_step r));
          code = FailureCode (jr_failure r)
      in if status = StatusCompleted then ''Processing completed.''
         else if status = StatusDeadLettered then failureMessage code ''Processing stopped after a final failure.''
         else if status = StatusFailed then failureMessage code ''Processing failed.''
         else if status = StatusQueued \<and> step = ''retry_scheduled'' then
           (case jr_next_retry r of
              Some t \<Rightarrow> ''Retry scheduled for '' @ local t @ ''.''
            | None \<Rightarrow> ''Waiting before the next retry.'')
         else (case map_of stepMessages step of Some m \<Rightarrow> m
           | None \<Rightarrow> if status = StatusProcessing then ''Processing is in progress.''
                    else if status = StatusQueued then ''Queued for processing.''
                    else ''Processing state updated.''))"

definition Terminal :: "job_record \<Rightarrow> bool" where
  "Terminal r = (normalized (jr_status r) \<in> set [StatusCompleted, StatusFailed, StatusDeadLettered])"

definition RetryScheduled :: "job_record \<Rightarrow> bool" where
  "RetryScheduled r =
     (normalized (jr_status r) = StatusQueued \<and> normalized (optionalString (jr_step r)) = ''retry_scheduled'')"

definition job_Retryable :: "job_record \<Rightarrow> bool" where
  "job_Retryable r =
     (RetryScheduled r \<or> normalized (jr_status r) \<in> set [StatusProcessing, StatusQueued]
      \<or> (case FailureCode (jr_failure r) of None \<Rightarrow> False | Some c \<Rightarrow> c \<in> set retryableFailureCodes))"

text \<open>\<open>int(d.Seconds())\<close> truncates towards zero.\<close>

definition whole_seconds :: "duration \<Rightarrow> int" where
  "whole_seconds d = sgn d * (\<bar>d\<bar> div second)"

definition RecommendedPollAfterSeconds :: "time \<Rightarrow> job_record \<Rightarrow> int option" where
  "RecommendedPollAfterSeconds now r =
     (if Terminal r then None
      else if RetryScheduled r then
        (case jr_next_retry r of None \<Rightarrow> Some 10
         | Some t \<Rightarrow>
             (let delta = whole_seconds (t - now)
              in if delta \<le> 0 then Some 2 else Some (min (max delta 2) 30)))
      else if normalized (jr_status r) = StatusQueued then Some 3
      else if normalized (jr_status r) = StatusProcessing then Some 2
      else None)"

definition ProgressPercent :: "job_record \<Rightarrow> int" where
  "ProgressPercent r =
     (if Terminal r then 100
      else if normalized (jr_status r) = StatusProcessing then max (jr_progress r) 5
      else max (min (jr_progress r) 99) 0)"

subsection \<open>Stages\<close>

definition stageLabels :: "(string \<times> string) list" where
  "stageLabels =
     [(''prepare'', ''Reading the link''), (''download'', ''Downloading''), (''transcribe'', ''Transcribing''),
      (''extract'', ''Extracting details''), (''categorize'', ''Categorizing''), (''persist'', ''Saving'')]"

definition legacySteps :: "(string \<times> string) list" where
  "legacySteps =
     [(''starting'', ''prepare''), (''checking_cache'', ''prepare''), (''downloading'', ''download''),
      (''transcribing'', ''transcribe''), (''ocr'', ''transcribe''), (''extracting'', ''extract''),
      (''categorizing'', ''categorize''), (''saving'', ''persist''), (''embedding'', ''persist'')]"

definition index_of :: "string \<Rightarrow> (string \<times> duration) list \<Rightarrow> nat option" where
  "index_of name budgets = map_option fst (find (\<lambda>(i, b). fst b = name) (enumerate 0 budgets))"

text \<open>\<open>runningStage\<close>; \<open>None\<close> is the source's -1.\<close>

definition runningStage :: "job_record \<Rightarrow> (string \<times> duration) list \<Rightarrow> nat option" where
  "runningStage r budgets =
     (let step = normalized (optionalString (jr_step r))
      in if step = [] \<or> step = StatusQueued \<or> step = ''retry_scheduled'' then Some 0
         else (case index_of step budgets of Some i \<Rightarrow> Some (i + 1)
           | None \<Rightarrow>
               (case map_of legacySteps step of Some name \<Rightarrow> index_of name budgets | None \<Rightarrow> None)))"

definition Stage :: "job_record \<Rightarrow> (string \<times> duration) list \<Rightarrow> string" where
  "Stage r budgets =
     (if normalized (jr_status r) = StatusCompleted then ''Done''
      else if Terminal r then ''Failed''
      else if RetryScheduled r then ''Waiting to retry''
      else if normalized (jr_status r) = StatusQueued then ''Queued''
      else (case runningStage r budgets of
              Some i \<Rightarrow> if i < length budgets
                then (case map_of stageLabels (fst (budgets ! i)) of Some l \<Rightarrow> l | None \<Rightarrow> ''Processing'') else ''Processing''
            | None \<Rightarrow> ''Processing''))"

text \<open>\<open>int(math.Ceil(remaining.Seconds()))\<close>\<close>

definition ceil_seconds :: "duration \<Rightarrow> int" where
  "ceil_seconds d = - ((- d) div second)"

definition EstimatedSecondsRemaining :: "job_record \<Rightarrow> (string \<times> duration) list \<Rightarrow> time \<Rightarrow> int option" where
  "EstimatedSecondsRemaining r budgets now =
     (if Terminal r \<or> budgets = [] then None
      else (case runningStage r budgets of None \<Rightarrow> None
        | Some i \<Rightarrow>
            if length budgets \<le> i then Some 0
            else
              (let remaining = sum_list (map snd (drop i budgets));
                   wait = (if RetryScheduled r then
                             (case jr_next_retry r of Some t \<Rightarrow> if now < t then t - now else 0 | None \<Rightarrow> 0) else 0);
                   spent = (if \<not> RetryScheduled r \<and> normalized (jr_status r) = StatusProcessing
                            then (case jr_updated r of None \<Rightarrow> 0
                              | Some t \<Rightarrow> if 0 < now - t then min (now - t) (snd (budgets ! i)) else 0) else 0)
               in Some (ceil_seconds (remaining + wait - spent)))))"

definition SummaryLine :: "string \<Rightarrow> string option" where
  "SummaryLine summary =
     (case filter (\<lambda>l. l \<noteq> []) (map trim_space (split_on (char_of (10 :: nat)) summary)) of [] \<Rightarrow> None | l # _ \<Rightarrow> Some l)"

subsection \<open>The response\<close>

record job_response =
  rs_record :: job_record
  rs_terminal :: bool
  rs_retry_scheduled :: bool
  rs_retryable :: bool
  rs_progress :: int
  rs_failure :: "string option"
  rs_label :: string
  rs_message :: string
  rs_stage :: string
  rs_remaining :: "int option"
  rs_poll :: "int option"
  rs_summary :: "string option"

text \<open>\<open>BuildResponse\<close>: the fields of the record that are passed through, and the computed ones.  \<open>clock\<close> is the
  time \<open>Normalize\<close> takes itself, \<open>summary\<close> the summary of the job's reel when it could be loaded.\<close>

definition BuildResponse ::
  "(time \<Rightarrow> string) \<Rightarrow> time \<Rightarrow> string option \<Rightarrow> (string \<times> duration) list \<Rightarrow> time \<Rightarrow> job_record \<Rightarrow> job_response" where
  "BuildResponse local clock summary budgets now raw =
     (let r = Normalize_job clock raw
      in \<lparr>rs_record = r, rs_terminal = Terminal r, rs_retry_scheduled = RetryScheduled r, rs_retryable = job_Retryable r,
          rs_progress = ProgressPercent r, rs_failure = FailureCode (jr_failure r), rs_label = StatusLabel r,
          rs_message = StatusMessage local r, rs_stage = Stage r budgets,
          rs_remaining = EstimatedSecondsRemaining r budgets now, rs_poll = RecommendedPollAfterSeconds now r,
          rs_summary = (case summary of Some s \<Rightarrow> if jr_status r = StatusCompleted then SummaryLine s else None | None \<Rightarrow> None)\<rparr>)"

subsection \<open>What a client can rely on\<close>

definition known_status :: "job_record \<Rightarrow> bool" where
  "known_status r = (jr_status r \<in> set [StatusQueued, StatusProcessing, StatusCompleted, StatusFailed, StatusDeadLettered])"

lemma normalized_status [simp]:
  "normalized StatusQueued = StatusQueued" "normalized StatusProcessing = StatusProcessing"
  "normalized StatusCompleted = StatusCompleted" "normalized StatusFailed = StatusFailed"
  "normalized StatusDeadLettered = StatusDeadLettered"
  by (simp_all add: normalized_def status_defs trim_space_def trim_right_by_def is_space_def char_code_def to_lower_def
      lower_char_def is_upper_def)

lemma status_distinct [simp]:
  "StatusQueued \<noteq> StatusProcessing" "StatusQueued \<noteq> StatusCompleted" "StatusQueued \<noteq> StatusFailed" "StatusQueued \<noteq> StatusDeadLettered"
  "StatusProcessing \<noteq> StatusQueued" "StatusProcessing \<noteq> StatusCompleted" "StatusProcessing \<noteq> StatusFailed"
  "StatusProcessing \<noteq> StatusDeadLettered" "StatusCompleted \<noteq> StatusFailed" "StatusFailed \<noteq> StatusCompleted"
  "StatusFailed \<noteq> StatusDeadLettered" "StatusFailed \<noteq> StatusQueued" "StatusFailed \<noteq> StatusProcessing"
  by (simp_all add: status_defs)

lemma canonical_known: "known_status (canonical_job w j)"
  by (cases "job_state j") (auto simp: known_status_def canonical_job_def Let_def status_text_def StatusQueued_def)

lemma Normalize_known: "known_status r \<Longrightarrow> known_status (Normalize_job now r)"
  by (auto simp: known_status_def Normalize_job_def)

lemma known_normalized: "known_status r \<Longrightarrow> normalized (jr_status r) = jr_status r"
  by (auto simp: known_status_def)

lemma live_known: "known_status r \<Longrightarrow> \<not> Terminal r \<Longrightarrow> jr_status r = StatusQueued \<or> jr_status r = StatusProcessing"
  by (auto simp: known_status_def Terminal_def)

lemma poll_bounds:
  assumes "known_status r"
  shows "(case RecommendedPollAfterSeconds now r of None \<Rightarrow> Terminal r | Some k \<Rightarrow> \<not> Terminal r \<and> 2 \<le> k \<and> k \<le> 30)"
proof (cases "Terminal r")
  case False
  from live_known [OF assms False] show ?thesis
    using False known_normalized [OF assms]
    by (auto simp: RecommendedPollAfterSeconds_def Let_def split: option.splits)
qed (simp add: RecommendedPollAfterSeconds_def)

lemma progress_bounds:
  assumes "0 \<le> jr_progress r" and "jr_progress r \<le> 100"
  shows "0 \<le> ProgressPercent r \<and> ProgressPercent r \<le> 100 \<and> (Terminal r \<longrightarrow> ProgressPercent r = 100)"
  using assms by (auto simp: ProgressPercent_def)

lemma ceil_seconds_mono: "a \<le> b \<Longrightarrow> ceil_seconds a \<le> ceil_seconds b"
  by (simp add: ceil_seconds_def zdiv_mono1)

lemma drop_sum:
  fixes bs :: "(string \<times> duration) list"
  assumes "\<forall>b \<in> set bs. 0 \<le> snd b" and "i < length bs"
  shows "snd (bs ! i) \<le> sum_list (map snd (drop i bs))" and "sum_list (map snd (drop i bs)) \<le> sum_list (map snd bs)"
proof -
  have "0 \<le> sum_list (map snd (drop (Suc i) bs))"
    using assms(1) by (intro sum_list_nonneg) (auto dest: in_set_dropD)
  then show "snd (bs ! i) \<le> sum_list (map snd (drop i bs))"
    using Cons_nth_drop_Suc [OF assms(2)] by (metis add.commute le_add_same_cancel2 list.simps(9) sum_list.Cons)
  have "0 \<le> sum_list (map snd (take i bs))"
    using assms(1) by (intro sum_list_nonneg) (auto dest: in_set_takeD)
  moreover have "sum_list (map snd bs) = sum_list (map snd (take i bs)) + sum_list (map snd (drop i bs))"
    by (metis append_take_drop_id map_append sum_list_append)
  ultimately show "sum_list (map snd (drop i bs)) \<le> sum_list (map snd bs)" by simp
qed

lemma estimate_bounds:
  assumes bs: "\<forall>b \<in> set bs. 0 \<le> snd b" and k: "EstimatedSecondsRemaining r bs now = Some k" and nr: "\<not> RetryScheduled r"
  shows "0 \<le> k \<and> k \<le> ceil_seconds (sum_list (map snd bs)) \<and> \<not> Terminal r"
proof -
  from k obtain i where i: "runningStage r bs = Some i" "\<not> Terminal r" "bs \<noteq> []"
    by (auto simp: EstimatedSecondsRemaining_def split: if_splits option.splits)
  have tot: "0 \<le> sum_list (map snd bs)" using bs by (intro sum_list_nonneg) auto
  show ?thesis
  proof (cases "length bs \<le> i")
    case True
    then have "k = 0" using k i by (simp add: EstimatedSecondsRemaining_def)
    then show ?thesis using i ceil_seconds_mono [OF tot] by (simp add: ceil_seconds_def)
  next
    case False
    then have len: "i < length bs" by simp
    define spent where "spent = (if normalized (jr_status r) = StatusProcessing
        then (case jr_updated r of None \<Rightarrow> 0 | Some t \<Rightarrow> if 0 < now - t then min (now - t) (snd (bs ! i)) else 0) else 0)"
    have b: "0 \<le> snd (bs ! i)" using bs len by simp
    have sp: "0 \<le> spent" "spent \<le> snd (bs ! i)" using b by (auto simp: spent_def split: option.splits)
    have kk: "k = ceil_seconds (sum_list (map snd (drop i bs)) - spent)"
      using k i len nr by (simp add: EstimatedSecondsRemaining_def spent_def Let_def)
    note d = drop_sum [OF bs len]
    have "0 \<le> sum_list (map snd (drop i bs)) - spent" "sum_list (map snd (drop i bs)) - spent \<le> sum_list (map snd bs)"
      using d sp by linarith+
    from ceil_seconds_mono [OF this(1)] ceil_seconds_mono [OF this(2)] i show ?thesis
      by (simp add: kk ceil_seconds_def)
  qed
qed

lemma budgets_nonneg: "\<forall>b \<in> set StageBudgets. 0 \<le> snd b"
  by (simp add: StageBudgets_def stageTimeouts_def stage_names)

lemma budgets_total: "ceil_seconds (sum_list (map snd StageBudgets)) = 1080"
  by (simp add: StageBudgets_def stageTimeouts_def stage_names ceil_seconds_def)

text \<open>A client that polls a job is never left without an answer.  The response is terminal exactly when it
  recommends no further poll; a terminal one shows 100 percent and no remaining time, every other one says to
  come back in 2 to 30 seconds and is retryable; the progress lies between 0 and 100; the estimate of a running job
  lies between 0 and the eighteen minutes of all stage budgets; and a job that says it is completed names its reel.\<close>

theorem job_answers_are_consistent:
  assumes "0 \<le> job_progress j" and "job_progress j \<le> 100"
    and "BuildResponse local clock summary StageBudgets now (canonical_job w j) = r"
  shows "(case rs_poll r of None \<Rightarrow> rs_terminal r | Some k \<Rightarrow> \<not> rs_terminal r \<and> 2 \<le> k \<and> k \<le> 30)
    \<and> 0 \<le> rs_progress r \<and> rs_progress r \<le> 100
    \<and> (if rs_terminal r then rs_progress r = 100 \<and> rs_remaining r = None else rs_retryable r)
    \<and> (\<forall>k. rs_remaining r = Some k \<and> \<not> rs_retry_scheduled r \<longrightarrow> 0 \<le> k \<and> k \<le> 1080)
    \<and> (jr_status (rs_record r) = StatusCompleted \<longrightarrow> optionalString (jr_result (rs_record r)) \<noteq> [])"
proof -
  let ?c = "canonical_job w j"
  let ?n = "Normalize_job clock ?c"
  have known: "known_status ?n" by (rule Normalize_known [OF canonical_known])
  have pr: "0 \<le> jr_progress ?n" "jr_progress ?n \<le> 100"
    using assms(1,2) by (auto simp: Normalize_job_def canonical_job_def Let_def)
  have r: "rs_poll r = RecommendedPollAfterSeconds now ?n" "rs_terminal r = Terminal ?n" "rs_progress r = ProgressPercent ?n"
    "rs_remaining r = EstimatedSecondsRemaining ?n StageBudgets now" "rs_retryable r = job_Retryable ?n" "rs_record r = ?n"
    "rs_retry_scheduled r = RetryScheduled ?n"
    using assms(3) by (auto simp: BuildResponse_def Let_def)
  have live: "\<not> Terminal ?n \<Longrightarrow> job_Retryable ?n"
    using live_known [OF known] known_normalized [OF known] by (auto simp: job_Retryable_def)
  have none: "Terminal ?n \<Longrightarrow> EstimatedSecondsRemaining ?n StageBudgets now = None"
    by (simp add: EstimatedSecondsRemaining_def)
  have "jr_status ?n = StatusCompleted \<longrightarrow> optionalString (jr_result ?n) \<noteq> []"
    by (auto simp: Normalize_job_def)
  then show ?thesis
    unfolding r using poll_bounds [OF known, of now] progress_bounds [OF pr] live none
      estimate_bounds [OF budgets_nonneg, of ?n now, unfolded budgets_total] by auto
qed

text \<open>A retry that the pipeline schedules is what the client sees.  From the transaction that schedules it on, and
  until the run is claimed again, every open job of the run reads as queued and waiting to retry, not terminal
  and retryable, with the moment the retry falls due, as long as no earlier resume event of the run lies
  further ahead.\<close>

theorem scheduled_retry_is_shown:
  assumes "scheduleRetry d now held stage attempts delay w = w'" and "retry_id d (l_run held) stage attempts \<notin> event_ids w"
    and "find (\<lambda>r. run_id r = l_run held) (runs w) = Some row" and "active_job_of (l_run held) j"
    and "\<forall>e \<in> set (events w). ev_type e = ''run.resume'' \<and> map_option fst (ev_payload e) = Some (l_run held)
           \<longrightarrow> ev_available e \<le> now + delay"
    and "BuildResponse local clock summary budgets view (canonical_job w' j) = r"
  shows "rs_retry_scheduled r \<and> \<not> rs_terminal r \<and> rs_retryable r \<and> rs_stage r = ''Waiting to retry''
    \<and> jr_next_retry (rs_record r) = Some (now + delay)
    \<and> rs_message r = ''Retry scheduled for '' @ local (now + delay) @ ''.''"
proof -
  let ?i = "l_run held"
  let ?w1 = "w\<lparr>runs := update_where (\<lambda>r. run_id r = ?i) (wait_row now) (runs w)\<rparr>"
  let ?e = "plain_event (retry_id d ?i stage attempts) ''run.resume'' (routing_key_of QueueLight ?i ?w1) ?i
      (l_generation held) now (now + delay)"
  have w': "w' = insert_event ?e ?w1" using assms(1) by (simp add: scheduleRetry_def Let_def)
  have fresh: "ev_id ?e \<notin> set (map ev_id (events ?w1))" using assms(2) by (simp add: event_ids_def plain_event_def)
  then have ev: "events w' = events w @ [?e]" by (simp add: w' insert_event_def)
  have rw: "find (\<lambda>r. run_id r = ?i) (runs w') = Some (wait_row now row)"
    using find_key_update [OF assms(3), of "wait_row now"] by (simp add: w' wait_row_def)
  have run: "job_run j = Some ?i" "active_status (job_state j)" using assms(4) by (simp_all add: active_job_of_def)
  have e: "ev_type ?e = ''run.resume''" "map_option fst (ev_payload ?e) = Some ?i" "ev_available ?e = now + delay"
    by (simp_all add: plain_event_def)
  let ?es = "filter (\<lambda>e. ev_type e = ''run.resume'' \<and> map_option fst (ev_payload e) = Some ?i) (events w')"
  have es: "?es = filter (\<lambda>e. ev_type e = ''run.resume'' \<and> map_option fst (ev_payload e) = Some ?i) (events w) @ [?e]"
    using e by (simp add: ev)
  have mx: "Max (ev_available ` set ?es) = now + delay"
  proof (rule Max_eqI)
    show "now + delay \<in> ev_available ` set ?es" using e(3) unfolding es by force
    show "y \<le> now + delay" if "y \<in> ev_available ` set ?es" for y
      using that assms(5) e(3) unfolding es by auto
  qed simp
  have "?es \<noteq> []" unfolding es by simp
  then obtain a l where al: "?es = a # l" unfolding neq_Nil_conv by (elim exE)
  have due: "resume_due ?i w' = Some (now + delay)"
    unfolding resume_due_def al using mx [unfolded al] by simp
  have ri: "run_id row = ?i" using find_Some_in [OF assms(3)] by blast
  have c: "jr_status (canonical_job w' j) = StatusQueued" "jr_step (canonical_job w' j) = Some ''retry_scheduled''"
    "jr_next_retry (canonical_job w' j) = Some (now + delay)"
    using run rw due ri by (simp_all add: canonical_job_def Let_def retryWaiting_def wait_row_def StatusQueued_def)
  have n: "Normalize_job clock (canonical_job w' j) = canonical_job w' j" using c by (simp add: Normalize_job_def)
  have step: "normalized ''retry_scheduled'' = ''retry_scheduled''"
    by (simp add: normalized_def trim_space_def trim_right_by_def is_space_def char_code_def to_lower_def lower_char_def is_upper_def)
  have rs: "RetryScheduled (canonical_job w' j)" "\<not> Terminal (canonical_job w' j)"
    using c step by (simp_all add: RetryScheduled_def Terminal_def optionalString_def)
  have msg: "StatusMessage local (canonical_job w' j) = ''Retry scheduled for '' @ local (now + delay) @ ''.''"
    using c step by (simp add: StatusMessage_def Let_def optionalString_def)
  have st: "Stage (canonical_job w' j) budgets = ''Waiting to retry''"
    using c rs by (simp add: Stage_def)
  show ?thesis
    using assms(6) rs msg st c unfolding BuildResponse_def Let_def n by (auto simp: job_Retryable_def)
qed

text \<open>The codes the pipeline records for a provider that is down, an extraction that is invalid, an unsupported
  platform and an expired run are not in the list of codes the response knows: the client sees no code, the
  generic message, and a failure that is not retryable.\<close>

lemma unknown_codes:
  "FailureCode (Some ''provider_exhausted'') = None" "FailureCode (Some ''provider_unavailable'') = None"
  "FailureCode (Some ''extraction_invalid'') = None" "FailureCode (Some ''unsupported_platform'') = None"
  "FailureCode (Some ''processing_timeout'') = None"
  by code_simp+

lemma pipeline_codes_are_hidden:
  assumes "c \<in> set [''provider_exhausted'', ''provider_unavailable'', ''extraction_invalid'', ''unsupported_platform'',
    ''processing_timeout'']" and "job_state j = JobFailed" and "job_failure j = Some c" and "job_run j = None"
    and "BuildResponse local clock summary budgets view (canonical_job w j) = r"
  shows "rs_failure r = None \<and> \<not> rs_retryable r \<and> rs_message r = ''Processing failed.''"
proof -
  let ?c = "canonical_job w j"
  have c: "jr_status ?c = StatusFailed" "jr_failure ?c = Some c"
    using assms by (simp_all add: canonical_job_def Let_def retryWaiting_def status_text_def)
  have n: "Normalize_job clock ?c = ?c" using c by (simp add: Normalize_job_def)
  have code: "FailureCode (Some c) = None"
    using assms(1) unknown_codes by (simp only: set_simps insert_iff empty_iff) blast
  have "StatusMessage local ?c = ''Processing failed.''"
    using c code by (simp add: StatusMessage_def Let_def failureMessage_def)
  moreover have "\<not> job_Retryable ?c" using c code by (simp add: job_Retryable_def RetryScheduled_def)
  ultimately show ?thesis using assms(5) c code unfolding BuildResponse_def Let_def n by auto
qed

subsection \<open>Witnesses\<close>

definition sample_answer :: job_response where
  "sample_answer = BuildResponse (\<lambda>_. ''noon'') 10 None StageBudgets 10 (canonical_job sample_busy sample_job)"

lemma sample_answer_live: "\<not> rs_terminal sample_answer"
proof -
  have "jr_status (canonical_job sample_busy sample_job) = StatusQueued"
    by (simp add: canonical_job_def Let_def retryWaiting_def sample_job_def sample_busy_def sample_claim_a_def sample_defs
        acquire_row_def status_text_def)
  then have "\<not> Terminal (Normalize_job 10 (canonical_job sample_busy sample_job))"
    by (simp add: Normalize_job_def Terminal_def status_defs [symmetric]) 
  then show ?thesis by (simp add: sample_answer_def BuildResponse_def Let_def)
qed

theorem job_answers_are_consistent_witness:
  "\<exists>k. rs_poll sample_answer = Some k \<and> 2 \<le> k \<and> k \<le> 30 \<and> rs_retryable sample_answer"
proof -
  have "0 \<le> job_progress sample_job" "job_progress sample_job \<le> 100" by (simp_all add: sample_job_def)
  from job_answers_are_consistent [OF this sample_answer_def [symmetric]] sample_answer_live
  show ?thesis by (auto split: option.splits)
qed

theorem scheduled_retry_is_shown_witness:
  "rs_retry_scheduled (BuildResponse (\<lambda>_. ''noon'') 10 None StageBudgets 10
     (canonical_job (scheduleRetry sample_deps 10 sample_lease_a stageExtract 1 (30 * second) sample_busy) sample_job))"
proof -
  have "retry_id sample_deps (l_run sample_lease_a) stageExtract 1 \<notin> event_ids sample_busy"
    "find (\<lambda>r. run_id r = l_run sample_lease_a) (runs sample_busy) = Some (acquire_row 10 ''a'' sample_run)"
    "active_job_of (l_run sample_lease_a) sample_job"
    "\<forall>e \<in> set (events sample_busy). ev_type e = ''run.resume'' \<and> map_option fst (ev_payload e) = Some (l_run sample_lease_a)
       \<longrightarrow> ev_available e \<le> 10 + 30 * second"
    by (simp_all add: event_ids_def sample_busy_def sample_claim_a_def sample_defs sample_lease_a_def acquire_row_def
        active_job_of_def sample_job_def active_status_def)
  from scheduled_retry_is_shown [OF refl this refl] show ?thesis by blast
qed

end
