(* ===== verification/Notify.thy ===== *)
theory Notify
  imports Retries
begin

text \<open>
  Push notifications (\<open>internal/notify\<close>) and the worker's handler of notification messages
  (\<open>cmd/worker/notifications.go\<close>): device tokens, the claim of an event key, the delivery and what is recorded of it.
  The push provider is the argument \<open>sd_send\<close>; each statement may fail on its own, as they run outside a transaction.
\<close>

record device =
  dv_token :: string
  dv_platform :: string
  dv_version :: "string option"
  dv_build :: "int option"
  dv_timezone :: "string option"
  dv_locale :: "string option"

record token_row =
  tk_user :: string
  tk_device :: device
  tk_seen :: time

datatype note_status = NotePending | NoteSent | NoteFailed | NoteNoDevices

record note_row =
  nt_id :: string
  nt_user :: string
  nt_key :: string
  nt_kind :: string
  nt_title :: string
  nt_body :: string
  nt_data :: "(string \<times> string) list"
  nt_status :: note_status
  nt_message :: "string option"
  nt_reason :: "string option"
  nt_opened :: "time option"
  nt_updated :: time

record push_state =
  ps_tokens :: "token_row list"
  ps_notes :: "note_row list"

datatype notify_err = NoteNotFound | ErrNoDeviceTokens | ErrRetryable | NotifyOther string

definition MaxTokensPerBatch :: nat where "MaxTokensPerBatch = 500"

record notification =
  no_user :: string
  no_title :: string
  no_body :: string
  no_type :: string
  no_target :: string
  no_target_id :: string
  no_key :: string
  no_data :: "(string \<times> string) list"

subsection \<open>What a notification says\<close>

definition EventKey :: "string \<Rightarrow> string \<Rightarrow> string \<Rightarrow> string" where
  "EventKey kind user target = join_with '':'' [kind, trim_space user, trim_space target]"

definition reelReadyTitle :: "string \<Rightarrow> string \<Rightarrow> string" where
  "reelReadyTitle platform content_type =
     (let t = to_lower (trim_space content_type)
      in if t \<in> set [''reel'', ''reels''] then ''Reel saved''
         else if t \<in> set [''post'', ''carousel''] then ''Post saved''
         else if t = ''short'' then ''Short saved''
         else if t = ''video'' then ''Video saved''
         else if t \<in> set [''link'', ''page''] then ''Link saved''
         else if trim_space platform \<noteq> [] then ''Saved from '' @ trim_space platform
         else ''Saved to ReelPin'')"

definition ReelReady :: "string \<Rightarrow> string \<Rightarrow> string \<Rightarrow> string \<Rightarrow> string \<Rightarrow> string \<Rightarrow> notification" where
  "ReelReady user reel job title platform content_type =
     \<lparr>no_user = user, no_title = reelReadyTitle platform content_type,
      no_body = (if trim_space title \<noteq> [] then trim_space title @ '' is ready in ReelPin.''
                 else ''Reel saved and is ready in ReelPin.''),
      no_type = ''reel_ready'', no_target = ''reel_detail'', no_target_id = reel,
      no_key = EventKey ''reel_ready'' user reel,
      no_data = [(''schema_version'', ''1''), (''type'', ''reel_ready''), (''target'', ''reel_detail''),
        (''reel_id'', reel), (''job_id'', job)]\<rparr>"

definition plural :: "int \<Rightarrow> string" where
  "plural n = show_nat (nat n)"

definition CollectionUpdated :: "string \<Rightarrow> string \<Rightarrow> string \<Rightarrow> int \<Rightarrow> notification" where
  "CollectionUpdated user collection actor added =
     \<lparr>no_user = user, no_title = ''Collection updated'',
      no_body = (if actor \<noteq> [] \<and> added = 1 then actor @ '' added an item.''
                 else if actor \<noteq> [] then actor @ '' added '' @ plural added @ '' items.''
                 else if added = 1 then ''An item was added.''
                 else plural added @ '' items were added.''),
      no_type = ''collection_updated'', no_target = ''collection_detail'', no_target_id = collection, no_key = [],
      no_data = [(''schema_version'', ''1''), (''type'', ''collection_updated''), (''target'', ''collection_detail''),
        (''collection_id'', collection)]\<rparr>"

subsection \<open>Devices\<close>

definition RegisterToken :: "string option \<Rightarrow> time \<Rightarrow> string \<Rightarrow> device \<Rightarrow> push_state \<Rightarrow> notify_err + push_state" where
  "RegisterToken fault now user d s =
     (if trim_space (dv_token d) = [] then Inl (NotifyOther ''no device token'')
      else (case fault of Some m \<Rightarrow> Inl (NotifyOther m)
        | None \<Rightarrow>
            (let row = \<lparr>tk_user = user, tk_device = d, tk_seen = now\<rparr>
             in Inr (if dv_token d \<in> set (map (\<lambda>t. dv_token (tk_device t)) (ps_tokens s))
                     then s\<lparr>ps_tokens := update_where (\<lambda>t. dv_token (tk_device t) = dv_token d) (\<lambda>_. row) (ps_tokens s)\<rparr>
                     else s\<lparr>ps_tokens := ps_tokens s @ [row]\<rparr>))))"

definition DeleteToken :: "string option \<Rightarrow> string \<Rightarrow> string \<Rightarrow> push_state \<Rightarrow> notify_err + push_state" where
  "DeleteToken fault user token s =
     (case fault of Some m \<Rightarrow> Inl (NotifyOther m)
      | None \<Rightarrow>
          (let P = (\<lambda>t. tk_user t = user \<and> dv_token (tk_device t) = token)
           in if matching P (ps_tokens s) = 0 then Inl NoteNotFound
              else Inr (s\<lparr>ps_tokens := filter (\<lambda>t. \<not> P t) (ps_tokens s)\<rparr>)))"

definition MarkOpened :: "string option \<Rightarrow> time \<Rightarrow> string \<Rightarrow> string \<Rightarrow> push_state \<Rightarrow> notify_err + push_state" where
  "MarkOpened fault now user i s =
     (case fault of Some m \<Rightarrow> Inl (NotifyOther m)
      | None \<Rightarrow>
          (let P = (\<lambda>n. nt_id n = i \<and> nt_user n = user \<and> nt_opened n = None)
           in if matching P (ps_notes s) = 0 then Inl NoteNotFound
              else Inr (s\<lparr>ps_notes := update_where P (\<lambda>n. n\<lparr>nt_opened := Some now, nt_updated := now\<rparr>) (ps_notes s)\<rparr>)))"

text \<open>\<open>LiveBuilds\<close> counts the tokens seen since a moment by platform and build; here as a list of counts in the
  order of first appearance, the query's own order being a sort of it.\<close>

definition LiveBuilds :: "time \<Rightarrow> push_state \<Rightarrow> ((string \<times> int option) \<times> nat) list" where
  "LiveBuilds since s =
     (let live = map (\<lambda>t. (dv_platform (tk_device t), dv_build (tk_device t))) (filter (\<lambda>t. since \<le> tk_seen t) (ps_tokens s))
      in map (\<lambda>b. (b, length (filter (\<lambda>x. x = b) live))) (remdups live))"

definition tokensFor :: "string \<Rightarrow> push_state \<Rightarrow> string list" where
  "tokensFor user s =
     map (\<lambda>t. dv_token (tk_device t))
       (take MaxTokensPerBatch (rev (sort_key tk_seen (filter (\<lambda>t. tk_user t = user) (ps_tokens s)))))"

subsection \<open>One send\<close>

record push_message =
  pm_title :: string
  pm_body :: string
  pm_data :: "(string \<times> string) list"

record delivery =
  de_token :: string
  de_message :: string
  de_invalid :: bool
  de_retryable :: bool

text \<open>What one call takes from outside: the id PostgreSQL mints, the clock, the provider, and which of its
  statements fail.\<close>

record send_env =
  sd_id :: string
  sd_now :: time
  sd_send :: "string list \<Rightarrow> push_message \<Rightarrow> string + delivery list"
  sd_claim_fails :: "string option"
  sd_read_fails :: "string option"
  sd_tokens_fail :: "string option"
  sd_delete_fails :: bool
  sd_mark_fails :: bool

text \<open>\<open>mark\<close>: a failure is logged only.\<close>

definition mark_note :: "send_env \<Rightarrow> note_status \<Rightarrow> string \<Rightarrow> string \<Rightarrow> push_state \<Rightarrow> push_state" where
  "mark_note e st message reason s =
     (if sd_mark_fails e then s
      else s\<lparr>ps_notes := update_where (\<lambda>n. nt_id n = sd_id e)
             (\<lambda>n. n\<lparr>nt_status := st, nt_message := (if message = [] then None else Some message),
                    nt_reason := (if reason = [] then None else Some reason), nt_updated := sd_now e\<rparr>) (ps_notes s)\<rparr>)"

text \<open>The loop over the deliveries: the last accepted message id, whether one may pass later, the dead tokens.\<close>

fun sort_deliveries :: "delivery list \<Rightarrow> string \<times> bool \<times> string list \<Rightarrow> string \<times> bool \<times> string list" where
  "sort_deliveries [] acc = acc"
| "sort_deliveries (d # ds) (m, r, dead) =
     sort_deliveries ds
       (if de_invalid d then (m, r, dead @ [de_token d])
        else if de_retryable d then (m, True, dead)
        else if de_message d \<noteq> [] then (de_message d, r, dead)
        else (m, r, dead))"

definition drop_tokens :: "send_env \<Rightarrow> string list \<Rightarrow> push_state \<Rightarrow> push_state" where
  "drop_tokens e invalid s =
     (if invalid = [] \<or> sd_delete_fails e then s
      else s\<lparr>ps_tokens := filter (\<lambda>t. dv_token (tk_device t) \<notin> set invalid) (ps_tokens s)\<rparr>)"

text \<open>What is recorded of the deliveries, and the error of the call.\<close>

definition record_deliveries :: "send_env \<Rightarrow> delivery list \<Rightarrow> push_state \<Rightarrow> push_state \<times> notify_err option" where
  "record_deliveries e ds s =
     (let (m, r, dead) = sort_deliveries ds ([], False, []);
          s1 = drop_tokens e dead s
      in if m \<noteq> [] then (mark_note e NoteSent m [] s1, None)
         else if r then (mark_note e NoteFailed [] ''the push provider was unavailable'' s1, Some ErrRetryable)
         else (mark_note e NoteFailed [] ''no device accepted the notification'' s1, Some ErrNoDeviceTokens))"

definition claim_row :: "send_env \<Rightarrow> notification \<Rightarrow> note_row" where
  "claim_row e n =
     \<lparr>nt_id = sd_id e, nt_user = no_user n, nt_key = no_key n, nt_kind = no_type n, nt_title = no_title n,
      nt_body = no_body n, nt_data = no_data n, nt_status = NotePending, nt_message = None, nt_reason = None,
      nt_opened = None, nt_updated = sd_now e\<rparr>"

text \<open>The delivery of a claimed notification: the state, what was handed to the provider, the error.\<close>

definition deliver :: "send_env \<Rightarrow> notification \<Rightarrow> push_state \<Rightarrow> push_state \<times> push_message list \<times> notify_err option" where
  "deliver e n s =
     (case sd_tokens_fail e of Some m \<Rightarrow> (s, [], Some (NotifyOther m)) | None \<Rightarrow>
        (let tokens = tokensFor (no_user n) s;
             msg = \<lparr>pm_title = no_title n, pm_body = no_body n, pm_data = no_data n @ [(''notification_id'', sd_id e)]\<rparr>
         in if tokens = []
            then (mark_note e NoteNoDevices [] ''the user has no registered device'' s, [], Some ErrNoDeviceTokens)
            else (case sd_send e tokens msg of
                    Inl m \<Rightarrow> (mark_note e NoteFailed [] ''the push provider was unavailable'' s, [msg], Some (NotifyOther m))
                  | Inr ds \<Rightarrow> (case record_deliveries e ds s of (s1, err) \<Rightarrow> (s1, [msg], err)))))"

text \<open>\<open>SendToUser\<close>: the state after, what was handed to the provider, the notification's id and the error.\<close>

definition SendToUser ::
  "send_env \<Rightarrow> notification \<Rightarrow> push_state \<Rightarrow> push_state \<times> push_message list \<times> string \<times> notify_err option" where
  "SendToUser e n s =
     (case sd_claim_fails e of Some m \<Rightarrow> (s, [], [], Some (NotifyOther m)) | None \<Rightarrow>
     (case find (\<lambda>r. nt_key r = no_key n) (ps_notes s) of
        Some r \<Rightarrow> (case sd_read_fails e of Some m \<Rightarrow> (s, [], [], Some (NotifyOther m)) | None \<Rightarrow> (s, [], nt_id r, None))
      | None \<Rightarrow>
          (case deliver e n (s\<lparr>ps_notes := ps_notes s @ [claim_row e n]\<rparr>) of
             (s1, ms, err) \<Rightarrow> (s1, ms, sd_id e, err))))"

subsection \<open>The worker's handler\<close>

text \<open>The finished jobs of the run, with what the query joins.\<close>

definition finished_jobs :: "string \<Rightarrow> world \<Rightarrow> job_row list" where
  "finished_jobs i w = filter (\<lambda>j. job_run j = Some i \<and> job_state j \<in> set [JobCompleted, JobFailed, JobDeadLettered]) (jobs w)"

definition saved_title :: "world \<Rightarrow> string option \<Rightarrow> string" where
  "saved_title w save =
     (case (case save of None \<Rightarrow> None | Some s \<Rightarrow> find (\<lambda>r. s_id r = s) (saves w)) of None \<Rightarrow> []
      | Some r \<Rightarrow> (case find (\<lambda>c. c_id c = s_content r) (contents w) of None \<Rightarrow> []
        | Some c \<Rightarrow> (case (case c_current c of None \<Rightarrow> None | Some v \<Rightarrow> find (\<lambda>x. v_id x = v) (versions w)) of
            None \<Rightarrow> [] | Some v \<Rightarrow> v_title v)))"

definition job_note :: "world \<Rightarrow> job_row \<Rightarrow> notification" where
  "job_note w j =
     (let title = saved_title w (job_save j);
          base = \<lparr>no_user = job_user j, no_title = [], no_body = [],
            no_type = ''processing_'' @ (case job_state j of JobCompleted \<Rightarrow> ''completed'' | JobFailed \<Rightarrow> ''failed'' | _ \<Rightarrow> ''dead_lettered''),
            no_target = [], no_target_id = [], no_key = ''job:'' @ job_id j, no_data = [(''job_id'', job_id j)]\<rparr>
      in if job_state j = JobCompleted then
           (case job_save j of
              None \<Rightarrow> base\<lparr>no_title := ''Your reel is ready'', no_body := (if title = [] then ''Tap to open it.'' else title)\<rparr>
            | Some s \<Rightarrow> base\<lparr>no_title := ''Your reel is ready'', no_body := (if title = [] then ''Tap to open it.'' else title),
                no_target := ''reel'', no_target_id := s, no_data := no_data base @ [(''reel_id'', s)]\<rparr>)
         else base\<lparr>no_title := ''That link could not be saved'', no_body := ''Open the app to see what happened.'',
                no_data := no_data base @ (case job_failure j of None \<Rightarrow> [] | Some c \<Rightarrow> [(''failure_code'', c)])\<rparr>)"

fun notify_jobs :: "(job_row \<Rightarrow> send_env) \<Rightarrow> world \<Rightarrow> job_row list \<Rightarrow> push_state \<Rightarrow> push_state \<times> push_message list \<times> bool" where
  "notify_jobs env w [] s = (s, [], False)"
| "notify_jobs env w (j # js) s =
     (case SendToUser (env j) (job_note w j) s of (s1, ms, i, err) \<Rightarrow>
        (case notify_jobs env w js s1 of (s2, ms2, again) \<Rightarrow> (s2, ms @ ms2, again \<or> err = Some ErrRetryable)))"

text \<open>\<open>notificationHandler\<close>: the outcome for the queue, \<open>True\<close> for a retry at attempt 1.\<close>

definition notificationHandler ::
  "string option \<Rightarrow> (job_row \<Rightarrow> send_env) \<Rightarrow> world \<Rightarrow> string \<Rightarrow> push_state \<Rightarrow> push_state \<times> push_message list \<times> bool" where
  "notificationHandler fault env w run s =
     (case fault of Some _ \<Rightarrow> (s, [], True) | None \<Rightarrow> notify_jobs env w (finished_jobs run w) s)"

subsection \<open>One push per event\<close>

datatype push_op =
    OpSend send_env notification
  | OpRegister "string option" time string device
  | OpDelete "string option" string string
  | OpOpened "string option" time string string

definition settle :: "push_state \<Rightarrow> notify_err + push_state \<Rightarrow> push_state" where
  "settle s r = (case r of Inl _ \<Rightarrow> s | Inr s1 \<Rightarrow> s1)"

text \<open>Operations one after the other; what was handed to the provider under each event key.\<close>

fun push_ops :: "push_op list \<Rightarrow> push_state \<Rightarrow> (string \<times> push_message) list \<times> push_state" where
  "push_ops [] s = ([], s)"
| "push_ops (OpSend e n # ops) s =
     (case SendToUser e n s of (s1, ms, _) \<Rightarrow>
        (map (\<lambda>m. (no_key n, m)) ms @ fst (push_ops ops s1), snd (push_ops ops s1)))"
| "push_ops (OpRegister f now u d # ops) s = push_ops ops (settle s (RegisterToken f now u d s))"
| "push_ops (OpDelete f u t # ops) s = push_ops ops (settle s (DeleteToken f u t s))"
| "push_ops (OpOpened f now u i # ops) s = push_ops ops (settle s (MarkOpened f now u i s))"

definition keys_of :: "push_state \<Rightarrow> string list" where
  "keys_of s = map nt_key (ps_notes s)"

lemma mark_keys [simp]: "keys_of (mark_note e st m r s) = keys_of s"
  by (simp add: mark_note_def keys_of_def)

lemma drop_keys [simp]: "keys_of (drop_tokens e dead s) = keys_of s"
  by (simp add: drop_tokens_def keys_of_def)

lemma keys_append [simp]: "keys_of (s\<lparr>ps_notes := ps_notes s @ [r]\<rparr>) = keys_of s @ [nt_key r]"
  by (simp add: keys_of_def)

lemma deliver_effect:
  assumes "deliver e n s = (s1, ms, err)"
  shows "keys_of s1 = keys_of s" and "length ms \<le> 1" and "err = Some ErrRetryable \<Longrightarrow> ms \<noteq> []"
proof -
  have "keys_of (fst (record_deliveries e ds s)) = keys_of s" for ds
    by (simp add: record_deliveries_def Let_def split: prod.splits)
  then have r: "record_deliveries e ds s = (t, x) \<Longrightarrow> keys_of t = keys_of s" for ds t x by (metis fst_conv)
  show "keys_of s1 = keys_of s" "length ms \<le> 1" "err = Some ErrRetryable \<Longrightarrow> ms \<noteq> []"
    using assms r by (auto simp: deliver_def Let_def split: option.splits if_splits sum.splits prod.splits)
qed

lemma SendToUser_effect:
  assumes "SendToUser e n s = (s1, ms, i, err)"
  shows "(ms = [] \<or> length ms = 1 \<and> no_key n \<notin> set (keys_of s))
    \<and> (keys_of s1 = keys_of s \<and> ms = [] \<or> keys_of s1 = keys_of s @ [no_key n] \<and> no_key n \<notin> set (keys_of s))
    \<and> (err = Some ErrRetryable \<longrightarrow> ms \<noteq> [])"
proof (cases "sd_claim_fails e")
  case None
  note claim = None
  show ?thesis
  proof (cases "find (\<lambda>r. nt_key r = no_key n) (ps_notes s)")
    case None
    then have new: "no_key n \<notin> set (keys_of s)" by (force simp: find_None_iff keys_of_def)
    from assms claim None have d: "deliver e n (s\<lparr>ps_notes := ps_notes s @ [claim_row e n]\<rparr>) = (s1, ms, err)"
      by (auto simp: SendToUser_def split: prod.splits)
    have "nt_key (claim_row e n) = no_key n" by (simp add: claim_row_def)
    then show ?thesis using deliver_effect [OF d] new by (cases ms) auto
  next
    case (Some r)
    with assms claim show ?thesis by (auto simp: SendToUser_def split: option.splits)
  qed
qed (use assms in \<open>auto simp: SendToUser_def\<close>)

lemma settle_keys [simp]:
  "keys_of (settle s (RegisterToken f now u d s)) = keys_of s" "keys_of (settle s (DeleteToken f u t s)) = keys_of s"
  "keys_of (settle s (MarkOpened f now u i s)) = keys_of s"
  by (auto simp: settle_def RegisterToken_def DeleteToken_def MarkOpened_def Let_def keys_of_def split: option.splits)

definition pushes_of :: "string \<Rightarrow> (string \<times> push_message) list \<Rightarrow> nat" where
  "pushes_of k ms = length (filter (\<lambda>m. fst m = k) ms)"

lemma push_ops_once: "pushes_of k (fst (push_ops ops s)) \<le> (if k \<in> set (keys_of s) then 0 else 1)"
proof (induction ops arbitrary: s)
  case (Cons op ops)
  show ?case
  proof (cases op)
    case (OpSend e n)
    obtain s1 ms i err where st: "SendToUser e n s = (s1, ms, i, err)" by (metis prod.collapse)
    have "pushes_of k (fst (push_ops (op # ops) s)) = pushes_of k (map (\<lambda>m. (no_key n, m)) ms) + pushes_of k (fst (push_ops ops s1))"
      by (simp add: OpSend st pushes_of_def)
    moreover have "pushes_of k (map (\<lambda>m. (no_key n, m)) ms) = (if no_key n = k then length ms else 0)"
      by (simp add: pushes_of_def filter_map comp_def)
    moreover have "set (keys_of s1) = set (keys_of s) \<and> ms = [] \<or>
        set (keys_of s1) = insert (no_key n) (set (keys_of s)) \<and> no_key n \<notin> set (keys_of s)" "length ms \<le> 1"
      using SendToUser_effect [OF st] by auto
    ultimately show ?thesis using Cons.IH [of s1] by (auto split: if_splits)
  next
    case (OpRegister f now u d)
    from Cons.IH [of "settle s (RegisterToken f now u d s)"] show ?thesis unfolding OpRegister push_ops.simps settle_keys .
  next
    case (OpDelete f u t)
    from Cons.IH [of "settle s (DeleteToken f u t s)"] show ?thesis unfolding OpDelete push_ops.simps settle_keys .
  next
    case (OpOpened f now u i)
    from Cons.IH [of "settle s (MarkOpened f now u i s)"] show ?thesis unfolding OpOpened push_ops.simps settle_keys .
  qed
qed (simp add: pushes_of_def)

text \<open>C27: An event makes a phone buzz at most once: in any sequence of sends, registrations, deletions and taps,
  with any of the statements failing and any answers of the provider, one event key is handed to the
  provider at most once, and not at all once its notification is recorded.\<close>

theorem event_is_pushed_at_most_once:
  "pushes_of k (fst (push_ops ops s)) \<le> 1 \<and> (k \<in> set (keys_of s) \<longrightarrow> pushes_of k (fst (push_ops ops s)) = 0)"
  using push_ops_once [of k ops s] by (auto split: if_splits)

text \<open>The other side of the claim: a send that failed for a reason that may pass is retried through the queue, but
  the retry finds its own claim and sends nothing.\<close>

lemma transient_failure_is_never_resent:
  assumes "SendToUser e n s = (s1, ms, i, Some ErrRetryable)" and "sd_claim_fails e' = None" and "sd_read_fails e' = None"
  shows "\<exists>j. SendToUser e' n s1 = (s1, [], j, None)"
proof -
  have "no_key n \<in> set (keys_of s1)" using SendToUser_effect [OF assms(1)] by auto
  then obtain r where "find (\<lambda>r. nt_key r = no_key n) (ps_notes s1) = Some r"
    by (cases "find (\<lambda>r. nt_key r = no_key n) (ps_notes s1)") (auto simp: find_None_iff keys_of_def)
  then show ?thesis using assms(2,3) by (simp add: SendToUser_def)
qed

definition one_phone :: push_state where
  "one_phone = \<lparr>ps_tokens = [\<lparr>tk_user = ''ann'',
     tk_device = \<lparr>dv_token = ''t'', dv_platform = ''ios'', dv_version = None, dv_build = None, dv_timezone = None, dv_locale = None\<rparr>,
     tk_seen = 0\<rparr>],
     ps_notes = []\<rparr>"

definition flaky :: send_env where
  "flaky = \<lparr>sd_id = ''n1'', sd_now = 5, sd_send = \<lambda>ts m. Inr (map (\<lambda>t. \<lparr>de_token = t, de_message = [], de_invalid = False, de_retryable = True\<rparr>) ts),
     sd_claim_fails = None, sd_read_fails = None, sd_tokens_fail = None, sd_delete_fails = False, sd_mark_fails = False\<rparr>"

definition reel_note :: notification where
  "reel_note = \<lparr>no_user = ''ann'', no_title = ''Your reel is ready'', no_body = ''Soup'', no_type = ''processing_completed'',
     no_target = ''reel'', no_target_id = ''s1'', no_key = ''job:j1'', no_data = []\<rparr>"

theorem event_is_pushed_at_most_once_witness:
  "pushes_of ''job:j1'' (fst (push_ops [OpSend flaky reel_note, OpSend flaky reel_note] one_phone)) = 1"
proof -
  have "0 < pushes_of ''job:j1'' (fst (push_ops [OpSend flaky reel_note, OpSend flaky reel_note] one_phone))"
    by (simp add: SendToUser_def deliver_def record_deliveries_def claim_row_def flaky_def reel_note_def one_phone_def tokensFor_def MaxTokensPerBatch_def pushes_of_def Let_def)
  with event_is_pushed_at_most_once [of "''job:j1''" "[OpSend flaky reel_note, OpSend flaky reel_note]" one_phone] show ?thesis
    by linarith
qed

end
