(* ===== verification/Scan.thy ===== *)
theory Scan
  imports Prelude
begin

text \<open>
  Scans of a table by id: pages in ascending order of the key, each starting above the last key of the page
  before.  The seeding of the reminder schedule and the daily price check read their tables this way.
\<close>

definition above :: "'k::linorder option \<Rightarrow> 'k \<Rightarrow> bool" where
  "above after k = (case after of None \<Rightarrow> True | Some a \<Rightarrow> a < k)"

definition key_page :: "('a \<Rightarrow> 'k::linorder) \<Rightarrow> ('a \<Rightarrow> bool) \<Rightarrow> 'k option \<Rightarrow> nat \<Rightarrow> 'a list \<Rightarrow> 'a list" where
  "key_page key P after limit rows = take limit (sort_key key (filter (\<lambda>r. P r \<and> above after (key r)) rows))"

lemma above_simps [simp]: "above None k" "above (Some a) k \<longleftrightarrow> a < k"
  by (simp_all add: above_def)

lemma above_trans: "above after a \<Longrightarrow> a < k \<Longrightarrow> above after k"
  by (auto simp: above_def split: option.splits)

lemma key_page_set: "r \<in> set (key_page key P after limit rows) \<Longrightarrow> r \<in> set rows \<and> P r \<and> above after (key r)"
  by (auto simp: key_page_def dest: in_set_takeD)

lemma last_in_page: "key_page key P after limit rows \<noteq> [] \<Longrightarrow>
   last (key_page key P after limit rows) \<in> set (key_page key P after limit rows)"
  by simp

lemma sorted_last: "sorted xs \<Longrightarrow> x \<in> set xs \<Longrightarrow> x \<le> last xs"
  by (induction xs) auto

lemma page_last: "r \<in> set (key_page key P after limit rows) \<Longrightarrow> key r \<le> key (last (key_page key P after limit rows))"
proof -
  assume r: "r \<in> set (key_page key P after limit rows)"
  then have ne: "key_page key P after limit rows \<noteq> []" by auto
  have "sorted (map key (key_page key P after limit rows))"
    unfolding key_page_def take_map [symmetric] by (intro sorted_wrt_take) simp
  from sorted_last [OF this, of "key r"] r ne show ?thesis by (simp add: last_map)
qed

text \<open>What a scan has left to read shrinks with every page that is not empty.\<close>

definition left_above :: "'k::linorder option \<Rightarrow> 'k list \<Rightarrow> nat" where
  "left_above after ks = length (filter (above after) ks)"

lemma left_above_page:
  assumes "key_page key P after limit rows \<noteq> []"
  shows "left_above (Some (key (last (key_page key P after limit rows)))) (map key rows)
         < left_above after (map key rows)"
proof -
  let ?l = "last (key_page key P after limit rows)"
  have l: "?l \<in> set rows" "above after (key ?l)"
    using key_page_set [OF last_in_page [OF assms]] by auto
  have "filter (above (Some (key ?l))) (map key rows)
        = filter (\<lambda>k. key ?l < k) (filter (above after) (map key rows))"
    using l(2) by (auto intro!: filter_cong dest: above_trans)
  moreover have "key ?l \<in> set (filter (above after) (map key rows))" using l by auto
  ultimately show ?thesis
    unfolding left_above_def by (metis (no_types, lifting) length_filter_less less_irrefl)
qed

lemma left_above_append: "left_above after (ks @ ls) = left_above after ks + left_above after ls"
  by (simp add: left_above_def)

text \<open>The next page starts where this one ended.\<close>

lemma rest_of_scan:
  fixes rows :: "'a list" and key :: "'a \<Rightarrow> 'k::linorder"
  assumes "distinct (map key rows)" and "key_page key P after limit rows \<noteq> []"
  shows "sort_key key (filter (\<lambda>r. P r \<and> above (Some (key (last (key_page key P after limit rows)))) (key r)) rows)
         = drop limit (sort_key key (filter (\<lambda>r. P r \<and> above after (key r)) rows))"
proof -
  let ?p = "key_page key P after limit rows" and ?in = "filter (\<lambda>r. P r \<and> above after (key r)) rows"
  let ?s = "sort_key key ?in" and ?l = "last ?p"
  have ps: "?p = take limit ?s" by (simp add: key_page_def)
  have "distinct (map key ?s)"
    using assms(1) by (simp add: distinct_map inj_on_def)
  then have strict: "sorted_wrt (\<lambda>x y. key x < key y) ?s"
    using sorted_sort_key [of key ?in] by (simp add: strict_sorted_iff flip: sorted_wrt_map)
  have spl: "?s = (butlast ?p @ [?l]) @ drop limit ?s"
    using append_butlast_last_id [OF assms(2)] by (simp add: ps)
  have w: "sorted_wrt (\<lambda>x y. key x < key y) ((butlast ?p @ [?l]) @ drop limit ?s)"
    using strict spl by metis
  have up: "key ?l < key y" if "y \<in> set (drop limit ?s)" for y
    using w that by (simp add: sorted_wrt_append)
  have lo: "\<not> key ?l < key x" if "x \<in> set (butlast ?p @ [?l])" for x
    using w that by (auto simp: sorted_wrt_append dest: order.asym)
  have "filter (\<lambda>r. key ?l < key r) ?s
        = filter (\<lambda>r. key ?l < key r) (butlast ?p @ [?l]) @ filter (\<lambda>r. key ?l < key r) (drop limit ?s)"
    using spl by (metis filter_append)
  moreover have "filter (\<lambda>r. key ?l < key r) (butlast ?p @ [?l]) = []"
    using lo by (simp add: filter_empty_conv)
  moreover have "filter (\<lambda>r. key ?l < key r) (drop limit ?s) = drop limit ?s"
    using up by (simp add: filter_id_conv)
  ultimately have f: "filter (\<lambda>r. key ?l < key r) ?s = drop limit ?s" by simp
  have "above after (key ?l)" using key_page_set [OF last_in_page [OF assms(2)]] by auto
  then have "filter (\<lambda>r. P r \<and> above (Some (key ?l)) (key r)) rows = filter (\<lambda>r. key ?l < key r) ?in"
    by (auto intro!: filter_cong dest: above_trans)
  then show ?thesis using f by (simp add: filter_sort)
qed

end
