(* ===== verification/Reminders.thy ===== *)
theory Reminders
  imports Notify Scan "HOL-Library.Product_Lexorder"
begin

text \<open>
  Reminders (\<open>internal/reminders\<close>, \<open>postgres/reminders.go\<close>): the rows of a user in PostgreSQL, the sorted set in
  Redis that says when each is due, the user's operations and the worker that fires what is due.  Every
  statement may fail on its own; \<open>time.Parse\<close> and \<open>uuid.Parse\<close> are arguments.  A score is a whole number of
  milliseconds, which a float64 holds exactly for the next 285,000 years.
\<close>

subsection \<open>The rows\<close>

datatype rem_status = RemPending | RemSent

record reminder =
  rm_id :: string
  rm_user :: string
  rm_save :: "string option"
  rm_title :: string
  rm_body :: string
  rm_fire :: time
  rm_status :: rem_status
  rm_created :: time
  rm_sent :: "time option"

datatype rem_err = RemNotFound | ErrUnknownSave | RemInvalid string string | RemOther string

definition MaxListed :: nat where "MaxListed = 200"

definition pending :: "reminder \<Rightarrow> bool" where
  "pending r = (rm_status r = RemPending)"

definition owns_save :: "string \<Rightarrow> string option \<Rightarrow> save_row list \<Rightarrow> bool" where
  "owns_save user save ss =
     (case save of None \<Rightarrow> True | Some i \<Rightarrow> list_ex (\<lambda>s. s_id s = i \<and> s_user s = user) ss)"

definition List_reminders :: "string \<Rightarrow> nat \<Rightarrow> reminder list \<Rightarrow> reminder list" where
  "List_reminders user limit rows =
     take limit (sort_key (\<lambda>r. (rm_fire r, rm_id r)) (filter (\<lambda>r. rm_user r = user) rows))"

text \<open>\<open>Create\<close>: the insert selects its row only when the save, if one is named, is the user's own.\<close>

definition Create_reminder ::
  "string option \<Rightarrow> save_row list \<Rightarrow> reminder \<Rightarrow> reminder list \<Rightarrow> rem_err + (reminder \<times> reminder list)" where
  "Create_reminder fault ss r rows =
     (case fault of Some m \<Rightarrow> Inl (RemOther m) | None \<Rightarrow>
        if \<not> owns_save (rm_user r) (rm_save r) ss then Inl ErrUnknownSave
        else if list_ex (\<lambda>x. rm_id x = rm_id r) rows then Inl (RemOther ''duplicate key'')
        else Inr (r, rows @ [r]))"

definition Delete_reminder :: "string option \<Rightarrow> string \<Rightarrow> string \<Rightarrow> reminder list \<Rightarrow> rem_err + reminder list" where
  "Delete_reminder fault user i rows =
     (case fault of Some m \<Rightarrow> Inl (RemOther m) | None \<Rightarrow>
        if list_ex (\<lambda>r. rm_id r = i \<and> rm_user r = user) rows
        then Inr (filter (\<lambda>r. \<not> (rm_id r = i \<and> rm_user r = user)) rows) else Inl RemNotFound)"

definition mark_sent :: "time \<Rightarrow> reminder \<Rightarrow> reminder" where
  "mark_sent now r = r\<lparr>rm_status := RemSent, rm_sent := Some now\<rparr>"

definition Claim :: "string option \<Rightarrow> string \<Rightarrow> time \<Rightarrow> reminder list \<Rightarrow> rem_err + (reminder \<times> reminder list)" where
  "Claim fault i now rows =
     (case fault of Some m \<Rightarrow> Inl (RemOther m) | None \<Rightarrow>
        (case find (\<lambda>r. rm_id r = i \<and> pending r) rows of
           None \<Rightarrow> Inl RemNotFound
         | Some r \<Rightarrow> Inr (mark_sent now r, update_where (\<lambda>r. rm_id r = i \<and> pending r) (mark_sent now) rows)))"

definition Pending :: "string option \<Rightarrow> nat \<Rightarrow> reminder list \<Rightarrow> reminder list" where
  "Pending after limit rows = key_page rm_id pending after limit rows"

subsection \<open>The sorted set\<close>

type_synonym due_set = "(string \<times> int) list"

definition unix_milli :: "time \<Rightarrow> int" where
  "unix_milli t = t div millisecond"

definition Remove :: "string \<Rightarrow> due_set \<Rightarrow> due_set" where
  "Remove i z = filter (\<lambda>e. fst e \<noteq> i) z"

definition Add :: "string \<Rightarrow> time \<Rightarrow> due_set \<Rightarrow> due_set" where
  "Add i t z = Remove i z @ [(i, unix_milli t)]"

definition Due :: "time \<Rightarrow> nat \<Rightarrow> due_set \<Rightarrow> string list" where
  "Due now limit z = map fst (take limit (sort_key (\<lambda>e. (snd e, fst e)) (filter (\<lambda>e. snd e \<le> unix_milli now) z)))"

definition Take :: "string \<Rightarrow> due_set \<Rightarrow> bool \<times> due_set" where
  "Take i z = (list_ex (\<lambda>e. fst e = i) z, Remove i z)"

text \<open>What the dispatcher relies on: an entry is what was last added under its id, taking it succeeds once, and
  what is due is everything whose score has come, up to the limit.\<close>

locale due_clock =
  fixes well :: "'z \<Rightarrow> bool"
    and score :: "'z \<Rightarrow> string \<Rightarrow> int option"
    and add :: "string \<Rightarrow> time \<Rightarrow> 'z \<Rightarrow> 'z"
    and grab :: "string \<Rightarrow> 'z \<Rightarrow> bool \<times> 'z"
    and due :: "time \<Rightarrow> nat \<Rightarrow> 'z \<Rightarrow> string list"
  assumes well_add: "well z \<Longrightarrow> well (add i t z)"
    and well_grab: "well z \<Longrightarrow> well (snd (grab i z))"
    and score_add: "well z \<Longrightarrow> score (add i t z) = (score z)(i \<mapsto> unix_milli t)"
    and score_grab: "well z \<Longrightarrow> score (snd (grab i z)) = (score z)(i := None)"
    and grab_ok: "well z \<Longrightarrow> fst (grab i z) \<longleftrightarrow> score z i \<noteq> None"
    and due_entry: "well z \<Longrightarrow> i \<in> set (due now limit z) \<Longrightarrow> \<exists>s. score z i = Some s \<and> s \<le> unix_milli now"
    and due_distinct: "well z \<Longrightarrow> distinct (due now limit z)"
    and due_length: "well z \<Longrightarrow> length (due now limit z) = min limit (card {i. \<exists>s. score z i = Some s \<and> s \<le> unix_milli now})"
    and due_finite: "well z \<Longrightarrow> finite {i. \<exists>s. score z i = Some s \<and> s \<le> unix_milli now}"
begin

definition ripe :: "time \<Rightarrow> 'z \<Rightarrow> string set" where
  "ripe now z = {i. \<exists>s. score z i = Some s \<and> s \<le> unix_milli now}"

lemma grab_once: "well z \<Longrightarrow> \<not> fst (grab i (snd (grab i z)))"
  by (simp add: grab_ok well_grab score_grab)

lemma due_ripe: "well z \<Longrightarrow> set (due now limit z) \<subseteq> ripe now z"
  using due_entry by (auto simp: ripe_def)

lemma due_all:
  assumes "well z" and "card (ripe now z) \<le> limit"
  shows "set (due now limit z) = ripe now z"
proof (rule card_subset_eq)
  show "finite (ripe now z)" using due_finite [OF assms(1)] by (simp add: ripe_def)
  show "set (due now limit z) \<subseteq> ripe now z" by (rule due_ripe [OF assms(1)])
  show "card (set (due now limit z)) = card (ripe now z)"
    using due_distinct [OF assms(1)] due_length [OF assms(1), of now limit] assms(2)
    by (simp add: distinct_card ripe_def)
qed

lemma ripe_grab: "well z \<Longrightarrow> ripe now (snd (grab i z)) = ripe now z - {i}"
  by (auto simp: ripe_def score_grab)

lemma well_seed: "well z \<Longrightarrow> well (fold (\<lambda>(i, t). add i t) es z)"
  by (induction es arbitrary: z) (auto simp: well_add)

lemma score_seed:
  "well z \<Longrightarrow> distinct (map fst es) \<Longrightarrow>
   score (fold (\<lambda>(i, t). add i t) es z) i = (case map_of es i of Some t \<Rightarrow> Some (unix_milli t) | None \<Rightarrow> score z i)"
  by (induction es arbitrary: z)
    (auto simp: well_add score_add fun_upd_def split: option.splits dest: map_of_SomeD intro: rev_image_eqI)

end

definition due_well :: "due_set \<Rightarrow> bool" where
  "due_well z = distinct (map fst z)"

lemma Remove_score: "map_of (Remove i z) = (map_of z)(i := None)"
  by (induction z) (auto simp: Remove_def)

lemma Remove_well: "due_well z \<Longrightarrow> due_well (Remove i z)"
  by (simp add: due_well_def Remove_def distinct_map_filter)

lemma Add_score: "map_of (Add i t z) = (map_of z)(i \<mapsto> unix_milli t)"
proof -
  have "map_of (Add i t z) = [i \<mapsto> unix_milli t] ++ (map_of z)(i := None)"
    by (simp add: Add_def Remove_score)
  then show ?thesis by (auto simp: map_add_def split: option.splits)
qed

lemma Add_well: "due_well z \<Longrightarrow> due_well (Add i t z)"
  using Remove_well [of z i] by (auto simp: due_well_def Add_def Remove_def)

lemma Due_sub: "i \<in> set (Due now limit z) \<Longrightarrow> \<exists>s. (i, s) \<in> set z \<and> s \<le> unix_milli now"
  by (auto simp: Due_def dest!: in_set_takeD)

lemma Due_distinct: "due_well z \<Longrightarrow> distinct (Due now limit z)"
proof -
  assume "due_well z"
  then have "inj_on fst (set z)" "distinct z" by (auto simp: due_well_def distinct_map)
  then have "distinct (map fst (sort_key (\<lambda>e. (snd e, fst e)) (filter (\<lambda>e. snd e \<le> unix_milli now) z)))"
    by (auto simp: distinct_map intro: inj_on_subset)
  then show ?thesis by (simp add: Due_def distinct_take flip: take_map)
qed

lemma ripe_image:
  "due_well z \<Longrightarrow> {i. \<exists>s. map_of z i = Some s \<and> s \<le> b} = fst ` set (filter (\<lambda>e. snd e \<le> b) z)"
  by (force simp: due_well_def)

interpretation redis: due_clock due_well map_of Add Take Due
proof
  fix z :: due_set and i now limit
  assume w: "due_well z"
  show "due_well (Add i t z)" for t using w by (rule Add_well)
  show "map_of (Add i t z) = (map_of z)(i \<mapsto> unix_milli t)" for t by (rule Add_score)
  show "due_well (snd (Take i z))" using w by (simp add: Take_def Remove_well)
  show "map_of (snd (Take i z)) = (map_of z)(i := None)" by (simp add: Take_def Remove_score)
  show "fst (Take i z) = (map_of z i \<noteq> None)" by (auto simp: Take_def list_ex_iff map_of_eq_None_iff)
  show "distinct (Due now limit z)" by (rule Due_distinct [OF w])
  show "i \<in> set (Due now limit z) \<Longrightarrow> \<exists>s. map_of z i = Some s \<and> s \<le> unix_milli now"
    using Due_sub w by (fastforce simp: due_well_def)
  show "finite {i. \<exists>s. map_of z i = Some s \<and> s \<le> unix_milli now}" by (simp add: ripe_image [OF w])
  have "distinct (map fst (filter (\<lambda>e. snd e \<le> unix_milli now) z))"
    using w by (simp add: due_well_def distinct_map_filter)
  then have "card {i. \<exists>s. map_of z i = Some s \<and> s \<le> unix_milli now} = length (filter (\<lambda>e. snd e \<le> unix_milli now) z)"
    unfolding ripe_image [OF w] by (metis distinct_card length_map list.set_map)
  then show "length (Due now limit z) = min limit (card {i. \<exists>s. map_of z i = Some s \<and> s \<le> unix_milli now})"
    by (simp add: Due_def min.commute)
qed

subsection \<open>The user's operations\<close>

record rem_state =
  rs_rows :: "reminder list"
  rs_due :: due_set

record rem_params =
  rp_title :: string
  rp_body :: string
  rp_fire :: string
  rp_reel :: "string option"

text \<open>What one request takes from outside: the parsers, the minted id, the clock, whether Redis is configured, and
  which statements fail.\<close>

record rem_env =
  re_parse_time :: "string \<Rightarrow> time option"
  re_parse_uuid :: "string \<Rightarrow> string option"
  re_id :: string
  re_now :: time
  re_redis :: bool
  re_create_fails :: "string option"
  re_add_fails :: "string option"
  re_undo_fails :: "string option"
  re_remove_fails :: bool

definition optionalSaveID :: "(string \<Rightarrow> string option) \<Rightarrow> string option \<Rightarrow> rem_err + string option" where
  "optionalSaveID parse reel =
     (case reel of None \<Rightarrow> Inr None
      | Some s \<Rightarrow> if trim_space s = [] then Inr None
                 else (case parse (trim_space s) of None \<Rightarrow> Inl (RemInvalid ''reel_id'' ''must be one of your saves'')
                       | Some i \<Rightarrow> Inr (Some i)))"

definition new_reminder :: "rem_env \<Rightarrow> string \<Rightarrow> rem_params \<Rightarrow> rem_err + reminder" where
  "new_reminder e user p =
     (if trim_space (rp_title p) = [] then Inl (RemInvalid ''title'' ''a reminder title is required'')
      else (case re_parse_time e (trim_space (rp_fire p)) of
              None \<Rightarrow> Inl (RemInvalid ''fire_at'' ''must be an RFC 3339 timestamp'')
            | Some t \<Rightarrow> bind_r (optionalSaveID (re_parse_uuid e) (rp_reel p)) (\<lambda>save.
                Inr \<lparr>rm_id = re_id e, rm_user = user, rm_save = save, rm_title = trim_space (rp_title p),
                     rm_body = trim_space (rp_body p), rm_fire = t, rm_status = RemPending,
                     rm_created = re_now e, rm_sent = None\<rparr>)))"

text \<open>\<open>Service.Create\<close>: the row first, then the schedule; a schedule that cannot take it takes the row away again,
  as far as that works.\<close>

definition Service_Create ::
  "rem_env \<Rightarrow> save_row list \<Rightarrow> string \<Rightarrow> rem_params \<Rightarrow> rem_state \<Rightarrow> (rem_err + reminder) \<times> rem_state" where
  "Service_Create e ss user p w =
     (case bind_r (new_reminder e user p) (\<lambda>r. Create_reminder (re_create_fails e) ss r (rs_rows w)) of
        Inl err \<Rightarrow> (Inl err, w)
      | Inr (r, rows) \<Rightarrow>
          if \<not> re_redis e then (Inr r, w\<lparr>rs_rows := rows\<rparr>)
          else (case re_add_fails e of
                  None \<Rightarrow> (Inr r, w\<lparr>rs_rows := rows, rs_due := Add (rm_id r) (rm_fire r) (rs_due w)\<rparr>)
                | Some m \<Rightarrow> (Inl (RemOther m),
                    w\<lparr>rs_rows := (case Delete_reminder (re_undo_fails e) user (rm_id r) rows of
                                    Inl _ \<Rightarrow> rows | Inr back \<Rightarrow> back)\<rparr>)))"

definition Service_Delete ::
  "rem_env \<Rightarrow> string \<Rightarrow> string \<Rightarrow> rem_state \<Rightarrow> rem_err option \<times> rem_state" where
  "Service_Delete e user i w =
     (case Delete_reminder (re_create_fails e) user i (rs_rows w) of
        Inl err \<Rightarrow> (Some err, w)
      | Inr rows \<Rightarrow> (None, w\<lparr>rs_rows := rows,
          rs_due := (if re_redis e \<and> \<not> re_remove_fails e then Remove i (rs_due w) else rs_due w)\<rparr>))"

text \<open>An undone creation leaves the table as it was.\<close>

lemma delete_new_row:
  assumes "Create_reminder f ss r rows = Inr (r', rows')"
  shows "Delete_reminder None (rm_user r) (rm_id r) rows' = Inr rows"
  using assms by (auto simp: Create_reminder_def Delete_reminder_def list_ex_iff filter_id_conv
      split: option.splits if_splits)

lemma failed_create_leaves_nothing:
  assumes "Service_Create e ss user p w = (Inl err, w')" and "re_undo_fails e = None"
  shows "w' = w"
proof (cases "bind_r (new_reminder e user p) (\<lambda>r. Create_reminder (re_create_fails e) ss r (rs_rows w))")
  case (Inl a)
  then show ?thesis using assms by (simp add: Service_Create_def)
next
  case (Inr p2)
  obtain r rows where p2: "p2 = (r, rows)" by (cases p2)
  from Inr p2 obtain r0 where r0: "new_reminder e user p = Inr r0" "Create_reminder (re_create_fails e) ss r0 (rs_rows w) = Inr (r, rows)"
    by (auto simp: bind_r_Inr_iff)
  have "rm_user r0 = user" using r0(1)
    by (auto simp: new_reminder_def bind_r_Inr_iff split: if_splits option.splits)
  moreover have "r = r0" using r0(2) by (auto simp: Create_reminder_def split: option.splits if_splits)
  ultimately have "Delete_reminder None user (rm_id r) rows = Inr (rs_rows w)" using delete_new_row [OF r0(2)] by simp
  then show ?thesis using assms Inr p2 by (auto simp: Service_Create_def split: if_splits option.splits)
qed

subsection \<open>The worker\<close>

definition FireBatch :: nat where "FireBatch = 100"
definition rehydratePage :: nat where "rehydratePage = 1000"

definition reminder_note :: "reminder \<Rightarrow> notification" where
  "reminder_note r =
     (let reel = (case rm_save r of None \<Rightarrow> [] | Some s \<Rightarrow> s)
      in \<lparr>no_user = rm_user r, no_title = rm_title r, no_body = rm_body r, no_type = ''reminder'',
          no_target = (if reel = [] then ''reminder'' else ''reel''),
          no_target_id = (if reel = [] then rm_id r else reel),
          no_key = ''reminder:'' @ rm_id r,
          no_data = [(''reminder_id'', rm_id r), (''reel_id'', reel)]\<rparr>)"

text \<open>\<open>Rehydrate\<close>: every pending row back into the schedule, a page at a time.  \<open>read\<close> and \<open>put\<close> tell which
  statement fails; the count is what was added before.\<close>

fun seed_page :: "(string \<Rightarrow> string option) \<Rightarrow> reminder list \<Rightarrow> due_set \<Rightarrow> nat \<times> due_set \<times> string option" where
  "seed_page put [] z = (0, z, None)"
| "seed_page put (r # rs) z =
     (case put (rm_id r) of Some m \<Rightarrow> (0, z, Some m)
      | None \<Rightarrow> (case seed_page put rs (Add (rm_id r) (rm_fire r) z) of (n, z', e) \<Rightarrow> (Suc n, z', e)))"

function Rehydrate ::
  "(string option \<Rightarrow> string option) \<Rightarrow> (string \<Rightarrow> string option) \<Rightarrow> reminder list \<Rightarrow> string option \<Rightarrow> due_set
   \<Rightarrow> nat \<times> due_set \<times> string option" where
  "Rehydrate read put rows after z =
     (case read after of Some m \<Rightarrow> (0, z, Some m)
      | None \<Rightarrow>
        (case seed_page put (Pending after rehydratePage rows) z of
           (n, z', Some m) \<Rightarrow> (n, z', Some m)
         | (n, z', None) \<Rightarrow>
             if length (Pending after rehydratePage rows) < rehydratePage then (n, z', None)
             else (case Rehydrate read put rows (Some (rm_id (last (Pending after rehydratePage rows)))) z' of
                     (n2, z2, e) \<Rightarrow> (n + n2, z2, e))))"
  by pat_completeness auto
termination
proof (relation "measure (\<lambda>(read, put, rows, after, z). left_above after (map rm_id rows))", simp)
  fix read put rows after z
  assume "\<not> length (Pending after rehydratePage rows) < rehydratePage"
  then have "key_page rm_id pending after rehydratePage rows \<noteq> []"
    by (auto simp: Pending_def rehydratePage_def)
  from left_above_page [OF this] show "((read, put, rows, Some (rm_id (last (Pending after rehydratePage rows))), z'), read, put, rows, after, z)
        \<in> measure (\<lambda>(read, put, rows, after, z). left_above after (map rm_id rows))" for z'
    by (simp add: Pending_def)
qed

declare Rehydrate.simps [simp del]

record fire_env =
  fe_uuid :: "string \<Rightarrow> bool"
  fe_due_fails :: "string option"
  fe_take_fails :: "string \<Rightarrow> bool"
  fe_claim_fails :: "string \<Rightarrow> string option"
  fe_again_fails :: "string \<Rightarrow> bool"
  fe_send :: "string \<Rightarrow> send_env"

text \<open>One entry of a tick; the number is 1 when a push was sent or had nowhere to go.\<close>

definition fire_claimed :: "fire_env \<Rightarrow> time \<Rightarrow> string \<Rightarrow> rem_state \<times> push_state \<Rightarrow> nat \<times> rem_state \<times> push_state" where
  "fire_claimed e now i s =
     (case s of (w, ps) \<Rightarrow>
       (case Claim (fe_claim_fails e i) i now (rs_rows w) of
          Inl RemNotFound \<Rightarrow> (0, w, ps)
        | Inl _ \<Rightarrow> (0, (if fe_again_fails e i then w else w\<lparr>rs_due := Add i now (rs_due w)\<rparr>), ps)
        | Inr (r, rows) \<Rightarrow>
            (case SendToUser (fe_send e i) (reminder_note r) ps of
               (ps', _, _, err) \<Rightarrow> (if err = None \<or> err = Some ErrNoDeviceTokens then 1 else 0, w\<lparr>rs_rows := rows\<rparr>, ps'))))"

definition fire_one :: "fire_env \<Rightarrow> time \<Rightarrow> string \<Rightarrow> rem_state \<times> push_state \<Rightarrow> nat \<times> rem_state \<times> push_state" where
  "fire_one e now i s =
     (case s of (w, ps) \<Rightarrow>
        if fe_take_fails e i then (0, w, ps)
        else (case Take i (rs_due w) of (taken, z) \<Rightarrow>
                if \<not> taken then (0, w, ps)
                else if \<not> fe_uuid e i then (0, w\<lparr>rs_due := z\<rparr>, ps)
                else fire_claimed e now i (w\<lparr>rs_due := z\<rparr>, ps)))"

fun fire_all :: "fire_env \<Rightarrow> time \<Rightarrow> string list \<Rightarrow> rem_state \<times> push_state \<Rightarrow> nat \<times> rem_state \<times> push_state" where
  "fire_all e now [] s = (0, s)"
| "fire_all e now (i # is) s =
     (case fire_one e now i s of (n, s1) \<Rightarrow> (case fire_all e now is s1 of (m, s2) \<Rightarrow> (n + m, s2)))"

definition Fire :: "fire_env \<Rightarrow> time \<Rightarrow> rem_state \<times> push_state \<Rightarrow> (string + nat) \<times> rem_state \<times> push_state" where
  "Fire e now s =
     (case fe_due_fails e of Some m \<Rightarrow> (Inl m, s)
      | None \<Rightarrow> (case fire_all e now (Due now FireBatch (rs_due (fst s))) s of (n, s') \<Rightarrow> (Inr n, s')))"

subsection \<open>A restart covers every pending reminder\<close>

definition seeds :: "reminder list \<Rightarrow> (string \<times> time) list" where
  "seeds rs = map (\<lambda>r. (rm_id r, rm_fire r)) rs"

abbreviation add_all :: "(string \<times> time) list \<Rightarrow> due_set \<Rightarrow> due_set" where
  "add_all es z \<equiv> fold (\<lambda>(i, t). Add i t) es z"

lemma seeds_simps [simp]: "seeds [] = []" "seeds (r # rs) = (rm_id r, rm_fire r) # seeds rs"
  "seeds (rs @ rs') = seeds rs @ seeds rs'"
  by (simp_all add: seeds_def)

lemma seed_page_calm: "seed_page (\<lambda>_. None) rs z = (length rs, add_all (seeds rs) z, None)"
  by (induction rs arbitrary: z) auto

lemma Rehydrate_calm:
  assumes "distinct (map rm_id rows)"
  shows "Rehydrate (\<lambda>_. None) (\<lambda>_. None) rows after z =
    (let rs = sort_key rm_id (filter (\<lambda>r. pending r \<and> above after (rm_id r)) rows)
     in (length rs, add_all (seeds rs) z, None))"
proof (induction "left_above after (map rm_id rows)" arbitrary: after z rule: less_induct)
  case less
  let ?rs = "\<lambda>a. sort_key rm_id (filter (\<lambda>r. pending r \<and> above a (rm_id r)) rows)"
  let ?p = "Pending after rehydratePage rows"
  have p: "?p = take rehydratePage (?rs after)" by (simp add: Pending_def key_page_def)
  show ?case
  proof (cases "length ?p < rehydratePage")
    case True
    then have "?p = ?rs after" using p by simp
    then show ?thesis using True
      by (subst Rehydrate.simps) (simp add: seed_page_calm Let_def)
  next
    case False
    then have ne: "key_page rm_id pending after rehydratePage rows \<noteq> []"
      by (auto simp: Pending_def rehydratePage_def)
    let ?a = "Some (rm_id (last ?p))"
    have less_a: "left_above ?a (map rm_id rows) < left_above after (map rm_id rows)"
      using left_above_page [OF ne] by (simp add: Pending_def)
    have rest: "?rs ?a = drop rehydratePage (?rs after)"
      using rest_of_scan [OF assms ne] by (simp add: Pending_def)
    have app: "?p @ ?rs ?a = ?rs after" by (subst rest, subst p) simp
    have "length ?p + length (?rs ?a) = length (?rs after)" using arg_cong [OF app, of length] by simp
    moreover have "add_all (seeds (?rs ?a)) (add_all (seeds ?p) z) = add_all (seeds (?rs after)) z"
      using arg_cong [OF app, of "\<lambda>l. add_all (seeds l) z"] by simp
    ultimately show ?thesis using False less.hyps [OF less_a]
      by (subst Rehydrate.simps) (simp add: seed_page_calm Let_def)
  qed
qed

definition scheduled :: "time \<Rightarrow> rem_state \<Rightarrow> bool" where
  "scheduled now w = (\<forall>r \<in> set (rs_rows w). pending r \<and> rm_fire r \<le> now \<longrightarrow>
     (\<exists>s. map_of (rs_due w) (rm_id r) = Some s \<and> s \<le> unix_milli now))"

lemma unix_milli_mono: "t \<le> u \<Longrightarrow> unix_milli t \<le> unix_milli u"
  by (simp add: unix_milli_def zdiv_mono1)

lemma Rehydrate_covers:
  assumes "distinct (map rm_id rows)" and "due_well z"
    and "Rehydrate (\<lambda>_. None) (\<lambda>_. None) rows None z = (n, z', e)"
  shows "due_well z'" and "e = None" and "n = length (filter pending rows)"
    and "\<And>i. map_of z' i = (case find (\<lambda>r. rm_id r = i) (filter pending rows) of
           Some r \<Rightarrow> Some (unix_milli (rm_fire r)) | None \<Rightarrow> map_of z i)"
proof -
  let ?rs = "sort_key rm_id (filter pending rows)"
  have r: "n = length ?rs" "z' = add_all (seeds ?rs) z" "e = None"
    using assms(3) by (simp_all add: Rehydrate_calm [OF assms(1)] Let_def)
  have d: "distinct (map rm_id ?rs)" using assms(1) by (simp add: distinct_map inj_on_def)
  then have ds: "distinct (map fst (seeds ?rs))" by (simp add: seeds_def comp_def)
  show "due_well z'" using r redis.well_seed [OF assms(2)] by simp
  show "e = None" "n = length (filter pending rows)" using r by simp_all
  fix i
  have "map_of (seeds ?rs) i = map_option rm_fire (find (\<lambda>r. rm_id r = i) (filter pending rows))"
  proof (cases "find (\<lambda>r. rm_id r = i) (filter pending rows)")
    case None
    then have "i \<notin> fst ` set (seeds ?rs)" by (auto simp: find_None_iff seeds_def)
    then show ?thesis using None by (simp add: map_of_eq_None_iff)
  next
    case (Some r0)
    then have "(i, rm_fire r0) \<in> set (seeds ?rs)" using find_Some_in [OF Some] by (auto simp: seeds_def image_iff)
    then show ?thesis using Some ds by simp
  qed
  then show "map_of z' i = (case find (\<lambda>r. rm_id r = i) (filter pending rows) of
           Some r \<Rightarrow> Some (unix_milli (rm_fire r)) | None \<Rightarrow> map_of z i)"
    using redis.score_seed [OF assms(2) ds, of i] r by (simp split: option.splits)
qed

lemma Rehydrate_scheduled:
  assumes "distinct (map rm_id (rs_rows w))" and "due_well z"
    and "Rehydrate (\<lambda>_. None) (\<lambda>_. None) (rs_rows w) None z = (n, z', e)"
  shows "scheduled now (w\<lparr>rs_due := z'\<rparr>)"
  unfolding scheduled_def
proof (intro ballI impI)
  fix r assume r: "r \<in> set (rs_rows (w\<lparr>rs_due := z'\<rparr>))" "pending r \<and> rm_fire r \<le> now"
  have "distinct (map rm_id (filter pending (rs_rows w)))" using assms(1) by (rule distinct_map_filter)
  then have "find (\<lambda>x. rm_id x = rm_id r) (filter pending (rs_rows w)) = Some r"
    using find_key_distinct [of rm_id "filter pending (rs_rows w)" r] r by simp
  then have "map_of z' (rm_id r) = Some (unix_milli (rm_fire r))" using Rehydrate_covers(4) [OF assms] by simp
  then show "\<exists>s. map_of (rs_due (w\<lparr>rs_due := z'\<rparr>)) (rm_id r) = Some s \<and> s \<le> unix_milli now"
    using r unix_milli_mono by auto
qed

subsection \<open>Ticks drain what is due\<close>

definition calm :: "fire_env \<Rightarrow> bool" where
  "calm e = (fe_due_fails e = None \<and> (\<forall>i. \<not> fe_take_fails e i \<and> fe_claim_fails e i = None
     \<and> sd_claim_fails (fe_send e i) = None))"

definition known_ids :: "fire_env \<Rightarrow> reminder list \<Rightarrow> bool" where
  "known_ids e rows = list_all (\<lambda>i. fe_uuid e i) (map rm_id rows)"

abbreviation told :: "string \<Rightarrow> push_state \<Rightarrow> bool" where
  "told i ps \<equiv> ''reminder:'' @ i \<in> set (keys_of ps)"

lemma mark_sent_simps [simp]: "rm_id (mark_sent now r) = rm_id r" "rm_user (mark_sent now r) = rm_user r"
  "rm_fire (mark_sent now r) = rm_fire r" "\<not> pending (mark_sent now r)"
  by (simp_all add: mark_sent_def pending_def)

lemma reminder_note_key [simp]: "no_key (reminder_note r) = ''reminder:'' @ rm_id r"
  by (simp add: reminder_note_def Let_def)

lemma SendToUser_keys:
  assumes "SendToUser e n s = (s1, ms, i, err)"
  shows "set (keys_of s) \<subseteq> set (keys_of s1)" and "sd_claim_fails e = None \<Longrightarrow> no_key n \<in> set (keys_of s1)"
proof -
  show "set (keys_of s) \<subseteq> set (keys_of s1)" using SendToUser_effect [OF assms] by auto
  assume c: "sd_claim_fails e = None"
  show "no_key n \<in> set (keys_of s1)"
  proof (cases "find (\<lambda>r. nt_key r = no_key n) (ps_notes s)")
    case None
    then have "\<exists>t err'. deliver e n (s\<lparr>ps_notes := ps_notes s @ [claim_row e n]\<rparr>) = (s1, t, err')"
      using assms c by (auto simp: SendToUser_def split: prod.splits)
    then show ?thesis using deliver_effect(1) by (fastforce simp: claim_row_def)
  next
    case (Some r)
    then have "no_key n \<in> set (keys_of s)" using find_Some_in [OF Some] by (force simp: keys_of_def)
    with \<open>set (keys_of s) \<subseteq> set (keys_of s1)\<close> show ?thesis by auto
  qed
qed

lemma fire_one_effect:
  assumes "calm e" and "known_ids e (rs_rows w)" and "map_of (rs_due w) i \<noteq> None"
    and "fire_one e now i (w, ps) = (n, w', ps')"
  shows "rs_due w' = Remove i (rs_due w)"
    and "rs_rows w' = update_where (\<lambda>r. rm_id r = i \<and> pending r) (mark_sent now) (rs_rows w)"
    and "set (keys_of ps) \<subseteq> set (keys_of ps')"
    and "r \<in> set (rs_rows w) \<Longrightarrow> pending r \<Longrightarrow> rm_id r = i \<Longrightarrow> told i ps'"
proof -
  let ?w = "w\<lparr>rs_due := Remove i (rs_due w)\<rparr>"
  have taken: "Take i (rs_due w) = (True, Remove i (rs_due w))"
    using assms(3) by (auto simp: Take_def list_ex_iff map_of_eq_None_iff)
  have c: "\<not> fe_take_fails e i" "fe_claim_fails e i = None" "sd_claim_fails (fe_send e i) = None"
    using assms(1) by (simp_all add: calm_def)
  have goal: "rs_due w' = Remove i (rs_due w)
     \<and> rs_rows w' = update_where (\<lambda>r. rm_id r = i \<and> pending r) (mark_sent now) (rs_rows w)
     \<and> set (keys_of ps) \<subseteq> set (keys_of ps')
     \<and> (r \<in> set (rs_rows w) \<and> pending r \<and> rm_id r = i \<longrightarrow> told i ps')"
  proof (cases "find (\<lambda>r. rm_id r = i \<and> pending r) (rs_rows w)")
    case None
    then have no: "\<forall>r \<in> set (rs_rows w). \<not> (rm_id r = i \<and> pending r)" by (simp add: find_None_iff)
    have "Claim None i now (rs_rows w) = Inl RemNotFound" using None by (simp add: Claim_def)
    then have "w' = ?w \<and> ps' = ps" using assms(4) taken c
      by (auto simp: fire_one_def fire_claimed_def split: prod.splits if_splits)
    then show ?thesis using no by (auto simp: update_where_none)
  next
    case (Some r0)
    then have r0: "r0 \<in> set (rs_rows w)" "rm_id r0 = i" using find_Some_in [OF Some] by auto
    then have u: "fe_uuid e i" using assms(2) by (auto simp: known_ids_def list_all_iff)
    obtain s1 ms j err where st: "SendToUser (fe_send e i) (reminder_note (mark_sent now r0)) ps = (s1, ms, j, err)"
      by (metis prod.collapse)
    have "fire_one e now i (w, ps) = fire_claimed e now i (?w, ps)"
      using taken c u by (simp add: fire_one_def split: prod.splits)
    then have "w' = ?w\<lparr>rs_rows := update_where (\<lambda>r. rm_id r = i \<and> pending r) (mark_sent now) (rs_rows w)\<rparr> \<and> ps' = s1"
      using assms(4) Some c st by (simp add: fire_claimed_def Claim_def)
    moreover have "told i s1" using SendToUser_keys(2) [OF st c(3)] r0 by simp
    ultimately show ?thesis using SendToUser_keys(1) [OF st] by auto
  qed
  then show "rs_due w' = Remove i (rs_due w)"
    "rs_rows w' = update_where (\<lambda>r. rm_id r = i \<and> pending r) (mark_sent now) (rs_rows w)"
    "set (keys_of ps) \<subseteq> set (keys_of ps')"
    "r \<in> set (rs_rows w) \<Longrightarrow> pending r \<Longrightarrow> rm_id r = i \<Longrightarrow> told i ps'" by auto
qed

lemma known_ids_update [simp]: "known_ids e (update_where P (mark_sent now) rows) = known_ids e rows"
  by (simp add: known_ids_def)

lemma update_sent_twice:
  "update_where (\<lambda>r. rm_id r \<in> J \<and> pending r) (mark_sent now)
     (update_where (\<lambda>r. rm_id r = i \<and> pending r) (mark_sent now) rows)
   = update_where (\<lambda>r. rm_id r \<in> insert i J \<and> pending r) (mark_sent now) rows"
  by (induction rows) auto

lemma fire_all_effect:
  assumes "calm e" and "known_ids e (rs_rows w)" and "distinct is" and "\<forall>i \<in> set is. map_of (rs_due w) i \<noteq> None"
    and "due_well (rs_due w)" and "fire_all e now is (w, ps) = (n, w', ps')"
  shows "due_well (rs_due w')
    \<and> map_of (rs_due w') = (\<lambda>i. if i \<in> set is then None else map_of (rs_due w) i)
    \<and> rs_rows w' = update_where (\<lambda>r. rm_id r \<in> set is \<and> pending r) (mark_sent now) (rs_rows w)
    \<and> set (keys_of ps) \<subseteq> set (keys_of ps')
    \<and> (\<forall>r \<in> set (rs_rows w). pending r \<and> rm_id r \<in> set is \<longrightarrow> told (rm_id r) ps')"
  using assms(2-6)
proof (induction "is" arbitrary: w ps n w' ps')
  case Nil
  then show ?case by (simp add: update_where_none)
next
  case (Cons i "is")
  obtain n1 w1 ps1 where one: "fire_one e now i (w, ps) = (n1, w1, ps1)" by (metis prod.collapse)
  obtain n2 w2 ps2 where all: "fire_all e now is (w1, ps1) = (n2, w2, ps2)" by (metis prod.collapse)
  have w2: "w' = w2" "ps' = ps2" using Cons.prems(5) one all by simp_all
  have i: "map_of (rs_due w) i \<noteq> None" using Cons.prems(3) by simp
  note e1 = fire_one_effect [OF assms(1) Cons.prems(1) i one]
  have k1: "known_ids e (rs_rows w1)" using Cons.prems(1) e1(2) by simp
  have d1: "\<forall>j \<in> set is. map_of (rs_due w1) j \<noteq> None"
    using Cons.prems(2,3) e1(1) by (auto simp: Remove_score)
  have z1: "due_well (rs_due w1)" using Cons.prems(4) e1(1) Remove_well by simp
  have ih: "due_well (rs_due w2)
    \<and> map_of (rs_due w2) = (\<lambda>i. if i \<in> set is then None else map_of (rs_due w1) i)
    \<and> rs_rows w2 = update_where (\<lambda>r. rm_id r \<in> set is \<and> pending r) (mark_sent now) (rs_rows w1)
    \<and> set (keys_of ps1) \<subseteq> set (keys_of ps2)
    \<and> (\<forall>r \<in> set (rs_rows w1). pending r \<and> rm_id r \<in> set is \<longrightarrow> told (rm_id r) ps2)"
    using Cons.IH [OF k1 _ d1 z1 all] Cons.prems(2) by simp
  have "told (rm_id r) ps2" if r: "r \<in> set (rs_rows w)" "pending r" "rm_id r \<in> set (i # is)" for r
  proof (cases "rm_id r = i")
    case True
    then show ?thesis using e1(4) [OF r(1,2)] ih by auto
  next
    case False
    then have "r \<in> set (rs_rows w1)" using r(1) e1(2) by (auto simp: set_update_where image_iff)
    then show ?thesis using ih r False by auto
  qed
  then show ?case using ih e1(1-3) w2 by (auto simp: update_sent_twice Remove_score fun_eq_iff)
qed

fun ticks :: "fire_env \<Rightarrow> time list \<Rightarrow> rem_state \<times> push_state \<Rightarrow> rem_state \<times> push_state" where
  "ticks e [] s = s"
| "ticks e (now # nows) s = ticks e nows (snd (Fire e now s))"

definition fit :: "fire_env \<Rightarrow> rem_state \<Rightarrow> bool" where
  "fit e w = (known_ids e (rs_rows w) \<and> due_well (rs_due w))"

lemma Fire_effect:
  assumes "calm e" and "fit e w" and "snd (Fire e now (w, ps)) = (w', ps')"
  shows "fit e w'"
    and "map_of (rs_due w') = (\<lambda>i. if i \<in> set (Due now FireBatch (rs_due w)) then None else map_of (rs_due w) i)"
    and "rs_rows w' = update_where (\<lambda>r. rm_id r \<in> set (Due now FireBatch (rs_due w)) \<and> pending r) (mark_sent now) (rs_rows w)"
    and "set (keys_of ps) \<subseteq> set (keys_of ps')"
    and "\<And>r. r \<in> set (rs_rows w) \<Longrightarrow> pending r \<Longrightarrow> rm_id r \<in> set (Due now FireBatch (rs_due w)) \<Longrightarrow> told (rm_id r) ps'"
proof -
  let ?D = "Due now FireBatch (rs_due w)"
  have z: "due_well (rs_due w)" and k: "known_ids e (rs_rows w)" using assms(2) by (simp_all add: fit_def)
  obtain n where all: "fire_all e now ?D (w, ps) = (n, w', ps')"
    using assms(1,3) by (auto simp: Fire_def calm_def split: prod.splits)
  have d: "distinct ?D" "\<forall>i \<in> set ?D. map_of (rs_due w) i \<noteq> None"
    using redis.due_distinct [OF z] redis.due_entry [OF z] by fastforce+
  note eff = fire_all_effect [OF assms(1) k d z all]
  show "fit e w'" "map_of (rs_due w') = (\<lambda>i. if i \<in> set ?D then None else map_of (rs_due w) i)"
    "rs_rows w' = update_where (\<lambda>r. rm_id r \<in> set ?D \<and> pending r) (mark_sent now) (rs_rows w)"
    "set (keys_of ps) \<subseteq> set (keys_of ps')" using eff k by (simp_all add: fit_def)
  show "\<And>r. r \<in> set (rs_rows w) \<Longrightarrow> pending r \<Longrightarrow> rm_id r \<in> set ?D \<Longrightarrow> told (rm_id r) ps'" using eff by blast
qed

lemma ticks_keep:
  assumes "calm e" and "fit e w" and "ticks e nows (w, ps) = (w', ps')"
  shows "(\<forall>r \<in> set (rs_rows w). \<not> pending r \<longrightarrow> r \<in> set (rs_rows w')) \<and> set (keys_of ps) \<subseteq> set (keys_of ps')"
  using assms(2,3)
proof (induction nows arbitrary: w ps)
  case (Cons now nows)
  obtain w1 ps1 where f: "snd (Fire e now (w, ps)) = (w1, ps1)" by (metis prod.collapse)
  note eff = Fire_effect [OF assms(1) Cons.prems(1) f]
  have "ticks e nows (w1, ps1) = (w', ps')" using Cons.prems(2) f by simp
  from Cons.IH [OF eff(1) this] show ?case
    using eff(3,4) by (auto simp: set_update_where image_iff)
qed simp

lemma Due_misses:
  assumes "due_well z" and "i \<in> redis.ripe now z" and "i \<notin> set (Due now limit z)"
  shows "length (Due now limit z) = limit"
proof (rule ccontr)
  assume "length (Due now limit z) \<noteq> limit"
  then have "card (redis.ripe now z) \<le> limit"
    using redis.due_length [OF assms(1), of now limit] by (simp add: redis.ripe_def)
  from redis.due_all [OF assms(1) this] show False using assms(2,3) by simp
qed

lemma ticks_fire:
  assumes "calm e" and "fit e w" and "scheduled t w" and "ticks e nows (w, ps) = (w', ps')"
    and "\<forall>now \<in> set nows. t \<le> now \<and> now \<le> T" and "t \<le> T"
    and "card (redis.ripe T (rs_due w)) \<le> length nows * FireBatch"
    and "r \<in> set (rs_rows w)" and "pending r" and "rm_fire r \<le> t"
  shows "(\<exists>now \<in> set nows. mark_sent now r \<in> set (rs_rows w')) \<and> told (rm_id r) ps'"
  using assms(2-5,7-9)
proof (induction nows arbitrary: w ps)
  case Nil
  have "finite (redis.ripe T (rs_due w))" using Nil.prems(1) redis.due_finite by (simp add: fit_def redis.ripe_def)
  then have "redis.ripe T (rs_due w) = {}" using Nil.prems(5) by simp
  moreover have "rm_id r \<in> redis.ripe T (rs_due w)"
    using Nil.prems(2,6,7) assms(6,10) unix_milli_mono [OF assms(6)] by (fastforce simp: scheduled_def redis.ripe_def)
  ultimately show ?case by simp
next
  case (Cons now nows)
  let ?D = "Due now FireBatch (rs_due w)"
  obtain w1 ps1 where f: "snd (Fire e now (w, ps)) = (w1, ps1)" by (metis prod.collapse)
  note eff = Fire_effect [OF assms(1) Cons.prems(1) f]
  have rest: "ticks e nows (w1, ps1) = (w', ps')" using Cons.prems(3) f by simp
  have now: "t \<le> now" "now \<le> T" using Cons.prems(4) by auto
  have z: "due_well (rs_due w)" using Cons.prems(1) by (simp add: fit_def)
  show ?case
  proof (cases "rm_id r \<in> set ?D")
    case True
    then have "mark_sent now r \<in> set (rs_rows w1)" "told (rm_id r) ps1"
      using eff(3) eff(5) [OF Cons.prems(6,7) True] Cons.prems(6,7) by (auto simp: set_update_where image_iff)
    then show ?thesis using ticks_keep [OF assms(1) eff(1) rest] by auto
  next
    case False
    have in1: "r \<in> set (rs_rows w1)" using eff(3) Cons.prems(6) False by (auto simp: set_update_where image_iff)
    have s1: "scheduled t w1"
      using Cons.prems(2) eff(2,3) by (auto simp: scheduled_def set_update_where)
    have "rm_id r \<in> redis.ripe now (rs_due w)"
      using Cons.prems(2,6,7) assms(10) unix_milli_mono [OF now(1)] by (fastforce simp: scheduled_def redis.ripe_def)
    then have l: "length ?D = FireBatch" using Due_misses [OF z _ False] by simp
    have "set ?D \<subseteq> redis.ripe T (rs_due w)"
      using redis.due_ripe [OF z] unix_milli_mono [OF now(2)] by (fastforce simp: redis.ripe_def)
    moreover have "redis.ripe T (rs_due w1) = redis.ripe T (rs_due w) - set ?D"
      using eff(2) by (auto simp: redis.ripe_def split: if_splits)
    ultimately have "card (redis.ripe T (rs_due w1)) = card (redis.ripe T (rs_due w)) - FireBatch"
      using l distinct_card [OF redis.due_distinct [OF z, of now FireBatch]] by (simp add: card_Diff_subset)
    then have "card (redis.ripe T (rs_due w1)) \<le> length nows * FireBatch" using Cons.prems(5) by simp
    from Cons.IH [OF eff(1) s1 rest _ this in1 Cons.prems(7)] Cons.prems(4) show ?thesis by auto
  qed
qed

text \<open>C29: A restarted worker loses no reminder.  Whatever Redis still holds, even nothing, the seeding puts every
  pending row back and counts them; with no statement failing, as many ticks as the backlog needs at a hundred
  entries each mark every reminder that was due as sent at one of the ticks and record its notification.\<close>

theorem restart_fires_every_due_reminder:
  assumes "calm e" and "distinct (map rm_id (rs_rows w))" and "known_ids e (rs_rows w)" and "due_well (rs_due w)"
    and "Rehydrate (\<lambda>_. None) (\<lambda>_. None) (rs_rows w) None (rs_due w) = (n, z, err)"
    and "\<forall>now \<in> set nows. t \<le> now \<and> now \<le> T" and "t \<le> T"
    and "length (filter (\<lambda>x. snd x \<le> unix_milli T) z) \<le> length nows * FireBatch"
    and "ticks e nows (w\<lparr>rs_due := z\<rparr>, ps) = (w', ps')"
    and "r \<in> set (rs_rows w)" and "pending r" and "rm_fire r \<le> t"
  shows "err = None \<and> n = length (filter pending (rs_rows w))
    \<and> (\<exists>now \<in> set nows. mark_sent now r \<in> set (rs_rows w')) \<and> told (rm_id r) ps'"
proof -
  note cov = Rehydrate_covers [OF assms(2,4,5)]
  have "fit e (w\<lparr>rs_due := z\<rparr>)" using assms(3) cov(1) by (simp add: fit_def)
  moreover have "card (redis.ripe T (rs_due (w\<lparr>rs_due := z\<rparr>))) \<le> length nows * FireBatch"
    using assms(8) card_length [of "map fst (filter (\<lambda>x. snd x \<le> unix_milli T) z)"]
    by (simp add: redis.ripe_def ripe_image [OF cov(1)])
  moreover have "r \<in> set (rs_rows (w\<lparr>rs_due := z\<rparr>))" using assms(10) by simp
  ultimately show ?thesis
    using ticks_fire [OF assms(1) _ Rehydrate_scheduled [OF assms(2,4,5)] assms(9,6,7)] cov(2,3) assms(11,12) by blast
qed

subsection \<open>Any number of workers\<close>

text \<open>The operations of every process, interleaved statement by statement.  \<open>cf_made\<close> is every reminder ever created,
  \<open>cf_read\<close> what workers read as due in a tick that began at the time beside it, \<open>cf_hands\<close> what they took and
  did not claim yet, \<open>cf_claimed\<close> what they claimed and did not push yet, \<open>cf_pushed\<close> what they handed to the
  notifier.  A worker may stop at any point, Redis may lose its data, and an entry may be added again
  by a seeding that read its row long ago.\<close>

record config =
  cf_rows :: "reminder list"
  cf_due :: due_set
  cf_push :: push_state
  cf_made :: "reminder list"
  cf_read :: "(string \<times> time) list"
  cf_hands :: "(string \<times> time) list"
  cf_claimed :: "(reminder \<times> time) list"
  cf_pushed :: "(reminder \<times> time) list"

inductive worker_step :: "config \<Rightarrow> config \<Rightarrow> bool" where
  created: "Create_reminder f ss r (cf_rows c) = Inr (r, rows) \<Longrightarrow> pending r \<Longrightarrow> rm_id r \<notin> rm_id ` set (cf_made c) \<Longrightarrow>
    worker_step c (c\<lparr>cf_rows := rows, cf_made := cf_made c @ [r]\<rparr>)"
| scheduled: "r \<in> set (cf_made c) \<Longrightarrow> worker_step c (c\<lparr>cf_due := Add (rm_id r) (rm_fire r) (cf_due c)\<rparr>)"
| deleted: "worker_step c (c\<lparr>cf_rows := filter P (cf_rows c)\<rparr>)"
| unscheduled: "worker_step c (c\<lparr>cf_due := Remove i (cf_due c)\<rparr>)"
| lost: "worker_step c (c\<lparr>cf_due := []\<rparr>)"
| read: "worker_step c (c\<lparr>cf_read := cf_read c @ map (\<lambda>i. (i, now)) (Due now FireBatch (cf_due c))\<rparr>)"
| took: "(i, now) \<in> set (cf_read c) \<Longrightarrow> Take i (cf_due c) = (True, z) \<Longrightarrow>
    worker_step c (c\<lparr>cf_due := z, cf_hands := (i, now) # cf_hands c\<rparr>)"
| put_back: "(i, now) \<in> set (cf_hands c) \<Longrightarrow> worker_step c (c\<lparr>cf_due := Add i now (cf_due c)\<rparr>)"
| claimed: "(i, now) \<in> set (cf_hands c) \<Longrightarrow> Claim None i now (cf_rows c) = Inr (r, rows) \<Longrightarrow>
    worker_step c (c\<lparr>cf_rows := rows, cf_claimed := (r, now) # cf_claimed c\<rparr>)"
| pushed: "cf_claimed c = xs @ (r, now) # ys \<Longrightarrow> SendToUser e (reminder_note r) (cf_push c) = (ps, ms, j, err) \<Longrightarrow>
    worker_step c (c\<lparr>cf_push := ps, cf_claimed := xs @ ys, cf_pushed := (r, now) # cf_pushed c\<rparr>)"
| stopped: "worker_step c (c\<lparr>cf_claimed := filter Q (cf_claimed c)\<rparr>)"

inductive_cases worker_stepE: "worker_step c c'"

inductive reach :: "config \<Rightarrow> bool" where
  start: "reach \<lparr>cf_rows = [], cf_due = [], cf_push = ps, cf_made = [], cf_read = [], cf_hands = [], cf_claimed = [],
    cf_pushed = []\<rparr>"
| step: "reach c \<Longrightarrow> worker_step c c' \<Longrightarrow> reach c'"

text \<open>Nothing in the schedule, in a worker's list or in its hands is there before its time.\<close>

definition in_time :: "reminder list \<Rightarrow> string \<Rightarrow> int \<Rightarrow> bool" where
  "in_time made i s = list_ex (\<lambda>r. rm_id r = i \<and> unix_milli (rm_fire r) \<le> s) made"

definition all_in_time :: "reminder list \<Rightarrow> (string \<times> int) list \<Rightarrow> bool" where
  "all_in_time made es = list_all (\<lambda>(i, s). in_time made i s) es"

abbreviation stamps :: "(string \<times> time) list \<Rightarrow> (string \<times> int) list" where
  "stamps \<equiv> map (\<lambda>(i, now). (i, unix_milli now))"

abbreviation row_stamps :: "(reminder \<times> time) list \<Rightarrow> (string \<times> int) list" where
  "row_stamps \<equiv> map (\<lambda>(r, now). (rm_id r, unix_milli now))"

definition clockwise :: "config \<Rightarrow> bool" where
  "clockwise c = (all_in_time (cf_made c) (cf_due c) \<and> all_in_time (cf_made c) (stamps (cf_read c))
     \<and> all_in_time (cf_made c) (stamps (cf_hands c)) \<and> all_in_time (cf_made c) (row_stamps (cf_claimed c))
     \<and> all_in_time (cf_made c) (row_stamps (cf_pushed c)))"

text \<open>A row is what was created, and at most one of it was ever claimed.\<close>

definition handled :: "config \<Rightarrow> string list" where
  "handled c = map (\<lambda>x. rm_id (fst x)) (cf_claimed c @ cf_pushed c)"

definition claimed_once :: "config \<Rightarrow> bool" where
  "claimed_once c = (distinct (map rm_id (cf_made c)) \<and> distinct (map rm_id (cf_rows c)) \<and> distinct (handled c)
     \<and> (\<forall>r \<in> set (cf_rows c). pending r \<longrightarrow> r \<in> set (cf_made c) \<and> rm_id r \<notin> set (handled c))
     \<and> rm_id ` set (cf_rows c) \<subseteq> rm_id ` set (cf_made c)
     \<and> (\<forall>(r, now) \<in> set (cf_claimed c @ cf_pushed c). \<exists>m \<in> set (cf_made c). r = mark_sent now m))"

lemma in_time_append: "in_time made i s \<Longrightarrow> in_time (made @ rs) i s"
  by (simp add: in_time_def)

lemma in_time_mono: "in_time made i s \<Longrightarrow> s \<le> t \<Longrightarrow> in_time made i t"
  by (fastforce simp: in_time_def list_ex_iff)

lemma all_in_time_simps [simp]: "all_in_time made []"
  "all_in_time made ((i, s) # es) \<longleftrightarrow> in_time made i s \<and> all_in_time made es"
  "all_in_time made (es @ es') \<longleftrightarrow> all_in_time made es \<and> all_in_time made es'"
  by (simp_all add: all_in_time_def)

lemma all_in_time_more: "all_in_time made es \<Longrightarrow> all_in_time (made @ rs) es"
  using in_time_append by (auto simp: all_in_time_def list_all_iff)

lemma all_in_time_sub: "all_in_time made es \<Longrightarrow> set es' \<subseteq> set es \<Longrightarrow> all_in_time made es'"
  by (auto simp: all_in_time_def list_all_iff)

lemma all_in_timeD: "all_in_time made es \<Longrightarrow> (i, s) \<in> set es \<Longrightarrow> in_time made i s"
  by (auto simp: all_in_time_def list_all_iff)

lemma stamps_in_time: "all_in_time made (stamps xs) \<Longrightarrow> (i, now) \<in> set xs \<Longrightarrow> in_time made i (unix_milli now)"
  by (force simp: all_in_time_def list_all_iff)

lemma all_in_time_Add: "all_in_time made z \<Longrightarrow> in_time made i (unix_milli t) \<Longrightarrow> all_in_time made (Add i t z)"
  by (auto simp: Add_def Remove_def intro: all_in_time_sub)

lemma all_in_time_Due:
  assumes "all_in_time made z"
  shows "all_in_time made (stamps (map (\<lambda>i. (i, now)) (Due now limit z)))"
proof -
  have "in_time made i (unix_milli now)" if i: "i \<in> set (Due now limit z)" for i
    using Due_sub [OF i] all_in_timeD [OF assms] in_time_mono by blast
  then show ?thesis by (auto simp: all_in_time_def list_all_iff)
qed

lemma worker_step_clockwise:
  assumes "worker_step c c'" and "clockwise c"
  shows "clockwise c'"
  using assms(1)
proof (cases rule: worker_step.cases)
  case (created f ss r rows)
  then show ?thesis using assms(2) by (simp add: clockwise_def all_in_time_more)
next
  case (scheduled r)
  then have "in_time (cf_made c) (rm_id r) (unix_milli (rm_fire r))" by (auto simp: in_time_def list_ex_iff)
  then show ?thesis using assms(2) scheduled by (simp add: clockwise_def all_in_time_Add)
next
  case (unscheduled i)
  have "set (Remove i (cf_due c)) \<subseteq> set (cf_due c)" by (auto simp: Remove_def)
  then show ?thesis using assms(2) unscheduled by (auto simp: clockwise_def intro: all_in_time_sub)
next
  case (read now)
  have "all_in_time (cf_made c) (stamps (map (\<lambda>i. (i, now)) (Due now FireBatch (cf_due c))))"
    using assms(2) by (intro all_in_time_Due) (simp add: clockwise_def)
  then show ?thesis using assms(2) read by (simp add: clockwise_def)
next
  case (took i now z)
  then have z: "set z \<subseteq> set (cf_due c)" by (auto simp: Take_def Remove_def)
  have "in_time (cf_made c) i (unix_milli now)"
    using assms(2) took(2) stamps_in_time [of "cf_made c" "cf_read c"] by (simp add: clockwise_def)
  then show ?thesis using assms(2) took(1) all_in_time_sub [OF _ z] by (simp add: clockwise_def)
next
  case (put_back i now)
  have "in_time (cf_made c) i (unix_milli now)"
    using assms(2) put_back(2) stamps_in_time [of "cf_made c" "cf_hands c"] by (simp add: clockwise_def)
  then show ?thesis using assms(2) put_back(1) by (simp add: clockwise_def all_in_time_Add)
next
  case (claimed i now r rows)
  have "in_time (cf_made c) i (unix_milli now)"
    using assms(2) claimed(2) stamps_in_time [of "cf_made c" "cf_hands c"] by (simp add: clockwise_def)
  moreover have "rm_id r = i" using claimed(3) by (auto simp: Claim_def dest: find_Some_in split: option.splits)
  ultimately show ?thesis using assms(2) claimed(1) by (simp add: clockwise_def)
next
  case (pushed xs r now ys e ps ms j err)
  then show ?thesis using assms(2) by (simp add: clockwise_def)
next
  case (stopped Q)
  have "set (row_stamps (filter Q (cf_claimed c))) \<subseteq> set (row_stamps (cf_claimed c))" by auto
  from all_in_time_sub [OF _ this] show ?thesis using assms(2) stopped by (simp add: clockwise_def)
qed (use assms(2) in \<open>simp_all add: clockwise_def\<close>)

lemma Claim_ok:
  assumes "Claim None i now rows = Inr (r, rows')"
  shows "\<exists>m \<in> set rows. rm_id m = i \<and> pending m \<and> r = mark_sent now m"
    and "rows' = update_where (\<lambda>x. rm_id x = i \<and> pending x) (mark_sent now) rows"
  using assms by (auto simp: Claim_def dest: find_Some_in split: option.splits)

lemma handled_simps [simp]:
  "handled (c\<lparr>cf_rows := a\<rparr>) = handled c" "handled (c\<lparr>cf_made := d\<rparr>) = handled c" "handled (c\<lparr>cf_due := z\<rparr>) = handled c"
  "handled (c\<lparr>cf_read := l\<rparr>) = handled c" "handled (c\<lparr>cf_hands := h\<rparr>) = handled c" "handled (c\<lparr>cf_push := ps\<rparr>) = handled c"
  "handled (c\<lparr>cf_claimed := x # cf_claimed c\<rparr>) = rm_id (fst x) # handled c"
  by (simp_all add: handled_def)

lemma claimed_onceD:
  assumes "claimed_once c"
  shows "distinct (map rm_id (cf_made c))" "distinct (map rm_id (cf_rows c))" "distinct (handled c)"
    "\<forall>x \<in> set (cf_rows c). pending x \<longrightarrow> x \<in> set (cf_made c) \<and> rm_id x \<notin> set (handled c)"
    "rm_id ` set (cf_rows c) \<subseteq> rm_id ` set (cf_made c)"
    "\<forall>(x, t) \<in> set (cf_claimed c @ cf_pushed c). \<exists>m \<in> set (cf_made c). x = mark_sent t m"
  using assms by (simp_all add: claimed_once_def)

lemma claimed_made:
  assumes "claimed_once c" and "(r, now) \<in> set (cf_claimed c @ cf_pushed c)"
  shows "\<exists>m \<in> set (cf_made c). r = mark_sent now m"
  using bspec [OF claimed_onceD(6) [OF assms(1)] assms(2)] by simp

lemma handled_made:
  assumes "claimed_once c"
  shows "set (handled c) \<subseteq> rm_id ` set (cf_made c)"
proof
  fix i assume "i \<in> set (handled c)"
  then obtain x where x: "x \<in> set (cf_claimed c @ cf_pushed c)" "i = rm_id (fst x)" by (auto simp: handled_def)
  then obtain m where "m \<in> set (cf_made c)" "fst x = mark_sent (snd x) m"
    using claimed_made [OF assms, of "fst x" "snd x"] by auto
  then show "i \<in> rm_id ` set (cf_made c)" using x(2) by simp
qed

lemma claimed_once_created:
  assumes "claimed_once c" and "Create_reminder f ss r (cf_rows c) = Inr (r, rows)" and "rm_id r \<notin> rm_id ` set (cf_made c)"
  shows "claimed_once (c\<lparr>cf_rows := rows, cf_made := cf_made c @ [r]\<rparr>)"
proof -
  note old = claimed_onceD [OF assms(1)]
  have rows: "rows = cf_rows c @ [r]" using assms(2) by (auto simp: Create_reminder_def split: option.splits if_splits)
  have new: "rm_id r \<notin> set (handled c)" "rm_id r \<notin> rm_id ` set (cf_rows c)"
    using handled_made [OF assms(1)] old(5) assms(3) by auto
  have "\<forall>x \<in> set rows. pending x \<longrightarrow> x \<in> set (cf_made c @ [r]) \<and> rm_id x \<notin> set (handled c)"
    using old(4) new rows by auto
  moreover have "\<forall>(x, t) \<in> set (cf_claimed c @ cf_pushed c). \<exists>m \<in> set (cf_made c @ [r]). x = mark_sent t m"
    using old(6) by fastforce
  moreover have "rm_id ` set rows \<subseteq> rm_id ` set (cf_made c @ [r])" using old(5) rows by auto
  moreover have "distinct (map rm_id rows)" "distinct (map rm_id (cf_made c @ [r]))" using old(1,2) new assms(3) rows by auto
  ultimately show ?thesis using old(3) by (simp add: claimed_once_def)
qed

lemma claimed_once_claim:
  assumes "claimed_once c" and "Claim None i now (cf_rows c) = Inr (r, rows)"
  shows "claimed_once (c\<lparr>cf_rows := rows, cf_claimed := (r, now) # cf_claimed c\<rparr>)" (is "claimed_once ?c")
proof -
  note old = claimed_onceD [OF assms(1)]
  obtain m where m: "m \<in> set (cf_rows c)" "rm_id m = i" "pending m" "r = mark_sent now m"
    using Claim_ok(1) [OF assms(2)] by blast
  have rows: "rows = update_where (\<lambda>x. rm_id x = i \<and> pending x) (mark_sent now) (cf_rows c)"
    using Claim_ok(2) [OF assms(2)] .
  have made: "m \<in> set (cf_made c)" "i \<notin> set (handled c)" using old(4) m by auto
  have one: "x = m" if "x \<in> set (cf_rows c)" "rm_id x = i" for x
    using distinct_key_eq [OF old(2) that(1) m(1)] that m(2) by simp
  have ids: "map rm_id rows = map rm_id (cf_rows c)" using rows by simp
  have pend: "x \<in> set (cf_rows c) \<and> rm_id x \<noteq> i" if "x \<in> set rows" "pending x" for x
    using that one m(3) unfolding rows by (auto simp: set_update_where split: if_splits)
  have h: "handled ?c = i # handled c" using m(2,4) by (simp add: handled_def)
  have "\<forall>x \<in> set rows. pending x \<longrightarrow> x \<in> set (cf_made c) \<and> rm_id x \<notin> set (handled ?c)"
    using pend old(4) h by auto
  moreover have "\<forall>(x, t) \<in> set ((r, now) # cf_claimed c @ cf_pushed c). \<exists>m \<in> set (cf_made c). x = mark_sent t m"
    using old(6) made(1) m(4) by auto
  moreover have "distinct (handled ?c)" using h old(3) made(2) by simp
  moreover have "rm_id ` set rows \<subseteq> rm_id ` set (cf_made c)" using old(5) ids by (metis list.set_map)
  ultimately show ?thesis using old(1,2) ids by (simp add: claimed_once_def)
qed

text \<open>Claims that move to the pushed ones, and claims that are given up.\<close>

lemma claimed_once_less:
  assumes "claimed_once c" and "set (cl @ pu) \<subseteq> set (cf_claimed c @ cf_pushed c)"
    and "distinct (map (\<lambda>x. rm_id (fst x)) (cl @ pu))"
  shows "claimed_once (c\<lparr>cf_push := ps, cf_claimed := cl, cf_pushed := pu\<rparr>)" (is "claimed_once ?c")
proof -
  note old = claimed_onceD [OF assms(1)]
  have sub: "set (handled ?c) \<subseteq> set (handled c)" using image_mono [OF assms(2), of "\<lambda>x. rm_id (fst x)"] by (simp add: handled_def image_Un)
  then have "\<forall>x \<in> set (cf_rows c). pending x \<longrightarrow> x \<in> set (cf_made c) \<and> rm_id x \<notin> set (handled ?c)"
    using old(4) by blast
  moreover have "\<forall>(x, t) \<in> set (cl @ pu). \<exists>m \<in> set (cf_made c). x = mark_sent t m" using old(6) assms(2) by blast
  moreover have "distinct (handled ?c)" using assms(3) by (simp add: handled_def)
  ultimately show ?thesis using old(1,2,5) by (simp add: claimed_once_def)
qed

lemma worker_step_claimed_once:
  assumes "worker_step c c'" and "claimed_once c"
  shows "claimed_once c'"
  using assms(1)
proof (cases rule: worker_step.cases)
  case (created f ss r rows)
  from claimed_once_created [OF assms(2) created(2,4)] show ?thesis unfolding created(1) .
next
  case (claimed i now r rows)
  from claimed_once_claim [OF assms(2) claimed(3)] show ?thesis unfolding claimed(1) .
next
  case (pushed xs r now ys e ps ms j err)
  have "distinct (map (\<lambda>x. rm_id (fst x)) ((xs @ ys) @ (r, now) # cf_pushed c))"
    using claimed_onceD(3) [OF assms(2)] pushed(2) by (auto simp: handled_def)
  from claimed_once_less [OF assms(2) _ this] show ?thesis unfolding pushed(1) using pushed(2) by simp
next
  case (stopped Q)
  have "distinct (map (\<lambda>x. rm_id (fst x)) (filter Q (cf_claimed c) @ cf_pushed c))"
    using claimed_onceD(3) [OF assms(2)] by (auto simp: handled_def distinct_map_filter)
  moreover have "set (filter Q (cf_claimed c) @ cf_pushed c) \<subseteq> set (cf_claimed c @ cf_pushed c)" by auto
  ultimately have "claimed_once (c\<lparr>cf_push := cf_push c, cf_claimed := filter Q (cf_claimed c), cf_pushed := cf_pushed c\<rparr>)"
    by (intro claimed_once_less [OF assms(2)])
  then show ?thesis unfolding stopped(1) by simp
next
  case (deleted P)
  note old = claimed_onceD [OF assms(2)]
  have "rm_id ` set (filter P (cf_rows c)) \<subseteq> rm_id ` set (cf_made c)" using old(5) by auto
  then show ?thesis using old deleted by (simp add: claimed_once_def distinct_map_filter)
qed (use assms(2) in \<open>simp_all add: claimed_once_def handled_def\<close>)

lemma reach_safe: "reach c \<Longrightarrow> clockwise c \<and> claimed_once c"
proof (induction rule: reach.induct)
  case (start ps)
  then show ?case by (simp add: clockwise_def claimed_once_def handled_def)
next
  case (step c c')
  then show ?case using worker_step_clockwise worker_step_claimed_once by blast
qed

text \<open>C28: However many workers fire and whatever dies in between, a reminder is pushed at most once, as it was
  written, and never before its time.\<close>

theorem reminder_fires_once_and_not_early:
  assumes "reach c"
  shows "distinct (map (\<lambda>x. rm_id (fst x)) (cf_pushed c))
    \<and> ((r, now) \<in> set (cf_pushed c) \<longrightarrow>
        (\<exists>m \<in> set (cf_made c). r = mark_sent now m \<and> unix_milli (rm_fire m) \<le> unix_milli now
          \<and> no_user (reminder_note r) = rm_user m))"
proof (intro conjI impI)
  from reach_safe [OF assms] have clock: "clockwise c" and once: "claimed_once c" by auto
  show "distinct (map (\<lambda>x. rm_id (fst x)) (cf_pushed c))" using once by (simp add: claimed_once_def handled_def)
  assume p: "(r, now) \<in> set (cf_pushed c)"
  then obtain m where m: "m \<in> set (cf_made c)" "r = mark_sent now m" using claimed_made [OF once] by auto
  have "(rm_id r, unix_milli now) \<in> set (row_stamps (cf_pushed c))" using p by force
  then have "in_time (cf_made c) (rm_id m) (unix_milli now)"
    using clock all_in_timeD [of "cf_made c" "row_stamps (cf_pushed c)"] m by (simp add: clockwise_def)
  then obtain m' where m': "m' \<in> set (cf_made c)" "rm_id m' = rm_id m" "unix_milli (rm_fire m') \<le> unix_milli now"
    by (auto simp: in_time_def list_ex_iff)
  then have "m' = m" using once m(1) distinct_key_eq [of rm_id "cf_made c" m' m] by (simp add: claimed_once_def)
  then show "\<exists>m \<in> set (cf_made c). r = mark_sent now m \<and> unix_milli (rm_fire m) \<le> unix_milli now
         \<and> no_user (reminder_note r) = rm_user m"
    using m m'(3) by (intro bexI [of _ m]) (simp_all add: reminder_note_def Let_def)
qed

subsection \<open>A reminder, step by step\<close>

definition tea :: reminder where
  "tea = \<lparr>rm_id = ''r1'', rm_user = ''ann'', rm_save = None, rm_title = ''Tea'', rm_body = [], rm_fire = 5 * second,
     rm_status = RemPending, rm_created = 0, rm_sent = None\<rparr>"

definition ticking :: fire_env where
  "ticking = \<lparr>fe_uuid = \<lambda>_. True, fe_due_fails = None, fe_take_fails = \<lambda>_. False, fe_claim_fails = \<lambda>_. None,
     fe_again_fails = \<lambda>_. False, fe_send = \<lambda>_. flaky\<rparr>"

lemma tea_simps [simp]: "rm_id tea = ''r1''" "rm_user tea = ''ann''" "rm_save tea = None" "rm_fire tea = 5 * second" "pending tea"
  by (simp_all add: tea_def pending_def)

definition seeded_tea :: due_set where "seeded_tea = [(''r1'', 5000)]"

lemma tea_seeded: "Rehydrate (\<lambda>_. None) (\<lambda>_. None) [tea] None [] = (1, seeded_tea, None)"
  by (simp add: Rehydrate_calm Add_def Remove_def unix_milli_def seeded_tea_def Let_def)

theorem restart_fires_every_due_reminder_witness:
  "told ''r1'' (snd (ticks ticking [6 * second] (\<lparr>rs_rows = [tea], rs_due = seeded_tea\<rparr>, one_phone)))"
proof -
  let ?w = "\<lparr>rs_rows = [tea], rs_due = []\<rparr>"
  obtain w' ps' where t: "ticks ticking [6 * second] (?w\<lparr>rs_due := seeded_tea\<rparr>, one_phone) = (w', ps')" by (metis prod.collapse)
  have "calm ticking" by (simp add: calm_def ticking_def flaky_def)
  moreover have "distinct (map rm_id (rs_rows ?w))" "due_well (rs_due ?w)" "known_ids ticking (rs_rows ?w)"
    by (simp_all add: due_well_def known_ids_def ticking_def)
  moreover have "Rehydrate (\<lambda>_. None) (\<lambda>_. None) (rs_rows ?w) None (rs_due ?w) = (1, seeded_tea, None)"
    using tea_seeded by simp
  moreover have "length (filter (\<lambda>x. snd x \<le> unix_milli (6 * second)) seeded_tea) \<le> length [6 * second] * FireBatch"
    by (simp add: seeded_tea_def FireBatch_def)
  ultimately have "told (rm_id tea) ps'"
    using restart_fires_every_due_reminder [of ticking ?w 1 seeded_tea None "[6 * second]" "5 * second" "6 * second" one_phone w' ps' tea] t
    by simp
  then show ?thesis using t by simp
qed

theorem reminder_fires_once_and_not_early_witness:
  "\<exists>c :: config. cf_pushed c = [(mark_sent (6 * second) tea, 6 * second)] \<and> cf_made c = [tea]
     \<and> (\<exists>m \<in> set (cf_made c). mark_sent (6 * second) tea = mark_sent (6 * second) m \<and> unix_milli (rm_fire m) \<le> unix_milli (6 * second))"
proof -
  let ?t = "6 * second" and ?sent = "mark_sent (6 * second) tea"
  let ?c0 = "\<lparr>cf_rows = [], cf_due = [], cf_push = one_phone, cf_made = [], cf_read = [], cf_hands = [], cf_claimed = [], cf_pushed = []\<rparr>"
  let ?c1 = "?c0\<lparr>cf_rows := [tea], cf_made := [tea]\<rparr>"
  let ?c2 = "?c1\<lparr>cf_due := seeded_tea\<rparr>"
  let ?c3 = "?c2\<lparr>cf_read := [(''r1'', ?t)]\<rparr>"
  let ?c4 = "?c3\<lparr>cf_due := [], cf_hands := [(''r1'', ?t)]\<rparr>"
  let ?c5 = "?c4\<lparr>cf_rows := [?sent], cf_claimed := [(?sent, ?t)]\<rparr>"
  obtain ps ms j err where snd: "SendToUser flaky (reminder_note ?sent) one_phone = (ps, ms, j, err)" by (metis prod.collapse)
  let ?c6 = "?c5\<lparr>cf_push := ps, cf_claimed := [], cf_pushed := [(?sent, ?t)]\<rparr>"
  have "reach ?c1"
    using reach.step [OF reach.start [of one_phone] worker_step.created [where f = None and ss = "[]" and r = tea and rows = "[tea]"]]
    by (simp add: Create_reminder_def owns_save_def)
  then have "reach ?c2"
    using reach.step [OF _ worker_step.scheduled [where r = tea and c = ?c1]]
    by (simp add: Add_def Remove_def unix_milli_def seeded_tea_def)
  then have "reach ?c3"
    using reach.step [OF _ worker_step.read [where c = ?c2 and now = ?t]]
    by (simp add: Due_def FireBatch_def unix_milli_def seeded_tea_def)
  then have "reach ?c4"
    using reach.step [OF _ worker_step.took [where i = "''r1''" and now = ?t and c = ?c3 and z = "[]"]]
    by (simp add: Take_def Remove_def seeded_tea_def)
  then have "reach ?c5"
    using reach.step [OF _ worker_step.claimed [where i = "''r1''" and now = ?t and c = ?c4 and r = ?sent and rows = "[?sent]"]]
    by (simp add: Claim_def)
  then have r: "reach ?c6"
    using reach.step [OF _ worker_step.pushed [where c = ?c5 and xs = "[]" and r = ?sent and now = ?t and ys = "[]" and e = flaky and ps = ps and ms = ms and j = j and err = err]] snd by simp
  show ?thesis
    using reminder_fires_once_and_not_early [OF r, of ?sent ?t] by - (rule exI [of _ ?c6], simp)
qed

end
