(* ===== verification/NetAddr.thy ===== *)
theory NetAddr
  imports Prelude "HOL-Library.Word"
begin

text \<open>
  IP addresses as \<open>net/netip\<close> has them, and the address policy of \<open>internal/safehttp\<close>: which addresses a link that
  a user shared may reach.  An IPv4 address is a 32-bit word, an IPv6 address a 128-bit word with its zone.
\<close>

datatype addr = NoAddr | V4 "32 word" | V6 "128 word" string

definition v4_of :: "nat \<Rightarrow> nat \<Rightarrow> nat \<Rightarrow> nat \<Rightarrow> 32 word" where
  "v4_of a b c d = of_nat (((a * 256 + b) * 256 + c) * 256 + d)"

definition v6_of :: "nat list \<Rightarrow> 128 word" where
  "v6_of gs = of_nat (foldl (\<lambda>n g. n * 65536 + g) 0 gs)"

text \<open>The leading \<open>n\<close> bits.\<close>

definition same_prefix :: "nat \<Rightarrow> 'a::len word \<Rightarrow> 'a word \<Rightarrow> bool" where
  "same_prefix n p a = (drop_bit (LENGTH('a) - n) a = drop_bit (LENGTH('a) - n) p)"

subsection \<open>The classes of \<open>netip.Addr\<close>\<close>

definition Unmap :: "addr \<Rightarrow> addr" where
  "Unmap a = (case a of V6 w z \<Rightarrow> if drop_bit 32 w = 65535 then V4 (ucast w) else a | _ \<Rightarrow> a)"

definition IsValid :: "addr \<Rightarrow> bool" where
  "IsValid a = (a \<noteq> NoAddr)"

definition IsUnspecified :: "addr \<Rightarrow> bool" where
  "IsUnspecified a = (a = V4 0 \<or> a = V6 0 [])"

definition IsLoopback :: "addr \<Rightarrow> bool" where
  "IsLoopback a = (case a of V4 w \<Rightarrow> drop_bit 24 w = 127 | V6 w _ \<Rightarrow> w = 1 | NoAddr \<Rightarrow> False)"

definition IsPrivate :: "addr \<Rightarrow> bool" where
  "IsPrivate a =
     (case a of V4 w \<Rightarrow> same_prefix 8 (v4_of 10 0 0 0) w \<or> same_prefix 12 (v4_of 172 16 0 0) w \<or> same_prefix 16 (v4_of 192 168 0 0) w
      | V6 w _ \<Rightarrow> same_prefix 7 (v6_of [0xfc00, 0, 0, 0, 0, 0, 0, 0]) w
      | NoAddr \<Rightarrow> False)"

definition IsMulticast :: "addr \<Rightarrow> bool" where
  "IsMulticast a = (case a of V4 w \<Rightarrow> drop_bit 28 w = 14 | V6 w _ \<Rightarrow> drop_bit 120 w = 255 | NoAddr \<Rightarrow> False)"

definition IsLinkLocalUnicast :: "addr \<Rightarrow> bool" where
  "IsLinkLocalUnicast a =
     (case a of V4 w \<Rightarrow> same_prefix 16 (v4_of 169 254 0 0) w
      | V6 w _ \<Rightarrow> same_prefix 10 (v6_of [0xfe80, 0, 0, 0, 0, 0, 0, 0]) w
      | NoAddr \<Rightarrow> False)"

definition IsLinkLocalMulticast :: "addr \<Rightarrow> bool" where
  "IsLinkLocalMulticast a =
     (case a of V4 w \<Rightarrow> same_prefix 24 (v4_of 224 0 0 0) w
      | V6 w _ \<Rightarrow> and (drop_bit 112 w) 0xff0f = 0xff02 | NoAddr \<Rightarrow> False)"

definition IsInterfaceLocalMulticast :: "addr \<Rightarrow> bool" where
  "IsInterfaceLocalMulticast a = (case a of V6 w _ \<Rightarrow> and (drop_bit 112 w) 0xff0f = 0xff01 | _ \<Rightarrow> False)"

text \<open>\<open>netip.Prefix.Contains\<close>: the families must agree, and an address with a zone is in no prefix.\<close>

datatype prefix = P4 "32 word" nat | P6 "128 word" nat

definition Contains :: "prefix \<Rightarrow> addr \<Rightarrow> bool" where
  "Contains p a =
     (case (p, a) of
        (P4 b n, V4 w) \<Rightarrow> same_prefix n b w
      | (P6 b n, V6 w z) \<Rightarrow> z = [] \<and> same_prefix n b w
      | _ \<Rightarrow> False)"

subsection \<open>The policy\<close>

definition reservedPrefixes :: "prefix list" where
  "reservedPrefixes =
     [P4 (v4_of 0 0 0 0) 8, P4 (v4_of 100 64 0 0) 10, P4 (v4_of 192 0 0 0) 24, P4 (v4_of 192 0 2 0) 24,
      P4 (v4_of 192 88 99 0) 24, P4 (v4_of 198 18 0 0) 15, P4 (v4_of 198 51 100 0) 24, P4 (v4_of 203 0 113 0) 24,
      P4 (v4_of 240 0 0 0) 4, P6 0 128, P6 (v6_of [0x64, 0xff9b, 1, 0, 0, 0, 0, 0]) 48,
      P6 (v6_of [0x100, 0, 0, 0, 0, 0, 0, 0]) 64, P6 (v6_of [0x2001, 0xdb8, 0, 0, 0, 0, 0, 0]) 32,
      P6 (v6_of [0xfc00, 0, 0, 0, 0, 0, 0, 0]) 7]"

definition IsPublicAddress :: "addr \<Rightarrow> bool" where
  "IsPublicAddress address =
     (let a = Unmap address
      in if \<not> IsValid a \<or> IsUnspecified a \<or> IsLoopback a \<or> IsPrivate a \<or> IsMulticast a \<or> IsLinkLocalUnicast a
            \<or> IsLinkLocalMulticast a \<or> IsInterfaceLocalMulticast a
         then False
         else \<not> list_ex (\<lambda>p. Contains p a) reservedPrefixes)"

subsection \<open>The policy as a table of ranges\<close>

text \<open>The special-purpose ranges of IPv4, first and last address of each.\<close>

definition dotted :: "nat \<Rightarrow> nat \<Rightarrow> nat \<Rightarrow> nat \<Rightarrow> nat" where
  "dotted a b c d = ((a * 256 + b) * 256 + c) * 256 + d"

definition special_v4 :: "(nat \<times> nat) list" where
  "special_v4 =
     [(dotted 0 0 0 0, dotted 0 255 255 255), (dotted 10 0 0 0, dotted 10 255 255 255),
      (dotted 100 64 0 0, dotted 100 127 255 255), (dotted 127 0 0 0, dotted 127 255 255 255),
      (dotted 169 254 0 0, dotted 169 254 255 255), (dotted 172 16 0 0, dotted 172 31 255 255),
      (dotted 192 0 0 0, dotted 192 0 0 255), (dotted 192 0 2 0, dotted 192 0 2 255),
      (dotted 192 88 99 0, dotted 192 88 99 255), (dotted 192 168 0 0, dotted 192 168 255 255),
      (dotted 198 18 0 0, dotted 198 19 255 255), (dotted 198 51 100 0, dotted 198 51 100 255),
      (dotted 203 0 113 0, dotted 203 0 113 255), (dotted 224 0 0 0, dotted 255 255 255 255)]"

definition in_span :: "nat \<times> nat \<Rightarrow> nat \<Rightarrow> bool" where
  "in_span r n = (fst r \<le> n \<and> n \<le> snd r)"

definition outside :: "(nat \<times> nat) list \<Rightarrow> nat \<Rightarrow> bool" where
  "outside rs n = (\<not> list_ex (\<lambda>r. in_span r n) rs)"

text \<open>A prefix is a range of addresses.\<close>

lemma drop_bit_eq_iff:
  fixes a p :: "'a::len word"
  shows "drop_bit k a = drop_bit k p \<longleftrightarrow> unat a div 2 ^ k = unat p div 2 ^ k"
  by (metis drop_bit_eq_div unat_drop_bit_eq unsigned_word_eqI)

lemma drop_bit_const:
  fixes a :: "'a::len word"
  shows "unat b = m \<Longrightarrow> drop_bit k a = b \<longleftrightarrow> unat a div 2 ^ k = m"
  by (metis drop_bit_eq_div unat_drop_bit_eq unsigned_word_eqI)

lemma div_range:
  fixes n k m :: nat
  shows "n div 2 ^ k = m \<longleftrightarrow> m * 2 ^ k \<le> n \<and> n < (m + 1) * 2 ^ k"
proof -
  have "0 < (2::nat) ^ k" by simp
  then show ?thesis by (auto simp: mult.commute [of m] dividend_less_times_div intro!: div_nat_eqI)
qed

lemma same_prefix_range:
  fixes a p :: "'a::len word"
  shows "same_prefix n p a \<longleftrightarrow>
    (let k = LENGTH('a) - n; m = unat p div 2 ^ k in m * 2 ^ k \<le> unat a \<and> unat a < (m + 1) * 2 ^ k)"
  by (simp add: same_prefix_def drop_bit_eq_iff div_range Let_def)

lemma unat_dotted: "dotted a b c d < 2 ^ 32 \<Longrightarrow> unat (v4_of a b c d) = dotted a b c d"
  unfolding v4_of_def dotted_def [symmetric] by (simp add: unat_of_nat)

lemma v4_prefix:
  assumes "dotted a b c d < 2 ^ 32" and "2 ^ (32 - n) dvd dotted a b c d"
  shows "same_prefix n (v4_of a b c d) w \<longleftrightarrow> in_span (dotted a b c d, dotted a b c d + (2 ^ (32 - n) - 1)) (unat w)"
proof -
  obtain m where m: "dotted a b c d = m * 2 ^ (32 - n)" using assms(2) by (metis dvd_def mult.commute)
  have "same_prefix n (v4_of a b c d) w \<longleftrightarrow> m * 2 ^ (32 - n) \<le> unat w \<and> unat w < (m + 1) * 2 ^ (32 - n)"
    using assms(1) m by (simp add: same_prefix_range unat_dotted Let_def)
  moreover have "(m + 1) * 2 ^ (32 - n) = m * 2 ^ (32 - n) + 2 ^ (32 - n)" "0 < (2::nat) ^ (32 - n)" by simp_all
  ultimately show ?thesis unfolding in_span_def m fst_conv snd_conv by linarith
qed

text \<open>On IPv4 the policy is the table.\<close>

lemma public_v4_iff: "IsPublicAddress (V4 w) \<longleftrightarrow> outside special_v4 (unat w)"
proof -
  let ?n = "unat w"
  have b: "?n < 2 ^ 32" using unsigned_less [of w, where 'a = nat] by simp
  have z: "w = 0 \<Longrightarrow> in_span (dotted 0 0 0 0, dotted 0 255 255 255) ?n" by (simp add: in_span_def dotted_def)
  have lo: "drop_bit 24 w = 127 \<longleftrightarrow> in_span (dotted 127 0 0 0, dotted 127 255 255 255) ?n"
    using drop_bit_const [of 127 127 24 w] div_range [of ?n 24 127] by (auto simp: in_span_def dotted_def)
  have mc: "drop_bit 28 w = 14 \<longleftrightarrow> in_span (dotted 224 0 0 0, dotted 239 255 255 255) ?n"
    using drop_bit_const [of 14 14 28 w] div_range [of ?n 28 14] by (auto simp: in_span_def dotted_def)
  have up: "in_span (dotted 224 0 0 0, dotted 255 255 255 255) ?n \<longleftrightarrow>
      in_span (dotted 224 0 0 0, dotted 239 255 255 255) ?n \<or> in_span (dotted 240 0 0 0, dotted 255 255 255 255) ?n"
    "in_span (dotted 224 0 0 0, dotted 224 0 0 255) ?n \<Longrightarrow> in_span (dotted 224 0 0 0, dotted 239 255 255 255) ?n"
    by (auto simp: in_span_def dotted_def)
  have p: "same_prefix 8 (v4_of 10 0 0 0) w \<longleftrightarrow> in_span (dotted 10 0 0 0, dotted 10 255 255 255) ?n"
    "same_prefix 12 (v4_of 172 16 0 0) w \<longleftrightarrow> in_span (dotted 172 16 0 0, dotted 172 31 255 255) ?n"
    "same_prefix 16 (v4_of 192 168 0 0) w \<longleftrightarrow> in_span (dotted 192 168 0 0, dotted 192 168 255 255) ?n"
    "same_prefix 16 (v4_of 169 254 0 0) w \<longleftrightarrow> in_span (dotted 169 254 0 0, dotted 169 254 255 255) ?n"
    "same_prefix 24 (v4_of 224 0 0 0) w \<longleftrightarrow> in_span (dotted 224 0 0 0, dotted 224 0 0 255) ?n"
    "same_prefix 8 (v4_of 0 0 0 0) w \<longleftrightarrow> in_span (dotted 0 0 0 0, dotted 0 255 255 255) ?n"
    "same_prefix 10 (v4_of 100 64 0 0) w \<longleftrightarrow> in_span (dotted 100 64 0 0, dotted 100 127 255 255) ?n"
    "same_prefix 24 (v4_of 192 0 0 0) w \<longleftrightarrow> in_span (dotted 192 0 0 0, dotted 192 0 0 255) ?n"
    "same_prefix 24 (v4_of 192 0 2 0) w \<longleftrightarrow> in_span (dotted 192 0 2 0, dotted 192 0 2 255) ?n"
    "same_prefix 24 (v4_of 192 88 99 0) w \<longleftrightarrow> in_span (dotted 192 88 99 0, dotted 192 88 99 255) ?n"
    "same_prefix 15 (v4_of 198 18 0 0) w \<longleftrightarrow> in_span (dotted 198 18 0 0, dotted 198 19 255 255) ?n"
    "same_prefix 24 (v4_of 198 51 100 0) w \<longleftrightarrow> in_span (dotted 198 51 100 0, dotted 198 51 100 255) ?n"
    "same_prefix 24 (v4_of 203 0 113 0) w \<longleftrightarrow> in_span (dotted 203 0 113 0, dotted 203 0 113 255) ?n"
    "same_prefix 4 (v4_of 240 0 0 0) w \<longleftrightarrow> in_span (dotted 240 0 0 0, dotted 255 255 255 255) ?n"
    by (subst v4_prefix; simp add: dotted_def)+
  show ?thesis
    unfolding IsPublicAddress_def Unmap_def IsValid_def IsUnspecified_def IsLoopback_def IsPrivate_def
        IsMulticast_def IsLinkLocalUnicast_def IsLinkLocalMulticast_def IsInterfaceLocalMulticast_def reservedPrefixes_def
        Contains_def outside_def special_v4_def Let_def
    using z up by (simp add: lo mc p)
qed

subsection \<open>IPv6\<close>

definition mapped :: "32 word \<Rightarrow> 128 word" where
  "mapped w = 0xffff00000000 + ucast w"

lemma unat_mapped: "unat (mapped w) = 0xffff00000000 + unat w"
proof -
  have b: "unat w < 2 ^ 32" using unsigned_less [of w, where 'a = nat] by simp
  have u: "unat (ucast w :: 128 word) = unat w" using b by (simp add: unsigned_ucast_eq take_bit_nat_eq_self)
  have "unat (mapped w) = (0xffff00000000 + unat w) mod 2 ^ 128"
    unfolding mapped_def unat_word_ariths u by simp
  then show ?thesis using b by simp
qed

lemma Unmap_mapped: "Unmap (V6 (mapped w) z) = V4 w"
proof -
  have b: "unat w < 2 ^ 32" using unsigned_less [of w, where 'a = nat] by simp
  have "unat (mapped w) div 2 ^ 32 = 65535" unfolding div_range unat_mapped using b by simp
  then have "drop_bit 32 (mapped w) = 65535" using drop_bit_const [of 65535 65535 32 "mapped w"] by simp
  moreover have "(ucast (mapped w) :: 32 word) = w"
  proof -
    have "unat (ucast (mapped w) :: 32 word) = (0xffff00000000 + unat w) mod 2 ^ 32"
      by (simp add: unsigned_ucast_eq unat_mapped take_bit_eq_mod)
    also have "\<dots> = unat w" using b mod_mult_self3 [of 65535 "2 ^ 32 :: nat" "unat w"] by simp
    finally show ?thesis by (simp add: unsigned_word_eqI)
  qed
  ultimately show ?thesis by (simp add: Unmap_def)
qed


text \<open>What the policy lets through: the well-known prefix of NAT64 with a private IPv4 address inside, a site-local
  address, and the unspecified address with a zone, which no prefix contains.\<close>

lemma nat64_reaches_private:
  "IsPublicAddress (V6 (v6_of [0x64, 0xff9b, 0, 0, 0, 0, 0x0a00, 0x0001]) [])"
  "IsPublicAddress (V6 (v6_of [0xfec0, 0, 0, 0, 0, 0, 0, 1]) [])"
  "IsPublicAddress (V6 0 ''eth0'')"
  by (simp_all add: IsPublicAddress_def Unmap_def IsValid_def IsUnspecified_def IsLoopback_def IsPrivate_def IsMulticast_def
      IsLinkLocalUnicast_def IsLinkLocalMulticast_def IsInterfaceLocalMulticast_def reservedPrefixes_def Contains_def
      same_prefix_def v6_of_def)

end
