(* ===== verification/SafeHttp.thy ===== *)
theory SafeHttp
  imports NetAddr
begin

text \<open>
  The HTTP client for links that users share (\<open>internal/safehttp/safehttp.go\<close>): the shape of a URL, the dialer that
  resolves and pins the address, redirects with what \<open>net/http\<close> does around them, and the capped body.  Outside:
  the URL parser, DNS (which may answer differently every time), the network, the servers and gzip.
  Timeouts are failures of the network; connections are not reused, so that every request dials.
\<close>

definition MaxRedirects :: nat where "MaxRedirects = 5"
definition MaxBodyBytes :: nat where "MaxBodyBytes = 2097152"
definition MaxDecompressedBytes :: nat where "MaxDecompressedBytes = 8388608"
definition MaxURLLength :: nat where "MaxURLLength = 2048"

datatype http_err = ErrUnsafeURL string | ErrTooLarge | ErrFetchFailed string | OtherErr string

subsection \<open>URLs\<close>

text \<open>A parsed URL: the scheme, whether it has user information, the host with its port, the whole text.\<close>

record url =
  u_scheme :: string
  u_user :: bool
  u_host :: string
  u_text :: string

text \<open>\<open>url.URL.Hostname\<close> and \<open>Port\<close>: what follows the last colon is the port when it is all digits; brackets go.\<close>

definition splitHostPort :: "string \<Rightarrow> string \<times> string" where
  "splitHostPort hp =
     (let digits = takeWhile is_digit (rev hp); rest = drop (length digits) (rev hp);
          (host, port) = (case rest of [] \<Rightarrow> (hp, []) | c # h \<Rightarrow> if c = CHR '':'' then (rev h, rev digits) else (hp, []))
      in (if has_prefix host ''['' \<and> has_suffix host '']'' then butlast (tl host) else host, port))"

definition Hostname :: "'a url_scheme \<Rightarrow> string" where "Hostname u = fst (splitHostPort (u_host u))"
definition Port :: "'a url_scheme \<Rightarrow> string" where "Port u = snd (splitHostPort (u_host u))"

definition port_in_range :: "string \<Rightarrow> bool" where
  "port_in_range p = (digits_value p \<le> 65535)"

definition validateURLShape :: "url \<Rightarrow> http_err option" where
  "validateURLShape u =
     (if to_lower (u_scheme u) \<noteq> ''http'' \<and> to_lower (u_scheme u) \<noteq> ''https''
      then Some (ErrUnsafeURL ''only http and https are allowed'')
      else if u_user u then Some (ErrUnsafeURL ''credentials in a url are not allowed'')
      else if Hostname u = [] then Some (ErrUnsafeURL ''the url has no host'')
      else if CHR ''%'' \<in> set (Hostname u) then Some (ErrUnsafeURL ''an ipv6 zone identifier is not allowed'')
      else if Port u \<noteq> [] \<and> \<not> port_in_range (Port u) then Some (ErrUnsafeURL ''the url port is invalid'')
      else None)"

definition ValidateURL :: "url \<Rightarrow> http_err option" where
  "ValidateURL u =
     (case validateURLShape u of Some e \<Rightarrow> Some e
      | None \<Rightarrow> if Port u \<noteq> [] \<and> Port u \<noteq> ''80'' \<and> Port u \<noteq> ''443''
                then Some (ErrUnsafeURL ''only ports 80 and 443 are allowed'') else None)"

record http_config =
  hc_private :: bool
  hc_agent :: string

definition validate_url :: "http_config \<Rightarrow> url \<Rightarrow> http_err option" where
  "validate_url c u = (if hc_private c then validateURLShape u else ValidateURL u)"

subsection \<open>The outside\<close>

type_synonym headers = "(string \<times> string) list"

text \<open>A body is what the server sends and whether the transfer then fails.\<close>

record stream =
  st_bytes :: string
  st_fails :: bool

record answer =
  an_status :: int
  an_location :: string
  an_encoding :: string
  an_content :: string
  an_body :: stream

record net =
  n_parse :: "string \<Rightarrow> url option"
  n_ref :: "url \<Rightarrow> string \<Rightarrow> url option"
  n_literal :: "string \<Rightarrow> addr option"
  n_lookup :: "nat \<Rightarrow> string \<Rightarrow> addr list option"
  n_connect :: "nat \<Rightarrow> addr \<Rightarrow> string \<Rightarrow> bool"
  n_answer :: "nat \<Rightarrow> url \<Rightarrow> addr \<Rightarrow> headers \<Rightarrow> string + answer"
  n_gunzip :: "string \<Rightarrow> stream option"

definition parse_url :: "net \<Rightarrow> http_config \<Rightarrow> string \<Rightarrow> http_err + url" where
  "parse_url e c raw =
     (if MaxURLLength < length (trim_space raw) then Inl (ErrUnsafeURL ''too long'')
      else (case n_parse e (trim_space raw) of None \<Rightarrow> Inl (ErrUnsafeURL ''not a url'')
            | Some u \<Rightarrow> (case validate_url c u of Some err \<Rightarrow> Inl err | None \<Rightarrow> Inr u)))"

definition ParseURL :: "net \<Rightarrow> string \<Rightarrow> http_err + url" where
  "ParseURL e raw =
     (if MaxURLLength < length (trim_space raw) then Inl (ErrUnsafeURL ''too long'')
      else (case n_parse e (trim_space raw) of None \<Rightarrow> Inl (ErrUnsafeURL ''not a url'')
            | Some u \<Rightarrow> (case ValidateURL u of Some err \<Rightarrow> Inl err | None \<Rightarrow> Inr u)))"

subsection \<open>The dialer\<close>

definition allowed :: "http_config \<Rightarrow> addr \<Rightarrow> bool" where
  "allowed c a = (if hc_private c then IsValid a else IsPublicAddress a)"

definition publicAddresses :: "net \<Rightarrow> http_config \<Rightarrow> nat \<Rightarrow> string \<Rightarrow> http_err + addr list" where
  "publicAddresses e c n host =
     (case n_literal e host of
        Some a \<Rightarrow> if allowed c a then Inr [a] else Inl (ErrUnsafeURL ''not a public address'')
      | None \<Rightarrow>
          (case n_lookup e n host of None \<Rightarrow> Inl (ErrUnsafeURL ''could not resolve the host'')
           | Some as \<Rightarrow>
               if \<not> list_all (\<lambda>a. allowed c (Unmap a)) as
               then Inl (ErrUnsafeURL ''the host resolves to a non-public address'')
               else if as = [] then Inl (ErrUnsafeURL ''the host resolves to no addresses'')
               else Inr (map Unmap as)))"

text \<open>The addresses tried, in order, and the one that answered.\<close>

fun connect_first :: "net \<Rightarrow> nat \<Rightarrow> string \<Rightarrow> addr list \<Rightarrow> addr list \<times> addr option" where
  "connect_first e n port [] = ([], None)"
| "connect_first e n port (a # as) =
     (if n_connect e n a port then ([a], Some a)
      else (case connect_first e n port as of (ts, r) \<Rightarrow> (a # ts, r)))"

definition url_port :: "url \<Rightarrow> string" where
  "url_port u = (if Port u \<noteq> [] then Port u else if to_lower (u_scheme u) = ''https'' then ''443'' else ''80'')"

definition dial :: "net \<Rightarrow> http_config \<Rightarrow> nat \<Rightarrow> url \<Rightarrow> addr list \<times> (http_err + addr)" where
  "dial e c n u =
     (case publicAddresses e c n (Hostname u) of Inl err \<Rightarrow> ([], Inl err)
      | Inr as \<Rightarrow> (case connect_first e n (url_port u) as of
                     (ts, Some a) \<Rightarrow> (ts, Inr a) | (ts, None) \<Rightarrow> (ts, Inl (OtherErr ''connect''))))"

subsection \<open>Requests and redirects\<close>

definition drop_headers :: "string list \<Rightarrow> headers \<Rightarrow> headers" where
  "drop_headers ks hs = filter (\<lambda>h. fst h \<notin> set ks) hs"

definition set_header :: "string \<Rightarrow> string \<Rightarrow> headers \<Rightarrow> headers" where
  "set_header k v hs = drop_headers [k] hs @ [(k, v)]"

text \<open>What \<open>net/http\<close> does with the headers of the first request at every redirect: they are copied again, without
  the sensitive ones from the first redirect on that leaves the domain.\<close>

definition sensitive :: "string list" where
  "sensitive = [''Authorization'', ''Www-Authenticate'', ''Cookie'', ''Cookie2'', ''Proxy-Authorization'', ''Proxy-Authenticate'']"

definition isDomainOrSubdomain :: "string \<Rightarrow> string \<Rightarrow> bool" where
  "isDomainOrSubdomain sub parent =
     (sub = parent \<or> CHR '':'' \<notin> set sub \<and> CHR ''%'' \<notin> set sub \<and> has_suffix sub (CHR ''.'' # parent))"

definition left_domain :: "url \<Rightarrow> url \<Rightarrow> bool" where
  "left_domain first u = (u_host first \<noteq> u_host u \<and> \<not> isDomainOrSubdomain (Hostname u) (Hostname first))"

definition redirects :: "answer \<Rightarrow> bool" where
  "redirects a = (an_status a \<in> {301, 302, 303, 307, 308} \<and> an_location a \<noteq> [])"

text \<open>\<open>CheckRedirect\<close>, with \<open>via\<close> requests made: an error, or the headers of the next request.\<close>

definition CheckRedirect :: "http_config \<Rightarrow> nat \<Rightarrow> url \<Rightarrow> url \<Rightarrow> headers \<Rightarrow> http_err + headers" where
  "CheckRedirect c via previous u hs =
     (if MaxRedirects \<le> via then Inl (ErrUnsafeURL ''more than 5 redirects'')
      else (case validate_url c u of Some err \<Rightarrow> Inl err
            | None \<Rightarrow> Inr (if u_host u \<noteq> u_host previous then drop_headers [''Authorization'', ''Cookie''] hs else hs)))"

record sent =
  sq_url :: url
  sq_dialed :: "addr list"
  sq_headers :: headers

text \<open>\<open>http.Client.Do\<close> from the request after \<open>via\<close> others: what was sent, and the last answer or the error.\<close>

function do_from ::
  "net \<Rightarrow> http_config \<Rightarrow> url \<Rightarrow> headers \<Rightarrow> nat \<Rightarrow> bool \<Rightarrow> url \<Rightarrow> headers \<Rightarrow> sent list \<times> (http_err + url \<times> answer)" where
  "do_from e c first hs via strip u cur =
     (case dial e c via u of (ts, conn) \<Rightarrow>
       (case conn of Inl err \<Rightarrow> ([\<lparr>sq_url = u, sq_dialed = ts, sq_headers = []\<rparr>], Inl err)
        | Inr a \<Rightarrow>
          (let s = \<lparr>sq_url = u, sq_dialed = ts, sq_headers = cur\<rparr>
           in case n_answer e via u a cur of Inl m \<Rightarrow> ([s], Inl (OtherErr m))
              | Inr an \<Rightarrow>
                  if \<not> redirects an then ([s], Inr (u, an))
                  else (case n_ref e u (an_location an) of None \<Rightarrow> ([s], Inl (OtherErr ''location''))
                        | Some u2 \<Rightarrow>
                            (let strip2 = (strip \<or> left_domain first u2);
                                 copied = (if strip2 then drop_headers sensitive hs else hs)
                             in case CheckRedirect c (via + 1) u u2 copied of Inl err \<Rightarrow> ([s], Inl err)
                                | Inr next_headers \<Rightarrow>
                                    (case do_from e c first hs (via + 1) strip2 u2 next_headers of
                                       (rest, r) \<Rightarrow> (s # rest, r)))))))"
  by pat_completeness auto
termination
  by (relation "measure (\<lambda>(e, c, first, hs, via, strip, u, cur). MaxRedirects - via)")
    (auto simp: CheckRedirect_def split: if_splits)

declare do_from.simps [simp del]

definition wrapRequestError :: "http_err \<Rightarrow> http_err" where
  "wrapRequestError err = (case err of OtherErr m \<Rightarrow> ErrFetchFailed ''the request failed'' | _ \<Rightarrow> err)"

subsection \<open>Bodies\<close>

definition readCapped :: "stream \<Rightarrow> nat \<Rightarrow> http_err + string" where
  "readCapped s limit =
     (if limit < length (st_bytes s) then Inl ErrTooLarge
      else if st_fails s then Inl (ErrFetchFailed ''reading the body'')
      else Inr (st_bytes s))"

definition readBody :: "net \<Rightarrow> answer \<Rightarrow> http_err + string" where
  "readBody e an =
     bind_r (readCapped (an_body an) MaxBodyBytes) (\<lambda>wire.
       if \<not> equal_fold (an_encoding an) ''gzip'' then Inr wire
       else (case n_gunzip e wire of None \<Rightarrow> Inl (ErrFetchFailed ''the body claims gzip but is not'')
             | Some s \<Rightarrow> readCapped s MaxDecompressedBytes))"

record http_response =
  hr_status :: int
  hr_final :: string
  hr_content :: string
  hr_body :: string

definition GetWithHeaders :: "net \<Rightarrow> http_config \<Rightarrow> string \<Rightarrow> headers \<Rightarrow> sent list \<times> (http_err + http_response)" where
  "GetWithHeaders e c raw extra =
     (case parse_url e c raw of Inl err \<Rightarrow> ([], Inl err)
      | Inr u \<Rightarrow>
          (let hs = set_header ''Accept-Encoding'' ''gzip'' (set_header ''User-Agent'' (hc_agent c) extra)
           in case do_from e c u hs 0 False u hs of
                (reqs, Inl err) \<Rightarrow> (reqs, Inl (wrapRequestError err))
              | (reqs, Inr (final, an)) \<Rightarrow>
                  (reqs, bind_r (readBody e an) (\<lambda>body.
                     Inr \<lparr>hr_status = an_status an, hr_final = u_text final, hr_content = an_content an, hr_body = body\<rparr>))))"

definition http_Get :: "net \<Rightarrow> http_config \<Rightarrow> string \<Rightarrow> sent list \<times> (http_err + http_response)" where
  "http_Get e c raw = GetWithHeaders e c raw []"

definition ResolveRedirects :: "net \<Rightarrow> http_config \<Rightarrow> string \<Rightarrow> sent list \<times> (http_err + string)" where
  "ResolveRedirects e c raw =
     (case parse_url e c raw of Inl err \<Rightarrow> ([], Inl err)
      | Inr u \<Rightarrow>
          (let hs = [(''User-Agent'', hc_agent c)]
           in case do_from e c u hs 0 False u hs of
                (reqs, Inl err) \<Rightarrow> (reqs, Inl (wrapRequestError err))
              | (reqs, Inr (final, an)) \<Rightarrow> (reqs, Inr (u_text final))))"

subsection \<open>Where requests go\<close>

lemma publicAddresses_allowed: "publicAddresses e c n host = Inr as \<Longrightarrow> list_all (allowed c) as"
  by (auto simp: publicAddresses_def list_all_iff split: option.splits if_splits)

lemma connect_first_set: "connect_first e n port as = (ts, r) \<Longrightarrow> set ts \<subseteq> set as"
  by (induction as arbitrary: ts) (auto split: if_splits prod.splits)

lemma dial_allowed: "dial e c n u = (ts, r) \<Longrightarrow> list_all (allowed c) ts"
proof -
  assume d: "dial e c n u = (ts, r)"
  show ?thesis
  proof (cases "publicAddresses e c n (Hostname u)")
    case (Inr as)
    obtain ts' r' where cf: "connect_first e n (url_port u) as = (ts', r')" by (metis prod.collapse)
    have "ts = ts'" using d Inr cf by (auto simp: dial_def split: option.splits)
    then show ?thesis using connect_first_set [OF cf] publicAddresses_allowed [OF Inr] by (auto simp: list_all_iff)
  qed (use d in \<open>simp add: dial_def\<close>)
qed

text \<open>A request that may be sent: its URL has passed the check, the addresses it tried are allowed, and credentials
  stay with the domain of the first URL.\<close>

definition has_credentials :: "headers \<Rightarrow> bool" where
  "has_credentials hs = list_ex (\<lambda>h. fst h \<in> set sensitive) hs"

definition fine :: "http_config \<Rightarrow> url \<Rightarrow> sent \<Rightarrow> bool" where
  "fine c first s = (validate_url c (sq_url s) = None \<and> list_all (allowed c) (sq_dialed s)
     \<and> \<not> (has_credentials (sq_headers s) \<and> left_domain first (sq_url s)))"

lemma drop_sensitive: "\<not> has_credentials (drop_headers sensitive hs)"
  by (auto simp: has_credentials_def drop_headers_def list_ex_iff)

lemma drop_credentials: "has_credentials (drop_headers ks hs) \<Longrightarrow> has_credentials hs"
  unfolding has_credentials_def drop_headers_def list_ex_iff set_filter by blast

lemma CheckRedirect_ok:
  assumes "CheckRedirect c via p u hs = Inr hs'"
  shows "via < MaxRedirects" and "validate_url c u = None" and "has_credentials hs' \<Longrightarrow> has_credentials hs"
  using assms by (auto simp: CheckRedirect_def dest: drop_credentials split: option.splits if_splits)

lemma do_from_fine:
  assumes "validate_url c u = None" and "\<not> (has_credentials cur \<and> left_domain first u)" and "via < MaxRedirects"
    and "do_from e c first hs via strip u cur = (ss, r)"
  shows "list_all (fine c first) ss \<and> length ss \<le> MaxRedirects - via"
  using assms
proof (induction e c first hs via strip u cur arbitrary: ss r rule: do_from.induct)
  case (1 e c first hs via strip u cur)
  obtain ts conn where d: "dial e c via u = (ts, conn)" by (metis prod.collapse)
  let ?s = "\<lparr>sq_url = u, sq_dialed = ts, sq_headers = cur\<rparr>"
  have fine: "fine c first ?s" "fine c first (?s\<lparr>sq_headers := []\<rparr>)"
    using "1.prems"(1,2) dial_allowed [OF d] by (auto simp: fine_def has_credentials_def)
  show ?case
  proof (cases conn)
    case (Inl err)
    then have "ss = [?s\<lparr>sq_headers := []\<rparr>]" using "1.prems"(4) d by (simp add: do_from.simps)
    then show ?thesis using fine "1.prems"(3) by simp
  next
    case (Inr a)
    note a = this
    show ?thesis
    proof (cases "\<exists>an u2 hs2. n_answer e via u a cur = Inr an \<and> redirects an \<and> n_ref e u (an_location an) = Some u2
        \<and> CheckRedirect c (via + 1) u u2 (if strip \<or> left_domain first u2 then drop_headers sensitive hs else hs) = Inr hs2")
      case False
      then have "ss = [?s]" using "1.prems"(4) d a
        by (auto simp: do_from.simps [of e c first hs via strip u cur] Let_def split: sum.splits option.splits if_splits)
      then show ?thesis using fine "1.prems"(3) by simp
    next
      case True
      then obtain an u2 hs2 where an: "n_answer e via u a cur = Inr an" "redirects an" "n_ref e u (an_location an) = Some u2"
        and ck: "CheckRedirect c (via + 1) u u2 (if strip \<or> left_domain first u2 then drop_headers sensitive hs else hs) = Inr hs2"
        by blast
      obtain ss2 r2 where go: "do_from e c first hs (via + 1) (strip \<or> left_domain first u2) u2 hs2 = (ss2, r2)"
        by (metis prod.collapse)
      have ss: "ss = ?s # ss2" using "1.prems"(4) d a an ck go by (simp add: do_from.simps [of e c first hs via strip u cur])
      have "\<not> (has_credentials hs2 \<and> left_domain first u2)"
        using CheckRedirect_ok(3) [OF ck] drop_sensitive by (auto split: if_splits)
      then have "list_all (fine c first) ss2 \<and> length ss2 \<le> MaxRedirects - (via + 1)"
        using "1.IH" [OF d [symmetric] a refl an(1) _ an(3) refl refl ck CheckRedirect_ok(2) [OF ck] _ CheckRedirect_ok(1) [OF ck] go] an(2)
        by simp
      then show ?thesis using ss fine "1.prems"(3) CheckRedirect_ok(1) [OF ck] by auto
    qed
  qed
qed

lemma readBody_bound: "readBody e an = Inr body \<Longrightarrow> length body \<le> MaxDecompressedBytes"
  by (auto simp: readBody_def readCapped_def bind_r_Inr_iff MaxBodyBytes_def MaxDecompressedBytes_def
      split: if_splits option.splits)

lemma parse_url_valid: "parse_url e c raw = Inr u \<Longrightarrow> validate_url c u = None"
  by (auto simp: parse_url_def split: if_splits option.splits)

text \<open>What a fetch sends is what \<open>do_from\<close> sends for the parsed URL.\<close>

lemma GetWithHeaders_sent:
  assumes "GetWithHeaders e c raw extra = (ss, r)" and "parse_url e c raw = Inr u"
  shows "list_all (fine c u) ss \<and> length ss \<le> MaxRedirects"
proof -
  let ?hs = "set_header ''Accept-Encoding'' ''gzip'' (set_header ''User-Agent'' (hc_agent c) extra)"
  obtain ss' r' where go: "do_from e c u ?hs 0 False u ?hs = (ss', r')" by (metis prod.collapse)
  have "ss = ss'" using assms go by (auto simp: GetWithHeaders_def Let_def split: sum.splits)
  then show ?thesis
    using do_from_fine [OF parse_url_valid [OF assms(2)] _ _ go] by (simp add: left_domain_def MaxRedirects_def)
qed

text \<open>C30: A shared link cannot reach the network behind the service.  Whatever the user typed and whatever DNS, the
  servers and the network answer, a production fetch sends at most five requests, each to a URL of the accepted
  shape, connects only to addresses that the policy calls public, and hands on at most eight megabytes.\<close>

theorem client_reaches_only_public_addresses:
  assumes "\<not> hc_private c" and "GetWithHeaders e c raw extra = (ss, r)"
  shows "length ss \<le> 5
    \<and> list_all (\<lambda>s. ValidateURL (sq_url s) = None \<and> list_all IsPublicAddress (sq_dialed s)) ss
    \<and> (case r of Inl _ \<Rightarrow> True | Inr resp \<Rightarrow> length (hr_body resp) \<le> MaxDecompressedBytes)"
proof (cases "parse_url e c raw")
  case (Inl err)
  then show ?thesis using assms(2) by (auto simp: GetWithHeaders_def)
next
  case (Inr u)
  have "list_all (\<lambda>s. ValidateURL (sq_url s) = None \<and> list_all IsPublicAddress (sq_dialed s)) ss"
    using GetWithHeaders_sent [OF assms(2) Inr] assms(1)
    by (auto simp: fine_def list_all_iff validate_url_def allowed_def)
  moreover have "length (hr_body resp) \<le> MaxDecompressedBytes" if "r = Inr resp" for resp
    using assms(2) that Inr readBody_bound
    by (auto simp: GetWithHeaders_def Let_def bind_r_Inr_iff split: prod.splits sum.splits)
  ultimately show ?thesis using GetWithHeaders_sent [OF assms(2) Inr] by (auto simp: MaxRedirects_def split: sum.splits)
qed

text \<open>Credentials stay home.  A request that carries an authorization, a cookie or a proxy credential goes to the
  host of the first URL or to a subdomain of it, however the servers redirect.\<close>

theorem credentials_stay_in_the_domain:
  assumes "GetWithHeaders e c raw extra = (ss, r)" and "parse_url e c raw = Inr first" and "s \<in> set ss"
    and "has_credentials (sq_headers s)"
  shows "u_host (sq_url s) = u_host first \<or> isDomainOrSubdomain (Hostname (sq_url s)) (Hostname first)"
  using GetWithHeaders_sent [OF assms(1,2)] assms(3,4) by (auto simp: fine_def list_all_iff left_domain_def)

subsection \<open>A redirect inside a subdomain\<close>

definition at_host :: "string \<Rightarrow> string \<Rightarrow> url" where
  "at_host h path = \<lparr>u_scheme = ''https'', u_user = False, u_host = h, u_text = ''https://'' @ h @ path\<rparr>"

text \<open>\<open>a.co\<close> sends on to \<open>s.a.co/x\<close>, which sends on to \<open>s.a.co/y\<close>.\<close>

definition sample_net :: net where
  "sample_net = \<lparr>n_parse = \<lambda>_. Some (at_host ''a.co'' []),
     n_ref = \<lambda>u loc. Some (at_host ''s.a.co'' loc),
     n_literal = \<lambda>_. None, n_lookup = \<lambda>_ _. Some [V4 (v4_of 93 184 216 34)], n_connect = \<lambda>_ _ _. True,
     n_answer = \<lambda>n u a h. Inr (if n = 0 then \<lparr>an_status = 302, an_location = ''/x'', an_encoding = [], an_content = ''text/html'', an_body = \<lparr>st_bytes = [], st_fails = False\<rparr>\<rparr>
        else if n = 1 then \<lparr>an_status = 302, an_location = ''/y'', an_encoding = [], an_content = ''text/html'', an_body = \<lparr>st_bytes = [], st_fails = False\<rparr>\<rparr>
        else \<lparr>an_status = 200, an_location = [], an_encoding = [], an_content = ''text/html'', an_body = \<lparr>st_bytes = ''ok'', st_fails = False\<rparr>\<rparr>),
     n_gunzip = \<lambda>_. None\<rparr>"

definition sample_client :: http_config where "sample_client = \<lparr>hc_private = False, hc_agent = ''reelpin''\<rparr>"

lemma example_public: "IsPublicAddress (V4 (v4_of 93 184 216 34))"
proof -
  have "unat (v4_of 93 184 216 34) = 1572395042" using unat_dotted [of 93 184 216 34] by (simp add: dotted_def)
  then show ?thesis by (simp add: public_v4_iff outside_def special_v4_def in_span_def dotted_def)
qed

lemma sample_hosts: "ValidateURL (at_host ''a.co'' p) = None" "ValidateURL (at_host ''s.a.co'' p) = None"
  "Hostname (at_host ''a.co'' p) = ''a.co''" "Hostname (at_host ''s.a.co'' p) = ''s.a.co''"
  by (simp_all add: ValidateURL_def validateURLShape_def Hostname_def Port_def splitHostPort_def at_host_def to_lower_def
      lower_char_def is_upper_def is_digit_def char_code_def has_prefix_def)

lemma sample_dial: "dial sample_net sample_client n (at_host h p) = ([V4 (v4_of 93 184 216 34)], Inr (V4 (v4_of 93 184 216 34)))"
  by (simp add: dial_def publicAddresses_def sample_net_def sample_client_def allowed_def example_public Unmap_def)

lemma sample_same_domain: "\<not> left_domain (at_host ''a.co'' p) (at_host ''s.a.co'' q)"
  by (simp add: left_domain_def sample_hosts isDomainOrSubdomain_def has_suffix_def)

lemma sample_answers:
  "n_answer sample_net 0 u a h = Inr \<lparr>an_status = 302, an_location = ''/x'', an_encoding = [], an_content = ''text/html'', an_body = \<lparr>st_bytes = [], st_fails = False\<rparr>\<rparr>"
  "n_answer sample_net (Suc 0) u a h = Inr \<lparr>an_status = 302, an_location = ''/y'', an_encoding = [], an_content = ''text/html'', an_body = \<lparr>st_bytes = [], st_fails = False\<rparr>\<rparr>"
  "n_answer sample_net (Suc (Suc 0)) u a h =
     Inr \<lparr>an_status = 200, an_location = [], an_encoding = [], an_content = ''text/html'', an_body = \<lparr>st_bytes = ''ok'', st_fails = False\<rparr>\<rparr>"
  "n_ref sample_net u l = Some (at_host ''s.a.co'' l)"
  by (simp_all add: sample_net_def)

lemma sample_checks:
  "CheckRedirect sample_client (Suc 0) (at_host ''a.co'' []) (at_host ''s.a.co'' p) h = Inr (drop_headers [''Authorization'', ''Cookie''] h)"
  "CheckRedirect sample_client (Suc (Suc 0)) (at_host ''s.a.co'' p) (at_host ''s.a.co'' q) h = Inr h"
  by (simp_all add: CheckRedirect_def MaxRedirects_def validate_url_def sample_client_def sample_hosts)
    (simp_all add: at_host_def)

definition fetched :: "string \<Rightarrow> string \<Rightarrow> headers \<Rightarrow> sent" where
  "fetched h p hs = \<lparr>sq_url = at_host h p, sq_dialed = [V4 (v4_of 93 184 216 34)], sq_headers = hs\<rparr>"

definition page :: answer where
  "page = \<lparr>an_status = 200, an_location = [], an_encoding = [], an_content = ''text/html'', an_body = \<lparr>st_bytes = ''ok'', st_fails = False\<rparr>\<rparr>"

lemmas sample_simps = sample_dial sample_answers sample_same_domain sample_checks redirects_def Let_def fetched_def page_def

lemma sample_hops:
  "do_from sample_net sample_client (at_host ''a.co'' []) hs 0 False (at_host ''a.co'' []) hs =
    ([fetched ''a.co'' [] hs, fetched ''s.a.co'' ''/x'' (drop_headers [''Authorization'', ''Cookie''] hs), fetched ''s.a.co'' ''/y'' hs],
     Inr (at_host ''s.a.co'' ''/y'', page))"
proof -
  let ?a = "at_host ''a.co'' []"
  have "do_from sample_net sample_client ?a hs (Suc (Suc 0)) False (at_host ''s.a.co'' ''/y'') cur =
      ([fetched ''s.a.co'' ''/y'' cur], Inr (at_host ''s.a.co'' ''/y'', page))" for cur
    by (subst do_from.simps) (simp add: sample_simps)
  then have "do_from sample_net sample_client ?a hs (Suc 0) False (at_host ''s.a.co'' ''/x'') cur =
      ([fetched ''s.a.co'' ''/x'' cur, fetched ''s.a.co'' ''/y'' hs], Inr (at_host ''s.a.co'' ''/y'', page))" for cur
    by (subst do_from.simps) (simp add: sample_simps)
  then show ?thesis by (subst do_from.simps) (simp add: sample_simps)
qed

lemma sample_client_simps [simp]: "\<not> hc_private sample_client" "hc_agent sample_client = ''reelpin''"
  by (simp_all add: sample_client_def)

lemma sample_parse: "parse_url sample_net sample_client ''https://a.co'' = Inr (at_host ''a.co'' [])"
proof -
  have "trim_space ''https://a.co'' = ''https://a.co''"
    by (simp add: trim_space_def trim_right_by_def is_space_def char_code_def)
  moreover have "n_parse sample_net x = Some (at_host ''a.co'' [])" for x by (simp add: sample_net_def)
  ultimately show ?thesis by (simp add: parse_url_def MaxURLLength_def validate_url_def sample_hosts)
qed

lemma sample_fetch:
  "GetWithHeaders sample_net sample_client ''https://a.co'' [(''Authorization'', ''t'')] =
   (let hs = [(''Authorization'', ''t''), (''User-Agent'', ''reelpin''), (''Accept-Encoding'', ''gzip'')] in
     ([fetched ''a.co'' [] hs, fetched ''s.a.co'' ''/x'' (tl hs), fetched ''s.a.co'' ''/y'' hs],
      Inr \<lparr>hr_status = 200, hr_final = u_text (at_host ''s.a.co'' ''/y''), hr_content = ''text/html'', hr_body = ''ok''\<rparr>))"
proof -
  have "readBody sample_net page = Inr ''ok''"
    by (simp add: readBody_def readCapped_def page_def MaxBodyBytes_def equal_fold_def to_lower_def)
  moreover have "an_status page = 200" "an_content page = ''text/html''" by (simp_all add: page_def)
  ultimately show ?thesis
    by (simp add: sample_parse GetWithHeaders_def set_header_def drop_headers_def sample_hops Let_def)
qed

text \<open>The comment on \<open>CheckRedirect\<close> promises that credentials are stripped on any change of host.  They are stripped
  from the redirect that changes the host only: the next one inside the subdomain carries them again.\<close>

lemma credentials_come_back:
  "map (\<lambda>s. (Hostname (sq_url s), has_credentials (sq_headers s)))
     (fst (GetWithHeaders sample_net sample_client ''https://a.co'' [(''Authorization'', ''t'')]))
   = [(''a.co'', True), (''s.a.co'', False), (''s.a.co'', True)]"
  by (simp add: sample_fetch fetched_def sample_hosts has_credentials_def sensitive_def Let_def)

subsection \<open>Witnesses\<close>

theorem client_reaches_only_public_addresses_witness:
  "IsPublicAddress (V4 (v4_of 93 184 216 34))
   \<and> length (fst (GetWithHeaders sample_net sample_client ''https://a.co'' [(''Authorization'', ''t'')])) \<le> 5"
  using client_reaches_only_public_addresses [OF sample_client_simps(1) sample_fetch [unfolded Let_def]]
  by (simp add: sample_fetch fetched_def Let_def)

theorem credentials_stay_in_the_domain_witness:
  "isDomainOrSubdomain ''s.a.co'' ''a.co''"
proof -
  let ?hs = "[(''Authorization'', ''t''), (''User-Agent'', ''reelpin''), (''Accept-Encoding'', ''gzip'')]"
  have "u_host (at_host ''s.a.co'' ''/y'') \<noteq> u_host (at_host ''a.co'' [])" by (simp add: at_host_def)
  then show ?thesis
    using credentials_stay_in_the_domain [OF sample_fetch [unfolded Let_def] sample_parse, of "fetched ''s.a.co'' ''/y'' ?hs"]
    by (simp add: fetched_def has_credentials_def sensitive_def sample_hosts)
qed

end
