(* ===== verification/PricePage.thy ===== *)
theory PricePage
  imports SafeHttp
begin

text \<open>
  The price on a product page (\<open>internal/pricetracks/price.go\<close>): the decoder that keeps the order of object keys, the
  walk over JSON-LD, the meta tags and the number in a text.  Splitting HTML into tags and JSON into tokens is outside.
  Prices are exact rationals; rounding to float64 keeps \<open>\<le>\<close>.
\<close>

subsection \<open>Decoding with the order of the keys\<close>

text \<open>A decoded value: an object, an array, a scalar (its text, and whether it was a string), null.\<close>

datatype node = NObject "(string \<times> node) list" | NArray "node list" | NScalar string bool | NNull

text \<open>The tokens of \<open>json.Decoder\<close>; the stream ends where the decoder reports an error or the end.\<close>

datatype token = TOpen | TClose | TOpenArr | TCloseArr | TString string | TNumber string | TBool bool | TNull

text \<open>\<open>decodeNode\<close>.  The fuel bounds the calls; one more than twice the number of tokens is enough, since of two
  nested calls one takes a token (\<open>decode_fuel\<close>).\<close>

fun decodeNode :: "nat \<Rightarrow> token list \<Rightarrow> (node \<times> token list) option"
and decode_members :: "nat \<Rightarrow> token list \<Rightarrow> ((string \<times> node) list \<times> token list) option"
and decode_items :: "nat \<Rightarrow> token list \<Rightarrow> (node list \<times> token list) option"
where
  "decodeNode 0 ts = None"
| "decodeNode (Suc n) ts =
     (case ts of [] \<Rightarrow> None
      | t # rest \<Rightarrow>
         (case t of
            TOpen \<Rightarrow> (case decode_members n rest of None \<Rightarrow> None | Some (ms, r) \<Rightarrow> Some (NObject ms, r))
          | TOpenArr \<Rightarrow> (case decode_items n rest of None \<Rightarrow> None | Some (vs, r) \<Rightarrow> Some (NArray vs, r))
          | TString s \<Rightarrow> Some (NScalar s True, rest)
          | TNumber s \<Rightarrow> Some (NScalar s False, rest)
          | TBool b \<Rightarrow> Some (NScalar (if b then ''true'' else ''false'') False, rest)
          | TNull \<Rightarrow> Some (NNull, rest)
          | _ \<Rightarrow> None))"
| "decode_members 0 ts = None"
| "decode_members (Suc n) ts =
     (case ts of [] \<Rightarrow> None
      | t # rest \<Rightarrow>
          if t = TClose then Some ([], rest)
          else (case t of
                  TString k \<Rightarrow>
                    (case decodeNode n rest of None \<Rightarrow> None
                     | Some (v, r) \<Rightarrow> (case decode_members n r of None \<Rightarrow> None | Some (ms, r2) \<Rightarrow> Some ((k, v) # ms, r2)))
                | _ \<Rightarrow> None))"
| "decode_items 0 ts = None"
| "decode_items (Suc n) ts =
     (case ts of [] \<Rightarrow> None
      | t # rest \<Rightarrow>
          if t = TCloseArr then Some ([], rest)
          else (case decodeNode n ts of None \<Rightarrow> None
                | Some (v, r) \<Rightarrow> (case decode_items n r of None \<Rightarrow> None | Some (vs, r2) \<Rightarrow> Some (v # vs, r2))))"

definition decodeOrdered :: "token list \<Rightarrow> node option" where
  "decodeOrdered ts =
     (case decodeNode (2 * length ts + 1) ts of None \<Rightarrow> None | Some (v, rest) \<Rightarrow> if rest = [] then Some v else None)"

text \<open>No stream, well-formed or not, runs out of fuel: what more fuel would answer is what is answered.\<close>

lemma decode_takes:
  "decodeNode n ts = Some (v, r) \<Longrightarrow> length r < length ts"
  "decode_members n ts = Some (ms, r) \<Longrightarrow> length r < length ts"
  "decode_items n ts = Some (vs, r) \<Longrightarrow> length r < length ts"
proof (induction n arbitrary: ts v ms vs r)
  case (Suc n)
  { case 1 then show ?case using Suc.IH(2,3) [of "tl ts"]
      by (cases ts) (auto split: token.splits option.splits intro: less_SucI)
  next case 2 show ?case
    proof (cases ts)
      case (Cons t rest)
      { fix k u q ns assume "decodeNode n rest = Some (u, q)" and "decode_members n q = Some (ns, r)"
        then have "length r < length ts" using Suc.IH(1) [of rest u q] Suc.IH(2) [of q ns r] by (simp add: Cons) }
      with 2 show ?thesis by (auto simp: Cons split: token.splits option.splits if_splits)
    qed (use 2 in simp)
  next case 3 show ?case
    proof (cases ts)
      case (Cons t rest)
      { fix u q us assume "decodeNode n ts = Some (u, q)" and "decode_items n q = Some (us, r)"
        then have "length r < length ts" using Suc.IH(1) [of ts u q] Suc.IH(3) [of q us r] by simp }
      with 3 show ?thesis by (auto simp: Cons split: option.splits if_splits)
    qed (use 3 in simp) }
qed simp_all

lemma decode_fuel:
  "2 * length ts < n \<Longrightarrow> 2 * length ts < m \<Longrightarrow> decodeNode n ts = decodeNode m ts"
  "2 * length ts < n \<Longrightarrow> 2 * length ts < m \<Longrightarrow> decode_members n ts = decode_members m ts"
  "2 * length ts + 1 < n \<Longrightarrow> 2 * length ts + 1 < m \<Longrightarrow> decode_items n ts = decode_items m ts"
proof (induction n arbitrary: ts m)
  case (Suc n)
  { case 1 then obtain k where m: "m = Suc k" by (cases m) auto
    from 1 show ?case using Suc.IH(2) [of "tl ts" k] Suc.IH(3) [of "tl ts" k] by (cases ts) (auto simp: m split: token.splits)
  next case 2 then obtain k where m: "m = Suc k" by (cases m) auto
    show ?case
    proof (cases ts)
      case (Cons t rest)
      have a: "decodeNode n rest = decodeNode k rest" using 2 Suc.IH(1) [of rest k] by (simp add: m Cons)
      have "decode_members n r = decode_members k r" if "decodeNode k rest = Some (v, r)" for v r
        using 2 decode_takes(1) [OF that] Suc.IH(2) [of r k] by (simp add: m Cons)
      with a show ?thesis by (auto simp: m Cons split: token.splits option.splits)
    qed (simp add: m)
  next case 3 then obtain k where m: "m = Suc k" by (cases m) auto
    show ?case
    proof (cases ts)
      case (Cons t rest)
      have a: "decodeNode n ts = decodeNode k ts" using 3 Suc.IH(1) [of ts k] by (simp add: m Cons)
      have "decode_items n r = decode_items k r" if "decodeNode k ts = Some (v, r)" for v r
        using 3 decode_takes(1) [OF that] Suc.IH(3) [of r k] by (simp add: m Cons)
      with a show ?thesis by (auto simp: m Cons split: option.splits)
    qed (simp add: m) }
qed simp_all

text \<open>What a value is written as, for the round trip.\<close>

fun tokens_of :: "node \<Rightarrow> token list" and member_tokens :: "(string \<times> node) list \<Rightarrow> token list"
and item_tokens :: "node list \<Rightarrow> token list"
where
  "tokens_of (NObject ms) = TOpen # member_tokens ms"
| "tokens_of (NArray vs) = TOpenArr # item_tokens vs"
| "tokens_of (NScalar s str) = [if str then TString s else if s = ''true'' then TBool True else if s = ''false'' then TBool False else TNumber s]"
| "tokens_of NNull = [TNull]"
| "member_tokens [] = [TClose]"
| "member_tokens ((k, v) # ms) = TString k # tokens_of v @ member_tokens ms"
| "item_tokens [] = [TCloseArr]"
| "item_tokens (v # vs) = tokens_of v @ item_tokens vs"

lemma tokens_of_value: "\<exists>t ts. tokens_of v = t # ts \<and> t \<noteq> TCloseArr"
  by (cases v) auto

lemma item_tokens_not_Nil [simp]: "item_tokens vs \<noteq> []"
proof (cases vs)
  case (Cons v ws)
  then show ?thesis using tokens_of_value [of v] by auto
qed simp

lemma decode_tokens:
  "2 * length (tokens_of v) \<le> n \<Longrightarrow> decodeNode n (tokens_of v @ rest) = Some (v, rest)"
  "2 * length (member_tokens ms) \<le> n \<Longrightarrow> decode_members n (member_tokens ms @ rest) = Some (ms, rest)"
  "2 * length (item_tokens vs) \<le> n \<Longrightarrow> decode_items n (item_tokens vs @ rest) = Some (vs, rest)"
proof (induction v and ms and vs arbitrary: n rest and n rest and n rest rule: tokens_of_member_tokens_item_tokens.induct)
  case (1 ms)
  then show ?case by (cases n) auto
next
  case (2 vs)
  then show ?case by (cases n) auto
next
  case (3 s str)
  then show ?case by (cases n) auto
next
  case 4
  then show ?case by (cases n) auto
next
  case 5
  then show ?case by (cases n) auto
next
  case (6 k v ms)
  then show ?case by (cases n) auto
next
  case 7
  then show ?case by (cases n) auto
next
  case (8 v vs)
  obtain t ts where t: "tokens_of v = t # ts" "t \<noteq> TCloseArr" using tokens_of_value by blast
  from "8.prems" obtain m where m: "n = Suc m" by (cases n) (auto simp: t)
  have pos: "1 \<le> length (tokens_of v)" "1 \<le> length (item_tokens vs)"
    using t by (simp_all add: Suc_le_eq)
  have le: "2 * length (tokens_of v) \<le> m" "2 * length (item_tokens vs) \<le> m"
    using "8.prems" m pos by simp_all
  have d1: "decodeNode m (tokens_of v @ item_tokens vs @ rest) = Some (v, item_tokens vs @ rest)"
    using "8.IH"(1) [OF le(1)] by simp
  have d2: "decode_items m (item_tokens vs @ rest) = Some (vs, rest)" using "8.IH"(2) [OF le(2)] by simp
  show ?case using d1 d2 m t by simp
qed

text \<open>A block that is one value, and nothing after it, is decoded to that value.\<close>

lemma decodeOrdered_tokens: "decodeOrdered (tokens_of v) = Some v"
  using decode_tokens(1) [of v "2 * length (tokens_of v) + 1" "[]"] by (simp add: decodeOrdered_def)

subsection \<open>The walk\<close>

definition get_member :: "string \<Rightarrow> (string \<times> node) list \<Rightarrow> node option" where
  "get_member k ms = map_of ms k"

text \<open>Python's truth value.  A number is false when it reads as zero; \<open>strconv.ParseFloat\<close> reads \<open>0\<close>, \<open>-0.00\<close>
  and \<open>0e5\<close> as zero, so the digits before an exponent decide (a number too small for float64 is zero as well; JSON-LD
  has no use for one).\<close>

definition zero_number :: "string \<Rightarrow> bool" where
  "zero_number s = list_all (\<lambda>c. c \<in> set ''-0.'') (takeWhile (\<lambda>c. c \<noteq> CHR ''e'' \<and> c \<noteq> CHR ''E'') s)"

fun truthy :: "node \<Rightarrow> bool" where
  "truthy NNull = False"
| "truthy (NObject ms) = (ms \<noteq> [])"
| "truthy (NArray vs) = (vs \<noteq> [])"
| "truthy (NScalar s str) =
     (if str then s \<noteq> [] else if s = ''true'' then True else if s = ''false'' then False else \<not> zero_number s)"

text \<open>The text of a value: what \<open>node.scalar\<close> holds, which is empty for objects and arrays.\<close>

fun scalar :: "node \<Rightarrow> string" where
  "scalar (NScalar s str) = s"
| "scalar _ = []"

definition currencyOf :: "(string \<times> node) list \<Rightarrow> string" where
  "currencyOf ms = (case get_member ''priceCurrency'' ms of Some (NScalar s True) \<Rightarrow> s | _ \<Rightarrow> [])"

text \<open>An object's own price.\<close>

definition own_price :: "(string \<times> node) list \<Rightarrow> (string \<times> string) option" where
  "own_price ms =
     (case get_member ''price'' ms of None \<Rightarrow> None
      | Some p \<Rightarrow> if p = NNull then None else Some (scalar p, currencyOf ms))"

fun first_offer :: "node list \<Rightarrow> (string \<times> string) option" where
  "first_offer [] = None"
| "first_offer (NObject ms # vs) = (case own_price ms of Some r \<Rightarrow> Some r | None \<Rightarrow> first_offer vs)"
| "first_offer (_ # vs) = first_offer vs"

definition offered :: "(string \<times> node) list \<Rightarrow> (string \<times> string) option" where
  "offered ms =
     (case get_member ''offers'' ms of None \<Rightarrow> None
      | Some (NArray vs) \<Rightarrow> first_offer vs
      | Some v \<Rightarrow> if truthy v then first_offer [v] else None)"

fun priceFromJSONLD :: "node \<Rightarrow> (string \<times> string) option"
and first_member_price :: "(string \<times> node) list \<Rightarrow> (string \<times> string) option"
and first_item_price :: "node list \<Rightarrow> (string \<times> string) option"
where
  "priceFromJSONLD (NObject ms) =
     (case offered ms of Some r \<Rightarrow> Some r
      | None \<Rightarrow> (case own_price ms of Some r \<Rightarrow> Some r | None \<Rightarrow> first_member_price ms))"
| "priceFromJSONLD (NArray vs) = first_item_price vs"
| "priceFromJSONLD (NScalar s str) = None"
| "priceFromJSONLD NNull = None"
| "first_member_price [] = None"
| "first_member_price ((k, v) # ms) = (case priceFromJSONLD v of Some r \<Rightarrow> Some r | None \<Rightarrow> first_member_price ms)"
| "first_item_price [] = None"
| "first_item_price (v # vs) = (case priceFromJSONLD v of Some r \<Rightarrow> Some r | None \<Rightarrow> first_item_price vs)"

text \<open>The objects of a value, at any depth.\<close>

fun objects :: "node \<Rightarrow> (string \<times> node) list list" and member_objects :: "(string \<times> node) list \<Rightarrow> (string \<times> node) list list"
and item_objects :: "node list \<Rightarrow> (string \<times> node) list list"
where
  "objects (NObject ms) = ms # member_objects ms"
| "objects (NArray vs) = item_objects vs"
| "objects (NScalar s str) = []"
| "objects NNull = []"
| "member_objects [] = []"
| "member_objects ((k, v) # ms) = objects v @ member_objects ms"
| "item_objects [] = []"
| "item_objects (v # vs) = objects v @ item_objects vs"

lemma item_objects_in: "v \<in> set vs \<Longrightarrow> o1 \<in> set (objects v) \<Longrightarrow> o1 \<in> set (item_objects vs)"
  by (induction vs) auto

lemma member_objects_in: "(k, v) \<in> set ms \<Longrightarrow> o1 \<in> set (objects v) \<Longrightarrow> o1 \<in> set (member_objects ms)"
  by (induction ms) auto

lemma first_offer_in: "first_offer vs = Some r \<Longrightarrow> \<exists>ms. NObject ms \<in> set vs \<and> own_price ms = Some r"
  by (induction vs rule: first_offer.induct) (auto split: option.splits)

lemma offered_in:
  assumes "offered ms = Some r"
  shows "\<exists>o1 \<in> set (member_objects ms). own_price o1 = Some r"
proof -
  obtain v where v: "get_member ''offers'' ms = Some v" using assms by (auto simp: offered_def split: option.splits)
  then have m: "(''offers'', v) \<in> set ms" by (simp add: get_member_def map_of_SomeD)
  have "\<exists>vs. first_offer vs = Some r \<and> (v = NArray vs \<or> vs = [v])"
    using assms v by (cases v) (auto simp: offered_def split: if_splits)
  then obtain vs where vs: "first_offer vs = Some r" "v = NArray vs \<or> vs = [v]" by blast
  obtain ms1 where o1: "NObject ms1 \<in> set vs" "own_price ms1 = Some r" using first_offer_in [OF vs(1)] by blast
  have "ms1 \<in> set (objects v)"
    using vs(2)
  proof
    assume "v = NArray vs"
    then show ?thesis using item_objects_in [OF o1(1), of ms1] by simp
  next
    assume "vs = [v]"
    then have "v = NObject ms1" using o1(1) by simp
    then show ?thesis by simp
  qed
  then show ?thesis using member_objects_in [OF m] o1(2) by blast
qed

lemma price_from_in:
  "priceFromJSONLD v = Some r \<Longrightarrow> \<exists>o1 \<in> set (objects v). own_price o1 = Some r"
  "first_member_price ms = Some r \<Longrightarrow> \<exists>o1 \<in> set (member_objects ms). own_price o1 = Some r"
  "first_item_price vs = Some r \<Longrightarrow> \<exists>o1 \<in> set (item_objects vs). own_price o1 = Some r"
  by (induction v and ms and vs rule: objects_member_objects_item_objects.induct)
    (auto split: option.splits dest: offered_in)

lemma price_from_none:
  "priceFromJSONLD v = None \<Longrightarrow> o1 \<in> set (objects v) \<Longrightarrow> own_price o1 = None"
  "first_member_price ms = None \<Longrightarrow> o1 \<in> set (member_objects ms) \<Longrightarrow> own_price o1 = None"
  "first_item_price vs = None \<Longrightarrow> o1 \<in> set (item_objects vs) \<Longrightarrow> own_price o1 = None"
  by (induction v and ms and vs rule: objects_member_objects_item_objects.induct)
    (auto split: option.splits)

subsection \<open>The number in a text\<close>

definition price_digits :: "string \<Rightarrow> string" where
  "price_digits s =
     (let rest = dropWhile (\<lambda>c. \<not> is_digit c) s;
          whole = takeWhile (\<lambda>c. is_digit c \<or> c = CHR '','') rest
      in whole @ (case drop (length whole) rest of [] \<Rightarrow> []
                  | c # f \<Rightarrow> if c = CHR ''.'' \<and> takeWhile is_digit f \<noteq> [] then c # takeWhile is_digit f else []))"

text \<open>\<open>strconv.ParseFloat\<close> on plain digits with an optional fraction: an error from the first number that does not
  round to a finite float64.\<close>

definition float_limit :: rat where "float_limit = 2 ^ 1024 - 2 ^ 970"

definition decimal_value :: "string \<Rightarrow> rat" where
  "decimal_value s =
     (case cut_at (CHR ''.'') s of (w, f, found) \<Rightarrow>
        rat_of_int (digits_value w) + rat_of_int (digits_value f) / 10 ^ length f)"

definition coercePrice :: "string \<Rightarrow> rat option" where
  "coercePrice s =
     (if price_digits s = [] then None
      else (let v = decimal_value (filter (\<lambda>c. c \<noteq> CHR '','') (price_digits s))
            in if float_limit \<le> v then None else Some v))"

subsection \<open>The page\<close>

text \<open>A page as the regular expressions split it: the start tags outside scripts, with their attributes as written,
  and the scripts with the tokens of their trimmed text.\<close>

record page_parts =
  pg_tags :: "(string \<times> (string \<times> string) list) list"
  pg_scripts :: "((string \<times> string) list \<times> token list) list"

record quote =
  qu_price :: "rat option"
  qu_currency :: string

definition attributes :: "(string \<Rightarrow> string) \<Rightarrow> (string \<times> string) list \<Rightarrow> string \<Rightarrow> string" where
  "attributes unescape raw k =
     (case map_of (map (\<lambda>(n, v). (to_lower n, unescape v)) raw) k of None \<Rightarrow> [] | Some v \<Rightarrow> v)"

definition metaPriceKeys :: "string list" where
  "metaPriceKeys = [''og:price:amount'', ''product:price:amount'']"
definition metaCurrencyKeys :: "string list" where
  "metaCurrencyKeys = [''og:price:currency'', ''product:price:currency'']"

definition meta_tag :: "(string \<Rightarrow> string) \<Rightarrow> string \<times> (string \<times> string) list \<Rightarrow> string \<times> string \<Rightarrow> string \<times> string" where
  "meta_tag unescape tag acc =
     (let attrs = attributes unescape (snd tag); content = trim_space (attrs ''content'');
          key = to_lower (if attrs ''property'' = [] then attrs ''name'' else attrs ''property'');
          (price, currency) =
            (if to_lower (fst tag) = ''meta'' \<and> content \<noteq> []
             then (if fst acc = [] \<and> key \<in> set metaPriceKeys then (content, snd acc)
                   else if snd acc = [] \<and> key \<in> set metaCurrencyKeys then (fst acc, content)
                   else acc)
             else acc)
      in (if price = [] \<and> content \<noteq> [] \<and> to_lower (attrs ''itemprop'') = ''price'' then content else price, currency))"

fun script_price :: "(string \<Rightarrow> string) \<Rightarrow> string \<Rightarrow> ((string \<times> string) list \<times> token list) list \<Rightarrow> quote option" where
  "script_price unescape metaCurrency [] = None"
| "script_price unescape metaCurrency ((attrs, ts) # scripts) =
     (if to_lower (trim_space (attributes unescape attrs ''type'')) \<noteq> ''application/ld+json''
      then script_price unescape metaCurrency scripts
      else (case decodeOrdered ts of None \<Rightarrow> script_price unescape metaCurrency scripts
            | Some block \<Rightarrow>
                (case priceFromJSONLD block of None \<Rightarrow> script_price unescape metaCurrency scripts
                 | Some (raw, currency) \<Rightarrow>
                     (case coercePrice raw of None \<Rightarrow> script_price unescape metaCurrency scripts
                      | Some p \<Rightarrow> Some \<lparr>qu_price = Some p,
                          qu_currency = (if currency = [] then metaCurrency else currency)\<rparr>))))"

definition ParsePrice :: "(string \<Rightarrow> string) \<Rightarrow> page_parts \<Rightarrow> quote" where
  "ParsePrice unescape pg =
     (case fold (meta_tag unescape) (pg_tags pg) ([], []) of (metaPrice, metaCurrency) \<Rightarrow>
        (case coercePrice metaPrice of
           Some p \<Rightarrow> \<lparr>qu_price = Some p, qu_currency = metaCurrency\<rparr>
         | None \<Rightarrow>
             (case script_price unescape metaCurrency (pg_scripts pg) of Some q \<Rightarrow> q
              | None \<Rightarrow> \<lparr>qu_price = None, qu_currency = metaCurrency\<rparr>)))"

definition no_quote :: quote where "no_quote = \<lparr>qu_price = None, qu_currency = []\<rparr>"

definition FetchPrice ::
  "net \<Rightarrow> http_config \<Rightarrow> (string \<Rightarrow> string) \<Rightarrow> (string \<Rightarrow> page_parts) \<Rightarrow> string \<Rightarrow> http_err + quote" where
  "FetchPrice e c unescape split url =
     bind_r (snd (http_Get e c url)) (\<lambda>r.
       if hr_status r < 200 \<or> 299 < hr_status r then Inr no_quote
       else if \<not> contains_str (to_lower (hr_content r)) ''html'' then Inr no_quote
       else Inr (ParsePrice unescape (split (hr_body r))))"

subsection \<open>What the page says is found\<close>

text \<open>A price in a JSON-LD block is found exactly when there is one.  A block is decoded to the value it was written
  from, in the order of its keys; the walk finds a price exactly when some object of the value, at any depth, has
  one, and what it finds is the price and the currency of such an object.\<close>

theorem json_ld_price_is_found:
  "decodeOrdered (tokens_of v) = Some v
   \<and> (priceFromJSONLD v \<noteq> None) = (\<exists>ms \<in> set (objects v). own_price ms \<noteq> None)
   \<and> set_option (priceFromJSONLD v) \<subseteq> {r. \<exists>ms \<in> set (objects v). own_price ms = Some r}"
  using price_from_in(1) [of v] price_from_none(1) [of v] decodeOrdered_tokens [of v]
  by (cases "priceFromJSONLD v") fastforce+

end
