(* ===== verification/Identity.thy ===== *)
theory Identity
  imports SafeHttp Platform "HOL-Library.Multiset" "HOL-Library.Product_Lexorder"
begin

text \<open>
  From a shared link to the identity the service keys on (\<open>internal/sourceidentity\<close>): parsing, normalisation, the
  identity of each platform, and the choice of one link out of a shared text.  \<open>url.Parse\<close>, the two network
  resolvers and SHA-256 are arguments; the escaping of \<open>net/url\<close> is written out.  A parsed link has its path
  and its query decoded.
\<close>

record link = url +
  lk_path :: string
  lk_query :: "(string \<times> string) list"

type_synonym 'a resolved = "string + 'a"

subsection \<open>Escaping (net/url)\<close>

definition unreserved :: "char \<Rightarrow> bool" where
  "unreserved c = (is_upper c \<or> is_lower c \<or> is_digit c \<or> c \<in> set ''-_.~'')"

definition hex_digit :: "nat \<Rightarrow> char" where
  "hex_digit n = char_of (if n < 10 then 48 + n else 55 + n)"

definition percent :: "char \<Rightarrow> string" where
  "percent c = [CHR ''%'', hex_digit (char_code c div 16), hex_digit (char_code c mod 16)]"

definition QueryEscape :: "string \<Rightarrow> string" where
  "QueryEscape s = concat (map (\<lambda>c. if unreserved c then [c] else if c = CHR '' '' then ''+'' else percent c) s)"

definition escape_path :: "string \<Rightarrow> string" where
  "escape_path s = concat (map (\<lambda>c. if unreserved c \<or> c \<in> set ''$&+,/:;=@'' then [c] else percent c) s)"

subsection \<open>Hosts and paths\<close>

definition strip_prefix :: "string \<Rightarrow> string \<Rightarrow> string" where
  "strip_prefix p s = trim_prefix s p"

definition normalizedHost :: "string \<Rightarrow> string" where
  "normalizedHost host = strip_prefix ''mobile.'' (strip_prefix ''m.'' (strip_prefix ''www.'' (to_lower host)))"

definition matchesHost :: "string \<Rightarrow> string list \<Rightarrow> bool" where
  "matchesHost host hosts = list_ex (\<lambda>c. host = c \<or> has_suffix host (CHR ''.'' # c)) hosts"

definition segments :: "string \<Rightarrow> string list" where
  "segments path = filter (\<lambda>s. s \<noteq> []) (split_on (CHR ''/'') path)"

fun collapse_slashes :: "string \<Rightarrow> string" where
  "collapse_slashes (c # d # s) =
     (if c = CHR ''/'' \<and> d = CHR ''/'' then collapse_slashes (d # s) else c # collapse_slashes (d # s))"
| "collapse_slashes s = s"

definition normal_path :: "string \<Rightarrow> string" where
  "normal_path p =
     (let p1 = collapse_slashes (if p = [] then ''/'' else p);
          p2 = (if p1 \<noteq> ''/'' then trim_right_by (\<lambda>c. c = CHR ''/'') p1 else p1)
      in if p2 = [] then ''/'' else p2)"

definition with_scheme :: "string \<Rightarrow> string" where
  "with_scheme raw = (if contains_str raw ''://'' then raw else ''https://'' @ dropWhile (\<lambda>c. c = CHR ''/'') raw)"

subsection \<open>Parsing and normalisation\<close>

definition parse_link :: "(string \<Rightarrow> link option) \<Rightarrow> string \<Rightarrow> (link \<times> string) resolved" where
  "parse_link parse rawURL =
     (let raw = trim_space rawURL
      in if raw = [] then Inl ''a url is required''
         else if 2048 < length raw then Inl ''over 2048 characters''
         else (case parse (with_scheme raw) of None \<Rightarrow> Inl ''not a url''
               | Some u \<Rightarrow>
                   if to_lower (u_scheme u) \<noteq> ''http'' \<and> to_lower (u_scheme u) \<noteq> ''https''
                   then Inl ''only http and https are supported''
                   else if u_user u then Inl ''credentials in a url are not allowed''
                   else (let host = normalizedHost (Hostname u)
                         in if host = [] then Inl ''the url has no host''
                            else if CHR ''%'' \<in> set host then Inl ''an ipv6 zone identifier is not allowed''
                            else if Port u \<noteq> [] \<and> Port u \<noteq> ''80'' \<and> Port u \<noteq> ''443'' then Inl ''only ports 80 and 443 are allowed''
                            else Inr (u, host))))"

definition trackingQueryKeys :: "string list" where
  "trackingQueryKeys = [''fbclid'', ''feature'', ''igsh'', ''igshid'', ''pp'', ''si'', ''share_app_id'', ''share_item_id'', ''spm'']"

definition isTrackingKey :: "string \<Rightarrow> bool" where
  "isTrackingKey k = (has_prefix (to_lower k) ''utm_'' \<or> to_lower k \<in> set trackingQueryKeys)"

definition kept_query :: "(string \<times> string) list \<Rightarrow> (string \<times> string) list" where
  "kept_query q = filter (\<lambda>(k, v). \<not> isTrackingKey k \<and> v \<noteq> []) q"

text \<open>Keys in order, and the values of each key in order.\<close>

definition ordered_query :: "(string \<times> string) list \<Rightarrow> (string \<times> string) list" where
  "ordered_query kept =
     concat (map (\<lambda>k. map (\<lambda>v. (k, v)) (sort (map snd (filter (\<lambda>e. fst e = k) kept)))) (sort (remdups (map fst kept))))"

definition write_query :: "(string \<times> string) list \<Rightarrow> string" where
  "write_query es = join_with ''&'' (map (\<lambda>(k, v). QueryEscape k @ ''='' @ QueryEscape v) es)"

definition link_host :: "link \<Rightarrow> string \<Rightarrow> string" where
  "link_host u preferred =
     (let host = to_lower (if preferred = [] then Hostname u else preferred)
      in if CHR '':'' \<in> set host then ''['' @ host @ '']'' else host)"

definition url_string :: "string \<Rightarrow> string \<Rightarrow> (string \<times> string) list \<Rightarrow> string" where
  "url_string host path q =
     ''https://'' @ host @ (if hd path = CHR ''/'' then escape_path path else CHR ''/'' # escape_path path)
     @ (if q = [] then [] else ''?'' @ write_query q)"

definition normalizeGenericURL :: "link \<Rightarrow> string \<Rightarrow> string" where
  "normalizeGenericURL u preferred =
     url_string (link_host u preferred) (normal_path (lk_path u)) (ordered_query (kept_query (lk_query u)))"

definition contentHash :: "(string \<Rightarrow> string) \<Rightarrow> string \<Rightarrow> string" where
  "contentHash sha n = take 16 (sha n)"

subsection \<open>The platforms\<close>

definition all_digits :: "string \<Rightarrow> bool" where
  "all_digits s = (s \<noteq> [] \<and> list_all is_digit s)"

definition isAlphanumericUnderscore :: "string \<Rightarrow> bool" where
  "isAlphanumericUnderscore s = (s \<noteq> [] \<and> list_all (\<lambda>c. is_lower c \<or> is_upper c \<or> is_digit c \<or> c = CHR ''_'') s)"

text \<open>The segment after the first one that satisfies \<open>P\<close> and is followed by one that satisfies \<open>Q\<close>.\<close>

fun after_segment :: "(string \<Rightarrow> bool) \<Rightarrow> (string \<Rightarrow> bool) \<Rightarrow> string list \<Rightarrow> string" where
  "after_segment P Q (s # t # ts) = (if P s \<and> Q t then t else after_segment P Q (t # ts))"
| "after_segment P Q _ = []"

definition make_identity :: "string \<Rightarrow> string \<Rightarrow> string \<Rightarrow> string \<Rightarrow> string \<Rightarrow> access_scope \<Rightarrow> source_identity" where
  "make_identity raw n platform t content scope =
     \<lparr>id_original = raw, id_normalized = n, id_platform = platform, id_type = t, id_content = content, id_scope = scope\<rparr>"

definition instagramIdentity :: "string \<Rightarrow> link \<Rightarrow> source_identity" where
  "instagramIdentity raw u =
     (let page = make_identity raw (normalizeGenericURL u ''www.instagram.com'') ''instagram'' ''page'' [] (UserScope [])
      in case segments (lk_path u) of
           kind # code # _ \<Rightarrow>
             if to_lower kind \<in> {''reel'', ''reels''}
             then make_identity raw (''https://www.instagram.com/reel/'' @ code @ ''/'') ''instagram'' ''reel'' code PublicScope
             else if to_lower kind = ''p''
             then make_identity raw (''https://www.instagram.com/p/'' @ code @ ''/'') ''instagram'' ''post'' code PublicScope
             else if to_lower kind = ''tv''
             then make_identity raw (''https://www.instagram.com/tv/'' @ code @ ''/'') ''instagram'' ''video'' code PublicScope
             else page
         | _ \<Rightarrow> page)"

definition scope_of_id :: "string \<Rightarrow> access_scope" where
  "scope_of_id i = (if i = [] then UserScope [] else PublicScope)"

definition tiktokIdentity :: "string \<Rightarrow> link \<Rightarrow> source_identity" where
  "tiktokIdentity raw u =
     (let video = after_segment (\<lambda>s. equal_fold s ''video'') (\<lambda>_. True) (segments (lk_path u))
      in make_identity raw (normalizeGenericURL u ''www.tiktok.com'') ''tiktok'' ''video'' video (scope_of_id video))"

definition query_get :: "string \<Rightarrow> (string \<times> string) list \<Rightarrow> string" where
  "query_get k q = (case map_of q k of Some v \<Rightarrow> v | None \<Rightarrow> [])"

definition youtubeIdentity :: "string \<Rightarrow> link \<Rightarrow> string \<Rightarrow> source_identity" where
  "youtubeIdentity raw u host =
     (let parts = segments (lk_path u);
          (video, t, n) =
            (if host = ''youtu.be'' \<and> parts \<noteq> [] then (hd parts, ''short'', ''https://www.youtube.com/shorts/'' @ hd parts)
             else if 2 \<le> length parts \<and> equal_fold (parts ! 0) ''shorts''
             then (parts ! 1, ''short'', ''https://www.youtube.com/shorts/'' @ parts ! 1)
             else (let v = query_get ''v'' (lk_query u)
                   in (v, ''video'', if v \<noteq> [] then ''https://www.youtube.com/watch?v='' @ QueryEscape v
                                     else normalizeGenericURL u ''www.youtube.com'')))
      in make_identity raw n ''youtube'' t video (scope_of_id video))"

definition directXHosts :: "string list" where
  "directXHosts = [''x.com'', ''www.x.com'', ''twitter.com'', ''www.twitter.com'', ''mobile.twitter.com'', ''mobile.x.com'']"

text \<open>The user and the post of the path of a post; a photo or a video of a post names the post.\<close>

definition x_post :: "string list \<Rightarrow> string \<times> string" where
  "x_post segs =
     (let parts = (case segs of
            [a, st, b, kind, n] \<Rightarrow>
              if equal_fold st ''status'' \<and> (equal_fold kind ''photo'' \<or> equal_fold kind ''video'') \<and> all_digits n
              then [a, st, b] else segs
          | _ \<Rightarrow> segs)
      in case parts of
           [user, st, post] \<Rightarrow> if equal_fold st ''status'' then (user, post) else ([], [])
         | [i, web, st, post] \<Rightarrow>
             if equal_fold i ''i'' \<and> equal_fold web ''web'' \<and> equal_fold st ''status'' then ([], post) else ([], [])
         | _ \<Rightarrow> ([], []))"

definition parseDirectXPostURL :: "(string \<Rightarrow> link option) \<Rightarrow> string \<Rightarrow> string \<Rightarrow> source_identity resolved" where
  "parseDirectXPostURL parse rawURL original =
     (case parse (trim_space rawURL) of None \<Rightarrow> Inl ''not a url''
      | Some u \<Rightarrow>
          if to_lower (u_scheme u) \<noteq> ''http'' \<and> to_lower (u_scheme u) \<noteq> ''https'' then Inl ''only http and https are supported''
          else if to_lower (Hostname u) \<notin> set directXHosts then Inl ''only direct x.com or twitter.com post urls are supported''
          else (let (user, post) = x_post (segments (lk_path u))
                in if \<not> all_digits post then Inl ''the url is not an X post url with a numeric post id''
                   else if user \<noteq> [] \<and> \<not> isAlphanumericUnderscore user then Inl ''the X post username is invalid''
                   else Inr (make_identity original
                          (if user = [] then ''https://x.com/i/web/status/'' @ post
                           else ''https://x.com/'' @ user @ ''/status/'' @ post) ''x'' ''post'' post PublicScope)))"

record resolver =
  rv_parse :: "string \<Rightarrow> link option"
  rv_sha :: "string \<Rightarrow> string"
  rv_redirects :: "(string \<Rightarrow> string option) option"
  rv_reddit :: "(string \<Rightarrow> string option) option"

definition xIdentity :: "resolver \<Rightarrow> string \<Rightarrow> link \<Rightarrow> string \<Rightarrow> source_identity resolved" where
  "xIdentity r raw u host =
     (if host \<noteq> ''t.co'' then parseDirectXPostURL (rv_parse r) raw raw
      else (case rv_redirects r of None \<Rightarrow> Inl ''a t.co link needs redirect resolution''
            | Some follow_link \<Rightarrow>
                (case follow_link (u_text u) of None \<Rightarrow> Inl ''the shortened link could not be resolved safely''
                 | Some to \<Rightarrow>
                     (case parseDirectXPostURL (rv_parse r) to raw of
                        Inl _ \<Rightarrow> Inl ''the t.co link does not resolve to a supported X post'' | Inr i \<Rightarrow> Inr i))))"

definition pinterestIdentity :: "(string \<Rightarrow> string) \<Rightarrow> string \<Rightarrow> link \<Rightarrow> source_identity" where
  "pinterestIdentity sha raw u =
     (let pin = after_segment (\<lambda>s. s = ''pin'') all_digits (segments (lk_path u));
          n = normalizeGenericURL u []
      in if pin \<noteq> [] then make_identity raw (''https://www.pinterest.com/pin/'' @ pin @ ''/'') ''pinterest'' ''pin'' pin PublicScope
         else make_identity raw n ''pinterest'' ''pin'' (contentHash sha n) (UserScope []))"

definition pinterestShortIdentity :: "resolver \<Rightarrow> string \<Rightarrow> link \<Rightarrow> source_identity resolved" where
  "pinterestShortIdentity r raw u =
     (case rv_redirects r of None \<Rightarrow> Inr (pinterestIdentity (rv_sha r) raw u)
      | Some follow_link \<Rightarrow>
          (case follow_link (u_text u) of None \<Rightarrow> Inl ''the shortened pin could not be resolved safely''
           | Some to \<Rightarrow>
               (case parse_link (rv_parse r) to of Inl _ \<Rightarrow> Inl ''the pin.it link does not resolve to a Pinterest pin''
                | Inr (d, host) \<Rightarrow>
                    if \<not> matchesHost host [''pinterest.com''] then Inl ''the pin.it link does not resolve to a Pinterest pin''
                    else (let i = pinterestIdentity (rv_sha r) raw d
                          in if IsPublic (id_scope i) then Inr i
                             else Inl ''the pin.it link does not resolve to a numeric pin id''))))"

definition urn_kinds :: "(string \<times> string) list" where
  "urn_kinds = [(''activity'', ''activity''), (''ugcpost'', ''ugcPost''), (''share'', ''share'')]"

text \<open>The pattern of a LinkedIn post, at one position and at the first that fits: a kind, a colon or a hyphen, and at
  least six digits.  The optional \<open>urn:li:\<close> before it takes part in no group and moves no match.\<close>

definition urn_here :: "string \<Rightarrow> (string \<times> string) option" where
  "urn_here s =
     (case find (\<lambda>(k, _). has_prefix (to_lower s) k) urn_kinds of None \<Rightarrow> None
      | Some (k, urn) \<Rightarrow>
          (case drop (length k) s of [] \<Rightarrow> None
           | c # rest \<Rightarrow>
               if (c = CHR '':'' \<or> c = CHR ''-'') \<and> 6 \<le> length (takeWhile is_digit rest)
               then Some (urn, takeWhile is_digit rest) else None))"

fun find_urn :: "string \<Rightarrow> (string \<times> string) option" where
  "find_urn [] = None"
| "find_urn (c # s) = (case urn_here (c # s) of Some m \<Rightarrow> Some m | None \<Rightarrow> find_urn s)"

text \<open>The first run of at least five digits.\<close>

fun find_digits :: "string \<Rightarrow> string" where
  "find_digits [] = []"
| "find_digits (c # s) =
     (if 5 \<le> length (takeWhile is_digit (c # s)) then takeWhile is_digit (c # s) else find_digits s)"

definition linkedInPageKinds :: "(string \<times> string) list" where
  "linkedInPageKinds =
     [(''in'', ''profile''), (''company'', ''company''), (''school'', ''company''), (''jobs'', ''job''), (''pulse'', ''article''),
      (''newsletters'', ''newsletter''), (''newsletter'', ''newsletter''), (''events'', ''event''), (''groups'', ''group''),
      (''learning'', ''course'')]"

definition linkedinPageKind :: "string \<Rightarrow> string \<times> string" where
  "linkedinPageKind path =
     (case segments path of [] \<Rightarrow> (''page'', [])
      | p # ps \<Rightarrow>
          (let kind = (case map_of linkedInPageKinds (to_lower p) of Some k \<Rightarrow> k | None \<Rightarrow> ''page'')
           in if kind = ''job'' then (kind, find_digits path)
              else (kind, case ps of [] \<Rightarrow> [] | s # _ \<Rightarrow> s)))"

definition linkedinIdentity :: "(string \<Rightarrow> string) \<Rightarrow> string \<Rightarrow> link \<Rightarrow> source_identity" where
  "linkedinIdentity sha raw u =
     (case find_urn (lk_path u) of
        Some (urn, post) \<Rightarrow>
          make_identity raw (''https://www.linkedin.com/feed/update/urn:li:'' @ urn @ '':'' @ post @ ''/'') ''linkedin'' ''post'' post PublicScope
      | None \<Rightarrow>
          (let (t, slug) = linkedinPageKind (lk_path u); n = normalizeGenericURL u ''www.linkedin.com''
           in make_identity raw n ''linkedin'' t (if slug = [] then contentHash sha n else slug) (UserScope [])))"

definition redditPostID :: "string \<Rightarrow> string \<Rightarrow> string" where
  "redditPostID path host =
     (let parts = segments path; i = after_segment (\<lambda>s. s = ''comments'') (\<lambda>_. True) parts
      in if i \<noteq> [] then i
         else if host = ''redd.it'' \<and> parts \<noteq> [] \<and> \<not> equal_fold (hd parts) ''r'' then hd parts else [])"

definition redditShare :: "string \<Rightarrow> bool" where
  "redditShare path =
     (case split_on (CHR ''/'') path of
        a # r # sub # s # code # rest \<Rightarrow>
          a = [] \<and> r = ''r'' \<and> sub \<noteq> [] \<and> s = ''s'' \<and> code \<noteq> [] \<and> (rest = [] \<or> rest = [[]])
      | _ \<Rightarrow> False)"

definition redditIdentity :: "resolver \<Rightarrow> string \<Rightarrow> link \<Rightarrow> string \<Rightarrow> source_identity resolved" where
  "redditIdentity r raw u host =
     (let direct = redditPostID (lk_path u) host;
          finish = (\<lambda>post. if \<not> isAlphanumericUnderscore post then Inl ''the url is not a supported reddit post url''
             else Inr (make_identity raw (''https://www.reddit.com/comments/'' @ post @ ''/'') ''reddit'' ''post'' post PublicScope))
      in if direct = [] \<and> redditShare (lk_path u)
         then (case rv_reddit r of None \<Rightarrow> Inl ''a reddit share link needs share resolution''
               | Some share \<Rightarrow>
                   (case share raw of None \<Rightarrow> finish []
                    | Some canonical \<Rightarrow>
                        if canonical = [] then finish []
                        else (case parse_link (rv_parse r) canonical of Inl _ \<Rightarrow> finish []
                              | Inr (c, chost) \<Rightarrow> finish (redditPostID (lk_path c) chost))))
         else finish direct)"

definition genericIdentity :: "(string \<Rightarrow> string) \<Rightarrow> string \<Rightarrow> link \<Rightarrow> string \<Rightarrow> source_identity" where
  "genericIdentity sha raw u platform =
     (let n = normalizeGenericURL u []
      in make_identity raw n (if platform = [] then normalizedHost (Hostname u) else platform) ''link'' (contentHash sha n) (UserScope []))"

definition placeHostTokens :: "(string \<times> string) list" where
  "placeHostTokens = [(''tripadvisor'', ''tripadvisor''), (''airbnb'', ''airbnb''), (''zomato'', ''zomato''),
     (''swiggy'', ''swiggy''), (''makemytrip'', ''makemytrip''), (''booking.com'', ''booking'')]"

definition placePlatform :: "string \<Rightarrow> string \<Rightarrow> string" where
  "placePlatform host path =
     (if host = ''maps.app.goo.gl'' \<or> has_prefix host ''maps.google.'' then ''google_maps''
      else if host = ''goo.gl'' \<and> has_prefix (to_lower path) ''/maps'' then ''google_maps''
      else if contains_str host ''google.'' \<and> has_prefix (to_lower path) ''/maps'' then ''google_maps''
      else (case find (\<lambda>(t, _). contains_str host t) placeHostTokens of Some (_, p) \<Rightarrow> p | None \<Rightarrow> []))"

subsection \<open>Resolving\<close>

definition Resolve :: "resolver \<Rightarrow> string \<Rightarrow> source_identity resolved" where
  "Resolve r rawURL =
     bind_r (parse_link (rv_parse r) rawURL) (\<lambda>(u, host).
       let raw = with_scheme (trim_space rawURL)
       in if matchesHost host [''instagram.com'', ''instagr.am''] then Inr (instagramIdentity raw u)
          else if matchesHost host [''tiktok.com''] then Inr (tiktokIdentity raw u)
          else if matchesHost host [''youtube.com'', ''youtu.be''] then Inr (youtubeIdentity raw u host)
          else if host \<in> {''x.com'', ''twitter.com'', ''t.co''} then xIdentity r raw u host
          else if matchesHost host [''linkedin.com''] then Inr (linkedinIdentity (rv_sha r) raw u)
          else if matchesHost host [''reddit.com''] \<or> host = ''redd.it'' then redditIdentity r raw u host
          else if matchesHost host [''pinterest.com''] then Inr (pinterestIdentity (rv_sha r) raw u)
          else if host = ''pin.it'' then pinterestShortIdentity r raw u
          else Inr (genericIdentity (rv_sha r) raw u (placePlatform host (lk_path u))))"

subsection \<open>Shared text\<close>

definition MaxSharePayloadLength :: nat where "MaxSharePayloadLength = 8192"

definition re_space :: "char \<Rightarrow> bool" where
  "re_space c = (char_code c \<in> {9, 10, 12, 13, 32})"

definition url_char :: "char \<Rightarrow> bool" where
  "url_char c = (\<not> re_space c \<and> c \<notin> set ''<>'' \<and> char_code c \<noteq> 34 \<and> char_code c \<noteq> 39)"

text \<open>The pattern at one position: a scheme or \<open>www.\<close>, whatever its case, and at least one character more.\<close>

definition url_prefix :: "string \<Rightarrow> string option" where
  "url_prefix s =
     find (\<lambda>p. has_prefix (to_lower s) p \<and> takeWhile url_char (drop (length p) s) \<noteq> []) [''https://'', ''http://'', ''www.'']"

definition url_here :: "string \<Rightarrow> string option" where
  "url_here s = map_option (\<lambda>p. take (length p) s @ takeWhile url_char (drop (length p) s)) (url_prefix s)"

function find_urls :: "string \<Rightarrow> string list" where
  "find_urls s =
     (case s of [] \<Rightarrow> []
      | c # rest \<Rightarrow> (case url_here s of Some m \<Rightarrow> m # find_urls (drop (max 1 (length m)) s) | None \<Rightarrow> find_urls rest))"
  by pat_completeness auto
termination by (relation "measure length") auto

declare find_urls.simps [simp del]

definition urlTrailing :: "char \<Rightarrow> bool" where
  "urlTrailing c = (c \<in> set '').,]}'' \<or> char_code c = 34 \<or> char_code c = 39)"

text \<open>Without duplicates, in the order of the text.\<close>

definition first_seen :: "string list \<Rightarrow> string list" where
  "first_seen xs = rev (remdups (rev xs))"

definition ExtractURLCandidates :: "string \<Rightarrow> string list" where
  "ExtractURLCandidates payload =
     first_seen (filter (\<lambda>c. c \<noteq> []) (map (trim_right_by urlTrailing) (find_urls (take MaxSharePayloadLength payload))))"

definition opaqueShorteners :: "string list" where
  "opaqueShorteners = [''t.co'', ''lnkd.in'', ''ig.me'', ''bit.ly'', ''tinyurl.com'', ''goo.gl'']"

definition candidateHost :: "(string \<Rightarrow> link option) \<Rightarrow> string \<Rightarrow> string" where
  "candidateHost parse raw =
     (case parse (if contains_str raw ''://'' then raw else ''https://'' @ raw) of
        None \<Rightarrow> [] | Some u \<Rightarrow> trim_prefix (to_lower (Hostname u)) ''www.'')"

definition SelectPrimaryURL :: "(string \<Rightarrow> link option) \<Rightarrow> string list \<Rightarrow> string" where
  "SelectPrimaryURL parse cs =
     (case cs of [] \<Rightarrow> []
      | c # _ \<Rightarrow> (case find (\<lambda>x. candidateHost parse x \<notin> set opaqueShorteners) cs of Some x \<Rightarrow> x | None \<Rightarrow> c))"

definition ResolvePayload :: "resolver \<Rightarrow> string \<Rightarrow> source_identity resolved" where
  "ResolvePayload r payload =
     (let extracted = SelectPrimaryURL (rv_parse r) (ExtractURLCandidates payload)
      in if extracted = [] then Inl ''unsupported url'' else Resolve r extracted)"

subsection \<open>The query in order\<close>

lemma sorted_pairs_key: "sorted vs \<Longrightarrow> sorted (map (\<lambda>v. (k, v)) vs)"
  by (simp add: sorted_wrt_map less_eq_prod_def)

text \<open>Sorting by key and then the values of each key is sorting the pairs.\<close>

definition block :: "(string \<times> string) list \<Rightarrow> string \<Rightarrow> (string \<times> string) list" where
  "block es k = map (\<lambda>v. (k, v)) (sort (map snd (filter (\<lambda>e. fst e = k) es)))"

lemma mset_block: "mset (block es k) = filter_mset (\<lambda>e. fst e = k) (mset es)"
proof -
  have "map (\<lambda>v. (k, v)) (map snd (filter (\<lambda>e. fst e = k) es)) = filter (\<lambda>e. fst e = k) es"
    by (induction es) auto
  then have "image_mset (\<lambda>v. (k, v)) (mset (map snd (filter (\<lambda>e. fst e = k) es))) = mset (filter (\<lambda>e. fst e = k) es)"
    by (metis mset_map)
  then show ?thesis by (simp add: block_def)
qed

lemma mset_blocks:
  "distinct ks \<Longrightarrow> mset (concat (map (block es) ks)) = filter_mset (\<lambda>e. fst e \<in> set ks) (mset es)"
proof (induction ks)
  case (Cons k ks)
  have "filter_mset (\<lambda>e. fst e = k) (mset es) + filter_mset (\<lambda>e. fst e \<in> set ks) (mset es)
      = filter_mset (\<lambda>e. fst e \<in> set (k # ks)) (mset es)"
    using Cons.prems by (auto simp: multiset_eq_iff)
  then show ?case using Cons by (simp add: mset_block)
qed simp

lemma sorted_blocks: "sorted_wrt (<) ks \<Longrightarrow> sorted (concat (map (block es) ks))"
proof (induction ks)
  case (Cons k ks)
  have "sorted (block es k)" by (simp add: block_def sorted_pairs_key)
  moreover have "\<forall>x \<in> set (block es k). \<forall>y \<in> set (concat (map (block es) ks)). x \<le> y"
    using Cons.prems by (auto simp: block_def less_eq_prod_def)
  ultimately show ?case using Cons by (simp add: sorted_append)
qed simp

lemma ordered_query_sort: "ordered_query es = sort es"
proof -
  let ?ks = "sort (remdups (map fst es))"
  have q: "ordered_query es = concat (map (block es) ?ks)" by (simp add: ordered_query_def block_def [abs_def])
  have "filter_mset (\<lambda>e. fst e \<in> set (map fst es)) (mset es) = mset es"
    by (rule filter_mset_eq_conv [THEN iffD2]) auto
  then have "mset (ordered_query es) = mset es" unfolding q by (subst mset_blocks) auto
  moreover have "sorted_wrt (<) ?ks" by (simp add: strict_sorted_iff)
  then have "sorted (ordered_query es)" unfolding q by (rule sorted_blocks)
  ultimately show ?thesis by (metis properties_for_sort)
qed

lemma kept_query_sort: "kept_query (sort (kept_query q)) = sort (kept_query q)"
  by (auto simp: kept_query_def filter_id_conv)

subsection \<open>The path\<close>

lemma collapse_Nil [simp]: "collapse_slashes p = [] \<longleftrightarrow> p = []"
  by (induction p rule: collapse_slashes.induct) auto

lemma collapse_hd: "p \<noteq> [] \<Longrightarrow> hd (collapse_slashes p) = hd p"
  by (induction p rule: collapse_slashes.induct) auto

fun single_slashes :: "string \<Rightarrow> bool" where
  "single_slashes (c # d # s) = (\<not> (c = CHR ''/'' \<and> d = CHR ''/'') \<and> single_slashes (d # s))"
| "single_slashes s = True"

lemma single_slashes_Cons: "single_slashes s \<Longrightarrow> \<not> (c = CHR ''/'' \<and> s \<noteq> [] \<and> hd s = CHR ''/'') \<Longrightarrow> single_slashes (c # s)"
  by (cases s) auto

lemma collapse_single: "single_slashes (collapse_slashes p)"
proof (induction p rule: collapse_slashes.induct)
  case (1 c d s)
  then show ?case using collapse_hd [of "d # s"]
    by (auto intro!: single_slashes_Cons)
qed auto

lemma single_collapse: "single_slashes p \<Longrightarrow> collapse_slashes p = p"
  by (induction p rule: single_slashes.induct) auto

lemma single_slashes_take: "single_slashes (p @ q) \<Longrightarrow> single_slashes p"
  by (induction p rule: single_slashes.induct) auto

lemma single_slashes_trim: "single_slashes p \<Longrightarrow> single_slashes (trim_right_by P p)"
  by (metis trim_right_by_prefix single_slashes_take)

lemma normal_path_idem [simp]: "normal_path (normal_path p) = normal_path p"
proof -
  let ?t = "trim_right_by (\<lambda>c. c = CHR ''/'')"
  have stays: "normal_path q = q" if "single_slashes q" "q = ''/'' \<or> q \<noteq> [] \<and> ?t q = q" for q
    using that single_collapse [OF that(1)] by (auto simp: normal_path_def)
  let ?c = "collapse_slashes (if p = [] then ''/'' else p)"
  have n: "normal_path p = (if ?c = ''/'' \<or> ?t ?c = [] then ''/'' else ?t ?c)"
    by (auto simp: normal_path_def Let_def)
  have "single_slashes (normal_path p)" unfolding n using collapse_single single_slashes_trim by auto
  then show ?thesis by (rule stays) (auto simp: n)
qed

lemma normal_path_slash: "p = [] \<or> hd p = CHR ''/'' \<Longrightarrow> hd (normal_path p) = CHR ''/''"
proof -
  assume "p = [] \<or> hd p = CHR ''/''"
  then have h: "hd (collapse_slashes (if p = [] then ''/'' else p)) = CHR ''/''" using collapse_hd by auto
  have "hd (trim_right_by P s) = hd s" if "trim_right_by P s \<noteq> []" for P s
    using trim_right_by_prefix [of s P] that by (metis hd_append2)
  then show ?thesis using h by (auto simp: normal_path_def Let_def)
qed

subsection \<open>One identity per link\<close>

lemma normalize_cong:
  assumes "link_host u p = link_host v p" and "normal_path (lk_path u) = normal_path (lk_path v)"
    and "mset (kept_query (lk_query u)) = mset (kept_query (lk_query v))"
  shows "normalizeGenericURL u p = normalizeGenericURL v p"
proof -
  have "sort (kept_query (lk_query u)) = sort (kept_query (lk_query v))"
    using assms(3) by (metis mset_sort properties_for_sort sorted_sort)
  then show ?thesis using assms(1,2) by (simp add: normalizeGenericURL_def ordered_query_sort)
qed

definition generic_host :: "string \<Rightarrow> bool" where
  "generic_host h = (\<not> matchesHost h [''instagram.com'', ''instagr.am''] \<and> \<not> matchesHost h [''tiktok.com'']
     \<and> \<not> matchesHost h [''youtube.com'', ''youtu.be''] \<and> h \<notin> {''x.com'', ''twitter.com'', ''t.co''}
     \<and> \<not> matchesHost h [''linkedin.com''] \<and> \<not> matchesHost h [''reddit.com''] \<and> h \<noteq> ''redd.it''
     \<and> \<not> matchesHost h [''pinterest.com''] \<and> h \<noteq> ''pin.it'')"

lemma Resolve_generic:
  assumes "parse_link (rv_parse r) a = Inr (u, h)" and "generic_host h"
  shows "Resolve r a = Inr (genericIdentity (rv_sha r) (with_scheme (trim_space a)) u (placePlatform h (lk_path u)))"
proof -
  note h = assms(2) [unfolded generic_host_def]
  show ?thesis unfolding Resolve_def assms(1) bind_r_simps prod.case Let_def using h by (simp only: simp_thms if_False if_True)
qed

lemma genericIdentity_fields:
  "id_normalized (genericIdentity sha raw u p) = normalizeGenericURL u []"
  "id_content (genericIdentity sha raw u p) = contentHash sha (normalizeGenericURL u [])"
  "id_type (genericIdentity sha raw u p) = ''link''" "id_scope (genericIdentity sha raw u p) = UserScope []"
  by (simp_all add: genericIdentity_def make_identity_def Let_def)


text \<open>The normalised URL is its own normal form.  When \<open>net/url\<close> reads back what it wrote, resolving the
  normalised URL of a link gives the same normalised URL, content id, type and scope.\<close>

theorem normalised_link_is_stable:
  assumes "parse_link (rv_parse r) a = Inr (u, h)" and "generic_host h" and "Resolve r a = Inr i"
    and "parse_link (rv_parse r) (id_normalized i) = Inr (v, h)"
    and "to_lower (Hostname v) = to_lower (Hostname u)" and "lk_path v = normal_path (lk_path u)"
    and "lk_query v = ordered_query (kept_query (lk_query u))"
  shows "\<exists>j. Resolve r (id_normalized i) = Inr j \<and> id_normalized j = id_normalized i \<and> id_content j = id_content i
    \<and> id_type j = id_type i \<and> id_scope j = id_scope i"
proof -
  have i: "i = genericIdentity (rv_sha r) (with_scheme (trim_space a)) u (placePlatform h (lk_path u))"
    using Resolve_generic [OF assms(1,2)] assms(3) by simp
  have "mset (kept_query (lk_query v)) = mset (kept_query (lk_query u))"
    using assms(7) by (simp add: ordered_query_sort kept_query_sort)
  moreover have "link_host v [] = link_host u []" using assms(5) by (simp add: link_host_def)
  ultimately have "normalizeGenericURL v [] = normalizeGenericURL u []" using assms(6) by (intro normalize_cong) simp_all
  then show ?thesis using Resolve_generic [OF assms(4,2)] i by (simp add: genericIdentity_fields)
qed

subsection \<open>What an identity looks like\<close>

definition well_formed :: "string \<Rightarrow> source_identity \<Rightarrow> bool" where
  "well_formed raw i = (id_original i = raw \<and> id_platform i \<noteq> [] \<and> has_prefix (id_normalized i) ''https://''
     \<and> (if IsPublic (id_scope i)
        then id_content i \<noteq> [] \<and> id_platform i \<in> set [''instagram'', ''tiktok'', ''youtube'', ''x'', ''linkedin'', ''reddit'', ''pinterest'']
        else id_scope i = UserScope []))"

lemma https_prefix: "has_prefix (''https://'' @ s) ''https://''"
  by (rule has_prefix_append)

lemmas https_written [simp] = https_prefix [unfolded append_Cons append_Nil]

lemma normalize_https: "has_prefix (normalizeGenericURL u p) ''https://''"
  unfolding normalizeGenericURL_def url_string_def by (rule https_prefix)

lemma well_formed_make:
  "well_formed raw (make_identity raw n p t c s) \<longleftrightarrow> p \<noteq> [] \<and> has_prefix n ''https://''
     \<and> (if IsPublic s then c \<noteq> [] \<and> p \<in> set [''instagram'', ''tiktok'', ''youtube'', ''x'', ''linkedin'', ''reddit'', ''pinterest'']
        else s = UserScope [])"
  by (simp add: well_formed_def make_identity_def)

lemma segments_nonempty: "s \<in> set (segments p) \<Longrightarrow> s \<noteq> []"
  by (simp add: segments_def)

lemma instagram_well_formed: "well_formed raw (instagramIdentity raw u)"
proof (cases "segments (lk_path u)")
  case Nil
  then show ?thesis by (simp add: instagramIdentity_def well_formed_make normalize_https IsPublic_def)
next
  case (Cons kind rest)
  note k = Cons
  show ?thesis
  proof (cases rest)
    case Nil
    with k show ?thesis by (simp add: instagramIdentity_def well_formed_make normalize_https IsPublic_def)
  next
    case (Cons code more)
    then have "code \<noteq> []" using k segments_nonempty [of code "lk_path u"] by simp
    with k Cons show ?thesis
      by (simp add: instagramIdentity_def well_formed_make normalize_https IsPublic_def Let_def)
  qed
qed

lemma tiktok_well_formed: "well_formed raw (tiktokIdentity raw u)"
  by (simp add: tiktokIdentity_def well_formed_make normalize_https IsPublic_def scope_of_id_def Let_def)

lemma youtube_well_formed: "well_formed raw (youtubeIdentity raw u host)"
proof -
  have "hd (segments (lk_path u)) \<noteq> []" if "segments (lk_path u) \<noteq> []"
    using segments_nonempty hd_in_set [OF that] by blast
  moreover have "segments (lk_path u) ! 1 \<noteq> []" if "2 \<le> length (segments (lk_path u))"
    using segments_nonempty nth_mem [of 1 "segments (lk_path u)"] that by fastforce
  ultimately show ?thesis
    by (simp add: youtubeIdentity_def well_formed_make normalize_https IsPublic_def scope_of_id_def Let_def)
qed

lemma x_direct_well_formed: "parseDirectXPostURL parse a raw = Inr i \<Longrightarrow> well_formed raw i"
  by (auto simp: parseDirectXPostURL_def well_formed_make IsPublic_def all_digits_def
      split: option.splits if_splits prod.splits)

lemma x_well_formed: "xIdentity r raw u host = Inr i \<Longrightarrow> well_formed raw i"
  by (auto simp: xIdentity_def dest: x_direct_well_formed split: option.splits if_splits sum.splits)

lemma after_segment_in: "after_segment P Q parts \<noteq> [] \<Longrightarrow> Q (after_segment P Q parts)"
  by (induction P Q parts rule: after_segment.induct) auto

lemma pinterest_well_formed: "well_formed raw (pinterestIdentity sha raw u)"
  by (simp add: pinterestIdentity_def well_formed_make normalize_https IsPublic_def Let_def)

lemma pinterest_short_well_formed: "pinterestShortIdentity r raw u = Inr i \<Longrightarrow> well_formed raw i"
  using pinterest_well_formed
  by (auto simp: pinterestShortIdentity_def Let_def split: option.splits if_splits sum.splits prod.splits)

lemma find_urn_digits: "find_urn s = Some (k, d) \<Longrightarrow> d \<noteq> []"
proof (induction s)
  case (Cons c s)
  then show ?case by (auto simp: urn_here_def split: option.splits list.splits if_splits)
qed simp

lemma linkedin_well_formed: "well_formed raw (linkedinIdentity sha raw u)"
  using find_urn_digits
  by (auto simp: linkedinIdentity_def well_formed_make normalize_https IsPublic_def Let_def
      split: option.splits prod.splits)

lemma reddit_well_formed: "redditIdentity r raw u host = Inr i \<Longrightarrow> well_formed raw i"
  by (auto simp: redditIdentity_def well_formed_make IsPublic_def isAlphanumericUnderscore_def Let_def
      split: option.splits if_splits sum.splits prod.splits)

lemma parse_link_host: "parse_link parse a = Inr (u, h) \<Longrightarrow> h = normalizedHost (Hostname u) \<and> h \<noteq> []"
  by (auto simp: parse_link_def Let_def split: option.splits if_splits)

lemma generic_well_formed: "normalizedHost (Hostname u) \<noteq> [] \<Longrightarrow> well_formed raw (genericIdentity sha raw u p)"
  by (simp add: genericIdentity_def well_formed_make normalize_https IsPublic_def Let_def)

lemma if_InrE: "(if c then x else y) = Inr i \<Longrightarrow> (x = Inr i \<Longrightarrow> Q) \<Longrightarrow> (y = Inr i \<Longrightarrow> Q) \<Longrightarrow> Q"
  by (cases c) auto


subsection \<open>One link out of a text\<close>

lemma url_here_prefix: "url_here s = Some m \<Longrightarrow> \<exists>b. s = m @ b"
proof -
  assume u: "url_here s = Some m"
  then obtain p where "url_prefix s = Some p" and m: "m = take (length p) s @ takeWhile url_char (drop (length p) s)"
    by (auto simp: url_here_def)
  have "s = take (length p) s @ takeWhile url_char (drop (length p) s) @ dropWhile url_char (drop (length p) s)" by simp
  then show ?thesis unfolding m by (metis append_assoc)
qed

lemma find_urls_in: "m \<in> set (find_urls s) \<Longrightarrow> \<exists>a b. s = a @ m @ b"
proof (induction s rule: find_urls.induct)
  case (1 s)
  show ?case
  proof (cases s)
    case Nil
    then show ?thesis using "1.prems" by (simp add: find_urls.simps)
  next
    case (Cons c rest)
    show ?thesis
    proof (cases "url_here s")
      case None
      then have "m \<in> set (find_urls rest)" using "1.prems" Cons by (subst (asm) find_urls.simps) simp
      from "1.IH"(1) [OF Cons None this] show ?thesis unfolding Cons by (metis append_Cons)
    next
      case (Some u)
      then have "m = u \<or> m \<in> set (find_urls (drop (max 1 (length u)) s))"
        using "1.prems" Cons by (subst (asm) find_urls.simps) simp
      then show ?thesis
      proof
        assume "m = u"
        then show ?thesis using url_here_prefix [OF Some] by (metis append_Nil)
      next
        assume "m \<in> set (find_urls (drop (max 1 (length u)) s))"
        from "1.IH"(2) [OF Cons Some this] obtain a b where "drop (max 1 (length u)) s = a @ m @ b" by blast
        then have "s = (take (max 1 (length u)) s @ a) @ m @ b" by (metis append_assoc append_take_drop_id)
        then show ?thesis by blast
      qed
    qed
  qed
qed

lemma candidate_in_text:
  assumes "c \<in> set (ExtractURLCandidates payload)"
  shows "c \<noteq> [] \<and> (\<exists>a b. payload = a @ c @ b)"
proof -
  obtain m where m: "m \<in> set (find_urls (take MaxSharePayloadLength payload))" "c = trim_right_by urlTrailing m" "c \<noteq> []"
    using assms by (auto simp: ExtractURLCandidates_def first_seen_def)
  obtain a b where "take MaxSharePayloadLength payload = a @ m @ b" using find_urls_in [OF m(1)] by blast
  moreover obtain t where "m = c @ t" using trim_right_by_prefix [of m urlTrailing] m(2) by auto
  ultimately have "payload = a @ c @ (t @ b @ drop MaxSharePayloadLength payload)"
    by (metis append_assoc append_take_drop_id)
  then show ?thesis using m(3) by blast
qed

text \<open>A shared text stands for a link that is in it.  What \<open>ResolvePayload\<close> accepts is what one of the distinct
  links of the text resolves to, and that link is a shortener only when every link of the text is one, in
  which case it is the first.\<close>

theorem shared_text_stands_for_a_link_in_it:
  assumes "ResolvePayload r payload = Inr i"
  shows "distinct (ExtractURLCandidates payload)
    \<and> (\<exists>a c b. payload = a @ c @ b \<and> c \<in> set (ExtractURLCandidates payload) \<and> Resolve r c = Inr i
         \<and> (if list_all (\<lambda>x. candidateHost (rv_parse r) x \<in> set opaqueShorteners) (ExtractURLCandidates payload)
            then c = hd (ExtractURLCandidates payload)
            else candidateHost (rv_parse r) c \<notin> set opaqueShorteners))"
proof -
  let ?cs = "ExtractURLCandidates payload" and ?c = "SelectPrimaryURL (rv_parse r) (ExtractURLCandidates payload)"
  have c: "?c \<noteq> []" "Resolve r ?c = Inr i"
    using assms by (auto simp: ResolvePayload_def Let_def split: if_splits)
  then have ne: "?cs \<noteq> []" by (auto simp: SelectPrimaryURL_def)
  have sel: "?c \<in> set ?cs \<and> (if list_all (\<lambda>x. candidateHost (rv_parse r) x \<in> set opaqueShorteners) ?cs
      then ?c = hd ?cs else candidateHost (rv_parse r) ?c \<notin> set opaqueShorteners)"
  proof (cases "find (\<lambda>x. candidateHost (rv_parse r) x \<notin> set opaqueShorteners) ?cs")
    case None
    then have "list_all (\<lambda>x. candidateHost (rv_parse r) x \<in> set opaqueShorteners) ?cs"
      by (simp add: find_None_iff_all list_all_iff)
    moreover have "?c = hd ?cs" using None ne by (auto simp: SelectPrimaryURL_def simp del: find.simps split: list.splits)
    ultimately show ?thesis using ne by simp
  next
    case (Some x)
    then have "?c = x" using ne by (auto simp: SelectPrimaryURL_def simp del: find.simps split: list.splits)
    then show ?thesis using find_Some_in [OF Some] by (auto simp: list_all_iff)
  qed
  moreover have "distinct ?cs" by (simp add: ExtractURLCandidates_def first_seen_def)
  ultimately show ?thesis using candidate_in_text c(2) by blast
qed

text \<open>A code with an escaped question mark is written into the normalised URL decoded, where it starts a query.\<close>

lemma decoded_code_is_not_escaped:
  "segments (lk_path u) = [''reel'', ''a?b''] \<Longrightarrow> id_normalized (instagramIdentity raw u) = ''https://www.instagram.com/reel/a?b/''"
  by (simp add: instagramIdentity_def make_identity_def to_lower_def lower_char_def is_upper_def char_code_def)

subsection \<open>Witnesses\<close>

definition shop_link :: "string \<Rightarrow> (string \<times> string) list \<Rightarrow> link" where
  "shop_link p q = \<lparr>u_scheme = ''https'', u_user = False, u_host = ''e.co'', u_text = [], lk_path = p, lk_query = q\<rparr>"

definition shop_parse :: "string \<Rightarrow> link option" where
  "shop_parse s =
     (if s = ''https://e.co//a/?b=2&si=9&a=1'' then Some (shop_link ''//a/'' [(''b'', ''2''), (''si'', ''9''), (''a'', ''1'')])
      else if s = ''https://e.co/a?a=1&b=2'' then Some (shop_link ''/a'' [(''a'', ''1''), (''b'', ''2'')]) else None)"

definition shop :: resolver where
  "shop = \<lparr>rv_parse = shop_parse, rv_sha = \<lambda>s. s, rv_redirects = None, rv_reddit = None\<rparr>"

lemma shop_parses:
  "parse_link (rv_parse shop) ''https://e.co//a/?b=2&si=9&a=1'' = Inr (shop_link ''//a/'' [(''b'', ''2''), (''si'', ''9''), (''a'', ''1'')], ''e.co'')"
  "parse_link (rv_parse shop) ''https://e.co/a?a=1&b=2'' = Inr (shop_link ''/a'' [(''a'', ''1''), (''b'', ''2'')], ''e.co'')"
  by code_simp+

lemma shop_host: "generic_host ''e.co''"
  by code_simp

lemma shop_normal: "id_normalized (genericIdentity (rv_sha shop) raw (shop_link ''//a/'' [(''b'', ''2''), (''si'', ''9''), (''a'', ''1'')]) p) = ''https://e.co/a?a=1&b=2''"
  unfolding genericIdentity_fields by code_simp


theorem normalised_link_is_stable_witness:
  "\<exists>j. Resolve shop ''https://e.co/a?a=1&b=2'' = Inr j \<and> id_normalized j = ''https://e.co/a?a=1&b=2''"
proof -
  let ?u = "shop_link ''//a/'' [(''b'', ''2''), (''si'', ''9''), (''a'', ''1'')]"
  let ?i = "genericIdentity (rv_sha shop) (with_scheme (trim_space ''https://e.co//a/?b=2&si=9&a=1'')) ?u (placePlatform ''e.co'' (lk_path ?u))"
  have i: "Resolve shop ''https://e.co//a/?b=2&si=9&a=1'' = Inr ?i" by (rule Resolve_generic [OF shop_parses(1) shop_host])
  have "lk_path (shop_link ''/a'' [(''a'', ''1''), (''b'', ''2'')]) = normal_path (lk_path ?u)"
    "lk_query (shop_link ''/a'' [(''a'', ''1''), (''b'', ''2'')]) = ordered_query (kept_query (lk_query ?u))" by code_simp+
  then show ?thesis
    using normalised_link_is_stable [OF shop_parses(1) shop_host i, unfolded shop_normal, OF shop_parses(2)]
    by (auto simp: shop_link_def Hostname_def)
qed


theorem shared_text_stands_for_a_link_in_it_witness:
  "\<exists>i a c b. ''see https://e.co/a?a=1&b=2.'' = a @ c @ b \<and> Resolve shop c = Inr i"
proof -
  have c: "ExtractURLCandidates ''see https://e.co/a?a=1&b=2.'' = [''https://e.co/a?a=1&b=2'']" by code_simp
  have "candidateHost (rv_parse shop) ''https://e.co/a?a=1&b=2'' = ''e.co''" by code_simp
  then have "SelectPrimaryURL (rv_parse shop) [''https://e.co/a?a=1&b=2''] = ''https://e.co/a?a=1&b=2''"
    by (simp add: SelectPrimaryURL_def)
  then have "ResolvePayload shop ''see https://e.co/a?a=1&b=2.'' = Resolve shop ''https://e.co/a?a=1&b=2''"
    by (simp add: ResolvePayload_def c Let_def)
  then show ?thesis
    using shared_text_stands_for_a_link_in_it [of shop "''see https://e.co/a?a=1&b=2.''"] Resolve_generic [OF shop_parses(2) shop_host]
    by metis
qed

end
