(* ===== verification/PriceTracks.thy ===== *)
theory PriceTracks
  imports PricePage Identity Reminders
begin

text \<open>
  Price watches (\<open>internal/pricetracks/pricetracks.go\<close> and \<open>check.go\<close>, \<open>postgres/pricetracks.go\<close>): what a user asked
  to watch, and the run that reads every stale page and tells the user once.  A page comes from \<open>PricePage.FetchPrice\<close>
  as an answer that may be an error; every statement may fail.  The workers of a run share nothing but the tables, so
  that a run is here its checks one after the other, and the step relation below interleaves them freely.
\<close>

record track =
  tr_id :: string
  tr_user :: string
  tr_save :: "string option"
  tr_url :: string
  tr_title :: string
  tr_target :: rat
  tr_currency :: string
  tr_last :: "rat option"
  tr_active :: bool
  tr_checked :: "time option"
  tr_notified :: "time option"
  tr_created :: time

datatype track_err = TrackNotFound | TrackUnknownSave | TrackInvalid string string | TrackOther string

definition TracksListed :: nat where "TracksListed = 200"
definition CheckInterval :: duration where "CheckInterval = 20 * hour"
definition checkPage :: nat where "checkPage = 100"

subsection \<open>The rows\<close>

definition List_tracks :: "string \<Rightarrow> nat \<Rightarrow> track list \<Rightarrow> track list" where
  "List_tracks user limit rows =
     take limit (rev (sort_key (\<lambda>r. (tr_created r, tr_id r)) (filter (\<lambda>r. tr_user r = user) rows)))"

definition Create_track ::
  "string option \<Rightarrow> save_row list \<Rightarrow> track \<Rightarrow> track list \<Rightarrow> track_err + (track \<times> track list)" where
  "Create_track fault ss r rows =
     (case fault of Some m \<Rightarrow> Inl (TrackOther m) | None \<Rightarrow>
        if \<not> owns_save (tr_user r) (tr_save r) ss then Inl TrackUnknownSave
        else if list_ex (\<lambda>x. tr_id x = tr_id r) rows then Inl (TrackOther ''duplicate key'')
        else if tr_target r \<le> 0 then Inl (TrackOther ''price_tracks_target_price_check'')
        else Inr (r, rows @ [r]))"

definition Delete_track :: "string option \<Rightarrow> string \<Rightarrow> string \<Rightarrow> track list \<Rightarrow> track_err + track list" where
  "Delete_track fault user i rows =
     (case fault of Some m \<Rightarrow> Inl (TrackOther m) | None \<Rightarrow>
        if list_ex (\<lambda>r. tr_id r = i \<and> tr_user r = user) rows
        then Inr (filter (\<lambda>r. \<not> (tr_id r = i \<and> tr_user r = user)) rows) else Inl TrackNotFound)"

definition due_track :: "time \<Rightarrow> track \<Rightarrow> bool" where
  "due_track cutoff r = (tr_active r \<and> (case tr_checked r of None \<Rightarrow> True | Some t \<Rightarrow> t \<le> cutoff))"

definition Due_tracks :: "time \<Rightarrow> string option \<Rightarrow> nat \<Rightarrow> track list \<Rightarrow> track list" where
  "Due_tracks cutoff after limit rows = key_page tr_id (due_track cutoff) after limit rows"

record price_check =
  ch_at :: time
  ch_price :: "rat option"
  ch_notified :: bool

definition write_check :: "price_check \<Rightarrow> track \<Rightarrow> track" where
  "write_check k r = r\<lparr>tr_checked := Some (ch_at k), tr_last := ch_price k,
     tr_notified := (if ch_notified k then Some (ch_at k) else tr_notified r)\<rparr>"

definition RecordCheck :: "string option \<Rightarrow> string \<Rightarrow> price_check \<Rightarrow> track list \<Rightarrow> track_err + track list" where
  "RecordCheck fault i k rows =
     (case fault of Some m \<Rightarrow> Inl (TrackOther m) | None \<Rightarrow> Inr (update_where (\<lambda>r. tr_id r = i) (write_check k) rows))"

subsection \<open>The user's operations\<close>

record track_params =
  tp_url :: string
  tp_target :: "rat option"
  tp_title :: string
  tp_reel :: "string option"

record track_env =
  te_resolver :: resolver
  te_uuid :: "string \<Rightarrow> string option"
  te_id :: string
  te_now :: time
  te_fails :: "string option"

definition track_save_id :: "(string \<Rightarrow> string option) \<Rightarrow> string option \<Rightarrow> track_err + string option" where
  "track_save_id parse reel =
     (case reel of None \<Rightarrow> Inr None
      | Some s \<Rightarrow> if trim_space s = [] then Inr None
                 else (case parse (trim_space s) of None \<Rightarrow> Inl (TrackInvalid ''reel_id'' ''must be one of your saves'')
                       | Some i \<Rightarrow> Inr (Some i)))"

text \<open>The package-level \<open>Resolve\<close> is the resolver without its two lookups.\<close>

definition offline :: "resolver \<Rightarrow> resolver" where
  "offline r = r\<lparr>rv_redirects := None, rv_reddit := None\<rparr>"

definition new_track :: "track_env \<Rightarrow> string \<Rightarrow> track_params \<Rightarrow> track_err + track" where
  "new_track e user p =
     (if trim_space (tp_url p) = [] then Inl (TrackInvalid ''url'' ''a product URL is required'')
      else (case Resolve (offline (te_resolver e)) (trim_space (tp_url p)) of
              Inl _ \<Rightarrow> Inl (TrackInvalid ''url'' ''that does not look like a valid URL'')
            | Inr _ \<Rightarrow>
               (case tp_target p of None \<Rightarrow> Inl (TrackInvalid ''target_price'' ''must be greater than 0'')
                | Some target \<Rightarrow>
                    if \<not> 0 < target then Inl (TrackInvalid ''target_price'' ''must be greater than 0'')
                    else bind_r (track_save_id (te_uuid e) (tp_reel p)) (\<lambda>save.
                      Inr \<lparr>tr_id = te_id e, tr_user = user, tr_save = save, tr_url = trim_space (tp_url p),
                           tr_title = trim_space (tp_title p), tr_target = target, tr_currency = [], tr_last = None,
                           tr_active = True, tr_checked = None, tr_notified = None, tr_created = te_now e\<rparr>))))"

record wire_track =
  wt_id :: string
  wt_url :: string
  wt_title :: string
  wt_target :: rat
  wt_currency :: string
  wt_last :: "rat option"
  wt_active :: bool
  wt_checked :: "string option"
  wt_notified :: "string option"
  wt_reel :: "string option"
  wt_created :: "string option"

text \<open>\<open>fmt\<close> is \<open>time.Format\<close> with RFC 3339 in UTC.\<close>

definition Present :: "(time \<Rightarrow> string) \<Rightarrow> track \<Rightarrow> wire_track" where
  "Present fmt r =
     \<lparr>wt_id = tr_id r, wt_url = tr_url r, wt_title = tr_title r, wt_target = tr_target r, wt_currency = tr_currency r,
      wt_last = tr_last r, wt_active = tr_active r, wt_checked = map_option fmt (tr_checked r),
      wt_notified = map_option fmt (tr_notified r), wt_reel = tr_save r, wt_created = Some (fmt (tr_created r))\<rparr>"

definition tracks_Create ::
  "(time \<Rightarrow> string) \<Rightarrow> track_env \<Rightarrow> save_row list \<Rightarrow> string \<Rightarrow> track_params \<Rightarrow> track list \<Rightarrow> track_err + (wire_track \<times> track list)" where
  "tracks_Create fmt e ss user p rows =
     bind_r (new_track e user p) (\<lambda>r. bind_r (Create_track (te_fails e) ss r rows) (\<lambda>(r, rows'). Inr (Present fmt r, rows')))"

definition tracks_List :: "(time \<Rightarrow> string) \<Rightarrow> string option \<Rightarrow> string \<Rightarrow> track list \<Rightarrow> track_err + wire_track list" where
  "tracks_List fmt fault user rows =
     (case fault of Some m \<Rightarrow> Inl (TrackOther m) | None \<Rightarrow> Inr (map (Present fmt) (List_tracks user TracksListed rows)))"

definition tracks_Delete :: "string option \<Rightarrow> string \<Rightarrow> string \<Rightarrow> track list \<Rightarrow> track_err + track list" where
  "tracks_Delete fault user i rows = Delete_track fault user i rows"

subsection \<open>One check\<close>

datatype check_outcome = Unpriced | Priced | Notified | CheckFailed

text \<open>\<open>short\<close> is \<open>FormatFloat (value, 'g', 6)\<close>.\<close>

definition PriceDrop :: "(rat \<Rightarrow> string) \<Rightarrow> track \<Rightarrow> rat \<Rightarrow> string \<Rightarrow> notification" where
  "PriceDrop short t price currency =
     (let reel = (case tr_save t of None \<Rightarrow> [] | Some s \<Rightarrow> s);
          label = (if tr_title t = [] then ''A product you're tracking'' else tr_title t);
          symbol = (if currency = [] then tr_currency t else currency)
      in \<lparr>no_user = tr_user t, no_title = ''Price drop'',
          no_body = label @ '' is now '' @ symbol @ short price @ '' (your target: '' @ symbol @ short (tr_target t) @ '').'',
          no_type = ''price_drop'',
          no_target = (if reel = [] then ''price_track'' else ''reel''),
          no_target_id = (if reel = [] then tr_id t else reel),
          no_key = ''price_drop:'' @ tr_id t,
          no_data = [(''price_track_id'', tr_id t), (''reel_id'', reel)]\<rparr>)"

text \<open>What one check takes from outside.\<close>

record check_env =
  ce_quote :: "http_err + quote"
  ce_now :: time
  ce_record_fails :: "string option"
  ce_short :: "rat \<Rightarrow> string"
  ce_send :: send_env

definition found_quote :: "check_env \<Rightarrow> quote" where
  "found_quote e = (case ce_quote e of Inl _ \<Rightarrow> no_quote | Inr q \<Rightarrow> q)"

definition should_notify :: "quote \<Rightarrow> track \<Rightarrow> bool" where
  "should_notify q t = (case qu_price q of None \<Rightarrow> False | Some p \<Rightarrow> p \<le> tr_target t \<and> tr_notified t = None)"

definition check_of :: "check_env \<Rightarrow> track \<Rightarrow> price_check" where
  "check_of e t = \<lparr>ch_at = ce_now e, ch_price = qu_price (found_quote e), ch_notified = should_notify (found_quote e) t\<rparr>"

definition check_track ::
  "check_env \<Rightarrow> track \<Rightarrow> track list \<times> push_state \<Rightarrow> check_outcome \<times> (track list \<times> push_state) \<times> push_message list" where
  "check_track e t s =
     (case s of (rows, ps) \<Rightarrow>
       (case RecordCheck (ce_record_fails e) (tr_id t) (check_of e t) rows of
          Inl _ \<Rightarrow> (CheckFailed, (rows, ps), [])
        | Inr rows' \<Rightarrow>
           (case qu_price (found_quote e) of None \<Rightarrow> (Unpriced, (rows', ps), [])
            | Some p \<Rightarrow>
               if \<not> should_notify (found_quote e) t then (Priced, (rows', ps), [])
               else (case SendToUser (ce_send e) (PriceDrop (ce_short e) t p (qu_currency (found_quote e))) ps of
                       (ps', ms, _, err) \<Rightarrow>
                         (if err \<noteq> None \<and> err \<noteq> Some ErrNoDeviceTokens then CheckFailed else Notified, (rows', ps'), ms)))))"

subsection \<open>One run\<close>

text \<open>The checks of a page, each with its own surroundings: every track with its outcome.\<close>

fun check_all :: "(string \<Rightarrow> check_env) \<Rightarrow> track list \<Rightarrow> track list \<times> push_state \<Rightarrow> (track \<times> check_outcome) list \<times> track list \<times> push_state" where
  "check_all env [] s = ([], s)"
| "check_all env (t # ts) s =
     (case check_track (env (tr_id t)) t s of (oc, s1, _) \<Rightarrow>
        (case check_all env ts s1 of (ocs, s2) \<Rightarrow> ((t, oc) # ocs, s2)))"

lemma write_check_simps [simp]: "tr_id (write_check k r) = tr_id r" "tr_user (write_check k r) = tr_user r"
  "tr_save (write_check k r) = tr_save r" "tr_url (write_check k r) = tr_url r" "tr_title (write_check k r) = tr_title r"
  "tr_target (write_check k r) = tr_target r" "tr_active (write_check k r) = tr_active r"
  "tr_checked (write_check k r) = Some (ch_at k)"
  by (simp_all add: write_check_def)

text \<open>What a check may do to the rows: the row of its own track.\<close>

definition touched :: "string set \<Rightarrow> track list \<Rightarrow> track list \<Rightarrow> bool" where
  "touched I rows rows' = list_all2 (\<lambda>r r'. tr_id r' = tr_id r \<and> (tr_id r \<notin> I \<longrightarrow> r' = r)) rows rows'"

lemma touched_refl [simp]: "touched I rows rows"
  by (simp add: touched_def list_all2_refl)

lemma touched_trans: "touched I a b \<Longrightarrow> touched J b c \<Longrightarrow> touched (I \<union> J) a c"
  unfolding touched_def by (erule (1) list_all2_trans [rotated]) auto

lemma touched_mono: "touched I a b \<Longrightarrow> I \<subseteq> J \<Longrightarrow> touched J a b"
  unfolding touched_def by (erule list_all2_mono) auto

lemma touched_ids: "touched I a b \<Longrightarrow> map tr_id b = map tr_id a"
  unfolding touched_def by (induction rule: list_all2_induct) auto

lemma touched_filter:
  "touched I a b \<Longrightarrow> (\<And>r. P r \<Longrightarrow> tr_id r \<notin> I) \<Longrightarrow> filter P b = filter P a"
  unfolding touched_def by (induction rule: list_all2_induct) (simp, metis filter.simps(2))

lemma touched_update: "touched {i} rows (update_where (\<lambda>r. tr_id r = i) (write_check k) rows)"
  by (induction rows) (auto simp: touched_def)

lemma check_track_touched:
  "check_track e t (rows, ps) = (oc, (rows', ps'), ms) \<Longrightarrow> touched {tr_id t} rows rows'"
  by (auto simp: check_track_def RecordCheck_def touched_update split: option.splits if_splits prod.splits)

lemma check_all_touched:
  "check_all env ts (rows, ps) = (ocs, rows', ps') \<Longrightarrow> touched (tr_id ` set ts) rows rows' \<and> map fst ocs = ts"
proof (induction ts arbitrary: rows ps ocs)
  case (Cons t ts)
  obtain oc rows1 ps1 ms where one: "check_track (env (tr_id t)) t (rows, ps) = (oc, (rows1, ps1), ms)"
    by (metis prod.collapse)
  obtain ocs2 where all: "check_all env ts (rows1, ps1) = (ocs2, rows', ps')" "ocs = (t, oc) # ocs2"
    using Cons.prems one by (auto split: prod.splits)
  from Cons.IH [OF all(1)] touched_trans [OF check_track_touched [OF one]] all(2) show ?case by auto
qed simp

lemma page_progress:
  assumes "(ocs, s1) = check_all env (Due_tracks cutoff after checkPage (fst s)) s"
    and "\<not> length (Due_tracks cutoff after checkPage (fst s)) < checkPage"
  shows "left_above (Some (tr_id (last (Due_tracks cutoff after checkPage (fst s))))) (map tr_id (fst s1))
    < left_above after (map tr_id (fst s))"
proof -
  have "key_page tr_id (due_track cutoff) after checkPage (fst s) \<noteq> []"
    using assms(2) by (auto simp: Due_tracks_def checkPage_def)
  from left_above_page [OF this]
  have "left_above (Some (tr_id (last (Due_tracks cutoff after checkPage (fst s))))) (map tr_id (fst s))
      < left_above after (map tr_id (fst s))" by (simp add: Due_tracks_def)
  moreover have "map tr_id (fst s1) = map tr_id (fst s)"
    using check_all_touched [of env "Due_tracks cutoff after checkPage (fst s)" "fst s" "snd s" ocs "fst s1" "snd s1"]
      touched_ids assms(1) by (metis prod.collapse)
  ultimately show ?thesis by simp
qed

text \<open>\<open>CheckDue\<close>: page after page.  \<open>read\<close> tells which page cannot be read, the cancelled context included.\<close>

function check_pages ::
  "(string option \<Rightarrow> string option) \<Rightarrow> (string \<Rightarrow> check_env) \<Rightarrow> time \<Rightarrow> string option \<Rightarrow> track list \<times> push_state
   \<Rightarrow> (track \<times> check_outcome) list \<times> string option \<times> track list \<times> push_state" where
  "check_pages read env cutoff after s =
     (case read after of Some m \<Rightarrow> ([], Some m, s)
      | None \<Rightarrow>
         (let page = Due_tracks cutoff after checkPage (fst s)
          in case check_all env page s of (ocs, s1) \<Rightarrow>
               if length page < checkPage then (ocs, None, s1)
               else (case check_pages read env cutoff (Some (tr_id (last page))) s1 of
                       (ocs2, err, s2) \<Rightarrow> (ocs @ ocs2, err, s2))))"
  by pat_completeness auto
termination
  by (relation "measure (\<lambda>(read, env, cutoff, after, s). left_above after (map tr_id (fst s)))")
    (simp, use page_progress in \<open>simp add: Let_def\<close>)

declare check_pages.simps [simp del]

record check_report =
  rp_checked :: nat
  rp_priced :: nat
  rp_notified :: nat
  rp_failed :: nat

definition count_outcomes :: "check_outcome set \<Rightarrow> (track \<times> check_outcome) list \<Rightarrow> nat" where
  "count_outcomes A ocs = length (filter (\<lambda>x. snd x \<in> A) ocs)"

definition report_of :: "(track \<times> check_outcome) list \<Rightarrow> check_report" where
  "report_of ocs = \<lparr>rp_checked = length ocs, rp_priced = count_outcomes {Priced, Notified} ocs,
     rp_notified = count_outcomes {Notified} ocs, rp_failed = count_outcomes {CheckFailed} ocs\<rparr>"

definition CheckDue ::
  "(string option \<Rightarrow> string option) \<Rightarrow> (string \<Rightarrow> check_env) \<Rightarrow> time \<Rightarrow> track list \<times> push_state
   \<Rightarrow> (check_report \<times> string option) \<times> track list \<times> push_state" where
  "CheckDue read env now s =
     (case check_pages read env (now - CheckInterval) None s of (ocs, err, s1) \<Rightarrow> ((report_of ocs, err), s1))"

subsection \<open>A run covers what is due\<close>

lemma check_pages_covers:
  assumes "distinct (map tr_id rows)" and "check_pages (\<lambda>_. None) env cutoff after (rows, ps) = (ocs, err, rows', ps')"
  shows "map fst ocs = sort_key tr_id (filter (\<lambda>r. due_track cutoff r \<and> above after (tr_id r)) rows)
    \<and> err = None \<and> touched {i. above after i} rows rows'"
  using assms
proof (induction "left_above after (map tr_id rows)" arbitrary: after rows ps ocs rule: less_induct)
  case less
  let ?rs = "\<lambda>a rows. sort_key tr_id (filter (\<lambda>r. due_track cutoff r \<and> above a (tr_id r)) rows)"
  let ?p = "Due_tracks cutoff after checkPage rows"
  obtain oc1 rows1 ps1 where all: "check_all env ?p (rows, ps) = (oc1, rows1, ps1)" by (metis prod.collapse)
  note t1 = check_all_touched [OF all]
  have p: "?p = take checkPage (?rs after rows)" by (simp add: Due_tracks_def key_page_def)
  have ab: "tr_id ` set ?p \<subseteq> {i. above after i}"
    unfolding Due_tracks_def using key_page_set by fastforce
  show ?case
  proof (cases "length ?p < checkPage")
    case True
    then have "?p = ?rs after rows" using p by simp
    then show ?thesis using True less.prems(2) all t1 touched_mono [OF _ ab]
      by (subst (asm) check_pages.simps) (auto simp: Let_def)
  next
    case False
    then have ne: "key_page tr_id (due_track cutoff) after checkPage rows \<noteq> []"
      by (auto simp: Due_tracks_def checkPage_def)
    let ?a = "Some (tr_id (last ?p))"
    obtain oc2 where rest: "check_pages (\<lambda>_. None) env cutoff ?a (rows1, ps1) = (oc2, err, rows', ps')"
      and eq: "ocs = oc1 @ oc2"
      using less.prems(2) all False by (subst (asm) check_pages.simps) (auto simp: Let_def split: prod.splits)
    have ids: "map tr_id rows1 = map tr_id rows" using t1 touched_ids by blast
    have less_a: "left_above ?a (map tr_id rows1) < left_above after (map tr_id rows)"
      using left_above_page [OF ne] by (simp add: Due_tracks_def ids)
    have d1: "distinct (map tr_id rows1)" using less.prems(1) ids by simp
    have lp: "last ?p \<in> set ?p" using ne by (simp add: Due_tracks_def)
    have up: "above ?a i \<Longrightarrow> above after i" for i using ab lp above_trans by fastforce
    have below: "\<not> above ?a i" if "i \<in> tr_id ` set ?p" for i
      using that page_last by (fastforce simp: Due_tracks_def)
    have keep: "filter (\<lambda>r. due_track cutoff r \<and> above ?a (tr_id r)) rows1
              = filter (\<lambda>r. due_track cutoff r \<and> above ?a (tr_id r)) rows"
      by (rule touched_filter [OF conjunct1 [OF t1]]) (use below in blast)
    note ih = less.hyps [OF less_a d1 rest]
    have "map fst ocs = ?p @ ?rs ?a rows" using ih t1 eq keep by simp
    also have "?rs ?a rows = drop checkPage (?rs after rows)"
      using rest_of_scan [OF less.prems(1) ne] by (simp add: Due_tracks_def)
    finally have m: "map fst ocs = ?rs after rows" using p by simp
    have "touched {i. above after i} rows rows'"
      using touched_trans [OF conjunct1 [OF t1]] ih ab up
      by (metis (no_types, lifting) Un_least mem_Collect_eq subsetI touched_mono)
    with m ih show ?thesis by simp
  qed
qed

lemma check_all_append:
  "check_all env (ts @ us) s =
   (case check_all env ts s of (o1, s1) \<Rightarrow> case check_all env us s1 of (o2, s2) \<Rightarrow> (o1 @ o2, s2))"
  by (induction ts arbitrary: s) (auto split: prod.splits)

lemma check_pages_is_check_all:
  "check_pages read env cutoff after s = (ocs, err, s') \<Longrightarrow> check_all env (map fst ocs) s = (ocs, s')"
proof (induction read env cutoff after s arbitrary: ocs err s' rule: check_pages.induct)
  case (1 read env cutoff after s)
  let ?p = "Due_tracks cutoff after checkPage (fst s)"
  show ?case
  proof (cases "read after")
    case None
    obtain o1 s1 where all: "check_all env ?p s = (o1, s1)" by (metis prod.collapse)
    have o1: "map fst o1 = ?p" using check_all_touched [of env ?p "fst s" "snd s"] all by (metis prod.collapse)
    show ?thesis
    proof (cases "length ?p < checkPage")
      case True
      then show ?thesis using "1.prems" None all o1 by (subst (asm) check_pages.simps) (simp add: Let_def)
    next
      case False
      obtain o2 err2 s2 where rest: "check_pages read env cutoff (Some (tr_id (last ?p))) s1 = (o2, err2, s2)"
        by (metis prod.collapse)
      have eq: "ocs = o1 @ o2" "s' = s2"
        using "1.prems" None all False rest by (subst (asm) check_pages.simps; simp add: Let_def)+
      have "check_all env (map fst o2) s1 = (o2, s2)"
        using "1.IH" [OF None refl all [symmetric] False rest] .
      then show ?thesis using all o1 eq by (simp add: check_all_append)
    qed
  next
    case (Some m)
    then show ?thesis using "1.prems" by (subst (asm) check_pages.simps) simp
  qed
qed

lemma check_all_recorded:
  assumes "check_all env ts (rows, ps) = (ocs, rows', ps')" and "\<forall>t \<in> set ts. ce_record_fails (env (tr_id t)) = None"
    and "r \<in> set rows'" and "tr_id r \<in> tr_id ` set ts"
  shows "tr_checked r = Some (ce_now (env (tr_id r)))"
  using assms
proof (induction ts arbitrary: rows ps ocs r)
  case (Cons t ts)
  obtain oc rows1 ps1 ms where one: "check_track (env (tr_id t)) t (rows, ps) = (oc, (rows1, ps1), ms)"
    by (metis prod.collapse)
  obtain ocs2 where all: "check_all env ts (rows1, ps1) = (ocs2, rows', ps')"
    using Cons.prems(1) one by (auto split: prod.splits)
  have rows1: "rows1 = update_where (\<lambda>r. tr_id r = tr_id t) (write_check (check_of (env (tr_id t)) t)) rows"
    using one Cons.prems(2) by (auto simp: check_track_def RecordCheck_def split: option.splits if_splits prod.splits)
  show ?case
  proof (cases "tr_id r \<in> tr_id ` set ts")
    case True
    then show ?thesis using Cons.IH [OF all _ Cons.prems(3)] Cons.prems(2) by simp
  next
    case False
    from check_all_touched [OF all] have "touched (tr_id ` set ts) rows1 rows'" by simp
    then obtain k where k: "k < length rows1" "r = rows' ! k" "length rows1 = length rows'"
        "tr_id (rows' ! k) = tr_id (rows1 ! k) \<and> (tr_id (rows1 ! k) \<notin> tr_id ` set ts \<longrightarrow> rows' ! k = rows1 ! k)"
      using Cons.prems(3) unfolding touched_def list_all2_conv_all_nth by (metis in_set_conv_nth)
    then have "r \<in> set rows1" using False by auto
    then show ?thesis using Cons.prems(4) False rows1 by (auto simp: set_update_where check_of_def)
  qed
qed simp

lemma due_after_check: "tr_checked r = Some t \<Longrightarrow> cutoff < t \<Longrightarrow> \<not> due_track cutoff r"
  by (simp add: due_track_def)

text \<open>A run reads every stale track exactly once, and the next run has nothing to do.  Whatever the pages answer and
  however many tracks there are, the paged run is one pass over the tracks that were stale when it began, in the
  order of their ids; it changes no other row.  When every check was recorded, not before the run began, no track is
  stale any more.\<close>

theorem run_checks_every_due_track_once:
  assumes "distinct (map tr_id rows)" and "CheckDue (\<lambda>_. None) env now (rows, ps) = ((report, err), rows', ps')"
  shows "err = None
    \<and> (let stale = sort_key tr_id (filter (due_track (now - CheckInterval)) rows) in
        snd (check_all env stale (rows, ps)) = (rows', ps')
        \<and> report = report_of (fst (check_all env stale (rows, ps)))
        \<and> rp_checked report = length stale
        \<and> touched (tr_id ` set stale) rows rows')
    \<and> ((\<forall>i. ce_record_fails (env i) = None \<and> now \<le> ce_now (env i)) \<longrightarrow> filter (due_track (now - CheckInterval)) rows' = [])"
proof -
  let ?cut = "now - CheckInterval" and ?stale = "sort_key tr_id (filter (due_track (now - CheckInterval)) rows)"
  obtain ocs where pages: "check_pages (\<lambda>_. None) env ?cut None (rows, ps) = (ocs, err, rows', ps')"
    and rep: "report = report_of ocs" using assms(2) by (auto simp: CheckDue_def split: prod.splits)
  from check_pages_covers [OF assms(1) pages] have stale: "map fst ocs = ?stale" "err = None" by simp_all
  from check_pages_is_check_all [OF pages] have all: "check_all env ?stale (rows, ps) = (ocs, rows', ps')" using stale by simp
  have len: "length ocs = length ?stale" using stale(1) by (metis length_map)
  have t: "touched (tr_id ` set ?stale) rows rows'" using check_all_touched [OF all] by blast
  have "filter (due_track ?cut) rows' = []" if ok: "\<forall>i. ce_record_fails (env i) = None \<and> now \<le> ce_now (env i)"
  proof -
    have "\<not> due_track ?cut r" if r: "r \<in> set rows'" for r
    proof (cases "tr_id r \<in> tr_id ` set ?stale")
      case True
      have "tr_checked r = Some (ce_now (env (tr_id r)))"
        using check_all_recorded [OF all _ r True] ok by simp
      moreover have "?cut < ce_now (env (tr_id r))"
        using ok [rule_format, of "tr_id r"] by (simp add: CheckInterval_def)
      ultimately show ?thesis by (rule due_after_check)
    next
      case False
      have "r \<in> set rows" using t r False unfolding touched_def list_all2_conv_all_nth
        by (metis in_set_conv_nth)
      then show ?thesis using False by auto
    qed
    then show ?thesis by (simp add: filter_empty_conv)
  qed
  then show ?thesis using all rep stale(2) len t by (simp add: Let_def report_of_def)
qed

text \<open>The moment of the push is written before the push is sent: a push the provider could not take, or a worker that
  stops in between, leaves a track that no later run tells about.\<close>

lemma lost_push_is_not_repeated:
  assumes "check_track e t (rows, ps) = (oc, (rows', ps'), ms)" and "ce_record_fails e = None"
    and "should_notify (found_quote e) t" and "r \<in> set rows'" and "tr_id r = tr_id t"
  shows "\<not> should_notify q r"
proof -
  have "rows' = update_where (\<lambda>r. tr_id r = tr_id t) (write_check (check_of e t)) rows"
    using assms(1,2) by (auto simp: check_track_def RecordCheck_def split: option.splits if_splits prod.splits)
  then have "tr_notified r = Some (ce_now e)"
    using assms(3-5) by (auto simp: set_update_where write_check_def check_of_def)
  then show ?thesis by (simp add: should_notify_def split: option.splits)
qed

subsection \<open>Any number of runs\<close>

text \<open>The operations of users and of every run, interleaved statement by statement.  \<open>wc_made\<close> is every track ever
  created, \<open>wc_read\<close> what runs read as due and did not check yet, \<open>wc_tell\<close> what they recorded as reached and did not
  push yet, \<open>wc_told\<close> what was handed to the push provider.  A run may be delivered twice and may stop at any point.\<close>

record watch_state =
  wc_rows :: "track list"
  wc_push :: push_state
  wc_made :: "track list"
  wc_read :: "track list"
  wc_tell :: "(track \<times> rat \<times> string) list"
  wc_told :: "(track \<times> rat \<times> string \<times> push_message) list"

inductive watch_step :: "watch_state \<Rightarrow> watch_state \<Rightarrow> bool" where
  created: "new_track e user p = Inr r \<Longrightarrow> Create_track f ss r (wc_rows c) = Inr (r, rows) \<Longrightarrow>
    watch_step c (c\<lparr>wc_rows := rows, wc_made := wc_made c @ [r]\<rparr>)"
| deleted: "watch_step c (c\<lparr>wc_rows := filter P (wc_rows c)\<rparr>)"
| paged: "watch_step c (c\<lparr>wc_read := wc_read c @ Due_tracks cutoff after checkPage (wc_rows c)\<rparr>)"
| checked: "wc_read c = xs @ t # ys \<Longrightarrow> RecordCheck (ce_record_fails e) (tr_id t) (check_of e t) (wc_rows c) = Inr rows \<Longrightarrow>
    watch_step c (c\<lparr>wc_rows := rows, wc_read := xs @ ys,
      wc_tell := (case qu_price (found_quote e) of None \<Rightarrow> wc_tell c
        | Some p \<Rightarrow> if should_notify (found_quote e) t then (t, p, qu_currency (found_quote e)) # wc_tell c else wc_tell c)\<rparr>)"
| pushed: "wc_tell c = xs @ (t, p, cur) # ys \<Longrightarrow> SendToUser e (PriceDrop short t p cur) (wc_push c) = (ps, ms, j, err) \<Longrightarrow>
    watch_step c (c\<lparr>wc_push := ps, wc_tell := xs @ ys, wc_told := map (\<lambda>m. (t, p, cur, m)) ms @ wc_told c\<rparr>)"
| notified: "\<not> has_prefix (no_key n) ''price_drop:'' \<Longrightarrow> SendToUser e n (wc_push c) = (ps, ms, j, err) \<Longrightarrow> watch_step c (c\<lparr>wc_push := ps\<rparr>)"
| devices: "keys_of ps = keys_of (wc_push c) \<Longrightarrow> watch_step c (c\<lparr>wc_push := ps\<rparr>)"
| stopped: "watch_step c (c\<lparr>wc_read := filter Q (wc_read c), wc_tell := filter R (wc_tell c)\<rparr>)"

inductive_cases watch_stepE: "watch_step c c'"

inductive watch_reach :: "watch_state \<Rightarrow> bool" where
  start: "watch_reach \<lparr>wc_rows = [], wc_push = ps, wc_made = [], wc_read = [], wc_tell = [], wc_told = []\<rparr>"
| step: "watch_reach c \<Longrightarrow> watch_step c c' \<Longrightarrow> watch_reach c'"

text \<open>What a user asked for does not change: the track a run holds watches what was created.\<close>

definition same_watch :: "track \<Rightarrow> track \<Rightarrow> bool" where
  "same_watch r t = (tr_id r = tr_id t \<and> tr_user r = tr_user t \<and> tr_save r = tr_save t \<and> tr_url r = tr_url t
     \<and> tr_title r = tr_title t \<and> tr_target r = tr_target t)"

definition watched :: "track list \<Rightarrow> track \<Rightarrow> bool" where
  "watched made t = list_ex (\<lambda>r. same_watch r t) made"

lemma watched_append: "watched made t \<Longrightarrow> watched (made @ rs) t"
  by (simp add: watched_def)

lemma watched_self: "watched (made @ [r]) r"
  by (simp add: watched_def same_watch_def)

lemma watched_write [simp]: "watched made (write_check k r) = watched made r"
  by (simp add: watched_def same_watch_def)

definition reached :: "track list \<Rightarrow> track \<times> rat \<Rightarrow> bool" where
  "reached made x = (case x of (t, p) \<Rightarrow> watched made t \<and> p \<le> tr_target t)"

definition told_ids :: "watch_state \<Rightarrow> string list" where
  "told_ids c = map (\<lambda>(t, p, cur, m). tr_id t) (wc_told c)"

text \<open>The message says what the notification says.\<close>

definition worded :: "track \<times> rat \<times> string \<times> push_message \<Rightarrow> bool" where
  "worded x = (case x of (t, p, cur, m) \<Rightarrow>
     \<exists>short. pm_title m = no_title (PriceDrop short t p cur) \<and> pm_body m = no_body (PriceDrop short t p cur))"

lemma SendToUser_message:
  "SendToUser e n s = (s1, ms, i, err) \<Longrightarrow> m \<in> set ms \<Longrightarrow> pm_title m = no_title n \<and> pm_body m = no_body n"
  by (auto simp: SendToUser_def deliver_def Let_def split: option.splits prod.splits if_splits sum.splits)

definition honest :: "watch_state \<Rightarrow> bool" where
  "honest c = (list_all (watched (wc_made c)) (wc_rows c) \<and> list_all (watched (wc_made c)) (wc_read c)
     \<and> list_all (\<lambda>(t, p, cur). reached (wc_made c) (t, p)) (wc_tell c)
     \<and> list_all (\<lambda>(t, p, cur, m). reached (wc_made c) (t, p) \<and> worded (t, p, cur, m)) (wc_told c)
     \<and> distinct (told_ids c) \<and> (\<forall>i \<in> set (told_ids c). ''price_drop:'' @ i \<in> set (keys_of (wc_push c))))"

lemma honest_more_keys:
  "honest c \<Longrightarrow> set (keys_of (wc_push c)) \<subseteq> set (keys_of ps) \<Longrightarrow> honest (c\<lparr>wc_push := ps\<rparr>)"
  by (auto simp: honest_def told_ids_def)

lemma honest_pushed:
  assumes "honest c" and "wc_tell c = xs @ (t, p, cur) # ys"
    and "SendToUser e (PriceDrop short t p cur) (wc_push c) = (ps, ms, j, err)"
  shows "honest (c\<lparr>wc_push := ps, wc_tell := xs @ ys, wc_told := map (\<lambda>m. (t, p, cur, m)) ms @ wc_told c\<rparr>)"
proof -
  have key: "no_key (PriceDrop short t p cur) = ''price_drop:'' @ tr_id t" by (simp add: PriceDrop_def Let_def)
  note eff = SendToUser_effect [OF assms(3), unfolded key]
  have more: "set (keys_of (wc_push c)) \<subseteq> set (keys_of ps)" using eff by auto
  have r: "reached (wc_made c) (t, p)" using assms(1,2) by (simp add: honest_def)
  show ?thesis
  proof (cases ms)
    case Nil
    then show ?thesis using assms(1,2) more by (auto simp: honest_def told_ids_def)
  next
    case (Cons m ms')
    then have m: "ms = [m]" "''price_drop:'' @ tr_id t \<notin> set (keys_of (wc_push c))" using eff by auto
    moreover have "''price_drop:'' @ tr_id t \<in> set (keys_of ps)" using eff Cons by auto
    moreover have "worded (t, p, cur, m)" using SendToUser_message [OF assms(3)] m(1) by (auto simp: worded_def)
    ultimately show ?thesis using assms(1,2) more r by (auto simp: honest_def told_ids_def)
  qed
qed

lemma honest_checked:
  assumes "honest c" and "wc_read c = xs @ t # ys"
    and "RecordCheck (ce_record_fails e) (tr_id t) (check_of e t) (wc_rows c) = Inr rows"
  shows "honest (c\<lparr>wc_rows := rows, wc_read := xs @ ys,
      wc_tell := (case qu_price (found_quote e) of None \<Rightarrow> wc_tell c
        | Some p \<Rightarrow> if should_notify (found_quote e) t then (t, p, qu_currency (found_quote e)) # wc_tell c else wc_tell c)\<rparr>)"
proof -
  have w: "watched (wc_made c) t" using assms(1,2) by (simp add: honest_def)
  have rows: "list_all (watched (wc_made c)) rows"
    using assms(1,3) by (auto simp: honest_def RecordCheck_def list_all_iff set_update_where split: option.splits)
  have "reached (wc_made c) (t, p)" if "qu_price (found_quote e) = Some p" "should_notify (found_quote e) t" for p
    using w that by (simp add: reached_def should_notify_def)
  then show ?thesis using assms(1,2) rows by (auto simp: honest_def told_ids_def split: option.splits)
qed

lemma honest_created:
  "honest c \<Longrightarrow> honest (c\<lparr>wc_rows := wc_rows c @ [r], wc_made := wc_made c @ [r]\<rparr>)"
  by (auto simp: honest_def told_ids_def list_all_iff reached_def watched_append watched_self split: prod.splits)

lemma honest_paged: "honest c \<Longrightarrow> honest (c\<lparr>wc_read := wc_read c @ Due_tracks cutoff after limit (wc_rows c)\<rparr>)"
  using key_page_set [of _ tr_id "due_track cutoff" after limit "wc_rows c"]
  by (auto simp: honest_def told_ids_def list_all_iff Due_tracks_def)

lemma watch_step_honest: "watch_step c c' \<Longrightarrow> honest c \<Longrightarrow> honest c'"
proof (induction rule: watch_step.induct)
  case (created e user p r f ss c rows)
  then have "rows = wc_rows c @ [r]" by (auto simp: Create_track_def split: option.splits if_splits)
  then show ?case using honest_created created.prems by simp
next
  case (deleted c P)
  then show ?case by (auto simp: honest_def told_ids_def list_all_iff)
next
  case (paged c cutoff after)
  then show ?case by (rule honest_paged)
next
  case (checked c xs t ys e rows)
  then show ?case by (intro honest_checked)
next
  case (pushed c xs t p cur ys e short ps ms j err)
  then show ?case by (intro honest_pushed)
next
  case (notified n e c ps ms j err)
  then show ?case by (intro honest_more_keys SendToUser_keys(1))
next
  case (devices ps c)
  then show ?case by (intro honest_more_keys) auto
next
  case (stopped c Q R)
  then show ?case by (auto simp: honest_def told_ids_def list_all_iff)
qed

lemma watch_reach_honest: "watch_reach c \<Longrightarrow> honest c"
  by (induction rule: watch_reach.induct) (simp add: honest_def told_ids_def, rule watch_step_honest)

text \<open>C34: A price drop is told at most once, and only when the price has reached what the user asked for.  However many
  runs overlap, whatever dies in between and whatever users do meanwhile, the push provider is handed at most one
  message per track, and every message is about a track that was created as it is, with a price not above its target.\<close>

theorem price_drop_is_told_once_at_the_target:
  assumes "watch_reach c"
  shows "distinct (map (\<lambda>(t, p, cur, m). tr_id t) (wc_told c))
    \<and> ((t, p, cur, m) \<in> set (wc_told c) \<longrightarrow>
        p \<le> tr_target t \<and> (\<exists>r \<in> set (wc_made c). same_watch r t)
        \<and> (\<exists>short. pm_title m = no_title (PriceDrop short t p cur) \<and> pm_body m = no_body (PriceDrop short t p cur)))"
proof -
  have h: "honest c" by (rule watch_reach_honest [OF assms])
  have "p \<le> tr_target t \<and> (\<exists>r \<in> set (wc_made c). same_watch r t) \<and> worded (t, p, cur, m)"
    if "(t, p, cur, m) \<in> set (wc_told c)"
    using h that by (auto simp: honest_def list_all_iff reached_def watched_def list_ex_iff)
  then show ?thesis using h by (auto simp: honest_def told_ids_def worded_def)
qed

subsection \<open>A kettle, step by step\<close>

definition kettle :: track where
  "kettle = \<lparr>tr_id = ''k1'', tr_user = ''ann'', tr_save = None, tr_url = ''https://e.co/a?a=1&b=2'', tr_title = ''Kettle'', tr_target = 20,
     tr_currency = [], tr_last = None, tr_active = True, tr_checked = None, tr_notified = None, tr_created = 0\<rparr>"

definition quoting :: "rat \<Rightarrow> check_env" where
  "quoting p = \<lparr>ce_quote = Inr \<lparr>qu_price = Some p, qu_currency = ''EUR ''\<rparr>, ce_now = 30 * hour, ce_record_fails = None,
     ce_short = (\<lambda>_. ''19.9''), ce_send = flaky\<rparr>"

theorem run_checks_every_due_track_once_witness:
  "\<exists>report rows' ps'. CheckDue (\<lambda>_. None) (\<lambda>_. quoting 25) (30 * hour) ([kettle], one_phone) = ((report, None), rows', ps')
     \<and> rp_checked report = 1 \<and> filter (due_track (10 * hour)) rows' = []"
proof -
  obtain report err rows' ps' where run:
    "CheckDue (\<lambda>_. None) (\<lambda>_. quoting 25) (30 * hour) ([kettle], one_phone) = ((report, err), rows', ps')"
    by (metis prod.collapse)
  have d: "distinct (map tr_id [kettle])" by simp
  have due: "filter (due_track (30 * hour - CheckInterval)) [kettle] = [kettle]"
    by (simp add: due_track_def kettle_def)
  have calm: "\<forall>i :: string. ce_record_fails (quoting 25) = None \<and> 30 * hour \<le> ce_now (quoting 25)" by (simp add: quoting_def)
  note r = run_checks_every_due_track_once [OF d run, unfolded Let_def due]
  have "rp_checked report = length (sort_key tr_id [kettle])" using r by blast
  moreover have "filter (due_track (30 * hour - CheckInterval)) rows' = []" using r calm by blast
  moreover have "err = None" using r by blast
  ultimately show ?thesis using run by (simp add: CheckInterval_def)
qed

lemma kettle_simps [simp]: "tr_id kettle = ''k1''" "tr_user kettle = ''ann''" "tr_save kettle = None" "tr_target kettle = 20"
  "tr_notified kettle = None" "due_track cutoff kettle" "tr_url kettle = ''https://e.co/a?a=1&b=2''" "tr_title kettle = ''Kettle''"
  by (simp_all add: kettle_def due_track_def)

definition kettle_env :: track_env where
  "kettle_env = \<lparr>te_resolver = shop, te_uuid = Some, te_id = ''k1'', te_now = 0, te_fails = None\<rparr>"

lemma kettle_link: "is_ok (Resolve (offline shop) ''https://e.co/a?a=1&b=2'')" "trim_space ''https://e.co/a?a=1&b=2'' = ''https://e.co/a?a=1&b=2''"
  "trim_space ''Kettle'' = ''Kettle''"
  by code_simp+

lemma kettle_created:
  "new_track kettle_env ''ann'' \<lparr>tp_url = ''https://e.co/a?a=1&b=2'', tp_target = Some 20, tp_title = ''Kettle'', tp_reel = None\<rparr> = Inr kettle"
  using kettle_link(1)
  by (cases "Resolve (offline shop) ''https://e.co/a?a=1&b=2''")
    (simp_all add: new_track_def kettle_link(2,3) kettle_env_def track_save_id_def kettle_def)

lemma kettle_pushed: "SendToUser flaky (PriceDrop (\<lambda>_. ''19.9'') kettle 19 ''EUR '') one_phone = (ps, ms, j, err) \<Longrightarrow>
   \<exists>m. ms = [m]"
  by (auto simp: SendToUser_def deliver_def one_phone_def flaky_def tokensFor_def MaxTokensPerBatch_def PriceDrop_def Let_def
      record_deliveries_def split: prod.splits)

theorem price_drop_is_told_once_at_the_target_witness:
  "\<exists>c m. watch_reach c \<and> wc_told c = [(kettle, 19, ''EUR '', m)] \<and> (19 :: rat) \<le> tr_target kettle
     \<and> distinct (map (\<lambda>(t, p, cur, m). tr_id t) (wc_told c))
     \<and> (\<exists>short. pm_title m = no_title (PriceDrop short kettle 19 ''EUR ''))"
proof -
  let ?c0 = "\<lparr>wc_rows = [], wc_push = one_phone, wc_made = [], wc_read = [], wc_tell = [], wc_told = []\<rparr>"
  let ?c1 = "?c0\<lparr>wc_rows := [kettle], wc_made := [kettle]\<rparr>"
  let ?c2 = "?c1\<lparr>wc_read := [kettle]\<rparr>"
  let ?row = "write_check (check_of (quoting 19) kettle) kettle"
  let ?c3 = "?c2\<lparr>wc_rows := [?row], wc_read := [], wc_tell := [(kettle, 19, ''EUR '')]\<rparr>"
  obtain ps ms j err where snd: "SendToUser flaky (PriceDrop (\<lambda>_. ''19.9'') kettle 19 ''EUR '') one_phone = (ps, ms, j, err)"
    by (metis prod.collapse)
  obtain m where m: "ms = [m]" using kettle_pushed [OF snd] by blast
  let ?c4 = "?c3\<lparr>wc_push := ps, wc_tell := [], wc_told := [(kettle, 19, ''EUR '', m)]\<rparr>"
  have "watch_reach ?c1"
    using watch_reach.step [OF watch_reach.start [of one_phone] watch_step.created [OF kettle_created, where f = None and ss = "[]" and rows = "[kettle]"]]
    by (simp add: Create_track_def owns_save_def)
  then have "watch_reach ?c2"
    using watch_reach.step [OF _ watch_step.paged [where c = ?c1 and after = None]]
    by (simp add: Due_tracks_def key_page_def checkPage_def)
  then have "watch_reach ?c3"
    using watch_reach.step [OF _ watch_step.checked [where c = ?c2 and xs = "[]" and t = kettle and ys = "[]" and e = "quoting 19" and rows = "[?row]"]]
    by (simp add: RecordCheck_def quoting_def found_quote_def should_notify_def)
  then have r: "watch_reach ?c4"
    using watch_reach.step [OF _ watch_step.pushed [where c = ?c3 and xs = "[]" and t = kettle and p = 19 and cur = "''EUR ''" and ys = "[]" and e = flaky and ps = ps and ms = ms and j = j and err = err and short = "\<lambda>_. ''19.9''"]] snd m by simp
  show ?thesis
    using price_drop_is_told_once_at_the_target [OF r, of kettle 19 "''EUR ''" m] r
    by - (rule exI [of _ ?c4], rule exI [of _ m], simp, blast)
qed

end
