(* ===== verification/Calendar.thy ===== *)
theory Calendar
  imports Prelude
begin

text \<open>
  Calendar days in UTC, as package \<open>time\<close> counts them: the date of a day since the Unix epoch and its text
  \<open>2006-01-02\<close>.  Years begin in March here, so that the leap day is the last day of a year.
\<close>

abbreviation day :: duration where "day \<equiv> 86400000000000"

definition day_of :: "time \<Rightarrow> int" where
  "day_of t = t div day"

subsection \<open>Years that begin in March\<close>

definition year_start :: "int \<Rightarrow> int" where
  "year_start y = 365 * y + y div 4 - y div 100 + y div 400"

text \<open>Days from 0000-03-01 to the epoch.\<close>

definition epoch_shift :: int where "epoch_shift = 719468"

text \<open>The year of a day counted from 0000-03-01: an estimate within its cycle of 400 years, and one step up where that
  year has begun.\<close>

definition year_of :: "int \<Rightarrow> int" where
  "year_of n =
     (let y = 400 * (n div 146097) + (n mod 146097) div 366
      in if year_start (y + 1) \<le> n then y + 1 else y)"

definition month_index :: "int \<Rightarrow> int" where
  "month_index doy = (5 * doy + 2) div 153"

definition month_start :: "int \<Rightarrow> int" where
  "month_start mp = (153 * mp + 2) div 5"

definition civil :: "int \<Rightarrow> int \<times> int \<times> int" where
  "civil d =
     (let n = d + epoch_shift; y = year_of n; doy = n - year_start y; mp = month_index doy
      in (if mp < 10 then y else y + 1, if mp < 10 then mp + 3 else mp - 9, doy - month_start mp + 1))"

definition of_civil :: "int \<times> int \<times> int \<Rightarrow> int" where
  "of_civil c = (case c of (y, m, d) \<Rightarrow>
     year_start (if m \<le> 2 then y - 1 else y) + month_start (if m \<le> 2 then m + 9 else m - 3) + d - 1 - epoch_shift)"

lemma div_bounds: "0 < (c :: int) \<Longrightarrow> c * (a div c) \<le> a \<and> a < c * (a div c) + c"
  using mult_div_mod_eq [of c a] pos_mod_bound [of c a] pos_mod_sign [of c a] by linarith

lemma year_start_cycle: "year_start (400 * k + r) = 146097 * k + year_start r"
proof -
  have "(400 * k + r) div 4 = (r + (100 * k) * 4) div 4" "(400 * k + r) div 100 = (r + (4 * k) * 100) div 100"
    "(400 * k + r) div 400 = (r + k * 400) div 400" by (simp_all add: algebra_simps)
  then show ?thesis by (simp only: div_mult_self1 year_start_def) simp
qed

lemma step_div: "0 < (c :: int) \<Longrightarrow> (a + 1) div c = a div c \<or> (a + 1) div c = a div c + 1"
proof -
  assume c: "0 < c"
  have "a div c \<le> (a + 1) div c" using c by (intro zdiv_mono1) auto
  moreover have "(a + 1) div c \<le> (a + 1 * c) div c" using c by (intro zdiv_mono1) auto
  moreover have "(a + 1 * c) div c = a div c + 1" using c by simp
  ultimately show ?thesis by linarith
qed

lemma year_step:
  "q' = q \<or> q' = q + 1 \<Longrightarrow> a' = a \<or> q' = q + 1 \<and> a' = a + 1 \<Longrightarrow> b' = b \<or> a' = a + 1 \<and> b' = b + 1 \<Longrightarrow>
   365 \<le> (365 * (y + 1) + q' - a' + b') - (365 * y + q - a + b)
   \<and> (365 * (y + 1) + q' - a' + b') - (365 * y + q - a + b) \<le> (366 :: int)"
  by auto

lemma year_length: "365 \<le> year_start (y + 1) - year_start y \<and> year_start (y + 1) - year_start y \<le> 366"
proof -
  have h: "x div 100 = x div 4 div 25" "x div 400 = x div 100 div 4" for x :: int
    using zdiv_zmult2_eq [of 25 x 4] zdiv_zmult2_eq [of 4 x 100] by simp_all
  have s4: "(a + 1) div 4 = a div 4 \<or> (a + 1) div 4 = a div 4 + 1" for a :: int by (rule step_div) simp
  have s25: "(y div 4 + 1) div 25 = y div 4 div 25 \<or> (y div 4 + 1) div 25 = y div 4 div 25 + 1" by (rule step_div) simp
  have s100: "(y + 1) div 100 = y div 100 \<or> (y + 1) div 100 = y div 100 + 1" by (rule step_div) simp
  have "(y + 1) div 100 = y div 100 \<or> (y + 1) div 4 = y div 4 + 1 \<and> (y + 1) div 100 = y div 100 + 1"
    using s4 [of y] s25 unfolding h(1) by (elim disjE) simp_all
  moreover have "(y + 1) div 400 = y div 400 \<or> (y + 1) div 100 = y div 100 + 1 \<and> (y + 1) div 400 = y div 400 + 1"
    using s100 s4 [of "y div 100"] unfolding h(2) by (elim disjE) simp_all
  ultimately show ?thesis using s4 [of y] unfolding year_start_def by (intro year_step)
qed

lemma year_of_bounds: "year_start (year_of n) \<le> n \<and> n < year_start (year_of n + 1)"
proof -
  define k where "k = n div 146097"
  define e where "e = n mod 146097"
  define r where "r = e div 366"
  have n: "n = 146097 * k + e" by (simp add: k_def e_def)
  have e: "0 \<le> e" "e < 146097" by (simp_all add: e_def)
  have r: "366 * r \<le> e" "e < 366 * r + 366" using div_bounds [of 366 e] by (simp_all add: r_def)
  then have r1: "0 \<le> r" "r \<le> 399" using e by linarith+
  have lo: "year_start r \<le> e"
    using div_bounds [of 4 r] div_bounds [of 100 r] div_bounds [of 400 r] r r1 by (simp add: year_start_def)
  have up: "e < year_start (r + 2)"
    using div_bounds [of 4 "r + 2"] div_bounds [of 100 "r + 2"] div_bounds [of 400 "r + 2"] r r1 by (simp add: year_start_def)
  have s: "year_start (400 * k + r + 1) = 146097 * k + year_start (r + 1)"
    "year_start (400 * k + r) = 146097 * k + year_start r"
    "year_start (400 * k + r + 2) = 146097 * k + year_start (r + 2)"
    using year_start_cycle [of k "r + 1"] year_start_cycle [of k r] year_start_cycle [of k "r + 2"] by (simp_all add: add.assoc)
  have y: "year_of n = (if year_start (400 * k + r + 1) \<le> n then 400 * k + r + 1 else 400 * k + r)"
    by (simp add: year_of_def Let_def k_def e_def r_def)
  show ?thesis
  proof (cases "year_start (400 * k + r + 1) \<le> n")
    case True
    then show ?thesis using n up s y by (simp add: add.assoc)
  next
    case False
    then show ?thesis using n lo s y by simp
  qed
qed

definition day_of_year :: "int \<Rightarrow> int" where
  "day_of_year n = n - year_start (year_of n)"

lemma day_of_year_bounds: "0 \<le> day_of_year n \<and> day_of_year n \<le> 365"
  using year_of_bounds [of n] year_length [of "year_of n"] by (simp add: day_of_year_def)

lemma month_index_bounds: "0 \<le> doy \<Longrightarrow> doy \<le> 365 \<Longrightarrow> 0 \<le> month_index doy \<and> month_index doy \<le> 11"
  using div_bounds [of 153 "5 * doy + 2"] by (simp add: month_index_def)

lemma month_day_bounds: "month_start (month_index doy) \<le> doy \<and> doy - month_start (month_index doy) \<le> 30"
  using div_bounds [of 153 "5 * doy + 2"] div_bounds [of 5 "153 * month_index doy + 2"]
  by (simp add: month_index_def month_start_def)

lemma civil_parts:
  "civil d = (let n = d + epoch_shift; mp = month_index (day_of_year n)
      in (if mp < 10 then year_of n else year_of n + 1, if mp < 10 then mp + 3 else mp - 9,
          day_of_year n - month_start mp + 1))"
  by (simp add: civil_def day_of_year_def Let_def)

lemma of_civil_civil: "of_civil (civil d) = d"
proof -
  let ?n = "d + epoch_shift"
  have b: "0 \<le> month_index (day_of_year ?n)" "month_index (day_of_year ?n) \<le> 11"
    using month_index_bounds day_of_year_bounds by blast+
  have n: "?n = year_start (year_of ?n) + day_of_year ?n" by (simp add: day_of_year_def)
  show ?thesis using b n unfolding civil_parts Let_def of_civil_def
    by (cases "month_index (day_of_year ?n) < 10") simp_all
qed

lemma civil_inj: "civil a = civil b \<longleftrightarrow> a = b"
  by (metis of_civil_civil)

lemma civil_bounds: "civil d = (y, m, e) \<Longrightarrow> 1 \<le> m \<and> m \<le> 12 \<and> 1 \<le> e \<and> e \<le> 31"
  using month_index_bounds [of "day_of_year (d + epoch_shift)"] month_day_bounds [of "day_of_year (d + epoch_shift)"]
    day_of_year_bounds [of "d + epoch_shift"]
  by (auto simp: civil_parts Let_def split: if_splits)

subsection \<open>The text of a date\<close>

definition padded :: "nat \<Rightarrow> nat \<Rightarrow> string" where
  "padded w n = replicate (w - length (show_nat n)) (CHR ''0'') @ show_nat n"

definition DateOnly :: "int \<Rightarrow> string" where
  "DateOnly d = (case civil d of (y, m, e) \<Rightarrow>
     (if y < 0 then ''-'' else []) @ padded 4 (nat \<bar>y\<bar>) @ ''-'' @ padded 2 (nat m) @ ''-'' @ padded 2 (nat e))"

lemma digits_value_zeros: "digits_value (replicate k (CHR ''0'') @ s) = digits_value s"
  by (induction k) (simp_all add: digits_value_def char_code_def)

lemma padded_value: "digits_value (padded w n) = int n"
  by (simp add: padded_def digits_value_zeros digits_value_show_nat)

lemma padded_digits: "list_all is_digit (padded w n)"
  using show_nat_digits [of n] by (auto simp: padded_def list_all_iff is_digit_def char_code_def)

lemma padded_no_dash: "CHR ''-'' \<notin> set (padded w n)"
  using padded_digits [of w n] not_digit_sign by (auto simp: list_all_iff)

lemma padded_not_Nil: "padded w n \<noteq> []"
  by (simp add: padded_def)

lemma padded_inj: "padded w m = padded w n \<longleftrightarrow> m = n"
  by (metis padded_value of_nat_eq_iff)

lemma DateOnly_parts: "civil d = (y, m, e) \<Longrightarrow>
  (if y < 0 then tl (DateOnly d) else DateOnly d) = padded 4 (nat \<bar>y\<bar>) @ CHR ''-'' # padded 2 (nat m) @ CHR ''-'' # padded 2 (nat e)"
  by (simp add: DateOnly_def)

lemma DateOnly_sign: "civil d = (y, m, e) \<Longrightarrow> hd (DateOnly d) = CHR ''-'' \<longleftrightarrow> y < 0"
proof -
  have "hd (padded 4 k) \<noteq> CHR ''-''" for k
    using padded_no_dash [of 4 k] padded_not_Nil [of 4 k] by (metis list.set_sel(1))
  then show "civil d = (y, m, e) \<Longrightarrow> ?thesis" by (simp add: DateOnly_def padded_not_Nil)
qed

lemma dashed_parts:
  assumes "padded 4 a @ CHR ''-'' # padded 2 b @ CHR ''-'' # padded 2 c = padded 4 a' @ CHR ''-'' # padded 2 b' @ CHR ''-'' # padded 2 c'"
  shows "a = a' \<and> b = b' \<and> c = c'"
proof -
  have sp: "split_on (CHR ''-'') (padded 4 k @ CHR ''-'' # padded 2 m @ CHR ''-'' # padded 2 e) = [padded 4 k, padded 2 m, padded 2 e]" for k m e
    by (simp add: split_on_append padded_no_dash split_on_plain)
  then have "[padded 4 a, padded 2 b, padded 2 c] = [padded 4 a', padded 2 b', padded 2 c']" using assms by metis
  then show ?thesis by (simp add: padded_inj)
qed

lemma DateOnly_inj:
  assumes "DateOnly a = DateOnly b"
  shows "a = b"
proof -
  obtain y m e where a: "civil a = (y, m, e)" by (metis prod.collapse)
  obtain y' m' e' where b: "civil b = (y', m', e')" by (metis prod.collapse)
  have sign: "y < 0 \<longleftrightarrow> y' < 0" using DateOnly_sign [OF a] DateOnly_sign [OF b] assms by simp
  then have "nat \<bar>y\<bar> = nat \<bar>y'\<bar> \<and> nat m = nat m' \<and> nat e = nat e'"
    using DateOnly_parts [OF a] DateOnly_parts [OF b] assms by (intro dashed_parts) metis
  then have "y = y'" "m = m'" "e = e'" using sign civil_bounds [OF a] civil_bounds [OF b] by linarith+
  then show ?thesis using a b civil_inj by metis
qed

lemma civil_examples: "civil 0 = (1970, 1, 1)" "civil 19782 = (2024, 2, 29)" "civil 19783 = (2024, 3, 1)" "civil 20453 = (2025, 12, 31)"
  by code_simp+

end
