(* ===== verification/Daily.thy ===== *)
theory Daily
  imports Calendar Queue
begin

text \<open>
  The daily price check as a schedule (\<open>internal/pricetracks/schedule.go\<close>): the next run, the claim on its date in
  Redis that lets one worker park it, and the handler that parks the run after.  The check itself is the argument
  that tells whether it failed.  Clocks of workers may differ from the clock of Redis.
\<close>

definition RunHour :: duration where "RunHour = 3 * hour"
definition runGap :: duration where "runGap = hour"

definition run_on :: "int \<Rightarrow> time" where
  "run_on d = d * day + RunHour"

definition NextRun :: "time \<Rightarrow> time" where
  "NextRun after = (let run = run_on (day_of after) in if run < after then run_on (day_of after + 1) else run)"

subsection \<open>The next run\<close>

lemma day_of_bounds: "day_of t * day \<le> t \<and> t < day_of t * day + day"
  unfolding day_of_def using mult_div_mod_eq [of day t] pos_mod_bound [of day t] pos_mod_sign [of day t] by linarith

text \<open>The first run at or after a moment, and it is less than a day away.\<close>

lemma NextRun_on: "\<exists>d. NextRun t = run_on d"
  by (auto simp: NextRun_def Let_def)

lemma NextRun_bounds: "t \<le> NextRun t \<and> NextRun t < t + day"
  using day_of_bounds [of t] by (auto simp: NextRun_def run_on_def RunHour_def Let_def algebra_simps)

lemma run_on_less [simp]: "run_on d < run_on e \<longleftrightarrow> d < e"
  by (simp add: run_on_def)

lemma run_on_eq [simp]: "run_on d = run_on e \<longleftrightarrow> d = e"
  by (simp add: run_on_def)

lemma NextRun_unique: "t \<le> run_on d \<Longrightarrow> run_on d < t + day \<Longrightarrow> NextRun t = run_on d"
proof -
  assume d: "t \<le> run_on d" "run_on d < t + day"
  obtain e where e: "NextRun t = run_on e" using NextRun_on by blast
  have "run_on e < run_on d + day" "run_on d < run_on e + day" using d e NextRun_bounds [of t] by linarith+
  then have "e = d" by (simp add: run_on_def)
  then show ?thesis using e by simp
qed

lemma day_of_run [simp]: "day_of (run_on d) = d"
  by (simp add: day_of_def run_on_def RunHour_def)

text \<open>The gap: a run that is handled up to an hour before its hour, by the clock of its worker, and less than 23 hours
  late, is followed by the run of the next day.\<close>

lemma gap_reaches_tomorrow: "run_on d - runGap < now \<Longrightarrow> now \<le> run_on (d + 1) - runGap \<Longrightarrow> NextRun (now + runGap) = run_on (d + 1)"
  by (rule NextRun_unique) (simp_all add: run_on_def)

subsection \<open>Claims\<close>

text \<open>Redis keys with the moment they expire, by the clock of Redis.  \<open>SET NX PX\<close> keeps whole milliseconds.\<close>

type_synonym claims = "string \<rightharpoonup> time"

definition live_key :: "claims \<Rightarrow> time \<Rightarrow> string \<Rightarrow> bool" where
  "live_key m t k = (case m k of None \<Rightarrow> False | Some e \<Rightarrow> t < e)"

definition redis_Claim :: "time \<Rightarrow> string \<Rightarrow> duration \<Rightarrow> claims \<Rightarrow> bool \<times> claims" where
  "redis_Claim t k ttl m = (if live_key m t k then (False, m) else (True, m(k \<mapsto> t + ttl div millisecond * millisecond)))"

definition redis_Release :: "string \<Rightarrow> claims \<Rightarrow> claims" where
  "redis_Release k m = m(k := None)"

definition claim_key :: "string \<Rightarrow> time \<Rightarrow> string" where
  "claim_key prefix run = prefix @ '':price-check:scheduled:'' @ DateOnly (day_of run)"

definition claim_ttl :: "time \<Rightarrow> time \<Rightarrow> duration" where
  "claim_ttl now run = run - now + 24 * hour"

lemma claim_key_inj: "claim_key p (run_on a) = claim_key p (run_on b) \<longleftrightarrow> a = b"
  using DateOnly_inj by (auto simp: claim_key_def)

subsection \<open>Scheduling\<close>

text \<open>A message in the delay queue: the run it is for, its expiration in milliseconds, and the envelope.\<close>

record parked_run =
  pr_run :: time
  pr_expiration :: string
  pr_message :: message

text \<open>Which calls fail: an error of the claim or of the publish may come after the call took effect.\<close>

record day_env =
  de_prefix :: string
  de_uuid :: string
  de_now :: time
  de_redis :: time
  de_claim_fails :: "string option"
  de_claim_done :: bool
  de_publish_fails :: "string option"
  de_publish_done :: bool
  de_release_fails :: bool

record day_state =
  ds_claims :: claims
  ds_parked :: "parked_run list"

definition run_message :: "day_env \<Rightarrow> message" where
  "run_message e = \<lparr>msg_event_id = de_uuid e, msg_schema = SchemaVersion, msg_type = EventPriceCheck, msg_run = [],
     msg_generation = 0, msg_created = de_now e, msg_trace = []\<rparr>"

definition claim_run :: "day_env \<Rightarrow> time \<Rightarrow> day_state \<Rightarrow> (string + bool) \<times> day_state" where
  "claim_run e run s =
     (case redis_Claim (de_redis e) (claim_key (de_prefix e) run) (claim_ttl (de_now e) run) (ds_claims s) of (ok, m) \<Rightarrow>
        (case de_claim_fails e of None \<Rightarrow> (Inr ok, s\<lparr>ds_claims := m\<rparr>)
         | Some msg \<Rightarrow> (Inl msg, if de_claim_done e then s\<lparr>ds_claims := m\<rparr> else s)))"

definition park_run :: "day_env \<Rightarrow> time \<Rightarrow> day_state \<Rightarrow> day_state" where
  "park_run e run s =
     s\<lparr>ds_parked := ds_parked s @ [\<lparr>pr_run = run, pr_expiration = delayed_expiration (run - de_now e), pr_message = run_message e\<rparr>]\<rparr>"

definition publish_run :: "day_env \<Rightarrow> time \<Rightarrow> day_state \<Rightarrow> string option \<times> day_state" where
  "publish_run e run s =
     (case de_publish_fails e of None \<Rightarrow> (None, park_run e run s)
      | Some msg \<Rightarrow>
          (let s1 = (if de_publish_done e then park_run e run s else s)
           in (Some msg, if de_release_fails e then s1
                         else s1\<lparr>ds_claims := redis_Release (claim_key (de_prefix e) run) (ds_claims s1)\<rparr>)))"

definition schedule :: "day_env \<Rightarrow> time \<Rightarrow> day_state \<Rightarrow> string option \<times> day_state" where
  "schedule e after s =
     (case claim_run e (NextRun after) s of
        (Inl msg, s1) \<Rightarrow> (Some msg, s1)
      | (Inr claimed, s1) \<Rightarrow> if \<not> claimed then (None, s1) else publish_run e (NextRun after) s1)"

definition daily_Start :: "day_env \<Rightarrow> day_state \<Rightarrow> string option \<times> day_state" where
  "daily_Start e s = schedule e (de_now e) s"

text \<open>\<open>Handle\<close>: the check comes first, and what it answers is logged only.\<close>

definition daily_Handle :: "day_env \<Rightarrow> ('s \<Rightarrow> 's) \<Rightarrow> 's \<Rightarrow> day_state \<Rightarrow> (decision \<times> string option) \<times> 's \<times> day_state" where
  "daily_Handle e run_check w s =
     (case schedule e (de_now e + runGap) s of
        (Some msg, s1) \<Rightarrow> ((Retry (int (length RetryDelays)), Some msg), run_check w, s1)
      | (None, s1) \<Rightarrow> ((Done, None), run_check w, s1))"

subsection \<open>The chain goes on\<close>

definition calm_day :: "day_env \<Rightarrow> bool" where
  "calm_day e = (de_claim_fails e = None \<and> de_publish_fails e = None \<and> de_uuid e \<noteq> [])"

lemma schedule_calm:
  assumes "calm_day e"
  shows "schedule e after s =
    (if live_key (ds_claims s) (de_redis e) (claim_key (de_prefix e) (NextRun after)) then (None, s)
     else (None, park_run e (NextRun after) (s\<lparr>ds_claims := (ds_claims s)(claim_key (de_prefix e) (NextRun after)
        \<mapsto> de_redis e + claim_ttl (de_now e) (NextRun after) div millisecond * millisecond)\<rparr>)))"
  using assms by (simp add: schedule_def claim_run_def redis_Claim_def publish_run_def calm_day_def)

lemma run_message_valid: "calm_day e \<Longrightarrow> Validate (run_message e) = None"
  by (simp add: Validate_def run_message_def SchemaVersion_def EventPriceCheck_def calm_day_def)

text \<open>A delivered run schedules the next.  Without a fault, a run that its worker handles up to an hour early or less
  than 23 hours late by its own clock is acknowledged whatever the check did, and then the run of the next day is
  claimed: it was claimed before, and nothing changed, or this delivery parks a valid message for it that the broker
  holds until then, to the millisecond.\<close>

theorem delivered_run_schedules_the_next:
  assumes "calm_day e" and "run_on d - runGap < de_now e" and "de_now e \<le> run_on (d + 1) - runGap"
  shows "\<exists>s1. daily_Handle e check w s = ((Done, None), check w, s1)
    \<and> (if live_key (ds_claims s) (de_redis e) (claim_key (de_prefix e) (run_on (d + 1))) then s1 = s
       else (\<exists>m. ds_parked s1 = ds_parked s @ [\<lparr>pr_run = run_on (d + 1), pr_expiration = show_int ((run_on (d + 1) - de_now e) div millisecond), pr_message = m\<rparr>]
              \<and> Validate m = None)
            \<and> live_key (ds_claims s1) (de_redis e) (claim_key (de_prefix e) (run_on (d + 1))))"
proof -
  have run: "NextRun (de_now e + runGap) = run_on (d + 1)" by (rule gap_reaches_tomorrow [OF assms(2,3)])
  have pos: "runGap \<le> run_on (d + 1) - de_now e" using assms(3) by simp
  then have ttl: "0 < claim_ttl (de_now e) (run_on (d + 1)) div millisecond * millisecond"
    by (simp add: claim_ttl_def runGap_def pos_imp_zdiv_pos_iff)
  have ex: "delayed_expiration (run_on (d + 1) - de_now e) = show_int ((run_on (d + 1) - de_now e) div millisecond)"
    using pos by (simp add: delayed_expiration_def runGap_def)
  show ?thesis using ttl run_message_valid [OF assms(1)]
    by (auto simp: daily_Handle_def schedule_calm [OF assms(1)] run park_run_def ex live_key_def)
qed

text \<open>A claim that outlives its worker: a worker that stops between the claim and the publish, or cannot release after
  a failed publish, leaves a date that everyone takes for scheduled.  Every later start before that run is a success
  that parks nothing.\<close>

lemma claim_without_message_stops_the_chain:
  assumes "calm_day e" and "live_key (ds_claims s) (de_redis e) (claim_key (de_prefix e) (NextRun (de_now e)))"
  shows "daily_Start e s = (None, s)"
  using assms by (simp add: daily_Start_def schedule_calm)

subsection \<open>Any number of workers\<close>

text \<open>The schedulings of every worker, interleaved call by call.  A run is in \<open>dy_held\<close> from its claim to its publish, in
  \<open>dy_failed\<close> from a failed publish to the release of the claim, in \<open>dy_parked\<close> when the broker confirmed its message,
  in \<open>dy_unsure\<close> when the broker took a message it did not confirm, in \<open>dy_lost\<close> when the worker that claimed it stopped;
  \<open>dy_flushes\<close> counts how often Redis lost its data.  The clocks of workers differ from the clock of Redis by at most
  \<open>skew\<close>.\<close>

record day_sys =
  dy_claims :: claims
  dy_redis :: time
  dy_held :: "time list"
  dy_failed :: "time list"
  dy_parked :: "time list"
  dy_unsure :: "time list"
  dy_lost :: "time list"
  dy_flushes :: nat

inductive day_step :: "duration \<Rightarrow> string \<Rightarrow> day_sys \<Rightarrow> day_sys \<Rightarrow> bool" for skew prefix where
  clock: "dy_redis c \<le> t \<Longrightarrow> day_step skew prefix c (c\<lparr>dy_redis := t\<rparr>)"
| claimed: "\<bar>now - dy_redis c\<bar> \<le> skew \<Longrightarrow> after \<in> {now, now + runGap} \<Longrightarrow>
    redis_Claim (dy_redis c) (claim_key prefix (NextRun after)) (claim_ttl now (NextRun after)) (dy_claims c) = (True, m) \<Longrightarrow>
    day_step skew prefix c (c\<lparr>dy_claims := m, dy_held := NextRun after # dy_held c\<rparr>)"
| published: "dy_held c = xs @ run # ys \<Longrightarrow> day_step skew prefix c (c\<lparr>dy_held := xs @ ys, dy_parked := run # dy_parked c\<rparr>)"
| refused: "dy_held c = xs @ run # ys \<Longrightarrow> day_step skew prefix c (c\<lparr>dy_held := xs @ ys, dy_failed := run # dy_failed c\<rparr>)"
| unconfirmed: "dy_held c = xs @ run # ys \<Longrightarrow>
    day_step skew prefix c (c\<lparr>dy_held := xs @ ys, dy_failed := run # dy_failed c, dy_unsure := run # dy_unsure c\<rparr>)"
| released: "dy_failed c = xs @ run # ys \<Longrightarrow>
    day_step skew prefix c (c\<lparr>dy_failed := xs @ ys, dy_claims := redis_Release (claim_key prefix run) (dy_claims c)\<rparr>)"
| stopped: "dy_held c = xs @ run # ys \<Longrightarrow> day_step skew prefix c (c\<lparr>dy_held := xs @ ys, dy_lost := run # dy_lost c\<rparr>)"
| gave_up: "dy_failed c = xs @ run # ys \<Longrightarrow> day_step skew prefix c (c\<lparr>dy_failed := xs @ ys, dy_lost := run # dy_lost c\<rparr>)"
| flushed: "day_step skew prefix c (c\<lparr>dy_claims := (\<lambda>_. None), dy_flushes := dy_flushes c + 1\<rparr>)"

inductive_cases day_stepE: "day_step skew prefix c c'"

inductive day_reach :: "duration \<Rightarrow> string \<Rightarrow> day_sys \<Rightarrow> bool" for skew prefix where
  start: "day_reach skew prefix \<lparr>dy_claims = (\<lambda>_. None), dy_redis = t, dy_held = [], dy_failed = [], dy_parked = [],
    dy_unsure = [], dy_lost = [], dy_flushes = 0\<rparr>"
| step: "day_reach skew prefix c \<Longrightarrow> day_step skew prefix c c' \<Longrightarrow> day_reach skew prefix c'"

text \<open>The claims on a run that still count, and whether a key keeps everyone else away until nobody asks for that run
  any more.\<close>

definition standing :: "day_sys \<Rightarrow> time \<Rightarrow> nat" where
  "standing c run = count_list (dy_held c) run + count_list (dy_failed c) run + count_list (dy_parked c) run + count_list (dy_lost c) run"

definition guarded :: "duration \<Rightarrow> string \<Rightarrow> day_sys \<Rightarrow> time \<Rightarrow> bool" where
  "guarded skew prefix c run = (case dy_claims c (claim_key prefix run) of None \<Rightarrow> False | Some e \<Rightarrow> run + skew < e)"

definition accounted :: "duration \<Rightarrow> string \<Rightarrow> day_sys \<Rightarrow> bool" where
  "accounted skew prefix c = (\<forall>d. standing c (run_on d) \<le> dy_flushes c + (if guarded skew prefix c (run_on d) then 1 else 0))"

lemma accounted_kept:
  assumes "accounted skew prefix c" and "\<forall>r. standing c' r \<le> standing c r" and "dy_claims c' = dy_claims c"
    and "dy_flushes c' = dy_flushes c"
  shows "accounted skew prefix c'"
  unfolding accounted_def
proof
  fix d
  have "guarded skew prefix c' (run_on d) = guarded skew prefix c (run_on d)" using assms(3) by (simp add: guarded_def)
  moreover have "standing c' (run_on d) \<le> standing c (run_on d)" using assms(2) by blast
  moreover have "standing c (run_on d) \<le> dy_flushes c + (if guarded skew prefix c (run_on d) then 1 else 0)"
    using assms(1) by (simp add: accounted_def)
  ultimately show "standing c' (run_on d) \<le> dy_flushes c' + (if guarded skew prefix c' (run_on d) then 1 else 0)"
    using assms(4) by simp
qed

lemma accounted_claimed:
  assumes "accounted skew prefix c" and "2 * skew + millisecond \<le> day" and "\<bar>now - dy_redis c\<bar> \<le> skew" and "after \<in> {now, now + runGap}"
    and "redis_Claim (dy_redis c) (claim_key prefix (NextRun after)) (claim_ttl now (NextRun after)) (dy_claims c) = (True, m)"
  shows "accounted skew prefix (c\<lparr>dy_claims := m, dy_held := NextRun after # dy_held c\<rparr>)"
proof -
  obtain n where n: "NextRun after = run_on n" using NextRun_on by blast
  let ?k = "claim_key prefix (run_on n)" and ?ttl = "claim_ttl now (run_on n)"
  have m: "m = (dy_claims c)(?k \<mapsto> dy_redis c + ?ttl div millisecond * millisecond)"
    and free: "\<not> live_key (dy_claims c) (dy_redis c) ?k"
    using assms(5) n by (auto simp: redis_Claim_def split: if_splits)
  have early: "now \<le> run_on n" using NextRun_bounds [of after] assms(4) n by (auto simp: runGap_def)
  then have t: "dy_redis c \<le> run_on n + skew" using assms(3) by linarith
  have "?ttl - millisecond < ?ttl div millisecond * millisecond"
    using pos_mod_bound [of millisecond ?ttl] div_mult_mod_eq [of ?ttl millisecond] by linarith
  then have long: "run_on n + skew < dy_redis c + ?ttl div millisecond * millisecond"
    using assms(2,3) by (simp add: claim_ttl_def)
  have "\<not> guarded skew prefix c (run_on n)"
    using free t by (auto simp: live_key_def guarded_def split: option.splits)
  then have old: "standing c (run_on n) \<le> dy_flushes c"
    using assms(1) by (auto simp: accounted_def dest: spec [of _ n])
  show ?thesis unfolding accounted_def
  proof
    fix d
    let ?c' = "c\<lparr>dy_claims := m, dy_held := NextRun after # dy_held c\<rparr>"
    show "standing ?c' (run_on d) \<le> dy_flushes ?c' + (if guarded skew prefix ?c' (run_on d) then 1 else 0)"
    proof (cases "d = n")
      case True
      then show ?thesis using old long m n by (simp add: standing_def guarded_def)
    next
      case False
      then have "guarded skew prefix ?c' (run_on d) = guarded skew prefix c (run_on d)" "standing ?c' (run_on d) = standing c (run_on d)"
        using m n by (simp_all add: guarded_def standing_def claim_key_inj)
      then show ?thesis using assms(1) by (simp add: accounted_def)
    qed
  qed
qed

lemma accounted_released:
  assumes "accounted skew prefix c" and "dy_failed c = xs @ run # ys" and "\<exists>n. run = run_on n"
  shows "accounted skew prefix (c\<lparr>dy_failed := xs @ ys, dy_claims := redis_Release (claim_key prefix run) (dy_claims c)\<rparr>)"
proof -
  obtain n where n: "run = run_on n" using assms(3) by blast
  let ?c' = "c\<lparr>dy_failed := xs @ ys, dy_claims := redis_Release (claim_key prefix run) (dy_claims c)\<rparr>"
  have "standing ?c' (run_on d) \<le> dy_flushes ?c' + (if guarded skew prefix ?c' (run_on d) then 1 else 0)" for d
  proof (cases "d = n")
    case True
    have "Suc (standing ?c' (run_on n)) = standing c (run_on n)" using assms(2) n by (simp add: standing_def)
    then show ?thesis using assms(1) True by (auto simp: accounted_def split: if_splits dest!: spec [of _ n])
  next
    case False
    then have "guarded skew prefix ?c' (run_on d) = guarded skew prefix c (run_on d)" "standing ?c' (run_on d) = standing c (run_on d)"
      using assms(2) n by (simp_all add: guarded_def standing_def claim_key_inj redis_Release_def)
    then show ?thesis using assms(1) by (simp add: accounted_def)
  qed
  then show ?thesis by (simp add: accounted_def)
qed

definition on_hour :: "day_sys \<Rightarrow> bool" where
  "on_hour c = (\<forall>r \<in> set (dy_held c) \<union> set (dy_failed c). \<exists>n. r = run_on n)"

lemma day_step_accounted:
  assumes "day_step skew prefix c c'" and "2 * skew + millisecond \<le> day" and "accounted skew prefix c \<and> on_hour c"
  shows "accounted skew prefix c' \<and> on_hour c'"
  using assms(1)
proof cases
  case (claimed now after m)
  show ?thesis unfolding claimed(1)
  proof
    show "accounted skew prefix (c\<lparr>dy_claims := m, dy_held := NextRun after # dy_held c\<rparr>)"
      using accounted_claimed [OF _ assms(2) claimed(2-4)] assms(3) by blast
    show "on_hour (c\<lparr>dy_claims := m, dy_held := NextRun after # dy_held c\<rparr>)"
      using assms(3) NextRun_on by (simp add: on_hour_def)
  qed
next
  case (released xs run ys)
  then have "\<exists>n. run = run_on n" using assms(3) by (simp add: on_hour_def)
  then show ?thesis using accounted_released [OF _ released(2)] released assms(3) by (simp add: on_hour_def)
next
  case flushed
  have "standing c' (run_on d) \<le> dy_flushes c' + 0" for d
  proof -
    have "standing c (run_on d) \<le> dy_flushes c + (if guarded skew prefix c (run_on d) then 1 else 0)"
      using assms(3) by (simp add: accounted_def)
    then show ?thesis using flushed by (simp add: standing_def split: if_splits)
  qed
  then show ?thesis using flushed assms(3) by (simp add: accounted_def guarded_def on_hour_def)
next
  case (clock t)
  show ?thesis using assms(3) accounted_kept [of skew prefix c c'] unfolding clock by (simp add: standing_def on_hour_def)
next
  case (published xs run ys)
  show ?thesis using assms(3) accounted_kept [of skew prefix c c'] unfolding published(1) by (simp add: standing_def on_hour_def published(2))
next
  case (refused xs run ys)
  show ?thesis using assms(3) accounted_kept [of skew prefix c c'] unfolding refused(1) by (simp add: standing_def on_hour_def refused(2))
next
  case (unconfirmed xs run ys)
  show ?thesis using assms(3) accounted_kept [of skew prefix c c'] unfolding unconfirmed(1) by (simp add: standing_def on_hour_def unconfirmed(2))
next
  case (stopped xs run ys)
  show ?thesis using assms(3) accounted_kept [of skew prefix c c'] unfolding stopped(1) by (simp add: standing_def on_hour_def stopped(2))
next
  case (gave_up xs run ys)
  show ?thesis using assms(3) accounted_kept [of skew prefix c c'] unfolding gave_up(1) by (simp add: standing_def on_hour_def gave_up(2))
qed

lemma day_reach_accounted:
  "day_reach skew prefix c \<Longrightarrow> 2 * skew + millisecond \<le> day \<Longrightarrow> accounted skew prefix c \<and> on_hour c"
proof (induction rule: day_reach.induct)
  case (start t)
  then show ?case by (simp add: accounted_def standing_def on_hour_def)
next
  case (step c c')
  then show ?case using day_step_accounted by blast
qed

text \<open>Runs of one day never exceed one, except for what the broker took without confirming and for what Redis forgot.\<close>

definition all_parked :: "day_sys \<Rightarrow> time list" where
  "all_parked c = dy_parked c @ dy_unsure c"

text \<open>C35: One run a day.  However many workers start, handle, retry and stop, in any order of their calls and with
  clocks up to almost half a day off, the broker is handed at most one message for the run of a day, and one more for
  every publish that took effect without a confirm and for every time Redis lost its data.\<close>

theorem one_run_is_parked_per_day:
  assumes "day_reach skew prefix c" and "2 * skew + millisecond \<le> day"
  shows "count_list (all_parked c) (run_on d) \<le> 1 + dy_flushes c + count_list (dy_unsure c) (run_on d)"
proof -
  have "standing c (run_on d) \<le> dy_flushes c + 1"
    using day_reach_accounted [OF assms] by (auto simp: accounted_def split: if_splits dest!: spec [of _ d])
  then show ?thesis by (simp add: standing_def all_parked_def)
qed

subsection \<open>A day, step by step\<close>

definition quiet :: day_env where
  "quiet = \<lparr>de_prefix = ''reelpin'', de_uuid = ''u1'', de_now = run_on 20453 + minute, de_redis = run_on 20453 + minute,
     de_claim_fails = None, de_claim_done = True, de_publish_fails = None, de_publish_done = True, de_release_fails = False\<rparr>"

definition no_runs :: day_state where "no_runs = \<lparr>ds_claims = (\<lambda>_. None), ds_parked = []\<rparr>"

theorem delivered_run_schedules_the_next_witness:
  "\<exists>s1. daily_Handle quiet (\<lambda>w. w + 1) (0 :: nat) no_runs = ((Done, None), 1, s1)
     \<and> map pr_run (ds_parked s1) = [run_on 20454]"
proof -
  have e: "calm_day quiet" "run_on 20453 - runGap < de_now quiet" "de_now quiet \<le> run_on (20453 + 1) - runGap"
    by (simp_all add: quiet_def calm_day_def runGap_def run_on_def)
  have "\<not> live_key (ds_claims no_runs) (de_redis quiet) (claim_key (de_prefix quiet) (run_on (20453 + 1)))"
    by (simp add: live_key_def no_runs_def)
  moreover have "ds_parked no_runs = []" by (simp add: no_runs_def)
  ultimately show ?thesis using delivered_run_schedules_the_next [OF e, of "\<lambda>w. w + 1" "0 :: nat" no_runs] by auto
qed

theorem one_run_is_parked_per_day_witness:
  "\<exists>c. day_reach minute ''reelpin'' c \<and> dy_parked c = [run_on 0] \<and> dy_flushes c = 0 \<and> dy_unsure c = []
     \<and> count_list (all_parked c) (run_on 0) \<le> 1"
proof -
  let ?c0 = "\<lparr>dy_claims = (\<lambda>_. None), dy_redis = 0, dy_held = [], dy_failed = [], dy_parked = [], dy_unsure = [], dy_lost = [], dy_flushes = 0\<rparr>"
  let ?m = "snd (redis_Claim 0 (claim_key ''reelpin'' (run_on 0)) (claim_ttl 0 (run_on 0)) (\<lambda>_. None))"
  let ?c1 = "?c0\<lparr>dy_claims := ?m, dy_held := [run_on 0]\<rparr>"
  let ?c2 = "?c1\<lparr>dy_held := [], dy_parked := [run_on 0]\<rparr>"
  have n: "NextRun 0 = run_on 0" by (simp add: NextRun_def day_of_def run_on_def RunHour_def)
  have "redis_Claim 0 (claim_key ''reelpin'' (run_on 0)) (claim_ttl 0 (run_on 0)) (\<lambda>_. None) = (True, ?m)"
    by (simp add: redis_Claim_def live_key_def)
  then have "day_reach minute ''reelpin'' ?c1"
    using day_reach.step [OF day_reach.start day_step.claimed [where now = 0 and after = 0 and c = ?c0 and m = ?m and skew = minute and prefix = "''reelpin''"]] n
    by simp
  then have r: "day_reach minute ''reelpin'' ?c2"
    using day_reach.step [OF _ day_step.published [where c = ?c1 and xs = "[]" and run = "run_on 0" and ys = "[]"]] by simp
  show ?thesis using one_run_is_parked_per_day [OF r, of 0] r by (intro exI [of _ ?c2]) simp
qed

end
