(* ===== verification/Curator.thy ===== *)
theory Curator
  imports Stages "HOL-Library.Product_Lexorder" Complex_Main
begin

text \<open>
  The weekly curation of the category tree (\<open>internal/taxonomy\<close>): what is pending, the policy over what the model
  answered, the transaction that applies it together with its inverse, and the rollback.  The model is an argument; the
  JSON in which a run keeps its inverse is the value itself.  Statements inside a transaction fail together.
\<close>

definition MinContentCount :: nat where "MinContentCount = 3"
definition MinConfidence :: rat where "MinConfidence = 9 / 10"
definition MaxAdditionsPerRun :: nat where "MaxAdditionsPerRun = 5"

subsection \<open>The tables\<close>

datatype proposal_status = ProposalPending | Approved | ProposalRejected | Merged

record tax_proposal =
  xp_id :: string
  xp_name :: string
  xp_normalized :: string
  xp_description :: string
  xp_run :: "string option"
  xp_status :: proposal_status

datatype undo_kind = UndoAdd string | UndoAlias string | UndoReject

record undo =
  un_kind :: undo_kind
  un_proposals :: "string list"

record curation_action =
  ca_normalized :: string
  ca_verdict :: string
  ca_name :: string
  ca_description :: string
  ca_alias_of :: string
  ca_confidence :: rat
  ca_applied :: bool
  ca_skipped :: string
  ca_category :: string

record tax_run =
  xr_id :: string
  xr_decision :: "curation_action list"
  xr_rollback :: "undo list"
  xr_applied :: bool

record tax_state =
  tx_categories :: "category_row list"
  tx_aliases :: "(string \<times> string) list"
  tx_proposals :: "tax_proposal list"
  tx_runs :: "tax_run list"

definition VerdictAdd :: string where "VerdictAdd = ''add''"
definition VerdictAlias :: string where "VerdictAlias = ''alias''"
definition VerdictReject :: string where "VerdictReject = ''reject''"

subsection \<open>Names\<close>

definition is_alnum :: "char \<Rightarrow> bool" where
  "is_alnum c = (is_digit c \<or> is_lower c \<or> is_upper c)"

text \<open>The loop of \<open>Normalize\<close>: whether the last thing written was a separator, and whether anything was written.\<close>

fun separate :: "bool \<Rightarrow> bool \<Rightarrow> string \<Rightarrow> string" where
  "separate sep written [] = []"
| "separate sep written (c # s) =
     (if is_alnum c then c # separate False True s
      else if \<not> sep \<and> written then CHR '' '' # separate True True s
      else separate sep written s)"

definition taxonomy_Normalize :: "string \<Rightarrow> string" where
  "taxonomy_Normalize name = trim_space (separate False False (to_lower (trim_space name)))"

text \<open>What \<open>fileProposal\<close> stores instead: \<open>lower(trim(name))\<close>, where SQL trims blanks only.\<close>

definition filed_name :: "string \<Rightarrow> string" where
  "filed_name name = to_lower (dropWhile (\<lambda>c. c = CHR '' '') (trim_right_by (\<lambda>c. c = CHR '' '') name))"

subsection \<open>What is pending, and what exists\<close>

record proposal =
  pp_normalized :: string
  pp_names :: "string list"
  pp_descriptions :: "string list"
  pp_count :: nat
  pp_ids :: "string list"

definition evidence :: "tax_proposal \<Rightarrow> string" where
  "evidence p = (case xp_run p of None \<Rightarrow> xp_id p | Some r \<Rightarrow> r)"

definition grouped :: "tax_proposal list \<Rightarrow> string \<Rightarrow> proposal" where
  "grouped ps n =
     (let qs = filter (\<lambda>p. xp_normalized p = n) ps
      in \<lparr>pp_normalized = n, pp_names = sort (remdups (map xp_name qs)),
          pp_descriptions = sort (remdups (filter (\<lambda>d. d \<noteq> []) (map xp_description qs))),
          pp_count = length (remdups (map evidence qs)), pp_ids = map xp_id qs\<rparr>)"

definition PendingProposals :: "tax_state \<Rightarrow> proposal list" where
  "PendingProposals s =
     (let ps = filter (\<lambda>p. xp_status p = ProposalPending) (tx_proposals s)
      in sort_key (\<lambda>g. (- int (pp_count g), pp_normalized g)) (map (grouped ps) (remdups (map xp_normalized ps))))"

definition active_ids :: "tax_state \<Rightarrow> string list" where
  "active_ids s = map cr_id (filter cr_active (tx_categories s))"

text \<open>The rows of the query, and the Go map they fill: a later row wins.\<close>

definition name_rows :: "tax_state \<Rightarrow> (string \<times> string) list" where
  "name_rows s = map (\<lambda>c. (cr_normalized c, cr_id c)) (filter cr_active (tx_categories s))
     @ filter (\<lambda>a. snd a \<in> set (active_ids s)) (tx_aliases s)"

definition existingNames :: "tax_state \<Rightarrow> string \<rightharpoonup> string" where
  "existingNames s = map_of (rev (name_rows s))"

subsection \<open>The policy\<close>

definition find_proposal :: "string \<Rightarrow> proposal list \<Rightarrow> proposal option" where
  "find_proposal n ps = find (\<lambda>p. pp_normalized p = n) (rev ps)"

definition skip :: "string \<Rightarrow> curation_action \<Rightarrow> curation_action" where
  "skip why a = a\<lparr>ca_skipped := why\<rparr>"

text \<open>\<open>%.2f\<close>, rounded half up.\<close>

definition two_decimals :: "rat \<Rightarrow> string" where
  "two_decimals x =
     (let n = nat \<lfloor>\<bar>x\<bar> * 100 + 1 / 2\<rfloor>
      in (if x < 0 then ''-'' else []) @ show_nat (n div 100) @ ''.''
         @ (if n mod 100 < 10 then ''0'' else []) @ show_nat (n mod 100))"

text \<open>One verdict: the decided action, and whether it is an addition.  What the model says about \<open>applied\<close> stays where
  no branch sets it.\<close>

definition decide :: "proposal list \<Rightarrow> (string \<rightharpoonup> string) \<Rightarrow> nat \<Rightarrow> curation_action \<Rightarrow> curation_action \<times> bool" where
  "decide ps existing additions a0 =
     (let a = a0\<lparr>ca_normalized := taxonomy_Normalize (ca_normalized a0)\<rparr>; n = ca_normalized a
      in case find_proposal n ps of None \<Rightarrow> (skip ''not a pending proposal'' a, False)
         | Some p \<Rightarrow>
             if ca_verdict a = VerdictReject then (a\<lparr>ca_applied := True\<rparr>, False)
             else if ca_verdict a = VerdictAlias
             then (case existing (taxonomy_Normalize (ca_alias_of a)) of
                     Some i \<Rightarrow> (a\<lparr>ca_category := i, ca_applied := True\<rparr>, False)
                   | None \<Rightarrow> (skip ''alias target is not an active category'' a, False))
             else if ca_verdict a \<noteq> VerdictAdd then (skip (''unknown verdict '' @ ca_verdict a) a, False)
             else if (case existing n of None \<Rightarrow> False | Some i \<Rightarrow> i \<noteq> [])
             then (skip ''already an active category or alias'' a, False)
             else if pp_count p < MinContentCount
             then (skip (''only '' @ show_nat (pp_count p) @ '' of '' @ show_nat MinContentCount @ '' distinct proposals'') a, False)
             else if ca_confidence a < MinConfidence
             then (skip (''confidence '' @ two_decimals (ca_confidence a) @ '' below '' @ two_decimals MinConfidence) a, False)
             else if MaxAdditionsPerRun \<le> additions
             then (skip (''run already added '' @ show_nat MaxAdditionsPerRun @ '' categories'') a, False)
             else (a\<lparr>ca_applied := True\<rparr>, True))"

fun applyPolicy :: "proposal list \<Rightarrow> (string \<rightharpoonup> string) \<Rightarrow> nat \<Rightarrow> curation_action list \<Rightarrow> curation_action list" where
  "applyPolicy ps existing additions [] = []"
| "applyPolicy ps existing additions (a # as) =
     (case decide ps existing additions a of (d, added) \<Rightarrow>
        d # applyPolicy ps existing (if added then additions + 1 else additions) as)"

record curation_report =
  cu_additions :: nat
  cu_aliases :: nat
  cu_rejected :: nat
  cu_skipped :: nat

definition count_applied :: "string \<Rightarrow> curation_action list \<Rightarrow> nat" where
  "count_applied v as = length (filter (\<lambda>a. ca_applied a \<and> ca_verdict a = v) as)"

definition summarize :: "curation_action list \<Rightarrow> curation_report" where
  "summarize as = \<lparr>cu_additions = count_applied VerdictAdd as, cu_aliases = count_applied VerdictAlias as,
     cu_rejected = count_applied VerdictReject as, cu_skipped = length (filter (\<lambda>a. \<not> ca_applied a) as)\<rparr>"

subsection \<open>Applying\<close>

definition setProposals :: "string list \<Rightarrow> proposal_status \<Rightarrow> tax_state \<Rightarrow> tax_state" where
  "setProposals ids st s = s\<lparr>tx_proposals := update_where (\<lambda>p. xp_id p \<in> set ids) (\<lambda>p. p\<lparr>xp_status := st\<rparr>) (tx_proposals s)\<rparr>"

definition proposal_ids :: "proposal list \<Rightarrow> string \<Rightarrow> string list" where
  "proposal_ids ps n = (case find_proposal n ps of None \<Rightarrow> [] | Some p \<Rightarrow> pp_ids p)"

definition new_category :: "string \<Rightarrow> curation_action \<Rightarrow> category_row" where
  "new_category i a = \<lparr>cr_id = i, cr_parent = None, cr_name = (if ca_name a = [] then ca_normalized a else ca_name a),
     cr_normalized = ca_normalized a, cr_description = ca_description a, cr_active = True\<rparr>"

text \<open>One applied action; \<open>i\<close> is the id a new category gets.\<close>

definition apply_action :: "proposal list \<Rightarrow> string \<Rightarrow> curation_action \<Rightarrow> tax_state \<Rightarrow> err + (curation_action \<times> undo option \<times> tax_state)" where
  "apply_action ps i a s =
     (let ids = proposal_ids ps (ca_normalized a)
      in if \<not> ca_applied a then Inr (a, None, s)
         else if ca_verdict a = VerdictAdd
         then (if list_ex (\<lambda>c. cr_normalized c = ca_normalized a) (tx_categories s) then Inl ErrUnique
               else Inr (a\<lparr>ca_category := i\<rparr>, Some \<lparr>un_kind = UndoAdd i, un_proposals = ids\<rparr>,
                      setProposals ids Approved (s\<lparr>tx_categories := tx_categories s @ [new_category i a]\<rparr>)))
         else if ca_verdict a = VerdictAlias
         then (if \<not> list_ex (\<lambda>c. cr_id c = ca_category a) (tx_categories s) then Inl (ErrOther ''category_aliases_category_id_fkey'')
               else Inr (a, Some \<lparr>un_kind = UndoAlias (ca_normalized a), un_proposals = ids\<rparr>,
                      setProposals ids Merged
                        (if list_ex (\<lambda>x. fst x = ca_normalized a) (tx_aliases s) then s
                         else s\<lparr>tx_aliases := tx_aliases s @ [(ca_normalized a, ca_category a)]\<rparr>)))
         else if ca_verdict a = VerdictReject
         then Inr (a, Some \<lparr>un_kind = UndoReject, un_proposals = ids\<rparr>, setProposals ids ProposalRejected s)
         else Inr (a, None, s))"

fun apply_actions :: "proposal list \<Rightarrow> string list \<Rightarrow> curation_action list \<Rightarrow> tax_state
    \<Rightarrow> err + (curation_action list \<times> undo list \<times> tax_state)" where
  "apply_actions ps ids [] s = Inr ([], [], s)"
| "apply_actions ps ids (a # as) s =
     bind_r (apply_action ps (case ids of [] \<Rightarrow> [] | i # _ \<Rightarrow> i) a s) (\<lambda>(a', u, s1).
     bind_r (apply_actions ps (tl ids) as s1) (\<lambda>(as', us, s2).
     Inr (a' # as', (case u of None \<Rightarrow> us | Some x \<Rightarrow> x # us), s2)))"

definition recordRun :: "string \<Rightarrow> curation_action list \<Rightarrow> undo list \<Rightarrow> bool \<Rightarrow> tax_state \<Rightarrow> tax_state" where
  "recordRun i as us done1 s = s\<lparr>tx_runs := tx_runs s @ [\<lparr>xr_id = i, xr_decision = as, xr_rollback = us, xr_applied = done1\<rparr>]\<rparr>"

text \<open>\<open>apply\<close>: one transaction.  \<open>i\<close> is the id of the run, \<open>ids\<close> the ids of the new categories.\<close>

definition apply_run :: "string option \<Rightarrow> string \<Rightarrow> string list \<Rightarrow> proposal list \<Rightarrow> curation_action list \<Rightarrow> tax_state
    \<Rightarrow> err + (curation_action list \<times> tax_state)" where
  "apply_run fault i ids ps as s =
     (case fault of Some m \<Rightarrow> Inl (ErrOther m)
      | None \<Rightarrow> bind_r (apply_actions ps ids as s) (\<lambda>(as', us, s1). Inr (as', recordRun i as' us (us \<noteq> []) s1)))"

subsection \<open>Curate\<close>

record curate_env =
  cv_run :: string
  cv_ids :: "string list"
  cv_read_fails :: "string option"
  cv_judge :: "proposal list \<Rightarrow> (string \<rightharpoonup> string) \<Rightarrow> string + curation_action list"
  cv_record_fails :: bool
  cv_apply_fails :: "string option"

datatype curate_result = Nothing | Dry curation_report "curation_action list" | Curated string curation_report bool "curation_action list"

definition Curate :: "curate_env \<Rightarrow> bool \<Rightarrow> tax_state \<Rightarrow> (err + curate_result) \<times> tax_state" where
  "Curate e dry s =
     (case cv_read_fails e of Some m \<Rightarrow> (Inl (ErrOther m), s)
      | None \<Rightarrow>
        (let ps = PendingProposals s; existing = existingNames s
         in if ps = [] then (Inr Nothing, s)
            else (case cv_judge e ps existing of
                    Inl m \<Rightarrow> (Inl (ErrOther (''taxonomy curation model failed: '' @ m)),
                              if cv_record_fails e then s else recordRun (cv_run e) [] [] False s)
                  | Inr answer \<Rightarrow>
                      (let as = applyPolicy ps existing 0 answer; r = summarize as
                       in if dry then (Inr (Dry r as), s)
                          else (case apply_run (cv_apply_fails e) (cv_run e) (cv_ids e) ps as s of
                                  Inl err \<Rightarrow> (Inl err, s)
                                | Inr (as', s1) \<Rightarrow>
                                    (Inr (Curated (cv_run e) r (0 < cu_additions r + cu_aliases r + cu_rejected r) as'), s1))))))"

subsection \<open>Rollback\<close>

definition undo_one :: "undo \<Rightarrow> tax_state \<Rightarrow> tax_state" where
  "undo_one u s =
     setProposals (un_proposals u) ProposalPending
       (case un_kind u of
          UndoAdd i \<Rightarrow> s\<lparr>tx_categories := update_where (\<lambda>c. cr_id c = i) (\<lambda>c. c\<lparr>cr_active := False\<rparr>) (tx_categories s)\<rparr>
        | UndoAlias n \<Rightarrow> s\<lparr>tx_aliases := filter (\<lambda>x. fst x \<noteq> n) (tx_aliases s)\<rparr>
        | UndoReject \<Rightarrow> s)"

definition Rollback_run :: "string option \<Rightarrow> string \<Rightarrow> tax_state \<Rightarrow> err + (nat \<times> tax_state)" where
  "Rollback_run fault i s =
     (case fault of Some m \<Rightarrow> Inl (ErrOther m)
      | None \<Rightarrow>
        (case find (\<lambda>r. xr_id r = i) (tx_runs s) of None \<Rightarrow> Inl (ErrOther (''no taxonomy run '' @ i))
         | Some r \<Rightarrow>
             if \<not> xr_applied r then Inr (0, s)
             else (let s1 = fold undo_one (xr_rollback r) s
                   in Inr (length (xr_rollback r),
                           s1\<lparr>tx_runs := update_where (\<lambda>x. xr_id x = i) (\<lambda>x. x\<lparr>xr_applied := False\<rparr>) (tx_runs s1)\<rparr>))))"

subsection \<open>The policy holds\<close>

text \<open>What every applied action satisfies.\<close>

definition approved :: "proposal list \<Rightarrow> (string \<rightharpoonup> string) \<Rightarrow> curation_action \<Rightarrow> bool" where
  "approved ps existing a =
     (\<exists>p \<in> set ps. pp_normalized p = ca_normalized a
       \<and> (ca_verdict a = VerdictReject
          \<or> ca_verdict a = VerdictAlias \<and> existing (taxonomy_Normalize (ca_alias_of a)) = Some (ca_category a)
          \<or> ca_verdict a = VerdictAdd \<and> (existing (ca_normalized a) = None \<or> existing (ca_normalized a) = Some [])
            \<and> MinContentCount \<le> pp_count p \<and> MinConfidence \<le> ca_confidence a))"

lemma find_proposal_in: "find_proposal n ps = Some p \<Longrightarrow> p \<in> set ps \<and> pp_normalized p = n"
  unfolding find_proposal_def using find_Some_in by fastforce

lemma verdicts [simp]: "VerdictAdd \<noteq> VerdictAlias" "VerdictAdd \<noteq> VerdictReject" "VerdictAlias \<noteq> VerdictReject"
  "VerdictAlias \<noteq> VerdictAdd" "VerdictReject \<noteq> VerdictAdd" "VerdictReject \<noteq> VerdictAlias"
  by (simp_all add: VerdictAdd_def VerdictAlias_def VerdictReject_def)

lemma skip_simps [simp]: "ca_applied (skip w a) = ca_applied a" "ca_verdict (skip w a) = ca_verdict a"
  "ca_normalized (skip w a) = ca_normalized a"
  by (simp_all add: skip_def)

lemma decide_approved:
  assumes "decide ps existing n a = (d, added)" and "\<not> ca_applied a"
  shows "ca_applied d \<Longrightarrow> approved ps existing d"
    and "added \<longleftrightarrow> ca_applied d \<and> ca_verdict d = VerdictAdd" and "added \<Longrightarrow> n < MaxAdditionsPerRun"
proof -
  let ?n = "taxonomy_Normalize (ca_normalized a)"
  have "(ca_applied d \<longrightarrow> approved ps existing d) \<and> (added \<longleftrightarrow> ca_applied d \<and> ca_verdict d = VerdictAdd)
      \<and> (added \<longrightarrow> n < MaxAdditionsPerRun)"
  proof (cases "find_proposal ?n ps")
    case None
    then show ?thesis using assms by (auto simp: decide_def Let_def)
  next
    case (Some p)
    note p = find_proposal_in [OF Some]
    show ?thesis
      using assms Some p
      by (auto simp: decide_def Let_def approved_def split: if_splits option.splits)
  qed
  then show "ca_applied d \<Longrightarrow> approved ps existing d"
    "added \<longleftrightarrow> ca_applied d \<and> ca_verdict d = VerdictAdd" "added \<Longrightarrow> n < MaxAdditionsPerRun" by blast+
qed

lemma applyPolicy_approved:
  "list_all (\<lambda>a. \<not> ca_applied a) as \<Longrightarrow> n \<le> MaxAdditionsPerRun \<Longrightarrow>
   list_all (\<lambda>a. ca_applied a \<longrightarrow> approved ps existing a) (applyPolicy ps existing n as)
   \<and> n + count_applied VerdictAdd (applyPolicy ps existing n as) \<le> MaxAdditionsPerRun"
proof (induction as arbitrary: n)
  case (Cons a as)
  obtain d added where d: "decide ps existing n a = (d, added)" by (metis prod.collapse)
  from Cons.prems have a: "\<not> ca_applied a" by simp
  note e = decide_approved [OF d a]
  have ih: "list_all (\<lambda>a. ca_applied a \<longrightarrow> approved ps existing a) (applyPolicy ps existing (if added then n + 1 else n) as)
     \<and> (if added then n + 1 else n) + count_applied VerdictAdd (applyPolicy ps existing (if added then n + 1 else n) as) \<le> MaxAdditionsPerRun"
    using Cons.prems e(3) by (intro Cons.IH) (auto split: if_splits)
  show ?case using ih d e(1,2) by (auto simp: count_applied_def split: if_splits)
qed (simp add: count_applied_def)

subsection \<open>What a run writes, and its inverse\<close>

definition undo_adds :: "undo list \<Rightarrow> string list" where
  "undo_adds us = concat (map (\<lambda>u. case un_kind u of UndoAdd i \<Rightarrow> [i] | _ \<Rightarrow> []) us)"

definition undo_aliases :: "undo list \<Rightarrow> string list" where
  "undo_aliases us = concat (map (\<lambda>u. case un_kind u of UndoAlias n \<Rightarrow> [n] | _ \<Rightarrow> []) us)"

definition undo_proposals :: "undo list \<Rightarrow> string list" where
  "undo_proposals us = concat (map un_proposals us)"

lemma undo_lists_Nil [simp]: "undo_adds [] = []" "undo_aliases [] = []" "undo_proposals [] = []"
  by (simp_all add: undo_adds_def undo_aliases_def undo_proposals_def)

lemma undo_lists_Cons [simp]:
  "undo_adds (u # us) = (case un_kind u of UndoAdd i \<Rightarrow> [i] | _ \<Rightarrow> []) @ undo_adds us"
  "undo_aliases (u # us) = (case un_kind u of UndoAlias n \<Rightarrow> [n] | _ \<Rightarrow> []) @ undo_aliases us"
  "undo_proposals (u # us) = un_proposals u @ undo_proposals us"
  by (simp_all add: undo_adds_def undo_aliases_def undo_proposals_def)

text \<open>Proposals that changed their status only, and only those with an id in \<open>I\<close>.\<close>

definition relabelled :: "string set \<Rightarrow> tax_proposal list \<Rightarrow> tax_proposal list \<Rightarrow> bool" where
  "relabelled I ps qs = list_all2 (\<lambda>p q. q = p\<lparr>xp_status := xp_status q\<rparr> \<and> (xp_id p \<notin> I \<longrightarrow> q = p)) ps qs"

lemma relabelled_refl [simp]: "relabelled I ps ps"
  by (simp add: relabelled_def list_all2_refl)

lemma same_but_status: "q = p\<lparr>xp_status := xp_status q\<rparr> \<Longrightarrow> r = q\<lparr>xp_status := xp_status r\<rparr> \<Longrightarrow> r = p\<lparr>xp_status := xp_status r\<rparr>"
  by (metis tax_proposal.surjective tax_proposal.update_convs(6))

lemma same_but_status_id: "q = p\<lparr>xp_status := xp_status q\<rparr> \<Longrightarrow> xp_id q = xp_id p"
  by (metis tax_proposal.select_convs(1) tax_proposal.surjective tax_proposal.update_convs(6))

lemma relabelled_trans: "relabelled I ps qs \<Longrightarrow> relabelled J qs rs \<Longrightarrow> relabelled (I \<union> J) ps rs"
  unfolding relabelled_def
  by (erule (1) list_all2_trans [rotated]) (metis UnI1 UnI2 same_but_status same_but_status_id)

lemma relabelled_set: "relabelled (set ids) ps (update_where (\<lambda>p. xp_id p \<in> set ids) (\<lambda>p. p\<lparr>xp_status := st\<rparr>) ps)"
  by (induction ps) (auto simp: relabelled_def)

text \<open>Setting what was pending back to pending restores it.\<close>

lemma relabelled_back:
  "relabelled I ps qs \<Longrightarrow> \<forall>p \<in> set ps. xp_id p \<in> I \<longrightarrow> xp_status p = ProposalPending \<Longrightarrow> I = set ids \<Longrightarrow>
   update_where (\<lambda>p. xp_id p \<in> set ids) (\<lambda>p. p\<lparr>xp_status := ProposalPending\<rparr>) qs = ps"
  unfolding relabelled_def
proof (induction rule: list_all2_induct)
  case (Cons p ps q qs)
  have "(if xp_id q \<in> set ids then q\<lparr>xp_status := ProposalPending\<rparr> else q) = p"
    using Cons.hyps(1) Cons.prems by (cases p; cases q) auto
  then show ?case using Cons by simp
qed simp

lemma setProposals_simps [simp]: "tx_categories (setProposals ids st s) = tx_categories s"
  "tx_aliases (setProposals ids st s) = tx_aliases s" "tx_runs (setProposals ids st s) = tx_runs s"
  "tx_proposals (setProposals ids st s) = update_where (\<lambda>p. xp_id p \<in> set ids) (\<lambda>p. p\<lparr>xp_status := st\<rparr>) (tx_proposals s)"
  by (simp_all add: setProposals_def)

definition written :: "proposal list \<Rightarrow> curation_action list \<Rightarrow> undo list \<Rightarrow> tax_state \<Rightarrow> tax_state \<Rightarrow> bool" where
  "written ps as us s s1 =
     (\<exists>cs al. tx_categories s1 = tx_categories s @ cs \<and> tx_aliases s1 = tx_aliases s @ al \<and> tx_runs s1 = tx_runs s
       \<and> length cs = count_applied VerdictAdd as \<and> map cr_id cs = undo_adds us \<and> list_all cr_active cs
       \<and> (\<forall>c \<in> set cs. \<exists>a \<in> set as. ca_applied a \<and> ca_verdict a = VerdictAdd \<and> cr_normalized c = ca_normalized a)
       \<and> (\<forall>x \<in> set al. \<exists>a \<in> set as. ca_applied a \<and> ca_verdict a = VerdictAlias \<and> x = (ca_normalized a, ca_category a))
       \<and> fst ` set al \<subseteq> set (undo_aliases us)
       \<and> set (undo_aliases us) = ca_normalized ` {a \<in> set as. ca_applied a \<and> ca_verdict a = VerdictAlias}
       \<and> set (undo_proposals us) \<subseteq> (\<Union>p \<in> set ps. set (pp_ids p))
       \<and> relabelled (set (undo_proposals us)) (tx_proposals s) (tx_proposals s1))"

lemma proposal_ids_sub: "set (proposal_ids ps n) \<subseteq> (\<Union>p \<in> set ps. set (pp_ids p))"
  by (cases "find_proposal n ps") (auto simp: proposal_ids_def dest: find_proposal_in)

lemma written_Nil: "written ps [] [] s s"
  by (simp add: written_def count_applied_def)

lemma apply_action_written:
  assumes "apply_action ps i a s = Inr (a', u, s1)"
  shows "written ps [a] (case u of None \<Rightarrow> [] | Some x \<Rightarrow> [x]) s s1"
proof -
  let ?ids = "proposal_ids ps (ca_normalized a)"
  note sub = proposal_ids_sub [of ps "ca_normalized a"]
  consider (idle) "\<not> ca_applied a" | (add) "ca_applied a" "ca_verdict a = VerdictAdd" | (merge) "ca_applied a" "ca_verdict a = VerdictAlias"
    | (reject) "ca_applied a" "ca_verdict a = VerdictReject"
    | (other) "ca_applied a" "ca_verdict a \<notin> {VerdictAdd, VerdictAlias, VerdictReject}" by auto
  then show ?thesis
  proof cases
    case idle
    then show ?thesis using assms by (auto simp: apply_action_def Let_def written_def count_applied_def)
  next
    case add
    then have "u = Some \<lparr>un_kind = UndoAdd i, un_proposals = ?ids\<rparr>"
      and s1: "s1 = setProposals ?ids Approved (s\<lparr>tx_categories := tx_categories s @ [new_category i a]\<rparr>)"
      using assms by (auto simp: apply_action_def Let_def split: if_splits)
    then show ?thesis using sub add relabelled_set
      by (auto simp: written_def count_applied_def new_category_def intro!: exI [of _ "[new_category i a]"])
  next
    case merge
    then have u: "u = Some \<lparr>un_kind = UndoAlias (ca_normalized a), un_proposals = ?ids\<rparr>"
      and s1: "s1 = setProposals ?ids Merged (if list_ex (\<lambda>x. fst x = ca_normalized a) (tx_aliases s) then s
                         else s\<lparr>tx_aliases := tx_aliases s @ [(ca_normalized a, ca_category a)]\<rparr>)"
      using assms by (auto simp: apply_action_def Let_def split: if_splits)
    show ?thesis
    proof (cases "list_ex (\<lambda>x. fst x = ca_normalized a) (tx_aliases s)")
      case True
      then show ?thesis using u s1 sub merge relabelled_set by (auto simp: written_def count_applied_def)
    next
      case False
      then show ?thesis using u s1 sub merge relabelled_set
        by (auto simp: written_def count_applied_def intro!: exI [of _ "[(ca_normalized a, ca_category a)]"])
    qed
  next
    case reject
    then have "u = Some \<lparr>un_kind = UndoReject, un_proposals = ?ids\<rparr>" "s1 = setProposals ?ids ProposalRejected s"
      using assms by (auto simp: apply_action_def Let_def split: if_splits)
    then show ?thesis using sub reject relabelled_set by (auto simp: written_def count_applied_def)
  next
    case other
    then show ?thesis using assms by (auto simp: apply_action_def Let_def written_def count_applied_def)
  qed
qed

lemma undo_lists_append:
  "undo_adds (us @ vs) = undo_adds us @ undo_adds vs" "undo_aliases (us @ vs) = undo_aliases us @ undo_aliases vs"
  "undo_proposals (us @ vs) = undo_proposals us @ undo_proposals vs"
  by (simp_all add: undo_adds_def undo_aliases_def undo_proposals_def)

lemma written_trans:
  assumes "written ps as us s s1" and "written ps bs vs s1 s2"
  shows "written ps (as @ bs) (us @ vs) s s2"
proof -
  obtain cs al where 1: "tx_categories s1 = tx_categories s @ cs" "tx_aliases s1 = tx_aliases s @ al" "tx_runs s1 = tx_runs s"
    "length cs = count_applied VerdictAdd as" "map cr_id cs = undo_adds us" "list_all cr_active cs"
    "\<forall>c \<in> set cs. \<exists>a \<in> set as. ca_applied a \<and> ca_verdict a = VerdictAdd \<and> cr_normalized c = ca_normalized a"
    "\<forall>x \<in> set al. \<exists>a \<in> set as. ca_applied a \<and> ca_verdict a = VerdictAlias \<and> x = (ca_normalized a, ca_category a)"
    "fst ` set al \<subseteq> set (undo_aliases us)"
    "set (undo_aliases us) = ca_normalized ` {a \<in> set as. ca_applied a \<and> ca_verdict a = VerdictAlias}"
    "set (undo_proposals us) \<subseteq> (\<Union>p \<in> set ps. set (pp_ids p))"
    "relabelled (set (undo_proposals us)) (tx_proposals s) (tx_proposals s1)"
    using assms(1) unfolding written_def by (elim exE conjE) (rule that)
  obtain cs' al' where 2: "tx_categories s2 = tx_categories s1 @ cs'" "tx_aliases s2 = tx_aliases s1 @ al'" "tx_runs s2 = tx_runs s1"
    "length cs' = count_applied VerdictAdd bs" "map cr_id cs' = undo_adds vs" "list_all cr_active cs'"
    "\<forall>c \<in> set cs'. \<exists>a \<in> set bs. ca_applied a \<and> ca_verdict a = VerdictAdd \<and> cr_normalized c = ca_normalized a"
    "\<forall>x \<in> set al'. \<exists>a \<in> set bs. ca_applied a \<and> ca_verdict a = VerdictAlias \<and> x = (ca_normalized a, ca_category a)"
    "fst ` set al' \<subseteq> set (undo_aliases vs)"
    "set (undo_aliases vs) = ca_normalized ` {a \<in> set bs. ca_applied a \<and> ca_verdict a = VerdictAlias}"
    "set (undo_proposals vs) \<subseteq> (\<Union>p \<in> set ps. set (pp_ids p))"
    "relabelled (set (undo_proposals vs)) (tx_proposals s1) (tx_proposals s2)"
    using assms(2) unfolding written_def by (elim exE conjE) (rule that)
  show ?thesis unfolding written_def
  proof (intro exI [of _ "cs @ cs'"] exI [of _ "al @ al'"] conjI)
    show "length (cs @ cs') = count_applied VerdictAdd (as @ bs)" using 1(4) 2(4) by (simp add: count_applied_def)
    show "\<forall>c \<in> set (cs @ cs'). \<exists>a \<in> set (as @ bs). ca_applied a \<and> ca_verdict a = VerdictAdd \<and> cr_normalized c = ca_normalized a"
      using 1(7) 2(7) by fastforce
    show "\<forall>x \<in> set (al @ al'). \<exists>a \<in> set (as @ bs). ca_applied a \<and> ca_verdict a = VerdictAlias \<and> x = (ca_normalized a, ca_category a)"
      using 1(8) 2(8) by fastforce
    show "set (undo_aliases (us @ vs)) = ca_normalized ` {a \<in> set (as @ bs). ca_applied a \<and> ca_verdict a = VerdictAlias}"
      using 1(10) 2(10) by (auto simp: undo_lists_append)
    show "relabelled (set (undo_proposals (us @ vs))) (tx_proposals s) (tx_proposals s2)"
      using relabelled_trans [OF 1(12) 2(12)] by (simp add: undo_lists_append)
    show "tx_categories s2 = tx_categories s @ cs @ cs'" "tx_aliases s2 = tx_aliases s @ al @ al'" "tx_runs s2 = tx_runs s"
      using 1(1-3) 2(1-3) by simp_all
    show "map cr_id (cs @ cs') = undo_adds (us @ vs)" using 1(5) 2(5) by (simp add: undo_lists_append)
    show "list_all cr_active (cs @ cs')" using 1(6) 2(6) by simp
    show "fst ` set (al @ al') \<subseteq> set (undo_aliases (us @ vs))" using 1(9) 2(9) by (auto simp: undo_lists_append)
    show "set (undo_proposals (us @ vs)) \<subseteq> (\<Union>p \<in> set ps. set (pp_ids p))" using 1(11) 2(11) by (simp add: undo_lists_append)
  qed
qed

lemma apply_actions_written: "apply_actions ps ids as s = Inr (as', us, s1) \<Longrightarrow> written ps as us s s1"
proof (induction as arbitrary: ids s as' us)
  case Nil
  then show ?case by (simp add: written_Nil)
next
  case (Cons a as)
  from Cons.prems obtain a' u t as'' us'' where 1: "apply_action ps (case ids of [] \<Rightarrow> [] | i # _ \<Rightarrow> i) a s = Inr (a', u, t)"
    and 2: "apply_actions ps (tl ids) as t = Inr (as'', us'', s1)" and us: "us = (case u of None \<Rightarrow> us'' | Some x \<Rightarrow> x # us'')"
    by (auto simp: bind_r_Inr_iff)
  have "written ps ([a] @ as) ((case u of None \<Rightarrow> [] | Some x \<Rightarrow> [x]) @ us'') s s1"
    by (rule written_trans [OF apply_action_written [OF 1] Cons.IH [OF 2]])
  then show ?case using us by (cases u) simp_all
qed

text \<open>The inverse, in one step.\<close>

lemma undo_one_effect: "tx_categories (undo_one u s) = update_where (\<lambda>c. cr_id c \<in> set (undo_adds [u])) (\<lambda>c. c\<lparr>cr_active := False\<rparr>) (tx_categories s)
   \<and> tx_aliases (undo_one u s) = filter (\<lambda>x. fst x \<notin> set (undo_aliases [u])) (tx_aliases s)
   \<and> tx_proposals (undo_one u s) = update_where (\<lambda>p. xp_id p \<in> set (undo_proposals [u])) (\<lambda>p. p\<lparr>xp_status := ProposalPending\<rparr>) (tx_proposals s)
   \<and> tx_runs (undo_one u s) = tx_runs s"
  by (auto simp: undo_one_def update_where_none split: undo_kind.splits)

lemma update_twice:
  assumes "\<And>x. K (f x) = K x" and "\<And>x. f (f x) = f x"
  shows "update_where (\<lambda>x. K x \<in> J) f (update_where (\<lambda>x. K x \<in> I) f xs) = update_where (\<lambda>x. K x \<in> I \<union> J) f xs"
  using assms by (induction xs) auto

lemma fold_undo_effect: "tx_categories (fold undo_one us s) = update_where (\<lambda>c. cr_id c \<in> set (undo_adds us)) (\<lambda>c. c\<lparr>cr_active := False\<rparr>) (tx_categories s)
   \<and> tx_aliases (fold undo_one us s) = filter (\<lambda>x. fst x \<notin> set (undo_aliases us)) (tx_aliases s)
   \<and> tx_proposals (fold undo_one us s) = update_where (\<lambda>p. xp_id p \<in> set (undo_proposals us)) (\<lambda>p. p\<lparr>xp_status := ProposalPending\<rparr>) (tx_proposals s)
   \<and> tx_runs (fold undo_one us s) = tx_runs s"
proof (induction us arbitrary: s)
  case Nil
  then show ?case by (simp add: update_where_none)
next
  case (Cons u us)
  have "undo_adds (u # us) = undo_adds [u] @ undo_adds us" "undo_aliases (u # us) = undo_aliases [u] @ undo_aliases us"
    "undo_proposals (u # us) = undo_proposals [u] @ undo_proposals us" by simp_all
  then show ?case using undo_one_effect [of u s] Cons.IH [of "undo_one u s"]
    by (auto simp: update_twice simp del: undo_lists_Cons intro!: filter_cong)
qed

lemma pending_ids:
  assumes "distinct (map xp_id (tx_proposals s))" and "p \<in> set (tx_proposals s)"
    and "xp_id p \<in> (\<Union>g \<in> set (PendingProposals s). set (pp_ids g))"
  shows "xp_status p = ProposalPending"
proof -
  obtain q where "q \<in> set (tx_proposals s)" "xp_id q = xp_id p" "xp_status q = ProposalPending"
    using assms(3) by (auto simp: PendingProposals_def Let_def grouped_def)
  then show ?thesis using distinct_key_eq [OF assms(1), of q p] assms(2) by auto
qed

lemma find_append_none: "find P xs = None \<Longrightarrow> find P (xs @ ys) = find P ys"
  by (induction xs) (auto split: if_splits)

lemma written_append:
  assumes "written ps as us s s1"
  obtains cs al where "tx_categories s1 = tx_categories s @ cs" "tx_aliases s1 = tx_aliases s @ al" "tx_runs s1 = tx_runs s"
    "map cr_id cs = undo_adds us" "fst ` set al \<subseteq> set (undo_aliases us)"
    "set (undo_proposals us) \<subseteq> (\<Union>p \<in> set ps. set (pp_ids p))"
    "relabelled (set (undo_proposals us)) (tx_proposals s) (tx_proposals s1)"
    "set (undo_aliases us) = ca_normalized ` {a \<in> set as. ca_applied a \<and> ca_verdict a = VerdictAlias}"
  using assms unfolding written_def by (elim exE conjE) (rule that)

lemma active_after_undo:
  assumes "distinct (map cr_id (xs @ cs))" and "map cr_id cs = is"
  shows "filter cr_active (update_where (\<lambda>c. cr_id c \<in> set is) (\<lambda>c. c\<lparr>cr_active := False\<rparr>) (xs @ cs)) = filter cr_active xs"
proof -
  have "\<forall>c \<in> set xs. cr_id c \<notin> set is" using assms by (auto simp: disjoint_iff rev_image_eqI)
  then have "update_where (\<lambda>c. cr_id c \<in> set is) (\<lambda>c. c\<lparr>cr_active := False\<rparr>) xs = xs" by (simp add: update_where_none)
  moreover have "filter cr_active (update_where (\<lambda>c. cr_id c \<in> set is) (\<lambda>c. c\<lparr>cr_active := False\<rparr>) cs) = []"
    using assms(2) by (auto simp: filter_empty_conv set_update_where)
  ultimately show ?thesis by (simp add: update_where_append)
qed

definition same_tree :: "tax_state \<Rightarrow> tax_state \<Rightarrow> bool" where
  "same_tree s t = (filter cr_active (tx_categories t) = filter cr_active (tx_categories s) \<and> tx_aliases t = tx_aliases s
     \<and> tx_proposals t = tx_proposals s)"

lemma same_tree_reads: "same_tree s t \<Longrightarrow> existingNames t = existingNames s \<and> PendingProposals t = PendingProposals s"
  by (simp add: same_tree_def existingNames_def name_rows_def active_ids_def PendingProposals_def)


subsection \<open>Curation is conservative\<close>

text \<open>The model answers verdicts only.\<close>

definition modest :: "curate_env \<Rightarrow> bool" where
  "modest e = (\<forall>ps ex. case cv_judge e ps ex of Inl _ \<Rightarrow> True | Inr as \<Rightarrow> list_all (\<lambda>a. \<not> ca_applied a) as)"

lemma existing_active: "existingNames s n = Some i \<Longrightarrow> i \<in> set (active_ids s)"
proof -
  assume "existingNames s n = Some i"
  then have "(n, i) \<in> set (name_rows s)" unfolding existingNames_def by (metis map_of_SomeD set_rev)
  then show ?thesis by (auto simp: name_rows_def active_ids_def)
qed

definition wanted :: "tax_state \<Rightarrow> string \<Rightarrow> nat \<Rightarrow> bool" where
  "wanted s n k = list_ex (\<lambda>p. pp_normalized p = n \<and> k \<le> pp_count p) (PendingProposals s)"

lemma approved_wanted:
  assumes "approved (PendingProposals s) (existingNames s) a"
  shows "wanted s (ca_normalized a) 0"
    and "ca_verdict a = VerdictAdd \<Longrightarrow> wanted s (ca_normalized a) MinContentCount
           \<and> (existingNames s (ca_normalized a) = None \<or> existingNames s (ca_normalized a) = Some [])"
    and "ca_verdict a = VerdictAlias \<Longrightarrow> ca_category a \<in> set (active_ids s)"
  using assms existing_active by (auto simp: approved_def wanted_def list_ex_iff)

text \<open>Curation is conservative.  Whatever the model answers (verdicts, not claims of having applied them), a
  curation adds at most five categories, each for a name that at least three distinct runs proposed and that is no
  active category or alias, aliases pending names to active categories only, changes no category and no alias that was
  there, and changes the proposals in their status only; a dry run that got an answer and a run that failed change none
  of the three.\<close>

theorem curation_is_conservative:
  assumes "modest e" and "Curate e dry s = (res, s1)"
  shows "\<exists>cs al ids. tx_categories s1 = tx_categories s @ cs \<and> tx_aliases s1 = tx_aliases s @ al
    \<and> relabelled ids (tx_proposals s) (tx_proposals s1)
    \<and> length cs \<le> MaxAdditionsPerRun
    \<and> list_all (\<lambda>c. wanted s (cr_normalized c) MinContentCount
          \<and> (existingNames s (cr_normalized c) = None \<or> existingNames s (cr_normalized c) = Some [])) cs
    \<and> list_all (\<lambda>(n, i). wanted s n 0 \<and> i \<in> set (active_ids s)) al
    \<and> (case res of Inr (Curated r c d as) \<Rightarrow> True | Inr _ \<Rightarrow> s1 = s | Inl _ \<Rightarrow> cs = [] \<and> al = [] \<and> tx_proposals s1 = tx_proposals s)"
proof -
  let ?ps = "PendingProposals s" and ?ex = "existingNames s"
  consider (idle) "s1 = s" "case res of Inr (Curated r c d as) \<Rightarrow> False | _ \<Rightarrow> True"
    | (failed) m where "s1 = recordRun (cv_run e) [] [] False s" "res = Inl m"
    | (ran) answer as' r where "cv_judge e ?ps ?ex = Inr answer" "res = Inr (Curated (cv_run e) r (0 < cu_additions r + cu_aliases r + cu_rejected r) as')"
        "apply_run (cv_apply_fails e) (cv_run e) (cv_ids e) ?ps (applyPolicy ?ps ?ex 0 answer) s = Inr (as', s1)"
    using assms(2) by (auto simp: Curate_def Let_def split: option.splits if_splits sum.splits prod.splits)
  then show ?thesis
  proof cases
    case idle
    then show ?thesis by (intro exI [of _ "[]"] exI [of _ "{}"]) (auto split: sum.splits curate_result.splits)
  next
    case failed
    then show ?thesis by (intro exI [of _ "[]"] exI [of _ "{}"]) (simp add: recordRun_def)
  next
    case ran
    let ?as = "applyPolicy ?ps ?ex 0 answer"
    have "list_all (\<lambda>a. \<not> ca_applied a) answer" using assms(1) ran(1) by (auto simp: modest_def dest!: spec [of _ ?ps] spec [of _ ?ex])
    from applyPolicy_approved [OF this, of 0 ?ps ?ex]
    have ok: "list_all (\<lambda>a. ca_applied a \<longrightarrow> approved ?ps ?ex a) ?as" and few: "count_applied VerdictAdd ?as \<le> MaxAdditionsPerRun"
      by simp_all
    obtain us t where act: "apply_actions ?ps (cv_ids e) ?as s = Inr (as', us, t)"
      and s1: "s1 = recordRun (cv_run e) as' us (us \<noteq> []) t"
      using ran(3) by (auto simp: apply_run_def bind_r_Inr_iff split: option.splits)
    obtain cs al where w: "tx_categories t = tx_categories s @ cs" "tx_aliases t = tx_aliases s @ al"
      "length cs = count_applied VerdictAdd ?as"
      "\<forall>c \<in> set cs. \<exists>a \<in> set ?as. ca_applied a \<and> ca_verdict a = VerdictAdd \<and> cr_normalized c = ca_normalized a"
      "\<forall>x \<in> set al. \<exists>a \<in> set ?as. ca_applied a \<and> ca_verdict a = VerdictAlias \<and> x = (ca_normalized a, ca_category a)"
      "relabelled (set (undo_proposals us)) (tx_proposals s) (tx_proposals t)"
      using apply_actions_written [OF act] unfolding written_def by (elim exE conjE) (rule that)
    have "list_all (\<lambda>c. wanted s (cr_normalized c) MinContentCount \<and> (?ex (cr_normalized c) = None \<or> ?ex (cr_normalized c) = Some [])) cs"
      using w(4) ok approved_wanted(2) [of s] by (fastforce simp: list_all_iff)
    moreover have "list_all (\<lambda>(n, i). wanted s n 0 \<and> i \<in> set (active_ids s)) al"
      using w(5) ok approved_wanted(1,3) [of s] by (fastforce simp: list_all_iff)
    ultimately show ?thesis using w(1-3,6) few ran(2)
      by (intro exI [of _ cs] exI [of _ al] exI [of _ "set (undo_proposals us)"]) (simp add: s1 recordRun_def)
  qed
qed

subsection \<open>Where it is not\<close>

text \<open>A proposal whose stored name is not its own normal form (\<open>lower(trim(name))\<close> keeps punctuation and inner
  blanks) is never decided: every verdict on it names no pending proposal.\<close>

lemma Normalize_hides_the_proposal:
  assumes "taxonomy_Normalize n \<noteq> n" and "list_all (\<lambda>p. pp_normalized p \<noteq> taxonomy_Normalize n) ps"
  shows "decide ps ex k (a\<lparr>ca_normalized := n\<rparr>) = (skip ''not a pending proposal'' (a\<lparr>ca_normalized := taxonomy_Normalize n\<rparr>), False)"
proof -
  have "find_proposal (taxonomy_Normalize n) ps = None"
    using assms(2) by (auto simp: find_proposal_def find_None_iff_all list_all_iff)
  then show ?thesis by (simp add: decide_def Let_def)
qed

lemma punctuated_name: "filed_name ''Sci-Fi'' = ''sci-fi''" "taxonomy_Normalize ''sci-fi'' = ''sci fi''"
  by code_simp+

text \<open>A rolled back addition keeps its name: the next run that adds it again fails as a whole.\<close>

lemma rolled_back_name_blocks_the_run:
  assumes "c \<in> set (tx_categories s)" and "cr_normalized c = ca_normalized a" and "ca_applied a" and "ca_verdict a = VerdictAdd"
  shows "apply_run fault i ids ps (a # as) s = Inl (case fault of None \<Rightarrow> ErrUnique | Some m \<Rightarrow> ErrOther m)"
  using assms by (auto simp: apply_run_def apply_action_def list_ex_iff Let_def split: option.splits)

text \<open>An alias that was there before is not written again, but the rollback takes it away.\<close>

lemma rollback_removes_an_older_alias:
  assumes "(n, c) \<in> set (tx_aliases s)" and "u = \<lparr>un_kind = UndoAlias n, un_proposals = []\<rparr>"
  shows "n \<notin> fst ` set (tx_aliases (undo_one u s))"
  using assms by (auto simp: undo_one_def)

text \<open>A model that answers \<open>applied\<close> itself passes the policy.\<close>

lemma claimed_application_passes:
  assumes "find_proposal (taxonomy_Normalize (ca_normalized a)) ps = Some p" and "ca_verdict a = VerdictAdd" and "ca_applied a"
    and "pp_count p < MinContentCount" and "ex (taxonomy_Normalize (ca_normalized a)) = None"
  shows "ca_applied (fst (decide ps ex k a)) \<and> \<not> approved [p] ex (fst (decide ps ex k a))"
  using assms by (auto simp: decide_def Let_def approved_def)

text \<open>A dry run whose model fails leaves a record.\<close>

lemma dry_run_records_a_failure:
  assumes "cv_read_fails e = None" and "PendingProposals s \<noteq> []" and "cv_judge e (PendingProposals s) (existingNames s) = Inl m"
    and "\<not> cv_record_fails e"
  shows "snd (Curate e True s) \<noteq> s"
proof -
  have "tx_runs (snd (Curate e True s)) \<noteq> tx_runs s" using assms by (simp add: Curate_def Let_def recordRun_def)
  then show ?thesis by auto
qed

subsection \<open>Crafts, step by step\<close>

definition craft :: "string \<Rightarrow> tax_proposal" where
  "craft i = \<lparr>xp_id = i, xp_name = ''Crafts'', xp_normalized = ''crafts'', xp_description = [], xp_run = Some i, xp_status = ProposalPending\<rparr>"

definition home :: category_row where
  "home = \<lparr>cr_id = ''c1'', cr_parent = None, cr_name = ''Home'', cr_normalized = ''home'', cr_description = [], cr_active = True\<rparr>"

definition craft_state :: tax_state where
  "craft_state = \<lparr>tx_categories = [home], tx_aliases = [], tx_proposals = [craft ''p1'', craft ''p2'', craft ''p3''], tx_runs = []\<rparr>"

definition craft_add :: curation_action where
  "craft_add = \<lparr>ca_normalized = ''crafts'', ca_verdict = VerdictAdd, ca_name = ''Crafts'', ca_description = [], ca_alias_of = [],
     ca_confidence = 1, ca_applied = False, ca_skipped = [], ca_category = []\<rparr>"

definition craft_env :: curate_env where
  "craft_env = \<lparr>cv_run = ''x1'', cv_ids = [''n1''], cv_read_fails = None, cv_judge = \<lambda>ps ex. Inr [craft_add],
     cv_record_fails = False, cv_apply_fails = None\<rparr>"

lemma craft_pending: "PendingProposals craft_state =
    [\<lparr>pp_normalized = ''crafts'', pp_names = [''Crafts''], pp_descriptions = [], pp_count = 3, pp_ids = [''p1'', ''p2'', ''p3'']\<rparr>]"
  by code_simp

lemma craft_existing: "existingNames craft_state ''crafts'' = None"
  by code_simp

lemma craft_name: "taxonomy_Normalize ''crafts'' = ''crafts''"
  by code_simp

lemma craft_policy: "applyPolicy (PendingProposals craft_state) (existingNames craft_state) 0 [craft_add] = [craft_add\<lparr>ca_applied := True\<rparr>]"
  by (simp add: craft_pending decide_def craft_name find_proposal_def craft_existing craft_add_def MinContentCount_def MinConfidence_def
      MaxAdditionsPerRun_def Let_def)

theorem curation_is_conservative_witness:
  "\<exists>res s1 cs. Curate craft_env False craft_state = (res, s1) \<and> tx_categories s1 = tx_categories craft_state @ cs
     \<and> length cs \<le> MaxAdditionsPerRun \<and> list_all (\<lambda>c. wanted craft_state (cr_normalized c) 3) cs"
proof -
  obtain res s1 where c: "Curate craft_env False craft_state = (res, s1)" by (metis prod.collapse)
  have "modest craft_env" by (simp add: modest_def craft_env_def craft_add_def)
  from curation_is_conservative [OF this c] obtain cs where
    "tx_categories s1 = tx_categories craft_state @ cs" "length cs \<le> MaxAdditionsPerRun"
    "list_all (\<lambda>c. wanted craft_state (cr_normalized c) MinContentCount
       \<and> (existingNames craft_state (cr_normalized c) = None \<or> existingNames craft_state (cr_normalized c) = Some [])) cs" by blast
  with c show ?thesis by (intro exI [of _ res] exI [of _ s1] exI [of _ cs]) (auto simp: list_all_iff MinContentCount_def)
qed


end
