(* ===== verification/ReadCache.thy ===== *)
theory ReadCache
  imports Prelude
begin

text \<open>
  The read cache (\<open>internal/readcache/readcache.go\<close>): a user's common reads in Redis under a key that carries the
  user's generation, which every write increments after its commit.  SHA-256 and the encoding of values are
  arguments; Redis may fail at every call.
\<close>

definition cache_TTL :: duration where "cache_TTL = 60 * second"

subsection \<open>Keys\<close>

text \<open>A read: its name and its encoded parameters.\<close>

record cached_query =
  cq_name :: string
  cq_params :: string

definition cache_prefix :: "string \<Rightarrow> string" where
  "cache_prefix p = (if p = [] then ''reelpin'' else p) @ '':cache''"

definition subject :: "(string \<Rightarrow> string) \<Rightarrow> string \<Rightarrow> string" where
  "subject sha user = sha user"

definition generationKey :: "(string \<Rightarrow> string) \<Rightarrow> string \<Rightarrow> string \<Rightarrow> string" where
  "generationKey sha prefix user = prefix @ '':gen:'' @ subject sha user"

definition entry_key :: "(string \<Rightarrow> string) \<Rightarrow> string \<Rightarrow> string \<Rightarrow> string \<Rightarrow> cached_query \<Rightarrow> string" where
  "entry_key sha prefix user gen q =
     prefix @ '':'' @ subject sha user @ '':'' @ gen @ '':'' @ cq_name q @ '':'' @ sha (cq_params q)"

text \<open>\<open>INCR\<close>: an absent counter counts from 0, a value that is no number is an error.\<close>

definition redis_Incr :: "string \<Rightarrow> (string \<rightharpoonup> string) \<Rightarrow> string + (string \<rightharpoonup> string)" where
  "redis_Incr k m =
     (case m k of None \<Rightarrow> Inr (m(k \<mapsto> ''1''))
      | Some s \<Rightarrow> (case parse_int s of None \<Rightarrow> Inl ''value is not an integer'' 
                    | Some n \<Rightarrow> if n = max_int64 then Inl ''increment would overflow'' else Inr (m(k \<mapsto> show_int (n + 1)))))"

definition InvalidateUser :: "(string \<Rightarrow> string) \<Rightarrow> string \<Rightarrow> string option \<Rightarrow> string \<Rightarrow> (string \<rightharpoonup> string) \<Rightarrow> string + (string \<rightharpoonup> string)" where
  "InvalidateUser sha prefix fault user m =
     (case fault of Some e \<Rightarrow> Inl e | None \<Rightarrow> redis_Incr (generationKey sha prefix user) m)"

definition generation :: "(string \<Rightarrow> string) \<Rightarrow> string \<Rightarrow> string option \<Rightarrow> string \<Rightarrow> (string \<rightharpoonup> string) \<Rightarrow> string + string" where
  "generation sha prefix fault user m =
     (case fault of Some e \<Rightarrow> Inl e
      | None \<Rightarrow> (case m (generationKey sha prefix user) of None \<Rightarrow> Inr ''0''
                 | Some s \<Rightarrow> if parse_int s = None then Inl ''the cache generation is not a number'' else Inr s))"

subsection \<open>One read\<close>

text \<open>What a read takes from outside: whether there is a cache, which calls fail, how values and parameters are
  written, and the reader underneath.\<close>

record 'a read_env =
  rd_cache :: bool
  rd_gen_fails :: "string option"
  rd_get_fails :: bool
  rd_set_fails :: bool
  rd_params :: "string option"
  rd_decode :: "string \<Rightarrow> 'a option"
  rd_encode :: "'a \<Rightarrow> string option"
  rd_fetch :: "string + 'a"

text \<open>The answer, and the store with what was filled (without its expiry).\<close>

definition fill :: "'a read_env \<Rightarrow> string \<Rightarrow> (string \<rightharpoonup> string) \<Rightarrow> (string + 'a) \<times> (string \<rightharpoonup> string)" where
  "fill e k m =
     (case rd_fetch e of Inl err \<Rightarrow> (Inl err, m)
      | Inr v \<Rightarrow> (case rd_encode e v of None \<Rightarrow> (Inr v, m)
                  | Some s \<Rightarrow> (Inr v, if rd_set_fails e then m else m(k \<mapsto> s))))"

definition cached_read :: "(string \<Rightarrow> string) \<Rightarrow> string \<Rightarrow> 'a read_env \<Rightarrow> string \<Rightarrow> string \<Rightarrow> (string \<rightharpoonup> string)
    \<Rightarrow> (string + 'a) \<times> (string \<rightharpoonup> string)" where
  "cached_read sha prefix e user name m =
     (if \<not> rd_cache e then (rd_fetch e, m)
      else (case generation sha prefix (rd_gen_fails e) user m of
              Inl _ \<Rightarrow> (rd_fetch e, m)
            | Inr gen \<Rightarrow>
               (case rd_params e of None \<Rightarrow> (rd_fetch e, m)
                | Some params \<Rightarrow>
                   (let k = entry_key sha prefix user gen \<lparr>cq_name = name, cq_params = params\<rparr>
                    in if rd_get_fails e then (rd_fetch e, m)
                       else (case m k of None \<Rightarrow> fill e k m
                             | Some s \<Rightarrow> (case rd_decode e s of Some v \<Rightarrow> (Inr v, m) | None \<Rightarrow> fill e k m))))))"

text \<open>A read that nothing was cached for is the read underneath, whatever fails; an error is never kept.\<close>

lemma read_through:
  assumes "\<forall>k s. m k = Some s \<longrightarrow> rd_decode e s = None"
  shows "fst (cached_read sha prefix e user name m) = rd_fetch e"
  using assms by (auto simp: cached_read_def fill_def Let_def split: sum.splits option.splits)

lemma errors_are_not_kept: "rd_fetch e = Inl err \<Longrightarrow> snd (cached_read sha prefix e user name m) = m"
  by (auto simp: cached_read_def fill_def Let_def split: sum.splits option.splits)

lemma filled_read_hits:
  assumes "rd_cache e" and "rd_gen_fails e = None" and "rd_params e = Some ps" and "\<not> rd_get_fails e" and "\<not> rd_set_fails e"
    and "rd_fetch e = Inr v" and "rd_encode e v = Some s" and "rd_decode e s = Some v"
    and "cached_read sha prefix e user name m = (Inr v, m')"
    and "generation sha prefix None user m = Inr g" and "m (entry_key sha prefix user g \<lparr>cq_name = name, cq_params = ps\<rparr>) = None"
    and "generationKey sha prefix user \<noteq> entry_key sha prefix user g \<lparr>cq_name = name, cq_params = ps\<rparr>"
  shows "fst (cached_read sha prefix (e\<lparr>rd_fetch := Inl err\<rparr>) user name m') = Inr v"
proof -
  have m': "m' = m(entry_key sha prefix user g \<lparr>cq_name = name, cq_params = ps\<rparr> \<mapsto> s)"
    using assms by (simp add: cached_read_def fill_def Let_def)
  have "generation sha prefix None user m' = Inr g"
    using assms(10,12) by (simp add: generation_def m')
  then show ?thesis using assms m' by (simp add: cached_read_def Let_def)
qed

subsection \<open>Keys do not meet\<close>

text \<open>What is used of SHA-256 in hexadecimal: two inputs with one digest are not met, and a digest has no colon.\<close>

definition hex_hash :: "(string \<Rightarrow> string) \<Rightarrow> bool" where
  "hex_hash sha = (inj sha \<and> (\<forall>s. CHR '':'' \<notin> set (sha s)))"

definition plain_name :: "string \<Rightarrow> bool" where
  "plain_name n = (CHR '':'' \<notin> set n)"

lemma split_entry:
  assumes "hex_hash sha" and "plain_name g" and "plain_name (cq_name q)"
  shows "split_on (CHR '':'') (subject sha u @ '':'' @ g @ '':'' @ cq_name q @ '':'' @ sha (cq_params q)) = [sha u, g, cq_name q, sha (cq_params q)]"
  using assms by (simp add: hex_hash_def plain_name_def subject_def split_on_append split_on_plain)

lemma entry_key_inj:
  assumes "hex_hash sha" and "plain_name g" "plain_name (cq_name q)" "plain_name g'" "plain_name (cq_name q')"
    and "entry_key sha p u g q = entry_key sha p u' g' q'"
  shows "u = u' \<and> g = g' \<and> q = q'"
proof -
  have "[sha u, g, cq_name q, sha (cq_params q)] = [sha u', g', cq_name q', sha (cq_params q')]"
    using assms(6) split_entry [OF assms(1,2,3), of u] split_entry [OF assms(1,4,5), of u']
    by (simp add: entry_key_def)
  then show ?thesis using assms(1) by (auto simp: hex_hash_def inj_eq intro: cached_query.equality)
qed

lemma gen_key_not_entry:
  assumes "hex_hash sha" and "plain_name g" "plain_name (cq_name q)"
  shows "generationKey sha p u \<noteq> entry_key sha p u' g q"
proof
  assume "generationKey sha p u = entry_key sha p u' g q"
  then have "split_on (CHR '':'') (''gen:'' @ sha u) = split_on (CHR '':'') (subject sha u' @ '':'' @ g @ '':'' @ cq_name q @ '':'' @ sha (cq_params q))"
    by (simp add: generationKey_def entry_key_def subject_def)
  then show False using split_entry [OF assms, of u'] assms(1)
    by (simp add: split_on_append [of _ "''gen''", simplified] split_on_plain hex_hash_def)
qed

lemma gen_key_inj: "hex_hash sha \<Longrightarrow> generationKey sha p u = generationKey sha p u' \<longleftrightarrow> u = u'"
  by (auto simp: generationKey_def subject_def hex_hash_def inj_eq)

subsection \<open>Readers and writers\<close>

text \<open>Readers and writers of every process, interleaved call by call.  A world is what PostgreSQL holds, \<open>cs_worlds\<close> all of
  them in the order of their commits; \<open>view\<close> is what a reader underneath answers for a user and a query, \<open>enc\<close> and \<open>dec\<close>
  write and read values.  A commit changes the views of some users and owes each a bump of the generation.  A read
  remembers the number of the world that was current when it read the generation, and whether a bump was owed to
  its user then.\<close>

record reader =
  re_user :: string
  re_query :: cached_query
  re_gen :: nat
  re_began :: nat
  re_clean :: bool

record ('w, 'a) cache_sys =
  cs_worlds :: "'w list"
  cs_redis :: "string \<rightharpoonup> string"
  cs_owed :: "string list"
  cs_readers :: "reader list"
  cs_fetched :: "(reader \<times> 'a) list"
  cs_answers :: "(reader \<times> 'a) list"

definition current_gen :: "(string \<Rightarrow> string) \<Rightarrow> string \<Rightarrow> (string \<rightharpoonup> string) \<Rightarrow> string \<Rightarrow> nat" where
  "current_gen sha p m u = (case m (generationKey sha p u) of None \<Rightarrow> 0 | Some s \<Rightarrow> nat (digits_value s))"

definition reader_key :: "(string \<Rightarrow> string) \<Rightarrow> string \<Rightarrow> reader \<Rightarrow> string" where
  "reader_key sha p r = entry_key sha p (re_user r) (show_nat (re_gen r)) (re_query r)"

inductive cache_step ::
  "(string \<Rightarrow> cached_query \<Rightarrow> 'w \<Rightarrow> 'a) \<Rightarrow> ('a \<Rightarrow> string) \<Rightarrow> (string \<Rightarrow> 'a option) \<Rightarrow> (string \<Rightarrow> string) \<Rightarrow> string
   \<Rightarrow> ('w, 'a) cache_sys \<Rightarrow> ('w, 'a) cache_sys \<Rightarrow> bool" for view enc dec sha p where
  commit: "\<forall>u q. u \<notin> set us \<longrightarrow> view u q w = view u q (last (cs_worlds c)) \<Longrightarrow>
    cache_step view enc dec sha p c (c\<lparr>cs_worlds := cs_worlds c @ [w], cs_owed := cs_owed c @ us\<rparr>)"
| bump: "u \<in> set (cs_owed c) \<Longrightarrow> InvalidateUser sha p None u (cs_redis c) = Inr m \<Longrightarrow>
    cache_step view enc dec sha p c (c\<lparr>cs_redis := m, cs_owed := remove1 u (cs_owed c)\<rparr>)"
| begin_read: "generation sha p None u (cs_redis c) = Inr g \<Longrightarrow> plain_name (cq_name q) \<Longrightarrow>
    cache_step view enc dec sha p c (c\<lparr>cs_readers := \<lparr>re_user = u, re_query = q, re_gen = nat (digits_value g),
       re_began = length (cs_worlds c) - 1, re_clean = (u \<notin> set (cs_owed c))\<rparr> # cs_readers c\<rparr>)"
| hit: "r \<in> set (cs_readers c) \<Longrightarrow> cs_redis c (reader_key sha p r) = Some s \<Longrightarrow> dec s = Some v \<Longrightarrow>
    cache_step view enc dec sha p c (c\<lparr>cs_answers := (r, v) # cs_answers c\<rparr>)"
| fetched: "r \<in> set (cs_readers c) \<Longrightarrow>
    cache_step view enc dec sha p c (c\<lparr>cs_fetched := (r, view (re_user r) (re_query r) (last (cs_worlds c))) # cs_fetched c\<rparr>)"
| answered: "(r, v) \<in> set (cs_fetched c) \<Longrightarrow> cache_step view enc dec sha p c (c\<lparr>cs_answers := (r, v) # cs_answers c\<rparr>)"
| filled: "(r, v) \<in> set (cs_fetched c) \<Longrightarrow>
    cache_step view enc dec sha p c (c\<lparr>cs_redis := (cs_redis c)(reader_key sha p r \<mapsto> enc v)\<rparr>)"
| expired: "\<forall>u. k \<noteq> generationKey sha p u \<Longrightarrow> cache_step view enc dec sha p c (c\<lparr>cs_redis := (cs_redis c)(k := None)\<rparr>)"

inductive cache_reach ::
  "(string \<Rightarrow> cached_query \<Rightarrow> 'w \<Rightarrow> 'a) \<Rightarrow> ('a \<Rightarrow> string) \<Rightarrow> (string \<Rightarrow> 'a option) \<Rightarrow> (string \<Rightarrow> string) \<Rightarrow> string
   \<Rightarrow> ('w, 'a) cache_sys \<Rightarrow> bool" for view enc dec sha p where
  start: "cache_reach view enc dec sha p \<lparr>cs_worlds = [w], cs_redis = (\<lambda>_. None), cs_owed = [], cs_readers = [], cs_fetched = [], cs_answers = []\<rparr>"
| step: "cache_reach view enc dec sha p c \<Longrightarrow> cache_step view enc dec sha p c c' \<Longrightarrow> cache_reach view enc dec sha p c'"

text \<open>\<open>since u g\<close> is the number of the world at which the generation of \<open>u\<close> became \<open>g\<close>.  What was fetched for a user is the
  view of a world no older than that of its generation.\<close>

definition seen :: "(string \<Rightarrow> cached_query \<Rightarrow> 'w \<Rightarrow> 'a) \<Rightarrow> 'w list \<Rightarrow> string \<Rightarrow> cached_query \<Rightarrow> nat \<Rightarrow> 'a \<Rightarrow> bool" where
  "seen view ws u q n v = (\<exists>k. n \<le> k \<and> k < length ws \<and> v = view u q (ws ! k))"

definition steady :: "(string \<Rightarrow> cached_query \<Rightarrow> 'w \<Rightarrow> 'a) \<Rightarrow> 'w list \<Rightarrow> string \<Rightarrow> nat \<Rightarrow> nat \<Rightarrow> bool" where
  "steady view ws u m n = (\<forall>k q. m \<le> k \<longrightarrow> k \<le> n \<longrightarrow> view u q (ws ! k) = view u q (ws ! n))"

definition fair_reader :: "(string \<Rightarrow> cached_query \<Rightarrow> 'w \<Rightarrow> 'a) \<Rightarrow> (string \<Rightarrow> nat \<Rightarrow> nat) \<Rightarrow> (string \<Rightarrow> nat) \<Rightarrow> 'w list \<Rightarrow> reader \<Rightarrow> bool" where
  "fair_reader view since cur ws r =
     (plain_name (cq_name (re_query r)) \<and> re_gen r \<le> cur (re_user r) \<and> since (re_user r) (re_gen r) \<le> re_began r \<and> re_began r < length ws
      \<and> (re_clean r \<longrightarrow> steady view ws (re_user r) (since (re_user r) (re_gen r)) (re_began r)))"

definition gens_ok :: "(string \<Rightarrow> string) \<Rightarrow> string \<Rightarrow> (string \<rightharpoonup> string) \<Rightarrow> bool" where
  "gens_ok sha p m = (\<forall>u. m (generationKey sha p u) = None \<or> m (generationKey sha p u) = Some (show_nat (current_gen sha p m u)))"

definition entries_ok where
  "entries_ok view enc sha p since ws m = (\<forall>u g q s. plain_name (cq_name q) \<longrightarrow> m (entry_key sha p u (show_nat g) q) = Some s \<longrightarrow>
     g \<le> current_gen sha p m u \<and> (\<exists>v. s = enc v \<and> seen view ws u q (since u g) v))"

definition worlds_ok where
  "worlds_ok view since cur ws owed = (ws \<noteq> [] \<and> (\<forall>u g. g \<le> cur u \<longrightarrow> since u g < length ws)
     \<and> (\<forall>u. u \<notin> set owed \<longrightarrow> steady view ws u (since u (cur u)) (length ws - 1)))"

definition fetched_ok where
  "fetched_ok view since cur ws x = (case x of (r, v) \<Rightarrow> fair_reader view since cur ws r \<and> seen view ws (re_user r) (re_query r) (re_began r) v)"

definition answer_ok where
  "answer_ok view ws x = (case x of (r, v) \<Rightarrow> seen view ws (re_user r) (re_query r) 0 v
     \<and> (re_clean r \<longrightarrow> seen view ws (re_user r) (re_query r) (re_began r) v))"

definition consistent where
  "consistent view enc sha p since c =
     (let ws = cs_worlds c; m = cs_redis c; cur = current_gen sha p m in
      gens_ok sha p m \<and> entries_ok view enc sha p since ws m \<and> worlds_ok view since cur ws (cs_owed c)
      \<and> list_all (fair_reader view since cur ws) (cs_readers c)
      \<and> list_all (fetched_ok view since cur ws) (cs_fetched c) \<and> list_all (answer_ok view ws) (cs_answers c))"

subsection \<open>Every step keeps it\<close>

lemma seen_append: "seen view ws u q n v \<Longrightarrow> seen view (ws @ [w]) u q n v"
  by (auto simp: seen_def nth_append intro: less_SucI)

lemma seen_less: "seen view ws u q n v \<Longrightarrow> m \<le> n \<Longrightarrow> seen view ws u q m v"
  unfolding seen_def using le_trans by blast

lemma seen_last: "ws \<noteq> [] \<Longrightarrow> n < length ws \<Longrightarrow> seen view ws u q n (view u q (last ws))"
  unfolding seen_def last_conv_nth by (intro exI [of _ "length ws - 1"]) auto

text \<open>What is steady up to a world and seen since its beginning was seen at that world or later.\<close>

lemma seen_steady: "seen view ws u q m v \<Longrightarrow> steady view ws u m n \<Longrightarrow> n < length ws \<Longrightarrow> seen view ws u q n v"
  unfolding seen_def steady_def
proof (elim exE conjE)
  fix k
  assume k: "m \<le> k" "k < length ws" "v = view u q (ws ! k)" and n: "n < length ws"
    and st: "\<forall>k q. m \<le> k \<longrightarrow> k \<le> n \<longrightarrow> view u q (ws ! k) = view u q (ws ! n)"
  show "\<exists>k. n \<le> k \<and> k < length ws \<and> v = view u q (ws ! k)"
  proof (cases "k \<le> n")
    case True
    have "v = view u q (ws ! n)" using st [rule_format, OF k(1) True, of q] k(3) by (rule trans [OF _ _, rotated])
    then show ?thesis using n by (intro exI [of _ n]) simp
  next
    case False
    then show ?thesis using k by (intro exI [of _ k]) simp
  qed
qed

lemma steady_append: "steady view ws u m n \<Longrightarrow> n < length ws \<Longrightarrow> steady view (ws @ [w]) u m n"
  unfolding steady_def
proof (intro allI impI)
  fix k q
  assume st: "\<forall>k q. m \<le> k \<longrightarrow> k \<le> n \<longrightarrow> view u q (ws ! k) = view u q (ws ! n)" and n: "n < length ws" and k: "m \<le> k" "k \<le> n"
  have "view u q (ws ! k) = view u q (ws ! n)" using st k by blast
  then show "view u q ((ws @ [w]) ! k) = view u q ((ws @ [w]) ! n)" using n k(2) by (simp add: nth_append)
qed

lemma fair_append: "fair_reader view since cur ws r \<Longrightarrow> fair_reader view since cur (ws @ [w]) r"
  by (auto simp: fair_reader_def intro: steady_append)

lemma fetched_append: "fetched_ok view since cur ws x \<Longrightarrow> fetched_ok view since cur (ws @ [w]) x"
  by (auto simp: fetched_ok_def intro: fair_append seen_append)

lemma answer_append: "answer_ok view ws x \<Longrightarrow> answer_ok view (ws @ [w]) x"
  by (auto simp: answer_ok_def intro: seen_append)

lemma worlds_commit:
  assumes "worlds_ok view since cur ws owed" and "\<forall>u q. u \<notin> set us \<longrightarrow> view u q w = view u q (last ws)"
  shows "worlds_ok view since cur (ws @ [w]) (owed @ us)"
proof -
  have "steady view (ws @ [w]) u (since u (cur u)) (length ws)" if "u \<notin> set owed" "u \<notin> set us" for u
    unfolding steady_def
  proof (intro allI impI)
    fix k q
    assume k: "since u (cur u) \<le> k" "k \<le> length ws"
    have "ws \<noteq> []" using assms(1) by (simp add: worlds_ok_def)
    then have new: "view u q w = view u q (ws ! (length ws - 1))"
      using assms(2) [rule_format, OF that(2), of q] by (metis last_conv_nth)
    show "view u q ((ws @ [w]) ! k) = view u q ((ws @ [w]) ! length ws)"
    proof (cases "k = length ws")
      case False
      then have "k \<le> length ws - 1" "k < length ws" using k by auto
      then have "view u q (ws ! k) = view u q (ws ! (length ws - 1))"
        using assms(1) that k(1) unfolding worlds_ok_def steady_def by blast
      then show ?thesis using new \<open>k < length ws\<close> by (simp add: nth_append)
    qed simp
  qed
  then show ?thesis using assms(1) by (auto simp: worlds_ok_def less_SucI)
qed

lemma entries_commit: "entries_ok view enc sha p since ws m \<Longrightarrow> entries_ok view enc sha p since (ws @ [w]) m"
  unfolding entries_ok_def using seen_append by fast

lemma consistent_commit:
  assumes "consistent view enc sha p since c" and "\<forall>u q. u \<notin> set us \<longrightarrow> view u q w = view u q (last (cs_worlds c))"
  shows "consistent view enc sha p since (c\<lparr>cs_worlds := cs_worlds c @ [w], cs_owed := cs_owed c @ us\<rparr>)"
  using assms(1) entries_commit worlds_commit [OF _ assms(2)]
  by (auto simp: consistent_def Let_def list_all_iff intro: fair_append fetched_append answer_append)

text \<open>A bump.\<close>

lemma parse_show_nat: "parse_int (show_nat n) = Some v \<Longrightarrow> v = int n"
proof -
  obtain c r where c: "show_nat n = c # r" by (cases "show_nat n") auto
  with show_nat_digits [of n] have "is_digit c" by simp
  then have "c \<noteq> CHR ''-''" "c \<noteq> CHR ''+''" using not_digit_sign by auto
  then show "parse_int (show_nat n) = Some v \<Longrightarrow> v = int n"
    using digits_value_show_nat [of n] c by (auto simp: parse_int_def Let_def split: if_splits)
qed

lemma plain_show_nat [simp]: "plain_name (show_nat n)"
  using show_int_no_colon [of "int n"] by (simp add: plain_name_def show_int_def)

lemma current_gen_upd:
  "hex_hash sha \<Longrightarrow> current_gen sha p (m(generationKey sha p u \<mapsto> show_nat n)) = (current_gen sha p m)(u := n)"
  by (auto simp: current_gen_def gen_key_inj digits_value_show_nat)

lemma bump_effect:
  assumes "hex_hash sha" and "gens_ok sha p m" and "InvalidateUser sha p None u m = Inr m'"
  shows "m' = m(generationKey sha p u \<mapsto> show_nat (current_gen sha p m u + 1))"
proof (cases "m (generationKey sha p u)")
  case None
  have "show_nat 1 = ''1''" by code_simp
  then show ?thesis using None assms(3) by (simp add: InvalidateUser_def redis_Incr_def current_gen_def)
next
  case (Some s)
  then have s: "s = show_nat (current_gen sha p m u)" using assms(2) by (metis gens_ok_def option.distinct(1) option.inject)
  have "show_int (int k + 1) = show_nat (k + 1)" for k by (simp add: show_int_def nat_add_distrib)
  then show ?thesis using assms(3) Some s parse_show_nat
    by (auto simp: InvalidateUser_def redis_Incr_def split: option.splits if_splits) metis
qed

lemma fair_bump:
  assumes "fair_reader view since cur ws r" and "cur (u :: string) < g"
  shows "fair_reader view (since(u := (since u)(g := n))) (cur(u := g)) ws r"
  using assms by (auto simp: fair_reader_def)

lemma consistent_bump:
  assumes "hex_hash sha" and "consistent view enc sha p since c" and "u \<in> set (cs_owed c)" and "InvalidateUser sha p None u (cs_redis c) = Inr m"
  shows "\<exists>since'. consistent view enc sha p since' (c\<lparr>cs_redis := m, cs_owed := remove1 u (cs_owed c)\<rparr>)"
proof -
  let ?ws = "cs_worlds c" and ?cur = "current_gen sha p (cs_redis c)"
  let ?g = "?cur u + 1" and ?n = "length (cs_worlds c) - 1"
  let ?since = "since(u := (since u)(?g := ?n))"
  have g: "gens_ok sha p (cs_redis c)" and e: "entries_ok view enc sha p since ?ws (cs_redis c)"
    and w: "worlds_ok view since ?cur ?ws (cs_owed c)" and rest: "list_all (fair_reader view since ?cur ?ws) (cs_readers c)"
    "list_all (fetched_ok view since ?cur ?ws) (cs_fetched c)" "list_all (answer_ok view ?ws) (cs_answers c)"
    using assms(2) by (simp_all add: consistent_def Let_def)
  have m: "m = (cs_redis c)(generationKey sha p u \<mapsto> show_nat ?g)" by (rule bump_effect [OF assms(1) g assms(4)])
  have cur: "current_gen sha p m = ?cur(u := ?g)" using current_gen_upd [OF assms(1)] by (simp add: m)
  have "gens_ok sha p m" using g cur by (auto simp: gens_ok_def m gen_key_inj [OF assms(1)])
  moreover have "entries_ok view enc sha p ?since ?ws m"
  proof (unfold entries_ok_def, intro allI impI)
    fix v k q s
    assume q: "plain_name (cq_name q)" and s: "m (entry_key sha p v (show_nat k) q) = Some s"
    have "generationKey sha p u \<noteq> entry_key sha p v (show_nat k) q" by (rule gen_key_not_entry [OF assms(1) plain_show_nat q])
    then have "cs_redis c (entry_key sha p v (show_nat k) q) = Some s" using s by (simp add: m)
    then have "k \<le> ?cur v" "\<exists>x. s = enc x \<and> seen view ?ws v q (since v k) x" using e q by (auto simp: entries_ok_def)
    then show "k \<le> current_gen sha p m v \<and> (\<exists>x. s = enc x \<and> seen view ?ws v q (?since v k) x)" by (auto simp: cur)
  qed
  moreover have "worlds_ok view ?since (?cur(u := ?g)) ?ws (remove1 u (cs_owed c))"
  proof -
    have "?ws \<noteq> []" using w by (simp add: worlds_ok_def)
    have "steady view ?ws v (?since v ((?cur(u := ?g)) v)) ?n" if "v \<notin> set (remove1 u (cs_owed c))" for v
    proof (cases "v = u")
      case False
      then have "v \<notin> set (cs_owed c)" using that by (auto simp: in_set_remove1)
      then show ?thesis using w False by (simp add: worlds_ok_def)
    qed (auto simp: steady_def le_antisym)
    then show ?thesis using w \<open>?ws \<noteq> []\<close> by (auto simp: worlds_ok_def)
  qed
  moreover have "list_all (fair_reader view ?since (?cur(u := ?g)) ?ws) (cs_readers c)"
    using rest(1) fair_bump [of view since ?cur ?ws _ u ?g ?n] by (auto simp: list_all_iff)
  moreover have "list_all (fetched_ok view ?since (?cur(u := ?g)) ?ws) (cs_fetched c)"
    using rest(2) fair_bump [of view since ?cur ?ws _ u ?g ?n] by (auto simp: list_all_iff fetched_ok_def)
  ultimately have "consistent view enc sha p ?since (c\<lparr>cs_redis := m, cs_owed := remove1 u (cs_owed c)\<rparr>)"
    using rest(3) by (simp add: consistent_def Let_def cur)
  then show ?thesis by blast
qed

lemma consistent_begin:
  assumes "hex_hash sha" and "consistent view enc sha p since c" and "generation sha p None u (cs_redis c) = Inr g" and "plain_name (cq_name q)"
  shows "consistent view enc sha p since (c\<lparr>cs_readers := \<lparr>re_user = u, re_query = q, re_gen = nat (digits_value g),
       re_began = length (cs_worlds c) - 1, re_clean = (u \<notin> set (cs_owed c))\<rparr> # cs_readers c\<rparr>)"
proof -
  let ?ws = "cs_worlds c" and ?cur = "current_gen sha p (cs_redis c)"
  have g: "gens_ok sha p (cs_redis c)" and w: "worlds_ok view since ?cur ?ws (cs_owed c)"
    using assms(2) by (simp_all add: consistent_def Let_def)
  have "nat (digits_value ''0'') = 0" by (simp add: digits_value_def char_code_def)
  then have n: "nat (digits_value g) = ?cur u" using assms(3)
    by (auto simp: generation_def current_gen_def split: option.splits if_splits)
  have len: "?ws \<noteq> []" "since u (?cur u) < length ?ws" using w by (simp_all add: worlds_ok_def)
  have st: "u \<notin> set (cs_owed c) \<Longrightarrow> steady view ?ws u (since u (?cur u)) (length ?ws - 1)" using w by (simp add: worlds_ok_def)
  have "fair_reader view since ?cur ?ws \<lparr>re_user = u, re_query = q, re_gen = ?cur u, re_began = length ?ws - 1, re_clean = (u \<notin> set (cs_owed c))\<rparr>"
    using assms(4) len st by (auto simp: fair_reader_def)
  then show ?thesis using assms(2) n by (simp add: consistent_def Let_def)
qed

lemma consistent_hit:
  assumes "consistent view enc sha p since c" and "r \<in> set (cs_readers c)" and "cs_redis c (reader_key sha p r) = Some s"
    and "dec s = Some v" and "\<forall>x. dec (enc x) = Some x"
  shows "consistent view enc sha p since (c\<lparr>cs_answers := (r, v) # cs_answers c\<rparr>)"
proof -
  let ?ws = "cs_worlds c" and ?cur = "current_gen sha p (cs_redis c)"
  have fair: "fair_reader view since ?cur ?ws r" using assms(1,2) by (simp add: consistent_def Let_def list_all_iff)
  have e: "entries_ok view enc sha p since ?ws (cs_redis c)" using assms(1) by (simp add: consistent_def Let_def)
  have "plain_name (cq_name (re_query r))" using fair by (simp add: fair_reader_def)
  then obtain x where x: "s = enc x" "seen view ?ws (re_user r) (re_query r) (since (re_user r) (re_gen r)) x"
    using e assms(3) unfolding entries_ok_def reader_key_def by blast
  then have v: "v = x" using assms(4,5) by simp
  have "answer_ok view ?ws (r, v)"
    using x(2) v fair seen_less [OF x(2), of 0] seen_steady [OF x(2)] by (auto simp: answer_ok_def fair_reader_def)
  then show ?thesis using assms(1) by (simp add: consistent_def Let_def)
qed

lemma consistent_fetched:
  assumes "consistent view enc sha p since c" and "r \<in> set (cs_readers c)"
  shows "consistent view enc sha p since (c\<lparr>cs_fetched := (r, view (re_user r) (re_query r) (last (cs_worlds c))) # cs_fetched c\<rparr>)"
proof -
  let ?ws = "cs_worlds c" and ?cur = "current_gen sha p (cs_redis c)"
  have fair: "fair_reader view since ?cur ?ws r" using assms by (simp add: consistent_def Let_def list_all_iff)
  have "?ws \<noteq> []" using assms(1) by (simp add: consistent_def worlds_ok_def Let_def)
  then have "fetched_ok view since ?cur ?ws (r, view (re_user r) (re_query r) (last ?ws))"
    using fair by (simp add: fetched_ok_def seen_last fair_reader_def)
  then show ?thesis using assms(1) by (simp add: consistent_def Let_def)
qed

lemma consistent_answered:
  assumes "consistent view enc sha p since c" and "(r, v) \<in> set (cs_fetched c)"
  shows "consistent view enc sha p since (c\<lparr>cs_answers := (r, v) # cs_answers c\<rparr>)"
proof -
  have "seen view (cs_worlds c) (re_user r) (re_query r) (re_began r) v"
    using assms by (auto simp: consistent_def Let_def list_all_iff fetched_ok_def)
  then have "answer_ok view (cs_worlds c) (r, v)" using seen_less by (fastforce simp: answer_ok_def)
  then show ?thesis using assms(1) by (simp add: consistent_def Let_def)
qed

lemma gens_untouched:
  "\<forall>u. k \<noteq> generationKey sha p u \<Longrightarrow> current_gen sha p (m(k := x)) = current_gen sha p m"
  "\<forall>u. k \<noteq> generationKey sha p u \<Longrightarrow> gens_ok sha p m \<Longrightarrow> gens_ok sha p (m(k := x))"
  by (auto simp: current_gen_def gens_ok_def fun_eq_iff)

lemma consistent_filled:
  assumes "hex_hash sha" and "consistent view enc sha p since c" and "(r, v) \<in> set (cs_fetched c)"
  shows "consistent view enc sha p since (c\<lparr>cs_redis := (cs_redis c)(reader_key sha p r \<mapsto> enc v)\<rparr>)"
proof -
  let ?ws = "cs_worlds c" and ?m = "cs_redis c" and ?cur = "current_gen sha p (cs_redis c)"
  have f: "fair_reader view since ?cur ?ws r" "seen view ?ws (re_user r) (re_query r) (re_began r) v"
    using assms(2,3) by (auto simp: consistent_def Let_def list_all_iff fetched_ok_def)
  then have plain: "plain_name (cq_name (re_query r))" by (simp add: fair_reader_def)
  have other: "\<forall>u. reader_key sha p r \<noteq> generationKey sha p u"
    using gen_key_not_entry [OF assms(1) plain_show_nat plain] by (metis reader_key_def)
  have old: "entries_ok view enc sha p since ?ws ?m" using assms(2) by (simp add: consistent_def Let_def)
  have "entries_ok view enc sha p since ?ws (?m(reader_key sha p r \<mapsto> enc v))"
  proof (unfold entries_ok_def gens_untouched(1) [OF other], intro allI impI)
    fix u g q s
    assume q: "plain_name (cq_name q)" and s: "(?m(reader_key sha p r \<mapsto> enc v)) (entry_key sha p u (show_nat g) q) = Some s"
    show "g \<le> ?cur u \<and> (\<exists>x. s = enc x \<and> seen view ?ws u q (since u g) x)"
    proof (cases "entry_key sha p u (show_nat g) q = reader_key sha p r")
      case True
      then have "u = re_user r \<and> show_nat g = show_nat (re_gen r) \<and> q = re_query r"
        unfolding reader_key_def by (intro entry_key_inj [OF assms(1) plain_show_nat q plain_show_nat plain])
      moreover from this have "g = re_gen r" by (simp add: show_nat_inj)
      ultimately show ?thesis using True s f seen_less [OF f(2)] by (auto simp: fair_reader_def)
    next
      case False
      then have "?m (entry_key sha p u (show_nat g) q) = Some s" using s by simp
      then show ?thesis using old q unfolding entries_ok_def by blast
    qed
  qed
  then show ?thesis using assms(2) gens_untouched [OF other] by (simp add: consistent_def Let_def)
qed

lemma consistent_expired:
  assumes "consistent view enc sha p since c" and "\<forall>u. k \<noteq> generationKey sha p u"
  shows "consistent view enc sha p since (c\<lparr>cs_redis := (cs_redis c)(k := None)\<rparr>)"
proof -
  have "entries_ok view enc sha p since (cs_worlds c) (cs_redis c)" using assms(1) by (simp add: consistent_def Let_def)
  then have "entries_ok view enc sha p since (cs_worlds c) ((cs_redis c)(k := None))"
    unfolding entries_ok_def gens_untouched(1) [OF assms(2)] by (metis fun_upd_apply option.distinct(1))
  then show ?thesis using assms(1) gens_untouched [OF assms(2)] by (simp add: consistent_def Let_def)
qed

lemma cache_step_consistent:
  assumes "cache_step view enc dec sha p c c'" and "hex_hash sha" and "\<forall>x. dec (enc x) = Some x" and "consistent view enc sha p since c"
  shows "\<exists>since'. consistent view enc sha p since' c'"
  using assms(1)
proof cases
  case (commit us w)
  then show ?thesis using consistent_commit [OF assms(4)] by blast
next
  case (bump u m)
  then show ?thesis using consistent_bump [OF assms(2,4)] by blast
next
  case (begin_read u g q)
  then show ?thesis using consistent_begin [OF assms(2,4)] by blast
next
  case (hit r s v)
  then show ?thesis using consistent_hit [OF assms(4) _ _ _ assms(3)] by blast
next
  case (fetched r)
  then show ?thesis using consistent_fetched [OF assms(4)] by blast
next
  case (answered r v)
  then show ?thesis using consistent_answered [OF assms(4)] by blast
next
  case (filled r v)
  then show ?thesis using consistent_filled [OF assms(2,4)] by blast
next
  case (expired k)
  then show ?thesis using consistent_expired [OF assms(4)] by blast
qed

lemma cache_reach_consistent:
  assumes "cache_reach view enc dec sha p c" and "hex_hash sha" and "\<forall>x. dec (enc x) = Some x"
  shows "\<exists>since. consistent view enc sha p since c"
  using assms(1)
proof (induction rule: cache_reach.induct)
  case (start w)
  have "consistent view enc sha p (\<lambda>u g. 0) \<lparr>cs_worlds = [w], cs_redis = (\<lambda>_. None), cs_owed = [], cs_readers = [], cs_fetched = [], cs_answers = []\<rparr>"
    by (simp add: consistent_def gens_ok_def entries_ok_def worlds_ok_def steady_def Let_def)
  then show ?case by blast
next
  case (step c c')
  then show ?case using cache_step_consistent [OF _ assms(2,3)] by blast
qed

text \<open>C37: The cache never answers for another user and never undoes a write.  In any interleaving of readers, writers,
  slow fills and expiring entries, an answer is what PostgreSQL held for that user and that query at some moment; and
  when every commit that changed the user's data before the read began had been followed by its bump, it is what
  PostgreSQL held when the read began or later.\<close>

theorem cached_answers_are_the_users_own_and_fresh:
  assumes "hex_hash sha" and "\<forall>x. dec (enc x) = Some x" and "cache_reach view enc dec sha p c" and "(r, v) \<in> set (cs_answers c)"
  shows "(\<exists>w \<in> set (cs_worlds c). v = view (re_user r) (re_query r) w)
    \<and> (re_clean r \<longrightarrow> (\<exists>w \<in> set (drop (re_began r) (cs_worlds c)). v = view (re_user r) (re_query r) w))"
proof -
  obtain since where "consistent view enc sha p since c" using cache_reach_consistent [OF assms(3,1,2)] by blast
  then have "answer_ok view (cs_worlds c) (r, v)" using assms(4) by (auto simp: consistent_def Let_def list_all_iff)
  moreover have "seen view ws u q n v \<Longrightarrow> \<exists>w \<in> set (drop n ws). v = view u q w" for ws u q n
    unfolding seen_def by (metis Cons_nth_drop_Suc in_set_dropD list.set_intros(1) nth_mem set_drop_subset_set_drop subsetD)
  ultimately show ?thesis by (fastforce simp: answer_ok_def)
qed

subsection \<open>What is cached\<close>

text \<open>The reads of \<open>readers.go\<close> that go through the cache; every other method of the readers is passed on.\<close>

definition cached_names :: "string list" where
  "cached_names = [''reels.list'', ''reels.facets'', ''reels.stats'', ''jobs.list'']"

lemma cached_names_plain: "list_all plain_name cached_names"
  by (simp add: cached_names_def plain_name_def)

subsection \<open>One read, step by step\<close>

fun code :: "string \<Rightarrow> nat" where
  "code [] = 0"
| "code (c # s) = Suc (of_char c + 256 * code s)"

lemma digit_inj: "a = b \<and> x = y" if "a < 256" "b < 256" "a + 256 * x = b + 256 * (y :: nat)"
proof -
  have a: "(a + 256 * x) mod 256 = a" "(b + 256 * y) mod 256 = b" using that(1, 2) by simp_all
  then have "a = b" using that(3) by simp
  then show ?thesis using that(3) by simp
qed

lemma code_inj: "code s = code t \<Longrightarrow> s = t"
proof (induction s arbitrary: t)
  case Nil
  then show ?case by (cases t) auto
next
  case (Cons c s)
  then obtain d r where t: "t = d # r" by (cases t) auto
  have lt: "of_char c < (256 :: nat)" "of_char d < (256 :: nat)" by simp_all
  have eq: "of_char c + 256 * code s = (of_char d + 256 * code r :: nat)" using Cons.prems t by simp
  then have "of_char c = (of_char d :: nat)" "code s = code r" using digit_inj [OF lt] by blast+
  then show ?case using Cons.IH [of r] t by (simp add: of_char_eq_iff)
qed

definition toy_hash :: "string \<Rightarrow> string" where "toy_hash s = show_nat (code s)"

lemma toy_hash: "hex_hash toy_hash"
  using code_inj plain_show_nat by (auto simp: hex_hash_def toy_hash_def inj_def show_nat_inj plain_name_def)

theorem cached_answers_are_the_users_own_and_fresh_witness:
  "\<exists>c r. cache_reach (\<lambda>u q w. w) show_nat (\<lambda>s. Some (nat (digits_value s))) toy_hash ''reelpin:cache'' c
     \<and> cs_answers c = [(r, 7)] \<and> re_clean r \<and> (\<exists>w \<in> set (drop (re_began r) (cs_worlds c)). (7 :: nat) = w)"
proof -
  let ?q = "\<lparr>cq_name = ''jobs.list'', cq_params = ''{}''\<rparr>"
  let ?r = "\<lparr>re_user = ''ann'', re_query = ?q, re_gen = 0, re_began = 0, re_clean = True\<rparr>"
  let ?c0 = "\<lparr>cs_worlds = [7 :: nat], cs_redis = (\<lambda>_. None), cs_owed = [], cs_readers = [], cs_fetched = [], cs_answers = []\<rparr>"
  let ?c1 = "?c0\<lparr>cs_readers := [?r]\<rparr>"
  let ?c2 = "?c1\<lparr>cs_fetched := [(?r, 7)]\<rparr>"
  let ?c3 = "?c2\<lparr>cs_answers := [(?r, 7)]\<rparr>"
  let ?reach = "cache_reach (\<lambda>u q w. w) show_nat (\<lambda>s. Some (nat (digits_value s))) toy_hash ''reelpin:cache''"
  have zero: "nat (digits_value ''0'') = 0" by (simp add: digits_value_def char_code_def)
  have "generation toy_hash ''reelpin:cache'' None ''ann'' (cs_redis ?c0) = Inr ''0''" by (simp add: generation_def)
  then have "?reach ?c1"
    using cache_reach.step [OF cache_reach.start cache_step.begin_read [where c = ?c0 and g = "''0''" and q = ?q and u = "''ann''"]] zero
    by (simp add: plain_name_def)
  then have "?reach ?c2" using cache_reach.step [OF _ cache_step.fetched [where c = ?c1 and r = ?r]] by simp
  then have r: "?reach ?c3" using cache_reach.step [OF _ cache_step.answered [where c = ?c2 and r = ?r and v = 7]] by simp
  have dec: "\<forall>x. Some (nat (digits_value (show_nat x))) = Some x" by (simp add: digits_value_show_nat)
  have "(?r, 7) \<in> set (cs_answers ?c3)" by simp
  from cached_answers_are_the_users_own_and_fresh [OF toy_hash dec r this] show ?thesis
    using r by (intro exI [of _ ?c3] exI [of _ ?r]) simp
qed

end
