(* ===== verification/ReelPlatform.thy ===== *)
theory ReelPlatform
  imports Prelude
begin

text \<open>
  The platforms a reel is filed under (\<open>internal/reels/platform.go\<close>): the canonical names, the legacy spellings that
  stored rows and clients may still use, the filter a client sends, and the SQL condition that the readers build from it
  (\<open>platformCondition\<close> in \<open>internal/postgres/reels.go\<close>, and the same in \<open>filterClause\<close> of
  \<open>internal/search/service.go\<close>).  Go's maps are association lists here.
\<close>

definition OtherPlatform :: string where "OtherPlatform = ''other''"

definition platformLabels :: "(string \<times> string) list" where
  "platformLabels =
     [(''instagram'', ''Instagram''), (''youtube'', ''YouTube''), (''x'', ''X''), (''tiktok'', ''TikTok''),
      (''pinterest'', ''Pinterest''), (''reddit'', ''Reddit''), (''linkedin'', ''LinkedIn''), (OtherPlatform, ''Other'')]"

definition platformAliases :: "(string \<times> string) list" where
  "platformAliases =
     [(''twitter'', ''x''), (''twitter.com'', ''x''), (''x.com'', ''x''), (''t.co'', ''x''),
      (''instagram.com'', ''instagram''), (''instagr.am'', ''instagram''), (''youtube.com'', ''youtube''),
      (''youtu.be'', ''youtube''), (''yt'', ''youtube''), (''tiktok.com'', ''tiktok''),
      (''pinterest.com'', ''pinterest''), (''pin.it'', ''pinterest''), (''reddit.com'', ''reddit''),
      (''redd.it'', ''reddit''), (''linkedin.com'', ''linkedin''), (''lnkd.in'', ''linkedin'')]"

definition AllowedPlatformValues :: "string list" where
  "AllowedPlatformValues = sort (map fst platformLabels)"

definition KnownStoredPlatformValues :: "string list" where
  "KnownStoredPlatformValues =
     sort (remdups (filter (\<lambda>p. p \<noteq> OtherPlatform) (map fst platformLabels) @ map fst platformAliases))"

definition StoredPlatformValues :: "string \<Rightarrow> string list" where
  "StoredPlatformValues platform =
     sort (platform # map fst (filter (\<lambda>(alias, target). target = platform) platformAliases))"

definition CanonicalPlatform :: "string \<Rightarrow> string option" where
  "CanonicalPlatform value =
     (let cleaned = to_lower (trim_space value)
      in if cleaned = [] then None
         else case map_of platformLabels cleaned of Some l \<Rightarrow> Some cleaned
         | None \<Rightarrow> map_of platformAliases cleaned)"

definition RecordPlatform :: "string option \<Rightarrow> string" where
  "RecordPlatform value =
     (case value of None \<Rightarrow> OtherPlatform
      | Some v \<Rightarrow> (case CanonicalPlatform v of None \<Rightarrow> OtherPlatform | Some p \<Rightarrow> p))"

definition PlatformLabel :: "string \<Rightarrow> string" where
  "PlatformLabel platform =
     (case map_of platformLabels platform of Some l \<Rightarrow> l
      | None \<Rightarrow> (case platform of [] \<Rightarrow> [] | c # r \<Rightarrow> upper_char c # r))"

subsection \<open>The filter of a request\<close>

text \<open>The value that cannot be read, or the platforms, each once, in the order they were named; none means no filter.\<close>

fun parse_parts :: "string list \<Rightarrow> string list \<Rightarrow> string + string list" where
  "parse_parts [] found = Inr found"
| "parse_parts (part # parts) found =
     (let cleaned = trim_space part
      in if cleaned = [] then parse_parts parts found
         else case CanonicalPlatform cleaned of
           None \<Rightarrow> Inl cleaned
         | Some p \<Rightarrow> parse_parts parts (if p \<in> set found then found else found @ [p]))"

definition ParsePlatformFilter :: "string \<Rightarrow> string + string list" where
  "ParsePlatformFilter value =
     (let raw = trim_space value
      in if raw = [] then Inr [] else parse_parts (split_on (CHR '','') raw) [])"

subsection \<open>The condition in SQL\<close>

text \<open>\<open>lower(trim(source_platform))\<close>: PostgreSQL's \<open>trim\<close> takes away blanks only.  A NULL column satisfies neither a
  comparison nor its negation.\<close>

definition sql_trim :: "string \<Rightarrow> string" where
  "sql_trim s = trim_right_by (\<lambda>c. c = CHR '' '') (dropWhile (\<lambda>c. c = CHR '' '') s)"

definition stored_values :: "string list \<Rightarrow> string list" where
  "stored_values platforms = concat (map StoredPlatformValues (filter (\<lambda>p. p \<noteq> OtherPlatform) platforms))"

definition platformCondition :: "string list \<Rightarrow> string option \<Rightarrow> bool" where
  "platformCondition platforms source =
     (platforms = []
      \<or> stored_values platforms \<noteq> []
        \<and> (case source of None \<Rightarrow> False | Some s \<Rightarrow> to_lower (sql_trim s) \<in> set (stored_values platforms))
      \<or> OtherPlatform \<in> set platforms
        \<and> (case source of None \<Rightarrow> True | Some s \<Rightarrow> to_lower (sql_trim s) \<notin> set KnownStoredPlatformValues))"

subsection \<open>The two tables agree\<close>

definition canonical :: "string \<Rightarrow> bool" where
  "canonical p \<longleftrightarrow> p \<in> set (map fst platformLabels)"

lemma alias_table:
  "distinct (map fst platformAliases)"
  "list_all (\<lambda>(a, t). a \<notin> set (map fst platformLabels) \<and> t \<in> set (map fst platformLabels) \<and> t \<noteq> OtherPlatform) platformAliases"
  by (simp_all add: platformAliases_def platformLabels_def OtherPlatform_def)

lemma alias_Some: "map_of platformAliases c = Some p \<longleftrightarrow> (c, p) \<in> set platformAliases"
  by (simp add: alias_table(1))

lemma alias_target: "map_of platformAliases c = Some p \<Longrightarrow> canonical p \<and> p \<noteq> OtherPlatform \<and> \<not> canonical c"
  using alias_table(2) by (auto simp: alias_Some list_all_iff canonical_def)

lemma labels_Some: "(\<exists>l. map_of platformLabels c = Some l) \<longleftrightarrow> canonical c"
  by (metis canonical_def map_of_eq_None_iff not_None_eq set_map)

lemma canonical_other: "canonical OtherPlatform"
  by (simp add: canonical_def platformLabels_def)

lemma canonical_plain: "canonical p \<Longrightarrow> p \<noteq> [] \<and> to_lower (trim_space p) = p"
  by (auto simp: canonical_def platformLabels_def OtherPlatform_def to_lower_def lower_char_def is_upper_def char_code_def
      trim_space_def trim_right_by_def is_space_def)

text \<open>The canonical platform of a cleaned value.\<close>

definition bucket_of :: "string \<Rightarrow> string option" where
  "bucket_of c = (if canonical c then Some c else map_of platformAliases c)"

lemma nil_unknown: "\<not> canonical []" "map_of platformAliases [] = None"
  by (simp_all add: canonical_def platformLabels_def platformAliases_def OtherPlatform_def)

lemma CanonicalPlatform_bucket: "CanonicalPlatform v = bucket_of (to_lower (trim_space v))"
  using labels_Some [of "to_lower (trim_space v)"] nil_unknown
  by (auto simp: CanonicalPlatform_def bucket_of_def Let_def split: option.splits)

lemma CanonicalPlatform_canonical: "CanonicalPlatform v = Some p \<Longrightarrow> canonical p"
  using alias_target by (auto simp: CanonicalPlatform_bucket bucket_of_def split: if_splits)

lemma RecordPlatform_canonical: "canonical (RecordPlatform v)"
  using CanonicalPlatform_canonical canonical_other by (auto simp: RecordPlatform_def split: option.splits)

lemma stored_iff:
  assumes "canonical p" and "p \<noteq> OtherPlatform"
  shows "c \<in> set (StoredPlatformValues p) \<longleftrightarrow> bucket_of c = Some p"
proof -
  have "set (StoredPlatformValues p) = insert p (fst ` {e \<in> set platformAliases. snd e = p})"
    unfolding StoredPlatformValues_def set_sort by (auto simp: case_prod_unfold)
  then have "c \<in> set (StoredPlatformValues p) \<longleftrightarrow> c = p \<or> map_of platformAliases c = Some p"
    by (force simp: alias_Some)
  then show ?thesis using assms alias_target [of c p] by (auto simp: bucket_of_def)
qed

lemma known_iff: "c \<in> set KnownStoredPlatformValues \<longleftrightarrow> (\<exists>p. bucket_of c = Some p \<and> p \<noteq> OtherPlatform)"
proof -
  have "c \<in> set KnownStoredPlatformValues \<longleftrightarrow> canonical c \<and> c \<noteq> OtherPlatform \<or> c \<in> fst ` set platformAliases"
    by (auto simp: KnownStoredPlatformValues_def canonical_def)
  also have "c \<in> fst ` set platformAliases \<longleftrightarrow> (\<exists>p. map_of platformAliases c = Some p)"
    by (force simp: alias_Some)
  finally show ?thesis using alias_target by (auto simp: bucket_of_def)
qed

subsection \<open>What the filter selects\<close>

lemma parse_parts_canonical:
  "parse_parts parts found = Inr ps \<Longrightarrow> distinct found \<Longrightarrow> list_all canonical found \<Longrightarrow> distinct ps \<and> list_all canonical ps"
proof (induction parts found arbitrary: ps rule: parse_parts.induct)
  case (2 part parts found)
  then show ?case
    using CanonicalPlatform_canonical [of "trim_space part"]
    by (auto simp: Let_def split: if_splits option.splits)
qed simp

lemma ParsePlatformFilter_canonical: "ParsePlatformFilter v = Inr ps \<Longrightarrow> distinct ps \<and> list_all canonical ps"
  using parse_parts_canonical [of _ "[]" ps] by (auto simp: ParsePlatformFilter_def Let_def split: if_splits)

lemma condition_bucket:
  assumes "list_all canonical ps" and "c = to_lower (sql_trim s)"
  shows "platformCondition ps (Some s) \<longleftrightarrow> ps = [] \<or> (case bucket_of c of None \<Rightarrow> OtherPlatform | Some p \<Rightarrow> p) \<in> set ps"
proof -
  have stored: "c \<in> set (stored_values ps) \<longleftrightarrow> (\<exists>p \<in> set ps. p \<noteq> OtherPlatform \<and> bucket_of c = Some p)"
    using assms(1) stored_iff by (auto simp: stored_values_def list_all_iff)
  then have some: "c \<in> set (stored_values ps) \<Longrightarrow> stored_values ps \<noteq> []" by auto
  have "platformCondition ps (Some s) \<longleftrightarrow> ps = [] \<or> c \<in> set (stored_values ps)
      \<or> OtherPlatform \<in> set ps \<and> c \<notin> set KnownStoredPlatformValues"
    using some by (auto simp: platformCondition_def assms(2))
  then show ?thesis unfolding stored known_iff by (cases "bucket_of c") auto
qed

text \<open>the rows that the SQL condition selects for a filter a client sent are those whose platform, as every answer
  shows it, is one of the named ones: no saved reel of a named platform is left out and none of another is shown,
  whatever spelling the row holds (for a stored value without tabs or line breaks around it).\<close>

theorem platform_filter_selects_its_bucket:
  assumes "ParsePlatformFilter value = Inr platforms"
    and "case source of None \<Rightarrow> True | Some s \<Rightarrow> sql_trim s = trim_space s"
  shows "platformCondition platforms source \<longleftrightarrow> platforms = [] \<or> RecordPlatform source \<in> set platforms"
proof (cases source)
  case None
  then show ?thesis by (auto simp: platformCondition_def RecordPlatform_def)
next
  case (Some s)
  then show ?thesis
    using condition_bucket [OF conjunct2 [OF ParsePlatformFilter_canonical [OF assms(1)]] refl, of s] assms(2)
    by (simp add: RecordPlatform_def CanonicalPlatform_bucket)
qed

lemma space_trims: "sql_trim '' YouTu.be '' = ''YouTu.be''" "trim_space '' YouTu.be '' = ''YouTu.be''"
  by (simp_all add: sql_trim_def trim_space_def trim_right_by_def is_space_def char_code_def)

lemma plain_trims: "trim_space ''YouTube, yt,x'' = ''YouTube, yt,x''" "trim_space ''YouTube'' = ''YouTube''"
    "trim_space '' yt'' = ''yt''" "trim_space ''yt'' = ''yt''" "trim_space ''x'' = ''x''"
  by (simp_all add: trim_space_def trim_right_by_def is_space_def char_code_def)

lemma lowered: "to_lower ''YouTube'' = ''youtube''" "to_lower ''yt'' = ''yt''" "to_lower ''x'' = ''x''" "to_lower ''YouTu.be'' = ''youtu.be''"
  by code_simp+

lemma sample_filter: "ParsePlatformFilter ''YouTube, yt,x'' = Inr [''youtube'', ''x'']"
  by (simp add: ParsePlatformFilter_def plain_trims lowered CanonicalPlatform_def platformLabels_def platformAliases_def OtherPlatform_def Let_def)

theorem platform_filter_selects_its_bucket_witness:
  "platformCondition [''youtube'', ''x''] (Some '' YouTu.be '') \<longleftrightarrow> RecordPlatform (Some '' YouTu.be '') \<in> {''youtube'', ''x''}"
  using platform_filter_selects_its_bucket [OF sample_filter, of "Some '' YouTu.be ''"] space_trims by simp

text \<open>A stored platform with a tab before it is counted under its platform in the facets and shown so, but no filter by
  that platform finds it.\<close>

lemma tab_hides_a_reel:
  "RecordPlatform (Some (CHR 0x09 # ''x'')) = ''x'' \<and> \<not> platformCondition [''x''] (Some (CHR 0x09 # ''x''))"
proof
  have "trim_space (CHR 0x09 # ''x'') = ''x''" "sql_trim (CHR 0x09 # ''x'') = CHR 0x09 # ''x''"
    by (simp_all add: trim_space_def sql_trim_def trim_right_by_def is_space_def char_code_def)
  then show "RecordPlatform (Some (CHR 0x09 # ''x'')) = ''x''"
    "\<not> platformCondition [''x''] (Some (CHR 0x09 # ''x''))"
    by (simp_all add: RecordPlatform_def CanonicalPlatform_def lowered platformCondition_def stored_values_def StoredPlatformValues_def
        platformLabels_def platformAliases_def OtherPlatform_def to_lower_def lower_char_def is_upper_def char_code_def)
qed

end
