(* ===== verification/Reels.thy ===== *)
theory Reels
  imports Jobs ReelPlatform Calendar
begin

text \<open>
  A saved reel as the API shows it (\<open>internal/reels/reels.go\<close>, \<open>display.go\<close>): the record a reader returns, the card of
  a list and the full body built from it.  A nil slice is \<open>None\<close> where the code tells it from an empty one.  The two ways
  in which a coordinate is printed (\<open>%.5f\<close> and \<open>%v\<close>) are arguments.
\<close>

subsection \<open>The record\<close>

record reel_location =
  rl_name :: string
  rl_address :: "string option"
  rl_neighborhood :: "string option"
  rl_city :: "string option"
  rl_state :: "string option"
  rl_country :: "string option"
  rl_latitude :: "float64 option"
  rl_longitude :: "float64 option"

record reel_record =
  re_id :: string
  re_owner :: string
  re_url :: string
  re_normalized :: "string option"
  re_platform :: "string option"
  re_type :: "string option"
  re_source :: "string option"
  re_processing :: "string option"
  re_ingestion :: "string option"
  re_transcript_source :: "string option"
  re_thumbnail :: "string option"
  re_title :: string
  re_summary :: string
  re_transcript :: string
  re_category :: string
  re_subcategory :: string
  re_tags :: "string list option"
  re_facts :: "string list option"
  re_locations :: "reel_location list option"
  re_people :: "string list option"
  re_actions :: "string list option"
  re_events :: "ai_event list option"
  re_status :: "string option"
  re_created :: "time option"

subsection \<open>Words and labels\<close>

text \<open>\<open>strings.Fields\<close>.\<close>

fun split_space :: "string \<Rightarrow> string list" where
  "split_space [] = [[]]"
| "split_space (c # s) =
     (if is_space c then [] # split_space s
      else (case split_space s of [] \<Rightarrow> [[c]] | x # xs \<Rightarrow> (c # x) # xs))"

definition space_fields :: "string \<Rightarrow> string list" where
  "space_fields s = filter (\<lambda>w. w \<noteq> []) (split_space s)"

definition cleanLabel :: "string \<Rightarrow> string \<Rightarrow> string" where
  "cleanLabel value fallback = (let cleaned = trim_space value in if cleaned = [] then fallback else cleaned)"

definition cleanOptional :: "string option \<Rightarrow> string option" where
  "cleanOptional value =
     (case value of None \<Rightarrow> None | Some v \<Rightarrow> (let cleaned = trim_space v in if cleaned = [] then None else Some cleaned))"

definition Labelize :: "string \<Rightarrow> string" where
  "Labelize value =
     titleCase (join_with '' '' (space_fields (map (\<lambda>c. if c = CHR ''_'' \<or> c = CHR ''-'' then CHR '' '' else c) (cleanLabel value ''Other''))))"

definition nonNil :: "'a list option \<Rightarrow> 'a list" where
  "nonNil values = (case values of None \<Rightarrow> [] | Some xs \<Rightarrow> xs)"

subsection \<open>Dates\<close>

definition month_names :: "string list" where
  "month_names = [''Jan'', ''Feb'', ''Mar'', ''Apr'', ''May'', ''Jun'', ''Jul'', ''Aug'', ''Sep'', ''Oct'', ''Nov'', ''Dec'']"

definition show_year :: "int \<Rightarrow> string" where
  "show_year y = (if y < 0 then ''-'' else []) @ padded 4 (nat \<bar>y\<bar>)"

definition DisplayDate :: "time option \<Rightarrow> string" where
  "DisplayDate value =
     (case value of None \<Rightarrow> []
      | Some t \<Rightarrow> (case civil (day_of t) of (y, m, e) \<Rightarrow>
          (month_names ! nat (m - 1)) @ '' '' @ show_int e @ '', '' @ show_year y))"

definition SavedDateKey :: "time option \<Rightarrow> string option" where
  "SavedDateKey value = map_option (\<lambda>t. DateOnly (day_of t)) value"

text \<open>\<open>time.Time.Sub\<close> saturates at the ends of the 64-bit durations, and \<open>int\<close> of a number of hours over 24 truncates.\<close>

definition sub_time :: "time \<Rightarrow> time \<Rightarrow> duration" where
  "sub_time a b = max min_int64 (min max_int64 (a - b))"

definition whole_days :: "duration \<Rightarrow> int" where
  "whole_days d = (if d < 0 then - ((- d) div day) else d div day)"

definition truncateToDay :: "time \<Rightarrow> time" where
  "truncateToDay t = day_of t * day"

definition pluralAgo :: "int \<Rightarrow> string \<Rightarrow> string" where
  "pluralAgo count unit = (if count = 1 then ''1 '' @ unit @ '' ago'' else show_int count @ '' '' @ unit @ ''s ago'')"

definition RelativeDate :: "time option \<Rightarrow> time \<Rightarrow> string" where
  "RelativeDate value now =
     (case value of None \<Rightarrow> []
      | Some t \<Rightarrow>
          (let days = whole_days (sub_time (truncateToDay now) (truncateToDay t))
           in if days \<le> 0 then ''Today''
              else if days = 1 then ''Yesterday''
              else if days < 7 then show_int days @ '' days ago''
              else if days < 30 then pluralAgo (days div 7) ''week''
              else if days < 365 then pluralAgo (days div 30) ''month''
              else pluralAgo (days div 365) ''year''))"

text \<open>\<open>time.RFC3339Nano\<close> in UTC: the fraction without its trailing zeros, and none when it is zero.\<close>

definition fraction :: "nat \<Rightarrow> string" where
  "fraction n = (if n = 0 then [] else CHR ''.'' # trim_right_by (\<lambda>c. c = CHR ''0'') (padded 9 n))"

definition rfc3339_nano :: "time \<Rightarrow> string" where
  "rfc3339_nano t =
     (let r = t mod day
      in DateOnly (day_of t) @ ''T'' @ padded 2 (nat (r div hour)) @ '':'' @ padded 2 (nat (r mod hour div minute)) @ '':''
         @ padded 2 (nat (r mod minute div second)) @ fraction (nat (r mod second)) @ ''Z'')"

definition isoTimestamp :: "time option \<Rightarrow> string option" where
  "isoTimestamp value = map_option rfc3339_nano value"

subsection \<open>Places on the map\<close>

record float_text =
  show_v :: "float64 \<Rightarrow> string"
  show_5f :: "float64 \<Rightarrow> string"

definition hex_digit :: "nat \<Rightarrow> char" where
  "hex_digit n = (''0123456789ABCDEF'' ! n)"

definition unreserved :: "char \<Rightarrow> bool" where
  "unreserved c = (is_lower c \<or> is_upper c \<or> is_digit c \<or> c \<in> set ''_.-~'')"

definition percentEncode :: "string \<Rightarrow> string" where
  "percentEncode value =
     concat (map (\<lambda>c. if unreserved c then [c] else [CHR ''%'', hex_digit (char_code c div 16), hex_digit (char_code c mod 16)]) value)"

definition locationAddress :: "reel_location \<Rightarrow> string" where
  "locationAddress l =
     join_with '', '' (filter (\<lambda>v. v \<noteq> []) (map (\<lambda>p. trim_space (optionalString p))
       [rl_address l, rl_neighborhood l, rl_city l, rl_state l, rl_country l]))"

record mappable_location =
  ml_location :: reel_location
  ml_marker :: string
  ml_name :: string
  ml_address :: string
  ml_label :: string
  ml_maps_url :: string

definition mappable :: "float_text \<Rightarrow> string \<Rightarrow> nat \<Rightarrow> reel_location \<Rightarrow> mappable_location option" where
  "mappable ft reel index l =
     (case (rl_latitude l, rl_longitude l) of
        (Some lat, Some lng) \<Rightarrow>
          (let name = trim_space (rl_name l); address = locationAddress l;
               label = (if name \<noteq> [] then name else if address \<noteq> [] then address else show_5f ft lat @ '', '' @ show_5f ft lng);
               query = (if name \<noteq> [] then percentEncode name else show_v ft lat @ '','' @ show_v ft lng)
           in Some \<lparr>ml_location = l\<lparr>rl_name := name\<rparr>, ml_marker = reel @ '':'' @ show_nat index, ml_name = name,
                    ml_address = address, ml_label = label,
                    ml_maps_url = ''https://www.google.com/maps/search/?api=1&query='' @ query\<rparr>)
      | _ \<Rightarrow> None)"

fun mappables_from :: "float_text \<Rightarrow> string \<Rightarrow> nat \<Rightarrow> reel_location list \<Rightarrow> mappable_location list" where
  "mappables_from ft reel i [] = []"
| "mappables_from ft reel i (l # ls) =
     (case mappable ft reel i l of None \<Rightarrow> mappables_from ft reel (Suc i) ls
      | Some m \<Rightarrow> m # mappables_from ft reel (Suc i) ls)"

definition BuildMappableLocations :: "float_text \<Rightarrow> reel_record \<Rightarrow> mappable_location list" where
  "BuildMappableLocations ft r = mappables_from ft (re_id r) 0 (nonNil (re_locations r))"

subsection \<open>The card of a reel\<close>

datatype view = ViewDetailed | ViewConcise

definition ParseView :: "string \<Rightarrow> view option" where
  "ParseView raw =
     (let v = trim_space raw
      in if v = [] \<or> v = ''detailed'' then Some ViewDetailed else if v = ''concise'' then Some ViewConcise else None)"

record display =
  di_now :: time
  di_base :: string
  di_view :: view
  di_floats :: float_text

definition WebURL :: "string \<Rightarrow> string \<Rightarrow> string" where
  "WebURL base reel = (if has_suffix base ''/'' then butlast base else base) @ ''/r/'' @ reel"

definition ShareCardContentType :: "reel_record \<Rightarrow> string" where
  "ShareCardContentType r =
     (let value = to_lower (trim_space (optionalString (re_type r)))
      in if value \<in> {''reel'', ''post'', ''carousel''} then value else if value = ''reels'' then ''reel'' else ''post'')"

record display_reel =
  dr_id :: string
  dr_url :: string
  dr_web :: string
  dr_thumbnail :: "string option"
  dr_platform :: "string option"
  dr_source_type :: "string option"
  dr_title :: string
  dr_summary :: string
  dr_type :: string
  dr_status :: string
  dr_category :: string
  dr_subcategory :: string
  dr_category_label :: string
  dr_subcategory_label :: string
  dr_created :: "string option"
  dr_date :: string
  dr_relative :: string
  dr_date_key :: "string option"
  dr_has_map :: bool
  dr_places :: "mappable_location list"
  dr_primary :: "string option"
  dr_place_count :: nat
  dr_facts :: "string list option"
  dr_people :: "string list option"
  dr_actions :: "string list option"
  dr_events :: "ai_event list option"

definition BuildDisplayReel :: "reel_record \<Rightarrow> display \<Rightarrow> display_reel" where
  "BuildDisplayReel r d =
     (let places = BuildMappableLocations (di_floats d) r;
          category = cleanLabel (re_category r) ''Other''; subcategory = cleanLabel (re_subcategory r) ''Other'';
          url = trim_space (re_url r); status = optionalString (re_status r);
          detail = (di_view d \<noteq> ViewConcise)
      in \<lparr>dr_id = re_id r, dr_url = (if url = [] then optionalString (re_normalized r) else url),
          dr_web = WebURL (di_base d) (re_id r), dr_thumbnail = cleanOptional (re_thumbnail r),
          dr_platform = cleanOptional (re_platform r), dr_source_type = cleanOptional (re_type r),
          dr_title = re_title r, dr_summary = re_summary r, dr_type = ShareCardContentType r,
          dr_status = (if status = [] then ''parsed'' else status),
          dr_category = category, dr_subcategory = subcategory,
          dr_category_label = Labelize category, dr_subcategory_label = Labelize subcategory,
          dr_created = isoTimestamp (re_created r), dr_date = DisplayDate (re_created r),
          dr_relative = RelativeDate (re_created r) (di_now d), dr_date_key = SavedDateKey (re_created r),
          dr_has_map = (places \<noteq> []), dr_places = places,
          dr_primary = (case places of [] \<Rightarrow> None | p # _ \<Rightarrow> Some (ml_label p)), dr_place_count = length places,
          dr_facts = (if detail then Some (nonNil (re_facts r)) else None),
          dr_people = (if detail then Some (nonNil (re_people r)) else None),
          dr_actions = (if detail then Some (nonNil (re_actions r)) else None),
          dr_events = (if detail then Some (nonNil (re_events r)) else None)\<rparr>)"

text \<open>\<open>BuildReel\<close>: the body of one reel, which carries the card of the same record.  The fields that repeat the card
  under another name are the card itself.\<close>

record full_reel =
  fr_card :: display_reel
  fr_user :: string
  fr_url :: string
  fr_normalized :: "string option"
  fr_platform :: "string option"
  fr_source_type :: "string option"
  fr_source :: "string option"
  fr_processing :: "string option"
  fr_ingestion :: "string option"
  fr_transcript_source :: "string option"
  fr_transcript :: string
  fr_category :: string
  fr_subcategory :: string
  fr_tags :: "string list"
  fr_locations :: "reel_location list"

definition BuildReel :: "reel_record \<Rightarrow> display \<Rightarrow> full_reel" where
  "BuildReel r d =
     \<lparr>fr_card = BuildDisplayReel r d, fr_user = re_owner r, fr_url = re_url r, fr_normalized = re_normalized r,
      fr_platform = re_platform r, fr_source_type = re_type r, fr_source = re_source r, fr_processing = re_processing r,
      fr_ingestion = re_ingestion r, fr_transcript_source = re_transcript_source r, fr_transcript = re_transcript r,
      fr_category = (if trim_space (re_category r) = [] then ''Other'' else re_category r),
      fr_subcategory = (if trim_space (re_subcategory r) = [] then ''Other'' else re_subcategory r),
      fr_tags = nonNil (re_tags r), fr_locations = nonNil (re_locations r)\<rparr>"

fun dedupe_from :: "string list \<Rightarrow> reel_record list \<Rightarrow> reel_record list" where
  "dedupe_from ids [] = []"
| "dedupe_from ids (r # rs) =
     (if re_id r = [] \<or> re_id r \<in> set ids then dedupe_from ids rs else r # dedupe_from (re_id r # ids) rs)"

definition DedupeRecords :: "reel_record list \<Rightarrow> reel_record list" where
  "DedupeRecords rs = dedupe_from [] rs"

end
