(* ===== verification/Cursor.thy ===== *)
theory Cursor
  imports Prelude
begin

text \<open>
  The opaque position of a page of saved reels (\<open>internal/reels/cursor.go\<close>): its order, which is the order of the list,
  and its text, which is the URL-safe base64 without padding of a JSON object.  The JSON codec is an argument; base64 is
  the decoder of \<open>encoding/base64\<close> in its lenient mode, which skips line breaks and does not look at the bits that a
  last incomplete group leaves over.
\<close>

subsection \<open>The position and its order\<close>

datatype cursor = Cursor (cu_saved: time) (cu_id: string)

text \<open>The row comparison \<open>(created_at, id) < ($1, $2)\<close>.\<close>

instantiation cursor :: linorder
begin

definition less_eq_cursor :: "cursor \<Rightarrow> cursor \<Rightarrow> bool" where
  "less_eq_cursor a b = (cu_saved a < cu_saved b \<or> cu_saved a = cu_saved b \<and> cu_id a \<le> cu_id b)"

definition less_cursor :: "cursor \<Rightarrow> cursor \<Rightarrow> bool" where
  "less_cursor a b = (cu_saved a < cu_saved b \<or> cu_saved a = cu_saved b \<and> cu_id a < cu_id b)"

instance
  by standard (auto simp: less_eq_cursor_def less_cursor_def intro: cursor.expand)

end

subsection \<open>Base64\<close>

definition b64_alphabet :: string where
  "b64_alphabet = ''ABCDEFGHIJKLMNOPQRSTUVWXYZabcdefghijklmnopqrstuvwxyz0123456789-_''"

definition b64_char :: "nat \<Rightarrow> char" where "b64_char n = b64_alphabet ! n"

definition b64_value :: "char \<Rightarrow> nat option" where
  "b64_value c = map_of (zip b64_alphabet [0..<64]) c"

fun sextets :: "nat list \<Rightarrow> nat list" where
  "sextets [] = []"
| "sextets [a] = [a div 4, a mod 4 * 16]"
| "sextets [a, b] = [a div 4, a mod 4 * 16 + b div 16, b mod 16 * 4]"
| "sextets (a # b # c # r) = a div 4 # (a mod 4 * 16 + b div 16) # (b mod 16 * 4 + c div 64) # c mod 64 # sextets r"

fun octets :: "nat list \<Rightarrow> nat list option" where
  "octets [] = Some []"
| "octets [p] = None"
| "octets [p, q] = Some [p * 4 + q div 16]"
| "octets [p, q, r] = Some [p * 4 + q div 16, q mod 16 * 16 + r div 4]"
| "octets (p # q # r # s # t) =
     map_option (\<lambda>rest. (p * 4 + q div 16) # (q mod 16 * 16 + r div 4) # (r mod 4 * 64 + s) # rest) (octets t)"

definition b64_encode :: "string \<Rightarrow> string" where
  "b64_encode s = map b64_char (sextets (map char_code s))"

fun values_of :: "string \<Rightarrow> nat list option" where
  "values_of [] = Some []"
| "values_of (c # s) =
     (case b64_value c of None \<Rightarrow> None | Some v \<Rightarrow> map_option (\<lambda>vs. v # vs) (values_of s))"

definition line_break :: "char \<Rightarrow> bool" where
  "line_break c = (char_code c = 10 \<or> char_code c = 13)"

definition b64_decode :: "string \<Rightarrow> string option" where
  "b64_decode s =
     (case values_of (filter (\<lambda>c. \<not> line_break c) s) of None \<Rightarrow> None
      | Some vs \<Rightarrow> map_option (map char_of) (octets vs))"

lemma length_alphabet: "length b64_alphabet = 64" and distinct_alphabet: "distinct b64_alphabet"
  by (simp_all add: b64_alphabet_def)

lemma b64_value_char: "n < 64 \<Longrightarrow> b64_value (b64_char n) = Some n"
  using distinct_alphabet length_alphabet by (simp add: b64_value_def b64_char_def map_of_zip_nth)

lemma alphabet_plain: "list_all (\<lambda>c. \<not> line_break c) b64_alphabet"
  by (simp add: b64_alphabet_def line_break_def char_code_def)

lemma b64_char_plain: "n < 64 \<Longrightarrow> \<not> line_break (b64_char n)"
  using alphabet_plain length_alphabet by (simp add: b64_char_def list_all_length)

lemma values_of_chars: "list_all (\<lambda>n. n < 64) vs \<Longrightarrow> values_of (map b64_char vs) = Some vs"
  by (induction vs) (simp_all add: b64_value_char)

lemma sextets_bound: "list_all (\<lambda>n. n < 256) bs \<Longrightarrow> list_all (\<lambda>n. n < 64) (sextets bs)"
  by (induction bs rule: sextets.induct) auto

lemma octet_parts:
  assumes "b < (256 :: nat)"
  shows "b div 16 div 16 = 0" "b div 16 mod 16 = b div 16" "b div 64 div 4 = 0" "b div 64 mod 4 = b div 64"
  using assms by (simp_all add: div_mult2_eq [symmetric] less_mult_imp_div_less)

lemma octets_sextets: "list_all (\<lambda>n. n < 256) bs \<Longrightarrow> octets (sextets bs) = Some bs"
  by (induction bs rule: sextets.induct) (simp_all add: octet_parts)

lemma b64_round: "b64_decode (b64_encode s) = Some s"
proof -
  let ?vs = "sextets (map char_code s)"
  have b: "list_all (\<lambda>n. n < 256) (map char_code s)" by (simp add: list_all_iff char_code_def)
  note v = sextets_bound [OF b]
  have "filter (\<lambda>c. \<not> line_break c) (map b64_char ?vs) = map b64_char ?vs"
    using v b64_char_plain by (intro filter_True) (auto simp: list_all_iff)
  then show ?thesis using values_of_chars [OF v] octets_sextets [OF b]
    by (simp add: b64_decode_def b64_encode_def char_code_def comp_def)
qed

subsection \<open>The text of a cursor\<close>

record cursor_json =
  cj_marshal :: "cursor \<Rightarrow> string option"
  cj_unmarshal :: "string \<Rightarrow> cursor option"

text \<open>The zero \<open>time.Time\<close> is the first second of year 1.\<close>

definition zero_time :: time where "zero_time = - 62135596800 * second"

definition Encode_cursor :: "cursor_json \<Rightarrow> cursor \<Rightarrow> string" where
  "Encode_cursor j c = (case cj_marshal j c of None \<Rightarrow> [] | Some s \<Rightarrow> b64_encode s)"

definition DecodeCursor :: "cursor_json \<Rightarrow> string \<Rightarrow> string + cursor" where
  "DecodeCursor j raw =
     (if raw = [] then Inl ''invalid cursor''
      else case b64_decode raw of None \<Rightarrow> Inl ''invalid cursor: not base64''
      | Some decoded \<Rightarrow> (case cj_unmarshal j decoded of None \<Rightarrow> Inl ''invalid cursor: not a cursor''
        | Some c \<Rightarrow> if cu_id c = [] \<or> cu_saved c = zero_time then Inl ''invalid cursor: incomplete'' else Inr c))"

lemma b64_encode_Nil [simp]: "b64_encode s = [] \<longleftrightarrow> s = []"
  by (metis b64_decode_def b64_encode_def b64_round list.simps(8) map_is_Nil_conv option.inject sextets.simps(1))

text \<open>What a page hands out is read as the position it stands for, and what is read holds a position.\<close>

definition readable :: "cursor_json \<Rightarrow> cursor \<Rightarrow> bool" where
  "readable j c = (cu_id c \<noteq> [] \<and> cu_saved c \<noteq> zero_time
     \<and> (case cj_marshal j c of None \<Rightarrow> False | Some s \<Rightarrow> s \<noteq> [] \<and> cj_unmarshal j s = Some c))"

lemma decode_encode: "readable j c \<Longrightarrow> DecodeCursor j (Encode_cursor j c) = Inr c"
  by (auto simp: readable_def Encode_cursor_def DecodeCursor_def b64_round split: option.splits)

lemma decoded_complete: "DecodeCursor j raw = Inr c \<Longrightarrow> cu_id c \<noteq> [] \<and> cu_saved c \<noteq> zero_time"
  by (auto simp: DecodeCursor_def split: if_splits option.splits)

end
