(* ===== verification/Library.thy ===== *)
theory Library
  imports Reels Cursor Collections "HOL-Library.Multiset"
begin

text \<open>
  The library of saved reels: the projection \<open>savedReels\<close> and the readers of \<open>internal/postgres/reels.go\<close> over the
  tables, the pages of \<open>internal/reels/service.go\<close>, and \<open>GET /api/v2/reels\<close> with its parameters
  (\<open>internal/httpapi/reels.go\<close>, \<open>params.go\<close>).

  The rows are those the service writes: \<open>source_url\<close> of a save and a \<open>parse_status\<close> inside the raw extraction are
  written by the backfill only, so the first is an argument and the second is absent.
\<close>

subsection \<open>The projection\<close>

record saved_reel =
  sv_save :: save_row
  sv_content :: content_row
  sv_version :: "version_row option"

definition content_of :: "world \<Rightarrow> save_row \<Rightarrow> content_row option" where
  "content_of w s = find (\<lambda>c. c_id c = s_content s) (contents w)"

definition current_version :: "world \<Rightarrow> content_row \<Rightarrow> version_row option" where
  "current_version w c = (case c_current c of None \<Rightarrow> None | Some v \<Rightarrow> find (\<lambda>r. v_id r = v) (versions w))"

definition savedReels :: "world \<Rightarrow> saved_reel list" where
  "savedReels w =
     List.map_filter (\<lambda>s. map_option (\<lambda>c. \<lparr>sv_save = s, sv_content = c, sv_version = current_version w c\<rparr>) (content_of w s)) (saves w)"

definition sv_category :: "saved_reel \<Rightarrow> string option" where
  "sv_category r = (case sv_version r of None \<Rightarrow> None | Some v \<Rightarrow> nullif (fst (snd (v_raw v))))"

definition sv_subcategory :: "saved_reel \<Rightarrow> string option" where
  "sv_subcategory r = (case sv_version r of None \<Rightarrow> None | Some v \<Rightarrow> nullif (snd (snd (v_raw v))))"

text \<open>\<open>coalesce(s.source_url, \<dots>)\<close>: the link that was submitted.\<close>

definition submitted_url :: "(string \<Rightarrow> string option) \<Rightarrow> world \<Rightarrow> saved_reel \<Rightarrow> string" where
  "submitted_url source_url w r =
     (case source_url (s_id (sv_save r)) of Some u \<Rightarrow> u
      | None \<Rightarrow> (case sort_key job_created (filter (\<lambda>j. job_save j = Some (s_id (sv_save r)) \<and> job_user j = s_user (sv_save r)) (jobs w)) of
                   j # _ \<Rightarrow> job_url j | [] \<Rightarrow> c_normalized (sv_content r)))"

text \<open>A location as the extraction stored it, read back from its JSON object, which has no address.\<close>

definition read_location :: "location \<Rightarrow> reel_location" where
  "read_location l =
     \<lparr>rl_name = loc_name l, rl_address = None, rl_neighborhood = Some (loc_neighborhood l), rl_city = Some (loc_city l),
      rl_state = Some (loc_state l), rl_country = Some (loc_country l), rl_latitude = loc_latitude l, rl_longitude = loc_longitude l\<rparr>"

definition version_text :: "(version_row \<Rightarrow> string) \<Rightarrow> saved_reel \<Rightarrow> string" where
  "version_text f r = (case sv_version r of None \<Rightarrow> [] | Some v \<Rightarrow> f v)"

definition scanReel :: "(string \<Rightarrow> string option) \<Rightarrow> bool \<Rightarrow> world \<Rightarrow> saved_reel \<Rightarrow> reel_record" where
  "scanReel source_url with_transcript w r =
     (let x = map_option (\<lambda>v. fst (v_raw v)) (sv_version r)
      in \<lparr>re_id = s_id (sv_save r), re_owner = s_user (sv_save r), re_url = submitted_url source_url w r,
          re_normalized = Some (c_normalized (sv_content r)), re_platform = Some (c_platform (sv_content r)),
          re_type = Some (c_type (sv_content r)), re_source = c_source (sv_content r),
          re_processing = map_option v_processor (sv_version r), re_ingestion = None, re_transcript_source = None,
          re_thumbnail = (case sv_version r of None \<Rightarrow> None | Some v \<Rightarrow> nullif (v_thumbnail v)),
          re_title = version_text v_title r, re_summary = version_text v_summary r,
          re_transcript = (if with_transcript then version_text v_transcript r else []),
          re_category = optionalString (sv_category r), re_subcategory = optionalString (sv_subcategory r),
          re_tags = map_option v_tags (sv_version r), re_facts = map_option v_facts (sv_version r),
          re_locations = map_option (\<lambda>e. map read_location (x_locations e)) x, re_people = map_option x_people x,
          re_actions = map_option x_actions x, re_events = map_option x_events x,
          re_status = map_option (\<lambda>v. ''parsed'') (sv_version r), re_created = Some (s_saved (sv_save r))\<rparr>)"

subsection \<open>The readers\<close>

record list_options =
  lo_platforms :: "string list"
  lo_category :: string
  lo_subcategory :: string
  lo_date :: string
  lo_after :: "cursor option"
  lo_limit :: nat

definition parse_date :: "string \<Rightarrow> int option" where
  "parse_date s =
     (if is_iso_date s \<and> real_date s
      then Some (of_civil (int (nat_of (take 4 s)), int (nat_of (take 2 (drop 5 s))), int (nat_of (drop 8 s)))) else None)"

definition position :: "saved_reel \<Rightarrow> cursor" where
  "position r = Cursor (s_saved (sv_save r)) (s_id (sv_save r))"

text \<open>The conditions of the query but the cursor; a comparison with a NULL category does not hold.\<close>

definition selects :: "string \<Rightarrow> list_options \<Rightarrow> int option \<Rightarrow> saved_reel \<Rightarrow> bool" where
  "selects user opts date r =
     (s_user (sv_save r) = user
      \<and> platformCondition (lo_platforms opts) (Some (c_platform (sv_content r)))
      \<and> (lo_category opts = [] \<or> sv_category r = Some (lo_category opts))
      \<and> (lo_subcategory opts = [] \<or> sv_subcategory r = Some (lo_subcategory opts))
      \<and> (case date of None \<Rightarrow> True | Some d \<Rightarrow> d * day \<le> s_saved (sv_save r) \<and> s_saved (sv_save r) < (d + 1) * day))"

definition list_date :: "list_options \<Rightarrow> string + int option" where
  "list_date opts =
     (if lo_date opts = [] then Inr None
      else case parse_date (lo_date opts) of None \<Rightarrow> Inl ''saved_date'' | Some d \<Rightarrow> Inr (Some d))"

definition List_reels :: "(string \<Rightarrow> string option) \<Rightarrow> string \<Rightarrow> list_options \<Rightarrow> world \<Rightarrow> string + reel_record list" where
  "List_reels source_url user opts w =
     bind_r (list_date opts) (\<lambda>date.
       Inr (map (scanReel source_url False w)
         (take (lo_limit opts) (newest_first position (filter (\<lambda>r. selects user opts date r
            \<and> (case lo_after opts of None \<Rightarrow> True | Some k \<Rightarrow> position r < k)) (savedReels w))))))"

definition Get_reel :: "(string \<Rightarrow> string option) \<Rightarrow> string \<Rightarrow> string \<Rightarrow> world \<Rightarrow> err + reel_record" where
  "Get_reel source_url user i w =
     (case find (\<lambda>r. s_id (sv_save r) = i \<and> s_user (sv_save r) = user) (savedReels w) of
        None \<Rightarrow> Inl ErrReelNotFound | Some r \<Rightarrow> Inr (scanReel source_url True w r))"

subsection \<open>A page\<close>

definition CursorFor :: "reel_record \<Rightarrow> cursor option" where
  "CursorFor r = map_option (\<lambda>t. Cursor t (re_id r)) (re_created r)"

record list_response =
  ls_next :: "string option"
  ls_more :: bool
  ls_limit :: nat
  ls_reels :: "display_reel list"

definition BuildListResponse :: "cursor_json \<Rightarrow> reel_record list \<Rightarrow> nat \<Rightarrow> display \<Rightarrow> list_response" where
  "BuildListResponse j records limit d =
     (let more = (limit < length records);
          shown = (if more then take limit records else records);
          cursor = (if more \<and> shown \<noteq> [] then CursorFor (last shown) else None)
      in \<lparr>ls_next = map_option (Encode_cursor j) cursor,
          ls_more = (if more \<and> shown \<noteq> [] then cursor \<noteq> None else more), ls_limit = limit,
          ls_reels = map (\<lambda>r. BuildDisplayReel r d) (DedupeRecords shown)\<rparr>)"

definition Service_List ::
  "cursor_json \<Rightarrow> (string \<Rightarrow> string option) \<Rightarrow> display \<Rightarrow> string \<Rightarrow> list_options \<Rightarrow> world \<Rightarrow> string + list_response" where
  "Service_List j source_url d user opts w =
     bind_r (List_reels source_url user (opts\<lparr>lo_limit := lo_limit opts + 1\<rparr>) w) (\<lambda>records.
       Inr (BuildListResponse j records (lo_limit opts) d))"

definition Service_Get :: "(string \<Rightarrow> string option) \<Rightarrow> display \<Rightarrow> string \<Rightarrow> string \<Rightarrow> world \<Rightarrow> err + full_reel" where
  "Service_Get source_url d user i w =
     bind_r (Get_reel source_url user i w) (\<lambda>r. Inr (BuildReel r (d\<lparr>di_view := ViewDetailed\<rparr>)))"

subsection \<open>The request\<close>

definition DefaultPageSize :: nat where "DefaultPageSize = 25"
definition MaxPageSize :: nat where "MaxPageSize = 100"

text \<open>An answer with its status; a refusal carries its code and the parameter.\<close>

datatype 'a http_answer = Answer 'a | Refused nat string string

definition validation :: "string \<Rightarrow> 'a http_answer" where
  "validation field = Refused 422 ''validation_error'' field"

text \<open>Each parser writes the refusal or gives the value on.\<close>

definition cursorParam :: "cursor_json \<Rightarrow> string \<Rightarrow> (cursor option \<Rightarrow> 'a http_answer) \<Rightarrow> 'a http_answer" where
  "cursorParam j value k =
     (let raw = trim_space value
      in if raw = [] then k None
         else case DecodeCursor j raw of Inl _ \<Rightarrow> validation ''cursor'' | Inr c \<Rightarrow> k (Some c))"

definition viewParam :: "string \<Rightarrow> (view \<Rightarrow> 'a http_answer) \<Rightarrow> 'a http_answer" where
  "viewParam value k = (case ParseView value of None \<Rightarrow> validation ''view'' | Some v \<Rightarrow> k v)"

definition parsePlatforms :: "string \<Rightarrow> (string list \<Rightarrow> 'a http_answer) \<Rightarrow> 'a http_answer" where
  "parsePlatforms value k =
     (case ParsePlatformFilter value of Inl _ \<Rightarrow> Refused 400 ''invalid_platform'' ''platform'' | Inr ps \<Rightarrow> k ps)"

definition intParam :: "string \<Rightarrow> string \<Rightarrow> int \<Rightarrow> int \<Rightarrow> int \<Rightarrow> (int \<Rightarrow> 'a http_answer) \<Rightarrow> 'a http_answer" where
  "intParam name value fallback minimum maximum k =
     (let raw = trim_space value
      in if raw = [] then k fallback
         else case parse_int raw of None \<Rightarrow> validation name
         | Some v \<Rightarrow> if v < minimum \<or> v > maximum then validation name else k v)"

definition savedDateParam :: "string \<Rightarrow> (string \<Rightarrow> 'a http_answer) \<Rightarrow> 'a http_answer" where
  "savedDateParam value k =
     (let raw = trim_space value
      in if raw = [] then k [] else if parse_date raw = None then validation ''saved_date'' else k raw)"

definition handleListReels ::
  "cursor_json \<Rightarrow> (string \<Rightarrow> string option) \<Rightarrow> display \<Rightarrow> string \<Rightarrow> (string \<Rightarrow> string) \<Rightarrow> world \<Rightarrow> list_response http_answer" where
  "handleListReels j source_url d user q w =
     parsePlatforms (q ''platform'') (\<lambda>platforms.
     intParam ''limit'' (q ''limit'') (int DefaultPageSize) 1 (int MaxPageSize) (\<lambda>limit.
     savedDateParam (q ''saved_date'') (\<lambda>date.
     cursorParam j (q ''cursor'') (\<lambda>after.
     viewParam (q ''view'') (\<lambda>v.
       case Service_List j source_url (d\<lparr>di_view := v\<rparr>) user
              \<lparr>lo_platforms = platforms, lo_category = q ''category'', lo_subcategory = q ''subcategory'', lo_date = date,
               lo_after = after, lo_limit = nat limit\<rparr> w of
         Inl _ \<Rightarrow> Refused 500 ''reel_list_failed'' []
       | Inr page \<Rightarrow> Answer page)))))"

subsection \<open>Rows and positions\<close>

lemma map_filter_Some: "x \<in> set (List.map_filter f xs) \<longleftrightarrow> (\<exists>y \<in> set xs. f y = Some x)"
  by (force simp: map_filter_def image_iff)

lemma in_savedReels: "r \<in> set (savedReels w) \<longleftrightarrow>
    sv_save r \<in> set (saves w) \<and> content_of w (sv_save r) = Some (sv_content r) \<and> sv_version r = current_version w (sv_content r)"
  by (cases r) (auto simp: savedReels_def map_filter_Some)

lemma saves_of_rows: "map sv_save (savedReels w) = filter (\<lambda>s. content_of w s \<noteq> None) (saves w)"
proof -
  have "map sv_save (List.map_filter (\<lambda>s. map_option (\<lambda>c. \<lparr>sv_save = s, sv_content = c, sv_version = current_version w c\<rparr>) (content_of w s)) xs)
      = filter (\<lambda>s. content_of w s \<noteq> None) xs" for xs
    by (induction xs) (auto simp: map_filter_simps split: option.splits)
  then show ?thesis by (simp add: savedReels_def)
qed

lemma row_ids: "save_keys w \<Longrightarrow> distinct (map (\<lambda>r. s_id (sv_save r)) (savedReels w))"
proof -
  assume "save_keys w"
  then have "distinct (map s_id (map sv_save (savedReels w)))"
    unfolding saves_of_rows by (simp add: save_keys_def distinct_map_filter)
  then show ?thesis by (simp add: comp_def)
qed

text \<open>Rows sorted by their positions are the sorted positions.\<close>

lemma newest_first_map: "map key (newest_first key xs) = newest_first (\<lambda>k. k) (map key xs)"
proof -
  have "sort (map key xs) = map key (sort_key key xs)"
    by (rule properties_for_sort) simp_all
  then show ?thesis by (simp add: newest_first_def rev_map)
qed

subsection \<open>The pages of a library\<close>

definition reel_rows :: "string \<Rightarrow> list_options \<Rightarrow> int option \<Rightarrow> world \<Rightarrow> saved_reel list" where
  "reel_rows user opts date w = filter (selects user opts date) (savedReels w)"

definition found_rows :: "string \<Rightarrow> list_options \<Rightarrow> int option \<Rightarrow> world \<Rightarrow> cursor option \<Rightarrow> saved_reel list" where
  "found_rows user opts date w after =
     newest_first position (filter (\<lambda>r. case after of None \<Rightarrow> True | Some k \<Rightarrow> position r < k) (reel_rows user opts date w))"

definition reel_page :: "string \<Rightarrow> list_options \<Rightarrow> int option \<Rightarrow> world \<Rightarrow> cursor option \<Rightarrow> nat \<Rightarrow> cursor list \<times> cursor option" where
  "reel_page user opts date w after limit =
     (let found = take (limit + 1) (found_rows user opts date w after)
      in if limit < length found
         then (let p = take limit found in (map position p, if p = [] then None else Some (position (last p))))
         else (map position found, None))"

interpretation library_pager: keyset_pager "\<lambda>k. k" "\<lambda>w. map position (reel_rows user opts date w)" "reel_page user opts date" for user opts date
proof
  fix w :: world and after :: "cursor option" and limit
  let ?in = "\<lambda>k. case after of None \<Rightarrow> True | Some a \<Rightarrow> k < a"
  have all: "newest_first (\<lambda>k. k) (filter ?in (map position (reel_rows user opts date w)))
      = map position (found_rows user opts date w after)"
    by (simp add: found_rows_def newest_first_map filter_map comp_def)
  have len: "length (filter ?in (map position (reel_rows user opts date w))) = length (found_rows user opts date w after)"
    by (metis all length_map length_newest_first)
  show "fst (reel_page user opts date w after limit)
      = take limit (newest_first (\<lambda>k. k) (filter ?in (map position (reel_rows user opts date w))))"
    unfolding all by (simp add: reel_page_def Let_def take_map min_def)
  show "snd (reel_page user opts date w after limit)
     = (if limit < length (filter ?in (map position (reel_rows user opts date w)))
        then Some (last (fst (reel_page user opts date w after limit))) else None)" if "0 < limit"
    unfolding len using that
    by (cases "found_rows user opts date w after") (auto simp: reel_page_def Let_def min_def last_map)
qed

subsection \<open>The service shows such a page\<close>

lemma dedupe_from_id: "distinct (map re_id rs) \<Longrightarrow> [] \<notin> re_id ` set rs \<Longrightarrow> set ids \<inter> re_id ` set rs = {} \<Longrightarrow> dedupe_from ids rs = rs"
  by (induction rs arbitrary: ids) auto

lemma CursorFor_scan [simp]: "CursorFor (scanReel src t w r) = Some (position r)"
  by (simp add: CursorFor_def scanReel_def position_def Let_def)

lemma scan_id [simp]: "re_id (scanReel src t w r) = cu_id (position r)"
  by (simp add: scanReel_def position_def Let_def)

lemma card_id [simp]: "dr_id (BuildDisplayReel r d) = re_id r"
  by (simp add: BuildDisplayReel_def Let_def)

definition library_ok :: "cursor_json \<Rightarrow> world \<Rightarrow> bool" where
  "library_ok j w = (save_keys w \<and> (\<forall>s \<in> set (saves w). readable j (Cursor (s_saved s) (s_id s))))"

lemma found_ids:
  assumes "library_ok j w"
  shows "distinct (map (\<lambda>r. cu_id (position r)) (found_rows user opts date w after))"
    and "r \<in> set (found_rows user opts date w after) \<Longrightarrow> readable j (position r)"
proof -
  have mset: "mset (found_rows user opts date w after) = mset (filter (\<lambda>r. case after of None \<Rightarrow> True | Some k \<Rightarrow> position r < k) (reel_rows user opts date w))"
    by (simp add: found_rows_def newest_first_def)
  have "distinct (map (\<lambda>r. s_id (sv_save r)) (filter (\<lambda>r. case after of None \<Rightarrow> True | Some k \<Rightarrow> position r < k) (reel_rows user opts date w)))"
    using row_ids assms by (simp add: library_ok_def reel_rows_def distinct_map_filter)
  then show "distinct (map (\<lambda>r. cu_id (position r)) (found_rows user opts date w after))"
    using mset by (metis (no_types, lifting) cursor.sel(2) distinct_map mset_eq_imp_distinct_iff mset_map position_def map_cong)
  assume "r \<in> set (found_rows user opts date w after)"
  then have "r \<in> set (savedReels w)" by (auto simp: found_rows_def reel_rows_def)
  then show "readable j (position r)" using assms by (auto simp: in_savedReels library_ok_def position_def)
qed

lemma Service_List_page:
  assumes "library_ok j w" and "list_date opts = Inr date" and "0 < lo_limit opts"
  shows "\<exists>p. Service_List j src d user opts w = Inr p
    \<and> map dr_id (ls_reels p) = map cu_id (fst (reel_page user opts date w (lo_after opts) (lo_limit opts)))
    \<and> ls_next p = map_option (Encode_cursor j) (snd (reel_page user opts date w (lo_after opts) (lo_limit opts)))
    \<and> (\<forall>k. snd (reel_page user opts date w (lo_after opts) (lo_limit opts)) = Some k \<longrightarrow> readable j k)"
proof -
  let ?n = "lo_limit opts" and ?found = "found_rows user opts date w (lo_after opts)"
  let ?rows = "take (?n + 1) ?found"
  let ?recs = "map (scanReel src False w) ?rows"
  have "filter (\<lambda>r. selects user (opts\<lparr>lo_limit := ?n + 1\<rparr>) date r \<and> (case lo_after opts of None \<Rightarrow> True | Some k \<Rightarrow> position r < k)) (savedReels w)
      = filter (\<lambda>r. case lo_after opts of None \<Rightarrow> True | Some k \<Rightarrow> position r < k) (reel_rows user opts date w)"
    by (simp add: reel_rows_def selects_def conj_commute cong: conj_cong)
  moreover have ld: "list_date (opts\<lparr>lo_limit := ?n + 1\<rparr>) = Inr date" using assms(2) by (simp add: list_date_def split: if_splits)
  ultimately have list: "List_reels src user (opts\<lparr>lo_limit := ?n + 1\<rparr>) w = Inr ?recs"
    using ld by (simp add: List_reels_def found_rows_def)
  have dedupe: "DedupeRecords (map (scanReel src False w) (take m ?found)) = map (scanReel src False w) (take m ?found)" for m
  proof -
    have "distinct (map (\<lambda>r. cu_id (position r)) (take m ?found))"
      using found_ids(1) [OF assms(1)] by (metis distinct_take take_map)
    moreover have "cu_id (position r) \<noteq> []" if "r \<in> set (take m ?found)" for r
      using found_ids(2) [OF assms(1)] in_set_takeD [OF that] by (auto simp: readable_def)
    ultimately show ?thesis unfolding DedupeRecords_def by (intro dedupe_from_id) (auto simp: comp_def dest: sym)
  qed
  define p where "p = BuildListResponse j ?recs ?n d"
  have svc: "Service_List j src d user opts w = Inr p"
    unfolding Service_List_def list p_def by (rule bind_r_simps)
  let ?page = "reel_page user opts date w (lo_after opts) ?n"
  show ?thesis
  proof (cases "?n < length ?rows")
    case True
    then have n: "?n < length ?found" by simp
    then have ne: "take ?n ?found \<noteq> []" using assms(3) by auto
    have pg: "?page = (map position (take ?n ?found), Some (position (last (take ?n ?found))))"
      using True ne by (simp add: reel_page_def Let_def min_def)
    have "ls_reels p = map (\<lambda>r. BuildDisplayReel r d) (map (scanReel src False w) (take ?n ?found))"
      "ls_next p = Some (Encode_cursor j (position (last (take ?n ?found))))"
      using True ne dedupe [of ?n] by (simp_all add: p_def BuildListResponse_def Let_def take_map min_def last_map)
    moreover have "readable j (position (last (take ?n ?found)))"
      using found_ids(2) [OF assms(1)] in_set_takeD [OF last_in_set [OF ne]] by blast
    ultimately show ?thesis using svc pg by (simp add: comp_def)
  next
    case False
    then have pg: "?page = (map position ?rows, None)" by (simp add: reel_page_def Let_def)
    have "ls_reels p = map (\<lambda>r. BuildDisplayReel r d) ?recs" "ls_next p = None"
      using False dedupe [of "?n + 1"] by (simp_all add: p_def BuildListResponse_def Let_def)
    then show ?thesis using svc pg by (simp add: comp_def)
  qed
qed

subsection \<open>A client that follows the cursor\<close>

text \<open>\<open>get\<close> answers the request with the given cursor in a state; the client goes on with the cursor of each answer, one
  state after the other, and says whether it came to a page without one.\<close>

fun read_pages :: "(string \<Rightarrow> world \<Rightarrow> list_response http_answer) \<Rightarrow> world list \<Rightarrow> string \<Rightarrow> display_reel list list \<times> bool" where
  "read_pages get [] raw = ([], False)"
| "read_pages get (w # ws) raw =
     (case get raw w of
        Refused s c f \<Rightarrow> ([], False)
      | Answer p \<Rightarrow>
          (case ls_next p of
             None \<Rightarrow> ([ls_reels p], True)
           | Some r \<Rightarrow> (let (rest, ended) = read_pages get ws r in (ls_reels p # rest, ended))))"

text \<open>The request \<open>q\<close> with the cursor of the page before.\<close>

definition list_request ::
  "cursor_json \<Rightarrow> (string \<Rightarrow> string option) \<Rightarrow> display \<Rightarrow> string \<Rightarrow> (string \<Rightarrow> string) \<Rightarrow> string \<Rightarrow> world \<Rightarrow> list_response http_answer" where
  "list_request j source_url d user q raw w = handleListReels j source_url d user (q(''cursor'' := raw)) w"

text \<open>The parameters of a request, read.\<close>

definition request_options :: "(string \<Rightarrow> string) \<Rightarrow> (list_options \<times> int option \<times> view) option" where
  "request_options q =
     (case ParsePlatformFilter (q ''platform'') of Inl _ \<Rightarrow> None | Inr ps \<Rightarrow>
      (case intParam ''limit'' (q ''limit'') (int DefaultPageSize) 1 (int MaxPageSize) Answer of Refused _ _ _ \<Rightarrow> None | Answer limit \<Rightarrow>
      (case savedDateParam (q ''saved_date'') Answer of Refused _ _ _ \<Rightarrow> None | Answer date \<Rightarrow>
      (case ParseView (q ''view'') of None \<Rightarrow> None | Some v \<Rightarrow>
        Some (\<lparr>lo_platforms = ps, lo_category = q ''category'', lo_subcategory = q ''subcategory'', lo_date = date,
               lo_after = None, lo_limit = nat limit\<rparr>, (if date = [] then None else parse_date date), v)))))"

text \<open>What the request asks for: the user's own save, on one of the platforms, in the category, of the day.\<close>

definition asked_for :: "(string \<Rightarrow> string) \<Rightarrow> string \<Rightarrow> saved_reel \<Rightarrow> bool" where
  "asked_for q user r = (case request_options q of None \<Rightarrow> False | Some (opts, date, v) \<Rightarrow> selects user opts date r)"

lemma intParam_answer: "intParam name value fallback lo hi k =
    (case intParam name value fallback lo hi Answer of Refused a b c \<Rightarrow> Refused a b c | Answer v \<Rightarrow> k v)"
  by (simp add: intParam_def validation_def Let_def split: option.splits)

lemma savedDateParam_answer: "savedDateParam value k =
    (case savedDateParam value Answer of Refused a b c \<Rightarrow> Refused a b c | Answer v \<Rightarrow> k v)"
  by (simp add: savedDateParam_def validation_def Let_def)

lemma intParam_range: "intParam name value fallback lo hi Answer = Answer v \<Longrightarrow> lo \<le> fallback \<Longrightarrow> fallback \<le> hi \<Longrightarrow> lo \<le> v \<and> v \<le> hi"
  by (auto simp: intParam_def validation_def Let_def split: if_splits option.splits)

lemma savedDate_read: "savedDateParam value Answer = Answer date \<Longrightarrow> date = [] \<or> parse_date date \<noteq> None"
  by (auto simp: savedDateParam_def validation_def Let_def split: if_splits)

lemma handler_options:
  assumes "request_options q = Some (opts, date, v)"
  shows "list_request j src d user q raw w = cursorParam j raw (\<lambda>after.
      case Service_List j src (d\<lparr>di_view := v\<rparr>) user (opts\<lparr>lo_after := after\<rparr>) w of
        Inl _ \<Rightarrow> Refused 500 ''reel_list_failed'' [] | Inr page \<Rightarrow> Answer page)"
    and "list_date opts = Inr date" and "0 < lo_limit opts" and "lo_limit opts \<le> MaxPageSize"
proof -
  obtain ps limit dt where r: "ParsePlatformFilter (q ''platform'') = Inr ps"
      "intParam ''limit'' (q ''limit'') (int DefaultPageSize) 1 (int MaxPageSize) Answer = Answer limit"
      "savedDateParam (q ''saved_date'') Answer = Answer dt" "ParseView (q ''view'') = Some v"
    and o: "opts = \<lparr>lo_platforms = ps, lo_category = q ''category'', lo_subcategory = q ''subcategory'', lo_date = dt,
               lo_after = None, lo_limit = nat limit\<rparr>" "date = (if dt = [] then None else parse_date dt)"
    using assms by (auto simp: request_options_def split: sum.splits http_answer.splits option.splits)
  show "list_request j src d user q raw w = cursorParam j raw (\<lambda>after.
      case Service_List j src (d\<lparr>di_view := v\<rparr>) user (opts\<lparr>lo_after := after\<rparr>) w of
        Inl _ \<Rightarrow> Refused 500 ''reel_list_failed'' [] | Inr page \<Rightarrow> Answer page)"
    unfolding list_request_def handleListReels_def parsePlatforms_def viewParam_def
    by (simp add: r o intParam_answer [of "''limit''" _ _ _ _ "\<lambda>x. cursorParam j raw (\<lambda>a. k x a)" for k]
        intParam_answer [where k = "\<lambda>limit. savedDateParam u (kk limit)" for u kk] savedDateParam_answer [where k = "\<lambda>date. cursorParam j raw (kk date)" for kk])
  show "list_date opts = Inr date" using savedDate_read [OF r(3)] by (auto simp: o list_date_def)
  show "0 < lo_limit opts" "lo_limit opts \<le> MaxPageSize"
    using intParam_range [OF r(2)] by (auto simp: o DefaultPageSize_def MaxPageSize_def)
qed

lemma b64_no_space: "list_all (\<lambda>c. \<not> is_space c) b64_alphabet"
  by (simp add: b64_alphabet_def is_space_def char_code_def)

lemma encoded_plain: "trim_space (b64_encode s) = b64_encode s"
proof -
  have "list_all (\<lambda>n. n < 256) (map char_code s)" by (simp add: list_all_iff char_code_def)
  from sextets_bound [OF this] have "\<And>n. n \<in> set (sextets (map char_code s)) \<Longrightarrow> b64_alphabet ! n \<in> set b64_alphabet"
    by (simp add: length_alphabet list_all_iff)
  then have "\<And>c. c \<in> set (b64_encode s) \<Longrightarrow> \<not> is_space c"
    using b64_no_space by (auto simp: b64_encode_def b64_char_def list_all_iff)
  then show ?thesis
    unfolding trim_space_def trim_right_by_def by (metis dropWhile_eq_self_iff hd_in_set rev_is_Nil_conv rev_rev_ident set_rev)
qed

lemma cursorParam_encoded: "readable j c \<Longrightarrow> cursorParam j (Encode_cursor j c) k = k (Some c) \<and> Encode_cursor j c \<noteq> []"
proof -
  assume r: "readable j c"
  then obtain s where s: "cj_marshal j c = Some s" "s \<noteq> []" by (auto simp: readable_def split: option.splits)
  then have e: "Encode_cursor j c = b64_encode s" by (simp add: Encode_cursor_def)
  show ?thesis using decode_encode [OF r] s(2) unfolding e by (simp add: cursorParam_def encoded_plain)
qed

lemma cursorParam_absent: "cursorParam j [] k = k None"
  by (simp add: cursorParam_def trim_space_def trim_right_by_def)

text \<open>What the client reads is the walk over the positions.\<close>

lemma read_pages_walk:
  assumes "request_options q = Some (opts, date, v)" and "\<forall>w \<in> set ws. library_ok j w"
    and "raw = [] \<and> after = None \<or> (\<exists>c. readable j c \<and> raw = Encode_cursor j c \<and> after = Some c)"
  shows "map (map dr_id) (fst (read_pages (list_request j src d user q) ws raw))
      = map (map cu_id) (fst (walk (reel_page user opts date) (lo_limit opts) ws after))
    \<and> snd (read_pages (list_request j src d user q) ws raw)
      = snd (walk (reel_page user opts date) (lo_limit opts) ws after)"
  using assms(2,3)
proof (induction ws arbitrary: raw after)
  case (Cons w ws)
  note h = handler_options [OF assms(1)]
  let ?o = "opts\<lparr>lo_after := after\<rparr>"
  have "list_date ?o = Inr date" "0 < lo_limit ?o" using h(2,3) by (simp_all add: list_date_def split: if_splits)
  from Service_List_page [where opts = ?o and j = j and src = src and d = "d\<lparr>di_view := v\<rparr>" and user = user and w = w, OF _ this] Cons.prems(1)
  obtain p where p: "Service_List j src (d\<lparr>di_view := v\<rparr>) user ?o w = Inr p"
      "map dr_id (ls_reels p) = map cu_id (fst (reel_page user ?o date w after (lo_limit opts)))"
      "ls_next p = map_option (Encode_cursor j) (snd (reel_page user ?o date w after (lo_limit opts)))"
      "\<And>k. snd (reel_page user ?o date w after (lo_limit opts)) = Some k \<Longrightarrow> readable j k"
    by auto
  have "selects user ?o date = selects user opts date" by (simp add: selects_def fun_eq_iff)
  then have same: "reel_page user ?o date = reel_page user opts date"
    by (simp add: fun_eq_iff reel_page_def found_rows_def reel_rows_def)
  have get: "list_request j src d user q raw w = Answer p"
    unfolding h(1) using Cons.prems(2) p(1) by (auto simp: cursorParam_encoded cursorParam_absent)
  obtain shown nx where pg: "reel_page user opts date w after (lo_limit opts) = (shown, nx)" by force
  show ?case
  proof (cases nx)
    case None
    then show ?thesis using get p pg same by simp
  next
    case (Some k)
    then have "readable j k" using p(4) pg same by simp
    from Cons.IH [of "Encode_cursor j k" "Some k"] this Cons.prems(1) show ?thesis
      using get p pg same Some by (simp add: case_prod_unfold Let_def)
  qed
qed simp

lemma reel_rows_positions:
  assumes "save_keys w"
  shows "distinct (map (\<lambda>k. k) (map position (reel_rows user opts date w)))"
proof -
  have "distinct (map (\<lambda>r. s_id (sv_save r)) (reel_rows user opts date w))"
    using row_ids [OF assms] by (simp add: reel_rows_def distinct_map_filter)
  then show ?thesis by (auto simp: distinct_map inj_on_def position_def)
qed

text \<open>C38: a client that pages through the library follows the opaque cursors while saves are added and removed and
  contents are processed anew between its requests.  It is shown saves of the user that answer the request, newest
  first and none twice; and when it came to the last page, every save that was there and answered the request in each of
  the states it read has been shown.\<close>

theorem library_pages_show_every_save_once:
  assumes "request_options q \<noteq> None" and "\<forall>w \<in> set ws. library_ok j w"
    and "read_pages (list_request j src d user q) ws [] = (pages, ended)"
  shows "\<exists>ks. sorted_wrt (\<lambda>a b. b < a) ks \<and> map dr_id (concat pages) = map cu_id ks
    \<and> (\<forall>k \<in> set ks. \<exists>w \<in> set ws. \<exists>r \<in> set (savedReels w). position r = k \<and> asked_for q user r)
    \<and> (ended \<longrightarrow> (\<forall>k. (\<forall>w \<in> set ws. \<exists>r \<in> set (savedReels w). position r = k \<and> asked_for q user r) \<longrightarrow> k \<in> set ks))"
proof -
  obtain opts date v where o: "request_options q = Some (opts, date, v)" using assms(1) by (auto simp: prod_eq_iff)
  let ?walk = "walk (reel_page user opts date) (lo_limit opts) ws None"
  let ?ks = "concat (fst ?walk)"
  note h = handler_options [OF o]
  have asked: "asked_for q user = selects user opts date" by (simp add: asked_for_def o fun_eq_iff)
  have keys: "\<forall>w \<in> set ws. distinct (map (\<lambda>k. k) (map position (reel_rows user opts date w)))"
    using assms(2) reel_rows_positions by (auto simp: library_ok_def)
  have r: "map (map dr_id) pages = map (map cu_id) (fst ?walk)" "ended = snd ?walk"
    using read_pages_walk [OF o assms(2), of "[]" None src d user] assms(3) by auto
  have "sorted_wrt (\<lambda>a b. b < a) ?ks"
    using library_pager.walk_sorted [OF keys h(3)] by blast
  moreover have "map dr_id (concat pages) = map cu_id ?ks" using r(1) by (simp add: map_concat)
  moreover have "\<exists>w \<in> set ws. \<exists>r \<in> set (savedReels w). position r = k \<and> asked_for q user r" if "k \<in> set ?ks" for k
    using library_pager.walk_shown [OF that] by (auto simp: reel_rows_def asked)
  moreover have "k \<in> set ?ks" if "ended" "\<forall>w \<in> set ws. \<exists>r \<in> set (savedReels w). position r = k \<and> asked_for q user r" for k
  proof -
    have "\<forall>w \<in> set ws. k \<in> set (map position (reel_rows user opts date w))"
      using that(2) by (force simp: reel_rows_def asked)
    then show ?thesis
      using library_pager.walk_complete [where ss = ws and x = k and after = None and user = user and opts = opts and date = date, OF _ h(3)]
        keys that(1) r(2) by simp
  qed
  ultimately show ?thesis by blast
qed

subsection \<open>A sample library\<close>

definition sample_codec :: cursor_json where
  "sample_codec =
     \<lparr>cj_marshal = (\<lambda>c. Some (cu_id c)),
      cj_unmarshal = (\<lambda>s. if s = ''s1'' then Some (Cursor 10 ''s1'') else if s = ''s2'' then Some (Cursor 20 ''s2'') else None)\<rparr>"

definition sample_display :: display where
  "sample_display = \<lparr>di_now = 0, di_base = ''https://reelpin.app'', di_view = ViewDetailed,
     di_floats = \<lparr>show_v = (\<lambda>_. ''0''), show_5f = (\<lambda>_. ''0.00000'')\<rparr>\<rparr>"

definition sample_content :: "string \<Rightarrow> content_row" where
  "sample_content i =
     \<lparr>c_id = i, c_platform = ''youtube'', c_type = ''video'', c_source = Some i, c_normalized = ''https://youtu.be/'' @ i,
      c_hash = i, c_scope = [], c_current = None\<rparr>"

definition two_saves :: world where
  "two_saves = empty_world\<lparr>contents := [sample_content ''a'', sample_content ''b''],
     saves := [\<lparr>s_id = ''s1'', s_user = ''ann'', s_content = ''a'', s_saved = 10\<rparr>,
               \<lparr>s_id = ''s2'', s_user = ''ann'', s_content = ''b'', s_saved = 20\<rparr>]\<rparr>"

definition first_page :: "string \<Rightarrow> string" where
  "first_page name = (if name = ''limit'' then ''1'' else [])"

lemma first_page_read: "request_options first_page \<noteq> None"
proof -
  have one: "trim_space ''1'' = ''1''" "parse_int ''1'' = Some 1"
    by (simp_all add: trim_space_def trim_right_by_def is_space_def char_code_def parse_int_def is_digit_def digits_value_def
        in_int64_def min_int64_def max_int64_def)
  have nil: "trim_space [] = []" by (simp add: trim_space_def trim_right_by_def)
  show ?thesis
    by (simp add: request_options_def first_page_def ParsePlatformFilter_def intParam_def savedDateParam_def ParseView_def
        one nil DefaultPageSize_def MaxPageSize_def)
qed

lemma two_saves_ok: "library_ok sample_codec two_saves"
  by (simp add: library_ok_def save_keys_def two_saves_def empty_world_def readable_def sample_codec_def zero_time_def)

theorem library_pages_show_every_save_once_witness:
  "case read_pages (list_request sample_codec (\<lambda>_. None) sample_display ''ann'' first_page) [two_saves, two_saves] [] of (pages, ended) \<Rightarrow>
     \<exists>ks. sorted_wrt (\<lambda>a b. b < a) ks \<and> map dr_id (concat pages) = map cu_id ks
       \<and> (ended \<longrightarrow> (\<forall>k. (\<exists>r \<in> set (savedReels two_saves). position r = k \<and> asked_for first_page ''ann'' r) \<longrightarrow> k \<in> set ks))"
proof -
  obtain pages ended where r: "read_pages (list_request sample_codec (\<lambda>_. None) sample_display ''ann'' first_page) [two_saves, two_saves] [] = (pages, ended)"
    by force
  show ?thesis
    using library_pages_show_every_save_once [OF first_page_read _ r] two_saves_ok unfolding r by auto
qed

end
