(* ===== verification/Facets.thy ===== *)
theory Facets
  imports Library
begin

text \<open>
  The filter trees over a library (\<open>internal/reels/filters.go\<close>) and the grouped counts they are built from
  (\<open>Facets\<close> in \<open>internal/postgres/reels.go\<close>).  A Go map is an association list in the order in which its keys were
  written; the order in which a map is walked, and the order that \<open>sort.Slice\<close> gives to names it cannot tell apart,
  is the argument \<open>order\<close>, any rearrangement of the keys.
\<close>

subsection \<open>Maps as association lists\<close>

fun upd :: "'k \<Rightarrow> ('v \<Rightarrow> 'v) \<Rightarrow> 'v \<Rightarrow> ('k \<times> 'v) list \<Rightarrow> ('k \<times> 'v) list" where
  "upd k f d [] = [(k, f d)]"
| "upd k f d ((a, v) # m) = (if a = k then (a, f v) # m else (a, v) # upd k f d m)"

definition lookup :: "'v \<Rightarrow> 'k \<Rightarrow> ('k \<times> 'v) list \<Rightarrow> 'v" where
  "lookup d k m = (case map_of m k of None \<Rightarrow> d | Some v \<Rightarrow> v)"

abbreviation bump :: "'k \<Rightarrow> int \<Rightarrow> ('k \<times> int) list \<Rightarrow> ('k \<times> int) list" where
  "bump k n m \<equiv> upd k (\<lambda>c. c + n) 0 m"

lemma lookup_Nil [simp]: "lookup d k [] = d"
  by (simp add: lookup_def)

lemma lookup_upd [simp]: "lookup d j (upd k f d m) = (if j = k then f (lookup d k m) else lookup d j m)"
  by (induction m) (auto simp: lookup_def)

lemma keys_upd [simp]: "map fst (upd k f d m) = (if k \<in> set (map fst m) then map fst m else map fst m @ [k])"
  by (induction k f d m rule: upd.induct) (auto simp: rev_image_eqI)

lemma set_keys_upd: "set (map fst (upd k f d m)) = insert k (set (map fst m))"
  by auto

lemma distinct_upd: "distinct (map fst m) \<Longrightarrow> distinct (map fst (upd k f d m))"
  by simp

lemma sum_bump: "sum_list (map snd (bump k n m)) = sum_list (map snd m) + n"
  by (induction m) auto

lemma sum_lookup: "distinct (map fst m) \<Longrightarrow> sum_list (map (\<lambda>k. lookup 0 k m) (map fst m)) = sum_list (map snd m)"
proof (induction m)
  case (Cons e m)
  obtain k v where e: "e = (k, v)" by force
  then have same: "map (\<lambda>j. lookup 0 j (e # m)) (map fst m) = map (\<lambda>j. lookup 0 j m) (map fst m)"
    using Cons.prems by (intro map_cong refl) (auto simp: lookup_def)
  have "sum_list (map (\<lambda>j. lookup 0 j (e # m)) (map fst m)) = sum_list (map snd m)"
    unfolding same using Cons by simp
  moreover have "lookup 0 k (e # m) = v" by (simp add: e lookup_def)
  ultimately show ?case by (simp add: e)
qed simp

subsection \<open>Rows and trees\<close>

record facet_row =
  fa_platform :: "string option"
  fa_category :: "string option"
  fa_subcategory :: "string option"
  fa_count :: int

record subcategory_filter =
  sf_name :: string
  sf_label :: string
  sf_count :: int

record category_filter =
  cf_category :: string
  cf_label :: string
  cf_count :: int
  cf_subs :: "subcategory_filter list"

record platform_filter =
  pf_platform :: string
  pf_label :: string
  pf_count :: int
  pf_top :: "string option"
  pf_categories :: "category_filter list"

definition sortedByCountThenName ::
  "(string list \<Rightarrow> string list) \<Rightarrow> (string \<times> int) list \<Rightarrow> bool \<Rightarrow> string list" where
  "sortedByCountThenName order counts lowercase =
     sort_key (\<lambda>n. (- lookup 0 n counts, if lowercase then to_lower n else n)) (order (map fst counts))"

definition buildCategoryFilters ::
  "(string list \<Rightarrow> string list) \<Rightarrow> (string \<times> int) list \<Rightarrow> (string \<times> (string \<times> int) list) list \<Rightarrow> category_filter list" where
  "buildCategoryFilters order categoryCounts subcategoryCounts =
     map (\<lambda>category.
       let counts = lookup [] category subcategoryCounts
       in \<lparr>cf_category = category, cf_label = Labelize category, cf_count = lookup 0 category categoryCounts,
           cf_subs = map (\<lambda>name. \<lparr>sf_name = name, sf_label = Labelize name, sf_count = lookup 0 name counts\<rparr>)
                       (sortedByCountThenName order counts True)\<rparr>)
       (sortedByCountThenName order categoryCounts True)"

definition matchesSelection :: "string \<Rightarrow> string \<Rightarrow> string \<Rightarrow> string \<Rightarrow> bool" where
  "matchesSelection category subcategory selectedCategory selectedSubcategory =
     ((selectedCategory = [] \<or> category = selectedCategory) \<and> (selectedSubcategory = [] \<or> subcategory = selectedSubcategory))"

definition row_category :: "facet_row \<Rightarrow> string" where
  "row_category r = cleanLabel (optionalString (fa_category r)) ''Other''"

definition row_subcategory :: "facet_row \<Rightarrow> string" where
  "row_subcategory r = cleanLabel (optionalString (fa_subcategory r)) ''Other''"

subsection \<open>The category tree\<close>

record category_sums =
  ks_total :: int
  ks_preview :: int
  ks_categories :: "(string \<times> int) list"
  ks_subs :: "(string \<times> (string \<times> int) list) list"

definition add_category_row :: "string list \<Rightarrow> string \<Rightarrow> string \<Rightarrow> category_sums \<Rightarrow> facet_row \<Rightarrow> category_sums" where
  "add_category_row platforms selCategory selSubcategory s r =
     (let category = row_category r; subcategory = row_subcategory r; n = fa_count r
      in if n \<le> 0 \<or> platforms \<noteq> [] \<and> RecordPlatform (fa_platform r) \<notin> set platforms then s
         else \<lparr>ks_total = ks_total s + n,
               ks_preview = (if matchesSelection category subcategory selCategory selSubcategory then ks_preview s + n else ks_preview s),
               ks_categories = bump category n (ks_categories s),
               ks_subs = upd category (bump subcategory n) [] (ks_subs s)\<rparr>)"

record category_response =
  cr_user :: string
  cr_total :: int
  cr_top :: "(string \<times> string \<times> int) option"
  cr_categories :: "category_filter list"
  cr_preview :: "int option"
  cr_count :: nat

definition BuildCategoryFilters ::
  "(string list \<Rightarrow> string list) \<Rightarrow> string \<Rightarrow> facet_row list \<Rightarrow> string list \<Rightarrow> string \<Rightarrow> string \<Rightarrow> category_response" where
  "BuildCategoryFilters order user rows platforms selCategory selSubcategory =
     (let s = foldl (add_category_row platforms selCategory selSubcategory)
                \<lparr>ks_total = 0, ks_preview = 0, ks_categories = [], ks_subs = []\<rparr> rows;
          categories = buildCategoryFilters order (ks_categories s) (ks_subs s)
      in \<lparr>cr_user = user, cr_total = ks_total s,
          cr_top = (case categories of [] \<Rightarrow> None | c # _ \<Rightarrow> Some (cf_category c, cf_label c, cf_count c)),
          cr_categories = categories,
          cr_preview = (if selCategory \<noteq> [] \<or> selSubcategory \<noteq> [] then Some (ks_preview s) else None),
          cr_count = length categories\<rparr>)"

subsection \<open>The platform tree\<close>

record platform_sums =
  ps_total :: int
  ps_preview :: int
  ps_platforms :: "(string \<times> int) list"
  ps_pcats :: "(string \<times> (string \<times> int) list) list"
  ps_psubs :: "(string \<times> (string \<times> (string \<times> int) list) list) list"
  ps_cats :: "(string \<times> int) list"
  ps_subs :: "(string \<times> (string \<times> int) list) list"

definition no_sums :: platform_sums where
  "no_sums = \<lparr>ps_total = 0, ps_preview = 0, ps_platforms = [], ps_pcats = [], ps_psubs = [], ps_cats = [], ps_subs = []\<rparr>"

definition add_platform_row :: "string list \<Rightarrow> string \<Rightarrow> string \<Rightarrow> platform_sums \<Rightarrow> facet_row \<Rightarrow> platform_sums" where
  "add_platform_row selPlatforms selCategory selSubcategory s r =
     (let platform = RecordPlatform (fa_platform r); category = row_category r; subcategory = row_subcategory r; n = fa_count r
      in if n \<le> 0 then s
         else \<lparr>ps_total = ps_total s + n,
               ps_preview = (if (selPlatforms = [] \<or> platform \<in> set selPlatforms)
                                \<and> matchesSelection category subcategory selCategory selSubcategory
                             then ps_preview s + n else ps_preview s),
               ps_platforms = bump platform n (ps_platforms s),
               ps_pcats = upd platform (bump category n) [] (ps_pcats s),
               ps_psubs = upd platform (upd category (bump subcategory n) []) [] (ps_psubs s),
               ps_cats = bump category n (ps_cats s),
               ps_subs = upd category (bump subcategory n) [] (ps_subs s)\<rparr>)"

record platform_response =
  pr_total :: int
  pr_top :: "string option"
  pr_preview :: int
  pr_platforms :: "platform_filter list"
  pr_categories :: "category_filter list"

definition BuildPlatformFilters ::
  "(string list \<Rightarrow> string list) \<Rightarrow> facet_row list \<Rightarrow> string list \<Rightarrow> string \<Rightarrow> string \<Rightarrow> platform_response" where
  "BuildPlatformFilters order rows selPlatforms selCategory selSubcategory =
     (let s = foldl (add_platform_row selPlatforms selCategory selSubcategory) no_sums rows;
          platforms = map (\<lambda>p.
            let categories = buildCategoryFilters order (lookup [] p (ps_pcats s)) (lookup [] p (ps_psubs s))
            in \<lparr>pf_platform = p, pf_label = PlatformLabel p, pf_count = lookup 0 p (ps_platforms s),
                pf_top = (case categories of [] \<Rightarrow> None | c # _ \<Rightarrow> Some (cf_category c)), pf_categories = categories\<rparr>)
            (sortedByCountThenName order (ps_platforms s) False)
      in \<lparr>pr_total = ps_total s, pr_top = (case platforms of [] \<Rightarrow> None | p # _ \<Rightarrow> Some (pf_platform p)),
          pr_preview = ps_preview s, pr_platforms = platforms,
          pr_categories = buildCategoryFilters order (ps_cats s) (ps_subs s)\<rparr>)"

subsection \<open>The rows in SQL\<close>

definition facet_key :: "saved_reel \<Rightarrow> string option \<times> string option \<times> string option" where
  "facet_key r = (Some (c_platform (sv_content r)), sv_category r, sv_subcategory r)"

definition own_rows :: "string \<Rightarrow> world \<Rightarrow> saved_reel list" where
  "own_rows user w = filter (\<lambda>r. s_user (sv_save r) = user) (savedReels w)"

definition Facets :: "string \<Rightarrow> world \<Rightarrow> facet_row list" where
  "Facets user w =
     (let keys = map facet_key (own_rows user w)
      in map (\<lambda>(p, c, s). \<lparr>fa_platform = p, fa_category = c, fa_subcategory = s, fa_count = int (count_list keys (p, c, s))\<rparr>)
           (remdups keys))"

subsection \<open>What the sums are\<close>

definition weight :: "(facet_row \<Rightarrow> bool) \<Rightarrow> facet_row list \<Rightarrow> int" where
  "weight P rows = sum_list (map fa_count (filter (\<lambda>r. 0 < fa_count r \<and> P r) rows))"

lemma weight_Nil [simp]: "weight P [] = 0"
  by (simp add: weight_def)

lemma weight_snoc [simp]: "weight P (rows @ [r]) = weight P rows + (if 0 < fa_count r \<and> P r then fa_count r else 0)"
  by (simp add: weight_def)

abbreviation in_platform :: "string \<Rightarrow> facet_row \<Rightarrow> bool" where
  "in_platform p r \<equiv> RecordPlatform (fa_platform r) = p"

text \<open>The counts of one level of a tree, and that they add up to the level above.\<close>

definition level_ok :: "(string \<times> int) list \<Rightarrow> int \<Rightarrow> (string \<Rightarrow> int) \<Rightarrow> bool" where
  "level_ok m whole f = (distinct (map fst m) \<and> sum_list (map snd m) = whole \<and> (\<forall>k. lookup 0 k m = f k))"

lemma level_bump:
  assumes "level_ok m whole f"
  shows "level_ok (bump k n m) (whole + n) (\<lambda>j. f j + (if j = k then n else 0))"
  using assms distinct_upd [of m k] sum_bump [of k n m] unfolding level_ok_def by simp

lemma level_cong: "level_ok m t f \<Longrightarrow> t = t' \<Longrightarrow> f = f' \<Longrightarrow> level_ok m t' f'"
  by simp

lemma level_Nil: "level_ok [] 0 (\<lambda>k. 0)"
  by (simp add: level_ok_def)

definition sums_ok :: "(facet_row \<Rightarrow> bool) \<Rightarrow> platform_sums \<Rightarrow> facet_row list \<Rightarrow> bool" where
  "sums_ok sel s rows =
     (ps_total s = weight (\<lambda>r. True) rows \<and> ps_preview s = weight sel rows
      \<and> level_ok (ps_platforms s) (weight (\<lambda>r. True) rows) (\<lambda>p. weight (in_platform p) rows)
      \<and> (\<forall>p. level_ok (lookup [] p (ps_pcats s)) (weight (in_platform p) rows) (\<lambda>c. weight (\<lambda>r. in_platform p r \<and> row_category r = c) rows))
      \<and> (\<forall>p c. level_ok (lookup [] c (lookup [] p (ps_psubs s))) (weight (\<lambda>r. in_platform p r \<and> row_category r = c) rows)
            (\<lambda>x. weight (\<lambda>r. in_platform p r \<and> row_category r = c \<and> row_subcategory r = x) rows))
      \<and> level_ok (ps_cats s) (weight (\<lambda>r. True) rows) (\<lambda>c. weight (\<lambda>r. row_category r = c) rows)
      \<and> (\<forall>c. level_ok (lookup [] c (ps_subs s)) (weight (\<lambda>r. row_category r = c) rows)
            (\<lambda>x. weight (\<lambda>r. row_category r = c \<and> row_subcategory r = x) rows)))"

definition preview_rows :: "string list \<Rightarrow> string \<Rightarrow> string \<Rightarrow> facet_row \<Rightarrow> bool" where
  "preview_rows selPlatforms selCategory selSubcategory r =
     ((selPlatforms = [] \<or> RecordPlatform (fa_platform r) \<in> set selPlatforms)
      \<and> matchesSelection (row_category r) (row_subcategory r) selCategory selSubcategory)"

lemma add_row_ok:
  assumes "sums_ok (preview_rows P C S) s rows"
  shows "sums_ok (preview_rows P C S) (add_platform_row P C S s r) (rows @ [r])"
proof (cases "0 < fa_count r")
  case False
  then show ?thesis using assms by (simp add: add_platform_row_def Let_def sums_ok_def)
next
  case True
  let ?p = "RecordPlatform (fa_platform r)" and ?c = "row_category r" and ?x = "row_subcategory r" and ?n = "fa_count r"
  have e: "add_platform_row P C S s r =
     \<lparr>ps_total = ps_total s + ?n, ps_preview = (if preview_rows P C S r then ps_preview s + ?n else ps_preview s),
      ps_platforms = bump ?p ?n (ps_platforms s), ps_pcats = upd ?p (bump ?c ?n) [] (ps_pcats s),
      ps_psubs = upd ?p (upd ?c (bump ?x ?n) []) [] (ps_psubs s), ps_cats = bump ?c ?n (ps_cats s),
      ps_subs = upd ?c (bump ?x ?n) [] (ps_subs s)\<rparr>"
    using True by (simp add: add_platform_row_def Let_def preview_rows_def)
  note a = assms [unfolded sums_ok_def]
  have l1: "level_ok (ps_platforms s) (weight (\<lambda>r. True) rows) (\<lambda>p. weight (in_platform p) rows)" using a by blast
  have l2: "level_ok (lookup [] p (ps_pcats s)) (weight (in_platform p) rows) (\<lambda>c. weight (\<lambda>r. in_platform p r \<and> row_category r = c) rows)" for p
    using a by blast
  have l3: "level_ok (lookup [] c (lookup [] p (ps_psubs s))) (weight (\<lambda>r. in_platform p r \<and> row_category r = c) rows)
            (\<lambda>x. weight (\<lambda>r. in_platform p r \<and> row_category r = c \<and> row_subcategory r = x) rows)" for p c using a by blast
  have l4: "level_ok (ps_cats s) (weight (\<lambda>r. True) rows) (\<lambda>c. weight (\<lambda>r. row_category r = c) rows)" using a by blast
  have l5: "level_ok (lookup [] c (ps_subs s)) (weight (\<lambda>r. row_category r = c) rows)
            (\<lambda>x. weight (\<lambda>r. row_category r = c \<and> row_subcategory r = x) rows)" for c using a by blast
  show ?thesis
    unfolding sums_ok_def e
  proof (intro conjI allI, goal_cases)
    case 3
    show ?case using True by (simp, intro level_cong [OF level_bump [OF l1]]) (auto simp: fun_eq_iff)
  next
    case (4 p)
    show ?case using True level_bump [OF l2 [of p], of ?c ?n] l2 [of p]
      by (cases "p = ?p") (auto elim!: level_cong simp: fun_eq_iff)
  next
    case (5 p c)
    show ?case using True level_bump [OF l3 [of c p], of ?x ?n] l3 [of c p]
      by (cases "p = ?p"; cases "c = ?c") (auto elim!: level_cong simp: fun_eq_iff)
  next
    case 6
    show ?case using True by (simp, intro level_cong [OF level_bump [OF l4]]) (auto simp: fun_eq_iff)
  next
    case (7 c)
    show ?case using True level_bump [OF l5 [of c], of ?x ?n] l5 [of c]
      by (cases "c = ?c") (auto elim!: level_cong simp: fun_eq_iff)
  qed (use True a in simp_all)
qed

lemma foldl_sums_ok: "sums_ok (preview_rows P C S) (foldl (add_platform_row P C S) no_sums rows) rows"
proof (induction rows rule: rev_induct)
  case Nil
  show ?case by (simp add: sums_ok_def no_sums_def level_Nil)
next
  case (snoc r rows)
  then show ?case by (simp add: add_row_ok)
qed

subsection \<open>The trees\<close>

definition rearranges :: "(string list \<Rightarrow> string list) \<Rightarrow> bool" where
  "rearranges order \<longleftrightarrow> (\<forall>xs. mset (order xs) = mset xs)"

lemma sorted_names:
  assumes "rearranges order" and "distinct (map fst m)"
  shows "mset (sortedByCountThenName order m lc) = mset (map fst m)"
    and "distinct (sortedByCountThenName order m lc)"
    and "sorted_wrt (\<lambda>a b. lookup 0 b m \<le> lookup 0 a m) (sortedByCountThenName order m lc)"
    and "sum_list (map (\<lambda>k. lookup 0 k m) (sortedByCountThenName order m lc)) = sum_list (map snd m)"
proof -
  let ?s = "sortedByCountThenName order m lc" and ?key = "\<lambda>n. (- lookup 0 n m, if lc then to_lower n else n)"
  show ms: "mset ?s = mset (map fst m)" using assms(1) by (simp add: sortedByCountThenName_def rearranges_def)
  then show "distinct ?s" using assms(2) mset_eq_imp_distinct_iff by blast
  have "sorted (map ?key ?s)" by (simp add: sortedByCountThenName_def)
  then have "sorted_wrt (\<lambda>a b. ?key a \<le> ?key b) ?s" by (simp add: sorted_wrt_map)
  then show "sorted_wrt (\<lambda>a b. lookup 0 b m \<le> lookup 0 a m) ?s"
    by (rule sorted_wrt_mono_rel [rotated]) auto
  have "sum_list (map (\<lambda>k. lookup 0 k m) ?s) = sum_list (map (\<lambda>k. lookup 0 k m) (map fst m))"
    using ms by (metis mset_map sum_mset_sum_list)
  then show "sum_list (map (\<lambda>k. lookup 0 k m) ?s) = sum_list (map snd m)" using sum_lookup [OF assms(2)] by simp
qed

definition categories_ok :: "int \<Rightarrow> (string \<Rightarrow> int) \<Rightarrow> (string \<Rightarrow> string \<Rightarrow> int) \<Rightarrow> category_filter list \<Rightarrow> bool" where
  "categories_ok whole ncat nsub cs =
     (distinct (map cf_category cs) \<and> sum_list (map cf_count cs) = whole
      \<and> sorted_wrt (\<lambda>a b. cf_count b \<le> cf_count a) cs
      \<and> (\<forall>c \<in> set cs. cf_count c = ncat (cf_category c) \<and> distinct (map sf_name (cf_subs c))
           \<and> sum_list (map sf_count (cf_subs c)) = cf_count c
           \<and> (\<forall>x \<in> set (cf_subs c). sf_count x = nsub (cf_category c) (sf_name x))))"

lemma buildCategoryFilters_ok:
  assumes "rearranges order" and "level_ok cats whole ncat" and "\<And>c. level_ok (lookup [] c subs) (ncat c) (nsub c)"
  shows "categories_ok whole ncat nsub (buildCategoryFilters order cats subs)"
proof -
  have d: "distinct (map fst cats)" "sum_list (map snd cats) = whole" "\<And>k. lookup 0 k cats = ncat k"
    using assms(2) by (simp_all add: level_ok_def)
  have e: "distinct (map fst (lookup [] c subs))" "sum_list (map snd (lookup [] c subs)) = ncat c" "lookup 0 x (lookup [] c subs) = nsub c x" for c x
    using assms(3) [of c] by (simp_all add: level_ok_def)
  note n = sorted_names [OF assms(1) d(1), where lc = True] and m = sorted_names [OF assms(1) e(1), where lc = True]
  show ?thesis
    using n m by (simp add: categories_ok_def buildCategoryFilters_def Let_def comp_def sorted_wrt_map d(2, 3) e(2, 3))
qed

subsection \<open>The counts are those of the library\<close>

definition shown_platform :: "saved_reel \<Rightarrow> string" where
  "shown_platform r = RecordPlatform (Some (c_platform (sv_content r)))"

definition shown_category :: "saved_reel \<Rightarrow> string" where
  "shown_category r = cleanLabel (optionalString (sv_category r)) ''Other''"

definition shown_subcategory :: "saved_reel \<Rightarrow> string" where
  "shown_subcategory r = cleanLabel (optionalString (sv_subcategory r)) ''Other''"

definition key_row :: "string option \<times> string option \<times> string option \<Rightarrow> int \<Rightarrow> facet_row" where
  "key_row k n = (case k of (p, c, s) \<Rightarrow> \<lparr>fa_platform = p, fa_category = c, fa_subcategory = s, fa_count = n\<rparr>)"

lemma grouped_weight:
  assumes "\<And>k n. P (key_row k n) \<longleftrightarrow> Q k"
  shows "weight P (map (\<lambda>k. key_row k (int (count_list keys k))) (remdups keys)) = int (length (filter Q keys))"
proof -
  have count: "fa_count (key_row k n) = n" for k n by (cases k) (simp add: key_row_def)
  have "filter (\<lambda>r. 0 < fa_count r \<and> P r) (map (\<lambda>k. key_row k (int (count_list keys k))) (remdups keys))
      = map (\<lambda>k. key_row k (int (count_list keys k))) (filter Q (remdups keys))"
    by (auto simp: filter_map comp_def count assms count_list_0_iff intro!: arg_cong [where f = "map _"] filter_cong
        dest: count_notin) (metis count_list_0_iff gr0I)
  then have "weight P (map (\<lambda>k. key_row k (int (count_list keys k))) (remdups keys))
      = sum_list (map (\<lambda>k. int (count_list keys k)) (filter Q (remdups keys)))"
    by (simp add: weight_def comp_def count)
  also have "\<dots> = (\<Sum>k \<in> set (filter Q keys). int (count_list keys k))"
    by (simp add: sum_list_distinct_conv_sum_set remdups_filter [symmetric])
  also have "\<dots> = (\<Sum>k \<in> set (filter Q keys). int (count_list (filter Q keys) k))"
  proof (rule sum.cong [OF refl])
    fix k
    assume "k \<in> set (filter Q keys)"
    then have "Q k" by simp
    then show "int (count_list keys k) = int (count_list (filter Q keys) k)" by (induction keys) auto
  qed
  also have "\<dots> = int (length (filter Q keys))"
    using sum_count_set [of "filter Q keys" "set (filter Q keys)"] by (simp flip: of_nat_sum)
  finally show ?thesis .
qed

lemma Facets_weight:
  assumes "\<And>k n. P (key_row k n) \<longleftrightarrow> Q k"
  shows "weight P (Facets user w) = int (length (filter (\<lambda>r. Q (facet_key r)) (own_rows user w)))"
proof -
  have "Facets user w = (let keys = map facet_key (own_rows user w) in map (\<lambda>k. key_row k (int (count_list keys k))) (remdups keys))"
    by (auto simp: Facets_def key_row_def Let_def split: prod.splits)
  then show ?thesis using grouped_weight [of P Q "map facet_key (own_rows user w)"] assms
    by (simp add: Let_def filter_map comp_def)
qed

lemma category_sums_platform:
  "foldl (add_category_row P C S) \<lparr>ks_total = 0, ks_preview = 0, ks_categories = [], ks_subs = []\<rparr> rows
   = (let t = foldl (add_platform_row [] C S) no_sums (filter (\<lambda>r. P = [] \<or> RecordPlatform (fa_platform r) \<in> set P) rows)
      in \<lparr>ks_total = ps_total t, ks_preview = ps_preview t, ks_categories = ps_cats t, ks_subs = ps_subs t\<rparr>)"
proof (induction rows rule: rev_induct)
  case Nil
  show ?case by (simp add: no_sums_def)
next
  case (snoc r rows)
  then show ?case by (auto simp: Let_def add_category_row_def [of P C S _ r] add_platform_row_def [of "[]" C S _ r])
qed

text \<open>How many of the user's saved reels satisfy a condition.\<close>

definition number :: "string \<Rightarrow> world \<Rightarrow> (saved_reel \<Rightarrow> bool) \<Rightarrow> int" where
  "number user w P = int (length (filter P (own_rows user w)))"

lemma library_weights:
  fixes user w
  defines "rows \<equiv> Facets user w"
  shows "weight (\<lambda>r. True) rows = number user w (\<lambda>r. True)"
    and "\<And>p. weight (in_platform p) rows = number user w (\<lambda>r. shown_platform r = p)"
    and "\<And>p c. weight (\<lambda>r. in_platform p r \<and> row_category r = c) rows = number user w (\<lambda>r. shown_platform r = p \<and> shown_category r = c)"
    and "\<And>p c x. weight (\<lambda>r. in_platform p r \<and> row_category r = c \<and> row_subcategory r = x) rows
      = number user w (\<lambda>r. shown_platform r = p \<and> shown_category r = c \<and> shown_subcategory r = x)"
    and "\<And>c. weight (\<lambda>r. row_category r = c) rows = number user w (\<lambda>r. shown_category r = c)"
    and "\<And>c x. weight (\<lambda>r. row_category r = c \<and> row_subcategory r = x) rows = number user w (\<lambda>r. shown_category r = c \<and> shown_subcategory r = x)"
    and "weight (preview_rows platforms category subcategory) rows
      = number user w (\<lambda>r. (platforms = [] \<or> shown_platform r \<in> set platforms)
           \<and> matchesSelection (shown_category r) (shown_subcategory r) category subcategory)"
proof -
  note shown = shown_platform_def shown_category_def shown_subcategory_def row_category_def row_subcategory_def key_row_def facet_key_def
  define platform where "platform k = RecordPlatform (fst k)" for k :: "string option \<times> string option \<times> string option"
  define cat where "cat k = cleanLabel (optionalString (fst (snd k))) ''Other''" for k :: "string option \<times> string option \<times> string option"
  define sub where "sub k = cleanLabel (optionalString (snd (snd k))) ''Other''" for k :: "string option \<times> string option \<times> string option"
  note keys = platform_def cat_def sub_def
  have row: "RecordPlatform (fa_platform (key_row k n)) = platform k" "row_category (key_row k n) = cat k"
    "row_subcategory (key_row k n) = sub k" for k n
    by (cases k; simp add: keys key_row_def row_category_def row_subcategory_def)+
  have reel: "platform (facet_key r) = shown_platform r" "cat (facet_key r) = shown_category r" "sub (facet_key r) = shown_subcategory r" for r
    by (simp_all add: keys shown)
  show "weight (\<lambda>r. True) rows = number user w (\<lambda>r. True)"
    using Facets_weight [of "\<lambda>r. True" "\<lambda>k. True"] by (simp add: number_def rows_def)
  show "weight (in_platform p) rows = number user w (\<lambda>r. shown_platform r = p)" for p
    using Facets_weight [of "in_platform p" "\<lambda>k. platform k = p"] by (simp add: row reel number_def rows_def)
  show "weight (\<lambda>r. in_platform p r \<and> row_category r = c) rows = number user w (\<lambda>r. shown_platform r = p \<and> shown_category r = c)" for p c
    using Facets_weight [of "\<lambda>r. in_platform p r \<and> row_category r = c" "\<lambda>k. platform k = p \<and> cat k = c"] by (simp add: row reel number_def rows_def)
  show "weight (\<lambda>r. in_platform p r \<and> row_category r = c \<and> row_subcategory r = x) rows
      = number user w (\<lambda>r. shown_platform r = p \<and> shown_category r = c \<and> shown_subcategory r = x)" for p c x
    using Facets_weight [of "\<lambda>r. in_platform p r \<and> row_category r = c \<and> row_subcategory r = x" "\<lambda>k. platform k = p \<and> cat k = c \<and> sub k = x"]
    by (simp add: row reel number_def rows_def)
  show "weight (\<lambda>r. row_category r = c) rows = number user w (\<lambda>r. shown_category r = c)" for c
    using Facets_weight [of "\<lambda>r. row_category r = c" "\<lambda>k. cat k = c"] by (simp add: row reel number_def rows_def)
  show "weight (\<lambda>r. row_category r = c \<and> row_subcategory r = x) rows = number user w (\<lambda>r. shown_category r = c \<and> shown_subcategory r = x)" for c x
    using Facets_weight [of "\<lambda>r. row_category r = c \<and> row_subcategory r = x" "\<lambda>k. cat k = c \<and> sub k = x"] by (simp add: row reel number_def rows_def)
  show "weight (preview_rows platforms category subcategory) rows
      = number user w (\<lambda>r. (platforms = [] \<or> shown_platform r \<in> set platforms)
           \<and> matchesSelection (shown_category r) (shown_subcategory r) category subcategory)"
    using Facets_weight [of "preview_rows platforms category subcategory"
      "\<lambda>k. (platforms = [] \<or> platform k \<in> set platforms) \<and> matchesSelection (cat k) (sub k) category subcategory"]
    by (simp add: row reel number_def rows_def preview_rows_def)
qed

text \<open>C39: the tree of filters adds up, and every count in it is the number of saved reels behind it: the total is the size of
  the library, each platform counts the reels shown under it, each category of it those of that platform and category, and
  so down to the subcategories; no node appears twice, the busiest come first, and the preview counts what the selection
  keeps.\<close>

theorem filter_tree_counts_the_library:
  assumes "rearranges order" and "t = BuildPlatformFilters order (Facets user w) platforms category subcategory"
  shows "pr_total t = number user w (\<lambda>r. True)
    \<and> distinct (map pf_platform (pr_platforms t)) \<and> sum_list (map pf_count (pr_platforms t)) = pr_total t
    \<and> sorted_wrt (\<lambda>a b. pf_count b \<le> pf_count a) (pr_platforms t)
    \<and> (\<forall>p \<in> set (pr_platforms t). pf_count p = number user w (\<lambda>r. shown_platform r = pf_platform p)
         \<and> categories_ok (pf_count p) (\<lambda>c. number user w (\<lambda>r. shown_platform r = pf_platform p \<and> shown_category r = c))
             (\<lambda>c x. number user w (\<lambda>r. shown_platform r = pf_platform p \<and> shown_category r = c \<and> shown_subcategory r = x)) (pf_categories p))
    \<and> categories_ok (pr_total t) (\<lambda>c. number user w (\<lambda>r. shown_category r = c))
         (\<lambda>c x. number user w (\<lambda>r. shown_category r = c \<and> shown_subcategory r = x)) (pr_categories t)
    \<and> pr_preview t = number user w (\<lambda>r. (platforms = [] \<or> shown_platform r \<in> set platforms)
         \<and> matchesSelection (shown_category r) (shown_subcategory r) category subcategory)"
proof -
  let ?rows = "Facets user w"
  define s where "s = foldl (add_platform_row platforms category subcategory) no_sums ?rows"
  note ok = foldl_sums_ok [of platforms category subcategory ?rows, folded s_def, unfolded sums_ok_def]
  note ok = ok [unfolded library_weights]
  have t: "pr_total t = ps_total s" "pr_preview t = ps_preview s" "pr_categories t = buildCategoryFilters order (ps_cats s) (ps_subs s)"
    "pr_platforms t = map (\<lambda>p. let categories = buildCategoryFilters order (lookup [] p (ps_pcats s)) (lookup [] p (ps_psubs s))
            in \<lparr>pf_platform = p, pf_label = PlatformLabel p, pf_count = lookup 0 p (ps_platforms s),
                pf_top = (case categories of [] \<Rightarrow> None | c # _ \<Rightarrow> Some (cf_category c)), pf_categories = categories\<rparr>)
            (sortedByCountThenName order (ps_platforms s) False)"
    unfolding assms(2) by (simp_all add: BuildPlatformFilters_def Let_def s_def)
  have r1: "pr_total t = number user w (\<lambda>r. True)" using ok t by simp
  have r2: "pr_preview t = number user w (\<lambda>r. (platforms = [] \<or> shown_platform r \<in> set platforms)
       \<and> matchesSelection (shown_category r) (shown_subcategory r) category subcategory)" using ok t by simp
  have r3: "categories_ok (pr_total t) (\<lambda>c. number user w (\<lambda>r. shown_category r = c))
       (\<lambda>c x. number user w (\<lambda>r. shown_category r = c \<and> shown_subcategory r = x)) (pr_categories t)"
    unfolding t using ok by (intro buildCategoryFilters_ok [OF assms(1)]) auto
  have lp: "level_ok (ps_platforms s) (ps_total s) (\<lambda>p. number user w (\<lambda>r. shown_platform r = p))" using ok by simp
  then have d: "distinct (map fst (ps_platforms s))" by (simp add: level_ok_def)
  have r4: "distinct (map pf_platform (pr_platforms t)) \<and> sum_list (map pf_count (pr_platforms t)) = pr_total t
       \<and> sorted_wrt (\<lambda>a b. pf_count b \<le> pf_count a) (pr_platforms t)"
    unfolding t using sorted_names [OF assms(1) d, where lc = False] lp
    by (simp add: Let_def comp_def sorted_wrt_map level_ok_def)
  have "categories_ok (lookup 0 p (ps_platforms s)) (\<lambda>c. number user w (\<lambda>r. shown_platform r = p \<and> shown_category r = c))
           (\<lambda>c x. number user w (\<lambda>r. shown_platform r = p \<and> shown_category r = c \<and> shown_subcategory r = x))
           (buildCategoryFilters order (lookup [] p (ps_pcats s)) (lookup [] p (ps_psubs s)))" for p
    using ok lp by (intro buildCategoryFilters_ok [OF assms(1)]) (auto simp: level_ok_def)
  then have r5: "\<forall>p \<in> set (pr_platforms t). pf_count p = number user w (\<lambda>r. shown_platform r = pf_platform p)
       \<and> categories_ok (pf_count p) (\<lambda>c. number user w (\<lambda>r. shown_platform r = pf_platform p \<and> shown_category r = c))
           (\<lambda>c x. number user w (\<lambda>r. shown_platform r = pf_platform p \<and> shown_category r = c \<and> shown_subcategory r = x)) (pf_categories p)"
    unfolding t using lp by (auto simp: Let_def level_ok_def)
  show ?thesis using r1 r2 r3 r4 r5 by blast
qed

theorem filter_tree_counts_the_library_witness:
  "pr_total (BuildPlatformFilters rev (Facets ''ann'' two_saves) [''youtube''] [] [])
     = number ''ann'' two_saves (\<lambda>r. True)"
proof -
  have "rearranges rev" by (simp add: rearranges_def)
  from filter_tree_counts_the_library [OF this refl] show ?thesis by blast
qed

subsection \<open>The preview and the list\<close>

text \<open>The stored labels need no cleaning.\<close>

definition clean_rows :: "string \<Rightarrow> world \<Rightarrow> bool" where
  "clean_rows user w = list_all (\<lambda>r.
     sql_trim (c_platform (sv_content r)) = trim_space (c_platform (sv_content r))
     \<and> (case sv_category r of None \<Rightarrow> True | Some c \<Rightarrow> trim_space c = c)
     \<and> (case sv_subcategory r of None \<Rightarrow> True | Some c \<Rightarrow> trim_space c = c)) (own_rows user w)"

lemma nonempty_labels: "sv_category r \<noteq> Some []" "sv_subcategory r \<noteq> Some []"
  by (simp_all add: sv_category_def sv_subcategory_def nullif_def split: option.splits)

lemma label_match:
  assumes "x \<noteq> Some []" and "case x of None \<Rightarrow> True | Some c \<Rightarrow> trim_space c = c" and "chosen \<noteq> ''Other''"
  shows "(chosen = [] \<or> x = Some chosen) \<longleftrightarrow> (chosen = [] \<or> cleanLabel (optionalString x) ''Other'' = chosen)"
proof -
  have "trim_space [] = []" by (simp add: trim_space_def trim_right_by_def)
  then show ?thesis using assms by (cases x) (auto simp: cleanLabel_def Let_def Jobs.optionalString_def)
qed

text \<open>the number a client is shown for a selection before it applies it is the number of reels that the list returns for
  the same selection, as long as neither label chosen is the "Other" that stands for a missing one.\<close>

theorem preview_counts_what_the_list_shows:
  assumes "ParsePlatformFilter value = Inr platforms" and "rearranges order" and "clean_rows user w"
    and "category \<noteq> ''Other''" and "subcategory \<noteq> ''Other''" and "length (savedReels w) \<le> limit"
  shows "\<exists>found. List_reels src user \<lparr>lo_platforms = platforms, lo_category = category, lo_subcategory = subcategory, lo_date = [],
            lo_after = None, lo_limit = limit\<rparr> w = Inr found
    \<and> pr_preview (BuildPlatformFilters order (Facets user w) platforms category subcategory) = int (length found)"
proof -
  let ?o = "\<lparr>lo_platforms = platforms, lo_category = category, lo_subcategory = subcategory, lo_date = [],
            lo_after = None, lo_limit = limit\<rparr>"
  let ?sel = "\<lambda>r. (platforms = [] \<or> shown_platform r \<in> set platforms)
       \<and> matchesSelection (shown_category r) (shown_subcategory r) category subcategory"
  have "selects user ?o None r \<longleftrightarrow> s_user (sv_save r) = user \<and> ?sel r" if "r \<in> set (savedReels w)" for r
  proof (cases "s_user (sv_save r) = user")
    case True
    then have clean: "sql_trim (c_platform (sv_content r)) = trim_space (c_platform (sv_content r))"
        "case sv_category r of None \<Rightarrow> True | Some c \<Rightarrow> trim_space c = c" "case sv_subcategory r of None \<Rightarrow> True | Some c \<Rightarrow> trim_space c = c"
      using assms(3) that by (auto simp: clean_rows_def own_rows_def list_all_iff)
    have p: "platformCondition platforms (Some (c_platform (sv_content r))) \<longleftrightarrow> platforms = [] \<or> shown_platform r \<in> set platforms"
      unfolding shown_platform_def
      using condition_bucket [OF conjunct2 [OF ParsePlatformFilter_canonical [OF assms(1)]] refl, of "c_platform (sv_content r)"] clean(1)
      by (simp add: RecordPlatform_def CanonicalPlatform_bucket)
    show ?thesis
      using label_match [OF nonempty_labels(1) clean(2) assms(4)] label_match [OF nonempty_labels(2) clean(3) assms(5)] p True
      by (simp add: selects_def matchesSelection_def shown_category_def shown_subcategory_def)
  qed (simp add: selects_def)
  then have rows: "filter (selects user ?o None) (savedReels w) = filter ?sel (own_rows user w)"
    unfolding own_rows_def filter_filter by (intro filter_cong) auto
  have "length (filter ?sel (own_rows user w)) \<le> limit"
    using assms(6) unfolding own_rows_def by (meson le_trans length_filter_le)
  moreover have "pr_preview (BuildPlatformFilters order (Facets user w) platforms category subcategory)
      = int (length (filter ?sel (own_rows user w)))"
    using foldl_sums_ok [of platforms category subcategory "Facets user w"] library_weights(7) [of platforms category subcategory user w]
    by (simp add: BuildPlatformFilters_def Let_def sums_ok_def number_def)
  ultimately show ?thesis by (simp add: List_reels_def list_date_def rows)
qed

lemma two_rows: "savedReels two_saves =
   [\<lparr>sv_save = \<lparr>s_id = ''s1'', s_user = ''ann'', s_content = ''a'', s_saved = 10\<rparr>, sv_content = sample_content ''a'', sv_version = None\<rparr>,
    \<lparr>sv_save = \<lparr>s_id = ''s2'', s_user = ''ann'', s_content = ''b'', s_saved = 20\<rparr>, sv_content = sample_content ''b'', sv_version = None\<rparr>]"
  by (simp add: savedReels_def two_saves_def empty_world_def content_of_def current_version_def sample_content_def map_filter_simps)

theorem preview_counts_what_the_list_shows_witness:
  "\<exists>found. List_reels (\<lambda>_. None) ''ann'' \<lparr>lo_platforms = [''youtube'', ''x''], lo_category = [], lo_subcategory = [], lo_date = [],
            lo_after = None, lo_limit = 9\<rparr> two_saves = Inr found
    \<and> pr_preview (BuildPlatformFilters rev (Facets ''ann'' two_saves) [''youtube'', ''x''] [] []) = int (length found)"
proof (rule preview_counts_what_the_list_shows [OF sample_filter])
  have "trim_space ''youtube'' = ''youtube''" "sql_trim ''youtube'' = ''youtube''"
    by (simp_all add: trim_space_def sql_trim_def trim_right_by_def is_space_def char_code_def)
  then show "clean_rows ''ann'' two_saves"
    by (simp add: clean_rows_def own_rows_def two_rows sample_content_def sv_category_def sv_subcategory_def)
qed (simp_all add: rearranges_def two_rows)

text \<open>The reels without a category are counted under "Other", and a client that picks it is shown none of them.\<close>

lemma other_is_counted_but_not_listed:
  "pr_preview (BuildPlatformFilters rev (Facets ''ann'' two_saves) [] ''Other'' []) = 2
   \<and> List_reels (\<lambda>_. None) ''ann'' \<lparr>lo_platforms = [], lo_category = ''Other'', lo_subcategory = [], lo_date = [],
            lo_after = None, lo_limit = 9\<rparr> two_saves = Inr []"
proof
  have nil: "trim_space [] = []" by (simp add: trim_space_def trim_right_by_def)
  show "pr_preview (BuildPlatformFilters rev (Facets ''ann'' two_saves) [] ''Other'' []) = 2"
    using foldl_sums_ok [of "[]" "''Other''" "[]" "Facets ''ann'' two_saves"] library_weights(7) [of "[]" "''Other''" "[]" "''ann''" two_saves]
    by (simp add: BuildPlatformFilters_def Let_def sums_ok_def number_def own_rows_def two_rows matchesSelection_def
        shown_category_def sv_category_def cleanLabel_def nil Jobs.optionalString_def)
  show "List_reels (\<lambda>_. None) ''ann'' \<lparr>lo_platforms = [], lo_category = ''Other'', lo_subcategory = [], lo_date = [],
            lo_after = None, lo_limit = 9\<rparr> two_saves = Inr []"
    by (simp add: List_reels_def list_date_def two_rows selects_def sv_category_def newest_first_def)
qed

end
