(* ===== verification/Discover.thy ===== *)
theory Discover
  imports Facets
begin

text \<open>
  The Discover tab (\<open>internal/reels/discover.go\<close>, \<open>Service.Discover\<close>) and the totals of a library (\<open>Stats\<close> in
  \<open>internal/postgres/reels.go\<close>).  As in \<open>Facets\<close>, \<open>order\<close> is the order in which a Go map is walked.
\<close>

subsection \<open>The capped scan and the totals\<close>

definition DiscoverScanLimit :: nat where "DiscoverScanLimit = 5000"
definition statsRowLimit :: nat where "statsRowLimit = 5000"

text \<open>\<open>Library\<close>: the newest saves with only the columns the tab counts.\<close>

definition narrow :: "reel_record \<Rightarrow> reel_record" where
  "narrow r =
     \<lparr>re_id = re_id r, re_owner = [], re_url = [], re_normalized = None, re_platform = re_platform r, re_type = None,
      re_source = None, re_processing = None, re_ingestion = None, re_transcript_source = None, re_thumbnail = None,
      re_title = [], re_summary = [], re_transcript = [], re_category = re_category r, re_subcategory = re_subcategory r,
      re_tags = re_tags r, re_facts = None, re_locations = re_locations r, re_people = re_people r, re_actions = None,
      re_events = None, re_status = None, re_created = re_created r\<rparr>"

definition Library_scan :: "string \<Rightarrow> nat \<Rightarrow> world \<Rightarrow> reel_record list" where
  "Library_scan user limit w =
     map (\<lambda>r. narrow (scanReel (\<lambda>_. None) False w r)) (take limit (newest_first position (own_rows user w)))"

record library_stats =
  st_reels :: nat
  st_pinned :: nat
  st_tags :: nat
  st_categories :: nat
  st_subcategories :: nat

definition Stats :: "float_text \<Rightarrow> string \<Rightarrow> world \<Rightarrow> library_stats" where
  "Stats ft user w =
     (let rs = map (scanReel (\<lambda>_. None) False w) (take statsRowLimit (newest_first (\<lambda>r. s_saved (sv_save r)) (own_rows user w)));
          category = (\<lambda>r. trim_space (re_category r)); subcategory = (\<lambda>r. trim_space (re_subcategory r))
      in \<lparr>st_reels = length rs,
          st_pinned = sum_list (map (\<lambda>r. length (BuildMappableLocations ft r)) rs),
          st_tags = length (remdups (filter (\<lambda>t. t \<noteq> []) (map trim_space (concat (map (\<lambda>r. nonNil (re_tags r)) rs))))),
          st_categories = length (remdups (filter (\<lambda>c. c \<noteq> []) (map category rs))),
          st_subcategories = length (remdups (map (\<lambda>r. (category r, subcategory r)) (filter (\<lambda>r. subcategory r \<noteq> []) rs)))\<rparr>)"

subsection \<open>Search prompts\<close>

definition maxQuickSearchPrompts :: nat where "maxQuickSearchPrompts = 5"

definition fallbackQuickSearchPrompts :: "string list" where
  "fallbackQuickSearchPrompts = [''Travel'', ''Food'', ''Fitness'', ''Movies'', ''Coffee'']"

definition promptStopWords :: "string list" where
  "promptStopWords = [''other'', ''misc'', ''miscellaneous'', ''general'', ''uncategorized'', ''none'', ''unknown'']"

definition promptLabel :: "string \<Rightarrow> string" where
  "promptLabel value =
     (let cleaned = trim_space value
      in if cleaned = [] \<or> to_lower cleaned \<in> set promptStopWords then []
         else (let label = Labelize cleaned in if to_lower label \<in> set promptStopWords then [] else label))"

definition promptRaw :: "string \<Rightarrow> string" where
  "promptRaw value =
     (let cleaned = trim_space value in if cleaned = [] \<or> to_lower cleaned \<in> set promptStopWords then [] else cleaned)"

definition tally :: "(reel_record \<Rightarrow> string list) \<Rightarrow> reel_record list \<Rightarrow> (string \<times> int) list" where
  "tally f rs = foldl (\<lambda>m l. if l = [] then m else bump l 1 m) [] (concat (map f rs))"

definition prompt_tallies :: "reel_record list \<Rightarrow> (string \<times> int) list list" where
  "prompt_tallies rs =
     [tally (\<lambda>r. [promptLabel (re_subcategory r)]) rs,
      tally (\<lambda>r. [promptLabel (re_category r)]) rs,
      tally (\<lambda>r. map (\<lambda>l. promptLabel (rl_name l)) (nonNil (re_locations r))) rs,
      tally (\<lambda>r. case re_platform r of None \<Rightarrow> [] | Some p \<Rightarrow> [promptLabel (PlatformLabel (RecordPlatform (Some p)))]) rs,
      tally (\<lambda>r. map promptLabel (nonNil (re_tags r))) rs,
      tally (\<lambda>r. map promptRaw (nonNil (re_people r))) rs]"

text \<open>The names in turn, each spelling once, until there are five.\<close>

fun pick_prompts :: "string list \<Rightarrow> string list \<Rightarrow> string list" where
  "pick_prompts [] picked = picked"
| "pick_prompts (n # ns) picked =
     (if to_lower n \<in> to_lower ` set picked then pick_prompts ns picked
      else if length (picked @ [n]) \<ge> maxQuickSearchPrompts then picked @ [n]
      else pick_prompts ns (picked @ [n]))"

definition buildQuickSearchPrompts :: "(string list \<Rightarrow> string list) \<Rightarrow> reel_record list \<Rightarrow> string list" where
  "buildQuickSearchPrompts order rs =
     pick_prompts (concat (map (\<lambda>m. sortedByCountThenName order m True) (prompt_tallies rs)) @ fallbackQuickSearchPrompts) []"

subsection \<open>The tab\<close>

fun date_keys :: "string list \<Rightarrow> reel_record list \<Rightarrow> string list" where
  "date_keys ids [] = []"
| "date_keys ids (r # rs) =
     (case SavedDateKey (re_created r) of None \<Rightarrow> date_keys ids rs
      | Some k \<Rightarrow> if k = [] \<or> k \<in> set ids then date_keys ids rs else k # date_keys (k # ids) rs)"

definition distinctSavedDates :: "reel_record list \<Rightarrow> string list" where
  "distinctSavedDates rs = rev (sort (date_keys [] rs))"

record discover_response =
  dc_recent :: "display_reel list"
  dc_count :: nat
  dc_dates :: "string list"
  dc_selected :: "string option"
  dc_on_date :: "display_reel list"
  dc_grid :: "category_filter list"
  dc_prompts :: "string list"
  dc_next :: "string option"
  dc_more :: bool
  dc_limit :: nat
  dc_total :: nat

definition BuildDiscoverResponse ::
  "cursor_json \<Rightarrow> (string list \<Rightarrow> string list) \<Rightarrow> string \<Rightarrow> reel_record list \<Rightarrow> reel_record list \<Rightarrow> reel_record list \<Rightarrow>
   facet_row list \<Rightarrow> string \<Rightarrow> nat \<Rightarrow> display \<Rightarrow> discover_response" where
  "BuildDiscoverResponse j order user recentPage scanned dateReels facets selectedDate limit d =
     (let recent = BuildListResponse j recentPage limit d;
          library = DedupeRecords scanned;
          trimmed = trim_space selectedDate
      in \<lparr>dc_recent = ls_reels recent, dc_count = length library, dc_dates = distinctSavedDates library,
          dc_selected = (if trimmed = [] then None else Some trimmed),
          dc_on_date = (if trimmed = [] then [] else map (\<lambda>r. BuildDisplayReel r d) (DedupeRecords dateReels)),
          dc_grid = cr_categories (BuildCategoryFilters order user facets [] [] []),
          dc_prompts = buildQuickSearchPrompts order library,
          dc_next = ls_next recent, dc_more = ls_more recent, dc_limit = limit, dc_total = length library\<rparr>)"

definition any_reels :: "string \<Rightarrow> cursor option \<Rightarrow> nat \<Rightarrow> list_options" where
  "any_reels date after limit =
     \<lparr>lo_platforms = [], lo_category = [], lo_subcategory = [], lo_date = date, lo_after = after, lo_limit = limit\<rparr>"

definition Service_Discover ::
  "cursor_json \<Rightarrow> (string list \<Rightarrow> string list) \<Rightarrow> (string \<Rightarrow> string option) \<Rightarrow> display \<Rightarrow> string \<Rightarrow>
   cursor option \<Rightarrow> nat \<Rightarrow> string \<Rightarrow> world \<Rightarrow> string + discover_response" where
  "Service_Discover j order source_url d user after limit date w =
     bind_r (List_reels source_url user (any_reels [] after (limit + 1)) w) (\<lambda>recent.
     bind_r (if date = [] then Inr [] else List_reels source_url user (any_reels date None DiscoverScanLimit) w) (\<lambda>on_date.
       Inr (BuildDiscoverResponse j order user recent (Library_scan user DiscoverScanLimit w) on_date (Facets user w) date limit
              (d\<lparr>di_view := ViewDetailed\<rparr>))))"

subsection \<open>What the tab shows\<close>

lemma pick_prompts_ok:
  "distinct (map to_lower picked) \<Longrightarrow> length picked < maxQuickSearchPrompts \<Longrightarrow>
   distinct (map to_lower (pick_prompts ns picked)) \<and> length (pick_prompts ns picked) \<le> maxQuickSearchPrompts
   \<and> set (pick_prompts ns picked) \<subseteq> set picked \<union> set ns"
proof (induction ns arbitrary: picked)
  case (Cons n ns)
  show ?case
  proof (cases "to_lower n \<in> to_lower ` set picked")
    case True
    then show ?thesis using Cons.IH [OF Cons.prems] by auto
  next
    case False
    then have d: "distinct (map to_lower (picked @ [n]))" using Cons.prems(1) by simp
    then show ?thesis using Cons.IH [OF d] Cons.prems(2) False by auto
  qed
qed simp

lemma pick_prompts_full:
  "length picked < maxQuickSearchPrompts \<Longrightarrow> length (pick_prompts ns picked) = maxQuickSearchPrompts
   \<or> to_lower ` set ns \<subseteq> to_lower ` set (pick_prompts ns picked) \<and> set picked \<subseteq> set (pick_prompts ns picked)"
proof (induction ns arbitrary: picked)
  case (Cons n ns)
  show ?case
  proof (cases "to_lower n \<in> to_lower ` set picked")
    case True
    then show ?thesis using Cons.IH [OF Cons.prems] by auto
  next
    case False
    show ?thesis
    proof (cases "length (picked @ [n]) \<ge> maxQuickSearchPrompts")
      case True
      then show ?thesis using False Cons.prems by auto
    next
      case short: False
      then have "length (picked @ [n]) < maxQuickSearchPrompts" by simp
      from Cons.IH [OF this] show ?thesis using False short by auto
    qed
  qed
qed simp

lemma promptLabel_clean: "promptLabel v \<noteq> [] \<Longrightarrow> to_lower (promptLabel v) \<notin> set promptStopWords"
  by (auto simp: promptLabel_def Let_def split: if_splits)

lemma promptRaw_clean: "promptRaw v \<noteq> [] \<Longrightarrow> to_lower (promptRaw v) \<notin> set promptStopWords"
  by (auto simp: promptRaw_def Let_def split: if_splits)

lemma tally_keys: "k \<in> set (map fst (tally f rs)) \<Longrightarrow> k \<noteq> [] \<and> (\<exists>r \<in> set rs. k \<in> set (f r))"
proof -
  have "set (map fst (foldl (\<lambda>m l. if l = [] then m else bump l 1 m) m ls)) \<subseteq> set (map fst m) \<union> {l \<in> set ls. l \<noteq> []}"
    for ls and m :: "(string \<times> int) list"
  proof (induction ls arbitrary: m)
    case (Cons a ls)
    have "set (map fst (foldl (\<lambda>m l. if l = [] then m else bump l 1 m) m (a # ls)))
        \<subseteq> set (map fst (if a = [] then m else bump a 1 m)) \<union> {l \<in> set ls. l \<noteq> []}"
      unfolding foldl_Cons by (rule Cons.IH)
    also have "\<dots> \<subseteq> set (map fst m) \<union> {l \<in> set (a # ls). l \<noteq> []}"
      using set_keys_upd [of a "\<lambda>c. c + 1" 0 m] by (cases "a = []") (auto simp del: set_map keys_upd)
    finally show ?case .
  qed simp
  from subsetD [OF this [of "[]" "concat (map f rs)"], folded tally_def]
  show "k \<in> set (map fst (tally f rs)) \<Longrightarrow> k \<noteq> [] \<and> (\<exists>r \<in> set rs. k \<in> set (f r))" by auto
qed

lemma tallied_words:
  assumes "m \<in> set (prompt_tallies rs)" and "n \<in> set (map fst m)"
  shows "n \<noteq> [] \<and> to_lower n \<notin> set promptStopWords"
proof -
  define words where "words m \<longleftrightarrow> (\<forall>n \<in> set (map fst m). n \<noteq> [] \<and> to_lower n \<notin> set promptStopWords)" for m :: "(string \<times> int) list"
  have tallied: "words (tally f rs)" if "\<And>r. set (f r) \<subseteq> range promptLabel \<union> range promptRaw" for f
    unfolding words_def using tally_keys [of _ f rs] that promptLabel_clean promptRaw_clean by blast
  have "list_all words (prompt_tallies rs)"
    unfolding prompt_tallies_def list.pred_inject
    by (intro conjI tallied TrueI) (auto split: option.splits)
  then show ?thesis using assms by (auto simp: list_all_iff words_def)
qed

lemma fallback_words: "to_lower ` set fallbackQuickSearchPrompts = {''travel'', ''food'', ''fitness'', ''movies'', ''coffee''}"
  by code_simp

text \<open>a library, whatever is in it and in whatever order its maps are walked, gives exactly five prompts, no two of them
  the same but for case, and none of them a word that means nothing.\<close>

theorem five_prompts_that_mean_something:
  assumes "rearranges order"
  shows "length (buildQuickSearchPrompts order rs) = 5 \<and> distinct (map to_lower (buildQuickSearchPrompts order rs))
    \<and> (\<forall>p \<in> set (buildQuickSearchPrompts order rs). p \<noteq> [] \<and> to_lower p \<notin> set promptStopWords)"
proof -
  let ?names = "concat (map (\<lambda>m. sortedByCountThenName order m True) (prompt_tallies rs))"
  let ?p = "buildQuickSearchPrompts order rs"
  have p: "?p = pick_prompts (?names @ fallbackQuickSearchPrompts) []" by (simp add: buildQuickSearchPrompts_def)
  have ok: "distinct (map to_lower ?p)" "length ?p \<le> 5" "set ?p \<subseteq> set ?names \<union> set fallbackQuickSearchPrompts"
    using pick_prompts_ok [of "[]" "?names @ fallbackQuickSearchPrompts"] unfolding p by (auto simp: maxQuickSearchPrompts_def)
  have "length ?p = 5"
  proof (rule ccontr)
    assume "length ?p \<noteq> 5"
    then have "to_lower ` set fallbackQuickSearchPrompts \<subseteq> to_lower ` set ?p"
      using pick_prompts_full [of "[]" "?names @ fallbackQuickSearchPrompts"] unfolding p by (auto simp: maxQuickSearchPrompts_def image_Un)
    then have "card {''travel'', ''food'', ''fitness'', ''movies'', ''coffee''} \<le> card (to_lower ` set ?p)"
      unfolding fallback_words by (intro card_mono) simp_all
    moreover have "card (to_lower ` set ?p) \<le> length ?p" by (metis card_length length_map list.set_map)
    ultimately show False using ok(2) \<open>length ?p \<noteq> 5\<close> by simp
  qed
  moreover have "n \<noteq> [] \<and> to_lower n \<notin> set promptStopWords" if n: "n \<in> set ?names" for n
  proof -
    obtain m where m: "m \<in> set (prompt_tallies rs)" "n \<in> set (sortedByCountThenName order m True)" using n by auto
    then have "n \<in> set (map fst m)"
      using assms by (simp add: sortedByCountThenName_def rearranges_def) (metis image_set list.set_map set_mset_mset)
    with m(1) show ?thesis by (rule tallied_words)
  qed
  moreover have "n \<noteq> [] \<and> to_lower n \<notin> set promptStopWords" if "n \<in> set fallbackQuickSearchPrompts" for n
  proof -
    have "to_lower n \<in> {''travel'', ''food'', ''fitness'', ''movies'', ''coffee''}" using that fallback_words by blast
    then show ?thesis by (auto simp: promptStopWords_def)
  qed
  ultimately show ?thesis using ok by blast
qed

theorem five_prompts_that_mean_something_witness:
  "length (buildQuickSearchPrompts rev (Library_scan ''ann'' 9 two_saves)) = 5"
proof -
  have "rearranges rev" by (simp add: rearranges_def)
  from five_prompts_that_mean_something [OF this] show ?thesis by blast
qed

text \<open>The dates of the tab are those of the library, each once, newest first.\<close>

lemma date_keys_distinct: "distinct (date_keys ids rs) \<and> set (date_keys ids rs) \<inter> set ids = {}"
  by (induction ids rs rule: date_keys.induct) (auto split: option.splits)

lemma saved_dates_sorted: "sorted_wrt (\<lambda>a b. b < a) (distinctSavedDates rs)"
proof -
  have "distinct (sort (date_keys [] rs))" using date_keys_distinct by simp
  then have "sorted_wrt (<) (sort (date_keys [] rs))" by (simp add: strict_sorted_iff)
  then show ?thesis by (simp add: distinctSavedDates_def sorted_wrt_rev)
qed

end
