(* ===== verification/Search.thy ===== *)
theory Search
  imports Discover RateLimit
begin

text \<open>
  Search over one library (\<open>internal/search/search.go\<close>, \<open>service.go\<close>) and \<open>POST /api/v2/search\<close>
  (\<open>internal/httpapi/search.go\<close>).  The embedding of a query, the distance of two vectors, PostgreSQL's full-text match and
  rank and its trigram similarity are arguments; scores are exact rationals.  Each arm and the load of the records are
  statements of their own, so that each reads a state of its own.
\<close>

subsection \<open>Fusion\<close>

definition RRFConstant :: rat where "RRFConstant = 60"
definition MaxDenseDistance :: rat where "MaxDenseDistance = 2 / 5"
definition MinQueryRunes :: nat where "MinQueryRunes = 2"
definition MaxQueryRunes :: nat where "MaxQueryRunes = 200"
definition DefaultLimit :: nat where "DefaultLimit = 5"
definition MaxLimit :: nat where "MaxLimit = 20"
definition CandidatesPerArm :: nat where "CandidatesPerArm = 50"

record candidate =
  cd_reel :: string
  cd_rank :: nat

text \<open>A scored reel is its id with its score.  The scores are kept in the order in which the ids were first seen.\<close>

type_synonym scored = "string \<times> rat"

definition add_candidate :: "scored list \<Rightarrow> candidate \<Rightarrow> scored list" where
  "add_candidate totals c = upd (cd_reel c) (\<lambda>t. t + 1 / (RRFConstant + of_nat (cd_rank c))) 0 totals"

text \<open>One round of the insertion sort: the new element moves towards the front while its score is greater than that of its
  left neighbour.  The prefix is kept reversed, its last element first.\<close>

fun sink :: "scored \<Rightarrow> scored list \<Rightarrow> scored list" where
  "sink x [] = [x]"
| "sink x (y # ys) = (if snd x > snd y then y # sink x ys else x # y # ys)"

definition insertion_sort :: "scored list \<Rightarrow> scored list" where
  "insertion_sort xs = rev (foldl (\<lambda>prefix x. sink x prefix) [] xs)"

definition Fuse :: "candidate list \<Rightarrow> candidate list \<Rightarrow> candidate list \<Rightarrow> scored list" where
  "Fuse dense sparse fuzzy = insertion_sort (foldl add_candidate [] (dense @ sparse @ fuzzy))"

text \<open>The reference: every reel with the sum of its reciprocal ranks, the first seen first, sorted by score with the order
  of equal scores kept.\<close>

definition rrf_score :: "candidate list \<Rightarrow> string \<Rightarrow> rat" where
  "rrf_score cs i = sum_list (map (\<lambda>c. 1 / (RRFConstant + of_nat (cd_rank c))) (filter (\<lambda>c. cd_reel c = i) cs))"

definition first_seen :: "'a list \<Rightarrow> 'a list" where
  "first_seen xs = rev (remdups (rev xs))"

lemma first_seen_snoc: "first_seen (xs @ [x]) = (if x \<in> set xs then first_seen xs else first_seen xs @ [x])"
  by (simp add: first_seen_def)

lemma set_first_seen [simp]: "set (first_seen xs) = set xs"
  by (simp add: first_seen_def)

lemma distinct_first_seen [simp]: "distinct (first_seen xs)"
  by (simp add: first_seen_def)

lemma totals_reference:
  "map fst (foldl add_candidate [] cs) = first_seen (map cd_reel cs)
   \<and> (\<forall>i. lookup 0 i (foldl add_candidate [] cs) = rrf_score cs i)"
proof (induction cs rule: rev_induct)
  case Nil
  show ?case by (simp add: first_seen_def rrf_score_def)
next
  case (snoc c cs)
  then have "set (map fst (foldl add_candidate [] cs)) = cd_reel ` set cs" by simp
  then show ?case using snoc
    by (simp add: add_candidate_def first_seen_snoc rrf_score_def del: set_map)
qed

lemma pairs_of_map: "distinct (map fst m) \<Longrightarrow> m = map (\<lambda>k. (k, lookup d k m)) (map fst m)"
proof (induction m)
  case (Cons e m)
  obtain k v where e: "e = (k, v)" by force
  have same: "map (\<lambda>j. (j, lookup d j ((k, v) # m))) (map fst m) = map (\<lambda>j. (j, lookup d j m)) (map fst m)"
    using Cons.prems e by (intro map_cong refl) (auto simp: lookup_def)
  have "map (\<lambda>j. (j, lookup d j (e # m))) (map fst (e # m)) = (k, lookup d k ((k, v) # m)) # map (\<lambda>j. (j, lookup d j m)) (map fst m)"
    unfolding e list.map fst_conv same ..
  also have "\<dots> = e # m" using Cons e by (simp add: lookup_def)
  finally show ?case by (rule sym)
qed simp

lemma mset_sink [simp]: "mset (sink x ys) = add_mset x (mset ys)"
  by (induction x ys rule: sink.induct) auto

lemma sorted_sink: "sorted (map snd ys) \<Longrightarrow> sorted (map snd (sink x ys))"
proof (induction x ys rule: sink.induct)
  case (2 x y ys)
  have "set (sink x ys) = insert x (set ys)" by (metis mset_sink set_mset_add_mset_insert set_mset_mset)
  then show ?case using 2 by (auto simp: not_less)
qed simp

text \<open>Equal scores keep their order: the new element goes behind those that are there.\<close>

lemma stable_sink: "sorted (map snd ys) \<Longrightarrow> filter (\<lambda>y. k = - snd y) (sink x ys) = (if k = - snd x then [x] else []) @ filter (\<lambda>y. k = - snd y) ys"
proof (induction x ys rule: sink.induct)
  case (2 x y ys)
  then show ?case by auto
qed simp

lemma insertion_sort_stable: "insertion_sort xs = sort_key (\<lambda>s. - snd s) xs"
proof -
  let ?f = "\<lambda>xs. foldl (\<lambda>prefix x. sink x prefix) [] xs"
  have step: "mset (?f xs) = mset xs \<and> sorted (map snd (?f xs)) \<and> (\<forall>k. filter (\<lambda>y. k = - snd y) (?f xs) = rev (filter (\<lambda>y. k = - snd y) xs))"
  proof (induction xs rule: rev_induct)
    case (snoc x xs)
    then show ?case using sorted_sink stable_sink by simp
  qed simp
  have "sort_key (\<lambda>s. - snd s) xs = rev (?f xs)"
  proof (rule properties_for_sort_key)
    show "mset (rev (?f xs)) = mset xs" using step by simp
    show "filter (\<lambda>x. - snd k = - snd x) (rev (?f xs)) = filter (\<lambda>x. - snd k = - snd x) xs" if "k \<in> set (rev (?f xs))" for k
    proof -
      have "filter (\<lambda>x. - snd k = - snd x) (?f xs) = rev (filter (\<lambda>x. - snd k = - snd x) xs)" using step by blast
      then show ?thesis unfolding rev_filter [symmetric] by (simp only: rev_rev_ident)
    qed
    have "sorted_wrt (\<lambda>a b. snd b \<le> snd a) (rev (?f xs))" using step by (simp add: sorted_wrt_rev sorted_wrt_map sorted_map)
    then show "sorted (map (\<lambda>s. - snd s) (rev (?f xs)))" by (simp add: sorted_map)
  qed
  then show ?thesis by (simp add: insertion_sort_def)
qed

lemma Fuse_reference:
  "Fuse dense sparse fuzzy
   = sort_key (\<lambda>s. - snd s) (map (\<lambda>i. (i, rrf_score (dense @ sparse @ fuzzy) i)) (first_seen (map cd_reel (dense @ sparse @ fuzzy))))"
proof -
  let ?cs = "dense @ sparse @ fuzzy" and ?t = "foldl add_candidate [] (dense @ sparse @ fuzzy)"
  note t = totals_reference [of ?cs]
  then have "distinct (map fst ?t)" by simp
  from pairs_of_map [OF this, of 0] have "?t = map (\<lambda>i. (i, rrf_score ?cs i)) (first_seen (map cd_reel ?cs))"
    unfolding t [THEN conjunct1] using t by simp
  then show ?thesis by (simp add: Fuse_def insertion_sort_stable)
qed

text \<open>the fusion of the arms is the stable sort by reciprocal rank: every reel of an arm appears once with the sum of its
  reciprocal ranks over the arms, the higher score comes first, and equal scores stay in the order in which the arms,
  meaning before words before spelling, first named them.\<close>

theorem fusion_is_the_stable_sort_by_reciprocal_rank:
  "Fuse dense sparse fuzzy
   = sort_key (\<lambda>s. - snd s) (map (\<lambda>i. (i, rrf_score (dense @ sparse @ fuzzy) i)) (first_seen (map cd_reel (dense @ sparse @ fuzzy))))"
  by (rule Fuse_reference)

subsection \<open>What is shown next to a result\<close>

definition RelevancePercent :: "rat \<Rightarrow> rat \<Rightarrow> int" where
  "RelevancePercent score best =
     (if best \<le> 0 then 0
      else (let percent = \<lfloor>(score / best) * 100\<rfloor> in if percent > 100 then 100 else if percent < 1 then 1 else percent))"

definition ScoreLabel :: "int \<Rightarrow> string" where
  "ScoreLabel percent =
     (if percent \<ge> 85 then ''Strong match'' else if percent \<ge> 60 then ''Good match''
      else if percent \<ge> 35 then ''Possible match'' else ''Weak match'')"

definition Mode :: "string list \<Rightarrow> string" where
  "Mode arms = (if arms = [] then ''empty'' else join_with ''+'' arms)"

definition NormalizeQuery :: "string \<Rightarrow> string" where
  "NormalizeQuery q =
     (let n = join_with '' '' (space_fields q) in if rune_count n > MaxQueryRunes then take_runes MaxQueryRunes n else n)"

subsection \<open>The arms\<close>

record search_filters =
  sf_platforms :: "string list"
  sf_category :: string
  sf_subcategory :: string
  sf_date :: string

text \<open>The \<open>scoped\<close> rows that every arm starts from: the user's saves with a current version, narrowed.  A date that
  PostgreSQL cannot read fails the statement.\<close>

definition in_scope :: "string \<Rightarrow> search_filters \<Rightarrow> int option \<Rightarrow> saved_reel \<Rightarrow> bool" where
  "in_scope user f date r =
     (s_user (sv_save r) = user
      \<and> platformCondition (sf_platforms f) (Some (c_platform (sv_content r)))
      \<and> (case sv_version r of None \<Rightarrow> False | Some v \<Rightarrow>
           (sf_category f = [] \<or> fst (snd (v_raw v)) = sf_category f)
           \<and> (sf_subcategory f = [] \<or> snd (snd (v_raw v)) = sf_subcategory f))
      \<and> (case date of None \<Rightarrow> True | Some d \<Rightarrow> d * day \<le> s_saved (sv_save r) \<and> s_saved (sv_save r) < (d + 1) * day))"

definition filterClause :: "string \<Rightarrow> search_filters \<Rightarrow> world \<Rightarrow> string + saved_reel list" where
  "filterClause user f w =
     (if sf_date f = [] then Inr (filter (in_scope user f None) (savedReels w))
      else case parse_date (sf_date f) of None \<Rightarrow> Inl ''searching''
      | Some d \<Rightarrow> Inr (filter (in_scope user f (Some d)) (savedReels w)))"

text \<open>\<open>se_distance\<close> is the cosine distance of a query vector to the stored vector of a version, if there is one of the
  model and dimension of the embedder; \<open>se_fault\<close> is the statement that the database fails, if any.\<close>

record 'v search_env =
  se_embedder :: "(string \<Rightarrow> 'v option) option"
  se_distance :: "'v \<Rightarrow> version_row \<Rightarrow> rat option"
  se_matches :: "string \<Rightarrow> version_row \<Rightarrow> bool"
  se_rank :: "string \<Rightarrow> version_row \<Rightarrow> rat"
  se_similarity :: "string \<Rightarrow> version_row \<Rightarrow> rat"
  se_fault :: "string \<Rightarrow> bool"
  se_source_url :: "string \<Rightarrow> string option"
  se_display :: display

definition candidates :: "saved_reel list \<Rightarrow> candidate list" where
  "candidates rows = map (\<lambda>(i, r). \<lparr>cd_reel = s_id (sv_save r), cd_rank = i + 1\<rparr>) (enumerate 0 (take CandidatesPerArm rows))"

definition version_num :: "(version_row \<Rightarrow> rat) \<Rightarrow> saved_reel \<Rightarrow> rat" where
  "version_num f r = (case sv_version r of None \<Rightarrow> 0 | Some v \<Rightarrow> f v)"

definition version_is :: "(version_row \<Rightarrow> bool) \<Rightarrow> saved_reel \<Rightarrow> bool" where
  "version_is P r = (case sv_version r of None \<Rightarrow> False | Some v \<Rightarrow> P v)"

definition dense :: "'v search_env \<Rightarrow> (string \<Rightarrow> 'v option) \<Rightarrow> string \<Rightarrow> string \<Rightarrow> search_filters \<Rightarrow> world \<Rightarrow> string + candidate list" where
  "dense e emb user q f w =
     (case emb q of None \<Rightarrow> Inr []
      | Some v \<Rightarrow> if se_fault e ''dense'' then Inl ''searching''
          else bind_r (filterClause user f w) (\<lambda>scoped.
            let near = filter (version_is (\<lambda>r. case se_distance e v r of None \<Rightarrow> False | Some d \<Rightarrow> d \<le> MaxDenseDistance)) scoped
            in Inr (candidates (sort_key (version_num (\<lambda>r. case se_distance e v r of None \<Rightarrow> 0 | Some d \<Rightarrow> d)) near))))"

definition sparse :: "'v search_env \<Rightarrow> string \<Rightarrow> string \<Rightarrow> search_filters \<Rightarrow> world \<Rightarrow> string + candidate list" where
  "sparse e user q f w =
     (if se_fault e ''sparse'' then Inl ''searching''
      else bind_r (filterClause user f w) (\<lambda>scoped.
        Inr (candidates (sort_key (\<lambda>r. (- version_num (se_rank e q) r, - s_saved (sv_save r)))
          (filter (version_is (se_matches e q)) scoped)))))"

definition fuzzy :: "'v search_env \<Rightarrow> string \<Rightarrow> string \<Rightarrow> search_filters \<Rightarrow> world \<Rightarrow> string + candidate list" where
  "fuzzy e user q f w =
     (if se_fault e ''fuzzy'' then Inl ''searching''
      else bind_r (filterClause user f w) (\<lambda>scoped.
        Inr (candidates (sort_key (\<lambda>r. (- version_num (se_similarity e q) r, - s_saved (sv_save r)))
          (filter (version_is (\<lambda>v. se_similarity e q v > 1 / 4)) scoped)))))"

subsection \<open>The records of the hits\<close>

definition load_record :: "saved_reel \<Rightarrow> reel_record" where
  "load_record r =
     \<lparr>re_id = s_id (sv_save r), re_owner = s_user (sv_save r), re_url = c_normalized (sv_content r), re_normalized = None,
      re_platform = Some (c_platform (sv_content r)), re_type = Some (c_type (sv_content r)), re_source = None,
      re_processing = None, re_ingestion = None, re_transcript_source = None,
      re_thumbnail = (case sv_version r of None \<Rightarrow> None | Some v \<Rightarrow> nullif (v_thumbnail v)),
      re_title = version_text v_title r, re_summary = version_text v_summary r, re_transcript = [],
      re_category = version_text (\<lambda>v. fst (snd (v_raw v))) r, re_subcategory = version_text (\<lambda>v. snd (snd (v_raw v))) r,
      re_tags = Some (case sv_version r of None \<Rightarrow> [] | Some v \<Rightarrow> v_tags v),
      re_facts = Some (case sv_version r of None \<Rightarrow> [] | Some v \<Rightarrow> v_facts v),
      re_locations = None, re_people = None, re_actions = None, re_events = None, re_status = None,
      re_created = Some (s_saved (sv_save r))\<rparr>"

definition load_reels :: "string \<Rightarrow> string list \<Rightarrow> world \<Rightarrow> string \<Rightarrow> reel_record option" where
  "load_reels user ids w i =
     map_option load_record (find (\<lambda>r. s_id (sv_save r) = i \<and> s_user (sv_save r) = user \<and> i \<in> set ids) (savedReels w))"

subsection \<open>A search\<close>

record search_result =
  rs_reel :: display_reel
  rs_score :: rat
  rs_percent :: int
  rs_label :: string

record search_response =
  sr_query :: string
  sr_mode :: string
  sr_total :: nat
  sr_results :: "search_result list"

record search_params =
  sp_query :: string
  sp_filters :: search_filters
  sp_limit :: int
  sp_view :: view

text \<open>The states that the four statements read.\<close>

record search_worlds =
  sw_dense :: world
  sw_sparse :: world
  sw_fuzzy :: world
  sw_load :: world

definition search_limit :: "int \<Rightarrow> nat" where
  "search_limit n = (if n \<le> 0 \<or> n > int MaxLimit then DefaultLimit else nat n)"

definition search_results :: "display \<Rightarrow> rat \<Rightarrow> (string \<Rightarrow> reel_record option) \<Rightarrow> scored list \<Rightarrow> search_result list" where
  "search_results d best records fused =
     List.map_filter (\<lambda>(i, score). map_option (\<lambda>r.
       let percent = RelevancePercent score best
       in \<lparr>rs_reel = BuildDisplayReel r d, rs_score = score, rs_percent = percent, rs_label = ScoreLabel percent\<rparr>) (records i)) fused"

definition Search_reels :: "'v search_env \<Rightarrow> string \<Rightarrow> search_params \<Rightarrow> search_worlds \<Rightarrow> string + search_response" where
  "Search_reels e user p ws =
     (let q = NormalizeQuery (sp_query p); f = sp_filters p
      in if rune_count q < MinQueryRunes then Inr \<lparr>sr_query = q, sr_mode = ''empty'', sr_total = 0, sr_results = []\<rparr>
         else bind_r (case se_embedder e of None \<Rightarrow> Inr [] | Some emb \<Rightarrow> dense e emb user q f (sw_dense ws)) (\<lambda>ds.
              bind_r (sparse e user q f (sw_sparse ws)) (\<lambda>ss.
              bind_r (fuzzy e user q f (sw_fuzzy ws)) (\<lambda>fs.
                let arms = (if ds = [] then [] else [''dense'']) @ (if ss = [] then [] else [''sparse'']) @ (if fs = [] then [] else [''fuzzy'']);
                    fused = take (search_limit (sp_limit p)) (Fuse ds ss fs)
                in if fused = [] then Inr \<lparr>sr_query = q, sr_mode = Mode arms, sr_total = 0, sr_results = []\<rparr>
                   else if se_fault e ''load'' then Inl ''loading search results''
                   else (let results = search_results ((se_display e)\<lparr>di_view := sp_view p\<rparr>) (snd (hd fused))
                                         (load_reels user (map fst fused) (sw_load ws)) fused
                         in Inr \<lparr>sr_query = q, sr_mode = Mode arms, sr_total = length results, sr_results = results\<rparr>)))))"

subsection \<open>Whose reels a search shows\<close>

lemma candidate_reels: "cd_reel ` set (candidates rows) \<subseteq> (\<lambda>r. s_id (sv_save r)) ` set rows"
  by (auto simp: candidates_def in_set_enumerate_eq dest: in_set_takeD nth_mem)

lemma filterClause_rows: "filterClause user f w = Inr rows \<Longrightarrow> r \<in> set rows \<Longrightarrow> r \<in> set (savedReels w) \<and> (\<exists>date. in_scope user f date r)"
  by (auto simp: filterClause_def split: if_splits option.splits)

text \<open>The reels that one of the arms may name.\<close>

definition nameable :: "string \<Rightarrow> search_filters \<Rightarrow> search_worlds \<Rightarrow> string \<Rightarrow> bool" where
  "nameable user f ws i = (\<exists>w \<in> {sw_dense ws, sw_sparse ws, sw_fuzzy ws}. \<exists>r \<in> set (savedReels w). \<exists>date.
     s_id (sv_save r) = i \<and> in_scope user f date r)"

lemma arm_names:
  assumes "bind_r (filterClause user f w) (\<lambda>scoped. Inr (candidates (sort_key key (filter P scoped)))) = Inr cs"
    and "w \<in> {sw_dense ws, sw_sparse ws, sw_fuzzy ws}" and "c \<in> set cs"
  shows "nameable user f ws (cd_reel c)"
proof -
  obtain rows where rows: "filterClause user f w = Inr rows" "cs = candidates (sort_key key (filter P rows))"
    using assms(1) by (auto simp: bind_r_Inr_iff)
  then obtain r where "r \<in> set rows" "cd_reel c = s_id (sv_save r)"
    using candidate_reels [of "sort_key key (filter P rows)"] assms(3) by auto
  then show ?thesis using filterClause_rows [OF rows(1)] assms(2) unfolding nameable_def by metis
qed

lemma dense_names: "dense e emb user q f (sw_dense ws) = Inr cs \<Longrightarrow> c \<in> set cs \<Longrightarrow> nameable user f ws (cd_reel c)"
  by (auto simp: dense_def Let_def split: option.splits if_splits elim: arm_names)

lemma sparse_names: "sparse e user q f (sw_sparse ws) = Inr cs \<Longrightarrow> c \<in> set cs \<Longrightarrow> nameable user f ws (cd_reel c)"
  by (auto simp: sparse_def split: if_splits elim: arm_names)

lemma fuzzy_names: "fuzzy e user q f (sw_fuzzy ws) = Inr cs \<Longrightarrow> c \<in> set cs \<Longrightarrow> nameable user f ws (cd_reel c)"
  by (auto simp: fuzzy_def split: if_splits elim: arm_names)

lemma fused_ids: "fst ` set (Fuse ds ss fs) = cd_reel ` set (ds @ ss @ fs)" "distinct (map fst (Fuse ds ss fs))"
    "sorted_wrt (\<lambda>a b. snd b \<le> snd a) (Fuse ds ss fs)"
proof -
  let ?cs = "ds @ ss @ fs"
  let ?m = "map (\<lambda>i. (i, rrf_score ?cs i)) (first_seen (map cd_reel ?cs))"
  have f: "Fuse ds ss fs = sort_key (\<lambda>s. - snd s) ?m" by (rule Fuse_reference)
  then show "fst ` set (Fuse ds ss fs) = cd_reel ` set ?cs" by (simp add: image_image image_Un)
  have "mset (map fst (Fuse ds ss fs)) = mset (map fst ?m)" unfolding f mset_map mset_sort ..
  also have "map fst ?m = first_seen (map cd_reel ?cs)" by (simp add: comp_def)
  finally have "mset (map fst (Fuse ds ss fs)) = mset (first_seen (map cd_reel ?cs))" .
  then show "distinct (map fst (Fuse ds ss fs))" by (metis distinct_first_seen mset_eq_imp_distinct_iff)
  have "sorted (map (\<lambda>s. - snd s) (Fuse ds ss fs))" by (simp add: f)
  then show "sorted_wrt (\<lambda>a b. snd b \<le> snd a) (Fuse ds ss fs)" by (simp add: sorted_wrt_map)
qed

lemma rrf_score_pos: "i \<in> cd_reel ` set cs \<Longrightarrow> 0 < rrf_score cs i"
proof (induction cs)
  case (Cons c cs)
  have nonneg: "0 \<le> rrf_score cs i" by (auto simp: rrf_score_def RRFConstant_def intro!: sum_list_nonneg)
  have pos: "0 < 1 / (RRFConstant + of_nat (cd_rank c))" by (simp add: RRFConstant_def add_pos_nonneg)
  show ?case
  proof (cases "cd_reel c = i")
    case True
    then have "rrf_score (c # cs) i = 1 / (RRFConstant + of_nat (cd_rank c)) + rrf_score cs i" by (simp add: rrf_score_def)
    then show ?thesis using nonneg pos by linarith
  next
    case False
    then show ?thesis using Cons by (simp add: rrf_score_def)
  qed
qed simp

lemma fused_pos: "s \<in> set (Fuse ds ss fs) \<Longrightarrow> 0 < snd s"
  using rrf_score_pos [of _ "ds @ ss @ fs"] by (auto simp: Fuse_reference)

lemma percent_bounds: "0 < best \<Longrightarrow> 1 \<le> RelevancePercent score best \<and> RelevancePercent score best \<le> 100"
  by (simp add: RelevancePercent_def Let_def)

lemma percent_best: "0 < best \<Longrightarrow> RelevancePercent best best = 100"
  by (simp add: RelevancePercent_def Let_def)

lemma search_limit_le: "search_limit n \<le> 20"
  by (auto simp: search_limit_def MaxLimit_def DefaultLimit_def nat_le_iff)

lemma search_results_rows:
  assumes "\<And>i r. records i = Some r \<Longrightarrow> re_id r = i"
  shows "map (\<lambda>x. (dr_id (rs_reel x), rs_score x)) (search_results d best records fused) = filter (\<lambda>s. records (fst s) \<noteq> None) fused"
    and "x \<in> set (search_results d best records fused) \<Longrightarrow>
      \<exists>r. records (dr_id (rs_reel x)) = Some r \<and> rs_reel x = BuildDisplayReel r d \<and> rs_percent x = RelevancePercent (rs_score x) best
        \<and> rs_label x = ScoreLabel (rs_percent x)"
proof -
  show "map (\<lambda>x. (dr_id (rs_reel x), rs_score x)) (search_results d best records fused) = filter (\<lambda>s. records (fst s) \<noteq> None) fused"
    unfolding search_results_def
    by (induction fused) (auto simp: map_filter_simps Let_def assms split: option.splits)
  show "x \<in> set (search_results d best records fused) \<Longrightarrow>
      \<exists>r. records (dr_id (rs_reel x)) = Some r \<and> rs_reel x = BuildDisplayReel r d \<and> rs_percent x = RelevancePercent (rs_score x) best
        \<and> rs_label x = ScoreLabel (rs_percent x)"
    by (auto simp: search_results_def map_filter_Some Let_def assms)
qed

lemma load_id: "load_reels user ids w i = Some r \<Longrightarrow>
    re_id r = i \<and> (\<exists>s \<in> set (savedReels w). r = load_record s \<and> s_id (sv_save s) = i \<and> s_user (sv_save s) = user)"
  by (auto simp: load_reels_def load_record_def find_Some_iff)

text \<open>What a search that answers has done.\<close>

lemma Search_reels_cases:
  assumes "Search_reels e user p ws = Inr resp"
  obtains "sr_results resp = []" "sr_total resp = 0"
  | ds ss fs where "\<And>c. c \<in> set (ds @ ss @ fs) \<Longrightarrow> nameable user (sp_filters p) ws (cd_reel c)"
      "take (search_limit (sp_limit p)) (Fuse ds ss fs) \<noteq> []"
      "sr_results resp = search_results ((se_display e)\<lparr>di_view := sp_view p\<rparr>) (snd (hd (take (search_limit (sp_limit p)) (Fuse ds ss fs))))
         (load_reels user (map fst (take (search_limit (sp_limit p)) (Fuse ds ss fs))) (sw_load ws)) (take (search_limit (sp_limit p)) (Fuse ds ss fs))"
      "sr_total resp = length (sr_results resp)"
proof (cases "rune_count (NormalizeQuery (sp_query p)) < MinQueryRunes")
  case True
  then show ?thesis using assms that(1) by (auto simp: Search_reels_def Let_def)
next
  case False
  let ?q = "NormalizeQuery (sp_query p)" and ?f = "sp_filters p"
  obtain ds ss fs where arms:
      "(case se_embedder e of None \<Rightarrow> Inr [] | Some emb \<Rightarrow> dense e emb user ?q ?f (sw_dense ws)) = Inr ds"
      "sparse e user ?q ?f (sw_sparse ws) = Inr ss" "fuzzy e user ?q ?f (sw_fuzzy ws) = Inr fs"
    using assms False by (auto simp: Search_reels_def Let_def bind_r_Inr_iff)
  have names: "nameable user ?f ws (cd_reel c)" if "c \<in> set (ds @ ss @ fs)" for c
    using that arms dense_names sparse_names fuzzy_names by (auto split: option.splits)
  show ?thesis
  proof (cases "take (search_limit (sp_limit p)) (Fuse ds ss fs) = []")
    case True
    then have "resp = \<lparr>sr_query = ?q, sr_mode = Mode ((if ds = [] then [] else [''dense'']) @ (if ss = [] then [] else [''sparse''])
        @ (if fs = [] then [] else [''fuzzy''])), sr_total = 0, sr_results = []\<rparr>"
      using assms False arms by (auto simp: Search_reels_def Let_def)
    then show ?thesis by (intro that(1)) simp_all
  next
    case ne: False
    show ?thesis
    proof (rule that(2) [OF names ne])
      show "sr_results resp = search_results ((se_display e)\<lparr>di_view := sp_view p\<rparr>) (snd (hd (take (search_limit (sp_limit p)) (Fuse ds ss fs))))
         (load_reels user (map fst (take (search_limit (sp_limit p)) (Fuse ds ss fs))) (sw_load ws)) (take (search_limit (sp_limit p)) (Fuse ds ss fs))"
        "sr_total resp = length (sr_results resp)"
        using assms False arms ne by (auto simp: Search_reels_def Let_def split: if_splits)
    qed
  qed
qed


text \<open>An embedder that fails costs the meaning of the query and nothing else: the words and the spelling are searched as if
  there were no embedder.\<close>

lemma failed_embedding_degrades:
  "se_embedder e = Some emb \<Longrightarrow> (\<And>q. emb q = None) \<Longrightarrow>
   Search_reels e user p ws = Search_reels (e\<lparr>se_embedder := None\<rparr>) user p ws"
proof -
  assume e: "se_embedder e = Some emb" "\<And>q. emb q = None"
  have arms: "sparse (e\<lparr>se_embedder := None\<rparr>) = sparse e" "fuzzy (e\<lparr>se_embedder := None\<rparr>) = fuzzy e"
    by (simp_all add: fun_eq_iff sparse_def fuzzy_def)
  show ?thesis using e by (simp add: Search_reels_def arms dense_def Let_def cong: if_cong)
qed

subsection \<open>The request\<close>

text \<open>Whether a metered request goes on: the buckets are drawn on in turn, and the first refusal ends it.  \<open>None\<close> for the
  limiter is an API that has none; \<open>fault\<close> is a failure to reach Redis.\<close>

datatype metered = Metered_ok | Metered_unavailable | Metered_limited duration

type_synonym buckets = "string \<Rightarrow> string \<Rightarrow> bucket option"

definition meteredChecks :: "string \<Rightarrow> string \<Rightarrow> string \<Rightarrow> policy \<Rightarrow> policy \<Rightarrow> (policy \<times> string) list" where
  "meteredChecks user client ipSubject u ip = map (\<lambda>s. (u, s)) (UserSubjects u user client) @ [(ip, ipSubject)]"

fun draw :: "(string \<Rightarrow> string option) \<Rightarrow> int \<Rightarrow> int \<Rightarrow> (policy \<times> string) list \<Rightarrow> buckets \<Rightarrow> metered \<times> buckets" where
  "draw fault now server [] b = (Metered_ok, b)"
| "draw fault now server ((p, subject) # checks) b =
     (case Allow_rate (fault subject) p now server (b (pl_name p) subject) of
        (Inl _, b1) \<Rightarrow> (Metered_unavailable, b(pl_name p := (b (pl_name p))(subject := b1)))
      | (Inr d, b1) \<Rightarrow>
          (let b2 = b(pl_name p := (b (pl_name p))(subject := b1))
           in if rd_allowed d then draw fault now server checks b2 else (Metered_limited (rd_retry_after d), b2)))"

definition allowMetered ::
  "bool \<Rightarrow> (string \<Rightarrow> string option) \<Rightarrow> int \<Rightarrow> int \<Rightarrow> string \<Rightarrow> string \<Rightarrow> string \<Rightarrow> policy \<Rightarrow> policy \<Rightarrow> buckets \<Rightarrow> metered \<times> buckets" where
  "allowMetered limiter fault now server user client ipSubject u ip b =
     (if \<not> limiter then (Metered_unavailable, b) else draw fault now server (meteredChecks user client ipSubject u ip) b)"

record search_request =
  sq_query :: string
  sq_platform :: string
  sq_category :: string
  sq_subcategory :: string
  sq_date :: string
  sq_limit :: int
  sq_view :: string

text \<open>The decoded body goes through its checks in the order of the handler; \<open>metered\<close> is the answer of the limiter, asked
  after them.  The body of a refusal is its code and its field.\<close>

definition handleSearch ::
  "'v search_env \<Rightarrow> string \<Rightarrow> search_request \<Rightarrow> metered \<times> buckets \<Rightarrow> buckets \<Rightarrow> search_worlds \<Rightarrow> search_response http_answer \<times> buckets" where
  "handleSearch e user r metered b ws =
     (if trim_space (sq_query r) = [] then (validation ''query'', b)
      else if sq_limit r < 0 \<or> sq_limit r > int MaxLimit then (validation ''limit'', b)
      else case parsePlatforms (sq_platform r) Answer of Refused s c f \<Rightarrow> (Refused s c f, b) | Answer platforms \<Rightarrow>
      (case savedDateParam (sq_date r) Answer of Refused s c f \<Rightarrow> (Refused s c f, b) | Answer date \<Rightarrow>
      (case viewParam (sq_view r) Answer of Refused s c f \<Rightarrow> (Refused s c f, b) | Answer v \<Rightarrow>
      (case metered of
         (Metered_unavailable, b1) \<Rightarrow> (Refused 503 ''search_unavailable'' [], b1)
       | (Metered_limited d, b1) \<Rightarrow> (Refused 429 ''rate_limited'' [], b1)
       | (Metered_ok, b1) \<Rightarrow>
           (case Search_reels e user \<lparr>sp_query = sq_query r,
                   sp_filters = \<lparr>sf_platforms = platforms, sf_category = sq_category r, sf_subcategory = sq_subcategory r, sf_date = date\<rparr>,
                   sp_limit = sq_limit r, sp_view = v\<rparr> ws of
              Inl _ \<Rightarrow> (Refused 500 ''search_failed'' [], b1)
            | Inr resp \<Rightarrow> (Answer resp, b1))))))"

text \<open>Without a limiter, or with one that cannot be reached, no search is made.\<close>

lemma search_fails_closed:
  "fst (handleSearch e user r (allowMetered False fault now server user client i u ip b) b ws) \<noteq> Answer resp"
  by (auto simp: handleSearch_def allowMetered_def validation_def split: http_answer.splits)

subsection \<open>A sample search\<close>

definition sample_version :: version_row where
  "sample_version =
     \<lparr>v_id = ''v'', v_content = ''a'', v_processor = [], v_prompt = [], v_schema = [], v_model = [], v_title = ''cake'', v_summary = [],
      v_caption = [], v_transcript = [], v_tags = [], v_facts = [],
      v_raw = (\<lparr>x_title = ''cake'', x_summary = [], x_domain = [], x_format = [], x_tags = [], x_facts = [], x_locations = [],
                x_people = [], x_actions = [], x_events = []\<rparr>, ''Food'', []),
      v_thumbnail = []\<rparr>"

definition baked :: world where
  "baked = two_saves\<lparr>contents := [(sample_content ''a'')\<lparr>c_current := Some ''v''\<rparr>, sample_content ''b''], versions := [sample_version]\<rparr>"

definition word_search :: "nat search_env" where
  "word_search =
     \<lparr>se_embedder = None, se_distance = (\<lambda>_ _. None), se_matches = (\<lambda>q v. v_title v = q), se_rank = (\<lambda>_ _. 1),
      se_similarity = (\<lambda>_ _. 0), se_fault = (\<lambda>_. False), se_source_url = (\<lambda>_. None), se_display = sample_display\<rparr>"

definition cake_query :: search_params where
  "cake_query = \<lparr>sp_query = '' cake'', sp_filters = \<lparr>sf_platforms = [], sf_category = ''Food'', sf_subcategory = [], sf_date = []\<rparr>,
     sp_limit = 3, sp_view = ViewConcise\<rparr>"

lemma baked_rows: "savedReels baked =
   [\<lparr>sv_save = \<lparr>s_id = ''s1'', s_user = ''ann'', s_content = ''a'', s_saved = 10\<rparr>, sv_content = (sample_content ''a'')\<lparr>c_current := Some ''v''\<rparr>,
     sv_version = Some sample_version\<rparr>,
    \<lparr>sv_save = \<lparr>s_id = ''s2'', s_user = ''ann'', s_content = ''b'', s_saved = 20\<rparr>, sv_content = sample_content ''b'', sv_version = None\<rparr>]"
  by (simp add: savedReels_def baked_def two_saves_def empty_world_def content_of_def current_version_def sample_content_def
      sample_version_def map_filter_simps)

lemma cake_scope: "filterClause ''ann'' (sp_filters cake_query) baked = Inr [hd (savedReels baked)]"
  by (simp add: filterClause_def cake_query_def baked_rows in_scope_def platformCondition_def sample_version_def)

lemma cake_normal: "NormalizeQuery '' cake'' = ''cake''"
  by (simp add: NormalizeQuery_def space_fields_def is_space_def char_code_def rune_count_def is_start_def MaxQueryRunes_def)

lemma cake_found: "\<exists>resp. Search_reels word_search ''ann'' cake_query \<lparr>sw_dense = baked, sw_sparse = baked, sw_fuzzy = baked, sw_load = baked\<rparr> = Inr resp
    \<and> sr_results resp \<noteq> []"
proof -
  let ?r = "hd (savedReels baked)"
  have sp: "sparse word_search ''ann'' ''cake'' (sp_filters cake_query) baked = Inr [\<lparr>cd_reel = ''s1'', cd_rank = Suc 0\<rparr>]"
    unfolding sparse_def cake_scope
    by (simp add: word_search_def baked_rows version_is_def sample_version_def candidates_def CandidatesPerArm_def)
  have fz: "fuzzy word_search ''ann'' ''cake'' (sp_filters cake_query) baked = Inr []"
    unfolding fuzzy_def cake_scope
    by (simp add: word_search_def baked_rows version_is_def sample_version_def candidates_def)
  have fu: "Fuse [] [\<lparr>cd_reel = ''s1'', cd_rank = Suc 0\<rparr>] [] = [(''s1'', 1 / 61)]"
    by (simp add: Fuse_def insertion_sort_def add_candidate_def RRFConstant_def)
  have ld: "load_reels ''ann'' [''s1''] baked ''s1'' = Some (load_record ?r)"
    by (simp add: load_reels_def baked_rows)
  have n: "rune_count ''cake'' = 4" by (simp add: rune_count_def is_start_def char_code_def)
  have q: "sp_query cake_query = '' cake''" "sp_limit cake_query = 3" by (simp_all add: cake_query_def)
  have e: "se_embedder word_search = None" "\<not> se_fault word_search f" for f by (simp_all add: word_search_def)
  show ?thesis
    by (simp add: Search_reels_def q cake_normal n MinQueryRunes_def e sp fz fu ld search_limit_def MaxLimit_def search_results_def
        map_filter_simps Let_def is_start_def char_code_def)
qed


text \<open>The records of a search are loaded without the locations, the people, the steps and the events of a reel: whatever it
  holds, the card says that there is nothing to put on a map.\<close>

lemma search_hides_places:
  "dr_has_map (BuildDisplayReel (load_record s) d) = False \<and> dr_places (BuildDisplayReel (load_record s) d) = []
   \<and> (di_view d = ViewDetailed \<longrightarrow> dr_people (BuildDisplayReel (load_record s) d) = Some [] \<and> dr_events (BuildDisplayReel (load_record s) d) = Some [])"
  by (simp add: BuildDisplayReel_def Let_def load_record_def BuildMappableLocations_def nonNil_def)

end
