(* ===== verification/Deletion.thy ===== *)
theory Deletion
  imports Reminders PriceTracks Collections
begin

text \<open>
  Account lifecycle: removing one saved reel or a whole account (\<open>internal/lifecycle/lifecycle.go\<close>), the
  record of the users that the API has served (\<open>internal/usermigration\<close>), and what PostgreSQL does with
  the rows that point at a deleted row (the \<open>ON DELETE\<close> clauses of \<open>internal/migrations\<close>).
\<close>

subsection \<open>The tables with an owner\<close>

datatype cleanup = CleanPending | CleanRunning | CleanDone

record request_row =
  dr_user :: string
  dr_requested :: time
  dr_database :: cleanup
  dr_identity :: cleanup
  dr_attempts :: int
  dr_error :: "string option"
  dr_updated :: time

text \<open>\<open>as_users\<close> is \<open>auth.users\<close>, the mirror of the identity provider that every owned table points at;
  \<open>as_served\<close> is \<open>user_migrations\<close>.\<close>

record account_store =
  as_world :: world
  as_users :: "string list"
  as_served :: "string list"
  as_reminders :: "reminder list"
  as_tracks :: "track list"
  as_push :: push_state
  as_requests :: "request_row list"

subsection \<open>Foreign keys\<close>

definition points_into :: "string option \<Rightarrow> string list \<Rightarrow> bool" where
  "points_into p gone = (case p of None \<Rightarrow> False | Some i \<Rightarrow> i \<in> set gone)"

text \<open>Deleting saves removes the items, the reminders and the tracks made of them and clears the covers and
  the pointers of the jobs.\<close>

definition drop_saves :: "(save_row \<Rightarrow> bool) \<Rightarrow> account_store \<Rightarrow> account_store" where
  "drop_saves P s =
     (let w = as_world s; gone = map s_id (filter P (saves w)) in
      s\<lparr>as_world := w\<lparr>saves := filter (\<lambda>x. \<not> P x) (saves w),
          items := filter (\<lambda>i. i_save i \<notin> set gone) (items w),
          collections := update_where (\<lambda>c. points_into (col_cover c) gone) (\<lambda>c. c\<lparr>col_cover := None\<rparr>) (collections w),
          jobs := update_where (\<lambda>j. points_into (job_save j) gone) (\<lambda>j. j\<lparr>job_save := None\<rparr>) (jobs w)\<rparr>,
        as_reminders := filter (\<lambda>r. \<not> points_into (rm_save r) gone) (as_reminders s),
        as_tracks := filter (\<lambda>t. \<not> points_into (tr_save t) gone) (as_tracks s)\<rparr>)"

text \<open>Deleting runs removes their stage results and clears the pointers of jobs and proposals (an empty
  string in the model of a proposal).\<close>

definition drop_runs :: "(run_row \<Rightarrow> bool) \<Rightarrow> account_store \<Rightarrow> account_store" where
  "drop_runs P s =
     (let w = as_world s; gone = map run_id (filter P (runs w)) in
      s\<lparr>as_world := w\<lparr>runs := filter (\<lambda>r. \<not> P r) (runs w),
          stage_results := filter (\<lambda>x. sr_run x \<notin> set gone) (stage_results w),
          jobs := update_where (\<lambda>j. points_into (job_run j) gone) (\<lambda>j. j\<lparr>job_run := None\<rparr>) (jobs w),
          proposals := update_where (\<lambda>p. p_run p \<in> set gone) (\<lambda>p. p\<lparr>p_run := []\<rparr>) (proposals w)\<rparr>\<rparr>)"

definition drop_versions :: "(version_row \<Rightarrow> bool) \<Rightarrow> account_store \<Rightarrow> account_store" where
  "drop_versions P s =
     (let w = as_world s; gone = map v_id (filter P (versions w)) in
      s\<lparr>as_world := w\<lparr>versions := filter (\<lambda>v. \<not> P v) (versions w),
          locations := filter (\<lambda>l. g_version l \<notin> set gone) (locations w)\<rparr>\<rparr>)"

text \<open>Deleting contents removes their versions, saves and runs.\<close>

definition drop_contents :: "(content_row \<Rightarrow> bool) \<Rightarrow> account_store \<Rightarrow> account_store" where
  "drop_contents P s =
     (let w = as_world s; gone = map c_id (filter P (contents w)) in
      drop_runs (\<lambda>r. run_content r \<in> set gone) (drop_saves (\<lambda>x. s_content x \<in> set gone)
        (drop_versions (\<lambda>v. v_content v \<in> set gone)
          (s\<lparr>as_world := w\<lparr>contents := filter (\<lambda>c. \<not> P c) (contents w)\<rparr>\<rparr>))))"

definition drop_collections :: "(collection_row \<Rightarrow> bool) \<Rightarrow> account_store \<Rightarrow> account_store" where
  "drop_collections P s =
     (let w = as_world s; gone = map col_id (filter P (collections w)) in
      s\<lparr>as_world := w\<lparr>collections := filter (\<lambda>c. \<not> P c) (collections w),
          members := filter (\<lambda>m. m_collection m \<notin> set gone) (members w),
          items := filter (\<lambda>i. i_collection i \<notin> set gone) (items w),
          invites := filter (\<lambda>n. n_collection n \<notin> set gone) (invites w)\<rparr>\<rparr>)"

definition drop_jobs :: "(job_row \<Rightarrow> bool) \<Rightarrow> account_store \<Rightarrow> account_store" where
  "drop_jobs P s = s\<lparr>as_world := (as_world s)\<lparr>jobs := filter (\<lambda>j. \<not> P j) (jobs (as_world s))\<rparr>\<rparr>"

definition drop_keys :: "(idem_row \<Rightarrow> bool) \<Rightarrow> account_store \<Rightarrow> account_store" where
  "drop_keys P s = s\<lparr>as_world := (as_world s)\<lparr>idem := filter (\<lambda>k. \<not> P k) (idem (as_world s))\<rparr>\<rparr>"

text \<open>The rows that only their owner points at: memberships, the author of an item (an empty string once it is
  NULL), tokens, notifications, reminders, tracks, and the record of a served user.\<close>

definition drop_personal :: "string \<Rightarrow> account_store \<Rightarrow> account_store" where
  "drop_personal u s =
     (let w = as_world s in
      s\<lparr>as_world := w\<lparr>members := filter (\<lambda>m. m_user m \<noteq> u) (members w),
          items := update_where (\<lambda>i. i_added_by i = u) (\<lambda>i. i\<lparr>i_added_by := []\<rparr>) (items w)\<rparr>,
        as_users := filter (\<lambda>v. v \<noteq> u) (as_users s),
        as_served := filter (\<lambda>v. v \<noteq> u) (as_served s),
        as_reminders := filter (\<lambda>r. rm_user r \<noteq> u) (as_reminders s),
        as_tracks := filter (\<lambda>t. tr_user t \<noteq> u) (as_tracks s),
        as_push := \<lparr>ps_tokens = filter (\<lambda>t. tk_user t \<noteq> u) (ps_tokens (as_push s)),
                    ps_notes = filter (\<lambda>n. nt_user n \<noteq> u) (ps_notes (as_push s))\<rparr>\<rparr>)"

text \<open>\<open>DELETE FROM auth.users\<close>: without the row nothing cascades.\<close>

definition drop_user :: "string \<Rightarrow> account_store \<Rightarrow> account_store" where
  "drop_user u s =
     (if u \<in> set (as_users s)
      then drop_personal u (drop_collections (\<lambda>c. col_owner c = u) (drop_keys (\<lambda>k. k_user k = u)
             (drop_jobs (\<lambda>j. job_user j = u) (drop_saves (\<lambda>x. s_user x = u) s))))
      else s)"

subsection \<open>One reel\<close>

datatype del_err = DelNotFound | DeletionPending | DelOther string

definition Pending_deletion :: "string option \<Rightarrow> string \<Rightarrow> account_store \<Rightarrow> del_err + bool" where
  "Pending_deletion fault u s =
     (case fault of Some m \<Rightarrow> Inl (DelOther m)
      | None \<Rightarrow> (case find (\<lambda>d. dr_user d = u) (as_requests s) of
           None \<Rightarrow> Inr False
         | Some d \<Rightarrow> Inr (dr_database d \<noteq> CleanDone \<or> dr_identity d \<noteq> CleanDone)))"

definition unreachable_private :: "string list \<Rightarrow> world \<Rightarrow> content_row \<Rightarrow> bool" where
  "unreachable_private ids w c = (c_id c \<in> set ids \<and> c_scope c \<noteq> ''public'' \<and> \<not> list_ex (\<lambda>x. s_content x = c_id c) (saves w))"

definition deleteUnreachablePrivateContent :: "string list \<Rightarrow> account_store \<Rightarrow> nat \<times> account_store" where
  "deleteUnreachablePrivateContent ids s =
     (if ids = [] then (0, s)
      else (matching (unreachable_private ids (as_world s)) (contents (as_world s)),
            drop_contents (unreachable_private ids (as_world s)) s))"

definition invalidate_user :: "string \<Rightarrow> account_store \<Rightarrow> account_store" where
  "invalidate_user u s = s\<lparr>as_world := invalidate [u] (as_world s)\<rparr>"

text \<open>What one call takes from outside: the parser of ids, the clock of the database, which statements fail.
  A transaction that fails leaves nothing; one whose commit went unheard (\<open>Unheard\<close>) is reported as failed
  and has happened.\<close>

datatype commit = Committed | RolledBack string | Unheard string

definition transact :: "commit \<Rightarrow> (account_store \<Rightarrow> del_err + 'a \<times> account_store) \<Rightarrow> account_store \<Rightarrow> (del_err + 'a) \<times> account_store" where
  "transact c body s =
     (case c of
        RolledBack m \<Rightarrow> (Inl (DelOther m), s)
      | Unheard m \<Rightarrow> (case body s of Inl e \<Rightarrow> (Inl e, s) | Inr (a, s') \<Rightarrow> (Inl (DelOther m), s'))
      | Committed \<Rightarrow> (case body s of Inl e \<Rightarrow> (Inl e, s) | Inr (a, s') \<Rightarrow> (Inr a, s')))"

definition delete_reel_body :: "string \<Rightarrow> string \<Rightarrow> account_store \<Rightarrow> del_err + unit \<times> account_store" where
  "delete_reel_body u i s =
     (case find (\<lambda>x. s_id x = i \<and> s_user x = u) (saves (as_world s)) of
        None \<Rightarrow> Inl DelNotFound
      | Some x \<Rightarrow> Inr ((), snd (deleteUnreachablePrivateContent [s_content x]
                        (drop_saves (\<lambda>y. s_id y = i \<and> s_user y = u) s))))"

definition DeleteReel :: "(string \<Rightarrow> bool) \<Rightarrow> string option \<Rightarrow> commit \<Rightarrow> string \<Rightarrow> string \<Rightarrow> account_store \<Rightarrow> (del_err + unit) \<times> account_store" where
  "DeleteReel is_uuid asking c u i s =
     (if \<not> is_uuid i then (Inl DelNotFound, s)
      else case Pending_deletion asking u s of
        Inl e \<Rightarrow> (Inl e, s)
      | Inr True \<Rightarrow> (Inl DeletionPending, s)
      | Inr False \<Rightarrow>
          (case transact c (delete_reel_body u i) s of
             (Inl e, s') \<Rightarrow> (Inl e, s')
           | (Inr _, s') \<Rightarrow> (Inr (), invalidate_user u s')))"

subsection \<open>An account\<close>

record del_report =
  rp_user :: string
  rp_saves :: nat
  rp_jobs :: nat
  rp_keys :: nat
  rp_contents :: nat
  rp_events :: nat
  rp_cleaned :: bool
  rp_identity :: bool
  rp_pending :: bool

definition empty_report :: "string \<Rightarrow> del_report" where
  "empty_report u = \<lparr>rp_user = u, rp_saves = 0, rp_jobs = 0, rp_keys = 0, rp_contents = 0, rp_events = 0,
     rp_cleaned = False, rp_identity = False, rp_pending = False\<rparr>"

text \<open>The events of the runs that only this user has jobs on.\<close>

definition event_of_user :: "string \<Rightarrow> world \<Rightarrow> event_row \<Rightarrow> bool" where
  "event_of_user u w e =
     (case ev_payload e of None \<Rightarrow> False
      | Some (r, _) \<Rightarrow> list_ex (\<lambda>j. job_user j = u \<and> job_run j = Some r) (jobs w)
          \<and> \<not> list_ex (\<lambda>j. job_user j \<noteq> u \<and> job_run j = Some r) (jobs w))"

definition unsubscribed :: "world \<Rightarrow> run_row \<Rightarrow> bool" where
  "unsubscribed w r = (\<not> list_ex (\<lambda>j. job_run j = Some (run_id r)) (jobs w) \<and> \<not> list_ex (\<lambda>x. s_content x = run_content r) (saves w))"

definition set_request :: "string \<Rightarrow> (request_row \<Rightarrow> request_row) \<Rightarrow> account_store \<Rightarrow> account_store" where
  "set_request u f s = s\<lparr>as_requests := update_where (\<lambda>d. dr_user d = u) f (as_requests s)\<rparr>"

definition clean_body :: "time \<Rightarrow> string \<Rightarrow> account_store \<Rightarrow> del_err + del_report \<times> account_store" where
  "clean_body now u s =
     (let s0 = set_request u (\<lambda>d. d\<lparr>dr_database := CleanRunning, dr_attempts := dr_attempts d + 1, dr_updated := now\<rparr>) s;
          w = as_world s0;
          ids = map s_content (filter (\<lambda>x. s_user x = u) (saves w));
          s1 = s0\<lparr>as_world := w\<lparr>events := filter (\<lambda>e. \<not> event_of_user u w e) (events w)\<rparr>\<rparr>;
          s2 = drop_user u (drop_saves (\<lambda>x. s_user x = u) (drop_keys (\<lambda>k. k_user k = u) (drop_jobs (\<lambda>j. job_user j = u) s1)));
          (n, s3) = deleteUnreachablePrivateContent ids s2;
          s4 = drop_runs (unsubscribed (as_world s3)) s3;
          s5 = set_request u (\<lambda>d. d\<lparr>dr_database := CleanDone, dr_updated := now\<rparr>) s4
      in Inr ((empty_report u)\<lparr>rp_events := matching (event_of_user u w) (events w),
                rp_jobs := matching (\<lambda>j. job_user j = u) (jobs w), rp_keys := matching (\<lambda>k. k_user k = u) (idem w),
                rp_saves := matching (\<lambda>x. s_user x = u) (saves w), rp_contents := n\<rparr>, s5))"

record del_env =
  de_insert :: "string option"
  de_read :: "string option"
  de_clean :: commit
  de_note :: "string option"
  de_auth :: "bool option"
  de_mark :: commit
  de_now :: time

definition cleanDatabase :: "del_env \<Rightarrow> string \<Rightarrow> account_store \<Rightarrow> (del_err + del_report) \<times> account_store" where
  "cleanDatabase e u s =
     (case transact (de_clean e) (clean_body (de_now e) u) s of
        (Inl x, s') \<Rightarrow> (Inl x, s')
      | (Inr r, s') \<Rightarrow> (Inr r, invalidate_user u s'))"

definition recordFailure :: "del_env \<Rightarrow> string \<Rightarrow> string \<Rightarrow> account_store \<Rightarrow> account_store" where
  "recordFailure e u class s =
     (case de_note e of Some m \<Rightarrow> s
      | None \<Rightarrow> set_request u (\<lambda>d. d\<lparr>dr_attempts := dr_attempts d + 1, dr_error := Some class, dr_updated := de_now e\<rparr>) s)"

text \<open>The half that removes the identity.  \<open>de_auth\<close> is the answer of the adapter: \<open>None\<close> when none is
  configured.\<close>

definition mark_body :: "time \<Rightarrow> string \<Rightarrow> account_store \<Rightarrow> del_err + unit \<times> account_store" where
  "mark_body now u s = Inr ((), set_request u (\<lambda>d. d\<lparr>dr_identity := CleanDone, dr_updated := now\<rparr>) s)"

definition delete_identity :: "del_env \<Rightarrow> string \<Rightarrow> del_report \<Rightarrow> account_store \<Rightarrow> (del_err + del_report) \<times> account_store" where
  "delete_identity e u r s =
     (case de_auth e of
        None \<Rightarrow> (Inr (r\<lparr>rp_pending := True\<rparr>), recordFailure e u ''identity_deleter_missing'' s)
      | Some False \<Rightarrow> (Inr (r\<lparr>rp_pending := True\<rparr>), recordFailure e u ''identity'' s)
      | Some True \<Rightarrow>
          (case transact (de_mark e) (mark_body (de_now e) u) s of
             (Inl x, s') \<Rightarrow> (Inl x, s')
           | (Inr _, s') \<Rightarrow> (Inr (r\<lparr>rp_identity := True\<rparr>), invalidate_user u s')))"

definition ResumeAccountDeletion :: "del_env \<Rightarrow> string \<Rightarrow> account_store \<Rightarrow> (del_err + del_report) \<times> account_store" where
  "ResumeAccountDeletion e u s =
     (case de_read e of Some m \<Rightarrow> (Inl (DelOther m), s)
      | None \<Rightarrow> (case find (\<lambda>d. dr_user d = u) (as_requests s) of
           None \<Rightarrow> (Inl DelNotFound, s)
         | Some d \<Rightarrow>
             (case (if dr_database d = CleanDone then (Inr (empty_report u), s) else cleanDatabase e u s) of
                (Inl x, s') \<Rightarrow> (Inl x, recordFailure e u ''database'' s')
              | (Inr r, s') \<Rightarrow>
                  if dr_identity d = CleanDone then (Inr (r\<lparr>rp_cleaned := True, rp_identity := True\<rparr>), s')
                  else delete_identity e u (r\<lparr>rp_cleaned := True\<rparr>) s')))"

definition new_request :: "time \<Rightarrow> string \<Rightarrow> request_row" where
  "new_request now u = \<lparr>dr_user = u, dr_requested = now, dr_database = CleanPending, dr_identity = CleanPending,
     dr_attempts = 0, dr_error = None, dr_updated = now\<rparr>"

definition record_request :: "time \<Rightarrow> string \<Rightarrow> account_store \<Rightarrow> account_store" where
  "record_request now u s =
     (if list_ex (\<lambda>d. dr_user d = u) (as_requests s) then s else s\<lparr>as_requests := as_requests s @ [new_request now u]\<rparr>)"

definition DeleteAccount :: "del_env \<Rightarrow> string \<Rightarrow> account_store \<Rightarrow> (del_err + del_report) \<times> account_store" where
  "DeleteAccount e u s =
     (case de_insert e of Some m \<Rightarrow> (Inl (DelOther m), s)
      | None \<Rightarrow> ResumeAccountDeletion e u (record_request (de_now e) u s))"

definition PendingRequests :: "int \<Rightarrow> account_store \<Rightarrow> string list" where
  "PendingRequests limit s =
     take (nat (if limit \<le> 0 then 100 else limit))
       (map dr_user (sort_key dr_requested
         (filter (\<lambda>d. dr_database d \<noteq> CleanDone \<or> dr_identity d \<noteq> CleanDone) (as_requests s))))"

text \<open>The maintenance command goes through the pending requests; an error of one does not stop it.\<close>

definition retry_deletions :: "(string \<Rightarrow> del_env) \<Rightarrow> account_store \<Rightarrow> account_store" where
  "retry_deletions env s = foldl (\<lambda>s u. snd (ResumeAccountDeletion (env u) u s)) s (PendingRequests 100 s)"

subsection \<open>The users that the API has served\<close>

text \<open>\<open>Recorder\<close>: the write of a user's first request, and what a process remembers of it.  A user with a
  deletion request is not put back into \<open>auth.users\<close>, and the second statement then fails its foreign key.\<close>

definition record_served :: "string \<Rightarrow> account_store \<Rightarrow> del_err + unit \<times> account_store" where
  "record_served u s =
     (let s1 = (if list_ex (\<lambda>d. dr_user d = u) (as_requests s) \<or> u \<in> set (as_users s) then s
                else s\<lparr>as_users := as_users s @ [u]\<rparr>)
      in if u \<in> set (as_served s1) then Inr ((), s1)
         else if u \<notin> set (as_users s1) then Inl (DelOther ''foreign key'')
         else Inr ((), s1\<lparr>as_served := as_served s1 @ [u]\<rparr>))"

definition Seen :: "commit \<Rightarrow> string \<Rightarrow> string list \<Rightarrow> account_store \<Rightarrow> string list \<times> account_store" where
  "Seen c u seen_by s =
     (if u \<in> set seen_by then (seen_by, s)
      else (case transact c (record_served u) s of
              (Inl _, s') \<Rightarrow> (seen_by, s')
            | (Inr _, s') \<Rightarrow> (u # seen_by, s')))"

subsection \<open>What each deletion leaves\<close>

lemma drop_saves_tables [simp]:
  "runs (as_world (drop_saves P s)) = runs (as_world s)"
  "jobs (as_world (drop_saves P s)) = update_where (\<lambda>j. points_into (job_save j) (map s_id (filter P (saves (as_world s))))) (\<lambda>j. j\<lparr>job_save := None\<rparr>) (jobs (as_world s))"
  "events (as_world (drop_saves P s)) = events (as_world s)"
  "stage_results (as_world (drop_saves P s)) = stage_results (as_world s)"
  "contents (as_world (drop_saves P s)) = contents (as_world s)"
  "versions (as_world (drop_saves P s)) = versions (as_world s)"
  "saves (as_world (drop_saves P s)) = filter (\<lambda>x. \<not> P x) (saves (as_world s))"
  "idem (as_world (drop_saves P s)) = idem (as_world s)"
  "collections (as_world (drop_saves P s)) = update_where (\<lambda>c. points_into (col_cover c) (map s_id (filter P (saves (as_world s))))) (\<lambda>c. c\<lparr>col_cover := None\<rparr>) (collections (as_world s))"
  "members (as_world (drop_saves P s)) = members (as_world s)"
  "items (as_world (drop_saves P s)) = filter (\<lambda>i. i_save i \<notin> s_id ` set (filter P (saves (as_world s)))) (items (as_world s))"
  "invites (as_world (drop_saves P s)) = invites (as_world s)"
  "proposals (as_world (drop_saves P s)) = proposals (as_world s)"
  "locations (as_world (drop_saves P s)) = locations (as_world s)"
  "as_users (drop_saves P s) = as_users s"
  "as_served (drop_saves P s) = as_served s"
  "as_reminders (drop_saves P s) = filter (\<lambda>r. \<not> points_into (rm_save r) (map s_id (filter P (saves (as_world s))))) (as_reminders s)"
  "as_tracks (drop_saves P s) = filter (\<lambda>t. \<not> points_into (tr_save t) (map s_id (filter P (saves (as_world s))))) (as_tracks s)"
  "as_push (drop_saves P s) = as_push s"
  "as_requests (drop_saves P s) = as_requests s"
  by (simp_all add: drop_saves_def Let_def)

lemma drop_runs_tables [simp]:
  "runs (as_world (drop_runs P s)) = filter (\<lambda>r. \<not> P r) (runs (as_world s))"
  "jobs (as_world (drop_runs P s)) = update_where (\<lambda>j. points_into (job_run j) (map run_id (filter P (runs (as_world s))))) (\<lambda>j. j\<lparr>job_run := None\<rparr>) (jobs (as_world s))"
  "events (as_world (drop_runs P s)) = events (as_world s)"
  "stage_results (as_world (drop_runs P s)) = filter (\<lambda>x. sr_run x \<notin> run_id ` set (filter P (runs (as_world s)))) (stage_results (as_world s))"
  "contents (as_world (drop_runs P s)) = contents (as_world s)"
  "versions (as_world (drop_runs P s)) = versions (as_world s)"
  "saves (as_world (drop_runs P s)) = saves (as_world s)"
  "idem (as_world (drop_runs P s)) = idem (as_world s)"
  "collections (as_world (drop_runs P s)) = collections (as_world s)"
  "members (as_world (drop_runs P s)) = members (as_world s)"
  "items (as_world (drop_runs P s)) = items (as_world s)"
  "invites (as_world (drop_runs P s)) = invites (as_world s)"
  "proposals (as_world (drop_runs P s)) = update_where (\<lambda>p. p_run p \<in> run_id ` set (filter P (runs (as_world s)))) (\<lambda>p. p\<lparr>p_run := []\<rparr>) (proposals (as_world s))"
  "locations (as_world (drop_runs P s)) = locations (as_world s)"
  "as_users (drop_runs P s) = as_users s"
  "as_served (drop_runs P s) = as_served s"
  "as_reminders (drop_runs P s) = as_reminders s"
  "as_tracks (drop_runs P s) = as_tracks s"
  "as_push (drop_runs P s) = as_push s"
  "as_requests (drop_runs P s) = as_requests s"
  by (simp_all add: drop_runs_def Let_def)

lemma drop_versions_tables [simp]:
  "runs (as_world (drop_versions P s)) = runs (as_world s)"
  "jobs (as_world (drop_versions P s)) = jobs (as_world s)"
  "events (as_world (drop_versions P s)) = events (as_world s)"
  "stage_results (as_world (drop_versions P s)) = stage_results (as_world s)"
  "contents (as_world (drop_versions P s)) = contents (as_world s)"
  "versions (as_world (drop_versions P s)) = filter (\<lambda>v. \<not> P v) (versions (as_world s))"
  "saves (as_world (drop_versions P s)) = saves (as_world s)"
  "idem (as_world (drop_versions P s)) = idem (as_world s)"
  "collections (as_world (drop_versions P s)) = collections (as_world s)"
  "members (as_world (drop_versions P s)) = members (as_world s)"
  "items (as_world (drop_versions P s)) = items (as_world s)"
  "invites (as_world (drop_versions P s)) = invites (as_world s)"
  "proposals (as_world (drop_versions P s)) = proposals (as_world s)"
  "locations (as_world (drop_versions P s)) = filter (\<lambda>l. g_version l \<notin> v_id ` set (filter P (versions (as_world s)))) (locations (as_world s))"
  "as_users (drop_versions P s) = as_users s"
  "as_served (drop_versions P s) = as_served s"
  "as_reminders (drop_versions P s) = as_reminders s"
  "as_tracks (drop_versions P s) = as_tracks s"
  "as_push (drop_versions P s) = as_push s"
  "as_requests (drop_versions P s) = as_requests s"
  by (simp_all add: drop_versions_def Let_def)

lemma drop_collections_tables [simp]:
  "runs (as_world (drop_collections P s)) = runs (as_world s)"
  "jobs (as_world (drop_collections P s)) = jobs (as_world s)"
  "events (as_world (drop_collections P s)) = events (as_world s)"
  "stage_results (as_world (drop_collections P s)) = stage_results (as_world s)"
  "contents (as_world (drop_collections P s)) = contents (as_world s)"
  "versions (as_world (drop_collections P s)) = versions (as_world s)"
  "saves (as_world (drop_collections P s)) = saves (as_world s)"
  "idem (as_world (drop_collections P s)) = idem (as_world s)"
  "collections (as_world (drop_collections P s)) = filter (\<lambda>c. \<not> P c) (collections (as_world s))"
  "members (as_world (drop_collections P s)) = filter (\<lambda>m. m_collection m \<notin> col_id ` set (filter P (collections (as_world s)))) (members (as_world s))"
  "items (as_world (drop_collections P s)) = filter (\<lambda>i. i_collection i \<notin> col_id ` set (filter P (collections (as_world s)))) (items (as_world s))"
  "invites (as_world (drop_collections P s)) = filter (\<lambda>n. n_collection n \<notin> col_id ` set (filter P (collections (as_world s)))) (invites (as_world s))"
  "proposals (as_world (drop_collections P s)) = proposals (as_world s)"
  "locations (as_world (drop_collections P s)) = locations (as_world s)"
  "as_users (drop_collections P s) = as_users s"
  "as_served (drop_collections P s) = as_served s"
  "as_reminders (drop_collections P s) = as_reminders s"
  "as_tracks (drop_collections P s) = as_tracks s"
  "as_push (drop_collections P s) = as_push s"
  "as_requests (drop_collections P s) = as_requests s"
  by (simp_all add: drop_collections_def Let_def)

lemma drop_jobs_tables [simp]:
  "runs (as_world (drop_jobs P s)) = runs (as_world s)"
  "jobs (as_world (drop_jobs P s)) = filter (\<lambda>j. \<not> P j) (jobs (as_world s))"
  "events (as_world (drop_jobs P s)) = events (as_world s)"
  "stage_results (as_world (drop_jobs P s)) = stage_results (as_world s)"
  "contents (as_world (drop_jobs P s)) = contents (as_world s)"
  "versions (as_world (drop_jobs P s)) = versions (as_world s)"
  "saves (as_world (drop_jobs P s)) = saves (as_world s)"
  "idem (as_world (drop_jobs P s)) = idem (as_world s)"
  "collections (as_world (drop_jobs P s)) = collections (as_world s)"
  "members (as_world (drop_jobs P s)) = members (as_world s)"
  "items (as_world (drop_jobs P s)) = items (as_world s)"
  "invites (as_world (drop_jobs P s)) = invites (as_world s)"
  "proposals (as_world (drop_jobs P s)) = proposals (as_world s)"
  "locations (as_world (drop_jobs P s)) = locations (as_world s)"
  "as_users (drop_jobs P s) = as_users s"
  "as_served (drop_jobs P s) = as_served s"
  "as_reminders (drop_jobs P s) = as_reminders s"
  "as_tracks (drop_jobs P s) = as_tracks s"
  "as_push (drop_jobs P s) = as_push s"
  "as_requests (drop_jobs P s) = as_requests s"
  by (simp_all add: drop_jobs_def Let_def)

lemma drop_keys_tables [simp]:
  "runs (as_world (drop_keys P s)) = runs (as_world s)"
  "jobs (as_world (drop_keys P s)) = jobs (as_world s)"
  "events (as_world (drop_keys P s)) = events (as_world s)"
  "stage_results (as_world (drop_keys P s)) = stage_results (as_world s)"
  "contents (as_world (drop_keys P s)) = contents (as_world s)"
  "versions (as_world (drop_keys P s)) = versions (as_world s)"
  "saves (as_world (drop_keys P s)) = saves (as_world s)"
  "idem (as_world (drop_keys P s)) = filter (\<lambda>k. \<not> P k) (idem (as_world s))"
  "collections (as_world (drop_keys P s)) = collections (as_world s)"
  "members (as_world (drop_keys P s)) = members (as_world s)"
  "items (as_world (drop_keys P s)) = items (as_world s)"
  "invites (as_world (drop_keys P s)) = invites (as_world s)"
  "proposals (as_world (drop_keys P s)) = proposals (as_world s)"
  "locations (as_world (drop_keys P s)) = locations (as_world s)"
  "as_users (drop_keys P s) = as_users s"
  "as_served (drop_keys P s) = as_served s"
  "as_reminders (drop_keys P s) = as_reminders s"
  "as_tracks (drop_keys P s) = as_tracks s"
  "as_push (drop_keys P s) = as_push s"
  "as_requests (drop_keys P s) = as_requests s"
  by (simp_all add: drop_keys_def Let_def)

lemma drop_personal_tables [simp]:
  "runs (as_world (drop_personal u s)) = runs (as_world s)"
  "jobs (as_world (drop_personal u s)) = jobs (as_world s)"
  "events (as_world (drop_personal u s)) = events (as_world s)"
  "stage_results (as_world (drop_personal u s)) = stage_results (as_world s)"
  "contents (as_world (drop_personal u s)) = contents (as_world s)"
  "versions (as_world (drop_personal u s)) = versions (as_world s)"
  "saves (as_world (drop_personal u s)) = saves (as_world s)"
  "idem (as_world (drop_personal u s)) = idem (as_world s)"
  "collections (as_world (drop_personal u s)) = collections (as_world s)"
  "members (as_world (drop_personal u s)) = filter (\<lambda>m. m_user m \<noteq> u) (members (as_world s))"
  "items (as_world (drop_personal u s)) = update_where (\<lambda>i. i_added_by i = u) (\<lambda>i. i\<lparr>i_added_by := []\<rparr>) (items (as_world s))"
  "invites (as_world (drop_personal u s)) = invites (as_world s)"
  "proposals (as_world (drop_personal u s)) = proposals (as_world s)"
  "locations (as_world (drop_personal u s)) = locations (as_world s)"
  "as_users (drop_personal u s) = filter (\<lambda>v. v \<noteq> u) (as_users s)"
  "as_served (drop_personal u s) = filter (\<lambda>v. v \<noteq> u) (as_served s)"
  "as_reminders (drop_personal u s) = filter (\<lambda>r. rm_user r \<noteq> u) (as_reminders s)"
  "as_tracks (drop_personal u s) = filter (\<lambda>t. tr_user t \<noteq> u) (as_tracks s)"
  "as_push (drop_personal u s) = \<lparr>ps_tokens = filter (\<lambda>t. tk_user t \<noteq> u) (ps_tokens (as_push s)), ps_notes = filter (\<lambda>n. nt_user n \<noteq> u) (ps_notes (as_push s))\<rparr>"
  "as_requests (drop_personal u s) = as_requests s"
  by (simp_all add: drop_personal_def Let_def)

lemma set_request_tables [simp]:
  "runs (as_world (set_request u f s)) = runs (as_world s)"
  "jobs (as_world (set_request u f s)) = jobs (as_world s)"
  "events (as_world (set_request u f s)) = events (as_world s)"
  "stage_results (as_world (set_request u f s)) = stage_results (as_world s)"
  "contents (as_world (set_request u f s)) = contents (as_world s)"
  "versions (as_world (set_request u f s)) = versions (as_world s)"
  "saves (as_world (set_request u f s)) = saves (as_world s)"
  "idem (as_world (set_request u f s)) = idem (as_world s)"
  "collections (as_world (set_request u f s)) = collections (as_world s)"
  "members (as_world (set_request u f s)) = members (as_world s)"
  "items (as_world (set_request u f s)) = items (as_world s)"
  "invites (as_world (set_request u f s)) = invites (as_world s)"
  "proposals (as_world (set_request u f s)) = proposals (as_world s)"
  "locations (as_world (set_request u f s)) = locations (as_world s)"
  "as_users (set_request u f s) = as_users s"
  "as_served (set_request u f s) = as_served s"
  "as_reminders (set_request u f s) = as_reminders s"
  "as_tracks (set_request u f s) = as_tracks s"
  "as_push (set_request u f s) = as_push s"
  "as_requests (set_request u f s) = update_where (\<lambda>d. dr_user d = u) f (as_requests s)"
  by (simp_all add: set_request_def Let_def)

lemma invalidate_user_tables [simp]:
  "runs (as_world (invalidate_user u s)) = runs (as_world s)"
  "jobs (as_world (invalidate_user u s)) = jobs (as_world s)"
  "events (as_world (invalidate_user u s)) = events (as_world s)"
  "stage_results (as_world (invalidate_user u s)) = stage_results (as_world s)"
  "contents (as_world (invalidate_user u s)) = contents (as_world s)"
  "versions (as_world (invalidate_user u s)) = versions (as_world s)"
  "saves (as_world (invalidate_user u s)) = saves (as_world s)"
  "idem (as_world (invalidate_user u s)) = idem (as_world s)"
  "collections (as_world (invalidate_user u s)) = collections (as_world s)"
  "members (as_world (invalidate_user u s)) = members (as_world s)"
  "items (as_world (invalidate_user u s)) = items (as_world s)"
  "invites (as_world (invalidate_user u s)) = invites (as_world s)"
  "proposals (as_world (invalidate_user u s)) = proposals (as_world s)"
  "locations (as_world (invalidate_user u s)) = locations (as_world s)"
  "as_users (invalidate_user u s) = as_users s"
  "as_served (invalidate_user u s) = as_served s"
  "as_reminders (invalidate_user u s) = as_reminders s"
  "as_tracks (invalidate_user u s) = as_tracks s"
  "as_push (invalidate_user u s) = as_push s"
  "as_requests (invalidate_user u s) = as_requests s"
  by (simp_all add: invalidate_user_def invalidate_def)

lemma drop_contents_tables [simp]:
  "contents (as_world (drop_contents P s)) = filter (\<lambda>c. \<not> P c) (contents (as_world s))"
  "versions (as_world (drop_contents P s)) = filter (\<lambda>v. v_content v \<notin> c_id ` set (filter P (contents (as_world s)))) (versions (as_world s))"
  "saves (as_world (drop_contents P s)) = filter (\<lambda>x. s_content x \<notin> c_id ` set (filter P (contents (as_world s)))) (saves (as_world s))"
  "runs (as_world (drop_contents P s)) = filter (\<lambda>r. run_content r \<notin> c_id ` set (filter P (contents (as_world s)))) (runs (as_world s))"
  "events (as_world (drop_contents P s)) = events (as_world s)"
  "idem (as_world (drop_contents P s)) = idem (as_world s)"
  "members (as_world (drop_contents P s)) = members (as_world s)"
  "invites (as_world (drop_contents P s)) = invites (as_world s)"
  "as_users (drop_contents P s) = as_users s"
  "as_served (drop_contents P s) = as_served s"
  "as_push (drop_contents P s) = as_push s"
  "as_requests (drop_contents P s) = as_requests s"
  by (simp_all add: drop_contents_def Let_def)

subsection \<open>Who owns rows\<close>

text \<open>The users that some row names; \<open>owners_known\<close> is what the foreign keys to \<open>auth.users\<close> guarantee.\<close>

definition owners :: "account_store \<Rightarrow> string list" where
  "owners s =
     (let w = as_world s in
      map s_user (saves w) @ map job_user (jobs w) @ map k_user (idem w) @ map col_owner (collections w)
      @ map m_user (members w) @ filter (\<lambda>a. a \<noteq> []) (map i_added_by (items w))
      @ map tk_user (ps_tokens (as_push s)) @ map nt_user (ps_notes (as_push s))
      @ map rm_user (as_reminders s) @ map tr_user (as_tracks s) @ as_served s)"

definition owners_known :: "account_store \<Rightarrow> bool" where
  "owners_known s = list_all (\<lambda>v. v \<in> set (as_users s)) (owners s)"

lemma owners_known_iff: "owners_known s \<longleftrightarrow> set (owners s) \<subseteq> set (as_users s)"
  by (auto simp: owners_known_def list_all_iff)

lemma owners_mono:
  assumes "s_user ` set (saves (as_world s')) \<subseteq> s_user ` set (saves (as_world s))"
    and "job_user ` set (jobs (as_world s')) \<subseteq> job_user ` set (jobs (as_world s))"
    and "k_user ` set (idem (as_world s')) \<subseteq> k_user ` set (idem (as_world s))"
    and "col_owner ` set (collections (as_world s')) \<subseteq> col_owner ` set (collections (as_world s))"
    and "m_user ` set (members (as_world s')) \<subseteq> m_user ` set (members (as_world s))"
    and "set (filter (\<lambda>a. a \<noteq> []) (map i_added_by (items (as_world s')))) \<subseteq> set (filter (\<lambda>a. a \<noteq> []) (map i_added_by (items (as_world s))))"
    and "tk_user ` set (ps_tokens (as_push s')) \<subseteq> tk_user ` set (ps_tokens (as_push s))"
    and "nt_user ` set (ps_notes (as_push s')) \<subseteq> nt_user ` set (ps_notes (as_push s))"
    and "rm_user ` set (as_reminders s') \<subseteq> rm_user ` set (as_reminders s)"
    and "tr_user ` set (as_tracks s') \<subseteq> tr_user ` set (as_tracks s)"
    and "set (as_served s') \<subseteq> set (as_served s)"
  shows "set (owners s') \<subseteq> set (owners s)"
  unfolding owners_def Let_def set_append set_map by (intro Un_mono assms)

lemma owners_drop_saves: "set (owners (drop_saves P s)) \<subseteq> set (owners s)"
  by (rule owners_mono) (auto simp: update_where_def)

lemma owners_drop_runs: "set (owners (drop_runs P s)) \<subseteq> set (owners s)"
  by (rule owners_mono) (auto simp: update_where_def)

lemma owners_drop_versions: "owners (drop_versions P s) = owners s"
  by (simp add: owners_def Let_def)

lemma owners_drop_jobs: "set (owners (drop_jobs P s)) \<subseteq> set (owners s)"
  by (rule owners_mono) auto

lemma owners_drop_keys: "set (owners (drop_keys P s)) \<subseteq> set (owners s)"
  by (rule owners_mono) auto

lemma owners_drop_collections: "set (owners (drop_collections P s)) \<subseteq> set (owners s)"
  by (rule owners_mono) auto

lemma owners_drop_personal: "set (owners (drop_personal u s)) \<subseteq> set (owners s)"
  by (rule owners_mono) (auto simp: update_where_def)

lemma owners_drop_contents: "set (owners (drop_contents P s)) \<subseteq> set (owners s)"
proof -
  have contents_only: "owners (s\<lparr>as_world := (as_world s)\<lparr>contents := X\<rparr>\<rparr>) = owners s" for X
    by (simp add: owners_def Let_def)
  show ?thesis
    unfolding drop_contents_def Let_def
    by (rule order_trans [OF owners_drop_runs], rule order_trans [OF owners_drop_saves])
       (simp add: owners_drop_versions contents_only)
qed

lemma owners_unreachable: "set (owners (snd (deleteUnreachablePrivateContent ids s))) \<subseteq> set (owners s)"
  using owners_drop_contents by (simp add: deleteUnreachablePrivateContent_def)

lemma owners_requests [simp]: "owners (set_request u f s) = owners s" "owners (invalidate_user u s) = owners s"
  "owners (s\<lparr>as_world := (as_world s)\<lparr>events := E\<rparr>\<rparr>) = owners s"
  by (simp_all add: owners_def Let_def)

lemma owners_drop_user:
  assumes "owners_known s"
  shows "set (owners (drop_user u s)) \<subseteq> set (owners s) - {u}"
proof (cases "u \<in> set (as_users s)")
  case True
  have gone: "u \<notin> set (owners (drop_user u s))"
    using True by (auto simp: owners_def drop_user_def Let_def update_where_def split: if_splits)
  have "set (owners (drop_user u s)) \<subseteq> set (owners s)"
    using True unfolding drop_user_def
    by (simp only: if_True)
       (blast dest: owners_drop_personal [THEN subsetD] owners_drop_collections [THEN subsetD] owners_drop_keys [THEN subsetD]
          owners_drop_jobs [THEN subsetD] owners_drop_saves [THEN subsetD])
  then show ?thesis
    using gone by auto
next
  case False
  then show ?thesis
    using assms by (auto simp: owners_known_iff drop_user_def)
qed

lemma users_drop_user: "as_users (drop_user u s) = filter (\<lambda>v. v \<noteq> u) (as_users s)"
proof (cases "u \<in> set (as_users s)")
  case False
  then have "filter (\<lambda>v. v \<noteq> u) (as_users s) = as_users s"
    by (intro filter_True) auto
  then show ?thesis
    using False by (simp add: drop_user_def)
qed (simp add: drop_user_def)

lemma requests_kept [simp]:
  "as_requests (snd (deleteUnreachablePrivateContent ids s)) = as_requests s"
  "as_users (snd (deleteUnreachablePrivateContent ids s)) = as_users s"
  "as_requests (drop_user u s) = as_requests s"
  by (simp_all add: deleteUnreachablePrivateContent_def drop_user_def)

subsection \<open>Deleting an account\<close>

definition clean_store :: "time \<Rightarrow> string \<Rightarrow> account_store \<Rightarrow> account_store" where
  "clean_store now u s = snd (projr (clean_body now u s))"

lemma clean_body_ok: "\<exists>r. clean_body now u s = Inr (r, clean_store now u s)"
  by (simp add: clean_store_def clean_body_def Let_def split_beta)

lemma clean_owners: "owners_known s \<Longrightarrow> set (owners (clean_store now u s)) \<subseteq> set (owners s) - {u}"
proof -
  assume known: "owners_known s"
  let ?w = "as_world s"
  let ?s0 = "set_request u (\<lambda>d. d\<lparr>dr_database := CleanRunning, dr_attempts := dr_attempts d + 1, dr_updated := now\<rparr>) s"
  let ?s1 = "?s0\<lparr>as_world := ?w\<lparr>events := filter (\<lambda>e. \<not> event_of_user u ?w e) (events ?w)\<rparr>\<rparr>"
  let ?s2 = "drop_saves (\<lambda>x. s_user x = u) (drop_keys (\<lambda>k. k_user k = u) (drop_jobs (\<lambda>j. job_user j = u) ?s1))"
  have same: "as_world ?s0 = ?w" "as_users ?s0 = as_users s"
    by (simp_all add: set_request_def)
  have "owners ?s1 = owners s"
    by (simp add: owners_def set_request_def Let_def)
  then have sub: "set (owners ?s2) \<subseteq> set (owners s)"
    by (intro order_trans [OF owners_drop_saves] order_trans [OF owners_drop_keys] order_trans [OF owners_drop_jobs]) simp
  have "owners_known ?s2"
    using known sub by (auto simp: owners_known_iff same)
  then have gone: "set (owners (drop_user u ?s2)) \<subseteq> set (owners s) - {u}"
    using owners_drop_user [of ?s2 u] sub by blast
  show ?thesis
    unfolding clean_store_def clean_body_def Let_def split_beta
    using gone by (auto simp: same dest!: owners_drop_runs [THEN subsetD] owners_unreachable [THEN subsetD])
qed

lemma clean_requests:
  "as_requests (clean_store now u s)
     = update_where (\<lambda>d. dr_user d = u) (\<lambda>d. d\<lparr>dr_database := CleanDone, dr_attempts := dr_attempts d + 1, dr_updated := now\<rparr>) (as_requests s)"
  by (simp add: clean_store_def clean_body_def Let_def split_beta update_where_def comp_def)

lemma clean_users: "as_users (clean_store now u s) = filter (\<lambda>v. v \<noteq> u) (as_users s)"
  by (simp add: clean_store_def clean_body_def Let_def split_beta users_drop_user)

text \<open>Whatever fails on the way, one attempt is some of three writes: the cleanup, the mark of the identity, a
  note of the failure.\<close>

definition noted :: "string \<Rightarrow> account_store \<Rightarrow> account_store \<Rightarrow> bool" where
  "noted u s s' = (\<exists>f. s' = set_request u f s
     \<and> (\<forall>d. dr_user (f d) = dr_user d \<and> dr_database (f d) = dr_database d \<and> dr_identity (f d) = dr_identity d \<and> dr_requested (f d) = dr_requested d))"

lemma set_request_id: "set_request u (\<lambda>d. d) s = s"
  by (simp add: set_request_def update_where_def)

lemma recordFailure_noted: "noted u s (recordFailure e u c s)"
  unfolding recordFailure_def noted_def
  by (cases "de_note e") (auto simp: set_request_id intro: exI [of _ "\<lambda>d. d"] exI [of _ "\<lambda>d. d\<lparr>dr_attempts := dr_attempts d + 1, dr_error := Some c, dr_updated := de_now e\<rparr>"])

definition requests_ok :: "account_store \<Rightarrow> bool" where
  "requests_ok s \<longleftrightarrow> distinct (map dr_user (as_requests s))
     \<and> (\<forall>d \<in> set (as_requests s). dr_database d = CleanDone \<longrightarrow> dr_user d \<notin> set (as_users s))
     \<and> (\<forall>d \<in> set (as_requests s). dr_identity d = CleanDone \<longrightarrow> dr_database d = CleanDone)"

definition account_ok :: "account_store \<Rightarrow> bool" where
  "account_ok s \<longleftrightarrow> owners_known s \<and> requests_ok s"

lemma set_request_users [simp]: "map dr_user (update_where (\<lambda>d. dr_user d = u) f ds) = map dr_user ds" if "\<And>d. dr_user (f d) = dr_user d"
  using that by (simp add: update_where_def)

lemma in_update_where: "d \<in> set (update_where P f ds) \<longleftrightarrow> (\<exists>x \<in> set ds. d = (if P x then f x else x))"
  by (auto simp: update_where_def)

lemma account_ok_noted:
  assumes "account_ok s" "noted u s s'"
  shows "account_ok s'"
proof -
  obtain f where s': "s' = set_request u f s"
    and f: "\<And>d. dr_user (f d) = dr_user d \<and> dr_database (f d) = dr_database d \<and> dr_identity (f d) = dr_identity d \<and> dr_requested (f d) = dr_requested d"
    using assms(2) by (auto simp: noted_def)
  show ?thesis
    using assms(1) f by (auto simp: s' account_ok_def owners_known_iff requests_ok_def in_update_where split: if_splits)
qed

lemma account_ok_clean:
  assumes "account_ok s"
  shows "account_ok (clean_store now u s)"
proof -
  have "owners_known (clean_store now u s)"
    using assms clean_owners [of s now u] by (auto simp: account_ok_def owners_known_iff clean_users)
  moreover have "requests_ok (clean_store now u s)"
    using assms by (auto simp: account_ok_def requests_ok_def clean_requests clean_users in_update_where split: if_splits)
  ultimately show ?thesis
    by (simp add: account_ok_def)
qed

lemma account_ok_invalidate [simp]: "account_ok (invalidate_user u s) = account_ok s"
  by (simp add: account_ok_def owners_known_iff requests_ok_def)

lemma transact_cases:
  "transact c body s = (r, s') \<Longrightarrow> s' = s \<and> (\<exists>x. r = Inl x) \<or> (\<exists>a. body s = Inr (a, s'))"
  by (auto simp: transact_def split: commit.splits sum.splits prod.splits)

text \<open>The cleanup has run, or nothing was written.\<close>

lemma cleanDatabase_cases:
  assumes "cleanDatabase e u s = (r, s')"
  shows "(\<exists>x. r = Inl x) \<and> (s' = s \<or> s' = clean_store (de_now e) u s)
    \<or> (\<exists>rep. r = Inr rep) \<and> s' = invalidate_user u (clean_store (de_now e) u s)"
proof -
  obtain q t where t: "transact (de_clean e) (clean_body (de_now e) u) s = (q, t)"
    by (cases "transact (de_clean e) (clean_body (de_now e) u) s")
  then show ?thesis
    using assms clean_body_ok [of "de_now e" u s] transact_cases [OF t]
    by (auto simp: cleanDatabase_def split: sum.splits)
qed

text \<open>One attempt on the identity: noted, or marked.\<close>

abbreviation marks :: "time \<Rightarrow> request_row \<Rightarrow> request_row" where
  "marks now d \<equiv> d\<lparr>dr_identity := CleanDone, dr_updated := now\<rparr>"

lemma delete_identity_cases:
  assumes "delete_identity e u r s = (q, s')"
  shows "(q = Inr (r\<lparr>rp_pending := True\<rparr>) \<and> noted u s s' \<and> de_auth e \<noteq> Some True)
    \<or> ((\<exists>x. q = Inl x) \<and> (s' = s \<or> s' = set_request u (marks (de_now e)) s) \<and> de_auth e = Some True)
    \<or> (q = Inr (r\<lparr>rp_identity := True\<rparr>) \<and> s' = invalidate_user u (set_request u (marks (de_now e)) s) \<and> de_auth e = Some True)"
  using assms recordFailure_noted [of u s e]
  by (auto simp: delete_identity_def transact_def mark_body_def split: option.splits bool.splits commit.splits)

lemma account_ok_marked:
  assumes ok: "account_ok s" and cleaned: "\<And>d. d \<in> set (as_requests s) \<Longrightarrow> dr_user d = u \<Longrightarrow> dr_database d = CleanDone"
  shows "account_ok (set_request u (marks now) s)"
  using ok cleaned by (auto simp: account_ok_def owners_known_iff requests_ok_def in_update_where split: if_splits)

lemma request_of:
  assumes "requests_ok s" "find (\<lambda>d. dr_user d = u) (as_requests s) = Some d"
  shows "x \<in> set (as_requests s) \<and> dr_user x = u \<longleftrightarrow> x = d"
  using assms find_Some_in [of "\<lambda>d. dr_user d = u" "as_requests s" d] distinct_key_eq [of dr_user "as_requests s" x d]
  by (auto simp: requests_ok_def)

text \<open>What an attempt on a recorded request comes to.\<close>

lemma clean_report:
  assumes "cleanDatabase e u s = (Inr rep, t)"
  shows "\<not> rp_identity rep \<and> \<not> rp_pending rep"
proof -
  have body: "clean_body (de_now e) u s = Inr (rep', t') \<Longrightarrow> \<not> rp_identity rep' \<and> \<not> rp_pending rep'" for rep' t'
    by (auto simp: clean_body_def Let_def split_beta empty_report_def)
  obtain q t' where q: "transact (de_clean e) (clean_body (de_now e) u) s = (q, t')"
    by (cases "transact (de_clean e) (clean_body (de_now e) u) s")
  then have "q = Inr rep"
    using assms by (auto simp: cleanDatabase_def split: sum.splits)
  then have "clean_body (de_now e) u s = Inr (rep, t')"
    using q by (auto simp: transact_def split: commit.splits sum.splits prod.splits)
  then show ?thesis
    by (rule body)
qed

lemma Resume_outcome:
  assumes ok: "account_ok s" and d: "find (\<lambda>d. dr_user d = u) (as_requests s) = Some d" and r: "ResumeAccountDeletion e u s = (q, t)"
  shows "account_ok t
    \<and> (\<forall>rep. q = Inr rep \<longrightarrow> rp_cleaned rep \<and> (\<exists>d' \<in> set (as_requests t). dr_user d' = u \<and> dr_database d' = CleanDone
           \<and> (rp_identity rep \<longleftrightarrow> dr_identity d' = CleanDone) \<and> (rp_pending rep \<longleftrightarrow> dr_identity d' \<noteq> CleanDone)))"
proof (cases "de_read e")
  case (Some m)
  then show ?thesis
    using ok r by (auto simp: ResumeAccountDeletion_def)
next
  case None
  have req: "requests_ok s"
    using ok by (simp add: account_ok_def)
  have mine: "x = d" if "x \<in> set (as_requests s)" "dr_user x = u" for x
    using request_of [OF req d] that by blast
  have there: "d \<in> set (as_requests s)" "dr_user d = u"
    using request_of [OF req d, of d] by auto
  obtain c s1 where c: "(if dr_database d = CleanDone then (Inr (empty_report u), s) else cleanDatabase e u s) = (c, s1)"
    by (cases "if dr_database d = CleanDone then (Inr (empty_report u), s) else cleanDatabase e u s")
  have ok1: "account_ok s1"
    using c ok cleanDatabase_cases [of e u s c s1] account_ok_clean by (auto split: if_splits)
  show ?thesis
  proof (cases c)
    case (Inl x)
    then have "q = Inl x" "t = recordFailure e u ''database'' s1"
      using r None d c by (auto simp: ResumeAccountDeletion_def)
    then show ?thesis
      using account_ok_noted [OF ok1 recordFailure_noted] by simp
  next
    case (Inr rep)
    have req1: "as_requests s1 = (if dr_database d = CleanDone then as_requests s else as_requests (clean_store (de_now e) u s))"
      using c Inr cleanDatabase_cases [of e u s c s1] by (auto split: if_splits)
    have done1: "dr_database x = CleanDone \<and> dr_identity x = dr_identity d" if x: "x \<in> set (as_requests s1)" "dr_user x = u" for x
    proof (cases "dr_database d = CleanDone")
      case True
      then show ?thesis
        using x req1 mine [of x] by simp
    next
      case False
      then obtain y where y: "y \<in> set (as_requests s)" "x = (if dr_user y = u then y\<lparr>dr_database := CleanDone, dr_attempts := dr_attempts y + 1, dr_updated := de_now e\<rparr> else y)"
        using x(1) req1 by (auto simp: clean_requests in_update_where)
      then show ?thesis
        using x(2) mine [of y] by (auto split: if_splits)
    qed
    have "map dr_user (as_requests s1) = map dr_user (as_requests s)"
      using req1 by (simp add: clean_requests)
    then have "u \<in> dr_user ` set (as_requests s1)"
      using there by (metis image_eqI list.set_map)
    then have is1: "\<exists>x \<in> set (as_requests s1). dr_user x = u"
      by auto
    have fresh: "\<not> rp_identity rep \<and> \<not> rp_pending rep"
    proof (cases "dr_database d = CleanDone")
      case True
      then show ?thesis
        using c Inr by (auto simp: empty_report_def)
    next
      case False
      then have "cleanDatabase e u s = (Inr rep, s1)"
        using c Inr by simp
      then show ?thesis
        by (rule clean_report)
    qed
    show ?thesis
    proof (cases "dr_identity d = CleanDone")
      case True
      then have "q = Inr (rep\<lparr>rp_cleaned := True, rp_identity := True\<rparr>)" "t = s1"
        using r None d c Inr by (auto simp: ResumeAccountDeletion_def)
      then show ?thesis
        using ok1 done1 is1 True fresh by fastforce
    next
      case False
      then have del: "delete_identity e u (rep\<lparr>rp_cleaned := True\<rparr>) s1 = (q, t)"
        using r None d c Inr by (auto simp: ResumeAccountDeletion_def)
      obtain x where x: "x \<in> set (as_requests s1)" "dr_user x = u" "dr_database x = CleanDone" "dr_identity x \<noteq> CleanDone"
        using is1 done1 False by fastforce
      have okm: "account_ok (set_request u (marks (de_now e)) s1)"
        using account_ok_marked [OF ok1] done1 by blast
      have kept: "\<exists>d' \<in> set (as_requests t). dr_user d' = u \<and> dr_database d' = CleanDone \<and> dr_identity d' \<noteq> CleanDone" if n: "noted u s1 t"
      proof -
        obtain f where f: "t = set_request u f s1"
          "\<forall>d. dr_user (f d) = dr_user d \<and> dr_database (f d) = dr_database d \<and> dr_identity (f d) = dr_identity d \<and> dr_requested (f d) = dr_requested d"
          using n by (auto simp: noted_def)
        then have "f x \<in> set (as_requests t)"
          using x by (auto simp: in_update_where intro!: bexI [of _ x])
        moreover have "dr_user (f x) = u \<and> dr_database (f x) = CleanDone \<and> dr_identity (f x) \<noteq> CleanDone"
          using f(2) x by simp
        ultimately show ?thesis
          by blast
      qed
      have marked: "marks (de_now e) x \<in> set (as_requests (set_request u (marks (de_now e)) s1))"
        using x by (auto simp: in_update_where intro!: bexI [of _ x])
      consider (left) "q = Inr (rep\<lparr>rp_cleaned := True, rp_pending := True\<rparr>)" "noted u s1 t"
        | (failed) "\<exists>x. q = Inl x" "t = s1 \<or> t = set_request u (marks (de_now e)) s1"
        | (finished) "q = Inr (rep\<lparr>rp_cleaned := True, rp_identity := True\<rparr>)" "t = invalidate_user u (set_request u (marks (de_now e)) s1)"
        using delete_identity_cases [OF del] by blast
      then show ?thesis
      proof cases
        case left
        then show ?thesis
          using account_ok_noted [OF ok1] kept fresh by auto
      next
        case failed
        then show ?thesis
          using ok1 okm by auto
      next
        case finished
        have "marks (de_now e) x \<in> set (as_requests t)"
          using marked by (simp add: finished(2))
        then have "\<exists>d' \<in> set (as_requests t). dr_user d' = u \<and> dr_database d' = CleanDone \<and> dr_identity d' = CleanDone"
          by (rule bexI [rotated]) (simp add: x)
        then show ?thesis
          using okm finished fresh by simp
      qed
    qed
  qed
qed

subsection \<open>Interleavings\<close>

text \<open>Attempts of the API and of the maintenance command, with any failure at any call, deletions of reels, first
  requests, and whatever else the service does: it writes no request, its rows obey the foreign keys, and no
  user with a request comes back to \<open>auth.users\<close> (the backfill leaves such users out).\<close>

inductive account_step :: "account_store \<Rightarrow> account_store \<Rightarrow> bool" where
  asked: "account_step s (snd (DeleteAccount e u s))"
| retried: "account_step s (retry_deletions env s)"
| unsaved: "account_step s (snd (DeleteReel is_uuid asking c u i s))"
| served: "account_step s (snd (Seen c u seen_by s))"
| others: "as_requests s' = as_requests s \<Longrightarrow> owners_known s' \<Longrightarrow>
    set (as_users s') \<subseteq> set (as_users s) \<union> {v. v \<notin> dr_user ` set (as_requests s)} \<Longrightarrow> account_step s s'"

inductive account_reach :: "account_store \<Rightarrow> account_store \<Rightarrow> bool" where
  here: "account_reach s s"
| step: "account_reach s t \<Longrightarrow> account_step t t' \<Longrightarrow> account_reach s t'"

lemma account_ok_Resume: "account_ok s \<Longrightarrow> account_ok (snd (ResumeAccountDeletion e u s))"
proof -
  assume ok: "account_ok s"
  obtain q t where r: "ResumeAccountDeletion e u s = (q, t)"
    by (cases "ResumeAccountDeletion e u s")
  show ?thesis
  proof (cases "find (\<lambda>d. dr_user d = u) (as_requests s)")
    case None
    then show ?thesis
      using ok by (simp add: ResumeAccountDeletion_def split: option.splits)
  next
    case (Some d)
    then show ?thesis
      using Resume_outcome [OF ok Some r] by (simp add: r)
  qed
qed

lemma account_ok_request: "account_ok s \<Longrightarrow> account_ok (record_request now u s)"
  by (auto simp: record_request_def new_request_def account_ok_def owners_known_iff requests_ok_def owners_def Let_def list_ex_iff)

lemma record_request_finds: "\<exists>d. find (\<lambda>d. dr_user d = u) (as_requests (record_request now u s)) = Some d"
proof -
  have "\<exists>d \<in> set (as_requests (record_request now u s)). dr_user d = u"
    by (auto simp: record_request_def new_request_def list_ex_iff)
  then show ?thesis
    by (cases "find (\<lambda>d. dr_user d = u) (as_requests (record_request now u s))") (auto simp: find_None_iff)
qed

lemma account_ok_sub:
  assumes "account_ok s" "as_requests t = as_requests s" "as_users t = as_users s" "set (owners t) \<subseteq> set (owners s)"
  shows "account_ok t"
  using assms by (auto simp: account_ok_def requests_ok_def owners_known_iff)

lemma DeleteReel_cases:
  assumes "DeleteReel is_uuid asking c u i s = (r, t)"
  shows "t = s \<or> (\<exists>x. find (\<lambda>x. s_id x = i \<and> s_user x = u) (saves (as_world s)) = Some x
    \<and> (t = snd (deleteUnreachablePrivateContent [s_content x] (drop_saves (\<lambda>y. s_id y = i \<and> s_user y = u) s))
     \<or> t = invalidate_user u (snd (deleteUnreachablePrivateContent [s_content x] (drop_saves (\<lambda>y. s_id y = i \<and> s_user y = u) s)))))"
  using assms by (auto simp: DeleteReel_def delete_reel_body_def transact_def split: if_splits sum.splits bool.splits commit.splits option.splits)

lemma account_ok_DeleteReel: "account_ok s \<Longrightarrow> account_ok (snd (DeleteReel is_uuid asking c u i s))"
proof -
  assume ok: "account_ok s"
  obtain r t where r: "DeleteReel is_uuid asking c u i s = (r, t)"
    by (cases "DeleteReel is_uuid asking c u i s")
  have "account_ok (snd (deleteUnreachablePrivateContent ids (drop_saves P s)))" for ids P
    using owners_unreachable [of ids "drop_saves P s"] owners_drop_saves [of P s]
    by (intro account_ok_sub [OF ok]) auto
  then show ?thesis
    using DeleteReel_cases [OF r] ok by (auto simp: r)
qed

lemma account_ok_Seen: "account_ok s \<Longrightarrow> account_ok (snd (Seen c u m s))"
proof -
  assume ok: "account_ok s"
  have kept: "account_ok t" if r: "record_served u s = Inr (x, t)" for x t
  proof -
    have parts: "as_requests t = as_requests s" "as_world t = as_world s" "as_push t = as_push s"
        "as_reminders t = as_reminders s" "as_tracks t = as_tracks s"
      using r by (auto simp: record_served_def Let_def split: if_splits)
    have users: "set (as_users s) \<subseteq> set (as_users t)" "\<And>v. v \<in> set (as_users t) \<Longrightarrow> v \<in> set (as_users s) \<or> v \<notin> dr_user ` set (as_requests s)"
      using r by (auto simp: record_served_def Let_def list_ex_iff split: if_splits)
    have "set (as_served t) \<subseteq> set (as_served s) \<union> set (as_users t)"
      using r by (auto simp: record_served_def Let_def split: if_splits)
    then have "set (owners t) \<subseteq> set (owners s) \<union> set (as_users t)"
      by (auto simp: owners_def Let_def parts)
    then have "owners_known t"
      using ok users(1) by (auto simp: account_ok_def owners_known_iff)
    moreover have "requests_ok t"
      using ok users(2) by (auto simp: account_ok_def requests_ok_def parts)
    ultimately show ?thesis
      by (simp add: account_ok_def)
  qed
  show ?thesis
    using ok kept by (auto simp: Seen_def transact_def split: commit.splits sum.splits prod.splits)
qed

lemma account_step_ok: "account_step s t \<Longrightarrow> account_ok s \<Longrightarrow> account_ok t"
proof (induction rule: account_step.induct)
  case (asked s e u)
  then show ?case
    using account_ok_Resume [OF account_ok_request] by (auto simp: DeleteAccount_def split: option.splits)
next
  case (retried s env)
  have "account_ok s \<Longrightarrow> account_ok (foldl (\<lambda>s u. snd (ResumeAccountDeletion (env u) u s)) s us)" for us s
    by (induction us arbitrary: s) (auto intro: account_ok_Resume)
  then show ?case
    using retried by (simp add: retry_deletions_def)
next
  case (others s' s)
  then show ?case
    by (auto simp: account_ok_def requests_ok_def)
qed (simp_all add: account_ok_DeleteReel account_ok_Seen)

lemma account_reach_ok: "account_reach s t \<Longrightarrow> account_ok s \<Longrightarrow> account_ok t"
  by (induction rule: account_reach.induct) (auto dest: account_step_ok)

text \<open>What an attempt does when nothing fails.\<close>

definition calls_work :: "del_env \<Rightarrow> bool" where
  "calls_work e \<longleftrightarrow> de_insert e = None \<and> de_read e = None \<and> de_clean e = Committed \<and> de_auth e = Some True \<and> de_mark e = Committed"

lemma Resume_works:
  assumes "calls_work e" "find (\<lambda>d. dr_user d = u) (as_requests s) = Some d"
  shows "\<exists>rep t. ResumeAccountDeletion e u s = (Inr rep, t) \<and> rp_identity rep"
proof -
  obtain r where "clean_body (de_now e) u s = Inr (r, clean_store (de_now e) u s)"
    using clean_body_ok by blast
  then have "cleanDatabase e u s = (Inr r, invalidate_user u (clean_store (de_now e) u s))"
    using assms(1) by (simp add: cleanDatabase_def transact_def calls_work_def)
  then show ?thesis
    using assms by (auto simp: ResumeAccountDeletion_def delete_identity_def transact_def mark_body_def calls_work_def)
qed

lemma cleaned_owns_nothing:
  assumes "account_ok s" "d \<in> set (as_requests s)" "dr_database d = CleanDone"
  shows "dr_user d \<notin> set (owners s)" "dr_user d \<notin> set (as_users s)"
  using assms by (auto simp: account_ok_def requests_ok_def owners_known_iff)

text \<open>C17: however attempts, crashes and the rest of the service interleave, a user whose request says that the
  database half is done owns no row of any table and is not among the users, now and for ever, and the identity
  half is only ever done after it; and an attempt that answers tells the truth: nothing of the user is left,
  and it calls the request pending exactly when the service does.\<close>

theorem deleted_account_stays_deleted:
  assumes "owners_known s0" "as_requests s0 = []" "account_reach s0 s"
  shows "(\<forall>d \<in> set (as_requests s). dr_database d = CleanDone \<longrightarrow> dr_user d \<notin> set (owners s) \<and> dr_user d \<notin> set (as_users s))
    \<and> (\<forall>d \<in> set (as_requests s). dr_identity d = CleanDone \<longrightarrow> dr_database d = CleanDone)
    \<and> (\<forall>e u rep t. DeleteAccount e u s = (Inr rep, t) \<longrightarrow>
         rp_cleaned rep \<and> u \<notin> set (owners t) \<and> Pending_deletion None u t = Inr (rp_pending rep) \<and> rp_identity rep = (\<not> rp_pending rep))"
proof (intro conjI allI impI)
  have "account_ok s0"
    using assms(1,2) by (simp add: account_ok_def requests_ok_def)
  then have ok: "account_ok s"
    using account_reach_ok [OF assms(3)] by simp
  show "\<forall>d \<in> set (as_requests s). dr_database d = CleanDone \<longrightarrow> dr_user d \<notin> set (owners s) \<and> dr_user d \<notin> set (as_users s)"
    using cleaned_owns_nothing [OF ok] by blast
  show "\<forall>d \<in> set (as_requests s). dr_identity d = CleanDone \<longrightarrow> dr_database d = CleanDone"
    using ok by (simp add: account_ok_def requests_ok_def)
  fix e u rep t
  assume a: "DeleteAccount e u s = (Inr rep, t)"
  define s1 where "s1 = record_request (de_now e) u s"
  have r: "ResumeAccountDeletion e u s1 = (Inr rep, t)"
    using a by (simp add: DeleteAccount_def s1_def split: option.splits)
  have ok1: "account_ok s1"
    unfolding s1_def by (rule account_ok_request [OF ok])
  obtain d where d: "find (\<lambda>d. dr_user d = u) (as_requests s1) = Some d"
    unfolding s1_def using record_request_finds by blast
  have okt: "account_ok t" and rep: "rp_cleaned rep"
    using Resume_outcome [OF ok1 d r] by simp_all
  obtain d' where d': "d' \<in> set (as_requests t)" "dr_user d' = u" "dr_database d' = CleanDone"
      "rp_identity rep \<longleftrightarrow> dr_identity d' = CleanDone" "rp_pending rep \<longleftrightarrow> dr_identity d' \<noteq> CleanDone"
    using Resume_outcome [OF ok1 d r] by blast
  have "distinct (map dr_user (as_requests t))"
    using okt by (simp add: account_ok_def requests_ok_def)
  then have "find (\<lambda>d. dr_user d = u) (as_requests t) = Some d'"
    using find_key_distinct [of dr_user "as_requests t" d'] d'(1,2) by simp
  then show "Pending_deletion None u t = Inr (rp_pending rep)"
    using d' by (simp add: Pending_deletion_def)
  show "rp_cleaned rep"
    by (rule rep)
  show "u \<notin> set (owners t)"
    using cleaned_owns_nothing [OF okt d'(1,3)] d'(2) by simp
  show "rp_identity rep = (\<not> rp_pending rep)"
    using d'(4,5) by simp
qed


subsection \<open>What the others keep\<close>

text \<open>Contents that are public or that somebody else saved.\<close>

definition kept :: "world \<Rightarrow> string \<Rightarrow> content_row \<Rightarrow> bool" where
  "kept w u c \<longleftrightarrow> c_scope c = ''public'' \<or> list_ex (\<lambda>x. s_user x \<noteq> u \<and> s_content x = c_id c) (saves w)"

definition kept_version :: "world \<Rightarrow> string \<Rightarrow> version_row \<Rightarrow> bool" where
  "kept_version w u v \<longleftrightarrow> list_all (\<lambda>c. c_id c = v_content v \<longrightarrow> kept w u c) (contents w)"

definition kept_run :: "world \<Rightarrow> string \<Rightarrow> string \<Rightarrow> bool" where
  "kept_run w u i \<longleftrightarrow> list_ex (\<lambda>j. job_user j \<noteq> u \<and> job_run j = Some i) (jobs w)"

text \<open>The rows of the other users (a collection without its cover, which may be a save that goes).\<close>

definition others_rows where
  "others_rows u s =
     (let w = as_world s in
      (filter (\<lambda>x. s_user x \<noteq> u) (saves w), filter (\<lambda>j. job_user j \<noteq> u) (jobs w), filter (\<lambda>k. k_user k \<noteq> u) (idem w),
       map (\<lambda>c. c\<lparr>col_cover := None\<rparr>) (filter (\<lambda>c. col_owner c \<noteq> u) (collections w)),
       filter (\<lambda>r. rm_user r \<noteq> u) (as_reminders s), filter (\<lambda>r. tr_user r \<noteq> u) (as_tracks s),
       filter (\<lambda>r. tk_user r \<noteq> u) (ps_tokens (as_push s)), filter (\<lambda>r. nt_user r \<noteq> u) (ps_notes (as_push s))))"

text \<open>The rows with a property are still there.\<close>

definition survive :: "('a \<Rightarrow> bool) \<Rightarrow> 'a list \<Rightarrow> 'a list \<Rightarrow> bool" where
  "survive P xs ys = list_all (\<lambda>x. P x \<longrightarrow> x \<in> set ys) xs"

lemma survive_refl [simp]: "survive P xs xs"
  by (simp add: survive_def list_all_iff)

lemma survive_trans: "survive P xs ys \<Longrightarrow> survive Q ys zs \<Longrightarrow> (\<And>x. P x \<Longrightarrow> Q x) \<Longrightarrow> survive P xs zs"
  by (simp add: survive_def list_all_iff)

definition kept_member :: "world \<Rightarrow> string \<Rightarrow> member_row \<Rightarrow> bool" where
  "kept_member w u m \<longleftrightarrow> m_user m \<noteq> u \<and> m_collection m \<notin> col_id ` set (filter (\<lambda>c. col_owner c = u) (collections w))"

definition kept_item :: "world \<Rightarrow> string \<Rightarrow> item_row \<Rightarrow> bool" where
  "kept_item w u i \<longleftrightarrow> i_added_by i \<noteq> u \<and> i_save i \<notin> s_id ` set (filter (\<lambda>x. s_user x = u) (saves w))
     \<and> i_collection i \<notin> col_id ` set (filter (\<lambda>c. col_owner c = u) (collections w))"

definition kept_event :: "world \<Rightarrow> string \<Rightarrow> event_row \<Rightarrow> bool" where
  "kept_event w u e \<longleftrightarrow> (case ev_payload e of None \<Rightarrow> True | Some (r, _) \<Rightarrow> kept_run w u r)"

definition others_keep :: "string \<Rightarrow> account_store \<Rightarrow> account_store \<Rightarrow> bool" where
  "others_keep u s t \<longleftrightarrow>
     (let w = as_world s; w' = as_world t in
      others_rows u t = others_rows u s
    \<and> survive (kept_member w u) (members w) (members w')
    \<and> survive (kept_item w u) (items w) (items w')
    \<and> survive (kept w u) (contents w) (contents w')
    \<and> survive (kept_version w u) (versions w) (versions w')
    \<and> survive (\<lambda>r. kept_run w u (run_id r)) (runs w) (runs w')
    \<and> survive (kept_event w u) (events w) (events w'))"

text \<open>Jobs, reminders and tracks are made of saves of their own user, and a content that is not public has one
  user (its scope is a hash of the user).\<close>

definition attached_own :: "account_store \<Rightarrow> bool" where
  "attached_own s \<longleftrightarrow>
     (let w = as_world s in
      list_all (\<lambda>x. list_all (\<lambda>j. job_save j = Some (s_id x) \<longrightarrow> job_user j = s_user x) (jobs w)
        \<and> list_all (\<lambda>r. rm_save r = Some (s_id x) \<longrightarrow> rm_user r = s_user x) (as_reminders s)
        \<and> list_all (\<lambda>t. tr_save t = Some (s_id x) \<longrightarrow> tr_user t = s_user x) (as_tracks s)) (saves w)
    \<and> list_all (\<lambda>c. c_scope c \<noteq> ''public'' \<longrightarrow>
        list_all (\<lambda>r. run_content r = c_id c \<longrightarrow>
          list_all (\<lambda>j. job_run j = Some (run_id r) \<longrightarrow> list_all (\<lambda>x. s_content x = c_id c \<longrightarrow> s_user x = job_user j) (saves w)) (jobs w)) (runs w)) (contents w))"

definition spares :: "string \<Rightarrow> account_store \<Rightarrow> account_store \<Rightarrow> bool" where
  "spares u s t \<longleftrightarrow> others_keep u s t \<and> set (contents (as_world t)) \<subseteq> set (contents (as_world s))
     \<and> set (filter (\<lambda>x. s_user x = u) (saves (as_world t))) \<subseteq> set (filter (\<lambda>x. s_user x = u) (saves (as_world s)))
     \<and> col_id ` set (filter (\<lambda>c. col_owner c = u) (collections (as_world t))) \<subseteq> col_id ` set (filter (\<lambda>c. col_owner c = u) (collections (as_world s)))"

lemma list_ex_filter_eq: "filter P xs = filter P ys \<Longrightarrow> (\<And>x. Q x \<Longrightarrow> P x) \<Longrightarrow> list_ex Q xs = list_ex Q ys"
proof -
  assume eq: "filter P xs = filter P ys" and Q: "\<And>x. Q x \<Longrightarrow> P x"
  have "list_ex Q zs = list_ex Q (filter P zs)" for zs
    using Q by (auto simp: list_ex_iff)
  then show ?thesis
    using eq by metis
qed

lemma spares_refl: "spares u s s"
  by (simp add: spares_def others_keep_def Let_def)

lemma spares_trans:
  assumes st: "spares u s t" and tr: "spares u t r"
  shows "spares u s r"
proof -
  have a: "others_keep u s t" and b: "others_keep u t r"
    using st tr by (simp_all add: spares_def)
  have eqs: "filter (\<lambda>x. s_user x \<noteq> u) (saves (as_world t)) = filter (\<lambda>x. s_user x \<noteq> u) (saves (as_world s))"
      "filter (\<lambda>j. job_user j \<noteq> u) (jobs (as_world t)) = filter (\<lambda>j. job_user j \<noteq> u) (jobs (as_world s))"
    using a by (simp_all add: others_keep_def others_rows_def Let_def)
  have same: "kept (as_world t) u c = kept (as_world s) u c" for c
    unfolding kept_def using list_ex_filter_eq [OF eqs(1), of "\<lambda>x. s_user x \<noteq> u \<and> s_content x = c_id c"] by simp
  have run: "kept_run (as_world t) u i = kept_run (as_world s) u i" for i
    unfolding kept_run_def by (rule list_ex_filter_eq [OF eqs(2)]) simp
  have version: "kept_version (as_world s) u v \<Longrightarrow> kept_version (as_world t) u v" for v
    using st by (auto simp: kept_version_def spares_def list_all_iff same)
  have member: "kept_member (as_world s) u m \<Longrightarrow> kept_member (as_world t) u m" for m
    using st unfolding kept_member_def spares_def by blast
  have item: "kept_item (as_world s) u i \<Longrightarrow> kept_item (as_world t) u i" for i
    using st unfolding kept_item_def spares_def by blast
  have event: "kept_event (as_world s) u e \<Longrightarrow> kept_event (as_world t) u e" for e
    by (auto simp: kept_event_def run split: option.splits)
  have "others_keep u s r"
    using a b unfolding others_keep_def Let_def
    by (auto simp: same run intro: survive_trans member item event version)
  then show ?thesis
    using st tr unfolding spares_def by blast
qed

lemmas spares_defs = spares_def others_keep_def others_rows_def Let_def

lemma filter_twice: "(\<And>x. x \<in> set xs \<Longrightarrow> Q x \<Longrightarrow> P x) \<Longrightarrow> filter Q (filter P xs) = filter Q xs"
  by (induction xs) auto

lemma survive_filter: "(\<And>x. x \<in> set xs \<Longrightarrow> P x \<Longrightarrow> Q x) \<Longrightarrow> survive P xs (filter Q xs)"
  by (simp add: survive_def list_all_iff)

lemma spares_drop_jobs: "spares u s (drop_jobs (\<lambda>j. job_user j = u) s)"
  by (simp add: spares_defs)

lemma spares_drop_keys: "spares u s (drop_keys (\<lambda>k. k_user k = u) s)"
  by (simp add: spares_defs)

lemma spares_set_request: "spares u s (set_request u f s)" "spares u s (invalidate_user u s)"
  by (simp_all add: spares_defs)

lemma spares_drop_events: "spares u s (s\<lparr>as_world := (as_world s)\<lparr>events := filter (\<lambda>e. \<not> event_of_user u (as_world s) e) (events (as_world s))\<rparr>\<rparr>)"
  by (auto simp: spares_defs kept_event_def event_of_user_def kept_run_def list_ex_iff split: option.splits prod.splits intro!: survive_filter)

lemma spares_drop_collections: "spares u s (drop_collections (\<lambda>c. col_owner c = u) s)"
  by (auto simp: spares_defs kept_member_def kept_item_def intro!: survive_filter)

lemma spares_drop_personal: "spares u s (drop_personal u s)"
  by (auto simp: spares_defs kept_member_def kept_item_def intro!: survive_filter) (force simp: survive_def list_all_iff in_update_where kept_item_def)

lemma filter_update_id: "(\<And>x. x \<in> set xs \<Longrightarrow> P x \<Longrightarrow> \<not> Q x \<and> \<not> Q (f x)) \<Longrightarrow> filter Q (update_where P f xs) = filter Q xs"
  by (induction xs) auto

lemma uncovered_update: "map (\<lambda>c. c\<lparr>col_cover := None\<rparr>) (filter (\<lambda>c. col_owner c \<noteq> u) (update_where P (\<lambda>c. c\<lparr>col_cover := None\<rparr>) cs))
    = map (\<lambda>c. c\<lparr>col_cover := None\<rparr>) (filter (\<lambda>c. col_owner c \<noteq> u) cs)"
  by (induction cs) auto

lemma owner_update: "set (filter (\<lambda>c. col_owner c = u) (update_where P (\<lambda>c. c\<lparr>col_cover := None\<rparr>) cs))
    = (\<lambda>c. if P c then c\<lparr>col_cover := None\<rparr> else c) ` set (filter (\<lambda>c. col_owner c = u) cs)"
  by (induction cs) auto

lemma points_into_iff: "points_into p (map f xs) \<longleftrightarrow> (\<exists>x \<in> set xs. p = Some (f x))"
  by (cases p) (auto simp: points_into_def)

lemma spares_drop_saves:
  assumes "\<And>x. x \<in> set (saves (as_world s)) \<Longrightarrow> P x \<Longrightarrow> s_user x = u"
    and "\<And>x j. x \<in> set (saves (as_world s)) \<Longrightarrow> P x \<Longrightarrow> j \<in> set (jobs (as_world s)) \<Longrightarrow> job_save j = Some (s_id x) \<Longrightarrow> job_user j = u"
    and "\<And>x r. x \<in> set (saves (as_world s)) \<Longrightarrow> P x \<Longrightarrow> r \<in> set (as_reminders s) \<Longrightarrow> rm_save r = Some (s_id x) \<Longrightarrow> rm_user r = u"
    and "\<And>x t. x \<in> set (saves (as_world s)) \<Longrightarrow> P x \<Longrightarrow> t \<in> set (as_tracks s) \<Longrightarrow> tr_save t = Some (s_id x) \<Longrightarrow> tr_user t = u"
  shows "spares u s (drop_saves P s)"
proof -
  have "filter (\<lambda>x. s_user x \<noteq> u) (filter (\<lambda>x. \<not> P x) (saves (as_world s))) = filter (\<lambda>x. s_user x \<noteq> u) (saves (as_world s))"
    using assms(1) by (intro filter_twice) auto
  moreover have "filter (\<lambda>j. job_user j \<noteq> u) (jobs (as_world (drop_saves P s))) = filter (\<lambda>j. job_user j \<noteq> u) (jobs (as_world s))"
    unfolding drop_saves_tables using assms(2) by (intro filter_update_id) (auto simp: points_into_iff)
  moreover have "filter (\<lambda>r. rm_user r \<noteq> u) (as_reminders (drop_saves P s)) = filter (\<lambda>r. rm_user r \<noteq> u) (as_reminders s)"
    unfolding drop_saves_tables using assms(3) by (intro filter_twice) (auto simp: points_into_iff)
  moreover have "filter (\<lambda>r. tr_user r \<noteq> u) (as_tracks (drop_saves P s)) = filter (\<lambda>r. tr_user r \<noteq> u) (as_tracks s)"
    unfolding drop_saves_tables using assms(4) by (intro filter_twice) (auto simp: points_into_iff)
  moreover have "survive (kept_item (as_world s) u) (items (as_world s)) (items (as_world (drop_saves P s)))"
    unfolding drop_saves_tables using assms(1) by (intro survive_filter) (auto simp: kept_item_def)
  moreover have "col_id ` set (filter (\<lambda>c. col_owner c = u) (collections (as_world (drop_saves P s)))) \<subseteq> col_id ` set (filter (\<lambda>c. col_owner c = u) (collections (as_world s)))"
    unfolding drop_saves_tables owner_update by auto
  ultimately show ?thesis
    unfolding spares_defs by (simp add: uncovered_update) auto
qed

text \<open>Private contents that nobody saved, and whose runs only this user has jobs on.\<close>

lemma spares_drop_contents:
  assumes "\<And>c. c \<in> set (contents (as_world s)) \<Longrightarrow> P c \<Longrightarrow> c_scope c \<noteq> ''public'' \<and> (\<forall>x \<in> set (saves (as_world s)). s_content x \<noteq> c_id c)"
    and "\<And>c r j. c \<in> set (contents (as_world s)) \<Longrightarrow> P c \<Longrightarrow> r \<in> set (runs (as_world s)) \<Longrightarrow> run_content r = c_id c
      \<Longrightarrow> j \<in> set (jobs (as_world s)) \<Longrightarrow> job_run j = Some (run_id r) \<Longrightarrow> job_user j = u"
  shows "spares u s (drop_contents P s)"
proof -
  let ?w = "as_world s"
  let ?gone = "c_id ` set (filter P (contents ?w))"
  let ?s1 = "drop_versions (\<lambda>v. v_content v \<in> ?gone) (s\<lparr>as_world := ?w\<lparr>contents := filter (\<lambda>c. \<not> P c) (contents ?w)\<rparr>\<rparr>)"
  let ?s2 = "drop_saves (\<lambda>x. s_content x \<in> ?gone) ?s1"
  have eq: "drop_contents P s = drop_runs (\<lambda>r. run_content r \<in> ?gone) ?s2"
    by (simp add: drop_contents_def Let_def)
  have not_kept: "\<not> kept ?w u c" if "c \<in> set (contents ?w)" "P c" for c
    using assms(1) [OF that] by (auto simp: kept_def list_ex_iff)
  have not_kept_version: "\<not> kept_version ?w u v" if "v_content v = c_id c" "c \<in> set (contents ?w)" "P c" for v c
    using that not_kept [OF that(2,3)] by (auto simp: kept_version_def list_all_iff intro!: bexI [of _ c])
  have s1: "spares u s ?s1"
    by (auto simp: spares_defs not_kept not_kept_version intro!: survive_filter)
  have s2: "spares u ?s1 ?s2"
    using assms(1) by (intro spares_drop_saves) auto
  have "filter (\<lambda>j. job_user j \<noteq> u) (jobs (as_world (drop_runs (\<lambda>r. run_content r \<in> ?gone) ?s2))) = filter (\<lambda>j. job_user j \<noteq> u) (jobs (as_world ?s2))"
    unfolding drop_runs_tables using assms(2) by (intro filter_update_id) (auto simp: points_into_iff in_update_where split: if_splits)
  moreover have "survive (\<lambda>r. kept_run (as_world ?s2) u (run_id r)) (runs (as_world ?s2)) (runs (as_world (drop_runs (\<lambda>r. run_content r \<in> ?gone) ?s2)))"
    unfolding drop_runs_tables using assms(2) by (intro survive_filter) (auto simp: kept_run_def list_ex_iff in_update_where split: if_splits)
  ultimately have s3: "spares u ?s2 (drop_runs (\<lambda>r. run_content r \<in> ?gone) ?s2)"
    unfolding spares_defs by simp
  show ?thesis
    unfolding eq by (rule spares_trans [OF spares_trans [OF s1 s2] s3])
qed

lemma spares_drop_unsubscribed: "spares u s (drop_runs (unsubscribed (as_world s)) s)"
proof -
  have "update_where (\<lambda>j. points_into (job_run j) (map run_id (filter (unsubscribed (as_world s)) (runs (as_world s))))) (\<lambda>j. j\<lparr>job_run := None\<rparr>) (jobs (as_world s)) = jobs (as_world s)"
    by (rule update_where_none) (auto simp: points_into_iff unsubscribed_def list_ex_iff)
  then show ?thesis
    by (auto simp: spares_defs kept_run_def unsubscribed_def list_ex_iff intro!: survive_filter)
qed

lemma attached_save:
  assumes "attached_own s" "x \<in> set (saves (as_world s))"
  shows "j \<in> set (jobs (as_world s)) \<Longrightarrow> job_save j = Some (s_id x) \<Longrightarrow> job_user j = s_user x"
    and "r \<in> set (as_reminders s) \<Longrightarrow> rm_save r = Some (s_id x) \<Longrightarrow> rm_user r = s_user x"
    and "t \<in> set (as_tracks s) \<Longrightarrow> tr_save t = Some (s_id x) \<Longrightarrow> tr_user t = s_user x"
  using assms by (simp_all add: attached_own_def Let_def list_all_iff)

lemma attached_run:
  assumes "attached_own s" "c \<in> set (contents (as_world s))" "c_scope c \<noteq> ''public''" "r \<in> set (runs (as_world s))" "run_content r = c_id c"
    "j \<in> set (jobs (as_world s))" "job_run j = Some (run_id r)" "x \<in> set (saves (as_world s))" "s_content x = c_id c"
  shows "s_user x = job_user j"
  using assms by (simp add: attached_own_def Let_def list_all_iff)

lemma spares_unreachable:
  assumes own: "attached_own s" and same: "runs (as_world t) = runs (as_world s)" "contents (as_world t) = contents (as_world s)"
    and js: "\<And>j. j \<in> set (jobs (as_world t)) \<Longrightarrow> \<exists>i \<in> set (jobs (as_world s)). job_user i = job_user j \<and> job_run i = job_run j"
    and ids: "\<And>i. i \<in> set ids \<Longrightarrow> \<exists>x \<in> set (saves (as_world s)). s_user x = u \<and> s_content x = i"
  shows "spares u t (snd (deleteUnreachablePrivateContent ids t))"
proof (cases "ids = []")
  case True
  then show ?thesis
    by (simp add: deleteUnreachablePrivateContent_def spares_refl)
next
  case False
  have "spares u t (drop_contents (unreachable_private ids (as_world t)) t)"
  proof (rule spares_drop_contents)
    fix c
    assume "unreachable_private ids (as_world t) c"
    then show "c_scope c \<noteq> ''public'' \<and> (\<forall>x \<in> set (saves (as_world t)). s_content x \<noteq> c_id c)"
      by (auto simp: unreachable_private_def list_ex_iff)
  next
    fix c r j
    assume c: "c \<in> set (contents (as_world t))" "unreachable_private ids (as_world t) c" and r: "r \<in> set (runs (as_world t))" "run_content r = c_id c"
      and j: "j \<in> set (jobs (as_world t))" "job_run j = Some (run_id r)"
    obtain x where x: "x \<in> set (saves (as_world s))" "s_user x = u" "s_content x = c_id c"
      using ids c(2) by (auto simp: unreachable_private_def)
    obtain i where i: "i \<in> set (jobs (as_world s))" "job_user i = job_user j" "job_run i = job_run j"
      using js [OF j(1)] by blast
    have "s_user x = job_user i"
      using c r i j x same by (intro attached_run [OF own, of c r i x]) (auto simp: unreachable_private_def)
    then show "job_user j = u"
      using i x by simp
  qed
  then show ?thesis
    using False by (simp add: deleteUnreachablePrivateContent_def)
qed

lemma spares_drop_user:
  assumes "\<And>x. x \<in> set (saves (as_world s)) \<Longrightarrow> s_user x \<noteq> u"
  shows "spares u s (drop_user u s)"
proof (cases "u \<in> set (as_users s)")
  case True
  have "spares u s (drop_saves (\<lambda>x. s_user x = u) s)"
    using assms by (intro spares_drop_saves) auto
  note this spares_drop_jobs spares_drop_keys spares_drop_collections spares_drop_personal
  then show ?thesis
    using True by (simp add: drop_user_def) (meson spares_trans)
qed (simp add: drop_user_def spares_refl)

lemma drop_user_tables:
  "runs (as_world (drop_user u s)) = runs (as_world s)" "contents (as_world (drop_user u s)) = contents (as_world s)"
  by (simp_all add: drop_user_def)

lemma drop_user_jobs: "j \<in> set (jobs (as_world (drop_user u s))) \<Longrightarrow> \<exists>i \<in> set (jobs (as_world s)). job_user i = job_user j \<and> job_run i = job_run j"
  by (auto simp: drop_user_def in_update_where split: if_splits)

lemma clean_spares:
  assumes own: "attached_own s"
  shows "spares u s (clean_store now u s)"
proof -
  let ?w = "as_world s"
  let ?s0 = "set_request u (\<lambda>d. d\<lparr>dr_database := CleanRunning, dr_attempts := dr_attempts d + 1, dr_updated := now\<rparr>) s"
  let ?s1 = "?s0\<lparr>as_world := ?w\<lparr>events := filter (\<lambda>e. \<not> event_of_user u ?w e) (events ?w)\<rparr>\<rparr>"
  let ?s2 = "drop_saves (\<lambda>x. s_user x = u) (drop_keys (\<lambda>k. k_user k = u) (drop_jobs (\<lambda>j. job_user j = u) ?s1))"
  let ?s3 = "drop_user u ?s2"
  let ?ids = "map s_content (filter (\<lambda>x. s_user x = u) (saves ?w))"
  let ?s4 = "snd (deleteUnreachablePrivateContent ?ids ?s3)"
  let ?s5 = "drop_runs (unsubscribed (as_world ?s4)) ?s4"
  have world0: "as_world ?s0 = ?w"
    by (simp add: set_request_def)
  have a: "spares u s ?s1"
    using spares_trans [OF spares_set_request(1) spares_drop_events [of u ?s0]] by (simp add: world0)
  have b: "spares u ?s1 (drop_keys (\<lambda>k. k_user k = u) (drop_jobs (\<lambda>j. job_user j = u) ?s1))"
    by (rule spares_trans [OF spares_drop_jobs spares_drop_keys])
  have c: "spares u (drop_keys (\<lambda>k. k_user k = u) (drop_jobs (\<lambda>j. job_user j = u) ?s1)) ?s2"
    using attached_save [OF own] by (intro spares_drop_saves) auto
  have d: "spares u ?s2 ?s3"
    by (rule spares_drop_user) auto
  have e: "spares u ?s3 ?s4"
  proof (rule spares_unreachable [OF own])
    fix j
    assume "j \<in> set (jobs (as_world ?s3))"
    then obtain i where i: "i \<in> set (jobs (as_world ?s2))" "job_user i = job_user j" "job_run i = job_run j"
      using drop_user_jobs by blast
    then show "\<exists>i \<in> set (jobs ?w). job_user i = job_user j \<and> job_run i = job_run j"
      by (auto simp: in_update_where split: if_splits)
  qed (auto simp: drop_user_tables)
  have f: "spares u ?s4 ?s5"
    by (rule spares_drop_unsubscribed)
  have g: "spares u ?s5 (clean_store now u s)"
    unfolding clean_store_def clean_body_def Let_def split_beta world0 using spares_set_request(1) by simp
  show ?thesis
    using a b c d e f g by (meson spares_trans)
qed

lemma Resume_spares:
  assumes "attached_own s"
  shows "spares u s (snd (ResumeAccountDeletion e u s))"
proof -
  have step: "spares u s t" if "spares u s s1" "spares u s1 t" for s1 t
    using that by (rule spares_trans)
  have noted: "spares u s1 (recordFailure e u c s1)" for c s1
    by (simp add: recordFailure_def spares_set_request spares_refl split: option.splits)
  have ident: "spares u s1 (snd (delete_identity e u r s1))" for r s1
  proof -
    obtain q t where "delete_identity e u r s1 = (q, t)"
      by (cases "delete_identity e u r s1")
    then show ?thesis
      using noted [of s1] spares_trans [OF spares_set_request(1) spares_set_request(2)]
      by (auto simp: delete_identity_def transact_def mark_body_def spares_refl spares_set_request
          split: option.splits bool.splits commit.splits)
  qed
  have cleaned: "spares u s (snd (cleanDatabase e u s))"
  proof -
    obtain q t where "cleanDatabase e u s = (q, t)"
      by (cases "cleanDatabase e u s")
    then show ?thesis
      using cleanDatabase_cases [of e u s q t] clean_spares [OF assms] spares_trans [OF clean_spares [OF assms] spares_set_request(2)]
      by (auto simp: spares_refl)
  qed
  show ?thesis
    unfolding ResumeAccountDeletion_def
    by (auto simp: spares_refl split_beta split: option.splits sum.splits intro: step [OF cleaned noted] step [OF cleaned ident] noted ident cleaned)
qed


text \<open>A user with a private page and a public reel that a friend saved too.\<close>

definition neighbours :: account_store where
  "neighbours =
     \<lparr>as_world = empty_world\<lparr>
        contents := [\<lparr>c_id = ''c1'', c_platform = ''web'', c_type = ''article'', c_source = None, c_normalized = ''https://a.co/'', c_hash = ''h1'', c_scope = ''0a'', c_current = None\<rparr>,
                     \<lparr>c_id = ''c2'', c_platform = ''instagram'', c_type = ''reel'', c_source = Some ''x'', c_normalized = ''https://b.co/'', c_hash = ''h2'', c_scope = ''public'', c_current = None\<rparr>],
        saves := [\<lparr>s_id = ''s1'', s_user = ''ann'', s_content = ''c1'', s_saved = 0\<rparr>,
                  \<lparr>s_id = ''s2'', s_user = ''ann'', s_content = ''c2'', s_saved = 0\<rparr>,
                  \<lparr>s_id = ''s3'', s_user = ''bob'', s_content = ''c2'', s_saved = 0\<rparr>]\<rparr>,
      as_users = [''ann'', ''bob''], as_served = [''ann''], as_reminders = [], as_tracks = [],
      as_push = \<lparr>ps_tokens = [], ps_notes = []\<rparr>, as_requests = []\<rparr>"

definition calm_calls :: del_env where
  "calm_calls = \<lparr>de_insert = None, de_read = None, de_clean = Committed, de_note = None, de_auth = Some True, de_mark = Committed, de_now = 5\<rparr>"

definition failing_calls :: del_env where
  "failing_calls = calm_calls\<lparr>de_auth := None\<rparr>"

lemma neighbours_ok: "owners_known neighbours" "as_requests neighbours = []" "attached_own neighbours"
  by (simp_all add: neighbours_def owners_known_def owners_def attached_own_def empty_world_def)

lemma failed_attempt: "account_reach neighbours (snd (DeleteAccount failing_calls ''ann'' neighbours))"
  by (rule account_reach.step [OF account_reach.here account_step.asked])

lemma failed_request: "''ann'' \<in> dr_user ` set (as_requests (snd (DeleteAccount failing_calls ''ann'' neighbours)))"
proof -
  have "dr_user ` set (as_requests (snd (ResumeAccountDeletion failing_calls ''ann'' s))) = dr_user ` set (as_requests s)" if "as_requests s = [new_request 5 ''ann'']" for s
    using that clean_body_ok [of 5 "''ann''" s]
    by (auto simp: ResumeAccountDeletion_def failing_calls_def calm_calls_def cleanDatabase_def transact_def delete_identity_def recordFailure_def
        new_request_def clean_requests)
  then show ?thesis
    by (simp add: DeleteAccount_def failing_calls_def calm_calls_def record_request_def neighbours_def new_request_def)
qed


lemma failed_answer: "\<exists>rep t. DeleteAccount failing_calls ''ann'' neighbours = (Inr rep, t)"
proof -
  have r: "as_requests (record_request 5 ''ann'' neighbours) = [new_request 5 ''ann'']"
    by (simp add: record_request_def neighbours_def new_request_def)
  obtain rep where "clean_body 5 ''ann'' (record_request 5 ''ann'' neighbours) = Inr (rep, clean_store 5 ''ann'' (record_request 5 ''ann'' neighbours))"
    using clean_body_ok by blast
  then have "\<exists>t. cleanDatabase failing_calls ''ann'' (record_request 5 ''ann'' neighbours) = (Inr rep, t)"
    by (simp add: cleanDatabase_def transact_def invalidate_user_def failing_calls_def calm_calls_def)
  then show ?thesis
    by (elim exE) (simp add: DeleteAccount_def ResumeAccountDeletion_def r new_request_def delete_identity_def failing_calls_def calm_calls_def)
qed

theorem deleted_account_stays_deleted_witness:
  "\<exists>rep t. DeleteAccount failing_calls ''ann'' neighbours = (Inr rep, t) \<and> rp_cleaned rep \<and> ''ann'' \<notin> set (owners t)
     \<and> Pending_deletion None ''ann'' t = Inr (rp_pending rep)"
  using deleted_account_stays_deleted [OF neighbours_ok(1,2) account_reach.here] failed_answer by blast


end
