(* ===== verification/Purge.thy ===== *)
theory Purge
  imports Deletion Enqueue
begin

text \<open>
  The privileged purge of a source with its blocklist (\<open>internal/lifecycle/purge.go\<close> and the trigger of
  \<open>00009_source_blocklist.sql\<close>), and the retention of temporary data (\<open>internal/lifecycle/retention.go\<close>
  and the sweep of \<open>internal/storage/workspace.go\<close>).
\<close>

subsection \<open>The blocklist\<close>

record block_row =
  bl_platform :: string
  bl_type :: string
  bl_source :: "string option"
  bl_hash :: "string option"
  bl_reason :: string
  bl_by :: string

record purge_target =
  pt_platform :: string
  pt_type :: string
  pt_id :: string
  pt_hash :: string

definition nullable :: "string \<Rightarrow> string option" where
  "nullable v = (if v = [] then None else Some v)"

definition target_valid :: "purge_target \<Rightarrow> string option" where
  "target_valid t =
     (if pt_platform t = [] \<or> pt_type t = [] then Some ''a purge target needs a platform and a content type''
      else if pt_id t = [] \<and> pt_hash t = [] then Some ''a purge target needs a source content id or a normalized url hash''
      else None)"

definition matchClause :: "purge_target \<Rightarrow> content_row \<Rightarrow> bool" where
  "matchClause t c =
     ((nullable (pt_id t) \<noteq> None \<and> c_platform c = pt_platform t \<and> c_type c = pt_type t \<and> c_source c = nullable (pt_id t))
      \<or> (nullable (pt_hash t) \<noteq> None \<and> Some (c_hash c) = nullable (pt_hash t)))"

text \<open>The trigger in front of every insert into \<open>contents\<close>.\<close>

definition rejects :: "block_row list \<Rightarrow> content_row \<Rightarrow> bool" where
  "rejects bl c = list_ex (\<lambda>b.
     (bl_source b \<noteq> None \<and> bl_platform b = c_platform c \<and> bl_type b = c_type c \<and> bl_source b = c_source c)
     \<or> (bl_hash b \<noteq> None \<and> bl_hash b = Some (c_hash c))) bl"

definition Blocked :: "string option \<Rightarrow> purge_target \<Rightarrow> block_row list \<Rightarrow> string + bool" where
  "Blocked fault t bl =
     (case fault of Some m \<Rightarrow> Inl m
      | None \<Rightarrow> Inr (list_ex (\<lambda>b.
          (bl_source b \<noteq> None \<and> bl_platform b = pt_platform t \<and> bl_type b = pt_type t \<and> bl_source b = nullable (pt_id t))
          \<or> (bl_hash b \<noteq> None \<and> bl_hash b = nullable (pt_hash t))) bl))"

definition target_row :: "purge_target \<Rightarrow> string \<Rightarrow> string \<Rightarrow> block_row" where
  "target_row t reason by_whom =
     \<lparr>bl_platform = pt_platform t, bl_type = pt_type t, bl_source = nullable (pt_id t), bl_hash = nullable (pt_hash t),
      bl_reason = reason, bl_by = by_whom\<rparr>"

text \<open>The two unique indexes; \<open>ON CONFLICT DO NOTHING\<close> gives way to a conflict on either of them.\<close>

definition clashes :: "block_row list \<Rightarrow> block_row \<Rightarrow> bool" where
  "clashes bl n = list_ex (\<lambda>b.
     (bl_source n \<noteq> None \<and> bl_source b = bl_source n \<and> bl_platform b = bl_platform n \<and> bl_type b = bl_type n)
     \<or> (bl_hash n \<noteq> None \<and> bl_hash b = bl_hash n)) bl"

definition block_source :: "block_row \<Rightarrow> block_row list \<Rightarrow> block_row list" where
  "block_source n bl = (if clashes bl n then bl else bl @ [n])"

subsection \<open>The purge\<close>

record purge_report =
  pr_contents :: nat
  pr_versions :: nat
  pr_saves :: nat
  pr_runs :: nat
  pr_objects :: nat
  pr_skipped :: nat
  pr_blocklisted :: bool

definition purged_ids :: "purge_target \<Rightarrow> world \<Rightarrow> string list" where
  "purged_ids t w = map c_id (filter (matchClause t) (contents w))"

text \<open>The objects are deleted after the commit; \<open>None\<close> is a purge without an object store.\<close>

definition delete_object :: "(string \<Rightarrow> bool) option \<Rightarrow> purge_report \<Rightarrow> string \<Rightarrow> purge_report" where
  "delete_object store r ref =
     (case store of None \<Rightarrow> r\<lparr>pr_skipped := pr_skipped r + 1\<rparr>
      | Some deletes \<Rightarrow> if deletes ref then r\<lparr>pr_objects := pr_objects r + 1\<rparr> else r\<lparr>pr_skipped := pr_skipped r + 1\<rparr>)"

definition purge_Run :: "(string \<Rightarrow> bool) option \<Rightarrow> commit \<Rightarrow> purge_target \<Rightarrow> string \<Rightarrow> string
    \<Rightarrow> account_store \<times> block_row list \<Rightarrow> (string + purge_report) \<times> account_store \<times> block_row list" where
  "purge_Run store c t reason by_whom st =
     (case st of (s, bl) \<Rightarrow>
        (case target_valid t of Some m \<Rightarrow> (Inl m, st)
         | None \<Rightarrow>
           if reason = [] \<or> by_whom = [] then (Inl ''a purge needs a reason and an operator'', st)
           else (let w = as_world s; ids = purged_ids t w;
                     refs = map v_thumbnail (filter (\<lambda>v. v_content v \<in> set ids) (versions w));
                     r = \<lparr>pr_contents = matching (matchClause t) (contents w),
                          pr_versions = matching (\<lambda>v. v_content v \<in> set ids) (versions w),
                          pr_saves = matching (\<lambda>x. s_content x \<in> set ids) (saves w),
                          pr_runs = matching (\<lambda>x. run_content x \<in> set ids) (runs w),
                          pr_objects = 0, pr_skipped = 0, pr_blocklisted = True\<rparr>;
                     st' = (drop_contents (matchClause t) s, block_source (target_row t reason by_whom) bl)
                 in (case c of
                       RolledBack m \<Rightarrow> (Inl m, st)
                     | Unheard m \<Rightarrow> (Inl m, st')
                     | Committed \<Rightarrow> (Inr (foldl (delete_object store) r refs), st')))))"

subsection \<open>Retention\<close>

definition day :: duration where "day = 24 * hour"
definition StageResultRetention :: duration where "StageResultRetention = 14 * day"
definition PublishedEventRetention :: duration where "PublishedEventRetention = 7 * day"
definition AbandonedWorkspaceAge :: duration where "AbandonedWorkspaceAge = hour"

text \<open>An entry of the workspace root: its name, whether it is a directory, and its time of modification unless
  asking for it fails.\<close>

record dir_entry =
  en_name :: string
  en_dir :: bool
  en_mod :: "time option"

definition abandoned :: "duration \<Rightarrow> time \<Rightarrow> dir_entry \<Rightarrow> bool" where
  "abandoned older now e =
     (en_dir e \<and> has_prefix (en_name e) ''job-'' \<and> (case en_mod e of None \<Rightarrow> False | Some m \<Rightarrow> older \<le> now - m))"

text \<open>\<open>removable\<close>: whether the removal of a directory succeeds.\<close>

definition workspace_Sweep :: "(string \<Rightarrow> bool) \<Rightarrow> duration \<Rightarrow> time \<Rightarrow> dir_entry list \<Rightarrow> nat \<times> dir_entry list" where
  "workspace_Sweep removable older now entries =
     (matching (\<lambda>e. abandoned older now e \<and> removable (en_name e)) entries,
      filter (\<lambda>e. \<not> (abandoned older now e \<and> removable (en_name e))) entries)"

record retention_report =
  rr_keys :: nat
  rr_events :: nat
  rr_stages :: nat
  rr_workspaces :: nat

text \<open>\<open>sw_clock\<close> is \<open>now()\<close> of the database at the three statements, \<open>sw_fails\<close> which of them fails;
  \<open>sw_root\<close> the entries of the workspace root: \<open>None\<close> when the process has no root, an error when reading it fails.\<close>

record sweep_env =
  sw_clock :: "time \<times> time \<times> time"
  sw_fails :: "nat option"
  sw_now :: time
  sw_root :: "(string + dir_entry list) option"
  sw_removable :: "string \<Rightarrow> bool"

definition old_key :: "time \<Rightarrow> idem_row \<Rightarrow> bool" where
  "old_key now k = (k_expires k < now)"

definition old_event :: "time \<Rightarrow> event_row \<Rightarrow> bool" where
  "old_event now e = before (ev_published e) (now - PublishedEventRetention)"

definition old_result :: "time \<Rightarrow> world \<Rightarrow> stage_row \<Rightarrow> bool" where
  "old_result now w x = list_ex (\<lambda>r. run_id r = sr_run x \<and> run_state r \<in> {RunCompleted, RunFailed}
     \<and> run_updated r < now - StageResultRetention) (runs w)"

definition retention_Sweep :: "sweep_env \<Rightarrow> world \<Rightarrow> (string option \<times> retention_report) \<times> world \<times> dir_entry list" where
  "retention_Sweep e w =
     (case sw_clock e of (t1, t2, t3) \<Rightarrow>
      let left = (case sw_root e of Some (Inr d) \<Rightarrow> d | _ \<Rightarrow> []);
          r0 = \<lparr>rr_keys = 0, rr_events = 0, rr_stages = 0, rr_workspaces = 0\<rparr>;
          r1 = r0\<lparr>rr_keys := matching (old_key t1) (idem w)\<rparr>;
          w1 = w\<lparr>idem := filter (\<lambda>k. \<not> old_key t1 k) (idem w)\<rparr>;
          r2 = r1\<lparr>rr_events := matching (old_event t2) (events w)\<rparr>;
          w2 = w1\<lparr>events := filter (\<lambda>x. \<not> old_event t2 x) (events w1)\<rparr>;
          r3 = r2\<lparr>rr_stages := matching (old_result t3 w) (stage_results w)\<rparr>;
          w3 = w2\<lparr>stage_results := filter (\<lambda>x. \<not> old_result t3 w2 x) (stage_results w2)\<rparr>
      in if sw_fails e = Some 1 then ((Some ''removing expired idempotency keys'', r0), w, left)
         else if sw_fails e = Some 2 then ((Some ''removing published events'', r1), w1, left)
         else if sw_fails e = Some 3 then ((Some ''removing old stage results'', r2), w2, left)
         else (case sw_root e of
                 None \<Rightarrow> ((None, r3), w3, [])
               | Some (Inl m) \<Rightarrow> ((Some m, r3), w3, [])
               | Some (Inr d) \<Rightarrow>
                   (case workspace_Sweep (sw_removable e) AbandonedWorkspaceAge (sw_now e) d of
                      (n, d') \<Rightarrow> ((None, r3\<lparr>rr_workspaces := n\<rparr>), w3, d'))))"

subsection \<open>Submissions and contents\<close>

lemma finish_contents: "finish now s h st w = Inr (out, w') \<Longrightarrow> contents w' = contents w"
  by (auto simp: finish_def Let_def bind_r_Inr_iff split: if_splits)

lemma fileIntoCollections_contents [simp]: "contents (fileIntoCollections now u x ids w) = contents w"
  by (simp add: fileIntoCollections_def Let_def)

lemma mergeJobCollections_contents [simp]: "contents (mergeJobCollections now i ids w) = contents w"
  by (simp add: mergeJobCollections_def)

lemma upsert_save_contents: "upsert_save new now u c w = (x, w') \<Longrightarrow> contents w' = contents w"
  by (auto simp: upsert_save_def split: option.splits)
lemma fileSaves_contents: "fileSaves is_uuid now u c ids w = Inr (x, w') \<Longrightarrow> contents w' = contents w"
  by (auto simp: fileSaves_def Let_def bind_r_Inr_iff split: if_splits option.splits)

lemma fileSubmission_contents: "fileSubmission is_uuid now u x cs w = Inr w' \<Longrightarrow> contents w' = contents w"
proof (induction cs arbitrary: w)
  case (Cons c cs)
  then obtain y w1 where "fileSaves is_uuid now u c [x] w = Inr (y, w1)" "fileSubmission is_uuid now u x cs w1 = Inr w'"
    by (auto simp: bind_r_Inr_iff)
  then show ?case
    using Cons.IH [of w1] fileSaves_contents by metis
qed simp

lemma filed_contents:
  assumes "bind_r (fileSubmission is_uuid now u x cs w) (finish now s h st) = Inr (out, w')"
  shows "contents w' = contents w"
proof -
  obtain w1 where "fileSubmission is_uuid now u x cs w = Inr w1" "finish now s h st w1 = Inr (out, w')"
    using assms by (auto simp: bind_r_Inr_iff)
  then show ?thesis
    using fileSubmission_contents finish_contents by metis
qed

lemma reuse_contents:
  assumes "reuse_content e s h c w = Inr (out, w')"
  shows "contents w' = contents w"
proof -
  obtain x w1 where u: "upsert_save (f_save (se_ids e)) (se_now e) (rq_user (sub_request s)) c w = (x, w1)"
    by (metis prod.exhaust)
  have "bind_r (fileSubmission (se_uuid e) (se_now e) (rq_user (sub_request s)) x (rq_collections (sub_request s))
      (w1\<lparr>jobs := jobs w1 @ [reuse_job (se_now e) (f_job (se_ids e)) x s]\<rparr>)) (finish (se_now e) s h (ready Reused x)) = Inr (out, w')"
    using assms by (simp add: reuse_content_def u Let_def)
  from filed_contents [OF this] have "contents w' = contents w1"
    by simp
  then show ?thesis
    using upsert_save_contents [OF u] by simp
qed

lemma join_contents: "join_run e s h c w = Inr (out, w') \<Longrightarrow> contents w' = contents w"
  by (auto simp: join_run_def Let_def bind_r_Inr_iff Insert_def insert_event_def findOrCreateRun_def
      split: option.splits if_splits prod.splits list.splits dest!: finish_contents)

text \<open>A submission inserts at most one content, one that the trigger lets through.\<close>

lemma submitNew_contents:
  assumes "submitNew e s h w = Inr (out, w')"
  shows "contents w' = contents w \<or> (\<exists>c. \<not> se_blocked e c \<and> contents w' = contents w @ [c])"
proof -
  have found: "contents w1 = contents w \<or> (\<exists>x. \<not> se_blocked e x \<and> contents w1 = contents w @ [x])"
    if "findOrCreateContent (se_sha e) (se_raced e) (se_blocked e) i s w = Inr (c, w1)" for i c w1
    using that by (auto simp: findOrCreateContent_def split: option.splits if_splits)
  consider (filed) "contents w' = contents w"
    | (new) i c w1 where "findOrCreateContent (se_sha e) (se_raced e) (se_blocked e) i s w = Inr (c, w1)" "contents w' = contents w1"
    using assms unfolding submitNew_def Let_def
    by (auto simp: bind_r_Inr_iff dest: finish_contents join_contents reuse_contents fileSubmission_contents
        split: option.splits if_splits; metis finish_contents fileSubmission_contents join_contents reuse_contents mergeJobCollections_contents)
  then show ?thesis
    using found by cases auto
qed

lemma Submit_contents:
  assumes "Submit e s w = Inr (out, w')"
  shows "contents w' = contents w \<or> (\<exists>c. \<not> se_blocked e c \<and> contents w' = contents w @ [c])"
  using assms by (cases rule: Submit_cases) (auto dest: submitNew_contents)

subsection \<open>A purged source\<close>

text \<open>What happens to the contents and the blocklist: submissions, further purges, and everything else, which may
  update and delete contents but inserts none.\<close>

definition same_source :: "content_row \<Rightarrow> content_row \<Rightarrow> bool" where
  "same_source c d \<longleftrightarrow> c_platform c = c_platform d \<and> c_type c = c_type d \<and> c_source c = c_source d \<and> c_hash c = c_hash d"

inductive source_step :: "account_store \<times> block_row list \<Rightarrow> account_store \<times> block_row list \<Rightarrow> bool" where
  submitted: "Submit e r (as_world s) = Inr (out, w') \<Longrightarrow> se_blocked e = rejects bl \<Longrightarrow> source_step (s, bl) (s\<lparr>as_world := w'\<rparr>, bl)"
| purged: "source_step st (snd (purge_Run store c t reason by_whom st))"
| others: "(\<And>c. c \<in> set (contents (as_world s')) \<Longrightarrow> \<exists>d \<in> set (contents (as_world s)). same_source c d) \<Longrightarrow> source_step (s, bl) (s', bl)"

inductive source_reach :: "account_store \<times> block_row list \<Rightarrow> account_store \<times> block_row list \<Rightarrow> bool" where
  here: "source_reach st st"
| step: "source_reach st st' \<Longrightarrow> source_step st' st'' \<Longrightarrow> source_reach st st''"

lemma block_source_incl: "set bl \<subseteq> set (block_source n bl)"
  by (auto simp: block_source_def)

lemma purge_Run_cases: "snd (purge_Run store c t reason by_whom (s, bl)) = (s, bl)
   \<or> snd (purge_Run store c t reason by_whom (s, bl)) = (drop_contents (matchClause t) s, block_source (target_row t reason by_whom) bl)"
  by (simp add: purge_Run_def Let_def split: option.split commit.split)

lemma rejects_mono: "set bl \<subseteq> set bl' \<Longrightarrow> rejects bl c \<Longrightarrow> rejects bl' c"
  by (auto simp: rejects_def list_ex_iff)

lemma matchClause_same: "same_source c d \<Longrightarrow> matchClause t c = matchClause t d"
  by (simp add: same_source_def matchClause_def)

text \<open>The blocklist covers the target and no content of it is there.\<close>

definition shut :: "purge_target \<Rightarrow> account_store \<times> block_row list \<Rightarrow> bool" where
  "shut t st \<longleftrightarrow> (\<forall>c. matchClause t c \<longrightarrow> rejects (snd st) c) \<and> (\<forall>c \<in> set (contents (as_world (fst st))). \<not> matchClause t c)"

lemma source_step_shut: "source_step st st' \<Longrightarrow> shut t st \<Longrightarrow> shut t st' \<and> set (snd st) \<subseteq> set (snd st')"
proof (induction rule: source_step.induct)
  case (submitted e r s out w' bl)
  then show ?case
    using Submit_contents [OF submitted(1)] by (auto simp: shut_def)
next
  case (purged st store c t' reason by_whom)
  obtain s bl where st: "st = (s, bl)"
    by (cases st)
  show ?case
    using purged purge_Run_cases [of store c t' reason by_whom s bl] block_source_incl [of bl "target_row t' reason by_whom"]
      rejects_mono [of bl "block_source (target_row t' reason by_whom) bl"]
    by (auto simp: st shut_def)
next
  case (others s' s bl)
  then show ?case
    using matchClause_same by (fastforce simp: shut_def)
qed

lemma source_reach_shut: "source_reach st st' \<Longrightarrow> shut t st \<Longrightarrow> shut t st' \<and> set (snd st) \<subseteq> set (snd st')"
  by (induction rule: source_reach.induct) (auto dest: source_step_shut)

lemma blocked_target:
  assumes "pt_id t = [] \<or> pt_hash t = [] \<or> \<not> clashes bl (target_row t reason by_whom)" "matchClause t c"
  shows "rejects (block_source (target_row t reason by_whom) bl) c"
  using assms
  by (auto simp: block_source_def clashes_def rejects_def target_row_def matchClause_def nullable_def list_ex_iff split: if_splits)

lemma purge_committed:
  assumes "purge_Run store c t reason by_whom (s, bl) = (Inr rep, s', bl')"
  shows "s' = drop_contents (matchClause t) s \<and> bl' = block_source (target_row t reason by_whom) bl \<and> target_valid t = None"
  using assms by (auto simp: purge_Run_def Let_def split: option.splits if_splits commit.splits)

text \<open>C20: a purged source is gone and does not come back: after a purge that reports success nothing derived
  from a content of the source is left, neither the content nor its versions, saves or runs, and whatever is
  submitted, purged, updated or deleted afterwards, no content of the source is inserted again and the source
  is still reported as blocked.  The purge must not name both forms of a source of which one is blocked already.\<close>

theorem purged_source_never_returns:
  assumes "purge_Run store c t reason by_whom (s, bl) = (Inr rep, s1, bl1)"
    and "pt_id t = [] \<or> pt_hash t = [] \<or> \<not> clashes bl (target_row t reason by_whom)"
    and "source_reach (s1, bl1) (s2, bl2)"
  shows "(\<forall>x \<in> set (contents (as_world s)). matchClause t x \<longrightarrow>
        (\<forall>v \<in> set (versions (as_world s1)). v_content v \<noteq> c_id x) \<and> (\<forall>y \<in> set (saves (as_world s1)). s_content y \<noteq> c_id x)
        \<and> (\<forall>r \<in> set (runs (as_world s1)). run_content r \<noteq> c_id x))
    \<and> (\<forall>x \<in> set (contents (as_world s2)). \<not> matchClause t x) \<and> Blocked None t bl2 = Inr True"
proof -
  have s1: "s1 = drop_contents (matchClause t) s" and bl1: "bl1 = block_source (target_row t reason by_whom) bl" and ok: "target_valid t = None"
    using purge_committed [OF assms(1)] by simp_all
  have "shut t (s1, bl1)"
    using blocked_target [OF assms(2)] by (simp add: shut_def s1 bl1)
  then have "shut t (s2, bl2)" and grows: "set bl1 \<subseteq> set bl2"
    using source_reach_shut [OF assms(3)] by simp_all
  moreover have "Blocked None t bl1 = Inr True"
    using assms(2) ok
    by (auto simp: bl1 Blocked_def block_source_def clashes_def target_row_def nullable_def target_valid_def list_ex_iff split: if_splits)
  then have "Blocked None t bl2 = Inr True"
    using grows by (auto simp: Blocked_def list_ex_iff)
  ultimately show ?thesis
    by (auto simp: shut_def s1)
qed

text \<open>The reel of the sample store, purged by both of its forms.\<close>

definition reel_target :: purge_target where
  "reel_target = \<lparr>pt_platform = ''instagram'', pt_type = ''reel'', pt_id = ''x'', pt_hash = ''h2''\<rparr>"

lemma reel_ids: "purged_ids reel_target (as_world neighbours) = [''c2'']" "matching (matchClause reel_target) (contents (as_world neighbours)) = 1"
  by (simp_all add: purged_ids_def matching_def neighbours_def empty_world_def matchClause_def reel_target_def nullable_def)

lemma reel_purged: "purge_Run None Committed reel_target ''court'' ''op'' (neighbours, [])
   = (Inr \<lparr>pr_contents = 1, pr_versions = 0, pr_saves = 2, pr_runs = 0, pr_objects = 0, pr_skipped = 0, pr_blocklisted = True\<rparr>,
      drop_contents (matchClause reel_target) neighbours, [target_row reel_target ''court'' ''op''])"
proof -
  have "target_valid reel_target = None"
    by (simp add: target_valid_def reel_target_def)
  then show ?thesis
    by (simp add: purge_Run_def Let_def reel_ids block_source_def clashes_def)
       (simp add: neighbours_def empty_world_def matching_def)
qed

theorem purged_source_never_returns_witness:
  "\<exists>rep s1 bl1. purge_Run None Committed reel_target ''court'' ''op'' (neighbours, []) = (Inr rep, s1, bl1)
     \<and> pr_contents rep = 1 \<and> Blocked None reel_target bl1 = Inr True
     \<and> ''c2'' \<notin> s_content ` set (saves (as_world s1))"
proof -
  have fresh: "pt_id reel_target = [] \<or> pt_hash reel_target = [] \<or> \<not> clashes [] (target_row reel_target ''court'' ''op'')"
    by (simp add: clashes_def)
  have "''c2'' \<in> set (purged_ids reel_target (as_world neighbours))"
    by (simp add: reel_ids)
  then obtain x where "x \<in> set (contents (as_world neighbours))" "matchClause reel_target x" "c_id x = ''c2''"
    by (auto simp: purged_ids_def)
  note x = this
  note p = purged_source_never_returns [OF reel_purged fresh source_reach.here]
  have closed: "Blocked None reel_target [target_row reel_target ''court'' ''op''] = Inr True"
    using p by blast
  have "\<forall>y \<in> set (saves (as_world (drop_contents (matchClause reel_target) neighbours))). s_content y \<noteq> ''c2''"
    using p x by metis
  then have gone: "''c2'' \<notin> s_content ` set (saves (as_world (drop_contents (matchClause reel_target) neighbours)))" by auto
  show ?thesis
    by (rule exI, rule exI, rule exI, rule conjI [OF reel_purged], rule conjI [OF _ conjI [OF closed gone]]) simp
qed

text \<open>Of two forms only one may be new: the source was blocked by the hash of one spelling, a second purge names
  the stable id as well, reports success, and another spelling with that id is let in.\<close>

lemma half_known_source_is_not_blocked:
  defines "bl \<equiv> [\<lparr>bl_platform = ''instagram'', bl_type = ''reel'', bl_source = None, bl_hash = Some ''h2'', bl_reason = ''r'', bl_by = ''op''\<rparr>]"
    and "spelling \<equiv> \<lparr>c_id = ''c9'', c_platform = ''instagram'', c_type = ''reel'', c_source = Some ''x'', c_normalized = ''u'', c_hash = ''h9'', c_scope = ''public'', c_current = None\<rparr>"
  shows "\<exists>rep s' bl'. purge_Run None Committed reel_target ''court'' ''op'' (neighbours, bl) = (Inr rep, s', bl')
    \<and> pr_blocklisted rep \<and> matchClause reel_target spelling \<and> \<not> rejects bl' spelling"
  by (simp add: assms purge_Run_def reel_target_def target_valid_def Let_def matchClause_def nullable_def target_row_def
      block_source_def clashes_def rejects_def neighbours_def empty_world_def purged_ids_def)

subsection \<open>What retention keeps\<close>

lemma find_filter_keep: "(\<And>x. x \<in> set xs \<Longrightarrow> Q x \<Longrightarrow> P x) \<Longrightarrow> find Q (filter P xs) = find Q xs"
  by (induction xs) auto

text \<open>The three statements in turn, as far as they get.\<close>

lemma sweep_tables:
  assumes "retention_Sweep e w = (r, w', d)" "sw_clock e = (t1, t2, t3)"
  shows "idem w' = idem w \<or> idem w' = filter (\<lambda>k. \<not> old_key t1 k) (idem w)"
    and "events w' = events w \<or> events w' = filter (\<lambda>x. \<not> old_event t2 x) (events w)"
    and "stage_results w' = stage_results w \<or> stage_results w' = filter (\<lambda>x. \<not> old_result t3 w x) (stage_results w)"
proof -
  have runs_same: "old_result t3 (w\<lparr>idem := a, events := b\<rparr>) = old_result t3 w" for a b
    by (auto simp: old_result_def fun_eq_iff)
  show "idem w' = idem w \<or> idem w' = filter (\<lambda>k. \<not> old_key t1 k) (idem w)"
    "events w' = events w \<or> events w' = filter (\<lambda>x. \<not> old_event t2 x) (events w)"
    "stage_results w' = stage_results w \<or> stage_results w' = filter (\<lambda>x. \<not> old_result t3 w x) (stage_results w)"
    using assms by (auto simp: retention_Sweep_def Let_def runs_same split: if_splits option.splits sum.splits prod.splits)
qed

lemma sweep_dirs:
  assumes "retention_Sweep e w = (r, w', d)" "sw_root e = Some (Inr d0)"
  shows "x \<in> set d0 \<Longrightarrow> \<not> abandoned AbandonedWorkspaceAge (sw_now e) x \<Longrightarrow> x \<in> set d"
  using assms by (auto simp: retention_Sweep_def Let_def workspace_Sweep_def split: if_splits prod.splits)

text \<open>retention removes nothing that is still needed, whichever of its statements fails: every event that waits to
  be published, every event published in the last week, the checkpoints of every run that has not finished (so that
  it resumes where it was) and every stored answer that a retry could still get; and no directory that is younger
  than an hour or is not a job's.\<close>

theorem retention_keeps_what_is_needed:
  assumes "retention_Sweep e w = (r, w', d)" "sw_clock e = (t1, t2, t3)" "run_keys w"
  shows "filter (\<lambda>x. ev_published x = None) (events w') = filter (\<lambda>x. ev_published x = None) (events w)
    \<and> (\<forall>x \<in> set (events w). (\<forall>p. ev_published x = Some p \<longrightarrow> t2 - 7 * 24 * hour \<le> p) \<longrightarrow> x \<in> set (events w'))
    \<and> (\<forall>q \<in> set (runs w). live_status (run_state q) \<longrightarrow>
         loadCheckpoint unmarshal (run_id q) stage hash w' = loadCheckpoint unmarshal (run_id q) stage hash w)
    \<and> (\<forall>m now. t1 \<le> now \<longrightarrow> find (\<lambda>k. idem_match m k \<and> now < k_expires k) (idem w') = find (\<lambda>k. idem_match m k \<and> now < k_expires k) (idem w))
    \<and> (\<forall>d0. sw_root e = Some (Inr d0) \<longrightarrow> (\<forall>x \<in> set d0. \<not> en_dir x \<or> \<not> has_prefix (en_name x) ''job-''
         \<or> (\<exists>m. en_mod x = Some m \<and> sw_now e - m < hour) \<longrightarrow> x \<in> set d))"
proof (intro conjI ballI allI impI)
  note t = sweep_tables [OF assms(1,2)]
  have old: "\<not> old_event t2 x" if "ev_published x = None" for x
    using that by (simp add: old_event_def)
  show "filter (\<lambda>x. ev_published x = None) (events w') = filter (\<lambda>x. ev_published x = None) (events w)"
    using t(2) filter_twice [of "events w" "\<lambda>x. ev_published x = None" "\<lambda>x. \<not> old_event t2 x"] old by auto
  show "x \<in> set (events w')" if "x \<in> set (events w)" "\<forall>p. ev_published x = Some p \<longrightarrow> t2 - 7 * 24 * hour \<le> p" for x
    using t(2) that by (cases "ev_published x") (auto simp: old_event_def PublishedEventRetention_def day_def)
  show "loadCheckpoint unmarshal (run_id q) stage hash w' = loadCheckpoint unmarshal (run_id q) stage hash w"
    if q: "q \<in> set (runs w)" "live_status (run_state q)" for q
  proof -
    have young: "\<not> old_result t3 w x" if mine: "sr_run x = run_id q" for x
    proof
      assume "old_result t3 w x"
      then obtain p where p: "p \<in> set (runs w)" "run_id p = run_id q" "run_state p \<in> {RunCompleted, RunFailed}"
        using mine by (auto simp: old_result_def list_ex_iff)
      then have "p = q"
        using q(1) assms(3) distinct_key_eq [of run_id "runs w" p q] by (simp add: run_keys_def)
      then show False
        using p(3) q(2) by (auto simp: live_status_def)
    qed
    let ?Q = "\<lambda>r. stage_is (run_id q) stage r \<and> sr_hash r = hash \<and> sr_error r = None \<and> sr_finished r \<noteq> None"
    have "find ?Q (filter (\<lambda>x. \<not> old_result t3 w x) (stage_results w)) = find ?Q (stage_results w)"
      using young by (intro find_filter_keep) (auto simp: stage_is_def)
    then have "find ?Q (stage_results w') = find ?Q (stage_results w)"
      by (rule_tac disjE [OF t(3)]) (simp_all only:)
    then show ?thesis
      by (simp add: loadCheckpoint_def)
  qed
  show "find (\<lambda>k. idem_match m k \<and> now < k_expires k) (idem w') = find (\<lambda>k. idem_match m k \<and> now < k_expires k) (idem w)" if "t1 \<le> now" for m now
  proof -
    have "find (\<lambda>k. idem_match m k \<and> now < k_expires k) (filter (\<lambda>k. \<not> old_key t1 k) (idem w)) = find (\<lambda>k. idem_match m k \<and> now < k_expires k) (idem w)"
      using that by (intro find_filter_keep) (auto simp: old_key_def)
    then show ?thesis
      by (rule_tac disjE [OF t(1)]) (simp_all only:)
  qed
  show "x \<in> set d" if "sw_root e = Some (Inr d0)" "x \<in> set d0" "\<not> en_dir x \<or> \<not> has_prefix (en_name x) ''job-''
         \<or> (\<exists>m. en_mod x = Some m \<and> sw_now e - m < hour)" for d0 x
    using sweep_dirs [OF assms(1) that(1,2)] that(3) by (auto simp: abandoned_def AbandonedWorkspaceAge_def)
qed

theorem retention_keeps_what_is_needed_witness:
  "\<exists>r w' d. retention_Sweep \<lparr>sw_clock = (0, 0, 0), sw_fails = None, sw_now = 0, sw_root = None, sw_removable = (\<lambda>_. True)\<rparr> sample_world = (r, w', d)
     \<and> events w' = []"
proof -
  obtain r w' d where s: "retention_Sweep \<lparr>sw_clock = (0, 0, 0), sw_fails = None, sw_now = 0, sw_root = None, sw_removable = (\<lambda>_. True)\<rparr> sample_world = (r, w', d)"
    by (cases "retention_Sweep \<lparr>sw_clock = (0, 0, 0), sw_fails = None, sw_now = 0, sw_root = None, sw_removable = (\<lambda>_. True)\<rparr> sample_world")
  have "run_keys sample_world"
    by (simp add: run_keys_def sample_defs)
  from retention_keeps_what_is_needed [OF s _ this, of 0 0 0 "\<lambda>_ _. None" "[]" "[]"] sweep_tables(2) [OF s, of 0 0 0]
  show ?thesis
    using s by (auto simp: sample_defs)
qed

end
