(* ===== verification/Access.thy ===== *)
theory Access
  imports Deletion RateLimit Enqueue Int64
begin

text \<open>
  Who is calling: the verified session token (\<open>internal/auth\<close>), the native share token
  (\<open>internal/sharetoken\<close>), the signed bucket of the web boundary (\<open>internal/ratelimit/ipbucket.go\<close>), the route
  table and the middlewares around every handler (\<open>internal/httpapi/routes.go\<close>, \<open>server.go\<close>), and whom
  a limit counts against (\<open>limitSubject\<close> of \<open>enqueue.go\<close>).  The JOSE library is a parameter.
\<close>

subsection \<open>Session tokens\<close>

record caller =
  ca_user :: string
  ca_client :: string

definition nobody :: caller where "nobody = \<lparr>ca_user = [], ca_client = []\<rparr>"

text \<open>A protected header of a JWS: its algorithm and key id, if it has them.  The claims: the role unless it is absent
  or not a string, the subject if there is one, and the client: absent, not a string, or a string.\<close>

record token_head =
  th_alg :: "string option"
  th_kid :: "string option"

record claims =
  cl_role :: "string option"
  cl_subject :: "string option"
  cl_client :: "string option option"

text \<open>\<open>je_signatures\<close> is \<open>jws.Parse\<close>, \<open>je_verify\<close> is \<open>jwt.Parse\<close> with a key set, issuer, audience and skew;
  \<open>je_first\<close>, \<open>je_second\<close> are the answers of the key cache before and under the lock, \<open>je_refreshed\<close> that of a
  refresh.\<close>

record 'k jwt_env =
  je_signatures :: "string \<Rightarrow> token_head list option"
  je_verify :: "'k \<Rightarrow> string \<Rightarrow> claims option"
  je_kids :: "'k \<Rightarrow> string list"
  je_uuid :: "string \<Rightarrow> bool"
  je_first :: "'k option"
  je_second :: "'k option"
  je_refreshed :: "'k option"
  je_now :: time

definition jwksRefreshDelay :: duration where "jwksRefreshDelay = 5 * second"

definition es256KeyID :: "'k jwt_env \<Rightarrow> string \<Rightarrow> string option" where
  "es256KeyID e raw =
     (case je_signatures e raw of
        Some [h] \<Rightarrow> if th_alg h \<noteq> Some ''ES256'' then None
                    else (case th_kid h of None \<Rightarrow> None | Some k \<Rightarrow> if k = [] then None else Some k)
      | _ \<Rightarrow> None)"

definition keySet :: "'k jwt_env \<Rightarrow> string \<Rightarrow> time option \<Rightarrow> 'k option \<times> time option" where
  "keySet e kid last_refresh =
     (case je_first e of None \<Rightarrow> (None, last_refresh) | Some s1 \<Rightarrow>
        if kid \<in> set (je_kids e s1) then (Some s1, last_refresh)
        else (case je_second e of None \<Rightarrow> (None, last_refresh) | Some s2 \<Rightarrow>
          if kid \<in> set (je_kids e s2) then (Some s2, last_refresh)
          else if (case last_refresh of None \<Rightarrow> False | Some t \<Rightarrow> je_now e - t < jwksRefreshDelay) then (Some s2, last_refresh)
          else (je_refreshed e, Some (je_now e))))"

definition principal_of :: "(string \<Rightarrow> bool) \<Rightarrow> claims \<Rightarrow> caller option" where
  "principal_of is_uuid c =
     (if cl_role c \<noteq> Some ''authenticated'' then None
      else (case cl_subject c of None \<Rightarrow> None | Some u \<Rightarrow>
        if \<not> is_uuid u then None
        else (case cl_client c of
                None \<Rightarrow> Some \<lparr>ca_user = u, ca_client = []\<rparr>
              | Some None \<Rightarrow> None
              | Some (Some i) \<Rightarrow> if trim_space i = [] then None else Some \<lparr>ca_user = u, ca_client = i\<rparr>)))"

text \<open>Every refusal is \<open>ErrUnauthenticated\<close>: \<open>None\<close>.\<close>

definition Verifier_Authenticate :: "'k jwt_env \<Rightarrow> string \<Rightarrow> time option \<Rightarrow> caller option \<times> time option" where
  "Verifier_Authenticate e raw last_refresh =
     (case es256KeyID e raw of None \<Rightarrow> (None, last_refresh) | Some kid \<Rightarrow>
        (case keySet e kid last_refresh of
           (None, l) \<Rightarrow> (None, l)
         | (Some ks, l) \<Rightarrow>
             (case je_verify e ks raw of None \<Rightarrow> (None, l) | Some c \<Rightarrow> (principal_of (je_uuid e) c, l))))"

definition bearerToken :: "string \<Rightarrow> string" where
  "bearerToken header =
     (let value = trim_space header
      in if length value \<le> 7 \<or> \<not> equal_fold (take 7 value) ''bearer '' then [] else trim_space (drop 7 value))"

subsection \<open>Share tokens\<close>

record share_row =
  sh_user :: string
  sh_hash :: string
  sh_expires :: time
  sh_revoked :: "time option"

definition share_Lifetime :: duration where "share_Lifetime = 365 * 24 * hour"

definition share_Hash :: "(string \<Rightarrow> string) \<Rightarrow> string \<Rightarrow> string" where
  "share_Hash sha raw = sha (trim_space raw)"

datatype share_err = ErrUnknownToken | ShareOther string

text \<open>\<open>raw\<close> is the encoding of the random bytes; a hash that is there already violates its unique index.\<close>

definition share_Mint :: "(string \<Rightarrow> string) \<Rightarrow> string option \<Rightarrow> time \<Rightarrow> string \<Rightarrow> string \<Rightarrow> share_row list
    \<Rightarrow> (share_err + string \<times> time) \<times> share_row list" where
  "share_Mint sha fault now raw u rows =
     (case fault of Some m \<Rightarrow> (Inl (ShareOther m), rows)
      | None \<Rightarrow>
          if list_ex (\<lambda>r. sh_hash r = share_Hash sha raw) rows then (Inl (ShareOther ''duplicate key''), rows)
          else (Inr (raw, now + share_Lifetime),
                rows @ [\<lparr>sh_user = u, sh_hash = share_Hash sha raw, sh_expires = now + share_Lifetime, sh_revoked = None\<rparr>]))"

definition share_Authenticate :: "(string \<Rightarrow> string) \<Rightarrow> string option \<Rightarrow> time \<Rightarrow> string \<Rightarrow> share_row list \<Rightarrow> share_err + string" where
  "share_Authenticate sha fault now raw rows =
     (if trim_space raw = [] then Inl ErrUnknownToken
      else case fault of Some m \<Rightarrow> Inl (ShareOther m)
      | None \<Rightarrow> (case find (\<lambda>r. sh_hash r = share_Hash sha raw \<and> sh_revoked r = None \<and> now < sh_expires r) rows of
           None \<Rightarrow> Inl ErrUnknownToken | Some r \<Rightarrow> Inr (sh_user r)))"

definition share_RevokeAll :: "string option \<Rightarrow> time \<Rightarrow> string \<Rightarrow> share_row list \<Rightarrow> (share_err + nat) \<times> share_row list" where
  "share_RevokeAll fault now u rows =
     (case fault of Some m \<Rightarrow> (Inl (ShareOther m), rows)
      | None \<Rightarrow> (Inr (matching (\<lambda>r. sh_user r = u \<and> sh_revoked r = None) rows),
                 update_where (\<lambda>r. sh_user r = u \<and> sh_revoked r = None) (\<lambda>r. r\<lparr>sh_revoked := Some now\<rparr>) rows))"

subsection \<open>The bucket of a request\<close>

definition MaxIPBucketSkew :: duration where "MaxIPBucketSkew = 5 * 60 * second"

definition isLowerHex :: "string \<Rightarrow> bool" where
  "isLowerHex s = list_all (\<lambda>c. is_digit c \<or> (97 \<le> char_code c \<and> char_code c \<le> 102)) s"

text \<open>\<open>time.Sub\<close> saturates at the ends of a duration, and the sign is turned in 64 bits.\<close>

definition saturated :: "int \<Rightarrow> int64" where
  "saturated d = (if d < min_int64 then word_of_int min_int64 else if d > max_int64 then word_of_int max_int64 else word_of_int d)"

definition skew_of :: "time \<Rightarrow> int \<Rightarrow> int64" where
  "skew_of now seconds = (let d = saturated (now - seconds * second) in if sint d < 0 then - d else d)"

text \<open>\<open>unhex\<close> is \<open>hex.DecodeString\<close>, \<open>mac\<close> the HMAC of a message under the secret.\<close>

definition VerifyIPBucket :: "(string \<Rightarrow> string option) \<Rightarrow> (string \<Rightarrow> string \<Rightarrow> string) \<Rightarrow> string \<Rightarrow> string \<Rightarrow> time \<Rightarrow> string" where
  "VerifyIPBucket unhex mac v secret now =
     (if v = [] \<or> secret = [] then []
      else (case split_on CHR ''.'' v of
        [version, issued, bucket, signature] \<Rightarrow>
          if version \<noteq> ''v1'' \<or> length bucket \<noteq> 32 \<or> \<not> isLowerHex bucket then []
          else (case parse_int issued of None \<Rightarrow> [] | Some seconds \<Rightarrow>
            (case unhex signature of None \<Rightarrow> [] | Some given \<Rightarrow>
              if given \<noteq> mac secret (version @ ''.'' @ issued @ ''.'' @ bucket) then []
              else if sint (skew_of now seconds) > MaxIPBucketSkew then []
              else bucket))
      | _ \<Rightarrow> []))"

text \<open>\<open>split_peer\<close> is \<open>net.SplitHostPort\<close>.\<close>

definition limitSubject :: "(string \<Rightarrow> string option) \<Rightarrow> (string \<Rightarrow> string \<Rightarrow> string) \<Rightarrow> (string \<Rightarrow> string option) \<Rightarrow> string \<Rightarrow> time
    \<Rightarrow> string \<Rightarrow> string \<Rightarrow> string" where
  "limitSubject unhex mac split_peer secret now header peer =
     (let bucket = VerifyIPBucket unhex mac header secret now
      in if bucket \<noteq> [] then bucket else (case split_peer peer of None \<Rightarrow> peer | Some host \<Rightarrow> host))"


subsection \<open>Routes\<close>

datatype auth_mode = AuthPublic | AuthBearer | AuthShareToken | AuthPublicShare

record route =
  ro_method :: string
  ro_path :: string
  ro_operation :: string
  ro_auth :: auth_mode
  ro_claims :: bool

abbreviation route :: "string \<Rightarrow> string \<Rightarrow> string \<Rightarrow> auth_mode \<Rightarrow> bool \<Rightarrow> route" where
  "route m p i a c \<equiv> \<lparr>ro_method = m, ro_path = p, ro_operation = i, ro_auth = a, ro_claims = c\<rparr>"

definition routeTable :: "route list" where
  "routeTable =
     [ route ''GET'' ''/api/v2/health/live'' ''getHealthLive'' AuthPublic True,
     route ''GET'' ''/api/v2/health/ready'' ''getHealthReady'' AuthPublic True,
     route ''GET'' ''/api/v2/reels'' ''listReels'' AuthBearer True,
     route ''GET'' ''/api/v2/reels/filters'' ''getReelFilters'' AuthBearer False,
     route ''GET'' ''/api/v2/reels/category-filters'' ''getReelCategoryFilters'' AuthBearer False,
     route ''GET'' ''/api/v2/reels/{reel_id}'' ''getReel'' AuthBearer True,
     route ''GET'' ''/api/v2/processing-jobs'' ''listProcessingJobs'' AuthBearer True,
     route ''GET'' ''/api/v2/processing-jobs/{job_id}'' ''getProcessingJob'' AuthBearer True,
     route ''GET'' ''/api/v2/account/library-stats'' ''getLibraryStats'' AuthBearer True,
     route ''GET'' ''/api/v2/account/entitlements'' ''getEntitlements'' AuthBearer True,
     route ''GET'' ''/api/v2/discover'' ''getDiscover'' AuthBearer True,
     route ''GET'' ''/api/v2/map/pins'' ''listMapPins'' AuthBearer True,
     route ''GET'' ''/api/v2/map/nearby'' ''listNearbyPins'' AuthBearer True,
     route ''POST'' ''/api/v2/map/manual-pins'' ''createManualPin'' AuthBearer True,
     route ''DELETE'' ''/api/v2/map/manual-pins/{pin_id}'' ''deleteManualPin'' AuthBearer True,
     route ''POST'' ''/api/v2/map/locations/{location_id}/hidden'' ''setPinHidden'' AuthBearer True,
     route ''GET'' ''/api/v2/map/search'' ''searchMapPlaces'' AuthBearer True,
     route ''POST'' ''/api/v2/map/pins'' ''pinMapPlace'' AuthBearer False,
     route ''DELETE'' ''/api/v2/map/items/{map_item_id}'' ''deleteMapItem'' AuthBearer True,
     route ''POST'' ''/api/v2/search'' ''searchReels'' AuthBearer True,
     route ''POST'' ''/api/v2/device-push-tokens'' ''registerDeviceToken'' AuthBearer True,
     route ''DELETE'' ''/api/v2/device-push-tokens'' ''deleteDeviceToken'' AuthBearer False,
     route ''POST'' ''/api/v2/notifications/{notification_id}/opened'' ''markNotificationOpened'' AuthBearer True,
     route ''DELETE'' ''/api/v2/reels/{reel_id}'' ''deleteReel'' AuthBearer False,
     route ''DELETE'' ''/api/v2/account'' ''deleteAccount'' AuthBearer True,
     route ''POST'' ''/api/v2/processing-jobs/reels'' ''submitReel'' AuthBearer False,
     route ''POST'' ''/api/v2/share/resolve'' ''resolveShare'' AuthBearer True,
     route ''POST'' ''/api/v2/share-tokens'' ''mintShareToken'' AuthBearer False,
     route ''DELETE'' ''/api/v2/share-tokens'' ''revokeShareTokens'' AuthBearer False,
     route ''POST'' ''/api/v2/native-shares/reels'' ''submitNativeShare'' AuthShareToken True,
     route ''GET'' ''/api/v2/profile'' ''getProfile'' AuthBearer False,
     route ''PUT'' ''/api/v2/profile'' ''putProfile'' AuthBearer True,
     route ''POST'' ''/api/v2/feedback'' ''submitFeedback'' AuthPublic True,
     route ''POST'' ''/api/v2/link-clicks'' ''recordLinkClick'' AuthPublic True,
     route ''GET'' ''/api/v2/collections'' ''listCollections'' AuthBearer False,
     route ''POST'' ''/api/v2/collections'' ''createCollection'' AuthBearer True,
     route ''GET'' ''/api/v2/collections/{collection_id}'' ''getCollection'' AuthBearer False,
     route ''PATCH'' ''/api/v2/collections/{collection_id}'' ''updateCollection'' AuthBearer False,
     route ''DELETE'' ''/api/v2/collections/{collection_id}'' ''deleteCollection'' AuthBearer True,
     route ''POST'' ''/api/v2/collections/{collection_id}/items'' ''addCollectionItems'' AuthBearer True,
     route ''DELETE'' ''/api/v2/collections/{collection_id}/items/{reel_id}'' ''removeCollectionItem'' AuthBearer True,
     route ''GET'' ''/api/v2/collections/{collection_id}/members'' ''listCollectionMembers'' AuthBearer True,
     route ''DELETE'' ''/api/v2/collections/{collection_id}/members/{member_user_id}'' ''removeCollectionMember'' AuthBearer True,
     route ''POST'' ''/api/v2/collections/{collection_id}/leave'' ''leaveCollection'' AuthBearer True,
     route ''POST'' ''/api/v2/collections/{collection_id}/link'' ''enableCollectionLink'' AuthBearer False,
     route ''DELETE'' ''/api/v2/collections/{collection_id}/link'' ''disableCollectionLink'' AuthBearer True,
     route ''POST'' ''/api/v2/collections/{collection_id}/invites'' ''createCollectionInvite'' AuthBearer True,
     route ''POST'' ''/api/v2/collection-invites/{token}/accept'' ''acceptCollectionInvite'' AuthBearer True,
     route ''GET'' ''/api/v2/reminders'' ''listReminders'' AuthBearer True,
     route ''POST'' ''/api/v2/reminders'' ''createReminder'' AuthBearer False,
     route ''DELETE'' ''/api/v2/reminders/{reminder_id}'' ''deleteReminder'' AuthBearer True,
     route ''GET'' ''/api/v2/price-tracks'' ''listPriceTracks'' AuthBearer True,
     route ''POST'' ''/api/v2/price-tracks'' ''createPriceTrack'' AuthBearer False,
     route ''DELETE'' ''/api/v2/price-tracks/{track_id}'' ''deletePriceTrack'' AuthBearer True,
     route ''GET'' ''/api/v2/shared-collections/{token}'' ''getSharedCollection'' AuthPublicShare True]"

subsection \<open>The mux\<close>

text \<open>\<open>net/http.ServeMux\<close>: a wildcard stands for one segment that is not empty; of the patterns of the method the
  one with a literal where another has a wildcard comes first, HEAD falls back on GET, and then come the patterns
  without a method.\<close>

definition wild :: "string \<Rightarrow> bool" where
  "wild p = has_prefix p ''{''"

definition segment_matches :: "string \<Rightarrow> string \<Rightarrow> bool" where
  "segment_matches p s = (if wild p then s \<noteq> [] else p = s)"

definition path_matches :: "string \<Rightarrow> string \<Rightarrow> bool" where
  "path_matches pattern path = list_all2 segment_matches (split_on CHR ''/'' pattern) (split_on CHR ''/'' path)"

fun precedes :: "string list \<Rightarrow> string list \<Rightarrow> bool" where
  "precedes (p # ps) (q # qs) = (if wild p = wild q then precedes ps qs else wild q)"
| "precedes _ _ = False"

definition best_route :: "route list \<Rightarrow> route option" where
  "best_route rs =
     (case rs of [] \<Rightarrow> None
      | r # rs \<Rightarrow> Some (foldl (\<lambda>b r. if precedes (split_on CHR ''/'' (ro_path r)) (split_on CHR ''/'' (ro_path b)) then r else b) r rs))"

datatype routing = Routed route | Wrong_method "string list" | Unrouted

definition route_for :: "route list \<Rightarrow> string \<Rightarrow> string \<Rightarrow> routing" where
  "route_for table m path =
     (let ms = filter (\<lambda>r. path_matches (ro_path r) path) table in
      case best_route (filter (\<lambda>r. ro_method r = m) ms) of Some r \<Rightarrow> Routed r | None \<Rightarrow>
      (case (if m = ''HEAD'' then best_route (filter (\<lambda>r. ro_method r = ''GET'') ms) else None) of Some r \<Rightarrow> Routed r | None \<Rightarrow>
      (case best_route (filter ro_claims ms) of
         Some r \<Rightarrow> Wrong_method (sort (map ro_method (filter (\<lambda>x. ro_path x = ro_path r) table)))
       | None \<Rightarrow> Unrouted)))"

subsection \<open>Requests and answers\<close>

record http_request =
  hq_method :: string
  hq_path :: string
  hq_header :: "string \<Rightarrow> string"
  hq_peer :: string

datatype 'b body = Failure string | Success 'b

record 'b response =
  hr_status :: nat
  hr_body :: "'b body"
  hr_allow :: "string list"
  hr_request_id :: string

definition error_response :: "nat \<Rightarrow> string \<Rightarrow> 'b response" where
  "error_response status code = \<lparr>hr_status = status, hr_body = Failure code, hr_allow = [], hr_request_id = []\<rparr>"

definition validRequestID :: "string \<Rightarrow> bool" where
  "validRequestID i = (i \<noteq> [] \<and> length i \<le> 128
     \<and> list_all (\<lambda>c. is_lower c \<or> is_upper c \<or> is_digit c \<or> c \<in> {CHR ''.'', CHR ''_'', CHR ''-''}) i)"

text \<open>\<open>ap_seen\<close> is the memory of the process of the users it has recorded; \<open>ap_rest\<close> what else handlers use.\<close>

record 'x api_state =
  ap_accounts :: account_store
  ap_shares :: "share_row list"
  ap_seen :: "string list"
  ap_rest :: 'x

text \<open>A handler answers, or panics (\<open>None\<close>); what it has written stays.\<close>

type_synonym ('b, 'x) handler = "caller \<Rightarrow> http_request \<Rightarrow> 'x api_state \<Rightarrow> 'b response option \<times> 'x api_state"

record server_env =
  sv_auth :: "string \<Rightarrow> caller option"
  sv_sha :: "string \<Rightarrow> string"
  sv_share_fault :: "string option"
  sv_now :: time
  sv_migrations :: "commit option"
  sv_new_id :: string

text \<open>A panic is answered by the recovery, outside of the middleware that invalidates.\<close>

definition recovered :: "'b response option \<times> 'x api_state \<Rightarrow> 'b response \<times> 'x api_state" where
  "recovered a = (case a of (None, st) \<Rightarrow> (error_response 500 ''internal_error'', st) | (Some r, st) \<Rightarrow> (r, st))"

definition invalidatingWrites :: "string \<Rightarrow> string \<Rightarrow> 'b response option \<times> 'x api_state \<Rightarrow> 'b response option \<times> 'x api_state" where
  "invalidatingWrites m u a =
     (case a of (None, st) \<Rightarrow> (None, st)
      | (Some r, st) \<Rightarrow>
          if m = ''GET'' \<or> m = ''HEAD'' \<or> hr_status r \<ge> 400 then (Some r, st)
          else (Some r, st\<lparr>ap_accounts := invalidate_user u (ap_accounts st)\<rparr>))"

definition note_seen :: "commit option \<Rightarrow> string \<Rightarrow> 'x api_state \<Rightarrow> 'x api_state" where
  "note_seen m u st =
     (case m of None \<Rightarrow> st
      | Some c \<Rightarrow> (case Seen c u (ap_seen st) (ap_accounts st) of (mem, s) \<Rightarrow> st\<lparr>ap_seen := mem, ap_accounts := s\<rparr>))"

definition authenticated :: "server_env \<Rightarrow> ('b, 'x) handler \<Rightarrow> http_request \<Rightarrow> 'x api_state \<Rightarrow> 'b response option \<times> 'x api_state" where
  "authenticated e h q st =
     (let token = bearerToken (hq_header q ''Authorization'') in
      if token = [] then (Some (error_response 401 ''authentication_required''), st)
      else (case sv_auth e token of
              None \<Rightarrow> (Some (error_response 401 ''invalid_auth_token''), st)
            | Some p \<Rightarrow> invalidatingWrites (hq_method q) (ca_user p) (h p q (note_seen (sv_migrations e) (ca_user p) st))))"

definition shareTokenAuthenticated :: "server_env \<Rightarrow> ('b, 'x) handler \<Rightarrow> http_request \<Rightarrow> 'x api_state \<Rightarrow> 'b response option \<times> 'x api_state" where
  "shareTokenAuthenticated e h q st =
     (if hq_header q ''X-Share-Token'' = [] then (Some (error_response 401 ''share_token_required''), st)
      else (case share_Authenticate (sv_sha e) (sv_share_fault e) (sv_now e) (hq_header q ''X-Share-Token'') (ap_shares st) of
              Inl ErrUnknownToken \<Rightarrow> (Some (error_response 401 ''invalid_share_token''), st)
            | Inl (ShareOther m) \<Rightarrow> (Some (error_response 500 ''internal_error''), st)
            | Inr u \<Rightarrow> invalidatingWrites (hq_method q) u (h \<lparr>ca_user = u, ca_client = []\<rparr> q st)))"

definition guarded_route :: "server_env \<Rightarrow> auth_mode \<Rightarrow> ('b, 'x) handler \<Rightarrow> http_request \<Rightarrow> 'x api_state \<Rightarrow> 'b response option \<times> 'x api_state" where
  "guarded_route e a h q st =
     (case a of AuthPublic \<Rightarrow> h nobody q st | AuthPublicShare \<Rightarrow> h nobody q st
      | AuthBearer \<Rightarrow> authenticated e h q st | AuthShareToken \<Rightarrow> shareTokenAuthenticated e h q st)"

text \<open>\<open>Routes\<close> with its middlewares; \<open>handlers\<close> gives the handler of an operation.\<close>

definition serve :: "server_env \<Rightarrow> (string \<Rightarrow> ('b, 'x) handler) \<Rightarrow> http_request \<Rightarrow> 'x api_state \<Rightarrow> 'b response \<times> 'x api_state" where
  "serve e handlers q st =
     (let i = hq_header q ''X-Request-ID'';
          (r, st') = (case route_for routeTable (hq_method q) (hq_path q) of
             Routed ro \<Rightarrow> recovered (guarded_route e (ro_auth ro) (handlers (ro_operation ro)) q st)
           | Wrong_method ms \<Rightarrow> ((error_response 405 ''method_not_allowed'')\<lparr>hr_allow := ms\<rparr>, st)
           | Unrouted \<Rightarrow> (error_response 404 ''not_found'', st))
      in (r\<lparr>hr_request_id := (if validRequestID i then i else sv_new_id e)\<rparr>, st'))"

subsection \<open>Who a handler may run for\<close>

definition granted :: "server_env \<Rightarrow> http_request \<Rightarrow> share_row list \<Rightarrow> auth_mode \<Rightarrow> caller \<Rightarrow> bool" where
  "granted e q rows a c =
     (case a of
        AuthBearer \<Rightarrow> bearerToken (hq_header q ''Authorization'') \<noteq> [] \<and> sv_auth e (bearerToken (hq_header q ''Authorization'')) = Some c
      | AuthShareToken \<Rightarrow> ca_client c = [] \<and> share_Authenticate (sv_sha e) (sv_share_fault e) (sv_now e) (hq_header q ''X-Share-Token'') rows = Inr (ca_user c)
      | _ \<Rightarrow> c = nobody)"

definition may_run :: "server_env \<Rightarrow> http_request \<Rightarrow> share_row list \<Rightarrow> string \<Rightarrow> caller \<Rightarrow> bool" where
  "may_run e q rows operation c \<longleftrightarrow>
     list_ex (\<lambda>r. ro_operation r = operation \<and> path_matches (ro_path r) (hq_path q)
       \<and> (ro_method r = hq_method q \<or> hq_method q = ''HEAD'' \<and> ro_method r = ''GET'') \<and> granted e q rows (ro_auth r) c) routeTable"

lemma best_route_in: "best_route rs = Some r \<Longrightarrow> r \<in> set rs"
proof -
  have pick: "foldl (\<lambda>b r. if P r b then r else b) x xs \<in> set (x # xs)" for P and x :: route and xs
    by (induction xs arbitrary: x) (auto split: if_splits)
  show "best_route rs = Some r \<Longrightarrow> r \<in> set rs"
    using pick by (cases rs) (auto simp: best_route_def simp del: set_simps)
qed

lemma best_route_None: "best_route rs = None \<longleftrightarrow> rs = []"
  by (simp add: best_route_def split: list.split)

lemma routed_in:
  assumes "route_for table m path = Routed r"
  shows "r \<in> set table \<and> path_matches (ro_path r) path \<and> (ro_method r = m \<or> m = ''HEAD'' \<and> ro_method r = ''GET'')"
  using assms by (auto simp: route_for_def Let_def split: option.splits if_splits dest!: best_route_in)

lemma routed_may_run:
  assumes "route_for routeTable (hq_method q) (hq_path q) = Routed r" "granted e q rows (ro_auth r) c"
  shows "may_run e q rows (ro_operation r) c"
  unfolding may_run_def list_ex_iff using routed_in [OF assms(1)] assms(2) by (intro bexI [of _ r]) auto

text \<open>A route with its guard depends on its handler only for the callers that may run it.\<close>

lemma guarded_route_cong:
  assumes same: "\<And>c. granted e q (ap_shares st) a c \<Longrightarrow> h c = h' c"
  shows "guarded_route e a h q st = guarded_route e a h' q st"
  using same
  by (cases a) (auto simp: granted_def guarded_route_def authenticated_def shareTokenAuthenticated_def Let_def
      split: option.splits sum.splits share_err.splits)

lemma share_route_only: "r \<in> set routeTable \<Longrightarrow> ro_auth r = AuthShareToken \<Longrightarrow> ro_operation r = ''submitNativeShare''"
proof -
  have "list_all (\<lambda>r. ro_auth r = AuthShareToken \<longrightarrow> ro_operation r = ''submitNativeShare'') routeTable"
    by code_simp
  then show "r \<in> set routeTable \<Longrightarrow> ro_auth r = AuthShareToken \<Longrightarrow> ro_operation r = ''submitNativeShare''"
    by (simp add: list_all_iff)
qed

lemma unbearing: "bearerToken [] = []"
  by (simp add: bearerToken_def trim_space_def trim_right_by_def)

lemma refused_alike:
  assumes none: "\<And>c. \<not> granted e q (ap_shares st) a c"
  shows "\<exists>code status. guarded_route e a h q st = (Some (error_response status code), st) \<and> status \<in> {401, 500}"
proof (cases a)
  case AuthBearer
  then show ?thesis
    using none by (cases "sv_auth e (bearerToken (hq_header q ''Authorization''))") (auto simp: granted_def guarded_route_def authenticated_def Let_def)
next
  case AuthShareToken
  then have "share_Authenticate (sv_sha e) (sv_share_fault e) (sv_now e) (hq_header q ''X-Share-Token'') (ap_shares st) \<noteq> Inr u" for u
    using none [of "\<lparr>ca_user = u, ca_client = []\<rparr>"] by (simp add: granted_def)
  then show ?thesis
    using AuthShareToken by (cases "share_Authenticate (sv_sha e) (sv_share_fault e) (sv_now e) (hq_header q ''X-Share-Token'') (ap_shares st)")
      (auto simp: guarded_route_def shareTokenAuthenticated_def split: share_err.splits)
qed (use none [of nobody] in \<open>simp_all add: granted_def\<close>)

text \<open>C15: whatever is sent, a handler runs only for the caller that the credential of its route names: the answer and the
  new state depend on nothing that the handlers would do for anybody else.  Without a session token nothing but
  the public operations and the native share can run, and a share token opens only the latter; and a request
  that no handler may run for changes nothing and is refused.\<close>

theorem handlers_run_only_for_their_caller:
  "((\<forall>operation c. may_run e q (ap_shares st) operation c \<longrightarrow> h operation c = h' operation c) \<longrightarrow> serve e h q st = serve e h' q st)
   \<and> ((\<forall>operation c. \<not> may_run e q (ap_shares st) operation c) \<longrightarrow> snd (serve e h q st) = st \<and> hr_status (fst (serve e h q st)) \<in> {401, 404, 405, 500})
   \<and> (hq_header q ''Authorization'' = [] \<longrightarrow> may_run e q (ap_shares st) operation c \<longrightarrow> c = nobody \<or> operation = ''submitNativeShare'')"
proof (intro conjI impI)
  assume same: "\<forall>operation c. may_run e q (ap_shares st) operation c \<longrightarrow> h operation c = h' operation c"
  have "guarded_route e (ro_auth r) (h (ro_operation r)) q st = guarded_route e (ro_auth r) (h' (ro_operation r)) q st"
    if "route_for routeTable (hq_method q) (hq_path q) = Routed r" for r
    using same routed_may_run [OF that] by (intro guarded_route_cong) blast
  then show "serve e h q st = serve e h' q st"
    by (simp add: serve_def Let_def split: routing.splits)
next
  assume none: "\<forall>operation c. \<not> may_run e q (ap_shares st) operation c"
  have refused: "\<exists>code status. guarded_route e (ro_auth r) (h (ro_operation r)) q st = (Some (error_response status code), st) \<and> status \<in> {401, 500}"
    if "route_for routeTable (hq_method q) (hq_path q) = Routed r" for r
    using none routed_may_run [OF that] by (intro refused_alike) blast
  show "snd (serve e h q st) = st" "hr_status (fst (serve e h q st)) \<in> {401, 404, 405, 500}"
    using refused by (fastforce simp: serve_def Let_def recovered_def error_response_def split: routing.splits)+
next
  assume a: "hq_header q ''Authorization'' = []" "may_run e q (ap_shares st) operation c"
  then obtain r where r: "r \<in> set routeTable" "ro_operation r = operation"
      "granted e q (ap_shares st) (ro_auth r) c"
    by (auto simp: may_run_def list_ex_iff)
  then show "c = nobody \<or> operation = ''submitNativeShare''"
    using share_route_only [OF r(1)] a(1) by (cases "ro_auth r") (auto simp: granted_def unbearing)
qed

definition quiet_server :: server_env where
  "quiet_server = \<lparr>sv_auth = (\<lambda>t. if t = ''t1'' then Some \<lparr>ca_user = ''ann'', ca_client = []\<rparr> else None), sv_sha = (\<lambda>s. s), sv_share_fault = None,
     sv_now = 0, sv_migrations = None, sv_new_id = ''r1''\<rparr>"

definition bare_request :: http_request where
  "bare_request = \<lparr>hq_method = ''GET'', hq_path = ''/api/v2/reels'', hq_header = (\<lambda>_. []), hq_peer = ''1.2.3.4:5''\<rparr>"

definition fresh_state :: "unit api_state" where
  "fresh_state = \<lparr>ap_accounts = neighbours, ap_shares = [], ap_seen = [], ap_rest = ()\<rparr>"

definition greedy :: "string \<Rightarrow> (unit, unit) handler" where
  "greedy operation c q st = (None, st\<lparr>ap_seen := [''eve'']\<rparr>)"

lemma bare_routes: "filter (\<lambda>r. path_matches (ro_path r) ''/api/v2/reels'') routeTable = [route ''GET'' ''/api/v2/reels'' ''listReels'' AuthBearer True]"
  by code_simp

lemma bare_refused: "\<not> may_run quiet_server bare_request [] operation c"
proof
  assume "may_run quiet_server bare_request [] operation c"
  then obtain r where r: "r \<in> set (filter (\<lambda>r. path_matches (ro_path r) ''/api/v2/reels'') routeTable)" "granted quiet_server bare_request [] (ro_auth r) c"
    by (auto simp: may_run_def list_ex_iff bare_request_def)
  show False
    using r(2) r(1) [unfolded bare_routes] by (simp add: granted_def bare_request_def unbearing)
qed

theorem handlers_run_only_for_their_caller_witness:
  "snd (serve quiet_server greedy bare_request fresh_state) = fresh_state"
  using handlers_run_only_for_their_caller [of quiet_server bare_request fresh_state greedy greedy] bare_refused
  by (simp add: fresh_state_def)

text \<open>A path all of whose routes leave the claim to a sibling has none: the path of the share tokens answers a method it
  does not accept as if it did not exist.\<close>

lemma share_token_path_is_not_found:
  "route_for routeTable ''GET'' ''/api/v2/share-tokens'' = Unrouted"
  "route_for routeTable ''GET'' ''/api/v2/native-shares/reels'' = Wrong_method [''POST'']"
proof -
  have "filter (\<lambda>r. path_matches (ro_path r) ''/api/v2/share-tokens'') routeTable
      = [route ''POST'' ''/api/v2/share-tokens'' ''mintShareToken'' AuthBearer False, route ''DELETE'' ''/api/v2/share-tokens'' ''revokeShareTokens'' AuthBearer False]"
    by code_simp
  then show "route_for routeTable ''GET'' ''/api/v2/share-tokens'' = Unrouted"
    by (simp add: route_for_def best_route_def)
  have "filter (\<lambda>r. path_matches (ro_path r) ''/api/v2/native-shares/reels'') routeTable
      = [route ''POST'' ''/api/v2/native-shares/reels'' ''submitNativeShare'' AuthShareToken True]"
    by code_simp
  moreover have "filter (\<lambda>x. ro_path x = ''/api/v2/native-shares/reels'') routeTable = [route ''POST'' ''/api/v2/native-shares/reels'' ''submitNativeShare'' AuthShareToken True]"
    by code_simp
  ultimately show "route_for routeTable ''GET'' ''/api/v2/native-shares/reels'' = Wrong_method [''POST'']"
    by (simp add: route_for_def best_route_def)
qed

text \<open>A write that succeeds has dropped the caller's cached reads before its answer starts.\<close>

lemma write_drops_cached_reads:
  assumes "invalidatingWrites m u (Some r, st) = (Some r', st')" "m \<noteq> ''GET''" "m \<noteq> ''HEAD''" "hr_status r' < 400"
    and "cache_store (as_world (ap_accounts st))" "redis_up (as_world (ap_accounts st))"
  shows "u \<in> set (dropped (as_world (ap_accounts st')))"
  using assms by (auto simp: invalidatingWrites_def invalidate_user_def invalidate_def split: if_splits)

subsection \<open>What a share token is worth\<close>

text \<open>The history of the table, the latest first: a token minted for a user until a time, all tokens of a user revoked
  (or gone with the account).  Its meaning for a hash:\<close>

datatype share_event = Minted string string time | Ended string

fun speaks_for :: "share_event list \<Rightarrow> string \<Rightarrow> (string \<times> time) option" where
  "speaks_for [] h = None"
| "speaks_for (Minted g u x # l) h = (if g = h then Some (u, x) else speaks_for l h)"
| "speaks_for (Ended v # l) h = (case speaks_for l h of None \<Rightarrow> None | Some (u, x) \<Rightarrow> if u = v then None else Some (u, x))"

inductive share_step :: "(string \<Rightarrow> string) \<Rightarrow> share_row list \<times> share_event list \<Rightarrow> share_row list \<times> share_event list \<Rightarrow> bool" for sha where
  minted: "share_Mint sha fault now raw u rows = (Inr (t, x), rows') \<Longrightarrow> share_step sha (rows, l) (rows', Minted (share_Hash sha t) u x # l)"
| unminted: "share_Mint sha fault now raw u rows = (Inl er, rows') \<Longrightarrow> share_step sha (rows, l) (rows', l)"
| revoked: "share_RevokeAll fault now u rows = (Inr n, rows') \<Longrightarrow> share_step sha (rows, l) (rows', Ended u # l)"
| unrevoked: "share_RevokeAll fault now u rows = (Inl er, rows') \<Longrightarrow> share_step sha (rows, l) (rows', l)"
| deleted: "share_step sha (rows, l) (filter (\<lambda>r. sh_user r \<noteq> u) rows, Ended u # l)"

inductive share_reach :: "(string \<Rightarrow> string) \<Rightarrow> share_row list \<times> share_event list \<Rightarrow> bool" for sha where
  none: "share_reach sha ([], [])"
| next_step: "share_reach sha s \<Longrightarrow> share_step sha s t \<Longrightarrow> share_reach sha t"

definition live_share :: "share_row list \<Rightarrow> string \<Rightarrow> (string \<times> time) option" where
  "live_share rows h = (case find (\<lambda>r. sh_hash r = h \<and> sh_revoked r = None) rows of None \<Rightarrow> None | Some r \<Rightarrow> Some (sh_user r, sh_expires r))"

definition share_inv :: "share_row list \<times> share_event list \<Rightarrow> bool" where
  "share_inv s \<longleftrightarrow> distinct (map sh_hash (fst s)) \<and> (\<forall>h. speaks_for (snd s) h = live_share (fst s) h)"

lemma live_share_simps [simp]:
  "live_share [] h = None"
  "live_share (r # rows) h = (if sh_hash r = h \<and> sh_revoked r = None then Some (sh_user r, sh_expires r) else live_share rows h)"
  by (simp_all add: live_share_def)

lemma live_share_append: "live_share (rows @ [r]) h = (case live_share rows h of None \<Rightarrow> live_share [r] h | Some p \<Rightarrow> Some p)"
  by (induction rows) auto

lemma live_share_none: "h \<notin> sh_hash ` set rows \<Longrightarrow> live_share rows h = None"
  by (induction rows) auto

definition minus_user :: "string \<Rightarrow> (string \<times> time) option \<Rightarrow> (string \<times> time) option" where
  "minus_user u p = (case p of None \<Rightarrow> None | Some (v, x) \<Rightarrow> if v = u then None else Some (v, x))"

lemma speaks_ended [simp]: "speaks_for (Ended v # l) h = minus_user v (speaks_for l h)"
  by (simp add: minus_user_def split: option.split)

lemma live_share_ended:
  assumes "distinct (map sh_hash rows)"
  shows "live_share (update_where (\<lambda>r. sh_user r = u \<and> sh_revoked r = None) (\<lambda>r. r\<lparr>sh_revoked := Some now\<rparr>) rows) h = minus_user u (live_share rows h)"
    and "live_share (filter (\<lambda>r. sh_user r \<noteq> u) rows) h = minus_user u (live_share rows h)"
proof -
  have keys: "sh_hash ` set (update_where (\<lambda>r. sh_user r = u \<and> sh_revoked r = None) (\<lambda>r. r\<lparr>sh_revoked := Some now\<rparr>) rs) = sh_hash ` set rs" for rs
    by (induction rs) auto
  have empty: "minus_user u None = None"
    by (simp add: minus_user_def)
  show "live_share (update_where (\<lambda>r. sh_user r = u \<and> sh_revoked r = None) (\<lambda>r. r\<lparr>sh_revoked := Some now\<rparr>) rows) h = minus_user u (live_share rows h)"
    using assms
  proof (induction rows)
    case (Cons r rows)
    then show ?case
      by (cases "sh_hash r = h") (auto simp: live_share_none keys minus_user_def)
  qed (simp add: empty)
  show "live_share (filter (\<lambda>r. sh_user r \<noteq> u) rows) h = minus_user u (live_share rows h)"
    using assms
  proof (induction rows)
    case (Cons r rows)
    then show ?case
      by (cases "sh_hash r = h") (auto simp: live_share_none minus_user_def image_iff)
  qed (simp add: empty)
qed

lemma share_step_inv: "share_step sha s t \<Longrightarrow> share_inv s \<Longrightarrow> share_inv t"
proof (induction rule: share_step.induct)
  case (minted fault now raw u rows t x rows' l)
  then have new: "share_Hash sha t \<notin> sh_hash ` set rows"
    and rows': "rows' = rows @ [\<lparr>sh_user = u, sh_hash = share_Hash sha t, sh_expires = x, sh_revoked = None\<rparr>]"
    by (auto simp: share_Mint_def list_ex_iff split: option.splits if_splits)
  show ?case
    using minted(2) new live_share_none [OF new]
    by (auto simp: rows' share_inv_def live_share_append split: option.splits)
next
  case (unminted fault now raw u rows er rows' l)
  then show ?case
    by (auto simp: share_Mint_def split: option.splits if_splits)
next
  case (revoked fault now u rows n rows' l)
  then show ?case
    using live_share_ended(1) [of rows u now]
    by (auto simp: share_RevokeAll_def share_inv_def map_key_update_where minus_user_def split: option.splits)
next
  case (unrevoked fault now u rows er rows' l)
  then show ?case
    by (auto simp: share_RevokeAll_def split: option.splits)
next
  case (deleted rows l u)
  then show ?case
    using live_share_ended(2) [of rows u] by (auto simp: share_inv_def distinct_map_filter minus_user_def)
qed

lemma share_reach_inv: "share_reach sha s \<Longrightarrow> share_inv s"
proof (induction rule: share_reach.induct)
  case none
  show ?case
    by (simp add: share_inv_def)
next
  case (next_step s t)
  then show ?case
    using share_step_inv by blast
qed

text \<open>C16: whatever tokens are minted, revoked and deleted, in any order, a share token is exactly what its history says: it
  speaks for the user it was minted for until it expires a year later, or that user revokes, or the account goes;
  everything else is answered alike.\<close>

theorem share_token_speaks_for_its_owner:
  assumes "share_reach sha (rows, l)"
  shows "share_Authenticate sha None now raw rows =
    (if trim_space raw = [] then Inl ErrUnknownToken
     else case speaks_for l (share_Hash sha raw) of
       None \<Rightarrow> Inl ErrUnknownToken | Some (u, x) \<Rightarrow> if now < x then Inr u else Inl ErrUnknownToken)"
proof -
  have inv: "distinct (map sh_hash rows)" "speaks_for l h = live_share rows h" for h
    using share_reach_inv [OF assms] by (simp_all add: share_inv_def)
  have "find (\<lambda>r. sh_hash r = h \<and> sh_revoked r = None \<and> now < sh_expires r) rs =
      (case find (\<lambda>r. sh_hash r = h \<and> sh_revoked r = None) rs of None \<Rightarrow> None | Some r \<Rightarrow> if now < sh_expires r then Some r else None)"
    if "distinct (map sh_hash rs)" for h rs
    using that
  proof (induction rs)
    case (Cons r rs)
    show ?case
    proof (cases "h = sh_hash r")
      case True
      have "find P rs = None" if "\<And>x. P x \<Longrightarrow> sh_hash x = h" for P
        using Cons.prems True that by (auto simp: find_None_iff image_iff)
      from this [of "\<lambda>r. sh_hash r = h \<and> sh_revoked r = None \<and> now < sh_expires r"] this [of "\<lambda>r. sh_hash r = h \<and> sh_revoked r = None"]
      show ?thesis
        by simp
    next
      case False
      then show ?thesis
        using Cons by auto
    qed
  qed simp
  from this [OF inv(1), of "share_Hash sha raw"] show ?thesis
    by (auto simp: share_Authenticate_def inv(2) live_share_def split: option.splits)
qed

theorem share_token_speaks_for_its_owner_witness:
  "\<exists>rows. share_reach (\<lambda>s. s) (rows, [Minted ''tok'' ''ann'' (365 * 24 * hour)]) \<and> share_Authenticate (\<lambda>s. s) None 5 '' tok'' rows = Inr ''ann''"
proof -
  have "share_Mint (\<lambda>s. s) None 0 ''tok'' ''ann'' [] = (Inr (''tok'', 365 * 24 * hour), [\<lparr>sh_user = ''ann'', sh_hash = ''tok'', sh_expires = 365 * 24 * hour, sh_revoked = None\<rparr>])"
    by (simp add: share_Mint_def share_Hash_def share_Lifetime_def trim_space_def trim_right_by_def is_space_def char_code_def)
  from share_reach.next_step [OF share_reach.none share_step.minted [OF this]]
  have r: "share_reach (\<lambda>s. s) ([\<lparr>sh_user = ''ann'', sh_hash = ''tok'', sh_expires = 365 * 24 * hour, sh_revoked = None\<rparr>], [Minted ''tok'' ''ann'' (365 * 24 * hour)])"
    by (simp add: share_Hash_def trim_space_def trim_right_by_def is_space_def char_code_def)
  show ?thesis
    using r share_token_speaks_for_its_owner [OF r, of 5 "'' tok''"]
    by (intro exI conjI) (simp_all add: share_Hash_def trim_space_def trim_right_by_def is_space_def char_code_def)
qed

subsection \<open>What a session token costs\<close>

text \<open>The times at which a sequence of authentications fetches the key set again.\<close>

fun refresh_times :: "('k jwt_env \<times> string) list \<Rightarrow> time option \<Rightarrow> time list" where
  "refresh_times [] l = []"
| "refresh_times ((e, raw) # xs) l =
     (let l' = snd (Verifier_Authenticate e raw l) in (if l' = l then [] else [je_now e]) @ refresh_times xs l')"

lemma Verifier_refresh:
  "snd (Verifier_Authenticate e raw l) = l
   \<or> snd (Verifier_Authenticate e raw l) = Some (je_now e) \<and> (\<forall>t. l = Some t \<longrightarrow> t + jwksRefreshDelay \<le> je_now e)"
  by (auto simp: Verifier_Authenticate_def keySet_def split: option.splits prod.splits if_splits)

text \<open>Tokens with unknown keys, however many, cost one fetch of the keys in five seconds.\<close>

lemma unknown_keys_cost_one_fetch_per_delay:
  "sorted_wrt (\<lambda>a b. a + jwksRefreshDelay \<le> b) (refresh_times xs l) \<and> (\<forall>t. l = Some t \<longrightarrow> (\<forall>x \<in> set (refresh_times xs l). t + jwksRefreshDelay \<le> x))"
proof (induction xs arbitrary: l)
  case (Cons x xs)
  obtain e raw where x: "x = (e, raw)"
    by (cases x)
  have pos: "0 < jwksRefreshDelay"
    by (simp add: jwksRefreshDelay_def)
  show ?case
    using Verifier_refresh [of e raw l] Cons.IH [of l] Cons.IH [of "Some (je_now e)"] pos
    by (auto simp: x Let_def) fastforce+
qed simp

text \<open>An accepted token has one ES256 signature with a key id, was verified under a key set, and is a signed-in user's.\<close>

lemma accepted_token:
  assumes "Verifier_Authenticate e raw l = (Some p, l')"
  shows "\<exists>h k c. je_signatures e raw = Some [h] \<and> th_alg h = Some ''ES256'' \<and> th_kid h \<noteq> None \<and> je_verify e k raw = Some c
    \<and> cl_role c = Some ''authenticated'' \<and> cl_subject c = Some (ca_user p) \<and> je_uuid e (ca_user p)"
  using assms
  by (auto simp: Verifier_Authenticate_def es256KeyID_def principal_of_def split: option.splits prod.splits if_splits list.splits) blast+

subsection \<open>The signed bucket\<close>

lemma bucket_is_signed:
  assumes "VerifyIPBucket unhex mac v secret now = b" "b \<noteq> []"
  shows "secret \<noteq> [] \<and> length b = 32 \<and> (\<exists>issued seconds. parse_int issued = Some seconds \<and> sint (skew_of now seconds) \<le> MaxIPBucketSkew
    \<and> unhex (split_on CHR ''.'' v ! 3) = Some (mac secret (''v1.'' @ issued @ ''.'' @ b)))"
  using assms by (auto simp: VerifyIPBucket_def split: if_splits list.splits option.splits) (metis not_less)

text \<open>Within the range of a duration the skew is the distance of the clocks; a time beyond it is never too far.\<close>

lemma skew_in_range:
  assumes "in_int64 (now - seconds * second)" "now - seconds * second \<noteq> min_int64"
  shows "sint (skew_of now seconds) = \<bar>now - seconds * second\<bar>"
proof -
  define d where "d = now - seconds * second"
  have range: "in_int64 d" "in_int64 (- d)"
    using assms by (auto simp: d_def in_int64_def min_int64_def max_int64_def)
  then have "sint (saturated d) = d"
    by (simp add: saturated_def in_int64_def sint_int64_of)
  moreover from this have "sint (- saturated d) = - d"
    using range sint_arith(2) [of 0 "saturated d"] by simp
  ultimately show ?thesis
    by (simp add: skew_of_def Let_def flip: d_def)
qed

lemma far_future_is_fresh: "sint (skew_of 0 1000000000000) \<le> MaxIPBucketSkew"
  by (simp add: skew_of_def saturated_def min_int64_def MaxIPBucketSkew_def Let_def)

end
