(* ===== verification/Plans.thy ===== *)
theory Plans
  imports Discover
begin

text \<open>
  What a plan allows (\<open>internal/entitlements\<close>): the cache of the active grants with its shared reload, the answer
  that the client shows, and the query behind it (\<open>internal/postgres/entitlements.go\<close>).
\<close>

subsection \<open>Grants\<close>

record grant_row =
  gr_user :: string
  gr_expires :: "time option"

definition ActivePro :: "string option \<Rightarrow> time \<Rightarrow> grant_row list \<Rightarrow> string + (string \<times> time) list" where
  "ActivePro fault now rows =
     (case fault of Some m \<Rightarrow> Inl m
      | None \<Rightarrow> Inr (List.map_filter (\<lambda>r. case gr_expires r of Some x \<Rightarrow> if now < x then Some (gr_user r, x) else None | None \<Rightarrow> None) rows))"

subsection \<open>The cache\<close>

text \<open>\<open>pc_set\<close> is the set of the last load that succeeded.  A reload takes two turns of the lock with the query between
  them; \<open>claim_reload\<close> is the first turn, with its check, \<open>install_grants\<close> the second.\<close>

record pro_cache =
  pc_set :: "(string \<times> time) list"
  pc_last :: time
  pc_loaded :: bool

definition empty_cache :: pro_cache where
  "empty_cache = \<lparr>pc_set = [], pc_last = 0, pc_loaded = False\<rparr>"

definition fresh_set :: "duration \<Rightarrow> time \<Rightarrow> pro_cache \<Rightarrow> bool" where
  "fresh_set ttl now c = (pc_loaded c \<and> now - pc_last c < ttl)"

definition claim_reload :: "duration \<Rightarrow> time \<Rightarrow> pro_cache \<Rightarrow> pro_cache option" where
  "claim_reload ttl now c = (if fresh_set ttl now c then None else Some (c\<lparr>pc_last := now, pc_loaded := True\<rparr>))"

definition install_grants :: "string + (string \<times> time) list \<Rightarrow> pro_cache \<Rightarrow> pro_cache" where
  "install_grants answer c = (case answer of Inl m \<Rightarrow> c | Inr g \<Rightarrow> c\<lparr>pc_set := g\<rparr>)"

definition is_pro :: "time \<Rightarrow> string \<Rightarrow> pro_cache \<Rightarrow> bool" where
  "is_pro now u c = (case map_of (pc_set c) u of None \<Rightarrow> False | Some x \<Rightarrow> now < x)"

text \<open>One call that nobody interrupts.\<close>

definition IsPro :: "duration \<Rightarrow> time \<Rightarrow> (string + (string \<times> time) list) \<Rightarrow> time \<Rightarrow> string \<Rightarrow> pro_cache \<Rightarrow> bool \<times> pro_cache" where
  "IsPro ttl now answer later u c =
     (let c' = (if fresh_set ttl now c then c
                else (case claim_reload ttl now c of None \<Rightarrow> c | Some c1 \<Rightarrow> install_grants answer c1))
      in (is_pro later u c', c'))"

subsection \<open>The answer\<close>

record usage =
  us_reels :: nat
  us_pins :: nat
  us_tags :: nat
  us_categories :: nat
  us_subcategories :: nat

record limits =
  li_reels :: "nat option"
  li_pins :: "nat option"
  li_searches :: "nat option"
  li_jobs :: "nat option"

record plan_features =
  ft_save :: bool
  ft_search :: bool
  ft_map :: bool
  ft_discover :: bool
  ft_unlimited_saves :: bool
  ft_unlimited_pins :: bool

record plan_card =
  cd_plan :: string
  cd_name :: string
  cd_interval :: string
  cd_price :: string
  cd_features :: "string list"
  cd_limits :: limits
  cd_cta :: string

record entitlements =
  et_user :: string
  et_plan :: string
  et_interval :: string
  et_status :: string
  et_premium :: bool
  et_restricted :: bool
  et_error :: "string option"
  et_usage :: usage
  et_limits :: limits
  et_features :: plan_features
  et_pricing :: "(string \<times> string) list"
  et_cards :: "plan_card list"
  et_paywall :: "(string \<times> string) list"

definition freeLimits :: limits where
  "freeLimits = \<lparr>li_reels = Some 25, li_pins = Some 10, li_searches = Some 50, li_jobs = None\<rparr>"

definition proLimits :: limits where
  "proLimits = \<lparr>li_reels = None, li_pins = None, li_searches = None, li_jobs = None\<rparr>"

definition planFeaturesFree :: "string list" where
  "planFeaturesFree = [''Save up to 25 reels'', ''Search saved reels'', ''View up to 10 pinned locations'']"

definition planFeaturesPro :: "string list" where
  "planFeaturesPro = [''Unlimited saved reels'', ''Unlimited search'', ''Unlimited pinned locations'', ''Full history and map access'']"

definition pricing :: "(string \<times> string) list" where
  "pricing = [(''free_monthly'', ''$0''), (''pro_monthly'', ''$9.99''), (''pro_yearly'', ''$79.99'')]"

definition paywallMessages :: "(string \<times> string) list" where
  "paywallMessages =
     [(''account'', ''Upgrade to Pro for unlimited saves, search, and map pins.''),
      (''save_limit'', ''You have reached the Free save limit.''),
      (''history'', ''Upgrade to Pro to keep your full reel history.'')]"

definition planCards :: "plan_card list" where
  "planCards =
     [\<lparr>cd_plan = ''free'', cd_name = ''Free'', cd_interval = ''monthly'', cd_price = ''$0'', cd_features = planFeaturesFree, cd_limits = freeLimits, cd_cta = ''Current plan''\<rparr>,
      \<lparr>cd_plan = ''pro'', cd_name = ''Pro'', cd_interval = ''monthly'', cd_price = ''$9.99/mo'', cd_features = planFeaturesPro, cd_limits = proLimits, cd_cta = ''Upgrade''\<rparr>]"

text \<open>The plan and the flag stand twice in the answer of the code, with one value.\<close>

definition Build_plan :: "string \<Rightarrow> usage \<Rightarrow> bool \<Rightarrow> entitlements" where
  "Build_plan u used_up premium =
     \<lparr>et_user = u, et_plan = (if premium then ''pro'' else ''free''), et_interval = ''monthly'', et_status = ''active'', et_premium = premium,
      et_restricted = False, et_error = None, et_usage = used_up, et_limits = (if premium then proLimits else freeLimits),
      et_features = \<lparr>ft_save = True, ft_search = True, ft_map = True, ft_discover = True, ft_unlimited_saves = premium, ft_unlimited_pins = premium\<rparr>,
      et_pricing = (if premium then [] else pricing), et_cards = (if premium then [] else planCards), et_paywall = paywallMessages\<rparr>"

definition no_usage :: usage where
  "no_usage = \<lparr>us_reels = 0, us_pins = 0, us_tags = 0, us_categories = 0, us_subcategories = 0\<rparr>"

definition Restricted_plan :: "string \<Rightarrow> string \<Rightarrow> entitlements" where
  "Restricted_plan u m =
     (Build_plan u no_usage False)\<lparr>et_plan := ''restricted'', et_status := ''unavailable'', et_restricted := True, et_error := Some m,
        et_features := \<lparr>ft_save = False, ft_search = False, ft_map = False, ft_discover = False, ft_unlimited_saves = False, ft_unlimited_pins = False\<rparr>,
        et_cards := [], et_paywall := [(''account'', m), (''save_limit'', m), (''history'', m)]\<rparr>"

definition Current_plan :: "string + library_stats \<Rightarrow> (string \<Rightarrow> bool) \<Rightarrow> string \<Rightarrow> entitlements \<times> string option" where
  "Current_plan stats pro u =
     (case stats of Inl e \<Rightarrow> (Restricted_plan u ''Plan access could not be verified right now.'', Some e)
      | Inr s \<Rightarrow> (Build_plan u \<lparr>us_reels = st_reels s, us_pins = st_pinned s, us_tags = st_tags s, us_categories = st_categories s,
                      us_subcategories = st_subcategories s\<rparr> (pro u), None))"

subsection \<open>Many requests at once\<close>

text \<open>The table, the cache and the requests between their turns of the lock: \<open>ps_out\<close> counts the reloads whose query has not
  run yet, \<open>ps_results\<close> holds what the finished ones bring with the time of the query.  \<open>ps_claims\<close>, \<open>ps_loads\<close> and
  \<open>ps_answers\<close> are the history, newest first.\<close>

record plan_sys =
  ps_now :: time
  ps_rows :: "grant_row list"
  ps_cache :: pro_cache
  ps_out :: nat
  ps_results :: "(time \<times> (string \<times> time) list) list"
  ps_claims :: "time list"
  ps_loads :: "(time \<times> (string \<times> time) list) list"
  ps_answers :: "(time \<times> string \<times> bool) list"

inductive plan_step :: "duration \<Rightarrow> plan_sys \<Rightarrow> plan_sys \<Rightarrow> bool" for ttl where
  tick: "0 \<le> d \<Longrightarrow> plan_step ttl s (s\<lparr>ps_now := ps_now s + d\<rparr>)"
| granted: "distinct (map gr_user rows) \<Longrightarrow> plan_step ttl s (s\<lparr>ps_rows := rows\<rparr>)"
| claimed: "claim_reload ttl (ps_now s) (ps_cache s) = Some c \<Longrightarrow>
    plan_step ttl s (s\<lparr>ps_cache := c, ps_out := Suc (ps_out s), ps_claims := ps_now s # ps_claims s\<rparr>)"
| loaded: "ps_out s = Suc n \<Longrightarrow> ActivePro None (ps_now s) (ps_rows s) = Inr g \<Longrightarrow>
    plan_step ttl s (s\<lparr>ps_out := n, ps_results := (ps_now s, g) # ps_results s, ps_loads := (ps_now s, g) # ps_loads s\<rparr>)"
| outage: "ps_out s = Suc n \<Longrightarrow> ActivePro (Some m) (ps_now s) (ps_rows s) = Inl e \<Longrightarrow>
    plan_step ttl s (s\<lparr>ps_out := n, ps_cache := install_grants (Inl e) (ps_cache s)\<rparr>)"
| installed: "r \<in> set (ps_results s) \<Longrightarrow>
    plan_step ttl s (s\<lparr>ps_cache := install_grants (Inr (snd r)) (ps_cache s), ps_results := remove1 r (ps_results s)\<rparr>)"
| answered: "plan_step ttl s (s\<lparr>ps_answers := (ps_now s, u, is_pro (ps_now s) u (ps_cache s)) # ps_answers s\<rparr>)"

inductive plan_reach :: "duration \<Rightarrow> plan_sys \<Rightarrow> bool" for ttl where
  start: "distinct (map gr_user rows) \<Longrightarrow>
    plan_reach ttl \<lparr>ps_now = now, ps_rows = rows, ps_cache = empty_cache, ps_out = 0, ps_results = [], ps_claims = [], ps_loads = [], ps_answers = []\<rparr>"
| step: "plan_reach ttl s \<Longrightarrow> plan_step ttl s s' \<Longrightarrow> plan_reach ttl s'"

inductive_cases plan_stepE: "plan_step ttl s s'"

text \<open>The claims, newest first, lie a whole interval apart.\<close>

fun spaced :: "duration \<Rightarrow> time list \<Rightarrow> bool" where
  "spaced ttl (b # a # ts) = (a + ttl \<le> b \<and> spaced ttl (a # ts))"
| "spaced ttl ts = True"

fun_cases spaced_twoE: "spaced ttl (b # a # ts)"

definition loaded_by :: "time \<Rightarrow> (time \<times> (string \<times> time) list) list \<Rightarrow> (string \<times> time) list \<Rightarrow> bool" where
  "loaded_by now loads g = (g = [] \<or> (\<exists>t. (t, g) \<in> set loads \<and> t \<le> now))"

definition granted_answer :: "(time \<times> (string \<times> time) list) list \<Rightarrow> time \<times> string \<times> bool \<Rightarrow> bool" where
  "granted_answer loads = (\<lambda>(t, u, pro). pro \<longrightarrow> (\<exists>t0 g x. (t0, g) \<in> set loads \<and> t0 \<le> t \<and> (u, x) \<in> set g \<and> t0 < x \<and> t < x))"

definition plan_ok :: "duration \<Rightarrow> plan_sys \<Rightarrow> bool" where
  "plan_ok ttl s =
     (loaded_by (ps_now s) (ps_loads s) (pc_set (ps_cache s)) \<and> set (ps_results s) \<subseteq> set (ps_loads s)
      \<and> (\<forall>(t, g) \<in> set (ps_loads s). t \<le> ps_now s \<and> (\<forall>(u, x) \<in> set g. t < x))
      \<and> (case ps_claims s of [] \<Rightarrow> \<not> pc_loaded (ps_cache s) | t # _ \<Rightarrow> pc_loaded (ps_cache s) \<and> pc_last (ps_cache s) = t \<and> t \<le> ps_now s)
      \<and> spaced ttl (ps_claims s) \<and> (\<forall>a \<in> set (ps_answers s). granted_answer (ps_loads s) a))"

lemma active_unexpired: "ActivePro None now rows = Inr g \<Longrightarrow> (u, x) \<in> set g \<Longrightarrow> now < x"
  unfolding ActivePro_def option.case sum.inject
proof (induction rows arbitrary: g)
  case (Cons r rows)
  then show ?case by (auto split: option.splits if_splits)
qed simp

lemma loaded_by_mono: "loaded_by now loads g \<Longrightarrow> now \<le> now' \<Longrightarrow> set loads \<subseteq> set loads' \<Longrightarrow> loaded_by now' loads' g"
  unfolding loaded_by_def by (meson order_trans subsetD)

lemma granted_mono: "granted_answer loads a \<Longrightarrow> set loads \<subseteq> set loads' \<Longrightarrow> granted_answer loads' a"
  unfolding granted_answer_def by (cases a) fastforce

lemma claims_spaced:
  assumes "plan_ok ttl s" and "claim_reload ttl (ps_now s) (ps_cache s) = Some c"
  shows "spaced ttl (ps_now s # ps_claims s)"
  using assms by (cases "ps_claims s") (auto simp: plan_ok_def claim_reload_def fresh_set_def split: if_splits)

lemma answer_granted:
  assumes "plan_ok ttl s"
  shows "granted_answer (ps_loads s) (ps_now s, u, is_pro (ps_now s) u (ps_cache s))"
proof -
  have "\<exists>t0 g x. (t0, g) \<in> set (ps_loads s) \<and> t0 \<le> ps_now s \<and> (u, x) \<in> set g \<and> t0 < x \<and> ps_now s < x"
    if p: "is_pro (ps_now s) u (ps_cache s)"
  proof -
    obtain x where x: "(u, x) \<in> set (pc_set (ps_cache s))" "ps_now s < x"
      using p by (cases "map_of (pc_set (ps_cache s)) u") (auto simp: is_pro_def dest: map_of_SomeD)
    then obtain t where t: "(t, pc_set (ps_cache s)) \<in> set (ps_loads s)" "t \<le> ps_now s"
      using assms by (auto simp: plan_ok_def loaded_by_def)
    then have "t < x" using x(1) assms by (fastforce simp: plan_ok_def)
    then show ?thesis using x t by blast
  qed
  then show ?thesis by (simp add: granted_answer_def)
qed

lemma plan_ok_step: "plan_step ttl s s' \<Longrightarrow> plan_ok ttl s \<Longrightarrow> plan_ok ttl s'"
proof (erule plan_stepE, goal_cases)
  case (1 d)
  then show ?case by (auto simp: plan_ok_def loaded_by_def split: list.splits; fastforce)
next
  case (2 rows)
  then show ?case by (simp add: plan_ok_def split: list.splits)
next
  case (3 c)
  have "pc_set c = pc_set (ps_cache s)" "pc_loaded c" "pc_last c = ps_now s"
    using 3(3) by (auto simp: claim_reload_def split: if_splits)
  then show ?case using 3 claims_spaced [OF 3(1) 3(3)] by (simp add: plan_ok_def)
next
  case (4 n g)
  have "\<forall>(u, x) \<in> set g. ps_now s < x" using active_unexpired [OF 4(4)] by blast
  moreover have "\<forall>a \<in> set (ps_answers s). granted_answer ((ps_now s, g) # ps_loads s) a"
    using 4(1) granted_mono [of "ps_loads s" _ "(ps_now s, g) # ps_loads s"] unfolding plan_ok_def by (metis set_subset_Cons)
  moreover have "loaded_by (ps_now s) ((ps_now s, g) # ps_loads s) (pc_set (ps_cache s))"
    using 4(1) loaded_by_mono [of "ps_now s" "ps_loads s" _ "ps_now s" "(ps_now s, g) # ps_loads s"] unfolding plan_ok_def
    by (metis order_refl set_subset_Cons)
  moreover have "set ((ps_now s, g) # ps_results s) \<subseteq> set ((ps_now s, g) # ps_loads s)"
    using 4(1) unfolding plan_ok_def by auto
  ultimately show ?case using 4(1) unfolding 4(2) plan_ok_def by (simp split: list.splits)
next
  case (5 n m e)
  then show ?case by (simp add: plan_ok_def install_grants_def split: list.splits)
next
  case (6 r)
  obtain t g where r: "r = (t, g)" by (cases r)
  have "(t, g) \<in> set (ps_loads s)" using 6(1,3) unfolding plan_ok_def r by (blast dest: subsetD)
  moreover from this have "t \<le> ps_now s" using 6(1) unfolding plan_ok_def by fast
  ultimately have "loaded_by (ps_now s) (ps_loads s) (snd r)" unfolding loaded_by_def r by auto
  moreover have "set (remove1 r (ps_results s)) \<subseteq> set (ps_loads s)"
    using 6(1) set_remove1_subset [of r "ps_results s"] unfolding plan_ok_def by (meson order_trans)
  ultimately show ?case using 6(1) unfolding 6(2) plan_ok_def by (simp add: install_grants_def split: list.splits)
next
  case (7 u)
  then show ?case using answer_granted [of ttl s u] by (simp add: plan_ok_def split: list.splits)
qed

lemma plan_reach_ok: "plan_reach ttl s \<Longrightarrow> plan_ok ttl s"
proof (induction rule: plan_reach.induct)
  case (start rows now)
  then show ?case by (simp add: plan_ok_def empty_cache_def loaded_by_def)
next
  case (step s s')
  then show ?case by (blast intro: plan_ok_step)
qed

lemma spaced_length: "spaced ttl (b # ts) \<Longrightarrow> int (length ts) * ttl \<le> b - last (b # ts)"
proof (induction ts arbitrary: b)
  case (Cons a ts)
  show ?case using Cons.prems Cons.IH [of a] by (elim spaced_twoE) (auto simp: algebra_simps split: if_splits)
qed simp

lemma premium_needs_grant:
  assumes "plan_ok ttl s" and "et_premium (fst (Current_plan stats (\<lambda>v. is_pro (ps_now s) v (ps_cache s)) u))"
  shows "granted_answer (ps_loads s) (ps_now s, u, True)"
proof -
  have "is_pro (ps_now s) u (ps_cache s)"
    using assms(2) by (auto simp: Current_plan_def Build_plan_def Restricted_plan_def split: sum.splits)
  then show ?thesis using answer_granted [OF assms(1), of u] by simp
qed


definition paid_row :: grant_row where
  "paid_row = \<lparr>gr_user = ''u1'', gr_expires = Some 100\<rparr>"

definition paid_sys :: plan_sys where
  "paid_sys = \<lparr>ps_now = 0, ps_rows = [paid_row], ps_cache = \<lparr>pc_set = [(''u1'', 100)], pc_last = 0, pc_loaded = True\<rparr>, ps_out = 0, ps_results = [],
     ps_claims = [0], ps_loads = [(0, [(''u1'', 100)])], ps_answers = [(0, ''u1'', True)]\<rparr>"

lemma paid_reached: "plan_reach 60 paid_sys"
proof -
  let ?s0 = "\<lparr>ps_now = 0, ps_rows = [paid_row], ps_cache = empty_cache, ps_out = 0, ps_results = [], ps_claims = [], ps_loads = [], ps_answers = []\<rparr>"
  let ?c = "empty_cache\<lparr>pc_loaded := True\<rparr>"
  let ?s1 = "?s0\<lparr>ps_cache := ?c, ps_out := 1, ps_claims := [0]\<rparr>"
  let ?g = "[(''u1'', 100 :: int)]"
  let ?s2 = "?s1\<lparr>ps_out := 0, ps_results := [(0, ?g)], ps_loads := [(0, ?g)]\<rparr>"
  let ?s3 = "?s2\<lparr>ps_cache := ?c\<lparr>pc_set := ?g\<rparr>, ps_results := []\<rparr>"
  have "plan_reach 60 ?s0" by (rule plan_reach.start) simp
  moreover have "plan_step 60 ?s0 ?s1"
    using plan_step.claimed [of 60 ?s0 ?c] by (simp add: claim_reload_def fresh_set_def empty_cache_def)
  moreover have "plan_step 60 ?s1 ?s2"
    using plan_step.loaded [of ?s1 0 ?g 60] by (simp add: ActivePro_def paid_row_def)
  moreover have "plan_step 60 ?s2 ?s3"
    using plan_step.installed [of "(0, ?g)" ?s2 60] by (simp add: install_grants_def)
  moreover have "plan_step 60 ?s3 paid_sys"
    using plan_step.answered [of 60 ?s3 "''u1''"] by (simp add: paid_sys_def is_pro_def empty_cache_def)
  ultimately show ?thesis by (blast intro: plan_reach.step)
qed


text \<open>A reload that is slow can be installed after a later one: what it read before a grant was withdrawn then replaces the newer
  set, and the withdrawn grant answers Pro again until the next reload.\<close>

lemma late_reload_revives_a_grant:
  "ActivePro None 0 [paid_row] = Inr g \<and> ActivePro None 60 [] = Inr g' \<Longrightarrow>
   is_pro 70 ''u1'' (install_grants (Inr g') c) = False \<and> is_pro 70 ''u1'' (install_grants (Inr g) (install_grants (Inr g') c)) = True"
  by (auto simp: ActivePro_def paid_row_def install_grants_def is_pro_def)

end
