(* ===== verification/MapView.thy ===== *)
theory MapView
  imports Search Int64
begin

text \<open>
  The map of a user (\<open>internal/mapview/mapview.go\<close>): pins of the places in saved reels and pins of the user's own.  Whether a
  point lies in a rectangle and how far apart two points are is asked of PostGIS and an argument here.
\<close>

subsection \<open>Tables\<close>

text \<open>The columns of \<open>content_locations\<close> that the pipeline leaves to their defaults or that nothing else reads are functions
  of the row; \<open>ms_prefs\<close> is \<open>user_pin_preferences\<close> and \<open>ms_pins\<close> is \<open>user_manual_pins\<close>.\<close>

record loc_columns =
  lc_id :: string
  lc_confidence :: rat
  lc_created :: time

record manual_row =
  mp_id :: string
  mp_user :: string
  mp_name :: string
  mp_address :: "string option"
  mp_point :: geo_point
  mp_created :: time
  mp_place :: "string option"
  mp_url :: "string option"
  mp_category :: "string option"
  mp_subcategory :: "string option"
  mp_types :: "string list"

record pref_row =
  pf_user :: string
  pf_location :: string
  pf_hidden :: bool

record map_store =
  ms_world :: world
  ms_columns :: "location_row \<Rightarrow> loc_columns"
  ms_pins :: "manual_row list"
  ms_prefs :: "pref_row list"

subsection \<open>Pins\<close>

datatype pin_kind = ContentPin | ManualPin

record pin =
  pn_id :: string
  pn_kind :: pin_kind
  pn_name :: string
  pn_address :: "string option"
  pn_point :: geo_point
  pn_reel :: "string option"
  pn_confidence :: "rat option"
  pn_category :: "string option"
  pn_sub_category :: "string option"
  pn_subcategory :: "string option"
  pn_place :: "string option"
  pn_url :: "string option"
  pn_types :: "string list"

definition MaxPins :: nat where "MaxPins = 500"

definition uncategorised :: string where "uncategorised = ''Other''"

definition contentPin :: "map_store \<Rightarrow> location_row \<times> version_row \<times> save_row \<Rightarrow> pin" where
  "contentPin s = (\<lambda>(l, v, x).
     \<lparr>pn_id = lc_id (ms_columns s l), pn_kind = ContentPin, pn_name = g_name l, pn_address = g_address l, pn_point = g_point l,
      pn_reel = Some (s_id x), pn_confidence = Some (lc_confidence (ms_columns s l)),
      pn_category = Some (fst (snd (v_raw v))), pn_sub_category = Some (snd (snd (v_raw v))), pn_subcategory = Some (snd (snd (v_raw v))),
      pn_place = None, pn_url = None, pn_types = []\<rparr>)"

definition manualPin :: "manual_row \<Rightarrow> pin" where
  "manualPin m =
     \<lparr>pn_id = mp_id m, pn_kind = ManualPin, pn_name = mp_name m, pn_address = mp_address m, pn_point = mp_point m,
      pn_reel = None, pn_confidence = None, pn_category = mp_category m, pn_sub_category = mp_subcategory m, pn_subcategory = mp_subcategory m,
      pn_place = mp_place m, pn_url = mp_url m, pn_types = mp_types m\<rparr>"

subsection \<open>What a user can see\<close>

definition hidden_for :: "string \<Rightarrow> map_store \<Rightarrow> location_row \<Rightarrow> bool" where
  "hidden_for u s l = list_ex (\<lambda>p. pf_user p = u \<and> pf_location p = lc_id (ms_columns s l) \<and> pf_hidden p) (ms_prefs s)"

text \<open>The join of locations, contents at their current version, versions and saves.\<close>

definition content_rows :: "string \<Rightarrow> map_store \<Rightarrow> (location_row \<times> version_row \<times> save_row) list" where
  "content_rows u s =
     [(l, v, x). l \<leftarrow> locations (ms_world s), c \<leftarrow> contents (ms_world s), c_current c = Some (g_version l),
        v \<leftarrow> versions (ms_world s), v_id v = g_version l, x \<leftarrow> saves (ms_world s), s_content x = c_id c \<and> s_user x = u]"

definition visible_rows :: "string \<Rightarrow> map_store \<Rightarrow> (location_row \<times> version_row \<times> save_row) list" where
  "visible_rows u s = filter (\<lambda>r. \<not> hidden_for u s (fst r)) (content_rows u s)"

definition own_pins :: "string \<Rightarrow> map_store \<Rightarrow> manual_row list" where
  "own_pins u s = filter (\<lambda>m. mp_user m = u) (ms_pins s)"

text \<open>Every row of the map with the time that orders it.\<close>

definition map_rows :: "string \<Rightarrow> map_store \<Rightarrow> (time \<times> pin) list" where
  "map_rows u s =
     map (\<lambda>r. (lc_created (ms_columns s (fst r)), contentPin s r)) (visible_rows u s) @ map (\<lambda>m. (mp_created m, manualPin m)) (own_pins u s)"

text \<open>\<open>coalesce(nullif(trim(category), ''), 'Other')\<close>.\<close>

definition sql_label :: "string option \<Rightarrow> string" where
  "sql_label c = (case c of None \<Rightarrow> uncategorised | Some t \<Rightarrow> (if sql_trim t = [] then uncategorised else sql_trim t))"

text \<open>\<open>within r p\<close> is \<open>ST_Intersects\<close> of a point with the envelope of a rectangle.\<close>

definition in_view :: "(bounds \<Rightarrow> geo_point \<Rightarrow> bool) \<Rightarrow> bounds \<Rightarrow> geo_point \<Rightarrow> bool" where
  "in_view covers b p =
     (if CrossesAntimeridian b then covers (b\<lparr>east := Fin 180\<rparr>) p \<or> covers (b\<lparr>west := Fin (- 180)\<rparr>) p else covers b p)"

text \<open>\<open>ORDER BY created_at DESC, id\<close>.\<close>

definition map_order :: "(time \<times> pin) list \<Rightarrow> (time \<times> pin) list" where
  "map_order rows = sort_key (\<lambda>r. - fst r) (sort_key (\<lambda>r. pn_id (snd r)) rows)"

definition Pins :: "string option \<Rightarrow> (bounds \<Rightarrow> geo_point \<Rightarrow> bool) \<Rightarrow> string \<Rightarrow> bounds \<Rightarrow> string \<Rightarrow> map_store \<Rightarrow> string + pin list \<times> bool" where
  "Pins fault covers u b category s =
     (case fault of Some m \<Rightarrow> Inl m
      | None \<Rightarrow>
        (let found = take (MaxPins + 1) (map snd (map_order (filter (\<lambda>r. in_view covers b (pn_point (snd r))
                       \<and> (category = [] \<or> sql_label (pn_category (snd r)) = category)) (map_rows u s))))
         in Inr (if MaxPins < length found then (take MaxPins found, True) else (found, False))))"

definition CountPins :: "string option \<Rightarrow> string \<Rightarrow> map_store \<Rightarrow> string + nat" where
  "CountPins fault u s =
     (case fault of Some m \<Rightarrow> Inl m
      | None \<Rightarrow> Inr (length [l. l \<leftarrow> locations (ms_world s), c \<leftarrow> contents (ms_world s), c_current c = Some (g_version l),
                        x \<leftarrow> saves (ms_world s), s_content x = c_id c \<and> s_user x = u, \<not> hidden_for u s l]
                  + matching (\<lambda>m. mp_user m = u) (ms_pins s)))"

definition PinCounted_Stats :: "string + library_stats \<Rightarrow> string option \<Rightarrow> string \<Rightarrow> map_store \<Rightarrow> string + library_stats" where
  "PinCounted_Stats stats fault u s =
     bind_r stats (\<lambda>st. bind_r (CountPins fault u s) (\<lambda>n. Inr (st\<lparr>st_pinned := n\<rparr>)))"

text \<open>\<open>metres\<close> is the distance in metres.\<close>

definition Nearby :: "string option \<Rightarrow> (geo_point \<Rightarrow> geo_point \<Rightarrow> rat) \<Rightarrow> string \<Rightarrow> geo_point \<Rightarrow> rat \<Rightarrow> int \<Rightarrow> map_store \<Rightarrow> string + pin list" where
  "Nearby fault metres u centre radius limit s =
     (case fault of Some m \<Rightarrow> Inl m
      | None \<Rightarrow>
        (let n = (if limit \<le> 0 \<or> int MaxPins < limit then 50 else nat limit)
         in Inr (take n (map (contentPin s) (sort_key (\<lambda>r. metres (g_point (fst r)) centre)
                   (filter (\<lambda>r. metres (g_point (fst r)) centre \<le> radius) (visible_rows u s)))))))"

subsection \<open>Changing the map\<close>

datatype map_err = PinNotFound | PinOther string

definition CreateManualPin :: "string option \<Rightarrow> string \<Rightarrow> time \<Rightarrow> string \<Rightarrow> string \<Rightarrow> string option \<Rightarrow> geo_point \<Rightarrow> map_store \<Rightarrow> map_err + pin \<times> map_store" where
  "CreateManualPin fault new now u name address p s =
     (if trim_space name = [] then Inl (PinOther ''a pin needs a name'')
      else (case fault of Some m \<Rightarrow> Inl (PinOther m)
        | None \<Rightarrow>
          (let row = \<lparr>mp_id = new, mp_user = u, mp_name = name, mp_address = address, mp_point = p, mp_created = now, mp_place = None, mp_url = None,
                      mp_category = None, mp_subcategory = None, mp_types = []\<rparr>
           in Inr (manualPin row, s\<lparr>ms_pins := ms_pins s @ [row]\<rparr>))))"

definition DeleteManualPin :: "string option \<Rightarrow> string \<Rightarrow> string \<Rightarrow> map_store \<Rightarrow> map_err + map_store" where
  "DeleteManualPin fault u i s =
     (case fault of Some m \<Rightarrow> Inl (PinOther m)
      | None \<Rightarrow> (if matching (\<lambda>m. mp_id m = i \<and> mp_user m = u) (ms_pins s) = 0 then Inl PinNotFound
                 else Inr (s\<lparr>ms_pins := filter (\<lambda>m. \<not> (mp_id m = i \<and> mp_user m = u)) (ms_pins s)\<rparr>)))"

definition reachable_location :: "string \<Rightarrow> string \<Rightarrow> map_store \<Rightarrow> bool" where
  "reachable_location u i s =
     list_ex (\<lambda>l. lc_id (ms_columns s l) = i \<and> list_ex (\<lambda>c. c_current c = Some (g_version l)
        \<and> list_ex (\<lambda>x. s_content x = c_id c \<and> s_user x = u) (saves (ms_world s))) (contents (ms_world s))) (locations (ms_world s))"

definition upsert_pref :: "string \<Rightarrow> string \<Rightarrow> bool \<Rightarrow> pref_row list \<Rightarrow> pref_row list" where
  "upsert_pref u i h ps =
     (if list_ex (\<lambda>p. pf_user p = u \<and> pf_location p = i) ps
      then update_where (\<lambda>p. pf_user p = u \<and> pf_location p = i) (\<lambda>p. p\<lparr>pf_hidden := h\<rparr>) ps
      else ps @ [\<lparr>pf_user = u, pf_location = i, pf_hidden = h\<rparr>])"

definition HidePin :: "string option \<Rightarrow> string \<Rightarrow> string \<Rightarrow> bool \<Rightarrow> map_store \<Rightarrow> map_err + map_store" where
  "HidePin fault u i h s =
     (case fault of Some m \<Rightarrow> Inl (PinOther m)
      | None \<Rightarrow> (if reachable_location u i s then Inr (s\<lparr>ms_prefs := upsert_pref u i h (ms_prefs s)\<rparr>) else Inl PinNotFound))"

datatype map_item = LocationItem string | ManualItem string | ReelItem string int

text \<open>\<open>uuid_of\<close> is \<open>uuid.Parse\<close> with the canonical text of the id, which is what PostgreSQL compares.\<close>

definition ParseItemID :: "(string \<Rightarrow> string option) \<Rightarrow> string \<Rightarrow> map_item option" where
  "ParseItemID uuid_of raw =
     (case split_on (CHR '':'') (trim_space raw) of
        [i] \<Rightarrow> map_option LocationItem (uuid_of i)
      | [k, i] \<Rightarrow> (if k = ''manual'' then map_option ManualItem (uuid_of i) else None)
      | [k, i, n] \<Rightarrow> (if k = ''reel''
                      then (case uuid_of i of None \<Rightarrow> None
                            | Some j \<Rightarrow> (case parse_int n of None \<Rightarrow> None | Some v \<Rightarrow> if v < 0 then None else Some (ReelItem j v)))
                      else None)
      | _ \<Rightarrow> None)"

definition item_location :: "string \<Rightarrow> string \<Rightarrow> int \<Rightarrow> map_store \<Rightarrow> string option" where
  "item_location u i n s =
     (case [lc_id (ms_columns s l). x \<leftarrow> saves (ms_world s), s_id x = i \<and> s_user x = u, c \<leftarrow> contents (ms_world s), c_id c = s_content x,
              l \<leftarrow> locations (ms_world s), Some (g_version l) = c_current c \<and> int (g_ordinal l) = n] of
        [] \<Rightarrow> None | j # _ \<Rightarrow> Some j)"

definition DeleteItem :: "(string \<Rightarrow> string option) \<Rightarrow> string option \<Rightarrow> string \<Rightarrow> string \<Rightarrow> map_store \<Rightarrow> map_err + map_store" where
  "DeleteItem uuid_of fault u raw s =
     (case ParseItemID uuid_of raw of
        None \<Rightarrow> Inl PinNotFound
      | Some (ManualItem i) \<Rightarrow> DeleteManualPin fault u i s
      | Some (LocationItem i) \<Rightarrow> HidePin fault u i True s
      | Some (ReelItem i n) \<Rightarrow>
          (case fault of Some m \<Rightarrow> Inl (PinOther m)
           | None \<Rightarrow> (case item_location u i n s of None \<Rightarrow> Inl PinNotFound | Some j \<Rightarrow> HidePin None u j True s)))"

subsection \<open>Facts about the joins\<close>

lemma concat_once:
  assumes "distinct xs" and "\<And>a b. a \<in> set xs \<Longrightarrow> b \<in> set xs \<Longrightarrow> P a \<Longrightarrow> P b \<Longrightarrow> a = b"
    and "\<And>a. a \<in> set xs \<Longrightarrow> P a \<Longrightarrow> length (g a) \<le> 1"
  shows "length (concat (map (\<lambda>a. if P a then g a else []) xs)) \<le> 1"
  using assms
proof (induction xs)
  case (Cons y ys)
  show ?case
  proof (cases "P y")
    case True
    have "\<forall>a \<in> set ys. \<not> P a" using Cons.prems(1) Cons.prems(2) [of y] True by fastforce
    then have rest: "concat (map (\<lambda>a. if P a then g a else []) ys) = []" by simp
    show ?thesis using Cons.prems(3) [of y] True unfolding list.map concat.simps rest by simp
  next
    case False
    then show ?thesis using Cons by simp
  qed
qed simp

lemma distinct_concat_once:
  assumes "distinct (map h xs)" and "\<And>a. a \<in> set xs \<Longrightarrow> length (g a) \<le> 1" and "\<And>a r. a \<in> set xs \<Longrightarrow> r \<in> set (g a) \<Longrightarrow> f r = h a"
  shows "distinct (map f (concat (map g xs)))"
  using assms
proof (induction xs)
  case (Cons y ys)
  have "distinct (map f (g y))" using Cons.prems(2) [of y] by (cases "g y") auto
  moreover have "set (map f (g y)) \<inter> set (map f (concat (map g ys))) = {}"
    using Cons.prems(1) Cons.prems(3) by fastforce
  ultimately show ?case using Cons by auto
qed simp

lemma concat_match_length:
  assumes "distinct (map k vs)" and "i \<in> k ` set vs"
  shows "length (concat (map (\<lambda>v. if k v = i then map (f v) xs else []) vs)) = length xs"
  using assms
proof (induction vs)
  case (Cons v vs)
  show ?case
  proof (cases "k v = i")
    case True
    then have "\<forall>w \<in> set vs. k w \<noteq> i" using Cons.prems(1) by (auto simp: image_iff)
    then have rest: "concat (map (\<lambda>v. if k v = i then map (f v) xs else []) vs) = []" by simp
    show ?thesis using True unfolding list.map concat.simps rest by simp
  next
    case False
    then show ?thesis using Cons by force
  qed
qed simp

text \<open>The keys of the tables, as the migrations declare them; an id is unique over both kinds of pins.\<close>

definition map_ok :: "map_store \<Rightarrow> bool" where
  "map_ok s =
     (let w = ms_world s in
      distinct (map c_id (contents w)) \<and> distinct (map v_id (versions w))
      \<and> (\<forall>l \<in> set (locations w). g_version l \<in> v_id ` set (versions w))
      \<and> (\<forall>c \<in> set (contents w). \<forall>v \<in> set (versions w). c_current c = Some (v_id v) \<longrightarrow> v_content v = c_id c)
      \<and> distinct (map (\<lambda>x. (s_user x, s_content x)) (saves w))
      \<and> distinct (map (\<lambda>l. lc_id (ms_columns s l)) (locations w) @ map mp_id (ms_pins s)))"

definition rows_of :: "string \<Rightarrow> map_store \<Rightarrow> location_row \<Rightarrow> (location_row \<times> version_row \<times> save_row) list" where
  "rows_of u s l =
     concat (map (\<lambda>c. if c_current c = Some (g_version l)
       then concat (map (\<lambda>v. if v_id v = g_version l
              then map (\<lambda>x. (l, v, x)) (filter (\<lambda>x. s_content x = c_id c \<and> s_user x = u) (saves (ms_world s))) else []) (versions (ms_world s)))
       else []) (contents (ms_world s)))"

lemma concat_filter_map: "concat (map (\<lambda>x. if P x then [f x] else []) xs) = map f (filter P xs)"
  by (induction xs) auto

lemma content_rows_alt: "content_rows u s = concat (map (rows_of u s) (locations (ms_world s)))"
  by (simp add: content_rows_def rows_of_def [abs_def] concat_filter_map cong: if_cong)

lemma saves_once:
  assumes "distinct (map (\<lambda>x. (s_user x, s_content x)) xs)"
  shows "length (filter (\<lambda>x. s_content x = i \<and> s_user x = u) xs) \<le> 1"
  using assms
proof (induction xs)
  case (Cons y ys)
  show ?case
  proof (cases "s_content y = i \<and> s_user y = u")
    case True
    then have "filter (\<lambda>x. s_content x = i \<and> s_user x = u) ys = []" using Cons.prems by (auto simp: filter_empty_conv image_iff)
    then show ?thesis by simp
  next
    case False
    then show ?thesis using Cons by auto
  qed
qed simp

lemma rows_once:
  assumes "map_ok s" and "l \<in> set (locations (ms_world s))"
  shows "length (rows_of u s l) \<le> 1"
proof -
  let ?w = "ms_world s"
  have "g_version l \<in> v_id ` set (versions ?w)" using assms by (simp add: map_ok_def Let_def)
  then have version: "\<exists>v \<in> set (versions ?w). v_id v = g_version l" by auto
  then obtain v where v: "v \<in> set (versions ?w)" "v_id v = g_version l" by blast
  have vs: "length (concat (map (\<lambda>v. if v_id v = g_version l then map (\<lambda>x. (l, v, x)) X else []) (versions ?w))) = length X" for X :: "save_row list"
    using concat_match_length [of v_id "versions ?w" "g_version l" "\<lambda>v x. (l, v, x)" X] assms by (simp add: map_ok_def Let_def)
  have one: "c = d" if "c \<in> set (contents ?w)" "d \<in> set (contents ?w)" "c_current c = Some (g_version l)" "c_current d = Some (g_version l)" for c d
  proof -
    have "v_content v = c_id b" if "b \<in> set (contents ?w)" "c_current b = Some (v_id v)" for b
      using that v(1) assms(1) by (simp add: map_ok_def Let_def)
    then have "c_id c = c_id d" using that v(2) by metis
    moreover have "inj_on c_id (set (contents ?w))" using assms(1) by (simp add: map_ok_def Let_def distinct_map)
    ultimately show ?thesis using that(1,2) by (simp add: inj_on_def)
  qed
  show ?thesis unfolding rows_of_def
  proof (rule concat_once [where P = "\<lambda>c. c_current c = Some (g_version l)"])
    show "distinct (contents ?w)" using assms(1) by (auto simp: map_ok_def Let_def distinct_map)
    show "length (concat (map (\<lambda>v. if v_id v = g_version l
              then map (\<lambda>x. (l, v, x)) (filter (\<lambda>x. s_content x = c_id c \<and> s_user x = u) (saves ?w)) else []) (versions ?w))) \<le> 1" for c
      unfolding vs using assms(1) by (intro saves_once) (auto simp: map_ok_def Let_def)
  qed (use one in blast)
qed

lemma rows_location: "r \<in> set (rows_of u s l) \<Longrightarrow> fst r = l"
  by (auto simp: rows_of_def split: if_splits)

lemma pin_id_content [simp]: "pn_id (contentPin s r) = lc_id (ms_columns s (fst r))"
  by (simp add: contentPin_def split: prod.splits)

lemma pin_id_manual [simp]: "pn_id (manualPin m) = mp_id m"
  by (simp add: manualPin_def)

lemma content_ids:
  assumes "map_ok s"
  shows "distinct (map (\<lambda>r. lc_id (ms_columns s (fst r))) (content_rows u s))"
  unfolding content_rows_alt
proof (rule distinct_concat_once [where h = "\<lambda>l. lc_id (ms_columns s l)"])
  show "distinct (map (\<lambda>l. lc_id (ms_columns s l)) (locations (ms_world s)))" using assms by (simp add: map_ok_def Let_def)
qed (use rows_once [OF assms] rows_location in auto)

lemma content_rows_location: "r \<in> set (content_rows u s) \<Longrightarrow> fst r \<in> set (locations (ms_world s))"
  by (auto simp: content_rows_alt dest: rows_location)

lemma map_row_ids:
  assumes "map_ok s"
  shows "distinct (map (\<lambda>r. pn_id (snd r)) (map_rows u s))"
proof -
  have ids: "map (\<lambda>r. pn_id (snd r)) (map_rows u s) = map (\<lambda>r. lc_id (ms_columns s (fst r))) (visible_rows u s) @ map mp_id (own_pins u s)"
    by (simp add: map_rows_def comp_def)
  have "distinct (map (\<lambda>r. lc_id (ms_columns s (fst r))) (visible_rows u s))"
    using content_ids [OF assms, of u] by (simp add: visible_rows_def distinct_map_filter)
  moreover have "distinct (map mp_id (own_pins u s))"
    using assms by (simp add: map_ok_def Let_def own_pins_def distinct_map_filter)
  moreover have "set (map (\<lambda>r. lc_id (ms_columns s (fst r))) (visible_rows u s)) \<subseteq> (\<lambda>l. lc_id (ms_columns s l)) ` set (locations (ms_world s))"
    using content_rows_location by (fastforce simp: visible_rows_def)
  moreover have "set (map mp_id (own_pins u s)) \<subseteq> mp_id ` set (ms_pins s)" by (auto simp: own_pins_def)
  moreover have "(\<lambda>l. lc_id (ms_columns s l)) ` set (locations (ms_world s)) \<inter> mp_id ` set (ms_pins s) = {}"
    using assms by (simp add: map_ok_def Let_def)
  ultimately show ?thesis unfolding ids distinct_append by blast
qed

lemma rows_of_length:
  assumes "map_ok s" and "l \<in> set (locations (ms_world s))"
  shows "length (rows_of u s l)
      = length (concat (map (\<lambda>c. if c_current c = Some (g_version l)
           then filter (\<lambda>x. s_content x = c_id c \<and> s_user x = u) (saves (ms_world s)) else []) (contents (ms_world s))))"
proof -
  have "length (concat (map (\<lambda>v. if v_id v = g_version l then map (\<lambda>x. (l, v, x)) X else []) (versions (ms_world s)))) = length X" for X :: "save_row list"
    using concat_match_length [of v_id "versions (ms_world s)" "g_version l" "\<lambda>v x. (l, v, x)" X] assms by (auto simp: map_ok_def Let_def)
  then show ?thesis unfolding rows_of_def by (induction "contents (ms_world s)") (auto simp: length_concat comp_def if_distrib cong: if_cong)
qed

lemma join_length:
  "length (concat (map (\<lambda>c. if Q c then concat (map (\<lambda>x. if P c x then if b then [l] else [] else []) xs) else []) cs))
   = (if b then length (concat (map (\<lambda>c. if Q c then filter (P c) xs else []) cs)) else 0)"
proof -
  have row: "length (concat (map (\<lambda>x. if p x then if b then [l] else [] else []) xs)) = (if b then length (filter p xs) else 0)" for p
    by (induction xs) auto
  show ?thesis
  proof (induction cs)
    case (Cons c cs)
    show ?case
    proof (cases "Q c")
      case True
      show ?thesis unfolding list.map concat.simps length_append if_P [OF True] row Cons.IH by (cases b) (simp_all only: if_True if_False add_0)
    next
      case False
      show ?thesis unfolding list.map concat.simps length_append if_not_P [OF False] Cons.IH by (simp only: list.size add_0)
    qed
  qed simp
qed

lemma count_pins:
  assumes "map_ok s"
  shows "CountPins None u s = Inr (length (map_rows u s))"
proof -
  let ?w = "ms_world s"
  let ?X = "\<lambda>c. filter (\<lambda>x. s_content x = c_id c \<and> s_user x = u) (saves ?w)"
  let ?cs = "\<lambda>l. concat (map (\<lambda>c. if c_current c = Some (g_version l) then ?X c else []) (contents ?w))"
  have seen: "length (filter (\<lambda>r. \<not> hidden_for u s (fst r)) (rows_of u s l)) = (if hidden_for u s l then 0 else length (?cs l))"
    if "l \<in> set (locations ?w)" for l
  proof -
    have "filter (\<lambda>r. \<not> hidden_for u s (fst r)) (rows_of u s l) = (if hidden_for u s l then [] else rows_of u s l)"
      using rows_location [of _ u s l] by (auto simp: filter_empty_conv filter_id_conv)
    then show ?thesis using rows_of_length [OF assms that, of u] by simp
  qed
  have "length (visible_rows u s) = (\<Sum>l \<leftarrow> locations ?w. if hidden_for u s l then 0 else length (?cs l))"
    unfolding visible_rows_def content_rows_alt
    by (simp add: filter_concat length_concat comp_def seen cong: map_cong)
  moreover have "length [l. l \<leftarrow> locations ?w, c \<leftarrow> contents ?w, c_current c = Some (g_version l), x \<leftarrow> saves ?w,
        s_content x = c_id c \<and> s_user x = u, \<not> hidden_for u s l] = (\<Sum>l \<leftarrow> locations ?w. if hidden_for u s l then 0 else length (?cs l))"
  proof -
    have "length (concat (map (\<lambda>c. if c_current c = Some (g_version l)
           then concat (map (\<lambda>x. if s_content x = c_id c \<and> s_user x = u then if \<not> hidden_for u s l then [l] else [] else []) (saves ?w)) else []) (contents ?w)))
        = (if hidden_for u s l then 0 else length (?cs l))" for l
      by (rule trans [OF join_length]) (cases "hidden_for u s l"; simp only: if_True if_False simp_thms)
    then show ?thesis by (simp only: length_concat map_map comp_def)
  qed
  moreover have "matching (\<lambda>m. mp_user m = u) (ms_pins s) = length (own_pins u s)" by (simp add: matching_def own_pins_def)
  ultimately show ?thesis by (simp add: CountPins_def map_rows_def)
qed

subsection \<open>What an answer shows\<close>

definition on_map :: "string \<Rightarrow> map_store \<Rightarrow> pin \<Rightarrow> bool" where
  "on_map u s p =
     (let w = ms_world s in
      (\<exists>l \<in> set (locations w). \<exists>c \<in> set (contents w). \<exists>v \<in> set (versions w). \<exists>x \<in> set (saves w).
         c_current c = Some (g_version l) \<and> v_id v = g_version l \<and> s_content x = c_id c \<and> s_user x = u \<and> \<not> hidden_for u s l \<and> p = contentPin s (l, v, x))
      \<or> (\<exists>m \<in> set (ms_pins s). mp_user m = u \<and> p = manualPin m))"

definition asked_pin :: "(bounds \<Rightarrow> geo_point \<Rightarrow> bool) \<Rightarrow> bounds \<Rightarrow> string \<Rightarrow> pin \<Rightarrow> bool" where
  "asked_pin covers b category p = (in_view covers b (pn_point p) \<and> (category = [] \<or> sql_label (pn_category p) = category))"

lemma content_rows_iff:
  "(l, v, x) \<in> set (content_rows u s) \<longleftrightarrow>
     l \<in> set (locations (ms_world s)) \<and> v \<in> set (versions (ms_world s)) \<and> x \<in> set (saves (ms_world s)) \<and> v_id v = g_version l \<and> s_user x = u
     \<and> (\<exists>c \<in> set (contents (ms_world s)). c_current c = Some (g_version l) \<and> s_content x = c_id c)"
  by (auto simp: content_rows_def)

lemma on_map_rows: "on_map u s p \<longleftrightarrow> p \<in> snd ` set (map_rows u s)"
proof -
  have "p \<in> contentPin s ` set (visible_rows u s) \<longleftrightarrow>
      (\<exists>l \<in> set (locations (ms_world s)). \<exists>c \<in> set (contents (ms_world s)). \<exists>v \<in> set (versions (ms_world s)). \<exists>x \<in> set (saves (ms_world s)).
         c_current c = Some (g_version l) \<and> v_id v = g_version l \<and> s_content x = c_id c \<and> s_user x = u \<and> \<not> hidden_for u s l \<and> p = contentPin s (l, v, x))"
  proof
    assume "p \<in> contentPin s ` set (visible_rows u s)"
    then obtain l v x where r: "(l, v, x) \<in> set (content_rows u s)" "\<not> hidden_for u s l" "p = contentPin s (l, v, x)"
      by (auto simp: visible_rows_def)
    then obtain c where "c \<in> set (contents (ms_world s))" "c_current c = Some (g_version l)" "s_content x = c_id c"
      unfolding content_rows_iff by blast
    then show "\<exists>l \<in> set (locations (ms_world s)). \<exists>c \<in> set (contents (ms_world s)). \<exists>v \<in> set (versions (ms_world s)). \<exists>x \<in> set (saves (ms_world s)).
         c_current c = Some (g_version l) \<and> v_id v = g_version l \<and> s_content x = c_id c \<and> s_user x = u \<and> \<not> hidden_for u s l \<and> p = contentPin s (l, v, x)"
      using r unfolding content_rows_iff by blast
  next
    assume "\<exists>l \<in> set (locations (ms_world s)). \<exists>c \<in> set (contents (ms_world s)). \<exists>v \<in> set (versions (ms_world s)). \<exists>x \<in> set (saves (ms_world s)).
         c_current c = Some (g_version l) \<and> v_id v = g_version l \<and> s_content x = c_id c \<and> s_user x = u \<and> \<not> hidden_for u s l \<and> p = contentPin s (l, v, x)"
    then obtain l v x where "(l, v, x) \<in> set (content_rows u s)" "\<not> hidden_for u s l" "p = contentPin s (l, v, x)"
      unfolding content_rows_iff by blast
    then show "p \<in> contentPin s ` set (visible_rows u s)" by (force simp: visible_rows_def)
  qed
  moreover have "snd ` set (map_rows u s) = contentPin s ` set (visible_rows u s) \<union> manualPin ` set (own_pins u s)"
    by (simp add: map_rows_def image_Un image_image)
  ultimately show ?thesis by (auto simp: on_map_def Let_def own_pins_def)
qed

lemma map_order_set [simp]: "set (map_order rows) = set rows"
  by (simp add: map_order_def)

lemma map_order_length [simp]: "length (map_order rows) = length rows"
  by (simp add: map_order_def)

lemma map_order_sorted: "sorted_wrt (\<lambda>a b. fst b \<le> fst a) (map_order rows)"
proof -
  have "sorted (map (\<lambda>r. - fst r) (map_order rows))" by (simp add: map_order_def)
  then show ?thesis by (simp add: sorted_wrt_map)
qed

lemma map_order_mset: "mset (map_order rows) = mset rows"
  by (simp add: map_order_def)

lemma sorted_omitted: "sorted_wrt R xs \<Longrightarrow> x \<in> set xs \<Longrightarrow> x \<notin> set (take n xs) \<Longrightarrow> k \<in> set (take n xs) \<Longrightarrow> R k x"
proof -
  assume a: "sorted_wrt R xs" "x \<in> set xs" "x \<notin> set (take n xs)" "k \<in> set (take n xs)"
  then have "sorted_wrt R (take n xs @ drop n xs)" by simp
  moreover have "x \<in> set (drop n xs)" using a(2,3) by (metis Un_iff append_take_drop_id set_append)
  ultimately show "R k x" using a(4) unfolding sorted_wrt_append by blast
qed

definition asked_rows :: "(bounds \<Rightarrow> geo_point \<Rightarrow> bool) \<Rightarrow> bounds \<Rightarrow> string \<Rightarrow> string \<Rightarrow> map_store \<Rightarrow> (time \<times> pin) list" where
  "asked_rows covers b category u s = map_order (filter (\<lambda>r. asked_pin covers b category (snd r)) (map_rows u s))"

lemma Pins_rows:
  assumes "Pins None covers u b category s = Inr (pins, trunc)"
  shows "pins = map snd (take MaxPins (asked_rows covers b category u s))" and "trunc = (MaxPins < length (asked_rows covers b category u s))"
  using assms by (auto simp: Pins_def Let_def asked_rows_def asked_pin_def take_map min_def split: if_splits)

lemma asked_ids: "map_ok s \<Longrightarrow> distinct (map (\<lambda>r. pn_id (snd r)) (asked_rows covers b category u s))"
proof -
  assume ok: "map_ok s"
  have "distinct (map (\<lambda>r. pn_id (snd r)) (filter (\<lambda>r. asked_pin covers b category (snd r)) (map_rows u s)))"
    by (rule distinct_map_filter [OF map_row_ids [OF ok]])
  moreover have "mset (map (\<lambda>r. pn_id (snd r)) (asked_rows covers b category u s))
      = mset (map (\<lambda>r. pn_id (snd r)) (filter (\<lambda>r. asked_pin covers b category (snd r)) (map_rows u s)))"
    by (simp add: asked_rows_def map_order_mset)
  ultimately show ?thesis by (metis mset_eq_imp_distinct_iff)
qed

text \<open>C23: A map shows, each once, only pins that the user may see, in the view and of the category asked for: places of
  the current version of a reel that the user saved and has not hidden, and pins of the user's own.  They come newest
  first; a pin that the answer leaves out is older than all it shows, and only an answer of 500 pins that says so leaves
  any out; and the number on the profile is the number of pins that the whole world shows.\<close>

theorem map_shows_what_the_user_may_see:
  assumes "map_ok s" and "Pins None covers u b category s = Inr (pins, trunc)"
  shows "(\<forall>p \<in> set pins. on_map u s p \<and> asked_pin covers b category p) \<and> distinct (map pn_id pins) \<and> length pins \<le> MaxPins
    \<and> (\<exists>rows. pins = map snd rows \<and> set rows \<subseteq> set (map_rows u s) \<and> sorted_wrt (\<lambda>a b. fst b \<le> fst a) rows
         \<and> (\<forall>r \<in> set (map_rows u s). asked_pin covers b category (snd r) \<longrightarrow> r \<notin> set rows \<longrightarrow>
               trunc \<and> length pins = MaxPins \<and> (\<forall>k \<in> set rows. fst r \<le> fst k)))
    \<and> ((\<forall>p. asked_pin covers b category p) \<longrightarrow>
         (\<exists>n. CountPins None u s = Inr n \<and> length pins = min n MaxPins \<and> trunc = (MaxPins < n)))"
proof -
  let ?rows = "asked_rows covers b category u s"
  have pins: "pins = map snd (take MaxPins ?rows)" and trunc: "trunc = (MaxPins < length ?rows)" by (rule Pins_rows [OF assms(2)])+
  have rows: "set ?rows = {r \<in> set (map_rows u s). asked_pin covers b category (snd r)}" by (simp add: asked_rows_def)
  have "on_map u s p \<and> asked_pin covers b category p" if "p \<in> set pins" for p
    using that rows unfolding pins on_map_rows by (auto dest: in_set_takeD)
  moreover have "distinct (map pn_id pins)"
    using distinct_take [OF asked_ids [OF assms(1), of covers b category u], of MaxPins] unfolding pins by (simp add: take_map comp_def)
  moreover have "length pins \<le> MaxPins" by (simp add: pins)
  moreover have "\<exists>rows. pins = map snd rows \<and> set rows \<subseteq> set (map_rows u s) \<and> sorted_wrt (\<lambda>a b. fst b \<le> fst a) rows
         \<and> (\<forall>r \<in> set (map_rows u s). asked_pin covers b category (snd r) \<longrightarrow> r \<notin> set rows \<longrightarrow>
               trunc \<and> length pins = MaxPins \<and> (\<forall>k \<in> set rows. fst r \<le> fst k))"
  proof (intro exI conjI ballI impI)
    show "pins = map snd (take MaxPins ?rows)" by (rule pins)
    show "set (take MaxPins ?rows) \<subseteq> set (map_rows u s)" using rows by (auto dest: in_set_takeD)
    have sorted: "sorted_wrt (\<lambda>a b. fst b \<le> fst a) ?rows" unfolding asked_rows_def by (rule map_order_sorted)
    then show "sorted_wrt (\<lambda>a b. fst b \<le> fst a) (take MaxPins ?rows)" by (rule sorted_wrt_take)
    fix r
    assume r: "r \<in> set (map_rows u s)" "asked_pin covers b category (snd r)" "r \<notin> set (take MaxPins ?rows)"
    then have in_rows: "r \<in> set ?rows" using rows by simp
    then have long: "MaxPins < length ?rows" using r(3) by (metis linorder_not_less take_all)
    then show "trunc" "length pins = MaxPins" by (simp_all add: trunc pins)
    show "fst r \<le> fst k" if "k \<in> set (take MaxPins ?rows)" for k
      using sorted_omitted [OF sorted in_rows r(3) that] .
  qed
  moreover have "\<exists>n. CountPins None u s = Inr n \<and> length pins = min n MaxPins \<and> trunc = (MaxPins < n)" if "\<forall>p. asked_pin covers b category p"
    using that count_pins [OF assms(1), of u] by (intro exI [of _ "length (map_rows u s)"]) (simp add: pins trunc asked_rows_def min.commute)
  ultimately show ?thesis by blast
qed

subsection \<open>Hiding and showing again\<close>

text \<open>A map depends on the shared tables, on the user's own pins and on the user's own preferences.\<close>

lemma map_rows_same:
  assumes "ms_world t = ms_world s" "ms_columns t = ms_columns s" "own_pins v t = own_pins v s"
    and "\<And>l. l \<in> set (locations (ms_world s)) \<Longrightarrow> hidden_for v t l = hidden_for v s l"
  shows "visible_rows v t = visible_rows v s" and "map_rows v t = map_rows v s"
proof -
  have c: "content_rows v t = content_rows v s" unfolding content_rows_def assms(1) by (rule refl)
  have "filter (\<lambda>r. \<not> hidden_for v t (fst r)) (content_rows v s) = filter (\<lambda>r. \<not> hidden_for v s (fst r)) (content_rows v s)"
    using assms(4) content_rows_location by (intro filter_cong) auto
  then show visible: "visible_rows v t = visible_rows v s" by (simp add: visible_rows_def c)
  have "contentPin t = contentPin s" by (simp add: fun_eq_iff contentPin_def assms(2))
  then show "map_rows v t = map_rows v s" by (simp add: map_rows_def visible assms(2,3))
qed

lemma readers_same:
  assumes "ms_world t = ms_world s" "ms_columns t = ms_columns s" "own_pins v t = own_pins v s"
    and "\<And>l. l \<in> set (locations (ms_world s)) \<Longrightarrow> hidden_for v t l = hidden_for v s l"
  shows "Pins fault covers v b category t = Pins fault covers v b category s" and "CountPins fault v t = CountPins fault v s"
    and "Nearby fault metres v centre radius limit t = Nearby fault metres v centre radius limit s"
proof -
  show "Pins fault covers v b category t = Pins fault covers v b category s"
    using map_rows_same(2) [OF assms] by (cases fault) (simp_all add: Pins_def)
  have "matching (\<lambda>m. mp_user m = v) (ms_pins t) = matching (\<lambda>m. mp_user m = v) (ms_pins s)"
    using assms(3) by (simp add: matching_def own_pins_def)
  moreover have "length [l. l \<leftarrow> ls, c \<leftarrow> contents (ms_world s), c_current c = Some (g_version l),
                        x \<leftarrow> saves (ms_world s), s_content x = c_id c \<and> s_user x = v, \<not> hidden_for v t l]
      = length [l. l \<leftarrow> ls, c \<leftarrow> contents (ms_world s), c_current c = Some (g_version l),
                        x \<leftarrow> saves (ms_world s), s_content x = c_id c \<and> s_user x = v, \<not> hidden_for v s l]"
    if "set ls \<subseteq> set (locations (ms_world s))" for ls
    using that assms(4) by (induction ls) simp_all
  ultimately show "CountPins fault v t = CountPins fault v s" unfolding CountPins_def assms(1) by (auto split: option.split)
  have "contentPin t = contentPin s" by (simp add: fun_eq_iff contentPin_def assms(2))
  then show "Nearby fault metres v centre radius limit t = Nearby fault metres v centre radius limit s"
    using map_rows_same(1) [OF assms] by (cases fault) (simp_all add: Nearby_def)
qed

lemma update_pref_hidden:
  "list_ex (\<lambda>p. pf_user p = v \<and> pf_location p = j \<and> pf_hidden p)
      (update_where (\<lambda>p. pf_user p = u \<and> pf_location p = i) (\<lambda>p. p\<lparr>pf_hidden := h\<rparr>) ps)
   = (if v = u \<and> j = i then h \<and> list_ex (\<lambda>p. pf_user p = u \<and> pf_location p = i) ps
      else list_ex (\<lambda>p. pf_user p = v \<and> pf_location p = j \<and> pf_hidden p) ps)"
  by (induction ps) (auto simp: update_where_def)

lemma upsert_pref_hidden:
  "list_ex (\<lambda>p. pf_user p = v \<and> pf_location p = j \<and> pf_hidden p) (upsert_pref u i h ps)
   = (if v = u \<and> j = i then h else list_ex (\<lambda>p. pf_user p = v \<and> pf_location p = j \<and> pf_hidden p) ps)"
  unfolding upsert_pref_def by (auto simp: update_pref_hidden) (auto simp: list_ex_iff)

lemma HidePin_ok:
  assumes "HidePin fault u i h s = Inr t"
  shows "t = s\<lparr>ms_prefs := upsert_pref u i h (ms_prefs s)\<rparr>" and "reachable_location u i s"
  using assms by (auto simp: HidePin_def split: option.splits if_splits)

lemma hidden_after:
  assumes "HidePin fault u i h s = Inr t"
  shows "hidden_for v t l = (if v = u \<and> lc_id (ms_columns s l) = i then h else hidden_for v s l)"
  by (simp add: HidePin_ok(1) [OF assms] hidden_for_def upsert_pref_hidden)

lemma hidden_on_map:
  assumes "HidePin None u i True s = Inr t"
  shows "on_map u t p = (on_map u s p \<and> \<not> (pn_kind p = ContentPin \<and> pn_id p = i))"
proof -
  have same: "ms_world t = ms_world s" "ms_columns t = ms_columns s" "ms_pins t = ms_pins s" by (simp_all add: HidePin_ok(1) [OF assms])
  have pin: "contentPin t = contentPin s" by (simp add: fun_eq_iff contentPin_def same)
  have kind: "pn_kind (contentPin s r) = ContentPin" "pn_kind (manualPin m) = ManualPin" for r m
    by (simp_all add: contentPin_def manualPin_def split: prod.splits)
  have rows: "snd ` set (map_rows u x) = contentPin x ` set (visible_rows u x) \<union> manualPin ` set (own_pins u x)" for x
    by (simp add: map_rows_def image_Un image_image)
  have "content_rows u t = content_rows u s" unfolding content_rows_def same by (rule refl)
  then have "set (visible_rows u t) = {r \<in> set (visible_rows u s). lc_id (ms_columns s (fst r)) \<noteq> i}"
    by (auto simp: visible_rows_def hidden_after [OF assms])
  moreover have "own_pins u t = own_pins u s" by (simp add: own_pins_def same)
  ultimately show ?thesis unfolding on_map_rows rows pin by (auto simp: kind)
qed

text \<open>C24: A pin that a user hides leaves that user's map and nothing else does; no other user's map changes; and showing it
  again brings back every answer as it was.  A place that the user cannot reach through a save is not found.\<close>

theorem hidden_pin_is_gone_until_shown:
  assumes "HidePin None u i True s = Inr t"
  shows "(\<forall>p. on_map u t p = (on_map u s p \<and> \<not> (pn_kind p = ContentPin \<and> pn_id p = i)))
    \<and> (\<forall>v fault covers b category. v \<noteq> u \<longrightarrow> Pins fault covers v b category t = Pins fault covers v b category s)
    \<and> (\<exists>l c x. l \<in> set (locations (ms_world s)) \<and> lc_id (ms_columns s l) = i \<and> c \<in> set (contents (ms_world s)) \<and> c_current c = Some (g_version l)
         \<and> x \<in> set (saves (ms_world s)) \<and> s_content x = c_id c \<and> s_user x = u)
    \<and> (\<exists>r. HidePin None u i False t = Inr r
         \<and> (\<not> list_ex (\<lambda>p. pf_user p = u \<and> pf_location p = i \<and> pf_hidden p) (ms_prefs s) \<longrightarrow>
             (\<forall>v fault covers b category. Pins fault covers v b category r = Pins fault covers v b category s)))"
proof (intro conjI allI impI)
  have same: "ms_world t = ms_world s" "ms_columns t = ms_columns s" "own_pins v t = own_pins v s" for v
    by (simp_all add: HidePin_ok(1) [OF assms] own_pins_def)
  show "on_map u t p = (on_map u s p \<and> \<not> (pn_kind p = ContentPin \<and> pn_id p = i))" for p by (rule hidden_on_map [OF assms])
  show "Pins fault covers v b category t = Pins fault covers v b category s" if "v \<noteq> u" for v fault covers b category
    by (rule readers_same(1) [OF same]) (simp add: hidden_after [OF assms] that)
  show "\<exists>l c x. l \<in> set (locations (ms_world s)) \<and> lc_id (ms_columns s l) = i \<and> c \<in> set (contents (ms_world s)) \<and> c_current c = Some (g_version l)
         \<and> x \<in> set (saves (ms_world s)) \<and> s_content x = c_id c \<and> s_user x = u"
    using HidePin_ok(2) [OF assms] unfolding reachable_location_def list_ex_iff by blast
  have "reachable_location u i t = reachable_location u i s" by (simp add: reachable_location_def same)
  then obtain r where r: "HidePin None u i False t = Inr r" using HidePin_ok(2) [OF assms] by (simp add: HidePin_def)
  have "Pins fault covers v b category r = Pins fault covers v b category s"
    if p: "\<not> list_ex (\<lambda>p. pf_user p = u \<and> pf_location p = i \<and> pf_hidden p) (ms_prefs s)" for v fault covers b category
  proof (rule readers_same(1))
    show "ms_world r = ms_world s" "ms_columns r = ms_columns s" "own_pins v r = own_pins v s"
      using HidePin_ok(1) [OF r] same by (simp_all add: own_pins_def)
    have "\<not> hidden_for u s l" if "lc_id (ms_columns s l) = i" for l using p that by (simp add: hidden_for_def)
    then show "hidden_for v r l = hidden_for v s l" for l by (auto simp: hidden_after [OF r] hidden_after [OF assms] same(2))
  qed
  then show "\<exists>r. HidePin None u i False t = Inr r
         \<and> (\<not> list_ex (\<lambda>p. pf_user p = u \<and> pf_location p = i \<and> pf_hidden p) (ms_prefs s) \<longrightarrow>
             (\<forall>v fault covers b category. Pins fault covers v b category r = Pins fault covers v b category s))"
    using r by blast
qed

subsection \<open>A map with one place\<close>

definition cafe_map :: map_store where
  "cafe_map =
     \<lparr>ms_world = empty_world\<lparr>
        contents := [\<lparr>c_id = ''a'', c_platform = ''web'', c_type = ''article'', c_source = None, c_normalized = ''https://a.co/'', c_hash = ''h'',
                      c_scope = ''public'', c_current = Some ''v''\<rparr>],
        versions := [sample_version],
        locations := [\<lparr>g_version = ''v'', g_ordinal = 0, g_name = ''Cafe'', g_address = None, g_locality = None, g_country = None,
                       g_point = \<lparr>latitude = Fin 1, longitude = Fin 2\<rparr>\<rparr>],
        saves := [\<lparr>s_id = ''s1'', s_user = ''ann'', s_content = ''a'', s_saved = 5\<rparr>]\<rparr>,
      ms_columns = (\<lambda>_. \<lparr>lc_id = ''l1'', lc_confidence = 1 / 2, lc_created = 5\<rparr>), ms_pins = [], ms_prefs = []\<rparr>"

definition the_cafe :: "location_row \<times> version_row \<times> save_row" where
  "the_cafe = (hd (locations (ms_world cafe_map)), sample_version, hd (saves (ms_world cafe_map)))"

definition world_view :: bounds where
  "world_view = \<lparr>south = Fin (- 90), west = Fin (- 180), north = Fin 90, east = Fin 180\<rparr>"

lemma cafe_ok: "map_ok cafe_map"
  by (simp add: map_ok_def cafe_map_def empty_world_def sample_version_def)

lemma cafe_pins: "Pins None (\<lambda>_ _. True) ''ann'' world_view [] cafe_map = Inr ([contentPin cafe_map the_cafe], False)"
proof -
  have "map_rows ''ann'' cafe_map = [(5, contentPin cafe_map the_cafe)]"
    by (simp add: map_rows_def visible_rows_def content_rows_def own_pins_def hidden_for_def cafe_map_def the_cafe_def empty_world_def sample_version_def)
  then show ?thesis by (simp add: Pins_def map_order_def in_view_def MaxPins_def)
qed

theorem map_shows_what_the_user_may_see_witness:
  "on_map ''ann'' cafe_map (contentPin cafe_map the_cafe) \<and> CountPins None ''ann'' cafe_map = Inr 1"
proof -
  note m = map_shows_what_the_user_may_see [OF cafe_ok cafe_pins]
  have "\<forall>p. asked_pin (\<lambda>_ _. True) world_view [] p" by (simp add: asked_pin_def in_view_def)
  then have "\<exists>n. CountPins None ''ann'' cafe_map = Inr n \<and> 1 = min n MaxPins" using m by auto
  then have "CountPins None ''ann'' cafe_map = Inr 1" by (auto simp: min_def MaxPins_def split: if_splits)
  then show ?thesis using m by simp
qed

lemma cafe_hidden: "HidePin None ''ann'' ''l1'' True cafe_map = Inr (cafe_map\<lparr>ms_prefs := [\<lparr>pf_user = ''ann'', pf_location = ''l1'', pf_hidden = True\<rparr>]\<rparr>)"
  by (simp add: HidePin_def reachable_location_def upsert_pref_def cafe_map_def empty_world_def)

theorem hidden_pin_is_gone_until_shown_witness:
  "\<not> on_map ''ann'' (cafe_map\<lparr>ms_prefs := [\<lparr>pf_user = ''ann'', pf_location = ''l1'', pf_hidden = True\<rparr>]\<rparr>) (contentPin cafe_map the_cafe)"
  using hidden_pin_is_gone_until_shown [OF cafe_hidden] by (simp add: contentPin_def the_cafe_def cafe_map_def empty_world_def)

end
