(* ===== verification/Places.thy ===== *)
theory Places
  imports MapView
begin

text \<open>
  Finding a place and pinning it (\<open>internal/mapview/places.go\<close>) with the client of Google's service
  (\<open>internal/googleplaces/googleplaces.go\<close>).  What Google answers is an argument.
\<close>

subsection \<open>Google's answers\<close>

text \<open>What \<open>do\<close> brings back: no usable answer, a status other than 200, or a decoded body.\<close>

datatype 'a reply = No_reply string | Http nat | Decoded 'a

definition placeholderKey :: string where "placeholderKey = ''your_google_maps_api_key_here''"

definition Configured :: "string \<Rightarrow> bool" where
  "Configured key = (trim_space key \<noteq> [] \<and> trim_space key \<noteq> placeholderKey)"

definition first_set :: "string list \<Rightarrow> string" where
  "first_set vs = (case filter (\<lambda>v. v \<noteq> []) vs of [] \<Rightarrow> [] | v # _ \<Rightarrow> v)"

definition clean_types :: "string list \<Rightarrow> string list" where
  "clean_types vs = filter (\<lambda>v. v \<noteq> []) (map trim_space vs)"

record suggestion =
  sg_id :: string
  sg_title :: string
  sg_address :: string
  sg_types :: "string list"

record prediction =
  pd_place :: string
  pd_text :: string
  pd_main :: string
  pd_secondary :: string
  pd_types :: "string list"

definition suggestion_of :: "prediction \<Rightarrow> suggestion option" where
  "suggestion_of p =
     (let i = trim_space (pd_place p)
      in if i = [] then None
         else Some \<lparr>sg_id = i, sg_title = first_set [trim_space (pd_main p), trim_space (pd_text p), i],
                    sg_address = trim_space (pd_secondary p), sg_types = clean_types (pd_types p)\<rparr>)"

text \<open>The loop looks at the limit after it has appended.  A suggestion without a prediction is skipped.\<close>

definition Autocomplete :: "string \<Rightarrow> prediction option list reply \<Rightarrow> nat \<Rightarrow> string + suggestion list" where
  "Autocomplete key answer limit =
     (if \<not> Configured key then Inr []
      else (case answer of
              No_reply m \<Rightarrow> Inl m
            | Http n \<Rightarrow> Inl (''answered '' @ show_nat n)
            | Decoded ps \<Rightarrow> Inr (take (max 1 limit) (List.map_filter (\<lambda>p. Option.bind p suggestion_of) ps))))"

record place =
  gp_id :: string
  gp_name :: string
  gp_address :: string
  gp_latitude :: float64
  gp_longitude :: float64
  gp_url :: string
  gp_types :: "string list"

record details_answer =
  da_id :: string
  da_name :: string
  da_address :: string
  da_latitude :: "float64 option"
  da_longitude :: "float64 option"
  da_url :: string
  da_types :: "string list"

datatype place_err = NoSuchPlace | PlaceTrouble string

definition Details :: "string \<Rightarrow> details_answer reply \<Rightarrow> string \<Rightarrow> place_err + place" where
  "Details key answer i =
     (if \<not> Configured key then Inl NoSuchPlace
      else (case answer of
              No_reply m \<Rightarrow> Inl (PlaceTrouble m)
            | Http n \<Rightarrow> Inl (if n = 404 then NoSuchPlace else PlaceTrouble (''answered '' @ show_nat n))
            | Decoded a \<Rightarrow>
                (case (da_latitude a, da_longitude a) of
                   (Some x, Some y) \<Rightarrow> Inr \<lparr>gp_id = first_set [trim_space (da_id a), i], gp_name = trim_space (da_name a),
                       gp_address = trim_space (da_address a), gp_latitude = x, gp_longitude = y, gp_url = trim_space (da_url a), gp_types = clean_types (da_types a)\<rparr>
                 | _ \<Rightarrow> Inl NoSuchPlace)))"

text \<open>The geocoder: the body, once read within its limit and decoded, is a status with its results.\<close>

datatype geocode_reply = Failed string | Answered nat "(string + string \<times> (float64 option \<times> float64 option) list)"

definition geo_text :: "geo_err \<Rightarrow> string" where
  "geo_text e =
     (case e of ErrOutOfRange \<Rightarrow> ''coordinate is out of range'' | ErrNotFinite \<Rightarrow> ''coordinate is not a finite number''
      | ErrEmptyBounds \<Rightarrow> ''bounds have no area'')"

definition Geocode :: "string \<Rightarrow> string option \<Rightarrow> geocode_reply \<Rightarrow> string \<Rightarrow> place_err + geo_point" where
  "Geocode key cancelled answer address =
     (if \<not> Configured key \<or> trim_space address = [] then Inl NoSuchPlace
      else (case cancelled of Some m \<Rightarrow> Inl (PlaceTrouble m)
        | None \<Rightarrow>
          (case answer of
             Failed m \<Rightarrow> Inl (PlaceTrouble m)
           | Answered n body \<Rightarrow>
               (if n \<noteq> 200 then Inl (PlaceTrouble (''google geocoding: answered HTTP '' @ show_nat n))
                else (case body of
                   Inl m \<Rightarrow> Inl (PlaceTrouble m)
                 | Inr (st, results) \<Rightarrow>
                     (if st = ''ZERO_RESULTS'' then Inl NoSuchPlace
                      else if st \<noteq> ''OK'' then
                        Inl (PlaceTrouble (if st \<in> set [''REQUEST_DENIED'', ''OVER_QUERY_LIMIT'', ''OVER_DAILY_LIMIT'', ''UNKNOWN_ERROR'', ''INVALID_REQUEST'']
                                           then ''google geocoding: provider status '' @ st else ''google geocoding: missing or unknown provider status''))
                      else (case results of
                          [] \<Rightarrow> Inl (PlaceTrouble ''google geocoding: successful response has no results'')
                        | (Some x, Some y) # _ \<Rightarrow>
                            (case NewPoint x y of Inl e \<Rightarrow> Inl (PlaceTrouble (''google geocoding: '' @ geo_text e)) | Inr p \<Rightarrow> Inr p)
                        | _ \<Rightarrow> Inl (PlaceTrouble ''google geocoding: successful response has no coordinates''))))))))"

subsection \<open>Text\<close>

text \<open>\<open>\s\<close>, and a run of such characters as one blank.\<close>

definition re_space :: "char \<Rightarrow> bool" where
  "re_space c = (char_code c \<in> {9, 10, 12, 13, 32})"

fun collapse :: "(char \<Rightarrow> bool) \<Rightarrow> bool \<Rightarrow> string \<Rightarrow> string" where
  "collapse p inside [] = []"
| "collapse p inside (c # s) = (if p c then (if inside then [] else '' '') @ collapse p True s else c # collapse p False s)"

definition normalizeSpace :: "string \<Rightarrow> string" where
  "normalizeSpace v = collapse re_space False (trim_space v)"

definition low_alnum :: "char \<Rightarrow> bool" where
  "low_alnum c = (is_lower c \<or> is_digit c)"

fun runs_of :: "(char \<Rightarrow> bool) \<Rightarrow> string \<Rightarrow> string list" where
  "runs_of p [] = [[]]"
| "runs_of p (c # s) = (if \<not> p c then [] # runs_of p s else (case runs_of p s of [] \<Rightarrow> [[c]] | x # xs \<Rightarrow> (c # x) # xs))"

definition searchTokens :: "string \<Rightarrow> string list" where
  "searchTokens lowered = filter (\<lambda>t. 1 < length t) (runs_of low_alnum lowered)"

definition normalizeDedupe :: "string \<Rightarrow> string" where
  "normalizeDedupe v = trim_space (collapse (\<lambda>c. \<not> low_alnum c) False (to_lower v))"

definition deref :: "string option \<Rightarrow> string" where
  "deref v = (case v of None \<Rightarrow> [] | Some s \<Rightarrow> s)"

definition labelOr :: "string option \<Rightarrow> string \<Rightarrow> string" where
  "labelOr v fallback = (if trim_space (deref v) \<noteq> [] then trim_space (deref v) else fallback)"

text \<open>\<open>candidate\<close> is a pin with the text of its save.\<close>

record place_candidate =
  pc_pin :: pin
  pc_title :: string
  pc_summary :: string

definition displayTitle :: "place_candidate \<Rightarrow> string" where
  "displayTitle c = (if trim_space (pc_title c) \<noteq> [] then trim_space (pc_title c) else pn_name (pc_pin c))"

definition displayAddress :: "float_text \<Rightarrow> pin \<Rightarrow> string" where
  "displayAddress ft p =
     (if trim_space (deref (pn_address p)) \<noteq> [] then trim_space (deref (pn_address p))
      else if pn_name p \<noteq> [] then pn_name p
      else show_5f ft (latitude (pn_point p)) @ '', '' @ show_5f ft (longitude (pn_point p)))"

subsection \<open>Matching\<close>

definition MinPlaceQuery :: nat where "MinPlaceQuery = 2"
definition MaxPlaceResults :: nat where "MaxPlaceResults = 10"
definition localMatchThreshold :: rat where "localMatchThreshold = 31 / 50"
definition maxPlaceCandidates :: nat where "maxPlaceCandidates = 2000"

definition haystack :: "float_text \<Rightarrow> place_candidate \<Rightarrow> string" where
  "haystack ft c =
     (let p = pc_pin c in
      to_lower (normalizeSpace (join_with '' '' [displayTitle c, pc_title c, pc_summary c, pn_name p, displayAddress ft p, deref (pn_address p),
        labelOr (pn_category p) uncategorised, labelOr (pn_subcategory p) uncategorised])))"

definition matchScore :: "float_text \<Rightarrow> place_candidate \<Rightarrow> string \<Rightarrow> string list \<Rightarrow> rat" where
  "matchScore ft c q tokens =
     (if contains_str (haystack ft c) q then 1
      else if tokens = [] then 0
      else of_nat (length (filter (contains_str (haystack ft c)) tokens)) / of_nat (length tokens))"

definition matchCandidates :: "float_text \<Rightarrow> place_candidate list \<Rightarrow> string \<Rightarrow> string \<Rightarrow> nat \<Rightarrow> place_candidate list" where
  "matchCandidates ft cs q category limit =
     (let lowered = to_lower q; score = (\<lambda>c. matchScore ft c lowered (searchTokens lowered)) in
      take limit (sort_key (\<lambda>c. - score c)
        (filter (\<lambda>c. (category = [] \<or> labelOr (pn_category (pc_pin c)) uncategorised = category) \<and> localMatchThreshold \<le> score c) cs)))"

subsection \<open>Duplicates\<close>

definition placeKeys :: "float_text \<Rightarrow> (float64 \<Rightarrow> float64) \<Rightarrow> string \<Rightarrow> geo_point option \<Rightarrow> string \<Rightarrow> string list" where
  "placeKeys ft round5 i p address =
     (if normalizeDedupe i \<noteq> [] then [''place:'' @ normalizeDedupe i] else [])
     @ (case p of None \<Rightarrow> [] | Some x \<Rightarrow> [''point:'' @ show_5f ft (round5 (latitude x)) @ '','' @ show_5f ft (round5 (longitude x))])
     @ (if normalizeDedupe address \<noteq> [] then [''address:'' @ normalizeDedupe address] else [])"

definition pin_keys :: "float_text \<Rightarrow> (float64 \<Rightarrow> float64) \<Rightarrow> place_candidate \<Rightarrow> string list" where
  "pin_keys ft round5 c = placeKeys ft round5 (deref (pn_place (pc_pin c))) (Some (pn_point (pc_pin c))) (deref (pn_address (pc_pin c)))"

definition suggestion_keys :: "float_text \<Rightarrow> (float64 \<Rightarrow> float64) \<Rightarrow> suggestion \<Rightarrow> string list" where
  "suggestion_keys ft round5 g = placeKeys ft round5 (sg_id g) None (sg_address g)"

record place_result =
  pr_type :: string
  pr_source :: "pin_kind option"
  pr_item :: "pin option"
  pr_place :: "string option"
  pr_title :: string
  pr_address :: string
  pr_name :: string
  pr_point :: "geo_point option"
  pr_url :: "string option"
  pr_types :: "string list"
  pr_can_pin :: bool

definition existingResult :: "float_text \<Rightarrow> place_candidate \<Rightarrow> place_result" where
  "existingResult ft c =
     (let p = pc_pin c in
      \<lparr>pr_type = ''existing'', pr_source = Some (pn_kind p), pr_item = Some p, pr_place = pn_place p, pr_title = displayTitle c,
       pr_address = displayAddress ft p, pr_name = pn_name p, pr_point = Some (pn_point p), pr_url = pn_url p, pr_types = pn_types p, pr_can_pin = False\<rparr>)"

definition googleResult :: "suggestion \<Rightarrow> place_result" where
  "googleResult g =
     \<lparr>pr_type = ''google'', pr_source = None, pr_item = None, pr_place = Some (sg_id g), pr_title = sg_title g, pr_address = sg_address g,
      pr_name = sg_title g, pr_point = None, pr_url = None, pr_types = sg_types g, pr_can_pin = True\<rparr>"

text \<open>\<open>known\<close> holds the keys in \<open>taken\<close> and in \<open>seen\<close>.\<close>

fun fresh_suggestions :: "(suggestion \<Rightarrow> string list) \<Rightarrow> string list \<Rightarrow> suggestion list \<Rightarrow> suggestion list" where
  "fresh_suggestions keys known [] = []"
| "fresh_suggestions keys known (g # gs) =
     (if list_ex (\<lambda>k. k \<in> set known) (keys g) then fresh_suggestions keys known gs
      else g # fresh_suggestions keys (keys g @ known) gs)"

definition dedupeSuggestions :: "float_text \<Rightarrow> (float64 \<Rightarrow> float64) \<Rightarrow> suggestion list \<Rightarrow> place_candidate list \<Rightarrow> place_result list" where
  "dedupeSuggestions ft round5 gs existing =
     map googleResult (fresh_suggestions (suggestion_keys ft round5) (concat (map (pin_keys ft round5) existing)) gs)"

definition searchMode :: "nat \<Rightarrow> nat \<Rightarrow> string" where
  "searchMode existing google = (if 0 < existing \<and> 0 < google then ''mixed'' else if 0 < existing then ''existing'' else ''google'')"

subsection \<open>Storage\<close>

text \<open>Every pin of a user with the text of its save, newest first; a pin of the user's own counts from its creation.\<close>

definition candidate_rows :: "string \<Rightarrow> map_store \<Rightarrow> (time \<times> place_candidate) list" where
  "candidate_rows u s =
     map (\<lambda>(l, v, x). (s_saved x, \<lparr>pc_pin = contentPin s (l, v, x), pc_title = v_title v, pc_summary = v_summary v\<rparr>)) (visible_rows u s)
     @ map (\<lambda>m. (mp_created m, \<lparr>pc_pin = manualPin m, pc_title = mp_name m, pc_summary = deref (mp_address m)\<rparr>)) (own_pins u s)"

definition PlaceCandidates :: "string option \<Rightarrow> string \<Rightarrow> map_store \<Rightarrow> string + place_candidate list" where
  "PlaceCandidates fault u s =
     (case fault of Some m \<Rightarrow> Inl m
      | None \<Rightarrow> Inr (take maxPlaceCandidates (map snd (sort_key (\<lambda>r. - fst r) (sort_key (\<lambda>r. pn_id (pc_pin (snd r))) (candidate_rows u s))))))"

definition PinByPlace :: "string option \<Rightarrow> string \<Rightarrow> string \<Rightarrow> map_store \<Rightarrow> map_err + pin" where
  "PinByPlace fault u i s =
     (case fault of Some m \<Rightarrow> Inl (PinOther m)
      | None \<Rightarrow> (case find (\<lambda>m. mp_user m = u \<and> mp_place m = Some i) (ms_pins s) of None \<Rightarrow> Inl PinNotFound | Some m \<Rightarrow> Inr (manualPin m)))"

definition place_row :: "string \<Rightarrow> time \<Rightarrow> string \<Rightarrow> place \<Rightarrow> string \<Rightarrow> string \<Rightarrow> manual_row" where
  "place_row new now u g category subcategory =
     \<lparr>mp_id = new, mp_user = u, mp_name = gp_name g, mp_address = (if gp_address g = [] then None else Some (gp_address g)),
      mp_point = \<lparr>latitude = gp_latitude g, longitude = gp_longitude g\<rparr>, mp_created = now, mp_place = Some (gp_id g),
      mp_url = (if gp_url g = [] then None else Some (gp_url g)), mp_category = Some category, mp_subcategory = Some subcategory, mp_types = gp_types g\<rparr>"

text \<open>\<open>ON CONFLICT (user_id, google_place_id)\<close>: the row keeps its id and the time of its creation.\<close>

definition UpsertPlacePin :: "string option \<Rightarrow> string \<Rightarrow> time \<Rightarrow> string \<Rightarrow> place \<Rightarrow> string \<Rightarrow> string \<Rightarrow> map_store \<Rightarrow> map_err + pin \<times> map_store" where
  "UpsertPlacePin fault new now u g category subcategory s =
     (case fault of Some m \<Rightarrow> Inl (PinOther m)
      | None \<Rightarrow>
        (case find (\<lambda>m. mp_user m = u \<and> mp_place m = Some (gp_id g)) (ms_pins s) of
           Some old \<Rightarrow>
             (let row = place_row (mp_id old) (mp_created old) u g category subcategory
              in Inr (manualPin row, s\<lparr>ms_pins := update_where (\<lambda>m. mp_user m = u \<and> mp_place m = Some (gp_id g)) (\<lambda>_. row) (ms_pins s)\<rparr>))
         | None \<Rightarrow>
             (let row = place_row new now u g category subcategory in Inr (manualPin row, s\<lparr>ms_pins := ms_pins s @ [row]\<rparr>))))"

subsection \<open>The service\<close>

record place_search =
  ps_query :: string
  ps_mode :: string
  ps_total :: nat
  ps_results :: "place_result list"

text \<open>\<open>autocomplete\<close> is the client called with the query and the limit; its failure is an answer without Google.\<close>

definition Search_places ::
  "float_text \<Rightarrow> (float64 \<Rightarrow> float64) \<Rightarrow> (string \<Rightarrow> nat \<Rightarrow> string + suggestion list) \<Rightarrow> string option \<Rightarrow> string \<Rightarrow> string \<Rightarrow> string \<Rightarrow> nat
   \<Rightarrow> map_store \<Rightarrow> string + place_search" where
  "Search_places ft round5 autocomplete fault u text category limit s =
     (let q = normalizeSpace text in
      if rune_count q < MinPlaceQuery then Inr \<lparr>ps_query = q, ps_mode = ''empty'', ps_total = 0, ps_results = []\<rparr>
      else bind_r (PlaceCandidates fault u s) (\<lambda>cs.
        (let matched = matchCandidates ft cs q category limit;
             gs = (case autocomplete q limit of Inl m \<Rightarrow> [] | Inr gs \<Rightarrow> gs);
             google = dedupeSuggestions ft round5 gs matched;
             results = map (existingResult ft) matched @ google
         in Inr \<lparr>ps_query = q, ps_mode = searchMode (length matched) (length google), ps_total = length results, ps_results = results\<rparr>)))"

text \<open>What one call of \<open>PinPlace\<close> takes from outside: failures of its two statements, the answer of Google, the id and the time of a
  new row.  The two statements read the store at two moments.\<close>

record pin_env =
  pe_read :: "string option"
  pe_write :: "string option"
  pe_key :: string
  pe_details :: "string \<Rightarrow> details_answer reply"
  pe_new :: string
  pe_now :: time

text \<open>The result comes with whether Google was asked and the store that the call leaves.\<close>

definition PinPlace :: "pin_env \<Rightarrow> string \<Rightarrow> string \<Rightarrow> map_store \<Rightarrow> map_store \<Rightarrow> (place_err + pin \<times> bool) \<times> bool \<times> map_store" where
  "PinPlace e u raw s1 s2 =
     (let i = trim_space raw in
      if i = [] then (Inl NoSuchPlace, False, s2)
      else (case PinByPlace (pe_read e) u i s1 of
              Inr p \<Rightarrow> (Inr (p, False), False, s2)
            | Inl (PinOther m) \<Rightarrow> (Inl (PlaceTrouble m), False, s2)
            | Inl PinNotFound \<Rightarrow>
                (case Details (pe_key e) (pe_details e i) i of
                   Inl x \<Rightarrow> (Inl x, Configured (pe_key e), s2)
                 | Inr g \<Rightarrow>
                     (case UpsertPlacePin (pe_write e) (pe_new e) (pe_now e) u g uncategorised uncategorised s2 of
                        Inl (PinOther m) \<Rightarrow> (Inl (PlaceTrouble m), True, s2)
                      | Inl PinNotFound \<Rightarrow> (Inl NoSuchPlace, True, s2)
                      | Inr (p, t) \<Rightarrow> (Inr (p, True), True, t)))))"

subsection \<open>A search of places\<close>

lemma candidate_pins: "pc_pin ` snd ` set (candidate_rows u s) = snd ` set (map_rows u s)"
  unfolding candidate_rows_def map_rows_def set_append set_map image_Un image_image
  by (intro arg_cong2 [where f = "(\<union>)"] image_cong) (auto split: prod.splits)

lemma candidates_on_map: "PlaceCandidates fault u s = Inr cs \<Longrightarrow> c \<in> set cs \<Longrightarrow> on_map u s (pc_pin c)"
  unfolding on_map_rows candidate_pins [symmetric] by (auto simp: PlaceCandidates_def split: option.splits dest: in_set_takeD)

lemma fresh_subset: "set (fresh_suggestions keys known gs) \<subseteq> set gs"
  by (induction gs arbitrary: known) auto

lemma fresh_unknown: "g \<in> set (fresh_suggestions keys known gs) \<Longrightarrow> set (keys g) \<inter> set known = {}"
  by (induction gs arbitrary: known) (fastforce simp: list_ex_iff split: if_splits)+

lemma fresh_disjoint: "sorted_wrt (\<lambda>g h. set (keys g) \<inter> set (keys h) = {}) (fresh_suggestions keys known gs)"
proof (induction gs arbitrary: known)
  case (Cons g gs)
  have "set (keys g) \<inter> set (keys h) = {}" if "h \<in> set (fresh_suggestions keys (keys g @ known) gs)" for h
    using fresh_unknown [OF that] by auto
  then show ?case using Cons by simp
qed simp

text \<open>A suggestion that was dropped shares a key with what is shown.\<close>

lemma fresh_dropped:
  "g \<in> set gs \<Longrightarrow> g \<notin> set (fresh_suggestions keys known gs) \<Longrightarrow>
   \<exists>k \<in> set (keys g). k \<in> set known \<or> (\<exists>h \<in> set (fresh_suggestions keys known gs). k \<in> set (keys h))"
proof (induction gs arbitrary: known)
  case (Cons h gs)
  show ?case
  proof (cases "list_ex (\<lambda>k. k \<in> set known) (keys h)")
    case True
    show ?thesis
    proof (cases "g = h")
      case False
      then show ?thesis using Cons True by simp
    qed (use True in \<open>auto simp: list_ex_iff\<close>)
  next
    case False
    then have "g \<in> set gs" "g \<notin> set (fresh_suggestions keys (keys h @ known) gs)" using Cons.prems by auto
    from Cons.IH [OF this] show ?thesis using False by auto
  qed
qed simp

lemma matched_ok:
  assumes "c \<in> set (matchCandidates ft cs q category limit)"
  shows "c \<in> set cs \<and> (category = [] \<or> labelOr (pn_category (pc_pin c)) uncategorised = category)
      \<and> localMatchThreshold \<le> matchScore ft c (to_lower q) (searchTokens (to_lower q))"
  using assms by (auto simp: matchCandidates_def Let_def dest!: in_set_takeD)

lemma matched_sorted: "sorted_wrt (\<lambda>c d. matchScore ft d (to_lower q) (searchTokens (to_lower q)) \<le> matchScore ft c (to_lower q) (searchTokens (to_lower q)))
    (matchCandidates ft cs q category limit)"
proof -
  let ?score = "\<lambda>c. matchScore ft c (to_lower q) (searchTokens (to_lower q))"
  have "sorted_wrt (\<lambda>c d. - ?score c \<le> - ?score d) (sort_key (\<lambda>c. - ?score c) xs)" for xs
    using sorted_sort_key [of "\<lambda>c. - ?score c" xs] by (simp only: sorted_wrt_map)
  then show ?thesis unfolding matchCandidates_def Let_def by (intro sorted_wrt_take) simp
qed

lemma matched_length: "length (matchCandidates ft cs q category limit) \<le> limit"
  by (simp add: matchCandidates_def Let_def)

lemma full_match: "contains_str (haystack ft c) q \<Longrightarrow> matchScore ft c q tokens = 1"
  by (simp add: matchScore_def)

lemma score_range: "0 \<le> matchScore ft c q tokens \<and> matchScore ft c q tokens \<le> 1"
proof -
  have "length (filter (contains_str (haystack ft c)) tokens) \<le> length tokens" by simp
  then have "(of_nat (length (filter (contains_str (haystack ft c)) tokens)) :: rat) \<le> of_nat (length tokens)" by (simp only: of_nat_le_iff)
  then show ?thesis by (auto simp: matchScore_def divide_le_eq)
qed

text \<open>A search of places shows first pins that the user may see, which match the query well enough, best first and at most the
  limit, and then suggestions of Google, in its order, none of which shares a place, a position or an address with a pin
  shown or with another suggestion; a suggestion is left out only because it does.  The total counts both, and when Google
  fails the user's own pins come all the same.\<close>

theorem place_search_shows_own_pins_first:
  assumes "Search_places ft round5 autocomplete fault u text category limit s = Inr r" and "MinPlaceQuery \<le> rune_count (normalizeSpace text)"
  shows "\<exists>matched google. ps_results r = map (existingResult ft) matched @ map googleResult google \<and> ps_total r = length (ps_results r)
    \<and> (\<forall>c \<in> set matched. on_map u s (pc_pin c) \<and> (category = [] \<or> labelOr (pn_category (pc_pin c)) uncategorised = category)
         \<and> localMatchThreshold \<le> matchScore ft c (to_lower (ps_query r)) (searchTokens (to_lower (ps_query r))))
    \<and> sorted_wrt (\<lambda>c d. matchScore ft d (to_lower (ps_query r)) (searchTokens (to_lower (ps_query r)))
         \<le> matchScore ft c (to_lower (ps_query r)) (searchTokens (to_lower (ps_query r)))) matched
    \<and> length matched \<le> limit
    \<and> (\<forall>g \<in> set google. \<forall>c \<in> set matched. set (suggestion_keys ft round5 g) \<inter> set (pin_keys ft round5 c) = {})
    \<and> sorted_wrt (\<lambda>g h. set (suggestion_keys ft round5 g) \<inter> set (suggestion_keys ft round5 h) = {}) google
    \<and> (case autocomplete (ps_query r) limit of
         Inl m \<Rightarrow> google = []
       | Inr gs \<Rightarrow> set google \<subseteq> set gs \<and> (\<forall>g \<in> set gs. g \<notin> set google \<longrightarrow>
           (\<exists>k \<in> set (suggestion_keys ft round5 g). (\<exists>c \<in> set matched. k \<in> set (pin_keys ft round5 c)) \<or> (\<exists>h \<in> set google. k \<in> set (suggestion_keys ft round5 h)))))"
proof -
  let ?q = "normalizeSpace text"
  obtain cs where cs: "PlaceCandidates fault u s = Inr cs"
    using assms by (cases "PlaceCandidates fault u s") (auto simp: Search_places_def Let_def)
  define matched where "matched = matchCandidates ft cs ?q category limit"
  define gs where "gs = (case autocomplete ?q limit of Inl m \<Rightarrow> [] | Inr gs \<Rightarrow> gs)"
  define google where "google = fresh_suggestions (suggestion_keys ft round5) (concat (map (pin_keys ft round5) matched)) gs"
  have r: "ps_query r = ?q" "ps_results r = map (existingResult ft) matched @ map googleResult google" "ps_total r = length (ps_results r)"
    using assms cs by (auto simp: Search_places_def Let_def matched_def google_def gs_def dedupeSuggestions_def)
  show ?thesis
  proof (rule exI [of _ matched], rule exI [of _ google], intro conjI)
    show "ps_results r = map (existingResult ft) matched @ map googleResult google" "ps_total r = length (ps_results r)" by (fact r)+
    show "\<forall>c \<in> set matched. on_map u s (pc_pin c) \<and> (category = [] \<or> labelOr (pn_category (pc_pin c)) uncategorised = category)
         \<and> localMatchThreshold \<le> matchScore ft c (to_lower (ps_query r)) (searchTokens (to_lower (ps_query r)))"
      using matched_ok candidates_on_map [OF cs] unfolding matched_def r(1) by blast
    show "sorted_wrt (\<lambda>c d. matchScore ft d (to_lower (ps_query r)) (searchTokens (to_lower (ps_query r)))
         \<le> matchScore ft c (to_lower (ps_query r)) (searchTokens (to_lower (ps_query r)))) matched"
      unfolding matched_def r(1) by (rule matched_sorted)
    show "length matched \<le> limit" unfolding matched_def by (rule matched_length)
    show "\<forall>g \<in> set google. \<forall>c \<in> set matched. set (suggestion_keys ft round5 g) \<inter> set (pin_keys ft round5 c) = {}"
      using fresh_unknown [of _ "suggestion_keys ft round5" "concat (map (pin_keys ft round5) matched)" gs] unfolding google_def by auto
    show "sorted_wrt (\<lambda>g h. set (suggestion_keys ft round5 g) \<inter> set (suggestion_keys ft round5 h) = {}) google"
      unfolding google_def by (rule fresh_disjoint)
    have "set google \<subseteq> set gs" unfolding google_def by (rule fresh_subset)
    moreover have "\<exists>k \<in> set (suggestion_keys ft round5 g). (\<exists>c \<in> set matched. k \<in> set (pin_keys ft round5 c)) \<or> (\<exists>h \<in> set google. k \<in> set (suggestion_keys ft round5 h))"
      if "g \<in> set gs" "g \<notin> set google" for g
      using fresh_dropped [of g gs "suggestion_keys ft round5" "concat (map (pin_keys ft round5) matched)"] that unfolding google_def by auto
    ultimately show "case autocomplete (ps_query r) limit of
         Inl m \<Rightarrow> google = []
       | Inr gs \<Rightarrow> set google \<subseteq> set gs \<and> (\<forall>g \<in> set gs. g \<notin> set google \<longrightarrow>
           (\<exists>k \<in> set (suggestion_keys ft round5 g). (\<exists>c \<in> set matched. k \<in> set (pin_keys ft round5 c)) \<or> (\<exists>h \<in> set google. k \<in> set (suggestion_keys ft round5 h))))"
      by (auto simp: r(1) gs_def split: sum.splits)
  qed
qed

subsection \<open>Many users at once\<close>

text \<open>What user \<open>u\<close> can do to the map.  A call of \<open>PinPlace\<close> may have looked for its pin in a store of an earlier moment.\<close>

inductive map_step :: "string \<Rightarrow> map_store \<Rightarrow> map_store \<Rightarrow> bool" for u where
  created: "CreateManualPin fault new now u name address p s = Inr (q, t) \<Longrightarrow> map_step u s t"
| deleted: "DeleteManualPin fault u i s = Inr t \<Longrightarrow> map_step u s t"
| hidden: "HidePin fault u i h s = Inr t \<Longrightarrow> map_step u s t"
| removed: "DeleteItem uuid_of fault u raw s = Inr t \<Longrightarrow> map_step u s t"
| pinned: "PinPlace e u raw earlier s = (res, asked, t) \<Longrightarrow> map_step u s t"

inductive map_reach :: "map_store \<Rightarrow> bool" where
  start: "ms_pins s = [] \<Longrightarrow> map_reach s"
| step: "map_reach s \<Longrightarrow> map_step u s t \<Longrightarrow> map_reach t"

inductive_cases map_stepE: "map_step u s t"

definition places_unique :: "manual_row list \<Rightarrow> bool" where
  "places_unique ms = distinct (map (\<lambda>m. (mp_user m, mp_place m)) (filter (\<lambda>m. mp_place m \<noteq> None) ms))"

definition same_for :: "string \<Rightarrow> map_store \<Rightarrow> map_store \<Rightarrow> bool" where
  "same_for v s t =
     (ms_world t = ms_world s \<and> ms_columns t = ms_columns s \<and> own_pins v t = own_pins v s
      \<and> (\<forall>l. hidden_for v t l = hidden_for v s l))"

lemma same_for_refl [simp]: "same_for v s s"
  by (simp add: same_for_def)

lemma PinPlace_store:
  "PinPlace e u raw s1 s = (res, asked, t) \<Longrightarrow>
   t = s \<or> (\<exists>g p. UpsertPlacePin (pe_write e) (pe_new e) (pe_now e) u g uncategorised uncategorised s = Inr (p, t))"
  by (auto simp: PinPlace_def Let_def split: if_splits sum.splits map_err.splits)

lemma own_filter_other: "v \<noteq> u \<Longrightarrow> (\<And>m. P m \<Longrightarrow> mp_user m = u) \<Longrightarrow> filter (\<lambda>m. mp_user m = v) (filter (\<lambda>m. \<not> P m) ms) = filter (\<lambda>m. mp_user m = v) ms"
  by (induction ms) auto

lemma own_update_other:
  "v \<noteq> u \<Longrightarrow> (\<And>m. P m \<Longrightarrow> mp_user m = u) \<Longrightarrow> (\<And>m. mp_user (f m) = u) \<Longrightarrow>
   filter (\<lambda>m. mp_user m = v) (update_where P f ms) = filter (\<lambda>m. mp_user m = v) ms"
  by (induction ms) (auto simp: update_where_def)

lemma step_same_for:
  assumes "map_step u s t" and "v \<noteq> u"
  shows "same_for v s t"
proof -
  have hide: "same_for v s t" if "HidePin fault u i h s = Inr t" for fault i h
  proof -
    have "ms_world t = ms_world s" "ms_columns t = ms_columns s" "ms_pins t = ms_pins s" by (simp_all add: HidePin_ok(1) [OF that])
    then show ?thesis using assms(2) by (simp add: same_for_def own_pins_def hidden_after [OF that])
  qed
  have drop: "same_for v s t" if "DeleteManualPin fault u i s = Inr t" for fault i
    using that assms(2) own_filter_other [OF assms(2), of "\<lambda>m. mp_id m = i \<and> mp_user m = u" "ms_pins s"]
    by (auto simp: DeleteManualPin_def same_for_def own_pins_def hidden_for_def split: option.splits if_splits)
  from assms(1) show ?thesis
  proof (cases rule: map_step.cases)
    case (created fault new now name address p q)
    then show ?thesis using assms(2)
      by (auto simp: CreateManualPin_def Let_def same_for_def own_pins_def hidden_for_def split: option.splits if_splits)
  next
    case (removed uuid_of fault raw)
    then show ?thesis using hide drop by (auto simp: DeleteItem_def split: option.splits map_item.splits)
  next
    case (pinned e raw earlier res asked)
    from PinPlace_store [OF this] show ?thesis
    proof (elim disjE exE)
      fix g p
      assume "UpsertPlacePin (pe_write e) (pe_new e) (pe_now e) u g uncategorised uncategorised s = Inr (p, t)"
      then show ?thesis using assms(2)
          own_update_other [OF assms(2), of "\<lambda>m. mp_user m = u \<and> mp_place m = Some (gp_id g)" "\<lambda>_. place_row i n u g uncategorised uncategorised" "ms_pins s" for i n]
        by (auto simp: UpsertPlacePin_def Let_def same_for_def own_pins_def hidden_for_def place_row_def split: option.splits)
    qed simp
  qed (fact hide drop)+
qed

lemma place_row_key [simp]: "mp_user (place_row i n u g c d) = u" "mp_place (place_row i n u g c d) = Some (gp_id g)"
  by (simp_all add: place_row_def)

lemma places_append: "places_unique (ms @ [m]) = (places_unique ms \<and> (mp_place m = None \<or> (mp_user m, mp_place m) \<notin> (\<lambda>m. (mp_user m, mp_place m)) ` set ms))"
  by (auto simp: places_unique_def)

lemma places_filter: "places_unique ms \<Longrightarrow> places_unique (filter P ms)"
proof -
  have "filter (\<lambda>m. mp_place m \<noteq> None) (filter P ms) = filter P (filter (\<lambda>m. mp_place m \<noteq> None) ms)" by (simp add: conj_commute)
  then show "places_unique ms \<Longrightarrow> places_unique (filter P ms)" by (simp only: places_unique_def distinct_map_filter)
qed

lemma places_update:
  assumes "\<And>m. P m \<Longrightarrow> mp_user (f m) = mp_user m \<and> mp_place (f m) = mp_place m"
  shows "places_unique (update_where P f ms) = places_unique ms"
proof -
  have "map (\<lambda>m. (mp_user m, mp_place m)) (filter (\<lambda>m. mp_place m \<noteq> None) (update_where P f ms))
      = map (\<lambda>m. (mp_user m, mp_place m)) (filter (\<lambda>m. mp_place m \<noteq> None) ms)"
    using assms by (induction ms) (auto simp: update_where_def)
  then show ?thesis by (simp add: places_unique_def)
qed

lemma places_replace:
  "places_unique (update_where (\<lambda>m. mp_user m = u \<and> mp_place m = Some (gp_id g)) (\<lambda>_. place_row i n u g c d) ms) = places_unique ms"
  by (rule places_update) simp

lemma step_places:
  assumes "map_step u s t" and "places_unique (ms_pins s)"
  shows "places_unique (ms_pins t)"
proof -
  have hide: "places_unique (ms_pins t)" if "HidePin fault u i h s = Inr t" for fault i h
    using assms(2) HidePin_ok(1) [OF that] by simp
  have drop: "places_unique (ms_pins t)" if "DeleteManualPin fault u i s = Inr t" for fault i
    using that places_filter [OF assms(2)] by (auto simp: DeleteManualPin_def split: option.splits if_splits)
  from assms(1) show ?thesis
  proof (cases rule: map_step.cases)
    case (created fault new now name address p q)
    then show ?thesis using assms(2) by (auto simp: CreateManualPin_def Let_def places_append split: option.splits if_splits)
  next
    case (removed uuid_of fault raw)
    then show ?thesis using hide drop by (auto simp: DeleteItem_def split: option.splits map_item.splits)
  next
    case (pinned e raw earlier res asked)
    from PinPlace_store [OF this] show ?thesis
    proof (elim disjE exE)
      fix g p
      assume up: "UpsertPlacePin (pe_write e) (pe_new e) (pe_now e) u g uncategorised uncategorised s = Inr (p, t)"
      show ?thesis
      proof (cases "find (\<lambda>m. mp_user m = u \<and> mp_place m = Some (gp_id g)) (ms_pins s)")
        case None
        then have "(u, Some (gp_id g)) \<notin> (\<lambda>m. (mp_user m, mp_place m)) ` set (ms_pins s)" by (auto simp: find_None_iff)
        then show ?thesis using up None assms(2)
          by (auto simp: UpsertPlacePin_def Let_def places_append split: option.splits)
      next
        case (Some old)
        then show ?thesis using up assms(2)
          by (auto simp: UpsertPlacePin_def Let_def places_replace split: option.splits)
      qed
    qed (use assms(2) in simp)
  qed (fact hide drop)+
qed

lemma reach_places: "map_reach s \<Longrightarrow> places_unique (ms_pins s)"
proof (induction rule: map_reach.induct)
  case (start s)
  then show ?case by (simp add: places_unique_def)
next
  case (step s u t)
  then show ?case using step_places by blast
qed

text \<open>Without a change in between a second call finds the pin of the first.\<close>

lemma pin_again:
  assumes "PinPlace e u raw s s = (Inr (p, created), asked, t)" and "\<And>g. Details (pe_key e) (pe_details e (trim_space raw)) (trim_space raw) = Inr g \<Longrightarrow> gp_id g = trim_space raw"
    and "pe_read (e' :: pin_env) = None"
  shows "PinPlace e' u raw t t = (Inr (p, False), False, t)"
proof (cases "PinByPlace (pe_read e) u (trim_space raw) s")
  case (Inr q)
  then have "t = s" "q = p" "trim_space raw \<noteq> []" using assms(1) by (auto simp: PinPlace_def Let_def split: if_splits)
  moreover have "PinByPlace None u (trim_space raw) s = Inr q" using Inr by (auto simp: PinByPlace_def split: option.splits)
  ultimately show ?thesis by (simp add: PinPlace_def assms(3))
next
  case (Inl x)
  with assms(1) obtain g where x: "x = PinNotFound" "trim_space raw \<noteq> []" and g: "Details (pe_key e) (pe_details e (trim_space raw)) (trim_space raw) = Inr g"
    and up: "UpsertPlacePin (pe_write e) (pe_new e) (pe_now e) u g uncategorised uncategorised s = Inr (p, t)"
    by (auto simp: PinPlace_def Let_def split: if_splits sum.splits map_err.splits)
  have none: "find (\<lambda>m. mp_user m = u \<and> mp_place m = Some (gp_id g)) (ms_pins s) = None"
    using Inl unfolding x(1) assms(2) [OF g] by (auto simp: PinByPlace_def split: option.splits)
  let ?row = "place_row (pe_new e) (pe_now e) u g uncategorised uncategorised"
  have t: "t = s\<lparr>ms_pins := ms_pins s @ [?row]\<rparr>" "p = manualPin ?row"
    using up by (auto simp: UpsertPlacePin_def none Let_def split: option.splits)
  have "find P (ms @ [m]) = Some m" if "find P ms = None" "P m" for P ms and m :: manual_row using that by (induction ms) (auto split: if_splits)
  then have "find (\<lambda>m. mp_user m = u \<and> mp_place m = Some (trim_space raw)) (ms_pins t) = Some ?row"
    using none unfolding assms(2) [OF g] t by (simp add: place_row_def assms(2) [OF g])
  then show ?thesis by (simp add: PinPlace_def PinByPlace_def assms(3) x(2) t(2))
qed


subsection \<open>Examples\<close>

definition plain_floats :: float_text where
  "plain_floats = \<lparr>show_v = (\<lambda>_. ''0''), show_5f = (\<lambda>_. ''0.00000'')\<rparr>"

lemma cafe_query: "normalizeSpace '' the  cafe'' = ''the cafe''"
  by code_simp

lemma cafe_runes: "rune_count ''the cafe'' = 8"
  by code_simp

theorem place_search_shows_own_pins_first_witness:
  "\<exists>r matched. Search_places plain_floats (\<lambda>x. x) (\<lambda>_ _. Inl ''down'') None ''ann'' '' the  cafe'' [] 5 cafe_map = Inr r
     \<and> ps_results r = map (existingResult plain_floats) matched \<and> ps_total r = length matched \<and> length matched \<le> 5"
proof -
  have short: "\<not> rune_count (normalizeSpace '' the  cafe'') < MinPlaceQuery" unfolding cafe_query cafe_runes MinPlaceQuery_def by simp
  have "\<exists>r. Search_places plain_floats (\<lambda>x. x) (\<lambda>_ _. Inl ''down'') None ''ann'' '' the  cafe'' [] 5 cafe_map = Inr r"
    unfolding Search_places_def Let_def if_not_P [OF short] PlaceCandidates_def by simp
  then obtain r where r: "Search_places plain_floats (\<lambda>x. x) (\<lambda>_ _. Inl ''down'') None ''ann'' '' the  cafe'' [] 5 cafe_map = Inr r" by blast
  have "MinPlaceQuery \<le> rune_count (normalizeSpace '' the  cafe'')" using short by simp
  from place_search_shows_own_pins_first [OF r this] show ?thesis using r by auto
qed

definition cafe_details :: "string \<Rightarrow> details_answer reply" where
  "cafe_details i = Decoded \<lparr>da_id = i, da_name = ''Cafe'', da_address = [], da_latitude = Some (Fin 1), da_longitude = Some (Fin 2), da_url = [], da_types = []\<rparr>"

definition cafe_env :: pin_env where
  "cafe_env = \<lparr>pe_read = None, pe_write = None, pe_key = ''k'', pe_details = cafe_details, pe_new = ''m1'', pe_now = 7\<rparr>"

lemma cafe_key: "Configured ''k''" "trim_space ''g1'' = ''g1''"
  by code_simp+

lemma cafe_place: "Details ''k'' (cafe_details ''g1'') ''g1'' = Inr \<lparr>gp_id = ''g1'', gp_name = ''Cafe'', gp_address = [], gp_latitude = Fin 1, gp_longitude = Fin 2, gp_url = [], gp_types = []\<rparr>"
  by code_simp

lemma cafe_reach: "map_reach cafe_map"
  by (rule map_reach.start) (simp add: cafe_map_def)


text \<open>Google may answer with another id than the one it was asked for; the pin is kept under the new id, and every further call with
  the old one asks again and reports a pin created.\<close>

definition moved_env :: pin_env where
  "moved_env = cafe_env\<lparr>pe_details := \<lambda>_. cafe_details ''g2''\<rparr>"

lemma refreshed_id_is_asked_again:
  "\<exists>p t. PinPlace moved_env ''bob'' ''g1'' cafe_map cafe_map = (Inr (p, True), True, t) \<and> PinPlace moved_env ''bob'' ''g1'' t t = (Inr (p, True), True, t)"
proof -
  have d: "Details ''k'' (cafe_details ''g2'') ''g1'' = Inr \<lparr>gp_id = ''g2'', gp_name = ''Cafe'', gp_address = [], gp_latitude = Fin 1, gp_longitude = Fin 2, gp_url = [], gp_types = []\<rparr>"
    by code_simp
  show ?thesis
    by (simp add: PinPlace_def PinByPlace_def UpsertPlacePin_def cafe_key moved_env_def cafe_env_def d cafe_map_def Let_def place_row_def update_where_def)
qed

end
