(* ===== verification/Api.thy ===== *)
theory Api
  imports Enqueue Jobs Places
begin

text \<open>
  The handlers that cost something, over the use cases they call: submissions (\<open>internal/httpapi/enqueue.go\<close>), the map
  (\<open>map.go\<close>, \<open>map_places.go\<close>) and what the website stores (\<open>web.go\<close>, \<open>internal/website\<close>), with the policies of
  \<open>internal/ratelimit/policies.go\<close>.  A decoded body is an argument, \<open>None\<close> when it does not decode; a refusal is its status,
  its code and the field or the hint.
\<close>

subsection \<open>Policies\<close>

definition Submission :: policy where
  "Submission = \<lparr>pl_name = ''submission'', pl_requests = 30, pl_window = hour, pl_burst = 0, pl_per_client = True\<rparr>"

definition SubmissionIP :: policy where
  "SubmissionIP = \<lparr>pl_name = ''submission_ip'', pl_requests = 60, pl_window = hour, pl_burst = 0, pl_per_client = False\<rparr>"

definition SearchUser :: policy where
  "SearchUser = \<lparr>pl_name = ''search'', pl_requests = 30, pl_window = minute, pl_burst = 0, pl_per_client = True\<rparr>"

definition SearchIP :: policy where
  "SearchIP = \<lparr>pl_name = ''search_ip'', pl_requests = 90, pl_window = minute, pl_burst = 0, pl_per_client = False\<rparr>"

definition MapPinUser :: policy where
  "MapPinUser = \<lparr>pl_name = ''map_pin'', pl_requests = 20, pl_window = hour, pl_burst = 0, pl_per_client = True\<rparr>"

definition MapPinIP :: policy where
  "MapPinIP = \<lparr>pl_name = ''map_pin_ip'', pl_requests = 60, pl_window = hour, pl_burst = 0, pl_per_client = False\<rparr>"

definition FeedbackIP :: policy where
  "FeedbackIP = \<lparr>pl_name = ''feedback_ip'', pl_requests = 20, pl_window = hour, pl_burst = 0, pl_per_client = False\<rparr>"

definition LinkClick :: policy where
  "LinkClick = \<lparr>pl_name = ''link_click_ip'', pl_requests = 120, pl_window = minute, pl_burst = 0, pl_per_client = False\<rparr>"

text \<open>What the limiter of one request takes from outside: whether there is one, for which subjects Redis fails, the clock of
  the caller and of Redis; and who asks.\<close>

record limit_env =
  le_limiter :: bool
  le_fault :: "string \<Rightarrow> string option"
  le_now :: int
  le_server :: int
  le_user :: string
  le_client :: string
  le_ip :: string

definition allow :: "limit_env \<Rightarrow> policy \<Rightarrow> policy \<Rightarrow> buckets \<Rightarrow> metered \<times> buckets" where
  "allow e u ip b = allowMetered (le_limiter e) (le_fault e) (le_now e) (le_server e) (le_user e) (le_client e) (le_ip e) u ip b"

text \<open>\<open>time.Duration.String\<close> of whole seconds, at least one: what the header \<open>Retry-After\<close> is set to.\<close>

definition formatSeconds :: "duration \<Rightarrow> string" where
  "formatSeconds d =
     (let s = max 1 (d div second); h = s div 3600; m = s div 60 mod 60; r = s mod 60
      in (if 0 < h then show_int h @ ''h'' @ show_int m @ ''m'' else if 0 < m then show_int m @ ''m'' else []) @ show_int r @ ''s'')"

definition refuse_metered :: "string \<Rightarrow> metered \<Rightarrow> 'a http_answer" where
  "refuse_metered unavailable m =
     (case m of Metered_limited d \<Rightarrow> Refused 429 ''rate_limited'' (formatSeconds d) | _ \<Rightarrow> Refused 503 unavailable [])"

subsection \<open>Submissions\<close>

record submit_body =
  sb_text :: string
  sb_collections :: "string list"

record job_body =
  jb_already_saved :: bool
  jb_job :: enqueue_job
  jb_message :: string

datatype submitted = SavedNow Enqueue.reel_record bool | Processing job_body

text \<open>\<open>presentJob\<close> fills two fields of the job record for its message.\<close>

definition message_record :: "enqueue_job \<Rightarrow> job_record" where
  "message_record j =
     \<lparr>jr_id = [], jr_user = [], jr_url = [], jr_normalized = None, jr_platform = None, jr_version = None, jr_status = status_text (ej_status j),
      jr_step = ej_step j, jr_progress = 0, jr_failure = None, jr_message = None, jr_result = None, jr_attempts = 0, jr_max_attempts = 0,
      jr_next_retry = None, jr_collections = [], jr_created = None, jr_updated = None, jr_completed = None\<rparr>"

definition presentJob :: "(time \<Rightarrow> string) \<Rightarrow> enqueue_job \<Rightarrow> bool \<Rightarrow> job_body" where
  "presentJob local j already = \<lparr>jb_already_saved = already, jb_job = j, jb_message = StatusMessage local (message_record j)\<rparr>"

text \<open>The status of an answer is 200 for a reel and 202 for a job.  An outcome without what its kind promises would be a nil
  pointer, whose panic is recovered as an internal error.\<close>

definition respondToSubmission :: "(time \<Rightarrow> string) \<Rightarrow> err + outcome \<Rightarrow> (nat \<times> submitted) http_answer" where
  "respondToSubmission local result =
     (case result of
        Inl ErrActiveJobLimit \<Rightarrow> Refused 429 ''active_job_limit'' []
      | Inl ErrIdempotencyMismatch \<Rightarrow> Refused 409 ''idempotency_conflict'' []
      | Inl ErrCollectionUnreachable \<Rightarrow> validation ''collection_ids''
      | Inl ErrLimitReached \<Rightarrow> Refused 503 ''spend_limit_reached'' []
      | Inl ErrUnsupported \<Rightarrow> validation ''url''
      | Inl _ \<Rightarrow> Refused 500 ''submission_failed'' []
      | Inr r \<Rightarrow>
          (if res_kind r = AlreadySaved \<or> res_kind r = Reused
           then (case res_reel r of None \<Rightarrow> Refused 500 ''internal_error'' [] | Some x \<Rightarrow> Answer (200, SavedNow x (WasAlreadySaved r)))
           else (case res_job r of None \<Rightarrow> Refused 500 ''internal_error'' [] | Some j \<Rightarrow> Answer (202, Processing (presentJob local j (WasAlreadySaved r))))))"

text \<open>\<open>submit\<close> is the use case.\<close>

definition handle_submission ::
  "string \<Rightarrow> (string \<Rightarrow> request) \<Rightarrow> (request \<Rightarrow> world \<Rightarrow> err + outcome \<times> world) \<Rightarrow> (time \<Rightarrow> string) \<Rightarrow> limit_env \<Rightarrow> string \<Rightarrow> submit_body option
   \<Rightarrow> buckets \<times> world \<Rightarrow> (nat \<times> submitted) http_answer \<times> buckets \<times> world" where
  "handle_submission field mk submit local e key body st =
     (case st of (b, w) \<Rightarrow>
        if key = [] then (validation ''Idempotency-Key'', st)
        else (case body of
           None \<Rightarrow> (validation ''body'', st)
         | Some x \<Rightarrow>
             if sb_text x = [] then (validation field, st)
             else (case allow e Submission SubmissionIP b of
                Pair Metered_ok b1 \<Rightarrow>
                  (case submit (mk (sb_text x)) w of
                     Inl err \<Rightarrow> (respondToSubmission local (Inl err), b1, w)
                   | Inr (r, w1) \<Rightarrow> (respondToSubmission local (Inr r), b1, w1))
              | Pair m b1 \<Rightarrow> (refuse_metered ''processing_unavailable'' m, b1, w))))"

definition handleSubmitReel where
  "handleSubmitReel submit local e key body st =
     handle_submission ''url'' (\<lambda>t. \<lparr>rq_user = le_user e, rq_url = t, rq_payload = [], rq_collections = (case body of None \<Rightarrow> [] | Some x \<Rightarrow> sb_collections x),
        rq_key = key, rq_endpoint = ''processing-jobs/reels''\<rparr>) submit local e key body st"

definition handleNativeShare where
  "handleNativeShare submit local e key body st =
     handle_submission ''raw_payload_text'' (\<lambda>t. \<lparr>rq_user = le_user e, rq_url = [], rq_payload = t, rq_collections = (case body of None \<Rightarrow> [] | Some x \<Rightarrow> sb_collections x),
        rq_key = key, rq_endpoint = ''native-shares/reels''\<rparr>) submit local e key body st"

definition handleResolveShare :: "(string \<Rightarrow> string + source_identity) \<Rightarrow> string option \<Rightarrow> source_identity option http_answer" where
  "handleResolveShare resolve body =
     (case body of
        None \<Rightarrow> validation ''body''
      | Some t \<Rightarrow> if t = [] then validation ''raw_payload_text''
                  else Answer (case resolve t of Inl _ \<Rightarrow> None | Inr i \<Rightarrow> Some i))"

subsection \<open>The map\<close>

definition geoReason :: "geo_err \<Rightarrow> string" where
  "geoReason e =
     (case e of ErrNotFinite \<Rightarrow> ''must be a finite number'' | ErrEmptyBounds \<Rightarrow> ''south must be below north'' | ErrOutOfRange \<Rightarrow> ''is outside the range of the world'')"

text \<open>\<open>float_of\<close> is \<open>strconv.ParseFloat\<close>.\<close>

definition floatParam :: "(string \<Rightarrow> float64 option) \<Rightarrow> (string \<Rightarrow> string) \<Rightarrow> string \<Rightarrow> (float64 \<Rightarrow> 'a http_answer) \<Rightarrow> 'a http_answer" where
  "floatParam float_of q name k =
     (if q name = [] then validation name else case float_of (q name) of None \<Rightarrow> validation name | Some v \<Rightarrow> k v)"

definition handleMapPins ::
  "(string \<Rightarrow> float64 option) \<Rightarrow> (bounds \<Rightarrow> geo_point \<Rightarrow> bool) \<Rightarrow> string option \<Rightarrow> string \<Rightarrow> (string \<Rightarrow> string) \<Rightarrow> map_store \<Rightarrow> (pin list \<times> bool) http_answer" where
  "handleMapPins float_of covers fault user q s =
     floatParam float_of q ''south'' (\<lambda>south. floatParam float_of q ''west'' (\<lambda>west. floatParam float_of q ''north'' (\<lambda>north. floatParam float_of q ''east'' (\<lambda>east.
       case NewBounds south west north east of
         Inl e \<Rightarrow> Refused 422 ''validation_error'' (''bounds '' @ geoReason e)
       | Inr b \<Rightarrow> (case Pins fault covers user b (trim_space (q ''category'')) s of
                    Inl _ \<Rightarrow> Refused 500 ''map_failed'' [] | Inr r \<Rightarrow> Answer r)))))"

text \<open>The radius is refused when it is at most 0 or more than 100000, which a value that is no number is not.  \<open>rat_of\<close> is the
  radius as PostGIS takes it.\<close>

definition radiusParam :: "(string \<Rightarrow> float64 option) \<Rightarrow> string \<Rightarrow> (float64 \<Rightarrow> 'a http_answer) \<Rightarrow> 'a http_answer" where
  "radiusParam float_of raw k =
     (if raw = [] then k (Fin 5000)
      else (case float_of raw of None \<Rightarrow> validation ''radius_metres''
        | Some v \<Rightarrow> if f_less v (Fin 0) \<or> v = Fin 0 \<or> f_less (Fin 100000) v then validation ''radius_metres'' else k v))"

definition handleMapNearby ::
  "(string \<Rightarrow> float64 option) \<Rightarrow> (float64 \<Rightarrow> rat) \<Rightarrow> (geo_point \<Rightarrow> geo_point \<Rightarrow> rat) \<Rightarrow> string option \<Rightarrow> string \<Rightarrow> (string \<Rightarrow> string) \<Rightarrow> map_store \<Rightarrow> pin list http_answer" where
  "handleMapNearby float_of rat_of metres fault user q s =
     floatParam float_of q ''latitude'' (\<lambda>x. floatParam float_of q ''longitude'' (\<lambda>y.
       case NewPoint x y of
         Inl e \<Rightarrow> Refused 422 ''validation_error'' (''latitude '' @ geoReason e)
       | Inr p \<Rightarrow> radiusParam float_of (q ''radius_metres'') (\<lambda>r. intParam ''limit'' (q ''limit'') 50 1 (int MaxPins) (\<lambda>limit.
           case Nearby fault metres user p (rat_of r) limit s of Inl _ \<Rightarrow> Refused 500 ''map_failed'' [] | Inr ps \<Rightarrow> Answer ps))))"

record pin_input =
  pi_name :: string
  pi_address :: "string option"
  pi_latitude :: float64
  pi_longitude :: float64

definition handleCreateManualPin :: "string option \<Rightarrow> string \<Rightarrow> time \<Rightarrow> string \<Rightarrow> pin_input option \<Rightarrow> map_store \<Rightarrow> pin http_answer \<times> map_store" where
  "handleCreateManualPin fault new now user body s =
     (case body of
        None \<Rightarrow> (validation ''body'', s)
      | Some x \<Rightarrow>
          if pi_name x = [] then (validation ''name'', s)
          else (case NewPoint (pi_latitude x) (pi_longitude x) of
             Inl e \<Rightarrow> (Refused 422 ''validation_error'' (''latitude '' @ geoReason e), s)
           | Inr p \<Rightarrow> (case CreateManualPin fault new now user (pi_name x) (pi_address x) p s of
                Inl _ \<Rightarrow> (Refused 500 ''map_failed'' [], s) | Inr (q, t) \<Rightarrow> (Answer q, t))))"

definition map_change :: "string \<Rightarrow> string \<Rightarrow> map_err + map_store \<Rightarrow> map_store \<Rightarrow> unit http_answer \<times> map_store" where
  "map_change missing failed r s =
     (case r of Inl PinNotFound \<Rightarrow> (Refused 404 missing [], s) | Inl (PinOther _) \<Rightarrow> (Refused 500 failed [], s) | Inr t \<Rightarrow> (Answer (), t))"

definition handleDeleteManualPin :: "(string \<Rightarrow> string option) \<Rightarrow> string option \<Rightarrow> string \<Rightarrow> string \<Rightarrow> map_store \<Rightarrow> unit http_answer \<times> map_store" where
  "handleDeleteManualPin uuid_of fault user raw s =
     (case uuid_of raw of None \<Rightarrow> (Refused 404 ''pin_not_found'' [], s)
      | Some i \<Rightarrow> map_change ''pin_not_found'' ''map_failed'' (DeleteManualPin fault user i s) s)"

definition handleDeleteMapItem :: "(string \<Rightarrow> string option) \<Rightarrow> string option \<Rightarrow> string \<Rightarrow> string \<Rightarrow> map_store \<Rightarrow> unit http_answer \<times> map_store" where
  "handleDeleteMapItem uuid_of fault user raw s =
     map_change ''map_item_not_found'' ''map_item_remove_failed'' (DeleteItem uuid_of fault user raw s) s"

definition handleHidePin :: "(string \<Rightarrow> string option) \<Rightarrow> string option \<Rightarrow> string \<Rightarrow> string \<Rightarrow> bool option \<Rightarrow> map_store \<Rightarrow> unit http_answer \<times> map_store" where
  "handleHidePin uuid_of fault user raw body s =
     (case uuid_of raw of None \<Rightarrow> (Refused 404 ''pin_not_found'' [], s)
      | Some i \<Rightarrow> (case body of None \<Rightarrow> (validation ''body'', s)
         | Some h \<Rightarrow> map_change ''pin_not_found'' ''map_failed'' (HidePin fault user i h s) s))"

text \<open>\<open>find\<close> is \<open>Places.Search\<close> of a text, a category and a limit.  Its length is counted in runes.\<close>

definition handleMapPlaceSearch ::
  "limit_env \<Rightarrow> (string \<Rightarrow> string \<Rightarrow> nat \<Rightarrow> string + place_search) \<Rightarrow> (string \<Rightarrow> string) \<Rightarrow> buckets \<Rightarrow> place_search http_answer \<times> buckets" where
  "handleMapPlaceSearch e look_up q b =
     (let text = trim_space (q ''query'') in
      if rune_count text < MinPlaceQuery then (validation ''query'', b)
      else (case intParam ''limit'' (q ''limit'') 8 1 (int MaxPlaceResults) Answer of
              Refused s c f \<Rightarrow> (Refused s c f, b)
            | Answer limit \<Rightarrow>
                (case allow e SearchUser SearchIP b of
                   Pair Metered_ok b1 \<Rightarrow>
                     (case look_up text (trim_space (q ''category'')) (nat limit) of Inl _ \<Rightarrow> (Refused 500 ''map_failed'' [], b1) | Inr r \<Rightarrow> (Answer r, b1))
                 | Pair m b1 \<Rightarrow> (refuse_metered ''search_unavailable'' m, b1))))"

record place_input =
  in_place :: string
  in_place_camel :: string

definition handlePinMapPlace ::
  "limit_env \<Rightarrow> pin_env \<Rightarrow> map_store \<Rightarrow> place_input option \<Rightarrow> buckets \<times> map_store \<Rightarrow> (nat \<times> pin) http_answer \<times> buckets \<times> map_store" where
  "handlePinMapPlace e pe earlier body st =
     (case st of (b, s) \<Rightarrow>
        (case body of None \<Rightarrow> (validation ''body'', st)
         | Some x \<Rightarrow>
             (let i = (if trim_space (in_place x) = [] then trim_space (in_place_camel x) else trim_space (in_place x)) in
              if i = [] then (validation ''google_place_id'', st)
              else (case allow e MapPinUser MapPinIP b of
                 Pair Metered_ok b1 \<Rightarrow>
                   (case PinPlace pe (le_user e) i earlier s of
                      (Inl NoSuchPlace, asked, t) \<Rightarrow> (Refused 404 ''place_not_found'' [], b1, t)
                    | (Inl (PlaceTrouble _), asked, t) \<Rightarrow> (Refused 500 ''map_failed'' [], b1, t)
                    | (Inr (p, created), asked, t) \<Rightarrow> (Answer (if created then 201 else 200, p), b1, t))
               | Pair m b1 \<Rightarrow> (refuse_metered ''map_unavailable'' m, b1, s)))))"

subsection \<open>The website\<close>

definition MaxMessage :: nat where "MaxMessage = 2000"
definition maxEmail :: nat where "maxEmail = 254"
definition maxHeaderCap :: nat where "maxHeaderCap = 500"
definition maxCountry :: nat where "maxCountry = 8"

definition Topics :: "string list" where
  "Topics = [''Feedback'', ''Support'', ''Partnership'', ''Privacy request'']"

definition Targets :: "string list" where
  "Targets = [''play'', ''ios'']"

record feedback =
  fb_topic :: string
  fb_email :: string
  fb_message :: string

record click =
  cl_target :: string
  cl_referer :: string
  cl_agent :: string
  cl_country :: string

text \<open>The error is the field; \<open>mail\<close> is \<open>mail.ParseAddress\<close> with the address it finds.\<close>

definition NormalizeFeedback :: "(string \<Rightarrow> string option) \<Rightarrow> feedback \<Rightarrow> string + feedback" where
  "NormalizeFeedback mail f =
     (let email = trim_space (fb_email f); message = trim_space (fb_message f)
      in if fb_topic f \<notin> set Topics then Inl ''topic''
         else if message = [] \<or> MaxMessage < rune_count message then Inl ''message''
         else if email \<noteq> [] \<and> (maxEmail < length email \<or> mail email \<noteq> Some email) then Inl ''email''
         else Inr (f\<lparr>fb_email := email, fb_message := message\<rparr>))"

definition cut_runes :: "string \<Rightarrow> nat \<Rightarrow> string" where
  "cut_runes v n = (if rune_count v \<le> n then v else take_runes n v)"

definition NormalizeClick :: "click \<Rightarrow> string + click" where
  "NormalizeClick c =
     (if cl_target c \<notin> set Targets then Inl ''target''
      else Inr (c\<lparr>cl_referer := cut_runes (cl_referer c) maxHeaderCap, cl_agent := cut_runes (cl_agent c) maxHeaderCap,
                 cl_country := cut_runes (cl_country c) maxCountry\<rparr>))"

record feedback_row =
  fr_id :: string
  fr_user :: "string option"
  fr_topic :: string
  fr_email :: "string option"
  fr_message :: string

record click_row =
  ck_target :: string
  ck_referer :: "string option"
  ck_agent :: "string option"
  ck_country :: "string option"

definition SubmitFeedback :: "(string \<Rightarrow> string option) \<Rightarrow> string option \<Rightarrow> string \<Rightarrow> string \<Rightarrow> feedback \<Rightarrow> feedback_row list
    \<Rightarrow> (string + string) + string \<times> feedback_row list" where
  "SubmitFeedback mail fault new user f rows =
     (case NormalizeFeedback mail f of
        Inl field \<Rightarrow> Inl (Inl field)
      | Inr g \<Rightarrow> (case fault of Some m \<Rightarrow> Inl (Inr m)
         | None \<Rightarrow> Inr (new, rows @ [\<lparr>fr_id = new, fr_user = nonempty user, fr_topic = fb_topic g, fr_email = nonempty (fb_email g), fr_message = fb_message g\<rparr>])))"

definition RecordClick :: "string option \<Rightarrow> click \<Rightarrow> click_row list \<Rightarrow> (string + string) + click_row list" where
  "RecordClick fault c rows =
     (case NormalizeClick c of
        Inl field \<Rightarrow> Inl (Inl field)
      | Inr g \<Rightarrow> (case fault of Some m \<Rightarrow> Inl (Inr m)
         | None \<Rightarrow> Inr (rows @ [\<lparr>ck_target = cl_target g, ck_referer = nonempty (cl_referer g), ck_agent = nonempty (cl_agent g), ck_country = nonempty (cl_country g)\<rparr>])))"

definition allowWebWrite :: "limit_env \<Rightarrow> policy \<Rightarrow> buckets \<Rightarrow> metered \<times> buckets" where
  "allowWebWrite e p b =
     (if \<not> le_limiter e then (Metered_unavailable, b) else draw (le_fault e) (le_now e) (le_server e) [(p, le_ip e)] b)"

text \<open>\<open>bearer\<close> is the user of a bearer token that verifies; without one the message is anonymous.\<close>

definition handleSubmitFeedback ::
  "limit_env \<Rightarrow> (string \<Rightarrow> string option) \<Rightarrow> string option \<Rightarrow> string \<Rightarrow> string option \<Rightarrow> feedback option \<Rightarrow> buckets \<times> feedback_row list
   \<Rightarrow> string http_answer \<times> buckets \<times> feedback_row list" where
  "handleSubmitFeedback e mail fault new bearer body st =
     (case st of (b, rows) \<Rightarrow>
        (case body of None \<Rightarrow> (validation ''body'', st)
         | Some f \<Rightarrow>
             (case allowWebWrite e FeedbackIP b of
                Pair Metered_ok b1 \<Rightarrow>
                  (case SubmitFeedback mail fault new (deref bearer) f rows of
                     Inl (Inl field) \<Rightarrow> (validation field, b1, rows)
                   | Inl (Inr _) \<Rightarrow> (Refused 500 ''feedback_failed'' [], b1, rows)
                   | Inr (i, rows1) \<Rightarrow> (Answer i, b1, rows1))
              | Pair m b1 \<Rightarrow> (refuse_metered ''feedback_unavailable'' m, b1, rows))))"

definition handleRecordLinkClick ::
  "limit_env \<Rightarrow> string option \<Rightarrow> click option \<Rightarrow> buckets \<times> click_row list \<Rightarrow> unit http_answer \<times> buckets \<times> click_row list" where
  "handleRecordLinkClick e fault body st =
     (case st of (b, rows) \<Rightarrow>
        (case body of None \<Rightarrow> (validation ''body'', st)
         | Some c \<Rightarrow>
             (case allowWebWrite e LinkClick b of
                Pair Metered_ok b1 \<Rightarrow>
                  (case RecordClick fault c rows of
                     Inl (Inl field) \<Rightarrow> (validation field, b1, rows)
                   | Inl (Inr _) \<Rightarrow> (Refused 500 ''link_click_failed'' [], b1, rows)
                   | Inr rows1 \<Rightarrow> (Answer (), b1, rows1))
              | Pair m b1 \<Rightarrow> (refuse_metered ''link_clicks_unavailable'' m, b1, rows))))"

subsection \<open>What the buckets let through\<close>

text \<open>One request for a submission, on either route, and a sequence of them.\<close>

record submit_call =
  sc_native :: bool
  sc_submit :: "request \<Rightarrow> world \<Rightarrow> err + outcome \<times> world"
  sc_env :: limit_env
  sc_key :: string
  sc_body :: "submit_body option"

definition run_call :: "(time \<Rightarrow> string) \<Rightarrow> submit_call \<Rightarrow> buckets \<times> world \<Rightarrow> (nat \<times> submitted) http_answer \<times> buckets \<times> world" where
  "run_call local c st =
     (if sc_native c then handleNativeShare (sc_submit c) local (sc_env c) (sc_key c) (sc_body c) st
      else handleSubmitReel (sc_submit c) local (sc_env c) (sc_key c) (sc_body c) st)"

text \<open>How often the use case of a submission was run for a user: an answer, or a refusal that is not the limiter's or the
  decoder's own.\<close>

definition went_through :: "submit_call \<Rightarrow> buckets \<times> world \<Rightarrow> bool" where
  "went_through c st =
     (sc_key c \<noteq> [] \<and> (case sc_body c of None \<Rightarrow> False | Some x \<Rightarrow> sb_text x \<noteq> [])
      \<and> fst (allow (sc_env c) Submission SubmissionIP (fst st)) = Metered_ok)"

fun passed :: "(time \<Rightarrow> string) \<Rightarrow> string \<Rightarrow> submit_call list \<Rightarrow> buckets \<times> world \<Rightarrow> nat" where
  "passed local u [] st = 0"
| "passed local u (c # cs) st =
     (if le_user (sc_env c) = u \<and> went_through c st then 1 else 0) + passed local u cs (snd (run_call local c st))"

lemma run_call_buckets:
  "fst (snd (run_call local c st)) =
     (if sc_key c \<noteq> [] \<and> (case sc_body c of None \<Rightarrow> False | Some x \<Rightarrow> sb_text x \<noteq> [])
      then snd (allow (sc_env c) Submission SubmissionIP (fst st)) else fst st)"
  by (auto simp: run_call_def handleNativeShare_def handleSubmitReel_def handle_submission_def
      split: prod.splits option.splits metered.splits sum.splits)

lemma run_call_stopped: "\<not> went_through c st \<Longrightarrow> snd (snd (run_call local c st)) = snd st \<and> (\<exists>s k f. fst (run_call local c st) = Refused s k f)"
  by (auto simp: run_call_def handleNativeShare_def handleSubmitReel_def handle_submission_def went_through_def validation_def refuse_metered_def
      split: prod.splits option.splits metered.splits)

lemma draw_append:
  "draw f now server (xs @ ys) b = (case draw f now server xs b of (Metered_ok, b1) \<Rightarrow> draw f now server ys b1 | r \<Rightarrow> r)"
  by (induction xs arbitrary: b) (auto simp: Let_def split: prod.splits sum.splits metered.splits if_splits)

lemma draw_other:
  "\<not> list_ex (\<lambda>x. pl_name (fst x) = n \<and> snd x = u) checks \<Longrightarrow> snd (draw f now server checks b) n u = b n u"
proof (induction checks arbitrary: b)
  case (Cons x checks)
  obtain p s where x: "x = (p, s)" by (cases x)
  have other: "\<not> (pl_name p = n \<and> s = u)" using Cons.prems x by simp
  have "snd (draw f now server checks c) n u = c n u" for c using Cons by simp
  then show ?case using other unfolding x by (auto simp: Let_def split: prod.splits sum.splits)
qed simp

text \<open>What a request does to the bucket of its user, and that it does nothing to the bucket of another.\<close>

definition checks_of :: "limit_env \<Rightarrow> (policy \<times> string) list" where
  "checks_of e = meteredChecks (le_user e) (le_client e) (le_ip e) Submission SubmissionIP"

lemma names [simp]: "pl_name Submission = ''submission''" "pl_name SubmissionIP = ''submission_ip''" "pl_per_client Submission"
  by (simp_all add: Submission_def SubmissionIP_def)

lemma bar_differs: "CHR ''|'' \<notin> set u \<Longrightarrow> v @ ''|client:'' @ c \<noteq> u"
  by auto

lemma other_bucket:
  assumes "CHR ''|'' \<notin> set u" and "le_user e \<noteq> u"
  shows "snd (allow e Submission SubmissionIP b) ''submission'' u = b ''submission'' u"
proof -
  have "\<not> list_ex (\<lambda>x. pl_name (fst x) = ''submission'' \<and> snd x = u) (checks_of e)"
    using assms by (auto simp: checks_of_def meteredChecks_def UserSubjects_def list_ex_iff)
  then show ?thesis using draw_other by (simp add: allow_def allowMetered_def checks_of_def)
qed

lemma own_bucket:
  assumes "CHR ''|'' \<notin> set u" and "le_user e = u"
  shows "(snd (allow e Submission SubmissionIP b) ''submission'' u = b ''submission'' u \<and> fst (allow e Submission SubmissionIP b) \<noteq> Metered_ok)
    \<or> (\<exists>d. Allow_rate None Submission (le_now e) (le_server e) (b ''submission'' u) = (Inr d, snd (allow e Submission SubmissionIP b) ''submission'' u)
         \<and> (fst (allow e Submission SubmissionIP b) = Metered_ok \<longrightarrow> rd_allowed d))"
proof (cases "le_limiter e")
  case False
  then show ?thesis by (simp add: allow_def allowMetered_def)
next
  case True
  let ?draw = "draw (le_fault e) (le_now e) (le_server e)"
  define pre where "pre = (if le_client e = [] then [] else [(Submission, u @ ''|client:'' @ le_client e)])"
  have checks: "checks_of e = pre @ [(Submission, u), (SubmissionIP, le_ip e)]"
    using assms(2) by (simp add: checks_of_def meteredChecks_def UserSubjects_def pre_def)
  have "\<not> list_ex (\<lambda>x. pl_name (fst x) = ''submission'' \<and> snd x = u) pre" using bar_differs [OF assms(1), of u] by (simp add: pre_def)
  then have cell: "snd (?draw pre b) ''submission'' u = b ''submission'' u" by (rule draw_other)
  obtain m1 b1 where d1: "?draw pre b = (m1, b1)" by (cases "?draw pre b")
  have a: "allow e Submission SubmissionIP b = (case m1 of Metered_ok \<Rightarrow> ?draw [(Submission, u), (SubmissionIP, le_ip e)] b1 | _ \<Rightarrow> (m1, b1))"
    using True checks by (simp add: allow_def allowMetered_def checks_of_def draw_append d1 split: metered.split)
  show ?thesis
  proof (cases m1)
    case Metered_ok
    have ip: "snd (?draw [(SubmissionIP, le_ip e)] c) ''submission'' u = c ''submission'' u" for c by (rule draw_other) simp
    show ?thesis
    proof (cases "le_fault e u")
      case None
      obtain d x where d: "Allow_rate None Submission (le_now e) (le_server e) (b1 ''submission'' u) = (Inr d, x)"
        using Allow_rate_total [of Submission "le_now e" "le_server e" "b1 ''submission'' u"] by (auto simp: limited_def Submission_def)
      let ?c = "b1(''submission'' := (b1 ''submission'')(u := x))"
      have "allow e Submission SubmissionIP b = (if rd_allowed d then ?draw [(SubmissionIP, le_ip e)] ?c else (Metered_limited (rd_retry_after d), ?c))"
        using None d by (simp add: a Metered_ok del: draw.simps) (simp add: Let_def)
      then show ?thesis using d cell d1 ip [of ?c] by (auto simp del: draw.simps)
    next
      case (Some f)
      then have "?draw [(Submission, u), (SubmissionIP, le_ip e)] b1 = (Metered_unavailable, b1)"
        by (simp add: Allow_rate_def Submission_def)
      then show ?thesis using cell d1 by (simp add: a Metered_ok)
    qed
  qed (use cell d1 in \<open>simp_all add: a\<close>)
qed

lemma passed_served:
  assumes "CHR ''|'' \<notin> set u" and "\<forall>c \<in> set cs. le_server (sc_env c) = le_now (sc_env c) + off"
    and "sorted (map (\<lambda>c. le_now (sc_env c)) cs)"
  shows "\<exists>ts. sorted ts \<and> set ts \<subseteq> set (map (\<lambda>c. le_now (sc_env c)) cs)
    \<and> passed local u cs st \<le> fst (serve Submission (map (\<lambda>t. (t, t + off)) ts) (fst st ''submission'' u))"
  using assms(2,3)
proof (induction cs arbitrary: st)
  case (Cons c cs)
  let ?st = "snd (run_call local c st)"
  let ?n = "le_now (sc_env c)"
  obtain ts where ts: "sorted ts" "set ts \<subseteq> set (map (\<lambda>c. le_now (sc_env c)) cs)"
      "passed local u cs ?st \<le> fst (serve Submission (map (\<lambda>t. (t, t + off)) ts) (fst ?st ''submission'' u))"
    using Cons.IH [of ?st] Cons.prems by auto
  define sent where "sent = (sc_key c \<noteq> [] \<and> (case sc_body c of None \<Rightarrow> False | Some x \<Rightarrow> sb_text x \<noteq> []))"
  have b: "fst ?st = (if sent then snd (allow (sc_env c) Submission SubmissionIP (fst st)) else fst st)"
    unfolding sent_def by (rule run_call_buckets)
  have through: "went_through c st = (sent \<and> fst (allow (sc_env c) Submission SubmissionIP (fst st)) = Metered_ok)"
    by (simp add: went_through_def sent_def)
  show ?case
  proof (cases "sent \<and> le_user (sc_env c) = u")
    case False
    then have "fst ?st ''submission'' u = fst st ''submission'' u" unfolding b using other_bucket [OF assms(1)] by auto
    then show ?thesis using ts False through by (intro exI [of _ ts]) auto
  next
    case True
    consider (same) "fst ?st ''submission'' u = fst st ''submission'' u" "\<not> went_through c st"
      | (drawn) d where "Allow_rate None Submission ?n (le_server (sc_env c)) (fst st ''submission'' u) = (Inr d, fst ?st ''submission'' u)"
          "went_through c st \<longrightarrow> rd_allowed d"
      using own_bucket [OF assms(1), of "sc_env c" "fst st"] True unfolding b through by auto
    then show ?thesis
    proof cases
      case same
      then show ?thesis using ts by (intro exI [of _ ts]) auto
    next
      case drawn
      have s: "le_server (sc_env c) = ?n + off" using Cons.prems by simp
      have "fst (serve Submission (map (\<lambda>t. (t, t + off)) (?n # ts)) (fst st ''submission'' u))
          = (if rd_allowed d then 1 else 0) + fst (serve Submission (map (\<lambda>t. (t, t + off)) ts) (fst ?st ''submission'' u))"
        using drawn(1) unfolding s by simp
      moreover have "sorted (?n # ts)" using ts(1,2) Cons.prems(2) by auto
      ultimately show ?thesis using ts drawn(2) by (intro exI [of _ "?n # ts"]) auto
    qed
  qed
qed (auto intro: exI [of _ "[]"])

lemma sorted_span:
  assumes "sorted (t # ts)" and "set (x # xs) \<subseteq> set (t # ts)"
  shows "last (x # xs) - x \<le> last (t # ts) - (t :: int)"
proof -
  have "y \<le> last ys" if "sorted ys" "y \<in> set ys" for y :: int and ys using that by (induction ys) auto
  moreover have "last (x # xs) \<in> set (t # ts)" using assms(2) last_in_set [of "x # xs"] by blast
  moreover have "t \<le> x" using assms by auto
  ultimately show ?thesis using assms(1) by (smt (verit))
qed

lemma budget: "a \<le> v + x / 1000 * (1 / 120) \<Longrightarrow> v \<le> 30 \<Longrightarrow> x \<le> y \<Longrightarrow> p \<le> a \<Longrightarrow> p \<le> 30 + y / (120000 :: rat)"
  by simp


subsection \<open>Examples\<close>

definition phone :: limit_env where
  "phone = \<lparr>le_limiter = True, le_fault = (\<lambda>_. None), le_now = 0, le_server = 0, le_user = ''ann'', le_client = [], le_ip = ''1.2.3.4''\<rparr>"

definition one_link :: submit_call where
  "one_link = \<lparr>sc_native = False, sc_submit = (\<lambda>r w. Inl ErrActiveJobLimit), sc_env = phone, sc_key = ''k'',
     sc_body = Some \<lparr>sb_text = ''https://a.co/'', sb_collections = []\<rparr>\<rparr>"


text \<open>A key that is no UUID is answered as a link that is not supported.\<close>

lemma bad_key_blames_the_link:
  "rq_user r \<noteq> [] \<Longrightarrow> \<not> se_uuid st (trim_space (rq_key r)) \<Longrightarrow>
   respondToSubmission local (map_sum id fst (Service_Submit resolve resolve_payload gate event st r w)) = validation ''url''"
  by (simp add: Service_Submit_def prepare_submission_def respondToSubmission_def)

text \<open>The hint to a refused caller is the text of a Go duration, not a number of seconds.\<close>

lemma retry_after_is_a_duration: "formatSeconds (90 * second) = ''1m30s''"
  by (simp add: formatSeconds_def) code_simp

text \<open>A name of blanks passes the check of the handler and not that of the service, which the client hears of as a failure.\<close>

lemma blank_name_is_an_internal_error:
  "trim_space name = [] \<Longrightarrow> name \<noteq> [] \<Longrightarrow> NewPoint x y = Inr p \<Longrightarrow>
   fst (handleCreateManualPin fault new now user (Some \<lparr>pi_name = name, pi_address = a, pi_latitude = x, pi_longitude = y\<rparr>) s) = Refused 500 ''map_failed'' []"
  by (simp add: handleCreateManualPin_def CreateManualPin_def)

text \<open>A radius that is no number passes its check.\<close>

lemma radius_may_be_no_number: "float_of raw = Some NaN \<Longrightarrow> raw \<noteq> [] \<Longrightarrow> radiusParam float_of raw k = k NaN"
  by (simp add: radiusParam_def)

end
