(* ===== verification/Spec2Isabelle.thy ===== *)
theory Spec2Isabelle
  imports Retries Collections System Spend RateLimit Jobs Reminders PriceTracks Daily Curator ReadCache Search Purge Access Plans Api
begin

text \<open>
  The reelpin service: a Go back end that turns a link shared from Instagram, YouTube, TikTok, X, LinkedIn, Reddit or
  Pinterest into a saved reel, and shows what a user saved as a list, a map, a search index, reminders and price watches.
  This library translates the core of the program (the packages under \<open>src/internal\<close>, paths below are relative to
  it) into HOL functions over explicit state, and proves what makes each part correct.

  \<^bold>\<open>How the program works.\<close>  The API (\<open>httpapi\<close>) verifies a token, meters the request and calls a use
  case.  A submission (\<open>enqueue\<close>) resolves the link to an identity (\<open>sourceidentity\<close>), asks the cost gate
  (\<open>spend\<close>) and writes, in one PostgreSQL transaction, the content, at most one live run, a job per user and an
  outbox event.  The dispatcher (\<open>outbox\<close>) publishes committed events to RabbitMQ (\<open>queue\<close>).  A worker takes
  the lease of the run (\<open>lease\<close>) and goes through its stages (\<open>pipeline\<close>); after each it commits a checkpoint
  under the lease, at the end it publishes the version, every subscriber's save and the events of the notifications in
  one transaction.  A failure schedules a retry through the outbox or ends the run; a sweeper gives expired leases back.
  The tables are what the parts share, so they meet in one record \<open>world\<close>; Redis holds only hints.  The readers
  (\<open>reels\<close>, \<open>mapview\<close>, \<open>search\<close>, \<open>jobs\<close>) answer from the same tables.

  \<^bold>\<open>Conventions.\<close>
  \<^item> A transaction is a function \<open>world \<Rightarrow> err + world\<close> (with its answer where it has one): PostgreSQL serialises
    what the code locks, and an error leaves the world as it was.  A worker's later writes are guarded by its lease
    (\<open>Lease.GuardedExec\<close>).  Code outside a transaction is a sequence of statements, each of which may fail on its own;
    the failures are arguments (\<open>fault\<close>, or a record of faults).
  \<^item> What other processes do in between is either an argument (in \<open>Pipeline\<close> a relation applied between
    two transactions of a run) or an \<open>inductive\<close> step relation with its reachable states.
  \<^item> A Go error is \<open>Inl\<close>, a value \<open>Inr\<close>, a nil pointer \<open>None\<close>, a string a list of bytes, a
    \<open>time.Time\<close> the nanoseconds since the epoch as an \<open>int\<close>.  Money and the rate limits of Go's \<open>int64\<close>
    are 64-bit words (\<open>Int64\<close>) and IP addresses are 32- and 128-bit words (\<open>NetAddr\<close>), so that wrap-around is
    seen.  A \<open>float64\<close> that may be NaN or infinite is the datatype \<open>float64\<close> of \<open>AiSchema\<close>; other
    floating point numbers are exact rationals (token buckets, prices, confidences, scores).
  \<^item> Code that is not in the repository is an argument: PostgreSQL's generated ids and its full-text, trigram, vector and
    PostGIS functions, SHA-256, HMAC and the JOSE library, JSON encoding, \<open>url.Parse\<close>, \<open>time.Parse\<close>,
    \<open>uuid.Parse\<close>, DNS and the network, the model, Firebase, Google.  Hypotheses on them are what their
    documentation promises (for instance that digests of different texts differ) and each theorem with one has a
    witness on concrete functions.
\<close>

text \<open>
  \<^bold>\<open>The core: from a submission to a saved reel.\<close>
  \<^item> \<open>Prelude\<close>: times, the part of \<open>strings\<close> and \<open>strconv\<close> in use, errors with their bind,
    lists as tables (\<open>update_where\<close>), the collection \<open>table_simps\<close>.  \<open>Database\<close>: the rows of
    \<open>migrations/00001_core.sql\<close>, \<open>00002_processing.sql\<close> and \<open>00004_collections.sql\<close>, and \<open>world\<close>.
  \<^item> \<open>Signals\<close> (\<open>outbox/signal.go\<close>, \<open>lease/inflight.go\<close>): the two Redis hints.  Locale
    \<open>wake_flag\<close>: a mark that is left is taken once.
  \<^item> \<open>Lease\<close> (\<open>lease/lease.go\<close>, \<open>sweeper.go\<close>): acquire, renew, guard, sweep.  Locale
    \<open>fenced_store\<close>: a claim once lost is never current again; interpreted on the lease transactions here and on the
    steps of the whole service in \<open>System\<close>.
  \<^item> \<open>Queue\<close> (\<open>queue/*.go\<close>): envelope, topology, publisher, consumer.  \<open>Outbox\<close>
    (\<open>outbox/outbox.go\<close>): insert, dispatch, the drain loop.  The lemmas: what is marked was confirmed, no event is
    sent more than \<open>maxAttempts\<close> times, the loop returns, a written event wakes the dispatcher.
  \<^item> \<open>AiSchema\<close> (\<open>ai/schema.go\<close>, \<open>geo/geo.go\<close>): what the model answers, normalised and
    validated.  \<open>Failure\<close> and \<open>Checkpoint\<close> (\<open>pipeline/failure.go\<close>, \<open>checkpoint.go\<close>):
    classes of errors; stage outputs that are only read back for the same inputs (locale \<open>checkpoint_store\<close>).
    \<open>Platform\<close> (\<open>platform/platform.go\<close>): the registry, the access scope, the environment of a worker.
  \<^item> \<open>Stages\<close>, \<open>Persist\<close>, \<open>Pipeline\<close>, \<open>Retries\<close> (\<open>pipeline/pipeline.go\<close>,
    \<open>geocode.go\<close>, \<open>persist.go\<close>): the handler of a delivery as the code writes it, with escalation to the media
    queue, the publishing transaction and what a failure commits.
  \<^item> \<open>Identity\<close> (\<open>sourceidentity/*.go\<close>) and \<open>Enqueue\<close> (\<open>enqueue/enqueue.go\<close>,
    \<open>postgres/enqueue.go\<close>): from a shared text to one live run per content.  \<open>Spend\<close> (\<open>spend/*.go\<close>,
    \<open>postgres/spend.go\<close>) and \<open>RateLimit\<close> (\<open>ratelimit/ratelimit.go\<close>): the two brakes.
  \<^item> \<open>Lifecycle\<close>, \<open>Guarded\<close>, \<open>System\<close>: the abstract specification.  A run is \<open>Waiting\<close>,
    \<open>Claimed\<close>, \<open>Succeeded\<close> or \<open>Broken\<close>; \<open>lifecycle\<close> is all it may do; \<open>abs_runs\<close> reads it
    off the rows.  \<open>sys_step\<close> is any committed transaction of submissions, workers, the sweeper, the dispatcher
    and collections.  Locale \<open>refinement\<close> is the simulation argument, interpreted on \<open>sys_step\<close> and the
    specification: every step keeps \<open>service_inv\<close> and moves the runs along the life cycle, from which follow that a
    finished run stays finished, that a waiting run has its wake-up, that no job outlives its run and that a worker
    which lost its lease writes nothing.  Only a worker's voluntary \<open>Release\<close> of a lease is no step of
    \<open>sys_step\<close>: it leaves a run waiting without an event, and the code calls it nowhere.

  \<^bold>\<open>Reading what was saved.\<close>
  \<^item> \<open>Collections\<close> (\<open>collections\<close>, \<open>postgres/collections.go\<close>): roles, items, share links, invites;
    who may do what over every sequence of operations.  \<open>Paging\<close>: keyset pages in general; the locale
    \<open>keyset_pager\<close> says when pages read in changing states show each row once, and is interpreted on the items of a
    collection and on the library.
  \<^item> \<open>Jobs\<close> (\<open>jobs\<close>, \<open>postgres/jobs.go\<close>): the job a client polls.  \<open>ReelPlatform\<close>,
    \<open>Reels\<close>, \<open>Cursor\<close>, \<open>Library\<close>, \<open>Facets\<close>, \<open>Discover\<close> (\<open>reels\<close>,
    \<open>postgres/reels.go\<close>, \<open>httpapi/reels.go\<close>): platforms and their legacy spellings, cards, the opaque cursor
    with its base64, pages and filters, filter trees with their counts, the Discover tab.
  \<^item> \<open>Search\<close> (\<open>search/search.go\<close>, \<open>service.go\<close>, \<open>httpapi/search.go\<close>): the arms, reciprocal
    rank fusion and the loading of the records.  \<open>ReadCache\<close> (\<open>readcache\<close>): cached reads under a
    generation, as a step relation of readers, writers and a Redis that loses keys.
  \<^item> \<open>MapView\<close> and \<open>Places\<close> (\<open>mapview\<close>, \<open>googleplaces\<close>): pins, hiding, own places.

  \<^bold>\<open>Around it.\<close>
  \<^item> \<open>NetAddr\<close> and \<open>SafeHttp\<close> (\<open>safehttp/safehttp.go\<close>): the address policy as a table of
    prefixes, the pinned dialer, redirects, capped bodies.
  \<^item> \<open>Notify\<close> (\<open>notify\<close>, \<open>cmd/worker/notifications.go\<close>); \<open>Scan\<close>: pages of a table by id;
    \<open>Reminders\<close> (\<open>reminders\<close>, \<open>postgres/reminders.go\<close>) with locale \<open>due_clock\<close> for the sorted
    set in Redis; \<open>PricePage\<close>, \<open>PriceTracks\<close>, \<open>Calendar\<close>, \<open>Daily\<close> (\<open>pricetracks\<close>):
    the price on a page, the watches, the run of a day.  Their step relations let any number of workers overlap,
    stop anywhere and lose Redis.
  \<^item> \<open>Curator\<close> (\<open>taxonomy\<close>): the weekly change of the category tree and its rollback.
  \<^item> \<open>Deletion\<close>, \<open>Purge\<close> (\<open>lifecycle\<close>, \<open>usermigration\<close>,
    \<open>migrations/00009_source_blocklist.sql\<close>, the sweep of \<open>storage/workspace.go\<close>): removing a reel, an account or
    a source with the foreign keys' cascades, and that what was removed does not come back.
  \<^item> \<open>Access\<close> (\<open>auth\<close>, \<open>sharetoken\<close>, \<open>ratelimit/ipbucket.go\<close>, \<open>httpapi/routes.go\<close>,
    \<open>server.go\<close>): tokens, signed buckets, the routes with the middlewares; \<open>Plans\<close> (\<open>entitlements\<close>);
    \<open>Api\<close> (\<open>ratelimit/policies.go\<close>, \<open>httpapi/enqueue.go\<close>, \<open>map.go\<close>, \<open>map_places.go\<close>,
    \<open>web.go\<close>, \<open>website\<close>): the handlers that cost something, metered.
\<close>

text \<open>
  \<^bold>\<open>Bounds and termination.\<close>  The batch of a dispatch, the page of a list, \<open>MaxPins\<close>, \<open>DiscoverScanLimit\<close>,
  \<open>FireBatch\<close> and every other limit are the code's own.  The drain loop of the outbox is a
  \<open>partial_function\<close> and is proved to return.  \<open>decodeNode\<close> of \<open>PricePage\<close> takes fuel; one more than twice the
  number of tokens is enough for every stream, since more changes nothing (\<open>decode_fuel\<close>).  The other loops that are not
  structural (\<open>find_urls\<close>, the redirects of \<open>do_from\<close>, \<open>Rehydrate\<close>, \<open>check_pages\<close>) come with
  their measures.  A sweeper, a dispatcher or a scheduler loops for ever; its state machine is the list or the relation of
  its rounds.

  \<^bold>\<open>What is simplified.\<close>  White space and the case of letters are those of ASCII.  Rounding of floating point
  numbers and their printing (\<open>%v\<close>, \<open>%.5f\<close>) are left out or arguments.  Rows that an \<open>ORDER BY\<close> does not
  order come in the order of the table; the order in which Go walks a map is the argument \<open>order\<close>.  Timeouts of the
  HTTP client are failures of the network.  Columns that only the backfill writes are absent.  The cascade of
  \<open>Deletion\<close> leaves out the tables that no other operation of its state reads (pins, profiles, grants, feedback,
  share tokens).  Path cleaning of \<open>http.ServeMux\<close>, regular expressions over HTML and JSON tokenizing are outside.

  \<^bold>\<open>What is not modelled.\<close>  The clients of other services and the scrapers (\<open>platform/*\<close>, \<open>ai/gemini.go\<close>,
  \<open>apify\<close>, \<open>reddit\<close>, \<open>embed\<close>) and the programs they run (\<open>media\<close>, \<open>cookies\<close>): the stages take
  their answers as arguments.  The MCP tools and the handlers that only decode, call a use case modelled here and encode.
  The one-off copy of the old database (\<open>backfill\<close>), \<open>config\<close>, \<open>metrics\<close>, \<open>load\<close>, \<open>drills\<close>,
  the evaluation harness of the search and the wiring under \<open>cmd\<close>.

  \<^bold>\<open>What the proofs showed.\<close>  Next to its theorems a theory states, as lemmas on concrete inputs, where the code
  does not do what it or its comments say: among others \<open>Api.retry_after_is_a_duration\<close>,
  \<open>Places.refreshed_id_is_asked_again\<close>, \<open>Retries.resumed_run_downloads_inline\<close> and
  \<open>Curator.claimed_application_passes\<close>.
\<close>

end
